(* ===== verification/Prelude.thy ===== *)
theory Prelude
  imports Complex_Main "HOL-Library.Word" "HOL-Library.Multiset"
begin

text \<open>
  Shared vocabulary of the development: JavaScript results that may throw,
  the error values every module of the context index raises, sequencing of
  fallible steps, and the list lemmas several components use.

  A thrown exception is a value of \<open>js_error\<close> on the left of a sum. The class
  of the error is a constructor, its code a constructor of the code's own union
  type, and its numeric detail record an association list, as the source keeps
  only integers there.
\<close>

section \<open>Error values\<close>

text \<open>
  \<open>ContextIndexFormatErrorCode\<close> (format-contract.ts) with the constructors in the
  order of the table \<open>CONTEXT_INDEX_FORMAT_ERRORS\<close>.
\<close>

datatype format_error_code =
    Magic_invalid | Revision_unsupported | Header_truncated
  | Header_checksum_mismatch | Reserved_not_zero | Section_table_truncated
  | Section_kind_unknown | Section_duplicate | Section_missing | Section_overlap
  | Section_out_of_bounds | Section_checksum_mismatch | Count_limit_exceeded
  | Offset_overflow | String_offset_invalid | String_not_utf8 | Csr_not_monotonic
  | Csr_length_mismatch | Reference_out_of_range

text \<open>\<open>ContextIndexErrorCode\<close> (reader-errors.ts).\<close>

datatype index_error_code =
    Context_index_missing | Context_index_stale | Context_index_format_unsupported
  | Context_index_checksum_mismatch | Context_index_truncated
  | Context_index_pointer_meta_divergent | Context_operation_journal_corrupt

text \<open>\<open>ContextIndexWriterErrorCode\<close> (writer-contract.ts).\<close>

datatype writer_error_code =
    Absolute_path | Lint_error | Unknown_enum | Dangling_edge | Count_limit
  | Duplicate_node | Lexicon_invariant

type_synonym detail = "(string \<times> int) list"

text \<open>\<open>ContextLexiconErrorCode\<close> (lexicon-contract.ts).\<close>

datatype lexicon_error_code =
    Field_not_lexical | Unknown_field | Machine_path | Lexicon_duplicate_node
  | Node_out_of_range | Lexicon_count_limit | Score_not_finite | Config_invalid

datatype js_error =
    Format_error format_error_code detail
  | Reader_error index_error_code
  | Writer_error writer_error_code detail
  | Lexicon_error lexicon_error_code detail
  | Range_error
  | Type_error
  | Plain_error string

type_synonym 'a res = "js_error + 'a"

section \<open>Sequencing\<close>

definition rbind :: "'e + 'a \<Rightarrow> ('a \<Rightarrow> 'e + 'b) \<Rightarrow> 'e + 'b" where
  "rbind m f = (case m of Inl e \<Rightarrow> Inl e | Inr x \<Rightarrow> f x)"

lemma rbind_simps [simp]:
  "rbind (Inl e) f = Inl e"
  "rbind (Inr x) f = f x"
  by (simp_all add: rbind_def)

lemma rbind_Inr_iff: "rbind m f = Inr y \<longleftrightarrow> (\<exists>x. m = Inr x \<and> f x = Inr y)"
  by (cases m) auto

lemma rbind_Inl_iff: "rbind m f = Inl e \<longleftrightarrow> m = Inl e \<or> (\<exists>x. m = Inr x \<and> f x = Inl e)"
  by (cases m) auto

lemma rbind_InrE [elim!]:
  assumes "rbind m f = Inr y"
  obtains x where "m = Inr x" "f x = Inr y"
  using assms by (auto simp: rbind_Inr_iff)

lemma rbind_cong [fundef_cong]:
  "m = m' \<Longrightarrow> (\<And>x. m' = Inr x \<Longrightarrow> f x = g x) \<Longrightarrow> rbind m f = rbind m' g"
  by (cases m') auto

text \<open>
  \<open>for_each\<close> is a loop whose body only checks: it runs the body on each element in
  order and stops at the first throw. \<open>map_res\<close> collects results.
\<close>

fun for_each :: "('a \<Rightarrow> 'e + unit) \<Rightarrow> 'a list \<Rightarrow> 'e + unit" where
  "for_each f [] = Inr ()"
| "for_each f (x # xs) = rbind (f x) (\<lambda>_. for_each f xs)"

fun map_res :: "('a \<Rightarrow> 'e + 'b) \<Rightarrow> 'a list \<Rightarrow> 'e + 'b list" where
  "map_res f [] = Inr []"
| "map_res f (x # xs) = rbind (f x) (\<lambda>y. rbind (map_res f xs) (\<lambda>ys. Inr (y # ys)))"

lemma unit_res_cases: "m = Inr () \<or> (\<exists>e. m = Inl e)" for m :: "'e + unit"
  by (cases m) auto

lemma for_each_Inr_iff: "for_each f xs = Inr () \<longleftrightarrow> (\<forall>x \<in> set xs. f x = Inr ())"
  by (induction xs) (auto simp: rbind_Inr_iff)

lemma for_each_cong [fundef_cong]:
  "xs = ys \<Longrightarrow> (\<And>x. x \<in> set ys \<Longrightarrow> f x = g x) \<Longrightarrow> for_each f xs = for_each g ys"
  by (induction ys arbitrary: xs) (auto intro!: rbind_cong)

lemma map_res_Inr_nth:
  "map_res f xs = Inr ys \<Longrightarrow>
     length ys = length xs \<and> (\<forall>i < length xs. f (xs ! i) = Inr (ys ! i))"
proof (induction xs arbitrary: ys)
  case (Cons x xs)
  then show ?case by (fastforce simp: rbind_Inr_iff less_Suc_eq_0_disj)
qed simp

lemma map_res_length: "map_res f xs = Inr ys \<Longrightarrow> length ys = length xs"
  using map_res_Inr_nth by blast

lemma map_res_total:
  "(\<And>x. x \<in> set xs \<Longrightarrow> f x = Inr (g x)) \<Longrightarrow> map_res f xs = Inr (map g xs)"
  by (induction xs) auto

lemma map_res_ex: "\<forall>x \<in> set xs. \<exists>y. f x = Inr y \<Longrightarrow> \<exists>ys. map_res f xs = Inr ys"
  by (induction xs) auto

text \<open>A loop over a list that updates a state and may throw.\<close>

fun fold_res :: "('a \<Rightarrow> 's \<Rightarrow> 'e + 's) \<Rightarrow> 'a list \<Rightarrow> 's \<Rightarrow> 'e + 's" where
  "fold_res f [] s = Inr s"
| "fold_res f (x # xs) s = rbind (f x s) (\<lambda>s. fold_res f xs s)"

text \<open>\<open>ensures P r\<close>: whatever \<open>r\<close> returns satisfies \<open>P\<close>.\<close>

definition ensures :: "('a \<Rightarrow> bool) \<Rightarrow> 'e + 'a \<Rightarrow> bool" where
  "ensures P r \<longleftrightarrow> (\<forall>x. r = Inr x \<longrightarrow> P x)"

lemma ensuresD: "ensures P r \<Longrightarrow> r = Inr x \<Longrightarrow> P x"
  by (simp add: ensures_def)

lemma ensures_simps [simp]: "ensures P (Inr x) \<longleftrightarrow> P x" "ensures P (Inl e)"
  by (simp_all add: ensures_def)

lemma ensures_bind: "ensures Q m \<Longrightarrow> (\<And>x. Q x \<Longrightarrow> ensures P (f x)) \<Longrightarrow> ensures P (rbind m f)"
  by (cases m) auto

lemma ensures_any: "(\<And>x. ensures P (f x)) \<Longrightarrow> ensures P (rbind m f)"
  by (cases m) auto

lemma ensures_if: "(b \<Longrightarrow> ensures P x) \<Longrightarrow> (\<not> b \<Longrightarrow> ensures P y) \<Longrightarrow> ensures P (if b then x else y)"
  by simp

lemma ensures_fold:
  "P s \<Longrightarrow> (\<And>x s. x \<in> set xs \<Longrightarrow> P s \<Longrightarrow> ensures P (f x s)) \<Longrightarrow> ensures P (fold_res f xs s)"
proof (induction xs arbitrary: s)
  case (Cons x xs)
  have "ensures P (f x s)" using Cons.prems by simp
  then show ?case
    unfolding fold_res.simps by (rule ensures_bind) (rule Cons.IH, auto intro: Cons.prems(2))
qed simp

lemma fold_res_each: "fold_res f xs s = Inr t \<Longrightarrow> x \<in> set xs \<Longrightarrow> \<exists>u v. f x u = Inr v"
  by (induction xs arbitrary: s) (auto simp: rbind_Inr_iff)

text \<open>\<open>raises E r\<close>: whatever \<open>r\<close> throws satisfies \<open>E\<close>.\<close>

definition raises :: "('e \<Rightarrow> bool) \<Rightarrow> 'e + 'a \<Rightarrow> bool" where
  "raises E r \<longleftrightarrow> (\<forall>e. r = Inl e \<longrightarrow> E e)"

named_theorems raises_intros \<open>composition rules for raises\<close>

lemma raises_Inr [simp, raises_intros]: "raises E (Inr x)"
  by (simp add: raises_def)

lemma raises_Inl [simp]: "raises E (Inl e) \<longleftrightarrow> E e"
  by (simp add: raises_def)

lemma raises_bind [raises_intros]:
  "raises E m \<Longrightarrow> (\<And>x. m = Inr x \<Longrightarrow> raises E (f x)) \<Longrightarrow> raises E (rbind m f)"
  by (cases m) (auto simp: raises_def)

lemma raises_for_each [raises_intros]:
  "(\<And>x. x \<in> set xs \<Longrightarrow> raises E (f x)) \<Longrightarrow> raises E (for_each f xs)"
  by (induction xs) (auto intro!: raises_bind)

lemma raises_map_res [raises_intros]:
  "(\<And>x. x \<in> set xs \<Longrightarrow> raises E (f x)) \<Longrightarrow> raises E (map_res f xs)"
  by (induction xs) (auto intro!: raises_bind)

section \<open>List lemmas\<close>

lemma nth_concat_stride:
  assumes "\<forall>r \<in> set rs. length r = w" and "i < length rs" and "k < w"
  shows "concat rs ! (i * w + k) = rs ! i ! k"
  using assms
proof (induction rs arbitrary: i)
  case (Cons r rs)
  then show ?case by (cases i) (auto simp: nth_append)
qed simp

lemma length_concat_stride: "\<forall>r \<in> set rs. length r = w \<Longrightarrow> length (concat rs) = length rs * w"
  by (induction rs) auto

lemma all_less_Suc: "(\<forall>i < Suc n. P i) \<longleftrightarrow> P 0 \<and> (\<forall>i < n. P (Suc i))"
  by (auto simp: less_Suc_eq_0_disj)

lemma map_res_Inr_iff:
  "map_res f xs = Inr ys \<longleftrightarrow>
     length ys = length xs \<and> (\<forall>i < length xs. f (xs ! i) = Inr (ys ! i))"
proof (induction xs arbitrary: ys)
  case (Cons x xs)
  then show ?case by (cases ys) (auto simp: rbind_Inr_iff all_less_Suc)
qed auto

text \<open>
  A loop that carries the previous row: one iteration, and the whole run as a condition
  on adjacent rows.
\<close>

lemma running_step:
  fixes n m :: nat
  assumes "n < m"
  shows "(\<forall>i \<in> {n..<m}. P (if i = n then p else f (i - 1)) i) \<longleftrightarrow>
     P p n \<and> (\<forall>i \<in> {Suc n..<m}. P (if i = Suc n then f n else f (i - 1)) i)"
proof -
  have split: "{n..<m} = insert n {Suc n..<m}" using assms by auto
  have "(if i = Suc n then f n else f (i - 1)) = f (i - 1)" for i by simp
  moreover have "(\<forall>i \<in> {Suc n..<m}. P (if i = n then p else f (i - 1)) i)
      \<longleftrightarrow> (\<forall>i \<in> {Suc n..<m}. P (f (i - 1)) i)"
    by (intro ball_cong refl) auto
  ultimately show ?thesis unfolding split by simp
qed

lemma running_all:
  "(\<forall>i \<in> {0..<m}. P (if i = 0 then p else f (i - 1)) i) \<longleftrightarrow>
     (0 < m \<longrightarrow> P p 0) \<and> (\<forall>i. Suc i < m \<longrightarrow> P (f i) (Suc i))" for m :: nat
  by (cases m) (auto simp: atLeast0LessThan lessThan_def all_less_Suc Ball_def)

lemma takeWhile_stop: "c \<notin> set xs \<Longrightarrow> takeWhile (\<lambda>b. b \<noteq> c) (xs @ c # ys) = xs"
  by (induction xs) auto

lemma dropWhile_stop: "c \<notin> set xs \<Longrightarrow> dropWhile (\<lambda>b. b \<noteq> c) (xs @ c # ys) = c # ys"
  by (induction xs) auto

lemma row_in_range: "i < n \<Longrightarrow> k + m \<le> w \<Longrightarrow> i * w + k + m \<le> n * w" for i :: nat
proof -
  assume "i < n" and k: "k + m \<le> w"
  then have "Suc i * w \<le> n * w" by (intro mult_le_mono1) simp
  with k show ?thesis by simp
qed

end
