(* ===== verification/Contracts.thy ===== *)
theory Contracts
  imports Prelude
begin

text \<open>
  The closed vocabularies of the context graph, from context-graph/contracts.ts and the
  code tables of runtime-index/writer-contract.ts and runtime-index/reader-layout.ts.
  A union of string literals is a datatype, and the \<open>as const\<close> array that fixes the byte
  code of each literal is the list of its constructors in the source's order.
\<close>

datatype ContextGraphNodeKind =
    Kind_file | Kind_symbol | Kind_module | Kind_command | Kind_route | Kind_pipeline | Kind_test
  | Kind_gate | Kind_schema | Kind_config | Kind_wiki_claim | Kind_source | Kind_proof
  | Kind_risk_domain

definition CONTEXT_GRAPH_NODE_KINDS :: "ContextGraphNodeKind list" where
  "CONTEXT_GRAPH_NODE_KINDS =
     [Kind_file, Kind_symbol, Kind_module, Kind_command, Kind_route, Kind_pipeline, Kind_test,
      Kind_gate, Kind_schema, Kind_config, Kind_wiki_claim, Kind_source, Kind_proof,
      Kind_risk_domain]"

datatype ContextGraphEdgeType =
    Contains | Defines | Imports | Reexports | References | Calls | Depends_on | Routes_to | Owns
  | Tests | Verified_by | Gated_by | Affected_by | Cites | Derived_from | Supports | Contradicts
  | Supersedes | Invalidates | Cochanged_with | Conflicts_with

definition CONTEXT_GRAPH_EDGE_TYPES :: "ContextGraphEdgeType list" where
  "CONTEXT_GRAPH_EDGE_TYPES =
     [Contains, Defines, Imports, Reexports, References, Calls, Depends_on, Routes_to, Owns,
      Tests, Verified_by, Gated_by, Affected_by, Cites, Derived_from, Supports, Contradicts,
      Supersedes, Invalidates, Cochanged_with, Conflicts_with]"

datatype ContextGraphEdgeConfidence = Exact | Syntactic | Manifest | Observed | Derived
datatype ContextGraphFreshness = Fresh | Stale | Unknown
datatype ContextGraphRisk = Low | Medium | High | Protected

definition FRESHNESS_CODES :: "ContextGraphFreshness list" where
  "FRESHNESS_CODES = [Fresh, Stale, Unknown]"
definition RISK_CODES :: "ContextGraphRisk list" where
  "RISK_CODES = [Low, Medium, High, Protected]"
definition CONFIDENCE_CODES :: "ContextGraphEdgeConfidence list" where
  "CONFIDENCE_CODES = [Exact, Syntactic, Manifest, Observed, Derived]"

text \<open>
  \<open>new Map(codes.map((value, index) => [value, index]))\<close>: the byte code of a literal.
\<close>

definition code_map :: "'a list \<Rightarrow> 'a \<rightharpoonup> nat" where
  "code_map codes = map_of (zip codes [0..<length codes])"

definition NODE_KIND_CODE :: "ContextGraphNodeKind \<rightharpoonup> nat" where
  "NODE_KIND_CODE = code_map CONTEXT_GRAPH_NODE_KINDS"
definition EDGE_TYPE_CODE :: "ContextGraphEdgeType \<rightharpoonup> nat" where
  "EDGE_TYPE_CODE = code_map CONTEXT_GRAPH_EDGE_TYPES"
definition FRESHNESS_CODE :: "ContextGraphFreshness \<rightharpoonup> nat" where
  "FRESHNESS_CODE = code_map FRESHNESS_CODES"
definition RISK_CODE :: "ContextGraphRisk \<rightharpoonup> nat" where
  "RISK_CODE = code_map RISK_CODES"
definition CONFIDENCE_CODE :: "ContextGraphEdgeConfidence \<rightharpoonup> nat" where
  "CONFIDENCE_CODE = code_map CONFIDENCE_CODES"

lemmas code_tables = CONTEXT_GRAPH_NODE_KINDS_def CONTEXT_GRAPH_EDGE_TYPES_def
  FRESHNESS_CODES_def RISK_CODES_def CONFIDENCE_CODES_def

lemma code_map_Some: "code_map codes x = Some i \<Longrightarrow> i < length codes \<and> codes ! i = x"
  unfolding code_map_def by (drule map_of_SomeD) (auto simp: in_set_zip)

lemma code_map_total: "x \<in> set codes \<Longrightarrow> \<exists>i. code_map codes x = Some i"
  unfolding code_map_def by (intro domD) (simp add: dom_map_of_zip)

lemma code_map_bound: "x \<in> set codes \<Longrightarrow> the (code_map codes x) < length codes"
  using code_map_total [of x codes] code_map_Some [of codes x] by auto

lemma code_map_nth: "distinct codes \<Longrightarrow> i < length codes \<Longrightarrow> code_map codes (codes ! i) = Some i"
  by (auto simp: code_map_def intro!: map_of_is_SomeI simp: in_set_zip)

lemma node_kinds_cover: "k \<in> set CONTEXT_GRAPH_NODE_KINDS"
  by (cases k) (simp_all add: code_tables)

lemma edge_types_cover: "t \<in> set CONTEXT_GRAPH_EDGE_TYPES"
  by (cases t) (simp_all add: code_tables)

lemma freshness_cover: "f \<in> set FRESHNESS_CODES"
  by (cases f) (simp_all add: code_tables)

lemma risk_cover: "r \<in> set RISK_CODES"
  by (cases r) (simp_all add: code_tables)

lemma confidence_cover: "c \<in> set CONFIDENCE_CODES"
  by (cases c) (simp_all add: code_tables)

lemma code_table_lengths:
  "length CONTEXT_GRAPH_NODE_KINDS = 14" "length CONTEXT_GRAPH_EDGE_TYPES = 21"
  "length FRESHNESS_CODES = 3" "length RISK_CODES = 4" "length CONFIDENCE_CODES = 5"
  by (simp_all add: code_tables)

end
