(* ===== verification/Bytes.thy ===== *)
theory Bytes
  imports Prelude
begin

text \<open>
  The platform's byte containers as the index uses them: a \<open>Uint8Array\<close> is a list
  of 8-bit words, a \<open>DataView\<close> read is a little-endian decoding that throws
  \<open>RangeError\<close> when it would leave the buffer, and a write into a freshly
  allocated buffer is an overlay. Numbers read from a buffer are naturals: a
  JavaScript number holds every 32-bit value and their sums without wrapping, and
  64-bit fields are read as \<open>BigInt\<close>.
\<close>

type_synonym byte = "8 word"
type_synonym bytes = "byte list"

named_theorems byte_simps \<open>reads through slices, appends and overlays\<close>

section \<open>Little-endian numbers\<close>

primrec le_nat :: "bytes \<Rightarrow> nat" where
  "le_nat [] = 0"
| "le_nat (b # bs) = unat b + 256 * le_nat bs"

primrec put_le :: "nat \<Rightarrow> nat \<Rightarrow> bytes" where
  "put_le 0 n = []"
| "put_le (Suc w) n = word_of_nat n # put_le w (n div 256)"

lemma length_put_le [simp]: "length (put_le w n) = w"
  by (induction w arbitrary: n) auto

lemma unat_byte_of_nat [simp]: "unat (word_of_nat n :: byte) = n mod 256"
  by (simp add: unat_of_nat)

lemma le_nat_put_le: "le_nat (put_le w n) = n mod 256 ^ w"
proof (induction w arbitrary: n)
  case (Suc w)
  have "n mod (256 * 256 ^ w) = n mod 256 + 256 * (n div 256 mod 256 ^ w)"
    by (simp add: mod_mult2_eq)
  with Suc show ?case by simp
qed simp

lemma le_nat_bound: "le_nat bs < 256 ^ length bs"
proof (induction bs)
  case (Cons b bs)
  have "unat b < 256" using unsigned_less [of b] by simp
  with Cons show ?case by simp
qed simp

lemma put_le_le_nat: "put_le (length bs) (le_nat bs) = bs"
proof (induction bs)
  case (Cons b bs)
  have b: "unat b < 256" using unsigned_less [of b] by simp
  have "(256 :: byte) = 0" by simp
  then have "(256 :: byte) * word_of_nat (le_nat bs) = 0" by (simp only: mult_zero_left)
  then have "(word_of_nat (unat b + 256 * le_nat bs) :: byte) = b"
    by simp
  with Cons b show ?case by simp
qed simp

section \<open>Reads\<close>

definition le_at :: "nat \<Rightarrow> bytes \<Rightarrow> nat \<Rightarrow> nat" where
  "le_at w bs pos = le_nat (take w (drop pos bs))"

definition get_le :: "nat \<Rightarrow> bytes \<Rightarrow> nat \<Rightarrow> nat res" where
  "get_le w bs pos = (if pos + w \<le> length bs then Inr (le_at w bs pos) else Inl Range_error)"

abbreviation get_u8 :: "bytes \<Rightarrow> nat \<Rightarrow> nat res" where "get_u8 \<equiv> get_le 1"
abbreviation get_u16 :: "bytes \<Rightarrow> nat \<Rightarrow> nat res" where "get_u16 \<equiv> get_le 2"
abbreviation get_u32 :: "bytes \<Rightarrow> nat \<Rightarrow> nat res" where "get_u32 \<equiv> get_le 4"
abbreviation get_u64 :: "bytes \<Rightarrow> nat \<Rightarrow> nat res" where "get_u64 \<equiv> get_le 8"
abbreviation u8_at :: "bytes \<Rightarrow> nat \<Rightarrow> nat" where "u8_at \<equiv> le_at 1"
abbreviation u16_at :: "bytes \<Rightarrow> nat \<Rightarrow> nat" where "u16_at \<equiv> le_at 2"
abbreviation u32_at :: "bytes \<Rightarrow> nat \<Rightarrow> nat" where "u32_at \<equiv> le_at 4"
abbreviation u64_at :: "bytes \<Rightarrow> nat \<Rightarrow> nat" where "u64_at \<equiv> le_at 8"

text \<open>\<open>new DataView(buffer, start, length)\<close> over part of a buffer, and \<open>subarray\<close>.\<close>

definition bslice :: "bytes \<Rightarrow> nat \<Rightarrow> nat \<Rightarrow> bytes" where
  "bslice bs start stop = take (stop - start) (drop start bs)"

definition sub_view :: "bytes \<Rightarrow> nat \<Rightarrow> nat \<Rightarrow> bytes res" where
  "sub_view bs start len =
     (if start + len \<le> length bs then Inr (bslice bs start (start + len)) else Inl Range_error)"

lemma get_le_ok: "pos + w \<le> length bs \<Longrightarrow> get_le w bs pos = Inr (le_at w bs pos)"
  by (simp add: get_le_def)

lemma get_le_Inr_iff: "get_le w bs pos = Inr n \<longleftrightarrow> pos + w \<le> length bs \<and> n = le_at w bs pos"
  by (auto simp: get_le_def)

lemma le_at_bound: "le_at w bs pos < 256 ^ w"
proof -
  have "le_at w bs pos < 256 ^ length (take w (drop pos bs))"
    unfolding le_at_def by (rule le_nat_bound)
  also have "\<dots> \<le> 256 ^ w" by (intro power_increasing) simp_all
  finally show ?thesis .
qed

lemma u32_at_bound: "u32_at bs pos < 4294967296"
  using le_at_bound [of 4 bs pos] by simp

lemma length_bslice [simp]: "stop \<le> length bs \<Longrightarrow> length (bslice bs start stop) = stop - start"
  by (simp add: bslice_def)

lemma sub_view_ok [simp]:
  "start + len \<le> length bs \<Longrightarrow> sub_view bs start len = Inr (bslice bs start (start + len))"
  by (simp add: sub_view_def)

lemma le_at_bslice [byte_simps]:
  assumes "start + pos + w \<le> stop"
  shows "le_at w (bslice bs start stop) pos = le_at w bs (start + pos)"
proof -
  have "take w (drop pos (take (stop - start) (drop start bs))) = take w (drop (start + pos) bs)"
    using assms by (simp add: drop_take min_def add.commute)
  then show ?thesis by (simp add: le_at_def bslice_def)
qed

section \<open>Appends and overlays\<close>

lemma le_at_append1 [byte_simps]: "pos + w \<le> length xs \<Longrightarrow> le_at w (xs @ ys) pos = le_at w xs pos"
  by (simp add: le_at_def)

lemma le_at_append2 [byte_simps]:
  "length xs \<le> pos \<Longrightarrow> le_at w (xs @ ys) pos = le_at w ys (pos - length xs)"
  by (simp add: le_at_def)

lemma le_at_put_le [byte_simps]: "le_at w (put_le w n) 0 = n mod 256 ^ w"
  by (simp add: le_at_def le_nat_put_le)

definition overlay :: "nat \<Rightarrow> bytes \<Rightarrow> bytes \<Rightarrow> bytes" where
  "overlay pos src bs = take pos bs @ src @ drop (pos + length src) bs"

lemma length_overlay [simp]:
  "pos + length src \<le> length bs \<Longrightarrow> length (overlay pos src bs) = length bs"
  by (simp add: overlay_def)

lemma bslice_overlay_same [byte_simps]:
  "pos + length src \<le> length bs \<Longrightarrow> n = pos + length src \<Longrightarrow> bslice (overlay pos src bs) pos n = src"
  by (simp add: bslice_def overlay_def)

lemma bslice_overlay_before [byte_simps]:
  "n \<le> pos \<Longrightarrow> pos + length src \<le> length bs \<Longrightarrow> bslice (overlay pos src bs) m n = bslice bs m n"
  by (cases "n \<le> m") (simp_all add: bslice_def overlay_def take_drop min_def)

lemma bslice_overlay_after [byte_simps]:
  "pos + length src \<le> m \<Longrightarrow> pos + length src \<le> length bs \<Longrightarrow>
     bslice (overlay pos src bs) m n = bslice bs m n"
  by (simp add: bslice_def overlay_def)

lemma le_at_as_bslice: "le_at w bs pos = le_nat (bslice bs pos (pos + w))"
  by (simp add: le_at_def bslice_def)

lemma le_at_overlay_same [byte_simps]:
  "pos + w \<le> length bs \<Longrightarrow> le_at w (overlay pos (put_le w n) bs) pos = n mod 256 ^ w"
  by (simp add: le_at_as_bslice bslice_overlay_same le_nat_put_le)

lemma le_at_overlay_before [byte_simps]:
  "k + w \<le> pos \<Longrightarrow> pos + length src \<le> length bs \<Longrightarrow> le_at w (overlay pos src bs) k = le_at w bs k"
  by (simp add: le_at_as_bslice bslice_overlay_before)

lemma le_at_overlay_after [byte_simps]:
  "pos + length src \<le> k \<Longrightarrow> pos + length src \<le> length bs \<Longrightarrow>
     le_at w (overlay pos src bs) k = le_at w bs k"
  by (simp add: le_at_as_bslice bslice_overlay_after)

lemma le_at_take [byte_simps]: "pos + w \<le> n \<Longrightarrow> le_at w (take n bs) pos = le_at w bs pos"
  by (simp add: le_at_def drop_take min_def)

lemma bslice_take: "b \<le> n \<Longrightarrow> bslice (take n bs) a b = bslice bs a b"
  by (simp add: bslice_def drop_take min_def)

lemma take_as_bslice: "take n bs = bslice bs 0 n"
  by (simp add: bslice_def)

lemma bslice_split: "a \<le> b \<Longrightarrow> b \<le> c \<Longrightarrow> bslice bs a c = bslice bs a b @ bslice bs b c"
  using take_add [of "b - a" "c - b" "drop a bs"] by (simp add: bslice_def)

lemma put_le_le_at: "pos + w \<le> length bs \<Longrightarrow> put_le w (le_at w bs pos) = bslice bs pos (pos + w)"
  using put_le_le_nat [of "bslice bs pos (pos + w)"] by (simp add: le_at_as_bslice)

lemma bslice_append1 [byte_simps]: "b \<le> length xs \<Longrightarrow> bslice (xs @ ys) a b = bslice xs a b"
  by (cases "a \<le> b") (simp_all add: bslice_def)

lemma bslice_append2 [byte_simps]:
  "length xs \<le> a \<Longrightarrow> bslice (xs @ ys) a b = bslice ys (a - length xs) (b - length xs)"
  by (simp add: bslice_def)

lemma bslice_whole [byte_simps]: "n = length xs \<Longrightarrow> bslice xs 0 n = xs"
  by (simp add: bslice_def)

text \<open>A table of fixed-width rows: field \<open>k\<close> of row \<open>i\<close>.\<close>

lemma bslice_concat_stride:
  assumes "\<forall>r \<in> set rs. length r = w" and "i < length rs" and "k + m \<le> w"
  shows "bslice (concat rs) (i * w + k) (i * w + k + m) = bslice (rs ! i) k (k + m)"
  using assms
proof (induction rs arbitrary: i)
  case (Cons r rs)
  show ?case
  proof (cases i)
    case 0
    with Cons.prems show ?thesis by (simp add: bslice_def)
  next
    case (Suc j)
    with Cons.prems have "bslice (concat rs) (j * w + k) (j * w + k + m) = bslice (rs ! j) k (k + m)"
      by (intro Cons.IH) auto
    with Suc Cons.prems show ?thesis by (simp add: bslice_def add.assoc)
  qed
qed simp

lemma le_at_concat_stride [byte_simps]:
  assumes "\<forall>r \<in> set rs. length r = w" and "i < length rs" and "k + m \<le> w"
  shows "le_at m (concat rs) (i * w + k) = le_at m (rs ! i) k"
  using bslice_concat_stride [OF assms] by (simp add: le_at_as_bslice)

lemma rows_eq_iff:
  assumes "\<forall>r \<in> set rs. length r = w" and "s + length rs * w \<le> length bs"
  shows "bslice bs s (s + length rs * w) = concat rs \<longleftrightarrow>
    (\<forall>i < length rs. bslice bs (s + i * w) (s + i * w + w) = rs ! i)"
  using assms
proof (induction rs arbitrary: s)
  case Nil
  then show ?case by (simp add: bslice_def)
next
  case (Cons r rs)
  have "bslice bs s (s + length (r # rs) * w)
      = bslice bs s (s + w) @ bslice bs (s + w) (s + w + length rs * w)"
    by (subst bslice_split [symmetric]) (simp_all add: ac_simps)
  moreover have "bslice bs (s + w) (s + w + length rs * w) = concat rs \<longleftrightarrow>
      (\<forall>i < length rs. bslice bs (s + w + i * w) (s + w + i * w + w) = rs ! i)"
    using Cons.prems by (intro Cons.IH) (simp_all add: ac_simps)
  moreover have "length (bslice bs s (s + w)) = length r" using Cons.prems by simp
  ultimately show ?case
    by (simp add: all_less_Suc ac_simps)
qed

section \<open>Hexadecimal\<close>

text \<open>\<open>toHex\<close> and \<open>HEX\<close> of reader-layout.ts.\<close>

definition HEX :: string where
  "HEX = ''0123456789abcdef''"

definition toHex :: "bytes \<Rightarrow> string" where
  "toHex bs = concat (map (\<lambda>b. [HEX ! (unat b div 16), HEX ! (unat b mod 16)]) bs)"

lemma length_toHex: "length (toHex bs) = 2 * length bs"
  by (induction bs) (auto simp: toHex_def)

lemma HEX_inj: "i < 16 \<Longrightarrow> j < 16 \<Longrightarrow> HEX ! i = HEX ! j \<Longrightarrow> i = j"
proof -
  have d: "distinct HEX" and l: "length HEX = 16" by (simp_all add: HEX_def)
  show "i < 16 \<Longrightarrow> j < 16 \<Longrightarrow> HEX ! i = HEX ! j \<Longrightarrow> i = j"
    using nth_eq_iff_index_eq [OF d] l by simp
qed

lemma toHex_inj: "toHex xs = toHex ys \<Longrightarrow> xs = ys"
proof (induction xs arbitrary: ys)
  case Nil
  then show ?case by (cases ys) (auto simp: toHex_def)
next
  case (Cons x xs)
  from Cons.prems obtain y zs where ys: "ys = y # zs" by (cases ys) (auto simp: toHex_def)
  have lx: "unat x < 256" "unat y < 256" using unsigned_less [of x] unsigned_less [of y] by simp_all
  from Cons.prems ys have h: "HEX ! (unat x div 16) = HEX ! (unat y div 16)"
    "HEX ! (unat x mod 16) = HEX ! (unat y mod 16)" and t: "toHex xs = toHex zs"
    by (simp_all add: toHex_def)
  from lx have "unat x div 16 < 16" "unat y div 16 < 16" by auto
  with h(1) have "unat x div 16 = unat y div 16" using HEX_inj by blast
  moreover from h(2) have "unat x mod 16 = unat y mod 16" using HEX_inj by simp
  ultimately have "unat x = unat y" by (metis div_mult_mod_eq)
  then have "x = y" by (simp add: word_unat_eq_iff)
  with Cons.IH [OF t] ys show ?case by simp
qed

end
