(* ===== verification/Format_Contract.thy ===== *)
theory Format_Contract
  imports Bytes
begin

text \<open>
  The contract of the SKSCG2 index file: runtime-index/format-contract.ts and
  runtime-index/format-primitives.ts. Layout constants, the section kinds, the
  limits, the error table with the repair command it names, the checked arithmetic
  on offsets, fixed point, and the section checksum.
\<close>

section \<open>Layout\<close>

definition CONTEXT_INDEX_MAGIC :: bytes where
  "CONTEXT_INDEX_MAGIC = [0x53, 0x4b, 0x53, 0x43, 0x47, 0x32, 0x00, 0x00]"

definition CONTEXT_INDEX_MAGIC_BYTES :: nat where "CONTEXT_INDEX_MAGIC_BYTES = 8"
definition CONTEXT_INDEX_FORMAT_REVISION :: nat where "CONTEXT_INDEX_FORMAT_REVISION = 2"
definition CONTEXT_INDEX_HEADER_BYTES :: nat where "CONTEXT_INDEX_HEADER_BYTES = 104"
definition CONTEXT_INDEX_SECTION_DESCRIPTOR_BYTES :: nat where
  "CONTEXT_INDEX_SECTION_DESCRIPTOR_BYTES = 32"
definition CONTEXT_INDEX_HASH_BYTES :: nat where "CONTEXT_INDEX_HASH_BYTES = 32"

definition OFFSET_FORMAT_REVISION :: nat where "OFFSET_FORMAT_REVISION = 8"
definition OFFSET_SCHEMA_REVISION :: nat where "OFFSET_SCHEMA_REVISION = 10"
definition OFFSET_FLAGS :: nat where "OFFSET_FLAGS = 12"
definition OFFSET_NODE_COUNT :: nat where "OFFSET_NODE_COUNT = 16"
definition OFFSET_EDGE_COUNT :: nat where "OFFSET_EDGE_COUNT = 20"
definition OFFSET_TERM_COUNT :: nat where "OFFSET_TERM_COUNT = 24"
definition OFFSET_PROVENANCE_COUNT :: nat where "OFFSET_PROVENANCE_COUNT = 28"
definition OFFSET_SNAPSHOT_HASH :: nat where "OFFSET_SNAPSHOT_HASH = 32"
definition OFFSET_CONFIG_HASH :: nat where "OFFSET_CONFIG_HASH = 64"
definition OFFSET_SECTION_COUNT :: nat where "OFFSET_SECTION_COUNT = 96"
definition OFFSET_RESERVED :: nat where "OFFSET_RESERVED = 98"
definition OFFSET_HEADER_CHECKSUM :: nat where "OFFSET_HEADER_CHECKSUM = 100"

named_theorems layout \<open>the layout constants, unfolded\<close>

lemmas [layout] =
  CONTEXT_INDEX_MAGIC_BYTES_def CONTEXT_INDEX_FORMAT_REVISION_def CONTEXT_INDEX_HEADER_BYTES_def
  CONTEXT_INDEX_SECTION_DESCRIPTOR_BYTES_def CONTEXT_INDEX_HASH_BYTES_def
  OFFSET_FORMAT_REVISION_def OFFSET_SCHEMA_REVISION_def OFFSET_FLAGS_def OFFSET_NODE_COUNT_def
  OFFSET_EDGE_COUNT_def OFFSET_TERM_COUNT_def OFFSET_PROVENANCE_COUNT_def
  OFFSET_SNAPSHOT_HASH_def OFFSET_CONFIG_HASH_def OFFSET_SECTION_COUNT_def OFFSET_RESERVED_def
  OFFSET_HEADER_CHECKSUM_def

section \<open>Section kinds\<close>

definition STRING_TABLE :: nat where "STRING_TABLE = 1"
definition NODE_TABLE :: nat where "NODE_TABLE = 2"
definition NODE_METADATA :: nat where "NODE_METADATA = 3"
definition EDGE_TABLE :: nat where "EDGE_TABLE = 4"
definition OUT_CSR_OFFSETS :: nat where "OUT_CSR_OFFSETS = 5"
definition OUT_CSR_EDGES :: nat where "OUT_CSR_EDGES = 6"
definition IN_CSR_OFFSETS :: nat where "IN_CSR_OFFSETS = 7"
definition IN_CSR_EDGES :: nat where "IN_CSR_EDGES = 8"
definition EXACT_TERM_TABLE :: nat where "EXACT_TERM_TABLE = 9"
definition EXACT_POSTINGS :: nat where "EXACT_POSTINGS = 10"
definition BASENAME_TABLE :: nat where "BASENAME_TABLE = 11"
definition BASENAME_POSTINGS :: nat where "BASENAME_POSTINGS = 12"
definition LEXICON_TABLE :: nat where "LEXICON_TABLE = 13"
definition LEXICON_POSTINGS :: nat where "LEXICON_POSTINGS = 14"
definition COARSE_TERM_TABLE :: nat where "COARSE_TERM_TABLE = 15"
definition COARSE_POSTINGS :: nat where "COARSE_POSTINGS = 16"
definition PROVENANCE_TABLE :: nat where "PROVENANCE_TABLE = 17"
definition GROUP_TABLE :: nat where "GROUP_TABLE = 18"
definition CYCLE_TABLE :: nat where "CYCLE_TABLE = 19"
definition SOURCE_HASH_TABLE :: nat where "SOURCE_HASH_TABLE = 20"

named_theorems kinds \<open>the section kinds, unfolded\<close>

lemmas [kinds] =
  STRING_TABLE_def NODE_TABLE_def NODE_METADATA_def EDGE_TABLE_def OUT_CSR_OFFSETS_def
  OUT_CSR_EDGES_def IN_CSR_OFFSETS_def IN_CSR_EDGES_def EXACT_TERM_TABLE_def
  EXACT_POSTINGS_def BASENAME_TABLE_def BASENAME_POSTINGS_def LEXICON_TABLE_def
  LEXICON_POSTINGS_def COARSE_TERM_TABLE_def COARSE_POSTINGS_def PROVENANCE_TABLE_def
  GROUP_TABLE_def CYCLE_TABLE_def SOURCE_HASH_TABLE_def

definition CONTEXT_INDEX_REQUIRED_SECTIONS :: "nat list" where
  "CONTEXT_INDEX_REQUIRED_SECTIONS =
     [STRING_TABLE, NODE_TABLE, NODE_METADATA, EDGE_TABLE, OUT_CSR_OFFSETS, OUT_CSR_EDGES,
      IN_CSR_OFFSETS, IN_CSR_EDGES, EXACT_TERM_TABLE, EXACT_POSTINGS, BASENAME_TABLE,
      BASENAME_POSTINGS, LEXICON_TABLE, LEXICON_POSTINGS, COARSE_TERM_TABLE, COARSE_POSTINGS,
      PROVENANCE_TABLE, GROUP_TABLE, CYCLE_TABLE, SOURCE_HASH_TABLE]"

definition SECTION_KINDS :: "nat set" where
  "SECTION_KINDS = set CONTEXT_INDEX_REQUIRED_SECTIONS"

lemma required_sections_upt: "CONTEXT_INDEX_REQUIRED_SECTIONS = [1..<21]"
  by (simp add: CONTEXT_INDEX_REQUIRED_SECTIONS_def kinds upt_rec)

lemma section_kinds_iff: "k \<in> SECTION_KINDS \<longleftrightarrow> 1 \<le> k \<and> k \<le> 20"
  by (auto simp: SECTION_KINDS_def required_sections_upt)

lemma distinct_required_sections: "distinct CONTEXT_INDEX_REQUIRED_SECTIONS"
  by (simp add: required_sections_upt)

lemma length_required_sections: "length CONTEXT_INDEX_REQUIRED_SECTIONS = 20"
  by (simp add: required_sections_upt)

section \<open>Limits\<close>

definition maxNodeCount :: nat where "maxNodeCount = 2 ^ 24"
definition maxEdgeCount :: nat where "maxEdgeCount = 2 ^ 26"
definition maxTermCount :: nat where "maxTermCount = 2 ^ 24"
definition maxProvenanceCount :: nat where "maxProvenanceCount = 2 ^ 26"
definition maxSectionCount :: nat where "maxSectionCount = 64"
definition maxSectionCountValue :: nat where "maxSectionCountValue = 2 ^ 27"
definition maxFileBytes :: nat where "maxFileBytes = 2 ^ 33"
definition maxSectionBytes :: nat where "maxSectionBytes = 2 ^ 32"

named_theorems limits \<open>CONTEXT_INDEX_LIMITS, unfolded\<close>

lemmas [limits] = maxNodeCount_def maxEdgeCount_def maxTermCount_def maxProvenanceCount_def
  maxSectionCount_def maxSectionCountValue_def maxFileBytes_def maxSectionBytes_def

section \<open>Errors and repair commands\<close>

fun CONTEXT_INDEX_FORMAT_ERRORS :: "format_error_code \<Rightarrow> index_error_code" where
  "CONTEXT_INDEX_FORMAT_ERRORS Magic_invalid = Context_index_format_unsupported"
| "CONTEXT_INDEX_FORMAT_ERRORS Revision_unsupported = Context_index_format_unsupported"
| "CONTEXT_INDEX_FORMAT_ERRORS Header_truncated = Context_index_truncated"
| "CONTEXT_INDEX_FORMAT_ERRORS Header_checksum_mismatch = Context_index_checksum_mismatch"
| "CONTEXT_INDEX_FORMAT_ERRORS Reserved_not_zero = Context_index_format_unsupported"
| "CONTEXT_INDEX_FORMAT_ERRORS Section_table_truncated = Context_index_truncated"
| "CONTEXT_INDEX_FORMAT_ERRORS Section_kind_unknown = Context_index_format_unsupported"
| "CONTEXT_INDEX_FORMAT_ERRORS Section_duplicate = Context_index_checksum_mismatch"
| "CONTEXT_INDEX_FORMAT_ERRORS Section_missing = Context_index_truncated"
| "CONTEXT_INDEX_FORMAT_ERRORS Section_overlap = Context_index_checksum_mismatch"
| "CONTEXT_INDEX_FORMAT_ERRORS Section_out_of_bounds = Context_index_truncated"
| "CONTEXT_INDEX_FORMAT_ERRORS Section_checksum_mismatch = Context_index_checksum_mismatch"
| "CONTEXT_INDEX_FORMAT_ERRORS Count_limit_exceeded = Context_index_truncated"
| "CONTEXT_INDEX_FORMAT_ERRORS Offset_overflow = Context_index_truncated"
| "CONTEXT_INDEX_FORMAT_ERRORS String_offset_invalid = Context_index_checksum_mismatch"
| "CONTEXT_INDEX_FORMAT_ERRORS String_not_utf8 = Context_index_checksum_mismatch"
| "CONTEXT_INDEX_FORMAT_ERRORS Csr_not_monotonic = Context_index_checksum_mismatch"
| "CONTEXT_INDEX_FORMAT_ERRORS Csr_length_mismatch = Context_index_checksum_mismatch"
| "CONTEXT_INDEX_FORMAT_ERRORS Reference_out_of_range = Context_index_checksum_mismatch"

text \<open>
  \<open>CONTEXT_INDEX_REPAIR_COMMAND\<close> rebuilds the index, \<open>CONTEXT_INDEX_UPDATE_COMMAND\<close>
  upgrades the reader (contracts.ts).
\<close>

definition CONTEXT_INDEX_REPAIR_COMMAND :: string where
  "CONTEXT_INDEX_REPAIR_COMMAND = ''sks align run --rebuild-index''"

definition CONTEXT_INDEX_UPDATE_COMMAND :: string where
  "CONTEXT_INDEX_UPDATE_COMMAND = ''sks update''"

text \<open>
  \<open>Number(undefined)\<close> is \<open>NaN\<close>, so a missing detail field is a non-finite number: the
  option. The numbers that are there are finite.
\<close>

definition formatRepairCommandFor :: "format_error_code \<Rightarrow> detail \<Rightarrow> string" where
  "formatRepairCommandFor code detail =
     (if CONTEXT_INDEX_FORMAT_ERRORS code \<noteq> Context_index_format_unsupported
      then CONTEXT_INDEX_REPAIR_COMMAND
      else if code \<noteq> Revision_unsupported then CONTEXT_INDEX_UPDATE_COMMAND
      else (case (map_of detail ''found'', map_of detail ''supported'') of
          (Some found, Some supported) \<Rightarrow>
            (if found < supported then CONTEXT_INDEX_REPAIR_COMMAND
             else CONTEXT_INDEX_UPDATE_COMMAND)
        | _ \<Rightarrow> CONTEXT_INDEX_UPDATE_COMMAND))"

abbreviation fail :: "format_error_code \<Rightarrow> detail \<Rightarrow> 'a res" where
  "fail code d \<equiv> Inl (Format_error code d)"

end
