(* ===== verification/Format_Primitives.thy ===== *)
theory Format_Primitives
  imports Format_Contract
begin

text \<open>
  runtime-index/format-primitives.ts: checked arithmetic on \<open>bigint\<close> operands, fixed
  point and trust quantisation, score saturation, and the section checksum.

  A JavaScript number that takes part in fixed-point conversion is \<open>Some\<close> of a
  rational when finite and \<open>None\<close> otherwise. \<open>Math.round\<close> rounds halves up:
  \<open>\<lfloor>x + 1/2\<rfloor>\<close>. The checksum is computed on 32-bit words exactly as \<open>Math.imul\<close>,
  \<open>^\<close> and \<open>>>>\<close> do.
\<close>

unbundle bit_operations_syntax

section \<open>Checked arithmetic\<close>

definition checkedAdd :: "int \<Rightarrow> int \<Rightarrow> int \<Rightarrow> int res" where
  "checkedAdd a b limit =
     (if a < 0 \<or> b < 0 then fail Offset_overflow [(''a'', a), (''b'', b)]
      else let sum = a + b in
        if sum > limit then fail Offset_overflow [(''a'', a), (''b'', b), (''limit'', limit)]
        else Inr sum)"

definition checkedMul :: "int \<Rightarrow> int \<Rightarrow> int \<Rightarrow> int res" where
  "checkedMul a b limit =
     (if a < 0 \<or> b < 0 then fail Offset_overflow [(''a'', a), (''b'', b)]
      else let product = a * b in
        if product > limit then fail Offset_overflow [(''a'', a), (''b'', b), (''limit'', limit)]
        else Inr product)"

lemma checkedAdd_Inr_iff:
  "checkedAdd a b limit = Inr s \<longleftrightarrow> 0 \<le> a \<and> 0 \<le> b \<and> s = a + b \<and> s \<le> limit"
  by (auto simp: checkedAdd_def Let_def)

lemma checkedMul_Inr_iff:
  "checkedMul a b limit = Inr p \<longleftrightarrow> 0 \<le> a \<and> 0 \<le> b \<and> p = a * b \<and> p \<le> limit"
  by (auto simp: checkedMul_def Let_def)

section \<open>Fixed point\<close>

definition CONTEXT_INDEX_FIXED_POINT_SCALE :: int where "CONTEXT_INDEX_FIXED_POINT_SCALE = 1000"
definition CONTEXT_INDEX_TRUST_SCALE :: int where "CONTEXT_INDEX_TRUST_SCALE = 65535"
definition I64_MIN :: int where "I64_MIN = - (2 ^ 63)"
definition I64_MAX :: int where "I64_MAX = 2 ^ 63 - 1"

definition math_round :: "rat \<Rightarrow> int" where
  "math_round x = \<lfloor>x + 1 / 2\<rfloor>"

definition toFixedPoint :: "rat option \<Rightarrow> int \<Rightarrow> int" where
  "toFixedPoint value scale = (case value of None \<Rightarrow> 0 | Some v \<Rightarrow> math_round (v * of_int scale))"

definition fromFixedPoint :: "int \<Rightarrow> int \<Rightarrow> rat" where
  "fromFixedPoint value scale = of_int value / of_int scale"

definition quantizeTrust :: "rat option \<Rightarrow> int" where
  "quantizeTrust value = (case value of None \<Rightarrow> 0
     | Some v \<Rightarrow>
        (let clamped = (if v \<le> 0 then 0 else if 1 \<le> v then 1 else v)
         in math_round (clamped * of_int CONTEXT_INDEX_TRUST_SCALE)))"

definition dequantizeTrust :: "int \<Rightarrow> rat" where
  "dequantizeTrust value = of_int value / of_int CONTEXT_INDEX_TRUST_SCALE"

definition clampScore :: "int \<Rightarrow> int" where
  "clampScore value = (if value > I64_MAX then I64_MAX
     else if value < I64_MIN then I64_MIN else value)"

lemma math_round_of_int [simp]: "math_round (of_int n) = n"
  unfolding math_round_def by (rule floor_unique) simp_all

lemma math_round_mono: "x \<le> y \<Longrightarrow> math_round x \<le> math_round y"
  by (simp add: math_round_def floor_mono)

lemma math_round_0 [simp]: "math_round 0 = 0"
  using math_round_of_int [of 0] by simp

lemma math_round_error: "\<bar>of_int (math_round x) - x\<bar> \<le> 1 / 2"
proof -
  have "of_int \<lfloor>x + 1 / 2\<rfloor> \<le> x + 1 / 2" "x + 1 / 2 < of_int \<lfloor>x + 1 / 2\<rfloor> + 1"
    using floor_correct [of "x + 1 / 2"] by simp_all
  then have a: "of_int \<lfloor>x + 1 / 2\<rfloor> - x \<le> 1 / 2" and b: "x - of_int \<lfloor>x + 1 / 2\<rfloor> \<le> 1 / 2"
    by (linarith, linarith)
  show ?thesis unfolding math_round_def by (rule abs_leI) (use a b in linarith)+
qed

lemma toFixedPoint_fromFixedPoint:
  "0 < scale \<Longrightarrow> toFixedPoint (Some (fromFixedPoint n scale)) scale = n"
  by (simp add: toFixedPoint_def fromFixedPoint_def)

lemma quantizeTrust_range: "0 \<le> quantizeTrust v \<and> quantizeTrust v \<le> 65535"
proof (cases v)
  case None
  then show ?thesis by (simp add: quantizeTrust_def)
next
  case (Some x)
  define c where "c = (if x \<le> 0 then 0 else if 1 \<le> x then 1 else x)"
  have c: "0 \<le> c" "c \<le> 1" by (auto simp: c_def)
  have q: "quantizeTrust v = math_round (c * 65535)"
    by (simp add: quantizeTrust_def Some c_def CONTEXT_INDEX_TRUST_SCALE_def)
  have "math_round 0 \<le> math_round (c * 65535)" using c by (intro math_round_mono) simp
  moreover have "math_round (c * 65535) \<le> math_round (of_int 65535)"
    using c by (intro math_round_mono) simp
  ultimately show ?thesis using q math_round_of_int [of 65535] by simp
qed

lemma quantizeTrust_dequantizeTrust:
  assumes "0 \<le> n" "n \<le> 65535"
  shows "quantizeTrust (Some (dequantizeTrust n)) = n"
proof -
  let ?v = "of_int n / (65535 :: rat)"
  have "(if ?v \<le> 0 then 0 else if 1 \<le> ?v then 1 else ?v) = ?v"
    using assms by (auto simp: divide_simps)
  then have "quantizeTrust (Some (dequantizeTrust n)) = math_round (?v * 65535)"
    by (simp add: quantizeTrust_def dequantizeTrust_def CONTEXT_INDEX_TRUST_SCALE_def)
  also have "?v * 65535 = of_int n" by simp
  finally show ?thesis by simp
qed

lemma quantizeTrust_mono: "x \<le> y \<Longrightarrow> quantizeTrust (Some x) \<le> quantizeTrust (Some y)"
proof -
  assume "x \<le> y"
  then have "(if x \<le> 0 then 0 else if 1 \<le> x then 1 else x) * 65535
      \<le> (if y \<le> 0 then 0 else if 1 \<le> y then 1 else y) * 65535"
    by (intro mult_right_mono) auto
  then show ?thesis
    by (simp add: quantizeTrust_def CONTEXT_INDEX_TRUST_SCALE_def math_round_mono)
qed

lemma clampScore_bounds: "I64_MIN \<le> clampScore v" "clampScore v \<le> I64_MAX"
  by (simp_all add: clampScore_def I64_MIN_def I64_MAX_def)

section \<open>Checksum\<close>

definition checksum_step :: "byte \<Rightarrow> 32 word \<times> 32 word \<Rightarrow> 32 word \<times> 32 word" where
  "checksum_step byte s = (case s of (lo, hi) \<Rightarrow>
     ((lo XOR ucast byte) * 0x01000193,
      ((hi + ucast byte) * 0x85ebca6b) XOR (drop_bit 13 hi)))"

definition contextIndexChecksum :: "bytes \<Rightarrow> nat \<Rightarrow> nat \<Rightarrow> nat res" where
  "contextIndexChecksum bs start stop =
     (if stop > length bs \<or> start > stop
      then fail Offset_overflow
             [(''start'', int start), (''end'', int stop), (''size'', int (length bs))]
      else (case fold checksum_step (bslice bs start stop) (0x811c9dc5, 0x01000193) of
          (lo, hi) \<Rightarrow> Inr (unat hi * 2 ^ 32 + unat lo)))"

lemma contextIndexChecksum_ok:
  assumes "start \<le> stop" "stop \<le> length bs"
  obtains c where "contextIndexChecksum bs start stop = Inr c" "c < 2 ^ 64"
proof -
  obtain lo hi :: "32 word"
    where f: "fold checksum_step (bslice bs start stop) (0x811c9dc5, 0x01000193) = (lo, hi)"
    by fastforce
  have "unat lo < 2 ^ 32" "unat hi < 2 ^ 32"
    using unsigned_less [of lo] unsigned_less [of hi] by simp_all
  then have "unat hi * 2 ^ 32 + unat lo < 2 ^ 64" by simp
  with that f assms show thesis by (simp add: contextIndexChecksum_def)
qed

lemma contextIndexChecksum_bslice:
  "start \<le> stop \<Longrightarrow> stop \<le> length bs \<Longrightarrow> stop \<le> length bs' \<Longrightarrow>
     bslice bs start stop = bslice bs' start stop \<Longrightarrow>
     contextIndexChecksum bs start stop = contextIndexChecksum bs' start stop"
  by (simp add: contextIndexChecksum_def)

lemma contextIndexChecksum_whole:
  "start \<le> stop \<Longrightarrow> stop \<le> length bs \<Longrightarrow>
     contextIndexChecksum bs start stop
       = contextIndexChecksum (bslice bs start stop) 0 (stop - start)"
  by (simp add: contextIndexChecksum_def bslice_def)

end
