(* ===== verification/Format_Header.thy ===== *)
theory Format_Header
  imports Format_Primitives
begin

text \<open>
  runtime-index/format-header.ts: the file header, the section table and the
  validation of the section layout.

  A header is a record with the fields of \<open>ContextIndexHeader\<close> (\<open>hflags\<close> is the field
  \<open>flags\<close>), a section descriptor one with the fields of \<open>SectionDescriptor\<close> under the
  prefix \<open>sd_\<close>. The \<open>Map\<close> from kind to descriptor is a partial function.
\<close>

record ContextIndexHeader =
  formatRevision :: nat
  schemaRevision :: nat
  hflags :: nat
  nodeCount :: nat
  edgeCount :: nat
  termCount :: nat
  provenanceCount :: nat
  snapshotHash :: bytes
  configHash :: bytes
  sectionCount :: nat

record SectionDescriptor =
  sd_kind :: nat
  sd_offset :: nat
  sd_length :: nat
  sd_count :: nat
  sd_checksum :: nat

section \<open>The header\<close>

definition fixedHash :: "bytes \<Rightarrow> bytes" where
  "fixedHash hash =
     (if length hash \<noteq> CONTEXT_INDEX_HASH_BYTES
      then overlay 0 (take CONTEXT_INDEX_HASH_BYTES hash) (replicate CONTEXT_INDEX_HASH_BYTES 0)
      else hash)"

definition header_body :: "ContextIndexHeader \<Rightarrow> bytes" where
  "header_body header =
     overlay OFFSET_RESERVED (put_le 2 0)
    (overlay OFFSET_SECTION_COUNT (put_le 2 (sectionCount header))
    (overlay OFFSET_CONFIG_HASH (fixedHash (configHash header))
    (overlay OFFSET_SNAPSHOT_HASH (fixedHash (snapshotHash header))
    (overlay OFFSET_PROVENANCE_COUNT (put_le 4 (provenanceCount header))
    (overlay OFFSET_TERM_COUNT (put_le 4 (termCount header))
    (overlay OFFSET_EDGE_COUNT (put_le 4 (edgeCount header))
    (overlay OFFSET_NODE_COUNT (put_le 4 (nodeCount header))
    (overlay OFFSET_FLAGS (put_le 4 (hflags header))
    (overlay OFFSET_SCHEMA_REVISION (put_le 2 (schemaRevision header))
    (overlay OFFSET_FORMAT_REVISION (put_le 2 (formatRevision header))
    (overlay 0 CONTEXT_INDEX_MAGIC
      (replicate CONTEXT_INDEX_HEADER_BYTES 0))))))))))))"

definition encodeContextIndexHeader :: "ContextIndexHeader \<Rightarrow> bytes res" where
  "encodeContextIndexHeader header =
     (let bs = header_body header in
      rbind (contextIndexChecksum bs 0 OFFSET_HEADER_CHECKSUM) (\<lambda>checksum.
        Inr (overlay OFFSET_HEADER_CHECKSUM (put_le 4 (checksum mod 2 ^ 32)) bs)))"

definition readContextIndexHeader :: "bytes \<Rightarrow> ContextIndexHeader res" where
  "readContextIndexHeader bs =
    (if length bs < CONTEXT_INDEX_HEADER_BYTES
     then fail Header_truncated
            [(''size'', int (length bs)), (''required'', int CONTEXT_INDEX_HEADER_BYTES)]
     else
     rbind (for_each (\<lambda>index.
         if bs ! index \<noteq> CONTEXT_INDEX_MAGIC ! index
         then fail Magic_invalid [(''at'', int index)] else Inr ())
       [0..<CONTEXT_INDEX_MAGIC_BYTES]) (\<lambda>_.
     rbind (get_u32 bs OFFSET_HEADER_CHECKSUM) (\<lambda>stored.
     rbind (contextIndexChecksum bs 0 OFFSET_HEADER_CHECKSUM) (\<lambda>computed.
     if stored \<noteq> computed mod 2 ^ 32 then fail Header_checksum_mismatch [] else
     rbind (get_u16 bs OFFSET_FORMAT_REVISION) (\<lambda>revision.
     if revision \<noteq> CONTEXT_INDEX_FORMAT_REVISION
     then fail Revision_unsupported
            [(''found'', int revision), (''supported'', int CONTEXT_INDEX_FORMAT_REVISION)] else
     rbind (get_u16 bs OFFSET_RESERVED) (\<lambda>reserved.
     if reserved \<noteq> 0 then fail Reserved_not_zero [] else
     rbind (get_u32 bs OFFSET_NODE_COUNT) (\<lambda>nodes.
     rbind (get_u32 bs OFFSET_EDGE_COUNT) (\<lambda>edges.
     rbind (get_u32 bs OFFSET_TERM_COUNT) (\<lambda>terms.
     rbind (get_u32 bs OFFSET_PROVENANCE_COUNT) (\<lambda>provenance.
     rbind (get_u16 bs OFFSET_SECTION_COUNT) (\<lambda>sections.
     if nodes > maxNodeCount
     then fail Count_limit_exceeded [(''nodeCount'', int nodes)] else
     if edges > maxEdgeCount
     then fail Count_limit_exceeded [(''edgeCount'', int edges)] else
     if terms > maxTermCount
     then fail Count_limit_exceeded [(''termCount'', int terms)] else
     if provenance > maxProvenanceCount
     then fail Count_limit_exceeded [(''provenanceCount'', int provenance)] else
     if sections > maxSectionCount
     then fail Count_limit_exceeded [(''sectionCount'', int sections)] else
     rbind (get_u16 bs OFFSET_SCHEMA_REVISION) (\<lambda>schema.
     rbind (get_u32 bs OFFSET_FLAGS) (\<lambda>flags.
     Inr \<lparr>formatRevision = revision, schemaRevision = schema, hflags = flags,
          nodeCount = nodes, edgeCount = edges, termCount = terms,
          provenanceCount = provenance,
          snapshotHash = bslice bs OFFSET_SNAPSHOT_HASH
            (OFFSET_SNAPSHOT_HASH + CONTEXT_INDEX_HASH_BYTES),
          configHash = bslice bs OFFSET_CONFIG_HASH
            (OFFSET_CONFIG_HASH + CONTEXT_INDEX_HASH_BYTES),
          sectionCount = sections\<rparr>)))))))))))))"

section \<open>The section table\<close>

definition encodeSectionDescriptor :: "SectionDescriptor \<Rightarrow> bytes" where
  "encodeSectionDescriptor descriptor =
     overlay 24 (put_le 8 (sd_checksum descriptor))
    (overlay 16 (put_le 8 (sd_length descriptor))
    (overlay 8 (put_le 8 (sd_offset descriptor))
    (overlay 4 (put_le 4 (sd_count descriptor))
    (overlay 0 (put_le 4 (sd_kind descriptor))
      (replicate CONTEXT_INDEX_SECTION_DESCRIPTOR_BYTES 0)))))"

definition readSectionDescriptor :: "bytes \<Rightarrow> nat \<Rightarrow> SectionDescriptor res" where
  "readSectionDescriptor bs index =
    (let pos = CONTEXT_INDEX_HEADER_BYTES + index * CONTEXT_INDEX_SECTION_DESCRIPTOR_BYTES in
     rbind (get_u32 bs pos) (\<lambda>kind.
     if kind \<notin> SECTION_KINDS
     then fail Section_kind_unknown [(''kind'', int kind), (''index'', int index)] else
     rbind (get_u32 bs (pos + 4)) (\<lambda>count.
     if count > maxSectionCountValue
     then fail Count_limit_exceeded [(''kind'', int kind), (''count'', int count)] else
     rbind (get_u64 bs (pos + 8)) (\<lambda>offset.
     rbind (get_u64 bs (pos + 16)) (\<lambda>length.
     rbind (get_u64 bs (pos + 24)) (\<lambda>checksum.
     Inr \<lparr>sd_kind = kind, sd_offset = offset, sd_length = length, sd_count = count,
          sd_checksum = checksum\<rparr>))))))"

definition readSectionTable :: "bytes \<Rightarrow> ContextIndexHeader \<Rightarrow> SectionDescriptor list res" where
  "readSectionTable bs header =
    rbind (checkedMul (int (sectionCount header)) (int CONTEXT_INDEX_SECTION_DESCRIPTOR_BYTES)
             (int maxSectionBytes)) (\<lambda>tableBytes.
    let tableEnd = CONTEXT_INDEX_HEADER_BYTES + nat tableBytes in
    if length bs < tableEnd
    then fail Section_table_truncated [(''size'', int (length bs)), (''required'', int tableEnd)]
    else map_res (readSectionDescriptor bs) [0..<sectionCount header])"

section \<open>The section layout\<close>

fun admit_sections ::
  "nat \<Rightarrow> nat \<Rightarrow> (nat \<rightharpoonup> SectionDescriptor) \<Rightarrow> SectionDescriptor list
     \<Rightarrow> (nat \<rightharpoonup> SectionDescriptor) res" where
  "admit_sections tableEnd fileSize byKind [] = Inr byKind"
| "admit_sections tableEnd fileSize byKind (d # ds) =
    (if byKind (sd_kind d) \<noteq> None
     then fail Section_duplicate [(''kind'', int (sd_kind d))] else
     if sd_length d > maxSectionBytes
     then fail Count_limit_exceeded
            [(''kind'', int (sd_kind d)), (''length'', int (sd_length d))] else
     rbind (checkedAdd (int (sd_offset d)) (int (sd_length d)) (int maxFileBytes)) (\<lambda>end'.
     if sd_offset d < tableEnd \<or> end' > int fileSize
     then fail Section_out_of_bounds [(''kind'', int (sd_kind d)),
            (''offset'', int (sd_offset d)), (''end'', end'), (''size'', int fileSize)] else
     admit_sections tableEnd fileSize (byKind(sd_kind d \<mapsto> d)) ds))"

fun check_overlap :: "SectionDescriptor list \<Rightarrow> unit res" where
  "check_overlap (previous # current # ds) =
    (if sd_offset previous + sd_length previous > sd_offset current
     then fail Section_overlap
            [(''first'', int (sd_kind previous)), (''second'', int (sd_kind current))]
     else check_overlap (current # ds))"
| "check_overlap _ = Inr ()"

definition validateSectionLayout ::
  "bytes \<Rightarrow> ContextIndexHeader \<Rightarrow> SectionDescriptor list
     \<Rightarrow> (nat \<rightharpoonup> SectionDescriptor) res" where
  "validateSectionLayout bs header descriptors =
    (let tableEnd = CONTEXT_INDEX_HEADER_BYTES
           + length descriptors * CONTEXT_INDEX_SECTION_DESCRIPTOR_BYTES in
     rbind (admit_sections tableEnd (length bs) Map.empty descriptors) (\<lambda>byKind.
     rbind (check_overlap (sort_key sd_offset descriptors)) (\<lambda>_.
     rbind (for_each (\<lambda>required.
         if byKind required = None
         then fail Section_missing [(''kind'', int required)] else Inr ())
       CONTEXT_INDEX_REQUIRED_SECTIONS) (\<lambda>_.
     rbind (for_each (\<lambda>d.
         rbind (contextIndexChecksum bs (sd_offset d) (sd_offset d + sd_length d)) (\<lambda>computed.
         if computed \<noteq> sd_checksum d
         then fail Section_checksum_mismatch [(''kind'', int (sd_kind d))] else Inr ()))
       descriptors) (\<lambda>_.
     Inr byKind)))))"

section \<open>The header round trip\<close>

lemma length_fixedHash [simp]: "length (fixedHash h) = 32"
  by (simp add: fixedHash_def layout overlay_def)

lemma fixedHash_id: "length h = 32 \<Longrightarrow> fixedHash h = h"
  by (simp add: fixedHash_def layout)

lemma length_magic [simp]: "length CONTEXT_INDEX_MAGIC = 8"
  by (simp add: CONTEXT_INDEX_MAGIC_def)

lemma header_body_append:
  "header_body h = CONTEXT_INDEX_MAGIC @ put_le 2 (formatRevision h) @ put_le 2 (schemaRevision h)
     @ put_le 4 (hflags h) @ put_le 4 (nodeCount h) @ put_le 4 (edgeCount h) @ put_le 4 (termCount h)
     @ put_le 4 (provenanceCount h) @ fixedHash (snapshotHash h) @ fixedHash (configHash h)
     @ put_le 2 (sectionCount h) @ put_le 2 0 @ replicate 4 0"
  by (simp add: header_body_def layout overlay_def)

lemma length_header_body [simp]: "length (header_body h) = 104"
  by (simp add: header_body_append)

definition header_ok :: "ContextIndexHeader \<Rightarrow> bool" where
  "header_ok h \<longleftrightarrow> formatRevision h = 2 \<and> schemaRevision h < 2 ^ 16 \<and> hflags h < 2 ^ 32
     \<and> nodeCount h \<le> maxNodeCount \<and> edgeCount h \<le> maxEdgeCount \<and> termCount h \<le> maxTermCount
     \<and> provenanceCount h \<le> maxProvenanceCount \<and> sectionCount h \<le> maxSectionCount
     \<and> length (snapshotHash h) = 32 \<and> length (configHash h) = 32"

lemma encode_header_cases:
  obtains c where "contextIndexChecksum (header_body h) 0 100 = Inr c"
    "encodeContextIndexHeader h = Inr (take 100 (header_body h) @ put_le 4 (c mod 2 ^ 32))"
proof -
  obtain c where c: "contextIndexChecksum (header_body h) 0 100 = Inr c"
    by (rule contextIndexChecksum_ok [of 0 100 "header_body h"]) simp_all
  then show thesis
    by (intro that) (simp_all add: encodeContextIndexHeader_def layout overlay_def)
qed

lemma length_encode_header: "encodeContextIndexHeader h = Inr bs \<Longrightarrow> length bs = 104"
  by (rule encode_header_cases [of h]) auto

lemma magic_check:
  "for_each (\<lambda>index. if bs ! index \<noteq> CONTEXT_INDEX_MAGIC ! index
       then fail Magic_invalid [(''at'', int index)] else Inr ()) [0..<CONTEXT_INDEX_MAGIC_BYTES]
     = Inr () \<longleftrightarrow> take 8 bs = CONTEXT_INDEX_MAGIC" if "8 \<le> length bs"
  using that by (auto simp: for_each_Inr_iff layout list_eq_iff_nth_eq)

lemma encode_header_reads:
  assumes "encodeContextIndexHeader h = Inr bs" and "header_ok h"
  shows "take 8 bs = CONTEXT_INDEX_MAGIC" "u16_at bs 8 = formatRevision h"
    "u16_at bs 10 = schemaRevision h" "u32_at bs 12 = hflags h" "u32_at bs 16 = nodeCount h"
    "u32_at bs 20 = edgeCount h" "u32_at bs 24 = termCount h" "u32_at bs 28 = provenanceCount h"
    "bslice bs 32 64 = snapshotHash h" "bslice bs 64 96 = configHash h"
    "u16_at bs 96 = sectionCount h" "u16_at bs 98 = 0"
    "\<exists>c. contextIndexChecksum bs 0 100 = Inr c \<and> u32_at bs 100 = c mod 2 ^ 32"
proof -
  obtain c where c: "contextIndexChecksum (header_body h) 0 100 = Inr c"
    and bs: "bs = take 100 (header_body h) @ put_le 4 (c mod 2 ^ 32)"
    using assms(1) by (metis encode_header_cases Inr_inject)
  have app: "bs = CONTEXT_INDEX_MAGIC @ put_le 2 (formatRevision h) @ put_le 2 (schemaRevision h)
     @ put_le 4 (hflags h) @ put_le 4 (nodeCount h) @ put_le 4 (edgeCount h) @ put_le 4 (termCount h)
     @ put_le 4 (provenanceCount h) @ snapshotHash h @ configHash h
     @ put_le 2 (sectionCount h) @ put_le 2 0 @ put_le 4 (c mod 2 ^ 32)"
    using assms(2) by (simp add: bs header_body_append header_ok_def fixedHash_id)
  note ok = assms(2) [unfolded header_ok_def limits]
  show "take 8 bs = CONTEXT_INDEX_MAGIC" by (simp add: app)
  show "u16_at bs 8 = formatRevision h" "u16_at bs 10 = schemaRevision h"
    "u32_at bs 12 = hflags h" "u32_at bs 16 = nodeCount h" "u32_at bs 20 = edgeCount h"
    "u32_at bs 24 = termCount h" "u32_at bs 28 = provenanceCount h"
    "u16_at bs 96 = sectionCount h" "u16_at bs 98 = 0"
    unfolding app using ok by (simp_all add: byte_simps)
  show "bslice bs 32 64 = snapshotHash h" "bslice bs 64 96 = configHash h"
    unfolding app using ok by (simp_all add: byte_simps)
  have "contextIndexChecksum bs 0 100 = contextIndexChecksum (header_body h) 0 100"
    by (rule contextIndexChecksum_bslice) (simp_all add: bs bslice_def)
  moreover have "u32_at bs 100 = c mod 2 ^ 32"
    unfolding app using ok by (simp add: byte_simps)
  ultimately show "\<exists>c. contextIndexChecksum bs 0 100 = Inr c \<and> u32_at bs 100 = c mod 2 ^ 32"
    using c by simp
qed

lemma read_header_encoded:
  assumes "encodeContextIndexHeader h = Inr bs" and "header_ok h"
  shows "readContextIndexHeader (bs @ rest) = Inr h"
proof -
  note ok = assms(2) [unfolded header_ok_def]
  note reads = encode_header_reads [OF assms]
  have len: "length bs = 104" using assms(1) by (rule length_encode_header)
  from reads(13) obtain c where c: "contextIndexChecksum bs 0 100 = Inr c"
    and stored: "u32_at bs 100 = c mod 2 ^ 32" by blast
  have "contextIndexChecksum (bs @ rest) 0 100 = Inr c"
    using c len contextIndexChecksum_bslice [of 0 100 "bs @ rest" bs]
    by (simp add: byte_simps)
  moreover have "take 8 (bs @ rest) = CONTEXT_INDEX_MAGIC" using reads(1) len by simp
  then have "for_each (\<lambda>index. if (bs @ rest) ! index \<noteq> CONTEXT_INDEX_MAGIC ! index
      then fail Magic_invalid [(''at'', int index)] else Inr ()) [0..<CONTEXT_INDEX_MAGIC_BYTES] = Inr ()"
    using magic_check [of "bs @ rest"] len by simp
  ultimately show ?thesis
    using len reads stored ok unfolding readContextIndexHeader_def
    by (simp add: get_le_ok byte_simps layout)
qed

lemma read_header_canonical:
  assumes "readContextIndexHeader bs = Inr h"
  shows "header_ok h \<and> 104 \<le> length bs \<and> encodeContextIndexHeader h = Inr (take 104 bs)"
proof -
  have len: "104 \<le> length bs"
    using assms by (auto simp: readContextIndexHeader_def layout split: if_splits)
  from assms obtain c where magic: "take 8 bs = CONTEXT_INDEX_MAGIC"
    and c: "contextIndexChecksum bs 0 100 = Inr c" "u32_at bs 100 = c mod 2 ^ 32"
    and h: "h = \<lparr>formatRevision = 2, schemaRevision = u16_at bs 10, hflags = u32_at bs 12,
      nodeCount = u32_at bs 16, edgeCount = u32_at bs 20, termCount = u32_at bs 24,
      provenanceCount = u32_at bs 28, snapshotHash = bslice bs 32 64,
      configHash = bslice bs 64 96, sectionCount = u16_at bs 96\<rparr>"
    and rev: "u16_at bs 8 = 2" and res: "u16_at bs 98 = 0"
    and lim: "u32_at bs 16 \<le> maxNodeCount" "u32_at bs 20 \<le> maxEdgeCount"
      "u32_at bs 24 \<le> maxTermCount" "u32_at bs 28 \<le> maxProvenanceCount"
      "u16_at bs 96 \<le> maxSectionCount"
    using len magic_check [of bs] unfolding readContextIndexHeader_def
    by (auto simp: get_le_ok layout not_less split: if_splits)
  have ok: "header_ok h"
    using len lim le_at_bound [of 2 bs 10] le_at_bound [of 4 bs 12] by (simp add: header_ok_def h)
  have fields: "put_le 2 (u16_at bs 8) = bslice bs 8 10" "put_le 2 (u16_at bs 10) = bslice bs 10 12"
    "put_le 4 (u32_at bs 12) = bslice bs 12 16" "put_le 4 (u32_at bs 16) = bslice bs 16 20"
    "put_le 4 (u32_at bs 20) = bslice bs 20 24" "put_le 4 (u32_at bs 24) = bslice bs 24 28"
    "put_le 4 (u32_at bs 28) = bslice bs 28 32" "put_le 2 (u16_at bs 96) = bslice bs 96 98"
    "put_le 2 (u16_at bs 98) = bslice bs 98 100" "put_le 4 (u32_at bs 100) = bslice bs 100 104"
    using len by (simp_all add: put_le_le_at)
  have body: "take 100 (header_body h) = take 100 bs"
  proof -
    have "take 100 bs = bslice bs 0 8 @ bslice bs 8 10 @ bslice bs 10 12 @ bslice bs 12 16
        @ bslice bs 16 20 @ bslice bs 20 24 @ bslice bs 24 28 @ bslice bs 28 32 @ bslice bs 32 64
        @ bslice bs 64 96 @ bslice bs 96 98 @ bslice bs 98 100"
      unfolding take_as_bslice by (simp add: bslice_split [symmetric])
    moreover have "bslice bs 0 8 = CONTEXT_INDEX_MAGIC" using magic by (simp add: take_as_bslice)
    ultimately show ?thesis
      using len fields rev res by (simp add: header_body_append h fixedHash_id)
  qed
  obtain c' where c': "contextIndexChecksum (header_body h) 0 100 = Inr c'"
    and enc: "encodeContextIndexHeader h = Inr (take 100 (header_body h) @ put_le 4 (c' mod 2 ^ 32))"
    by (rule encode_header_cases)
  have "bslice (header_body h) 0 100 = bslice bs 0 100" using body by (simp add: take_as_bslice)
  then have "contextIndexChecksum (header_body h) 0 100 = contextIndexChecksum bs 0 100"
    using len by (intro contextIndexChecksum_bslice) simp_all
  with c c' have "c' = c" by simp
  with enc body fields(10) c(2) have "encodeContextIndexHeader h = Inr (take 100 bs @ bslice bs 100 104)"
    by simp
  also have "take 100 bs @ bslice bs 100 104 = take 104 bs"
    by (simp add: take_as_bslice bslice_split [symmetric])
  finally show ?thesis using ok len by blast
qed

text \<open>
  C21. The header reader accepts a file exactly when its first 104 bytes are the
  encoding of a well-formed header, and then returns that header: reading inverts
  encoding, every accepted header is canonical (magic, checksum, revision and reserved
  field included), and its counts are inside the limits.
\<close>

theorem header_roundtrip:
  "readContextIndexHeader bs = Inr h \<longleftrightarrow>
     header_ok h \<and> 104 \<le> length bs \<and> encodeContextIndexHeader h = Inr (take 104 bs)"
  using read_header_canonical [of bs h] read_header_encoded [of h "take 104 bs" "drop 104 bs"]
  by auto

section \<open>The section table round trip\<close>

definition descriptor_ok :: "SectionDescriptor \<Rightarrow> bool" where
  "descriptor_ok d \<longleftrightarrow> sd_kind d \<in> SECTION_KINDS \<and> sd_count d \<le> maxSectionCountValue
     \<and> sd_offset d < 2 ^ 64 \<and> sd_length d < 2 ^ 64 \<and> sd_checksum d < 2 ^ 64"

lemma encode_descriptor_append:
  "encodeSectionDescriptor d = put_le 4 (sd_kind d) @ put_le 4 (sd_count d) @ put_le 8 (sd_offset d)
     @ put_le 8 (sd_length d) @ put_le 8 (sd_checksum d)"
  by (simp add: encodeSectionDescriptor_def layout overlay_def)

lemma length_encode_descriptor [simp]: "length (encodeSectionDescriptor d) = 32"
  by (simp add: encode_descriptor_append)

lemma read_descriptor_iff:
  assumes len: "104 + index * 32 + 32 \<le> length bs"
  shows "readSectionDescriptor bs index = Inr d \<longleftrightarrow>
     descriptor_ok d \<and> bslice bs (104 + index * 32) (104 + index * 32 + 32) = encodeSectionDescriptor d"
proof -
  define p where "p = 104 + index * 32"
  have len': "p + 32 \<le> length bs" using len by (simp add: p_def)
  let ?r = "\<lparr>sd_kind = u32_at bs p, sd_offset = u64_at bs (p + 8), sd_length = u64_at bs (p + 16),
     sd_count = u32_at bs (p + 4), sd_checksum = u64_at bs (p + 24)\<rparr>"
  have read: "readSectionDescriptor bs index = Inr d \<longleftrightarrow> descriptor_ok ?r \<and> d = ?r"
    using len' le_at_bound [of 8 bs "p + 8"] le_at_bound [of 8 bs "p + 16"] le_at_bound [of 8 bs "p + 24"]
    by (auto simp: readSectionDescriptor_def layout descriptor_ok_def get_le_ok not_less
        p_def [symmetric] split: if_splits)
  have enc: "bslice bs p (p + 32) = encodeSectionDescriptor ?r"
  proof -
    have "bslice bs p (p + 32) = bslice bs p (p + 4) @ bslice bs (p + 4) (p + 8)
        @ bslice bs (p + 8) (p + 16) @ bslice bs (p + 16) (p + 24) @ bslice bs (p + 24) (p + 32)"
      by (simp add: bslice_split [symmetric])
    moreover have "put_le 4 (u32_at bs p) = bslice bs p (p + 4)"
      "put_le 4 (u32_at bs (p + 4)) = bslice bs (p + 4) (p + 8)"
      "put_le 8 (u64_at bs (p + 8)) = bslice bs (p + 8) (p + 16)"
      "put_le 8 (u64_at bs (p + 16)) = bslice bs (p + 16) (p + 24)"
      "put_le 8 (u64_at bs (p + 24)) = bslice bs (p + 24) (p + 32)"
      using len' by (simp_all add: put_le_le_at ac_simps)
    ultimately show ?thesis by (simp add: encode_descriptor_append)
  qed
  have unique: "descriptor_ok d \<Longrightarrow> bslice bs p (p + 32) = encodeSectionDescriptor d \<Longrightarrow> d = ?r"
  proof -
    assume ok: "descriptor_ok d" and eq: "bslice bs p (p + 32) = encodeSectionDescriptor d"
    have fld: "k + w \<le> 32 \<Longrightarrow> le_at w bs (p + k) = le_at w (encodeSectionDescriptor d) k" for w k
      using eq le_at_bslice [of p k w "p + 32" bs] by simp
    from fld [of 0 4] fld [of 4 4] fld [of 8 8] fld [of 16 8] fld [of 24 8] ok
    show "d = ?r"
      by (simp add: encode_descriptor_append byte_simps descriptor_ok_def limits section_kinds_iff)
  qed
  show ?thesis unfolding p_def [symmetric] using read enc unique by blast
qed

lemma section_table_iff:
  "readSectionTable bs header = Inr ds \<longleftrightarrow>
     length ds = sectionCount header \<and> 32 * sectionCount header \<le> maxSectionBytes
     \<and> 104 + 32 * sectionCount header \<le> length bs \<and> list_all descriptor_ok ds
     \<and> bslice bs 104 (104 + 32 * sectionCount header) = concat (map encodeSectionDescriptor ds)"
proof (cases "32 * sectionCount header \<le> maxSectionBytes \<and> 104 + 32 * sectionCount header \<le> length bs")
  case False
  have "nat (int (sectionCount header) * 32) = sectionCount header * 32" by simp
  with False show ?thesis
    by (auto simp: readSectionTable_def rbind_Inr_iff checkedMul_Inr_iff layout limits Let_def)
next
  case True
  let ?n = "sectionCount header"
  from True have mul: "checkedMul (int ?n) 32 (int maxSectionBytes) = Inr (int (?n * 32))"
    by (simp add: checkedMul_Inr_iff limits)
  have "nat (int ?n * 32) = ?n * 32" by simp
  with mul have "readSectionTable bs header = map_res (readSectionDescriptor bs) [0..<?n]"
    using True by (simp add: readSectionTable_def layout Let_def)
  then have "readSectionTable bs header = Inr ds \<longleftrightarrow>
      length ds = ?n \<and> (\<forall>i < ?n. readSectionDescriptor bs i = Inr (ds ! i))"
    by (simp add: map_res_Inr_iff)
  also have "\<dots> \<longleftrightarrow> length ds = ?n \<and> (\<forall>i < ?n. descriptor_ok (ds ! i)
      \<and> bslice bs (104 + i * 32) (104 + i * 32 + 32) = encodeSectionDescriptor (ds ! i))"
    using True by (intro conj_cong refl all_cong read_descriptor_iff) simp
  also have "\<dots> \<longleftrightarrow> length ds = ?n \<and> list_all descriptor_ok ds
      \<and> bslice bs 104 (104 + ?n * 32) = concat (map encodeSectionDescriptor ds)"
    using True rows_eq_iff [of "map encodeSectionDescriptor ds" 32 104 bs]
    by (auto simp: list_all_length ac_simps)
  finally show ?thesis using True by (simp add: ac_simps)
qed

text \<open>
  Reading the section table succeeds exactly when the table fits in the file and is
  the concatenation of the encodings of well-formed descriptors, which it returns in
  file order.
\<close>

theorem section_table_roundtrip:
  "readSectionTable bs header = Inr ds \<longleftrightarrow>
     length ds = sectionCount header \<and> 32 * sectionCount header \<le> maxSectionBytes
     \<and> 104 + 32 * sectionCount header \<le> length bs \<and> list_all descriptor_ok ds
     \<and> bslice bs 104 (104 + 32 * sectionCount header) = concat (map encodeSectionDescriptor ds)"
  by (rule section_table_iff)

section \<open>What an accepted layout guarantees\<close>

text \<open>
  A section's byte range, and the contract of the layout: every descriptor lies between
  the end of the table and the end of the file, no two share a kind, their ranges are
  disjoint, each carries the checksum of its bytes, and every required kind is there.
\<close>

definition sd_end :: "SectionDescriptor \<Rightarrow> nat" where
  "sd_end d = sd_offset d + sd_length d"

definition section_at :: "bytes \<Rightarrow> nat \<Rightarrow> SectionDescriptor \<Rightarrow> bool" where
  "section_at bs tableEnd d \<longleftrightarrow> sd_length d \<le> maxSectionBytes \<and> sd_end d \<le> maxFileBytes
     \<and> tableEnd \<le> sd_offset d \<and> sd_end d \<le> length bs"

definition section_map :: "SectionDescriptor list \<Rightarrow> nat \<rightharpoonup> SectionDescriptor" where
  "section_map ds = map_of (map (\<lambda>d. (sd_kind d, d)) ds)"

definition layout_ok :: "bytes \<Rightarrow> SectionDescriptor list \<Rightarrow> bool" where
  "layout_ok bs ds \<longleftrightarrow> distinct (map sd_kind ds)
     \<and> list_all (section_at bs (104 + length ds * 32)) ds
     \<and> sorted_wrt (\<lambda>d e. sd_end d \<le> sd_offset e) (sort_key sd_offset ds)
     \<and> SECTION_KINDS \<subseteq> sd_kind ` set ds
     \<and> list_all (\<lambda>d. contextIndexChecksum bs (sd_offset d) (sd_end d) = Inr (sd_checksum d)) ds"

lemma section_map_Some:
  "section_map ds k = Some d \<Longrightarrow> d \<in> set ds \<and> sd_kind d = k"
  unfolding section_map_def by (drule map_of_SomeD) auto

lemma dom_section_map: "dom (section_map ds) = sd_kind ` set ds"
  by (auto simp: section_map_def dom_map_of_conv_image_fst image_image)

lemma admit_sections_iff:
  "admit_sections tableEnd (length bs) m ds = Inr m' \<longleftrightarrow>
     distinct (map sd_kind ds) \<and> sd_kind ` set ds \<inter> dom m = {}
     \<and> list_all (section_at bs tableEnd) ds \<and> m' = m ++ section_map ds"
proof (induction ds arbitrary: m)
  case Nil
  then show ?case by (auto simp: section_map_def)
next
  case (Cons d ds)
  have upd: "m(sd_kind d \<mapsto> d) ++ section_map ds = m ++ section_map (d # ds)"
    if "sd_kind d \<notin> sd_kind ` set ds"
    using that dom_section_map [of ds]
    by (auto simp: section_map_def map_add_def fun_eq_iff split: option.splits)
  have "section_at bs tableEnd d \<longleftrightarrow> \<not> sd_length d > maxSectionBytes
      \<and> (\<exists>s. checkedAdd (int (sd_offset d)) (int (sd_length d)) (int maxFileBytes) = Inr s
           \<and> \<not> (sd_offset d < tableEnd \<or> s > int (length bs)))"
    by (auto simp: section_at_def sd_end_def checkedAdd_Inr_iff simp flip: of_nat_add)
  then have step: "admit_sections tableEnd (length bs) m (d # ds) = Inr m' \<longleftrightarrow>
      sd_kind d \<notin> dom m \<and> section_at bs tableEnd d
      \<and> admit_sections tableEnd (length bs) (m(sd_kind d \<mapsto> d)) ds = Inr m'"
    by (cases "checkedAdd (int (sd_offset d)) (int (sd_length d)) (int maxFileBytes)")
      (simp_all add: domIff)
  show ?case
    unfolding step Cons.IH [of "m(sd_kind d \<mapsto> d)"] using upd by auto
qed

lemma check_overlap_iff:
  "check_overlap ds = Inr () \<longleftrightarrow> sorted_wrt (\<lambda>d e. sd_end d \<le> sd_offset e) ds"
proof (induction ds rule: check_overlap.induct)
  case (1 previous current ds)
  have "check_overlap (previous # current # ds) = Inr () \<longleftrightarrow>
      sd_end previous \<le> sd_offset current \<and> check_overlap (current # ds) = Inr ()"
    by (simp add: sd_end_def)
  also have "\<dots> \<longleftrightarrow> sorted_wrt (\<lambda>d e. sd_end d \<le> sd_offset e) (previous # current # ds)"
  proof -
    have "sd_end previous \<le> sd_offset e"
      if "sd_end previous \<le> sd_offset current" "sd_end current \<le> sd_offset e" for e
      using that by (simp add: sd_end_def)
    moreover have "sd_end previous \<le> sd_offset current \<Longrightarrow> check_overlap (current # ds) = Inr () \<longleftrightarrow>
        sorted_wrt (\<lambda>d e. sd_end d \<le> sd_offset e) (current # ds)"
      by (rule 1) (simp add: sd_end_def)
    ultimately show ?thesis by (auto simp del: check_overlap.simps)
  qed
  finally show ?case .
qed auto

lemma validate_layout_Inr:
  "validateSectionLayout bs header ds = Inr m \<longleftrightarrow> layout_ok bs ds \<and> m = section_map ds"
proof -
  have "validateSectionLayout bs header ds = Inr m \<longleftrightarrow>
    (\<exists>byKind. admit_sections (104 + length ds * 32) (length bs) Map.empty ds = Inr byKind
       \<and> check_overlap (sort_key sd_offset ds) = Inr ()
       \<and> (\<forall>k \<in> SECTION_KINDS. byKind k \<noteq> None)
       \<and> (\<forall>d \<in> set ds. contextIndexChecksum bs (sd_offset d) (sd_end d) = Inr (sd_checksum d))
       \<and> m = byKind)"
    unfolding validateSectionLayout_def SECTION_KINDS_def
    by (auto simp: rbind_Inr_iff for_each_Inr_iff layout sd_end_def split: if_splits)
  also have "\<dots> \<longleftrightarrow> layout_ok bs ds \<and> m = section_map ds"
  proof -
    have "(\<forall>k \<in> SECTION_KINDS. section_map ds k \<noteq> None) \<longleftrightarrow> SECTION_KINDS \<subseteq> sd_kind ` set ds"
      using dom_section_map [of ds] by (auto simp: subset_iff domIff)
    then show ?thesis
      by (auto simp: admit_sections_iff check_overlap_iff layout_ok_def list_all_iff)
  qed
  finally show ?thesis .
qed

lemma sorted_wrt_disjoint:
  assumes "sorted_wrt (\<lambda>d e. sd_end d \<le> sd_offset e) ds" "d \<in> set ds" "e \<in> set ds" "d \<noteq> e"
  shows "sd_end d \<le> sd_offset e \<or> sd_end e \<le> sd_offset d"
  using assms by (induction ds) auto

lemma layout_disjoint:
  assumes "layout_ok bs ds" "d \<in> set ds" "e \<in> set ds" "d \<noteq> e"
  shows "sd_end d \<le> sd_offset e \<or> sd_end e \<le> sd_offset d"
  using sorted_wrt_disjoint [of "sort_key sd_offset ds" d e] assms by (auto simp: layout_ok_def)

lemma layout_required:
  assumes "layout_ok bs ds" "k \<in> SECTION_KINDS"
  obtains d where "section_map ds k = Some d" "sd_kind d = k" "d \<in> set ds"
proof -
  from assms have "k \<in> dom (section_map ds)" by (auto simp: dom_section_map layout_ok_def)
  then obtain d where "section_map ds k = Some d" by blast
  then show thesis using section_map_Some that by blast
qed

text \<open>
  The layout validation accepts exactly the descriptor lists that satisfy the layout
  contract, and returns their index by kind.
\<close>

theorem layout_validation_exact:
  "validateSectionLayout bs header ds = Inr m \<longleftrightarrow> layout_ok bs ds \<and> m = section_map ds"
  by (rule validate_layout_Inr)

text \<open>
  In an accepted layout every required section is present, lies between the section
  table and the end of the file, carries the checksum of its own bytes, and two sections
  of different kind never share a byte.
\<close>

theorem layout_sections_disjoint:
  assumes "validateSectionLayout bs header ds = Inr m" and "i \<in> SECTION_KINDS" and "j \<in> SECTION_KINDS"
    and "i \<noteq> j"
  shows "\<exists>d e. m i = Some d \<and> m j = Some e
     \<and> 104 + 32 * length ds \<le> sd_offset d \<and> sd_offset d + sd_length d \<le> length bs
     \<and> contextIndexChecksum bs (sd_offset d) (sd_offset d + sd_length d) = Inr (sd_checksum d)
     \<and> {sd_offset d ..< sd_offset d + sd_length d} \<inter> {sd_offset e ..< sd_offset e + sd_length e} = {}"
proof -
  from assms(1) have ok: "layout_ok bs ds" and m: "m = section_map ds" by (simp_all add: validate_layout_Inr)
  from layout_required [OF ok assms(2)] layout_required [OF ok assms(3)]
  obtain d e where de: "m i = Some d" "sd_kind d = i" "d \<in> set ds" "m j = Some e" "sd_kind e = j" "e \<in> set ds"
    unfolding m by metis
  with assms(4) have "sd_end d \<le> sd_offset e \<or> sd_end e \<le> sd_offset d"
    by (intro layout_disjoint [OF ok]) auto
  with ok de show ?thesis
    by (intro exI [of _ d] exI [of _ e]) (auto simp: layout_ok_def list_all_iff section_at_def sd_end_def)
qed

definition empty_sections :: "SectionDescriptor list" where
  "empty_sections = map (\<lambda>k. \<lparr>sd_kind = k, sd_offset = 744, sd_length = 0, sd_count = 0,
     sd_checksum = 0x01000193 * 2 ^ 32 + 0x811c9dc5\<rparr>) [1..<21]"

lemma empty_sections_layout: "layout_ok (replicate 744 0) empty_sections"
proof -
  have "\<forall>d \<in> set empty_sections. contextIndexChecksum (replicate 744 0) (sd_offset d) (sd_end d)
      = Inr (sd_checksum d) \<and> section_at (replicate 744 0) 744 d"
    by (simp add: empty_sections_def contextIndexChecksum_def sd_end_def bslice_def section_at_def limits)
  moreover have "distinct (map sd_kind empty_sections)" "length empty_sections = 20"
    "sd_kind ` set empty_sections = {1..<21}"
    by (simp_all add: empty_sections_def comp_def image_image)
  moreover have "sorted_wrt (\<lambda>d e. sd_end d \<le> sd_offset e) (sort_key sd_offset empty_sections)"
  proof -
    have "sorted_wrt (\<lambda>d e. sd_end d \<le> sd_offset e) xs" if "set xs \<subseteq> set empty_sections" for xs
      using that by (induction xs) (auto simp: empty_sections_def sd_end_def)
    then show ?thesis by simp
  qed
  ultimately show ?thesis
    by (auto simp: layout_ok_def list_all_iff section_kinds_iff)
qed

theorem layout_sections_disjoint_witness:
  "\<exists>d e. section_map empty_sections 1 = Some d \<and> section_map empty_sections 2 = Some e
     \<and> 104 + 32 * length empty_sections \<le> sd_offset d \<and> sd_offset d + sd_length d \<le> length (replicate 744 (0::byte))
     \<and> contextIndexChecksum (replicate 744 0) (sd_offset d) (sd_offset d + sd_length d) = Inr (sd_checksum d)
     \<and> {sd_offset d ..< sd_offset d + sd_length d} \<inter> {sd_offset e ..< sd_offset e + sd_length e} = {}"
proof (rule layout_sections_disjoint)
  show "validateSectionLayout (replicate 744 0) undefined empty_sections = Inr (section_map empty_sections)"
    by (simp add: validate_layout_Inr empty_sections_layout)
qed (simp_all add: section_kinds_iff)

end
