(* ===== verification/Utf8.thy ===== *)
theory Utf8
  imports Bytes "HOL-Library.List_Lexorder"
begin

text \<open>
  JavaScript strings and the two platform codecs the index relies on. A string is
  its list of UTF-16 code units, and \<open>List_Lexorder\<close> makes \<open><\<close> on such lists the
  code-unit order that JavaScript's \<open><\<close> uses. \<open>text_encode\<close> is
  \<open>TextEncoder.encode\<close>: lone surrogates become U+FFFD. \<open>text_decode\<close> is
  \<open>TextDecoder('utf-8', {fatal: true}).decode\<close>: a leading byte order mark is
  dropped, and malformed input throws \<open>TypeError\<close>.
\<close>

type_synonym js_string = "16 word list"

definition js :: "string \<Rightarrow> js_string" where
  "js s = map (\<lambda>c. word_of_nat (of_char c)) s"

section \<open>Code points as UTF-8\<close>

definition scalar :: "nat \<Rightarrow> bool" where
  "scalar c \<longleftrightarrow> c < 55296 \<or> (57343 < c \<and> c < 1114112)"

definition utf8_point_nat :: "nat \<Rightarrow> nat list" where
  "utf8_point_nat c =
     (if c < 128 then [c]
      else if c < 2048 then [192 + c div 64, 128 + c mod 64]
      else if c < 65536 then [224 + c div 4096, 128 + c div 64 mod 64, 128 + c mod 64]
      else [240 + c div 262144, 128 + c div 4096 mod 64, 128 + c div 64 mod 64, 128 + c mod 64])"

definition utf8_point :: "nat \<Rightarrow> bytes" where
  "utf8_point c = map word_of_nat (utf8_point_nat c)"

definition cont :: "nat \<Rightarrow> bool" where
  "cont b \<longleftrightarrow> 128 \<le> b \<and> b < 192"

text \<open>
  The first code point of a byte sequence and the number of bytes it takes; the
  bounds on the second byte exclude overlong forms, surrogates and values past
  U+10FFFF.
\<close>

fun utf8_next_nat :: "nat list \<Rightarrow> (nat \<times> nat) option" where
  "utf8_next_nat [] = None"
| "utf8_next_nat (a # r) =
     (if a < 128 then Some (a, 1)
      else if 194 \<le> a \<and> a < 224 then
        (case r of b # _ \<Rightarrow> if cont b then Some ((a - 192) * 64 + (b - 128), 2) else None
         | _ \<Rightarrow> None)
      else if 224 \<le> a \<and> a < 240 then
        (case r of b # c # _ \<Rightarrow>
           if cont b \<and> cont c \<and> (a = 224 \<longrightarrow> 160 \<le> b) \<and> (a = 237 \<longrightarrow> b < 160)
           then Some ((a - 224) * 4096 + (b - 128) * 64 + (c - 128), 3) else None
         | _ \<Rightarrow> None)
      else if 240 \<le> a \<and> a < 245 then
        (case r of b # c # d # _ \<Rightarrow>
           if cont b \<and> cont c \<and> cont d \<and> (a = 240 \<longrightarrow> 144 \<le> b) \<and> (a = 244 \<longrightarrow> b < 144)
           then Some ((a - 240) * 262144 + (b - 128) * 4096 + (c - 128) * 64 + (d - 128), 4)
           else None
         | _ \<Rightarrow> None)
      else None)"

definition utf8_next :: "bytes \<Rightarrow> (nat \<times> nat) option" where
  "utf8_next bs = utf8_next_nat (map unat (take 4 bs))"

lemma utf8_next_nat_pos:
  "utf8_next_nat bs = Some (c, n) \<Longrightarrow> 0 < n \<and> n \<le> length bs"
  by (cases bs rule: utf8_next_nat.cases) (auto split: if_splits list.splits)

lemma utf8_next_pos: "utf8_next bs = Some (c, n) \<Longrightarrow> 0 < n \<and> n \<le> length bs"
  by (auto simp: utf8_next_def dest!: utf8_next_nat_pos)

function utf8_points :: "bytes \<Rightarrow> nat list option" where
  "utf8_points bs =
     (if bs = [] then Some []
      else case utf8_next bs of
        None \<Rightarrow> None
      | Some (c, n) \<Rightarrow> map_option (Cons c) (utf8_points (drop n bs)))"
  by pat_completeness auto
termination
  by (relation "measure length") (auto dest!: utf8_next_pos)

declare utf8_points.simps [simp del]

lemma utf8_points_Nil [simp]: "utf8_points [] = Some []"
  by (simp add: utf8_points.simps)

lemma utf8_next_nat3:
  "p < 16 \<Longrightarrow> q < 64 \<Longrightarrow> r < 64 \<Longrightarrow> (p = 0 \<Longrightarrow> 32 \<le> q) \<Longrightarrow> (p = 13 \<Longrightarrow> q < 32) \<Longrightarrow>
     utf8_next_nat ((224 + p) # (128 + q) # (128 + r) # rest) = Some (p * 4096 + q * 64 + r, 3)"
  by (auto simp: cont_def)

lemma utf8_next_nat4:
  "p < 5 \<Longrightarrow> q < 64 \<Longrightarrow> r < 64 \<Longrightarrow> s < 64 \<Longrightarrow> (p = 0 \<Longrightarrow> 16 \<le> q) \<Longrightarrow> (p = 4 \<Longrightarrow> q < 16) \<Longrightarrow>
     utf8_next_nat ((240 + p) # (128 + q) # (128 + r) # (128 + s) # rest) =
       Some (p * 262144 + q * 4096 + r * 64 + s, 4)"
  by (auto simp: cont_def)

lemma utf8_next_nat_point:
  assumes "scalar c"
  shows "utf8_next_nat (utf8_point_nat c @ rest) = Some (c, length (utf8_point_nat c))"
proof -
  consider "c < 128" | "128 \<le> c" "c < 2048" | "2048 \<le> c" "c < 65536" | "65536 \<le> c" "c < 1114112"
    using assms by (force simp: scalar_def)
  then show ?thesis
  proof cases
    case 1
    then show ?thesis by (simp add: utf8_point_nat_def)
  next
    case 2
    then have "2 \<le> c div 64" "c div 64 < 32" by auto
    with 2 show ?thesis by (simp add: utf8_point_nat_def cont_def)
  next
    case 3
    let ?x = "c div 64"
    have q: "c div 4096 = ?x div 64" by (simp flip: div_mult2_eq)
    have d: "c = 64 * ?x + c mod 64" "?x = 64 * (?x div 64) + ?x mod 64"
      and r: "c mod 64 < 64" "?x mod 64 < 64" by simp_all
    have e: "?x div 64 < 16" "?x div 64 = 0 \<longrightarrow> 32 \<le> ?x mod 64" using d r 3 by linarith+
    have f: "?x div 64 = 13 \<longrightarrow> ?x mod 64 < 32"
      using d r 3 assms unfolding scalar_def by linarith
    have g: "?x div 64 * 4096 + ?x mod 64 * 64 + c mod 64 = c" using d by linarith
    have "utf8_next_nat ((224 + ?x div 64) # (128 + ?x mod 64) # (128 + c mod 64) # rest) = Some (c, 3)"
      using utf8_next_nat3 [OF e(1) r(2,1)] e(2) f g by metis
    then show ?thesis using 3 by (simp add: utf8_point_nat_def q del: utf8_next_nat.simps)
  next
    case 4
    let ?x = "c div 64" and ?y = "c div 4096"
    have q: "?y = ?x div 64" "c div 262144 = ?y div 64" by (simp_all flip: div_mult2_eq)
    have d: "c = 64 * ?x + c mod 64" "?x = 64 * ?y + ?x mod 64" "?y = 64 * (?y div 64) + ?y mod 64"
      and r: "c mod 64 < 64" "?x mod 64 < 64" "?y mod 64 < 64" by (simp_all add: q(1))
    have e: "?y div 64 \<le> 4" "?y div 64 = 0 \<longrightarrow> 16 \<le> ?y mod 64"
      and f: "?y div 64 = 4 \<longrightarrow> ?y mod 64 < 16" using d r 4 by linarith+
    have g: "?y div 64 * 262144 + ?y mod 64 * 4096 + ?x mod 64 * 64 + c mod 64 = c"
      using d by linarith
    have e': "?y div 64 < 5" using e(1) by linarith
    have "utf8_next_nat ((240 + ?y div 64) # (128 + ?y mod 64) # (128 + ?x mod 64) #
        (128 + c mod 64) # rest) = Some (c, 4)"
      using utf8_next_nat4 [OF e' r(3,2,1)] e(2) f g by metis
    then show ?thesis using 4 by (simp add: utf8_point_nat_def q(2) del: utf8_next_nat.simps)
  qed
qed

lemma utf8_point_nat_bounds: "scalar c \<Longrightarrow> \<forall>b \<in> set (utf8_point_nat c). b < 256"
  by (auto simp: utf8_point_nat_def scalar_def)

lemma length_utf8_point_nat: "length (utf8_point_nat c) \<le> 4" "0 < length (utf8_point_nat c)"
  by (simp_all add: utf8_point_nat_def)

lemma map_unat_utf8_point: "scalar c \<Longrightarrow> map unat (utf8_point c) = utf8_point_nat c"
  using utf8_point_nat_bounds by (auto simp: utf8_point_def intro!: map_idI)

lemma utf8_next_point:
  assumes "scalar c"
  shows "utf8_next (utf8_point c @ rest) = Some (c, length (utf8_point c))"
proof -
  have l: "length (utf8_point c) = length (utf8_point_nat c)" by (simp add: utf8_point_def)
  then have "map unat (take 4 (utf8_point c @ rest)) =
      utf8_point_nat c @ map unat (take (4 - length (utf8_point_nat c)) rest)"
    using length_utf8_point_nat(1) [of c] map_unat_utf8_point [OF assms] by simp
  with utf8_next_nat_point [OF assms] l show ?thesis by (simp add: utf8_next_def)
qed

lemma utf8_point_nonempty [simp]: "utf8_point c \<noteq> []"
  using length_utf8_point_nat(2) [of c] by (auto simp: utf8_point_def)

lemma utf8_points_point:
  assumes "scalar c"
  shows "utf8_points (utf8_point c @ rest) = map_option (Cons c) (utf8_points rest)"
  by (subst utf8_points.simps) (simp add: utf8_next_point [OF assms])

lemma utf8_points_encode:
  "\<forall>c \<in> set cs. scalar c \<Longrightarrow>
     utf8_points (concat (map utf8_point cs) @ rest) = map_option ((@) cs) (utf8_points rest)"
proof (induction cs)
  case Nil
  then show ?case by (cases "utf8_points rest") auto
next
  case (Cons c cs)
  then show ?case by (cases "utf8_points rest") (auto simp: utf8_points_point)
qed

section \<open>Code points as UTF-16\<close>

definition utf16_point :: "nat \<Rightarrow> js_string" where
  "utf16_point c =
     (if c < 65536 then [word_of_nat c]
      else [word_of_nat (55296 + (c - 65536) div 1024), word_of_nat (56320 + (c - 65536) mod 1024)])"

definition high_surrogate :: "16 word \<Rightarrow> bool" where
  "high_surrogate u \<longleftrightarrow> 55296 \<le> unat u \<and> unat u < 56320"

definition low_surrogate :: "16 word \<Rightarrow> bool" where
  "low_surrogate u \<longleftrightarrow> 56320 \<le> unat u \<and> unat u < 57344"

fun code_points :: "js_string \<Rightarrow> nat list" where
  "code_points [] = []"
| "code_points [u] = (if high_surrogate u \<or> low_surrogate u then [65533] else [unat u])"
| "code_points (u # v # s) =
     (if high_surrogate u then
        if low_surrogate v
        then (65536 + (unat u - 55296) * 1024 + (unat v - 56320)) # code_points s
        else 65533 # code_points (v # s)
      else if low_surrogate u then 65533 # code_points (v # s)
      else unat u # code_points (v # s))"

definition text_encode :: "js_string \<Rightarrow> bytes" where
  "text_encode s = concat (map utf8_point (code_points s))"

definition text_decode :: "bytes \<Rightarrow> js_string res" where
  "text_decode bs =
     (case utf8_points (if take 3 bs = [239, 187, 191] then drop 3 bs else bs) of
        None \<Rightarrow> Inl Type_error
      | Some cs \<Rightarrow> Inr (concat (map utf16_point cs)))"

text \<open>Strings the codecs carry unchanged: no lone surrogate, no leading byte order mark.\<close>

definition well_formed :: "js_string \<Rightarrow> bool" where
  "well_formed s \<longleftrightarrow> concat (map utf16_point (code_points s)) = s \<and> take 1 s \<noteq> [65279]"

lemma scalar_code_points: "c \<in> set (code_points s) \<Longrightarrow> scalar c"
proof (induction s rule: code_points.induct)
  case (2 u)
  moreover have "unat u < 65536" using unsigned_less [of u] by simp
  ultimately show ?case
    by (auto simp: scalar_def high_surrogate_def low_surrogate_def split: if_splits)
next
  case (3 u v s)
  have u: "unat u < 65536" "unat v < 65536" using unsigned_less [of u] unsigned_less [of v] by auto
  have "high_surrogate u \<Longrightarrow> low_surrogate v \<Longrightarrow>
      scalar (65536 + (unat u - 55296) * 1024 + (unat v - 56320))"
  proof -
    assume "high_surrogate u" "low_surrogate v"
    moreover from this have "(unat u - 55296) * 1024 \<le> 1023 * 1024"
      by (intro mult_le_mono1) (unfold high_surrogate_def, linarith)
    ultimately show ?thesis by (simp add: scalar_def low_surrogate_def)
  qed
  moreover have "\<not> high_surrogate u \<Longrightarrow> \<not> low_surrogate u \<Longrightarrow> scalar (unat u)"
    using u by (auto simp: scalar_def high_surrogate_def low_surrogate_def)
  moreover have "scalar 65533" by (simp add: scalar_def)
  ultimately show ?case using 3 by (auto split: if_splits)
qed simp

lemma utf8_points_text_encode:
  "utf8_points (text_encode s @ rest) = map_option ((@) (code_points s)) (utf8_points rest)"
  unfolding text_encode_def by (rule utf8_points_encode) (blast intro: scalar_code_points)

lemma utf8_point_bom:
  assumes c: "scalar c" and t: "take 3 (utf8_point c @ r) = [239, 187, 191]"
  shows "c = 65279"
proof -
  obtain q where q: "utf8_point c @ r = 239 # 187 # 191 # q"
    using append_take_drop_id [of 3 "utf8_point c @ r"] t by (metis append_Cons append_Nil)
  have "utf8_next (239 # 187 # 191 # q) = Some (65279, 3)"
    by (simp add: utf8_next_def cont_def)
  with utf8_next_point [OF c, of r] q show ?thesis by simp
qed

lemma code_points_bom:
  assumes "code_points s = 65279 # cs"
  shows "take 1 s = [65279]"
proof -
  have b: "unat u = 65279 \<Longrightarrow> u = 65279" for u :: "16 word" by (simp add: word_unat_eq_iff)
  from assms show ?thesis
    by (cases s rule: code_points.cases) (auto split: if_splits intro: b simp: high_surrogate_def)
qed

theorem text_decode_encode:
  assumes "well_formed s"
  shows "text_decode (text_encode s) = Inr s"
proof -
  have no_bom: "take 3 (text_encode s) \<noteq> [239, 187, 191]"
  proof
    assume t: "take 3 (text_encode s) = [239, 187, 191]"
    then obtain c cs where cs: "code_points s = c # cs" by (cases "code_points s") (auto simp: text_encode_def)
    with t have "take 3 (utf8_point c @ concat (map utf8_point cs)) = [239, 187, 191]"
      by (simp add: text_encode_def)
    moreover have "scalar c" using cs scalar_code_points [of c s] by simp
    ultimately have "c = 65279" using utf8_point_bom by blast
    with cs assms code_points_bom show False by (auto simp: well_formed_def)
  qed
  have "utf8_points (text_encode s) = Some (code_points s)"
    using utf8_points_text_encode [of s "[]"] by simp
  with no_bom assms show ?thesis by (simp add: text_decode_def well_formed_def)
qed

lemma text_encode_inj: "well_formed s \<Longrightarrow> well_formed t \<Longrightarrow> text_encode s = text_encode t \<Longrightarrow> s = t"
  using text_decode_encode by (metis sum.inject(2))

text \<open>Plain 7-bit strings are well formed.\<close>

lemma code_points_plain: "\<forall>u \<in> set s. unat u < 55296 \<Longrightarrow> code_points s = map unat s"
  by (induction s rule: code_points.induct) (auto simp: high_surrogate_def low_surrogate_def)

lemma utf16_point_unat: "utf16_point (unat u) = [u]"
  using unsigned_less [of u] by (simp add: utf16_point_def)

lemma well_formed_plain: "\<forall>u \<in> set s. unat u < 55296 \<Longrightarrow> well_formed s"
proof -
  assume p: "\<forall>u \<in> set s. unat u < 55296"
  then have "concat (map utf16_point (code_points s)) = s"
    by (simp add: code_points_plain comp_def utf16_point_unat)
  moreover have "take 1 s \<noteq> [65279]" using p by (cases s) auto
  ultimately show ?thesis by (simp add: well_formed_def)
qed

lemma well_formed_js: "well_formed (js s)"
proof (rule well_formed_plain, rule ballI)
  fix u assume "u \<in> set (js s)"
  then obtain c where "u = word_of_nat (of_char c)" by (auto simp: js_def)
  moreover have "(of_char c :: nat) mod 65536 < 55296"
    using nat_of_char_less_256 [of c] by (simp del: nat_of_char_less_256)
  ultimately show "unat u < 55296" by (simp add: unat_of_nat)
qed

section \<open>Boundaries between characters\<close>

text \<open>A character begins with a byte that continues none, and every further byte of it does.\<close>

lemma three_cases:
  obtains "xs = []" | x where "xs = [x]" | x y where "xs = [x, y]" | x y z r where "xs = x # y # z # r"
  by (cases xs; cases "tl xs"; cases "tl (tl xs)") auto

lemma utf8_next_nat_prefix:
  assumes "utf8_next_nat (xs @ ys) = Some (c, n)"
  shows "utf8_next_nat xs = (if n \<le> length xs then Some (c, n) else None)
    \<and> (length xs < n \<longrightarrow> xs \<noteq> [] \<longrightarrow> cont (hd ys)) \<and> n \<le> 4"
proof (cases xs)
  case Nil
  have "n \<le> 4" "0 < n" using assms
    by (cases ys; simp add: Nil split: if_splits list.splits)+
  with Nil show ?thesis by simp
next
  case (Cons a r)
  consider "a < 128" | "194 \<le> a" "a < 224" | "224 \<le> a" "a < 240" | "240 \<le> a" "a < 245"
    using assms Cons by (auto split: if_splits)
  then show ?thesis
  proof cases
    case 1
    with assms Cons show ?thesis by simp
  next
    case 2
    then have "\<not> a < 128" by simp
    with 2 assms Cons show ?thesis by (cases r; cases ys) (auto split: if_splits)
  next
    case 3
    then have "\<not> a < 128" "\<not> a < 224" by simp_all
    with 3 assms Cons show ?thesis
      by (cases r rule: three_cases; cases ys rule: three_cases) (simp_all split: if_splits)
  next
    case 4
    then have "\<not> a < 128" "\<not> a < 224" "\<not> a < 240" by simp_all
    with 4 assms Cons show ?thesis
      by (cases r rule: three_cases; cases ys rule: three_cases) (simp_all split: if_splits)
  qed
qed

lemma utf8_next_prefix:
  assumes "utf8_next (p @ q) = Some (c, n)"
  shows "utf8_next p = (if n \<le> length p then Some (c, n) else None)"
    and "length p < n \<Longrightarrow> p \<noteq> [] \<Longrightarrow> cont (unat (hd q))"
proof -
  have split: "utf8_next_nat (map unat (take 4 p) @ map unat (take (4 - length p) q)) = Some (c, n)"
    using assms by (simp add: utf8_next_def)
  note prefix = utf8_next_nat_prefix [OF split]
  from prefix show "utf8_next p = (if n \<le> length p then Some (c, n) else None)"
    by (simp add: utf8_next_def)
  assume short: "length p < n" "p \<noteq> []"
  have "length (take (4 - length p) q) + length p \<ge> n"
    using utf8_next_nat_pos [OF split] short by simp
  then have "take (4 - length p) q \<noteq> []" using short by auto
  then have "hd (map unat (take (4 - length p) q)) = unat (hd q)" by (cases q; cases "4 - length p") auto
  with prefix short show "cont (unat (hd q))" by simp
qed

lemma utf8_next_cont: "bs \<noteq> [] \<Longrightarrow> cont (unat (hd bs)) \<Longrightarrow> utf8_next bs = None"
  by (cases bs) (auto simp: utf8_next_def cont_def)

lemma utf8_points_cont: "bs \<noteq> [] \<Longrightarrow> cont (unat (hd bs)) \<Longrightarrow> utf8_points bs = None"
  by (simp add: utf8_points.simps [of bs] utf8_next_cont)

lemma utf8_points_torn:
  assumes "utf8_points (p @ q) \<noteq> None" "q \<noteq> []" "cont (unat (hd q))"
  shows "utf8_points p = None"
  using assms(1)
proof (induction p rule: utf8_points.induct)
  case (1 p)
  show ?case
  proof (cases "p = []")
    case True
    with "1.prems" assms(2,3) utf8_points_cont show ?thesis by simp
  next
    case False
    with "1.prems" obtain c n where next': "utf8_next (p @ q) = Some (c, n)"
      and rest: "utf8_points (drop n (p @ q)) \<noteq> None"
      by (auto simp: utf8_points.simps [of "p @ q"] split: option.splits)
    show ?thesis
    proof (cases "n \<le> length p")
      case True
      with utf8_next_prefix(1) [OF next'] have "utf8_next p = Some (c, n)" by simp
      with "1.IH" [OF False this refl] rest True show ?thesis by (simp add: utf8_points.simps [of p] False)
    next
      case n: False
      with utf8_next_prefix(1) [OF next'] show ?thesis by (simp add: utf8_points.simps [of p] False)
    qed
  qed
qed

lemma utf8_points_suffix:
  assumes "utf8_points (p @ q) \<noteq> None" "q \<noteq> []" "\<not> cont (unat (hd q))"
  shows "utf8_points q \<noteq> None"
  using assms(1)
proof (induction p rule: utf8_points.induct)
  case (1 p)
  show ?case
  proof (cases "p = []")
    case False
    with "1.prems" obtain c n where next': "utf8_next (p @ q) = Some (c, n)"
      and rest: "utf8_points (drop n (p @ q)) \<noteq> None"
      by (auto simp: utf8_points.simps [of "p @ q"] split: option.splits)
    have n: "n \<le> length p" using utf8_next_prefix(2) [OF next'] False assms(3) by force
    with utf8_next_prefix(1) [OF next'] have "utf8_next p = Some (c, n)" by simp
    from "1.IH" [OF False this refl] rest n show ?thesis by simp
  qed (use "1.prems" in simp)
qed

lemma text_decode_fails: "text_decode bs = Inl Type_error \<longleftrightarrow> utf8_points bs = None"
proof (cases "take 3 bs = [239, 187, 191]")
  case True
  then obtain r where "bs = 239 # 187 # 191 # r"
    by (metis append_take_drop_id append_Cons append_Nil)
  then have "utf8_points bs = map_option (Cons 65279) (utf8_points r)"
    by (simp add: utf8_points.simps [of "239 # 187 # 191 # r"] utf8_next_def cont_def)
  with \<open>bs = _\<close> show ?thesis by (simp add: text_decode_def split: option.splits)
qed (simp add: text_decode_def split: option.splits)

end
