(* ===== verification/Format_Sections.thy ===== *)
theory Format_Sections
  imports Format_Header Utf8
begin

text \<open>
  runtime-index/format-sections.ts: validation of payloads the section table cannot
  describe, that is string offsets, CSR rows and cross-table references. Each validator
  is shown to accept exactly the payloads that satisfy a declarative contract, which is
  what later reads rest on.
\<close>

section \<open>Validators\<close>

fun check_string_ends :: "bytes \<Rightarrow> nat \<Rightarrow> nat \<Rightarrow> nat \<Rightarrow> nat list \<Rightarrow> nat res" where
  "check_string_ends view blobStart len previous [] = Inr previous"
| "check_string_ends view blobStart len previous (index # is) =
    rbind (get_u32 view (index * 4)) (\<lambda>end'.
     if end' < previous
     then fail String_offset_invalid
       [(''index'', int index), (''end'', int end'), (''previous'', int previous)] else
     if blobStart + end' > len
     then fail String_offset_invalid
       [(''index'', int index), (''end'', int end'), (''length'', int len)] else
     check_string_ends view blobStart len end' is)"

definition validateStringTable :: "bytes \<Rightarrow> SectionDescriptor \<Rightarrow> unit res" where
  "validateStringTable bs descriptor =
    (let start = sd_offset descriptor;
         len = sd_length descriptor;
         indexBytes = sd_count descriptor * 4 in
     if indexBytes > len
     then fail String_offset_invalid
       [(''count'', int (sd_count descriptor)), (''length'', int len)] else
     rbind (sub_view bs start len) (\<lambda>view.
     let blobStart = indexBytes in
     rbind (check_string_ends view blobStart len 0 [0..<sd_count descriptor]) (\<lambda>previous.
     case text_decode (bslice bs (start + blobStart) (start + blobStart + previous)) of
       Inl _ \<Rightarrow> fail String_not_utf8 [(''count'', int (sd_count descriptor))]
     | Inr _ \<Rightarrow> Inr ())))"

fun check_csr_rows :: "bytes \<Rightarrow> nat \<Rightarrow> nat list \<Rightarrow> nat res" where
  "check_csr_rows view previous [] = Inr previous"
| "check_csr_rows view previous (index # is) =
    rbind (get_u32 view (index * 4)) (\<lambda>value.
     if value < previous
     then fail Csr_not_monotonic
       [(''index'', int index), (''value'', int value), (''previous'', int previous)]
     else check_csr_rows view value is)"

definition validateCsrOffsets ::
  "bytes \<Rightarrow> SectionDescriptor \<Rightarrow> SectionDescriptor \<Rightarrow> nat \<Rightarrow> unit res" where
  "validateCsrOffsets bs offsets edges nodes =
    (if sd_count offsets \<noteq> nodes + 1
     then fail Csr_length_mismatch
       [(''count'', int (sd_count offsets)), (''expected'', int (nodes + 1))] else
     rbind (sub_view bs (sd_offset offsets) (sd_length offsets)) (\<lambda>view.
     if sd_count offsets * 4 > sd_length offsets
     then fail Csr_length_mismatch
       [(''count'', int (sd_count offsets)), (''length'', int (sd_length offsets))] else
     rbind (check_csr_rows view 0 [0..<sd_count offsets]) (\<lambda>previous.
     if previous \<noteq> sd_count edges
     then fail Csr_length_mismatch
       [(''terminal'', int previous), (''edgeCount'', int (sd_count edges))]
     else Inr ())))"

definition validateReferenceRange ::
  "bytes \<Rightarrow> SectionDescriptor \<Rightarrow> nat \<Rightarrow> nat \<Rightarrow> nat \<Rightarrow> unit res" where
  "validateReferenceRange bs descriptor stride fieldOffset exclusiveMax =
    (if sd_count descriptor * stride > sd_length descriptor
     then fail Reference_out_of_range [(''count'', int (sd_count descriptor)),
       (''stride'', int stride), (''length'', int (sd_length descriptor))] else
     rbind (sub_view bs (sd_offset descriptor) (sd_length descriptor)) (\<lambda>view.
     for_each (\<lambda>index.
       rbind (get_u32 view (index * stride + fieldOffset)) (\<lambda>value.
       if value \<ge> exclusiveMax
       then fail Reference_out_of_range [(''index'', int index), (''value'', int value),
         (''exclusiveMax'', int exclusiveMax)]
       else Inr ())) [0..<sd_count descriptor]))"

section \<open>Contracts\<close>

text \<open>Row \<open>i\<close> of a section of 32-bit numbers, and the end of string \<open>i\<close>.\<close>

definition u32_row :: "bytes \<Rightarrow> SectionDescriptor \<Rightarrow> nat \<Rightarrow> nat" where
  "u32_row bs d i = u32_at bs (sd_offset d + i * 4)"

definition string_start :: "bytes \<Rightarrow> SectionDescriptor \<Rightarrow> nat \<Rightarrow> nat" where
  "string_start bs d i = (if i = 0 then 0 else u32_row bs d (i - 1))"

definition string_blob :: "bytes \<Rightarrow> SectionDescriptor \<Rightarrow> bytes" where
  "string_blob bs d =
     bslice bs (sd_offset d + sd_count d * 4)
       (sd_offset d + sd_count d * 4 + string_start bs d (sd_count d))"

definition string_table_ok :: "bytes \<Rightarrow> SectionDescriptor \<Rightarrow> bool" where
  "string_table_ok bs d \<longleftrightarrow> sd_count d * 4 \<le> sd_length d \<and> sd_end d \<le> length bs
     \<and> (\<forall>i < sd_count d. string_start bs d i \<le> u32_row bs d i
          \<and> sd_count d * 4 + u32_row bs d i \<le> sd_length d)
     \<and> isl (text_decode (string_blob bs d)) = False"

definition csr_ok :: "bytes \<Rightarrow> SectionDescriptor \<Rightarrow> SectionDescriptor \<Rightarrow> nat \<Rightarrow> bool" where
  "csr_ok bs offsets edges nodes \<longleftrightarrow> sd_count offsets = nodes + 1
     \<and> (nodes + 1) * 4 \<le> sd_length offsets \<and> sd_end offsets \<le> length bs
     \<and> (\<forall>i < nodes. u32_row bs offsets i \<le> u32_row bs offsets (i + 1))
     \<and> u32_row bs offsets nodes = sd_count edges"

definition references_ok :: "bytes \<Rightarrow> SectionDescriptor \<Rightarrow> nat \<Rightarrow> nat \<Rightarrow> nat \<Rightarrow> bool" where
  "references_ok bs d stride fieldOffset exclusiveMax \<longleftrightarrow> sd_count d * stride \<le> sd_length d
     \<and> sd_end d \<le> length bs
     \<and> (\<forall>i < sd_count d. i * stride + fieldOffset + 4 \<le> sd_length d
          \<and> u32_at bs (sd_offset d + i * stride + fieldOffset) < exclusiveMax)"

lemma sub_view_Inr_iff: "sub_view bs s n = Inr v \<longleftrightarrow> s + n \<le> length bs \<and> v = bslice bs s (s + n)"
  by (auto simp: sub_view_def)

lemma get_le_view:
  "s + n \<le> length bs \<Longrightarrow>
     get_le w (bslice bs s (s + n)) pos
       = (if pos + w \<le> n then Inr (le_at w bs (s + pos)) else Inl Range_error)"
  by (simp add: get_le_def byte_simps)

section \<open>The validators accept exactly their contracts\<close>

lemma check_string_ends_iff:
  assumes "s + len \<le> length bs" and "m * 4 \<le> len" and "n \<le> m"
  shows "check_string_ends (bslice bs s (s + len)) blob len previous [n..<m] = Inr last' \<longleftrightarrow>
     (\<forall>i \<in> {n..<m}. (if i = n then previous else u32_at bs (s + (i - 1) * 4)) \<le> u32_at bs (s + i * 4)
        \<and> blob + u32_at bs (s + i * 4) \<le> len)
     \<and> last' = (if n = m then previous else u32_at bs (s + (m - 1) * 4))"
  using assms(3)
proof (induction n arbitrary: previous rule: inc_induct)
  case base
  then show ?case by auto
next
  case (step n)
  let ?v = "u32_at bs (s + n * 4)"
  have "[n..<m] = n # [Suc n..<m]" using step.hyps by (simp add: upt_conv_Cons)
  moreover have "n * 4 + 4 \<le> len" using step.hyps assms(2) by simp
  ultimately have "check_string_ends (bslice bs s (s + len)) blob len previous [n..<m] = Inr last' \<longleftrightarrow>
      previous \<le> ?v \<and> blob + ?v \<le> len
      \<and> check_string_ends (bslice bs s (s + len)) blob len ?v [Suc n..<m] = Inr last'"
    using assms(1) by (auto simp: get_le_view)
  then show ?case
    unfolding step.IH
    using running_step [OF step.hyps(2), of "\<lambda>prev i. prev \<le> u32_at bs (s + i * 4)
        \<and> blob + u32_at bs (s + i * 4) \<le> len" previous "\<lambda>i. u32_at bs (s + i * 4)"]
      step.hyps(2) by auto
qed

lemma check_csr_rows_iff:
  assumes "s + len \<le> length bs" and "m * 4 \<le> len" and "n \<le> m"
  shows "check_csr_rows (bslice bs s (s + len)) previous [n..<m] = Inr last' \<longleftrightarrow>
     (\<forall>i \<in> {n..<m}. (if i = n then previous else u32_at bs (s + (i - 1) * 4)) \<le> u32_at bs (s + i * 4))
     \<and> last' = (if n = m then previous else u32_at bs (s + (m - 1) * 4))"
  using assms(3)
proof (induction n arbitrary: previous rule: inc_induct)
  case base
  then show ?case by auto
next
  case (step n)
  let ?v = "u32_at bs (s + n * 4)"
  have "[n..<m] = n # [Suc n..<m]" using step.hyps by (simp add: upt_conv_Cons)
  moreover have "n * 4 + 4 \<le> len" using step.hyps assms(2) by simp
  ultimately have "check_csr_rows (bslice bs s (s + len)) previous [n..<m] = Inr last' \<longleftrightarrow>
      previous \<le> ?v \<and> check_csr_rows (bslice bs s (s + len)) ?v [Suc n..<m] = Inr last'"
    using assms(1) by (auto simp: get_le_view)
  then show ?case
    unfolding step.IH
    using running_step [OF step.hyps(2), of "\<lambda>prev i. prev \<le> u32_at bs (s + i * 4)" previous
        "\<lambda>i. u32_at bs (s + i * 4)"] step.hyps(2) by auto
qed

lemma validate_string_table_iff:
  "validateStringTable bs d = Inr () \<longleftrightarrow> string_table_ok bs d"
proof (cases "sd_count d * 4 \<le> sd_length d \<and> sd_end d \<le> length bs")
  case False
  then show ?thesis
    by (auto simp: validateStringTable_def string_table_ok_def sd_end_def Let_def sub_view_def)
next
  case True
  let ?n = "sd_count d" and ?s = "sd_offset d" and ?len = "sd_length d"
  have fits: "?s + ?len \<le> length bs" "?n * 4 \<le> ?len" using True by (simp_all add: sd_end_def)
  have "validateStringTable bs d = Inr () \<longleftrightarrow> (\<exists>previous.
      check_string_ends (bslice bs ?s (?s + ?len)) (?n * 4) ?len 0 [0..<?n] = Inr previous
      \<and> \<not> isl (text_decode (bslice bs (?s + ?n * 4) (?s + ?n * 4 + previous))))"
  proof -
    have c: "(case t of Inl _ \<Rightarrow> Inl e | Inr _ \<Rightarrow> Inr ()) = Inr () \<longleftrightarrow> \<not> isl t"
      for t :: "js_string res" and e :: js_error by (cases t) auto
    show ?thesis using fits by (simp add: validateStringTable_def rbind_Inr_iff Let_def c)
  qed
  also have "\<dots> \<longleftrightarrow> string_table_ok bs d"
    unfolding check_string_ends_iff [OF fits le0]
    using fits by (auto simp: string_table_ok_def string_blob_def string_start_def u32_row_def sd_end_def)
  finally show ?thesis .
qed

lemma validate_csr_iff: "validateCsrOffsets bs o' e nodes = Inr () \<longleftrightarrow> csr_ok bs o' e nodes"
proof (cases "sd_count o' = nodes + 1 \<and> (nodes + 1) * 4 \<le> sd_length o' \<and> sd_end o' \<le> length bs")
  case False
  then show ?thesis
    by (auto simp: validateCsrOffsets_def csr_ok_def sd_end_def sub_view_def)
next
  case True
  let ?s = "sd_offset o'" and ?len = "sd_length o'"
  have fits: "?s + ?len \<le> length bs" "(nodes + 1) * 4 \<le> ?len" using True by (simp_all add: sd_end_def)
  have "validateCsrOffsets bs o' e nodes = Inr () \<longleftrightarrow>
      check_csr_rows (bslice bs ?s (?s + ?len)) 0 [0..<nodes + 1] = Inr (sd_count e)"
    using True fits by (auto simp: validateCsrOffsets_def rbind_Inr_iff)
  also have "\<dots> \<longleftrightarrow> (\<forall>i \<in> {0..<nodes + 1}. i = 0 \<or> u32_at bs (?s + (i - 1) * 4) \<le> u32_at bs (?s + i * 4))
      \<and> sd_count e = u32_at bs (?s + nodes * 4)"
    unfolding check_csr_rows_iff [OF fits le0] by auto
  also have "\<dots> \<longleftrightarrow> csr_ok bs o' e nodes"
  proof -
    have "(\<forall>i \<in> {0..<nodes + 1}. i = 0 \<or> P (i - 1) \<le> P i) \<longleftrightarrow> (\<forall>i < nodes. P i \<le> P (i + 1))"
      for P :: "nat \<Rightarrow> nat" by (simp add: all_less_Suc atLeast0LessThan Ball_def)
    from this [of "\<lambda>i. u32_at bs (?s + i * 4)"] True show ?thesis
      by (auto simp: csr_ok_def u32_row_def)
  qed
  finally show ?thesis .
qed

lemma validate_references_iff:
  "validateReferenceRange bs d stride fld limit = Inr () \<longleftrightarrow> references_ok bs d stride fld limit"
proof (cases "sd_count d * stride \<le> sd_length d \<and> sd_end d \<le> length bs")
  case False
  then show ?thesis
    by (auto simp: validateReferenceRange_def references_ok_def sd_end_def sub_view_def)
next
  case True
  then have fits: "sd_offset d + sd_length d \<le> length bs" by (simp add: sd_end_def)
  let ?view = "bslice bs (sd_offset d) (sd_offset d + sd_length d)"
  have "rbind (get_u32 ?view (i * stride + fld)) (\<lambda>value. if value \<ge> limit
        then fail Reference_out_of_range [(''index'', int i), (''value'', int value),
          (''exclusiveMax'', int limit)] else Inr ()) = Inr () \<longleftrightarrow>
      i * stride + fld + 4 \<le> sd_length d
        \<and> u32_at bs (sd_offset d + i * stride + fld) < limit" for i
    using get_le_view [OF fits, of 4 "i * stride + fld"] by (simp add: add.assoc)
  with True fits show ?thesis
    by (auto simp: validateReferenceRange_def references_ok_def for_each_Inr_iff)
qed

text \<open>Consequences used by the reader: CSR rows are ordered, ends of strings are ordered.\<close>

lemma csr_mono:
  assumes "csr_ok bs o' e nodes" "i \<le> j" "j \<le> nodes"
  shows "u32_row bs o' i \<le> u32_row bs o' j" "u32_row bs o' j \<le> sd_count e"
proof -
  have *: "u32_row bs o' i \<le> u32_row bs o' j" if "i \<le> j" "j \<le> nodes" for i j
    using that
  proof (induction j rule: dec_induct)
    case (step k)
    have "u32_row bs o' k \<le> u32_row bs o' (k + 1)" using assms(1) step by (simp add: csr_ok_def)
    with step show ?case by simp
  qed simp
  show "u32_row bs o' i \<le> u32_row bs o' j" using * assms by blast
  show "u32_row bs o' j \<le> sd_count e" using * [of j nodes] assms by (simp add: csr_ok_def)
qed

lemma string_start_mono:
  assumes "string_table_ok bs d" "i \<le> j" "j \<le> sd_count d"
  shows "string_start bs d i \<le> string_start bs d j"
  using assms(2,3)
proof (induction j rule: dec_induct)
  case (step k)
  moreover have "string_start bs d k \<le> string_start bs d (Suc k)"
    using assms(1) step by (simp add: string_table_ok_def string_start_def)
  ultimately show ?case by simp
qed simp

text \<open>
  The string table validator accepts exactly the sections whose ends are
  non-decreasing, inside the section, and whose blob decodes as UTF-8.
\<close>

theorem string_table_validation_exact:
  "validateStringTable bs d = Inr () \<longleftrightarrow> string_table_ok bs d"
  by (rule validate_string_table_iff)

text \<open>
  The CSR validator accepts exactly the sections that hold one row more than there
  are nodes, whose rows never walk backwards and end at the edge count.
\<close>

theorem csr_validation_exact: "validateCsrOffsets bs o' e nodes = Inr () \<longleftrightarrow> csr_ok bs o' e nodes"
  by (rule validate_csr_iff)

text \<open>
  The reference validator accepts exactly the sections whose every row is in the
  section and holds a number below the exclusive maximum.
\<close>

theorem reference_validation_exact:
  "validateReferenceRange bs d stride fld limit = Inr () \<longleftrightarrow> references_ok bs d stride fld limit"
  by (rule validate_references_iff)

end
