(* ===== verification/Writer_Contract.thy ===== *)
theory Writer_Contract
  imports Contracts Format_Sections
begin

text \<open>
  runtime-index/writer-contract.ts: row widths, the metadata row and its cells, node
  flags, and the workspace path predicate.

  A metadata value is \<open>string | number | boolean | null | string[]\<close>. The numbers are a
  type parameter \<open>'n\<close>: the writer prints one with \<open>String\<close> and the reader parses it with
  \<open>Number\<close>, which are arguments of the definitions that use them.
\<close>

section \<open>Rows\<close>

definition CONTEXT_INDEX_NODE_ROW_BYTES :: nat where "CONTEXT_INDEX_NODE_ROW_BYTES = 40"
definition CONTEXT_INDEX_EDGE_ROW_BYTES :: nat where "CONTEXT_INDEX_EDGE_ROW_BYTES = 16"
definition CONTEXT_INDEX_PROVENANCE_ROW_BYTES :: nat where "CONTEXT_INDEX_PROVENANCE_ROW_BYTES = 16"
definition CONTEXT_INDEX_TERM_ROW_BYTES :: nat where "CONTEXT_INDEX_TERM_ROW_BYTES = 12"
definition CONTEXT_INDEX_METADATA_ROW_BYTES :: nat where "CONTEXT_INDEX_METADATA_ROW_BYTES = 16"
definition CONTEXT_INDEX_SOURCE_HASH_ROW_BYTES :: nat where "CONTEXT_INDEX_SOURCE_HASH_ROW_BYTES = 8"

definition METADATA_NODE_AT :: nat where "METADATA_NODE_AT = 0"
definition METADATA_KEY_AT :: nat where "METADATA_KEY_AT = 4"
definition METADATA_VALUE_AT :: nat where "METADATA_VALUE_AT = 8"
definition METADATA_TYPE_AT :: nat where "METADATA_TYPE_AT = 12"
definition METADATA_ORDINAL_AT :: nat where "METADATA_ORDINAL_AT = 14"

definition CONTEXT_INDEX_PROFILE_MASK_RESERVED :: nat where "CONTEXT_INDEX_PROFILE_MASK_RESERVED = 0xffff"
definition CONTEXT_INDEX_NO_VALUE :: nat where "CONTEXT_INDEX_NO_VALUE = 0xffffffff"

named_theorems rows \<open>row widths and field offsets, unfolded\<close>

lemmas [rows] = CONTEXT_INDEX_NODE_ROW_BYTES_def CONTEXT_INDEX_EDGE_ROW_BYTES_def
  CONTEXT_INDEX_PROVENANCE_ROW_BYTES_def CONTEXT_INDEX_TERM_ROW_BYTES_def
  CONTEXT_INDEX_METADATA_ROW_BYTES_def CONTEXT_INDEX_SOURCE_HASH_ROW_BYTES_def
  METADATA_NODE_AT_def METADATA_KEY_AT_def METADATA_VALUE_AT_def METADATA_TYPE_AT_def
  METADATA_ORDINAL_AT_def CONTEXT_INDEX_NO_VALUE_def

section \<open>Node flags\<close>

definition GROUNDABLE :: nat where "GROUNDABLE = 1"
definition INVALIDATED :: nat where "INVALIDATED = 2"
definition PROTECTED :: nat where "PROTECTED = 4"
definition IS_EVIDENCE :: nat where "IS_EVIDENCE = 8"
definition IS_TEST_OR_GATE :: nat where "IS_TEST_OR_GATE = 16"
definition HAS_PATH :: nat where "HAS_PATH = 32"
definition HAS_CONTENT_HASH :: nat where "HAS_CONTENT_HASH = 64"

lemmas node_flags = GROUNDABLE_def INVALIDATED_def PROTECTED_def IS_EVIDENCE_def
  IS_TEST_OR_GATE_def HAS_PATH_def HAS_CONTENT_HASH_def

definition EVIDENCE_KINDS :: "ContextGraphNodeKind set" where
  "EVIDENCE_KINDS = {Kind_proof, Kind_source, Kind_wiki_claim}"
definition TEST_OR_GATE_KINDS :: "ContextGraphNodeKind set" where
  "TEST_OR_GATE_KINDS = {Kind_test, Kind_gate}"

section \<open>Metadata cells\<close>

definition TYPE_STRING :: nat where "TYPE_STRING = 0"
definition TYPE_BOOLEAN :: nat where "TYPE_BOOLEAN = 1"
definition TYPE_NUMBER :: nat where "TYPE_NUMBER = 2"
definition TYPE_NULL :: nat where "TYPE_NULL = 3"
definition TYPE_ARRAY_ELEMENT :: nat where "TYPE_ARRAY_ELEMENT = 4"
definition TYPE_ARRAY_EMPTY :: nat where "TYPE_ARRAY_EMPTY = 5"
definition CONTEXT_INDEX_METADATA_TYPE_COUNT :: nat where "CONTEXT_INDEX_METADATA_TYPE_COUNT = 6"
definition CONTEXT_INDEX_METADATA_MAX_ARRAY_LENGTH :: nat where
  "CONTEXT_INDEX_METADATA_MAX_ARRAY_LENGTH = 0x10000"

lemmas metadata_types = TYPE_STRING_def TYPE_BOOLEAN_def TYPE_NUMBER_def TYPE_NULL_def
  TYPE_ARRAY_ELEMENT_def TYPE_ARRAY_EMPTY_def CONTEXT_INDEX_METADATA_TYPE_COUNT_def

datatype 'n ContextGraphMetadataValue =
    Meta_string js_string | Meta_number 'n | Meta_boolean bool | Meta_null
  | Meta_array "js_string list"

record ContextIndexMetadataCell =
  cell_type :: nat
  cell_text :: js_string
  cell_ordinal :: nat

definition contextIndexMetadataCells ::
  "('n \<Rightarrow> js_string) \<Rightarrow> 'n ContextGraphMetadataValue \<Rightarrow> ContextIndexMetadataCell list res" where
  "contextIndexMetadataCells toString value =
    (case value of
       Meta_array entries \<Rightarrow>
        (if length entries = 0
         then Inr [\<lparr>cell_type = TYPE_ARRAY_EMPTY, cell_text = js '''', cell_ordinal = 0\<rparr>]
         else if length entries > CONTEXT_INDEX_METADATA_MAX_ARRAY_LENGTH
         then Inl (Writer_error Count_limit [(''metadataArray'', int (length entries))])
         else Inr (map (\<lambda>(entry, ordinal).
           \<lparr>cell_type = TYPE_ARRAY_ELEMENT, cell_text = entry, cell_ordinal = ordinal\<rparr>)
           (zip entries [0..<length entries])))
     | Meta_null \<Rightarrow> Inr [\<lparr>cell_type = TYPE_NULL, cell_text = js ''null'', cell_ordinal = 0\<rparr>]
     | Meta_boolean b \<Rightarrow>
        Inr [\<lparr>cell_type = TYPE_BOOLEAN, cell_text = (if b then js ''true'' else js ''false''),
              cell_ordinal = 0\<rparr>]
     | Meta_number n \<Rightarrow>
        Inr [\<lparr>cell_type = TYPE_NUMBER, cell_text = toString n, cell_ordinal = 0\<rparr>]
     | Meta_string s \<Rightarrow>
        Inr [\<lparr>cell_type = TYPE_STRING, cell_text = s, cell_ordinal = 0\<rparr>])"

definition contextIndexMetadataValue ::
  "(js_string \<Rightarrow> 'n) \<Rightarrow> nat \<Rightarrow> js_string \<Rightarrow> 'n ContextGraphMetadataValue" where
  "contextIndexMetadataValue toNumber type text =
    (if type = TYPE_BOOLEAN then Meta_boolean (text = js ''true'')
     else if type = TYPE_NUMBER then Meta_number (toNumber text)
     else if type = TYPE_NULL then Meta_null
     else Meta_string text)"

section \<open>Workspace paths\<close>

fun js_split :: "16 word \<Rightarrow> js_string \<Rightarrow> js_string list" where
  "js_split c [] = [[]]"
| "js_split c (x # xs) =
    (if x = c then [] # js_split c xs
     else (case js_split c xs of [] \<Rightarrow> [[x]] | s # ss \<Rightarrow> (x # s) # ss))"

definition ascii_letter :: "16 word \<Rightarrow> bool" where
  "ascii_letter u \<longleftrightarrow> (65 \<le> u \<and> u \<le> 90) \<or> (97 \<le> u \<and> u \<le> 122)"

definition drive_prefix :: "js_string \<Rightarrow> bool" where
  "drive_prefix s = (case s of a # b # c # _ \<Rightarrow> ascii_letter a \<and> b = 58 \<and> (c = 92 \<or> c = 47) | _ \<Rightarrow> False)"

definition isWorkspaceRelativePosixPath :: "js_string \<Rightarrow> bool" where
  "isWorkspaceRelativePosixPath value =
    (if value = [] then False
     else if hd value = 47 \<or> hd value = 126 then False
     else if drive_prefix value then False
     else if 92 \<in> set value then False
     else if js ''..'' \<in> set (js_split 47 value) then False
     else True)"

lemma js_split_nonempty [simp]: "js_split c s \<noteq> []"
  by (induction s) (auto split: list.splits)


end
