(* ===== verification/Reader_Layout.thy ===== *)
theory Reader_Layout
  imports Writer_Contract
begin

text \<open>
  runtime-index/reader-layout.ts: field offsets of every row, the geometry resolved once
  at open, and the string table: reading a string by id and finding the id of a string by
  binary search.

  A geometry field \<open>x\<close> is the record selector \<open>g_x\<close>. Every read is checked against the
  buffer as \<open>DataView\<close> does; that reads behind a validated file never throw is a theorem
  (theory Reader\_Validate).
\<close>

section \<open>Field offsets\<close>

definition NODE_KIND_AT :: nat where "NODE_KIND_AT = 0"
definition NODE_FRESHNESS_AT :: nat where "NODE_FRESHNESS_AT = 1"
definition NODE_RISK_AT :: nat where "NODE_RISK_AT = 2"
definition NODE_FLAGS_AT :: nat where "NODE_FLAGS_AT = 3"
definition NODE_TRUST_AT :: nat where "NODE_TRUST_AT = 4"
definition NODE_TOKEN_COST_AT :: nat where "NODE_TOKEN_COST_AT = 8"
definition NODE_LABEL_AT :: nat where "NODE_LABEL_AT = 12"
definition NODE_PATH_AT :: nat where "NODE_PATH_AT = 16"
definition NODE_LINE_AT :: nat where "NODE_LINE_AT = 20"
definition NODE_COLUMN_AT :: nat where "NODE_COLUMN_AT = 24"
definition NODE_CONTENT_HASH_AT :: nat where "NODE_CONTENT_HASH_AT = 28"
definition NODE_GROUP_AT :: nat where "NODE_GROUP_AT = 32"
definition NODE_ID_AT :: nat where "NODE_ID_AT = 36"

definition EDGE_TARGET_AT :: nat where "EDGE_TARGET_AT = 0"
definition EDGE_TYPE_AT :: nat where "EDGE_TYPE_AT = 4"
definition EDGE_CONFIDENCE_AT :: nat where "EDGE_CONFIDENCE_AT = 5"
definition EDGE_FLAGS_AT :: nat where "EDGE_FLAGS_AT = 6"
definition EDGE_PROVENANCE_AT :: nat where "EDGE_PROVENANCE_AT = 8"
definition EDGE_PROFILE_MASK_AT :: nat where "EDGE_PROFILE_MASK_AT = 12"

definition PROVENANCE_PATH_AT :: nat where "PROVENANCE_PATH_AT = 0"
definition PROVENANCE_LINE_AT :: nat where "PROVENANCE_LINE_AT = 4"
definition PROVENANCE_HASH_AT :: nat where "PROVENANCE_HASH_AT = 8"
definition PROVENANCE_EXTRACTOR_AT :: nat where "PROVENANCE_EXTRACTOR_AT = 12"

definition TERM_ID_AT :: nat where "TERM_ID_AT = 0"
definition TERM_POSTING_START_AT :: nat where "TERM_POSTING_START_AT = 4"
definition TERM_POSTING_COUNT_AT :: nat where "TERM_POSTING_COUNT_AT = 8"

definition SOURCE_HASH_PATH_AT :: nat where "SOURCE_HASH_PATH_AT = 0"
definition SOURCE_HASH_HASH_AT :: nat where "SOURCE_HASH_HASH_AT = 4"

lemmas [rows] = NODE_KIND_AT_def NODE_FRESHNESS_AT_def NODE_RISK_AT_def NODE_FLAGS_AT_def
  NODE_TRUST_AT_def NODE_TOKEN_COST_AT_def NODE_LABEL_AT_def NODE_PATH_AT_def NODE_LINE_AT_def
  NODE_COLUMN_AT_def NODE_CONTENT_HASH_AT_def NODE_GROUP_AT_def NODE_ID_AT_def
  EDGE_TARGET_AT_def EDGE_TYPE_AT_def EDGE_CONFIDENCE_AT_def EDGE_FLAGS_AT_def
  EDGE_PROVENANCE_AT_def EDGE_PROFILE_MASK_AT_def PROVENANCE_PATH_AT_def
  PROVENANCE_LINE_AT_def PROVENANCE_HASH_AT_def PROVENANCE_EXTRACTOR_AT_def TERM_ID_AT_def
  TERM_POSTING_START_AT_def TERM_POSTING_COUNT_AT_def SOURCE_HASH_PATH_AT_def
  SOURCE_HASH_HASH_AT_def

section \<open>Geometry\<close>

record ContextIndexLane =
  lane_terms :: SectionDescriptor
  lane_postings :: SectionDescriptor

record ContextIndexGeometry =
  g_bytes :: bytes
  g_nodeCount :: nat
  g_edgeCount :: nat
  g_stringCount :: nat
  g_stringIndexBase :: nat
  g_stringBlobBase :: nat
  g_nodeBase :: nat
  g_metadataBase :: nat
  g_metadataCount :: nat
  g_edgeBase :: nat
  g_outOffsetBase :: nat
  g_outEdgeBase :: nat
  g_inOffsetBase :: nat
  g_inEdgeBase :: nat
  g_provenanceBase :: nat
  g_provenanceCount :: nat
  g_sourceHashBase :: nat
  g_sourceHashCount :: nat
  g_exact :: ContextIndexLane
  g_basename :: ContextIndexLane
  g_lexicon :: ContextIndexLane
  g_coarse :: ContextIndexLane

type_synonym section_index = "nat \<rightharpoonup> SectionDescriptor"

definition sectionOf :: "section_index \<Rightarrow> nat \<Rightarrow> SectionDescriptor res" where
  "sectionOf byKind kind = (case byKind kind of
     None \<Rightarrow> fail Section_missing [(''kind'', int kind)]
   | Some descriptor \<Rightarrow> Inr descriptor)"

definition laneOf :: "section_index \<Rightarrow> nat \<Rightarrow> nat \<Rightarrow> ContextIndexLane res" where
  "laneOf byKind terms postings =
     rbind (sectionOf byKind terms) (\<lambda>t.
     rbind (sectionOf byKind postings) (\<lambda>p.
     Inr \<lparr>lane_terms = t, lane_postings = p\<rparr>))"

definition readContextIndexGeometry ::
  "bytes \<Rightarrow> ContextIndexHeader \<Rightarrow> section_index \<Rightarrow> ContextIndexGeometry res" where
  "readContextIndexGeometry bs header byKind =
    rbind (sectionOf byKind STRING_TABLE) (\<lambda>strings.
    rbind (sectionOf byKind NODE_METADATA) (\<lambda>metadata.
    rbind (sectionOf byKind PROVENANCE_TABLE) (\<lambda>provenance.
    rbind (sectionOf byKind SOURCE_HASH_TABLE) (\<lambda>sourceHash.
    rbind (sectionOf byKind NODE_TABLE) (\<lambda>nodes.
    rbind (sectionOf byKind EDGE_TABLE) (\<lambda>edges.
    rbind (sectionOf byKind OUT_CSR_OFFSETS) (\<lambda>outOffsets.
    rbind (sectionOf byKind OUT_CSR_EDGES) (\<lambda>outEdges.
    rbind (sectionOf byKind IN_CSR_OFFSETS) (\<lambda>inOffsets.
    rbind (sectionOf byKind IN_CSR_EDGES) (\<lambda>inEdges.
    rbind (laneOf byKind EXACT_TERM_TABLE EXACT_POSTINGS) (\<lambda>exact.
    rbind (laneOf byKind BASENAME_TABLE BASENAME_POSTINGS) (\<lambda>basename.
    rbind (laneOf byKind LEXICON_TABLE LEXICON_POSTINGS) (\<lambda>lexicon.
    rbind (laneOf byKind COARSE_TERM_TABLE COARSE_POSTINGS) (\<lambda>coarse.
    Inr \<lparr>g_bytes = bs, g_nodeCount = nodeCount header, g_edgeCount = edgeCount header,
         g_stringCount = sd_count strings,
         g_stringIndexBase = sd_offset strings,
         g_stringBlobBase = sd_offset strings + sd_count strings * 4,
         g_nodeBase = sd_offset nodes,
         g_metadataBase = sd_offset metadata, g_metadataCount = sd_count metadata,
         g_edgeBase = sd_offset edges,
         g_outOffsetBase = sd_offset outOffsets, g_outEdgeBase = sd_offset outEdges,
         g_inOffsetBase = sd_offset inOffsets, g_inEdgeBase = sd_offset inEdges,
         g_provenanceBase = sd_offset provenance, g_provenanceCount = sd_count provenance,
         g_sourceHashBase = sd_offset sourceHash, g_sourceHashCount = sd_count sourceHash,
         g_exact = exact, g_basename = basename, g_lexicon = lexicon, g_coarse = coarse\<rparr>
    ))))))))))))))"

section \<open>Strings\<close>

definition stringAt :: "ContextIndexGeometry \<Rightarrow> nat \<Rightarrow> js_string res" where
  "stringAt geometry sid =
    rbind (get_u32 (g_bytes geometry) (g_stringIndexBase geometry + sid * 4)) (\<lambda>end'.
    rbind (if sid = 0 then Inr 0
           else get_u32 (g_bytes geometry) (g_stringIndexBase geometry + (sid - 1) * 4)) (\<lambda>start.
    text_decode (bslice (g_bytes geometry) (g_stringBlobBase geometry + start)
                   (g_stringBlobBase geometry + end'))))"

function string_search ::
  "ContextIndexGeometry \<Rightarrow> js_string \<Rightarrow> int \<Rightarrow> int \<Rightarrow> int res" where
  "string_search geometry value low high =
    (if low \<le> high then
       (let mid = (low + high) div 2 in
        rbind (stringAt geometry (nat mid)) (\<lambda>probe.
          if probe = value then Inr mid
          else if probe < value then string_search geometry value (mid + 1) high
          else string_search geometry value low (mid - 1)))
     else Inr (- 1))"
  by pat_completeness auto
termination
  by (relation "measure (\<lambda>(_, _, low, high). nat (high - low + 1))") auto

declare string_search.simps [simp del]

definition stringIdOf :: "ContextIndexGeometry \<Rightarrow> js_string \<Rightarrow> int res" where
  "stringIdOf geometry value = string_search geometry value 0 (int (g_stringCount geometry) - 1)"

section \<open>The string table as a list\<close>

text \<open>
  \<open>strings_of g ss\<close>: the table holds exactly the strings \<open>ss\<close>, each readable by its id.
\<close>

definition strings_of :: "ContextIndexGeometry \<Rightarrow> js_string list \<Rightarrow> bool" where
  "strings_of g ss \<longleftrightarrow> g_stringCount g = length ss \<and> (\<forall>i < length ss. stringAt g i = Inr (ss ! i))"

text \<open>
  The arithmetic of a bisection step: the middle lies in the interval, and both halves
  are shorter.
\<close>

lemma bisect_mid: "low \<le> high \<Longrightarrow> low \<le> (low + high) div 2 \<and> (low + high) div 2 \<le> high" for low high :: int
  by linarith

lemma string_search_correct:
  assumes "strings_of g ss" and "sorted_wrt (<) ss" and "0 \<le> low" and "high < int (length ss)"
    and "\<forall>i < length ss. int i < low \<longrightarrow> ss ! i < v"
    and "\<forall>i < length ss. high < int i \<longrightarrow> v < ss ! i"
  shows "\<exists>r. string_search g v low high = Inr r
    \<and> (if v \<in> set ss then \<exists>i < length ss. ss ! i = v \<and> r = int i else r = - 1)"
  using assms
proof (induction g v low high rule: string_search.induct)
  case (1 g v low high)
  note prems = "1.prems"
  show ?case
  proof (cases "low \<le> high")
    case False
    have "v \<notin> set ss"
    proof
      assume "v \<in> set ss"
      then obtain i where i: "i < length ss" "ss ! i = v" by (auto simp: in_set_conv_nth)
      from False have "int i < low \<or> high < int i" by linarith
      with i prems(5,6) show False by auto
    qed
    with False show ?thesis by (subst string_search.simps) simp
  next
    case True
    define mid where "mid = (low + high) div 2"
    have mid: "low \<le> mid" "mid \<le> high" using bisect_mid [OF True] by (simp_all add: mid_def)
    then have m: "nat mid < length ss" "int (nat mid) = mid" using prems(3,4) by auto
    then have at: "stringAt g (nat mid) = Inr (ss ! nat mid)" using prems(1) by (simp add: strings_of_def)
    have mono: "i < j \<Longrightarrow> j < length ss \<Longrightarrow> ss ! i < ss ! j" for i j
      using prems(2) by (simp add: sorted_wrt_nth_less)
    have step: "string_search g v low high = (if ss ! nat mid = v then Inr mid
        else if ss ! nat mid < v then string_search g v (mid + 1) high
        else string_search g v low (mid - 1))"
      using True at by (subst string_search.simps) (simp add: mid_def [symmetric] Let_def)
    consider "ss ! nat mid = v" | "ss ! nat mid < v" | "v < ss ! nat mid" by (rule linorder_cases)
    then show ?thesis
    proof cases
      case 1
      then have "v \<in> set ss" using m(1) by auto
      with step 1 m show ?thesis by auto
    next
      case 2
      have "\<forall>i < length ss. int i < mid + 1 \<longrightarrow> ss ! i < v"
      proof (intro allI impI)
        fix i assume i: "i < length ss" "int i < mid + 1"
        then have "i = nat mid \<or> i < nat mid" by linarith
        then show "ss ! i < v" using 2 m(1) mono [of i "nat mid"] by auto
      qed
      then have "\<exists>r. string_search g v (mid + 1) high = Inr r
          \<and> (if v \<in> set ss then \<exists>i < length ss. ss ! i = v \<and> r = int i else r = - 1)"
        using 2 less_imp_neq [OF 2] prems mid by (intro "1.IH"(1) [OF True mid_def at]) auto
      with 2 step show ?thesis by auto
    next
      case 3
      have "\<forall>i < length ss. mid - 1 < int i \<longrightarrow> v < ss ! i"
      proof (intro allI impI)
        fix i assume i: "i < length ss" "mid - 1 < int i"
        then have "i = nat mid \<or> nat mid < i" by linarith
        then show "v < ss ! i" using 3 i(1) mono [of "nat mid" i] by auto
      qed
      then have "\<exists>r. string_search g v low (mid - 1) = Inr r
          \<and> (if v \<in> set ss then \<exists>i < length ss. ss ! i = v \<and> r = int i else r = - 1)"
        using 3 less_imp_neq [OF 3] less_asym [OF 3] prems mid by (intro "1.IH"(2) [OF True mid_def at]) auto
      with 3 step show ?thesis by auto
    qed
  qed
qed

lemma stringIdOf_correct:
  assumes "strings_of g ss" and "sorted_wrt (<) ss"
  shows "\<exists>r. stringIdOf g v = Inr r
    \<and> (if v \<in> set ss then \<exists>i < length ss. ss ! i = v \<and> r = int i else r = - 1)"
  unfolding stringIdOf_def using assms
  by (intro string_search_correct) (auto simp: strings_of_def)

lemma stringIdOf_nth:
  assumes "strings_of g ss" and "sorted_wrt (<) ss" and "i < length ss"
  shows "stringIdOf g (ss ! i) = Inr (int i)"
proof -
  have "distinct ss" using assms(2) by (simp add: strict_sorted_iff)
  with stringIdOf_correct [OF assms(1,2), of "ss ! i"] assms(3) show ?thesis
    by (auto simp: nth_eq_iff_index_eq)
qed

lemma stringIdOf_absent:
  "strings_of g ss \<Longrightarrow> sorted_wrt (<) ss \<Longrightarrow> v \<notin> set ss \<Longrightarrow> stringIdOf g v = Inr (- 1)"
  using stringIdOf_correct [of g ss v] by auto

end
