(* ===== verification/Reader_Validate.thy ===== *)
theory Reader_Validate
  imports Reader_Layout
begin

text \<open>
  runtime-index/reader-validate.ts: the whole-file validation that runs once at open.

  A function that only throws or returns is a \<open>unit res\<close>; \<open>run_all\<close> performs such
  checks in order and stops at the first throw. The contract \<open>payloads_ok\<close> states what an
  accepted file satisfies, section by section; the validator accepts exactly those files.
\<close>

definition run_all :: "unit res list \<Rightarrow> unit res" where
  "run_all checks = for_each (\<lambda>check. check) checks"

lemma run_all_iff: "run_all checks = Inr () \<longleftrightarrow> list_all (\<lambda>c. c = Inr ()) checks"
  by (simp add: run_all_def for_each_Inr_iff list_all_iff)

section \<open>The checks\<close>

definition requireCount :: "nat \<Rightarrow> nat \<Rightarrow> nat \<Rightarrow> unit res" where
  "requireCount actual expected kind =
    (if actual \<noteq> expected
     then fail Count_limit_exceeded
       [(''kind'', int kind), (''actual'', int actual), (''expected'', int expected)]
     else Inr ())"

definition CONTEXT_INDEX_FIXED_STRIDE_SECTIONS :: "(nat \<times> nat) list" where
  "CONTEXT_INDEX_FIXED_STRIDE_SECTIONS =
     [(NODE_TABLE, CONTEXT_INDEX_NODE_ROW_BYTES),
      (NODE_METADATA, CONTEXT_INDEX_METADATA_ROW_BYTES),
      (EDGE_TABLE, CONTEXT_INDEX_EDGE_ROW_BYTES),
      (OUT_CSR_OFFSETS, 4), (OUT_CSR_EDGES, 4), (IN_CSR_OFFSETS, 4), (IN_CSR_EDGES, 4),
      (EXACT_TERM_TABLE, CONTEXT_INDEX_TERM_ROW_BYTES), (EXACT_POSTINGS, 4),
      (BASENAME_TABLE, CONTEXT_INDEX_TERM_ROW_BYTES), (BASENAME_POSTINGS, 4),
      (LEXICON_TABLE, CONTEXT_INDEX_TERM_ROW_BYTES), (LEXICON_POSTINGS, 4),
      (COARSE_TERM_TABLE, CONTEXT_INDEX_TERM_ROW_BYTES), (COARSE_POSTINGS, 4),
      (PROVENANCE_TABLE, CONTEXT_INDEX_PROVENANCE_ROW_BYTES),
      (GROUP_TABLE, 4), (CYCLE_TABLE, 4),
      (SOURCE_HASH_TABLE, CONTEXT_INDEX_SOURCE_HASH_ROW_BYTES)]"

definition requireExactRows :: "SectionDescriptor \<Rightarrow> nat \<Rightarrow> unit res" where
  "requireExactRows descriptor stride =
    (if sd_count descriptor * stride \<noteq> sd_length descriptor
     then fail Count_limit_exceeded
       [(''kind'', int (sd_kind descriptor)), (''count'', int (sd_count descriptor)),
        (''stride'', int stride), (''length'', int (sd_length descriptor))]
     else Inr ())"

definition checkCode :: "nat \<Rightarrow> nat \<Rightarrow> nat \<Rightarrow> unit res" where
  "checkCode value exclusiveMax row =
    (if value \<ge> exclusiveMax
     then fail Reference_out_of_range
       [(''row'', int row), (''value'', int value), (''exclusiveMax'', int exclusiveMax)]
     else Inr ())"

definition checkOptionalReference :: "nat \<Rightarrow> nat \<Rightarrow> nat \<Rightarrow> unit res" where
  "checkOptionalReference value strings row =
    (if value = CONTEXT_INDEX_NO_VALUE then Inr ()
     else if value \<ge> strings
     then fail Reference_out_of_range
       [(''row'', int row), (''value'', int value), (''exclusiveMax'', int strings)]
     else Inr ())"

text \<open>
  The metadata loop. The state is the previous row; the source's \<open>-1\<close> placeholders
  before the first row are the option \<open>None\<close> of no row, which no row continues and every
  row ascends from.
\<close>

record metadata_key =
  mk_node :: nat
  mk_key :: nat
  mk_type :: nat
  mk_ordinal :: nat

definition read_metadata_key :: "bytes \<Rightarrow> nat \<Rightarrow> metadata_key res" where
  "read_metadata_key view row =
    (let pos = row * CONTEXT_INDEX_METADATA_ROW_BYTES in
     rbind (get_u32 view (pos + METADATA_NODE_AT)) (\<lambda>node.
     rbind (get_u32 view (pos + METADATA_KEY_AT)) (\<lambda>key.
     rbind (get_u16 view (pos + METADATA_TYPE_AT)) (\<lambda>type.
     rbind (get_u16 view (pos + METADATA_ORDINAL_AT)) (\<lambda>ordinal.
     Inr \<lparr>mk_node = node, mk_key = key, mk_type = type, mk_ordinal = ordinal\<rparr>)))))"

definition continues :: "metadata_key option \<Rightarrow> metadata_key \<Rightarrow> bool" where
  "continues previous r = (case previous of None \<Rightarrow> False
     | Some p \<Rightarrow> mk_node r = mk_node p \<and> mk_key r = mk_key p)"

definition ascends :: "metadata_key option \<Rightarrow> metadata_key \<Rightarrow> bool" where
  "ascends previous r = (case previous of None \<Rightarrow> True
     | Some p \<Rightarrow> mk_node r > mk_node p
         \<or> (mk_node r = mk_node p \<and> mk_key r > mk_key p)
         \<or> (continues previous r \<and> mk_ordinal r > mk_ordinal p))"

definition check_metadata_row :: "metadata_key option \<Rightarrow> nat \<Rightarrow> metadata_key \<Rightarrow> unit res" where
  "check_metadata_row previous row r =
    (if mk_type r \<ge> CONTEXT_INDEX_METADATA_TYPE_COUNT
     then fail Reference_out_of_range [(''row'', int row), (''value'', int (mk_type r)),
       (''exclusiveMax'', int CONTEXT_INDEX_METADATA_TYPE_COUNT)]
     else if \<not> ascends previous r
     then fail Csr_not_monotonic [(''row'', int row), (''node'', int (mk_node r)),
       (''key'', int (mk_key r)), (''ordinal'', int (mk_ordinal r))]
     else (case previous of
        Some p \<Rightarrow>
         (if continues previous r
          then (if mk_type r \<noteq> TYPE_ARRAY_ELEMENT \<or> mk_type p \<noteq> TYPE_ARRAY_ELEMENT
                  \<or> mk_ordinal r \<noteq> mk_ordinal p + 1
                then fail Csr_not_monotonic [(''row'', int row), (''type'', int (mk_type r)),
                  (''ordinal'', int (mk_ordinal r)), (''previous'', int (mk_ordinal p))]
                else Inr ())
          else if mk_ordinal r \<noteq> 0
          then fail Csr_not_monotonic [(''row'', int row), (''ordinal'', int (mk_ordinal r))]
          else Inr ())
      | None \<Rightarrow>
         (if mk_ordinal r \<noteq> 0
          then fail Csr_not_monotonic [(''row'', int row), (''ordinal'', int (mk_ordinal r))]
          else Inr ())))"

fun check_metadata_rows :: "bytes \<Rightarrow> metadata_key option \<Rightarrow> nat list \<Rightarrow> unit res" where
  "check_metadata_rows view previous [] = Inr ()"
| "check_metadata_rows view previous (row # rs) =
    rbind (read_metadata_key view row) (\<lambda>r.
    rbind (check_metadata_row previous row r) (\<lambda>_.
    check_metadata_rows view (Some r) rs))"

definition validateMetadataRows :: "bytes \<Rightarrow> SectionDescriptor \<Rightarrow> unit res" where
  "validateMetadataRows bs metadata =
    (if sd_count metadata = 0 then Inr ()
     else rbind (sub_view bs (sd_offset metadata) (sd_length metadata)) (\<lambda>view.
       check_metadata_rows view None [0..<sd_count metadata]))"

fun check_term_rows :: "bytes \<Rightarrow> nat \<Rightarrow> int \<Rightarrow> nat list \<Rightarrow> unit res" where
  "check_term_rows view available previousTermId [] = Inr ()"
| "check_term_rows view available previousTermId (row # rs) =
    (let pos = row * CONTEXT_INDEX_TERM_ROW_BYTES in
     rbind (get_u32 view (pos + TERM_ID_AT)) (\<lambda>termId.
     if int termId \<le> previousTermId
     then fail Csr_not_monotonic
       [(''row'', int row), (''termId'', int termId), (''previous'', previousTermId)] else
     rbind (get_u32 view (pos + TERM_POSTING_START_AT)) (\<lambda>start.
     rbind (get_u32 view (pos + TERM_POSTING_COUNT_AT)) (\<lambda>count.
     if start + count > available
     then fail Reference_out_of_range [(''row'', int row), (''start'', int start),
       (''count'', int count), (''available'', int available)] else
     check_term_rows view available (int termId) rs))))"

definition validateTermTable ::
  "bytes \<Rightarrow> SectionDescriptor \<Rightarrow> SectionDescriptor \<Rightarrow> nat \<Rightarrow> nat \<Rightarrow> unit res" where
  "validateTermTable bs table postings strings nodes =
    rbind (validateReferenceRange bs table CONTEXT_INDEX_TERM_ROW_BYTES TERM_ID_AT strings) (\<lambda>_.
    rbind (validateReferenceRange bs postings 4 0 nodes) (\<lambda>_.
    rbind (sub_view bs (sd_offset table) (sd_length table)) (\<lambda>view.
    check_term_rows view (sd_count postings) (- 1) [0..<sd_count table])))"

definition check_node_enums ::
  "bytes \<Rightarrow> SectionDescriptor \<Rightarrow> SectionDescriptor \<Rightarrow> nat \<Rightarrow> nat \<Rightarrow> unit res" where
  "check_node_enums bs nodes groups strings node =
    (let pos = sd_offset nodes + node * CONTEXT_INDEX_NODE_ROW_BYTES in
     rbind (get_u8 bs (pos + NODE_KIND_AT)) (\<lambda>kind.
     rbind (checkCode kind (length CONTEXT_GRAPH_NODE_KINDS) node) (\<lambda>_.
     rbind (get_u8 bs (pos + NODE_FRESHNESS_AT)) (\<lambda>freshness.
     rbind (checkCode freshness (length FRESHNESS_CODES) node) (\<lambda>_.
     rbind (get_u8 bs (pos + NODE_RISK_AT)) (\<lambda>risk.
     rbind (checkCode risk (length RISK_CODES) node) (\<lambda>_.
     rbind (get_u32 bs (pos + NODE_PATH_AT)) (\<lambda>path.
     rbind (checkOptionalReference path strings node) (\<lambda>_.
     rbind (get_u32 bs (pos + NODE_CONTENT_HASH_AT)) (\<lambda>contentHash.
     rbind (checkOptionalReference contentHash strings node) (\<lambda>_.
     rbind (get_u32 bs (pos + NODE_GROUP_AT)) (\<lambda>rowGroup.
     rbind (get_u32 bs (sd_offset groups + node * 4)) (\<lambda>tableGroup.
     if rowGroup \<noteq> tableGroup
     then fail Section_checksum_mismatch [(''kind'', int GROUP_TABLE), (''node'', int node),
       (''rowGroup'', int rowGroup), (''tableGroup'', int tableGroup)]
     else Inr ())))))))))))))"

definition check_edge_enums :: "bytes \<Rightarrow> SectionDescriptor \<Rightarrow> nat \<Rightarrow> unit res" where
  "check_edge_enums bs edges edge =
    (let pos = sd_offset edges + edge * CONTEXT_INDEX_EDGE_ROW_BYTES in
     rbind (get_u8 bs (pos + EDGE_TYPE_AT)) (\<lambda>type.
     rbind (checkCode type (length CONTEXT_GRAPH_EDGE_TYPES) edge) (\<lambda>_.
     rbind (get_u8 bs (pos + EDGE_CONFIDENCE_AT)) (\<lambda>confidence.
     checkCode confidence (length CONFIDENCE_CODES) edge))))"

definition validateEnums ::
  "bytes \<Rightarrow> ContextIndexHeader \<Rightarrow> SectionDescriptor \<Rightarrow> SectionDescriptor \<Rightarrow> SectionDescriptor
     \<Rightarrow> nat \<Rightarrow> unit res" where
  "validateEnums bs header nodes edges groups strings =
    rbind (for_each (check_node_enums bs nodes groups strings) [0..<nodeCount header]) (\<lambda>_.
    for_each (check_edge_enums bs edges) [0..<edgeCount header])"

definition validateContextIndexPayloads ::
  "bytes \<Rightarrow> ContextIndexHeader \<Rightarrow> section_index \<Rightarrow> unit res" where
  "validateContextIndexPayloads bs header byKind =
    rbind (sectionOf byKind STRING_TABLE) (\<lambda>strings.
    rbind (sectionOf byKind NODE_TABLE) (\<lambda>nodes.
    rbind (sectionOf byKind NODE_METADATA) (\<lambda>metadata.
    rbind (sectionOf byKind EDGE_TABLE) (\<lambda>edges.
    rbind (sectionOf byKind OUT_CSR_OFFSETS) (\<lambda>outOffsets.
    rbind (sectionOf byKind OUT_CSR_EDGES) (\<lambda>outEdges.
    rbind (sectionOf byKind IN_CSR_OFFSETS) (\<lambda>inOffsets.
    rbind (sectionOf byKind IN_CSR_EDGES) (\<lambda>inEdges.
    rbind (sectionOf byKind PROVENANCE_TABLE) (\<lambda>provenance.
    rbind (sectionOf byKind GROUP_TABLE) (\<lambda>groups.
    rbind (sectionOf byKind CYCLE_TABLE) (\<lambda>cycles.
    rbind (sectionOf byKind SOURCE_HASH_TABLE) (\<lambda>sourceHashes.
    let ns = nodeCount header; es = edgeCount header; ss = sd_count strings in
    run_all
     ([requireCount (sd_count nodes) ns NODE_TABLE,
       requireCount (sd_count edges) es EDGE_TABLE,
       requireCount (sd_count provenance) (provenanceCount header) PROVENANCE_TABLE,
       requireCount (sd_count groups) ns GROUP_TABLE,
       requireCount (sd_count outEdges) es OUT_CSR_EDGES,
       requireCount (sd_count inEdges) es IN_CSR_EDGES,
       rbind (sectionOf byKind EXACT_TERM_TABLE) (\<lambda>exact.
         requireCount (sd_count exact) (termCount header) EXACT_TERM_TABLE)]
      @ map (\<lambda>(kind, stride). rbind (sectionOf byKind kind) (\<lambda>d. requireExactRows d stride))
          CONTEXT_INDEX_FIXED_STRIDE_SECTIONS
      @ [validateStringTable bs strings,
         validateCsrOffsets bs outOffsets outEdges ns,
         validateCsrOffsets bs inOffsets inEdges ns,
         validateReferenceRange bs nodes CONTEXT_INDEX_NODE_ROW_BYTES NODE_LABEL_AT ss,
         validateReferenceRange bs nodes CONTEXT_INDEX_NODE_ROW_BYTES NODE_ID_AT ss,
         validateReferenceRange bs nodes CONTEXT_INDEX_NODE_ROW_BYTES NODE_GROUP_AT (max ns 1),
         validateReferenceRange bs metadata CONTEXT_INDEX_METADATA_ROW_BYTES METADATA_NODE_AT ns,
         validateReferenceRange bs metadata CONTEXT_INDEX_METADATA_ROW_BYTES METADATA_KEY_AT ss,
         validateReferenceRange bs metadata CONTEXT_INDEX_METADATA_ROW_BYTES METADATA_VALUE_AT ss,
         validateReferenceRange bs edges CONTEXT_INDEX_EDGE_ROW_BYTES EDGE_TARGET_AT ns,
         validateReferenceRange bs edges CONTEXT_INDEX_EDGE_ROW_BYTES EDGE_PROVENANCE_AT
           (sd_count provenance),
         validateReferenceRange bs outEdges 4 0 es,
         validateReferenceRange bs inEdges 4 0 es,
         validateReferenceRange bs provenance CONTEXT_INDEX_PROVENANCE_ROW_BYTES
           PROVENANCE_PATH_AT ss,
         validateReferenceRange bs provenance CONTEXT_INDEX_PROVENANCE_ROW_BYTES
           PROVENANCE_HASH_AT ss,
         validateReferenceRange bs provenance CONTEXT_INDEX_PROVENANCE_ROW_BYTES
           PROVENANCE_EXTRACTOR_AT ss,
         validateReferenceRange bs groups 4 0 (max ns 1),
         validateReferenceRange bs cycles 4 0 ns,
         validateReferenceRange bs sourceHashes CONTEXT_INDEX_SOURCE_HASH_ROW_BYTES
           SOURCE_HASH_PATH_AT ss,
         validateReferenceRange bs sourceHashes CONTEXT_INDEX_SOURCE_HASH_ROW_BYTES
           SOURCE_HASH_HASH_AT ss,
         validateMetadataRows bs metadata]
      @ map (\<lambda>(table, postings).
          rbind (sectionOf byKind table) (\<lambda>t.
          rbind (sectionOf byKind postings) (\<lambda>p.
          validateTermTable bs t p ss ns)))
          [(EXACT_TERM_TABLE, EXACT_POSTINGS), (BASENAME_TABLE, BASENAME_POSTINGS),
           (LEXICON_TABLE, LEXICON_POSTINGS), (COARSE_TERM_TABLE, COARSE_POSTINGS)]
      @ [validateEnums bs header nodes edges groups ss])))))))))))))"

section \<open>What the checks establish\<close>

text \<open>Field \<open>fld\<close> of row \<open>i\<close> of a section, \<open>w\<close> bytes wide.\<close>

definition row_at :: "nat \<Rightarrow> bytes \<Rightarrow> SectionDescriptor \<Rightarrow> nat \<Rightarrow> nat \<Rightarrow> nat \<Rightarrow> nat" where
  "row_at w bs d stride i fld = le_at w bs (sd_offset d + (i * stride + fld))"

definition metadata_at :: "bytes \<Rightarrow> SectionDescriptor \<Rightarrow> nat \<Rightarrow> metadata_key" where
  "metadata_at bs d i = \<lparr>mk_node = row_at 4 bs d 16 i 0, mk_key = row_at 4 bs d 16 i 4,
     mk_type = row_at 2 bs d 16 i 12, mk_ordinal = row_at 2 bs d 16 i 14\<rparr>"

text \<open>
  A metadata row follows another when it starts a new, greater (node, key) entry at
  ordinal 0, or continues an array entry by exactly one element.
\<close>

definition metadata_follows :: "metadata_key \<Rightarrow> metadata_key \<Rightarrow> bool" where
  "metadata_follows p r \<longleftrightarrow>
     ((mk_node p < mk_node r \<or> mk_node p = mk_node r \<and> mk_key p < mk_key r) \<and> mk_ordinal r = 0)
     \<or> (mk_node p = mk_node r \<and> mk_key p = mk_key r \<and> mk_type p = TYPE_ARRAY_ELEMENT
          \<and> mk_type r = TYPE_ARRAY_ELEMENT \<and> mk_ordinal r = mk_ordinal p + 1)"

definition metadata_rows_ok :: "bytes \<Rightarrow> SectionDescriptor \<Rightarrow> bool" where
  "metadata_rows_ok bs d \<longleftrightarrow>
     (\<forall>i < sd_count d. mk_type (metadata_at bs d i) < 6)
     \<and> (0 < sd_count d \<longrightarrow> mk_ordinal (metadata_at bs d 0) = 0)
     \<and> (\<forall>i. Suc i < sd_count d \<longrightarrow> metadata_follows (metadata_at bs d i) (metadata_at bs d (Suc i)))"

definition term_rows_ok :: "bytes \<Rightarrow> SectionDescriptor \<Rightarrow> SectionDescriptor \<Rightarrow> bool" where
  "term_rows_ok bs table postings \<longleftrightarrow>
     (\<forall>i. Suc i < sd_count table \<longrightarrow> row_at 4 bs table 12 i 0 < row_at 4 bs table 12 (Suc i) 0)
     \<and> (\<forall>i < sd_count table.
          row_at 4 bs table 12 i 4 + row_at 4 bs table 12 i 8 \<le> sd_count postings)"

definition lane_ok :: "bytes \<Rightarrow> SectionDescriptor \<Rightarrow> SectionDescriptor \<Rightarrow> nat \<Rightarrow> nat \<Rightarrow> bool" where
  "lane_ok bs table postings strings nodes \<longleftrightarrow> references_ok bs table 12 0 strings
     \<and> references_ok bs postings 4 0 nodes \<and> term_rows_ok bs table postings"

definition optional_reference :: "nat \<Rightarrow> nat \<Rightarrow> bool" where
  "optional_reference v strings \<longleftrightarrow> v = CONTEXT_INDEX_NO_VALUE \<or> v < strings"

definition node_enums_ok ::
  "bytes \<Rightarrow> SectionDescriptor \<Rightarrow> SectionDescriptor \<Rightarrow> nat \<Rightarrow> nat \<Rightarrow> bool" where
  "node_enums_ok bs nodes groups strings i \<longleftrightarrow> row_at 1 bs nodes 40 i 0 < 14
     \<and> row_at 1 bs nodes 40 i 1 < 3 \<and> row_at 1 bs nodes 40 i 2 < 4
     \<and> optional_reference (row_at 4 bs nodes 40 i 16) strings
     \<and> optional_reference (row_at 4 bs nodes 40 i 28) strings
     \<and> row_at 4 bs nodes 40 i 32 = row_at 4 bs groups 4 i 0"

definition edge_enums_ok :: "bytes \<Rightarrow> SectionDescriptor \<Rightarrow> nat \<Rightarrow> bool" where
  "edge_enums_ok bs edges i \<longleftrightarrow> row_at 1 bs edges 16 i 4 < 21 \<and> row_at 1 bs edges 16 i 5 < 5"

definition exact_rows :: "SectionDescriptor \<Rightarrow> nat \<Rightarrow> bool" where
  "exact_rows d stride \<longleftrightarrow> sd_count d * stride = sd_length d"

section \<open>The loops as conditions on rows\<close>

lemma view_read:
  assumes "s + n \<le> length bs" "i < c" "c * stride \<le> n" "fld + w \<le> stride"
  shows "get_le w (bslice bs s (s + n)) (i * stride + fld) = Inr (le_at w bs (s + (i * stride + fld)))"
proof -
  have "i * stride + fld + w \<le> n" using row_in_range [of i c fld w stride] assms by simp
  with assms(1) show ?thesis by (simp add: get_le_view)
qed

lemma file_read:
  assumes "s + n \<le> length bs" "i < c" "c * stride \<le> n" "fld + w \<le> stride"
  shows "get_le w bs (s + i * stride + fld) = Inr (le_at w bs (s + (i * stride + fld)))"
proof -
  have "i * stride + fld + w \<le> n" using row_in_range [of i c fld w stride] assms by simp
  with assms(1) show ?thesis by (simp add: get_le_def add.assoc)
qed

lemma check_metadata_row_iff:
  "check_metadata_row None row r = Inr () \<longleftrightarrow> mk_type r < 6 \<and> mk_ordinal r = 0"
  "check_metadata_row (Some p) row r = Inr () \<longleftrightarrow> mk_type r < 6 \<and> metadata_follows p r"
  by (auto simp: check_metadata_row_def ascends_def continues_def metadata_follows_def
      metadata_types)

lemma check_metadata_rows_iff:
  assumes "sd_end d \<le> length bs" "m * 16 \<le> sd_length d" "n \<le> m"
  shows "check_metadata_rows (bslice bs (sd_offset d) (sd_offset d + sd_length d)) previous [n..<m] = Inr ()
     \<longleftrightarrow> (\<forall>i \<in> {n..<m}. check_metadata_row
           (if i = n then previous else Some (metadata_at bs d (i - 1))) i (metadata_at bs d i) = Inr ())"
  using assms(3)
proof (induction n arbitrary: previous rule: inc_induct)
  case (step n)
  let ?view = "bslice bs (sd_offset d) (sd_offset d + sd_length d)"
  have "read_metadata_key ?view n = Inr (metadata_at bs d n)"
    using assms(1,2) step.hyps view_read [of "sd_offset d" "sd_length d" bs n m 16]
      view_read [of "sd_offset d" "sd_length d" bs n m 16 0 4]
    by (simp add: read_metadata_key_def metadata_at_def row_at_def rows sd_end_def Let_def)
  moreover have "[n..<m] = n # [Suc n..<m]" using step.hyps by (simp add: upt_conv_Cons)
  ultimately have "check_metadata_rows ?view previous [n..<m] = Inr () \<longleftrightarrow>
      check_metadata_row previous n (metadata_at bs d n) = Inr ()
      \<and> check_metadata_rows ?view (Some (metadata_at bs d n)) [Suc n..<m] = Inr ()"
    by (simp add: rbind_Inr_iff)
  then show ?case
    unfolding step.IH
      running_step [OF step.hyps(2), of "\<lambda>prev i. check_metadata_row prev i (metadata_at bs d i) = Inr ()"
        previous "\<lambda>i. Some (metadata_at bs d i)"] .
qed simp

lemma validate_metadata_iff:
  assumes "sd_end d \<le> length bs" "sd_count d * 16 \<le> sd_length d"
  shows "validateMetadataRows bs d = Inr () \<longleftrightarrow> metadata_rows_ok bs d"
proof (cases "sd_count d = 0")
  case True
  then show ?thesis by (simp add: validateMetadataRows_def metadata_rows_ok_def)
next
  case False
  have fits: "sd_offset d + sd_length d \<le> length bs" using assms(1) by (simp add: sd_end_def)
  have "validateMetadataRows bs d = Inr () \<longleftrightarrow>
     (0 < sd_count d \<longrightarrow> check_metadata_row None 0 (metadata_at bs d 0) = Inr ())
     \<and> (\<forall>i. Suc i < sd_count d \<longrightarrow>
          check_metadata_row (Some (metadata_at bs d i)) (Suc i) (metadata_at bs d (Suc i)) = Inr ())"
    using False fits check_metadata_rows_iff [OF assms le0, of None]
      running_all [of "sd_count d" "\<lambda>prev i. check_metadata_row prev i (metadata_at bs d i) = Inr ()"
        None "\<lambda>i. Some (metadata_at bs d i)"]
    by (simp add: validateMetadataRows_def)
  also have "\<dots> \<longleftrightarrow> metadata_rows_ok bs d"
  proof -
    have "(\<forall>i < sd_count d. mk_type (metadata_at bs d i) < 6) \<longleftrightarrow> mk_type (metadata_at bs d 0) < 6
        \<and> (\<forall>i. Suc i < sd_count d \<longrightarrow> mk_type (metadata_at bs d (Suc i)) < 6)"
      using False by (metis Suc_less_eq Suc_pred' gr0I not0_implies_Suc)
    with False show ?thesis unfolding check_metadata_row_iff metadata_rows_ok_def by blast
  qed
  finally show ?thesis .
qed

lemma check_term_rows_iff:
  assumes "sd_end d \<le> length bs" "m * 12 \<le> sd_length d" "n \<le> m"
  shows "check_term_rows (bslice bs (sd_offset d) (sd_offset d + sd_length d)) available previous [n..<m] = Inr ()
     \<longleftrightarrow> (\<forall>i \<in> {n..<m}.
           (if i = n then previous else int (row_at 4 bs d 12 (i - 1) 0)) < int (row_at 4 bs d 12 i 0)
           \<and> row_at 4 bs d 12 i 4 + row_at 4 bs d 12 i 8 \<le> available)"
  using assms(3)
proof (induction n arbitrary: previous rule: inc_induct)
  case (step n)
  let ?view = "bslice bs (sd_offset d) (sd_offset d + sd_length d)"
  have "get_u32 ?view (n * 12 + k) = Inr (row_at 4 bs d 12 n k)" if "k + 4 \<le> 12" for k
    using assms(1,2) step.hyps that view_read [of "sd_offset d" "sd_length d" bs n m 12 k 4]
    by (simp add: row_at_def sd_end_def)
  from this [of 0] this [of 4] this [of 8]
  have "check_term_rows ?view available previous [n..<m] = Inr () \<longleftrightarrow>
      (previous < int (row_at 4 bs d 12 n 0) \<and> row_at 4 bs d 12 n 4 + row_at 4 bs d 12 n 8 \<le> available)
      \<and> check_term_rows ?view available (int (row_at 4 bs d 12 n 0)) [Suc n..<m] = Inr ()"
    using step.hyps by (simp add: upt_conv_Cons rows not_le not_less Let_def)
  then show ?case
    unfolding step.IH
      running_step [OF step.hyps(2), of "\<lambda>prev i. prev < int (row_at 4 bs d 12 i 0)
        \<and> row_at 4 bs d 12 i 4 + row_at 4 bs d 12 i 8 \<le> available"
        previous "\<lambda>i. int (row_at 4 bs d 12 i 0)"] .
qed simp

lemma validate_term_table_iff:
  "validateTermTable bs t p strings nodes = Inr () \<longleftrightarrow> lane_ok bs t p strings nodes"
proof (cases "references_ok bs t 12 0 strings \<and> references_ok bs p 4 0 nodes")
  case False
  then show ?thesis
    by (auto simp: validateTermTable_def lane_ok_def rows validate_references_iff rbind_Inr_iff)
next
  case True
  then have fits: "sd_end t \<le> length bs" "sd_count t * 12 \<le> sd_length t"
    by (simp_all add: references_ok_def)
  then have "sd_offset t + sd_length t \<le> length bs" by (simp add: sd_end_def)
  then have "validateTermTable bs t p strings nodes = Inr () \<longleftrightarrow>
      check_term_rows (bslice bs (sd_offset t) (sd_offset t + sd_length t)) (sd_count p) (- 1)
        [0..<sd_count t] = Inr ()"
    using True validate_references_iff [of bs t 12 0 strings] validate_references_iff [of bs p 4 0 nodes]
    by (simp add: validateTermTable_def rows)
  also have "\<dots> \<longleftrightarrow> (\<forall>i \<in> {0..<sd_count t}.
      (if i = 0 then - 1 else int (row_at 4 bs t 12 (i - 1) 0)) < int (row_at 4 bs t 12 i 0)
      \<and> row_at 4 bs t 12 i 4 + row_at 4 bs t 12 i 8 \<le> sd_count p)"
    by (rule check_term_rows_iff [OF fits le0])
  also have "\<dots> \<longleftrightarrow> (\<forall>i. Suc i < sd_count t \<longrightarrow> row_at 4 bs t 12 i 0 < row_at 4 bs t 12 (Suc i) 0)
      \<and> (\<forall>i < sd_count t. row_at 4 bs t 12 i 4 + row_at 4 bs t 12 i 8 \<le> sd_count p)"
    using running_all [of "sd_count t" "\<lambda>prev i. prev < int (row_at 4 bs t 12 i 0)" "- 1"
        "\<lambda>i. int (row_at 4 bs t 12 i 0)"]
    by (auto simp: ball_conj_distrib)
  finally show ?thesis using True by (simp add: lane_ok_def term_rows_ok_def)
qed

lemma check_node_enums_iff:
  assumes "sd_end nodes \<le> length bs" "n * 40 \<le> sd_length nodes"
    and "sd_end groups \<le> length bs" "n * 4 \<le> sd_length groups" and "i < n"
  shows "check_node_enums bs nodes groups strings i = Inr () \<longleftrightarrow> node_enums_ok bs nodes groups strings i"
proof -
  have fits: "sd_offset nodes + sd_length nodes \<le> length bs" "sd_offset groups + sd_length groups \<le> length bs"
    using assms(1,3) by (simp_all add: sd_end_def)
  have r: "get_le w bs (sd_offset nodes + i * 40 + fld) = Inr (row_at w bs nodes 40 i fld)"
    if "fld + w \<le> 40" for w fld
    using file_read [OF fits(1) assms(5,2) that] by (simp add: row_at_def)
  have "get_u32 bs (sd_offset groups + i * 4) = Inr (row_at 4 bs groups 4 i 0)"
    using file_read [OF fits(2) assms(5,4), of 0 4] by (simp add: row_at_def)
  moreover have "get_u8 bs (sd_offset nodes + i * 40 + 0) = Inr (row_at 1 bs nodes 40 i 0)"
    "get_u8 bs (sd_offset nodes + i * 40 + 1) = Inr (row_at 1 bs nodes 40 i 1)"
    "get_u8 bs (sd_offset nodes + i * 40 + 2) = Inr (row_at 1 bs nodes 40 i 2)"
    "get_u32 bs (sd_offset nodes + i * 40 + 16) = Inr (row_at 4 bs nodes 40 i 16)"
    "get_u32 bs (sd_offset nodes + i * 40 + 28) = Inr (row_at 4 bs nodes 40 i 28)"
    "get_u32 bs (sd_offset nodes + i * 40 + 32) = Inr (row_at 4 bs nodes 40 i 32)"
    by (rule r, simp)+
  ultimately show ?thesis
    unfolding check_node_enums_def Let_def rows
    by (simp only: rbind_simps)
      (auto simp: checkCode_def checkOptionalReference_def rows node_enums_ok_def
        optional_reference_def code_table_lengths rbind_Inr_iff not_le)
qed

lemma check_edge_enums_iff:
  assumes "sd_end edges \<le> length bs" "n * 16 \<le> sd_length edges" and "i < n"
  shows "check_edge_enums bs edges i = Inr () \<longleftrightarrow> edge_enums_ok bs edges i"
proof -
  have fits: "sd_offset edges + sd_length edges \<le> length bs"
    using assms(1) by (simp add: sd_end_def)
  have r: "get_le w bs (sd_offset edges + i * 16 + fld) = Inr (row_at w bs edges 16 i fld)"
    if "fld + w \<le> 16" for w fld
    using file_read [OF fits assms(3,2) that] by (simp add: row_at_def)
  have "get_u8 bs (sd_offset edges + i * 16 + 4) = Inr (row_at 1 bs edges 16 i 4)"
    "get_u8 bs (sd_offset edges + i * 16 + 5) = Inr (row_at 1 bs edges 16 i 5)"
    by (rule r, simp)+
  then show ?thesis
    unfolding check_edge_enums_def Let_def rows
    by (simp only: rbind_simps)
      (auto simp: checkCode_def edge_enums_ok_def code_table_lengths rbind_Inr_iff not_le)
qed

section \<open>The validator accepts exactly the files that satisfy the contract\<close>

abbreviation sec :: "section_index \<Rightarrow> nat \<Rightarrow> SectionDescriptor" where
  "sec m k \<equiv> the (m k)"

definition counts_ok :: "ContextIndexHeader \<Rightarrow> section_index \<Rightarrow> bool" where
  "counts_ok h m \<longleftrightarrow> SECTION_KINDS \<subseteq> dom m
     \<and> sd_count (sec m NODE_TABLE) = nodeCount h \<and> sd_count (sec m EDGE_TABLE) = edgeCount h
     \<and> sd_count (sec m PROVENANCE_TABLE) = provenanceCount h
     \<and> sd_count (sec m GROUP_TABLE) = nodeCount h
     \<and> sd_count (sec m OUT_CSR_EDGES) = edgeCount h \<and> sd_count (sec m IN_CSR_EDGES) = edgeCount h
     \<and> sd_count (sec m EXACT_TERM_TABLE) = termCount h
     \<and> list_all (\<lambda>(k, stride). exact_rows (sec m k) stride) CONTEXT_INDEX_FIXED_STRIDE_SECTIONS"

definition references_all_ok :: "bytes \<Rightarrow> ContextIndexHeader \<Rightarrow> section_index \<Rightarrow> bool" where
  "references_all_ok bs h m \<longleftrightarrow>
    (let ss = sd_count (sec m STRING_TABLE); ns = nodeCount h; es = edgeCount h in
     string_table_ok bs (sec m STRING_TABLE)
     \<and> csr_ok bs (sec m OUT_CSR_OFFSETS) (sec m OUT_CSR_EDGES) ns
     \<and> csr_ok bs (sec m IN_CSR_OFFSETS) (sec m IN_CSR_EDGES) ns
     \<and> list_all (\<lambda>(k, stride, fld, limit). references_ok bs (sec m k) stride fld limit)
       [(NODE_TABLE, 40, 12, ss), (NODE_TABLE, 40, 36, ss), (NODE_TABLE, 40, 32, max ns 1),
        (NODE_METADATA, 16, 0, ns), (NODE_METADATA, 16, 4, ss), (NODE_METADATA, 16, 8, ss),
        (EDGE_TABLE, 16, 0, ns), (EDGE_TABLE, 16, 8, sd_count (sec m PROVENANCE_TABLE)),
        (OUT_CSR_EDGES, 4, 0, es), (IN_CSR_EDGES, 4, 0, es),
        (PROVENANCE_TABLE, 16, 0, ss), (PROVENANCE_TABLE, 16, 8, ss), (PROVENANCE_TABLE, 16, 12, ss),
        (GROUP_TABLE, 4, 0, max ns 1), (CYCLE_TABLE, 4, 0, ns),
        (SOURCE_HASH_TABLE, 8, 0, ss), (SOURCE_HASH_TABLE, 8, 4, ss)])"

definition payloads_ok :: "bytes \<Rightarrow> ContextIndexHeader \<Rightarrow> section_index \<Rightarrow> bool" where
  "payloads_ok bs h m \<longleftrightarrow> counts_ok h m \<and> references_all_ok bs h m
     \<and> metadata_rows_ok bs (sec m NODE_METADATA)
     \<and> list_all (\<lambda>(t, p). lane_ok bs (sec m t) (sec m p) (sd_count (sec m STRING_TABLE)) (nodeCount h))
         [(EXACT_TERM_TABLE, EXACT_POSTINGS), (BASENAME_TABLE, BASENAME_POSTINGS),
          (LEXICON_TABLE, LEXICON_POSTINGS), (COARSE_TERM_TABLE, COARSE_POSTINGS)]
     \<and> (\<forall>i < nodeCount h. node_enums_ok bs (sec m NODE_TABLE) (sec m GROUP_TABLE)
           (sd_count (sec m STRING_TABLE)) i)
     \<and> (\<forall>i < edgeCount h. edge_enums_ok bs (sec m EDGE_TABLE) i)"

lemma sectionOf_Inr_iff: "sectionOf m k = Inr d \<longleftrightarrow> m k = Some d"
  by (auto simp: sectionOf_def split: option.splits)

lemma sectionOf_sec: "SECTION_KINDS \<subseteq> dom m \<Longrightarrow> k \<in> SECTION_KINDS \<Longrightarrow> sectionOf m k = Inr (sec m k)"
  by (auto simp: sectionOf_Inr_iff)

lemma fixed_stride_kinds:
  "k \<in> SECTION_KINDS \<longleftrightarrow> k = STRING_TABLE \<or> k \<in> fst ` set CONTEXT_INDEX_FIXED_STRIDE_SECTIONS"
  unfolding SECTION_KINDS_def CONTEXT_INDEX_REQUIRED_SECTIONS_def
    CONTEXT_INDEX_FIXED_STRIDE_SECTIONS_def by (simp only: list.set prod.sel image_insert image_empty insert_iff empty_iff)

lemma validate_payloads_kinds:
  assumes "validateContextIndexPayloads bs h m = Inr ()"
  shows "SECTION_KINDS \<subseteq> dom m"
proof -
  have "STRING_TABLE \<in> dom m"
    using assms by (auto simp: validateContextIndexPayloads_def sectionOf_Inr_iff rbind_Inr_iff)
  moreover have "k \<in> dom m" if "(k, stride) \<in> set CONTEXT_INDEX_FIXED_STRIDE_SECTIONS" for k stride
  proof -
    from assms have "\<forall>(k, stride) \<in> set CONTEXT_INDEX_FIXED_STRIDE_SECTIONS.
        rbind (sectionOf m k) (\<lambda>d. requireExactRows d stride) = Inr ()"
      unfolding validateContextIndexPayloads_def
      by (auto simp: rbind_Inr_iff run_all_iff list_all_iff Let_def)
    with that show ?thesis by (auto simp: rbind_Inr_iff sectionOf_Inr_iff)
  qed
  ultimately show ?thesis by (fastforce simp: fixed_stride_kinds subset_iff)
qed

lemma references_ok_fits: "references_ok bs d stride fld limit \<Longrightarrow>
    sd_end d \<le> length bs \<and> sd_count d * stride \<le> sd_length d"
  by (simp add: references_ok_def)

lemma requireCount_iff: "requireCount a e k = Inr () \<longleftrightarrow> a = e"
  by (simp add: requireCount_def)

lemma requireExactRows_iff: "requireExactRows d s = Inr () \<longleftrightarrow> exact_rows d s"
  by (simp add: requireExactRows_def exact_rows_def)

lemma validate_enums_iff:
  assumes "references_ok bs nodes 40 fld ss" "references_ok bs groups 4 fld' ss'"
    "references_ok bs edges 16 fld'' ss''" "sd_count nodes = nodeCount h" "sd_count groups = nodeCount h"
    "sd_count edges = edgeCount h"
  shows "validateEnums bs h nodes edges groups strings = Inr () \<longleftrightarrow>
     (\<forall>i < nodeCount h. node_enums_ok bs nodes groups strings i)
     \<and> (\<forall>i < edgeCount h. edge_enums_ok bs edges i)"
proof -
  note fits = references_ok_fits [OF assms(1)] references_ok_fits [OF assms(2)] references_ok_fits [OF assms(3)]
  have "check_node_enums bs nodes groups strings i = Inr () \<longleftrightarrow> node_enums_ok bs nodes groups strings i"
    if "i < nodeCount h" for i
    using fits assms(4,5) that by (intro check_node_enums_iff [of nodes bs "nodeCount h"]) auto
  moreover have "check_edge_enums bs edges i = Inr () \<longleftrightarrow> edge_enums_ok bs edges i"
    if "i < edgeCount h" for i
    using fits assms(6) that by (intro check_edge_enums_iff [of edges bs "edgeCount h"]) auto
  ultimately show ?thesis by (auto simp: validateEnums_def rbind_Inr_iff for_each_Inr_iff)
qed

lemma kinds_all: "k \<in> {STRING_TABLE, NODE_TABLE, NODE_METADATA, EDGE_TABLE, OUT_CSR_OFFSETS,
      OUT_CSR_EDGES, IN_CSR_OFFSETS, IN_CSR_EDGES, EXACT_TERM_TABLE, EXACT_POSTINGS, BASENAME_TABLE,
      BASENAME_POSTINGS, LEXICON_TABLE, LEXICON_POSTINGS, COARSE_TERM_TABLE, COARSE_POSTINGS,
      PROVENANCE_TABLE, GROUP_TABLE, CYCLE_TABLE, SOURCE_HASH_TABLE} \<Longrightarrow> k \<in> SECTION_KINDS"
  by (simp only: SECTION_KINDS_def CONTEXT_INDEX_REQUIRED_SECTIONS_def list.set)

lemma validate_payloads_iff:
  "validateContextIndexPayloads bs h m = Inr () \<longleftrightarrow> payloads_ok bs h m"
proof (cases "SECTION_KINDS \<subseteq> dom m")
  case False
  then show ?thesis
    using validate_payloads_kinds [of bs h m] by (auto simp: payloads_ok_def counts_ok_def)
next
  case True
  have sec: "sectionOf m k = Inr (sec m k)" if "k \<in> SECTION_KINDS" for k
    using True that by (rule sectionOf_sec)
  note secs = sec [OF kinds_all, of STRING_TABLE] sec [OF kinds_all, of NODE_TABLE]
    sec [OF kinds_all, of NODE_METADATA] sec [OF kinds_all, of EDGE_TABLE]
    sec [OF kinds_all, of OUT_CSR_OFFSETS] sec [OF kinds_all, of OUT_CSR_EDGES]
    sec [OF kinds_all, of IN_CSR_OFFSETS] sec [OF kinds_all, of IN_CSR_EDGES]
    sec [OF kinds_all, of EXACT_TERM_TABLE] sec [OF kinds_all, of EXACT_POSTINGS]
    sec [OF kinds_all, of BASENAME_TABLE] sec [OF kinds_all, of BASENAME_POSTINGS]
    sec [OF kinds_all, of LEXICON_TABLE] sec [OF kinds_all, of LEXICON_POSTINGS]
    sec [OF kinds_all, of COARSE_TERM_TABLE] sec [OF kinds_all, of COARSE_POSTINGS]
    sec [OF kinds_all, of PROVENANCE_TABLE] sec [OF kinds_all, of GROUP_TABLE]
    sec [OF kinds_all, of CYCLE_TABLE] sec [OF kinds_all, of SOURCE_HASH_TABLE]
  have strides: "list_all (\<lambda>c. c = Inr ()) (map (\<lambda>(k, stride). rbind (sectionOf m k)
        (\<lambda>d. requireExactRows d stride)) CONTEXT_INDEX_FIXED_STRIDE_SECTIONS)
      \<longleftrightarrow> list_all (\<lambda>(k, stride). exact_rows (sec m k) stride) CONTEXT_INDEX_FIXED_STRIDE_SECTIONS"
    by (simp add: CONTEXT_INDEX_FIXED_STRIDE_SECTIONS_def secs requireExactRows_iff rows)
  let ?S = "sec m STRING_TABLE" and ?N = "sec m NODE_TABLE" and ?M = "sec m NODE_METADATA"
    and ?E = "sec m EDGE_TABLE" and ?G = "sec m GROUP_TABLE"
  let ?ns = "nodeCount h" and ?es = "edgeCount h" and ?ss = "sd_count (sec m STRING_TABLE)"
  have "validateContextIndexPayloads bs h m = Inr () \<longleftrightarrow> counts_ok h m \<and> references_all_ok bs h m
     \<and> validateMetadataRows bs ?M = Inr ()
     \<and> list_all (\<lambda>(t, p). lane_ok bs (sec m t) (sec m p) ?ss ?ns)
         [(EXACT_TERM_TABLE, EXACT_POSTINGS), (BASENAME_TABLE, BASENAME_POSTINGS),
          (LEXICON_TABLE, LEXICON_POSTINGS), (COARSE_TERM_TABLE, COARSE_POSTINGS)]
     \<and> validateEnums bs h ?N ?E ?G ?ss = Inr ()"
    unfolding validateContextIndexPayloads_def
    by (simp add: secs run_all_iff strides requireCount_iff validate_string_table_iff
        validate_csr_iff validate_references_iff validate_term_table_iff counts_ok_def True
        references_all_ok_def rows Let_def)
  also have "\<dots> \<longleftrightarrow> payloads_ok bs h m"
  proof -
    have "validateMetadataRows bs ?M = Inr () \<longleftrightarrow> metadata_rows_ok bs ?M"
      "validateEnums bs h ?N ?E ?G ?ss = Inr () \<longleftrightarrow>
        (\<forall>i < ?ns. node_enums_ok bs ?N ?G ?ss i) \<and> (\<forall>i < ?es. edge_enums_ok bs ?E i)"
      if c: "counts_ok h m" and r: "references_all_ok bs h m"
    proof -
      from r have refs: "references_ok bs ?M 16 0 ?ns" "references_ok bs ?N 40 12 ?ss"
        "references_ok bs ?G 4 0 (max ?ns 1)" "references_ok bs ?E 16 0 ?ns"
        by (simp_all add: references_all_ok_def Let_def)
      show "validateMetadataRows bs ?M = Inr () \<longleftrightarrow> metadata_rows_ok bs ?M"
        using references_ok_fits [OF refs(1)] by (intro validate_metadata_iff) auto
      show "validateEnums bs h ?N ?E ?G ?ss = Inr () \<longleftrightarrow>
          (\<forall>i < ?ns. node_enums_ok bs ?N ?G ?ss i) \<and> (\<forall>i < ?es. edge_enums_ok bs ?E i)"
        using c by (intro validate_enums_iff [OF refs(2-4)]) (simp_all add: counts_ok_def)
    qed
    then show ?thesis unfolding payloads_ok_def by blast
  qed
  finally show ?thesis .
qed

text \<open>
  C22. The payload validator accepts exactly the files that satisfy the payload contract:
  counts and row widths agree with the header, strings decode, CSR rows are monotone,
  every cross-table reference addresses a live row, metadata rows and term tables are
  sorted, and every enum byte names a member of its union.
\<close>

theorem payload_validation_exact:
  "validateContextIndexPayloads bs h m = Inr () \<longleftrightarrow> payloads_ok bs h m"
  by (rule validate_payloads_iff)

end
