(* ===== verification/Reader_Geometry.thy ===== *)
theory Reader_Geometry
  imports Reader_Validate
begin

text \<open>
  What the reader may rely on after open, stated on the geometry alone: \<open>geometry_ok\<close>.
  The theorem of this theory is the reader's safety argument: a geometry resolved from a
  file whose payloads validated satisfies it. Every accessor of the reader is proved
  against \<open>geometry_ok\<close>, never against the file.
\<close>

section \<open>Row access\<close>

definition cell :: "nat \<Rightarrow> ContextIndexGeometry \<Rightarrow> nat \<Rightarrow> nat \<Rightarrow> nat \<Rightarrow> nat \<Rightarrow> nat" where
  "cell w g base stride i fld = le_at w (g_bytes g) (base + (i * stride + fld))"

definition table_fits :: "ContextIndexGeometry \<Rightarrow> nat \<Rightarrow> nat \<Rightarrow> nat \<Rightarrow> bool" where
  "table_fits g base n stride \<longleftrightarrow> base + n * stride \<le> length (g_bytes g)"

lemma cell_read:
  assumes "table_fits g base n stride" "i < n" "fld + w \<le> stride"
  shows "get_le w (g_bytes g) (base + i * stride + fld) = Inr (cell w g base stride i fld)"
    "get_le w (g_bytes g) (base + (i * stride + fld)) = Inr (cell w g base stride i fld)"
proof -
  have "base + (i * stride + fld) + w \<le> length (g_bytes g)"
    using row_in_range [OF assms(2,3)] assms(1) by (simp add: table_fits_def)
  then show "get_le w (g_bytes g) (base + i * stride + fld) = Inr (cell w g base stride i fld)"
    "get_le w (g_bytes g) (base + (i * stride + fld)) = Inr (cell w g base stride i fld)"
    by (simp_all add: get_le_def cell_def add.assoc)
qed

lemma cell_read0:
  assumes "table_fits g base n stride" "i < n" "w \<le> stride"
  shows "get_le w (g_bytes g) (base + i * stride) = Inr (cell w g base stride i 0)"
  using cell_read(1) [OF assms(1,2), of 0 w] assms(3) by simp

section \<open>The contract of an opened geometry\<close>

definition string_end :: "ContextIndexGeometry \<Rightarrow> nat \<Rightarrow> nat" where
  "string_end g i = cell 4 g (g_stringIndexBase g) 4 i 0"

definition string_begin :: "ContextIndexGeometry \<Rightarrow> nat \<Rightarrow> nat" where
  "string_begin g i = (if i = 0 then 0 else string_end g (i - 1))"

definition strings_ok :: "ContextIndexGeometry \<Rightarrow> bool" where
  "strings_ok g \<longleftrightarrow> g_stringBlobBase g = g_stringIndexBase g + g_stringCount g * 4
     \<and> table_fits g (g_stringIndexBase g) (g_stringCount g) 4
     \<and> (\<forall>i < g_stringCount g. string_begin g i \<le> string_end g i
          \<and> g_stringBlobBase g + string_end g i \<le> length (g_bytes g))"

definition nodes_ok :: "ContextIndexGeometry \<Rightarrow> bool" where
  "nodes_ok g \<longleftrightarrow> table_fits g (g_nodeBase g) (g_nodeCount g) 40
     \<and> (\<forall>i < g_nodeCount g.
          cell 4 g (g_nodeBase g) 40 i 12 < g_stringCount g
        \<and> cell 4 g (g_nodeBase g) 40 i 36 < g_stringCount g
        \<and> cell 4 g (g_nodeBase g) 40 i 32 < g_nodeCount g
        \<and> cell 1 g (g_nodeBase g) 40 i 0 < 14 \<and> cell 1 g (g_nodeBase g) 40 i 1 < 3
        \<and> cell 1 g (g_nodeBase g) 40 i 2 < 4
        \<and> optional_reference (cell 4 g (g_nodeBase g) 40 i 16) (g_stringCount g)
        \<and> optional_reference (cell 4 g (g_nodeBase g) 40 i 28) (g_stringCount g))"

definition edges_ok :: "ContextIndexGeometry \<Rightarrow> bool" where
  "edges_ok g \<longleftrightarrow> table_fits g (g_edgeBase g) (g_edgeCount g) 16
     \<and> (\<forall>i < g_edgeCount g. cell 4 g (g_edgeBase g) 16 i 0 < g_nodeCount g
        \<and> cell 1 g (g_edgeBase g) 16 i 4 < 21 \<and> cell 1 g (g_edgeBase g) 16 i 5 < 5
        \<and> cell 4 g (g_edgeBase g) 16 i 8 < g_provenanceCount g)"

definition csr_base_ok :: "ContextIndexGeometry \<Rightarrow> nat \<Rightarrow> nat \<Rightarrow> bool" where
  "csr_base_ok g offsetBase csrEdgeBase \<longleftrightarrow>
     table_fits g offsetBase (g_nodeCount g + 1) 4
     \<and> table_fits g csrEdgeBase (g_edgeCount g) 4
     \<and> (\<forall>i j. i \<le> j \<longrightarrow> j \<le> g_nodeCount g \<longrightarrow> cell 4 g offsetBase 4 i 0 \<le> cell 4 g offsetBase 4 j 0)
     \<and> cell 4 g offsetBase 4 (g_nodeCount g) 0 = g_edgeCount g
     \<and> (\<forall>s < g_edgeCount g. cell 4 g csrEdgeBase 4 s 0 < g_edgeCount g)"

definition metadata_ok :: "ContextIndexGeometry \<Rightarrow> bool" where
  "metadata_ok g \<longleftrightarrow> table_fits g (g_metadataBase g) (g_metadataCount g) 16
     \<and> (\<forall>i < g_metadataCount g. cell 4 g (g_metadataBase g) 16 i 0 < g_nodeCount g
        \<and> cell 4 g (g_metadataBase g) 16 i 4 < g_stringCount g
        \<and> cell 4 g (g_metadataBase g) 16 i 8 < g_stringCount g)
     \<and> (\<forall>i. Suc i < g_metadataCount g \<longrightarrow>
          cell 4 g (g_metadataBase g) 16 i 0 \<le> cell 4 g (g_metadataBase g) 16 (Suc i) 0)"

definition provenance_ok :: "ContextIndexGeometry \<Rightarrow> bool" where
  "provenance_ok g \<longleftrightarrow> table_fits g (g_provenanceBase g) (g_provenanceCount g) 16
     \<and> (\<forall>i < g_provenanceCount g. cell 4 g (g_provenanceBase g) 16 i 0 < g_stringCount g
        \<and> cell 4 g (g_provenanceBase g) 16 i 8 < g_stringCount g
        \<and> cell 4 g (g_provenanceBase g) 16 i 12 < g_stringCount g)"

definition sources_ok :: "ContextIndexGeometry \<Rightarrow> bool" where
  "sources_ok g \<longleftrightarrow> table_fits g (g_sourceHashBase g) (g_sourceHashCount g) 8
     \<and> (\<forall>i < g_sourceHashCount g. cell 4 g (g_sourceHashBase g) 8 i 0 < g_stringCount g
        \<and> cell 4 g (g_sourceHashBase g) 8 i 4 < g_stringCount g)"

definition geometry_lane_ok :: "ContextIndexGeometry \<Rightarrow> ContextIndexLane \<Rightarrow> bool" where
  "geometry_lane_ok g lane \<longleftrightarrow>
     lane_ok (g_bytes g) (lane_terms lane) (lane_postings lane) (g_stringCount g) (g_nodeCount g)"

definition geometry_ok :: "ContextIndexGeometry \<Rightarrow> bool" where
  "geometry_ok g \<longleftrightarrow> strings_ok g \<and> nodes_ok g \<and> edges_ok g
     \<and> csr_base_ok g (g_outOffsetBase g) (g_outEdgeBase g)
     \<and> csr_base_ok g (g_inOffsetBase g) (g_inEdgeBase g)
     \<and> metadata_ok g \<and> provenance_ok g \<and> sources_ok g
     \<and> list_all (geometry_lane_ok g) [g_exact g, g_basename g, g_lexicon g, g_coarse g]
     \<and> g_nodeCount g \<le> maxNodeCount \<and> g_edgeCount g \<le> maxEdgeCount"

section \<open>A validated file opens into a geometry that satisfies the contract\<close>

lemma references_cell:
  assumes "references_ok (g_bytes g) d stride fld limit" "sd_offset d = base" "i < sd_count d"
  shows "cell 4 g base stride i fld < limit"
  using assms by (auto simp: references_ok_def cell_def add.assoc)

lemma references_fits:
  assumes "references_ok (g_bytes g) d stride fld limit" "sd_offset d = base" "n = sd_count d"
  shows "table_fits g base n stride"
  using assms by (auto simp: references_ok_def table_fits_def sd_end_def)

lemma row_at_cell: "sd_offset d = base \<Longrightarrow> row_at w (g_bytes g) d stride i fld = cell w g base stride i fld"
  by (simp add: row_at_def cell_def)

lemma u32_row_cell: "sd_offset d = base \<Longrightarrow> u32_row (g_bytes g) d i = cell 4 g base 4 i 0"
  by (simp add: u32_row_def cell_def)

lemma geometry_fields:
  assumes "readContextIndexGeometry bs h m = Inr g"
  shows "g = \<lparr>g_bytes = bs, g_nodeCount = nodeCount h, g_edgeCount = edgeCount h,
     g_stringCount = sd_count (sec m STRING_TABLE),
     g_stringIndexBase = sd_offset (sec m STRING_TABLE),
     g_stringBlobBase = sd_offset (sec m STRING_TABLE) + sd_count (sec m STRING_TABLE) * 4,
     g_nodeBase = sd_offset (sec m NODE_TABLE),
     g_metadataBase = sd_offset (sec m NODE_METADATA), g_metadataCount = sd_count (sec m NODE_METADATA),
     g_edgeBase = sd_offset (sec m EDGE_TABLE),
     g_outOffsetBase = sd_offset (sec m OUT_CSR_OFFSETS), g_outEdgeBase = sd_offset (sec m OUT_CSR_EDGES),
     g_inOffsetBase = sd_offset (sec m IN_CSR_OFFSETS), g_inEdgeBase = sd_offset (sec m IN_CSR_EDGES),
     g_provenanceBase = sd_offset (sec m PROVENANCE_TABLE),
     g_provenanceCount = sd_count (sec m PROVENANCE_TABLE),
     g_sourceHashBase = sd_offset (sec m SOURCE_HASH_TABLE),
     g_sourceHashCount = sd_count (sec m SOURCE_HASH_TABLE),
     g_exact = \<lparr>lane_terms = sec m EXACT_TERM_TABLE, lane_postings = sec m EXACT_POSTINGS\<rparr>,
     g_basename = \<lparr>lane_terms = sec m BASENAME_TABLE, lane_postings = sec m BASENAME_POSTINGS\<rparr>,
     g_lexicon = \<lparr>lane_terms = sec m LEXICON_TABLE, lane_postings = sec m LEXICON_POSTINGS\<rparr>,
     g_coarse = \<lparr>lane_terms = sec m COARSE_TERM_TABLE, lane_postings = sec m COARSE_POSTINGS\<rparr>\<rparr>"
  using assms by (auto simp: readContextIndexGeometry_def laneOf_def rbind_Inr_iff sectionOf_Inr_iff)

lemma geometry_total:
  assumes "SECTION_KINDS \<subseteq> dom m"
  obtains g where "readContextIndexGeometry bs h m = Inr g"
  using assms that kinds_all sectionOf_sec [OF assms]
  by (simp add: readContextIndexGeometry_def laneOf_def)

lemma string_table_geometry:
  assumes ok: "string_table_ok (g_bytes g) d" and "sd_offset d = g_stringIndexBase g"
    and n: "sd_count d = g_stringCount g"
    and "g_stringBlobBase g = g_stringIndexBase g + g_stringCount g * 4"
  shows "strings_ok g"
proof -
  have e: "u32_row (g_bytes g) d i = string_end g i" for i
    unfolding string_end_def by (rule u32_row_cell) (rule assms(2))
  have b: "string_start (g_bytes g) d i = string_begin g i" for i
    by (simp add: string_start_def string_begin_def e)
  have "\<forall>i < g_stringCount g. string_begin g i \<le> string_end g i \<and> g_stringCount g * 4 + string_end g i \<le> sd_length d"
    "g_stringCount g * 4 \<le> sd_length d" "g_stringIndexBase g + sd_length d \<le> length (g_bytes g)"
    using ok by (simp_all add: string_table_ok_def e b n sd_end_def assms(2))
  then show ?thesis
    by (auto simp: strings_ok_def assms(4) table_fits_def)
qed

lemma csr_geometry:
  assumes csr: "csr_ok (g_bytes g) o' e (g_nodeCount g)" and "references_ok (g_bytes g) e 4 0 (g_edgeCount g)"
    and "sd_offset o' = ob" "sd_offset e = eb" and n: "sd_count e = g_edgeCount g"
  shows "csr_base_ok g ob eb"
proof -
  have r: "u32_row (g_bytes g) o' i = cell 4 g ob 4 i 0" for i
    by (rule u32_row_cell) (rule assms(3))
  have "\<forall>i j. i \<le> j \<longrightarrow> j \<le> g_nodeCount g \<longrightarrow> cell 4 g ob 4 i 0 \<le> cell 4 g ob 4 j 0"
    using csr_mono(1) [OF csr] by (simp add: r)
  moreover have "cell 4 g ob 4 (g_nodeCount g) 0 = g_edgeCount g"
    "table_fits g ob (g_nodeCount g + 1) 4"
    using csr n by (auto simp: csr_ok_def r table_fits_def sd_end_def assms(3))
  moreover have "table_fits g eb (g_edgeCount g) 4"
    by (rule references_fits [OF assms(2,4)]) (simp add: n)
  moreover have "\<forall>s < g_edgeCount g. cell 4 g eb 4 s 0 < g_edgeCount g"
    using references_cell [OF assms(2,4)] n by simp
  ultimately show ?thesis by (simp add: csr_base_ok_def)
qed

lemma metadata_geometry:
  assumes rows: "metadata_rows_ok (g_bytes g) d"
    and refs: "references_ok (g_bytes g) d 16 0 (g_nodeCount g)"
      "references_ok (g_bytes g) d 16 4 (g_stringCount g)"
      "references_ok (g_bytes g) d 16 8 (g_stringCount g)"
    and base: "sd_offset d = g_metadataBase g" and n: "sd_count d = g_metadataCount g"
  shows "metadata_ok g"
proof -
  have "cell 4 g (g_metadataBase g) 16 i 0 \<le> cell 4 g (g_metadataBase g) 16 (Suc i) 0"
    if "Suc i < g_metadataCount g" for i
  proof -
    have "metadata_follows (metadata_at (g_bytes g) d i) (metadata_at (g_bytes g) d (Suc i))"
      using rows that by (simp add: metadata_rows_ok_def n)
    then show ?thesis
      by (auto simp: metadata_follows_def metadata_at_def row_at_cell [OF base])
  qed
  then show ?thesis
    using references_fits [OF refs(1) base] references_cell [OF refs(1) base]
      references_cell [OF refs(2) base] references_cell [OF refs(3) base] n
    by (simp add: metadata_ok_def)
qed

lemma payloads_geometry_ok:
  assumes "payloads_ok bs h m" "header_ok h" "readContextIndexGeometry bs h m = Inr g"
  shows "geometry_ok g"
proof -
  note g = geometry_fields [OF assms(3)]
  have f: "bs = g_bytes g" "nodeCount h = g_nodeCount g" "edgeCount h = g_edgeCount g"
    "sd_count (sec m STRING_TABLE) = g_stringCount g" "sd_count (sec m PROVENANCE_TABLE) = g_provenanceCount g"
    by (simp_all add: g)
  have refs: "references_all_ok (g_bytes g) h m" and counts: "counts_ok h m"
    and lanes: "list_all (\<lambda>(t, p). lane_ok (g_bytes g) (sec m t) (sec m p) (g_stringCount g) (g_nodeCount g))
         [(EXACT_TERM_TABLE, EXACT_POSTINGS), (BASENAME_TABLE, BASENAME_POSTINGS),
          (LEXICON_TABLE, LEXICON_POSTINGS), (COARSE_TERM_TABLE, COARSE_POSTINGS)]"
    and meta: "metadata_rows_ok (g_bytes g) (sec m NODE_METADATA)"
    and nen: "\<forall>i < g_nodeCount g. node_enums_ok (g_bytes g) (sec m NODE_TABLE) (sec m GROUP_TABLE) (g_stringCount g) i"
    and een: "\<forall>i < g_edgeCount g. edge_enums_ok (g_bytes g) (sec m EDGE_TABLE) i"
    using assms(1) unfolding payloads_ok_def f by blast+
  note r = refs [unfolded references_all_ok_def Let_def f list.pred_inject prod.case]
  have str: "strings_ok g"
    using r by (intro string_table_geometry [of g "sec m STRING_TABLE"]) (simp_all add: g)
  have out: "csr_base_ok g (g_outOffsetBase g) (g_outEdgeBase g)"
    using r counts
    by (intro csr_geometry [of g "sec m OUT_CSR_OFFSETS" "sec m OUT_CSR_EDGES"])
      (simp_all add: counts_ok_def g)
  have inc: "csr_base_ok g (g_inOffsetBase g) (g_inEdgeBase g)"
    using r counts
    by (intro csr_geometry [of g "sec m IN_CSR_OFFSETS" "sec m IN_CSR_EDGES"])
      (simp_all add: counts_ok_def g)
  have met: "metadata_ok g"
    using r meta by (intro metadata_geometry [of g "sec m NODE_METADATA"]) (simp_all add: g)
  have nb: "sd_offset (sec m NODE_TABLE) = g_nodeBase g" "sd_count (sec m NODE_TABLE) = g_nodeCount g"
    "sd_offset (sec m EDGE_TABLE) = g_edgeBase g" "sd_count (sec m EDGE_TABLE) = g_edgeCount g"
    "sd_offset (sec m PROVENANCE_TABLE) = g_provenanceBase g"
    "sd_offset (sec m SOURCE_HASH_TABLE) = g_sourceHashBase g"
    "sd_count (sec m SOURCE_HASH_TABLE) = g_sourceHashCount g"
    using counts by (simp_all add: g counts_ok_def)
  have nod: "nodes_ok g"
  proof -
    have "references_ok (g_bytes g) (sec m NODE_TABLE) 40 12 (g_stringCount g)"
      "references_ok (g_bytes g) (sec m NODE_TABLE) 40 36 (g_stringCount g)"
      "references_ok (g_bytes g) (sec m NODE_TABLE) 40 32 (max (g_nodeCount g) 1)" using r by blast+
    note this [THEN references_cell [OF _ nb(1)]] this(1) [THEN references_fits [OF _ nb(1)]]
    then show ?thesis
      using nen by (fastforce simp: nodes_ok_def nb node_enums_ok_def row_at_cell [OF nb(1)] max_def split: if_splits)
  qed
  have edg: "edges_ok g"
  proof -
    have "references_ok (g_bytes g) (sec m EDGE_TABLE) 16 0 (g_nodeCount g)"
      "references_ok (g_bytes g) (sec m EDGE_TABLE) 16 8 (g_provenanceCount g)" using r by blast+
    note this [THEN references_cell [OF _ nb(3)]] this(1) [THEN references_fits [OF _ nb(3)]]
    then show ?thesis
      using een by (simp add: edges_ok_def nb edge_enums_ok_def row_at_cell [OF nb(3)])
  qed
  have prov: "provenance_ok g"
  proof -
    have "references_ok (g_bytes g) (sec m PROVENANCE_TABLE) 16 0 (g_stringCount g)"
      "references_ok (g_bytes g) (sec m PROVENANCE_TABLE) 16 8 (g_stringCount g)"
      "references_ok (g_bytes g) (sec m PROVENANCE_TABLE) 16 12 (g_stringCount g)" using r by blast+
    note this [THEN references_cell [OF _ nb(5)]] this(1) [THEN references_fits [OF _ nb(5)]]
    then show ?thesis by (simp add: provenance_ok_def f)
  qed
  have src: "sources_ok g"
  proof -
    have "references_ok (g_bytes g) (sec m SOURCE_HASH_TABLE) 8 0 (g_stringCount g)"
      "references_ok (g_bytes g) (sec m SOURCE_HASH_TABLE) 8 4 (g_stringCount g)" using r by blast+
    note this [THEN references_cell [OF _ nb(6)]] this(1) [THEN references_fits [OF _ nb(6)]]
    then show ?thesis by (simp add: sources_ok_def nb)
  qed
  have lan: "list_all (geometry_lane_ok g) [g_exact g, g_basename g, g_lexicon g, g_coarse g]"
    using lanes by (simp add: geometry_lane_ok_def g)
  have "g_nodeCount g \<le> maxNodeCount" "g_edgeCount g \<le> maxEdgeCount"
    using assms(2) by (simp_all add: header_ok_def f)
  with str out inc met nod edg prov src lan show ?thesis by (simp add: geometry_ok_def)
qed

section \<open>A smallest geometry\<close>

text \<open>
  One node \<open>a\<close> with one edge to itself, one provenance row, one term that posts the node,
  one metadata row and one source hash: the concrete instance the witnesses use.
\<close>

definition tiny_bytes :: bytes where
  "tiny_bytes = [1, 0, 0, 0, 97] @ replicate 40 0 @ (replicate 12 0 @ [255, 255, 0, 0])
     @ [0, 0, 0, 0, 1, 0, 0, 0] @ replicate 4 0 @ replicate 16 0 @ (replicate 8 0 @ [1, 0, 0, 0])
     @ (replicate 12 0 @ [1, 0, 0, 0])"

definition tiny_lane :: ContextIndexLane where
  "tiny_lane =
     \<lparr>lane_terms = \<lparr>sd_kind = 9, sd_offset = 89, sd_length = 12, sd_count = 1, sd_checksum = 0\<rparr>,
      lane_postings = \<lparr>sd_kind = 10, sd_offset = 69, sd_length = 4, sd_count = 1, sd_checksum = 0\<rparr>\<rparr>"

definition tiny_geometry :: ContextIndexGeometry where
  "tiny_geometry = \<lparr>g_bytes = tiny_bytes, g_nodeCount = 1, g_edgeCount = 1, g_stringCount = 1,
     g_stringIndexBase = 0, g_stringBlobBase = 4, g_nodeBase = 5, g_metadataBase = 101,
     g_metadataCount = 1, g_edgeBase = 45, g_outOffsetBase = 61, g_outEdgeBase = 69,
     g_inOffsetBase = 61, g_inEdgeBase = 69, g_provenanceBase = 73, g_provenanceCount = 1,
     g_sourceHashBase = 73, g_sourceHashCount = 1,
     g_exact = tiny_lane, g_basename = tiny_lane, g_lexicon = tiny_lane, g_coarse = tiny_lane\<rparr>"

lemma tiny_simps:
  "g_bytes tiny_geometry = tiny_bytes" "g_nodeCount tiny_geometry = 1" "g_edgeCount tiny_geometry = 1"
  "g_stringCount tiny_geometry = 1" "g_stringIndexBase tiny_geometry = 0"
  "g_stringBlobBase tiny_geometry = 4" "g_nodeBase tiny_geometry = 5"
  "g_metadataBase tiny_geometry = 101" "g_metadataCount tiny_geometry = 1"
  "g_edgeBase tiny_geometry = 45" "g_outOffsetBase tiny_geometry = 61"
  "g_outEdgeBase tiny_geometry = 69" "g_inOffsetBase tiny_geometry = 61"
  "g_inEdgeBase tiny_geometry = 69" "g_provenanceBase tiny_geometry = 73"
  "g_provenanceCount tiny_geometry = 1" "g_sourceHashBase tiny_geometry = 73"
  "g_sourceHashCount tiny_geometry = 1" "g_exact tiny_geometry = tiny_lane"
  "g_basename tiny_geometry = tiny_lane" "g_lexicon tiny_geometry = tiny_lane"
  "g_coarse tiny_geometry = tiny_lane"
  by (simp_all add: tiny_geometry_def)

lemma tiny_length: "length tiny_bytes = 117"
  by (simp add: tiny_bytes_def)

lemma tiny_cells:
  "cell 4 tiny_geometry 61 4 0 0 = 0" "cell 4 tiny_geometry 61 4 1 0 = 1"
  "cell 4 tiny_geometry 69 4 0 0 = 0" "cell 4 tiny_geometry 0 4 0 0 = 1"
  "cell 4 tiny_geometry 5 40 0 12 = 0" "cell 4 tiny_geometry 5 40 0 36 = 0"
  "cell 4 tiny_geometry 5 40 0 32 = 0" "cell 1 tiny_geometry 5 40 0 0 = 0"
  "cell 1 tiny_geometry 5 40 0 1 = 0" "cell 1 tiny_geometry 5 40 0 2 = 0"
  "cell 4 tiny_geometry 5 40 0 16 = 0" "cell 4 tiny_geometry 5 40 0 28 = 0"
  "cell 4 tiny_geometry 45 16 0 0 = 0" "cell 1 tiny_geometry 45 16 0 4 = 0"
  "cell 1 tiny_geometry 45 16 0 5 = 0" "cell 4 tiny_geometry 45 16 0 8 = 0"
  "cell 4 tiny_geometry 101 16 0 0 = 0" "cell 4 tiny_geometry 101 16 0 4 = 0"
  "cell 4 tiny_geometry 101 16 0 8 = 0" "cell 4 tiny_geometry 73 16 0 0 = 0"
  "cell 4 tiny_geometry 73 16 0 8 = 0" "cell 4 tiny_geometry 73 16 0 12 = 0"
  "cell 4 tiny_geometry 73 8 0 0 = 0" "cell 4 tiny_geometry 73 8 0 4 = 0"
  by code_simp+

lemma tiny_lane_ok: "geometry_lane_ok tiny_geometry tiny_lane"
proof -
  have "u32_at tiny_bytes 89 = 0" "u32_at tiny_bytes 69 = 0" "u32_at tiny_bytes 93 = 0"
    "u32_at tiny_bytes 97 = 1" by code_simp+
  then show ?thesis
    by (simp add: geometry_lane_ok_def lane_ok_def term_rows_ok_def tiny_simps tiny_lane_def
        references_ok_def row_at_def sd_end_def tiny_length)
qed

lemma tiny_geometry_ok: "geometry_ok tiny_geometry"
proof -
  have one: "i < 1 \<longleftrightarrow> i = 0" for i :: nat by auto
  have "cell 4 tiny_geometry 61 4 i 0 \<le> cell 4 tiny_geometry 61 4 j 0" if "i \<le> j" "j \<le> 1" for i j
  proof -
    from that have "i = j \<or> i = 0 \<and> j = 1" by auto
    with tiny_cells(1) show ?thesis by auto
  qed
  then have "csr_base_ok tiny_geometry 61 69"
    unfolding csr_base_ok_def tiny_simps one_add_one one
    using tiny_cells(2,3) by (simp add: table_fits_def tiny_simps tiny_length del: One_nat_def)
  moreover have "strings_ok tiny_geometry" "nodes_ok tiny_geometry" "edges_ok tiny_geometry"
    "provenance_ok tiny_geometry" "sources_ok tiny_geometry" "metadata_ok tiny_geometry"
    unfolding strings_ok_def nodes_ok_def edges_ok_def provenance_ok_def sources_ok_def metadata_ok_def
      tiny_simps one string_begin_def string_end_def optional_reference_def table_fits_def
    using tiny_cells tiny_length by (simp_all del: One_nat_def)
  ultimately show ?thesis using tiny_lane_ok by (simp add: geometry_ok_def tiny_simps limits)
qed

end
