(* ===== verification/Reader_Names.thy ===== *)
theory Reader_Names
  imports Reader_Geometry
begin

text \<open>
  runtime-index/reader-names.ts: whether a node is named exactly so, answered by byte
  comparison against the string blob. A loop that scans backwards for a byte is a search
  of the reversed index range; \<open>-1\<close> is the option \<open>None\<close>. The predicate is proved equal
  to a declarative one on the node's label and path: the label, the part after the last
  slash, or that part before its last dot.
\<close>

section \<open>Definitions\<close>

definition SLASH :: byte where "SLASH = 0x2f"
definition DOT :: byte where "DOT = 0x2e"

definition contextIndexNameProbe :: "js_string \<Rightarrow> bytes" where
  "contextIndexNameProbe name = text_encode name"

definition stringStart :: "ContextIndexGeometry \<Rightarrow> nat \<Rightarrow> nat res" where
  "stringStart g sid =
    (if sid = 0 then Inr 0 else get_u32 (g_bytes g) (g_stringIndexBase g + (sid - 1) * 4))"

definition stringEnd :: "ContextIndexGeometry \<Rightarrow> nat \<Rightarrow> nat res" where
  "stringEnd g sid = get_u32 (g_bytes g) (g_stringIndexBase g + sid * 4)"

text \<open>An element of a \<open>Uint8Array\<close>, \<open>undefined\<close> outside it.\<close>

definition byteAt :: "ContextIndexGeometry \<Rightarrow> nat \<Rightarrow> byte option" where
  "byteAt g i = (if i < length (g_bytes g) then Some (g_bytes g ! i) else None)"

definition blobEquals :: "ContextIndexGeometry \<Rightarrow> nat \<Rightarrow> nat \<Rightarrow> bytes \<Rightarrow> bool" where
  "blobEquals g start end' probe =
    (if int end' - int start \<noteq> int (length probe) then False
     else let base = g_stringBlobBase g + start in
       list_all (\<lambda>index. byteAt g (base + index) = Some (probe ! index)) [0..<length probe])"

definition basenameStart :: "ContextIndexGeometry \<Rightarrow> nat \<Rightarrow> nat \<Rightarrow> nat" where
  "basenameStart g start end' =
    (case find (\<lambda>index. byteAt g (g_stringBlobBase g + index) = Some SLASH) (rev [start..<end']) of
       Some index \<Rightarrow> index + 1
     | None \<Rightarrow> start)"

definition stemEnd :: "ContextIndexGeometry \<Rightarrow> nat \<Rightarrow> nat \<Rightarrow> nat option" where
  "stemEnd g from end' =
     find (\<lambda>index. byteAt g (g_stringBlobBase g + index) = Some DOT) (rev [from + 1..<end'])"

definition nodeHasNameAt :: "ContextIndexGeometry \<Rightarrow> nat \<Rightarrow> bytes \<Rightarrow> bool res" where
  "nodeHasNameAt g rowAt probe =
    (if probe = [] then Inr False else
     rbind (get_u32 (g_bytes g) (rowAt + NODE_LABEL_AT)) (\<lambda>labelId.
     rbind (stringStart g labelId) (\<lambda>labelStart.
     rbind (stringEnd g labelId) (\<lambda>labelEnd.
     if blobEquals g labelStart labelEnd probe then Inr True else
     rbind (get_u32 (g_bytes g) (rowAt + NODE_PATH_AT)) (\<lambda>pathId.
     if pathId = CONTEXT_INDEX_NO_VALUE then Inr False else
     rbind (stringStart g pathId) (\<lambda>start.
     rbind (stringEnd g pathId) (\<lambda>end'.
     let nameAt = basenameStart g start end' in
     if blobEquals g nameAt end' probe then Inr True else
     (case stemEnd g nameAt end' of
        None \<Rightarrow> Inr False
      | Some stem \<Rightarrow> Inr (stem > nameAt \<and> blobEquals g nameAt stem probe)))))))))"

section \<open>Specification\<close>

definition string_bytes :: "ContextIndexGeometry \<Rightarrow> nat \<Rightarrow> bytes" where
  "string_bytes g i = bslice (g_bytes g) (g_stringBlobBase g + string_begin g i)
     (g_stringBlobBase g + string_end g i)"

definition is_basename :: "bytes \<Rightarrow> bytes \<Rightarrow> bool" where
  "is_basename path name \<longleftrightarrow>
     SLASH \<notin> set name \<and> (path = name \<or> (\<exists>dir. path = dir @ SLASH # name))"

definition is_stem :: "bytes \<Rightarrow> bytes \<Rightarrow> bool" where
  "is_stem name stem \<longleftrightarrow> stem \<noteq> [] \<and> (\<exists>ext. name = stem @ DOT # ext \<and> DOT \<notin> set ext)"

definition node_named :: "ContextIndexGeometry \<Rightarrow> nat \<Rightarrow> bytes \<Rightarrow> bool" where
  "node_named g node probe \<longleftrightarrow> probe \<noteq> [] \<and>
     (string_bytes g (cell 4 g (g_nodeBase g) 40 node 12) = probe
      \<or> (let p = cell 4 g (g_nodeBase g) 40 node 16 in p \<noteq> CONTEXT_INDEX_NO_VALUE
          \<and> (\<exists>name. is_basename (string_bytes g p) name \<and> (name = probe \<or> is_stem name probe))))"

section \<open>Byte scans\<close>

lemma string_reads:
  assumes "strings_ok g" "i < g_stringCount g"
  shows "stringStart g i = Inr (string_begin g i)" "stringEnd g i = Inr (string_end g i)"
    "string_begin g i \<le> string_end g i" "g_stringBlobBase g + string_end g i \<le> length (g_bytes g)"
proof -
  have fits: "table_fits g (g_stringIndexBase g) (g_stringCount g) 4" using assms(1) by (simp add: strings_ok_def)
  show "stringEnd g i = Inr (string_end g i)"
    using cell_read0 [OF fits assms(2)] by (simp add: stringEnd_def string_end_def)
  show "stringStart g i = Inr (string_begin g i)"
    using cell_read0 [OF fits, of "i - 1" 4] assms(2)
    by (simp add: stringStart_def string_begin_def string_end_def)
  show "string_begin g i \<le> string_end g i" "g_stringBlobBase g + string_end g i \<le> length (g_bytes g)"
    using assms unfolding strings_ok_def by blast+
qed

lemma stringAt_bytes:
  assumes "strings_ok g" "i < g_stringCount g"
  shows "stringAt g i = text_decode (string_bytes g i)"
  using string_reads [OF assms]
  by (simp add: stringAt_def stringStart_def stringEnd_def string_bytes_def)

text \<open>The blob between two positions, and its bytes.\<close>

definition blob :: "ContextIndexGeometry \<Rightarrow> nat \<Rightarrow> nat \<Rightarrow> bytes" where
  "blob g s e = bslice (g_bytes g) (g_stringBlobBase g + s) (g_stringBlobBase g + e)"

lemma length_blob:
  "g_stringBlobBase g + e \<le> length (g_bytes g) \<Longrightarrow> length (blob g s e) = e - s"
  by (simp add: blob_def)

lemma nth_blob:
  "g_stringBlobBase g + e \<le> length (g_bytes g) \<Longrightarrow> s + k < e \<Longrightarrow>
     byteAt g (g_stringBlobBase g + s + k) = Some (blob g s e ! k)"
  by (simp add: blob_def bslice_def byteAt_def ac_simps)

lemma blob_split:
  "s \<le> m \<Longrightarrow> m \<le> e \<Longrightarrow> blob g s e = blob g s m @ blob g m e"
  by (simp add: blob_def bslice_split [symmetric])

lemma blob_cons:
  assumes "g_stringBlobBase g + e \<le> length (g_bytes g)" "i < e" "byteAt g (g_stringBlobBase g + i) = Some c"
  shows "blob g i e = c # blob g (i + 1) e"
proof -
  have "length (blob g i (i + 1)) = 1" using assms by (simp add: length_blob)
  moreover have "blob g i (i + 1) ! 0 = c" using nth_blob [of g "i + 1" i 0] assms by simp
  ultimately have "blob g i (i + 1) = [c]" by (cases "blob g i (i + 1)") auto
  with blob_split [of i "i + 1" e g] assms(2) show ?thesis by simp
qed

lemma blobEquals_iff:
  assumes "g_stringBlobBase g + e \<le> length (g_bytes g)" "s \<le> e"
  shows "blobEquals g s e probe \<longleftrightarrow> blob g s e = probe"
proof (cases "int e - int s = int (length probe)")
  case False
  then show ?thesis using length_blob [OF assms(1), of s] assms(2) by (auto simp: blobEquals_def)
next
  case True
  then have len: "length probe = e - s" using assms(2) by linarith
  have "byteAt g (g_stringBlobBase g + s + k) = Some (blob g s e ! k)" if "k < length probe" for k
    using nth_blob [OF assms(1), of s k] that len by simp
  then have "blobEquals g s e probe \<longleftrightarrow> (\<forall>k < length probe. blob g s e ! k = probe ! k)"
    using True by (auto simp: blobEquals_def list_all_length)
  also have "\<dots> \<longleftrightarrow> blob g s e = probe"
    using len length_blob [OF assms(1), of s] by (auto simp: list_eq_iff_nth_eq)
  finally show ?thesis .
qed

lemma find_rev_Some:
  "find P (rev [s..<e]) = Some i \<Longrightarrow> s \<le> i \<and> i < e \<and> P i \<and> (\<forall>j. i < j \<longrightarrow> j < e \<longrightarrow> \<not> P j)"
proof (induction e)
  case (Suc e)
  then show ?case by (cases "s \<le> e") (auto split: if_splits simp: less_Suc_eq)
qed simp

lemma find_rev_None: "find P (rev [s..<e]) = None \<Longrightarrow> s \<le> j \<Longrightarrow> j < e \<Longrightarrow> \<not> P j"
  by (auto simp: find_None_iff)

lemma blob_no_byte:
  assumes "g_stringBlobBase g + e \<le> length (g_bytes g)"
    and "\<forall>j. s \<le> j \<longrightarrow> j < e \<longrightarrow> byteAt g (g_stringBlobBase g + j) \<noteq> Some c"
  shows "c \<notin> set (blob g s e)"
proof
  assume "c \<in> set (blob g s e)"
  then obtain k where k: "k < e - s" "blob g s e ! k = c"
    using length_blob [OF assms(1)] by (auto simp: in_set_conv_nth)
  then have lt: "s + k < e" by simp
  with nth_blob [OF assms(1), of s k] k(2) have "byteAt g (g_stringBlobBase g + (s + k)) = Some c"
    by (simp add: add.assoc)
  with assms(2) lt show False by simp
qed

lemma basename_unique:
  "is_basename path name \<Longrightarrow> name = rev (takeWhile (\<lambda>b. b \<noteq> SLASH) (rev path))"
proof -
  assume base: "is_basename path name"
  then have "SLASH \<notin> set (rev name)" by (auto simp: is_basename_def)
  moreover from base have "rev path = rev name \<or> (\<exists>dir. rev path = rev name @ SLASH # dir)"
    by (auto simp: is_basename_def)
  ultimately have "takeWhile (\<lambda>b. b \<noteq> SLASH) (rev path) = rev name"
    by (auto simp del: set_rev simp: takeWhile_stop takeWhile_eq_all_conv)
  then show ?thesis by simp
qed

lemma stem_unique: "is_stem name stem \<Longrightarrow> stem = rev (tl (dropWhile (\<lambda>b. b \<noteq> DOT) (rev name)))"
proof -
  assume "is_stem name stem"
  then obtain ext where e: "name = stem @ DOT # ext" "DOT \<notin> set ext" by (auto simp: is_stem_def)
  then have "dropWhile (\<lambda>b. b \<noteq> DOT) (rev name) = DOT # rev stem"
    by (simp add: dropWhile_stop)
  then show ?thesis by simp
qed

lemma basenameStart_spec:
  assumes "g_stringBlobBase g + e \<le> length (g_bytes g)" "s \<le> e"
  shows "is_basename (blob g s e) (blob g (basenameStart g s e) e)"
    "s \<le> basenameStart g s e" "basenameStart g s e \<le> e"
proof -
  let ?P = "\<lambda>index. byteAt g (g_stringBlobBase g + index) = Some SLASH"
  have "is_basename (blob g s e) (blob g (basenameStart g s e) e)
      \<and> s \<le> basenameStart g s e \<and> basenameStart g s e \<le> e"
  proof (cases "find ?P (rev [s..<e])")
    case None
    have "SLASH \<notin> set (blob g s e)"
      using blob_no_byte [OF assms(1)] find_rev_None [OF None] by blast
    with None assms(2) show ?thesis by (simp add: basenameStart_def is_basename_def)
  next
    case (Some i)
    from find_rev_Some [OF this] have i: "s \<le> i" "i < e" "?P i" "\<forall>j. i < j \<longrightarrow> j < e \<longrightarrow> \<not> ?P j" by auto
    have "SLASH \<notin> set (blob g (i + 1) e)" using i(4) by (intro blob_no_byte [OF assms(1)]) auto
    moreover have "blob g s e = blob g s i @ SLASH # blob g (i + 1) e"
      using blob_split [of s i e g] i blob_cons [OF assms(1) i(2,3)] by simp
    ultimately show ?thesis using Some i by (auto simp: basenameStart_def is_basename_def)
  qed
  then show "is_basename (blob g s e) (blob g (basenameStart g s e) e)"
    "s \<le> basenameStart g s e" "basenameStart g s e \<le> e" by auto
qed

lemma stemEnd_Some:
  assumes "g_stringBlobBase g + e \<le> length (g_bytes g)" "stemEnd g s e = Some i"
  shows "s < i" "i < e" "is_stem (blob g s e) (blob g s i)"
proof -
  from find_rev_Some [OF assms(2) [unfolded stemEnd_def]]
  have i: "s + 1 \<le> i" "i < e" "byteAt g (g_stringBlobBase g + i) = Some DOT"
    "\<forall>j. i < j \<longrightarrow> j < e \<longrightarrow> byteAt g (g_stringBlobBase g + j) \<noteq> Some DOT" by auto
  then show "s < i" "i < e" by auto
  have "DOT \<notin> set (blob g (i + 1) e)" using i(4) by (intro blob_no_byte [OF assms(1)]) auto
  moreover have "blob g s e = blob g s i @ DOT # blob g (i + 1) e"
    using blob_split [of s i e g] i blob_cons [OF assms(1) i(2,3)] by simp
  moreover have "length (blob g s i) = i - s" using assms(1) i(2) by (intro length_blob) simp
  then have "blob g s i \<noteq> []" using i(1) by auto
  ultimately show "is_stem (blob g s e) (blob g s i)" by (auto simp: is_stem_def)
qed

lemma stemEnd_None:
  assumes "g_stringBlobBase g + e \<le> length (g_bytes g)" "s \<le> e" "stemEnd g s e = None"
  shows "\<not> is_stem (blob g s e) stem"
proof
  assume "is_stem (blob g s e) stem"
  then obtain ext where st: "stem \<noteq> []" "blob g s e = stem @ DOT # ext" by (auto simp: is_stem_def)
  then have len: "length stem < e - s" using length_blob [OF assms(1), of s] by simp
  have "byteAt g (g_stringBlobBase g + (s + length stem)) = Some DOT"
    using nth_blob [OF assms(1), of s "length stem"] len st(2) by (simp add: add.assoc)
  moreover have "s + 1 \<le> s + length stem" "s + length stem < e"
    using st(1) len by (auto simp: Suc_le_eq)
  ultimately show False
    using find_rev_None [OF assms(3) [unfolded stemEnd_def], of "s + length stem"] by simp
qed

lemma string_bytes_blob: "string_bytes g i = blob g (string_begin g i) (string_end g i)"
  by (simp add: string_bytes_def blob_def)

lemma node_name_iff:
  assumes ok: "geometry_ok g" and node: "node < g_nodeCount g"
  shows "nodeHasNameAt g (g_nodeBase g + node * 40) probe = Inr (node_named g node probe)"
proof (cases "probe = []")
  case True
  then show ?thesis by (simp add: nodeHasNameAt_def node_named_def)
next
  case False
  from ok have str: "strings_ok g" and nodes: "nodes_ok g" by (simp_all add: geometry_ok_def)
  from nodes have fits: "table_fits g (g_nodeBase g) (g_nodeCount g) 40" by (simp add: nodes_ok_def)
  define l where "l = cell 4 g (g_nodeBase g) 40 node 12"
  define p where "p = cell 4 g (g_nodeBase g) 40 node 16"
  have rd: "get_u32 (g_bytes g) (g_nodeBase g + node * 40 + 12) = Inr l"
    "get_u32 (g_bytes g) (g_nodeBase g + node * 40 + 16) = Inr p"
    unfolding l_def p_def by (rule cell_read [OF fits node]; simp)+
  have l: "l < g_stringCount g" and p: "p = CONTEXT_INDEX_NO_VALUE \<or> p < g_stringCount g"
    using nodes node by (auto simp: nodes_ok_def l_def p_def optional_reference_def)
  note ls = string_reads [OF str l]
  have label: "blobEquals g (string_begin g l) (string_end g l) probe \<longleftrightarrow> string_bytes g l = probe"
    using blobEquals_iff [OF ls(4,3)] by (simp add: string_bytes_blob)
  have named: "node_named g node probe \<longleftrightarrow> string_bytes g l = probe \<or> (p \<noteq> CONTEXT_INDEX_NO_VALUE
      \<and> (\<exists>name. is_basename (string_bytes g p) name \<and> (name = probe \<or> is_stem name probe)))"
    using False by (simp add: node_named_def l_def p_def Let_def)
  show ?thesis
  proof (cases "string_bytes g l = probe \<or> p = CONTEXT_INDEX_NO_VALUE")
    case True
    then show ?thesis
      using False ls rd label named by (auto simp: nodeHasNameAt_def rows)
  next
    case neither: False
    with p have plt: "p < g_stringCount g" by simp
    note ps = string_reads [OF str plt]
    let ?e = "string_end g p"
    define n where "n = basenameStart g (string_begin g p) ?e"
    from basenameStart_spec [OF ps(4,3)]
    have base: "is_basename (string_bytes g p) (blob g n ?e)" and n: "n \<le> ?e"
      by (simp_all add: n_def string_bytes_blob)
    have only: "is_basename (string_bytes g p) name \<longleftrightarrow> name = blob g n ?e" for name
      using base basename_unique by metis
    have code: "nodeHasNameAt g (g_nodeBase g + node * 40) probe
        = (if blob g n ?e = probe then Inr True
           else case stemEnd g n ?e of None \<Rightarrow> Inr False
             | Some stem \<Rightarrow> Inr (stem > n \<and> blobEquals g n stem probe))"
      using False neither ls ps rd label blobEquals_iff [OF ps(4) n]
      by (simp add: nodeHasNameAt_def rows n_def [symmetric] Let_def cong: option.case_cong)
    have "(case stemEnd g n ?e of None \<Rightarrow> Inr False
             | Some stem \<Rightarrow> Inr (stem > n \<and> blobEquals g n stem probe))
        = (Inr (is_stem (blob g n ?e) probe) :: bool res)"
    proof (cases "stemEnd g n ?e")
      case None
      then show ?thesis using stemEnd_None [OF ps(4) n None] by simp
    next
      case (Some i)
      note st = stemEnd_Some [OF ps(4) Some]
      have "blobEquals g n i probe \<longleftrightarrow> blob g n i = probe" using st ps(4) by (intro blobEquals_iff) auto
      also have "\<dots> \<longleftrightarrow> is_stem (blob g n ?e) probe" using st(3) stem_unique by metis
      finally show ?thesis using Some st(1) by simp
    qed
    with code named neither only show ?thesis by auto
  qed
qed

text \<open>
  The name predicate is exact: for a live node of an opened index it never throws and
  holds exactly when the probe is non-empty and equals the bytes of the node's label, of its
  path's basename, or of that basename without its final extension; a dotfile has no stem.
\<close>

theorem node_name_exact:
  assumes "geometry_ok g" and "node < g_nodeCount g"
  shows "nodeHasNameAt g (g_nodeBase g + node * 40) (contextIndexNameProbe name)
     = Inr (node_named g node (text_encode name))"
  unfolding contextIndexNameProbe_def by (rule node_name_iff [OF assms])

theorem node_name_exact_witness:
  "nodeHasNameAt tiny_geometry (g_nodeBase tiny_geometry + 0 * 40) (contextIndexNameProbe (js ''a''))
     = Inr (node_named tiny_geometry 0 (text_encode (js ''a'')))"
  by (rule node_name_exact) (simp_all add: tiny_geometry_ok tiny_simps)

end
