(* ===== verification/Reader_Hydrate.thy ===== *)
theory Reader_Hydrate
  imports Reader_Names
begin

text \<open>
  runtime-index/reader-hydrate.ts: whole-object views of selected nodes and edges, their
  metadata, their provenance and the source hashes.

  An optional property of a view is an option. Metadata is built in an ordinary object, by
  assignments of which one to \<open>__proto__\<close> does not make a property; it is proved to be the
  fold, in file order, of exactly the rows of the node, and to invert the cells the writer
  makes of a value. Indexing a code table out of range, which would
  give \<open>undefined\<close>, is an error of the model that validated files never reach.
\<close>

section \<open>Views\<close>

record ProvenanceView =
  pv_path :: js_string
  pv_line :: "nat option"
  pv_hash :: js_string
  pv_extractor :: "js_string option"

type_synonym 'n metadata_map = "js_string \<rightharpoonup> 'n ContextGraphMetadataValue"

record 'n ContextGraphNodeView =
  nv_node :: nat
  nv_id :: js_string
  nv_kind :: ContextGraphNodeKind
  nv_label :: js_string
  nv_path :: "js_string option"
  nv_line :: "nat option"
  nv_column :: "nat option"
  nv_contentHash :: "js_string option"
  nv_trust :: rat
  nv_freshness :: ContextGraphFreshness
  nv_risk :: ContextGraphRisk
  nv_tokenCost :: nat
  nv_flags :: nat
  nv_group :: nat
  nv_metadata :: "'n metadata_map"

record ContextGraphEdgeView =
  ev_edge :: nat
  ev_target :: nat
  ev_type :: ContextGraphEdgeType
  ev_confidence :: ContextGraphEdgeConfidence
  ev_flags :: nat
  ev_profileMask :: nat
  ev_provenance :: ProvenanceView

record ContextIndexSourceHash =
  sh_path :: js_string
  sh_hash :: js_string

definition decode_code :: "'a list \<Rightarrow> nat \<Rightarrow> 'a res" where
  "decode_code codes i = (if i < length codes then Inr (codes ! i) else Inl (Plain_error ''undefined''))"

definition optional_string :: "ContextIndexGeometry \<Rightarrow> nat \<Rightarrow> js_string option res" where
  "optional_string g sid = (if sid = CONTEXT_INDEX_NO_VALUE then Inr None
     else rbind (stringAt g sid) (\<lambda>s. Inr (Some s)))"

definition optional_number :: "nat \<Rightarrow> nat option" where
  "optional_number n = (if n = CONTEXT_INDEX_NO_VALUE then None else Some n)"

section \<open>Metadata\<close>

function meta_search :: "ContextIndexGeometry \<Rightarrow> nat \<Rightarrow> int \<Rightarrow> int \<Rightarrow> int \<Rightarrow> int res" where
  "meta_search g node low high first =
    (if low \<le> high then
       (let mid = (low + high) div 2 in
        rbind (get_u32 (g_bytes g) (g_metadataBase g
                 + nat mid * CONTEXT_INDEX_METADATA_ROW_BYTES + METADATA_NODE_AT)) (\<lambda>probe.
        if probe \<ge> node
        then meta_search g node low (mid - 1) (if probe = node then mid else first)
        else meta_search g node (mid + 1) high first))
     else Inr first)"
  by pat_completeness auto
termination
  by (relation "measure (\<lambda>(_, _, low, high, _). nat (high - low + 1))") auto

declare meta_search.simps [simp del]

text \<open>
  The object \<open>metadata\<close> starts as is the literal \<open>{}\<close>: its own properties, and whether its prototype
  has been set to null. While it has a prototype, an assignment to \<open>__proto__\<close> reaches the inherited
  accessor: an array becomes the prototype, null removes it, and a string, number or boolean is
  ignored. No prototype reached in this way holds an array under another key.
\<close>

record 'n MetadataObject =
  mo_own :: "'n metadata_map"
  mo_bare :: bool

definition object_literal :: "'n MetadataObject" where
  "object_literal = \<lparr>mo_own = Map.empty, mo_bare = False\<rparr>"

definition object_assign ::
  "'n MetadataObject \<Rightarrow> js_string \<Rightarrow> 'n ContextGraphMetadataValue \<Rightarrow> 'n MetadataObject" where
  "object_assign metadata key value =
    (if key = js ''__proto__'' \<and> \<not> mo_bare metadata
     then metadata\<lparr>mo_bare := (case value of Meta_null \<Rightarrow> True | _ \<Rightarrow> False)\<rparr>
     else metadata\<lparr>mo_own := (mo_own metadata)(key \<mapsto> value)\<rparr>)"

definition meta_put ::
  "(js_string \<Rightarrow> 'n) \<Rightarrow> 'n MetadataObject \<Rightarrow> js_string \<Rightarrow> nat \<Rightarrow> js_string \<Rightarrow> 'n MetadataObject" where
  "meta_put toNumber metadata key type text =
    (if type = TYPE_ARRAY_EMPTY then object_assign metadata key (Meta_array [])
     else if type = TYPE_ARRAY_ELEMENT then
       (case mo_own metadata key of
          Some (Meta_array run) \<Rightarrow> metadata\<lparr>mo_own := (mo_own metadata)(key \<mapsto> Meta_array (run @ [text]))\<rparr>
        | _ \<Rightarrow> object_assign metadata key (Meta_array [text]))
     else object_assign metadata key (contextIndexMetadataValue toNumber type text))"

definition meta_entry :: "ContextIndexGeometry \<Rightarrow> nat \<Rightarrow> (js_string \<times> nat \<times> js_string) res" where
  "meta_entry g row =
    (let pos = g_metadataBase g + row * CONTEXT_INDEX_METADATA_ROW_BYTES in
     rbind (get_u32 (g_bytes g) (pos + METADATA_KEY_AT)) (\<lambda>keyId.
     rbind (stringAt g keyId) (\<lambda>key.
     rbind (get_u16 (g_bytes g) (pos + METADATA_TYPE_AT)) (\<lambda>type.
     rbind (get_u32 (g_bytes g) (pos + METADATA_VALUE_AT)) (\<lambda>valueId.
     rbind (stringAt g valueId) (\<lambda>text.
     Inr (key, type, text)))))))"

fun meta_rows ::
  "(js_string \<Rightarrow> 'n) \<Rightarrow> ContextIndexGeometry \<Rightarrow> nat \<Rightarrow> nat list \<Rightarrow> 'n MetadataObject
     \<Rightarrow> 'n MetadataObject res" where
  "meta_rows toNumber g node [] metadata = Inr metadata"
| "meta_rows toNumber g node (row # rs) metadata =
    rbind (get_u32 (g_bytes g) (g_metadataBase g
             + row * CONTEXT_INDEX_METADATA_ROW_BYTES + METADATA_NODE_AT)) (\<lambda>n.
    if n \<noteq> node then Inr metadata else
    rbind (meta_entry g row) (\<lambda>(key, type, text).
    meta_rows toNumber g node rs (meta_put toNumber metadata key type text)))"

definition metadataOf ::
  "(js_string \<Rightarrow> 'n) \<Rightarrow> ContextIndexGeometry \<Rightarrow> nat \<Rightarrow> 'n metadata_map res" where
  "metadataOf toNumber g node =
    rbind (meta_search g node 0 (int (g_metadataCount g) - 1) (- 1)) (\<lambda>first.
    if first < 0 then Inr (mo_own object_literal)
    else rbind (meta_rows toNumber g node [nat first..<g_metadataCount g] object_literal) (\<lambda>metadata.
      Inr (mo_own metadata)))"

section \<open>Hydration\<close>

definition hydrateNodeAt ::
  "(js_string \<Rightarrow> 'n) \<Rightarrow> ContextIndexGeometry \<Rightarrow> nat \<Rightarrow> nat \<Rightarrow> 'n ContextGraphNodeView res" where
  "hydrateNodeAt toNumber g node pos =
    rbind (get_u32 (g_bytes g) (pos + NODE_PATH_AT)) (\<lambda>pathId.
    rbind (get_u32 (g_bytes g) (pos + NODE_LINE_AT)) (\<lambda>line.
    rbind (get_u32 (g_bytes g) (pos + NODE_COLUMN_AT)) (\<lambda>column.
    rbind (get_u32 (g_bytes g) (pos + NODE_CONTENT_HASH_AT)) (\<lambda>contentHashId.
    rbind (get_u32 (g_bytes g) (pos + NODE_ID_AT)) (\<lambda>nodeId.
    rbind (stringAt g nodeId) (\<lambda>idText.
    rbind (get_u8 (g_bytes g) (pos + NODE_KIND_AT)) (\<lambda>kindCode.
    rbind (decode_code CONTEXT_GRAPH_NODE_KINDS kindCode) (\<lambda>kind.
    rbind (get_u32 (g_bytes g) (pos + NODE_LABEL_AT)) (\<lambda>labelId.
    rbind (stringAt g labelId) (\<lambda>label.
    rbind (optional_string g pathId) (\<lambda>path.
    rbind (optional_string g contentHashId) (\<lambda>contentHash.
    rbind (get_u16 (g_bytes g) (pos + NODE_TRUST_AT)) (\<lambda>trust.
    rbind (get_u8 (g_bytes g) (pos + NODE_FRESHNESS_AT)) (\<lambda>freshnessCode.
    rbind (decode_code FRESHNESS_CODES freshnessCode) (\<lambda>freshness.
    rbind (get_u8 (g_bytes g) (pos + NODE_RISK_AT)) (\<lambda>riskCode.
    rbind (decode_code RISK_CODES riskCode) (\<lambda>risk.
    rbind (get_u32 (g_bytes g) (pos + NODE_TOKEN_COST_AT)) (\<lambda>tokenCost.
    rbind (get_u8 (g_bytes g) (pos + NODE_FLAGS_AT)) (\<lambda>flags.
    rbind (get_u32 (g_bytes g) (pos + NODE_GROUP_AT)) (\<lambda>group.
    rbind (metadataOf toNumber g node) (\<lambda>metadata.
    Inr \<lparr>nv_node = node, nv_id = idText, nv_kind = kind, nv_label = label, nv_path = path,
         nv_line = optional_number line, nv_column = optional_number column,
         nv_contentHash = contentHash, nv_trust = dequantizeTrust (int trust),
         nv_freshness = freshness, nv_risk = risk, nv_tokenCost = tokenCost,
         nv_flags = flags, nv_group = group, nv_metadata = metadata\<rparr>)))))))))))))))))))))"

definition provenanceAt :: "ContextIndexGeometry \<Rightarrow> nat \<Rightarrow> ProvenanceView res" where
  "provenanceAt g row =
    (let pos = g_provenanceBase g + row * CONTEXT_INDEX_PROVENANCE_ROW_BYTES in
     rbind (get_u32 (g_bytes g) (pos + PROVENANCE_LINE_AT)) (\<lambda>line.
     rbind (get_u32 (g_bytes g) (pos + PROVENANCE_PATH_AT)) (\<lambda>pathId.
     rbind (stringAt g pathId) (\<lambda>path.
     rbind (get_u32 (g_bytes g) (pos + PROVENANCE_HASH_AT)) (\<lambda>hashId.
     rbind (stringAt g hashId) (\<lambda>hash.
     rbind (get_u32 (g_bytes g) (pos + PROVENANCE_EXTRACTOR_AT)) (\<lambda>extractorId.
     rbind (stringAt g extractorId) (\<lambda>extractor.
     Inr \<lparr>pv_path = path, pv_line = optional_number line, pv_hash = hash,
          pv_extractor = Some extractor\<rparr>))))))))"

definition hydrateEdgeAt :: "ContextIndexGeometry \<Rightarrow> nat \<Rightarrow> ContextGraphEdgeView res" where
  "hydrateEdgeAt g edge =
    (let pos = g_edgeBase g + edge * CONTEXT_INDEX_EDGE_ROW_BYTES in
     rbind (get_u32 (g_bytes g) (pos + EDGE_TARGET_AT)) (\<lambda>target.
     rbind (get_u8 (g_bytes g) (pos + EDGE_TYPE_AT)) (\<lambda>typeCode.
     rbind (decode_code CONTEXT_GRAPH_EDGE_TYPES typeCode) (\<lambda>type.
     rbind (get_u8 (g_bytes g) (pos + EDGE_CONFIDENCE_AT)) (\<lambda>confidenceCode.
     rbind (decode_code CONFIDENCE_CODES confidenceCode) (\<lambda>confidence.
     rbind (get_u16 (g_bytes g) (pos + EDGE_FLAGS_AT)) (\<lambda>flags.
     rbind (get_u16 (g_bytes g) (pos + EDGE_PROFILE_MASK_AT)) (\<lambda>profiles.
     rbind (get_u32 (g_bytes g) (pos + EDGE_PROVENANCE_AT)) (\<lambda>row.
     rbind (provenanceAt g row) (\<lambda>provenance.
     Inr \<lparr>ev_edge = edge, ev_target = target, ev_type = type, ev_confidence = confidence,
          ev_flags = flags, ev_profileMask = profiles, ev_provenance = provenance\<rparr>))))))))))"

definition own_source :: "ContextIndexGeometry \<Rightarrow> nat \<Rightarrow> ProvenanceView list res" where
  "own_source g nodeRowAt =
    rbind (get_u32 (g_bytes g) (nodeRowAt + NODE_PATH_AT)) (\<lambda>pathId.
    rbind (get_u32 (g_bytes g) (nodeRowAt + NODE_CONTENT_HASH_AT)) (\<lambda>contentHashId.
    if pathId \<noteq> CONTEXT_INDEX_NO_VALUE \<and> contentHashId \<noteq> CONTEXT_INDEX_NO_VALUE then
      rbind (get_u32 (g_bytes g) (nodeRowAt + NODE_LINE_AT)) (\<lambda>line.
      rbind (stringAt g pathId) (\<lambda>path.
      rbind (stringAt g contentHashId) (\<lambda>hash.
      Inr [\<lparr>pv_path = path, pv_line = optional_number line, pv_hash = hash,
            pv_extractor = None\<rparr>])))
    else Inr []))"

fun edge_provenances ::
  "ContextIndexGeometry \<Rightarrow> (int \<Rightarrow> unit res) \<Rightarrow> nat set \<Rightarrow> int list \<Rightarrow> ProvenanceView list res" where
  "edge_provenances g requireEdge seen [] = Inr []"
| "edge_provenances g requireEdge seen (edge # es) =
    rbind (requireEdge edge) (\<lambda>_.
    rbind (get_u32 (g_bytes g) (g_edgeBase g + nat edge * CONTEXT_INDEX_EDGE_ROW_BYTES
             + EDGE_PROVENANCE_AT)) (\<lambda>row.
    if row \<in> seen then edge_provenances g requireEdge seen es else
    rbind (provenanceAt g row) (\<lambda>view.
    rbind (edge_provenances g requireEdge (insert row seen) es) (\<lambda>views.
    Inr (view # views)))))"

definition provenanceOf ::
  "ContextIndexGeometry \<Rightarrow> nat \<Rightarrow> int list \<Rightarrow> (int \<Rightarrow> unit res) \<Rightarrow> ProvenanceView list res" where
  "provenanceOf g nodeRowAt parentEdges requireEdge =
    rbind (own_source g nodeRowAt) (\<lambda>own.
    rbind (edge_provenances g requireEdge {} parentEdges) (\<lambda>views.
    Inr (own @ views)))"

definition sourceHashesOf :: "ContextIndexGeometry \<Rightarrow> ContextIndexSourceHash list res" where
  "sourceHashesOf g = map_res (\<lambda>row.
     let pos = g_sourceHashBase g + row * CONTEXT_INDEX_SOURCE_HASH_ROW_BYTES in
     rbind (get_u32 (g_bytes g) (pos + SOURCE_HASH_PATH_AT)) (\<lambda>pathId.
     rbind (stringAt g pathId) (\<lambda>path.
     rbind (get_u32 (g_bytes g) (pos + SOURCE_HASH_HASH_AT)) (\<lambda>hashId.
     rbind (stringAt g hashId) (\<lambda>hash.
     Inr \<lparr>sh_path = path, sh_hash = hash\<rparr>)))))
   [0..<g_sourceHashCount g]"

section \<open>Metadata is the fold of the node's rows\<close>

definition meta_node :: "ContextIndexGeometry \<Rightarrow> nat \<Rightarrow> nat" where
  "meta_node g i = cell 4 g (g_metadataBase g) 16 i 0"

definition node_meta_rows :: "ContextIndexGeometry \<Rightarrow> nat \<Rightarrow> nat list" where
  "node_meta_rows g node = filter (\<lambda>i. meta_node g i = node) [0..<g_metadataCount g]"

lemma meta_node_read:
  assumes "metadata_ok g" "i < g_metadataCount g"
  shows "get_u32 (g_bytes g) (g_metadataBase g + i * CONTEXT_INDEX_METADATA_ROW_BYTES + METADATA_NODE_AT)
     = Inr (meta_node g i)"
  using assms cell_read(1) [of g "g_metadataBase g" "g_metadataCount g" 16 i 0 4]
  by (simp add: rows meta_node_def metadata_ok_def)

lemma meta_node_mono:
  assumes "metadata_ok g" "i \<le> j" "j < g_metadataCount g"
  shows "meta_node g i \<le> meta_node g j"
  using assms(2,3)
proof (induction j rule: dec_induct)
  case (step k)
  have "meta_node g k \<le> meta_node g (Suc k)"
    using assms(1) step.prems by (simp add: metadata_ok_def meta_node_def)
  with step show ?case by simp
qed simp

lemma meta_search_correct:
  assumes ok: "metadata_ok g" and "0 \<le> low" "high < int (g_metadataCount g)" "low \<le> high + 1"
    and "\<forall>i < g_metadataCount g. int i < low \<longrightarrow> meta_node g i < node"
    and "\<forall>i < g_metadataCount g. high < int i \<longrightarrow> node \<le> meta_node g i"
    and "if first = - 1 then \<forall>i < g_metadataCount g. high < int i \<longrightarrow> meta_node g i \<noteq> node
         else first = high + 1 \<and> nat first < g_metadataCount g \<and> meta_node g (nat first) = node"
  shows "\<exists>r. meta_search g node low high first = Inr r
    \<and> (if r < 0 then node_meta_rows g node = []
       else nat r < g_metadataCount g \<and> meta_node g (nat r) = node \<and> (\<forall>i < nat r. meta_node g i < node))"
  using assms
proof (induction g node low high first rule: meta_search.induct)
  case (1 g node low high first)
  note prems = "1.prems"
  show ?case
  proof (cases "low \<le> high")
    case False
    then have lh: "low = high + 1" using prems(4) by linarith
    have r: "meta_search g node low high first = Inr first" using False by (simp add: meta_search.simps)
    show ?thesis
    proof (cases "first = - 1")
      case True
      have "meta_node g i \<noteq> node" if "i < g_metadataCount g" for i
      proof -
        have "int i < low \<or> high < int i" using lh by linarith
        with that prems(5,7) True show ?thesis by auto
      qed
      then have "node_meta_rows g node = []" by (auto simp: node_meta_rows_def filter_empty_conv)
      with r True show ?thesis by simp
    next
      case F: False
      then have f: "first = high + 1" "nat first < g_metadataCount g" "meta_node g (nat first) = node"
        using prems(7) by (auto simp only: if_False)
      have "0 \<le> first" using f(1) lh prems(2) by simp
      moreover have "\<forall>i < nat first. meta_node g i < node" using prems(5) f lh \<open>0 \<le> first\<close> by auto
      ultimately show ?thesis using r f by simp
    qed
  next
    case True
    define mid where "mid = (low + high) div 2"
    have mid: "low \<le> mid" "mid \<le> high" using bisect_mid [OF True] by (simp_all add: mid_def)
    then have m: "nat mid < g_metadataCount g" "int (nat mid) = mid" using prems(2,3) by auto
    let ?p = "meta_node g (nat mid)"
    note rd = meta_node_read [OF prems(1) m(1)]
    have step: "meta_search g node low high first = (if ?p \<ge> node
        then meta_search g node low (mid - 1) (if ?p = node then mid else first)
        else meta_search g node (mid + 1) high first)"
      using True unfolding meta_search.simps [of g node low high first] Let_def mid_def [symmetric] rd rbind_simps
      by simp
    have mono: "i \<le> j \<Longrightarrow> j < g_metadataCount g \<Longrightarrow> meta_node g i \<le> meta_node g j" for i j
      using meta_node_mono [OF prems(1)] .
    show ?thesis
    proof (cases "?p \<ge> node")
      case ge: True
      let ?f = "if ?p = node then mid else first"
      have above: "\<forall>i < g_metadataCount g. mid - 1 < int i \<longrightarrow> node \<le> meta_node g i"
      proof (intro allI impI)
        fix i assume "i < g_metadataCount g" "mid - 1 < int i"
        then show "node \<le> meta_node g i" using mono [of "nat mid" i] ge m by auto
      qed
      have "if ?f = - 1 then \<forall>i < g_metadataCount g. mid - 1 < int i \<longrightarrow> meta_node g i \<noteq> node
         else ?f = mid - 1 + 1 \<and> nat ?f < g_metadataCount g \<and> meta_node g (nat ?f) = node"
      proof (cases "?p = node")
        case True
        then show ?thesis using m prems(2) mid by auto
      next
        case False
        with ge have gt: "node < ?p" by simp
        have none: "meta_node g i \<noteq> node" if "i < g_metadataCount g" "mid - 1 < int i" for i
          using mono [of "nat mid" i] gt m that by auto
        have "first = - 1"
        proof (rule ccontr)
          assume "first \<noteq> - 1"
          then have "first = high + 1" "nat first < g_metadataCount g" "meta_node g (nat first) = node"
            using prems(7) by (auto simp only: if_False)
          with none [of "nat first"] mid prems(2) show False by auto
        qed
        with False none show ?thesis by auto
      qed
      note inv = this
      have "\<exists>r. meta_search g node low (mid - 1) ?f = Inr r
          \<and> (if r < 0 then node_meta_rows g node = []
             else nat r < g_metadataCount g \<and> meta_node g (nat r) = node \<and> (\<forall>i < nat r. meta_node g i < node))"
      proof (rule "1.IH"(1) [OF True mid_def rd ge])
        show "mid - 1 < int (g_metadataCount g)" "low \<le> mid - 1 + 1" using mid prems(3) by simp_all
      qed (fact prems above inv)+
      with ge step show ?thesis by simp
    next
      case lt: False
      have below: "\<forall>i < g_metadataCount g. int i < mid + 1 \<longrightarrow> meta_node g i < node"
      proof (intro allI impI)
        fix i assume "i < g_metadataCount g" "int i < mid + 1"
        then show "meta_node g i < node" using mono [of i "nat mid"] lt m by fastforce
      qed
      have "\<exists>r. meta_search g node (mid + 1) high first = Inr r
          \<and> (if r < 0 then node_meta_rows g node = []
             else nat r < g_metadataCount g \<and> meta_node g (nat r) = node \<and> (\<forall>i < nat r. meta_node g i < node))"
      proof (rule "1.IH"(2) [OF True mid_def rd lt])
        show "0 \<le> mid + 1" "mid + 1 \<le> high + 1" using mid prems(2) by simp_all
      qed (fact prems below)+
      with lt step show ?thesis by simp
    qed
  qed
qed

definition put_entry :: "(js_string \<Rightarrow> 'n) \<Rightarrow> 'n MetadataObject \<Rightarrow> js_string \<times> nat \<times> js_string \<Rightarrow> 'n MetadataObject" where
  "put_entry toNumber metadata e = (case e of (key, type, text) \<Rightarrow> meta_put toNumber metadata key type text)"

lemma meta_rows_run:
  assumes "metadata_ok g" "\<forall>i \<in> set is. i < g_metadataCount g"
  shows "meta_rows toNumber g node is md =
     rbind (map_res (meta_entry g) (takeWhile (\<lambda>i. meta_node g i = node) is))
       (\<lambda>es. Inr (foldl (put_entry toNumber) md es))"
  using assms(2)
proof (induction "is" arbitrary: md)
  case (Cons row rs)
  have rd: "get_u32 (g_bytes g) (g_metadataBase g + row * CONTEXT_INDEX_METADATA_ROW_BYTES + METADATA_NODE_AT)
      = Inr (meta_node g row)"
    using Cons.prems by (intro meta_node_read [OF assms(1)]) simp
  show ?case
    unfolding meta_rows.simps rd rbind_simps
    by (cases "meta_entry g row")
      (use Cons in \<open>auto simp: put_entry_def rbind_def split: sum.splits prod.splits\<close>)
qed simp

lemma sorted_takeWhile_filter:
  assumes "metadata_ok g" "k \<le> g_metadataCount g" "\<forall>i < k. meta_node g i < node"
    "\<forall>i. k \<le> i \<longrightarrow> i < g_metadataCount g \<longrightarrow> node \<le> meta_node g i"
  shows "takeWhile (\<lambda>i. meta_node g i = node) [k..<g_metadataCount g] = node_meta_rows g node"
proof -
  have gen: "takeWhile P xs = filter P xs" if "sorted_wrt (\<lambda>a b. P b \<longrightarrow> P a) xs"
    for P :: "nat \<Rightarrow> bool" and xs
    using that by (induction xs) (auto simp: filter_empty_conv)
  have "sorted_wrt (\<lambda>a b. meta_node g b = node \<longrightarrow> meta_node g a = node) [k..<g_metadataCount g]"
    unfolding sorted_wrt_iff_nth_less
  proof (intro allI impI)
    fix i j assume ij: "i < j" "j < length [k..<g_metadataCount g]"
      and eq: "meta_node g ([k..<g_metadataCount g] ! j) = node"
    have "meta_node g (k + i) \<le> meta_node g (k + j)" using ij by (intro meta_node_mono [OF assms(1)]) auto
    moreover have "node \<le> meta_node g (k + i)" using assms(4) ij by simp
    ultimately show "meta_node g ([k..<g_metadataCount g] ! i) = node" using eq ij by simp
  qed
  then have "takeWhile (\<lambda>i. meta_node g i = node) [k..<g_metadataCount g]
      = filter (\<lambda>i. meta_node g i = node) [k..<g_metadataCount g]" by (rule gen)
  also have "\<dots> = node_meta_rows g node"
  proof -
    have "[0..<g_metadataCount g] = [0..<k] @ [k..<g_metadataCount g]"
      using assms(2) by (intro nth_equalityI) (auto simp: nth_append)
    moreover have "filter (\<lambda>i. meta_node g i = node) [0..<k] = []"
      using assms(3) by (auto simp: filter_empty_conv)
    ultimately show ?thesis by (simp add: node_meta_rows_def)
  qed
  finally show ?thesis .
qed

lemma metadata_of_rows:
  assumes "metadata_ok g"
  shows "metadataOf toNumber g node =
     rbind (map_res (meta_entry g) (node_meta_rows g node))
       (\<lambda>es. Inr (mo_own (foldl (put_entry toNumber) object_literal es)))"
proof -
  have "\<exists>r. meta_search g node 0 (int (g_metadataCount g) - 1) (- 1) = Inr r
    \<and> (if r < 0 then node_meta_rows g node = []
       else nat r < g_metadataCount g \<and> meta_node g (nat r) = node \<and> (\<forall>i < nat r. meta_node g i < node))"
    by (rule meta_search_correct [OF assms]) auto
  then obtain r where r: "meta_search g node 0 (int (g_metadataCount g) - 1) (- 1) = Inr r"
    "if r < 0 then node_meta_rows g node = []
       else nat r < g_metadataCount g \<and> meta_node g (nat r) = node \<and> (\<forall>i < nat r. meta_node g i < node)"
    by blast
  show ?thesis
  proof (cases "r < 0")
    case True
    with r show ?thesis by (simp add: metadataOf_def)
  next
    case False
    with r(2) have f: "nat r < g_metadataCount g" "meta_node g (nat r) = node" "\<forall>i < nat r. meta_node g i < node"
      by simp_all
    have "\<forall>i. nat r \<le> i \<longrightarrow> i < g_metadataCount g \<longrightarrow> node \<le> meta_node g i"
      using meta_node_mono [OF assms] f(2) by metis
    with f have "takeWhile (\<lambda>i. meta_node g i = node) [nat r..<g_metadataCount g] = node_meta_rows g node"
      by (intro sorted_takeWhile_filter [OF assms]) auto
    with r(1) False meta_rows_run [OF assms, of "[nat r..<g_metadataCount g]" toNumber node object_literal]
    show ?thesis by (cases "map_res (meta_entry g) (node_meta_rows g node)") (simp_all add: metadataOf_def)
  qed
qed

section \<open>The cells of a value read back as the value\<close>

definition cell_entry :: "js_string \<Rightarrow> ContextIndexMetadataCell \<Rightarrow> js_string \<times> nat \<times> js_string" where
  "cell_entry key c = (key, cell_type c, cell_text c)"

lemma put_array_elements:
  assumes "mo_own md key = Some (Meta_array run)"
  shows "foldl (put_entry toNumber) md (map (\<lambda>t. (key, TYPE_ARRAY_ELEMENT, t)) texts)
     = md\<lparr>mo_own := (mo_own md)(key \<mapsto> Meta_array (run @ texts))\<rparr>"
  using assms
proof (induction texts arbitrary: md run)
  case Nil
  then have "(mo_own md)(key \<mapsto> Meta_array run) = mo_own md" by (simp add: fun_upd_idem)
  then show ?case by simp
next
  case (Cons t ts)
  let ?md = "md\<lparr>mo_own := (mo_own md)(key \<mapsto> Meta_array (run @ [t]))\<rparr>"
  have same: "mo_own ?md key = Some (Meta_array (run @ [t]))" "(mo_own ?md)(key \<mapsto> v) = (mo_own md)(key \<mapsto> v)" for v
    by simp_all
  have "put_entry toNumber md (key, TYPE_ARRAY_ELEMENT, t) = ?md"
    using Cons.prems by (simp add: put_entry_def meta_put_def metadata_types)
  moreover have "foldl (put_entry toNumber) ?md (map (\<lambda>t. (key, TYPE_ARRAY_ELEMENT, t)) ts)
      = ?md\<lparr>mo_own := (mo_own ?md)(key \<mapsto> Meta_array ((run @ [t]) @ ts))\<rparr>"
    by (rule Cons.IH) (rule same)
  ultimately show ?case unfolding same by (simp del: fun_upd_apply)
qed

lemma put_shadowed:
  assumes "\<not> mo_bare md" "mo_own md (js ''__proto__'') = None"
  shows "foldl (put_entry toNumber) md (map (\<lambda>t. (js ''__proto__'', TYPE_ARRAY_ELEMENT, t)) texts) = md"
  using assms
proof (induction texts)
  case (Cons t ts)
  have "put_entry toNumber md (js ''__proto__'', TYPE_ARRAY_ELEMENT, t) = md"
    using assms by (cases md) (simp add: put_entry_def meta_put_def metadata_types object_assign_def)
  with Cons show ?case by simp
qed simp

lemma cells_put:
  assumes cells: "contextIndexMetadataCells toString v = Inr cells" and fresh: "mo_own md key = None"
    and num: "\<And>n. v = Meta_number n \<Longrightarrow> toNumber (toString n) = n"
  shows "foldl (put_entry toNumber) md (map (cell_entry key) cells) = object_assign md key v"
proof (cases v)
  case (Meta_array texts)
  show ?thesis
  proof (cases texts)
    case Nil
    with Meta_array cells show ?thesis
      by (auto simp: contextIndexMetadataCells_def cell_entry_def put_entry_def meta_put_def)
  next
    case (Cons t ts)
    have "map (cell_entry key) (map (\<lambda>(entry, ordinal). \<lparr>cell_type = TYPE_ARRAY_ELEMENT,
        cell_text = entry, cell_ordinal = ordinal\<rparr>) (zip texts [0..<length texts]))
      = map (\<lambda>t. (key, TYPE_ARRAY_ELEMENT, t)) texts"
      by (rule nth_equalityI) (simp_all add: cell_entry_def)
    moreover from Cons Meta_array cells have "cells = map (\<lambda>(entry, ordinal). \<lparr>cell_type = TYPE_ARRAY_ELEMENT,
        cell_text = entry, cell_ordinal = ordinal\<rparr>) (zip texts [0..<length texts])"
      by (simp add: contextIndexMetadataCells_def del: upt_Suc split: if_splits)
    ultimately have cs: "map (cell_entry key) cells = map (\<lambda>t. (key, TYPE_ARRAY_ELEMENT, t)) texts" by simp
    show ?thesis
    proof (cases "key = js ''__proto__'' \<and> \<not> mo_bare md")
      case True
      with put_shadowed [of md toNumber texts] fresh Meta_array show ?thesis unfolding cs by (cases md) (simp add: object_assign_def)
    next
      case False
      let ?md = "md\<lparr>mo_own := (mo_own md)(key \<mapsto> Meta_array [t])\<rparr>"
      have "put_entry toNumber md (key, TYPE_ARRAY_ELEMENT, t) = ?md"
        using False fresh by (auto simp: put_entry_def meta_put_def metadata_types object_assign_def)
      with Cons put_array_elements [of ?md key "[t]" toNumber ts] Meta_array False
      show ?thesis unfolding cs by (auto simp: object_assign_def)
    qed
  qed
next
  case (Meta_boolean b)
  have "js ''false'' \<noteq> js ''true''" by (simp add: js_def)
  with Meta_boolean cells show ?thesis
    by (auto simp: contextIndexMetadataCells_def cell_entry_def put_entry_def meta_put_def
        contextIndexMetadataValue_def metadata_types)
next
  case (Meta_number n)
  with cells num [OF Meta_number] show ?thesis
    by (auto simp: contextIndexMetadataCells_def cell_entry_def put_entry_def meta_put_def
        contextIndexMetadataValue_def metadata_types)
qed (use cells in \<open>auto simp: contextIndexMetadataCells_def cell_entry_def put_entry_def meta_put_def
        contextIndexMetadataValue_def metadata_types\<close>)

section \<open>Hydration fails only on an undecodable string\<close>

definition string_safe :: "ContextIndexGeometry \<Rightarrow> 'a res \<Rightarrow> bool" where
  "string_safe g r \<longleftrightarrow> (case r of Inr _ \<Rightarrow> True
     | Inl e \<Rightarrow> e = Type_error \<and> (\<exists>i < g_stringCount g. stringAt g i = Inl Type_error))"

lemma string_safe_Inr [simp]: "string_safe g (Inr x)"
  by (simp add: string_safe_def)

lemma string_safe_bind:
  "string_safe g m \<Longrightarrow> (\<And>x. m = Inr x \<Longrightarrow> string_safe g (f x)) \<Longrightarrow> string_safe g (rbind m f)"
  by (cases m) (auto simp: string_safe_def)

lemma string_safe_stringAt:
  assumes "strings_ok g" "i < g_stringCount g"
  shows "string_safe g (stringAt g i)"
proof -
  have "stringAt g i = Inl Type_error \<or> (\<exists>s. stringAt g i = Inr s)"
    unfolding stringAt_bytes [OF assms] by (auto simp: text_decode_def split: option.splits)
  with assms(2) show ?thesis by (auto simp: string_safe_def)
qed

lemma string_safe_optional:
  assumes "strings_ok g" "optional_reference i (g_stringCount g)"
  shows "string_safe g (optional_string g i)"
  using assms string_safe_stringAt [OF assms(1), of i]
  by (auto simp: optional_string_def optional_reference_def intro!: string_safe_bind)

lemma string_safe_map_res:
  "\<forall>x \<in> set xs. string_safe g (f x) \<Longrightarrow> string_safe g (map_res f xs)"
  by (induction xs) (auto intro!: string_safe_bind)

lemma decode_code_ok: "i < length codes \<Longrightarrow> decode_code codes i = Inr (codes ! i)"
  by (simp add: decode_code_def)

lemma string_safe_meta_entry:
  assumes "strings_ok g" "metadata_ok g" "i < g_metadataCount g"
  shows "string_safe g (meta_entry g i)"
proof -
  have fits: "table_fits g (g_metadataBase g) (g_metadataCount g) 16"
    and ids: "cell 4 g (g_metadataBase g) 16 i 4 < g_stringCount g" "cell 4 g (g_metadataBase g) 16 i 8 < g_stringCount g"
    using assms(2,3) by (simp_all add: metadata_ok_def)
  have rd: "get_u32 (g_bytes g) (g_metadataBase g + i * 16 + 4) = Inr (cell 4 g (g_metadataBase g) 16 i 4)"
    "get_u16 (g_bytes g) (g_metadataBase g + i * 16 + 12) = Inr (cell 2 g (g_metadataBase g) 16 i 12)"
    "get_u32 (g_bytes g) (g_metadataBase g + i * 16 + 8) = Inr (cell 4 g (g_metadataBase g) 16 i 8)"
    by (rule cell_read [OF fits assms(3)]; simp)+
  show ?thesis
    unfolding meta_entry_def Let_def rows rd rbind_simps
    by (intro string_safe_bind string_safe_stringAt assms(1) ids string_safe_Inr)
qed

lemma string_safe_metadataOf:
  assumes "strings_ok g" "metadata_ok g"
  shows "string_safe g (metadataOf toNumber g node)"
  unfolding metadata_of_rows [OF assms(2)]
  by (intro string_safe_bind string_safe_map_res string_safe_Inr)
    (auto simp: node_meta_rows_def intro!: string_safe_meta_entry assms)

lemma hydrate_node_safe:
  assumes ok: "geometry_ok g" and node: "node < g_nodeCount g"
  shows "string_safe g (hydrateNodeAt toNumber g node (g_nodeBase g + node * 40))"
proof -
  from ok have str: "strings_ok g" and nodes: "nodes_ok g" and meta: "metadata_ok g"
    by (simp_all add: geometry_ok_def)
  from nodes have fits: "table_fits g (g_nodeBase g) (g_nodeCount g) 40" by (simp add: nodes_ok_def)
  let ?c = "\<lambda>w fld. cell w g (g_nodeBase g) 40 node fld"
  have rd: "get_u32 (g_bytes g) (g_nodeBase g + node * 40 + 16) = Inr (?c 4 16)"
    "get_u32 (g_bytes g) (g_nodeBase g + node * 40 + 20) = Inr (?c 4 20)"
    "get_u32 (g_bytes g) (g_nodeBase g + node * 40 + 24) = Inr (?c 4 24)"
    "get_u32 (g_bytes g) (g_nodeBase g + node * 40 + 28) = Inr (?c 4 28)"
    "get_u32 (g_bytes g) (g_nodeBase g + node * 40 + 36) = Inr (?c 4 36)"
    "get_u8 (g_bytes g) (g_nodeBase g + node * 40 + 0) = Inr (?c 1 0)"
    "get_u32 (g_bytes g) (g_nodeBase g + node * 40 + 12) = Inr (?c 4 12)"
    "get_u16 (g_bytes g) (g_nodeBase g + node * 40 + 4) = Inr (?c 2 4)"
    "get_u8 (g_bytes g) (g_nodeBase g + node * 40 + 1) = Inr (?c 1 1)"
    "get_u8 (g_bytes g) (g_nodeBase g + node * 40 + 2) = Inr (?c 1 2)"
    "get_u32 (g_bytes g) (g_nodeBase g + node * 40 + 8) = Inr (?c 4 8)"
    "get_u8 (g_bytes g) (g_nodeBase g + node * 40 + 3) = Inr (?c 1 3)"
    "get_u32 (g_bytes g) (g_nodeBase g + node * 40 + 32) = Inr (?c 4 32)"
    by (rule cell_read [OF fits node]; simp)+
  have ids: "?c 4 36 < g_stringCount g" "?c 4 12 < g_stringCount g"
    "optional_reference (?c 4 16) (g_stringCount g)" "optional_reference (?c 4 28) (g_stringCount g)"
    and "?c 1 0 < 14" "?c 1 1 < 3" "?c 1 2 < 4"
    using nodes node by (simp_all add: nodes_ok_def)
  then have dec: "decode_code CONTEXT_GRAPH_NODE_KINDS (?c 1 0) = Inr (CONTEXT_GRAPH_NODE_KINDS ! ?c 1 0)"
    "decode_code FRESHNESS_CODES (?c 1 1) = Inr (FRESHNESS_CODES ! ?c 1 1)"
    "decode_code RISK_CODES (?c 1 2) = Inr (RISK_CODES ! ?c 1 2)"
    by (simp_all only: decode_code_ok code_table_lengths)
  show ?thesis
    unfolding hydrateNodeAt_def rows rd dec rbind_simps
    by (intro string_safe_bind string_safe_stringAt string_safe_optional string_safe_metadataOf
        str meta ids string_safe_Inr)
qed

lemma provenance_at_safe:
  assumes "strings_ok g" "provenance_ok g" "row < g_provenanceCount g"
  shows "string_safe g (provenanceAt g row)"
proof -
  from assms(2) have fits: "table_fits g (g_provenanceBase g) (g_provenanceCount g) 16"
    by (simp add: provenance_ok_def)
  let ?c = "\<lambda>fld. cell 4 g (g_provenanceBase g) 16 row fld"
  have rd: "get_u32 (g_bytes g) (g_provenanceBase g + row * 16 + 4) = Inr (?c 4)"
    "get_u32 (g_bytes g) (g_provenanceBase g + row * 16 + 0) = Inr (?c 0)"
    "get_u32 (g_bytes g) (g_provenanceBase g + row * 16 + 8) = Inr (?c 8)"
    "get_u32 (g_bytes g) (g_provenanceBase g + row * 16 + 12) = Inr (?c 12)"
    by (rule cell_read [OF fits assms(3)]; simp)+
  have ids: "?c 0 < g_stringCount g" "?c 8 < g_stringCount g" "?c 12 < g_stringCount g"
    using assms(2,3) by (simp_all add: provenance_ok_def)
  show ?thesis
    unfolding provenanceAt_def Let_def rows rd rbind_simps
    by (intro string_safe_bind string_safe_stringAt assms(1) ids string_safe_Inr)
qed

lemma hydrate_edge_safe:
  assumes ok: "geometry_ok g" and edge: "edge < g_edgeCount g"
  shows "string_safe g (hydrateEdgeAt g edge)"
proof -
  from ok have str: "strings_ok g" and edges: "edges_ok g" and prov: "provenance_ok g"
    by (simp_all add: geometry_ok_def)
  from edges have fits: "table_fits g (g_edgeBase g) (g_edgeCount g) 16" by (simp add: edges_ok_def)
  let ?c = "\<lambda>w fld. cell w g (g_edgeBase g) 16 edge fld"
  have rd: "get_u32 (g_bytes g) (g_edgeBase g + edge * 16 + 0) = Inr (?c 4 0)"
    "get_u8 (g_bytes g) (g_edgeBase g + edge * 16 + 4) = Inr (?c 1 4)"
    "get_u8 (g_bytes g) (g_edgeBase g + edge * 16 + 5) = Inr (?c 1 5)"
    "get_u16 (g_bytes g) (g_edgeBase g + edge * 16 + 6) = Inr (?c 2 6)"
    "get_u16 (g_bytes g) (g_edgeBase g + edge * 16 + 12) = Inr (?c 2 12)"
    "get_u32 (g_bytes g) (g_edgeBase g + edge * 16 + 8) = Inr (?c 4 8)"
    by (rule cell_read [OF fits edge]; simp)+
  have ids: "?c 4 8 < g_provenanceCount g" "?c 1 4 < 21" "?c 1 5 < 5"
    using edges edge by (simp_all add: edges_ok_def)
  then have dec: "decode_code CONTEXT_GRAPH_EDGE_TYPES (?c 1 4) = Inr (CONTEXT_GRAPH_EDGE_TYPES ! ?c 1 4)"
    "decode_code CONFIDENCE_CODES (?c 1 5) = Inr (CONFIDENCE_CODES ! ?c 1 5)"
    by (simp_all only: decode_code_ok code_table_lengths)
  show ?thesis
    unfolding hydrateEdgeAt_def Let_def rows rd dec rbind_simps
    by (intro string_safe_bind provenance_at_safe str prov ids(1) string_safe_Inr)
qed

section \<open>What hydration returns\<close>

text \<open>
  A node's metadata is found by binary search and is exactly the fold, in file order,
  of the rows that carry the node: none is missed, none of another node is read.
\<close>

theorem metadata_exact:
  assumes "geometry_ok g"
  shows "metadataOf toNumber g node =
     rbind (map_res (meta_entry g) (filter (\<lambda>i. meta_node g i = node) [0..<g_metadataCount g]))
       (\<lambda>es. Inr (mo_own (foldl (put_entry toNumber) object_literal es)))"
  using assms metadata_of_rows [of g toNumber node]
  by (simp add: geometry_ok_def node_meta_rows_def)

theorem metadata_exact_witness:
  "metadataOf length tiny_geometry 0 =
     rbind (map_res (meta_entry tiny_geometry)
         (filter (\<lambda>i. meta_node tiny_geometry i = 0) [0..<g_metadataCount tiny_geometry]))
       (\<lambda>es. Inr (mo_own (foldl (put_entry length) object_literal es)))"
  by (rule metadata_exact) (rule tiny_geometry_ok)

text \<open>
  C31. Metadata values survive the file, under every key but \<open>__proto__\<close>: the cells the writer makes
  of a value, read back under a key not yet present, assign exactly that value, with its type, for
  strings, booleans, null, arrays of any admissible length (the empty one included), and for every
  number whose printed form parses back to it. Under \<open>__proto__\<close>, in an object that still has its
  prototype, the value is lost and the object's properties stay as they were.
\<close>

theorem metadata_value_roundtrip:
  assumes "contextIndexMetadataCells toString v = Inr cells" and "mo_own md key = None"
    and "\<And>n. v = Meta_number n \<Longrightarrow> toNumber (toString n) = n"
  shows "mo_own (foldl (put_entry toNumber) md (map (cell_entry key) cells))
    = (if key = js ''__proto__'' \<and> \<not> mo_bare md then mo_own md else (mo_own md)(key \<mapsto> v))"
  using assms cells_put [of toString v cells md key toNumber] by (auto simp: object_assign_def)

definition unary_text :: "nat \<Rightarrow> js_string" where
  "unary_text n = replicate n 49"

theorem metadata_value_roundtrip_witness:
  "mo_own (foldl (put_entry length) object_literal (map (cell_entry (js ''k''))
      [\<lparr>cell_type = TYPE_NUMBER, cell_text = unary_text 3, cell_ordinal = 0\<rparr>]))
     = Map.empty(js ''k'' \<mapsto> Meta_number 3)
   \<and> mo_own (foldl (put_entry length) object_literal (map (cell_entry (js ''__proto__''))
      [\<lparr>cell_type = TYPE_NUMBER, cell_text = unary_text 3, cell_ordinal = 0\<rparr>])) = Map.empty"
proof -
  let ?cells = "[\<lparr>cell_type = TYPE_NUMBER, cell_text = unary_text 3, cell_ordinal = 0\<rparr>]"
  have "mo_own (foldl (put_entry length) object_literal (map (cell_entry key) ?cells))
      = (if key = js ''__proto__'' then Map.empty else Map.empty(key \<mapsto> Meta_number 3))" for key
    using metadata_value_roundtrip [of unary_text "Meta_number 3" ?cells object_literal key length]
    by (simp add: contextIndexMetadataCells_def unary_text_def object_literal_def)
  from this [of "js ''k''"] this [of "js ''__proto__''"] show ?thesis by (simp add: js_def)
qed

text \<open>
  Hydrating a live node or a live edge of an opened index reads only inside the file
  and decodes only known codes; the one way it can fail is a string of the table that does
  not decode on its own.
\<close>

theorem hydration_safe:
  assumes "geometry_ok g" and "node < g_nodeCount g" and "edge < g_edgeCount g"
  shows "string_safe g (hydrateNodeAt toNumber g node (g_nodeBase g + node * 40))
     \<and> string_safe g (hydrateEdgeAt g edge)"
  using hydrate_node_safe [OF assms(1,2)] hydrate_edge_safe [OF assms(1,3)] by blast

theorem hydration_safe_witness:
  "string_safe tiny_geometry (hydrateNodeAt length tiny_geometry 0 (g_nodeBase tiny_geometry + 0 * 40))
     \<and> string_safe tiny_geometry (hydrateEdgeAt tiny_geometry 0)"
  by (rule hydration_safe) (simp_all add: tiny_geometry_ok tiny_simps)

section \<open>A table that opens and does not decode\<close>

lemma table_read:
  assumes "string_table_ok bs d" "i < sd_count d"
  shows "get_u32 bs (sd_offset d + i * 4) = Inr (u32_row bs d i)"
  using assms by (auto simp: string_table_ok_def sd_end_def u32_row_def get_le_def)

text \<open>The bytes of entry \<open>i\<close> of a string section.\<close>

definition entry_bytes :: "bytes \<Rightarrow> SectionDescriptor \<Rightarrow> nat \<Rightarrow> bytes" where
  "entry_bytes bs d i = bslice (string_blob bs d) (string_start bs d i) (string_start bs d (i + 1))"

lemma entry_read:
  assumes "string_table_ok bs d" "i < sd_count d" "g_bytes g = bs" "g_stringIndexBase g = sd_offset d"
    "g_stringBlobBase g = sd_offset d + sd_count d * 4"
  shows "stringAt g i = text_decode (entry_bytes bs d i)"
proof -
  let ?base = "sd_offset d + sd_count d * 4"
  have mono: "string_start bs d i \<le> string_start bs d (i + 1)" "string_start bs d (i + 1) \<le> string_start bs d (sd_count d)"
    using assms(1,2) by (intro string_start_mono; simp)+
  then have "bslice (string_blob bs d) (string_start bs d i) (string_start bs d (i + 1))
      = bslice bs (?base + string_start bs d i) (?base + string_start bs d (i + 1))"
    by (simp add: string_blob_def bslice_def take_drop add.commute min_def)
  moreover have "get_u32 bs (sd_offset d + (i - 1) * 4) = Inr (string_start bs d i)" if "i \<noteq> 0"
    using table_read [OF assms(1), of "i - 1"] assms(2) that by (simp add: string_start_def)
  ultimately show ?thesis
    using assms(3-5) table_read [OF assms(1,2)] by (auto simp: stringAt_def string_start_def entry_bytes_def)
qed

lemma torn_pieces:
  assumes "utf8_points b \<noteq> None" "s < e" "e < f" "f \<le> length b" "cont (unat (b ! e))"
  shows "utf8_points (bslice b s e) = None" "utf8_points (bslice b e f) = None"
proof -
  have hd: "hd (bslice b m n) = b ! m" "bslice b m n \<noteq> []" if "m < n" "n \<le> length b" for m n
    using that by (auto simp: bslice_def hd_conv_nth hd_drop_conv_nth)
  show "utf8_points (bslice b e f) = None"
    using hd [OF assms(3,4)] assms(5) by (intro utf8_points_cont) simp_all
  have b: "b = take s b @ bslice b s e @ bslice b e (length b)"
    using assms(2-4) by (simp add: bslice_def) (metis append_take_drop_id drop_drop le_add_diff_inverse2 less_imp_le)
  show "utf8_points (bslice b s e) = None"
  proof (cases "cont (unat (b ! s))")
    case True
    then show ?thesis using hd [of s e] assms(2-4) by (intro utf8_points_cont) simp_all
  next
    case False
    have "utf8_points (bslice b s e @ bslice b e (length b)) \<noteq> None"
    proof (rule utf8_points_suffix)
      show "utf8_points (take s b @ bslice b s e @ bslice b e (length b)) \<noteq> None" using assms(1) b by simp
      show "bslice b s e @ bslice b e (length b) \<noteq> []" "\<not> cont (unat (hd (bslice b s e @ bslice b e (length b))))"
        using hd [of s e] assms(2-4) False by simp_all
    qed
    then show ?thesis
      using hd [of e "length b"] assms(3-5) by (intro utf8_points_torn [of _ "bslice b e (length b)"]) (simp_all only:, auto)
  qed
qed

definition split_table :: bytes where
  "split_table = [1, 0, 0, 0, 2, 0, 0, 0, 0xc3, 0xa9]"

definition split_section :: SectionDescriptor where
  "split_section = \<lparr>sd_kind = 1, sd_offset = 0, sd_length = 10, sd_count = 2, sd_checksum = 0\<rparr>"

lemma split_reads: "u32_at split_table 0 = 1" "u32_at split_table 4 = 2"
    "bslice split_table 8 10 = [0xc3, 0xa9]" "length split_table = 10"
  by code_simp+

lemma split_simps: "string_start split_table split_section 0 = 0" "string_start split_table split_section 1 = 1"
    "string_start split_table split_section 2 = 2" "string_blob split_table split_section = [0xc3, 0xa9]"
    "u32_row split_table split_section 0 = 1" "sd_count split_section = 2" "sd_offset split_section = 0"
  by (simp_all add: string_start_def u32_row_def split_section_def split_reads string_blob_def numeral_2_eq_2)

lemma split_string_accepted: "validateStringTable split_table split_section = Inr ()"
proof -
  have "text_decode [0xc3, 0xa9] = Inr [233]"
    by (simp add: text_decode_def utf8_points.simps [of "[195, 169]"] utf8_next_def cont_def
        utf16_point_def)
  then have "string_table_ok split_table split_section"
    by (simp add: string_table_ok_def split_section_def sd_end_def u32_row_def string_start_def
        string_blob_def split_reads numeral_2_eq_2 all_less_Suc)
  then show ?thesis by (simp add: validate_string_table_iff)
qed

text \<open>
  C40. Opening does not imply that every string can be read. The validator decodes the blob as a
  whole: whenever it accepts a section one of whose entries ends between the bytes of a character
  and neither that entry nor the next is empty, reading either of the two throws the decoder's
  \<open>TypeError\<close>. The witness is such a section.
\<close>

theorem string_check_incomplete:
  assumes "validateStringTable bs d = Inr ()" "i + 1 < sd_count d"
    and "string_start bs d i < string_start bs d (i + 1)" "string_start bs d (i + 1) < string_start bs d (i + 2)"
    and "cont (unat (string_blob bs d ! string_start bs d (i + 1)))"
    and "g_bytes g = bs" "g_stringIndexBase g = sd_offset d" "g_stringBlobBase g = sd_offset d + sd_count d * 4"
  shows "stringAt g i = Inl Type_error \<and> stringAt g (i + 1) = Inl Type_error"
proof -
  have ok: "string_table_ok bs d" using assms(1) by (simp add: validate_string_table_iff)
  have last: "string_start bs d (i + 2) \<le> string_start bs d (sd_count d)"
    using assms(2) by (intro string_start_mono [OF ok]) auto
  have "sd_offset d + sd_count d * 4 + string_start bs d (sd_count d) \<le> length bs"
    using ok assms(2) unfolding string_table_ok_def sd_end_def string_start_def
    by (cases "sd_count d") fastforce+
  with last have long: "string_start bs d (i + 2) \<le> length (string_blob bs d)" by (simp add: string_blob_def)
  have "utf8_points (string_blob bs d) \<noteq> None" using ok text_decode_fails [of "string_blob bs d"] by (auto simp: string_table_ok_def)
  note torn = torn_pieces [OF this assms(3,4) long assms(5)]
  have "stringAt g i = text_decode (entry_bytes bs d i)" "stringAt g (i + 1) = text_decode (entry_bytes bs d (i + 1))"
    using assms(2) by (intro entry_read [OF ok _ assms(6-8)]; simp)+
  with torn show ?thesis by (simp add: entry_bytes_def text_decode_fails numeral_2_eq_2)
qed

theorem string_check_incomplete_witness:
  "validateStringTable split_table split_section = Inr ()
   \<and> stringAt (tiny_geometry\<lparr>g_bytes := split_table, g_stringIndexBase := 0, g_stringBlobBase := 8\<rparr>) 0 = Inl Type_error
   \<and> stringAt (tiny_geometry\<lparr>g_bytes := split_table, g_stringIndexBase := 0, g_stringBlobBase := 8\<rparr>) 1 = Inl Type_error"
proof -
  let ?g = "tiny_geometry\<lparr>g_bytes := split_table, g_stringIndexBase := 0, g_stringBlobBase := 8\<rparr>"
  have "stringAt ?g 0 = Inl Type_error \<and> stringAt ?g (0 + 1) = Inl Type_error"
    by (rule string_check_incomplete [OF split_string_accepted])
      (simp_all add: split_simps split_simps [unfolded One_nat_def] cont_def numeral_2_eq_2 [symmetric])
  then show ?thesis using split_string_accepted by simp
qed
end
