(* ===== verification/Reader_Cursor.thy ===== *)
theory Reader_Cursor
  imports Reader_Geometry
begin

text \<open>
  runtime-index/reader-cursor.ts: posting slices, the edge cursor and the edge source
  index.

  A cursor is a record of the scalars it overwrites in place (\<open>c_x\<close> for the field \<open>x\<close>);
  \<open>cursor_next\<close> returns the boolean of \<open>next()\<close> and the cursor after it. An abstract view
  of a cursor is the list of CSR slots it has still to visit, and draining a cursor is
  shown to yield exactly the edges of the bucket that pass the profile mask, in order.
\<close>

unbundle bit_operations_syntax

section \<open>Posting slices\<close>

datatype PostingSlice =
    BufferPostingSlice (slice_view: bytes) (slice_base: nat) (slice_len: nat)
  | EMPTY_POSTINGS

fun posting_length :: "PostingSlice \<Rightarrow> nat" where
  "posting_length (BufferPostingSlice view base len) = len"
| "posting_length EMPTY_POSTINGS = 0"

fun posting_node :: "PostingSlice \<Rightarrow> int \<Rightarrow> nat res" where
  "posting_node (BufferPostingSlice view base len) index =
    (if index < 0 \<or> index \<ge> int len then Inl Range_error
     else get_u32 view (base + nat index * 4))"
| "posting_node EMPTY_POSTINGS index = Inl Range_error"

datatype ScoredPostingSlice =
    ArrayScoredPostingSlice (scored_nodes: "nat list") (scored_scores: "int list")
      (matchedTerms: nat) (slice_truncated: bool)
  | EMPTY_SCORED_POSTINGS

fun scored_length :: "ScoredPostingSlice \<Rightarrow> nat" where
  "scored_length (ArrayScoredPostingSlice nodes scores matched truncated) = length nodes"
| "scored_length EMPTY_SCORED_POSTINGS = 0"

fun scored_node :: "ScoredPostingSlice \<Rightarrow> int \<Rightarrow> nat res" where
  "scored_node (ArrayScoredPostingSlice nodes scores matched truncated) index =
    (if index < 0 \<or> index \<ge> int (length nodes) then Inl Range_error else Inr (nodes ! nat index))"
| "scored_node EMPTY_SCORED_POSTINGS index = Inl Range_error"

fun scored_score :: "ScoredPostingSlice \<Rightarrow> int \<Rightarrow> int res" where
  "scored_score (ArrayScoredPostingSlice nodes scores matched truncated) index =
    (if index < 0 \<or> index \<ge> int (length scores) then Inl Range_error else Inr (scores ! nat index))"
| "scored_score EMPTY_SCORED_POSTINGS index = Inl Range_error"

section \<open>The edge cursor\<close>

record EdgeCursor =
  c_source :: nat
  c_edge :: int
  c_target :: int
  c_type :: int
  c_confidence :: int
  c_flags :: nat
  c_provenance :: int
  c_visited :: nat
  c_position :: nat
  c_end :: nat
  c_mask :: nat
  c_csrEdgeBase :: nat
  c_edgeSource :: "nat list option"

definition new_cursor :: "nat \<Rightarrow> nat \<Rightarrow> nat \<Rightarrow> nat \<Rightarrow> nat list option \<Rightarrow> nat \<Rightarrow> EdgeCursor" where
  "new_cursor source csrEdgeBase end' pmask edgeSource start =
     \<lparr>c_source = source, c_edge = - 1, c_target = - 1, c_type = - 1, c_confidence = - 1,
      c_flags = 0, c_provenance = - 1, c_visited = 0, c_position = start, c_end = end',
      c_mask = pmask, c_csrEdgeBase = csrEdgeBase, c_edgeSource = edgeSource\<rparr>"

text \<open>
  A read of the source index past its end is \<open>undefined\<close> in JavaScript; it is an error
  here, and \<open>drain_incoming\<close> below shows it does not happen.
\<close>

definition cursor_target :: "ContextIndexGeometry \<Rightarrow> nat list option \<Rightarrow> nat \<Rightarrow> nat res" where
  "cursor_target g edgeSource edge = (case edgeSource of
     None \<Rightarrow> get_u32 (g_bytes g) (g_edgeBase g + edge * CONTEXT_INDEX_EDGE_ROW_BYTES + EDGE_TARGET_AT)
   | Some sources \<Rightarrow> (if edge < length sources then Inr (sources ! edge) else Inl Type_error))"

function cursor_next :: "ContextIndexGeometry \<Rightarrow> EdgeCursor \<Rightarrow> (bool \<times> EdgeCursor) res" where
  "cursor_next g c =
    (if c_position c < c_end c then
      (let slot = c_position c;
           c1 = c\<lparr>c_position := c_position c + 1, c_visited := c_visited c + 1\<rparr> in
       rbind (get_u32 (g_bytes g) (c_csrEdgeBase c + slot * 4)) (\<lambda>edge.
       let pos = g_edgeBase g + edge * CONTEXT_INDEX_EDGE_ROW_BYTES in
       rbind (get_u16 (g_bytes g) (pos + EDGE_PROFILE_MASK_AT)) (\<lambda>profiles.
       if profiles AND c_mask c = 0 then cursor_next g c1
       else
       rbind (cursor_target g (c_edgeSource c) edge) (\<lambda>target.
       rbind (get_u8 (g_bytes g) (pos + EDGE_TYPE_AT)) (\<lambda>type.
       rbind (get_u8 (g_bytes g) (pos + EDGE_CONFIDENCE_AT)) (\<lambda>confidence.
       rbind (get_u16 (g_bytes g) (pos + EDGE_FLAGS_AT)) (\<lambda>flags.
       rbind (get_u32 (g_bytes g) (pos + EDGE_PROVENANCE_AT)) (\<lambda>provenance.
       Inr (True, c1\<lparr>c_edge := int edge, c_target := int target, c_type := int type,
         c_confidence := int confidence, c_flags := flags,
         c_provenance := int provenance\<rparr>)))))))))
     else Inr (False, c\<lparr>c_edge := - 1, c_target := - 1, c_type := - 1, c_confidence := - 1\<rparr>))"
  by pat_completeness auto
termination
  by (relation "measure (\<lambda>(_, c). c_end c - c_position c)") auto

declare cursor_next.simps [simp del]

definition openOutgoingCursor :: "ContextIndexGeometry \<Rightarrow> nat \<Rightarrow> nat \<Rightarrow> EdgeCursor res" where
  "openOutgoingCursor g node profileMask =
    rbind (get_u32 (g_bytes g) (g_outOffsetBase g + node * 4)) (\<lambda>start.
    rbind (get_u32 (g_bytes g) (g_outOffsetBase g + (node + 1) * 4)) (\<lambda>end'.
    Inr (new_cursor node (g_outEdgeBase g) end' profileMask None start)))"

definition openIncomingCursor ::
  "ContextIndexGeometry \<Rightarrow> nat list \<Rightarrow> nat \<Rightarrow> nat \<Rightarrow> EdgeCursor res" where
  "openIncomingCursor g edgeSource node profileMask =
    rbind (get_u32 (g_bytes g) (g_inOffsetBase g + node * 4)) (\<lambda>start.
    rbind (get_u32 (g_bytes g) (g_inOffsetBase g + (node + 1) * 4)) (\<lambda>end'.
    Inr (new_cursor node (g_inEdgeBase g) end' profileMask (Some edgeSource) start)))"

text \<open>
  \<open>buildEdgeSourceIndex\<close>: two nested loops of typed-array writes. A write outside the
  array is ignored, as list update does.
\<close>

fun fill_bucket :: "ContextIndexGeometry \<Rightarrow> nat \<Rightarrow> nat list \<Rightarrow> nat list \<Rightarrow> nat list res" where
  "fill_bucket g node [] built = Inr built"
| "fill_bucket g node (slot # slots) built =
    rbind (get_u32 (g_bytes g) (g_outEdgeBase g + slot * 4)) (\<lambda>edge.
    fill_bucket g node slots (built[edge := node]))"

fun fill_sources :: "ContextIndexGeometry \<Rightarrow> nat list \<Rightarrow> nat list \<Rightarrow> nat list res" where
  "fill_sources g [] built = Inr built"
| "fill_sources g (node # nodes) built =
    rbind (get_u32 (g_bytes g) (g_outOffsetBase g + node * 4)) (\<lambda>start.
    rbind (get_u32 (g_bytes g) (g_outOffsetBase g + (node + 1) * 4)) (\<lambda>end'.
    rbind (fill_bucket g node [start..<end'] built) (\<lambda>built'.
    fill_sources g nodes built')))"

definition buildEdgeSourceIndex :: "ContextIndexGeometry \<Rightarrow> nat list res" where
  "buildEdgeSourceIndex g = fill_sources g [0..<g_nodeCount g] (replicate (g_edgeCount g) 0)"

section \<open>Buckets\<close>

text \<open>The slots and the edges of a node's bucket in a CSR array, and an edge's row.\<close>

definition bucket :: "ContextIndexGeometry \<Rightarrow> nat \<Rightarrow> nat \<Rightarrow> nat list" where
  "bucket g offsetBase node =
     [cell 4 g offsetBase 4 node 0 ..< cell 4 g offsetBase 4 (node + 1) 0]"

definition slot_edge :: "ContextIndexGeometry \<Rightarrow> nat \<Rightarrow> nat \<Rightarrow> nat" where
  "slot_edge g csrEdgeBase slot = cell 4 g csrEdgeBase 4 slot 0"

definition out_edges :: "ContextIndexGeometry \<Rightarrow> nat \<Rightarrow> nat list" where
  "out_edges g node = map (slot_edge g (g_outEdgeBase g)) (bucket g (g_outOffsetBase g) node)"

definition in_edges :: "ContextIndexGeometry \<Rightarrow> nat \<Rightarrow> nat list" where
  "in_edges g node = map (slot_edge g (g_inEdgeBase g)) (bucket g (g_inOffsetBase g) node)"

definition passes :: "ContextIndexGeometry \<Rightarrow> nat \<Rightarrow> nat \<Rightarrow> bool" where
  "passes g pmask edge \<longleftrightarrow> cell 2 g (g_edgeBase g) 16 edge 12 AND pmask \<noteq> 0"

lemma bucket_slots:
  assumes "csr_base_ok g ob eb" "node < g_nodeCount g" "slot \<in> set (bucket g ob node)"
  shows "slot < g_edgeCount g" "slot_edge g eb slot < g_edgeCount g"
proof -
  have "\<forall>i j. i \<le> j \<longrightarrow> j \<le> g_nodeCount g \<longrightarrow> cell 4 g ob 4 i 0 \<le> cell 4 g ob 4 j 0"
    using assms(1) by (simp add: csr_base_ok_def)
  then have "cell 4 g ob 4 (node + 1) 0 \<le> cell 4 g ob 4 (g_nodeCount g) 0"
    using assms(2) by (metis Suc_eq_plus1 Suc_leI le_refl)
  then show "slot < g_edgeCount g" using assms by (simp add: bucket_def csr_base_ok_def)
  then show "slot_edge g eb slot < g_edgeCount g" using assms(1) by (simp add: csr_base_ok_def slot_edge_def)
qed

lemma csr_reads:
  assumes "csr_base_ok g ob eb" "node < g_nodeCount g"
  shows "get_u32 (g_bytes g) (ob + node * 4) = Inr (cell 4 g ob 4 node 0)"
    "get_u32 (g_bytes g) (ob + (node + 1) * 4) = Inr (cell 4 g ob 4 (node + 1) 0)"
  using assms cell_read0 [of g ob "g_nodeCount g + 1" 4 node 4]
    cell_read0 [of g ob "g_nodeCount g + 1" 4 "node + 1" 4] by (simp_all add: csr_base_ok_def)

lemma slot_read:
  assumes "csr_base_ok g ob eb" "slot < g_edgeCount g"
  shows "get_u32 (g_bytes g) (eb + slot * 4) = Inr (slot_edge g eb slot)"
  unfolding slot_edge_def using assms by (intro cell_read0) (auto simp: csr_base_ok_def)

section \<open>Draining a cursor\<close>

record edge_step =
  es_edge :: nat
  es_target :: nat
  es_type :: nat
  es_confidence :: nat
  es_flags :: nat
  es_provenance :: nat

definition edge_row :: "ContextIndexGeometry \<Rightarrow> nat list option \<Rightarrow> nat \<Rightarrow> edge_step" where
  "edge_row g sources e = \<lparr>es_edge = e,
     es_target = (case sources of None \<Rightarrow> cell 4 g (g_edgeBase g) 16 e 0 | Some ss \<Rightarrow> ss ! e),
     es_type = cell 1 g (g_edgeBase g) 16 e 4, es_confidence = cell 1 g (g_edgeBase g) 16 e 5,
     es_flags = cell 2 g (g_edgeBase g) 16 e 6, es_provenance = cell 4 g (g_edgeBase g) 16 e 8\<rparr>"

text \<open>A cursor whose remaining slots are live rows of an edge table that fits the file.\<close>

definition cursor_ok :: "ContextIndexGeometry \<Rightarrow> EdgeCursor \<Rightarrow> bool" where
  "cursor_ok g c \<longleftrightarrow> edges_ok g \<and> c_position c \<le> c_end c
     \<and> (\<forall>slot \<in> {c_position c..<c_end c}.
          get_u32 (g_bytes g) (c_csrEdgeBase c + slot * 4) = Inr (slot_edge g (c_csrEdgeBase c) slot)
          \<and> slot_edge g (c_csrEdgeBase c) slot < g_edgeCount g)
     \<and> (case c_edgeSource c of None \<Rightarrow> True | Some ss \<Rightarrow> length ss = g_edgeCount g)"

definition remaining :: "ContextIndexGeometry \<Rightarrow> EdgeCursor \<Rightarrow> nat list" where
  "remaining g c = filter (passes g (c_mask c))
     (map (slot_edge g (c_csrEdgeBase c)) [c_position c..<c_end c])"

definition cursor_at :: "EdgeCursor \<Rightarrow> edge_step \<Rightarrow> bool" where
  "cursor_at c e \<longleftrightarrow> c_edge c = int (es_edge e) \<and> c_target c = int (es_target e)
     \<and> c_type c = int (es_type e) \<and> c_confidence c = int (es_confidence e)
     \<and> c_flags c = es_flags e \<and> c_provenance c = int (es_provenance e)"

lemma edge_reads:
  assumes "edges_ok g" "e < g_edgeCount g"
  shows "fld + w \<le> 16 \<Longrightarrow>
     get_le w (g_bytes g) (g_edgeBase g + e * 16 + fld) = Inr (cell w g (g_edgeBase g) 16 e fld)"
  using assms by (auto intro!: cell_read simp: edges_ok_def)

lemma cursor_target_row:
  assumes "edges_ok g" "e < g_edgeCount g"
    and "case sources of None \<Rightarrow> True | Some ss \<Rightarrow> length ss = g_edgeCount g"
  shows "cursor_target g sources e = Inr (es_target (edge_row g sources e))"
proof (cases sources)
  case None
  then show ?thesis using edge_reads [OF assms(1,2), of 0 4] by (simp add: cursor_target_def rows edge_row_def)
next
  case (Some ss)
  then show ?thesis using assms by (simp add: cursor_target_def edge_row_def)
qed

lemma cursor_next_step:
  assumes ok: "cursor_ok g c" and p: "c_position c < c_end c"
  defines "e \<equiv> slot_edge g (c_csrEdgeBase c) (c_position c)"
    and "c1 \<equiv> c\<lparr>c_position := c_position c + 1, c_visited := c_visited c + 1\<rparr>"
  shows "cursor_next g c =
     (if passes g (c_mask c) e
      then (let r = edge_row g (c_edgeSource c) e in
        Inr (True, c1\<lparr>c_edge := int e, c_target := int (es_target r), c_type := int (es_type r),
          c_confidence := int (es_confidence r), c_flags := es_flags r,
          c_provenance := int (es_provenance r)\<rparr>))
      else cursor_next g c1)" (is ?eq)
    and "cursor_ok g c1" and "e < g_edgeCount g"
proof -
  have edges: "edges_ok g" and rd: "get_u32 (g_bytes g) (c_csrEdgeBase c + c_position c * 4) = Inr e"
    and e: "e < g_edgeCount g"
    using ok p by (auto simp: cursor_ok_def e_def)
  show "e < g_edgeCount g" by (rule e)
  show "cursor_ok g c1" using ok p by (auto simp: cursor_ok_def c1_def)
  note r = edge_reads [OF edges e]
  have reads: "get_u16 (g_bytes g) (g_edgeBase g + e * 16 + 12) = Inr (cell 2 g (g_edgeBase g) 16 e 12)"
    "get_u8 (g_bytes g) (g_edgeBase g + e * 16 + 4) = Inr (cell 1 g (g_edgeBase g) 16 e 4)"
    "get_u8 (g_bytes g) (g_edgeBase g + e * 16 + 5) = Inr (cell 1 g (g_edgeBase g) 16 e 5)"
    "get_u16 (g_bytes g) (g_edgeBase g + e * 16 + 6) = Inr (cell 2 g (g_edgeBase g) 16 e 6)"
    "get_u32 (g_bytes g) (g_edgeBase g + e * 16 + 8) = Inr (cell 4 g (g_edgeBase g) 16 e 8)"
    by (rule r, simp)+
  have tgt: "cursor_target g (c_edgeSource c) e = Inr (es_target (edge_row g (c_edgeSource c) e))"
    using ok by (intro cursor_target_row edges e) (simp add: cursor_ok_def)
  show ?eq
    unfolding cursor_next.simps [of g c] Let_def if_P [OF p] rd rbind_simps rows reads tgt passes_def
      c1_def
    by (simp add: edge_row_def)
qed

lemma remaining_step:
  fixes g :: ContextIndexGeometry
  assumes "c_position c < c_end c"
  defines "e \<equiv> slot_edge g (c_csrEdgeBase c) (c_position c)"
  shows "remaining g c = (if passes g (c_mask c) e then [e] else [])
     @ remaining g (c\<lparr>c_position := c_position c + 1, c_visited := v\<rparr>)"
  using assms by (simp add: remaining_def upt_conv_Cons)

text \<open>
  One call of \<open>next()\<close>: it stands on the first remaining edge, or reports exhaustion with
  the scalars reset; the budget counter counts every slot it passed over.
\<close>

lemma cursor_next_spec:
  assumes "cursor_ok g c"
  shows "\<exists>b c'. cursor_next g c = Inr (b, c') \<and> cursor_ok g c' \<and> c_edgeSource c' = c_edgeSource c
     \<and> c_end c' = c_end c \<and> c_position c \<le> c_position c'
     \<and> c_visited c' = c_visited c + (c_position c' - c_position c)
     \<and> (if b then c_position c < c_position c'
           \<and> (\<exists>e. remaining g c = e # remaining g c' \<and> e < g_edgeCount g
                  \<and> cursor_at c' (edge_row g (c_edgeSource c) e))
         else remaining g c = [] \<and> c_position c' = c_end c \<and> c_edge c' = - 1)"
  using assms
proof (induction "c_end c - c_position c" arbitrary: c rule: less_induct)
  case less
  show ?case
  proof (cases "c_position c < c_end c")
    case False
    then have "cursor_next g c =
        Inr (False, c\<lparr>c_edge := - 1, c_target := - 1, c_type := - 1, c_confidence := - 1\<rparr>)"
      by (simp add: cursor_next.simps [of g c])
    with False less.prems show ?thesis by (auto simp: remaining_def cursor_ok_def)
  next
    case True
    define e where "e = slot_edge g (c_csrEdgeBase c) (c_position c)"
    define c1 where "c1 = c\<lparr>c_position := c_position c + 1, c_visited := c_visited c + 1\<rparr>"
    note step = cursor_next_step [OF less.prems True, folded e_def c1_def]
    have rem: "remaining g c = (if passes g (c_mask c) e then [e] else []) @ remaining g c1"
      unfolding c1_def e_def by (rule remaining_step [OF True])
    show ?thesis
    proof (cases "passes g (c_mask c) e")
      case True': True
      let ?r = "edge_row g (c_edgeSource c) e"
      define c2 where "c2 = c1\<lparr>c_edge := int e, c_target := int (es_target ?r), c_type := int (es_type ?r),
          c_confidence := int (es_confidence ?r), c_flags := es_flags ?r, c_provenance := int (es_provenance ?r)\<rparr>"
      have "cursor_next g c = Inr (True, c2)" using step(1) True' by (simp add: c2_def Let_def)
      moreover have "remaining g c = e # remaining g c2" using rem True' by (simp add: c2_def remaining_def)
      moreover have "cursor_at c2 ?r" by (simp add: cursor_at_def c2_def edge_row_def)
      moreover have "cursor_ok g c2" using step(2) by (simp add: cursor_ok_def c2_def)
      ultimately show ?thesis using step(3) by (auto simp: c2_def c1_def)
    next
      case False
      have same: "cursor_next g c = cursor_next g c1" "remaining g c = remaining g c1"
        using step(1) rem False by simp_all
      have p1: "c_position c1 = c_position c + 1" "c_visited c1 = c_visited c + 1"
        "c_end c1 = c_end c" "c_edgeSource c1 = c_edgeSource c"
        by (simp_all add: c1_def)
      have "c_end c1 - c_position c1 < c_end c - c_position c" using True p1 by simp
      from less.hyps [OF this step(2)] obtain b c' where ih: "cursor_next g c1 = Inr (b, c')"
        "cursor_ok g c'" "c_edgeSource c' = c_edgeSource c" "c_end c' = c_end c"
        "c_position c1 \<le> c_position c'" "c_visited c' = c_visited c1 + (c_position c' - c_position c1)"
        "if b then c_position c1 < c_position c'
             \<and> (\<exists>e. remaining g c1 = e # remaining g c' \<and> e < g_edgeCount g
                    \<and> cursor_at c' (edge_row g (c_edgeSource c) e))
           else remaining g c1 = [] \<and> c_position c' = c_end c \<and> c_edge c' = - 1"
        unfolding p1(3,4) by blast
      show ?thesis
      proof (intro exI conjI)
        show "cursor_next g c = Inr (b, c')" using same ih(1) by simp
        show "c_visited c' = c_visited c + (c_position c' - c_position c)" using ih(5,6) p1 by simp
        show "if b then c_position c < c_position c'
             \<and> (\<exists>e. remaining g c = e # remaining g c' \<and> e < g_edgeCount g
                    \<and> cursor_at c' (edge_row g (c_edgeSource c) e))
           else remaining g c = [] \<and> c_position c' = c_end c \<and> c_edge c' = - 1"
          using ih(5,7) p1 same(2) by (cases b) auto
      qed (use ih p1 in auto)
    qed
  qed
qed

lemma cursor_next_progress:
  "cursor_next g c = Inr (b, c') \<Longrightarrow>
     c_end c' = c_end c \<and> (b \<longrightarrow> c_end c' - c_position c' < c_end c - c_position c)"
proof (induction g c rule: cursor_next.induct)
  case (1 g c)
  show ?case
  proof (cases "c_position c < c_end c")
    case False
    with "1.prems" show ?thesis by (auto simp: cursor_next.simps [of g c])
  next
    case True
    let ?c1 = "c\<lparr>c_position := c_position c + 1, c_visited := c_visited c + 1\<rparr>"
    from "1.prems" True obtain edge profiles where e: "get_u32 (g_bytes g) (c_csrEdgeBase c + c_position c * 4) = Inr edge"
      and p: "get_u16 (g_bytes g) (g_edgeBase g + edge * CONTEXT_INDEX_EDGE_ROW_BYTES + EDGE_PROFILE_MASK_AT) = Inr profiles"
      unfolding cursor_next.simps [of g c] by (auto simp: Let_def)
    show ?thesis
    proof (cases "profiles AND c_mask c = 0")
      case True': True
      then have "cursor_next g c = cursor_next g ?c1"
        using True e p by (simp add: cursor_next.simps [of g c])
      with "1.prems" "1.IH" [OF True refl refl e refl p True'] True show ?thesis by auto
    next
      case False
      with "1.prems" True e p show ?thesis
        unfolding cursor_next.simps [of g c] by (auto simp: Let_def)
    qed
  qed
qed

definition cursor_edge :: "EdgeCursor \<Rightarrow> edge_step" where
  "cursor_edge c = \<lparr>es_edge = nat (c_edge c), es_target = nat (c_target c), es_type = nat (c_type c),
     es_confidence = nat (c_confidence c), es_flags = c_flags c, es_provenance = nat (c_provenance c)\<rparr>"

text \<open>\<open>while (cursor.next()) steps.push(...)\<close>: the steps, and the cursor as the loop leaves it.\<close>

function cursor_run :: "ContextIndexGeometry \<Rightarrow> EdgeCursor \<Rightarrow> (edge_step list \<times> EdgeCursor) res" where
  "cursor_run g c = rbind (cursor_next g c) (\<lambda>(more, c').
     if more then rbind (cursor_run g c') (\<lambda>(steps, end). Inr (cursor_edge c' # steps, end)) else Inr ([], c'))"
  by pat_completeness auto
termination
  by (relation "measure (\<lambda>(_, c). c_end c - c_position c)") (auto dest!: cursor_next_progress)

declare cursor_run.simps [simp del]

definition cursor_drain :: "ContextIndexGeometry \<Rightarrow> EdgeCursor \<Rightarrow> edge_step list res" where
  "cursor_drain g c = rbind (cursor_run g c) (\<lambda>(steps, end). Inr steps)"

lemma cursor_at_edge: "cursor_at c e \<Longrightarrow> cursor_edge c = e"
  by (simp add: cursor_at_def cursor_edge_def)

text \<open>A cursor that is exhausted after \<open>n\<close> rows.\<close>

definition exhausted :: "nat \<Rightarrow> EdgeCursor \<Rightarrow> bool" where
  "exhausted n c \<longleftrightarrow> c_visited c = n \<and> c_edge c = - 1"

lemma cursor_run_remaining:
  "cursor_ok g c \<Longrightarrow> \<exists>end. cursor_run g c = Inr (map (edge_row g (c_edgeSource c)) (remaining g c), end)
     \<and> exhausted (c_visited c + (c_end c - c_position c)) end"
proof (induction g c rule: cursor_run.induct)
  case (1 g c)
  from cursor_next_spec [OF "1.prems"] obtain b c' where n: "cursor_next g c = Inr (b, c')"
    and ok: "cursor_ok g c'" and src: "c_edgeSource c' = c_edgeSource c" and same: "c_end c' = c_end c"
    and moved: "c_position c \<le> c_position c'" "c_visited c' = c_visited c + (c_position c' - c_position c)"
    and spec: "if b then c_position c < c_position c'
           \<and> (\<exists>e. remaining g c = e # remaining g c' \<and> e < g_edgeCount g
                  \<and> cursor_at c' (edge_row g (c_edgeSource c) e))
         else remaining g c = [] \<and> c_position c' = c_end c \<and> c_edge c' = - 1"
    by blast
  have within: "c_position c' \<le> c_end c" using ok same by (simp add: cursor_ok_def)
  show ?case
  proof (cases b)
    case True
    from "1.IH" [OF n refl True ok] obtain t where t: "cursor_run g c' = Inr (map (edge_row g (c_edgeSource c)) (remaining g c'), t)"
      "exhausted (c_visited c' + (c_end c' - c_position c')) t" using src by auto
    have "c_visited c' + (c_end c' - c_position c') = c_visited c + (c_end c - c_position c)"
      using moved within same by linarith
    with True spec n t show ?thesis by (subst cursor_run.simps) (auto dest: cursor_at_edge)
  next
    case False
    with spec n moved show ?thesis by (subst cursor_run.simps) (simp add: exhausted_def)
  qed
qed

lemma cursor_drain_remaining:
  "cursor_ok g c \<Longrightarrow> cursor_drain g c = Inr (map (edge_row g (c_edgeSource c)) (remaining g c))"
  using cursor_run_remaining [of g c] by (auto simp: cursor_drain_def)

lemma open_outgoing:
  assumes "geometry_ok g" "node < g_nodeCount g"
  obtains c where "openOutgoingCursor g node m = Inr c" "cursor_ok g c" "c_edgeSource c = None"
    "remaining g c = filter (passes g m) (out_edges g node)"
    "c_visited c = 0" "c_end c - c_position c = length (out_edges g node)"
proof -
  from assms(1) have csr: "csr_base_ok g (g_outOffsetBase g) (g_outEdgeBase g)" and e: "edges_ok g"
    by (simp_all add: geometry_ok_def)
  let ?c = "new_cursor node (g_outEdgeBase g) (cell 4 g (g_outOffsetBase g) 4 (node + 1) 0) m None
      (cell 4 g (g_outOffsetBase g) 4 node 0)"
  have "openOutgoingCursor g node m = Inr ?c"
    using csr_reads [OF csr assms(2)] by (simp add: openOutgoingCursor_def)
  moreover have "cursor_ok g ?c"
    using bucket_slots [OF csr assms(2)] slot_read [OF csr] e csr assms(2)
    by (auto simp: cursor_ok_def new_cursor_def bucket_def csr_base_ok_def)
  ultimately show thesis
    by (rule that) (simp_all add: new_cursor_def remaining_def out_edges_def bucket_def)
qed

lemma open_incoming:
  assumes "geometry_ok g" "node < g_nodeCount g" "length sources = g_edgeCount g"
  obtains c where "openIncomingCursor g sources node m = Inr c" "cursor_ok g c"
    "c_edgeSource c = Some sources" "remaining g c = filter (passes g m) (in_edges g node)"
proof -
  from assms(1) have csr: "csr_base_ok g (g_inOffsetBase g) (g_inEdgeBase g)" and e: "edges_ok g"
    by (simp_all add: geometry_ok_def)
  let ?c = "new_cursor node (g_inEdgeBase g) (cell 4 g (g_inOffsetBase g) 4 (node + 1) 0) m (Some sources)
      (cell 4 g (g_inOffsetBase g) 4 node 0)"
  have "openIncomingCursor g sources node m = Inr ?c"
    using csr_reads [OF csr assms(2)] by (simp add: openIncomingCursor_def)
  moreover have "cursor_ok g ?c"
    using bucket_slots [OF csr assms(2)] slot_read [OF csr] e csr assms(2,3)
    by (auto simp: cursor_ok_def new_cursor_def bucket_def csr_base_ok_def)
  ultimately show thesis
    by (rule that) (simp_all add: new_cursor_def remaining_def in_edges_def bucket_def)
qed

section \<open>The edge source index\<close>

lemma fill_bucket_ok:
  assumes "csr_base_ok g ob (g_outEdgeBase g)" "\<forall>s \<in> set slots. s < g_edgeCount g"
  shows "\<exists>built'. fill_bucket g node slots built = Inr built' \<and> length built' = length built
     \<and> (\<forall>e < length built. built' ! e =
          (if e \<in> set (map (slot_edge g (g_outEdgeBase g)) slots) then node else built ! e))"
  using assms(2)
proof (induction slots arbitrary: built)
  case (Cons s slots)
  then have "get_u32 (g_bytes g) (g_outEdgeBase g + s * 4) = Inr (slot_edge g (g_outEdgeBase g) s)"
    using slot_read [OF assms(1)] by simp
  with Cons show ?case
    using Cons.IH [of "built[slot_edge g (g_outEdgeBase g) s := node]"]
    by (auto simp: nth_list_update)
qed simp

definition owner_above :: "ContextIndexGeometry \<Rightarrow> nat \<Rightarrow> nat \<Rightarrow> bool" where
  "owner_above g e n \<longleftrightarrow> (\<exists>n'. n < n' \<and> n' < g_nodeCount g \<and> e \<in> set (out_edges g n'))"

lemma fill_sources_ok:
  assumes ok: "geometry_ok g" and "k \<le> g_nodeCount g"
  shows "\<exists>r. fill_sources g [k..<g_nodeCount g] built = Inr r \<and> length r = length built
     \<and> (\<forall>e < length built.
         (\<forall>n. k \<le> n \<longrightarrow> n < g_nodeCount g \<longrightarrow> e \<in> set (out_edges g n) \<longrightarrow> \<not> owner_above g e n \<longrightarrow> r ! e = n)
         \<and> ((\<forall>n. k \<le> n \<longrightarrow> n < g_nodeCount g \<longrightarrow> e \<notin> set (out_edges g n)) \<longrightarrow> r ! e = built ! e))"
  using assms(2)
proof (induction k arbitrary: built rule: inc_induct)
  case (step k)
  from ok have csr: "csr_base_ok g (g_outOffsetBase g) (g_outEdgeBase g)" by (simp add: geometry_ok_def)
  have slots: "\<forall>s \<in> set (bucket g (g_outOffsetBase g) k). s < g_edgeCount g"
    using bucket_slots(1) [OF csr step.hyps(2)] by blast
  from fill_bucket_ok [OF csr slots, of k built] obtain built'
    where b: "fill_bucket g k (bucket g (g_outOffsetBase g) k) built = Inr built'"
      "length built' = length built"
      "\<forall>e < length built. built' ! e = (if e \<in> set (out_edges g k) then k else built ! e)"
    unfolding out_edges_def by blast
  from step.IH [of built'] obtain r where r: "fill_sources g [Suc k..<g_nodeCount g] built' = Inr r"
    "length r = length built'"
    "\<forall>e < length built'.
         (\<forall>n. Suc k \<le> n \<longrightarrow> n < g_nodeCount g \<longrightarrow> e \<in> set (out_edges g n) \<longrightarrow> \<not> owner_above g e n \<longrightarrow> r ! e = n)
         \<and> ((\<forall>n. Suc k \<le> n \<longrightarrow> n < g_nodeCount g \<longrightarrow> e \<notin> set (out_edges g n)) \<longrightarrow> r ! e = built' ! e)"
    by blast
  have "fill_sources g [k..<g_nodeCount g] built = Inr r"
    using step.hyps(2) csr_reads [OF csr step.hyps(2)] b(1) r(1)
    by (simp add: upt_conv_Cons bucket_def)
  moreover have "r ! e = n" if "e < length built" "k \<le> n" "n < g_nodeCount g" "e \<in> set (out_edges g n)"
    "\<not> owner_above g e n" for e n
  proof (cases "n = k")
    case True
    have "\<forall>n. Suc k \<le> n \<longrightarrow> n < g_nodeCount g \<longrightarrow> e \<notin> set (out_edges g n)"
      using that(5) True by (auto simp: owner_above_def)
    with r(3) b(2,3) that(1,4) True show ?thesis by simp
  next
    case False
    with r(3) b(2) that show ?thesis by simp
  qed
  moreover have "r ! e = built ! e" if "e < length built"
    "\<forall>n. k \<le> n \<longrightarrow> n < g_nodeCount g \<longrightarrow> e \<notin> set (out_edges g n)" for e
    using r(3) b(2,3) that step.hyps by simp
  ultimately show ?case using r(2) b(2) by auto
qed simp

lemma fill_bucket_set:
  "fill_bucket g node slots built = Inr built' \<Longrightarrow> set built' \<subseteq> insert node (set built)"
proof (induction slots arbitrary: built)
  case (Cons s slots)
  then obtain edge where "fill_bucket g node slots (built[edge := node]) = Inr built'"
    by (auto simp: rbind_Inr_iff)
  from Cons.IH [OF this] show ?case using set_update_subset_insert [of built edge node] by blast
qed auto

lemma fill_sources_set:
  "fill_sources g nodes built = Inr built' \<Longrightarrow> set built' \<subseteq> set nodes \<union> set built"
proof (induction nodes arbitrary: built)
  case (Cons node nodes)
  then obtain start stop built1 where b: "fill_bucket g node [start..<stop] built = Inr built1"
      "fill_sources g nodes built1 = Inr built'"
    by (auto simp: rbind_Inr_iff)
  from Cons.IH [OF b(2)] fill_bucket_set [OF b(1)] show ?case by auto
qed auto

text \<open>Every source the index names is a node.\<close>

lemma edge_sources_live:
  assumes "buildEdgeSourceIndex g = Inr sources" "0 < g_nodeCount g" "e < length sources"
  shows "sources ! e < g_nodeCount g"
proof -
  have "sources ! e \<in> set sources" using assms(3) by simp
  also have "\<dots> \<subseteq> insert 0 {0..<g_nodeCount g}"
    using fill_sources_set [OF assms(1) [unfolded buildEdgeSourceIndex_def]] by auto
  finally show ?thesis using assms(2) by auto
qed

lemma edge_source_index:
  assumes "geometry_ok g"
  obtains r where "buildEdgeSourceIndex g = Inr r" "length r = g_edgeCount g"
    "\<And>e n. n < g_nodeCount g \<Longrightarrow> e \<in> set (out_edges g n) \<Longrightarrow> \<not> owner_above g e n \<Longrightarrow> r ! e = n"
proof -
  from fill_sources_ok [OF assms, of 0 "replicate (g_edgeCount g) 0"] obtain r
    where r: "buildEdgeSourceIndex g = Inr r" "length r = g_edgeCount g"
      "\<forall>e < g_edgeCount g. \<forall>n. n < g_nodeCount g \<longrightarrow> e \<in> set (out_edges g n) \<longrightarrow> \<not> owner_above g e n \<longrightarrow> r ! e = n"
    by (auto simp: buildEdgeSourceIndex_def)
  from assms have csr: "csr_base_ok g (g_outOffsetBase g) (g_outEdgeBase g)" by (simp add: geometry_ok_def)
  have "e < g_edgeCount g" if "n < g_nodeCount g" "e \<in> set (out_edges g n)" for e n
    using bucket_slots(2) [OF csr that(1)] that(2) by (auto simp: out_edges_def)
  with r show thesis by (intro that [of r]) blast+
qed

section \<open>What traversal returns\<close>

text \<open>
  C33. In an opened index, iterating an outgoing cursor never throws, and yields exactly
  the edges of the node's CSR bucket that share a bit with the profile mask, in bucket
  order, each with the fields of its own row. The cursor it leaves stands on no edge and has
  counted every row of the bucket as visited, those the mask hides included.
\<close>

theorem outgoing_edges_exact:
  assumes "geometry_ok g" and "node < g_nodeCount g"
  shows "\<exists>c. rbind (openOutgoingCursor g node profileMask) (cursor_run g)
       = Inr (map (edge_row g None) (filter (passes g profileMask) (out_edges g node)), c)
     \<and> exhausted (length (out_edges g node)) c"
proof -
  from open_outgoing [OF assms, of profileMask] obtain c where c: "openOutgoingCursor g node profileMask = Inr c"
    "cursor_ok g c" "c_edgeSource c = None" "remaining g c = filter (passes g profileMask) (out_edges g node)"
    "c_visited c = 0" "c_end c - c_position c = length (out_edges g node)" .
  with cursor_run_remaining [OF c(2)] show ?thesis by auto
qed

theorem outgoing_edges_exact_witness:
  "\<exists>c. rbind (openOutgoingCursor tiny_geometry 0 1) (cursor_run tiny_geometry)
       = Inr (map (edge_row tiny_geometry None) (filter (passes tiny_geometry 1) (out_edges tiny_geometry 0)), c)
     \<and> exhausted (length (out_edges tiny_geometry 0)) c"
  by (rule outgoing_edges_exact) (simp_all add: tiny_geometry_ok tiny_simps)

text \<open>
  The edge source index recovers the edge's source: reading incoming edges through it
  never throws, yields the in-bucket edges that pass the mask, and reports for each of
  them the last node whose out-bucket lists the edge.
\<close>

theorem incoming_edges_exact:
  assumes "geometry_ok g" and "node < g_nodeCount g"
  shows "\<exists>sources. buildEdgeSourceIndex g = Inr sources
     \<and> rbind (openIncomingCursor g sources node profileMask) (cursor_drain g)
         = Inr (map (edge_row g (Some sources)) (filter (passes g profileMask) (in_edges g node)))
     \<and> (\<forall>n < g_nodeCount g. \<forall>e \<in> set (out_edges g n).
          \<not> owner_above g e n \<longrightarrow> es_target (edge_row g (Some sources) e) = n)"
proof -
  from edge_source_index [OF assms(1)] obtain sources where s: "buildEdgeSourceIndex g = Inr sources"
    "length sources = g_edgeCount g"
    "\<And>e n. n < g_nodeCount g \<Longrightarrow> e \<in> set (out_edges g n) \<Longrightarrow> \<not> owner_above g e n \<Longrightarrow> sources ! e = n"
    by blast
  from open_incoming [OF assms s(2), of profileMask] obtain c
    where c: "openIncomingCursor g sources node profileMask = Inr c" "cursor_ok g c"
      "c_edgeSource c = Some sources" "remaining g c = filter (passes g profileMask) (in_edges g node)"
    by blast
  with s cursor_drain_remaining [OF c(2)] show ?thesis by (auto simp: edge_row_def)
qed

theorem incoming_edges_exact_witness:
  "\<exists>sources. buildEdgeSourceIndex tiny_geometry = Inr sources
     \<and> rbind (openIncomingCursor tiny_geometry sources 0 1) (cursor_drain tiny_geometry)
         = Inr (map (edge_row tiny_geometry (Some sources))
             (filter (passes tiny_geometry 1) (in_edges tiny_geometry 0)))
     \<and> (\<forall>n < g_nodeCount tiny_geometry. \<forall>e \<in> set (out_edges tiny_geometry n).
          \<not> owner_above tiny_geometry e n
            \<longrightarrow> es_target (edge_row tiny_geometry (Some sources) e) = n)"
  by (rule incoming_edges_exact) (simp_all add: tiny_geometry_ok tiny_simps)

end
