(* ===== verification/Reader_Lookup.thy ===== *)
theory Reader_Lookup
  imports Reader_Cursor "HOL-Library.AList" "HOL-Library.Product_Lexorder"
begin

text \<open>
  runtime-index/reader-lookup.ts: binary search of a term's posting run, posting slices,
  and the posting merge with its document-frequency weight.

  The merge's \<open>Map\<close> from node to score is an association list in insertion order, its
  comparator sort a sort by the key (score descending, node ascending). The merge is
  proved equal to a declarative ranking of the posted nodes.
\<close>

section \<open>Lookup\<close>

definition CONTEXT_INDEX_FIELD_MASK_ALL :: nat where "CONTEXT_INDEX_FIELD_MASK_ALL = 0xffff"

function term_search ::
  "ContextIndexGeometry \<Rightarrow> nat \<Rightarrow> int \<Rightarrow> int \<Rightarrow> int \<Rightarrow> (nat \<times> nat) option res" where
  "term_search g base termId low high =
    (if low \<le> high then
       (let mid = (low + high) div 2;
            pos = base + nat mid * CONTEXT_INDEX_TERM_ROW_BYTES in
        rbind (get_u32 (g_bytes g) (pos + TERM_ID_AT)) (\<lambda>probe.
        if int probe = termId then
          rbind (get_u32 (g_bytes g) (pos + TERM_POSTING_START_AT)) (\<lambda>start.
          rbind (get_u32 (g_bytes g) (pos + TERM_POSTING_COUNT_AT)) (\<lambda>cnt.
          Inr (Some (start, cnt))))
        else if int probe < termId then term_search g base termId (mid + 1) high
        else term_search g base termId low (mid - 1)))
     else Inr None)"
  by pat_completeness auto
termination
  by (relation "measure (\<lambda>(_, _, _, low, high). nat (high - low + 1))") auto

declare term_search.simps [simp del]

definition termRun :: "ContextIndexGeometry \<Rightarrow> ContextIndexLane \<Rightarrow> int \<Rightarrow> (nat \<times> nat) option res" where
  "termRun g lane termId =
     term_search g (sd_offset (lane_terms lane)) termId 0 (int (sd_count (lane_terms lane)) - 1)"

definition postingsFor :: "ContextIndexGeometry \<Rightarrow> ContextIndexLane \<Rightarrow> int \<Rightarrow> PostingSlice res" where
  "postingsFor g lane termId =
    (if termId < 0 then Inr EMPTY_POSTINGS else
     rbind (termRun g lane termId) (\<lambda>run.
     case run of
       None \<Rightarrow> Inr EMPTY_POSTINGS
     | Some (start, cnt) \<Rightarrow>
        (if cnt = 0 then Inr EMPTY_POSTINGS
         else Inr (BufferPostingSlice (g_bytes g) (sd_offset (lane_postings lane) + start * 4) cnt))))"

definition termIdOf :: "ContextIndexGeometry \<Rightarrow> js_string \<Rightarrow> int res" where
  "termIdOf g term = stringIdOf g term"

definition exactPostings :: "ContextIndexGeometry \<Rightarrow> js_string \<Rightarrow> nat \<Rightarrow> PostingSlice res" where
  "exactPostings g term fieldMask =
    (if fieldMask AND CONTEXT_INDEX_FIELD_MASK_ALL = 0 then Inr EMPTY_POSTINGS
     else rbind (stringIdOf g term) (postingsFor g (g_exact g)))"

definition basenamePostings :: "ContextIndexGeometry \<Rightarrow> js_string \<Rightarrow> PostingSlice res" where
  "basenamePostings g term = rbind (stringIdOf g term) (postingsFor g (g_basename g))"

section \<open>Merge\<close>

record ContextIndexQueryBounds =
  postingCapPerTerm :: int
  candidateBudget :: int

text \<open>Storing a number in an \<open>Int32Array\<close>.\<close>

definition to_int32 :: "int \<Rightarrow> int" where
  "to_int32 n = sint (word_of_int n :: 32 word)"

definition rarityWeight :: "nat \<Rightarrow> nat \<Rightarrow> int" where
  "rarityWeight nodes documentFrequency =
    (if nodes = 0 \<or> documentFrequency = 0 then 1
     else let rare = nodes - min documentFrequency nodes in
       1 + (CONTEXT_INDEX_FIXED_POINT_SCALE * int rare) div int nodes)"

type_synonym score_map = "(nat \<times> int) list"

definition score_of :: "score_map \<Rightarrow> nat \<Rightarrow> int" where
  "score_of scores n = (case map_of scores n of None \<Rightarrow> 0 | Some s \<Rightarrow> s)"

fun merge_run :: "ContextIndexGeometry \<Rightarrow> nat \<Rightarrow> int \<Rightarrow> nat list \<Rightarrow> score_map \<Rightarrow> score_map res" where
  "merge_run g postingBase weight [] scores = Inr scores"
| "merge_run g postingBase weight (slot # slots) scores =
    rbind (get_u32 (g_bytes g) (postingBase + slot * 4)) (\<lambda>node.
    merge_run g postingBase weight slots (AList.update node (score_of scores node + weight) scores))"

record merge_state =
  ms_scores :: score_map
  ms_matched :: nat
  ms_truncated :: bool

fun merge_terms ::
  "ContextIndexGeometry \<Rightarrow> ContextIndexLane \<Rightarrow> nat \<Rightarrow> int list \<Rightarrow> merge_state \<Rightarrow> merge_state res" where
  "merge_terms g lane perTerm [] st = Inr st"
| "merge_terms g lane perTerm (termId # ts) st =
    rbind (termRun g lane termId) (\<lambda>run.
    case run of
      None \<Rightarrow> merge_terms g lane perTerm ts st
    | Some (start, cnt) \<Rightarrow>
       (if cnt = 0 then merge_terms g lane perTerm ts st else
        let take' = min cnt perTerm;
            weight = rarityWeight (g_nodeCount g) cnt in
        rbind (merge_run g (sd_offset (lane_postings lane)) weight
                 (map (\<lambda>index. start + index) [0..<take']) (ms_scores st)) (\<lambda>scores.
        merge_terms g lane perTerm ts
          \<lparr>ms_scores = scores, ms_matched = ms_matched st + 1,
           ms_truncated = (ms_truncated st \<or> take' < cnt)\<rparr>)))"

definition rank_key :: "(nat \<Rightarrow> int) \<Rightarrow> nat \<Rightarrow> int \<times> nat" where
  "rank_key score n = (- score n, n)"

definition mergePostings ::
  "ContextIndexGeometry \<Rightarrow> ContextIndexLane \<Rightarrow> int list \<Rightarrow> ContextIndexQueryBounds
     \<Rightarrow> ScoredPostingSlice res" where
  "mergePostings g lane termIds plan =
    (let perTerm = nat (max 0 (postingCapPerTerm plan));
         budget = nat (max 0 (candidateBudget plan)) in
     if sd_count (lane_terms lane) = 0 \<or> perTerm = 0 \<or> budget = 0 \<or> termIds = []
     then Inr EMPTY_SCORED_POSTINGS else
     rbind (merge_terms g lane perTerm (sort (remdups termIds))
              \<lparr>ms_scores = [], ms_matched = 0, ms_truncated = False\<rparr>) (\<lambda>st.
     if ms_scores st = [] then Inr EMPTY_SCORED_POSTINGS else
     let scores = ms_scores st;
         ordered = sort_key (rank_key (score_of scores)) (map fst scores);
         truncated = (ms_truncated st \<or> length ordered > budget);
         kept = take budget ordered in
     Inr (ArrayScoredPostingSlice kept (map (\<lambda>n. to_int32 (score_of scores n)) kept)
            (ms_matched st) truncated)))"

section \<open>Term runs\<close>

definition term_id :: "ContextIndexGeometry \<Rightarrow> ContextIndexLane \<Rightarrow> nat \<Rightarrow> nat" where
  "term_id g lane i = row_at 4 (g_bytes g) (lane_terms lane) 12 i 0"

definition term_run_at :: "ContextIndexGeometry \<Rightarrow> ContextIndexLane \<Rightarrow> nat \<Rightarrow> nat \<times> nat" where
  "term_run_at g lane i = (row_at 4 (g_bytes g) (lane_terms lane) 12 i 4,
     row_at 4 (g_bytes g) (lane_terms lane) 12 i 8)"

abbreviation term_count :: "ContextIndexLane \<Rightarrow> nat" where
  "term_count lane \<equiv> sd_count (lane_terms lane)"

text \<open>The postings of a term: the run of its row, or nothing.\<close>

definition term_row :: "ContextIndexGeometry \<Rightarrow> ContextIndexLane \<Rightarrow> int \<Rightarrow> nat option" where
  "term_row g lane t = find (\<lambda>i. int (term_id g lane i) = t) [0..<term_count lane]"

definition posting_at :: "ContextIndexGeometry \<Rightarrow> ContextIndexLane \<Rightarrow> nat \<Rightarrow> nat" where
  "posting_at g lane slot = row_at 4 (g_bytes g) (lane_postings lane) 4 slot 0"

definition term_postings :: "ContextIndexGeometry \<Rightarrow> ContextIndexLane \<Rightarrow> int \<Rightarrow> nat list" where
  "term_postings g lane t = (case term_row g lane t of None \<Rightarrow> []
     | Some i \<Rightarrow> (case term_run_at g lane i of (start, cnt) \<Rightarrow>
         map (posting_at g lane) [start..<start + cnt]))"

lemma lane_reads:
  assumes "geometry_lane_ok g lane" "i < term_count lane" "fld + 4 \<le> 12"
  shows "get_u32 (g_bytes g) (sd_offset (lane_terms lane) + i * 12 + fld)
     = Inr (row_at 4 (g_bytes g) (lane_terms lane) 12 i fld)"
proof -
  have "sd_offset (lane_terms lane) + sd_length (lane_terms lane) \<le> length (g_bytes g)"
    "term_count lane * 12 \<le> sd_length (lane_terms lane)"
    using assms(1) by (auto simp: geometry_lane_ok_def lane_ok_def references_ok_def sd_end_def)
  from file_read [OF this(1) assms(2) this(2) assms(3)] show ?thesis by (simp add: row_at_def)
qed

lemma posting_read:
  assumes "geometry_lane_ok g lane" "slot < sd_count (lane_postings lane)"
  shows "get_u32 (g_bytes g) (sd_offset (lane_postings lane) + slot * 4) = Inr (posting_at g lane slot)"
    "posting_at g lane slot < g_nodeCount g"
proof -
  have r: "references_ok (g_bytes g) (lane_postings lane) 4 0 (g_nodeCount g)"
    using assms(1) by (simp add: geometry_lane_ok_def lane_ok_def)
  then have "sd_offset (lane_postings lane) + sd_length (lane_postings lane) \<le> length (g_bytes g)"
    "sd_count (lane_postings lane) * 4 \<le> sd_length (lane_postings lane)"
    by (auto simp: references_ok_def sd_end_def)
  from file_read [OF this(1) assms(2) this(2), of 0 4]
  show "get_u32 (g_bytes g) (sd_offset (lane_postings lane) + slot * 4) = Inr (posting_at g lane slot)"
    by (simp add: posting_at_def row_at_def)
  show "posting_at g lane slot < g_nodeCount g"
    using r assms(2) by (auto simp: references_ok_def posting_at_def row_at_def)
qed

lemma term_id_mono:
  assumes "geometry_lane_ok g lane" "i < j" "j < term_count lane"
  shows "term_id g lane i < term_id g lane j"
  using assms(2,3)
proof (induction j rule: less_induct)
  case (less j)
  have step: "Suc k < term_count lane \<Longrightarrow> term_id g lane k < term_id g lane (Suc k)" for k
    using assms(1) by (simp add: geometry_lane_ok_def lane_ok_def term_rows_ok_def term_id_def)
  from less.prems obtain k where k: "j = Suc k" "i \<le> k" by (cases j) auto
  show ?case
  proof (cases "i = k")
    case True
    then show ?thesis using step k less.prems by simp
  next
    case False
    then have "term_id g lane i < term_id g lane k" using less k by simp
    also have "\<dots> < term_id g lane j" using step k less.prems by simp
    finally show ?thesis .
  qed
qed

lemma term_run_in_postings:
  assumes "geometry_lane_ok g lane" "i < term_count lane" "term_run_at g lane i = (start, cnt)"
  shows "start + cnt \<le> sd_count (lane_postings lane)"
  using assms by (auto simp: geometry_lane_ok_def lane_ok_def term_rows_ok_def term_run_at_def)

lemma term_row_iff:
  assumes "geometry_lane_ok g lane"
  shows "term_row g lane t = Some i \<longleftrightarrow> i < term_count lane \<and> int (term_id g lane i) = t"
proof
  assume "term_row g lane t = Some i"
  then show "i < term_count lane \<and> int (term_id g lane i) = t"
    by (auto simp: term_row_def find_Some_iff)
next
  assume i: "i < term_count lane \<and> int (term_id g lane i) = t"
  have "int (term_id g lane j) \<noteq> t" if "j < i" for j
    using term_id_mono [OF assms that] i by auto
  with i show "term_row g lane t = Some i"
    unfolding term_row_def find_Some_iff by (intro exI [of _ i]) auto
qed

lemma term_search_correct:
  assumes ok: "geometry_lane_ok g lane" and "base = sd_offset (lane_terms lane)"
    and "0 \<le> low" and "high < int (term_count lane)"
    and "\<forall>i < term_count lane. int i < low \<longrightarrow> int (term_id g lane i) < t"
    and "\<forall>i < term_count lane. high < int i \<longrightarrow> t < int (term_id g lane i)"
  shows "term_search g base t low high = Inr (map_option (term_run_at g lane) (term_row g lane t))"
  using assms
proof (induction g base t low high rule: term_search.induct)
  case (1 g base t low high)
  note prems = "1.prems"
  show ?case
  proof (cases "low \<le> high")
    case False
    have "term_row g lane t = None"
    proof (rule ccontr)
      assume "term_row g lane t \<noteq> None"
      then obtain i where i: "i < term_count lane" "int (term_id g lane i) = t"
        using term_row_iff [OF prems(1)] by auto
      from False have "int i < low \<or> high < int i" by linarith
      with i prems(5,6) show False by auto
    qed
    with False show ?thesis by (subst term_search.simps) simp
  next
    case True
    define mid where "mid = (low + high) div 2"
    have mid: "low \<le> mid" "mid \<le> high" using bisect_mid [OF True] by (simp_all add: mid_def)
    then have m: "nat mid < term_count lane" "int (nat mid) = mid" using prems(3,4) by auto
    let ?p = "int (term_id g lane (nat mid))"
    have rd: "get_u32 (g_bytes g) (base + nat mid * 12 + 0) = Inr (term_id g lane (nat mid))"
      "get_u32 (g_bytes g) (base + nat mid * 12 + 4) = Inr (fst (term_run_at g lane (nat mid)))"
      "get_u32 (g_bytes g) (base + nat mid * 12 + 8) = Inr (snd (term_run_at g lane (nat mid)))"
      unfolding prems(2) term_id_def term_run_at_def fst_conv snd_conv
      by (rule lane_reads [OF prems(1) m(1)]; simp)+
    have mono: "i < j \<Longrightarrow> j < term_count lane \<Longrightarrow> term_id g lane i < term_id g lane j" for i j
      using term_id_mono [OF prems(1)] .
    have step: "term_search g base t low high = (if ?p = t then Inr (Some (term_run_at g lane (nat mid)))
        else if ?p < t then term_search g base t (mid + 1) high
        else term_search g base t low (mid - 1))"
      using True unfolding term_search.simps [of g base t low high] Let_def mid_def [symmetric] rows rd rbind_simps
      by simp
    consider "?p = t" | "?p < t" | "t < ?p" by (rule linorder_cases)
    then show ?thesis
    proof cases
      case 1
      then have "term_row g lane t = Some (nat mid)" using term_row_iff [OF prems(1)] m(1) by simp
      with step 1 show ?thesis by simp
    next
      case 2
      have "\<forall>i < term_count lane. int i < mid + 1 \<longrightarrow> int (term_id g lane i) < t"
      proof (intro allI impI)
        fix i assume i: "i < term_count lane" "int i < mid + 1"
        then have "i = nat mid \<or> i < nat mid" by linarith
        then show "int (term_id g lane i) < t" using 2 m(1) mono [of i "nat mid"] by auto
      qed
      then have "term_search g base t (mid + 1) high = Inr (map_option (term_run_at g lane) (term_row g lane t))"
        using 2 less_imp_neq [OF 2] prems mid rd(1)
        by (intro "1.IH"(1) [OF True mid_def refl, of "term_id g lane (nat mid)"]) (auto simp: rows)
      with 2 step show ?thesis by simp
    next
      case 3
      have "\<forall>i < term_count lane. mid - 1 < int i \<longrightarrow> t < int (term_id g lane i)"
      proof (intro allI impI)
        fix i assume i: "i < term_count lane" "mid - 1 < int i"
        then have "i = nat mid \<or> nat mid < i" by linarith
        then show "t < int (term_id g lane i)" using 3 i(1) mono [of "nat mid" i] by auto
      qed
      then have "term_search g base t low (mid - 1) = Inr (map_option (term_run_at g lane) (term_row g lane t))"
        using 3 less_imp_neq [OF 3] less_asym [OF 3] prems mid rd(1)
        by (intro "1.IH"(2) [OF True mid_def refl, of "term_id g lane (nat mid)"]) (auto simp: rows)
      with 3 step show ?thesis by simp
    qed
  qed
qed

lemma termRun_correct:
  "geometry_lane_ok g lane \<Longrightarrow>
     termRun g lane t = Inr (map_option (term_run_at g lane) (term_row g lane t))"
  unfolding termRun_def by (rule term_search_correct) auto

section \<open>What the merge computes\<close>

text \<open>
  The specification: a node's score is the sum over the distinct query terms of the
  term's rarity weight, once for each of the first \<open>cap\<close> postings of that term that name
  the node; the answer is the best \<open>budget\<close> nodes, score descending, node ascending.
\<close>

definition term_weight :: "ContextIndexGeometry \<Rightarrow> ContextIndexLane \<Rightarrow> int \<Rightarrow> int" where
  "term_weight g lane t = rarityWeight (g_nodeCount g) (length (term_postings g lane t))"

definition merge_score :: "ContextIndexGeometry \<Rightarrow> ContextIndexLane \<Rightarrow> nat \<Rightarrow> int list \<Rightarrow> nat \<Rightarrow> int" where
  "merge_score g lane cap ts n = (\<Sum>t \<leftarrow> ts.
     term_weight g lane t * int (count_list (take cap (term_postings g lane t)) n))"

definition merge_ranking :: "ContextIndexGeometry \<Rightarrow> ContextIndexLane \<Rightarrow> int list
    \<Rightarrow> ContextIndexQueryBounds \<Rightarrow> (nat \<times> int) list" where
  "merge_ranking g lane ts plan =
    (let cap = nat (postingCapPerTerm plan);
         score = merge_score g lane cap (sort (remdups ts)) in
     map (\<lambda>n. (n, to_int32 (score n)))
       (take (nat (candidateBudget plan))
         (sort_key (rank_key score) (filter (\<lambda>n. 0 < score n) [0..<g_nodeCount g]))))"

fun scored_pairs :: "ScoredPostingSlice \<Rightarrow> (nat \<times> int) list" where
  "scored_pairs (ArrayScoredPostingSlice nodes scores matched truncated) = zip nodes scores"
| "scored_pairs EMPTY_SCORED_POSTINGS = []"

lemma rarityWeight_bounds: "1 \<le> rarityWeight n d \<and> rarityWeight n d \<le> 1001"
proof (cases "n = 0 \<or> d = 0")
  case True
  then show ?thesis by (auto simp: rarityWeight_def)
next
  case False
  let ?r = "n - min d n"
  have "1000 * int ?r div int n \<le> 1000 * int n div int n"
    using False by (intro zdiv_mono1) auto
  moreover have "0 \<le> 1000 * int ?r div int n" using False by (simp add: pos_imp_zdiv_nonneg_iff)
  ultimately show ?thesis
    using False by (simp add: rarityWeight_def CONTEXT_INDEX_FIXED_POINT_SCALE_def Let_def)
qed

definition scores_ok :: "score_map \<Rightarrow> bool" where
  "scores_ok scores \<longleftrightarrow> distinct (map fst scores) \<and> (\<forall>(n, s) \<in> set scores. 0 < s)"

lemma score_of_update: "score_of (AList.update k v scores) n = (if n = k then v else score_of scores n)"
  by (simp add: score_of_def update_conv)

lemma score_of_pos_iff: "scores_ok scores \<Longrightarrow> 0 < score_of scores n \<longleftrightarrow> n \<in> fst ` set scores"
proof -
  assume ok: "scores_ok scores"
  show ?thesis
  proof (cases "map_of scores n")
    case None
    then have "n \<notin> fst ` set scores" by (simp add: map_of_eq_None_iff)
    with None show ?thesis by (simp add: score_of_def)
  next
    case (Some s)
    then have "(n, s) \<in> set scores" by (rule map_of_SomeD)
    with ok Some show ?thesis by (force simp: score_of_def scores_ok_def)
  qed
qed

lemma score_of_nonneg: "scores_ok scores \<Longrightarrow> 0 \<le> score_of scores n"
  by (auto simp: score_of_def scores_ok_def split: option.splits dest: map_of_SomeD)

lemma scores_ok_update:
  assumes "scores_ok scores" "0 < v"
  shows "scores_ok (AList.update k v scores)"
proof -
  have "set (AList.update k v scores) \<subseteq> insert (k, v) (set scores)"
    by (induction scores) auto
  with assms show ?thesis by (auto simp: scores_ok_def distinct_update)
qed

lemma merge_run_ok:
  assumes lane: "geometry_lane_ok g lane" and "0 < w"
    and "\<forall>s \<in> set slots. s < sd_count (lane_postings lane)" and "scores_ok scores"
  shows "\<exists>scores'. merge_run g (sd_offset (lane_postings lane)) w slots scores = Inr scores'
     \<and> scores_ok scores'
     \<and> (\<forall>n. score_of scores' n = score_of scores n
            + w * int (count_list (map (posting_at g lane) slots) n))"
  using assms(3,4)
proof (induction slots arbitrary: scores)
  case (Cons s slots)
  let ?n = "posting_at g lane s"
  let ?scores = "AList.update ?n (score_of scores ?n + w) scores"
  have "scores_ok ?scores"
    using Cons.prems assms(2) score_of_nonneg [of scores ?n] by (intro scores_ok_update) auto
  with Cons obtain scores' where s': "merge_run g (sd_offset (lane_postings lane)) w slots ?scores = Inr scores'"
    "scores_ok scores'"
    "\<forall>n. score_of scores' n = score_of ?scores n + w * int (count_list (map (posting_at g lane) slots) n)"
    by fastforce
  moreover have "get_u32 (g_bytes g) (sd_offset (lane_postings lane) + s * 4) = Inr ?n"
    using posting_read [OF lane] Cons.prems by simp
  ultimately show ?case
    by (intro exI [of _ scores']) (simp add: score_of_update algebra_simps)
qed simp

lemma term_postings_run:
  "term_row g lane t = Some i \<Longrightarrow> term_run_at g lane i = (start, cnt) \<Longrightarrow>
     term_postings g lane t = map (posting_at g lane) [start..<start + cnt]"
  by (simp add: term_postings_def)

lemma take_run: "map (\<lambda>index. start + index) [0..<min cnt cap] = take cap [start..<start + cnt]"
  by (rule nth_equalityI) simp_all

lemma merge_terms_ok:
  assumes lane: "geometry_lane_ok g lane" and "scores_ok (ms_scores st)"
  shows "\<exists>st'. merge_terms g lane cap ts st = Inr st' \<and> scores_ok (ms_scores st')
     \<and> (\<forall>n. score_of (ms_scores st') n = score_of (ms_scores st) n + merge_score g lane cap ts n)
     \<and> ms_matched st' = ms_matched st + length (filter (\<lambda>t. term_postings g lane t \<noteq> []) ts)
     \<and> (ms_truncated st' \<longleftrightarrow> ms_truncated st \<or> (\<exists>t \<in> set ts. cap < length (term_postings g lane t)))"
  using assms(2)
proof (induction ts arbitrary: st)
  case Nil
  then show ?case by (simp add: merge_score_def)
next
  case (Cons t ts)
  let ?P = "term_postings g lane t"
  show ?case
  proof (cases "?P = []")
    case True
    then have "merge_terms g lane cap (t # ts) st = merge_terms g lane cap ts st"
      using termRun_correct [OF lane, of t]
      by (auto simp: term_postings_def split: option.splits prod.splits)
    with True Cons show ?thesis by (simp add: merge_score_def)
  next
    case False
    then obtain i where i: "term_row g lane t = Some i" by (cases "term_row g lane t") (auto simp: term_postings_def)
    obtain start cnt where run: "term_run_at g lane i = (start, cnt)" by fastforce
    have P: "?P = map (posting_at g lane) [start..<start + cnt]" by (rule term_postings_run [OF i run])
    then have cnt: "cnt \<noteq> 0" "length ?P = cnt" using False by auto
    let ?w = "rarityWeight (g_nodeCount g) cnt"
    have "i < term_count lane" using i term_row_iff [OF lane] by simp
    then have "start + cnt \<le> sd_count (lane_postings lane)" by (rule term_run_in_postings [OF lane _ run])
    then have "\<forall>s \<in> set (take cap [start..<start + cnt]). s < sd_count (lane_postings lane)"
      by (auto dest: in_set_takeD)
    from merge_run_ok [OF lane _ this Cons.prems, of ?w] rarityWeight_bounds [of "g_nodeCount g" cnt]
    obtain scores' where m: "merge_run g (sd_offset (lane_postings lane)) ?w (take cap [start..<start + cnt]) (ms_scores st) = Inr scores'"
      "scores_ok scores'"
      "\<forall>n. score_of scores' n = score_of (ms_scores st) n
            + ?w * int (count_list (map (posting_at g lane) (take cap [start..<start + cnt])) n)"
      by fastforce
    let ?st = "\<lparr>ms_scores = scores', ms_matched = ms_matched st + 1,
           ms_truncated = (ms_truncated st \<or> min cnt cap < cnt)\<rparr>"
    have "merge_terms g lane cap (t # ts) st = merge_terms g lane cap ts ?st"
      using termRun_correct [OF lane, of t] i run cnt(1) m(1) by (simp add: take_run Let_def)
    moreover from Cons.IH [of ?st] m(2) obtain st' where st': "merge_terms g lane cap ts ?st = Inr st'"
      "scores_ok (ms_scores st')"
      "\<forall>n. score_of (ms_scores st') n = score_of scores' n + merge_score g lane cap ts n"
      "ms_matched st' = ms_matched st + 1 + length (filter (\<lambda>t. term_postings g lane t \<noteq> []) ts)"
      "ms_truncated st' \<longleftrightarrow> (ms_truncated st \<or> min cnt cap < cnt) \<or> (\<exists>t \<in> set ts. cap < length (term_postings g lane t))"
      by fastforce
    moreover have "merge_score g lane cap (t # ts) n = ?w * int (count_list (map (posting_at g lane) (take cap [start..<start + cnt])) n)
        + merge_score g lane cap ts n" for n
      by (simp add: merge_score_def term_weight_def cnt(2)) (simp add: P take_map)
    ultimately show ?thesis using m(3) False cnt(2) by auto
  qed
qed

lemma sort_key_unique:
  fixes f :: "'a \<Rightarrow> 'b :: linorder"
  assumes "distinct xs" "distinct ys" "set xs = set ys" "inj f"
  shows "sort_key f xs = sort_key f ys"
proof -
  have "map f (sort_key f xs) = map f (sort_key f ys)"
    using assms by (intro sorted_distinct_set_unique) (auto simp: distinct_map inj_on_def)
  with assms(4) show ?thesis by (simp add: inj_map_eq_map)
qed

lemma inj_rank_key: "inj (rank_key s)"
  by (simp add: inj_def rank_key_def)

lemma posted_node_bound:
  assumes "geometry_lane_ok g lane" "merge_score g lane cap ts n \<noteq> 0"
  shows "n < g_nodeCount g"
proof (rule ccontr)
  assume n: "\<not> n < g_nodeCount g"
  have "n \<notin> set (term_postings g lane t)" for t
  proof
    assume "n \<in> set (term_postings g lane t)"
    then obtain i where i0: "term_row g lane t = Some i"
      by (cases "term_row g lane t") (auto simp: term_postings_def)
    obtain start cnt where run: "term_run_at g lane i = (start, cnt)" by fastforce
    from \<open>n \<in> _\<close> obtain s where i: "term_row g lane t = Some i" "term_run_at g lane i = (start, cnt)"
      "s < start + cnt" "n = posting_at g lane s"
      using i0 run by (auto simp: term_postings_def)
    then have "start + cnt \<le> sd_count (lane_postings lane)"
      using term_run_in_postings [OF assms(1)] term_row_iff [OF assms(1)] by blast
    with i posting_read(2) [OF assms(1), of s] n show False by simp
  qed
  then have "n \<notin> set (take cap (term_postings g lane t))" for t by (auto dest: in_set_takeD)
  then have "merge_score g lane cap ts n = 0" by (simp add: merge_score_def count_list_0_iff)
  with assms(2) show False by simp
qed

lemma term_postings_empty: "term_count lane = 0 \<Longrightarrow> term_postings g lane t = []"
  by (simp add: term_postings_def term_row_def)

lemma merge_score_trivial:
  "cap = 0 \<or> term_count lane = 0 \<or> ts = [] \<Longrightarrow> merge_score g lane cap ts n = 0"
  by (auto simp: merge_score_def term_postings_empty)

lemma merge_postings_ranking:
  assumes lane: "geometry_lane_ok g lane"
  shows "\<exists>r. mergePostings g lane ts plan = Inr r \<and> scored_pairs r = merge_ranking g lane ts plan"
proof -
  define cap where "cap = nat (postingCapPerTerm plan)"
  define budget where "budget = nat (candidateBudget plan)"
  define score where "score = merge_score g lane cap (sort (remdups ts))"
  have nat_max: "nat (max 0 x) = nat x" for x by (simp add: max_def)
  have ranking: "merge_ranking g lane ts plan = map (\<lambda>n. (n, to_int32 (score n)))
      (take budget (sort_key (rank_key score) (filter (\<lambda>n. 0 < score n) [0..<g_nodeCount g])))"
    by (simp add: merge_ranking_def cap_def budget_def score_def Let_def)
  show ?thesis
  proof (cases "term_count lane = 0 \<or> cap = 0 \<or> budget = 0 \<or> ts = []")
    case True
    then have "mergePostings g lane ts plan = Inr EMPTY_SCORED_POSTINGS"
      by (simp add: mergePostings_def nat_max cap_def budget_def)
    moreover have "merge_ranking g lane ts plan = []"
    proof (cases "budget = 0")
      case False
      with True have "score n = 0" for n
        unfolding score_def by (intro merge_score_trivial) (auto simp: cap_def)
      then show ?thesis by (simp add: ranking)
    qed (simp add: ranking)
    ultimately show ?thesis by simp
  next
    case False
    let ?st = "\<lparr>ms_scores = [], ms_matched = 0, ms_truncated = False\<rparr>"
    have "scores_ok (ms_scores ?st)" by (simp add: scores_ok_def)
    from merge_terms_ok [OF lane this, of cap "sort (remdups ts)"] obtain st
      where st: "merge_terms g lane cap (sort (remdups ts)) ?st = Inr st" "scores_ok (ms_scores st)"
        "\<forall>n. score_of (ms_scores st) n = score n"
      by (auto simp: score_of_def score_def)
    have sc: "score_of (ms_scores st) = score" using st(3) by auto
    have keys: "set (map fst (ms_scores st)) = set (filter (\<lambda>n. 0 < score n) [0..<g_nodeCount g])"
    proof -
      have "0 < score n \<Longrightarrow> n < g_nodeCount g" for n
        using posted_node_bound [OF lane, of cap "sort (remdups ts)" n] by (simp add: score_def)
      moreover have "0 < score n \<longleftrightarrow> n \<in> set (map fst (ms_scores st))" for n
        using score_of_pos_iff [OF st(2), of n] by (simp add: sc)
      ultimately show ?thesis by auto
    qed
    have sorted: "sort_key (rank_key score) (map fst (ms_scores st))
        = sort_key (rank_key score) (filter (\<lambda>n. 0 < score n) [0..<g_nodeCount g])"
      using st(2) keys by (intro sort_key_unique inj_rank_key) (auto simp: scores_ok_def)
    show ?thesis
    proof (cases "ms_scores st = []")
      case True
      have "mergePostings g lane ts plan = Inr EMPTY_SCORED_POSTINGS"
        using False st(1) True by (simp add: mergePostings_def nat_max cap_def budget_def)
      moreover have "merge_ranking g lane ts plan = []" using sorted True by (simp add: ranking)
      ultimately show ?thesis by simp
    next
      case nonempty: False
      let ?kept = "take budget (sort_key (rank_key score) (map fst (ms_scores st)))"
      have "\<exists>m t. mergePostings g lane ts plan
          = Inr (ArrayScoredPostingSlice ?kept (map (\<lambda>n. to_int32 (score n)) ?kept) m t)"
        using False st(1) nonempty
        by (simp add: mergePostings_def nat_max cap_def budget_def sc Let_def)
      then show ?thesis by (auto simp: ranking sorted zip_map2 zip_same_conv_map comp_def)
    qed
  qed
qed

lemma postings_lookup:
  assumes "geometry_lane_ok g lane"
  shows "\<exists>slice. postingsFor g lane t = Inr slice
     \<and> posting_length slice = length (term_postings g lane t)
     \<and> (\<forall>i < posting_length slice. posting_node slice (int i) = Inr (term_postings g lane t ! i)
          \<and> term_postings g lane t ! i < g_nodeCount g)"
proof (cases "term_row g lane t")
  case None
  then show ?thesis
    using termRun_correct [OF assms, of t] by (auto simp: postingsFor_def term_postings_def)
next
  case (Some i)
  obtain start cnt where run: "term_run_at g lane i = (start, cnt)" by fastforce
  have i: "i < term_count lane" "int (term_id g lane i) = t" using Some term_row_iff [OF assms] by auto
  have P: "term_postings g lane t = map (posting_at g lane) [start..<start + cnt]"
    by (rule term_postings_run [OF Some run])
  have le: "start + cnt \<le> sd_count (lane_postings lane)" by (rule term_run_in_postings [OF assms i(1) run])
  have "\<not> t < 0" using i(2) by auto
  then have "postingsFor g lane t = (if cnt = 0 then Inr EMPTY_POSTINGS
      else Inr (BufferPostingSlice (g_bytes g) (sd_offset (lane_postings lane) + start * 4) cnt))"
    using termRun_correct [OF assms, of t] Some run by (simp add: postingsFor_def)
  moreover have "get_u32 (g_bytes g) (sd_offset (lane_postings lane) + start * 4 + k * 4)
      = Inr (posting_at g lane (start + k)) \<and> posting_at g lane (start + k) < g_nodeCount g" if "k < cnt" for k
    using posting_read [OF assms, of "start + k"] le that by (simp add: algebra_simps)
  ultimately show ?thesis using P by (cases "cnt = 0") auto
qed

text \<open>
  C32. Term lookup is correct: in an opened lane, the postings of a term id are found by
  binary search exactly when some row of the table carries that id, and the slice returns
  that run's nodes, each of them a live node, in order; any other id is a miss, and no
  lookup throws.
\<close>

theorem postings_lookup_exact:
  assumes "geometry_lane_ok g lane"
  shows "\<exists>slice. postingsFor g lane t = Inr slice
     \<and> posting_length slice = length (term_postings g lane t)
     \<and> (\<forall>i < posting_length slice. posting_node slice (int i) = Inr (term_postings g lane t ! i)
          \<and> term_postings g lane t ! i < g_nodeCount g)"
  using assms by (rule postings_lookup)

theorem postings_lookup_exact_witness:
  "\<exists>slice. postingsFor tiny_geometry tiny_lane 0 = Inr slice
     \<and> posting_length slice = length (term_postings tiny_geometry tiny_lane 0)
     \<and> (\<forall>i < posting_length slice. posting_node slice (int i) = Inr (term_postings tiny_geometry tiny_lane 0 ! i)
          \<and> term_postings tiny_geometry tiny_lane 0 ! i < g_nodeCount tiny_geometry)"
  by (rule postings_lookup_exact) (rule tiny_lane_ok)

text \<open>
  C23. The posting merge computes the declarative ranking: the nodes posted by the distinct
  query terms within the per-term cap, scored by summed rarity weights, score descending
  and node ascending, cut at the candidate budget; it never throws, and the answer does
  not depend on the order or multiplicity of the query terms.
\<close>

theorem merge_postings_exact:
  assumes "geometry_lane_ok g lane" and "set ts = set us"
  shows "\<exists>r. mergePostings g lane ts plan = Inr r \<and> scored_pairs r = merge_ranking g lane us plan"
proof -
  have "sort (remdups ts) = sort (remdups us)"
    using assms(2) by (intro sorted_distinct_set_unique) auto
  then have "merge_ranking g lane ts plan = merge_ranking g lane us plan" by (simp add: merge_ranking_def)
  with merge_postings_ranking [OF assms(1), of ts plan] show ?thesis by simp
qed

theorem merge_postings_exact_witness:
  "\<exists>r. mergePostings tiny_geometry tiny_lane [0, 7, 0] \<lparr>postingCapPerTerm = 4, candidateBudget = 2\<rparr> = Inr r
     \<and> scored_pairs r = merge_ranking tiny_geometry tiny_lane [7, 0]
         \<lparr>postingCapPerTerm = 4, candidateBudget = 2\<rparr>"
  by (rule merge_postings_exact) (auto simp: tiny_lane_ok)

end
