(* ===== verification/Reader.thy ===== *)
theory Reader
  imports Reader_Hydrate Reader_Lookup
begin

text \<open>
  runtime-index/reader.ts and runtime-index/reader-errors.ts: the reader class, its two
  memos, the bounds checks on a caller's integers, opening an index, and the public
  failure of an error.

  The class is a record (\<open>r_x\<close> for the field \<open>x\<close>); a method that fills a memo returns the
  reader after the call. \<open>requireNode\<close> and \<open>requireEdge\<close> take the caller's integer.
\<close>

unbundle bit_operations_syntax

section \<open>Failures\<close>

fun CONTEXT_INDEX_ERROR_REPAIR :: "index_error_code \<Rightarrow> string" where
  "CONTEXT_INDEX_ERROR_REPAIR Context_index_missing = ''sks align run''"
| "CONTEXT_INDEX_ERROR_REPAIR Context_index_stale = ''sks align run''"
| "CONTEXT_INDEX_ERROR_REPAIR Context_index_format_unsupported = ''sks update''"
| "CONTEXT_INDEX_ERROR_REPAIR Context_index_checksum_mismatch = ''sks align run --rebuild-index''"
| "CONTEXT_INDEX_ERROR_REPAIR Context_index_truncated = ''sks align run --rebuild-index''"
| "CONTEXT_INDEX_ERROR_REPAIR Context_index_pointer_meta_divergent =
     ''sks align run --rebuild-index''"
| "CONTEXT_INDEX_ERROR_REPAIR Context_operation_journal_corrupt =
     ''sks align run --rebuild-index''"

record ContextIndexFailure =
  failure_code :: index_error_code
  failure_repairCommand :: string

fun contextIndexFailureOf :: "js_error \<Rightarrow> ContextIndexFailure option" where
  "contextIndexFailureOf (Reader_error code) =
     Some \<lparr>failure_code = code, failure_repairCommand = CONTEXT_INDEX_ERROR_REPAIR code\<rparr>"
| "contextIndexFailureOf (Format_error code detail) =
     Some \<lparr>failure_code = CONTEXT_INDEX_FORMAT_ERRORS code,
           failure_repairCommand = formatRepairCommandFor code detail\<rparr>"
| "contextIndexFailureOf _ = None"

section \<open>The reader\<close>

record BinaryContextIndexReader =
  r_geometry :: ContextIndexGeometry
  r_snapshotHash :: string
  r_configHash :: string
  r_termCount :: nat
  r_edgeSource :: "nat list option"
  r_probe :: "(js_string \<times> bytes) option"

abbreviation r_nodeCount :: "BinaryContextIndexReader \<Rightarrow> nat" where
  "r_nodeCount r \<equiv> g_nodeCount (r_geometry r)"
abbreviation r_edgeCount :: "BinaryContextIndexReader \<Rightarrow> nat" where
  "r_edgeCount r \<equiv> g_edgeCount (r_geometry r)"

definition requireNode :: "BinaryContextIndexReader \<Rightarrow> int \<Rightarrow> unit res" where
  "requireNode r node = (if node < 0 \<or> node \<ge> int (r_nodeCount r) then Inl Range_error else Inr ())"

definition requireEdge :: "BinaryContextIndexReader \<Rightarrow> int \<Rightarrow> unit res" where
  "requireEdge r edge = (if edge < 0 \<or> edge \<ge> int (r_edgeCount r) then Inl Range_error else Inr ())"

definition nodeRow :: "BinaryContextIndexReader \<Rightarrow> int \<Rightarrow> nat res" where
  "nodeRow r node = rbind (requireNode r node) (\<lambda>_.
     Inr (g_nodeBase (r_geometry r) + nat node * CONTEXT_INDEX_NODE_ROW_BYTES))"

definition reader_termId :: "BinaryContextIndexReader \<Rightarrow> js_string \<Rightarrow> int res" where
  "reader_termId r term = termIdOf (r_geometry r) term"

definition reader_exact :: "BinaryContextIndexReader \<Rightarrow> js_string \<Rightarrow> nat option \<Rightarrow> PostingSlice res" where
  "reader_exact r term fieldMask = exactPostings (r_geometry r) term
     (case fieldMask of None \<Rightarrow> CONTEXT_INDEX_FIELD_MASK_ALL | Some m \<Rightarrow> m)"

definition reader_basename :: "BinaryContextIndexReader \<Rightarrow> js_string \<Rightarrow> PostingSlice res" where
  "reader_basename r term = basenamePostings (r_geometry r) term"

definition reader_nodeHasName ::
  "BinaryContextIndexReader \<Rightarrow> int \<Rightarrow> js_string \<Rightarrow> (bool \<times> BinaryContextIndexReader) res" where
  "reader_nodeHasName r node name =
    rbind (nodeRow r node) (\<lambda>pos.
    let probe = (case r_probe r of
          Some (n, bs) \<Rightarrow> (if n = name then (n, bs) else (name, contextIndexNameProbe name))
        | None \<Rightarrow> (name, contextIndexNameProbe name)) in
    rbind (nodeHasNameAt (r_geometry r) pos (snd probe)) (\<lambda>b.
    Inr (b, r\<lparr>r_probe := Some probe\<rparr>)))"

definition reader_lexical ::
  "BinaryContextIndexReader \<Rightarrow> int list \<Rightarrow> ContextIndexQueryBounds \<Rightarrow> ScoredPostingSlice res" where
  "reader_lexical r termIds plan = mergePostings (r_geometry r) (g_lexicon (r_geometry r)) termIds plan"

definition reader_coarse ::
  "BinaryContextIndexReader \<Rightarrow> int list \<Rightarrow> ContextIndexQueryBounds \<Rightarrow> ScoredPostingSlice res" where
  "reader_coarse r termIds plan = mergePostings (r_geometry r) (g_coarse (r_geometry r)) termIds plan"

definition reader_outgoing :: "BinaryContextIndexReader \<Rightarrow> int \<Rightarrow> nat \<Rightarrow> EdgeCursor res" where
  "reader_outgoing r node profileMask =
    rbind (requireNode r node) (\<lambda>_. openOutgoingCursor (r_geometry r) (nat node) profileMask)"

definition reader_incoming ::
  "BinaryContextIndexReader \<Rightarrow> int \<Rightarrow> nat \<Rightarrow> (EdgeCursor \<times> BinaryContextIndexReader) res" where
  "reader_incoming r node profileMask =
    rbind (requireNode r node) (\<lambda>_.
    rbind (case r_edgeSource r of
        Some sources \<Rightarrow> Inr sources
      | None \<Rightarrow> buildEdgeSourceIndex (r_geometry r)) (\<lambda>sources.
    rbind (openIncomingCursor (r_geometry r) sources (nat node) profileMask) (\<lambda>c.
    Inr (c, r\<lparr>r_edgeSource := Some sources\<rparr>))))"

definition degree_at :: "BinaryContextIndexReader \<Rightarrow> nat \<Rightarrow> int \<Rightarrow> int res" where
  "degree_at r base node =
    rbind (requireNode r node) (\<lambda>_.
    rbind (get_u32 (g_bytes (r_geometry r)) (base + (nat node + 1) * 4)) (\<lambda>end'.
    rbind (get_u32 (g_bytes (r_geometry r)) (base + nat node * 4)) (\<lambda>start.
    Inr (int end' - int start))))"

definition reader_outDegree :: "BinaryContextIndexReader \<Rightarrow> int \<Rightarrow> int res" where
  "reader_outDegree r node = degree_at r (g_outOffsetBase (r_geometry r)) node"

definition reader_inDegree :: "BinaryContextIndexReader \<Rightarrow> int \<Rightarrow> int res" where
  "reader_inDegree r node = degree_at r (g_inOffsetBase (r_geometry r)) node"

definition node_field :: "nat \<Rightarrow> nat \<Rightarrow> BinaryContextIndexReader \<Rightarrow> int \<Rightarrow> nat res" where
  "node_field w fld r node =
    rbind (nodeRow r node) (\<lambda>pos. get_le w (g_bytes (r_geometry r)) (pos + fld))"

definition reader_nodeFlags :: "BinaryContextIndexReader \<Rightarrow> int \<Rightarrow> nat res" where
  "reader_nodeFlags = node_field 1 NODE_FLAGS_AT"
definition reader_nodeTokenCost :: "BinaryContextIndexReader \<Rightarrow> int \<Rightarrow> nat res" where
  "reader_nodeTokenCost = node_field 4 NODE_TOKEN_COST_AT"
definition reader_nodeGroup :: "BinaryContextIndexReader \<Rightarrow> int \<Rightarrow> nat res" where
  "reader_nodeGroup = node_field 4 NODE_GROUP_AT"
definition reader_nodeTrust :: "BinaryContextIndexReader \<Rightarrow> int \<Rightarrow> nat res" where
  "reader_nodeTrust = node_field 2 NODE_TRUST_AT"
definition reader_nodeKind :: "BinaryContextIndexReader \<Rightarrow> int \<Rightarrow> nat res" where
  "reader_nodeKind = node_field 1 NODE_KIND_AT"

record CompactNodeScoreFields =
  sf_kind :: nat
  sf_freshness :: nat
  sf_risk :: nat
  sf_flags :: nat
  sf_trust :: nat
  sf_tokenCost :: nat
  sf_group :: nat
  sf_outDegree :: int
  sf_inDegree :: int

definition reader_nodeScoreFields ::
  "BinaryContextIndexReader \<Rightarrow> int \<Rightarrow> CompactNodeScoreFields res" where
  "reader_nodeScoreFields r node =
    rbind (nodeRow r node) (\<lambda>pos.
    let view = g_bytes (r_geometry r) in
    rbind (get_u8 view (pos + NODE_KIND_AT)) (\<lambda>kind.
    rbind (get_u8 view (pos + NODE_FRESHNESS_AT)) (\<lambda>freshness.
    rbind (get_u8 view (pos + NODE_RISK_AT)) (\<lambda>risk.
    rbind (get_u8 view (pos + NODE_FLAGS_AT)) (\<lambda>flags.
    rbind (get_u16 view (pos + NODE_TRUST_AT)) (\<lambda>trust.
    rbind (get_u32 view (pos + NODE_TOKEN_COST_AT)) (\<lambda>tokenCost.
    rbind (get_u32 view (pos + NODE_GROUP_AT)) (\<lambda>group.
    rbind (reader_outDegree r node) (\<lambda>outDegree.
    rbind (reader_inDegree r node) (\<lambda>inDegree.
    Inr \<lparr>sf_kind = kind, sf_freshness = freshness, sf_risk = risk, sf_flags = flags,
         sf_trust = trust, sf_tokenCost = tokenCost, sf_group = group,
         sf_outDegree = outDegree, sf_inDegree = inDegree\<rparr>))))))))))"

definition reader_hydrateNode ::
  "(js_string \<Rightarrow> 'n) \<Rightarrow> BinaryContextIndexReader \<Rightarrow> int \<Rightarrow> 'n ContextGraphNodeView res" where
  "reader_hydrateNode toNumber r node =
    rbind (nodeRow r node) (\<lambda>pos. hydrateNodeAt toNumber (r_geometry r) (nat node) pos)"

definition reader_hydrateEdge :: "BinaryContextIndexReader \<Rightarrow> int \<Rightarrow> ContextGraphEdgeView res" where
  "reader_hydrateEdge r edge =
    rbind (requireEdge r edge) (\<lambda>_. hydrateEdgeAt (r_geometry r) (nat edge))"

definition reader_provenance ::
  "BinaryContextIndexReader \<Rightarrow> int \<Rightarrow> int list \<Rightarrow> ProvenanceView list res" where
  "reader_provenance r node parentEdges =
    rbind (nodeRow r node) (\<lambda>pos. provenanceOf (r_geometry r) pos parentEdges (requireEdge r))"

definition reader_sourceHashes :: "BinaryContextIndexReader \<Rightarrow> ContextIndexSourceHash list res" where
  "reader_sourceHashes r = sourceHashesOf (r_geometry r)"

definition openContextIndex ::
  "bytes \<Rightarrow> string option \<Rightarrow> string option \<Rightarrow> BinaryContextIndexReader res" where
  "openContextIndex bs expectedSnapshotHash expectedConfigHash =
    rbind (readContextIndexHeader bs) (\<lambda>header.
    rbind (readSectionTable bs header) (\<lambda>descriptors.
    rbind (validateSectionLayout bs header descriptors) (\<lambda>byKind.
    rbind (validateContextIndexPayloads bs header byKind) (\<lambda>_.
    let snapshotHash = toHex (snapshotHash header);
        configHash = toHex (configHash header) in
    if expectedSnapshotHash \<noteq> None \<and> expectedSnapshotHash \<noteq> Some snapshotHash
    then Inl (Reader_error Context_index_stale) else
    if expectedConfigHash \<noteq> None \<and> expectedConfigHash \<noteq> Some configHash
    then Inl (Reader_error Context_index_pointer_meta_divergent) else
    rbind (readContextIndexGeometry bs header byKind) (\<lambda>geometry.
    Inr \<lparr>r_geometry = geometry, r_snapshotHash = snapshotHash, r_configHash = configHash,
         r_termCount = termCount header, r_edgeSource = None, r_probe = None\<rparr>)))))"

section \<open>The reader's invariant\<close>

text \<open>
  The geometry satisfies its contract, and each memo holds what recomputing it would give.
\<close>

definition reader_ok :: "BinaryContextIndexReader \<Rightarrow> bool" where
  "reader_ok r \<longleftrightarrow> geometry_ok (r_geometry r)
     \<and> (case r_edgeSource r of None \<Rightarrow> True
        | Some sources \<Rightarrow> buildEdgeSourceIndex (r_geometry r) = Inr sources)
     \<and> (case r_probe r of None \<Rightarrow> True
        | Some (name, bs) \<Rightarrow> bs = contextIndexNameProbe name)"

lemma open_reader_ok:
  assumes "openContextIndex bs s c = Inr r"
  shows "reader_ok r"
proof -
  from assms obtain h ds m g where h: "readContextIndexHeader bs = Inr h"
    and m: "validateContextIndexPayloads bs h m = Inr ()"
    and g: "readContextIndexGeometry bs h m = Inr g" "r_geometry r = g"
    and memo: "r_edgeSource r = None" "r_probe r = None"
    unfolding openContextIndex_def by (auto simp: Let_def split: if_splits)
  have "geometry_ok g"
    using m read_header_canonical [OF h] g(1)
    by (intro payloads_geometry_ok) (auto simp: validate_payloads_iff)
  with g memo show ?thesis by (simp add: reader_ok_def)
qed

lemma nodeRow_iff:
  "nodeRow r node = Inr pos \<longleftrightarrow> 0 \<le> node \<and> node < int (r_nodeCount r)
     \<and> pos = g_nodeBase (r_geometry r) + nat node * 40"
  by (auto simp: nodeRow_def requireNode_def rows)

lemma nodeHasName_ok:
  assumes "reader_ok r" "0 \<le> node" "node < int (r_nodeCount r)"
  shows "\<exists>r'. reader_nodeHasName r node name
       = Inr (node_named (r_geometry r) (nat node) (text_encode name), r')
     \<and> reader_ok r' \<and> r_geometry r' = r_geometry r"
proof -
  have pos: "nodeRow r node = Inr (g_nodeBase (r_geometry r) + nat node * 40)"
    using assms by (simp add: nodeRow_iff)
  have "nodeHasNameAt (r_geometry r) (g_nodeBase (r_geometry r) + nat node * 40) (text_encode name)
      = Inr (node_named (r_geometry r) (nat node) (text_encode name))"
    using assms by (intro node_name_iff) (auto simp: reader_ok_def)
  moreover have "snd (case r_probe r of
          Some (n, bs) \<Rightarrow> (if n = name then (n, bs) else (name, contextIndexNameProbe name))
        | None \<Rightarrow> (name, contextIndexNameProbe name)) = text_encode name"
    using assms(1) by (auto simp: reader_ok_def contextIndexNameProbe_def split: option.splits prod.splits)
  ultimately show ?thesis
    using assms(1) pos
    by (auto simp: reader_nodeHasName_def reader_ok_def contextIndexNameProbe_def Let_def
        split: option.splits prod.splits)
qed

lemma incoming_ok:
  assumes "reader_ok r" "0 \<le> node" "node < int (r_nodeCount r)"
  shows "\<exists>sources r' c. buildEdgeSourceIndex (r_geometry r) = Inr sources
     \<and> reader_incoming r node m = Inr (c, r') \<and> reader_ok r' \<and> r_geometry r' = r_geometry r
     \<and> openIncomingCursor (r_geometry r) sources (nat node) m = Inr c"
proof -
  have ok: "geometry_ok (r_geometry r)" using assms(1) by (simp add: reader_ok_def)
  obtain sources where s: "buildEdgeSourceIndex (r_geometry r) = Inr sources"
    "length sources = g_edgeCount (r_geometry r)"
    using edge_source_index [OF ok] by metis
  have "nat node < r_nodeCount r" using assms(2,3) by linarith
  from open_incoming [OF ok this s(2), of m] obtain c
    where c: "openIncomingCursor (r_geometry r) sources (nat node) m = Inr c" by blast
  have "(case r_edgeSource r of Some sources \<Rightarrow> Inr sources | None \<Rightarrow> buildEdgeSourceIndex (r_geometry r)) = Inr sources"
    using assms(1) s by (auto simp: reader_ok_def split: option.splits)
  with s c assms show ?thesis
    by (auto simp: reader_incoming_def requireNode_def reader_ok_def split: option.splits)
qed

lemma degree_at_ok:
  assumes "csr_base_ok (r_geometry r) ob eb" "0 \<le> node" "node < int (r_nodeCount r)"
  shows "degree_at r ob node = Inr (int (length (bucket (r_geometry r) ob (nat node))))"
proof -
  let ?g = "r_geometry r"
  have n: "nat node < g_nodeCount ?g" using assms(2,3) by linarith
  have "cell 4 ?g ob 4 (nat node) 0 \<le> cell 4 ?g ob 4 (nat node + 1) 0"
    using assms(1) n by (simp add: csr_base_ok_def)
  then have "int (length (bucket ?g ob (nat node)))
      = int (cell 4 ?g ob 4 (nat node + 1) 0) - int (cell 4 ?g ob 4 (nat node) 0)"
    by (simp add: bucket_def)
  then show ?thesis
    using csr_reads [OF assms(1) n] assms(2,3) by (simp add: degree_at_def requireNode_def)
qed

lemma node_field_ok:
  assumes "reader_ok r" "0 \<le> node" "node < int (r_nodeCount r)" "fld + w \<le> 40"
  shows "node_field w fld r node
     = Inr (cell w (r_geometry r) (g_nodeBase (r_geometry r)) 40 (nat node) fld)"
proof -
  let ?g = "r_geometry r"
  have n: "nat node < g_nodeCount ?g" using assms(2,3) by linarith
  have "table_fits ?g (g_nodeBase ?g) (g_nodeCount ?g) 40"
    using assms(1) by (simp add: reader_ok_def geometry_ok_def nodes_ok_def)
  from cell_read(1) [OF this n assms(4)] show ?thesis
    using assms(2,3) by (simp add: node_field_def nodeRow_def requireNode_def rows)
qed

text \<open>What \<open>nodeScoreFields\<close> returns for a live node.\<close>

definition score_fields :: "ContextIndexGeometry \<Rightarrow> nat \<Rightarrow> CompactNodeScoreFields" where
  "score_fields g n = (let c = (\<lambda>w. cell w g (g_nodeBase g) 40 n) in
     \<lparr>sf_kind = c 1 0, sf_freshness = c 1 1, sf_risk = c 1 2, sf_flags = c 1 3, sf_trust = c 2 4,
      sf_tokenCost = c 4 8, sf_group = c 4 32, sf_outDegree = int (length (out_edges g n)),
      sf_inDegree = int (length (in_edges g n))\<rparr>)"

lemma score_fields_ok:
  assumes "reader_ok r" "0 \<le> node" "node < int (r_nodeCount r)"
  shows "reader_nodeScoreFields r node = Inr (score_fields (r_geometry r) (nat node))"
proof -
  let ?g = "r_geometry r"
  let ?p = "g_nodeBase ?g + nat node * 40"
  have n: "nat node < g_nodeCount ?g" using assms(2,3) by linarith
  have ok: "geometry_ok ?g" using assms(1) by (simp add: reader_ok_def)
  then have fits: "table_fits ?g (g_nodeBase ?g) (g_nodeCount ?g) 40"
    and csr: "csr_base_ok ?g (g_outOffsetBase ?g) (g_outEdgeBase ?g)"
      "csr_base_ok ?g (g_inOffsetBase ?g) (g_inEdgeBase ?g)"
    by (simp_all add: geometry_ok_def nodes_ok_def)
  let ?c = "\<lambda>w fld. cell w ?g (g_nodeBase ?g) 40 (nat node) fld"
  have rd: "get_u8 (g_bytes ?g) (?p + 0) = Inr (?c 1 0)" "get_u8 (g_bytes ?g) (?p + 1) = Inr (?c 1 1)"
    "get_u8 (g_bytes ?g) (?p + 2) = Inr (?c 1 2)" "get_u8 (g_bytes ?g) (?p + 3) = Inr (?c 1 3)"
    "get_u16 (g_bytes ?g) (?p + 4) = Inr (?c 2 4)" "get_u32 (g_bytes ?g) (?p + 8) = Inr (?c 4 8)"
    "get_u32 (g_bytes ?g) (?p + 32) = Inr (?c 4 32)"
    by (rule cell_read [OF fits n]; simp)+
  have row: "nodeRow r node = Inr ?p" using assms by (simp add: nodeRow_iff)
  have deg: "reader_outDegree r node = Inr (int (length (out_edges ?g (nat node))))"
    "reader_inDegree r node = Inr (int (length (in_edges ?g (nat node))))"
    using degree_at_ok [OF csr(1) assms(2,3)] degree_at_ok [OF csr(2) assms(2,3)]
    by (simp_all add: reader_outDegree_def reader_inDegree_def out_edges_def in_edges_def)
  show ?thesis
    unfolding reader_nodeScoreFields_def row rbind_simps Let_def rows rd deg
    by (simp add: score_fields_def Let_def)
qed

end
