(* ===== verification/Reader_Errors.thy ===== *)
theory Reader_Errors
  imports Reader
begin

text \<open>
  What opening an index can throw: every failure of \<open>openContextIndex\<close> is one of the index
  errors that \<open>contextIndexFailureOf\<close> turns into a public code and a repair command. No
  \<open>RangeError\<close> of a raw read and no \<open>TypeError\<close> of the decoder escapes, whatever the bytes.
\<close>

definition index_error :: "js_error \<Rightarrow> bool" where
  "index_error e \<longleftrightarrow> contextIndexFailureOf e \<noteq> None"

lemma index_error_simps [simp]: "index_error (Format_error c d)" "index_error (Reader_error i)"
  by (simp_all add: index_error_def)

abbreviation idx :: "'a res \<Rightarrow> bool" where "idx \<equiv> raises index_error"

lemma idx_checksum [raises_intros]: "idx (contextIndexChecksum bs s e)"
  by (simp add: contextIndexChecksum_def split: prod.splits)

lemma idx_if [raises_intros]: "(b \<Longrightarrow> idx x) \<Longrightarrow> (\<not> b \<Longrightarrow> idx y) \<Longrightarrow> idx (if b then x else y)"
  by simp

lemma idx_get [raises_intros]: "pos + w \<le> length bs \<Longrightarrow> idx (get_le w bs pos)"
  by (simp add: get_le_ok)

lemma idx_fail [raises_intros]: "idx (fail c d)" "idx (Inl (Reader_error i))"
  by simp_all

lemma idx_header: "idx (readContextIndexHeader bs)"
proof (cases "length bs < 104")
  case True
  then show ?thesis by (simp add: readContextIndexHeader_def layout)
next
  case False
  then show ?thesis
    unfolding readContextIndexHeader_def
    by (intro raises_intros) (simp_all add: layout)
qed

lemma idx_checkedMul [raises_intros]: "idx (checkedMul a b l)"
  by (simp add: checkedMul_def Let_def)

lemma idx_checkedAdd [raises_intros]: "idx (checkedAdd a b l)"
  by (simp add: checkedAdd_def Let_def)

lemma idx_table: "idx (readSectionTable bs h)"
  unfolding readSectionTable_def Let_def
proof (intro raises_bind idx_if raises_map_res idx_checkedMul idx_fail)
  fix tableBytes i
  assume t: "checkedMul (int (sectionCount h)) (int CONTEXT_INDEX_SECTION_DESCRIPTOR_BYTES)
      (int maxSectionBytes) = Inr tableBytes"
    and "\<not> length bs < CONTEXT_INDEX_HEADER_BYTES + nat tableBytes" "i \<in> set [0..<sectionCount h]"
  then have "104 + sectionCount h * 32 \<le> length bs" "i < sectionCount h"
    by (auto simp: checkedMul_Inr_iff layout nat_mult_distrib)
  then have "104 + i * 32 + 32 \<le> length bs" by simp
  then show "idx (readSectionDescriptor bs i)"
    unfolding readSectionDescriptor_def Let_def layout by (intro raises_intros) simp_all
qed

lemma idx_admit: "idx (admit_sections t n m ds)"
  by (induction t n m ds rule: admit_sections.induct) (auto simp del: fun_upd_apply intro!: raises_bind idx_checkedAdd)

lemma idx_overlap: "idx (check_overlap ds)"
  by (induction ds rule: check_overlap.induct) auto

lemma idx_layout: "idx (validateSectionLayout bs h ds)"
  unfolding validateSectionLayout_def Let_def
  by (intro raises_bind idx_admit idx_overlap raises_for_each idx_if idx_fail idx_checksum raises_Inr)

lemma idx_sectionOf [raises_intros]: "idx (sectionOf m k)"
  by (simp add: sectionOf_def split: option.splits)

lemma idx_sub_view [raises_intros]: "s + n \<le> length bs \<Longrightarrow> idx (sub_view bs s n)"
  by simp

lemma idx_view_read:
  assumes "s + n \<le> length bs" "i < c" "c * stride \<le> n" "fld + w \<le> stride"
  shows "idx (get_le w (bslice bs s (s + n)) (i * stride + fld))"
  using view_read [OF assms] by simp

lemma idx_string_ends:
  assumes "s + n \<le> length bs" "c * 4 \<le> n" "\<forall>i \<in> set is. i < c"
  shows "idx (check_string_ends (bslice bs s (s + n)) b len p is)"
  using assms(3)
proof (induction "is" arbitrary: p)
  case (Cons i "is")
  have "idx (get_u32 (bslice bs s (s + n)) (i * 4))"
    using idx_view_read [OF assms(1) _ assms(2), of i 0 4] Cons.prems by simp
  with Cons show ?case by (auto intro!: raises_bind)
qed simp

lemma idx_strings:
  assumes "sd_end d \<le> length bs"
  shows "idx (validateStringTable bs d)"
  using assms unfolding validateStringTable_def Let_def
  by (intro idx_if idx_fail)
    (auto simp: sd_end_def intro!: raises_bind idx_string_ends split: sum.splits)

lemma idx_csr_rows:
  assumes "s + n \<le> length bs" "c * 4 \<le> n" "\<forall>i \<in> set is. i < c"
  shows "idx (check_csr_rows (bslice bs s (s + n)) p is)"
  using assms(3)
proof (induction "is" arbitrary: p)
  case (Cons i "is")
  have "idx (get_u32 (bslice bs s (s + n)) (i * 4))"
    using idx_view_read [OF assms(1) _ assms(2), of i 0 4] Cons.prems by simp
  with Cons show ?case by (auto intro!: raises_bind)
qed simp

lemma idx_csr:
  assumes "sd_end d \<le> length bs"
  shows "idx (validateCsrOffsets bs d e n)"
  using assms unfolding validateCsrOffsets_def
  by (intro idx_if idx_fail) (auto simp: sd_end_def intro!: raises_bind idx_csr_rows)

lemma idx_references:
  assumes "sd_end d \<le> length bs" "fld + 4 \<le> stride"
  shows "idx (validateReferenceRange bs d stride fld limit)"
proof (cases "sd_count d * stride \<le> sd_length d")
  case True
  have fits: "sd_offset d + sd_length d \<le> length bs" using assms(1) by (simp add: sd_end_def)
  have "idx (get_u32 (bslice bs (sd_offset d) (sd_offset d + sd_length d)) (i * stride + fld))"
    if "i < sd_count d" for i
    by (rule idx_view_read [OF fits that True assms(2)])
  then show ?thesis
    using True fits by (auto simp: validateReferenceRange_def intro!: raises_for_each raises_bind)
qed (simp add: validateReferenceRange_def)

lemma idx_metadata_rows:
  assumes "s + n \<le> length bs" "c * 16 \<le> n" "\<forall>i \<in> set is. i < c"
  shows "idx (check_metadata_rows (bslice bs s (s + n)) p is)"
  using assms(3)
proof (induction "is" arbitrary: p)
  case (Cons i "is")
  have rd: "idx (get_le w (bslice bs s (s + n)) (i * 16 + fld))" if "fld + w \<le> 16" for w fld
    using idx_view_read [OF assms(1) _ assms(2) that, of i] Cons.prems by simp
  have "idx (read_metadata_key (bslice bs s (s + n)) i)"
    unfolding read_metadata_key_def Let_def rows by (intro raises_bind raises_Inr rd) simp_all
  moreover have "idx (check_metadata_row p i r)" for r
    by (simp add: check_metadata_row_def split: option.splits)
  ultimately show ?case using Cons by (auto intro!: raises_bind)
qed simp

lemma idx_term_rows:
  assumes "s + n \<le> length bs" "c * 12 \<le> n" "\<forall>i \<in> set is. i < c"
  shows "idx (check_term_rows (bslice bs s (s + n)) a p is)"
  using assms(3)
proof (induction "is" arbitrary: p)
  case (Cons i "is")
  have rd: "idx (get_le w (bslice bs s (s + n)) (i * 12 + fld))" if "fld + w \<le> 12" for w fld
    using idx_view_read [OF assms(1) _ assms(2) that, of i] Cons.prems by simp
  show ?case
    unfolding check_term_rows.simps Let_def rows
    by (intro raises_bind idx_if idx_fail rd Cons.IH) (use Cons.prems in auto)
qed simp

lemma run_all_append: "run_all (xs @ ys) = rbind (run_all xs) (\<lambda>_. run_all ys)"
proof -
  have "for_each f (xs @ ys) = rbind (for_each f xs) (\<lambda>_. for_each f ys)"
    for f :: "unit res \<Rightarrow> unit res"
  proof (induction xs)
    case (Cons x xs)
    then show ?case by (cases "f x") simp_all
  qed simp
  then show ?thesis by (simp add: run_all_def)
qed

lemma idx_run_all [raises_intros]: "list_all idx checks \<Longrightarrow> idx (run_all checks)"
  by (auto simp: run_all_def list_all_iff intro!: raises_for_each)

lemma idx_code [raises_intros]: "idx (checkCode v m i)" "idx (checkOptionalReference v m i)"
  by (simp_all add: checkCode_def checkOptionalReference_def)

lemma idx_file_read:
  assumes "sd_end d \<le> length bs" "i < c" "c * stride \<le> sd_length d" "fld + w \<le> stride"
  shows "idx (get_le w bs (sd_offset d + i * stride + fld))"
  using file_read [of "sd_offset d" "sd_length d" bs i c stride fld w] assms by (simp add: sd_end_def)

lemma idx_metadata:
  assumes "sd_end d \<le> length bs" "sd_count d * 16 \<le> sd_length d"
  shows "idx (validateMetadataRows bs d)"
  using assms unfolding validateMetadataRows_def
  by (intro idx_if raises_Inr raises_bind idx_sub_view)
    (auto simp: sd_end_def intro!: idx_metadata_rows)

lemma idx_terms:
  assumes "sd_end t \<le> length bs" "sd_count t * 12 \<le> sd_length t" "sd_end p \<le> length bs"
  shows "idx (validateTermTable bs t p ss ns)"
proof -
  have "idx (validateReferenceRange bs t CONTEXT_INDEX_TERM_ROW_BYTES TERM_ID_AT ss)"
    "idx (validateReferenceRange bs p 4 0 ns)"
    using assms by (auto simp: rows intro!: idx_references)
  moreover have "sd_offset t + sd_length t \<le> length bs" using assms(1) by (simp add: sd_end_def)
  ultimately show ?thesis
    using assms(2) unfolding validateTermTable_def
    by (intro raises_bind) (auto intro!: idx_term_rows)
qed

lemma idx_enums:
  assumes "sd_end n \<le> length bs" "nodeCount h * 40 \<le> sd_length n" "sd_end gr \<le> length bs"
    "nodeCount h * 4 \<le> sd_length gr" "sd_end e \<le> length bs" "edgeCount h * 16 \<le> sd_length e"
  shows "idx (validateEnums bs h n e gr ss)"
proof -
  have rn: "idx (get_le w bs (sd_offset n + i * 40 + fld))" if "i < nodeCount h" "fld + w \<le> 40" for i fld w
    by (rule idx_file_read [OF assms(1) that(1) assms(2) that(2)])
  have rg: "idx (get_le w bs (sd_offset gr + i * 4 + 0))" if "i < nodeCount h" "0 + w \<le> 4" for i w
    by (rule idx_file_read [OF assms(3) that(1) assms(4) that(2)])
  have re: "idx (get_le w bs (sd_offset e + i * 16 + fld))" if "i < edgeCount h" "fld + w \<le> 16" for i fld w
    by (rule idx_file_read [OF assms(5) that(1) assms(6) that(2)])
  show ?thesis
    unfolding validateEnums_def check_node_enums_def check_edge_enums_def Let_def rows
    by (intro raises_bind raises_for_each idx_code idx_if idx_fail raises_Inr rn rg [unfolded add_0_right] re)
      simp_all
qed

lemma requireExactRows_Inr:
  "rbind (sectionOf m k) (\<lambda>d. requireExactRows d stride) = Inr () \<Longrightarrow>
     \<exists>d. m k = Some d \<and> sd_count d * stride = sd_length d"
  by (auto simp: sectionOf_Inr_iff requireExactRows_iff exact_rows_def)

lemma idx_payloads:
  assumes fit: "\<And>k d. m k = Some d \<Longrightarrow> sd_end d \<le> length bs"
  shows "idx (validateContextIndexPayloads bs h m)"
proof -
  have ex: "sd_count d * stride \<le> sd_length d"
    if "run_all (map (\<lambda>(kind, stride). rbind (sectionOf m kind) (\<lambda>d. requireExactRows d stride))
         CONTEXT_INDEX_FIXED_STRIDE_SECTIONS) = Inr ()"
      "(k, stride) \<in> set CONTEXT_INDEX_FIXED_STRIDE_SECTIONS" "m k = Some d" for k stride d
  proof -
    from that(1,2) have "rbind (sectionOf m k) (\<lambda>d. requireExactRows d stride) = Inr ()"
      by (auto simp: run_all_iff list_all_iff)
    from requireExactRows_Inr [OF this] that(3) show ?thesis by auto
  qed
  have fitS: "sectionOf m k = Inr d \<Longrightarrow> sd_end d \<le> length bs" for k d
    using fit by (simp add: sectionOf_Inr_iff)
  have cnt: "idx (requireCount a b k)" "idx (requireExactRows d s)" for a b k d s
    by (simp_all add: requireCount_def requireExactRows_def)
  show ?thesis
    unfolding validateContextIndexPayloads_def Let_def run_all_append
  proof (intro raises_bind idx_sectionOf idx_run_all, goal_cases)
    case (1 strings nodes metadata edges outOffsets outEdges inOffsets inEdges provenance groups cycles sources)
    then show ?case by (auto intro!: raises_bind idx_sectionOf cnt)
  next
    case (2 strings nodes metadata edges outOffsets outEdges inOffsets inEdges provenance groups cycles sources u)
    then show ?case by (auto simp: list_all_iff intro!: raises_bind idx_sectionOf cnt)
  next
    case (3 strings nodes metadata edges outOffsets outEdges inOffsets inEdges provenance groups cycles sources u v)
    have "sd_count metadata * 16 \<le> sd_length metadata"
      using 3 by (intro ex [of NODE_METADATA]) (auto simp: sectionOf_Inr_iff CONTEXT_INDEX_FIXED_STRIDE_SECTIONS_def rows)
    with 3 show ?case
      by (auto simp: rows intro!: idx_strings idx_csr idx_references idx_metadata dest: fitS)
  next
    case (4 strings nodes metadata edges outOffsets outEdges inOffsets inEdges provenance groups cycles sources u v w)
    have "sd_count t * 12 \<le> sd_length t" if "sectionOf m k = Inr t"
      "k \<in> {EXACT_TERM_TABLE, BASENAME_TABLE, LEXICON_TABLE, COARSE_TERM_TABLE}" for k t
      using 4 that by (intro ex [of k]) (auto simp: sectionOf_Inr_iff CONTEXT_INDEX_FIXED_STRIDE_SECTIONS_def rows)
    then show ?case
      by (auto intro!: raises_bind idx_sectionOf idx_terms dest: fitS)
  next
    case (5 strings nodes metadata edges outOffsets outEdges inOffsets inEdges provenance groups cycles sources u v w x)
    have "sd_count nodes = nodeCount h" "sd_count edges = edgeCount h" "sd_count groups = nodeCount h"
      using 5 by (auto simp: run_all_iff requireCount_iff)
    moreover have "sd_count nodes * 40 \<le> sd_length nodes" "sd_count edges * 16 \<le> sd_length edges"
      "sd_count groups * 4 \<le> sd_length groups"
      using 5 by (auto intro: ex [of NODE_TABLE] ex [of EDGE_TABLE] ex [of GROUP_TABLE]
          simp: sectionOf_Inr_iff CONTEXT_INDEX_FIXED_STRIDE_SECTIONS_def rows)
    ultimately show ?case
      using 5 by (auto intro!: idx_enums dest: fitS)
  qed
qed

lemma open_raises_index_error: "idx (openContextIndex bs s c)"
proof -
  have lay: "sd_end d \<le> length bs" if "validateSectionLayout bs h ds = Inr m" "m k = Some d" for h ds m k d
    using that section_map_Some [of ds k d]
    by (auto simp: validate_layout_Inr layout_ok_def list_all_iff section_at_def)
  have geo: "idx (readContextIndexGeometry bs h m)" for h m
    unfolding readContextIndexGeometry_def laneOf_def by (intro raises_intros)
  show ?thesis
    unfolding openContextIndex_def Let_def
    by (intro raises_bind idx_if idx_fail raises_Inr idx_header idx_table idx_layout idx_payloads geo)
      (rule lay)
qed

end
