(* ===== verification/Writer_Tables.thy ===== *)
theory Writer_Tables
  imports Reader_Validate
begin

text \<open>
  runtime-index/writer-types.ts and runtime-index/writer-tables.ts: the string interner and
  the builders of fixed-width sections.

  A builder allocates a buffer of \<open>rows * width\<close> bytes and writes row \<open>i\<close> at \<open>i * width\<close>;
  the rows fill the buffer, so the section is the concatenation of the encoded rows.
  \<open>setUint32\<close> keeps a number modulo \<open>2 ^ 32\<close>, which \<open>put_le\<close> does for naturals and \<open>u32_of\<close>
  for integers. A JavaScript \<open>Set\<close> or \<open>Map\<close> is the list of its members or entries in
  insertion order.
\<close>

unbundle bit_operations_syntax

section \<open>The string interner\<close>

record StringInterner =
  si_values :: "js_string list"
  si_table :: "js_string list"
  si_index :: "js_string \<rightharpoonup> nat"
  si_sealed :: bool

definition new_interner :: StringInterner where
  "new_interner = \<lparr>si_values = [], si_table = [], si_index = Map.empty, si_sealed = False\<rparr>"

definition set_add :: "'a \<Rightarrow> 'a list \<Rightarrow> 'a list" where
  "set_add x xs = (if x \<in> set xs then xs else xs @ [x])"

definition interner_add :: "js_string \<Rightarrow> StringInterner \<Rightarrow> StringInterner res" where
  "interner_add value s =
    (if si_sealed s then Inl (Plain_error ''string interner already sealed'')
     else Inr (s\<lparr>si_values := set_add value (si_values s)\<rparr>))"

definition interner_seal :: "StringInterner \<Rightarrow> StringInterner" where
  "interner_seal s =
    (if si_sealed s then s
     else let table = sort (si_values s) in
       s\<lparr>si_table := table, si_index := map_of (zip table [0..<length table]), si_sealed := True\<rparr>)"

definition interner_idOf :: "StringInterner \<Rightarrow> js_string \<Rightarrow> nat res" where
  "interner_idOf s value =
    (if \<not> si_sealed s then Inl (Plain_error ''string interner not sealed'')
     else (case si_index s value of
         None \<Rightarrow> Inl (Plain_error ''string interned after seal'')
       | Some found \<Rightarrow> Inr found))"

definition interner_idOrSentinel :: "StringInterner \<Rightarrow> js_string option \<Rightarrow> nat res" where
  "interner_idOrSentinel s value =
    (if value = None \<or> value = Some [] then Inr CONTEXT_INDEX_NO_VALUE
     else interner_idOf s (the value))"

definition interner_size :: "StringInterner \<Rightarrow> nat" where
  "interner_size s = (if si_sealed s then length (si_table s) else length (si_values s))"

fun running_ends :: "nat \<Rightarrow> bytes list \<Rightarrow> nat list" where
  "running_ends running [] = []"
| "running_ends running (blob # blobs) =
     (running + length blob) # running_ends (running + length blob) blobs"

definition interner_encode :: "StringInterner \<Rightarrow> bytes res" where
  "interner_encode s =
    (if \<not> si_sealed s then Inl (Plain_error ''string interner not sealed'')
     else let blobs = map text_encode (si_table s) in
       Inr (concat (map (put_le 4) (running_ends 0 blobs)) @ concat blobs))"

section \<open>Rows\<close>

record ProvenanceRow =
  pr_pathId :: nat
  pr_line :: int
  pr_hashId :: nat
  pr_extractorId :: nat

record MetadataRow =
  mr_node :: nat
  mr_key :: nat
  mr_value :: nat
  mr_type :: nat
  mr_ordinal :: nat

definition u32_of :: "int \<Rightarrow> nat" where
  "u32_of z = nat (z mod 2 ^ 32)"

definition u32Section :: "nat list \<Rightarrow> bytes" where
  "u32Section values = concat (map (put_le 4) values)"

definition csrOffsets_counts :: "nat list \<Rightarrow> nat \<Rightarrow> nat list" where
  "csrOffsets_counts buckets nodes =
     fold (\<lambda>bucket counts. counts[bucket := counts ! bucket + 1]) buckets (replicate nodes 0)"

fun running_offsets :: "nat \<Rightarrow> nat list \<Rightarrow> nat list" where
  "running_offsets running [] = [running]"
| "running_offsets running (c # counts) = running # running_offsets (running + c) counts"

definition csrOffsets :: "nat list \<Rightarrow> nat \<Rightarrow> nat list" where
  "csrOffsets buckets nodes = running_offsets 0 (csrOffsets_counts buckets nodes)"

fun group_push :: "nat \<Rightarrow> nat \<Rightarrow> (nat \<times> nat list) list \<Rightarrow> (nat \<times> nat list) list" where
  "group_push termId node [] = [(termId, [node])]"
| "group_push termId node ((t, bucket) # grouped) =
    (if t = termId then (t, bucket @ [node]) # grouped
     else (t, bucket) # group_push termId node grouped)"

fun group_entries :: "(nat \<times> nat list) list \<Rightarrow> (nat \<times> nat) list \<Rightarrow> (nat \<times> nat list) list" where
  "group_entries grouped [] = grouped"
| "group_entries grouped ((termId, node) # entries) =
     group_entries (group_push termId node grouped) entries"

definition term_row_bytes :: "nat \<times> nat \<times> nat \<Rightarrow> bytes" where
  "term_row_bytes row = (case row of (termId, start, cnt) \<Rightarrow>
     put_le 4 termId @ put_le 4 start @ put_le 4 cnt)"

text \<open>The term rows and the postings, for the terms in order; \<open>start\<close> is \<open>postings.length\<close>.\<close>

fun emit_terms :: "(nat \<Rightarrow> nat list) \<Rightarrow> nat \<Rightarrow> nat list \<Rightarrow> (nat \<times> nat \<times> nat) list \<times> nat list" where
  "emit_terms nodesFor start [] = ([], [])"
| "emit_terms nodesFor start (termId # terms) =
    (let nodes = sort (nodesFor termId);
         rest = emit_terms nodesFor (start + length nodes) terms in
     ((termId, start, length nodes) # fst rest, nodes @ snd rest))"

record ContextIndexLaneSection =
  ls_table :: bytes
  ls_postings :: bytes
  ls_termCount :: nat
  ls_postingCount :: nat

definition termTable :: "(nat \<times> nat) list \<Rightarrow> ContextIndexLaneSection" where
  "termTable entries =
    (let grouped = group_entries [] entries;
         terms = sort (map fst grouped);
         out = emit_terms (\<lambda>t. the (map_of grouped t)) 0 terms in
     \<lparr>ls_table = concat (map term_row_bytes (fst out)), ls_postings = u32Section (snd out),
      ls_termCount = length terms, ls_postingCount = length (snd out)\<rparr>)"

definition provenance_row_bytes :: "ProvenanceRow \<Rightarrow> bytes" where
  "provenance_row_bytes r = put_le 4 (pr_pathId r) @ put_le 4 (u32_of (pr_line r))
     @ put_le 4 (pr_hashId r) @ put_le 4 (pr_extractorId r)"

definition provenanceTable :: "ProvenanceRow list \<Rightarrow> bytes" where
  "provenanceTable rs = concat (map provenance_row_bytes rs)"

definition metadata_row_bytes :: "MetadataRow \<Rightarrow> bytes" where
  "metadata_row_bytes r =
     overlay METADATA_ORDINAL_AT (put_le 2 (mr_ordinal r))
    (overlay METADATA_TYPE_AT (put_le 2 (mr_type r))
    (overlay METADATA_VALUE_AT (put_le 4 (mr_value r))
    (overlay METADATA_KEY_AT (put_le 4 (mr_key r))
    (overlay METADATA_NODE_AT (put_le 4 (mr_node r))
      (replicate CONTEXT_INDEX_METADATA_ROW_BYTES 0)))))"

definition metadataTable :: "MetadataRow list \<Rightarrow> bytes" where
  "metadataTable rs = concat (map metadata_row_bytes rs)"

definition pair_row_bytes :: "nat \<times> nat \<Rightarrow> bytes" where
  "pair_row_bytes r = put_le 4 (fst r) @ put_le 4 (snd r)"

definition pairTable :: "(nat \<times> nat) list \<Rightarrow> bytes" where
  "pairTable rs = concat (map pair_row_bytes rs)"

section \<open>Hexadecimal\<close>

text \<open>
  \<open>Number.parseInt(pair, 16)\<close> on two characters: leading white space and a sign are
  skipped, \<open>0x\<close> is a prefix, and parsing stops at the first character that is no digit.
\<close>

definition hex_digit :: "16 word \<Rightarrow> int option" where
  "hex_digit u =
    (if 48 \<le> u \<and> u \<le> 57 then Some (uint u - 48)
     else if 97 \<le> u \<and> u \<le> 102 then Some (uint u - 87)
     else if 65 \<le> u \<and> u \<le> 70 then Some (uint u - 55)
     else None)"

definition js_white_space :: "16 word set" where
  "js_white_space = {9, 10, 11, 12, 13, 32, 160, 0x1680, 0x2000, 0x2001, 0x2002, 0x2003, 0x2004,
     0x2005, 0x2006, 0x2007, 0x2008, 0x2009, 0x200a, 0x2028, 0x2029, 0x202f, 0x205f, 0x3000, 0xfeff}"

definition parse_pair :: "16 word \<Rightarrow> 16 word \<Rightarrow> int option" where
  "parse_pair a b =
    (if a \<in> js_white_space \<or> a = 43 then hex_digit b
     else if a = 45 then map_option uminus (hex_digit b)
     else if a = 48 \<and> (b = 120 \<or> b = 88) then None
     else (case hex_digit a of
         None \<Rightarrow> None
       | Some x \<Rightarrow> (case hex_digit b of None \<Rightarrow> Some x | Some y \<Rightarrow> Some (16 * x + y))))"

fun hex_pairs :: "js_string \<Rightarrow> bytes" where
  "hex_pairs (a # b # s) =
     word_of_int (case parse_pair a b of Some n \<Rightarrow> n | None \<Rightarrow> 0) # hex_pairs s"
| "hex_pairs _ = []"

definition hexToBytes :: "js_string \<Rightarrow> nat \<Rightarrow> bytes" where
  "hexToBytes value len =
    (let parsed = hex_pairs (take (min (len * 2) (length value - length value mod 2)) value) in
     parsed @ replicate (len - length parsed) 0)"

section \<open>Facts the assembler and the reader rest on\<close>

lemma set_set_add [simp]: "set (set_add x xs) = insert x (set xs)"
  by (auto simp: set_add_def)

lemma distinct_set_add [simp]: "distinct xs \<Longrightarrow> distinct (set_add x xs)"
  by (simp add: set_add_def)

lemma running_ends_length [simp]: "length (running_ends r bs) = length bs"
  by (induction bs arbitrary: r) auto

lemma running_ends_nth:
  "i < length bs \<Longrightarrow> running_ends r bs ! i = r + length (concat (take (Suc i) bs))"
  by (induction bs arbitrary: r i) (auto simp: nth_Cons split: nat.splits)

lemma length_u32Section [simp]: "length (u32Section vs) = 4 * length vs"
  by (induction vs) (simp_all add: u32Section_def)

lemma u32Section_nth:
  "i < length vs \<Longrightarrow> u32_at (u32Section vs) (i * 4) = vs ! i mod 2 ^ 32"
  using le_at_concat_stride [of "map (put_le 4) vs" 4 i 0 4]
  by (simp add: u32Section_def le_at_put_le)

end
