(* ===== verification/Writer_Lexical.thy ===== *)
theory Writer_Lexical
  imports Writer_Tables
begin

text \<open>
  runtime-index/writer-lexical.ts and the snapshot types of context-graph/contracts.ts: which
  text of a node goes into which lexicon field, and how a built lexicon becomes a term table
  and its postings.

  Numbers of a snapshot: a line or column is an integer, a trust and a token cost are a
  \<open>js_number\<close>. The lexicon builder itself
  (lexicon-builder.ts) is the argument \<open>buildContextLexicon\<close> here, of the type it has there.
\<close>

section \<open>The snapshot\<close>

datatype js_number = Finite rat | Infinite | Negative_infinite | Not_a_number

definition finite_number :: "js_number \<Rightarrow> rat option" where
  "finite_number x = (case x of Finite r \<Rightarrow> Some r | _ \<Rightarrow> None)"

record ContextGraphLocator =
  loc_line :: "int option"
  loc_column :: "int option"
  loc_endLine :: "int option"
  loc_endColumn :: "int option"

record 'n ContextGraphNode =
  n_id :: js_string
  n_kind :: ContextGraphNodeKind
  n_label :: js_string
  n_path :: "js_string option"
  n_locator :: "ContextGraphLocator option"
  n_contentHash :: "js_string option"
  n_trust :: js_number
  n_freshness :: ContextGraphFreshness
  n_risk :: ContextGraphRisk
  n_tokenCost :: js_number
  n_metadata :: "(js_string \<times> 'n ContextGraphMetadataValue) list"

record ContextGraphProvenance =
  p_path :: js_string
  p_line :: "int option"
  p_hash :: js_string
  p_extractor :: js_string

record ContextGraphEdge =
  e_id :: js_string
  e_from :: js_string
  e_to :: js_string
  e_type :: ContextGraphEdgeType
  e_confidence :: ContextGraphEdgeConfidence
  e_provenance :: ContextGraphProvenance
  e_observedAt :: js_string

record ContextGraphCycle =
  cy_id :: js_string
  cy_nodes :: "js_string list"

record ContextGraphExtractorStat =
  xs_id :: js_string
  xs_revision :: js_string
  xs_nodeCount :: nat
  xs_edgeCount :: nat
  xs_issueCount :: nat
  xs_skippedCount :: nat

record 'n ContextGraphSnapshot =
  s_schema :: js_string
  s_schemaRevision :: js_string
  s_snapshotHash :: js_string
  s_nodes :: "'n ContextGraphNode list"
  s_edges :: "ContextGraphEdge list"
  s_cycles :: "ContextGraphCycle list"
  s_extractors :: "ContextGraphExtractorStat list"
  s_nodeCount :: nat
  s_edgeCount :: nat

section \<open>The lexicon's types\<close>

definition FIELD_EXACT_LABEL :: nat where "FIELD_EXACT_LABEL = 1"
definition FIELD_SYMBOL_SEGMENT :: nat where "FIELD_SYMBOL_SEGMENT = 2"
definition FIELD_MANIFEST_NAME :: nat where "FIELD_MANIFEST_NAME = 3"
definition FIELD_BASENAME :: nat where "FIELD_BASENAME = 4"
definition FIELD_PATH_SEGMENT :: nat where "FIELD_PATH_SEGMENT = 5"
definition FIELD_PURPOSE :: nat where "FIELD_PURPOSE = 6"
definition FIELD_EVIDENCE :: nat where "FIELD_EVIDENCE = 7"
definition FIELD_COARSE :: nat where "FIELD_COARSE = 8"

record ContextLexiconFieldText =
  ft_field :: nat
  ft_text :: js_string

record ContextLexiconDocument =
  doc_node :: nat
  doc_fields :: "ContextLexiconFieldText list"

record ContextLexiconTermRow =
  tr_term :: js_string
  tr_postingOffset :: nat
  tr_postingCount :: nat

record ContextLexiconOmissions =
  om_secretTokens :: nat
  om_redactedSpans :: nat
  om_cappedFieldTokens :: nat
  om_cappedCjkNgrams :: nat
  om_cappedPostings :: nat
  om_cappedTerms :: nat

record ContextLexiconBuildResult =
  lb_terms :: "ContextLexiconTermRow list"
  lb_postings :: "nat list"
  lb_omissions :: ContextLexiconOmissions

section \<open>Corpus\<close>

definition last_slash :: "js_string \<Rightarrow> nat option" where
  "last_slash path = (if 47 \<in> set path
     then Some (length path - 1 - length (takeWhile (\<lambda>u. u \<noteq> 47) (rev path))) else None)"

definition basenameOf :: "js_string \<Rightarrow> js_string" where
  "basenameOf path = (case last_slash path of None \<Rightarrow> path | Some cut_at \<Rightarrow> drop (cut_at + 1) path)"

definition directoryOf :: "js_string \<Rightarrow> js_string" where
  "directoryOf path = (case last_slash path of None \<Rightarrow> []
     | Some cut_at \<Rightarrow> (if cut_at = 0 then [] else take cut_at path))"

definition MANIFEST_NAMED_KINDS :: "ContextGraphNodeKind set" where
  "MANIFEST_NAMED_KINDS =
     {Kind_command, Kind_route, Kind_pipeline, Kind_gate, Kind_schema, Kind_config}"

definition labelFieldFor :: "ContextGraphNodeKind \<Rightarrow> nat" where
  "labelFieldFor kind =
    (if kind = Kind_symbol then FIELD_SYMBOL_SEGMENT
     else if kind \<in> MANIFEST_NAMED_KINDS then FIELD_MANIFEST_NAME
     else FIELD_EXACT_LABEL)"

fun js_join :: "js_string \<Rightarrow> js_string list \<Rightarrow> js_string" where
  "js_join sep [] = []"
| "js_join sep [s] = s"
| "js_join sep (s # t # ss) = s @ sep @ js_join sep (t # ss)"

definition metadata_parts :: "'n ContextGraphMetadataValue option \<Rightarrow> js_string list" where
  "metadata_parts value =
    (case value of
       Some (Meta_string s) \<Rightarrow> (if s \<noteq> [] then [s] else [])
     | Some (Meta_array entries) \<Rightarrow> filter (\<lambda>entry. entry \<noteq> []) entries
     | _ \<Rightarrow> [])"

definition metadataTextOf :: "'n ContextGraphNode \<Rightarrow> js_string" where
  "metadataTextOf node =
     js_join [32] (concat (map (\<lambda>key. metadata_parts (map_of (n_metadata node) key))
       (sort (map fst (n_metadata node)))))"

definition fieldText :: "nat \<Rightarrow> js_string \<Rightarrow> ContextLexiconFieldText list" where
  "fieldText fld text = (if text = [] then [] else [\<lparr>ft_field = fld, ft_text = text\<rparr>])"

definition contextLexicalDocuments :: "'n ContextGraphNode list \<Rightarrow> ContextLexiconDocument list" where
  "contextLexicalDocuments nodes =
     map (\<lambda>(node, position).
       \<lparr>doc_node = position,
        doc_fields = fieldText (labelFieldFor (n_kind node)) (n_label node)
          @ (case n_path node of None \<Rightarrow> []
             | Some path \<Rightarrow> fieldText FIELD_BASENAME (basenameOf path) @ fieldText FIELD_PATH_SEGMENT path)
          @ fieldText (if n_kind node \<in> EVIDENCE_KINDS then FIELD_EVIDENCE else FIELD_PURPOSE)
              (metadataTextOf node)\<rparr>)
       (zip nodes [0..<length nodes])"

definition contextCoarseDocuments :: "'n ContextGraphNode list \<Rightarrow> ContextLexiconDocument list" where
  "contextCoarseDocuments nodes =
     map (\<lambda>(node, position).
       \<lparr>doc_node = position,
        doc_fields = fieldText FIELD_COARSE
          (case n_path node of None \<Rightarrow> [] | Some path \<Rightarrow> directoryOf path)\<rparr>)
       (zip nodes [0..<length nodes])"

definition mergedOmissions ::
  "ContextLexiconOmissions \<Rightarrow> ContextLexiconOmissions \<Rightarrow> ContextLexiconOmissions" where
  "mergedOmissions lexical coarse =
     \<lparr>om_secretTokens = om_secretTokens lexical + om_secretTokens coarse,
      om_redactedSpans = om_redactedSpans lexical + om_redactedSpans coarse,
      om_cappedFieldTokens = om_cappedFieldTokens lexical + om_cappedFieldTokens coarse,
      om_cappedCjkNgrams = om_cappedCjkNgrams lexical + om_cappedCjkNgrams coarse,
      om_cappedPostings = om_cappedPostings lexical + om_cappedPostings coarse,
      om_cappedTerms = om_cappedTerms lexical + om_cappedTerms coarse\<rparr>"

record ContextIndexLexicalBuild =
  lx_lexical :: ContextLexiconBuildResult
  lx_coarse :: ContextLexiconBuildResult
  lx_terms :: "js_string list"
  lx_omissions :: ContextLexiconOmissions

definition buildContextIndexLexical ::
  "(ContextLexiconDocument list \<Rightarrow> 'config \<Rightarrow> ContextLexiconBuildResult res)
     \<Rightarrow> 'n ContextGraphNode list \<Rightarrow> 'config \<Rightarrow> ContextIndexLexicalBuild res" where
  "buildContextIndexLexical buildContextLexicon nodes config =
    rbind (buildContextLexicon (contextLexicalDocuments nodes) config) (\<lambda>lexical.
    rbind (buildContextLexicon (contextCoarseDocuments nodes) config) (\<lambda>coarse.
    Inr \<lparr>lx_lexical = lexical, lx_coarse = coarse,
         lx_terms = fold set_add (map tr_term (lb_terms lexical) @ map tr_term (lb_terms coarse)) [],
         lx_omissions = mergedOmissions (lb_omissions lexical) (lb_omissions coarse)\<rparr>))"

section \<open>Encoding a lane\<close>

definition EMPTY_CONTEXT_INDEX_LANE :: ContextIndexLaneSection where
  "EMPTY_CONTEXT_INDEX_LANE =
     \<lparr>ls_table = [], ls_postings = [], ls_termCount = 0, ls_postingCount = 0\<rparr>"

text \<open>The inner loop of a row: the run's nodes, checked one by one.\<close>

definition lane_run :: "nat list \<Rightarrow> nat \<Rightarrow> nat \<Rightarrow> ContextLexiconTermRow \<Rightarrow> nat list res" where
  "lane_run postings nodes position row =
     map_res (\<lambda>index.
       if tr_postingOffset row + index \<ge> length postings
       then Inl (Writer_error Lexicon_invariant [(''row'', int position), (''check'', 2)])
       else let node = postings ! (tr_postingOffset row + index) in
         if node \<ge> nodes
         then Inl (Writer_error Lexicon_invariant [(''row'', int position), (''check'', 3)])
         else Inr node)
     [0..<tr_postingCount row]"

text \<open>The rows: \<open>previous\<close> is the previous term id, \<open>None\<close> for the initial \<open>-1\<close>.\<close>

fun lane_rows ::
  "(js_string \<Rightarrow> nat res) \<Rightarrow> nat list \<Rightarrow> nat \<Rightarrow> nat option \<Rightarrow> nat \<Rightarrow> nat
     \<Rightarrow> ContextLexiconTermRow list \<Rightarrow> ((nat \<times> nat \<times> nat) list \<times> nat list) res" where
  "lane_rows termIdOf postings nodes previous position start [] = Inr ([], [])"
| "lane_rows termIdOf postings nodes previous position start (row # rs) =
    rbind (termIdOf (tr_term row)) (\<lambda>termId.
    if (case previous of None \<Rightarrow> False | Some p \<Rightarrow> termId \<le> p)
    then Inl (Writer_error Lexicon_invariant [(''row'', int position), (''check'', 1)]) else
    rbind (lane_run postings nodes position row) (\<lambda>run.
    rbind (lane_rows termIdOf postings nodes (Some termId) (position + 1) (start + length run) rs)
      (\<lambda>(table, out).
    Inr ((termId, start, tr_postingCount row) # table, run @ out))))"

definition encodeContextIndexLane ::
  "ContextLexiconBuildResult \<Rightarrow> (js_string \<Rightarrow> nat res) \<Rightarrow> nat \<Rightarrow> ContextIndexLaneSection res" where
  "encodeContextIndexLane built termIdOf nodes =
    rbind (lane_rows termIdOf (lb_postings built) nodes None 0 0 (lb_terms built)) (\<lambda>(table, out).
    Inr \<lparr>ls_table = concat (map term_row_bytes table), ls_postings = u32Section out,
         ls_termCount = length (lb_terms built), ls_postingCount = length out\<rparr>)"

end
