(* ===== verification/Writer_Assemble.thy ===== *)
theory Writer_Assemble
  imports Writer_Tables
begin

text \<open>
  runtime-index/writer-assemble.ts: lays the sections out in the order of the required
  list, and stamps header and section table.

  \<open>payloads\<close> is the map from section kind to its bytes and row count. The writes into the
  fresh buffer are overlays. The theorem of this theory: whatever payloads are assembled,
  the reader's three structural checks accept the file and find each payload again.
\<close>

record section_payload =
  sp_bytes :: bytes
  sp_count :: nat

record assemble_header =
  ah_schemaRevision :: nat
  ah_snapshotHash :: bytes
  ah_configHash :: bytes
  ah_nodeCount :: nat
  ah_edgeCount :: nat
  ah_termCount :: nat
  ah_provenanceCount :: nat
  ah_stringCount :: nat

record assembled_index =
  ai_bytes :: bytes
  ai_nodeCount :: nat
  ai_edgeCount :: nat
  ai_provenanceCount :: nat
  ai_stringCount :: nat
  ai_sectionBytes :: "(nat \<times> nat) list"

text \<open>The first loop: descriptors, section lengths, and the cursor after the last section.\<close>

fun lay_out ::
  "(nat \<rightharpoonup> section_payload) \<Rightarrow> nat \<Rightarrow> nat list
     \<Rightarrow> (SectionDescriptor list \<times> (nat \<times> nat) list \<times> nat) res" where
  "lay_out payloads cursor [] = Inr ([], [], cursor)"
| "lay_out payloads cursor (kind # kinds) =
    (case payloads kind of
       None \<Rightarrow> fail Section_missing [(''kind'', int kind)]
     | Some payload \<Rightarrow>
         rbind (contextIndexChecksum (sp_bytes payload) 0 (length (sp_bytes payload))) (\<lambda>checksum.
         rbind (lay_out payloads (cursor + length (sp_bytes payload)) kinds)
           (\<lambda>(descriptors, sectionBytes, end').
         Inr (\<lparr>sd_kind = kind, sd_offset = cursor, sd_length = length (sp_bytes payload),
                sd_count = sp_count payload, sd_checksum = checksum\<rparr> # descriptors,
              (kind, length (sp_bytes payload)) # sectionBytes, end'))))"

definition write_descriptors :: "SectionDescriptor list \<Rightarrow> bytes \<Rightarrow> bytes" where
  "write_descriptors descriptors bs =
     fold (\<lambda>(position, d) bs.
         overlay (CONTEXT_INDEX_HEADER_BYTES + position * CONTEXT_INDEX_SECTION_DESCRIPTOR_BYTES)
           (encodeSectionDescriptor d) bs)
       (zip [0..<length descriptors] descriptors) bs"

definition write_payloads ::
  "(nat \<rightharpoonup> section_payload) \<Rightarrow> SectionDescriptor list \<Rightarrow> nat list \<Rightarrow> bytes \<Rightarrow> bytes" where
  "write_payloads payloads descriptors kinds bs =
     fold (\<lambda>(position, kind) bs.
         overlay (sd_offset (descriptors ! position)) (sp_bytes (the (payloads kind))) bs)
       (zip [0..<length kinds] kinds) bs"

definition assemble ::
  "(nat \<rightharpoonup> section_payload) \<Rightarrow> assemble_header \<Rightarrow> assembled_index res" where
  "assemble payloads header =
    (let kinds = CONTEXT_INDEX_REQUIRED_SECTIONS;
         tableEnd = CONTEXT_INDEX_HEADER_BYTES
           + length kinds * CONTEXT_INDEX_SECTION_DESCRIPTOR_BYTES in
     rbind (lay_out payloads tableEnd kinds) (\<lambda>(descriptors, sectionBytes, cursor).
     rbind (encodeContextIndexHeader \<lparr>formatRevision = CONTEXT_INDEX_FORMAT_REVISION,
         schemaRevision = ah_schemaRevision header, hflags = 0,
         nodeCount = ah_nodeCount header, edgeCount = ah_edgeCount header,
         termCount = ah_termCount header, provenanceCount = ah_provenanceCount header,
         snapshotHash = ah_snapshotHash header, configHash = ah_configHash header,
         sectionCount = length kinds\<rparr>) (\<lambda>head.
     let bs = overlay 0 head (replicate cursor 0);
         bs = write_descriptors descriptors bs;
         bs = write_payloads payloads descriptors kinds bs in
     Inr \<lparr>ai_bytes = bs, ai_nodeCount = ah_nodeCount header, ai_edgeCount = ah_edgeCount header,
          ai_provenanceCount = ah_provenanceCount header, ai_stringCount = ah_stringCount header,
          ai_sectionBytes = sectionBytes\<rparr>)))"

section \<open>The assembled file as a concatenation\<close>

definition payload_at :: "(nat \<rightharpoonup> section_payload) \<Rightarrow> nat \<Rightarrow> bytes" where
  "payload_at p k = sp_bytes (the (p k))"

text \<open>\<open>descs p c ks\<close>: the descriptors of the kinds \<open>ks\<close> when the first starts at \<open>c\<close>.\<close>

fun descs :: "(nat \<rightharpoonup> section_payload) \<Rightarrow> nat \<Rightarrow> nat list \<Rightarrow> SectionDescriptor list" where
  "descs p c [] = []"
| "descs p c (k # ks) =
     \<lparr>sd_kind = k, sd_offset = c, sd_length = length (payload_at p k), sd_count = sp_count (the (p k)),
      sd_checksum = (case contextIndexChecksum (payload_at p k) 0 (length (payload_at p k)) of
          Inr x \<Rightarrow> x | Inl _ \<Rightarrow> 0)\<rparr> # descs p (c + length (payload_at p k)) ks"

definition payloads_of :: "(nat \<rightharpoonup> section_payload) \<Rightarrow> nat list \<Rightarrow> bytes" where
  "payloads_of p ks = concat (map (payload_at p) ks)"

definition sizes_of :: "(nat \<rightharpoonup> section_payload) \<Rightarrow> nat list \<Rightarrow> (nat \<times> nat) list" where
  "sizes_of p ks = map (\<lambda>k. (k, length (payload_at p k))) ks"

lemma length_descs [simp]: "length (descs p c ks) = length ks"
  by (induction ks arbitrary: c) auto

lemma map_kind_descs [simp]: "map sd_kind (descs p c ks) = ks"
  by (induction ks arbitrary: c) auto

lemma lay_out_descs:
  assumes "set ks \<subseteq> dom p"
  shows "lay_out p c ks = Inr (descs p c ks, sizes_of p ks, c + length (payloads_of p ks))"
  using assms
proof (induction ks arbitrary: c)
  case (Cons k ks)
  then obtain pl where pl: "p k = Some pl" by auto
  obtain x where "contextIndexChecksum (sp_bytes pl) 0 (length (sp_bytes pl)) = Inr x"
    using contextIndexChecksum_ok [of 0 "length (sp_bytes pl)" "sp_bytes pl"] by blast
  moreover have "lay_out p (c + length (sp_bytes pl)) ks
      = Inr (descs p (c + length (sp_bytes pl)) ks, sizes_of p ks,
          c + length (sp_bytes pl) + length (payloads_of p ks))"
    using Cons by simp
  ultimately show ?case using pl by (simp add: payload_at_def payloads_of_def sizes_of_def)
qed (simp add: payloads_of_def sizes_of_def)

lemma descs_sorted:
  "sorted_wrt (\<lambda>d e. sd_end d \<le> sd_offset e) (descs p c ks) \<and> (\<forall>d \<in> set (descs p c ks). c \<le> sd_offset d
     \<and> sd_end d \<le> c + length (payloads_of p ks))"
proof (induction ks arbitrary: c)
  case (Cons k ks)
  from Cons.IH [of "c + length (payload_at p k)"] show ?case
    by (auto simp: sd_end_def payloads_of_def)
qed simp

lemma descs_checksum:
  "d \<in> set (descs p c ks) \<Longrightarrow> contextIndexChecksum (payload_at p (sd_kind d)) 0 (sd_length d) = Inr (sd_checksum d)
     \<and> sd_length d = length (payload_at p (sd_kind d)) \<and> sd_count d = sp_count (the (p (sd_kind d)))"
proof (induction ks arbitrary: c)
  case (Cons k ks)
  obtain x where "contextIndexChecksum (payload_at p k) 0 (length (payload_at p k)) = Inr x"
    using contextIndexChecksum_ok [of 0 "length (payload_at p k)" "payload_at p k"] by blast
  with Cons show ?case by auto
qed simp

lemma descs_bslice:
  "d \<in> set (descs p c ks) \<Longrightarrow> length pre = c \<Longrightarrow>
     bslice (pre @ payloads_of p ks) (sd_offset d) (sd_end d) = payload_at p (sd_kind d)"
proof (induction ks arbitrary: c pre)
  case (Cons k ks)
  show ?case
  proof (cases "d \<in> set (descs p (c + length (payload_at p k)) ks)")
    case True
    with Cons.IH [of "c + length (payload_at p k)" "pre @ payload_at p k"] Cons.prems(2)
    show ?thesis by (simp add: payloads_of_def)
  next
    case False
    with Cons.prems show ?thesis by (auto simp: sd_end_def payloads_of_def bslice_def)
  qed
qed simp

text \<open>Overlays of adjacent ranges build the concatenation.\<close>

lemma overlay_next: "overlay (length pre) src (pre @ replicate (length src + n) 0) = pre @ src @ replicate n 0"
  by (simp add: overlay_def)

lemma write_rows:
  assumes "\<forall>r \<in> set rs. length r = w" "length mid = k * w"
  shows "fold (\<lambda>(i, r) bs. overlay (length pre + i * w) r bs) (zip [k..<k + length rs] rs)
      (pre @ mid @ replicate (length rs * w + n) 0) = pre @ mid @ concat rs @ replicate n 0"
  using assms
proof (induction rs arbitrary: k mid)
  case (Cons r rs)
  have z: "zip [k..<k + length (r # rs)] (r # rs) = (k, r) # zip [Suc k..<Suc k + length rs] rs"
    by (simp add: upt_rec)
  have "overlay (length (pre @ mid)) r ((pre @ mid) @ replicate (length r + (length rs * w + n)) 0)
      = (pre @ mid) @ r @ replicate (length rs * w + n) 0"
    by (rule overlay_next)
  moreover have "w + length rs * w + n = length r + (length rs * w + n)" using Cons.prems by simp
  ultimately have "overlay (length pre + k * w) r (pre @ mid @ replicate (length (r # rs) * w + n) 0)
      = pre @ (mid @ r) @ replicate (length rs * w + n) 0"
    using Cons.prems by (simp add: add.assoc)
  with Cons.IH [of "mid @ r" "Suc k"] Cons.prems z show ?case by simp
qed simp

lemma write_descriptors_eq:
  assumes "length head = 104"
  shows "write_descriptors ds (head @ replicate (length ds * 32 + n) 0)
     = head @ concat (map encodeSectionDescriptor ds) @ replicate n 0"
proof -
  have z: "zip [0..<length ds] (map encodeSectionDescriptor ds)
      = map (\<lambda>(i, d). (i, encodeSectionDescriptor d)) (zip [0..<length ds] ds)"
    by (simp add: zip_map2)
  have "fold (\<lambda>(i, r) bs. overlay (length head + i * 32) r bs)
       (zip [0..<0 + length (map encodeSectionDescriptor ds)] (map encodeSectionDescriptor ds))
       (head @ [] @ replicate (length (map encodeSectionDescriptor ds) * 32 + n) 0)
      = head @ [] @ concat (map encodeSectionDescriptor ds) @ replicate n 0"
    by (rule write_rows) auto
  then show ?thesis
    using assms by (simp add: write_descriptors_def layout z fold_map comp_def case_prod_unfold)
qed

lemma write_payloads_eq:
  assumes "length pre = c"
  shows "fold (\<lambda>(i, kind) bs. overlay (sd_offset (descs p c ks ! (i - k))) (sp_bytes (the (p kind))) bs)
      (zip [k..<k + length ks] ks) (pre @ replicate (length (payloads_of p ks)) 0) = pre @ payloads_of p ks"
  using assms
proof (induction ks arbitrary: c pre k)
  case (Cons x ks)
  let ?n = "length (payloads_of p ks)"
  have z: "zip [k..<k + length (x # ks)] (x # ks) = (k, x) # zip [Suc k..<Suc k + length ks] ks"
    by (simp add: upt_rec)
  have len: "length (payloads_of p (x # ks)) = length (payload_at p x) + ?n"
    by (simp add: payloads_of_def)
  have "overlay c (payload_at p x) (pre @ replicate (length (payloads_of p (x # ks))) 0)
      = (pre @ payload_at p x) @ replicate ?n 0"
    using overlay_next [of pre "payload_at p x" ?n] Cons.prems by (simp add: len)
  moreover have "fold (\<lambda>(i, kind) bs. overlay (sd_offset (descs p c (x # ks) ! (i - k)))
        (sp_bytes (the (p kind))) bs) (zip [Suc k..<Suc k + length ks] ks) bs
      = fold (\<lambda>(i, kind) bs. overlay (sd_offset (descs p (c + length (payload_at p x)) ks ! (i - Suc k)))
        (sp_bytes (the (p kind))) bs) (zip [Suc k..<Suc k + length ks] ks) bs" for bs
  proof (intro fold_cong refl)
    fix q assume "q \<in> set (zip [Suc k..<Suc k + length ks] ks)"
    then have "fst q \<in> set [Suc k..<Suc k + length ks]"
      by (metis in_set_zipE prod.collapse)
    then have "fst q - k = Suc (fst q - Suc k)" by auto
    then show "(\<lambda>(i, kind) bs. overlay (sd_offset (descs p c (x # ks) ! (i - k))) (sp_bytes (the (p kind))) bs) q
      = (\<lambda>(i, kind) bs. overlay (sd_offset (descs p (c + length (payload_at p x)) ks ! (i - Suc k))) (sp_bytes (the (p kind))) bs) q"
      by (simp add: case_prod_unfold)
  qed
  ultimately show ?case
    unfolding z using Cons.IH [of "pre @ payload_at p x" "c + length (payload_at p x)" "Suc k"] Cons.prems
    by (simp add: payload_at_def [symmetric] payloads_of_def)
qed (simp add: payloads_of_def)

definition header_of :: "assemble_header \<Rightarrow> ContextIndexHeader" where
  "header_of h = \<lparr>formatRevision = 2, schemaRevision = ah_schemaRevision h, hflags = 0,
     nodeCount = ah_nodeCount h, edgeCount = ah_edgeCount h, termCount = ah_termCount h,
     provenanceCount = ah_provenanceCount h, snapshotHash = ah_snapshotHash h,
     configHash = ah_configHash h, sectionCount = 20\<rparr>"

abbreviation file_descs :: "(nat \<rightharpoonup> section_payload) \<Rightarrow> SectionDescriptor list" where
  "file_descs p \<equiv> descs p 744 CONTEXT_INDEX_REQUIRED_SECTIONS"

lemma assemble_bytes:
  assumes "SECTION_KINDS \<subseteq> dom p"
  obtains head where "encodeContextIndexHeader (header_of h) = Inr head"
    "assemble p h = Inr \<lparr>ai_bytes = head @ concat (map encodeSectionDescriptor (file_descs p))
        @ payloads_of p CONTEXT_INDEX_REQUIRED_SECTIONS,
      ai_nodeCount = ah_nodeCount h, ai_edgeCount = ah_edgeCount h,
      ai_provenanceCount = ah_provenanceCount h, ai_stringCount = ah_stringCount h,
      ai_sectionBytes = sizes_of p CONTEXT_INDEX_REQUIRED_SECTIONS\<rparr>"
proof -
  let ?ks = "CONTEXT_INDEX_REQUIRED_SECTIONS"
  have lay: "lay_out p 744 ?ks = Inr (file_descs p, sizes_of p ?ks, 744 + length (payloads_of p ?ks))"
    using lay_out_descs [of ?ks p 744] assms by (auto simp: SECTION_KINDS_def)
  obtain head where head: "encodeContextIndexHeader (header_of h) = Inr head"
    by (rule encode_header_cases)
  have len: "length head = 104" using head by (rule length_encode_header)
  let ?n = "length (payloads_of p ?ks)"
  let ?tab = "concat (map encodeSectionDescriptor (file_descs p))"
  have "overlay 0 head (replicate (744 + ?n) 0) = head @ replicate (length (file_descs p) * 32 + ?n) 0"
    using len by (simp add: overlay_def length_required_sections)
  moreover have "write_payloads p (file_descs p) ?ks ((head @ ?tab) @ replicate ?n 0)
      = (head @ ?tab) @ payloads_of p ?ks"
    using write_payloads_eq [of "head @ ?tab" 744 p ?ks 0] len
    by (simp add: write_payloads_def length_required_sections length_concat comp_def sum_list_triv)
  ultimately have "assemble p h = Inr \<lparr>ai_bytes = head @ ?tab @ payloads_of p ?ks,
      ai_nodeCount = ah_nodeCount h, ai_edgeCount = ah_edgeCount h,
      ai_provenanceCount = ah_provenanceCount h, ai_stringCount = ah_stringCount h,
      ai_sectionBytes = sizes_of p ?ks\<rparr>"
    using lay head len write_descriptors_eq [of head "file_descs p" ?n]
    by (simp add: assemble_def layout length_required_sections header_of_def)
  with head show thesis by (rule that)
qed

section \<open>The reader accepts what was assembled\<close>

text \<open>
  \<open>assemblable p h\<close>: every kind has a payload, and sizes, counts and hashes fit the format's
  fields and limits.
\<close>

definition assemblable :: "(nat \<rightharpoonup> section_payload) \<Rightarrow> assemble_header \<Rightarrow> bool" where
  "assemblable p h \<longleftrightarrow> SECTION_KINDS \<subseteq> dom p \<and> header_ok (header_of h)
     \<and> (\<forall>k \<in> SECTION_KINDS. sp_count (the (p k)) \<le> maxSectionCountValue
          \<and> length (payload_at p k) \<le> maxSectionBytes)
     \<and> 744 + length (payloads_of p CONTEXT_INDEX_REQUIRED_SECTIONS) \<le> maxFileBytes"

lemma checksum_bound: "contextIndexChecksum bs s e = Inr c \<Longrightarrow> c < 2 ^ 64"
proof -
  assume c: "contextIndexChecksum bs s e = Inr c"
  then have "s \<le> e" "e \<le> length bs" by (auto simp: contextIndexChecksum_def split: if_splits)
  with c show ?thesis by (metis Inr_inject contextIndexChecksum_ok)
qed

lemma set_file_descs: "sd_kind ` set (file_descs p) = SECTION_KINDS"
  by (metis SECTION_KINDS_def list.set_map map_kind_descs)

lemma assembled_layout:
  assumes ok: "assemblable p h" and head: "length head = 104"
  shows "layout_ok (head @ concat (map encodeSectionDescriptor (file_descs p))
      @ payloads_of p CONTEXT_INDEX_REQUIRED_SECTIONS) (file_descs p)" (is "layout_ok ?bs ?ds")
proof -
  let ?ks = "CONTEXT_INDEX_REQUIRED_SECTIONS"
  have len: "length ?bs = 744 + length (payloads_of p ?ks)"
    using head by (simp add: length_concat comp_def sum_list_triv length_required_sections)
  have srt: "sort_key sd_offset ?ds = ?ds"
  proof (rule sort_key_id_if_sorted)
    have "sorted_wrt (\<lambda>d e. sd_offset d \<le> sd_offset e) ?ds"
      by (rule sorted_wrt_mono_rel [OF _ conjunct1 [OF descs_sorted [of p 744 ?ks]]]) (simp add: sd_end_def)
    then show "sorted (map sd_offset ?ds)" by (simp add: sorted_wrt_map)
  qed
  have at: "section_at ?bs 744 d \<and> contextIndexChecksum ?bs (sd_offset d) (sd_end d) = Inr (sd_checksum d)"
    if d: "d \<in> set ?ds" for d
  proof -
    have k: "sd_kind d \<in> SECTION_KINDS" using d set_file_descs by blast
    have b: "744 \<le> sd_offset d" "sd_end d \<le> length ?bs"
      using descs_sorted [of p 744 ?ks] d len by auto
    note c = descs_checksum [OF d]
    have "bslice ((head @ concat (map encodeSectionDescriptor ?ds)) @ payloads_of p ?ks) (sd_offset d) (sd_end d)
        = payload_at p (sd_kind d)"
      using head by (intro descs_bslice [OF d])
        (simp add: length_concat comp_def sum_list_triv length_required_sections)
    then have s: "bslice ?bs (sd_offset d) (sd_end d) = payload_at p (sd_kind d)" by simp
    have e: "sd_end d - sd_offset d = sd_length d" "sd_offset d \<le> sd_end d" by (simp_all add: sd_end_def)
    have "contextIndexChecksum ?bs (sd_offset d) (sd_end d) = Inr (sd_checksum d)"
      using contextIndexChecksum_whole [OF e(2) b(2)] c unfolding s e by metis
    with b c k ok len show ?thesis by (simp add: section_at_def assemblable_def)
  qed
  then show ?thesis
    using descs_sorted [of p 744 ?ks] srt set_file_descs
    by (auto simp: layout_ok_def list_all_iff length_required_sections distinct_required_sections)
qed

lemma assemble_accepted:
  assumes ok: "assemblable p h"
  obtains w where "assemble p h = Inr w" "readContextIndexHeader (ai_bytes w) = Inr (header_of h)"
    "readSectionTable (ai_bytes w) (header_of h) = Inr (file_descs p)"
    "validateSectionLayout (ai_bytes w) (header_of h) (file_descs p) = Inr (section_map (file_descs p))"
    "\<And>k. k \<in> SECTION_KINDS \<Longrightarrow> \<exists>d. section_map (file_descs p) k = Some d \<and> sd_kind d = k
       \<and> bslice (ai_bytes w) (sd_offset d) (sd_end d) = payload_at p k \<and> sd_end d \<le> length (ai_bytes w)
       \<and> sd_count d = sp_count (the (p k)) \<and> sd_length d = length (payload_at p k)"
proof -
  let ?ks = "CONTEXT_INDEX_REQUIRED_SECTIONS" and ?ds = "file_descs p"
  have dom: "SECTION_KINDS \<subseteq> dom p" using ok by (simp add: assemblable_def)
  obtain head where head: "encodeContextIndexHeader (header_of h) = Inr head"
    and a: "assemble p h = Inr \<lparr>ai_bytes = head @ concat (map encodeSectionDescriptor ?ds)
        @ payloads_of p ?ks,
      ai_nodeCount = ah_nodeCount h, ai_edgeCount = ah_edgeCount h,
      ai_provenanceCount = ah_provenanceCount h, ai_stringCount = ah_stringCount h,
      ai_sectionBytes = sizes_of p ?ks\<rparr>" (is "_ = Inr ?w")
    by (rule assemble_bytes [OF dom])
  have len: "length head = 104" using head by (rule length_encode_header)
  have tab: "length (concat (map encodeSectionDescriptor ?ds)) = 640"
    by (simp add: length_concat comp_def sum_list_triv length_required_sections)
  note lay = assembled_layout [OF ok len]
  have "readContextIndexHeader (ai_bytes ?w) = Inr (header_of h)"
    using read_header_encoded [OF head, of "concat (map encodeSectionDescriptor ?ds) @ payloads_of p ?ks"] ok
    by (simp add: assemblable_def)
  moreover have "readSectionTable (ai_bytes ?w) (header_of h) = Inr ?ds"
  proof -
    have "descriptor_ok d" if d: "d \<in> set ?ds" for d
    proof -
      have "sd_kind d \<in> SECTION_KINDS" using d set_file_descs by blast
      moreover have "section_at (ai_bytes ?w) 744 d" "contextIndexChecksum (ai_bytes ?w) (sd_offset d) (sd_end d) = Inr (sd_checksum d)"
        using lay d by (auto simp: layout_ok_def list_all_iff length_required_sections)
      moreover from this have "sd_checksum d < 2 ^ 64"
        by (intro checksum_bound [of "ai_bytes ?w" "sd_offset d" "sd_end d"])
      ultimately show ?thesis
        using descs_checksum [OF d] ok by (simp add: descriptor_ok_def assemblable_def section_at_def sd_end_def limits)
    qed
    then show ?thesis
      using len tab unfolding section_table_iff
      by (simp add: header_of_def length_required_sections limits list_all_iff byte_simps)
  qed
  moreover have "validateSectionLayout (ai_bytes ?w) (header_of h) ?ds = Inr (section_map ?ds)"
    using lay by (simp add: validate_layout_Inr)
  moreover have "\<exists>d. section_map ?ds k = Some d \<and> sd_kind d = k
       \<and> bslice (ai_bytes ?w) (sd_offset d) (sd_end d) = payload_at p k \<and> sd_end d \<le> length (ai_bytes ?w)
       \<and> sd_count d = sp_count (the (p k)) \<and> sd_length d = length (payload_at p k)"
    if "k \<in> SECTION_KINDS" for k
  proof -
    from layout_required [OF lay that] obtain d where d: "section_map ?ds k = Some d" "sd_kind d = k" "d \<in> set ?ds"
      by blast
    have "bslice ((head @ concat (map encodeSectionDescriptor ?ds)) @ payloads_of p ?ks) (sd_offset d) (sd_end d)
        = payload_at p (sd_kind d)"
      using len tab by (intro descs_bslice [OF d(3)]) simp
    moreover have "sd_end d \<le> length (ai_bytes ?w)"
      using lay d(3) by (auto simp: layout_ok_def list_all_iff section_at_def)
    ultimately show ?thesis using descs_checksum [OF d(3)] d by auto
  qed
  ultimately show thesis using a by (intro that)
qed

end
