(* ===== verification/Writer.thy ===== *)
theory Writer
  imports Writer_Lexical Writer_Assemble "HOL-Library.Product_Lexorder"
begin

text \<open>
  runtime-index/writer.ts: \<open>encodeContextIndex\<close>, the compiler from a snapshot to the bytes of
  an index, in the order of the source: refusals, interning, edges in CSR order, node rows
  and metadata, the lanes, and assembly.

  A sort with a comparator is \<open>sort_key\<close> of the tuple the comparator compares. The arguments
  \<open>toString\<close> (\<open>String\<close> on a number) and \<open>buildContextLexicon\<close> are described where they are used.
\<close>

unbundle bit_operations_syntax

section \<open>Input and output\<close>

record ('n, 'config) ContextIndexWriteInput =
  wi_snapshot :: "'n ContextGraphSnapshot"
  wi_configHash :: bytes
  wi_schemaRevision :: nat
  wi_lintErrors :: "js_string list option"
  wi_protectedNodeIds :: "js_string list option"
  wi_invalidatedNodeIds :: "js_string list option"
  wi_lexicon :: "'config option"

record ContextIndexWriteLexiconResult =
  wl_termCount :: nat
  wl_postingCount :: nat
  wl_coarseTermCount :: nat
  wl_coarsePostingCount :: nat
  wl_omissions :: ContextLexiconOmissions

record ContextIndexWriteResult =
  wr_assembled :: assembled_index
  wr_lexicon :: "ContextIndexWriteLexiconResult option"

abbreviation refuse :: "writer_error_code \<Rightarrow> detail \<Rightarrow> 'a res" where
  "refuse code detail \<equiv> Inl (Writer_error code detail)"

section \<open>Node ids and interning\<close>

fun index_nodes :: "nat \<Rightarrow> (js_string \<rightharpoonup> nat) \<Rightarrow> js_string list \<Rightarrow> (js_string \<rightharpoonup> nat) res" where
  "index_nodes position nodeIndex [] = Inr nodeIndex"
| "index_nodes position nodeIndex (nid # ids) =
    (if nodeIndex nid \<noteq> None then refuse Duplicate_node [(''at'', int position)]
     else index_nodes (position + 1) (nodeIndex(nid \<mapsto> position)) ids)"

definition intern_entry ::
  "('n \<Rightarrow> js_string) \<Rightarrow> js_string \<times> 'n ContextGraphMetadataValue \<Rightarrow> StringInterner \<Rightarrow> StringInterner res"
  where
  "intern_entry toString entry s =
    rbind (interner_add (fst entry) s) (\<lambda>s.
    rbind (contextIndexMetadataCells toString (snd entry)) (\<lambda>cells.
    fold_res (\<lambda>cell s. interner_add (cell_text cell) s) cells s))"

definition intern_node ::
  "('n \<Rightarrow> js_string) \<Rightarrow> (js_string \<rightharpoonup> nat) \<Rightarrow> 'n ContextGraphNode \<Rightarrow> StringInterner \<Rightarrow> StringInterner res"
  where
  "intern_node toString nodeIndex node s =
    (let at_node = [(''node'', int (the (nodeIndex (n_id node))))] in
     if NODE_KIND_CODE (n_kind node) = None then refuse Unknown_enum at_node else
     if FRESHNESS_CODE (n_freshness node) = None \<or> RISK_CODE (n_risk node) = None
     then refuse Unknown_enum at_node else
     rbind (interner_add (n_id node) s) (\<lambda>s.
     rbind (interner_add (n_label node) s) (\<lambda>s.
     rbind (case n_path node of None \<Rightarrow> Inr s
       | Some path \<Rightarrow>
           (if \<not> isWorkspaceRelativePosixPath path then refuse Absolute_path at_node
            else interner_add path s)) (\<lambda>s.
     rbind (case n_contentHash node of None \<Rightarrow> Inr s | Some h \<Rightarrow> interner_add h s) (\<lambda>s.
     fold_res (intern_entry toString) (n_metadata node) s)))))"

definition intern_edge ::
  "(js_string \<rightharpoonup> nat) \<Rightarrow> ContextGraphEdge \<Rightarrow> StringInterner \<Rightarrow> StringInterner res" where
  "intern_edge nodeIndex edge s =
    (if EDGE_TYPE_CODE (e_type edge) = None then refuse Unknown_enum [] else
     if CONFIDENCE_CODE (e_confidence edge) = None then refuse Unknown_enum [] else
     if nodeIndex (e_from edge) = None \<or> nodeIndex (e_to edge) = None then refuse Dangling_edge [] else
     if \<not> isWorkspaceRelativePosixPath (p_path (e_provenance edge)) then refuse Absolute_path [] else
     rbind (interner_add (p_path (e_provenance edge)) s) (\<lambda>s.
     rbind (interner_add (p_hash (e_provenance edge)) s) (\<lambda>s.
     interner_add (p_extractor (e_provenance edge)) s)))"

section \<open>Edges\<close>

record ordered_edge =
  oe_edge :: ContextGraphEdge
  oe_from :: nat
  oe_to :: nat

definition order_edges :: "(js_string \<rightharpoonup> nat) \<Rightarrow> ContextGraphEdge list \<Rightarrow> ordered_edge list" where
  "order_edges nodeIndex edges =
     sort_key (\<lambda>e. (oe_from e, oe_to e, the (EDGE_TYPE_CODE (e_type (oe_edge e))), e_id (oe_edge e)))
       (map (\<lambda>edge. \<lparr>oe_edge = edge, oe_from = the (nodeIndex (e_from edge)),
          oe_to = the (nodeIndex (e_to edge))\<rparr>) edges)"

record provenance_index =
  pi_rows :: "ProvenanceRow list"
  pi_index :: "ProvenanceRow \<rightharpoonup> nat"

definition provenanceIdFor :: "ProvenanceRow \<Rightarrow> provenance_index \<Rightarrow> nat \<times> provenance_index" where
  "provenanceIdFor row s =
    (case pi_index s row of
       Some found \<Rightarrow> (found, s)
     | None \<Rightarrow> (let assigned = length (pi_rows s) in
         (assigned, s\<lparr>pi_rows := pi_rows s @ [row], pi_index := (pi_index s)(row \<mapsto> assigned)\<rparr>)))"

definition edge_row_bytes :: "nat \<Rightarrow> nat \<Rightarrow> nat \<Rightarrow> nat \<Rightarrow> bytes" where
  "edge_row_bytes to type confidence prov =
     put_le 4 to @ put_le 1 type @ put_le 1 confidence @ put_le 2 0 @ put_le 4 prov
     @ put_le 2 CONTEXT_INDEX_PROFILE_MASK_RESERVED @ put_le 2 0"

definition provenance_row_of :: "StringInterner \<Rightarrow> ContextGraphProvenance \<Rightarrow> ProvenanceRow res" where
  "provenance_row_of s p =
    rbind (interner_idOf s (p_path p)) (\<lambda>pathId.
    rbind (interner_idOf s (p_hash p)) (\<lambda>hashId.
    rbind (interner_idOf s (p_extractor p)) (\<lambda>extractorId.
    Inr \<lparr>pr_pathId = pathId,
         pr_line = (case p_line p of None \<Rightarrow> int CONTEXT_INDEX_NO_VALUE | Some l \<Rightarrow> l),
         pr_hashId = hashId, pr_extractorId = extractorId\<rparr>)))"

fun write_edges ::
  "StringInterner \<Rightarrow> ordered_edge list \<Rightarrow> provenance_index \<Rightarrow> (bytes list \<times> provenance_index) res" where
  "write_edges s [] pix = Inr ([], pix)"
| "write_edges s (e # es) pix =
    rbind (provenance_row_of s (e_provenance (oe_edge e))) (\<lambda>row.
    let (prov, pix) = provenanceIdFor row pix in
    rbind (write_edges s es pix) (\<lambda>(rs, pix).
    Inr (edge_row_bytes (oe_to e) (the (EDGE_TYPE_CODE (e_type (oe_edge e))))
           (the (CONFIDENCE_CODE (e_confidence (oe_edge e)))) prov # rs, pix)))"

section \<open>Nodes\<close>

definition nodeFlags :: "'n ContextGraphNode \<Rightarrow> js_string set \<Rightarrow> js_string set \<Rightarrow> nat" where
  "nodeFlags node protectedIds invalidatedIds =
    (let flags = 0;
         flags = (if n_id node \<notin> invalidatedIds \<and> n_freshness node = Fresh
                  then flags OR GROUNDABLE else flags);
         flags = (if n_id node \<in> invalidatedIds then flags OR INVALIDATED else flags);
         flags = (if n_id node \<in> protectedIds \<or> n_risk node = Protected
                  then flags OR PROTECTED else flags);
         flags = (if n_kind node \<in> EVIDENCE_KINDS then flags OR IS_EVIDENCE else flags);
         flags = (if n_kind node \<in> TEST_OR_GATE_KINDS then flags OR IS_TEST_OR_GATE else flags);
         flags = (if n_path node \<noteq> None then flags OR HAS_PATH else flags);
         flags = (if n_contentHash node \<noteq> None then flags OR HAS_CONTENT_HASH else flags)
     in flags)"

text \<open>\<open>Math.max(0, Math.min(0xffffffff, Math.round(tokenCost)))\<close>; \<open>setUint32(NaN)\<close> writes 0.\<close>

definition token_cost_u32 :: "js_number \<Rightarrow> nat" where
  "token_cost_u32 cost = (case cost of
       Finite x \<Rightarrow> nat (max 0 (min 0xffffffff (math_round x)))
     | Infinite \<Rightarrow> 0xffffffff
     | Negative_infinite \<Rightarrow> 0
     | Not_a_number \<Rightarrow> 0)"

definition locator_u32 :: "int option \<Rightarrow> nat" where
  "locator_u32 v = (case v of None \<Rightarrow> CONTEXT_INDEX_NO_VALUE | Some l \<Rightarrow> u32_of l)"

definition node_row ::
  "StringInterner \<Rightarrow> js_string set \<Rightarrow> js_string set \<Rightarrow> 'n ContextGraphNode \<Rightarrow> nat \<Rightarrow> bytes res" where
  "node_row s protectedIds invalidatedIds node position =
    rbind (interner_idOf s (n_label node)) (\<lambda>label.
    rbind (interner_idOrSentinel s (n_path node)) (\<lambda>path.
    rbind (interner_idOrSentinel s (n_contentHash node)) (\<lambda>hash.
    rbind (interner_idOf s (n_id node)) (\<lambda>nid.
    Inr (put_le 1 (the (NODE_KIND_CODE (n_kind node)))
       @ put_le 1 (the (FRESHNESS_CODE (n_freshness node)))
       @ put_le 1 (the (RISK_CODE (n_risk node)))
       @ put_le 1 (nodeFlags node protectedIds invalidatedIds)
       @ put_le 2 (nat (quantizeTrust (finite_number (n_trust node))))
       @ put_le 2 0
       @ put_le 4 (token_cost_u32 (n_tokenCost node))
       @ put_le 4 label @ put_le 4 path
       @ put_le 4 (locator_u32 (Option.bind (n_locator node) loc_line))
       @ put_le 4 (locator_u32 (Option.bind (n_locator node) loc_column))
       @ put_le 4 hash @ put_le 4 position @ put_le 4 nid)))))"

definition entry_rows ::
  "('n \<Rightarrow> js_string) \<Rightarrow> StringInterner \<Rightarrow> nat \<Rightarrow> js_string \<times> 'n ContextGraphMetadataValue
     \<Rightarrow> MetadataRow list res" where
  "entry_rows toString s position entry =
    rbind (interner_idOf s (fst entry)) (\<lambda>keyId.
    rbind (contextIndexMetadataCells toString (snd entry)) (\<lambda>cells.
    map_res (\<lambda>cell. rbind (interner_idOf s (cell_text cell)) (\<lambda>value.
      Inr \<lparr>mr_node = position, mr_key = keyId, mr_value = value, mr_type = cell_type cell,
           mr_ordinal = cell_ordinal cell\<rparr>)) cells))"

definition write_node ::
  "('n \<Rightarrow> js_string) \<Rightarrow> StringInterner \<Rightarrow> js_string set \<Rightarrow> js_string set \<Rightarrow> 'n ContextGraphNode \<times> nat
     \<Rightarrow> (bytes \<times> MetadataRow list) res" where
  "write_node toString s protectedIds invalidatedIds = (\<lambda>(node, position).
    rbind (node_row s protectedIds invalidatedIds node position) (\<lambda>row.
    rbind (map_res (entry_rows toString s position) (n_metadata node)) (\<lambda>rs.
    Inr (row, concat rs))))"

definition metadata_sort :: "MetadataRow list \<Rightarrow> MetadataRow list" where
  "metadata_sort = sort_key (\<lambda>r. (mr_node r, mr_key r, mr_ordinal r, mr_type r, mr_value r))"

section \<open>The other sections\<close>

text \<open>\<open>String\<close> on a natural number.\<close>

fun decimal :: "nat \<Rightarrow> js_string" where
  "decimal n = (if n < 10 then [word_of_nat (48 + n)]
     else decimal (n div 10) @ [word_of_nat (48 + n mod 10)])"

declare decimal.simps [simp del]

text \<open>
  Source hash rows: the distinct \<open>path:hash\<close> keys in the order of the keys as strings. A key
  determines its two numbers, so the row stands for its key.
\<close>

definition pair_key :: "nat \<times> nat \<Rightarrow> js_string" where
  "pair_key r = decimal (fst r) @ 58 # decimal (snd r)"

definition source_hash_rows ::
  "StringInterner \<Rightarrow> 'n ContextGraphNode list \<Rightarrow> (nat \<times> nat) list res" where
  "source_hash_rows s nodes =
    rbind (map_res (\<lambda>node.
        rbind (interner_idOf s (the (n_path node))) (\<lambda>path.
        rbind (interner_idOf s (the (n_contentHash node))) (\<lambda>hash. Inr (path, hash))))
      (filter (\<lambda>node. n_path node \<noteq> None \<and> n_contentHash node \<noteq> None) nodes)) (\<lambda>rs.
    Inr (sort_key pair_key (fold set_add rs [])))"

definition cycle_rows :: "(js_string \<rightharpoonup> nat) \<Rightarrow> ContextGraphCycle list \<Rightarrow> nat list" where
  "cycle_rows nodeIndex cycles =
     sort (concat (map (\<lambda>cycle. List.map_filter nodeIndex (cy_nodes cycle)) cycles))"

definition exact_entries ::
  "StringInterner \<Rightarrow> 'n ContextGraphNode list \<Rightarrow> (nat \<times> nat) list res" where
  "exact_entries s nodes =
     map_res (\<lambda>(node, position). rbind (interner_idOf s (n_id node)) (\<lambda>i. Inr (i, position)))
       (zip nodes [0..<length nodes])"

definition basename_entries ::
  "StringInterner \<Rightarrow> (js_string \<rightharpoonup> nat) \<Rightarrow> 'n ContextGraphNode list \<Rightarrow> (nat \<times> nat) list res" where
  "basename_entries s nodeIndex nodes =
     map_res (\<lambda>node. rbind (interner_idOf s (the (n_path node))) (\<lambda>i.
         Inr (i, the (nodeIndex (n_id node)))))
       (filter (\<lambda>node. n_path node \<noteq> None) nodes)"

definition encode_lane ::
  "StringInterner \<Rightarrow> nat \<Rightarrow> ContextLexiconBuildResult option \<Rightarrow> ContextIndexLaneSection res" where
  "encode_lane s nodes built = (case built of None \<Rightarrow> Inr EMPTY_CONTEXT_INDEX_LANE
     | Some b \<Rightarrow> encodeContextIndexLane b (interner_idOf s) nodes)"

section \<open>The encoder\<close>

text \<open>Step 1: every string of the graph, with the refusals met on the way.\<close>

definition intern_graph ::
  "('n \<Rightarrow> js_string) \<Rightarrow> (js_string \<rightharpoonup> nat) \<Rightarrow> 'n ContextGraphNode list \<Rightarrow> ContextGraphEdge list
     \<Rightarrow> StringInterner res" where
  "intern_graph toString nodeIndex nodes edges =
    rbind (fold_res (intern_node toString nodeIndex) nodes new_interner)
      (fold_res (intern_edge nodeIndex) edges)"

text \<open>Steps 2 to 4: the payload of every section, from the sealed interner.\<close>

definition section_payloads ::
  "('n \<Rightarrow> js_string) \<Rightarrow> StringInterner \<Rightarrow> (js_string \<rightharpoonup> nat) \<Rightarrow> 'n ContextGraphNode list
     \<Rightarrow> ContextGraphEdge list \<Rightarrow> ContextGraphCycle list \<Rightarrow> js_string set \<Rightarrow> js_string set
     \<Rightarrow> ContextIndexLexicalBuild option
     \<Rightarrow> ((nat \<rightharpoonup> section_payload) \<times> nat \<times> nat
          \<times> ContextIndexLaneSection \<times> ContextIndexLaneSection) res" where
  "section_payloads toString s nodeIndex nodes edges cycles protectedIds invalidatedIds lexical =
    (let ordered = order_edges nodeIndex edges in
    rbind (write_edges s ordered \<lparr>pi_rows = [], pi_index = Map.empty\<rparr>) (\<lambda>(edgeRows, pix).
    let outOffsets = csrOffsets (map oe_from ordered) (length nodes);
        inOrder = sort (zip (map oe_to ordered) [0..<length ordered]);
        inOffsets = csrOffsets (map fst inOrder) (length nodes) in
    rbind (map_res (write_node toString s protectedIds invalidatedIds) (zip nodes [0..<length nodes]))
      (\<lambda>nodeRows.
    let metadataRows = metadata_sort (concat (map snd nodeRows)) in
    rbind (exact_entries s nodes) (\<lambda>exactEntries.
    let exact = termTable exactEntries in
    rbind (basename_entries s nodeIndex nodes) (\<lambda>basenameEntries.
    let basename = termTable basenameEntries in
    rbind (source_hash_rows s nodes) (\<lambda>sourceHashRows.
    rbind (encode_lane s (length nodes) (map_option lx_lexical lexical)) (\<lambda>lexiconLane.
    rbind (encode_lane s (length nodes) (map_option lx_coarse lexical)) (\<lambda>coarseLane.
    let cycleRows = cycle_rows nodeIndex cycles in
    rbind (interner_encode s) (\<lambda>strings.
    Inr ([STRING_TABLE \<mapsto> \<lparr>sp_bytes = strings, sp_count = interner_size s\<rparr>,
          NODE_TABLE \<mapsto> \<lparr>sp_bytes = concat (map fst nodeRows), sp_count = length nodes\<rparr>,
          NODE_METADATA \<mapsto> \<lparr>sp_bytes = metadataTable metadataRows, sp_count = length metadataRows\<rparr>,
          EDGE_TABLE \<mapsto> \<lparr>sp_bytes = concat edgeRows, sp_count = length ordered\<rparr>,
          OUT_CSR_OFFSETS \<mapsto> \<lparr>sp_bytes = u32Section outOffsets, sp_count = length outOffsets\<rparr>,
          OUT_CSR_EDGES \<mapsto> \<lparr>sp_bytes = u32Section [0..<length ordered], sp_count = length ordered\<rparr>,
          IN_CSR_OFFSETS \<mapsto> \<lparr>sp_bytes = u32Section inOffsets, sp_count = length inOffsets\<rparr>,
          IN_CSR_EDGES \<mapsto> \<lparr>sp_bytes = u32Section (map snd inOrder), sp_count = length inOrder\<rparr>,
          EXACT_TERM_TABLE \<mapsto> \<lparr>sp_bytes = ls_table exact, sp_count = ls_termCount exact\<rparr>,
          EXACT_POSTINGS \<mapsto> \<lparr>sp_bytes = ls_postings exact, sp_count = ls_postingCount exact\<rparr>,
          BASENAME_TABLE \<mapsto> \<lparr>sp_bytes = ls_table basename, sp_count = ls_termCount basename\<rparr>,
          BASENAME_POSTINGS \<mapsto> \<lparr>sp_bytes = ls_postings basename, sp_count = ls_postingCount basename\<rparr>,
          LEXICON_TABLE \<mapsto> \<lparr>sp_bytes = ls_table lexiconLane, sp_count = ls_termCount lexiconLane\<rparr>,
          LEXICON_POSTINGS \<mapsto> \<lparr>sp_bytes = ls_postings lexiconLane, sp_count = ls_postingCount lexiconLane\<rparr>,
          COARSE_TERM_TABLE \<mapsto> \<lparr>sp_bytes = ls_table coarseLane, sp_count = ls_termCount coarseLane\<rparr>,
          COARSE_POSTINGS \<mapsto> \<lparr>sp_bytes = ls_postings coarseLane, sp_count = ls_postingCount coarseLane\<rparr>,
          PROVENANCE_TABLE \<mapsto> \<lparr>sp_bytes = provenanceTable (pi_rows pix), sp_count = length (pi_rows pix)\<rparr>,
          GROUP_TABLE \<mapsto> \<lparr>sp_bytes = u32Section [0..<length nodes], sp_count = length nodes\<rparr>,
          CYCLE_TABLE \<mapsto> \<lparr>sp_bytes = u32Section cycleRows, sp_count = length cycleRows\<rparr>,
          SOURCE_HASH_TABLE \<mapsto> \<lparr>sp_bytes = pairTable sourceHashRows, sp_count = length sourceHashRows\<rparr>],
         ls_termCount exact, length (pi_rows pix), lexiconLane, coarseLane))))))))))"

definition encodeContextIndex ::
  "('n \<Rightarrow> js_string)
     \<Rightarrow> (ContextLexiconDocument list \<Rightarrow> 'config \<Rightarrow> ContextLexiconBuildResult res)
     \<Rightarrow> ('n, 'config) ContextIndexWriteInput \<Rightarrow> ContextIndexWriteResult res" where
  "encodeContextIndex toString buildContextLexicon input =
    (let snapshot = wi_snapshot input in
     if (case wi_lintErrors input of None \<Rightarrow> False | Some es \<Rightarrow> length es > 0)
     then refuse Lint_error [(''count'', int (length (the (wi_lintErrors input))))] else
     if length (s_nodes snapshot) > maxNodeCount
     then refuse Count_limit [(''nodeCount'', int (length (s_nodes snapshot)))] else
     if length (s_edges snapshot) > maxEdgeCount
     then refuse Count_limit [(''edgeCount'', int (length (s_edges snapshot)))] else
     let nodes = sort_key n_id (s_nodes snapshot) in
     rbind (index_nodes 0 Map.empty (map n_id nodes)) (\<lambda>nodeIndex.
     let protectedIds = set (case wi_protectedNodeIds input of None \<Rightarrow> [] | Some ids \<Rightarrow> ids);
         invalidatedIds = set (case wi_invalidatedNodeIds input of None \<Rightarrow> [] | Some ids \<Rightarrow> ids) in
     rbind (intern_graph toString nodeIndex nodes (s_edges snapshot)) (\<lambda>interner.
     rbind (case wi_lexicon input of None \<Rightarrow> Inr None
       | Some config \<Rightarrow> rbind (buildContextIndexLexical buildContextLexicon nodes config) (\<lambda>b. Inr (Some b)))
       (\<lambda>lexical.
     rbind (fold_res interner_add (case lexical of None \<Rightarrow> [] | Some b \<Rightarrow> lx_terms b) interner)
       (\<lambda>interner.
     let s = interner_seal interner in
     rbind (section_payloads toString s nodeIndex nodes (s_edges snapshot) (s_cycles snapshot)
         protectedIds invalidatedIds lexical) (\<lambda>(payloads, exactTerms, provenanceRows, lexiconLane, coarseLane).
     rbind (assemble payloads
        \<lparr>ah_schemaRevision = wi_schemaRevision input,
         ah_snapshotHash = hexToBytes (s_snapshotHash snapshot) 32,
         ah_configHash = wi_configHash input,
         ah_nodeCount = length nodes, ah_edgeCount = length (s_edges snapshot),
         ah_termCount = exactTerms, ah_provenanceCount = provenanceRows,
         ah_stringCount = interner_size s\<rparr>) (\<lambda>assembled.
     Inr \<lparr>wr_assembled = assembled,
          wr_lexicon = (case lexical of None \<Rightarrow> None
            | Some b \<Rightarrow> Some \<lparr>wl_termCount = ls_termCount lexiconLane,
                wl_postingCount = ls_postingCount lexiconLane,
                wl_coarseTermCount = ls_termCount coarseLane,
                wl_coarsePostingCount = ls_postingCount coarseLane,
                wl_omissions = lx_omissions b\<rparr>)\<rparr>)))))))"

end
