(* ===== verification/Kernel_Types.thy ===== *)
theory Kernel_Types
  imports Reader Writer
begin

text \<open>
  query/kernel-types.ts and query-types.ts: the vocabulary of the query kernel. Scores and
  masks are integers, as the file says they are until the API boundary; the record fields that
  are \<open>bigint\<close> there are \<open>int\<close> here too.

  The reader the kernel takes is the interface \<open>ContextIndexReader\<close> of reader-types.ts: a record
  of the operations. A cursor stands for the edges its \<open>next\<close> yields (Reader_Cursor shows which
  these are), and the memos of the implementation do not show through the interface.
\<close>

unbundle bit_operations_syntax

section \<open>Lanes, shapes, profiles\<close>

datatype ContextGraphQueryProfileName = Implementation | Review | Planning | Answer
datatype QueryShape = Anchored | Mixed | Natural
datatype RetrievalLane = Anchor | Lexical | Coarse | Local_graph

fun LANE_SLOT :: "RetrievalLane \<Rightarrow> nat" where
  "LANE_SLOT Anchor = 0"
| "LANE_SLOT Lexical = 1"
| "LANE_SLOT Coarse = 2"
| "LANE_SLOT Local_graph = 3"

definition RETRIEVAL_LANES :: "RetrievalLane list" where
  "RETRIEVAL_LANES = [Anchor, Lexical, Coarse, Local_graph]"

definition LANE_COUNT :: nat where "LANE_COUNT = 4"

lemma lane_slot_lanes: "RETRIEVAL_LANES ! LANE_SLOT lane = lane" "LANE_SLOT lane < LANE_COUNT"
  by (cases lane; simp add: RETRIEVAL_LANES_def LANE_COUNT_def)+

record QueryPlan =
  q_profile :: ContextGraphQueryProfileName
  q_shape :: QueryShape
  q_termIds :: "int list"
  q_fieldMask :: nat
  q_profileMask :: nat
  q_maxDepth :: nat
  q_frontierBudget :: int
  q_postingCapPerTerm :: int
  q_candidateBudget :: int
  q_tokenBudget :: int

record CompactCandidate =
  cc_node :: int
  cc_score :: int
  cc_seed :: int
  cc_parentNode :: int
  cc_parentEdge :: int
  cc_depth :: int
  cc_flags :: int

record LaneContribution =
  lc_lane :: RetrievalLane
  lc_rank :: int
  lc_score :: int
  lc_termIds :: "int list"

section \<open>Confidence\<close>

datatype ContextGraphSeedConfidence =
    Exact_definition | Exact_reference | Manifest_seed | Syntactic_reference | File_path
  | Text_candidate

fun CONFIDENCE_RUNG :: "ContextGraphSeedConfidence \<Rightarrow> nat" where
  "CONFIDENCE_RUNG Exact_definition = 0"
| "CONFIDENCE_RUNG Exact_reference = 0"
| "CONFIDENCE_RUNG Manifest_seed = 0"
| "CONFIDENCE_RUNG File_path = 0"
| "CONFIDENCE_RUNG Syntactic_reference = 1"
| "CONFIDENCE_RUNG Text_candidate = 2"

definition RUNG_FLOOR :: "ContextGraphSeedConfidence list" where
  "RUNG_FLOOR = [Exact_definition, Syntactic_reference, Text_candidate]"

definition isExactKernelConfidence :: "ContextGraphSeedConfidence \<Rightarrow> bool" where
  "isExactKernelConfidence confidence \<longleftrightarrow> CONFIDENCE_RUNG confidence = 0"

definition demoteKernelConfidence ::
  "ContextGraphSeedConfidence \<Rightarrow> int \<Rightarrow> ContextGraphSeedConfidence" where
  "demoteKernelConfidence confidence steps =
    (if steps \<le> 0 then confidence else
     let rung = min (int (CONFIDENCE_RUNG confidence) + steps) (int (length RUNG_FLOOR) - 1) in
     RUNG_FLOOR ! nat rung)"

definition KERNEL_CONFIDENCE_CODES :: "ContextGraphSeedConfidence list" where
  "KERNEL_CONFIDENCE_CODES =
     [Exact_definition, Exact_reference, Manifest_seed, File_path, Syntactic_reference, Text_candidate]"

fun index_of :: "'a \<Rightarrow> 'a list \<Rightarrow> int" where
  "index_of x [] = - 1"
| "index_of x (y # ys) = (if x = y then 0 else (let i = index_of x ys in if i < 0 then - 1 else i + 1))"

definition kernelConfidenceCode :: "ContextGraphSeedConfidence \<Rightarrow> int" where
  "kernelConfidenceCode confidence = index_of confidence KERNEL_CONFIDENCE_CODES"

definition kernelConfidenceAt :: "int \<Rightarrow> ContextGraphSeedConfidence" where
  "kernelConfidenceAt code =
    (if 0 \<le> code \<and> code < int (length KERNEL_CONFIDENCE_CODES)
     then KERNEL_CONFIDENCE_CODES ! nat code else Text_candidate)"

section \<open>Candidate flags\<close>

definition FLAG_SEED :: int where "FLAG_SEED = push_bit 0 1"
definition FLAG_EXACT_SEED :: int where "FLAG_EXACT_SEED = push_bit 1 1"
definition FLAG_PROTECTED :: int where "FLAG_PROTECTED = push_bit 2 1"
definition FLAG_TEST_OR_GATE :: int where "FLAG_TEST_OR_GATE = push_bit 3 1"
definition FLAG_EVIDENCE :: int where "FLAG_EVIDENCE = push_bit 4 1"
definition FLAG_SAFETY :: int where "FLAG_SAFETY = push_bit 5 1"
definition FLAG_CONFLICT :: int where "FLAG_CONFLICT = push_bit 6 1"
definition FLAG_FOCUS :: int where "FLAG_FOCUS = push_bit 7 1"
definition FLAG_REVERSE_HOP :: int where "FLAG_REVERSE_HOP = push_bit 8 1"
definition FLAG_PROVIDED :: int where "FLAG_PROVIDED = push_bit 9 1"
definition FLAG_NAME_MATCH :: int where "FLAG_NAME_MATCH = push_bit 10 1"

lemmas candidate_flags = FLAG_SEED_def FLAG_EXACT_SEED_def FLAG_PROTECTED_def FLAG_TEST_OR_GATE_def
  FLAG_EVIDENCE_def FLAG_SAFETY_def FLAG_CONFLICT_def FLAG_FOCUS_def FLAG_REVERSE_HOP_def
  FLAG_PROVIDED_def FLAG_NAME_MATCH_def

definition hasFlag :: "int \<Rightarrow> int \<Rightarrow> bool" where
  "hasFlag flags b \<longleftrightarrow> flags AND b \<noteq> 0"

section \<open>Omissions, warnings, the clock\<close>

datatype KernelOmissionReason =
    Token_budget | Stale_node | Invalidated_proof | Redundant_sibling | Depth_limit | Visit_cap
  | Edge_cap | Timeout | No_provenance | Max_selected
  | Posting_cap | Candidate_budget | Focus_filtered | Frontier_budget | Query_terms_capped
  | Safety_cap | Unknown_seed

type_synonym KernelOmissions = "KernelOmissionReason \<rightharpoonup> int"

definition addOmission :: "KernelOmissionReason \<Rightarrow> int \<Rightarrow> KernelOmissions \<Rightarrow> KernelOmissions" where
  "addOmission reason cnt into =
    (if cnt \<le> 0 then into
     else into(reason \<mapsto> (case into reason of None \<Rightarrow> 0 | Some n \<Rightarrow> n) + cnt))"

text \<open>
  What a run accumulates beside the table: \<open>warnings\<close> and \<open>omissions\<close> of the plan context, and
  how often the clock has been read. \<open>KernelClock\<close> is what the clock returns at each reading.
\<close>

type_synonym KernelClock = "nat \<Rightarrow> rat"

record kernel_notes =
  kn_warnings :: "js_string list"
  kn_omissions :: KernelOmissions
  kn_readings :: nat

definition omit :: "KernelOmissionReason \<Rightarrow> int \<Rightarrow> kernel_notes \<Rightarrow> kernel_notes" where
  "omit reason cnt notes = notes\<lparr>kn_omissions := addOmission reason cnt (kn_omissions notes)\<rparr>"

definition warn :: "js_string \<Rightarrow> kernel_notes \<Rightarrow> kernel_notes" where
  "warn text notes = notes\<lparr>kn_warnings := kn_warnings notes @ [text]\<rparr>"

definition warn_if :: "bool \<Rightarrow> string \<Rightarrow> kernel_notes \<Rightarrow> kernel_notes" where
  "warn_if b text notes = (if b then warn (js text) notes else notes)"

definition read_clock :: "KernelClock \<Rightarrow> kernel_notes \<Rightarrow> rat \<times> kernel_notes" where
  "read_clock clock notes = (clock (kn_readings notes), notes\<lparr>kn_readings := kn_readings notes + 1\<rparr>)"

section \<open>Requests and results\<close>

record KernelProvidedSeed =
  ps_nodeId :: js_string
  ps_confidence :: ContextGraphSeedConfidence
  ps_verified :: "bool option"

text \<open>\<open>kr_profile\<close> is \<open>None\<close> for an absent or unrecognised name; both default alike.\<close>

record KernelRequest =
  kr_query :: js_string
  kr_profile :: "ContextGraphQueryProfileName option"
  kr_highRisk :: bool
  kr_seeds :: "KernelProvidedSeed list option"
  kr_focusPaths :: "js_string list option"
  kr_tokenBudget :: "int option"
  kr_maxSelected :: "int option"
  kr_timeoutMs :: "rat option"

record LaneTelemetry =
  lt_lane :: RetrievalLane
  lt_matchedTerms :: nat
  lt_postingsExamined :: nat
  lt_candidates :: nat
  lt_truncated :: bool

record KernelGuarantees =
  gu_exactSeedAvailable :: bool
  gu_exactSeedSelected :: bool
  gu_protectedGatesReachable :: nat
  gu_protectedGatesSelected :: nat
  gu_conflictsReachable :: nat
  gu_conflictsSelected :: nat
  gu_testOrGateReachable :: bool
  gu_testOrGateSelected :: bool

record SelectedCandidate =
  sc_candidate :: CompactCandidate
  sc_lane :: RetrievalLane
  sc_confidence :: ContextGraphSeedConfidence
  sc_contributions :: "LaneContribution list"
  sc_tokenCost :: int
  sc_group :: int
  sc_parentEdges :: "int list"

record ContextKernelResult =
  res_plan :: QueryPlan
  res_selected :: "SelectedCandidate list"
  res_lanes :: "LaneTelemetry list"
  res_omissions :: KernelOmissions
  res_warnings :: "js_string list"
  res_candidateCount :: nat
  res_visitedNodes :: nat
  res_visitedEdges :: nat
  res_tokenCost :: int
  res_truncated :: bool
  res_timedOut :: bool
  res_guarantees :: KernelGuarantees
  res_durationMs :: rat

section \<open>Fixed point\<close>

definition mulFixed :: "int \<Rightarrow> int \<Rightarrow> int \<Rightarrow> int" where
  "mulFixed a b scale = math_round (of_int (a * b) / of_int scale)"

section \<open>The reader interface\<close>

record ContextIndexReader =
  rd_nodeCount :: int
  rd_termId :: "js_string \<Rightarrow> int res"
  rd_exact :: "js_string \<Rightarrow> nat option \<Rightarrow> PostingSlice res"
  rd_basename :: "js_string \<Rightarrow> PostingSlice res"
  rd_lexical :: "int list \<Rightarrow> ContextIndexQueryBounds \<Rightarrow> ScoredPostingSlice res"
  rd_coarse :: "int list \<Rightarrow> ContextIndexQueryBounds \<Rightarrow> ScoredPostingSlice res"
  rd_nodeHasName :: "int \<Rightarrow> js_string \<Rightarrow> bool res"
  rd_outgoing :: "int \<Rightarrow> nat \<Rightarrow> edge_step list res"
  rd_incoming :: "int \<Rightarrow> nat \<Rightarrow> edge_step list res"
  rd_nodeFlags :: "int \<Rightarrow> nat res"
  rd_nodeGroup :: "int \<Rightarrow> nat res"
  rd_nodeTokenCost :: "int \<Rightarrow> nat res"
  rd_nodeScoreFields :: "int \<Rightarrow> CompactNodeScoreFields res"

text \<open>The binary reader behind the interface.\<close>

definition index_reader :: "BinaryContextIndexReader \<Rightarrow> ContextIndexReader" where
  "index_reader r = \<lparr>
     rd_nodeCount = int (r_nodeCount r),
     rd_termId = reader_termId r,
     rd_exact = reader_exact r,
     rd_basename = reader_basename r,
     rd_lexical = reader_lexical r,
     rd_coarse = reader_coarse r,
     rd_nodeHasName = (\<lambda>node name. rbind (reader_nodeHasName r node name) (\<lambda>(b, _). Inr b)),
     rd_outgoing = (\<lambda>node pmask. rbind (reader_outgoing r node pmask) (cursor_drain (r_geometry r))),
     rd_incoming = (\<lambda>node pmask. rbind (reader_incoming r node pmask) (\<lambda>(c, _). cursor_drain (r_geometry r) c)),
     rd_nodeFlags = reader_nodeFlags r,
     rd_nodeGroup = reader_nodeGroup r,
     rd_nodeTokenCost = reader_nodeTokenCost r,
     rd_nodeScoreFields = reader_nodeScoreFields r\<rparr>"

section \<open>Facts\<close>

lemma demote_never_exact: "0 < steps \<Longrightarrow> \<not> isExactKernelConfidence (demoteKernelConfidence c steps)"
proof -
  assume s: "0 < steps"
  define rung where "rung = min (int (CONFIDENCE_RUNG c) + steps) 2"
  have "1 \<le> rung" "rung \<le> 2" using s by (auto simp: rung_def)
  then have "nat rung = 1 \<or> nat rung = 2" by linarith
  then show ?thesis
    using s by (auto simp: demoteKernelConfidence_def isExactKernelConfidence_def RUNG_FLOOR_def rung_def)
qed

lemma confidence_roundtrip: "kernelConfidenceAt (kernelConfidenceCode c) = c"
  by (cases c) (simp_all add: kernelConfidenceAt_def kernelConfidenceCode_def KERNEL_CONFIDENCE_CODES_def Let_def)

lemma confidence_code_range: "0 \<le> kernelConfidenceCode c \<and> kernelConfidenceCode c \<le> 5"
  by (cases c) (simp_all add: kernelConfidenceCode_def KERNEL_CONFIDENCE_CODES_def Let_def)

lemma exact_confidence_code: "isExactKernelConfidence c \<longleftrightarrow> kernelConfidenceCode c \<le> 3"
  by (cases c) (simp_all add: isExactKernelConfidence_def kernelConfidenceCode_def KERNEL_CONFIDENCE_CODES_def Let_def)

text \<open>
  A hop crosses the exact boundary: demoting any confidence by at least one step gives a
  confidence outside the exact family, and demoting further never strengthens the claim.
\<close>

theorem demotion_leaves_exact:
  assumes "0 < steps"
  shows "\<not> isExactKernelConfidence (demoteKernelConfidence c steps)
     \<and> kernelConfidenceCode (demoteKernelConfidence c steps)
         \<le> kernelConfidenceCode (demoteKernelConfidence c (steps + 1))"
proof
  show "\<not> isExactKernelConfidence (demoteKernelConfidence c steps)" by (rule demote_never_exact [OF assms])
  have "nat (min (r + steps) 2) \<le> nat (min (r + (steps + 1)) 2)" "nat (min (r + (steps + 1)) 2) \<le> 2" for r
    by auto
  moreover have "a \<le> b \<Longrightarrow> b \<le> 2 \<Longrightarrow> kernelConfidenceCode (RUNG_FLOOR ! a) \<le> kernelConfidenceCode (RUNG_FLOOR ! b)" for a b
  proof -
    assume "a \<le> b" "b \<le> 2"
    then have "b = 0 \<or> b = 1 \<or> b = 2" "a = 0 \<or> a = 1 \<or> a = 2" by linarith+
    with \<open>a \<le> b\<close> show ?thesis
      by (auto simp: RUNG_FLOOR_def kernelConfidenceCode_def KERNEL_CONFIDENCE_CODES_def Let_def)
  qed
  ultimately show "kernelConfidenceCode (demoteKernelConfidence c steps)
         \<le> kernelConfidenceCode (demoteKernelConfidence c (steps + 1))"
    using assms by (simp add: demoteKernelConfidence_def RUNG_FLOOR_def [THEN arg_cong, of length, simplified])
qed

theorem demotion_leaves_exact_witness:
  "(0::int) < 1 \<and> \<not> isExactKernelConfidence (demoteKernelConfidence Exact_definition 1)"
  using demotion_leaves_exact [of 1 Exact_definition] by simp

end
