(* ===== verification/Paths.thy ===== *)
theory Paths
  imports Writer_Contract "HOL-Library.Sublist"
begin

text \<open>
  paths.ts: the path test the query side uses. The index writer has its own copy of the test
  (writer-contract.ts, \<open>isWorkspaceRelativePosixPath\<close> of Writer_Contract) in other words; the
  two are shown to accept the same strings.
\<close>

definition js_includes :: "js_string \<Rightarrow> js_string \<Rightarrow> bool" where
  "js_includes value part \<longleftrightarrow> sublist part value"

definition drive_slash :: "js_string \<Rightarrow> bool" where
  "drive_slash s = (case s of a # b # c # _ \<Rightarrow> ascii_letter a \<and> b = 58 \<and> c = 47 | _ \<Rightarrow> False)"

definition paths_isWorkspaceRelativePosixPath :: "js_string \<Rightarrow> bool" where
  "paths_isWorkspaceRelativePosixPath value =
    (if value = [] then False
     else if js_includes value [92] then False
     else if prefix [47] value then False
     else if drive_slash value then False
     else if value = js ''..'' \<or> prefix (js ''../'') value \<or> js_includes value (js ''/../'')
             \<or> suffix (js ''/..'') value then False
     else if prefix [126] value then False
     else True)"

section \<open>Splitting at a separator\<close>

lemma js_split_fresh: "c \<notin> set s \<Longrightarrow> js_split c s = [s]"
  by (induction s) auto

lemma js_split_append: "js_split c (a @ c # w) = js_split c a @ js_split c w"
proof (induction a)
  case (Cons x a)
  have "js_split c a \<noteq> []" by simp
  with Cons show ?case by (auto split: list.splits)
qed simp

lemma js_split_parts: "v = concat (map (\<lambda>s. s @ [c]) (butlast (js_split c v))) @ last (js_split c v)"
proof (induction v)
  case (Cons x v)
  obtain s ss where s: "js_split c v = s # ss" by (cases "js_split c v") auto
  with Cons show ?case by auto
qed simp

text \<open>A segment of a path, and where it stands in the path.\<close>

lemma js_split_mem:
  assumes "c \<notin> set s"
  shows "s \<in> set (js_split c v) \<longleftrightarrow>
     v = s \<or> (\<exists>b. v = s @ c # b) \<or> (\<exists>a. v = a @ c # s) \<or> (\<exists>a b. v = a @ c # s @ c # b)"
proof
  assume "s \<in> set (js_split c v)"
  then obtain as bs where parts: "js_split c v = as @ s # bs" by (meson split_list)
  let ?j = "\<lambda>xs. concat (map (\<lambda>s. s @ [c]) xs)"
  have ends: "xs = [] \<or> (\<exists>a. ?j xs = a @ [c])" for xs
    by (induction xs rule: rev_induct) auto
  have v: "v = ?j (butlast (as @ s # bs)) @ last (as @ s # bs)"
    using js_split_parts [of v c] parts by simp
  show "v = s \<or> (\<exists>b. v = s @ c # b) \<or> (\<exists>a. v = a @ c # s) \<or> (\<exists>a b. v = a @ c # s @ c # b)"
  proof (cases bs)
    case Nil
    with v have "v = ?j as @ s" by (simp add: butlast_append)
    with ends [of as] show ?thesis by auto
  next
    case (Cons b bs')
    then obtain w where w: "v = ?j as @ s @ c # w" using v by (auto simp: butlast_append)
    from ends [of as] show ?thesis
    proof (elim disjE exE)
      assume "as = []"
      with w show ?thesis by auto
    next
      fix a assume "?j as = a @ [c]"
      with w have "v = a @ c # s @ c # w" by simp
      then show ?thesis by blast
    qed
  qed
next
  assume "v = s \<or> (\<exists>b. v = s @ c # b) \<or> (\<exists>a. v = a @ c # s) \<or> (\<exists>a b. v = a @ c # s @ c # b)"
  then show "s \<in> set (js_split c v)"
    using js_split_fresh [OF assms] by (auto simp: js_split_append)
qed

lemma dots: "js ''..'' = [46, 46]" "js ''../'' = [46, 46, 47]" "js ''/../'' = [47, 46, 46, 47]" "js ''/..'' = [47, 46, 46]"
  by (simp_all add: js_def)

text \<open>The writer tests the segments of the path, this one its substrings.\<close>

lemma paths_test_writer:
  "paths_isWorkspaceRelativePosixPath value \<longleftrightarrow> isWorkspaceRelativePosixPath value"
proof -
  have dotted: "js ''..'' \<in> set (js_split 47 value) \<longleftrightarrow>
      value = js ''..'' \<or> prefix (js ''../'') value \<or> js_includes value (js ''/../'') \<or> suffix (js ''/..'') value"
    unfolding dots by (subst js_split_mem) (auto simp: js_includes_def prefix_def suffix_def sublist_def)
  have bslash: "js_includes value [92] \<longleftrightarrow> 92 \<in> set value"
    by (auto simp: js_includes_def sublist_def in_set_conv_decomp)
  have drive: "92 \<notin> set value \<Longrightarrow> drive_slash value \<longleftrightarrow> drive_prefix value"
    by (auto simp: drive_slash_def drive_prefix_def split: list.splits)
  have first: "value \<noteq> [] \<Longrightarrow> prefix [c] value \<longleftrightarrow> hd value = c" for c
    by (cases "value") auto
  show ?thesis
    unfolding paths_isWorkspaceRelativePosixPath_def isWorkspaceRelativePosixPath_def
    using dotted bslash drive first by auto
qed

end
