(* ===== verification/Lexicon_Contract.thy ===== *)
theory Lexicon_Contract
  imports Writer_Lexical Paths
begin

text \<open>
  runtime-index/lexicon-contract.ts and the lexicon configuration of query/ranking-config.ts:
  the fields of the lexicon, its tuning record and what a run leaves out.

  A lexicon works on the characters of a string, which JavaScript iterates by code point: a
  character is a string of one unit, or of a surrogate pair.
\<close>

unbundle bit_operations_syntax

section \<open>Fields\<close>

definition FIELD_CANONICAL_ID :: nat where "FIELD_CANONICAL_ID = 0"

definition CONTEXT_LEXICON_FIELD_COUNT :: nat where "CONTEXT_LEXICON_FIELD_COUNT = 9"

lemmas lexicon_fields = FIELD_CANONICAL_ID_def FIELD_EXACT_LABEL_def FIELD_SYMBOL_SEGMENT_def
  FIELD_MANIFEST_NAME_def FIELD_BASENAME_def FIELD_PATH_SEGMENT_def FIELD_PURPOSE_def
  FIELD_EVIDENCE_def FIELD_COARSE_def

definition lexiconFieldMask :: "nat \<Rightarrow> nat" where
  "lexiconFieldMask fld = push_bit fld 1 mod 2 ^ 32"

definition refuseLexicon :: "lexicon_error_code \<Rightarrow> detail \<Rightarrow> 'a res" where
  "refuseLexicon code detail = Inl (Lexicon_error code detail)"

section \<open>Configuration\<close>

record ContextLexiconFieldConfig =
  lf_weight :: rat
  lf_lengthNormalization :: rat
  lf_lexical :: bool
  lf_keepWholeValue :: bool
  lf_pathLike :: bool

record ContextLexiconConfig =
  lf_fields :: "ContextLexiconFieldConfig list"
  k1 :: rat
  minSegmentLength :: nat
  minAcronymLength :: nat
  maxAcronymSegments :: nat
  maxExtensionLength :: nat
  maxTokenLength :: nat
  maxTokensPerField :: nat
  preserveExactCase :: bool
  cjkNgramSizes :: "nat list"
  maxCjkRunLength :: nat
  maxCjkNgramsPerRun :: nat
  minSecretTokenLength :: nat
  minHexSecretLength :: nat
  lx_postingCapPerTerm :: int
  maxTerms :: nat
  maxQueryTerms :: nat

definition lexiconFieldConfig :: "ContextLexiconConfig \<Rightarrow> nat \<Rightarrow> ContextLexiconFieldConfig res" where
  "lexiconFieldConfig config fld =
    (if fld < length (lf_fields config) then Inr (lf_fields config ! fld)
     else refuseLexicon Unknown_field [(''field'', int fld)])"

definition CONTEXT_GRAPH_LEXICON_CONFIG :: ContextLexiconConfig where
  "CONTEXT_GRAPH_LEXICON_CONFIG =
    (let entry = \<lambda>w b lexical whole pathLike. \<lparr>lf_weight = w, lf_lengthNormalization = b,
       lf_lexical = lexical, lf_keepWholeValue = whole, lf_pathLike = pathLike\<rparr> in
     \<lparr>lf_fields =
       [entry 0 0 False False False,
        entry 4 (3/10) True True False,
        entry 3 (3/10) True False False,
        entry 4 (3/10) True True False,
        entry 3 (3/10) True True True,
        entry 2 (4/10) True False True,
        entry (12/10) (75/100) True False False,
        entry 1 (75/100) True False False,
        entry (8/10) (5/10) True False False],
      k1 = 12/10,
      minSegmentLength = 2,
      minAcronymLength = 2,
      maxAcronymSegments = 8,
      maxExtensionLength = 5,
      maxTokenLength = 64,
      maxTokensPerField = 512,
      preserveExactCase = True,
      cjkNgramSizes = [2, 3],
      maxCjkRunLength = 8,
      maxCjkNgramsPerRun = 64,
      minSecretTokenLength = 20,
      minHexSecretLength = 32,
      lx_postingCapPerTerm = 4096,
      maxTerms = 2 ^ 20,
      maxQueryTerms = 64\<rparr>)"

section \<open>Omissions\<close>

definition emptyLexiconOmissions :: ContextLexiconOmissions where
  "emptyLexiconOmissions = \<lparr>om_secretTokens = 0, om_redactedSpans = 0, om_cappedFieldTokens = 0,
     om_cappedCjkNgrams = 0, om_cappedPostings = 0, om_cappedTerms = 0\<rparr>"

section \<open>Characters\<close>

fun js_chars :: "js_string \<Rightarrow> js_string list" where
  "js_chars [] = []"
| "js_chars [u] = [[u]]"
| "js_chars (u # v # s) =
    (if high_surrogate u \<and> low_surrogate v then [u, v] # js_chars s else [u] # js_chars (v # s))"

fun codePointAt0 :: "js_string \<Rightarrow> nat" where
  "codePointAt0 [] = 0"
| "codePointAt0 [u] = unat u"
| "codePointAt0 (u # v # s) =
    (if high_surrogate u \<and> low_surrogate v
     then 65536 + (unat u - 55296) * 1024 + (unat v - 56320) else unat u)"

lemma concat_js_chars [simp]: "concat (js_chars s) = s"
  by (induction s rule: js_chars.induct) auto

lemma js_chars_nonempty: "c \<in> set (js_chars s) \<Longrightarrow> c \<noteq> []"
  by (induction s rule: js_chars.induct) (auto split: if_splits)

lemma js_chars_Nil [simp]: "js_chars s = [] \<longleftrightarrow> s = []"
  by (cases s rule: js_chars.cases) auto

lemma length_js_chars: "length (js_chars s) \<le> length s"
  by (induction s rule: js_chars.induct) auto

end
