(* ===== verification/Kernel_Config.thy ===== *)
theory Kernel_Config
  imports Kernel_Types Lexicon_Contract
begin

text \<open>
  profiles.ts and query/ranking-config.ts: the query profiles, the traversal caps and the
  tuning constants. A decimal literal is the rational it denotes; a \<open>Record\<close> keyed by a union is
  a function on the union.
\<close>

section \<open>Profiles\<close>

record ContextGraphQueryProfile =
  pf_name :: ContextGraphQueryProfileName
  pf_edges :: "ContextGraphEdgeType list"
  pf_edgeWeights :: "ContextGraphEdgeType \<rightharpoonup> rat"
  pf_maxDepth :: nat
  pf_maxDepthHighRisk :: nat

record ContextGraphTraversalCaps =
  maxVisitedNodes :: nat
  maxVisitedEdges :: nat
  maxSeeds :: nat
  maxSelectedNodes :: int
  defaultTokenBudget :: int
  queryTimeoutMs :: rat

definition CONTEXT_GRAPH_QUERY_PROFILE_NAMES :: "ContextGraphQueryProfileName list" where
  "CONTEXT_GRAPH_QUERY_PROFILE_NAMES = [Implementation, Review, Planning, Answer]"

definition CONTEXT_GRAPH_TRAVERSAL_CAPS :: ContextGraphTraversalCaps where
  "CONTEXT_GRAPH_TRAVERSAL_CAPS = \<lparr>
     maxVisitedNodes = 4000,
     maxVisitedEdges = 20000,
     maxSeeds = 24,
     maxSelectedNodes = 64,
     defaultTokenBudget = 6000,
     queryTimeoutMs = 1500\<rparr>"

text \<open>\<open>weights\<close>: the edges in the order given, and their weights by name.\<close>

definition weights ::
  "(ContextGraphEdgeType \<times> rat) list \<Rightarrow> ContextGraphEdgeType list \<times> (ContextGraphEdgeType \<rightharpoonup> rat)" where
  "weights entries = (map fst entries, fold (\<lambda>(edge, w) m. m(edge \<mapsto> w)) entries Map.empty)"

definition IMPLEMENTATION :: "(ContextGraphEdgeType \<times> rat) list" where
  "IMPLEMENTATION = [(Defines, 3), (Contains, 22/10), (Imports, 2), (Routes_to, 2), (Reexports, 18/10),
     (References, 16/10), (Calls, 16/10), (Tests, 14/10), (Verified_by, 12/10)]"

definition REVIEW :: "(ContextGraphEdgeType \<times> rat) list" where
  "REVIEW = [(Affected_by, 3), (Tests, 24/10), (Gated_by, 24/10), (Verified_by, 2), (Invalidates, 18/10),
     (Conflicts_with, 16/10), (Routes_to, 14/10), (Contains, 12/10), (Defines, 1)]"

definition PLANNING :: "(ContextGraphEdgeType \<times> rat) list" where
  "PLANNING = [(Depends_on, 28/10), (Owns, 22/10), (Affected_by, 2), (Conflicts_with, 18/10),
     (Routes_to, 16/10), (Cochanged_with, 14/10), (Gated_by, 14/10), (Contains, 1), (Imports, 1)]"

definition ANSWER :: "(ContextGraphEdgeType \<times> rat) list" where
  "ANSWER = [(Derived_from, 28/10), (Cites, 26/10), (Supports, 2), (Contradicts, 18/10),
     (Supersedes, 16/10), (Contains, 8/10)]"

definition make_profile ::
  "ContextGraphQueryProfileName \<Rightarrow> (ContextGraphEdgeType \<times> rat) list \<Rightarrow> ContextGraphQueryProfile" where
  "make_profile name entries = \<lparr>pf_name = name, pf_edges = fst (weights entries),
     pf_edgeWeights = snd (weights entries), pf_maxDepth = 2, pf_maxDepthHighRisk = 3\<rparr>"

fun CONTEXT_GRAPH_QUERY_PROFILES :: "ContextGraphQueryProfileName \<Rightarrow> ContextGraphQueryProfile" where
  "CONTEXT_GRAPH_QUERY_PROFILES Implementation = make_profile Implementation IMPLEMENTATION"
| "CONTEXT_GRAPH_QUERY_PROFILES Review = make_profile Review REVIEW"
| "CONTEXT_GRAPH_QUERY_PROFILES Planning = make_profile Planning PLANNING"
| "CONTEXT_GRAPH_QUERY_PROFILES Answer = make_profile Answer ANSWER"

definition DEFAULT_CONTEXT_GRAPH_QUERY_PROFILE :: ContextGraphQueryProfileName where
  "DEFAULT_CONTEXT_GRAPH_QUERY_PROFILE = Implementation"

definition contextGraphQueryProfile :: "ContextGraphQueryProfileName option \<Rightarrow> ContextGraphQueryProfile" where
  "contextGraphQueryProfile name = CONTEXT_GRAPH_QUERY_PROFILES
     (case name of None \<Rightarrow> DEFAULT_CONTEXT_GRAPH_QUERY_PROFILE | Some n \<Rightarrow> n)"

definition profileEdgeWeight :: "ContextGraphQueryProfile \<Rightarrow> ContextGraphEdgeType \<Rightarrow> rat" where
  "profileEdgeWeight profile edge = (case pf_edgeWeights profile edge of None \<Rightarrow> 0 | Some w \<Rightarrow> w)"

definition profileTraversesEdge :: "ContextGraphQueryProfile \<Rightarrow> ContextGraphEdgeType \<Rightarrow> bool" where
  "profileTraversesEdge profile edge \<longleftrightarrow> profileEdgeWeight profile edge > 0"

section \<open>The ranking configuration\<close>

definition CONTEXT_GRAPH_EXACT_SEED_CONFIDENCES :: "ContextGraphSeedConfidence list" where
  "CONTEXT_GRAPH_EXACT_SEED_CONFIDENCES = [Exact_definition, Exact_reference, Manifest_seed, File_path]"

record ContextGraphRankingConfig =
  seedConfidenceScore :: "ContextGraphSeedConfidence \<Rightarrow> rat"
  exactSeedBonus :: rat
  lexicalSeedBonus :: rat
  nameSeedBonus :: rat
  providedSeedScoreCeiling :: rat
  edgeConfidenceMultiplier :: "ContextGraphEdgeConfidence \<Rightarrow> rat"
  depthDecay :: rat
  reverseEdgeMultiplier :: rat
  trustBonus :: rat
  freshnessBonus :: "ContextGraphFreshness \<Rightarrow> rat"
  riskRelevanceBonus :: "ContextGraphRisk \<Rightarrow> rat"
  highRiskRelevanceMultiplier :: rat
  evidenceCoverageBonus :: rat
  evidenceCoverageCap :: rat
  stalePenalty :: rat
  invalidatedPenalty :: rat
  redundancyPenalty :: rat
  redundancyPenaltyCap :: rat
  tokenCostPenaltyPerToken :: rat
  tokenCostPenaltyCap :: rat
  minExactSeeds :: nat
  maxLexicalSeeds :: nat
  lexicalScanBudget :: nat
  lexicalMinTokenLength :: nat
  lexicalMatchScore :: rat
  maxQueryTokens :: nat
  maxSeedsPerToken :: nat
  timeoutCheckInterval :: nat
  moduleShareCap :: rat
  minGroupSlots :: int
  maxRedundancyGroupMembers :: int
  protectedGateReserveSlots :: int
  testOrGateReserveSlots :: int
  maxProvenancePerNode :: int
  minTokenCost :: int

fun seed_confidence_scores :: "ContextGraphSeedConfidence \<Rightarrow> rat" where
  "seed_confidence_scores Exact_definition = 6"
| "seed_confidence_scores Exact_reference = 5"
| "seed_confidence_scores Manifest_seed = 5"
| "seed_confidence_scores Syntactic_reference = 35/10"
| "seed_confidence_scores File_path = 4"
| "seed_confidence_scores Text_candidate = 15/10"

fun edge_confidence_multipliers :: "ContextGraphEdgeConfidence \<Rightarrow> rat" where
  "edge_confidence_multipliers Exact = 1"
| "edge_confidence_multipliers Manifest = 95/100"
| "edge_confidence_multipliers Syntactic = 85/100"
| "edge_confidence_multipliers Observed = 7/10"
| "edge_confidence_multipliers Derived = 5/10"

fun freshness_bonuses :: "ContextGraphFreshness \<Rightarrow> rat" where
  "freshness_bonuses Fresh = 75/100"
| "freshness_bonuses Unknown = 0"
| "freshness_bonuses Stale = - 5/10"

fun risk_bonuses :: "ContextGraphRisk \<Rightarrow> rat" where
  "risk_bonuses Low = 0"
| "risk_bonuses Medium = 25/100"
| "risk_bonuses High = 75/100"
| "risk_bonuses Protected = 15/10"

definition CONTEXT_GRAPH_RANKING_CONFIG :: ContextGraphRankingConfig where
  "CONTEXT_GRAPH_RANKING_CONFIG = \<lparr>
     seedConfidenceScore = seed_confidence_scores,
     exactSeedBonus = 4,
     lexicalSeedBonus = 5/10,
     nameSeedBonus = 225/100,
     providedSeedScoreCeiling = 8,
     edgeConfidenceMultiplier = edge_confidence_multipliers,
     depthDecay = 6/10,
     reverseEdgeMultiplier = 85/100,
     trustBonus = 15/10,
     freshnessBonus = freshness_bonuses,
     riskRelevanceBonus = risk_bonuses,
     highRiskRelevanceMultiplier = 2,
     evidenceCoverageBonus = 35/100,
     evidenceCoverageCap = 105/100,
     stalePenalty = 25/10,
     invalidatedPenalty = 4,
     redundancyPenalty = 6/10,
     redundancyPenaltyCap = 3,
     tokenCostPenaltyPerToken = 15/10000,
     tokenCostPenaltyCap = 15/10,
     minExactSeeds = 3,
     maxLexicalSeeds = 8,
     lexicalScanBudget = 50000,
     lexicalMinTokenLength = 4,
     lexicalMatchScore = 15/10,
     maxQueryTokens = 24,
     maxSeedsPerToken = 6,
     timeoutCheckInterval = 512,
     moduleShareCap = 4/10,
     minGroupSlots = 2,
     maxRedundancyGroupMembers = 12,
     protectedGateReserveSlots = 8,
     testOrGateReserveSlots = 1,
     maxProvenancePerNode = 6,
     minTokenCost = 1\<rparr>"

section \<open>The kernel configuration\<close>

record ContextGraphKernelConfig =
  rrfK :: int
  rrfRankCap :: nat
  laneTopN :: int
  laneWeights :: "ContextGraphQueryProfileName \<Rightarrow> RetrievalLane \<Rightarrow> rat"
  exactAnchorPriority :: rat
  nameAnchorPriority :: rat
  anchoredMaxTerms :: nat
  naturalMinTerms :: nat
  textShapePostingMultiplier :: int
  kc_candidateBudget :: int
  kc_frontierBudget :: int
  safetyMaxDepth :: nat
  safetyMaxVisitedNodes :: int
  safetyMaxVisitedEdges :: nat
  exactSeedReserveSlots :: int

fun lane_mix :: "ContextGraphQueryProfileName \<Rightarrow> RetrievalLane \<Rightarrow> rat" where
  "lane_mix Implementation Anchor = 3"
| "lane_mix Implementation Lexical = 16/10"
| "lane_mix Implementation Coarse = 8/10"
| "lane_mix Implementation Local_graph = 3"
| "lane_mix Review Anchor = 24/10"
| "lane_mix Review Lexical = 8/10"
| "lane_mix Review Coarse = 16/10"
| "lane_mix Review Local_graph = 3"
| "lane_mix Planning Anchor = 16/10"
| "lane_mix Planning Lexical = 16/10"
| "lane_mix Planning Coarse = 24/10"
| "lane_mix Planning Local_graph = 24/10"
| "lane_mix Answer Anchor = 16/10"
| "lane_mix Answer Lexical = 24/10"
| "lane_mix Answer Coarse = 24/10"
| "lane_mix Answer Local_graph = 16/10"

definition CONTEXT_GRAPH_KERNEL_CONFIG :: ContextGraphKernelConfig where
  "CONTEXT_GRAPH_KERNEL_CONFIG = \<lparr>
     rrfK = 60,
     rrfRankCap = 64,
     laneTopN = 64,
     laneWeights = lane_mix,
     exactAnchorPriority = 1000,
     nameAnchorPriority = 500,
     anchoredMaxTerms = 6,
     naturalMinTerms = 3,
     textShapePostingMultiplier = 2,
     kc_candidateBudget = 2048,
     kc_frontierBudget = 8192,
     safetyMaxDepth = 3,
     safetyMaxVisitedNodes = 2000,
     safetyMaxVisitedEdges = 10000,
     exactSeedReserveSlots = 1\<rparr>"

definition isExactContextGraphSeedConfidence :: "ContextGraphSeedConfidence \<Rightarrow> bool" where
  "isExactContextGraphSeedConfidence value \<longleftrightarrow> value \<in> set CONTEXT_GRAPH_EXACT_SEED_CONFIDENCES"

definition contextGraphSeedConfidenceScore ::
  "ContextGraphRankingConfig \<Rightarrow> ContextGraphSeedConfidence \<Rightarrow> rat" where
  "contextGraphSeedConfidenceScore config confidence = seedConfidenceScore config confidence"

text \<open>
  The two exactness tests agree: the confidence set of the ranking configuration and
  rung 0 of the kernel's demotion ladder are the same set.
\<close>

theorem exactness_tests_agree:
  "isExactContextGraphSeedConfidence c \<longleftrightarrow> isExactKernelConfidence c"
  by (cases c) (simp_all add: isExactContextGraphSeedConfidence_def isExactKernelConfidence_def
      CONTEXT_GRAPH_EXACT_SEED_CONFIDENCES_def)

text \<open>
  Every profile traverses exactly the edges it lists, each with the positive weight listed
  for it.
\<close>

theorem profile_edges_weighted:
  "profileTraversesEdge (contextGraphQueryProfile name) edge
     \<longleftrightarrow> edge \<in> set (pf_edges (contextGraphQueryProfile name))"
proof -
  obtain n where n: "contextGraphQueryProfile name = CONTEXT_GRAPH_QUERY_PROFILES n"
    by (simp add: contextGraphQueryProfile_def split: option.splits)
  show ?thesis
    unfolding n profileTraversesEdge_def profileEdgeWeight_def
    by (cases n; cases edge; simp add: make_profile_def weights_def IMPLEMENTATION_def REVIEW_def PLANNING_def ANSWER_def)
qed

end
