(* ===== verification/Kernel_Candidates.thy ===== *)
theory Kernel_Candidates
  imports Kernel_Config
begin

text \<open>
  query/kernel-candidates.ts: the candidate table. A row is the entries of all columns at one
  slot, so \<open>ct_rows\<close> has the rows of the slots handed out so far; the columns are
  \<open>Int32Array\<close>s, so every write truncates with \<open>to_int32\<close>. \<open>None\<close> is \<open>NO_SLOT\<close>.
\<close>

section \<open>State\<close>

definition NO_SLOT :: int where "NO_SLOT = - 1"
definition NO_NODE :: int where "NO_NODE = - 1"
definition NO_EDGE :: int where "NO_EDGE = - 1"

definition WEAKEST_CONFIDENCE_CODE :: int where
  "WEAKEST_CONFIDENCE_CODE = kernelConfidenceCode Text_candidate"

record CandidateRow =
  cr_node :: int
  cr_seed :: int
  cr_parentNode :: int
  cr_parentEdge :: int
  cr_depth :: int
  cr_flags :: int
  cr_group :: int
  cr_tokenCost :: int
  cr_nodeFlags :: int
  cr_graphScore :: int
  cr_anchorTerm :: int
  cr_confidence :: int
  cr_originLane :: int
  cr_laneRank :: "int list"
  cr_laneScore :: "int list"

record CandidateTable =
  ct_capacity :: nat
  ct_overflow :: nat
  ct_rows :: "CandidateRow list"
  ct_slots :: "int \<rightharpoonup> nat"

definition new_table :: "int \<Rightarrow> CandidateTable" where
  "new_table capacity =
     \<lparr>ct_capacity = nat (max 0 capacity), ct_overflow = 0, ct_rows = [], ct_slots = Map.empty\<rparr>"

abbreviation ct_size :: "CandidateTable \<Rightarrow> nat" where
  "ct_size t \<equiv> length (ct_rows t)"

abbreviation row_of :: "CandidateTable \<Rightarrow> nat \<Rightarrow> CandidateRow" where
  "row_of t slot \<equiv> ct_rows t ! slot"

definition update_row :: "nat \<Rightarrow> (CandidateRow \<Rightarrow> CandidateRow) \<Rightarrow> CandidateTable \<Rightarrow> CandidateTable" where
  "update_row slot f t = t\<lparr>ct_rows := (ct_rows t)[slot := f (ct_rows t ! slot)]\<rparr>"

section \<open>Operations\<close>

definition slotOf :: "CandidateTable \<Rightarrow> int \<Rightarrow> nat option" where
  "slotOf t node = ct_slots t node"

definition new_row :: "int \<Rightarrow> nat \<Rightarrow> nat \<Rightarrow> nat \<Rightarrow> CandidateRow" where
  "new_row node nflags grp tokenCost =
     \<lparr>cr_node = to_int32 node, cr_seed = NO_NODE, cr_parentNode = NO_NODE, cr_parentEdge = NO_EDGE,
      cr_depth = 0, cr_flags = 0, cr_group = to_int32 (int grp), cr_tokenCost = to_int32 (int tokenCost),
      cr_nodeFlags = to_int32 (int nflags), cr_graphScore = 0, cr_anchorTerm = - 1,
      cr_confidence = WEAKEST_CONFIDENCE_CODE, cr_originLane = NO_SLOT,
      cr_laneRank = replicate LANE_COUNT 0, cr_laneScore = replicate LANE_COUNT 0\<rparr>"

definition admit ::
  "ContextIndexReader \<Rightarrow> int \<Rightarrow> CandidateTable \<Rightarrow> (nat option \<times> CandidateTable) res" where
  "admit reader node t =
    (case ct_slots t node of
       Some existing \<Rightarrow> Inr (Some existing, t)
     | None \<Rightarrow>
       (if ct_size t \<ge> ct_capacity t then Inr (None, t\<lparr>ct_overflow := ct_overflow t + 1\<rparr>) else
        let slot = ct_size t in
        rbind (rd_nodeFlags reader node) (\<lambda>nflags.
        rbind (rd_nodeGroup reader node) (\<lambda>grp.
        rbind (rd_nodeTokenCost reader node) (\<lambda>tokenCost.
        Inr (Some slot, t\<lparr>ct_rows := ct_rows t @ [new_row node nflags grp tokenCost],
                          ct_slots := (ct_slots t)(node \<mapsto> slot)\<rparr>))))))"

definition claim ::
  "nat \<Rightarrow> RetrievalLane \<Rightarrow> ContextGraphSeedConfidence \<Rightarrow> CandidateTable \<Rightarrow> CandidateTable" where
  "claim slot lane confidence t =
    (let code = kernelConfidenceCode confidence in
     if cr_originLane (row_of t slot) \<noteq> NO_SLOT \<and> code \<ge> cr_confidence (row_of t slot) then t
     else update_row slot (\<lambda>r. r\<lparr>cr_confidence := code, cr_originLane := int (LANE_SLOT lane)\<rparr>) t)"

definition laneOf_slot :: "CandidateTable \<Rightarrow> nat \<Rightarrow> RetrievalLane" where
  "laneOf_slot t slot =
    (let pos = cr_originLane (row_of t slot) in
     if 0 \<le> pos \<and> pos < int (length RETRIEVAL_LANES) then RETRIEVAL_LANES ! nat pos else Lexical)"

definition confidenceOf :: "CandidateTable \<Rightarrow> nat \<Rightarrow> ContextGraphSeedConfidence" where
  "confidenceOf t slot = kernelConfidenceAt (cr_confidence (row_of t slot))"

definition mark :: "nat \<Rightarrow> int \<Rightarrow> CandidateTable \<Rightarrow> CandidateTable" where
  "mark slot bits t = update_row slot (\<lambda>r. r\<lparr>cr_flags := to_int32 (cr_flags r OR bits)\<rparr>) t"

definition has :: "CandidateTable \<Rightarrow> nat \<Rightarrow> int \<Rightarrow> bool" where
  "has t slot bits \<longleftrightarrow> cr_flags (row_of t slot) AND bits \<noteq> 0"

definition contribute ::
  "nat \<Rightarrow> RetrievalLane \<Rightarrow> int \<Rightarrow> int \<Rightarrow> int \<Rightarrow> CandidateTable \<Rightarrow> CandidateTable" where
  "contribute slot lane rank score termId t =
    (if cr_laneRank (row_of t slot) ! LANE_SLOT lane \<noteq> 0 then t
     else update_row slot (\<lambda>r. r\<lparr>cr_laneRank := (cr_laneRank r)[LANE_SLOT lane := to_int32 (rank + 1)],
            cr_laneScore := (cr_laneScore r)[LANE_SLOT lane := to_int32 score],
            cr_anchorTerm := (if termId \<ge> 0 then to_int32 termId else cr_anchorTerm r)\<rparr>) t)"

definition rankIn :: "CandidateTable \<Rightarrow> nat \<Rightarrow> RetrievalLane \<Rightarrow> int" where
  "rankIn t slot lane = cr_laneRank (row_of t slot) ! LANE_SLOT lane - 1"

definition scoreIn :: "CandidateTable \<Rightarrow> nat \<Rightarrow> RetrievalLane \<Rightarrow> int" where
  "scoreIn t slot lane = cr_laneScore (row_of t slot) ! LANE_SLOT lane"

definition link :: "nat \<Rightarrow> int \<Rightarrow> int \<Rightarrow> int \<Rightarrow> int \<Rightarrow> CandidateTable \<Rightarrow> CandidateTable" where
  "link slot seed parentNode parentEdge depth t =
     update_row slot (\<lambda>r. r\<lparr>cr_seed := to_int32 seed, cr_parentNode := to_int32 parentNode,
       cr_parentEdge := to_int32 parentEdge, cr_depth := to_int32 depth\<rparr>) t"

definition setGraphScore :: "nat \<Rightarrow> int \<Rightarrow> CandidateTable \<Rightarrow> CandidateTable" where
  "setGraphScore slot score t = update_row slot (\<lambda>r. r\<lparr>cr_graphScore := to_int32 score\<rparr>) t"

text \<open>The loop of \<open>parentChain\<close>: the edges in the order they are pushed, \<open>steps\<close> rounds to go.\<close>

fun chain_walk :: "CandidateTable \<Rightarrow> nat \<Rightarrow> nat \<Rightarrow> int list" where
  "chain_walk t 0 cursor = []"
| "chain_walk t (Suc steps) cursor =
    (let edge = cr_parentEdge (row_of t cursor) in
     if edge = NO_EDGE then [] else
     edge # (case slotOf t (cr_parentNode (row_of t cursor)) of
       None \<Rightarrow> []
     | Some parent \<Rightarrow> (if parent = cursor then [] else chain_walk t steps parent)))"

definition parentChain :: "CandidateTable \<Rightarrow> nat \<Rightarrow> nat \<Rightarrow> int list" where
  "parentChain t slot maxDepth = rev (chain_walk t (maxDepth + 1) slot)"

section \<open>The invariant\<close>

text \<open>
  One row per distinct node, found again through \<open>slots\<close>; never more rows than the capacity;
  a confidence and a lane are codes of their unions.
\<close>

definition row_ok :: "CandidateRow \<Rightarrow> bool" where
  "row_ok r \<longleftrightarrow> length (cr_laneRank r) = LANE_COUNT \<and> length (cr_laneScore r) = LANE_COUNT
     \<and> 0 \<le> cr_confidence r \<and> cr_confidence r \<le> 5 \<and> - 1 \<le> cr_originLane r \<and> cr_originLane r < 4"

definition table_ok :: "CandidateTable \<Rightarrow> bool" where
  "table_ok t \<longleftrightarrow> ct_size t \<le> ct_capacity t \<and> list_all row_ok (ct_rows t)
     \<and> (\<forall>n s. ct_slots t n = Some s \<longleftrightarrow> s < ct_size t \<and> cr_node (row_of t s) = n)"

text \<open>\<open>t'\<close> has the rows of \<open>t\<close>, of the same nodes, and perhaps more.\<close>

definition extends_table :: "CandidateTable \<Rightarrow> CandidateTable \<Rightarrow> bool" where
  "extends_table t t' \<longleftrightarrow> ct_capacity t' = ct_capacity t \<and> ct_size t \<le> ct_size t'
     \<and> ct_overflow t \<le> ct_overflow t'
     \<and> (\<forall>s < ct_size t. cr_node (row_of t' s) = cr_node (row_of t s)
          \<and> cr_nodeFlags (row_of t' s) = cr_nodeFlags (row_of t s)
          \<and> cr_group (row_of t' s) = cr_group (row_of t s)
          \<and> cr_tokenCost (row_of t' s) = cr_tokenCost (row_of t s))"

lemma extends_refl [simp]: "extends_table t t"
  by (simp add: extends_table_def)

lemma extends_trans: "extends_table t t' \<Longrightarrow> extends_table t' t'' \<Longrightarrow> extends_table t t''"
  by (auto simp: extends_table_def)

lemma new_table_ok: "table_ok (new_table c)"
  by (simp add: new_table_def table_ok_def)

lemma update_row_simps [simp]:
  "ct_capacity (update_row s f t) = ct_capacity t" "ct_overflow (update_row s f t) = ct_overflow t"
  "ct_slots (update_row s f t) = ct_slots t" "length (ct_rows (update_row s f t)) = ct_size t"
  by (simp_all add: update_row_def)

lemma row_update: "row_of (update_row s f t) i = (if i = s \<and> s < ct_size t then f (row_of t s) else row_of t i)"
  by (cases "s < ct_size t") (auto simp: update_row_def nth_list_update list_update_beyond)

text \<open>What a row update must keep.\<close>

definition keeps_row :: "(CandidateRow \<Rightarrow> CandidateRow) \<Rightarrow> bool" where
  "keeps_row f \<longleftrightarrow> (\<forall>r. cr_node (f r) = cr_node r \<and> cr_nodeFlags (f r) = cr_nodeFlags r
     \<and> cr_group (f r) = cr_group r \<and> cr_tokenCost (f r) = cr_tokenCost r \<and> (row_ok r \<longrightarrow> row_ok (f r)))"

lemma update_row_ok:
  assumes "keeps_row f"
  shows "table_ok t \<Longrightarrow> table_ok (update_row s f t)" "extends_table t (update_row s f t)"
  using assms
  by (auto simp: table_ok_def extends_table_def keeps_row_def row_update list_all_length)

lemma keeps_rows:
  "keeps_row (\<lambda>r. r\<lparr>cr_flags := g r\<rparr>)" "keeps_row (\<lambda>r. r\<lparr>cr_graphScore := n\<rparr>)"
  "keeps_row (\<lambda>r. r\<lparr>cr_seed := a, cr_parentNode := b, cr_parentEdge := c, cr_depth := d\<rparr>)"
  "0 \<le> code \<Longrightarrow> code \<le> 5 \<Longrightarrow> -1 \<le> l \<Longrightarrow> l < 4 \<Longrightarrow> keeps_row (\<lambda>r. r\<lparr>cr_confidence := code, cr_originLane := l\<rparr>)"
  "keeps_row (\<lambda>r. r\<lparr>cr_laneRank := (cr_laneRank r)[i := x], cr_laneScore := (cr_laneScore r)[i := y],
     cr_anchorTerm := h r\<rparr>)"
  by (simp_all add: keeps_row_def row_ok_def)

text \<open>Every operation but \<open>admit\<close> keeps the invariant and the identity of the rows.\<close>

lemma lane_slot_bound: "int (LANE_SLOT lane) < 4"
  by (cases lane) simp_all

lemma table_ops_ok:
  shows "table_ok t \<Longrightarrow> table_ok (claim s lane c t)" "extends_table t (claim s lane c t)"
    "table_ok t \<Longrightarrow> table_ok (mark s bits t)" "extends_table t (mark s bits t)"
    "table_ok t \<Longrightarrow> table_ok (contribute s lane rank score term t)" "extends_table t (contribute s lane rank score term t)"
    "table_ok t \<Longrightarrow> table_ok (link s a b e d t)" "extends_table t (link s a b e d t)"
    "table_ok t \<Longrightarrow> table_ok (setGraphScore s n t)" "extends_table t (setGraphScore s n t)"
  using confidence_code_range [of c] lane_slot_bound [of lane]
  by (simp_all add: claim_def mark_def contribute_def link_def setGraphScore_def Let_def
      update_row_ok keeps_rows)

lemma admit_ok:
  assumes ok: "table_ok t" and range: "to_int32 node = node" and run: "admit reader node t = Inr (r, t')"
  shows "table_ok t' \<and> extends_table t t'
     \<and> (case r of
          Some s \<Rightarrow> s < ct_size t' \<and> cr_node (row_of t' s) = node \<and> ct_slots t' node = Some s
            \<and> ct_overflow t' = ct_overflow t
        | None \<Rightarrow> ct_slots t node = None \<and> ct_size t = ct_capacity t \<and> ct_overflow t' = ct_overflow t + 1
            \<and> ct_rows t' = ct_rows t)"
proof (cases "ct_slots t node")
  case (Some s)
  with run have "r = Some s" "t' = t" by (simp_all add: admit_def)
  with Some ok show ?thesis by (simp add: table_ok_def)
next
  case None
  show ?thesis
  proof (cases "ct_size t \<ge> ct_capacity t")
    case True
    with None run ok show ?thesis by (auto simp: admit_def table_ok_def extends_table_def)
  next
    case False
    from run None False obtain fl g c where
      t': "t' = t\<lparr>ct_rows := ct_rows t @ [new_row node fl g c], ct_slots := (ct_slots t)(node \<mapsto> ct_size t)\<rparr>"
      and r: "r = Some (ct_size t)"
      by (auto simp: admit_def rbind_Inr_iff Let_def)
    have row: "row_ok (new_row node fl g c)" "cr_node (new_row node fl g c) = node"
      using range confidence_code_range [of Text_candidate]
      by (simp_all add: row_ok_def new_row_def WEAKEST_CONFIDENCE_CODE_def NO_SLOT_def)
    have fresh: "\<forall>s < ct_size t. cr_node (row_of t s) \<noteq> node"
      using ok None unfolding table_ok_def by (metis option.distinct(1))
    have "table_ok t'"
      using ok row False None fresh unfolding t' table_ok_def
      by (auto simp: nth_append less_Suc_eq)
    moreover have "extends_table t t'" by (simp add: extends_table_def t' nth_append)
    ultimately show ?thesis using r row by (simp add: t' nth_append)
  qed
qed

lemma size_bounded: "table_ok t \<Longrightarrow> ct_size t \<le> ct_capacity t"
  by (simp add: table_ok_def)

lemma slot_node: "table_ok t \<Longrightarrow> slotOf t n = Some s \<longleftrightarrow> s < ct_size t \<and> cr_node (row_of t s) = n"
  by (simp add: slotOf_def table_ok_def)

lemma length_chain_walk: "length (chain_walk t steps s) \<le> steps"
  by (induction t steps s rule: chain_walk.induct) (auto simp: Let_def split: option.splits)

section \<open>Properties\<close>

text \<open>
  The table is bounded and deduplicated: admitting a node keeps one row per distinct node and
  never exceeds the capacity; it gives back the slot of a node already admitted, refuses a new
  one exactly when the table is full, and counts each refusal.
\<close>

theorem admit_bounded_dedup:
  assumes "table_ok t" "to_int32 node = node" "admit reader node t = Inr (r, t')"
  shows "table_ok t' \<and> ct_size t' \<le> ct_capacity t
     \<and> (case r of
          Some s \<Rightarrow> s < ct_size t' \<and> cr_node (row_of t' s) = node \<and> admit reader node t' = Inr (Some s, t')
            \<and> (\<forall>i < ct_size t'. cr_node (row_of t' i) = node \<longrightarrow> i = s)
        | None \<Rightarrow> slotOf t node = None \<and> ct_size t = ct_capacity t \<and> ct_overflow t' = ct_overflow t + 1)"
proof -
  note ok = admit_ok [OF assms]
  have "ct_size t' \<le> ct_capacity t" using ok by (auto simp: table_ok_def extends_table_def)
  moreover have "i = s" if "r = Some s" "i < ct_size t'" "cr_node (row_of t' i) = node" for i s
  proof -
    from ok that have "ct_slots t' node = Some s" by simp
    moreover have "ct_slots t' node = Some i" using ok that(2,3) by (simp add: table_ok_def)
    ultimately show ?thesis by simp
  qed
  ultimately show ?thesis using ok by (auto simp: admit_def slotOf_def split: option.splits)
qed

text \<open>
  A confidence claim only ever strengthens: once a lane owns the claim of a row, another
  claim changes it exactly when it is strictly stronger, and then the lane changes with it; the
  other rows are untouched.
\<close>

theorem claim_only_strengthens:
  assumes "table_ok t" "slot < ct_size t" "cr_originLane (row_of t slot) \<noteq> NO_SLOT"
  shows "(if kernelConfidenceCode c < cr_confidence (row_of t slot)
          then confidenceOf (claim slot lane c t) slot = c \<and> laneOf_slot (claim slot lane c t) slot = lane
          else claim slot lane c t = t)
     \<and> cr_confidence (row_of (claim slot lane c t) slot) \<le> cr_confidence (row_of t slot)
     \<and> (\<forall>i. i \<noteq> slot \<longrightarrow> row_of (claim slot lane c t) i = row_of t i)"
  using assms lane_slot_lanes(1) [of lane] lane_slot_bound [of lane]
  by (auto simp: claim_def Let_def row_update confidenceOf_def laneOf_slot_def confidence_roundtrip RETRIEVAL_LANES_def)

text \<open>
  A parent chain is never longer than the depth it is asked for plus one edge, also when the
  parent pointers form a cycle.
\<close>

theorem parent_chain_bounded: "length (parentChain t slot maxDepth) \<le> maxDepth + 1"
  using length_chain_walk [of t "maxDepth + 1" slot] by (simp add: parentChain_def)

end
