(* ===== verification/Lexicon_Text.thy ===== *)
theory Lexicon_Text
  imports Lexicon_Contract
begin

text \<open>
  runtime-index/lexicon-text.ts: what a character is, which text names the machine and is
  taken out before indexing, and which tokens are refused as key material.
\<close>

section \<open>Classes\<close>

datatype lexicon_class = Class_separator | Class_lower | Class_upper | Class_digit | Class_letter | Class_cjk

definition LETTER_RANGES :: "(nat \<times> nat) list" where
  "LETTER_RANGES = [(0x00c0, 0x00d6), (0x00d8, 0x00f6), (0x00f8, 0x024f), (0x0370, 0x03ff),
     (0x0400, 0x052f), (0x0530, 0x058f), (0x0590, 0x05ff), (0x0600, 0x06ff), (0x0900, 0x097f),
     (0x0e00, 0x0e7f)]"

definition CJK_RANGES :: "(nat \<times> nat) list" where
  "CJK_RANGES = [(0x1100, 0x11ff), (0x3040, 0x309f), (0x30a0, 0x30fa), (0x30fc, 0x30ff),
     (0x3130, 0x318f), (0x31f0, 0x31ff), (0x3400, 0x4dbf), (0x4e00, 0x9fff), (0xa960, 0xa97f),
     (0xac00, 0xd7a3), (0xd7b0, 0xd7ff), (0xf900, 0xfaff), (0x20000, 0x2a6df), (0x2a700, 0x2ebef)]"

definition inRanges :: "nat \<Rightarrow> (nat \<times> nat) list \<Rightarrow> bool" where
  "inRanges codePoint ranges = list_ex (\<lambda>(lo, hi). lo \<le> codePoint \<and> codePoint \<le> hi) ranges"

definition classifyLexiconCodePoint :: "nat \<Rightarrow> lexicon_class" where
  "classifyLexiconCodePoint codePoint =
    (if 0x30 \<le> codePoint \<and> codePoint \<le> 0x39 then Class_digit
     else if 0x41 \<le> codePoint \<and> codePoint \<le> 0x5a then Class_upper
     else if 0x61 \<le> codePoint \<and> codePoint \<le> 0x7a then Class_lower
     else if codePoint < 0x80 then Class_separator
     else if inRanges codePoint CJK_RANGES then Class_cjk
     else if inRanges codePoint LETTER_RANGES then Class_letter
     else Class_separator)"

text \<open>The class of a character.\<close>

definition char_class :: "js_string \<Rightarrow> lexicon_class" where
  "char_class c = classifyLexiconCodePoint (codePointAt0 c)"

definition isAllDigits :: "js_string \<Rightarrow> bool" where
  "isAllDigits value \<longleftrightarrow> list_all (\<lambda>c. char_class c = Class_digit) (js_chars value) \<and> value \<noteq> []"

section \<open>Machine paths\<close>

text \<open>White space and line terminators: what \<open>\s\<close> matches and what \<open>trim\<close> removes.\<close>

definition js_space :: "16 word \<Rightarrow> bool" where
  "js_space u = (let c = unat u in
     (9 \<le> c \<and> c \<le> 13) \<or> c = 32 \<or> c = 160 \<or> c = 5760 \<or> (8192 \<le> c \<and> c \<le> 8202)
     \<or> c = 8232 \<or> c = 8233 \<or> c = 8239 \<or> c = 8287 \<or> c = 12288 \<or> c = 65279)"

definition js_trim :: "js_string \<Rightarrow> js_string" where
  "js_trim s = rev (dropWhile js_space (rev (dropWhile js_space s)))"

text \<open>
  A pattern is a function that gives the length of its match at the front of the rest of the
  text, told whether that is the start of the text. The patterns are in the order of
  \<open>MACHINE_PATH_PATTERNS\<close>; \<open>literal_path\<close> is a literal followed by \<open>[^\s]*\<close>, and
  \<open>bounded_path\<close> is such a match behind \<open>(?:^|[\s"'(])\<close>.
\<close>

type_synonym path_pattern = "bool \<Rightarrow> js_string \<Rightarrow> nat option"

definition visible_run :: "js_string \<Rightarrow> nat" where
  "visible_run s = length (takeWhile (\<lambda>u. \<not> js_space u) s)"

definition literal_path :: "string list \<Rightarrow> path_pattern" where
  "literal_path lits at_start s =
    (case filter (\<lambda>l. prefix (js l) s) lits of
       [] \<Rightarrow> None
     | l # _ \<Rightarrow> Some (length l + visible_run (drop (length l) s)))"

definition bounded_path :: "string \<Rightarrow> path_pattern" where
  "bounded_path l at_start s =
    (if at_start \<and> prefix (js l) s then literal_path [l] at_start s
     else case s of
       [] \<Rightarrow> None
     | u # w \<Rightarrow> (if js_space u \<or> u = 34 \<or> u = 39 \<or> u = 40
                then map_option Suc (literal_path [l] at_start w) else None))"

definition drive_path :: path_pattern where
  "drive_path at_start s =
    (case s of
       a # b # c # w \<Rightarrow>
        (if ascii_letter a \<and> b = 58 \<and> (c = 92 \<or> c = 47) \<and> prefix (js ''Users'') w then
           (case drop 5 w of
              [] \<Rightarrow> None
            | d # rest \<Rightarrow>
               (let n = length (takeWhile (\<lambda>u. \<not> js_space u \<and> u \<noteq> 92 \<and> u \<noteq> 47) rest) in
                if (d = 92 \<or> d = 47) \<and> n \<noteq> 0 then Some (9 + n) else None))
         else None)
     | _ \<Rightarrow> None)"

definition MACHINE_PATH_PATTERNS :: "path_pattern list" where
  "MACHINE_PATH_PATTERNS =
    [literal_path [''/Users/'', ''/home/''],
     literal_path [''/Volumes/''],
     literal_path [''/private/tmp/'', ''/private/var/''],
     literal_path [''/var/folders/''],
     bounded_path ''/tmp/'',
     drive_path,
     bounded_path ''~/'']"

text \<open>\<open>text.replace(pattern, ...)\<close> with the global flag: every match becomes a space and counts.\<close>

function replace_matches :: "path_pattern \<Rightarrow> bool \<Rightarrow> js_string \<Rightarrow> js_string \<times> nat" where
  "replace_matches pattern at_start [] = ([], 0)"
| "replace_matches pattern at_start (u # w) =
    (case pattern at_start (u # w) of
       Some n \<Rightarrow> (case replace_matches pattern False (drop (n - 1) w) of (t, k) \<Rightarrow> (32 # t, k + 1))
     | None \<Rightarrow> (case replace_matches pattern False w of (t, k) \<Rightarrow> (u # t, k)))"
  by pat_completeness auto
termination by (relation "measure (\<lambda>(_, _, s). length s)") auto

record MachinePathScan =
  scan_text :: js_string
  scan_redactedSpans :: nat

definition redactMachinePaths :: "js_string \<Rightarrow> MachinePathScan" where
  "redactMachinePaths value =
     fold (\<lambda>pattern scan. case replace_matches pattern True (scan_text scan) of
             (t, k) \<Rightarrow> \<lparr>scan_text = t, scan_redactedSpans = scan_redactedSpans scan + k\<rparr>)
       MACHINE_PATH_PATTERNS \<lparr>scan_text = value, scan_redactedSpans = 0\<rparr>"

definition isWorkspaceRelativeLexiconPath :: "js_string \<Rightarrow> bool" where
  "isWorkspaceRelativeLexiconPath value =
    (if value = [] then False
     else if prefix [47] value \<or> prefix [126] value then False
     else if drive_prefix value then False
     else if js_includes value [92] then False
     else if js ''..'' \<in> set (js_split 47 value) then False
     else True)"

section \<open>Secrets\<close>

definition hex_char :: "16 word \<Rightarrow> bool" where
  "hex_char u = (let c = unat u in (48 \<le> c \<and> c \<le> 57) \<or> (97 \<le> c \<and> c \<le> 102) \<or> (65 \<le> c \<and> c \<le> 70))"

definition looksLikeSecretToken :: "js_string \<Rightarrow> ContextLexiconConfig \<Rightarrow> bool" where
  "looksLikeSecretToken token config =
    (if length token < minSecretTokenLength config then False else
     let chars = js_chars token;
         lower = length (filter (\<lambda>c. char_class c = Class_lower) chars);
         upper = length (filter (\<lambda>c. char_class c = Class_upper) chars);
         digit = length (filter (\<lambda>c. char_class c = Class_digit) chars);
         other = length (filter (\<lambda>c. char_class c \<notin> {Class_lower, Class_upper, Class_digit}) chars);
         distinct_count = length (remdups chars)
     in if other > 0 then False
     else let isHex = upper + lower + digit = length token \<and> token \<noteq> [] \<and> list_all hex_char token in
     if isHex \<and> length token \<ge> minHexSecretLength config then True
     else lower > 0 \<and> upper > 0 \<and> digit > 0 \<and> distinct_count * 2 \<ge> length token)"

section \<open>Properties\<close>

lemma prefix_single: "prefix [c] v \<longleftrightarrow> v \<noteq> [] \<and> hd v = c"
  by (cases v) auto

lemma sublist_single: "sublist [c] v \<longleftrightarrow> c \<in> set v"
  by (auto simp: sublist_def in_set_conv_decomp)

lemma lexicon_path_test_writer:
  "isWorkspaceRelativeLexiconPath value \<longleftrightarrow> isWorkspaceRelativePosixPath value"
  by (auto simp: isWorkspaceRelativeLexiconPath_def isWorkspaceRelativePosixPath_def prefix_single
      js_includes_def sublist_single)

text \<open>
  The three workspace path tests of the context graph accept the same strings: the index
  writer's and the lexicon's, by segments, and the one of paths.ts, by substrings.
\<close>

theorem path_tests_agree:
  "(paths_isWorkspaceRelativePosixPath value \<longleftrightarrow> isWorkspaceRelativePosixPath value)
   \<and> (isWorkspaceRelativeLexiconPath value \<longleftrightarrow> isWorkspaceRelativePosixPath value)"
  by (simp add: paths_test_writer lexicon_path_test_writer)

lemma replace_prefix:
  "prefix p (fst (replace_matches m b s)) \<Longrightarrow> 32 \<notin> set p \<Longrightarrow> prefix p s"
proof (induction m b s arbitrary: p rule: replace_matches.induct)
  case (2 m b u w)
  show ?case
  proof (cases "m b (u # w)")
    case None
    with 2 show ?thesis by (cases p) (auto split: prod.splits)
  next
    case (Some n)
    with 2 show ?thesis by (cases p) (auto split: prod.splits)
  qed
qed simp

text \<open>A replacement never creates text without spaces that was not there.\<close>

lemma replace_sublist:
  "sublist p (fst (replace_matches m b s)) \<Longrightarrow> 32 \<notin> set p \<Longrightarrow> sublist p s"
proof (induction m b s rule: replace_matches.induct)
  case (2 m b u w)
  let ?r = "replace_matches m False"
  show ?case
  proof (cases "m b (u # w)")
    case None
    then have t: "fst (replace_matches m b (u # w)) = u # fst (?r w)" by (simp split: prod.splits)
    from 2(3) [unfolded t sublist_Cons_right] show ?thesis
    proof
      assume "prefix p (u # fst (?r w))"
      then have "prefix p (fst (replace_matches m b (u # w)))" unfolding t .
      from replace_prefix [OF this 2(4)] show ?thesis by (rule prefix_imp_sublist)
    next
      assume "sublist p (fst (?r w))"
      then show ?thesis using 2(1) [OF None] 2(4) by (simp add: sublist_Cons_right)
    qed
  next
    case (Some n)
    then have t: "fst (replace_matches m b (u # w)) = 32 # fst (?r (drop (n - 1) w))" by (simp split: prod.splits)
    from 2(3) [unfolded t sublist_Cons_right] 2(4) have "p = [] \<or> sublist p (fst (?r (drop (n - 1) w)))"
      by (cases p) auto
    then have "p = [] \<or> sublist p (drop (n - 1) w)" using 2(2) [OF Some] 2(4) by auto
    then show ?thesis
      by (metis sublist_Nil_left sublist_Cons_right sublist_drop sublist_order.order_trans)
  qed
qed simp

lemma literal_path_some: "literal_path lits b s \<noteq> None \<longleftrightarrow> (\<exists>l \<in> set lits. prefix (js l) s)"
  by (auto simp: literal_path_def filter_empty_conv split: list.splits) (metis filter_eq_ConsD in_set_conv_decomp mem_Collect_eq set_filter)

text \<open>A pattern that matches wherever a text without spaces begins removes that text.\<close>

lemma pattern_removed:
  assumes "\<forall>b s. prefix p s \<longrightarrow> m b s \<noteq> None" and p: "32 \<notin> set p" "p \<noteq> []"
  shows "\<not> sublist p (fst (replace_matches m b s))"
  using assms(1)
proof (induction m b s rule: replace_matches.induct)
  case (1 m b)
  then show ?case using p by simp
next
  case (2 m b u w)
  show ?case
  proof (cases "m b (u # w)")
    case None
    then have t: "fst (replace_matches m b (u # w)) = u # fst (replace_matches m False w)" by (simp split: prod.splits)
    have "\<not> prefix p (u # w)" using None 2(3) by fastforce
    then have "\<not> prefix p (u # fst (replace_matches m False w))"
      using replace_prefix [of p m b "u # w"] p t by auto
    then show ?thesis using 2(1) [OF None 2(3)] t by (simp add: sublist_Cons_right)
  next
    case (Some n)
    then have t: "fst (replace_matches m b (u # w)) = 32 # fst (replace_matches m False (drop (n - 1) w))"
      by (simp split: prod.splits)
    have "\<not> prefix p (32 # z)" for z using p by (cases p) auto
    then show ?thesis using 2(2) [OF Some 2(3)] t by (simp add: sublist_Cons_right)
  qed
qed

text \<open>A bounded pattern runs to white space, so nothing it leaves behind begins another match.\<close>

lemma literal_path_stops:
  assumes "literal_path [l] b s = Some n"
  shows "drop n s = [] \<or> js_space (hd (drop n s))"
proof -
  have "dropWhile P xs = drop (length (takeWhile P xs)) xs" for P and xs :: js_string
    by (simp add: dropWhile_eq_drop)
  then have "drop n s = dropWhile (\<lambda>u. \<not> js_space u) (drop (length l) s)"
    using assms by (auto simp: literal_path_def visible_run_def add.commute split: if_splits)
  then show ?thesis using hd_dropWhile [of "\<lambda>u. \<not> js_space u"] by auto
qed

lemma bounded_path_stops:
  assumes "bounded_path l b s = Some n" "0 < n"
  shows "drop n s = [] \<or> js_space (hd (drop n s))"
  using assms
  by (auto simp: bounded_path_def split: if_splits list.splits dest: literal_path_stops)

definition boundary :: "16 word \<Rightarrow> bool" where
  "boundary u \<longleftrightarrow> js_space u \<or> u = 34 \<or> u = 39 \<or> u = 40"

lemma bounded_path_removed:
  assumes l: "js l = c # r" "\<not> js_space c" "32 \<notin> set (js l)"
  shows "(b \<longrightarrow> \<not> prefix (js l) (fst (replace_matches (bounded_path l) b s)))
     \<and> (\<forall>v. boundary v \<longrightarrow> \<not> sublist (v # js l) (fst (replace_matches (bounded_path l) b s)))"
proof (induction "bounded_path l" b s rule: replace_matches.induct)
  case (1 b)
  then show ?case using l by simp
next
  case (2 b u w)
  let ?m = "bounded_path l"
  have lit: "prefix (js l) z \<Longrightarrow> literal_path [l] b' z = Some (length l + visible_run (drop (length l) z))" for b' z by (simp add: literal_path_def)
  show ?case
  proof (cases "?m b (u # w)")
    case None
    then have t: "fst (replace_matches ?m b (u # w)) = u # fst (replace_matches ?m False w)" by (simp split: prod.splits)
    have "b \<longrightarrow> \<not> prefix (js l) (u # w)" using None by (auto simp: bounded_path_def lit)
    then have start: "b \<longrightarrow> \<not> prefix (js l) (fst (replace_matches ?m b (u # w)))"
      using replace_prefix [of "js l" ?m b "u # w"] l by auto
    have "boundary u \<longrightarrow> \<not> prefix (js l) w"
      using None by (auto simp: bounded_path_def boundary_def lit split: if_splits)
    then have "boundary u \<longrightarrow> \<not> prefix (js l) (fst (replace_matches ?m False w))"
      using replace_prefix [of "js l" ?m False w] l by auto
    then show ?thesis using start 2(1) [OF None] t by (auto simp: sublist_Cons_right)
  next
    case (Some n)
    let ?w = "drop (n - 1) w"
    from Some have t: "fst (replace_matches ?m b (u # w)) = 32 # fst (replace_matches ?m False ?w)" by (simp split: prod.splits)
    have "0 < n" using Some l by (auto simp: bounded_path_def literal_path_def js_def split: if_splits list.splits)
    then have "?w = [] \<or> js_space (hd ?w)" using bounded_path_stops [OF Some] by (simp add: drop_Cons')
    then have "\<not> prefix (js l) ?w" using l by (cases ?w) auto
    then have "\<not> prefix (js l) (fst (replace_matches ?m False ?w))"
      using replace_prefix [of "js l" ?m False ?w] l by auto
    then show ?thesis using 2(2) [OF Some] t l by (auto simp: sublist_Cons_right)
  qed
qed

lemma redact_text: "scan_text (redactMachinePaths v) =
    foldl (\<lambda>t m. fst (replace_matches m True t)) v MACHINE_PATH_PATTERNS"
proof -
  have "scan_text (fold (\<lambda>pattern scan. case replace_matches pattern True (scan_text scan) of
             (t, k) \<Rightarrow> \<lparr>scan_text = t, scan_redactedSpans = scan_redactedSpans scan + k\<rparr>) ms s)
      = foldl (\<lambda>t m. fst (replace_matches m True t)) (scan_text s) ms" for ms s
    by (induction ms arbitrary: s) (simp_all split: prod.splits)
  then show ?thesis by (simp add: redactMachinePaths_def)
qed

lemma redacted_keeps:
  "sublist p (foldl (\<lambda>t m. fst (replace_matches m True t)) s ms) \<Longrightarrow> 32 \<notin> set p \<Longrightarrow> sublist p s"
  by (induction ms arbitrary: s) (auto dest: replace_sublist)

lemma redacted_gone:
  assumes "m \<in> set ms" "\<forall>b s. prefix p s \<longrightarrow> m b s \<noteq> None" "32 \<notin> set p" "p \<noteq> []"
  shows "\<not> sublist p (foldl (\<lambda>t m. fst (replace_matches m True t)) s ms)"
  using assms(1)
proof (induction ms arbitrary: s)
  case (Cons m' ms)
  show ?case
  proof (cases "m = m'")
    case True
    then have "\<not> sublist p (fst (replace_matches m' True s))" using pattern_removed [OF assms(2-4)] by simp
    then show ?thesis using redacted_keeps [OF _ assms(3), of "fst (replace_matches m' True s)" ms] by auto
  qed (use Cons in auto)
qed simp

lemma drive_matches:
  assumes "ascii_letter a" "c = 92 \<or> c = 47" "d = 92 \<or> d = 47" "\<not> js_space u" "u \<noteq> 92" "u \<noteq> 47"
    "prefix (a # 58 # c # js ''Users'' @ [d, u]) s"
  shows "drive_path b s \<noteq> None"
proof -
  obtain w where "s = a # 58 # c # js ''Users'' @ d # u # w" using assms(7) by (auto simp: prefix_def)
  moreover have "length (js ''Users'') = 5" by (simp add: js_def)
  ultimately show ?thesis using assms(1-6) by (auto simp: drive_path_def Let_def)
qed

text \<open>
  C38. After redaction the text holds none of the six directory prefixes of macOS and Linux anywhere,
  no \<open>Users\<close> directory of a drive with a name behind it, and no \<open>~/\<close> at its start or behind white
  space, a quote or an opening parenthesis. Redaction adds nothing but spaces: every stretch without
  one was there before. Of the seven patterns only \<open>/tmp/\<close> is not covered, and cannot be.
\<close>

theorem redaction_complete:
  "(\<forall>l \<in> {''/Users/'', ''/home/'', ''/Volumes/'', ''/private/tmp/'', ''/private/var/'', ''/var/folders/''}.
      \<not> js_includes (scan_text (redactMachinePaths v)) (js l))
   \<and> (\<forall>a c d u. ascii_letter a \<and> c \<in> {92, 47} \<and> d \<in> {92, 47} \<and> \<not> js_space u \<and> u \<notin> {92, 47} \<longrightarrow>
      \<not> js_includes (scan_text (redactMachinePaths v)) (a # 58 # c # js ''Users'' @ [d, u]))
   \<and> \<not> prefix (js ''~/'') (scan_text (redactMachinePaths v))
   \<and> (\<forall>u. js_space u \<or> u \<in> {34, 39, 40} \<longrightarrow> \<not> js_includes (scan_text (redactMachinePaths v)) (u # js ''~/''))
   \<and> (\<forall>p. 32 \<notin> set p \<longrightarrow> js_includes (scan_text (redactMachinePaths v)) p \<longrightarrow> js_includes v p)"
proof (intro conjI ballI allI impI)
  fix l assume "l \<in> {''/Users/'', ''/home/'', ''/Volumes/'', ''/private/tmp/'', ''/private/var/'', ''/var/folders/''}"
  then obtain lits where "literal_path lits \<in> set MACHINE_PATH_PATTERNS" "l \<in> set lits" "32 \<notin> set (js l)" "js l \<noteq> []"
  proof (elim insertE emptyE)
  qed (force simp: MACHINE_PATH_PATTERNS_def js_def)+
  then show "\<not> js_includes (scan_text (redactMachinePaths v)) (js l)"
    unfolding redact_text js_includes_def
    by (intro redacted_gone [of "literal_path lits"]) (use literal_path_some in blast)+
next
  fix a c d u :: "16 word"
  assume given: "ascii_letter a \<and> c \<in> {92, 47} \<and> d \<in> {92, 47} \<and> \<not> js_space u \<and> u \<notin> {92, 47}"
  then have spaceless: "32 \<notin> set (a # 58 # c # js ''Users'' @ [d, u])" by (auto simp: js_def ascii_letter_def js_space_def)
  show "\<not> js_includes (scan_text (redactMachinePaths v)) (a # 58 # c # js ''Users'' @ [d, u])"
    unfolding redact_text js_includes_def
    by (rule redacted_gone [of drive_path])
      (use given spaceless drive_matches [of a c d u] in \<open>simp_all add: MACHINE_PATH_PATTERNS_def\<close>)
next
  obtain t where last: "scan_text (redactMachinePaths v) = fst (replace_matches (bounded_path ''~/'') True t)"
    unfolding redact_text MACHINE_PATH_PATTERNS_def by (simp only: foldl_Cons foldl_Nil)
  note removed = bounded_path_removed [of "''~/''" 126 "[47]" True t]
  then show "\<not> prefix (js ''~/'') (scan_text (redactMachinePaths v))"
    unfolding last by (simp add: js_def js_space_def)
  fix u :: "16 word"
  assume "js_space u \<or> u \<in> {34, 39, 40}"
  with removed show "\<not> js_includes (scan_text (redactMachinePaths v)) (u # js ''~/'')"
    unfolding last js_includes_def by (auto simp: js_def js_space_def boundary_def)
qed (auto simp: redact_text js_includes_def dest: redacted_keeps)

lemmas eval_patterns = literal_path_def bounded_path_def drive_path_def visible_run_def js_space_def
  ascii_letter_def js_def Let_def

text \<open>
  Redaction is not idempotent: the pattern of a Windows home directory is applied after the
  one for \<open>/tmp/\<close> and stops at the first separator, so a temporary path behind such a
  directory is left in the text, after the space that replaced it, and a second pass removes it.
\<close>

definition home_in_tmp :: js_string where
  "home_in_tmp = js ''C:'' @ [92] @ js ''Users'' @ [92] @ js ''x/tmp/y''"

lemma redacted_once: "scan_text (redactMachinePaths home_in_tmp) = js '' /tmp/y''"
  unfolding redact_text MACHINE_PATH_PATTERNS_def foldl_Cons foldl_Nil home_in_tmp_def
  by (simp add: eval_patterns)

lemma redacted_twice: "scan_text (redactMachinePaths (js '' /tmp/y'')) = js '' ''"
  unfolding redact_text MACHINE_PATH_PATTERNS_def foldl_Cons foldl_Nil
  by (simp add: eval_patterns)

theorem redaction_not_idempotent:
  "scan_text (redactMachinePaths (scan_text (redactMachinePaths home_in_tmp))) \<noteq> scan_text (redactMachinePaths home_in_tmp)
   \<and> js_includes (scan_text (redactMachinePaths home_in_tmp)) (js ''/tmp/'')"
  unfolding redacted_once redacted_twice by (simp add: js_def js_includes_def sublist_Cons_right)

theorem redaction_complete_witness:
  "\<not> js_includes (scan_text (redactMachinePaths (js ''e /home/u''))) (js ''/home/'')
   \<and> 32 \<notin> set (js ''e'') \<and> js_includes (scan_text (redactMachinePaths (js ''e /home/u''))) (js ''e'')
   \<and> js_includes (js ''e /home/u'') (js ''e'')"
proof -
  note rc = redaction_complete [of "js ''e /home/u''"]
  note keeps = rc [THEN conjunct2, THEN conjunct2, THEN conjunct2, THEN conjunct2, THEN spec, THEN mp, THEN mp]
  have home: "\<not> js_includes (scan_text (redactMachinePaths (js ''e /home/u''))) (js ''/home/'')"
    by (rule bspec [OF conjunct1 [OF rc]]) simp
  have space: "32 \<notin> set (js ''e'')" by (simp add: js_def)
  have kept: "js_includes (scan_text (redactMachinePaths (js ''e /home/u''))) (js ''e'')"
    unfolding redact_text js_includes_def MACHINE_PATH_PATTERNS_def foldl_Cons foldl_Nil
    by (simp add: eval_patterns sublist_Cons_right)
  have "js_includes (js ''e /home/u'') (js ''e'')"
    by (rule keeps [OF space kept])
  with home space kept show ?thesis by (intro conjI)
qed

end
