(* ===== verification/Lexicon_Tokenizer.thy ===== *)
theory Lexicon_Tokenizer
  imports Lexicon_Text
begin

text \<open>
  runtime-index/lexicon-tokenizer.ts: the one tokenizer of documents and queries. Unicode's
  NFKC normalization and lower casing are the arguments \<open>nfkc\<close> and \<open>lower\<close>.
\<close>

section \<open>Runs\<close>

datatype run_kind = RUN_LATIN | RUN_CJK

record LexiconRun =
  run_kind :: run_kind
  run_value :: js_string
  run_separator :: js_string

record run_state =
  rs_runs :: "LexiconRun list"
  rs_current :: js_string
  rs_currentKind :: run_kind
  rs_currentSeparator :: js_string
  rs_pending :: js_string

definition flush :: "run_state \<Rightarrow> run_state" where
  "flush s =
    (if rs_current s = [] then s
     else s\<lparr>rs_runs := rs_runs s @ [\<lparr>run_kind = rs_currentKind s, run_value = rs_current s,
                                     run_separator = rs_currentSeparator s\<rparr>],
            rs_current := [], rs_currentSeparator := []\<rparr>)"

definition split_step :: "js_string \<Rightarrow> run_state \<Rightarrow> run_state" where
  "split_step char s =
    (let cls = char_class char in
     if cls = Class_separator then (let s = flush s in s\<lparr>rs_pending := rs_pending s @ char\<rparr>) else
     let kind = (if cls = Class_cjk then RUN_CJK else RUN_LATIN);
         s = (if rs_current s \<noteq> [] \<and> kind \<noteq> rs_currentKind s then flush s else s) in
     if rs_current s = []
     then s\<lparr>rs_current := char, rs_currentKind := kind, rs_currentSeparator := rs_pending s, rs_pending := []\<rparr>
     else s\<lparr>rs_current := rs_current s @ char\<rparr>)"

definition run_start :: run_state where
  "run_start = \<lparr>rs_runs = [], rs_current = [], rs_currentKind = RUN_LATIN,
     rs_currentSeparator = [], rs_pending = []\<rparr>"

definition splitRuns :: "js_string \<Rightarrow> LexiconRun list" where
  "splitRuns text = rs_runs (flush (fold split_step (js_chars text) run_start))"

section \<open>Identifier segments\<close>

definition cuts_at :: "lexicon_class list \<Rightarrow> nat \<Rightarrow> nat list" where
  "cuts_at classes index =
    (let previous = classes ! (index - 1); current = classes ! index in
     if current = Class_upper \<and> previous \<noteq> Class_upper then [index]
     else if previous = Class_upper \<and> (current = Class_lower \<or> current = Class_letter)
     then (if index \<ge> 2 \<and> classes ! (index - 2) = Class_upper then [index - 1] else [])
     else if (current = Class_digit) \<noteq> (previous = Class_digit) then [index] else [])"

fun cut_segments :: "js_string list \<Rightarrow> nat \<Rightarrow> nat list \<Rightarrow> js_string list" where
  "cut_segments chars start [] =
    (if start < length chars then [concat (drop start chars)] else [])"
| "cut_segments chars start (c # cs) =
    (if c > start then concat (drop start (take c chars)) # cut_segments chars c cs
     else cut_segments chars c cs)"

definition splitLatinSegments :: "js_string \<Rightarrow> js_string list" where
  "splitLatinSegments run =
    (let chars = js_chars run in
     if length chars \<le> 1 then (if chars = [] then [] else [run]) else
     let classes = map char_class chars;
         cuts = concat (map (cuts_at classes) [1..<length chars])
     in cut_segments chars 0 (sort (remdups cuts)))"

section \<open>The token sink\<close>

text \<open>The sink, with the omissions it counts into and the three parameters of its constructor.\<close>

record TokenSink =
  ts_terms :: "js_string list"
  ts_seen :: "js_string list"
  ts_capped :: bool
  ts_omissions :: ContextLexiconOmissions
  ts_limit :: nat
  ts_distinct :: bool

definition new_sink :: "ContextLexiconOmissions \<Rightarrow> nat \<Rightarrow> bool \<Rightarrow> TokenSink" where
  "new_sink omissions limit distinctly =
     \<lparr>ts_terms = [], ts_seen = [], ts_capped = False, ts_omissions = omissions,
      ts_limit = limit, ts_distinct = distinctly\<rparr>"

definition sink_full :: "TokenSink \<Rightarrow> bool" where
  "sink_full s \<longleftrightarrow> length (ts_terms s) \<ge> ts_limit s"

definition beginScope :: "TokenSink \<Rightarrow> TokenSink" where
  "beginScope s = (if \<not> ts_distinct s then s\<lparr>ts_seen := []\<rparr> else s)"

definition count_secret :: "TokenSink \<Rightarrow> TokenSink" where
  "count_secret s =
     s\<lparr>ts_omissions := (ts_omissions s)\<lparr>om_secretTokens := om_secretTokens (ts_omissions s) + 1\<rparr>\<rparr>"

definition sink_push :: "ContextLexiconConfig \<Rightarrow> js_string \<Rightarrow> TokenSink \<Rightarrow> TokenSink" where
  "sink_push config raw s =
    (if raw = [] then s
     else if length raw > maxTokenLength config then s
     else if raw \<in> set (ts_seen s) then s
     else if looksLikeSecretToken raw config then count_secret s
     else if sink_full s
     then (if \<not> ts_capped s
           then s\<lparr>ts_capped := True,
                  ts_omissions := (ts_omissions s)\<lparr>om_cappedFieldTokens := om_cappedFieldTokens (ts_omissions s) + 1\<rparr>\<rparr>
           else s)
     else s\<lparr>ts_terms := ts_terms s @ [raw], ts_seen := raw # ts_seen s\<rparr>)"

section \<open>Emission\<close>

fun acronym_initials :: "(js_string \<Rightarrow> js_string) \<Rightarrow> nat \<Rightarrow> js_string list \<Rightarrow> js_string list \<Rightarrow> js_string list" where
  "acronym_initials lower limit [] initials = initials"
| "acronym_initials lower limit (segment # segments) initials =
    (if length initials \<ge> limit then initials else
     case segment of
       [] \<Rightarrow> acronym_initials lower limit segments initials
     | first # _ \<Rightarrow>
        (if classifyLexiconCodePoint (unat first) = Class_digit
         then acronym_initials lower limit segments initials
         else acronym_initials lower limit segments (initials @ [lower [first]])))"

text \<open>\<open>emitLatinRun\<close>: whether the run was refused, and the sink.\<close>

definition emitLatinRun ::
  "(js_string \<Rightarrow> js_string) \<Rightarrow> ContextLexiconConfig \<Rightarrow> js_string \<Rightarrow> TokenSink \<Rightarrow> bool \<times> TokenSink" where
  "emitLatinRun lower config run s =
    (if looksLikeSecretToken run config then (True, count_secret s) else
     let lowered = lower run;
         s = sink_push config lowered s;
         s = (if preserveExactCase config \<and> run \<noteq> lowered then sink_push config run s else s);
         segments = splitLatinSegments run in
     if length segments \<le> 1 then (False, s) else
     let s = fold (\<lambda>segment s.
               if length segment < minSegmentLength config then s
               else if isAllDigits segment then s
               else sink_push config (lower segment) s) segments s;
         initials = acronym_initials lower (maxAcronymSegments config) segments [] in
     (False, if length initials \<ge> minAcronymLength config then sink_push config (concat initials) s else s))"

text \<open>The n-grams of a run of characters in emission order, and the loop that caps them.\<close>

definition ngrams :: "js_string list \<Rightarrow> nat list \<Rightarrow> js_string list" where
  "ngrams points sizes = concat (map (\<lambda>size.
     if size \<le> 0 \<or> length points < size then []
     else map (\<lambda>start. concat (take size (drop start points))) [0..<length points - size + 1]) sizes)"

fun push_ngrams :: "ContextLexiconConfig \<Rightarrow> nat \<Rightarrow> js_string list \<Rightarrow> TokenSink \<Rightarrow> TokenSink" where
  "push_ngrams config produced [] s = s"
| "push_ngrams config produced (g # gs) s =
    (if produced \<ge> maxCjkNgramsPerRun config
     then s\<lparr>ts_omissions := (ts_omissions s)\<lparr>om_cappedCjkNgrams := om_cappedCjkNgrams (ts_omissions s) + 1\<rparr>\<rparr>
     else push_ngrams config (produced + 1) gs (sink_push config g s))"

definition emitCjkRun :: "ContextLexiconConfig \<Rightarrow> js_string \<Rightarrow> TokenSink \<Rightarrow> TokenSink" where
  "emitCjkRun config run s =
    (let points = js_chars run;
         s = (if length points \<le> maxCjkRunLength config then sink_push config run s else s)
     in push_ngrams config 0 (ngrams points (cjkNgramSizes config)) s)"

text \<open>The first loop of \<open>emitRuns\<close>, with the verdict on each run.\<close>

fun emit_each ::
  "(js_string \<Rightarrow> js_string) \<Rightarrow> ContextLexiconConfig \<Rightarrow> LexiconRun list \<Rightarrow> TokenSink \<Rightarrow> bool list \<times> TokenSink" where
  "emit_each lower config [] s = ([], s)"
| "emit_each lower config (run # runs) s =
    (let s = beginScope s;
         (refused, s) = (if run_kind run = RUN_CJK then (False, emitCjkRun config (run_value run) s)
                         else emitLatinRun lower config (run_value run) s);
         (refusals, s) = emit_each lower config runs s
     in (refused # refusals, s))"

text \<open>The second loop: a run and its extension, as in \<open>context.ts\<close>.\<close>

definition join_extension ::
  "(js_string \<Rightarrow> js_string) \<Rightarrow> ContextLexiconConfig \<Rightarrow> (LexiconRun \<times> bool) \<times> (LexiconRun \<times> bool)
     \<Rightarrow> TokenSink \<Rightarrow> TokenSink" where
  "join_extension lower config pair s =
    (case pair of ((previous, refused_previous), (current, refused_current)) \<Rightarrow>
     if run_separator current \<noteq> js ''.'' then s
     else if run_kind previous \<noteq> RUN_LATIN \<or> run_kind current \<noteq> RUN_LATIN then s
     else if length (run_value current) > maxExtensionLength config then s
     else if refused_previous \<or> refused_current then count_secret s
     else sink_push config (lower (run_value previous) @ js ''.'' @ lower (run_value current)) s)"

definition emitRuns ::
  "(js_string \<Rightarrow> js_string) \<Rightarrow> ContextLexiconConfig \<Rightarrow> LexiconRun list \<Rightarrow> TokenSink \<Rightarrow> TokenSink" where
  "emitRuns lower config runs s =
    (let (refused, s) = emit_each lower config runs s;
         s = beginScope s;
         judged = zip runs refused
     in fold (join_extension lower config) (zip judged (tl judged)) s)"

section \<open>Entry points\<close>

record ContextLexiconTokenization =
  tk_terms :: "js_string list"
  tk_omissions :: ContextLexiconOmissions

definition count_redacted :: "nat \<Rightarrow> ContextLexiconOmissions \<Rightarrow> ContextLexiconOmissions" where
  "count_redacted n om = om\<lparr>om_redactedSpans := om_redactedSpans om + n\<rparr>"

definition tokenizeLexiconField ::
  "(js_string \<Rightarrow> js_string) \<Rightarrow> (js_string \<Rightarrow> js_string) \<Rightarrow> js_string \<Rightarrow> nat \<Rightarrow> ContextLexiconConfig
     \<Rightarrow> ContextLexiconTokenization res" where
  "tokenizeLexiconField nfkc lower value fld config =
    rbind (lexiconFieldConfig config fld) (\<lambda>settings.
    if \<not> lf_lexical settings then refuseLexicon Field_not_lexical [(''field'', int fld)] else
    let normalized = js_trim (nfkc value) in
    rbind (if lf_pathLike settings
           then if normalized \<noteq> [] \<and> \<not> isWorkspaceRelativeLexiconPath normalized
                then refuseLexicon Machine_path [(''field'', int fld), (''length'', int (length normalized))]
                else Inr (normalized, emptyLexiconOmissions)
           else let scan = redactMachinePaths normalized in
                Inr (scan_text scan, count_redacted (scan_redactedSpans scan) emptyLexiconOmissions))
      (\<lambda>(text, omissions).
    let s = new_sink omissions (maxTokensPerField config) False;
        runs = splitRuns text;
        s = (if lf_keepWholeValue settings \<and> length runs > 1 then sink_push config (lower text) s else s);
        s = emitRuns lower config runs s
    in Inr \<lparr>tk_terms = ts_terms s, tk_omissions = ts_omissions s\<rparr>))"

record NormalizedLexiconQuery =
  nq_normalized :: js_string
  nq_terms :: "js_string list"
  nq_omissions :: ContextLexiconOmissions

definition normalizeLexiconQuery ::
  "(js_string \<Rightarrow> js_string) \<Rightarrow> (js_string \<Rightarrow> js_string) \<Rightarrow> js_string \<Rightarrow> ContextLexiconConfig
     \<Rightarrow> NormalizedLexiconQuery" where
  "normalizeLexiconQuery nfkc lower query config =
    (let normalized = js_trim (nfkc query);
         scan = redactMachinePaths normalized;
         omissions = count_redacted (scan_redactedSpans scan) emptyLexiconOmissions;
         s = new_sink omissions (maxQueryTerms config) True;
         s = emitRuns lower config (splitRuns (scan_text scan)) s
     in \<lparr>nq_normalized = normalized, nq_terms = ts_terms s, nq_omissions = ts_omissions s\<rparr>)"

end
