(* ===== verification/Lexicon_Correct.thy ===== *)
theory Lexicon_Correct
  imports Lexicon_Tokenizer
begin

text \<open>
  What the tokenizer guarantees: runs and segments partition their text, the terms of a query
  or a field are bounded and filtered, and the two entry points emit the same terms.

  Emission never looks at the sink, so whatever the sink's own operations preserve, emission
  preserves: the locale \<open>sink_relation\<close> proves that once, for relations between two sinks; an
  invariant of one sink is the case of equal sinks.
\<close>

section \<open>Segments partition a run\<close>

lemma cuts_range: "c \<in> set (concat (map (cuts_at classes) [1..<n])) \<Longrightarrow> 0 < c \<and> c < n"
  by (auto simp: cuts_at_def Let_def split: if_splits)

lemma concat_cut_segments:
  "sorted (start # cs) \<Longrightarrow> \<forall>c \<in> set (start # cs). c \<le> length chars \<Longrightarrow>
     concat (cut_segments chars start cs) = concat (drop start chars)"
proof (induction chars start cs rule: cut_segments.induct)
  case (2 chars start c cs)
  have "drop start chars = drop start (take c chars) @ drop c chars"
    using 2(3) by (metis append_take_drop_id drop_append drop_drop drop_take le_add_diff_inverse2
        length_take list.set_intros(1) list.set_intros(2) min.absorb2 "2"(4) sorted_simps(2)
        diff_is_0_eq drop0)
  with 2 show ?case by auto
qed auto

lemma cut_segments_nonempty:
  "\<forall>c \<in> set chars. c \<noteq> [] \<Longrightarrow> \<forall>c \<in> set cs. c \<le> length chars \<Longrightarrow> seg \<in> set (cut_segments chars start cs) \<Longrightarrow> seg \<noteq> []"
proof (induction chars start cs rule: cut_segments.induct)
  case (1 chars start)
  then have "start < length chars" "seg = concat (drop start chars)" by (auto split: if_splits)
  moreover from this have "chars ! start \<in> set (drop start chars)"
    by (metis Cons_nth_drop_Suc list.set_intros(1))
  ultimately show ?case using 1(1) by (auto dest: in_set_dropD)
next
  case (2 chars start c cs)
  show ?case
  proof (cases "c > start \<and> seg = concat (drop start (take c chars))")
    case True
    with 2(4) have "start < length (take c chars)" by simp
    then have "take c chars ! start \<in> set (drop start (take c chars))"
      by (metis Cons_nth_drop_Suc list.set_intros(1))
    moreover from this have "take c chars ! start \<in> set chars" by (meson in_set_dropD in_set_takeD)
    ultimately show ?thesis using 2(3) True by auto
  next
    case False
    with 2 show ?thesis by (auto split: if_splits)
  qed
qed

text \<open>
  Splitting an identifier loses and invents nothing: its segments are non-empty and
  concatenate to it.
\<close>

theorem latin_segments_partition:
  "concat (splitLatinSegments run) = run \<and> [] \<notin> set (splitLatinSegments run)"
proof (cases "length (js_chars run) \<le> 1")
  case True
  then show ?thesis
    by (auto simp: splitLatinSegments_def Let_def)
next
  case False
  let ?chars = "js_chars run"
  let ?cuts = "sort (remdups (concat (map (cuts_at (map char_class ?chars)) [1..<length ?chars])))"
  have range: "\<forall>c \<in> set ?cuts. c \<le> length ?chars"
    using cuts_range by fastforce
  have seg: "splitLatinSegments run = cut_segments ?chars 0 ?cuts"
    using False by (simp add: splitLatinSegments_def Let_def)
  have "concat (splitLatinSegments run) = run"
    unfolding seg using concat_cut_segments [of 0 ?cuts ?chars] range by simp
  moreover have "[] \<notin> set (splitLatinSegments run)"
    unfolding seg using cut_segments_nonempty [OF _ range] js_chars_nonempty by blast
  ultimately show ?thesis by simp
qed

section \<open>Runs partition a text\<close>

definition of_kind :: "run_kind \<Rightarrow> js_string \<Rightarrow> bool" where
  "of_kind kind v \<longleftrightarrow> v \<noteq> [] \<and> (\<exists>cs. v = concat cs
     \<and> (\<forall>c \<in> set cs. char_class c \<noteq> Class_separator \<and> (char_class c = Class_cjk) = (kind = RUN_CJK)))"

definition separators :: "js_string \<Rightarrow> bool" where
  "separators v \<longleftrightarrow> (\<exists>cs. v = concat cs \<and> (\<forall>c \<in> set cs. char_class c = Class_separator))"

definition run_text :: "LexiconRun list \<Rightarrow> js_string" where
  "run_text runs = concat (map (\<lambda>r. run_separator r @ run_value r) runs)"

definition run_ok :: "LexiconRun \<Rightarrow> bool" where
  "run_ok r \<longleftrightarrow> of_kind (run_kind r) (run_value r) \<and> separators (run_separator r)"

definition split_ok :: "js_string \<Rightarrow> run_state \<Rightarrow> bool" where
  "split_ok done_text s \<longleftrightarrow>
     done_text = run_text (rs_runs s) @ rs_currentSeparator s @ rs_current s @ rs_pending s
     \<and> list_all run_ok (rs_runs s) \<and> separators (rs_currentSeparator s) \<and> separators (rs_pending s)
     \<and> (if rs_current s = [] then rs_currentSeparator s = []
        else of_kind (rs_currentKind s) (rs_current s) \<and> rs_pending s = [])"

lemma separators_simps [simp]: "separators []"
  by (auto simp: separators_def intro: exI [of _ "[]"])

lemma separators_snoc: "separators v \<Longrightarrow> char_class c = Class_separator \<Longrightarrow> separators (v @ c)"
  unfolding separators_def by (elim exE conjE, rule_tac x = "cs @ [c]" in exI) auto

lemma of_kind_single:
  "c \<noteq> [] \<Longrightarrow> char_class c \<noteq> Class_separator \<Longrightarrow> of_kind (if char_class c = Class_cjk then RUN_CJK else RUN_LATIN) c"
  unfolding of_kind_def by (auto intro!: exI [of _ "[c]"])

lemma of_kind_snoc:
  "of_kind k v \<Longrightarrow> char_class c \<noteq> Class_separator \<Longrightarrow> (if char_class c = Class_cjk then RUN_CJK else RUN_LATIN) = k
     \<Longrightarrow> of_kind k (v @ c)"
  unfolding of_kind_def by (elim exE conjE, intro conjI, simp, rule_tac x = "cs @ [c]" in exI) (auto split: if_splits)

lemma flush_ok: "split_ok v s \<Longrightarrow> split_ok v (flush s) \<and> rs_current (flush s) = []"
  by (auto simp: split_ok_def flush_def run_text_def run_ok_def)

lemma split_step_ok:
  assumes ok: "split_ok v s" and c: "c \<noteq> []"
  shows "split_ok (v @ c) (split_step c s)"
proof (cases "char_class c = Class_separator")
  case True
  with flush_ok [OF ok] show ?thesis
    by (auto simp: split_step_def Let_def split_ok_def separators_snoc)
next
  case False
  define kind where "kind = (if char_class c = Class_cjk then RUN_CJK else RUN_LATIN)"
  define s' where "s' = (if rs_current s \<noteq> [] \<and> kind \<noteq> rs_currentKind s then flush s else s)"
  have s': "split_ok v s'" "rs_current s' \<noteq> [] \<Longrightarrow> kind = rs_currentKind s'"
    using ok flush_ok [OF ok] by (auto simp: s'_def split: if_splits)
  have step: "split_step c s = (if rs_current s' = []
      then s'\<lparr>rs_current := c, rs_currentKind := kind, rs_currentSeparator := rs_pending s', rs_pending := []\<rparr>
      else s'\<lparr>rs_current := rs_current s' @ c\<rparr>)"
    using False by (simp add: split_step_def Let_def kind_def s'_def)
  show ?thesis
  proof (cases "rs_current s' = []")
    case True
    with s'(1) c of_kind_single [OF c False] show ?thesis
      by (simp add: step split_ok_def kind_def)
  next
    case cur: False
    with s'(1) have "of_kind (rs_currentKind s') (rs_current s')" by (simp add: split_ok_def)
    then have "of_kind (rs_currentKind s') (rs_current s' @ c)"
      by (rule of_kind_snoc [OF _ False]) (use s'(2) [OF cur] in \<open>simp add: kind_def\<close>)
    with s'(1) cur show ?thesis by (simp add: step split_ok_def)
  qed
qed

lemma fold_split_ok:
  "split_ok v s \<Longrightarrow> \<forall>c \<in> set cs. c \<noteq> [] \<Longrightarrow> split_ok (v @ concat cs) (fold split_step cs s)"
proof (induction cs arbitrary: v s)
  case (Cons c cs)
  then have "split_ok (v @ c) (split_step c s)" by (simp add: split_step_ok)
  with Cons.IH [of "v @ c" "split_step c s"] Cons.prems show ?case by simp
qed simp

text \<open>
  Splitting a text into runs loses nothing but trailing separators: every run is non-empty
  and of one script class, its separator is made of separators only, and runs with their
  separators concatenate to the text.
\<close>

theorem runs_partition:
  "list_all run_ok (splitRuns text) \<and> (\<exists>tail. separators tail \<and> text = run_text (splitRuns text) @ tail)"
proof -
  let ?s = "fold split_step (js_chars text) run_start"
  have "split_ok [] run_start" by (simp add: split_ok_def run_start_def run_text_def)
  then have "split_ok text ?s"
    using fold_split_ok [of "[]" run_start "js_chars text"] js_chars_nonempty by auto
  then have "split_ok text (flush ?s)" "rs_current (flush ?s) = []" by (simp_all add: flush_ok)
  then show ?thesis by (auto simp: split_ok_def splitRuns_def)
qed

section \<open>Emission preserves what the sink preserves\<close>

locale sink_relation =
  fixes config :: ContextLexiconConfig and rel :: "TokenSink \<Rightarrow> TokenSink \<Rightarrow> bool"
  assumes push: "rel s t \<Longrightarrow> rel (sink_push config raw s) (sink_push config raw t)"
    and counted: "rel s t \<Longrightarrow> rel (s\<lparr>ts_omissions := f (ts_omissions s)\<rparr>) (t\<lparr>ts_omissions := f (ts_omissions t)\<rparr>)"
    and scope: "rel s t \<Longrightarrow> rel (beginScope s) (beginScope t)"
begin

lemma count_secret: "rel s t \<Longrightarrow> rel (count_secret s) (count_secret t)"
  unfolding count_secret_def
  using counted [of s t "\<lambda>om. om\<lparr>om_secretTokens := om_secretTokens om + 1\<rparr>"] by simp

lemma fold_rel:
  assumes "\<And>x s t. rel s t \<Longrightarrow> rel (f x s) (f x t)"
  shows "rel s t \<Longrightarrow> rel (fold f xs s) (fold f xs t)"
  using assms by (induction xs arbitrary: s t) simp_all

lemma emitLatinRun:
  assumes "rel s t"
  shows "fst (emitLatinRun lower config run s) = fst (emitLatinRun lower config run t)
     \<and> rel (snd (emitLatinRun lower config run s)) (snd (emitLatinRun lower config run t))"
  using assms
  by (auto simp: emitLatinRun_def Let_def intro!: push count_secret fold_rel)

lemma push_ngrams:
  "rel s t \<Longrightarrow> rel (push_ngrams config n gs s) (push_ngrams config n gs t)"
proof (induction gs arbitrary: s t n)
  case (Cons g gs)
  then show ?case
    using counted [of s t "\<lambda>om. om\<lparr>om_cappedCjkNgrams := om_cappedCjkNgrams om + 1\<rparr>"] push by simp
qed simp

lemma emitCjkRun: "rel s t \<Longrightarrow> rel (emitCjkRun config run s) (emitCjkRun config run t)"
  by (auto simp: emitCjkRun_def Let_def intro!: push_ngrams push)

lemma emit_each:
  "rel s t \<Longrightarrow> fst (emit_each lower config runs s) = fst (emit_each lower config runs t)
     \<and> rel (snd (emit_each lower config runs s)) (snd (emit_each lower config runs t))"
proof (induction runs arbitrary: s t)
  case (Cons run runs)
  note l = emitLatinRun [OF scope [OF Cons.prems], of lower "run_value run"]
  note k = emitCjkRun [OF scope [OF Cons.prems], of "run_value run"]
  from Cons.IH [OF k] Cons.IH [OF conjunct2 [OF l]] conjunct1 [OF l] show ?case
    by (auto simp: Let_def split: prod.splits if_splits)
qed simp

lemma emitRuns: "rel s t \<Longrightarrow> rel (emitRuns lower config runs s) (emitRuns lower config runs t)"
proof -
  assume r: "rel s t"
  have join: "rel (join_extension lower config pair s) (join_extension lower config pair t)" if "rel s t" for pair s t
    using that by (auto simp: join_extension_def split: prod.splits intro: push count_secret)
  from emit_each [OF r, of lower runs] show ?thesis
    by (auto simp: emitRuns_def Let_def split: prod.splits intro!: fold_rel join scope)
qed

end

section \<open>The sink's invariant\<close>

definition token_ok :: "ContextLexiconConfig \<Rightarrow> js_string \<Rightarrow> bool" where
  "token_ok config t \<longleftrightarrow> t \<noteq> [] \<and> length t \<le> maxTokenLength config \<and> \<not> looksLikeSecretToken t config"

definition sink_ok :: "ContextLexiconConfig \<Rightarrow> TokenSink \<Rightarrow> bool" where
  "sink_ok config s \<longleftrightarrow> length (ts_terms s) \<le> ts_limit s \<and> (\<forall>t \<in> set (ts_terms s). token_ok config t)
     \<and> (ts_distinct s \<longrightarrow> set (ts_seen s) = set (ts_terms s) \<and> distinct (ts_terms s))"

lemma sink_push_ok: "sink_ok config s \<Longrightarrow> sink_ok config (sink_push config raw s)"
  by (auto simp: sink_ok_def sink_push_def count_secret_def token_ok_def sink_full_def)

interpretation valid: sink_relation config "\<lambda>s t. s = t \<and> sink_ok config s" for config
  by unfold_locales (auto simp: sink_push_ok, auto simp: sink_ok_def beginScope_def)

section \<open>Terms are bounded and filtered\<close>

lemma new_sink_ok: "sink_ok config (new_sink om n d)"
  by (simp add: sink_ok_def new_sink_def)

text \<open>The limit and the scope of a sink never change.\<close>

interpretation fixed: sink_relation config
  "\<lambda>s t. s = t \<and> ts_limit s = n \<and> ts_distinct s = d" for config n d
  by unfold_locales (auto simp: sink_push_def count_secret_def beginScope_def)

lemma emitRuns_sink:
  "sink_ok config s \<Longrightarrow> sink_ok config (emitRuns lower config runs s)
     \<and> ts_limit (emitRuns lower config runs s) = ts_limit s
     \<and> ts_distinct (emitRuns lower config runs s) = ts_distinct s"
  using valid.emitRuns [of s s config lower runs] fixed.emitRuns [of s s "ts_limit s" "ts_distinct s" lower config runs]
  by simp

lemma emit_new_sink: "ts_limit (emitRuns lower config runs (new_sink om n d)) = n"
  using emitRuns_sink [OF new_sink_ok [of config om n d], of lower runs] by (simp add: new_sink_def)

lemma query_terms_limits:
  "distinct (nq_terms (normalizeLexiconQuery nfkc lower query config))
   \<and> length (nq_terms (normalizeLexiconQuery nfkc lower query config)) \<le> maxQueryTerms config
   \<and> list_all (token_ok config) (nq_terms (normalizeLexiconQuery nfkc lower query config))"
proof -
  define scan where "scan = redactMachinePaths (js_trim (nfkc query))"
  define s where "s = new_sink (count_redacted (scan_redactedSpans scan) emptyLexiconOmissions) (maxQueryTerms config) True"
  have "ts_limit s = maxQueryTerms config" "ts_distinct s" by (simp_all add: s_def new_sink_def)
  moreover have "nq_terms (normalizeLexiconQuery nfkc lower query config)
      = ts_terms (emitRuns lower config (splitRuns (scan_text scan)) s)"
    by (simp add: normalizeLexiconQuery_def Let_def s_def scan_def)
  moreover have "sink_ok config s" by (simp add: s_def new_sink_ok)
  ultimately show ?thesis
    using emitRuns_sink [of config s lower "splitRuns (scan_text scan)"] by (simp add: sink_ok_def list_all_iff)
qed

lemma field_terms:
  assumes "tokenizeLexiconField nfkc lower v fld config = Inr tok"
  obtains body om where "tk_terms tok = ts_terms (emitRuns lower config (splitRuns body)
      (if lf_keepWholeValue (lf_fields config ! fld) \<and> length (splitRuns body) > 1
       then sink_push config (lower body) (new_sink om (maxTokensPerField config) False)
       else new_sink om (maxTokensPerField config) False))"
    "fld < length (lf_fields config)" "lf_lexical (lf_fields config ! fld)"
    "if lf_pathLike (lf_fields config ! fld)
     then body = js_trim (nfkc v) \<and> (body = [] \<or> isWorkspaceRelativeLexiconPath body)
     else body = scan_text (redactMachinePaths (js_trim (nfkc v)))"
  using assms
  by (auto simp: tokenizeLexiconField_def lexiconFieldConfig_def refuseLexicon_def Let_def rbind_Inr_iff
      split: if_splits)
text \<open>
  The terms of a query are distinct, at most \<open>maxQueryTerms\<close>, non-empty, no longer than a
  token may be, and none of them looks like key material, whatever the query.
\<close>

theorem query_terms_bounded:
  "distinct (nq_terms (normalizeLexiconQuery nfkc lower query config))
   \<and> length (nq_terms (normalizeLexiconQuery nfkc lower query config)) \<le> maxQueryTerms config
   \<and> list_all (token_ok config) (nq_terms (normalizeLexiconQuery nfkc lower query config))"
  by (rule query_terms_limits)

text \<open>
  A field of a document gives at most \<open>maxTokensPerField\<close> terms, all of them non-empty, short
  enough and not key material; a field the lexicon does not tokenize (the canonical id) gives
  none, and a path field gives terms only for a workspace-relative path.
\<close>

theorem field_terms_bounded:
  assumes "tokenizeLexiconField nfkc lower v fld config = Inr tok"
  shows "length (tk_terms tok) \<le> maxTokensPerField config \<and> (\<forall>t \<in> set (tk_terms tok). token_ok config t)
     \<and> fld < length (lf_fields config) \<and> lf_lexical (lf_fields config ! fld)
     \<and> (lf_pathLike (lf_fields config ! fld) \<longrightarrow> js_trim (nfkc v) \<noteq> [] \<longrightarrow>
          isWorkspaceRelativePosixPath (js_trim (nfkc v)))"
  using assms
proof (rule field_terms)
  fix body om
  define s where "s = (if lf_keepWholeValue (lf_fields config ! fld) \<and> length (splitRuns body) > 1
       then sink_push config (lower body) (new_sink om (maxTokensPerField config) False)
       else new_sink om (maxTokensPerField config) False)"
  assume terms: "tk_terms tok = ts_terms (emitRuns lower config (splitRuns body)
      (if lf_keepWholeValue (lf_fields config ! fld) \<and> length (splitRuns body) > 1
       then sink_push config (lower body) (new_sink om (maxTokensPerField config) False)
       else new_sink om (maxTokensPerField config) False))"
    and fld: "fld < length (lf_fields config)" "lf_lexical (lf_fields config ! fld)"
    and body: "if lf_pathLike (lf_fields config ! fld)
     then body = js_trim (nfkc v) \<and> (body = [] \<or> isWorkspaceRelativeLexiconPath body)
     else body = scan_text (redactMachinePaths (js_trim (nfkc v)))"
  have "sink_ok config s" by (simp add: s_def sink_push_ok new_sink_ok)
  moreover have "ts_limit s = maxTokensPerField config"
    by (simp add: s_def new_sink_def sink_push_def count_secret_def)
  ultimately have "sink_ok config (emitRuns lower config (splitRuns body) s)"
    "ts_limit (emitRuns lower config (splitRuns body) s) = maxTokensPerField config"
    using emitRuns_sink [of config s lower "splitRuns body"] by simp_all
  then have "length (tk_terms tok) \<le> maxTokensPerField config \<and> (\<forall>t \<in> set (tk_terms tok). token_ok config t)"
    unfolding terms s_def [symmetric] by (simp add: sink_ok_def)
  moreover have "lf_pathLike (lf_fields config ! fld) \<longrightarrow> js_trim (nfkc v) \<noteq> [] \<longrightarrow>
          isWorkspaceRelativePosixPath (js_trim (nfkc v))"
    using body by (auto simp: lexicon_path_test_writer)
  ultimately show ?thesis using fld by simp
qed

section \<open>One tokenizer\<close>

text \<open>The sinks of a document and of a query that saw the same pushes, unless one is full.\<close>

definition same_terms :: "TokenSink \<Rightarrow> TokenSink \<Rightarrow> bool" where
  "same_terms s t \<longleftrightarrow> ts_distinct s \<and> \<not> ts_distinct t
     \<and> (sink_full s \<or> sink_full t \<or> (set (ts_terms s) = set (ts_terms t)
          \<and> set (ts_seen s) = set (ts_terms s) \<and> set (ts_seen t) \<subseteq> set (ts_terms t)))"

interpretation same: sink_relation config same_terms for config
proof
  show "same_terms (sink_push config raw s) (sink_push config raw t)" if "same_terms s t" for raw s t
  proof (cases "sink_full s \<or> sink_full t")
    case True
    with that show ?thesis
      by (auto simp: same_terms_def sink_push_def count_secret_def sink_full_def)
  next
    case False
    with that show ?thesis
      by (auto simp: same_terms_def sink_push_def count_secret_def)
  qed
qed (auto simp: same_terms_def beginScope_def sink_full_def)

text \<open>
  There is one tokenizer: free text gives the same set of terms as a query and as a field of
  a document that does not keep its whole value, when neither meets its cap.
\<close>

theorem query_matches_document:
  assumes "tokenizeLexiconField nfkc lower v fld config = Inr tok"
    and "\<not> lf_keepWholeValue (lf_fields config ! fld)" "\<not> lf_pathLike (lf_fields config ! fld)"
    and "length (tk_terms tok) < maxTokensPerField config"
    and "length (nq_terms (normalizeLexiconQuery nfkc lower v config)) < maxQueryTerms config"
  shows "set (tk_terms tok) = set (nq_terms (normalizeLexiconQuery nfkc lower v config))"
  using assms(1)
proof (rule field_terms)
  fix body om
  assume "tk_terms tok = ts_terms (emitRuns lower config (splitRuns body)
      (if lf_keepWholeValue (lf_fields config ! fld) \<and> length (splitRuns body) > 1
       then sink_push config (lower body) (new_sink om (maxTokensPerField config) False)
       else new_sink om (maxTokensPerField config) False))"
  moreover assume "if lf_pathLike (lf_fields config ! fld)
     then body = js_trim (nfkc v) \<and> (body = [] \<or> isWorkspaceRelativeLexiconPath body)
     else body = scan_text (redactMachinePaths (js_trim (nfkc v)))"
  ultimately have d: "tk_terms tok = ts_terms (emitRuns lower config (splitRuns body)
      (new_sink om (maxTokensPerField config) False))"
    and t: "body = scan_text (redactMachinePaths (js_trim (nfkc v)))"
    using assms(2,3) by simp_all
  define om' where "om' = count_redacted (scan_redactedSpans (redactMachinePaths (js_trim (nfkc v)))) emptyLexiconOmissions"
  let ?s = "new_sink om' (maxQueryTerms config) True" and ?t = "new_sink om (maxTokensPerField config) False"
  have q: "nq_terms (normalizeLexiconQuery nfkc lower v config)
      = ts_terms (emitRuns lower config (splitRuns body) ?s)"
    by (simp add: normalizeLexiconQuery_def Let_def om'_def t)
  have "same_terms ?s ?t" by (simp add: same_terms_def new_sink_def)
  from same.emitRuns [OF this] have "same_terms (emitRuns lower config (splitRuns body) ?s)
      (emitRuns lower config (splitRuns body) ?t)" .
  moreover have "\<not> sink_full (emitRuns lower config (splitRuns body) ?s)"
    using assms(5) q by (simp add: sink_full_def emit_new_sink)
  moreover have "\<not> sink_full (emitRuns lower config (splitRuns body) ?t)"
    using assms(4) d by (simp add: sink_full_def emit_new_sink)
  ultimately show ?thesis using d q by (simp add: same_terms_def)
qed

section \<open>Examples\<close>

lemma run_example:
  "tokenizeLexiconField id id (js ''run'') 6 CONTEXT_GRAPH_LEXICON_CONFIG
     = Inr \<lparr>tk_terms = [js ''run''], tk_omissions = count_redacted 0 emptyLexiconOmissions\<rparr>"
  "nq_terms (normalizeLexiconQuery id id (js ''run'') CONTEXT_GRAPH_LEXICON_CONFIG) = [js ''run'']"
proof -
  define w :: js_string where "w = [114, 117, 110]"
  have w: "js ''run'' = w" by (simp add: js_def w_def)
  have classes: "char_class [114] = Class_lower" "char_class [117] = Class_lower" "char_class [110] = Class_lower"
    by (simp_all add: char_class_def classifyLexiconCodePoint_def)
  have chars: "js_chars w = [[114], [117], [110]]" by (simp add: w_def high_surrogate_def)
  have trim: "js_trim w = w" by (simp add: w_def js_trim_def js_space_def Let_def)
  have redact: "redactMachinePaths w = \<lparr>scan_text = w, scan_redactedSpans = 0\<rparr>"
    by (simp add: redactMachinePaths_def MACHINE_PATH_PATTERNS_def w_def eval_patterns)
  have runs: "splitRuns w = [\<lparr>run_kind = RUN_LATIN, run_value = w, run_separator = []\<rparr>]"
    unfolding splitRuns_def chars by (simp add: split_step_def flush_def run_start_def classes Let_def w_def)
  have segments: "splitLatinSegments w = [w]"
    unfolding splitLatinSegments_def chars by (simp add: Let_def classes cuts_at_def upt_rec w_def)
  let ?c = CONTEXT_GRAPH_LEXICON_CONFIG
  have config: "maxTokenLength ?c = 64" "minSecretTokenLength ?c = 20" "maxTokensPerField ?c = 512" "maxQueryTerms ?c = 64"
    "lf_fields ?c ! 6 = \<lparr>lf_weight = 12/10, lf_lengthNormalization = 75/100, lf_lexical = True, lf_keepWholeValue = False, lf_pathLike = False\<rparr>"
    "length (lf_fields ?c) = 9"
    by (simp_all add: CONTEXT_GRAPH_LEXICON_CONFIG_def Let_def)
  have secret: "\<not> looksLikeSecretToken w ?c" by (simp add: looksLikeSecretToken_def config w_def)
  have emit: "ts_terms (emitRuns id ?c (splitRuns w) (new_sink om n d)) = [w]"
    "ts_omissions (emitRuns id ?c (splitRuns w) (new_sink om n d)) = om" if "0 < n" for om n d
    unfolding runs using that
    by (simp_all add: emitRuns_def emitLatinRun_def segments secret Let_def beginScope_def new_sink_def
        sink_push_def config sink_full_def w_def [symmetric]) (simp_all add: w_def)
  show "tokenizeLexiconField id id (js ''run'') 6 ?c
     = Inr \<lparr>tk_terms = [js ''run''], tk_omissions = count_redacted 0 emptyLexiconOmissions\<rparr>"
    unfolding w by (simp add: tokenizeLexiconField_def lexiconFieldConfig_def config trim redact Let_def emit)
  show "nq_terms (normalizeLexiconQuery id id (js ''run'') ?c) = [js ''run'']"
    unfolding w by (simp add: normalizeLexiconQuery_def config trim redact Let_def emit)
qed

theorem field_terms_bounded_witness:
  "\<exists>tok. tokenizeLexiconField id id (js ''run'') 6 CONTEXT_GRAPH_LEXICON_CONFIG = Inr tok
     \<and> length (tk_terms tok) \<le> 512"
  using field_terms_bounded [OF run_example(1)] run_example(1)
  by (simp add: CONTEXT_GRAPH_LEXICON_CONFIG_def Let_def)

theorem query_matches_document_witness:
  "\<exists>tok. tokenizeLexiconField id id (js ''run'') 6 CONTEXT_GRAPH_LEXICON_CONFIG = Inr tok
     \<and> set (tk_terms tok) = set (nq_terms (normalizeLexiconQuery id id (js ''run'') CONTEXT_GRAPH_LEXICON_CONFIG))"
  using query_matches_document [OF run_example(1)] run_example
  by (simp add: CONTEXT_GRAPH_LEXICON_CONFIG_def Let_def)

section \<open>A key with an extension\<close>

text \<open>A term once in the sink stays.\<close>

interpretation kept: sink_relation config "\<lambda>s t. s = t \<and> x \<in> set (ts_terms s)" for config x
  by unfold_locales (auto simp: sink_push_def count_secret_def beginScope_def)

lemma whole_value_kept:
  assumes "token_ok config x" "0 < n"
  shows "x \<in> set (ts_terms (emitRuns lower config runs (sink_push config x (new_sink om n d))))"
proof -
  have "x \<in> set (ts_terms (sink_push config x (new_sink om n d)))"
    using assms by (simp add: sink_push_def new_sink_def token_ok_def sink_full_def)
  then show ?thesis using kept.emitRuns by blast
qed

definition hex_key :: js_string where
  "hex_key = [48, 49, 50, 51, 52, 53, 54, 55, 56, 57, 97, 98, 99, 100, 101, 102,
              48, 49, 50, 51, 52, 53, 54, 55, 56, 57, 97, 98, 99, 100, 101, 102]"

text \<open>
  A secret can reach the index: a field that keeps its whole value, such as the basename,
  pushes it without judging its runs, so a file named after a key is indexed with the key
  although the key by itself is refused.
\<close>

theorem keyed_basename_indexed:
  "looksLikeSecretToken hex_key CONTEXT_GRAPH_LEXICON_CONFIG
   \<and> (\<exists>tok. tokenizeLexiconField id id (hex_key @ js ''.json'') FIELD_BASENAME CONTEXT_GRAPH_LEXICON_CONFIG = Inr tok
        \<and> hex_key @ js ''.json'' \<in> set (tk_terms tok))"
proof -
  define v where "v = hex_key @ js ''.json''"
  have v: "v = [48, 49, 50, 51, 52, 53, 54, 55, 56, 57, 97, 98, 99, 100, 101, 102,
              48, 49, 50, 51, 52, 53, 54, 55, 56, 57, 97, 98, 99, 100, 101, 102, 46, 106, 115, 111, 110]"
    by (simp add: v_def hex_key_def js_def)
  have digits: "48 \<le> n \<Longrightarrow> n \<le> 57 \<Longrightarrow> classifyLexiconCodePoint n = Class_digit"
    and lowers: "97 \<le> n \<Longrightarrow> n \<le> 122 \<Longrightarrow> classifyLexiconCodePoint n = Class_lower"
    and dot: "classifyLexiconCodePoint 46 = Class_separator" for n
    by (simp_all add: classifyLexiconCodePoint_def)
  note class_simps = char_class_def digits lowers dot high_surrogate_def
  let ?c = CONTEXT_GRAPH_LEXICON_CONFIG
  have config: "maxTokenLength ?c = 64" "minSecretTokenLength ?c = 20" "minHexSecretLength ?c = 32" "maxTokensPerField ?c = 512"
    "lf_fields ?c ! 4 = \<lparr>lf_weight = 3, lf_lengthNormalization = 3/10, lf_lexical = True, lf_keepWholeValue = True, lf_pathLike = True\<rparr>"
    "length (lf_fields ?c) = 9"
    by (simp_all add: CONTEXT_GRAPH_LEXICON_CONFIG_def Let_def)
  have key: "looksLikeSecretToken hex_key ?c"
    by (simp add: looksLikeSecretToken_def config hex_key_def class_simps hex_char_def Let_def)
  have "\<not> looksLikeSecretToken v ?c"
    by (simp add: looksLikeSecretToken_def config v class_simps)
  then have ok: "token_ok ?c v" by (simp add: token_ok_def config v)
  have trim: "js_trim v = v" by (simp add: v js_trim_def js_space_def Let_def)
  have path: "isWorkspaceRelativeLexiconPath v"
    by (simp add: isWorkspaceRelativeLexiconPath_def drive_prefix_def js_includes_def sublist_single v js_def)
  have runs: "length (splitRuns v) > 1"
    by (simp add: splitRuns_def split_step_def flush_def run_start_def class_simps v Let_def)
  have "v \<in> set (ts_terms (emitRuns id ?c (splitRuns v) (sink_push ?c v (new_sink emptyLexiconOmissions 512 False))))"
    by (rule whole_value_kept [OF ok]) simp
  then show ?thesis
    unfolding v_def [symmetric] using key runs
    by (simp add: tokenizeLexiconField_def lexiconFieldConfig_def config trim path FIELD_BASENAME_def Let_def v_def [symmetric])
qed

end
