(* ===== verification/Kernel_Plan.thy ===== *)
theory Kernel_Plan
  imports Kernel_Candidates Lexicon_Correct
begin

text \<open>
  query/kernel-plan.ts: a request becomes a plan and the integer tables of the hot path. The
  mutable \<open>warnings\<close> and \<open>omissions\<close> of the context are the \<open>kernel_notes\<close> threaded through
  the run; the rest of the context never changes.
\<close>

unbundle bit_operations_syntax

section \<open>The context\<close>

definition KERNEL_SAFETY_EDGE_TYPES :: "ContextGraphEdgeType list" where
  "KERNEL_SAFETY_EDGE_TYPES = [Tests, Verified_by, Gated_by, Affected_by, Invalidates, Conflicts_with]"

definition KERNEL_CONFLICT_EDGE_TYPES :: "ContextGraphEdgeType list" where
  "KERNEL_CONFLICT_EDGE_TYPES = [Invalidates, Conflicts_with]"

record KernelPlanOptions =
  ko_config :: "ContextGraphRankingConfig option"
  ko_kernelConfig :: "ContextGraphKernelConfig option"
  ko_clock :: KernelClock

record KernelPlanContext =
  kx_plan :: QueryPlan
  kx_config :: ContextGraphRankingConfig
  kx_kernelConfig :: ContextGraphKernelConfig
  kx_normalizedQuery :: js_string
  kx_terms :: "js_string list"
  kx_anchorTerms :: "js_string list"
  kx_focusPaths :: "js_string list"
  kx_highRisk :: bool
  kx_maxSelected :: int
  kx_startedAt :: rat
  kx_deadline :: "rat option"
  kx_clock :: KernelClock
  kx_edgeWeights :: "int list"
  kx_edgeTypeMask :: nat
  kx_safetyEdgeMask :: nat
  kx_conflictEdgeMask :: nat
  kx_confidenceMultipliers :: "int list"
  kx_laneWeights :: "int list"
  kx_rrf :: "int list"

abbreviation SCALE :: int where "SCALE \<equiv> CONTEXT_INDEX_FIXED_POINT_SCALE"

section \<open>The shape of a query\<close>

definition last_dot :: "js_string \<Rightarrow> int" where
  "last_dot token = (if 46 \<in> set token
     then int (length token) - 1 - int (length (takeWhile (\<lambda>u. u \<noteq> 46) (rev token))) else - 1)"

definition isAnchorShapedToken :: "js_string \<Rightarrow> bool" where
  "isAnchorShapedToken token =
    (if length token = 0 then False
     else if js_includes token (js '':'') \<or> js_includes token (js ''/'') \<or> js_includes token (js ''#'') then True
     else let dot = last_dot token in dot > 0 \<and> dot < int (length token) - 1)"

definition classifyShape :: "nat \<Rightarrow> nat \<Rightarrow> ContextGraphKernelConfig \<Rightarrow> QueryShape" where
  "classifyShape anchorShaped terms kernelConfig =
    (if anchorShaped > 0 \<and> terms \<le> anchoredMaxTerms kernelConfig then Anchored
     else if anchorShaped = 0 \<and> terms \<ge> naturalMinTerms kernelConfig then Natural
     else if anchorShaped > 0 then Mixed else Natural)"

definition fieldMaskFor :: "QueryShape \<Rightarrow> nat" where
  "fieldMaskFor shape =
    (let anchorFields = lexiconFieldMask FIELD_EXACT_LABEL OR lexiconFieldMask FIELD_MANIFEST_NAME
           OR lexiconFieldMask FIELD_BASENAME OR lexiconFieldMask FIELD_PATH_SEGMENT;
         textFields = lexiconFieldMask FIELD_SYMBOL_SEGMENT OR lexiconFieldMask FIELD_PURPOSE
           OR lexiconFieldMask FIELD_EVIDENCE OR lexiconFieldMask FIELD_COARSE
     in if shape = Anchored then anchorFields
        else if shape = Natural then anchorFields OR textFields
        else anchorFields OR textFields)"

definition profileMaskFor :: "ContextGraphQueryProfileName \<Rightarrow> nat" where
  "profileMaskFor profile =
    (let position = index_of profile CONTEXT_GRAPH_QUERY_PROFILE_NAMES in
     if position < 0 then 1 else push_bit (nat position) 1 mod 2 ^ 32)"

section \<open>Focus paths\<close>

text \<open>\<open>replace(/^\.\//, '')\<close> and \<open>replace(/\/+$/, '')\<close>.\<close>

definition strip_dot_slash :: "js_string \<Rightarrow> js_string" where
  "strip_dot_slash s = (if prefix (js ''./'') s then drop 2 s else s)"

definition strip_trailing :: "16 word set \<Rightarrow> js_string \<Rightarrow> js_string" where
  "strip_trailing us s = rev (dropWhile (\<lambda>u. u \<in> us) (rev s))"

definition usableFocusPaths ::
  "KernelRequest \<Rightarrow> kernel_notes \<Rightarrow> js_string list \<times> kernel_notes" where
  "usableFocusPaths request notes =
     fold (\<lambda>focus (out, notes).
        let normalized = strip_trailing {47} (strip_dot_slash focus) in
        if normalized = [] \<or> \<not> paths_isWorkspaceRelativePosixPath normalized
        then (out, omit Focus_filtered 1 notes)
        else if normalized \<notin> set out then (out @ [normalized], notes) else (out, notes))
      (case kr_focusPaths request of None \<Rightarrow> [] | Some fs \<Rightarrow> fs) ([], notes)"

section \<open>The integer tables\<close>

definition edgeTables :: "ContextGraphQueryProfile \<Rightarrow> int list \<times> nat" where
  "edgeTables profile =
     fold (\<lambda>(type, code) (ws, mask_bits).
        let weight = (case pf_edgeWeights profile type of None \<Rightarrow> 0 | Some w \<Rightarrow> w) in
        if weight \<le> 0 then (ws, mask_bits)
        else (ws[code := to_int32 (toFixedPoint (Some weight) SCALE)], mask_bits OR push_bit code 1))
      (zip CONTEXT_GRAPH_EDGE_TYPES [0..<length CONTEXT_GRAPH_EDGE_TYPES])
      (replicate (length CONTEXT_GRAPH_EDGE_TYPES) 0, 0)"

definition edgeTypeMaskOf :: "ContextGraphEdgeType list \<Rightarrow> nat" where
  "edgeTypeMaskOf types =
     fold (\<lambda>type mask_bits.
        let code = index_of type CONTEXT_GRAPH_EDGE_TYPES in
        if code \<ge> 0 then mask_bits OR push_bit (nat code) 1 else mask_bits) types 0"

definition rrfTable :: "ContextGraphKernelConfig \<Rightarrow> int list" where
  "rrfTable kernelConfig =
     map (\<lambda>rank. to_int32 (math_round (of_int (SCALE * SCALE) / of_int (rrfK kernelConfig + int rank + 1))))
       [0..<rrfRankCap kernelConfig]"

definition confidence_table :: "ContextGraphRankingConfig \<Rightarrow> int list" where
  "confidence_table config =
     map (\<lambda>c. to_int32 (toFixedPoint (Some (edgeConfidenceMultiplier config c)) SCALE)) CONFIDENCE_CODES"

definition lane_table :: "(RetrievalLane \<Rightarrow> rat) \<Rightarrow> int list" where
  "lane_table mix =
     fold (\<lambda>lane ws. ws[LANE_SLOT lane := to_int32 (toFixedPoint (Some (mix lane)) SCALE)])
       RETRIEVAL_LANES (replicate LANE_COUNT 0)"

section \<open>The plan\<close>

text \<open>\<open>split(/\s+/)\<close>.\<close>

function split_spaces :: "js_string \<Rightarrow> js_string list" where
  "split_spaces s =
    (let word = takeWhile (\<lambda>u. \<not> js_space u) s; rest = dropWhile (\<lambda>u. \<not> js_space u) s in
     case rest of [] \<Rightarrow> [word] | _ # _ \<Rightarrow> word # split_spaces (dropWhile js_space rest))"
  by pat_completeness auto
termination
proof (relation "measure length")
  fix s :: js_string and word rest x xs
  assume rest: "rest = dropWhile (\<lambda>u. \<not> js_space u) s" "rest = x # xs"
  then have "js_space x" by (metis hd_dropWhile list.distinct(1) list.sel(1))
  then have "dropWhile js_space rest = dropWhile js_space xs" by (subst rest(2)) simp
  then have "length (dropWhile js_space rest) \<le> length xs" by (simp add: length_dropWhile_le)
  also have "length (x # xs) \<le> length s" using rest length_dropWhile_le by metis
  then have "length xs < length s" by simp
  finally show "(dropWhile js_space rest, s) \<in> measure length" by simp
qed simp

declare split_spaces.simps [simp del]

definition anchor_tokens :: "js_string \<Rightarrow> js_string list \<times> nat" where
  "anchor_tokens normalized =
     fold (\<lambda>raw (anchorTerms, anchorShaped).
        let token = strip_trailing {44, 59} raw in
        if token = [] \<or> token \<in> set anchorTerms then (anchorTerms, anchorShaped)
        else (anchorTerms @ [token], if isAnchorShapedToken token then anchorShaped + 1 else anchorShaped))
      (split_spaces normalized) ([], 0)"

text \<open>
  The context \<open>resolveQueryPlan\<close> returns, from the steps that can throw or have an effect: the
  normalized query, its anchor tokens, the term ids looked up, the start time and the focus paths.
\<close>

definition plan_config :: "KernelPlanOptions \<Rightarrow> ContextGraphRankingConfig" where
  "plan_config options = (case ko_config options of None \<Rightarrow> CONTEXT_GRAPH_RANKING_CONFIG | Some c \<Rightarrow> c)"

definition plan_kernelConfig :: "KernelPlanOptions \<Rightarrow> ContextGraphKernelConfig" where
  "plan_kernelConfig options = (case ko_kernelConfig options of None \<Rightarrow> CONTEXT_GRAPH_KERNEL_CONFIG | Some c \<Rightarrow> c)"

definition query_plan ::
  "KernelRequest \<Rightarrow> KernelPlanOptions \<Rightarrow> NormalizedLexiconQuery \<Rightarrow> nat \<Rightarrow> int list \<Rightarrow> QueryPlan" where
  "query_plan request options normalization anchorShaped ids =
    (let kernelConfig = plan_kernelConfig options;
         caps = CONTEXT_GRAPH_TRAVERSAL_CAPS;
         profile = contextGraphQueryProfile (kr_profile request);
         shape = classifyShape anchorShaped (length (nq_terms normalization)) kernelConfig;
         postingMultiplier = (if shape = Anchored then 1 else textShapePostingMultiplier kernelConfig)
     in \<lparr>q_profile = pf_name profile, q_shape = shape,
         q_termIds = filter (\<lambda>i. i \<ge> 0) ids,
         q_fieldMask = fieldMaskFor shape,
         q_profileMask = profileMaskFor (pf_name profile),
         q_maxDepth = (if kr_highRisk request then pf_maxDepthHighRisk profile else pf_maxDepth profile),
         q_frontierBudget = kc_frontierBudget kernelConfig,
         q_postingCapPerTerm = lx_postingCapPerTerm CONTEXT_GRAPH_LEXICON_CONFIG * postingMultiplier,
         q_candidateBudget = kc_candidateBudget kernelConfig,
         q_tokenBudget = max 0 (case kr_tokenBudget request of None \<Rightarrow> defaultTokenBudget caps | Some b \<Rightarrow> b)\<rparr>)"

definition plan_context ::
  "KernelRequest \<Rightarrow> KernelPlanOptions \<Rightarrow> NormalizedLexiconQuery \<Rightarrow> js_string list \<Rightarrow> nat
     \<Rightarrow> int list \<Rightarrow> rat \<Rightarrow> js_string list \<Rightarrow> KernelPlanContext" where
  "plan_context request options normalization anchorTerms anchorShaped ids startedAt focusPaths =
    (let config = plan_config options;
         kernelConfig = plan_kernelConfig options;
         caps = CONTEXT_GRAPH_TRAVERSAL_CAPS;
         profile = contextGraphQueryProfile (kr_profile request);
         normalized = nq_normalized normalization;
         timeoutMs = max 0 (case kr_timeoutMs request of None \<Rightarrow> queryTimeoutMs caps | Some t \<Rightarrow> t)
     in \<lparr>kx_plan = query_plan request options normalization anchorShaped ids,
         kx_config = config, kx_kernelConfig = kernelConfig,
         kx_normalizedQuery = normalized, kx_terms = nq_terms normalization,
         kx_anchorTerms = (if normalized \<noteq> [] \<and> normalized \<notin> set anchorTerms then normalized # anchorTerms
           else anchorTerms),
         kx_focusPaths = focusPaths, kx_highRisk = kr_highRisk request,
         kx_maxSelected = max 0 (min (case kr_maxSelected request of None \<Rightarrow> maxSelectedNodes caps | Some m \<Rightarrow> m)
           (maxSelectedNodes caps)),
         kx_startedAt = startedAt,
         kx_deadline = (if timeoutMs > 0 then Some (startedAt + timeoutMs) else None),
         kx_clock = ko_clock options,
         kx_edgeWeights = fst (edgeTables profile), kx_edgeTypeMask = snd (edgeTables profile),
         kx_safetyEdgeMask = edgeTypeMaskOf KERNEL_SAFETY_EDGE_TYPES,
         kx_conflictEdgeMask = edgeTypeMaskOf KERNEL_CONFLICT_EDGE_TYPES,
         kx_confidenceMultipliers = confidence_table config,
         kx_laneWeights = lane_table (laneWeights kernelConfig (pf_name profile)),
         kx_rrf = rrfTable kernelConfig\<rparr>)"

definition resolveQueryPlan ::
  "(js_string \<Rightarrow> js_string) \<Rightarrow> (js_string \<Rightarrow> js_string) \<Rightarrow> ContextIndexReader \<Rightarrow> KernelRequest
     \<Rightarrow> KernelPlanOptions \<Rightarrow> (KernelPlanContext \<times> kernel_notes) res" where
  "resolveQueryPlan nfkc lower reader request options =
    (let notes = \<lparr>kn_warnings = [], kn_omissions = Map.empty, kn_readings = 0\<rparr>;
         normalization = normalizeLexiconQuery nfkc lower (kr_query request) CONTEXT_GRAPH_LEXICON_CONFIG;
         (anchorTerms, anchorShaped) = anchor_tokens (nq_normalized normalization);
         notes = warn_if (om_redactedSpans (nq_omissions normalization) > 0)
           ''an absolute path in the query was redacted before it reached the index'' notes;
         notes = omit Query_terms_capped (int (om_cappedFieldTokens (nq_omissions normalization))) notes
     in rbind (map_res (rd_termId reader) (nq_terms normalization)) (\<lambda>ids.
     let (startedAt, notes) = read_clock (ko_clock options) notes;
         (focusPaths, notes) = usableFocusPaths request notes
     in Inr (plan_context request options normalization anchorTerms anchorShaped ids startedAt focusPaths, notes)))"

section \<open>Facts\<close>

lemma to_int32_id: "- (2 ^ 31) \<le> k \<Longrightarrow> k < 2 ^ 31 \<Longrightarrow> to_int32 k = k"
  by (simp add: to_int32_def sint_sbintrunc' signed_take_bit_int_eq_self)

lemma or_single: "bit (m OR 2 ^ c :: nat) n \<longleftrightarrow> bit m n \<or> n = c"
  by (auto simp: bit_or_iff bit_exp_iff)

lemma index_of_nth: "distinct xs \<Longrightarrow> i < length xs \<Longrightarrow> index_of (xs ! i) xs = int i"
proof (induction xs arbitrary: i)
  case (Cons x xs)
  then show ?case by (cases i) (auto simp: Let_def)
qed simp

lemma edge_types_distinct: "distinct CONTEXT_GRAPH_EDGE_TYPES"
  by (simp add: CONTEXT_GRAPH_EDGE_TYPES_def)

lemma mask_of_types:
  assumes "code < length CONTEXT_GRAPH_EDGE_TYPES"
  shows "bit (edgeTypeMaskOf types) code \<longleftrightarrow> CONTEXT_GRAPH_EDGE_TYPES ! code \<in> set types"
proof -
  have "bit (fold (\<lambda>type m. let c = index_of type CONTEXT_GRAPH_EDGE_TYPES in
        if c \<ge> 0 then m OR push_bit (nat c) 1 else m) types (m :: nat)) code
      \<longleftrightarrow> bit m code \<or> CONTEXT_GRAPH_EDGE_TYPES ! code \<in> set types" for m
  proof (induction types arbitrary: m)
    case (Cons t types)
    obtain i where i: "i < length CONTEXT_GRAPH_EDGE_TYPES" "t = CONTEXT_GRAPH_EDGE_TYPES ! i"
      using edge_types_cover [of t] by (metis in_set_conv_nth)
    have eq: "i = code \<longleftrightarrow> CONTEXT_GRAPH_EDGE_TYPES ! code = t"
      using i assms edge_types_distinct by (auto simp: nth_eq_iff_index_eq)
    have "index_of t CONTEXT_GRAPH_EDGE_TYPES = int i" using i index_of_nth edge_types_distinct by simp
    then show ?case
      unfolding fold.simps comp_apply Cons.IH using eq by (auto simp: Let_def or_single)
  qed simp
  from this [of 0] show ?thesis by (simp add: edgeTypeMaskOf_def)
qed



lemma edge_tables_fold:
  fixes w :: "'t \<Rightarrow> rat" and f :: "rat \<Rightarrow> int"
  defines "step \<equiv> \<lambda>(type, code) (ws, m :: nat). if w type \<le> 0 then (ws, m)
          else (ws[code := f (w type)], m OR push_bit code 1)"
  shows "k + length types \<le> length ws \<Longrightarrow> fold step (zip types [k..<k + length types]) (ws, m) = (ws', m') \<Longrightarrow>
     length ws' = length ws
     \<and> (\<forall>c. ws' ! c = (if k \<le> c \<and> c < k + length types \<and> w (types ! (c - k)) > 0 then f (w (types ! (c - k))) else ws ! c))
     \<and> (\<forall>c. bit m' c \<longleftrightarrow> bit m c \<or> (k \<le> c \<and> c < k + length types \<and> w (types ! (c - k)) > 0))"
proof (induction types arbitrary: k ws m)
  case (Cons t types)
  have upt: "[k..<k + length (t # types)] = k # [Suc k..<Suc k + length types]" by (simp add: upt_rec)
  obtain ws1 m1 where s: "step (t, k) (ws, m) = (ws1, m1)" by (cases "step (t, k) (ws, m)") auto
  then have one: "length ws1 = length ws" "\<And>c. ws1 ! c = (if c = k \<and> w t > 0 then f (w t) else ws ! c)"
    "\<And>c. bit m1 c \<longleftrightarrow> bit m c \<or> (c = k \<and> w t > 0)"
    using Cons.prems(1) by (auto simp: step_def nth_list_update or_single not_le split: if_splits)
  have "fold step (zip types [Suc k..<Suc k + length types]) (ws1, m1) = (ws', m')"
    using Cons.prems(2) unfolding upt zip_Cons_Cons fold.simps comp_apply s .
  from Cons.IH [OF _ this] Cons.prems(1) one(1) have
    rest: "length ws' = length ws"
      "\<And>c. ws' ! c = (if Suc k \<le> c \<and> c < Suc k + length types \<and> w (types ! (c - Suc k)) > 0 then f (w (types ! (c - Suc k))) else ws1 ! c)"
      "\<And>c. bit m' c \<longleftrightarrow> bit m1 c \<or> (Suc k \<le> c \<and> c < Suc k + length types \<and> w (types ! (c - Suc k)) > 0)"
    by simp_all
  have nth: "(t # types) ! (c - k) = (if c = k then t else types ! (c - Suc k))" if "k \<le> c" for c
    using that by (auto simp: nth_Cons' Suc_diff_le)
  show ?case
  proof (intro conjI allI)
    show "length ws' = length ws" by (rule rest)
    fix c
    show "ws' ! c = (if k \<le> c \<and> c < k + length (t # types) \<and> w ((t # types) ! (c - k)) > 0
        then f (w ((t # types) ! (c - k))) else ws ! c)"
      unfolding rest(2) one(2) by (cases "c = k"; cases "k \<le> c") (simp_all add: nth)
    show "bit m' c \<longleftrightarrow> bit m c \<or> (k \<le> c \<and> c < k + length (t # types) \<and> w ((t # types) ! (c - k)) > 0)"
      unfolding rest(3) one(3) by (cases "c = k"; cases "k \<le> c") (simp_all add: nth)
  qed
next
  case Nil
  then show ?case by (intro conjI allI) auto
qed

text \<open>
  The traversal tables of a profile are exact: a code's bit is set in the mask exactly when
  the profile traverses that edge type, and its fixed-point weight is the profile's weight,
  without rounding, and 0 for an edge type the profile does not traverse.
\<close>

theorem edge_tables_exact:
  assumes "code < length CONTEXT_GRAPH_EDGE_TYPES"
  shows "(bit (snd (edgeTables (contextGraphQueryProfile name))) code
       \<longleftrightarrow> profileTraversesEdge (contextGraphQueryProfile name) (CONTEXT_GRAPH_EDGE_TYPES ! code))
     \<and> of_int (fst (edgeTables (contextGraphQueryProfile name)) ! code)
         = of_int SCALE * profileEdgeWeight (contextGraphQueryProfile name) (CONTEXT_GRAPH_EDGE_TYPES ! code)"
proof -
  define profile where "profile = contextGraphQueryProfile name"
  let ?w = "profileEdgeWeight profile" and ?f = "\<lambda>w. to_int32 (toFixedPoint (Some w) SCALE)"
  obtain ws' m' where r: "edgeTables profile = (ws', m')" by (cases "edgeTables profile")
  have "fold (\<lambda>(type, code) (ws, m :: nat). if ?w type \<le> 0 then (ws, m) else (ws[code := ?f (?w type)], m OR push_bit code 1))
      (zip CONTEXT_GRAPH_EDGE_TYPES [0..<0 + length CONTEXT_GRAPH_EDGE_TYPES])
      (replicate (length CONTEXT_GRAPH_EDGE_TYPES) 0, 0) = (ws', m')"
    using r by (simp add: edgeTables_def profileEdgeWeight_def Let_def cong: if_cong)
  from edge_tables_fold [OF _ this] assms(1) have
    table: "ws' ! code = (if ?w (CONTEXT_GRAPH_EDGE_TYPES ! code) > 0 then ?f (?w (CONTEXT_GRAPH_EDGE_TYPES ! code)) else 0)"
      "bit m' code \<longleftrightarrow> ?w (CONTEXT_GRAPH_EDGE_TYPES ! code) > 0"
    by simp_all
  obtain n where n: "profile = CONTEXT_GRAPH_QUERY_PROFILES n"
    unfolding profile_def contextGraphQueryProfile_def by blast
  have small: "to_int32 k = k" if "0 \<le> k" "k < 10000" for k
    using that by (simp add: to_int32_id)
  have floor_numeral: "\<lfloor>numeral a / numeral b :: rat\<rfloor> = numeral a div numeral b" for a b
    using floor_divide_of_int_eq [of "numeral a" "numeral b", where 'a = rat] by simp
  have "of_int (if ?w e > 0 then ?f (?w e) else 0) = of_int SCALE * ?w e" for e
    unfolding n profileEdgeWeight_def
    by (cases n; cases e;
        simp add: make_profile_def weights_def IMPLEMENTATION_def REVIEW_def PLANNING_def ANSWER_def
          toFixedPoint_def math_round_def CONTEXT_INDEX_FIXED_POINT_SCALE_def small floor_numeral)
  with table r show ?thesis by (simp add: profileTraversesEdge_def profile_def)
qed

theorem edge_tables_exact_witness:
  "(0 :: nat) < length CONTEXT_GRAPH_EDGE_TYPES
     \<and> of_int (fst (edgeTables (contextGraphQueryProfile (Some Review))) ! 0)
         = of_int SCALE * profileEdgeWeight (contextGraphQueryProfile (Some Review)) (CONTEXT_GRAPH_EDGE_TYPES ! 0)"
  using edge_tables_exact [of 0 "Some Review"] by (simp add: CONTEXT_GRAPH_EDGE_TYPES_def)

text \<open>
  The safety closure's masks are exact: a code's bit is set in the safety mask exactly for
  the six safety relations, whatever the profile, and every conflict relation is one of them.
\<close>

theorem safety_masks_exact:
  assumes "code < length CONTEXT_GRAPH_EDGE_TYPES"
  shows "(bit (edgeTypeMaskOf KERNEL_SAFETY_EDGE_TYPES) code
       \<longleftrightarrow> CONTEXT_GRAPH_EDGE_TYPES ! code \<in> set KERNEL_SAFETY_EDGE_TYPES)
     \<and> (bit (edgeTypeMaskOf KERNEL_CONFLICT_EDGE_TYPES) code \<longrightarrow>
          bit (edgeTypeMaskOf KERNEL_SAFETY_EDGE_TYPES) code)"
  using assms by (auto simp: mask_of_types KERNEL_SAFETY_EDGE_TYPES_def KERNEL_CONFLICT_EDGE_TYPES_def)

theorem safety_masks_exact_witness:
  "(13 :: nat) < length CONTEXT_GRAPH_EDGE_TYPES
     \<and> (bit (edgeTypeMaskOf KERNEL_SAFETY_EDGE_TYPES) 13
       \<longleftrightarrow> CONTEXT_GRAPH_EDGE_TYPES ! 13 \<in> set KERNEL_SAFETY_EDGE_TYPES)"
  using safety_masks_exact [of 13] by (simp add: code_tables)

lemma field_mask_values: "fieldMaskFor shape \<in> {58, 510}"
  by (cases shape) (simp_all add: fieldMaskFor_def lexiconFieldMask_def lexicon_fields Let_def)

lemma canonical_id_masked: "\<not> bit (fieldMaskFor shape) FIELD_CANONICAL_ID"
  using field_mask_values [of shape] by (auto simp: FIELD_CANONICAL_ID_def bit_0)

lemma profile_mask_values: "profileMaskFor p = 2 ^ nat (index_of p CONTEXT_GRAPH_QUERY_PROFILE_NAMES)"
  by (cases p) (simp_all add: profileMaskFor_def CONTEXT_GRAPH_QUERY_PROFILE_NAMES_def Let_def)

lemma anchor_tokens_ok:
  "anchor_tokens normalized = (as, k) \<Longrightarrow> distinct as \<and> [] \<notin> set as"
proof -
  let ?P = "\<lambda>(as, k :: nat). distinct as \<and> ([] :: js_string) \<notin> set as"
  have "?P (anchor_tokens normalized)"
    unfolding anchor_tokens_def
    by (rule fold_invariant [where Q = "\<lambda>_. True"]) (auto simp: Let_def split: if_splits)
  then show "anchor_tokens normalized = (as, k) \<Longrightarrow> distinct as \<and> [] \<notin> set as" by simp
qed

lemma usable_focus_paths_ok:
  "usableFocusPaths request notes = (out, notes') \<Longrightarrow>
     distinct out \<and> (\<forall>p \<in> set out. isWorkspaceRelativePosixPath p)"
proof -
  let ?P = "\<lambda>(out, notes :: kernel_notes). distinct out \<and> (\<forall>p \<in> set out. isWorkspaceRelativePosixPath p)"
  have "?P (usableFocusPaths request notes)"
    unfolding usableFocusPaths_def
    by (rule fold_invariant [where Q = "\<lambda>_. True"]) (auto simp: Let_def paths_test_writer split: if_splits)
  then show "usableFocusPaths request notes = (out, notes') \<Longrightarrow>
     distinct out \<and> (\<forall>p \<in> set out. isWorkspaceRelativePosixPath p)" by simp
qed

text \<open>What a resolved plan satisfies, whatever the request and the configuration.\<close>

definition plan_ok :: "KernelPlanContext \<Rightarrow> bool" where
  "plan_ok x \<longleftrightarrow>
     0 \<le> kx_maxSelected x \<and> kx_maxSelected x \<le> 64 \<and> 0 \<le> q_tokenBudget (kx_plan x)
     \<and> q_maxDepth (kx_plan x) = (if kx_highRisk x then 3 else 2)
     \<and> (\<exists>i < 4. q_profileMask (kx_plan x) = 2 ^ i)
     \<and> \<not> bit (q_fieldMask (kx_plan x)) FIELD_CANONICAL_ID
     \<and> length (q_termIds (kx_plan x)) \<le> 64 \<and> (\<forall>i \<in> set (q_termIds (kx_plan x)). 0 \<le> i)
     \<and> distinct (kx_anchorTerms x) \<and> [] \<notin> set (kx_anchorTerms x)
     \<and> distinct (kx_focusPaths x) \<and> (\<forall>p \<in> set (kx_focusPaths x). isWorkspaceRelativePosixPath p)"

lemma resolve_parts:
  assumes "resolveQueryPlan nfkc lower reader request options = Inr (x, notes)"
  obtains normalization ids anchors shaped at_start focus notes' where
    "normalization = normalizeLexiconQuery nfkc lower (kr_query request) CONTEXT_GRAPH_LEXICON_CONFIG"
    "map_res (rd_termId reader) (nq_terms normalization) = Inr ids"
    "anchor_tokens (nq_normalized normalization) = (anchors, shaped)"
    "usableFocusPaths request notes' = (focus, notes)"
    "x = plan_context request options normalization anchors shaped ids at_start focus"
proof -
  let ?n = "normalizeLexiconQuery nfkc lower (kr_query request) CONTEXT_GRAPH_LEXICON_CONFIG"
  obtain anchors shaped where a: "anchor_tokens (nq_normalized ?n) = (anchors, shaped)" by fastforce
  from assms [unfolded resolveQueryPlan_def Let_def a prod.case rbind_Inr_iff read_clock_def]
  obtain ids t n' where ids: "map_res (rd_termId reader) (nq_terms ?n) = Inr ids"
    and run: "(case usableFocusPaths request n' of (focus, notes) \<Rightarrow>
      Inr (plan_context request options ?n anchors shaped ids t focus, notes)) = (Inr (x, notes) :: _ res)" by blast
  from run show thesis using that [OF refl ids a] by (auto split: prod.splits)
qed

lemma plan_context_simps:
  assumes x: "x = plan_context request options normalization anchors shaped ids t focus"
  shows "q_termIds (kx_plan x) = filter (\<lambda>i. i \<ge> 0) ids"
    "kx_anchorTerms x = (if nq_normalized normalization \<noteq> [] \<and> nq_normalized normalization \<notin> set anchors
       then nq_normalized normalization # anchors else anchors)"
    "kx_highRisk x = kr_highRisk request" "kx_focusPaths x = focus"
    "0 \<le> kx_maxSelected x \<and> kx_maxSelected x \<le> 64" "0 \<le> q_tokenBudget (kx_plan x)"
    "q_maxDepth (kx_plan x) = (if kr_highRisk request then 3 else 2)"
    "q_profileMask (kx_plan x) = profileMaskFor (q_profile (kx_plan x))"
    "q_fieldMask (kx_plan x) = fieldMaskFor (q_shape (kx_plan x))"
proof -
  have depth: "pf_maxDepth (contextGraphQueryProfile p) = 2" "pf_maxDepthHighRisk (contextGraphQueryProfile p) = 3" for p
    unfolding contextGraphQueryProfile_def
    by (cases "case p of None \<Rightarrow> DEFAULT_CONTEXT_GRAPH_QUERY_PROFILE | Some n \<Rightarrow> n"; simp add: make_profile_def)+
  show "q_termIds (kx_plan x) = filter (\<lambda>i. i \<ge> 0) ids"
    "kx_anchorTerms x = (if nq_normalized normalization \<noteq> [] \<and> nq_normalized normalization \<notin> set anchors
       then nq_normalized normalization # anchors else anchors)"
    "kx_highRisk x = kr_highRisk request" "kx_focusPaths x = focus"
    "0 \<le> kx_maxSelected x \<and> kx_maxSelected x \<le> 64" "0 \<le> q_tokenBudget (kx_plan x)"
    "q_maxDepth (kx_plan x) = (if kr_highRisk request then 3 else 2)"
    "q_profileMask (kx_plan x) = profileMaskFor (q_profile (kx_plan x))"
    "q_fieldMask (kx_plan x) = fieldMaskFor (q_shape (kx_plan x))"
    by (simp_all add: x plan_context_def query_plan_def Let_def depth CONTEXT_GRAPH_TRAVERSAL_CAPS_def)
qed

lemma resolved_plan:
  assumes "resolveQueryPlan nfkc lower reader request options = Inr (x, notes)"
  shows "plan_ok x"
  using assms
proof (rule resolve_parts)
  fix normalization ids anchors shaped t focus notes'
  assume n: "normalization = normalizeLexiconQuery nfkc lower (kr_query request) CONTEXT_GRAPH_LEXICON_CONFIG"
    and ids: "map_res (rd_termId reader) (nq_terms normalization) = Inr ids"
    and anchors: "anchor_tokens (nq_normalized normalization) = (anchors, shaped)"
    and focus: "usableFocusPaths request notes' = (focus, notes)"
    and x: "x = plan_context request options normalization anchors shaped ids t focus"
  have "length ids \<le> 64"
    using map_res_length [OF ids] query_terms_limits [of nfkc lower "kr_query request" CONTEXT_GRAPH_LEXICON_CONFIG] n
    by (simp add: CONTEXT_GRAPH_LEXICON_CONFIG_def Let_def)
  then have "length (filter (\<lambda>i. i \<ge> 0) ids) \<le> 64"
    using length_filter_le [of "\<lambda>i. i \<ge> 0" ids] by linarith
  moreover have "\<exists>i < 4. profileMaskFor p = 2 ^ i" for p
    unfolding profile_mask_values
    by (cases p; rule exI [of _ "nat (index_of p CONTEXT_GRAPH_QUERY_PROFILE_NAMES)"]; simp add: CONTEXT_GRAPH_QUERY_PROFILE_NAMES_def Let_def)
  ultimately show "plan_ok x"
    using anchor_tokens_ok [OF anchors] usable_focus_paths_ok [OF focus] canonical_id_masked
      plan_context_simps(5,6) [OF x]
    unfolding plan_ok_def plan_context_simps(1-4,7-9) [OF x] by auto
qed

text \<open>
  Every resolved plan is well formed, whatever the request: at most 64 nodes are selected,
  the budget is not negative, the depth is the profile's for the risk asked for, the profile
  mask is one of the four profile bits, the text lanes never read the canonical-id field, at
  most 64 known terms are searched, and the anchor terms and focus paths are distinct and usable.
\<close>

theorem resolved_plan_ok:
  assumes "resolveQueryPlan nfkc lower reader request options = Inr (x, notes)"
  shows "plan_ok x"
  by (rule resolved_plan [OF assms])

text \<open>
  Only anchor-shaped tokens decide between free text and the rest: a query without one is
  natural however short it is, so \<open>naturalMinTerms\<close> has no effect.
\<close>

theorem natural_threshold_inert:
  "classifyShape shaped terms (kc\<lparr>naturalMinTerms := n\<rparr>) = classifyShape shaped terms kc
   \<and> classifyShape 0 terms kc = Natural"
  by (simp add: classifyShape_def)

end
