(* ===== verification/Kernel_Lanes.thy ===== *)
theory Kernel_Lanes
  imports Kernel_Plan
begin

text \<open>
  query/kernel-lanes.ts and query/name-anchors.ts: the seeding lanes and the name anchors.
\<close>

unbundle bit_operations_syntax

section \<open>Counters\<close>

record LaneCounters =
  lk_postingsExamined :: nat
  lk_matchedTerms :: nat
  lk_candidates :: nat
  lk_truncated :: bool

definition counters :: LaneCounters where
  "counters = \<lparr>lk_postingsExamined = 0, lk_matchedTerms = 0, lk_candidates = 0, lk_truncated = False\<rparr>"

definition telemetry :: "RetrievalLane \<Rightarrow> LaneCounters \<Rightarrow> LaneTelemetry" where
  "telemetry lane cnt = \<lparr>lt_lane = lane, lt_matchedTerms = lk_matchedTerms cnt,
     lt_postingsExamined = lk_postingsExamined cnt, lt_candidates = lk_candidates cnt,
     lt_truncated = lk_truncated cnt\<rparr>"

definition examined :: "LaneCounters \<Rightarrow> LaneCounters" where
  "examined cnt = cnt\<lparr>lk_postingsExamined := lk_postingsExamined cnt + 1\<rparr>"

definition truncated_lane :: "LaneCounters \<Rightarrow> LaneCounters" where
  "truncated_lane cnt = cnt\<lparr>lk_truncated := True\<rparr>"

definition count_candidate :: "bool \<Rightarrow> LaneCounters \<Rightarrow> LaneCounters" where
  "count_candidate new cnt = (if new then cnt\<lparr>lk_candidates := lk_candidates cnt + 1\<rparr> else cnt)"

definition count_matched :: "bool \<Rightarrow> LaneCounters \<Rightarrow> LaneCounters" where
  "count_matched hit cnt = (if hit then cnt\<lparr>lk_matchedTerms := lk_matchedTerms cnt + 1\<rparr> else cnt)"

section \<open>Admitting a run of postings\<close>

text \<open>
  The loop over the positions \<open>is\<close> of a run. \<open>on_admit\<close> is the callback \<open>admit(slot, rank, index)\<close>,
  whose index none of the callers uses.
\<close>

fun admit_loop ::
  "ContextIndexReader \<Rightarrow> PostingSlice \<Rightarrow> (nat \<Rightarrow> int \<Rightarrow> CandidateTable \<Rightarrow> CandidateTable) \<Rightarrow> int \<Rightarrow> nat list
     \<Rightarrow> int \<Rightarrow> LaneCounters \<Rightarrow> CandidateTable \<Rightarrow> (int \<times> LaneCounters \<times> CandidateTable) res" where
  "admit_loop reader postings on_admit limit [] rank cnt table = Inr (rank, cnt, table)"
| "admit_loop reader postings on_admit limit (index # is) rank cnt table =
    (if rank \<ge> limit then Inr (rank, truncated_lane cnt, table) else
     let cnt = examined cnt in
     rbind (posting_node postings (int index)) (\<lambda>node.
     rbind (admit reader (int node) table) (\<lambda>(slot, after).
     case slot of
       None \<Rightarrow> Inr (rank, truncated_lane cnt, after)
     | Some slot \<Rightarrow>
         admit_loop reader postings on_admit limit is (rank + 1)
           (count_candidate (ct_size after > ct_size table) cnt) (on_admit slot rank after))))"

definition admitPostings ::
  "ContextIndexReader \<Rightarrow> PostingSlice \<Rightarrow> (nat \<Rightarrow> int \<Rightarrow> CandidateTable \<Rightarrow> CandidateTable) \<Rightarrow> int
     \<Rightarrow> int \<Rightarrow> LaneCounters \<Rightarrow> CandidateTable \<Rightarrow> (int \<times> LaneCounters \<times> CandidateTable) res" where
  "admitPostings reader postings on_admit limit fromRank cnt table =
     admit_loop reader postings on_admit limit [0..<posting_length postings] fromRank cnt table"

section \<open>The anchor lane\<close>

text \<open>A configured priority as the integer an \<open>Int32Array\<close> keeps of it.\<close>

definition whole :: "rat \<Rightarrow> int" where
  "whole x = (if x \<ge> 0 then \<lfloor>x\<rfloor> else \<lceil>x\<rceil>)"

definition self_link :: "nat \<Rightarrow> CandidateTable \<Rightarrow> CandidateTable" where
  "self_link slot table = link slot (cr_node (row_of table slot)) (- 1) (- 1) 0 table"

definition claimExact ::
  "KernelPlanContext \<Rightarrow> int \<Rightarrow> ContextGraphSeedConfidence \<Rightarrow> bool \<Rightarrow> nat \<Rightarrow> int \<Rightarrow> CandidateTable \<Rightarrow> CandidateTable" where
  "claimExact context termId confidence focus slot position table =
    (let table = claim slot Anchor confidence table;
         table = contribute slot Anchor position (whole (exactAnchorPriority (kx_kernelConfig context))) termId table;
         table = mark slot (FLAG_SEED OR FLAG_EXACT_SEED OR (if focus then FLAG_FOCUS else 0)) table
     in self_link slot table)"

definition anchor_term ::
  "ContextIndexReader \<Rightarrow> KernelPlanContext \<Rightarrow> js_string \<Rightarrow> int \<times> LaneCounters \<times> CandidateTable
     \<Rightarrow> (int \<times> LaneCounters \<times> CandidateTable) res" where
  "anchor_term reader context term state =
    (case state of (rank, cnt, table) \<Rightarrow>
     let limit = laneTopN (kx_kernelConfig context) in
     rbind (rd_termId reader term) (\<lambda>termId.
     rbind (rd_exact reader term (Some (q_fieldMask (kx_plan context)))) (\<lambda>ids.
     rbind (admitPostings reader ids (claimExact context termId Exact_reference False) limit rank
              (count_matched (posting_length ids > 0) cnt) table) (\<lambda>(rank, cnt, table).
     rbind (rd_basename reader term) (\<lambda>paths.
     admitPostings reader paths (claimExact context termId File_path False) limit rank
       (count_matched (posting_length paths > 0) cnt) table)))))"

definition anchor_focus ::
  "ContextIndexReader \<Rightarrow> KernelPlanContext \<Rightarrow> js_string \<Rightarrow> (int \<times> LaneCounters \<times> CandidateTable) \<times> kernel_notes
     \<Rightarrow> ((int \<times> LaneCounters \<times> CandidateTable) \<times> kernel_notes) res" where
  "anchor_focus reader context focus state =
    (case state of ((rank, cnt, table), notes) \<Rightarrow>
     rbind (rd_basename reader focus) (\<lambda>paths.
     if posting_length paths = 0
     then Inr ((rank, cnt, table),
       omit Focus_filtered 1 (warn (js ''a focus path matched no node in this index'') notes))
     else rbind (admitPostings reader paths (claimExact context (- 1) File_path True)
              (laneTopN (kx_kernelConfig context)) rank cnt table) (\<lambda>state. Inr (state, notes))))"

definition seed_verified :: "KernelProvidedSeed \<Rightarrow> bool" where
  "seed_verified seed =
    (case ps_verified seed of Some v \<Rightarrow> v | None \<Rightarrow> isExactKernelConfidence (ps_confidence seed))"

definition claim_provided ::
  "KernelPlanContext \<Rightarrow> KernelProvidedSeed \<Rightarrow> nat \<Rightarrow> int \<Rightarrow> CandidateTable \<Rightarrow> CandidateTable" where
  "claim_provided context seed slot position table =
    (let verified = seed_verified seed;
         lane = (if verified then Anchor else Lexical);
         table = claim slot lane (if verified then ps_confidence seed else Text_candidate) table;
         table = contribute slot lane position
           (if verified then whole (exactAnchorPriority (kx_kernelConfig context)) else 0) (- 1) table;
         table = mark slot (FLAG_SEED OR FLAG_PROVIDED OR (if verified then FLAG_EXACT_SEED else 0)) table
     in self_link slot table)"

definition provided_seed ::
  "ContextIndexReader \<Rightarrow> KernelPlanContext \<Rightarrow> KernelProvidedSeed \<Rightarrow> (int \<times> LaneCounters \<times> CandidateTable) \<times> nat
     \<Rightarrow> ((int \<times> LaneCounters \<times> CandidateTable) \<times> nat) res" where
  "provided_seed reader context seed state =
    (case state of ((rank, cnt, table), unknown) \<Rightarrow>
     if ps_nodeId seed = [] then Inr state else
     rbind (rd_exact reader (ps_nodeId seed) None) (\<lambda>postings.
     if posting_length postings = 0 then Inr ((rank, cnt, table), unknown + 1)
     else rbind (admitPostings reader postings (claim_provided context seed)
              (laneTopN (kx_kernelConfig context)) rank cnt table) (\<lambda>state. Inr (state, unknown))))"

definition admitProvidedSeeds ::
  "ContextIndexReader \<Rightarrow> KernelPlanContext \<Rightarrow> KernelRequest \<Rightarrow> (int \<times> LaneCounters \<times> CandidateTable) \<times> kernel_notes
     \<Rightarrow> ((int \<times> LaneCounters \<times> CandidateTable) \<times> kernel_notes) res" where
  "admitProvidedSeeds reader context request state =
    (case state of (run, notes) \<Rightarrow>
     rbind (fold_res (provided_seed reader context)
              (case kr_seeds request of None \<Rightarrow> [] | Some seeds \<Rightarrow> seeds) (run, 0)) (\<lambda>(run, unknown).
     Inr (run, if unknown > 0
               then omit Unknown_seed (int unknown)
                 (warn (decimal unknown @ js '' caller-supplied seed(s) are not present in this index'') notes)
               else notes)))"

definition runAnchorLane ::
  "ContextIndexReader \<Rightarrow> KernelPlanContext \<Rightarrow> KernelRequest \<Rightarrow> CandidateTable \<Rightarrow> kernel_notes
     \<Rightarrow> (LaneTelemetry \<times> CandidateTable \<times> kernel_notes) res" where
  "runAnchorLane reader context request table notes =
     rbind (fold_res (anchor_term reader context) (kx_anchorTerms context) (0, counters, table)) (\<lambda>run.
     rbind (fold_res (anchor_focus reader context) (kx_focusPaths context) (run, notes)) (\<lambda>state.
     rbind (admitProvidedSeeds reader context request state) (\<lambda>((rank, cnt, table), notes).
     Inr (telemetry Anchor cnt, table, if lk_truncated cnt then omit Posting_cap 1 notes else notes))))"

section \<open>The text lanes\<close>

fun scored_matchedTerms :: "ScoredPostingSlice \<Rightarrow> nat" where
  "scored_matchedTerms (ArrayScoredPostingSlice nodes scores matched truncated) = matched"
| "scored_matchedTerms EMPTY_SCORED_POSTINGS = 0"

fun scored_truncated :: "ScoredPostingSlice \<Rightarrow> bool" where
  "scored_truncated (ArrayScoredPostingSlice nodes scores matched truncated) = truncated"
| "scored_truncated EMPTY_SCORED_POSTINGS = False"

fun posting_lane_loop ::
  "ContextIndexReader \<Rightarrow> RetrievalLane \<Rightarrow> ScoredPostingSlice \<Rightarrow> nat list \<Rightarrow> LaneCounters \<Rightarrow> CandidateTable
     \<Rightarrow> (LaneCounters \<times> CandidateTable) res" where
  "posting_lane_loop reader lane merged [] cnt table = Inr (cnt, table)"
| "posting_lane_loop reader lane merged (index # is) cnt table =
    (let cnt = examined cnt in
     rbind (scored_node merged (int index)) (\<lambda>node.
     rbind (admit reader (int node) table) (\<lambda>(slot, after).
     case slot of
       None \<Rightarrow> Inr (truncated_lane cnt, after)
     | Some slot \<Rightarrow>
        (let new = ct_size after > ct_size table;
             after = (if new then link slot (int node) (- 1) (- 1) 0 (mark slot FLAG_SEED after) else after);
             after = claim slot lane Text_candidate after in
         rbind (scored_score merged (int index)) (\<lambda>score.
         posting_lane_loop reader lane merged is (count_candidate new cnt)
           (contribute slot lane (int index) score (- 1) after))))))"

definition runPostingLane ::
  "ContextIndexReader \<Rightarrow> KernelPlanContext \<Rightarrow> RetrievalLane \<Rightarrow> CandidateTable \<Rightarrow> kernel_notes
     \<Rightarrow> (LaneTelemetry \<times> CandidateTable \<times> kernel_notes) res" where
  "runPostingLane reader context lane table notes =
    (let cnt = counters; plan = kx_plan context;
         bounds = \<lparr>postingCapPerTerm = q_postingCapPerTerm plan, candidateBudget = q_candidateBudget plan\<rparr> in
     if q_termIds plan = [] then Inr (telemetry lane cnt, table, notes) else
     rbind (if lane = Lexical then rd_lexical reader (q_termIds plan) bounds
            else rd_coarse reader (q_termIds plan) bounds) (\<lambda>merged.
     let cnt = cnt\<lparr>lk_matchedTerms := scored_matchedTerms merged, lk_truncated := scored_truncated merged\<rparr>;
         limit = min (int (scored_length merged)) (laneTopN (kx_kernelConfig context)) in
     rbind (posting_lane_loop reader lane merged [0..<nat limit] cnt table) (\<lambda>(cnt, table).
     let cnt = (if int (scored_length merged) > limit then truncated_lane cnt else cnt) in
     Inr (telemetry lane cnt, table, if lk_truncated cnt then omit Posting_cap 1 notes else notes))))"

definition runLexicalLane where
  "runLexicalLane reader context table notes = runPostingLane reader context Lexical table notes"

definition runCoarseLane where
  "runCoarseLane reader context table notes = runPostingLane reader context Coarse table notes"

definition runSeedLanes ::
  "ContextIndexReader \<Rightarrow> KernelPlanContext \<Rightarrow> KernelRequest \<Rightarrow> CandidateTable \<Rightarrow> kernel_notes
     \<Rightarrow> (LaneTelemetry list \<times> CandidateTable \<times> kernel_notes) res" where
  "runSeedLanes reader context request table notes =
     rbind (runAnchorLane reader context request table notes) (\<lambda>(anchor, table, notes).
     rbind (runLexicalLane reader context table notes) (\<lambda>(lexical, table, notes).
     rbind (runCoarseLane reader context table notes) (\<lambda>(coarse, table, notes).
     let notes = (if ct_overflow table > 0 then omit Candidate_budget (int (ct_overflow table)) notes else notes);
         notes = warn_if (ct_size table = 0)
           ''no node in this index matched the query; nothing was selected and no text fallback was attempted'' notes
     in Inr ([anchor, lexical, coarse], table, notes))))"

section \<open>Name anchors\<close>

definition nameAnchorTermOf :: "KernelPlanContext \<Rightarrow> js_string option" where
  "nameAnchorTermOf context =
    (case kx_anchorTerms context of [term] \<Rightarrow> (if term = [] then None else Some term) | _ \<Rightarrow> None)"

fun mark_names ::
  "ContextIndexReader \<Rightarrow> js_string \<Rightarrow> nat list \<Rightarrow> nat \<Rightarrow> CandidateTable \<Rightarrow> (nat \<times> CandidateTable) res" where
  "mark_names reader name [] matched table = Inr (matched, table)"
| "mark_names reader name (slot # slots) matched table =
     rbind (rd_nodeHasName reader (cr_node (row_of table slot)) name) (\<lambda>hit.
     if \<not> hit then mark_names reader name slots matched table
     else mark_names reader name slots (matched + 1) (mark slot FLAG_NAME_MATCH table))"

definition markNameAnchors ::
  "ContextIndexReader \<Rightarrow> KernelPlanContext \<Rightarrow> CandidateTable \<Rightarrow> (nat \<times> CandidateTable) res" where
  "markNameAnchors reader context table =
    (case nameAnchorTermOf context of
       None \<Rightarrow> Inr (0, table)
     | Some name \<Rightarrow> mark_names reader name [0..<ct_size table] 0 table)"

end
