(* ===== verification/Kernel_Safety.thy ===== *)
theory Kernel_Safety
  imports Kernel_Lanes
begin

text \<open>
  query/kernel-safety.ts: the breadth-first closure over the safety relations. The two typed
  arrays with \<open>head\<close> and \<open>tail\<close> are the list of pairs between them, \<open>sf_queue\<close>, and the number of
  pairs ever enqueued, \<open>sf_tail\<close>. A \<open>break\<close> ends the recursion over the edges of a cursor.
\<close>

unbundle bit_operations_syntax

section \<open>State\<close>

record SafetyState =
  sf_queue :: "(int \<times> int) list"
  sf_tail :: nat
  sf_seen :: "int set"
  sf_visitedEdges :: nat
  sf_capHit :: bool
  sf_timedOut :: bool
  sf_sinceClockCheck :: nat
  sf_table :: CandidateTable
  sf_notes :: kernel_notes

record SafetyClosureOutcome =
  so_visitedNodes :: nat
  so_visitedEdges :: nat
  so_capHit :: bool
  so_timedOut :: bool

definition safety_start :: "CandidateTable \<Rightarrow> kernel_notes \<Rightarrow> SafetyState" where
  "safety_start table notes =
     \<lparr>sf_queue = [], sf_tail = 0, sf_seen = {}, sf_visitedEdges = 0, sf_capHit = False,
      sf_timedOut = False, sf_sinceClockCheck = 0, sf_table = table, sf_notes = notes\<rparr>"

definition enqueue :: "nat \<Rightarrow> int \<Rightarrow> int \<Rightarrow> SafetyState \<Rightarrow> bool \<times> SafetyState" where
  "enqueue maxNodes node depth s =
    (if node \<in> sf_seen s then (True, s)
     else if sf_tail s \<ge> maxNodes then (False, s\<lparr>sf_capHit := True\<rparr>)
     else (True, s\<lparr>sf_queue := sf_queue s @ [(to_int32 node, to_int32 depth)],
                   sf_tail := sf_tail s + 1, sf_seen := insert node (sf_seen s)\<rparr>))"

fun enqueue_seeds :: "nat \<Rightarrow> nat list \<Rightarrow> SafetyState \<Rightarrow> SafetyState" where
  "enqueue_seeds maxNodes [] s = s"
| "enqueue_seeds maxNodes (slot # slots) s =
    (if \<not> has (sf_table s) slot FLAG_SEED then enqueue_seeds maxNodes slots s
     else case enqueue maxNodes (cr_node (row_of (sf_table s) slot)) 0 s of
       (True, s) \<Rightarrow> enqueue_seeds maxNodes slots s
     | (False, s) \<Rightarrow> s)"

section \<open>The deadline\<close>

definition deadline_passed :: "KernelPlanContext \<Rightarrow> kernel_notes \<Rightarrow> bool \<times> kernel_notes" where
  "deadline_passed context notes =
    (case kx_deadline context of
       None \<Rightarrow> (False, notes)
     | Some deadline \<Rightarrow> (case read_clock (kx_clock context) notes of (now, notes) \<Rightarrow> (now > deadline, notes)))"

text \<open>Counting an edge towards the next reading of the clock, which is every \<open>timeoutCheckInterval\<close>.\<close>

definition check_clock :: "KernelPlanContext \<Rightarrow> nat \<Rightarrow> kernel_notes \<Rightarrow> bool \<times> nat \<times> kernel_notes" where
  "check_clock context since notes =
    (if since + 1 \<ge> timeoutCheckInterval (kx_config context)
     then (case deadline_passed context notes of (late, notes) \<Rightarrow> (late, 0, notes))
     else (False, since + 1, notes))"

section \<open>One edge\<close>

text \<open>\<open>(mask >>> type) & 1\<close>; the shift count is taken modulo 32.\<close>

definition mask_has :: "nat \<Rightarrow> nat \<Rightarrow> bool" where
  "mask_has mask_bits type \<longleftrightarrow> drop_bit (type mod 32) mask_bits AND 1 \<noteq> 0"

definition node_has :: "CandidateTable \<Rightarrow> nat \<Rightarrow> nat \<Rightarrow> bool" where
  "node_has table slot flag \<longleftrightarrow> cr_nodeFlags (row_of table slot) AND int flag \<noteq> 0"

definition mark_if :: "bool \<Rightarrow> nat \<Rightarrow> int \<Rightarrow> CandidateTable \<Rightarrow> CandidateTable" where
  "mark_if b slot bits table = (if b then mark slot bits table else table)"

text \<open>What the closure records of a node it reached over \<open>edge\<close> from \<open>node\<close> at \<open>depth\<close>.\<close>

definition record_safety ::
  "KernelPlanContext \<Rightarrow> int \<Rightarrow> int \<Rightarrow> edge_step \<Rightarrow> nat \<Rightarrow> CandidateTable \<Rightarrow> CandidateTable" where
  "record_safety context node depth edge slot table =
    (let table = mark slot FLAG_SAFETY table;
         table = mark_if (mask_has (kx_conflictEdgeMask context) (es_type edge)) slot FLAG_CONFLICT table;
         table = mark_if (node_has table slot PROTECTED) slot FLAG_PROTECTED table;
         table = mark_if (node_has table slot IS_TEST_OR_GATE) slot FLAG_TEST_OR_GATE table
     in if cr_parentEdge (row_of table slot) < 0 \<and> \<not> has table slot FLAG_SEED
        then link slot node node (int (es_edge edge)) (depth + 1) table else table)"

fun safety_edges ::
  "ContextIndexReader \<Rightarrow> KernelPlanContext \<Rightarrow> nat \<Rightarrow> int \<Rightarrow> int \<Rightarrow> edge_step list \<Rightarrow> SafetyState \<Rightarrow> SafetyState res" where
  "safety_edges reader context maxNodes node depth [] s = Inr s"
| "safety_edges reader context maxNodes node depth (edge # edges) s =
    (let (late, since, notes) = check_clock context (sf_sinceClockCheck s) (sf_notes s);
         s = s\<lparr>sf_visitedEdges := sf_visitedEdges s + 1, sf_sinceClockCheck := since, sf_notes := notes\<rparr> in
     if late then Inr (s\<lparr>sf_timedOut := True\<rparr>)
     else if sf_visitedEdges s \<ge> safetyMaxVisitedEdges (kx_kernelConfig context)
     then Inr (s\<lparr>sf_capHit := True\<rparr>)
     else if \<not> mask_has (kx_safetyEdgeMask context) (es_type edge)
     then safety_edges reader context maxNodes node depth edges s
     else rbind (admit reader (int (es_target edge)) (sf_table s)) (\<lambda>(slot, table).
     case slot of
       None \<Rightarrow> safety_edges reader context maxNodes node depth edges
                 (s\<lparr>sf_capHit := True, sf_table := table\<rparr>)
     | Some slot \<Rightarrow>
        (case enqueue maxNodes (int (es_target edge)) (depth + 1)
                (s\<lparr>sf_table := record_safety context node depth edge slot table\<rparr>) of
           (True, s) \<Rightarrow> safety_edges reader context maxNodes node depth edges s
         | (False, s) \<Rightarrow> Inr s)))"

section \<open>The closure\<close>

text \<open>Both directions of a node; the second is skipped when the deadline passed in the first.\<close>

definition safety_node ::
  "ContextIndexReader \<Rightarrow> KernelPlanContext \<Rightarrow> nat \<Rightarrow> int \<Rightarrow> int \<Rightarrow> SafetyState \<Rightarrow> SafetyState res" where
  "safety_node reader context maxNodes node depth s =
    (let pmask = q_profileMask (kx_plan context) in
     rbind (rd_outgoing reader node pmask) (\<lambda>out.
     rbind (safety_edges reader context maxNodes node depth out s) (\<lambda>s.
     if sf_timedOut s then Inr s else
     rbind (rd_incoming reader node pmask) (\<lambda>inc.
     safety_edges reader context maxNodes node depth inc s))))"

text \<open>
  What each thing an edge can do to the state preserves, the walk over the edges of a node
  preserves: counting it, stopping, a refused admission, and an admission with its enqueueing.
\<close>

locale safety_step =
  fixes reader :: ContextIndexReader and cx :: KernelPlanContext and maxNodes :: nat
    and fits :: "int \<Rightarrow> edge_step \<Rightarrow> bool" and inside :: "int \<Rightarrow> SafetyState \<Rightarrow> bool"
  assumes outgoing_fits: "rd_outgoing reader n m = Inr es \<Longrightarrow> list_all (fits n) es"
    and incoming_fits: "rd_incoming reader n m = Inr es \<Longrightarrow> list_all (fits n) es"
    and counted: "inside n s \<Longrightarrow>
      inside n (s\<lparr>sf_visitedEdges := ve, sf_sinceClockCheck := since, sf_notes := ns\<rparr>)"
    and stopped: "inside n s \<Longrightarrow> inside n (s\<lparr>sf_timedOut := True\<rparr>)" "inside n s \<Longrightarrow> inside n (s\<lparr>sf_capHit := True\<rparr>)"
    and refused: "inside n s \<Longrightarrow> fits n e \<Longrightarrow> admit reader (int (es_target e)) (sf_table s) = Inr (None, t) \<Longrightarrow>
      inside n (s\<lparr>sf_capHit := True, sf_table := t\<rparr>)"
    and reached: "inside n s \<Longrightarrow> fits n e \<Longrightarrow> admit reader (int (es_target e)) (sf_table s) = Inr (Some slot, t) \<Longrightarrow>
      enqueue maxNodes (int (es_target e)) (depth + 1)
        (s\<lparr>sf_table := record_safety cx n depth e slot t\<rparr>) = (b, s') \<Longrightarrow> inside n s'"
begin

lemma edges: "inside n s \<Longrightarrow> list_all (fits n) es \<Longrightarrow> safety_edges reader cx maxNodes n depth es s = Inr s' \<Longrightarrow> inside n s'"
proof (induction es arbitrary: s)
  case (Cons e es)
  obtain late since ns where clock: "check_clock cx (sf_sinceClockCheck s) (sf_notes s) = (late, since, ns)"
    by (metis prod_cases3)
  define s1 where "s1 = s\<lparr>sf_visitedEdges := sf_visitedEdges s + 1, sf_sinceClockCheck := since, sf_notes := ns\<rparr>"
  have fit: "fits n e" "list_all (fits n) es" using Cons.prems(2) by simp_all
  have inside1: "inside n s1" unfolding s1_def by (rule counted) (rule Cons.prems(1))
  note run = Cons.prems(3) [unfolded safety_edges.simps clock Let_def prod.case, folded s1_def]
  show ?case
  proof (cases "late \<or> sf_visitedEdges s1 \<ge> safetyMaxVisitedEdges (kx_kernelConfig cx)
      \<or> \<not> mask_has (kx_safetyEdgeMask cx) (es_type e)")
    case True
    with run inside1 stopped Cons.IH fit show ?thesis by (auto split: if_splits)
  next
    case False
    with run obtain r t where a: "admit reader (int (es_target e)) (sf_table s1) = Inr (r, t)"
      by (auto simp: rbind_Inr_iff)
    show ?thesis
    proof (cases r)
      case None
      with run False a Cons.IH [OF refused [OF inside1 fit(1)]] fit show ?thesis by simp
    next
      case (Some slot)
      obtain b s2 where q: "enqueue maxNodes (int (es_target e)) (depth + 1)
          (s1\<lparr>sf_table := record_safety cx n depth e slot t\<rparr>) = (b, s2)" by (metis surj_pair)
      have "inside n s2" using reached [OF inside1 fit(1)] a Some q by simp
      with run False a Some q Cons.IH fit show ?thesis by (cases b) simp_all
    qed
  qed
qed simp

lemma node: "inside n s \<Longrightarrow> safety_node reader cx maxNodes n depth s = Inr s' \<Longrightarrow> inside n s'"
  by (auto simp: safety_node_def Let_def rbind_Inr_iff split: if_splits
      dest: edges [OF _ outgoing_fits] edges [OF _ incoming_fits])

end

text \<open>Nothing an edge does makes the queue longer without using up a place below the cap.\<close>

interpretation room: safety_step reader cx maxNodes "\<lambda>_ _. True"
  "\<lambda>_ s. length (sf_queue s) + (maxNodes - sf_tail s) \<le> k" for reader cx maxNodes k
  by unfold_locales (auto simp: enqueue_def list_all_iff split: if_splits)

function safety_loop ::
  "ContextIndexReader \<Rightarrow> KernelPlanContext \<Rightarrow> nat \<Rightarrow> SafetyState \<Rightarrow> SafetyState res" where
  "safety_loop reader context maxNodes s =
    (if sf_timedOut s then Inr s else
     case sf_queue s of
       [] \<Rightarrow> Inr s
     | (node, depth) # queue \<Rightarrow>
        (let s = s\<lparr>sf_queue := queue\<rparr> in
         if depth \<ge> int (safetyMaxDepth (kx_kernelConfig context)) then safety_loop reader context maxNodes s
         else rbind (safety_node reader context maxNodes node depth s) (safety_loop reader context maxNodes)))"
  by pat_completeness auto
termination
  by (relation "measure (\<lambda>(_, _, maxNodes, s). length (sf_queue s) + (maxNodes - sf_tail s))")
    (auto dest!: room.node [OF order.refl])

declare safety_loop.simps [simp del]

text \<open>And with what taking a node from the queue preserves, the whole closure preserves it.\<close>

locale safety_invariant = safety_step +
  fixes good :: "SafetyState \<Rightarrow> bool"
  assumes popped: "good s \<Longrightarrow> sf_queue s = (n, d) # q \<Longrightarrow> inside n (s\<lparr>sf_queue := q\<rparr>)"
    and left: "inside n s \<Longrightarrow> good s"
begin

lemma loop: "good s \<Longrightarrow> safety_loop reader cx maxNodes s = Inr s' \<Longrightarrow> good s'"
proof (induction "length (sf_queue s) + (maxNodes - sf_tail s)" arbitrary: s rule: less_induct)
  case less
  note run = less.prems(2) [unfolded safety_loop.simps [of reader cx maxNodes s]]
  show ?case
  proof (cases "sf_timedOut s \<or> sf_queue s = []")
    case True
    with run less.prems(1) show ?thesis by (auto split: if_splits)
  next
    case False
    then obtain n d q where q: "sf_queue s = (n, d) # q" by (cases "sf_queue s") auto
    let ?s = "s\<lparr>sf_queue := q\<rparr>"
    have inside: "inside n ?s" using popped [OF less.prems(1) q] .
    have smaller: "length (sf_queue ?s) + (maxNodes - sf_tail ?s) < length (sf_queue s) + (maxNodes - sf_tail s)"
      by (simp add: q)
    show ?thesis
    proof (cases "d \<ge> int (safetyMaxDepth (kx_kernelConfig cx))")
      case True
      with run False q less.hyps [OF smaller left [OF inside]] show ?thesis by simp
    next
      case deep: False
      with run False q obtain t where t: "safety_node reader cx maxNodes n d ?s = Inr t"
          "safety_loop reader cx maxNodes t = Inr s'" by (auto simp: rbind_Inr_iff)
      have "length (sf_queue t) + (maxNodes - sf_tail t) \<le> length (sf_queue ?s) + (maxNodes - sf_tail ?s)"
        by (rule room.node [OF order.refl t(1)])
      with less.hyps [OF _ left [OF node [OF inside t(1)]] t(2)] smaller show ?thesis by simp
    qed
  qed
qed

end

definition runSafetyClosure ::
  "ContextIndexReader \<Rightarrow> KernelPlanContext \<Rightarrow> CandidateTable \<Rightarrow> kernel_notes
     \<Rightarrow> (SafetyClosureOutcome \<times> CandidateTable \<times> kernel_notes) res" where
  "runSafetyClosure reader context table notes =
    (let maxNodes = nat (max 0 (safetyMaxVisitedNodes (kx_kernelConfig context)));
         s = enqueue_seeds maxNodes [0..<ct_size table] (safety_start table notes) in
     rbind (safety_loop reader context maxNodes s) (\<lambda>s.
     let notes = sf_notes s;
         notes = (if sf_capHit s
           then omit Safety_cap 1 (warn (js ''the safety closure hit a cap; a protected gate or conflict may be missing'') notes)
           else notes);
         notes = (if sf_timedOut s
           then omit Timeout 1 (warn (js ''the safety closure hit the query deadline before it completed'') notes)
           else notes)
     in Inr (\<lparr>so_visitedNodes = sf_tail s, so_visitedEdges = sf_visitedEdges s,
              so_capHit = sf_capHit s, so_timedOut = sf_timedOut s\<rparr>, sf_table s, notes)))"

end
