(* ===== verification/Array_Heap.thy ===== *)
theory Array_Heap
  imports Prelude
begin

text \<open>
  The binary heap the query kernel keeps in a typed array: the two sift loops, written once
  over the comparison they call, and what they establish for the first \<open>n\<close> entries. The
  frontier (kernel-frontier.ts) and the bounded top-K (kernel-fuse.ts) both run these loops.
\<close>

section \<open>The loops\<close>

abbreviation parent_of :: "nat \<Rightarrow> nat" where
  "parent_of i \<equiv> (i - 1) div 2"

definition swap_at :: "'a list \<Rightarrow> nat \<Rightarrow> nat \<Rightarrow> 'a list" where
  "swap_at h i j = h[i := h ! j, j := h ! i]"

function sift_up :: "('a \<Rightarrow> 'a \<Rightarrow> bool) \<Rightarrow> 'a list \<Rightarrow> nat \<Rightarrow> 'a list" where
  "sift_up better h child =
    (if child > 0 then
       let parent = (child - 1) div 2 in
       if \<not> better (h ! child) (h ! parent) then h
       else sift_up better (swap_at h child parent) parent
     else h)"
  by pat_completeness auto
termination by (relation "measure (\<lambda>(_, _, i). i)") auto

function sift_down :: "('a \<Rightarrow> 'a \<Rightarrow> bool) \<Rightarrow> nat \<Rightarrow> 'a list \<Rightarrow> nat \<Rightarrow> 'a list" where
  "sift_down better n h parent =
    (let left = parent * 2 + 1 in
     if left \<ge> n then h else
     let right = left + 1;
         best = (if right < n \<and> better (h ! right) (h ! left) then right else left) in
     if \<not> better (h ! best) (h ! parent) then h
     else sift_down better n (swap_at h best parent) best)"
  by pat_completeness auto
termination by (relation "measure (\<lambda>(_, n, _, i). n - i)") (auto simp: Let_def split: if_splits)

declare sift_up.simps [simp del] sift_down.simps [simp del]

lemma sift_up_step: "sift_up better h i =
    (if 0 < i \<and> better (h ! i) (h ! parent_of i) then sift_up better (swap_at h i (parent_of i)) (parent_of i) else h)"
  by (subst sift_up.simps) (simp add: Let_def)

text \<open>The better child of \<open>i\<close>.\<close>

definition best_child :: "('a \<Rightarrow> 'a \<Rightarrow> bool) \<Rightarrow> nat \<Rightarrow> 'a list \<Rightarrow> nat \<Rightarrow> nat" where
  "best_child better n h i =
    (if i * 2 + 2 < n \<and> better (h ! (i * 2 + 2)) (h ! (i * 2 + 1)) then i * 2 + 2 else i * 2 + 1)"

lemma sift_down_step: "sift_down better n h i =
    (if i * 2 + 1 < n \<and> better (h ! best_child better n h i) (h ! i)
     then sift_down better n (swap_at h (best_child better n h i) i) (best_child better n h i) else h)"
  by (subst sift_down.simps) (simp add: Let_def best_child_def)

section \<open>What they preserve\<close>

lemma length_swap_at [simp]: "length (swap_at h i j) = length h"
  by (simp add: swap_at_def)

lemma swap_at_nth:
  "i < length h \<Longrightarrow> j < length h \<Longrightarrow> k < length h \<Longrightarrow>
     swap_at h i j ! k = (if k = j then h ! i else if k = i then h ! j else h ! k)"
  by (simp add: swap_at_def nth_list_update)

text \<open>The first \<open>n\<close> entries are permuted, the rest stays.\<close>

definition shuffled :: "nat \<Rightarrow> 'a list \<Rightarrow> 'a list \<Rightarrow> bool" where
  "shuffled n h h' \<longleftrightarrow> length h' = length h \<and> mset (take n h') = mset (take n h) \<and> drop n h' = drop n h"

lemma shuffled_refl [simp]: "shuffled n h h"
  by (simp add: shuffled_def)

lemma shuffled_trans: "shuffled n h h' \<Longrightarrow> shuffled n h' h'' \<Longrightarrow> shuffled n h h''"
  by (simp add: shuffled_def)

lemma shuffled_swap:
  assumes "i < n" "j < n" "n \<le> length h"
  shows "shuffled n h (swap_at h i j)"
proof -
  have "take n (swap_at h i j) = (take n h)[i := take n h ! j, j := take n h ! i]"
    using assms by (simp add: swap_at_def take_update_swap)
  moreover have "mset ((take n h)[i := take n h ! j, j := take n h ! i]) = mset (take n h)"
    using assms by (intro mset_swap) simp_all
  moreover have "drop n (swap_at h i j) = drop n h"
    using assms by (simp add: swap_at_def)
  ultimately show ?thesis by (simp add: shuffled_def)
qed

section \<open>The heap order\<close>

lemma parent_less: "0 < j \<Longrightarrow> parent_of j < j"
  by auto

text \<open>\<open>key\<close> orders the entries; a smaller key is nearer the root.\<close>

definition heap_ok :: "('a \<Rightarrow> 'k::linorder) \<Rightarrow> nat \<Rightarrow> 'a list \<Rightarrow> bool" where
  "heap_ok key n h \<longleftrightarrow> (\<forall>j < n. 0 < j \<longrightarrow> key (h ! parent_of j) \<le> key (h ! j))"

lemma heap_root:
  assumes "heap_ok key n h" "j < n"
  shows "key (h ! 0) \<le> key (h ! j)"
  using assms(2)
proof (induction j rule: less_induct)
  case (less j)
  show ?case
  proof (cases "j = 0")
    case False
    then have "parent_of j < j" by auto
    with less have "key (h ! 0) \<le> key (h ! parent_of j)" by simp
    also have "\<dots> \<le> key (h ! j)" using assms(1) less.prems False by (simp add: heap_ok_def)
    finally show ?thesis .
  qed simp
qed

text \<open>The heap order everywhere but above \<open>i\<close>, or everywhere but below \<open>i\<close>.\<close>

definition heap_above :: "('a \<Rightarrow> 'k::linorder) \<Rightarrow> nat \<Rightarrow> nat \<Rightarrow> 'a list \<Rightarrow> bool" where
  "heap_above key n i h \<longleftrightarrow> (\<forall>j < n. 0 < j \<and> j \<noteq> i \<longrightarrow> key (h ! parent_of j) \<le> key (h ! j))
     \<and> (\<forall>j < n. 0 < j \<and> parent_of j = i \<and> 0 < i \<longrightarrow> key (h ! parent_of i) \<le> key (h ! j))"

definition heap_below :: "('a \<Rightarrow> 'k::linorder) \<Rightarrow> nat \<Rightarrow> nat \<Rightarrow> 'a list \<Rightarrow> bool" where
  "heap_below key n i h \<longleftrightarrow> (\<forall>j < n. 0 < j \<and> parent_of j \<noteq> i \<longrightarrow> key (h ! parent_of j) \<le> key (h ! j))
     \<and> (\<forall>j < n. 0 < j \<and> parent_of j = i \<and> 0 < i \<longrightarrow> key (h ! parent_of i) \<le> key (h ! j))"

lemma sift_up_ok:
  assumes "heap_above key n i h" "i < n" "n \<le> length h" and better: "\<And>a b. better a b \<longleftrightarrow> key a < key b"
  shows "heap_ok key n (sift_up better h i) \<and> shuffled n h (sift_up better h i)"
  using assms(1-3)
proof (induction i arbitrary: h rule: less_induct)
  case (less i)
  note prems = less.prems
  show ?case
  proof (cases "0 < i \<and> key (h ! i) < key (h ! parent_of i)")
    case True
    let ?p = "parent_of i" and ?h = "swap_at h i (parent_of i)"
    have p: "?p < i" using True by auto
    have nth: "?h ! k = (if k = ?p then h ! i else if k = i then h ! ?p else h ! k)" if "k < n" for k
      using prems p that by (simp add: swap_at_nth)
    have "heap_above key n ?p ?h"
      unfolding heap_above_def
    proof (intro conjI allI impI; elim conjE)
      fix j assume j: "j < n" "0 < j" "j \<noteq> ?p"
      have pj: "parent_of j < n" using j by simp
      show "key (?h ! parent_of j) \<le> key (?h ! j)"
      proof (cases "j = i")
        case True
        then show ?thesis using nth [of i] nth [of ?p] p prems \<open>0 < i \<and> _\<close> by simp
      next
        case False
        have jj: "key (h ! parent_of j) \<le> key (h ! j)"
          using prems(1) j False by (simp add: heap_above_def)
        have below: "parent_of j = i \<longrightarrow> key (h ! ?p) \<le> key (h ! j)"
          using prems(1) j \<open>0 < i \<and> _\<close> unfolding heap_above_def by blast
        have "key (h ! i) \<le> key (h ! j)" if "parent_of j = ?p"
          using that True jj by (metis less_le_trans less_imp_le)
        then show ?thesis
          unfolding nth [OF pj] nth [OF j(1)] using jj below False j(3) by simp
      qed
    next
      fix j assume j: "j < n" "0 < j" "parent_of j = ?p" "0 < ?p"
      have pp: "parent_of ?p < ?p" using j(4) by auto
      have up: "key (h ! parent_of ?p) \<le> key (h ! ?p)"
        using prems j(4) p unfolding heap_above_def by simp
      have j_below: "key (h ! ?p) \<le> key (h ! j)" if "j \<noteq> i"
        using prems(1) j that unfolding heap_above_def by metis
      have "j \<noteq> ?p" using j(3,4) pp by linarith
      then have hj: "?h ! j = (if j = i then h ! ?p else h ! j)"
        unfolding nth [OF j(1)] by metis
      have ppn: "parent_of ?p < n" using pp p prems(2) by linarith
      have hp: "?h ! parent_of ?p = h ! parent_of ?p"
        unfolding nth [OF ppn] using pp p by (metis less_trans less_irrefl)
      show "key (?h ! parent_of ?p) \<le> key (?h ! j)"
      proof (cases "j = i")
        case False
        from order.trans [OF up j_below [OF False]] show ?thesis unfolding hp hj if_not_P [OF False] .
      next
        case True
        show ?thesis unfolding hp hj if_P [OF True] by (rule up)
      qed
    qed
    from less.IH [OF p this] p prems
    have "heap_ok key n (sift_up better ?h ?p)" "shuffled n ?h (sift_up better ?h ?p)" by simp_all
    moreover have "shuffled n h ?h" using prems p by (intro shuffled_swap) simp_all
    moreover have "sift_up better h i = sift_up better ?h ?p"
      using True by (subst sift_up_step) (simp add: better)
    ultimately show ?thesis by (simp add: shuffled_def)
  next
    case False
    then have "heap_ok key n h"
      using prems unfolding heap_above_def heap_ok_def by (metis linorder_not_less)
    moreover have "sift_up better h i = h"
      using False by (subst sift_up_step) (auto simp: better)
    ultimately show ?thesis by simp
  qed
qed

lemma sift_down_ok:
  assumes "heap_below key n i h" "i < n" "n \<le> length h" and better: "\<And>a b. better a b \<longleftrightarrow> key a < key b"
  shows "heap_ok key n (sift_down better n h i) \<and> shuffled n h (sift_down better n h i)"
  using assms(1-3)
proof (induction "n - i" arbitrary: i h rule: less_induct)
  case less
  note prems = less.prems
  let ?b = "best_child better n h i"
  have children: "0 < j \<Longrightarrow> parent_of j = i \<longleftrightarrow> j = i * 2 + 1 \<or> j = i * 2 + 2" for j by auto
  have best: "i < ?b \<and> ?b < n \<and> parent_of ?b = i
      \<and> (\<forall>j < n. 0 < j \<and> parent_of j = i \<longrightarrow> key (h ! ?b) \<le> key (h ! j))" if "i * 2 + 1 < n"
  proof -
    have b: "?b = i * 2 + 1 \<or> ?b = i * 2 + 2" "?b < n" using that by (auto simp: best_child_def)
    have "key (h ! ?b) \<le> key (h ! (i * 2 + 1))" "i * 2 + 2 < n \<Longrightarrow> key (h ! ?b) \<le> key (h ! (i * 2 + 2))"
      by (auto simp: best_child_def better)
    then have "\<forall>j < n. 0 < j \<and> parent_of j = i \<longrightarrow> key (h ! ?b) \<le> key (h ! j)"
      using children by metis
    moreover have "i < ?b" "parent_of ?b = i" using b by auto
    ultimately show ?thesis using b by blast
  qed
  show ?case
  proof (cases "i * 2 + 1 < n \<and> key (h ! ?b) < key (h ! i)")
    case True
    note b = best [OF conjunct1 [OF True]]
    let ?h = "swap_at h ?b i"
    have nth: "?h ! k = (if k = i then h ! ?b else if k = ?b then h ! i else h ! k)" if "k < n" for k
      using prems b that by (simp add: swap_at_nth)
    have "heap_below key n ?b ?h"
      unfolding heap_below_def
    proof (intro conjI allI impI; elim conjE)
      fix j assume j: "j < n" "0 < j" "parent_of j \<noteq> ?b"
      have pj: "parent_of j < n" using j by simp
      have other: "key (h ! parent_of j) \<le> key (h ! j)" if "parent_of j \<noteq> i"
        using prems(1) j that by (simp add: heap_below_def)
      have under: "key (h ! ?b) \<le> key (h ! j)" if "parent_of j = i" using b j that by blast
      have over: "key (h ! parent_of i) \<le> key (h ! ?b)" if "0 < i"
        using prems(1) b that unfolding heap_below_def by (metis less_trans)
      show "key (?h ! parent_of j) \<le> key (?h ! j)"
      proof (cases "parent_of j = i")
        case True
        have "?h ! parent_of j = h ! ?b" unfolding nth [OF pj] using True by metis
        moreover have "?h ! j = (if j = ?b then h ! i else h ! j)"
          unfolding nth [OF j(1)] using True j(2) by (metis parent_less less_irrefl)
        ultimately show ?thesis
          using under [OF True] \<open>_ \<and> key (h ! ?b) < key (h ! i)\<close> by (metis less_imp_le)
      next
        case False
        have p: "?h ! parent_of j = h ! parent_of j"
          unfolding nth [OF pj] using False j(3) by metis
        show ?thesis
        proof (cases "j = i")
          case True
          then have "?h ! j = h ! ?b" unfolding nth [OF j(1)] by metis
          then show ?thesis using p over True j(2) by metis
        next
          case False
          moreover have "j \<noteq> ?b" using b \<open>parent_of j \<noteq> i\<close> by metis
          ultimately have "?h ! j = h ! j" unfolding nth [OF j(1)] by metis
          then show ?thesis using p other [OF \<open>parent_of j \<noteq> i\<close>] by metis
        qed
      qed
    next
      fix j assume j: "j < n" "0 < j" "parent_of j = ?b" "0 < ?b"
      have "parent_of j \<noteq> i" using j(3) b by linarith
      then have "key (h ! parent_of j) \<le> key (h ! j)"
        using prems(1) j(1,2) unfolding heap_below_def by blast
      moreover have "j \<noteq> i" "j \<noteq> ?b" using parent_less [OF j(2)] b j(3) by linarith+
      then have "?h ! j = h ! j" unfolding nth [OF j(1)] by metis
      moreover have "?h ! parent_of ?b = h ! ?b" using nth [of i] b prems(2) by metis
      ultimately show "key (?h ! parent_of ?b) \<le> key (?h ! j)"
        using j(3) by metis
    qed
    moreover have "n - ?b < n - i" using b by linarith
    ultimately have "heap_ok key n (sift_down better n ?h ?b) \<and> shuffled n ?h (sift_down better n ?h ?b)"
      using less.hyps [of ?b ?h] b prems by simp
    then
    have "heap_ok key n (sift_down better n ?h ?b)" "shuffled n ?h (sift_down better n ?h ?b)" by blast+
    moreover have "shuffled n h ?h" using prems b by (intro shuffled_swap) simp_all
    moreover have "sift_down better n h i = sift_down better n ?h ?b"
      using True by (subst sift_down_step) (simp add: better)
    ultimately show ?thesis by (simp add: shuffled_def)
  next
    case False
    have "key (h ! parent_of j) \<le> key (h ! j)" if j: "j < n" "0 < j" for j
    proof (cases "parent_of j = i")
      case True
      then have "i * 2 + 1 < n" using j children by auto
      with best [OF this] False j True show ?thesis by (metis linorder_not_less order.trans)
    next
      case False
      then show ?thesis using prems(1) j by (simp add: heap_below_def)
    qed
    then have "heap_ok key n h" by (simp add: heap_ok_def)
    moreover have "sift_down better n h i = h"
      using False by (subst sift_down_step) (auto simp: better)
    ultimately show ?thesis by simp
  qed
qed

text \<open>They only permute, also where the order is not a heap's.\<close>

lemma sift_up_shuffled: "i < n \<Longrightarrow> n \<le> length h \<Longrightarrow> shuffled n h (sift_up better h i)"
proof (induction i arbitrary: h rule: less_induct)
  case (less i)
  show ?case
  proof (cases "0 < i \<and> better (h ! i) (h ! parent_of i)")
    case True
    then have p: "parent_of i < i" by auto
    have "shuffled n (swap_at h i (parent_of i)) (sift_up better (swap_at h i (parent_of i)) (parent_of i))"
      using less.IH [OF p] p less.prems by simp
    moreover have "shuffled n h (swap_at h i (parent_of i))" using less.prems p by (intro shuffled_swap) simp_all
    ultimately show ?thesis using True by (subst sift_up_step) (simp add: shuffled_def)
  qed (subst sift_up_step, auto)
qed

lemma sift_down_shuffled: "i < n \<Longrightarrow> n \<le> length h \<Longrightarrow> shuffled n h (sift_down better n h i)"
proof (induction "n - i" arbitrary: i h rule: less_induct)
  case less
  let ?b = "best_child better n h i"
  show ?case
  proof (cases "i * 2 + 1 < n \<and> better (h ! ?b) (h ! i)")
    case True
    then have b: "i < ?b" "?b < n" by (auto simp: best_child_def)
    then have "shuffled n (swap_at h ?b i) (sift_down better n (swap_at h ?b i) ?b)"
      using less.hyps [of ?b "swap_at h ?b i"] less.prems by simp
    moreover have "shuffled n h (swap_at h ?b i)" using less.prems b by (intro shuffled_swap) simp_all
    ultimately show ?thesis using True by (subst sift_down_step) (simp add: shuffled_def)
  qed (subst sift_down_step, auto)
qed

text \<open>Appending an entry, and moving the last entry to the root.\<close>

lemma heap_above_push:
  assumes "heap_ok key n h" "n < length h"
  shows "heap_above key (Suc n) n (h[n := x])"
  using assms by (auto simp: heap_above_def heap_ok_def less_Suc_eq nth_list_update)

lemma heap_below_pop:
  assumes "heap_ok key (Suc n) h" "Suc n \<le> length h"
  shows "heap_below key n 0 (h[0 := x])"
proof -
  have "key (h[0 := x] ! parent_of j) \<le> key (h[0 := x] ! j)" if "j < n" "0 < j" "parent_of j \<noteq> 0" for j
    using assms that by (simp add: heap_ok_def)
  then show ?thesis by (simp add: heap_below_def)
qed

section \<open>The contract of a bounded priority queue\<close>

text \<open>
  What a walk asks of its queue, as a system of calls. A run of a bounded priority queue is a list of
  events: an insertion is refused exactly when the queue is full, an extraction shows a smallest entry
  and takes it out. Entries with the same key may come in either order. \<open>store\<close> is what the queue keeps
  of an entry and \<open>shown\<close> what an extraction shows of it.
\<close>

datatype 'e queue_call = Insert 'e | Extract

datatype ('e, 'p) queue_event = Inserted 'e | Refused 'e | Extracted 'p | Found_empty

fun call_of :: "('e, 'p) queue_event \<Rightarrow> 'e queue_call" where
  "call_of (Inserted x) = Insert x"
| "call_of (Refused x) = Insert x"
| "call_of (Extracted p) = Extract"
| "call_of Found_empty = Extract"

fun is_refusal :: "('e, 'p) queue_event \<Rightarrow> bool" where
  "is_refusal (Refused x) = True"
| "is_refusal _ = False"

inductive queue_run ::
  "('e \<Rightarrow> 'k::linorder) \<Rightarrow> ('e \<Rightarrow> 'e) \<Rightarrow> ('e \<Rightarrow> 'p) \<Rightarrow> nat \<Rightarrow> 'e multiset \<Rightarrow> ('e, 'p) queue_event list \<Rightarrow> 'e multiset \<Rightarrow> bool"
  for key :: "'e \<Rightarrow> 'k::linorder" and store :: "'e \<Rightarrow> 'e" and shown :: "'e \<Rightarrow> 'p" and capacity :: nat
where
  Done: "queue_run key store shown capacity M [] M"
| Insertion: "size M < capacity \<Longrightarrow> queue_run key store shown capacity (add_mset (store x) M) es N
    \<Longrightarrow> queue_run key store shown capacity M (Inserted x # es) N"
| Refusal: "size M = capacity \<Longrightarrow> queue_run key store shown capacity M es N
    \<Longrightarrow> queue_run key store shown capacity M (Refused x # es) N"
| Extraction: "x \<in># M \<Longrightarrow> \<forall>y \<in># M. key x \<le> key y \<Longrightarrow> queue_run key store shown capacity (M - {#x#}) es N
    \<Longrightarrow> queue_run key store shown capacity M (Extracted (shown x) # es) N"
| Nothing: "queue_run key store shown capacity {#} es N
    \<Longrightarrow> queue_run key store shown capacity {#} (Found_empty # es) N"

inductive_cases queue_run_extracted: "queue_run key store shown capacity M (Extracted p # es) N"

text \<open>The calls on a queue, with what each of them answered.\<close>

fun queue_call_step ::
  "('e \<Rightarrow> 'q \<Rightarrow> bool \<times> 'q) \<Rightarrow> ('q \<Rightarrow> 'p option \<times> 'q) \<Rightarrow> 'e queue_call \<Rightarrow> 'q \<Rightarrow> ('e, 'p) queue_event \<times> 'q" where
  "queue_call_step ins ext (Insert x) q = (case ins x q of (b, q) \<Rightarrow> (if b then Inserted x else Refused x, q))"
| "queue_call_step ins ext Extract q = (case ext q of (None, q) \<Rightarrow> (Found_empty, q) | (Some p, q) \<Rightarrow> (Extracted p, q))"

fun queue_trace ::
  "('e \<Rightarrow> 'q \<Rightarrow> bool \<times> 'q) \<Rightarrow> ('q \<Rightarrow> 'p option \<times> 'q) \<Rightarrow> 'e queue_call list \<Rightarrow> 'q \<Rightarrow> ('e, 'p) queue_event list \<times> 'q" where
  "queue_trace ins ext [] q = ([], q)"
| "queue_trace ins ext (c # cs) q =
    (let (e, q) = queue_call_step ins ext c q; (es, q) = queue_trace ins ext cs q in (e # es, q))"

locale bounded_queue =
  fixes ok :: "'q \<Rightarrow> bool" and capacity :: "'q \<Rightarrow> nat" and contents :: "'q \<Rightarrow> 'e multiset" and turned_away :: "'q \<Rightarrow> nat"
    and key :: "'e \<Rightarrow> 'k::linorder" and store :: "'e \<Rightarrow> 'e" and shown :: "'e \<Rightarrow> 'p"
    and ins :: "'e \<Rightarrow> 'q \<Rightarrow> bool \<times> 'q" and ext :: "'q \<Rightarrow> 'p option \<times> 'q"
  assumes bound: "ok q \<Longrightarrow> size (contents q) \<le> capacity q"
    and ins_law: "ok q \<Longrightarrow> ins x q = (b, q') \<Longrightarrow> ok q' \<and> capacity q' = capacity q
      \<and> b = (size (contents q) < capacity q)
      \<and> contents q' = (if b then add_mset (store x) (contents q) else contents q)
      \<and> turned_away q' = (if b then turned_away q else turned_away q + 1)"
    and ext_None: "ok q \<Longrightarrow> ext q = (None, q') \<Longrightarrow> contents q = {#} \<and> q' = q"
    and ext_Some: "ok q \<Longrightarrow> ext q = (Some p, q') \<Longrightarrow> ok q' \<and> capacity q' = capacity q \<and> turned_away q' = turned_away q
      \<and> (\<exists>x. p = shown x \<and> x \<in># contents q \<and> contents q' = contents q - {#x#} \<and> (\<forall>y \<in># contents q. key x \<le> key y))"
begin

lemma one_call:
  assumes "ok q" "queue_call_step ins ext c q = (e, q')"
  shows "ok q' \<and> capacity q' = capacity q \<and> call_of e = c
    \<and> turned_away q' = turned_away q + (if is_refusal e then 1 else 0)
    \<and> (queue_run key store shown (capacity q) (contents q') es N \<longrightarrow> queue_run key store shown (capacity q) (contents q) (e # es) N)"
proof (cases c)
  case (Insert x)
  obtain b r where i: "ins x q = (b, r)" by fastforce
  have full: "\<not> size (contents q) < capacity q \<Longrightarrow> size (contents q) = capacity q" using bound [OF assms(1)] by simp
  show ?thesis
    using assms(2) ins_law [OF assms(1) i] Insert i full
    by (auto intro: queue_run.Insertion queue_run.Refusal split: if_splits)
next
  case Extract
  obtain r t where e: "ext q = (r, t)" by fastforce
  show ?thesis
  proof (cases r)
    case None
    with ext_None [OF assms(1)] e assms Extract show ?thesis by (auto intro: queue_run.Nothing)
  next
    case (Some p)
    with ext_Some [OF assms(1)] e assms Extract show ?thesis by (auto intro: queue_run.Extraction)
  qed
qed

text \<open>Every sequence of calls is a run of the abstract queue.\<close>

lemma calls_run:
  assumes "ok q" "queue_trace ins ext cs q = (es, q')"
  shows "ok q' \<and> map call_of es = cs \<and> queue_run key store shown (capacity q) (contents q) es (contents q')
    \<and> turned_away q' = turned_away q + length (filter is_refusal es)"
  using assms
proof (induction cs arbitrary: q es)
  case Nil
  then show ?case by (simp add: queue_run.Done)
next
  case (Cons c cs)
  obtain e r where step: "queue_call_step ins ext c q = (e, r)" by fastforce
  obtain fs t where rest: "queue_trace ins ext cs r = (fs, t)" by fastforce
  from Cons.prems(2) step rest have es: "es = e # fs" and t: "t = q'" by auto
  note one = one_call [OF Cons.prems(1) step, of fs "contents q'"]
  then have "ok r" by simp
  note ih = Cons.IH [OF this rest [unfolded t]]
  show ?case using one ih es by auto
qed

end

end
