(* ===== verification/Kernel_Frontier.thy ===== *)
theory Kernel_Frontier
  imports Array_Heap Reader_Lookup
begin

text \<open>
  query/kernel-frontier.ts: the bounded best-first frontier. Heap positions hold slots, slots
  index the key columns, and released slots are reused through a free stack. An
  \<open>Int32Array\<close> is a list; a write truncates with \<open>to_int32\<close>. \<open>heap\<close> and \<open>free\<close> hold
  slots, which are below the capacity and need no truncation.

  The component promises a bounded priority queue: the locale of the same name states that
  contract, and the frontier is an instance of it.
\<close>

section \<open>State\<close>

record FrontierState =
  st_node :: int
  st_score :: int
  st_depth :: int
  st_priority :: int
  st_seed :: int
  st_parentNode :: int
  st_parentEdge :: int
  st_flags :: int

record TraversalFrontier =
  fr_capacity :: nat
  fr_size :: nat
  fr_rejected :: nat
  fr_node :: int
  fr_score :: int
  fr_depth :: int
  fr_seed :: int
  fr_parentNode :: int
  fr_parentEdge :: int
  fr_flags :: int
  fr_heap :: "nat list"
  fr_free :: "nat list"
  fr_freeCount :: nat
  fr_used :: nat
  fr_keyScore :: "int list"
  fr_keyDepth :: "int list"
  fr_keyPriority :: "int list"
  fr_keyNode :: "int list"
  fr_keySeed :: "int list"
  fr_keyParentNode :: "int list"
  fr_keyParentEdge :: "int list"
  fr_keyFlags :: "int list"

definition new_frontier :: "int \<Rightarrow> TraversalFrontier" where
  "new_frontier capacity =
    (let c = nat (max 1 capacity) in
     \<lparr>fr_capacity = c, fr_size = 0, fr_rejected = 0,
      fr_node = -1, fr_score = 0, fr_depth = 0, fr_seed = -1, fr_parentNode = -1,
      fr_parentEdge = -1, fr_flags = 0,
      fr_heap = replicate c 0, fr_free = replicate c 0, fr_freeCount = 0, fr_used = 0,
      fr_keyScore = replicate c 0, fr_keyDepth = replicate c 0, fr_keyPriority = replicate c 0,
      fr_keyNode = replicate c 0, fr_keySeed = replicate c 0, fr_keyParentNode = replicate c 0,
      fr_keyParentEdge = replicate c 0, fr_keyFlags = replicate c 0\<rparr>)"

section \<open>Operations\<close>

definition frontier_empty :: "TraversalFrontier \<Rightarrow> bool" where
  "frontier_empty f \<longleftrightarrow> fr_size f = 0"

text \<open>\<open>None\<close> is \<open>Number.NEGATIVE_INFINITY\<close>.\<close>

definition peekScore :: "TraversalFrontier \<Rightarrow> int option" where
  "peekScore f = (if fr_size f = 0 then None else Some (fr_keyScore f ! (fr_heap f ! 0)))"

definition better :: "TraversalFrontier \<Rightarrow> nat \<Rightarrow> nat \<Rightarrow> bool" where
  "better f left right =
    (let scoreLeft = fr_keyScore f ! left; scoreRight = fr_keyScore f ! right in
     if scoreLeft \<noteq> scoreRight then scoreLeft > scoreRight else
     let depthLeft = fr_keyDepth f ! left; depthRight = fr_keyDepth f ! right in
     if depthLeft \<noteq> depthRight then depthLeft < depthRight else
     let priorityLeft = fr_keyPriority f ! left; priorityRight = fr_keyPriority f ! right in
     if priorityLeft \<noteq> priorityRight then priorityLeft > priorityRight
     else fr_keyNode f ! left < fr_keyNode f ! right)"

definition frontier_siftUp :: "nat \<Rightarrow> TraversalFrontier \<Rightarrow> TraversalFrontier" where
  "frontier_siftUp from' f = f\<lparr>fr_heap := sift_up (better f) (fr_heap f) from'\<rparr>"

definition frontier_siftDown :: "nat \<Rightarrow> TraversalFrontier \<Rightarrow> TraversalFrontier" where
  "frontier_siftDown from' f = f\<lparr>fr_heap := sift_down (better f) (fr_size f) (fr_heap f) from'\<rparr>"

definition allocate :: "TraversalFrontier \<Rightarrow> nat option \<times> TraversalFrontier" where
  "allocate f =
    (if fr_freeCount f > 0
     then (let f = f\<lparr>fr_freeCount := fr_freeCount f - 1\<rparr> in (Some (fr_free f ! fr_freeCount f), f))
     else if fr_used f \<ge> fr_capacity f then (None, f)
     else (Some (fr_used f), f\<lparr>fr_used := fr_used f + 1\<rparr>))"

definition write_key :: "nat \<Rightarrow> FrontierState \<Rightarrow> TraversalFrontier \<Rightarrow> TraversalFrontier" where
  "write_key slot x f = f\<lparr>
     fr_keyScore := (fr_keyScore f)[slot := to_int32 (st_score x)],
     fr_keyDepth := (fr_keyDepth f)[slot := to_int32 (st_depth x)],
     fr_keyPriority := (fr_keyPriority f)[slot := to_int32 (st_priority x)],
     fr_keyNode := (fr_keyNode f)[slot := to_int32 (st_node x)],
     fr_keySeed := (fr_keySeed f)[slot := to_int32 (st_seed x)],
     fr_keyParentNode := (fr_keyParentNode f)[slot := to_int32 (st_parentNode x)],
     fr_keyParentEdge := (fr_keyParentEdge f)[slot := to_int32 (st_parentEdge x)],
     fr_keyFlags := (fr_keyFlags f)[slot := to_int32 (st_flags x)]\<rparr>"

definition frontier_push :: "FrontierState \<Rightarrow> TraversalFrontier \<Rightarrow> bool \<times> TraversalFrontier" where
  "frontier_push x f =
    (case allocate f of
       (None, f) \<Rightarrow> (False, f\<lparr>fr_rejected := fr_rejected f + 1\<rparr>)
     | (Some slot, f) \<Rightarrow>
        (let f = write_key slot x f;
             f = f\<lparr>fr_heap := (fr_heap f)[fr_size f := slot]\<rparr>;
             f = f\<lparr>fr_size := fr_size f + 1\<rparr> in
         (True, frontier_siftUp (fr_size f - 1) f)))"

definition frontier_pop :: "TraversalFrontier \<Rightarrow> bool \<times> TraversalFrontier" where
  "frontier_pop f =
    (if fr_size f = 0 then (False, f) else
     let winner = fr_heap f ! 0;
         f = f\<lparr>fr_size := fr_size f - 1\<rparr>;
         f = (if fr_size f > 0
              then frontier_siftDown 0 (f\<lparr>fr_heap := (fr_heap f)[0 := fr_heap f ! fr_size f]\<rparr>) else f);
         f = f\<lparr>fr_node := fr_keyNode f ! winner, fr_score := fr_keyScore f ! winner,
               fr_depth := fr_keyDepth f ! winner, fr_seed := fr_keySeed f ! winner,
               fr_parentNode := fr_keyParentNode f ! winner, fr_parentEdge := fr_keyParentEdge f ! winner,
               fr_flags := fr_keyFlags f ! winner\<rparr>;
         f = f\<lparr>fr_free := (fr_free f)[fr_freeCount f := winner]\<rparr> in
     (True, f\<lparr>fr_freeCount := fr_freeCount f + 1\<rparr>))"

section \<open>The key of section 7.2, as a linear order\<close>

datatype frontier_key = Frontier_key (k_score: int) (k_depth: int) (k_priority: int) (k_node: int)

instantiation frontier_key :: linorder
begin

definition less_frontier_key :: "frontier_key \<Rightarrow> frontier_key \<Rightarrow> bool" where
  "a < b \<longleftrightarrow> (if k_score a \<noteq> k_score b then k_score a > k_score b
     else if k_depth a \<noteq> k_depth b then k_depth a < k_depth b
     else if k_priority a \<noteq> k_priority b then k_priority a > k_priority b
     else k_node a < k_node b)"

definition less_eq_frontier_key :: "frontier_key \<Rightarrow> frontier_key \<Rightarrow> bool" where
  "a \<le> b \<longleftrightarrow> a = b \<or> a < (b :: frontier_key)"

instance
proof
  fix x y z :: frontier_key
  show "x < y \<longleftrightarrow> x \<le> y \<and> \<not> y \<le> x"
    by (auto simp: less_frontier_key_def less_eq_frontier_key_def)
  show "x \<le> x" by (simp add: less_eq_frontier_key_def)
  show "x \<le> z" if "x \<le> y" "y \<le> z"
    using that by (auto simp: less_frontier_key_def less_eq_frontier_key_def split: if_splits)
  show "x = y" if "x \<le> y" "y \<le> x"
    using that by (auto simp: less_frontier_key_def less_eq_frontier_key_def split: if_splits)
  show "x \<le> y \<or> y \<le> x"
    by (cases x; cases y) (auto simp: less_frontier_key_def less_eq_frontier_key_def)
qed

end

definition state_key :: "FrontierState \<Rightarrow> frontier_key" where
  "state_key x = Frontier_key (st_score x) (st_depth x) (st_priority x) (st_node x)"

text \<open>The state a slot holds, and what is queued.\<close>

definition entry :: "TraversalFrontier \<Rightarrow> nat \<Rightarrow> FrontierState" where
  "entry f slot = \<lparr>st_node = fr_keyNode f ! slot, st_score = fr_keyScore f ! slot,
     st_depth = fr_keyDepth f ! slot, st_priority = fr_keyPriority f ! slot,
     st_seed = fr_keySeed f ! slot, st_parentNode = fr_keyParentNode f ! slot,
     st_parentEdge = fr_keyParentEdge f ! slot, st_flags = fr_keyFlags f ! slot\<rparr>"

definition queued :: "TraversalFrontier \<Rightarrow> FrontierState multiset" where
  "queued f = image_mset (entry f) (mset (take (fr_size f) (fr_heap f)))"

lemma better_key: "better f a b \<longleftrightarrow> state_key (entry f a) < state_key (entry f b)"
  by (simp add: better_def state_key_def entry_def less_frontier_key_def Let_def)

text \<open>A state as the columns store it.\<close>

definition stored :: "FrontierState \<Rightarrow> FrontierState" where
  "stored x = \<lparr>st_node = to_int32 (st_node x), st_score = to_int32 (st_score x),
     st_depth = to_int32 (st_depth x), st_priority = to_int32 (st_priority x),
     st_seed = to_int32 (st_seed x), st_parentNode = to_int32 (st_parentNode x),
     st_parentEdge = to_int32 (st_parentEdge x), st_flags = to_int32 (st_flags x)\<rparr>"

text \<open>What the scalar fields hold after a \<open>pop\<close>, and what of a state they show: not its priority.\<close>

record PublishedState =
  ps_node :: int
  ps_score :: int
  ps_depth :: int
  ps_seed :: int
  ps_parentNode :: int
  ps_parentEdge :: int
  ps_flags :: int

definition published :: "TraversalFrontier \<Rightarrow> PublishedState" where
  "published f = \<lparr>ps_node = fr_node f, ps_score = fr_score f, ps_depth = fr_depth f, ps_seed = fr_seed f,
     ps_parentNode = fr_parentNode f, ps_parentEdge = fr_parentEdge f, ps_flags = fr_flags f\<rparr>"

definition shown_state :: "FrontierState \<Rightarrow> PublishedState" where
  "shown_state x = \<lparr>ps_node = st_node x, ps_score = st_score x, ps_depth = st_depth x, ps_seed = st_seed x,
     ps_parentNode = st_parentNode x, ps_parentEdge = st_parentEdge x, ps_flags = st_flags x\<rparr>"

definition popped :: "TraversalFrontier \<Rightarrow> FrontierState \<Rightarrow> bool" where
  "popped f x \<longleftrightarrow> published f = shown_state x"

section \<open>The invariant\<close>

text \<open>
  Live heap positions and released slots are disjoint and together are the slots handed out
  so far, so a slot is reused only when no heap position names it; the heap is ordered.
\<close>

definition frontier_ok :: "TraversalFrontier \<Rightarrow> bool" where
  "frontier_ok f \<longleftrightarrow>
     length (fr_heap f) = fr_capacity f \<and> length (fr_free f) = fr_capacity f
     \<and> length (fr_keyScore f) = fr_capacity f \<and> length (fr_keyDepth f) = fr_capacity f
     \<and> length (fr_keyPriority f) = fr_capacity f \<and> length (fr_keyNode f) = fr_capacity f
     \<and> length (fr_keySeed f) = fr_capacity f \<and> length (fr_keyParentNode f) = fr_capacity f
     \<and> length (fr_keyParentEdge f) = fr_capacity f \<and> length (fr_keyFlags f) = fr_capacity f
     \<and> fr_size f + fr_freeCount f = fr_used f \<and> fr_used f \<le> fr_capacity f
     \<and> mset (take (fr_size f) (fr_heap f) @ take (fr_freeCount f) (fr_free f)) = mset [0..<fr_used f]
     \<and> heap_ok (\<lambda>s. state_key (entry f s)) (fr_size f) (fr_heap f)"

lemma new_frontier_ok: "frontier_ok (new_frontier c) \<and> queued (new_frontier c) = {#}
    \<and> fr_capacity (new_frontier c) = nat (max 1 c)"
  by (simp add: new_frontier_def frontier_ok_def queued_def heap_ok_def Let_def)

lemma frontier_lengths:
  assumes "frontier_ok f"
  shows "length (fr_heap f) = fr_capacity f" "length (fr_free f) = fr_capacity f"
    "length (fr_keyScore f) = fr_capacity f" "length (fr_keyDepth f) = fr_capacity f"
    "length (fr_keyPriority f) = fr_capacity f" "length (fr_keyNode f) = fr_capacity f"
    "length (fr_keySeed f) = fr_capacity f" "length (fr_keyParentNode f) = fr_capacity f"
    "length (fr_keyParentEdge f) = fr_capacity f" "length (fr_keyFlags f) = fr_capacity f"
  using assms by (simp_all only: frontier_ok_def)

lemma frontier_counts:
  assumes "frontier_ok f"
  shows "fr_size f + fr_freeCount f = fr_used f" "fr_used f \<le> fr_capacity f"
    "mset (take (fr_size f) (fr_heap f) @ take (fr_freeCount f) (fr_free f)) = mset [0..<fr_used f]"
    "heap_ok (\<lambda>s. state_key (entry f s)) (fr_size f) (fr_heap f)"
  using assms by (simp_all only: frontier_ok_def)

lemma size_queued: "frontier_ok f \<Longrightarrow> size (queued f) = fr_size f"
  by (simp add: queued_def frontier_ok_def)

section \<open>Push\<close>

lemma allocate_None: "frontier_ok f \<Longrightarrow> allocate f = (None, f') \<Longrightarrow> f' = f \<and> fr_size f = fr_capacity f"
  using frontier_counts(1,2) [of f] by (simp add: allocate_def Let_def split: if_splits)

lemma mset_take_Suc: "n < length xs \<Longrightarrow> mset (take (Suc n) xs) = add_mset (xs ! n) (mset (take n xs))"
  by (simp add: take_Suc_conv_app_nth)

lemma allocate_Some:
  assumes "frontier_ok f" "allocate f = (Some slot, f')"
  shows "\<exists>n u. f' = f\<lparr>fr_freeCount := n, fr_used := u\<rparr> \<and> fr_size f + 1 + n = u \<and> u \<le> fr_capacity f
     \<and> mset (slot # take (fr_size f) (fr_heap f) @ take n (fr_free f)) = mset [0..<u]"
proof (cases "fr_freeCount f")
  case 0
  then have f': "slot = fr_used f" "f' = f\<lparr>fr_used := fr_used f + 1\<rparr>" "fr_used f < fr_capacity f"
    using assms(2) by (auto simp: allocate_def split: if_splits)
  have "f' = f\<lparr>fr_freeCount := fr_freeCount f, fr_used := fr_used f + 1\<rparr>" unfolding f'(2) by simp
  moreover have "mset (slot # take (fr_size f) (fr_heap f) @ take (fr_freeCount f) (fr_free f)) = mset [0..<fr_used f + 1]"
    using frontier_counts(3) [OF assms(1)] f'(1) by simp
  moreover have "fr_size f + 1 + fr_freeCount f = fr_used f + 1" "fr_used f + 1 \<le> fr_capacity f"
    using frontier_counts(1) [OF assms(1)] f'(3) by linarith+
  ultimately show ?thesis by blast
next
  case (Suc n)
  then have f': "slot = fr_free f ! n" "f' = f\<lparr>fr_freeCount := n\<rparr>"
    using assms(2) by (auto simp: allocate_def Let_def)
  have n: "fr_size f + 1 + n = fr_used f" "fr_used f \<le> fr_capacity f" "n < length (fr_free f)"
    using frontier_counts(1,2) [OF assms(1)] frontier_lengths(2) [OF assms(1)] Suc by linarith+
  have "f' = f\<lparr>fr_freeCount := n, fr_used := fr_used f\<rparr>" unfolding f'(2) by simp
  moreover have "mset (slot # take (fr_size f) (fr_heap f) @ take n (fr_free f)) = mset [0..<fr_used f]"
    using frontier_counts(3) [OF assms(1)] mset_take_Suc [OF n(3)] unfolding Suc f'(1) by simp
  ultimately show ?thesis using n by blast
qed

lemma write_key_simps [simp]:
  "fr_capacity (write_key slot x f) = fr_capacity f" "fr_size (write_key slot x f) = fr_size f"
  "fr_rejected (write_key slot x f) = fr_rejected f" "fr_heap (write_key slot x f) = fr_heap f"
  "fr_free (write_key slot x f) = fr_free f" "fr_freeCount (write_key slot x f) = fr_freeCount f"
  "fr_used (write_key slot x f) = fr_used f"
  "length (fr_keyScore (write_key slot x f)) = length (fr_keyScore f)"
  "length (fr_keyDepth (write_key slot x f)) = length (fr_keyDepth f)"
  "length (fr_keyPriority (write_key slot x f)) = length (fr_keyPriority f)"
  "length (fr_keyNode (write_key slot x f)) = length (fr_keyNode f)"
  "length (fr_keySeed (write_key slot x f)) = length (fr_keySeed f)"
  "length (fr_keyParentNode (write_key slot x f)) = length (fr_keyParentNode f)"
  "length (fr_keyParentEdge (write_key slot x f)) = length (fr_keyParentEdge f)"
  "length (fr_keyFlags (write_key slot x f)) = length (fr_keyFlags f)"
  by (simp_all add: write_key_def)

lemma entry_write_key: "s \<noteq> slot \<Longrightarrow> entry (write_key slot x f) s = entry f s"
  by (simp add: entry_def write_key_def)

lemma entry_write_same: "frontier_ok f \<Longrightarrow> slot < fr_capacity f \<Longrightarrow> entry (write_key slot x f) slot = stored x"
  by (simp add: entry_def write_key_def frontier_ok_def stored_def)

lemma entry_heap [simp]: "entry (f\<lparr>fr_heap := h\<rparr>) = entry f" "entry (f\<lparr>fr_size := n\<rparr>) = entry f"
  "entry (f\<lparr>fr_freeCount := n\<rparr>) = entry f" "entry (f\<lparr>fr_used := n\<rparr>) = entry f"
  "entry (f\<lparr>fr_rejected := n\<rparr>) = entry f" "entry (f\<lparr>fr_free := h\<rparr>) = entry f"
  by (auto simp: entry_def)

lemma push_spec:
  assumes ok: "frontier_ok f" and push: "frontier_push x f = (b, f')"
  shows "frontier_ok f' \<and> fr_capacity f' = fr_capacity f \<and> b = (fr_size f < fr_capacity f)
     \<and> queued f' = (if b then add_mset (stored x) (queued f) else queued f)
     \<and> fr_rejected f' = (if b then fr_rejected f else fr_rejected f + 1)"
proof (cases "allocate f")
  case (Pair r g)
  show ?thesis
  proof (cases r)
    case None
    with allocate_None [OF ok] Pair push ok show ?thesis
      by (auto simp: frontier_push_def frontier_ok_def queued_def)
  next
    case (Some slot)
    from allocate_Some [OF ok, of slot g] Pair Some obtain n u where
      g: "g = f\<lparr>fr_freeCount := n, fr_used := u\<rparr>" "fr_size f + 1 + n = u" "u \<le> fr_capacity f"
      and ms: "mset (slot # take (fr_size f) (fr_heap f) @ take n (fr_free f)) = mset [0..<u]" by auto
    let ?m = "fr_size f" and ?w = "write_key slot x g"
    let ?h = "(fr_heap f)[?m := slot]"
    let ?key = "\<lambda>s. state_key (entry ?w s)"
    have slot: "slot < u" using ms by (metis list.set_intros(1) mset_eq_setD set_upt atLeastLessThan_iff)
    have "distinct (slot # take ?m (fr_heap f) @ take n (fr_free f))"
      using ms by (metis distinct_upt mset_eq_imp_distinct_iff)
    then have fresh: "slot \<notin> set (take ?m (fr_heap f))" by simp
    have eg: "entry g = entry f" by (simp add: g)
    have old: "entry ?w s = entry f s" if "s \<in> set (take ?m (fr_heap f))" for s
      using entry_write_key [of s slot x g] that fresh eg by metis
    have new: "entry ?w slot = stored x"
    proof -
      have "entry ?w slot = entry (write_key slot x f) slot" by (simp add: g entry_def write_key_def)
      with entry_write_same [OF ok] slot g(3) show ?thesis by simp
    qed
    have len: "length (fr_heap f) = fr_capacity f" "?m < fr_capacity f"
      using frontier_lengths(1) [OF ok] g(2,3) by simp_all
    have "heap_ok ?key ?m (fr_heap f)"
    proof -
      have "fr_heap f ! j \<in> set (take ?m (fr_heap f))" if "j < ?m" for j
        using that len by (metis in_set_conv_nth length_take min.strict_order_iff min.absorb4 nth_take)
      then have "?key (fr_heap f ! j) = state_key (entry f (fr_heap f ! j))" if "j < ?m" for j
        using old that by metis
      then show ?thesis
        using frontier_counts(4) [OF ok] unfolding heap_ok_def by (metis less_trans parent_less)
    qed
    then have "heap_above ?key (Suc ?m) ?m ?h" using len by (intro heap_above_push) auto
    from sift_up_ok [OF this, of "better ?w"] len
    have up: "heap_ok ?key (Suc ?m) (sift_up (better ?w) ?h ?m)" "shuffled (Suc ?m) ?h (sift_up (better ?w) ?h ?m)"
      by (auto simp: better_key)
    have top: "mset (take (Suc ?m) ?h) = add_mset slot (mset (take ?m (fr_heap f)))"
      using mset_take_Suc [of ?m ?h] len by simp
    have w: "fr_heap ?w = fr_heap f" "fr_size ?w = ?m" "fr_free ?w = fr_free f" "fr_freeCount ?w = n"
      "fr_used ?w = u" "fr_capacity ?w = fr_capacity f" "fr_rejected ?w = fr_rejected f"
      by (simp_all add: g)
    let ?f = "?w\<lparr>fr_size := Suc ?m, fr_heap := sift_up (better ?w) ?h ?m\<rparr>"
    have bw: "better (h\<lparr>fr_heap := l, fr_size := k\<rparr>) = better h" "better (h\<lparr>fr_size := k, fr_heap := l\<rparr>) = better h" for h l k
      by (intro ext, simp add: better_key)+
    have f': "f' = ?f" "b"
    proof -
      have gs: "fr_size g = ?m" "fr_heap g = fr_heap f" by (simp_all add: g(1))
      from push have "(True, ?f) = (b, f')"
        unfolding frontier_push_def Pair Some frontier_siftUp_def Let_def by (simp add: gs bw)
      then show "f' = ?f" "b" by simp_all
    qed
    have wl: "fr_capacity g = fr_capacity f" "fr_free g = fr_free f" "fr_freeCount g = n" "fr_used g = u"
      "length (fr_free g) = fr_capacity f" "length (fr_keyScore g) = fr_capacity f"
      "length (fr_keyDepth g) = fr_capacity f" "length (fr_keyPriority g) = fr_capacity f"
      "length (fr_keyNode g) = fr_capacity f" "length (fr_keySeed g) = fr_capacity f"
      "length (fr_keyParentNode g) = fr_capacity f" "length (fr_keyParentEdge g) = fr_capacity f"
      "length (fr_keyFlags g) = fr_capacity f"
      using frontier_lengths [OF ok] by (simp_all add: g(1))
    have "mset (take (Suc ?m) (sift_up (better ?w) ?h ?m) @ take n (fr_free f)) = mset [0..<u]"
      using up(2) top ms by (simp add: shuffled_def)
    moreover have "length (sift_up (better ?w) ?h ?m) = fr_capacity f"
      using up(2) len by (simp add: shuffled_def)
    ultimately have "frontier_ok ?f"
      unfolding frontier_ok_def entry_heap using g(2,3) len(1) up(1) frontier_lengths(2) [OF ok] by (simp add: wl)
    moreover have "queued ?f = add_mset (stored x) (queued f)"
    proof -
      have "queued ?f = image_mset (entry ?w) (add_mset slot (mset (take ?m (fr_heap f))))"
        using up(2) top by (simp add: queued_def shuffled_def)
      moreover have "image_mset (entry ?w) (mset (take ?m (fr_heap f))) = queued f"
        unfolding queued_def by (intro image_mset_cong) (simp add: old)
      ultimately show ?thesis by (simp only: image_mset_add_mset new)
    qed
    ultimately show ?thesis unfolding f'(1) using f'(2) len(2) w(6,7) by simp
  qed
qed

section \<open>Pop\<close>

lemma pop_empty: "frontier_ok f \<Longrightarrow> queued f = {#} \<Longrightarrow> frontier_pop f = (False, f)"
  using size_queued [of f] by (simp add: frontier_pop_def)

lemma pop_spec:
  assumes ok: "frontier_ok f" and pop: "frontier_pop f = (True, f')"
  defines "x \<equiv> entry f (fr_heap f ! 0)"
  shows "x \<in># queued f \<and> (\<forall>y \<in># queued f. state_key x \<le> state_key y) \<and> queued f' = queued f - {#x#}
     \<and> popped f' x \<and> frontier_ok f' \<and> fr_capacity f' = fr_capacity f \<and> fr_rejected f' = fr_rejected f"
proof -
  note c = frontier_counts [OF ok] and len = frontier_lengths [OF ok]
  from pop obtain n where m: "fr_size f = Suc n" by (cases "fr_size f") (auto simp: frontier_pop_def)
  let ?w = "fr_heap f ! 0" and ?key = "\<lambda>s. state_key (entry f s)"
  let ?h1 = "(fr_heap f)[0 := fr_heap f ! n]"
  define h where "h = (if 0 < n then sift_down (better f) n ?h1 0 else fr_heap f)"
  have n: "n < fr_capacity f" "Suc n \<le> length (fr_heap f)" using c(1,2) m len(1) by linarith+
  have h: "heap_ok ?key n h" "length h = fr_capacity f" "mset (take n h) = mset (take (Suc n) (fr_heap f)) - {#?w#}"
  proof -
    have rest: "mset (take n ?h1) = mset (take (Suc n) (fr_heap f)) - {#?w#}" if "0 < n"
    proof -
      have "take (Suc n) (fr_heap f) = ?w # tl (take n (fr_heap f)) @ [fr_heap f ! n]"
        using n that by (cases "fr_heap f"; cases n) (auto simp: take_Suc_conv_app_nth)
      moreover have "take n ?h1 = fr_heap f ! n # tl (take n (fr_heap f))"
        using n that by (cases "fr_heap f"; cases n) auto
      ultimately show ?thesis by simp
    qed
    have down: "heap_ok ?key n (sift_down (better f) n ?h1 0) \<and> shuffled n ?h1 (sift_down (better f) n ?h1 0)" if "0 < n"
      using c(4) n that unfolding m by (intro sift_down_ok heap_below_pop) (simp_all add: better_key)
    show "heap_ok ?key n h" using down by (simp add: h_def heap_ok_def)
    show "length h = fr_capacity f" using down len(1) by (simp add: h_def shuffled_def)
    show "mset (take n h) = mset (take (Suc n) (fr_heap f)) - {#?w#}"
    proof (cases "0 < n")
      case True
      then show ?thesis using down rest by (simp add: h_def shuffled_def)
    next
      case False
      then show ?thesis using n by (cases "fr_heap f") simp_all
    qed
  qed
  let ?x = "entry f ?w" and ?f = "f\<lparr>fr_size := n, fr_heap := h, fr_node := fr_keyNode f ! ?w, fr_score := fr_keyScore f ! ?w,
      fr_depth := fr_keyDepth f ! ?w, fr_seed := fr_keySeed f ! ?w, fr_parentNode := fr_keyParentNode f ! ?w,
      fr_parentEdge := fr_keyParentEdge f ! ?w, fr_flags := fr_keyFlags f ! ?w,
      fr_free := (fr_free f)[fr_freeCount f := ?w], fr_freeCount := Suc (fr_freeCount f)\<rparr>"
  have entry: "entry ?f = entry f" by (intro ext) (simp add: entry_def)
  have bs: "better (f\<lparr>fr_size := k, fr_heap := l\<rparr>) = better f" for k l
    by (intro ext) (simp add: better_key)
  have "(True, ?f) = (True, f')"
    using pop unfolding frontier_pop_def frontier_siftDown_def Let_def m h_def
    by (cases "0 < n") (simp_all add: bs)
  then have f': "f' = ?f" by simp
  have win: "?w \<in># mset (take (Suc n) (fr_heap f))" using n by (cases "fr_heap f") auto
  have free: "fr_freeCount f < length (fr_free f)" using c(1,2) m len(2) by linarith
  have "mset (take n h @ take (Suc (fr_freeCount f)) ((fr_free f)[fr_freeCount f := ?w])) = mset [0..<fr_used f]"
  proof -
    have "add_mset ?w (mset (take n h)) = mset (take (Suc n) (fr_heap f))"
      unfolding h(3) using win by simp
    moreover have "mset (take n h @ take (Suc (fr_freeCount f)) ((fr_free f)[fr_freeCount f := ?w]))
        = add_mset ?w (mset (take n h)) + mset (take (fr_freeCount f) (fr_free f))"
      using free by (simp add: mset_take_Suc)
    ultimately show ?thesis using c(3) unfolding m by simp
  qed
  moreover have "n + Suc (fr_freeCount f) = fr_used f" using c(1) m by linarith
  ultimately have "frontier_ok ?f"
    unfolding frontier_ok_def entry using h(1) by (simp add: len h(2) c(2))
  moreover have "queued ?f = queued f - {#?x#}"
    unfolding queued_def entry using h(3) win m by (simp add: image_mset_Diff)
  moreover have "?x \<in># queued f" unfolding queued_def m using win by simp
  moreover have "\<forall>y \<in># queued f. state_key ?x \<le> state_key y"
  proof
    fix y assume "y \<in># queued f"
    then obtain j where "j < Suc n" "y = entry f (fr_heap f ! j)"
      using n unfolding queued_def m by (auto simp: in_set_conv_nth)
    with heap_root [OF c(4) [unfolded m]] show "state_key ?x \<le> state_key y" by simp
  qed
  moreover have "popped ?f ?x" by (simp add: popped_def entry_def published_def shown_state_def)
  ultimately show ?thesis unfolding f' x_def by simp
qed

section \<open>The frontier is a bounded priority queue\<close>

text \<open>A caller pops and, if that succeeded, reads the fields.\<close>

definition frontier_next :: "TraversalFrontier \<Rightarrow> PublishedState option \<times> TraversalFrontier" where
  "frontier_next f = (case frontier_pop f of (b, f') \<Rightarrow> (if b then Some (published f') else None, f'))"

interpretation frontier: bounded_queue frontier_ok fr_capacity queued fr_rejected state_key stored shown_state frontier_push frontier_next
proof
  fix f f' x b p
  assume ok: "frontier_ok f"
  show "size (queued f) \<le> fr_capacity f"
    using size_queued [OF ok] frontier_counts(1,2) [OF ok] by linarith
  show "frontier_ok f' \<and> fr_capacity f' = fr_capacity f \<and> b = (size (queued f) < fr_capacity f)
      \<and> queued f' = (if b then add_mset (stored x) (queued f) else queued f)
      \<and> fr_rejected f' = (if b then fr_rejected f else fr_rejected f + 1)" if "frontier_push x f = (b, f')"
    using push_spec [OF ok that] size_queued [OF ok] by simp
  show "queued f = {#} \<and> f' = f" if "frontier_next f = (None, f')"
  proof -
    have "fr_size f = 0" "f' = f"
      using that by (auto simp: frontier_next_def frontier_pop_def Let_def split: prod.splits if_splits)
    then show ?thesis using size_queued [OF ok] by simp
  qed
  show "frontier_ok f' \<and> fr_capacity f' = fr_capacity f \<and> fr_rejected f' = fr_rejected f
      \<and> (\<exists>x. p = shown_state x \<and> x \<in># queued f \<and> queued f' = queued f - {#x#} \<and> (\<forall>y \<in># queued f. state_key x \<le> state_key y))"
    if "frontier_next f = (Some p, f')"
  proof -
    from that have "frontier_pop f = (True, f')" "p = published f'"
      by (auto simp: frontier_next_def split: prod.splits if_splits)
    with pop_spec [OF ok] show ?thesis unfolding popped_def by metis
  qed
qed

text \<open>
  C24. The frontier is a bounded priority queue, whatever is pushed and popped and in whatever order,
  released slots included: a push is refused, and counted as rejected, exactly when as many states as
  the capacity are queued; a pop publishes a queued state that is first in the order of section 7.2,
  by score descending, then depth ascending, then edge priority descending, then node id ascending,
  and removes it; and it finds nothing exactly when nothing is queued. States are kept as 32-bit
  columns keep them. Which of several states with the same key comes first is left open.
\<close>

theorem frontier_pops_in_order:
  "case queue_trace frontier_push frontier_next calls (new_frontier capacity) of (events, f) \<Rightarrow>
     map call_of events = calls
     \<and> queue_run state_key stored shown_state (nat (max 1 capacity)) {#} events (queued f)
     \<and> fr_rejected f = length (filter is_refusal events)"
proof -
  obtain events f where run: "queue_trace frontier_push frontier_next calls (new_frontier capacity) = (events, f)" by fastforce
  have "fr_rejected (new_frontier capacity) = 0" by (simp add: new_frontier_def Let_def)
  with frontier.calls_run [OF _ run] new_frontier_ok [of capacity] run show ?thesis by simp
qed

text \<open>
  The frontier never holds more than its capacity, and the refused states are counted:
  a push succeeds exactly when a slot is free, keeps the queue unchanged otherwise, and
  increments \<open>rejected\<close> then and only then.
\<close>

theorem frontier_push_bounded:
  assumes "frontier_ok f" "frontier_push x f = (b, f')"
  shows "frontier_ok f' \<and> size (queued f') \<le> fr_capacity f
     \<and> b = (fr_size f < fr_capacity f)
     \<and> queued f' = (if b then add_mset (stored x) (queued f) else queued f)
     \<and> fr_rejected f' = (if b then fr_rejected f else fr_rejected f + 1)"
  using push_spec [OF assms] frontier.bound [of f'] by simp

end
