(* ===== verification/Kernel_Traverse.thy ===== *)
theory Kernel_Traverse
  imports Kernel_Safety Kernel_Frontier
begin

text \<open>
  query/kernel-traverse.ts: the bounded best-first walk. The local variables of
  \<open>traverseKernelGraph\<close> are the record \<open>WalkState\<close>; a \<open>break\<close> ends the recursion it is in.
\<close>

unbundle bit_operations_syntax

section \<open>The decay ladder\<close>

fun decay_at :: "int \<Rightarrow> nat \<Rightarrow> int" where
  "decay_at step 0 = SCALE"
| "decay_at step (Suc depth) = to_int32 (mulFixed (decay_at step depth) step SCALE)"

definition decayLadder :: "rat \<Rightarrow> nat \<Rightarrow> int list" where
  "decayLadder decay maxDepth =
     map (decay_at (toFixedPoint (Some decay) SCALE)) [0..<maxDepth + 2]"

section \<open>The best scores\<close>

record TopScores =
  tp_values :: "int list"
  tp_count :: nat

definition new_top :: "int \<Rightarrow> TopScores" where
  "new_top capacity = \<lparr>tp_values = replicate (nat (max 1 capacity)) 0, tp_count = 0\<rparr>"

definition top_full :: "TopScores \<Rightarrow> bool" where
  "top_full t \<longleftrightarrow> tp_count t \<ge> length (tp_values t)"

text \<open>\<open>None\<close> is \<open>Number.NEGATIVE_INFINITY\<close>.\<close>

definition top_floor :: "TopScores \<Rightarrow> int option" where
  "top_floor t = (if tp_count t = 0 then None else Some (tp_values t ! 0))"

text \<open>The buffer is an \<open>Int32Array\<close>: scores are compared as they are and truncated when written.\<close>

fun shift_up :: "int list \<Rightarrow> nat \<Rightarrow> int \<Rightarrow> int list" where
  "shift_up vs 0 score = vs[0 := to_int32 score]"
| "shift_up vs (Suc pos) score =
    (if vs ! pos > score then shift_up (vs[Suc pos := vs ! pos]) pos score else vs[Suc pos := to_int32 score])"

function shift_down :: "int list \<Rightarrow> nat \<Rightarrow> int \<Rightarrow> int list" where
  "shift_down vs pos score =
    (if pos + 1 < length vs \<and> vs ! (pos + 1) < score
     then shift_down (vs[pos := vs ! (pos + 1)]) (pos + 1) score else vs[pos := to_int32 score])"
  by pat_completeness auto
termination by (relation "measure (\<lambda>(vs, pos, _). length vs - pos)") auto

declare shift_down.simps [simp del]

definition top_offer :: "int \<Rightarrow> TopScores \<Rightarrow> TopScores" where
  "top_offer score t =
    (if \<not> top_full t
     then \<lparr>tp_values = shift_up (tp_values t) (tp_count t) score, tp_count = tp_count t + 1\<rparr>
     else if score \<le> tp_values t ! 0 then t
     else t\<lparr>tp_values := shift_down (tp_values t) 0 score\<rparr>)"

section \<open>The walk's state\<close>

record WalkState =
  wk_frontier :: TraversalFrontier
  wk_top :: TopScores
  wk_visited :: "int set"
  wk_visitedNodes :: nat
  wk_visitedEdges :: nat
  wk_depthLimited :: nat
  wk_nodeCapHit :: bool
  wk_edgeCapHit :: bool
  wk_timedOut :: bool
  wk_earlyExit :: bool
  wk_since :: nat
  wk_graphRank :: nat
  wk_table :: CandidateTable
  wk_notes :: kernel_notes

record TraversalOutcome =
  to_visitedNodes :: nat
  to_visitedEdges :: nat
  to_depthLimited :: nat
  to_nodeCapHit :: bool
  to_edgeCapHit :: bool
  to_frontierCapHit :: bool
  to_timedOut :: bool
  to_earlyExit :: bool

definition walk_start :: "KernelPlanContext \<Rightarrow> CandidateTable \<Rightarrow> kernel_notes \<Rightarrow> WalkState" where
  "walk_start context table notes =
     \<lparr>wk_frontier = new_frontier (q_frontierBudget (kx_plan context)), wk_top = new_top (kx_maxSelected context),
      wk_visited = {}, wk_visitedNodes = 0, wk_visitedEdges = 0, wk_depthLimited = 0,
      wk_nodeCapHit = False, wk_edgeCapHit = False, wk_timedOut = False, wk_earlyExit = False,
      wk_since = 0, wk_graphRank = 0, wk_table = table, wk_notes = notes\<rparr>"

section \<open>Seeds\<close>

definition seed_base :: "KernelPlanContext \<Rightarrow> CandidateTable \<Rightarrow> nat \<Rightarrow> int" where
  "seed_base context table slot =
    (let config = kx_config context;
         seedBonus = (if has table slot FLAG_EXACT_SEED then toFixedPoint (Some (exactSeedBonus config)) SCALE
           else if has table slot FLAG_NAME_MATCH then toFixedPoint (Some (nameSeedBonus config)) SCALE
           else toFixedPoint (Some (lexicalSeedBonus config)) SCALE)
     in toFixedPoint (Some (contextGraphSeedConfidenceScore config (confidenceOf table slot))) SCALE + seedBonus)"

definition walk_seed :: "KernelPlanContext \<Rightarrow> nat \<Rightarrow> WalkState \<Rightarrow> WalkState" where
  "walk_seed context slot w =
    (let table = wk_table w in
     if \<not> has table slot FLAG_SEED then w else
     let base = seed_base context table slot;
         node = cr_node (row_of table slot);
         (pushed, frontier) = frontier_push \<lparr>st_node = node, st_score = base, st_depth = 0, st_priority = 0,
           st_seed = node, st_parentNode = - 1, st_parentEdge = - 1,
           st_flags = cr_flags (row_of table slot) AND FLAG_FOCUS\<rparr> (wk_frontier w)
     in w\<lparr>wk_frontier := frontier, wk_table := setGraphScore slot base table\<rparr>)"

section \<open>Edges of a node\<close>

text \<open>The score of a neighbour, reached at \<open>childDecay\<close> over an edge with a multiplier for its direction.\<close>

definition child_score :: "KernelPlanContext \<Rightarrow> int \<Rightarrow> int \<Rightarrow> int \<Rightarrow> edge_step \<Rightarrow> int" where
  "child_score context parentScore childDecay directionMultiplier edge =
    (let edgeWeight = kx_edgeWeights context ! es_type edge;
         confidence = (if es_confidence edge < length (kx_confidenceMultipliers context)
           then kx_confidenceMultipliers context ! es_confidence edge else 0);
         hop = mulFixed (mulFixed (mulFixed edgeWeight confidence SCALE) directionMultiplier SCALE) childDecay SCALE
     in mulFixed parentScore (toFixedPoint (Some (depthDecay (kx_config context))) SCALE) SCALE + hop)"

fun walk_edges ::
  "ContextIndexReader \<Rightarrow> KernelPlanContext \<Rightarrow> int \<Rightarrow> int \<Rightarrow> int \<Rightarrow> int \<Rightarrow> edge_step list \<Rightarrow> WalkState \<Rightarrow> WalkState res" where
  "walk_edges reader context node childDepth childDecay directionMultiplier [] w = Inr w"
| "walk_edges reader context node childDepth childDecay directionMultiplier (edge # edges) w =
    (if wk_visitedEdges w \<ge> maxVisitedEdges CONTEXT_GRAPH_TRAVERSAL_CAPS
     then Inr (w\<lparr>wk_edgeCapHit := True\<rparr>) else
     let (late, since, notes) = check_clock context (wk_since w) (wk_notes w);
         w = w\<lparr>wk_visitedEdges := wk_visitedEdges w + 1, wk_since := since, wk_notes := notes\<rparr> in
     if late then Inr (w\<lparr>wk_timedOut := True\<rparr>)
     else if \<not> mask_has (kx_edgeTypeMask context) (es_type edge)
     then walk_edges reader context node childDepth childDecay directionMultiplier edges w
     else if int (es_target edge) \<in> wk_visited w
     then walk_edges reader context node childDepth childDecay directionMultiplier edges w
     else rbind (admit reader (int (es_target edge)) (wk_table w)) (\<lambda>(slot, table).
     case slot of
       None \<Rightarrow> walk_edges reader context node childDepth childDecay directionMultiplier edges
                 (w\<lparr>wk_nodeCapHit := True, wk_table := table\<rparr>)
     | Some slot \<Rightarrow>
        (let f = wk_frontier w;
             (pushed, frontier) = frontier_push \<lparr>st_node = int (es_target edge),
               st_score = child_score context (fr_score f) childDecay directionMultiplier edge,
               st_depth = childDepth, st_priority = kx_edgeWeights context ! es_type edge,
               st_seed = fr_seed f, st_parentNode = node, st_parentEdge = int (es_edge edge),
               st_flags = (fr_flags f AND FLAG_FOCUS) OR (cr_flags (row_of table slot) AND FLAG_FOCUS)\<rparr> f;
             w = w\<lparr>wk_frontier := frontier, wk_table := table\<rparr> in
         if \<not> pushed then Inr w
         else walk_edges reader context node childDepth childDecay directionMultiplier edges w)))"

text \<open>Both directions; the second is skipped after a timeout or at the edge cap.\<close>

definition expand_node ::
  "ContextIndexReader \<Rightarrow> KernelPlanContext \<Rightarrow> int \<Rightarrow> int \<Rightarrow> WalkState \<Rightarrow> WalkState res" where
  "expand_node reader context node depth w =
    (let config = kx_config context; plan = kx_plan context;
         ladder = decayLadder (depthDecay config) (q_maxDepth plan);
         childDepth = depth + 1;
         childDecay = (if 0 \<le> childDepth \<and> childDepth < int (length ladder) then ladder ! nat childDepth else 0) in
     rbind (rd_outgoing reader node (q_profileMask plan)) (\<lambda>out.
     rbind (walk_edges reader context node childDepth childDecay SCALE out w) (\<lambda>w.
     if wk_timedOut w \<or> wk_edgeCapHit w then Inr w else
     rbind (rd_incoming reader node (q_profileMask plan)) (\<lambda>inc.
     walk_edges reader context node childDepth childDecay
       (toFixedPoint (Some (reverseEdgeMultiplier config)) SCALE) inc w))))"

section \<open>Visiting a node\<close>

text \<open>The first time a node other than a seed is popped: its score, its link and its demoted claim.\<close>

definition settle :: "nat \<Rightarrow> WalkState \<Rightarrow> WalkState" where
  "settle slot w =
    (let f = wk_frontier w; depth = fr_depth f; table = wk_table w;
         table = setGraphScore slot (fr_score f) table;
         table = link slot (fr_seed f) (fr_parentNode f) (fr_parentEdge f) depth table;
         table = contribute slot Local_graph (int (wk_graphRank w)) (fr_score f) (- 1) table;
         table = (case slotOf table (fr_seed f) of
             None \<Rightarrow> table
           | Some seedSlot \<Rightarrow>
               claim slot Local_graph (demoteKernelConfidence (confidenceOf table seedSlot) depth) table);
         table = mark_if (fr_flags f AND FLAG_FOCUS \<noteq> 0) slot FLAG_FOCUS table;
         table = mark_if (node_has table slot PROTECTED) slot FLAG_PROTECTED table;
         table = mark_if (node_has table slot IS_TEST_OR_GATE) slot FLAG_TEST_OR_GATE table;
         table = mark_if (node_has table slot IS_EVIDENCE) slot FLAG_EVIDENCE table
     in w\<lparr>wk_graphRank := wk_graphRank w + 1, wk_table := table\<rparr>)"

definition below_floor :: "int option \<Rightarrow> int option \<Rightarrow> bool" where
  "below_floor score least =
    (case least of None \<Rightarrow> False | Some l \<Rightarrow> (case score of None \<Rightarrow> True | Some s \<Rightarrow> s < l))"

text \<open>The node is visited for the first time; its score is settled and offered.\<close>

definition enter_node :: "WalkState \<Rightarrow> WalkState" where
  "enter_node w = w\<lparr>wk_visited := insert (fr_node (wk_frontier w)) (wk_visited w),
     wk_visitedNodes := wk_visitedNodes w + 1\<rparr>"

definition score_node :: "nat \<Rightarrow> WalkState \<Rightarrow> WalkState" where
  "score_node slot w =
    (let w = (if fr_depth (wk_frontier w) > 0 then settle slot w else w)
     in w\<lparr>wk_top := top_offer (cr_graphScore (row_of (wk_table w) slot)) (wk_top w)\<rparr>)"

text \<open>
  One iteration of the loop after \<open>pop\<close>: \<open>(True, w)\<close> when the loop goes on.
\<close>

definition walk_visit ::
  "ContextIndexReader \<Rightarrow> KernelPlanContext \<Rightarrow> bool \<Rightarrow> WalkState \<Rightarrow> (bool \<times> WalkState) res" where
  "walk_visit reader context safetyComplete w =
    (let node = fr_node (wk_frontier w); depth = fr_depth (wk_frontier w) in
     if node \<in> wk_visited w then Inr (True, w)
     else if wk_visitedNodes w \<ge> maxVisitedNodes CONTEXT_GRAPH_TRAVERSAL_CAPS
     then Inr (False, w\<lparr>wk_nodeCapHit := True\<rparr>) else
     let w = enter_node w in
     case slotOf (wk_table w) node of
       None \<Rightarrow> Inr (True, w)
     | Some slot \<Rightarrow>
        (let w = score_node slot w in
         if safetyComplete \<and> top_full (wk_top w) \<and> below_floor (peekScore (wk_frontier w)) (top_floor (wk_top w))
         then Inr (False, w\<lparr>wk_earlyExit := True\<rparr>)
         else if depth \<ge> int (q_maxDepth (kx_plan context))
         then Inr (True, w\<lparr>wk_depthLimited := wk_depthLimited w + 1\<rparr>)
         else rbind (expand_node reader context node depth w) (\<lambda>w. Inr (\<not> wk_timedOut w, w))))"

section \<open>What a step preserves\<close>

text \<open>
  As for the closure: what counting an edge, stopping, a refused admission and a push preserve,
  the walk over edges preserves. \<open>counted\<close> is the state between counting an edge and pushing.
\<close>

locale walk_step =
  fixes reader :: ContextIndexReader and cx :: KernelPlanContext
    and fits :: "int \<Rightarrow> edge_step \<Rightarrow> bool" and inside counted :: "int \<Rightarrow> WalkState \<Rightarrow> bool"
  assumes outgoing_fits: "rd_outgoing reader n m = Inr es \<Longrightarrow> list_all (fits n) es"
    and incoming_fits: "rd_incoming reader n m = Inr es \<Longrightarrow> list_all (fits n) es"
    and counts: "inside n w \<Longrightarrow> wk_visitedEdges w < maxVisitedEdges CONTEXT_GRAPH_TRAVERSAL_CAPS \<Longrightarrow>
      counted n (w\<lparr>wk_visitedEdges := wk_visitedEdges w + 1, wk_since := since, wk_notes := ns\<rparr>)"
    and counted_inside: "counted n w \<Longrightarrow> inside n w"
    and stopped: "inside n w \<Longrightarrow> inside n (w\<lparr>wk_edgeCapHit := True\<rparr>)" "inside n w \<Longrightarrow> inside n (w\<lparr>wk_timedOut := True\<rparr>)"
    and refused: "counted n w \<Longrightarrow> fits n e \<Longrightarrow> admit reader (int (es_target e)) (wk_table w) = Inr (None, t) \<Longrightarrow>
      inside n (w\<lparr>wk_nodeCapHit := True, wk_table := t\<rparr>)"
    and reached: "counted n w \<Longrightarrow> fits n e \<Longrightarrow> admit reader (int (es_target e)) (wk_table w) = Inr (Some slot, t) \<Longrightarrow>
      int (es_target e) \<notin> wk_visited w \<Longrightarrow> st_node x = int (es_target e) \<Longrightarrow>
      st_parentNode x = n \<Longrightarrow> st_parentEdge x = int (es_edge e) \<Longrightarrow> frontier_push x (wk_frontier w) = (b, f) \<Longrightarrow>
      inside n (w\<lparr>wk_frontier := f, wk_table := t\<rparr>)"
begin

lemma edges: "inside n w \<Longrightarrow> list_all (fits n) es \<Longrightarrow> walk_edges reader cx n d decay dir es w = Inr w' \<Longrightarrow> inside n w'"
proof (induction es arbitrary: w)
  case (Cons e es)
  have fit: "fits n e" "list_all (fits n) es" using Cons.prems(2) by simp_all
  show ?case
  proof (cases "wk_visitedEdges w \<ge> maxVisitedEdges CONTEXT_GRAPH_TRAVERSAL_CAPS")
    case True
    with Cons.prems(3) have "w' = w\<lparr>wk_edgeCapHit := True\<rparr>" by simp
    with stopped(1) [OF Cons.prems(1)] show ?thesis by simp
  next
    case below: False
    obtain late since ns where clock: "check_clock cx (wk_since w) (wk_notes w) = (late, since, ns)"
      by (metis prod_cases3)
    define w1 where "w1 = w\<lparr>wk_visitedEdges := wk_visitedEdges w + 1, wk_since := since, wk_notes := ns\<rparr>"
    have w1: "counted n w1" unfolding w1_def using counts Cons.prems(1) below by simp
    note run = Cons.prems(3) [unfolded walk_edges.simps clock Let_def prod.case, folded w1_def]
    show ?thesis
    proof (cases "late \<or> \<not> mask_has (kx_edgeTypeMask cx) (es_type e) \<or> int (es_target e) \<in> wk_visited w1")
      case True
      with run below counted_inside [OF w1] stopped Cons.IH fit show ?thesis by (auto split: if_splits)
    next
      case False
      with run below obtain r t where a: "admit reader (int (es_target e)) (wk_table w1) = Inr (r, t)"
        by (auto simp: rbind_Inr_iff)
      show ?thesis
      proof (cases r)
        case None
        have "inside n (w1\<lparr>wk_nodeCapHit := True, wk_table := t\<rparr>)" using refused [OF w1 fit(1)] a None by simp
        with run below False a None Cons.IH fit show ?thesis by simp
      next
        case (Some slot)
        define x where "x = \<lparr>st_node = int (es_target e),
               st_score = child_score cx (fr_score (wk_frontier w1)) decay dir e,
               st_depth = d, st_priority = kx_edgeWeights cx ! es_type e,
               st_seed = fr_seed (wk_frontier w1), st_parentNode = n, st_parentEdge = int (es_edge e),
               st_flags = (fr_flags (wk_frontier w1) AND FLAG_FOCUS) OR (cr_flags (row_of t slot) AND FLAG_FOCUS)\<rparr>"
        obtain b f where p: "frontier_push x (wk_frontier w1) = (b, f)" by (metis surj_pair)
        have "inside n (w1\<lparr>wk_frontier := f, wk_table := t\<rparr>)"
          using reached [OF w1 fit(1) _ _ _ _ _ p] a Some False by (simp add: x_def)
        with run below False a Some p Cons.IH fit show ?thesis by (simp add: x_def split: if_splits)
      qed
    qed
  qed
qed simp

lemma expand: "inside n w \<Longrightarrow> expand_node reader cx n depth w = Inr w' \<Longrightarrow> inside n w'"
  by (auto simp: expand_node_def Let_def rbind_Inr_iff split: if_splits
      dest: edges [OF _ outgoing_fits] edges [OF _ incoming_fits])

end

text \<open>With what entering and scoring a node preserves, a visit preserves it.\<close>

locale walk_visits = walk_step +
  fixes good :: "WalkState \<Rightarrow> bool"
  assumes entered: "good w \<Longrightarrow> fr_node (wk_frontier w) \<notin> wk_visited w \<Longrightarrow>
      wk_visitedNodes w < maxVisitedNodes CONTEXT_GRAPH_TRAVERSAL_CAPS \<Longrightarrow> good (enter_node w)"
    and scored: "good w \<Longrightarrow> fr_node (wk_frontier w) \<in> wk_visited w \<Longrightarrow>
      slotOf (wk_table w) (fr_node (wk_frontier w)) = Some slot \<Longrightarrow>
      inside (fr_node (wk_frontier w)) (score_node slot w)"
    and left: "inside n w \<Longrightarrow> good w"
    and flagged: "good w \<Longrightarrow> good (w\<lparr>wk_nodeCapHit := True\<rparr>)" "good w \<Longrightarrow> good (w\<lparr>wk_earlyExit := True\<rparr>)"
      "good w \<Longrightarrow> good (w\<lparr>wk_depthLimited := k\<rparr>)"
begin

lemma visit:
  assumes "good w" "walk_visit reader cx safe w = Inr (b, w')"
  shows "good w'"
proof (cases "fr_node (wk_frontier w) \<in> wk_visited w
    \<or> wk_visitedNodes w \<ge> maxVisitedNodes CONTEXT_GRAPH_TRAVERSAL_CAPS")
  case True
  with assms flagged(1) show ?thesis by (auto simp: walk_visit_def Let_def split: if_splits)
next
  case False
  define w1 where "w1 = enter_node w"
  have w1: "good w1" unfolding w1_def using assms(1) False by (intro entered) auto
  have node: "fr_node (wk_frontier w) = fr_node (wk_frontier w1)" by (simp add: w1_def enter_node_def)
  note run = assms(2) [unfolded walk_visit_def Let_def, folded w1_def]
  show ?thesis
  proof (cases "slotOf (wk_table w1) (fr_node (wk_frontier w))")
    case None
    with run False w1 show ?thesis by simp
  next
    case (Some slot)
    define w2 where "w2 = score_node slot w1"
    have "fr_node (wk_frontier w1) \<in> wk_visited w1" by (simp add: w1_def enter_node_def)
    then have w2: "inside (fr_node (wk_frontier w)) w2" unfolding w2_def using scored [OF w1] Some node by simp
    from run False Some have "w' = w2\<lparr>wk_earlyExit := True\<rparr>
        \<or> w' = w2\<lparr>wk_depthLimited := wk_depthLimited w2 + 1\<rparr>
        \<or> expand_node reader cx (fr_node (wk_frontier w)) (fr_depth (wk_frontier w)) w2 = Inr w'"
      by (auto simp: rbind_Inr_iff w2_def split: if_splits)
    then show ?thesis using left [OF w2] flagged(2,3) left [OF expand [OF w2]] by auto
  qed
qed

end

text \<open>Every edge counted pays for the state it may push.\<close>

lemma push_size: "frontier_push x f = (b, f') \<Longrightarrow> fr_size f' \<le> fr_size f + 1"
  by (auto simp: frontier_push_def allocate_def write_key_def frontier_siftUp_def Let_def split: if_splits)

lemma pop_size: "frontier_pop f = (True, f') \<Longrightarrow> fr_size f' < fr_size f"
  by (auto simp: frontier_pop_def frontier_siftDown_def Let_def split: if_splits)

definition walk_room :: "WalkState \<Rightarrow> nat" where
  "walk_room w = fr_size (wk_frontier w) + (maxVisitedEdges CONTEXT_GRAPH_TRAVERSAL_CAPS - wk_visitedEdges w)"

lemma settle_frontier [simp]: "wk_frontier (settle slot w) = wk_frontier w"
    "wk_visitedEdges (settle slot w) = wk_visitedEdges w"
  by (simp_all add: settle_def Let_def)

lemma room_kept [simp]: "walk_room (enter_node w) = walk_room w" "walk_room (score_node slot w) = walk_room w"
  by (simp_all add: walk_room_def enter_node_def score_node_def Let_def)

interpretation pays: walk_visits reader cx "\<lambda>_ _. True" "\<lambda>_ w. walk_room w \<le> k" "\<lambda>_ w. walk_room w < k"
  "\<lambda>w. walk_room w \<le> k" for reader cx k
  by unfold_locales (simp_all add: list_all_iff, auto simp: walk_room_def dest: push_size)

section \<open>The walk\<close>

function walk_loop ::
  "ContextIndexReader \<Rightarrow> KernelPlanContext \<Rightarrow> bool \<Rightarrow> WalkState \<Rightarrow> WalkState res" where
  "walk_loop reader context safetyComplete w =
    (case frontier_pop (wk_frontier w) of
       (False, f) \<Rightarrow> Inr (w\<lparr>wk_frontier := f\<rparr>)
     | (True, f) \<Rightarrow>
         rbind (walk_visit reader context safetyComplete (w\<lparr>wk_frontier := f\<rparr>)) (\<lambda>(go, w).
         if go then walk_loop reader context safetyComplete w else Inr w))"
  by pat_completeness auto
termination
proof (relation "measure (\<lambda>(_, _, _, w). walk_room w)")
  fix reader cx safe w b f r go w'
  assume "(b, f) = frontier_pop (wk_frontier w)" "b = True"
    "walk_visit reader cx safe (w\<lparr>wk_frontier := f\<rparr>) = Inr r" "(go, w') = r"
  then have "walk_room w' \<le> walk_room (w\<lparr>wk_frontier := f\<rparr>)" "fr_size f < fr_size (wk_frontier w)"
    using pays.visit [OF order.refl] pop_size [of "wk_frontier w" f] by auto
  then show "((reader, cx, safe, w'), reader, cx, safe, w) \<in> measure (\<lambda>(_, _, _, w). walk_room w)"
    by (simp add: walk_room_def)
qed simp

declare walk_loop.simps [simp del]

text \<open>And with what a pop preserves, the whole walk preserves it.\<close>

locale walk_invariant = walk_visits +
  assumes popped: "good w \<Longrightarrow> frontier_pop (wk_frontier w) = (b, f) \<Longrightarrow> good (w\<lparr>wk_frontier := f\<rparr>)"
begin

lemma loop: "good w \<Longrightarrow> walk_loop reader cx safe w = Inr w' \<Longrightarrow> good w'"
proof (induction "walk_room w" arbitrary: w rule: less_induct)
  case less
  obtain b f where pop: "frontier_pop (wk_frontier w) = (b, f)" by (metis surj_pair)
  let ?w = "w\<lparr>wk_frontier := f\<rparr>"
  have w: "good ?w" using popped [OF less.prems(1) pop] .
  note run = less.prems(2) [unfolded walk_loop.simps [of reader cx safe w] pop prod.case]
  show ?case
  proof (cases b)
    case False
    with run w show ?thesis by simp
  next
    case True
    with run obtain go w1 where v: "walk_visit reader cx safe ?w = Inr (go, w1)"
      and rest: "(if go then walk_loop reader cx safe w1 else Inr w1) = Inr w'" by (auto simp: rbind_Inr_iff)
    have "walk_room w1 \<le> walk_room ?w" using pays.visit [OF order.refl v] .
    also have "\<dots> < walk_room w" using pop_size [of "wk_frontier w" f] pop True by (simp add: walk_room_def)
    finally have "walk_room w1 < walk_room w" .
    moreover have "good w1" using visit [OF w v] .
    ultimately show ?thesis using less.hyps rest by (cases go) auto
  qed
qed

end

definition omit_flag :: "KernelOmissionReason \<Rightarrow> bool \<Rightarrow> kernel_notes \<Rightarrow> kernel_notes" where
  "omit_flag reason b notes = omit reason (if b then 1 else 0) notes"

definition traverseKernelGraph ::
  "ContextIndexReader \<Rightarrow> KernelPlanContext \<Rightarrow> CandidateTable \<Rightarrow> bool \<Rightarrow> kernel_notes
     \<Rightarrow> (TraversalOutcome \<times> CandidateTable \<times> kernel_notes) res" where
  "traverseKernelGraph reader context table safetyComplete notes =
    (let w = fold (walk_seed context) [0..<ct_size table] (walk_start context table notes) in
     rbind (walk_loop reader context safetyComplete w) (\<lambda>w.
     let rejected = fr_rejected (wk_frontier w);
         frontierCapHit = rejected > 0;
         notes = omit Depth_limit (int (wk_depthLimited w)) (wk_notes w);
         notes = omit_flag Visit_cap (wk_nodeCapHit w) notes;
         notes = omit_flag Edge_cap (wk_edgeCapHit w) notes;
         notes = omit Frontier_budget (int rejected) notes;
         notes = omit_flag Timeout (wk_timedOut w) notes;
         notes = warn_if (wk_timedOut w) ''the traversal hit the query deadline; results may be incomplete'' notes;
         notes = warn_if frontierCapHit ''the traversal frontier hit its budget; results may be incomplete'' notes
     in Inr (\<lparr>to_visitedNodes = wk_visitedNodes w, to_visitedEdges = wk_visitedEdges w,
              to_depthLimited = wk_depthLimited w, to_nodeCapHit = wk_nodeCapHit w,
              to_edgeCapHit = wk_edgeCapHit w, to_frontierCapHit = frontierCapHit,
              to_timedOut = wk_timedOut w, to_earlyExit = wk_earlyExit w\<rparr>, wk_table w, notes)))"


section \<open>The walk as a step relation\<close>

text \<open>
  The walk as a step relation: one rule for each way an iteration of the loop of
  kernel-traverse.ts can go, counting iterations. The loop is what the relation describes, and
  the count is bounded before it starts.
\<close>

section \<open>Iterations\<close>

inductive walk_iterations ::
  "ContextIndexReader \<Rightarrow> KernelPlanContext \<Rightarrow> bool \<Rightarrow> WalkState \<Rightarrow> nat \<Rightarrow> WalkState \<Rightarrow> bool"
  for reader cx safe where
  empty: "frontier_pop (wk_frontier w) = (False, f) \<Longrightarrow>
      walk_iterations reader cx safe w 0 (w\<lparr>wk_frontier := f\<rparr>)"
| stop: "frontier_pop (wk_frontier w) = (True, f) \<Longrightarrow>
      walk_visit reader cx safe (w\<lparr>wk_frontier := f\<rparr>) = Inr (False, u) \<Longrightarrow> walk_iterations reader cx safe w 1 u"
| step: "frontier_pop (wk_frontier w) = (True, f) \<Longrightarrow>
      walk_visit reader cx safe (w\<lparr>wk_frontier := f\<rparr>) = Inr (True, u) \<Longrightarrow>
      walk_iterations reader cx safe u n v \<Longrightarrow> walk_iterations reader cx safe w (Suc n) v"

inductive_cases walk_iterations_zero: "walk_iterations reader cx safe w 0 v"
inductive_cases walk_iterations_Suc: "walk_iterations reader cx safe w (Suc n) v"
inductive_simps walk_iterations_popped: "walk_iterations reader cx safe w n v"

text \<open>An iteration uses up room: the popped state is paid for, or an edge is.\<close>

lemma visit_room:
  assumes "frontier_pop (wk_frontier w) = (True, f)" "walk_visit reader cx safe (w\<lparr>wk_frontier := f\<rparr>) = Inr (b, u)"
  shows "walk_room u < walk_room w"
proof -
  have "walk_room u \<le> walk_room (w\<lparr>wk_frontier := f\<rparr>)" using pays.visit [OF order.refl assms(2)] .
  also have "\<dots> < walk_room w" using pop_size [OF assms(1)] by (simp add: walk_room_def)
  finally show ?thesis .
qed

lemma iterations_room: "walk_iterations reader cx safe w n v \<Longrightarrow> n \<le> walk_room w"
  by (induction rule: walk_iterations.induct) (fastforce dest: visit_room)+

lemma iterations_loop: "walk_iterations reader cx safe w n v \<Longrightarrow> walk_loop reader cx safe w = Inr v"
  by (induction rule: walk_iterations.induct) (subst walk_loop.simps, simp)+

lemma loop_iterations: "walk_loop reader cx safe w = Inr v \<Longrightarrow> \<exists>n. walk_iterations reader cx safe w n v"
proof (induction "walk_room w" arbitrary: w rule: less_induct)
  case less
  obtain b f where pop: "frontier_pop (wk_frontier w) = (b, f)" by (metis surj_pair)
  note run = less.prems [unfolded walk_loop.simps [of reader cx safe w] pop prod.case]
  show ?case
  proof (cases b)
    case False
    with run pop show ?thesis by (auto intro: walk_iterations.empty)
  next
    case True
    with run obtain go u where v: "walk_visit reader cx safe (w\<lparr>wk_frontier := f\<rparr>) = Inr (go, u)"
      and rest: "(if go then walk_loop reader cx safe u else Inr u) = Inr v" by (auto simp: rbind_Inr_iff)
    from pop True v have "walk_room u < walk_room w" by (simp add: visit_room)
    with less.hyps rest pop True v show ?thesis
      by (cases go) (auto intro: walk_iterations.stop walk_iterations.step)
  qed
qed

text \<open>What the seeds leave in the frontier.\<close>

lemma seeded_room:
  "walk_room (fold (walk_seed cx) slots (walk_start cx t ns))
     \<le> length slots + maxVisitedEdges CONTEXT_GRAPH_TRAVERSAL_CAPS"
proof (induction slots rule: rev_induct)
  case Nil
  show ?case by (simp add: walk_room_def walk_start_def new_frontier_def Let_def)
next
  case (snoc slot slots)
  have "walk_room (walk_seed cx slot w) \<le> Suc (walk_room w)" for w
    using push_size by (fastforce simp: walk_seed_def walk_room_def Let_def split: prod.split)
  from this [of "fold (walk_seed cx) slots (walk_start cx t ns)"] snoc show ?case by simp
qed

section \<open>Properties\<close>

text \<open>
  C35. The best-first walk ends, and soon: from the seeds of a candidate table it returns a state
  exactly when a run of at most one iteration per candidate and per edge of the cap leads there.
\<close>

theorem walk_terminates:
  fixes cx :: KernelPlanContext and table :: CandidateTable and ns :: kernel_notes
  defines "start \<equiv> fold (walk_seed cx) [0..<ct_size table] (walk_start cx table ns)"
  shows "walk_loop reader cx safe start = Inr w
     \<longleftrightarrow> (\<exists>n. n \<le> ct_size table + maxVisitedEdges CONTEXT_GRAPH_TRAVERSAL_CAPS
            \<and> walk_iterations reader cx safe start n w)"
proof -
  have "n \<le> ct_size table + maxVisitedEdges CONTEXT_GRAPH_TRAVERSAL_CAPS"
    if "walk_iterations reader cx safe start n w" for n
    using iterations_room [OF that] seeded_room [of cx "[0..<ct_size table]" table ns]
    unfolding start_def by simp
  then show ?thesis using loop_iterations iterations_loop by blast
qed

end
