(* ===== verification/Kernel_Fuse.thy ===== *)
theory Kernel_Fuse
  imports Kernel_Safety Array_Heap
begin

text \<open>
  query/kernel-fuse.ts: the fused score, the reserves and the best candidates in a fixed-size
  min-heap. The parallel arrays of a reserve or of the heap are one list of cells.
\<close>

unbundle bit_operations_syntax

section \<open>Cells\<close>

record ScoredSlot =
  ss_slot :: nat
  ss_score :: int
  ss_node :: int

section \<open>Reserves\<close>

record Reserve =
  rv_capacity :: int
  rv_cells :: "ScoredSlot list"

definition new_reserve :: "int \<Rightarrow> Reserve" where
  "new_reserve capacity = \<lparr>rv_capacity = capacity, rv_cells = []\<rparr>"

definition outranks :: "int \<Rightarrow> int \<Rightarrow> ScoredSlot \<Rightarrow> bool" where
  "outranks score node other \<longleftrightarrow> score > ss_score other \<or> (score = ss_score other \<and> node < ss_node other)"

definition reserve_offer :: "nat \<Rightarrow> int \<Rightarrow> int \<Rightarrow> Reserve \<Rightarrow> Reserve" where
  "reserve_offer slot score node r =
    (if rv_capacity r \<le> 0 then r else
     let pos = length (takeWhile (\<lambda>other. \<not> outranks score node other) (rv_cells r)) in
     if int pos \<ge> rv_capacity r then r else
     let cells = take pos (rv_cells r) @ \<lparr>ss_slot = slot, ss_score = score, ss_node = node\<rparr> # drop pos (rv_cells r) in
     r\<lparr>rv_cells := (if int (length cells) > rv_capacity r then take (nat (rv_capacity r)) cells else cells)\<rparr>)"

definition reserve_slots :: "Reserve \<Rightarrow> nat list" where
  "reserve_slots r = map ss_slot (rv_cells r)"

section \<open>The bounded top-K\<close>

record BoundedTopK =
  bk_capacity :: nat
  bk_cells :: "ScoredSlot list"
  bk_size :: nat

definition new_topk :: "nat \<Rightarrow> BoundedTopK" where
  "new_topk capacity = \<lparr>bk_capacity = capacity,
     bk_cells = replicate (max 1 capacity) \<lparr>ss_slot = 0, ss_score = 0, ss_node = 0\<rparr>, bk_size = 0\<rparr>"

definition worse :: "int \<Rightarrow> int \<Rightarrow> int \<Rightarrow> int \<Rightarrow> bool" where
  "worse scoreA nodeA scoreB nodeB = (if scoreA \<noteq> scoreB then scoreA < scoreB else nodeA > nodeB)"

definition worse_cell :: "ScoredSlot \<Rightarrow> ScoredSlot \<Rightarrow> bool" where
  "worse_cell a b = worse (ss_score a) (ss_node a) (ss_score b) (ss_node b)"

text \<open>A cell as the \<open>Int32Array\<close>s keep it.\<close>

definition stored_cell :: "nat \<Rightarrow> int \<Rightarrow> int \<Rightarrow> ScoredSlot" where
  "stored_cell slot score node = \<lparr>ss_slot = slot, ss_score = to_int32 score, ss_node = to_int32 node\<rparr>"

definition topk_offer :: "nat \<Rightarrow> int \<Rightarrow> int \<Rightarrow> BoundedTopK \<Rightarrow> BoundedTopK" where
  "topk_offer slot score node k =
    (if bk_size k < bk_capacity k
     then (let cells = (bk_cells k)[bk_size k := stored_cell slot score node]; n = bk_size k + 1 in
           k\<lparr>bk_cells := sift_up worse_cell cells (n - 1), bk_size := n\<rparr>)
     else if \<not> worse (ss_score (bk_cells k ! 0)) (ss_node (bk_cells k ! 0)) score node then k
     else k\<lparr>bk_cells := sift_down worse_cell (bk_size k) ((bk_cells k)[0 := stored_cell slot score node]) 0\<rparr>)"

text \<open>\<open>drain\<close> fills its output from the end, so the worst cell comes last.\<close>

fun topk_drain :: "nat \<Rightarrow> ScoredSlot list \<Rightarrow> nat list" where
  "topk_drain 0 cells = []"
| "topk_drain (Suc n) cells =
    (let cells' = (if n > 0 then sift_down worse_cell n (cells[0 := cells ! n]) 0 else cells) in
     topk_drain n cells' @ [ss_slot (cells ! 0)])"

section \<open>The score of a candidate\<close>

definition freshness_of :: "nat \<Rightarrow> ContextGraphFreshness" where
  "freshness_of code = (if code < length FRESHNESS_CODES then FRESHNESS_CODES ! code else Unknown)"

definition risk_of :: "nat \<Rightarrow> ContextGraphRisk" where
  "risk_of code = (if code < length RISK_CODES then RISK_CODES ! code else Low)"

definition fixed_point :: "rat \<Rightarrow> int" where
  "fixed_point x = toFixedPoint (Some x) SCALE"

definition add_lane :: "KernelPlanContext \<Rightarrow> CandidateTable \<Rightarrow> nat \<Rightarrow> RetrievalLane \<Rightarrow> int \<Rightarrow> int" where
  "add_lane context table slot lane score =
    (let rank = rankIn table slot lane in
     if rank < 0 \<or> rank \<ge> int (rrfRankCap (kx_kernelConfig context)) then score
     else score + mulFixed (kx_laneWeights context ! LANE_SLOT lane) (kx_rrf context ! nat rank) SCALE)"

definition evidence_count :: "KernelPlanContext \<Rightarrow> CandidateTable \<Rightarrow> nat \<Rightarrow> int" where
  "evidence_count context table slot =
     (if node_has table slot HAS_PATH \<and> node_has table slot HAS_CONTENT_HASH then 1 else 0)
     + min (cr_depth (row_of table slot)) (maxProvenancePerNode (kx_config context))"

definition fused_score :: "KernelPlanContext \<Rightarrow> CandidateTable \<Rightarrow> nat \<Rightarrow> CompactNodeScoreFields \<Rightarrow> int" where
  "fused_score context table slot attrs =
    (let config = kx_config context; kernelConfig = kx_kernelConfig context;
         riskMultiplier = (if kx_highRisk context then fixed_point (highRiskRelevanceMultiplier config) else SCALE);
         score = (if has table slot FLAG_EXACT_SEED then fixed_point (exactAnchorPriority kernelConfig) else 0);
         score = (if has table slot FLAG_NAME_MATCH then score + fixed_point (nameAnchorPriority kernelConfig) else score);
         score = fold (add_lane context table slot) RETRIEVAL_LANES score;
         score = score + cr_graphScore (row_of table slot);
         score = score + mulFixed (math_round (of_int (int (sf_trust attrs) * SCALE) / of_int CONTEXT_INDEX_TRUST_SCALE))
                   (fixed_point (trustBonus config)) SCALE;
         score = score + fixed_point (freshnessBonus config (freshness_of (sf_freshness attrs)));
         score = score + mulFixed (fixed_point (riskRelevanceBonus config (risk_of (sf_risk attrs)))) riskMultiplier SCALE;
         score = score + min (fixed_point (evidenceCoverageBonus config) * evidence_count context table slot)
                   (fixed_point (evidenceCoverageCap config))
     in score - min (fixed_point (tokenCostPenaltyPerToken config * of_int (cr_tokenCost (row_of table slot))))
                  (fixed_point (tokenCostPenaltyCap config)))"

section \<open>Fusion\<close>

record FusionState =
  fs_fused :: "int list"
  fs_pool :: BoundedTopK
  fs_staleExcluded :: nat
  fs_invalidatedExcluded :: nat
  fs_ungroundableExcluded :: nat
  fs_focusExcluded :: nat
  fs_protectedReachable :: nat
  fs_conflictsReachable :: nat
  fs_testOrGateReachable :: bool
  fs_exactSeedReachable :: bool
  fs_protectedGates :: Reserve
  fs_conflicts :: Reserve
  fs_exactSeeds :: Reserve
  fs_testOrGates :: Reserve
  fs_laneLeaders :: "Reserve list"

record FusionResult =
  fu_order :: "nat list"
  fu_protectedGates :: "nat list"
  fu_conflicts :: "nat list"
  fu_exactSeeds :: "nat list"
  fu_testOrGates :: "nat list"
  fu_laneLeaders :: "int list"
  fu_fused :: "int list"
  fu_staleExcluded :: nat
  fu_invalidatedExcluded :: nat
  fu_ungroundableExcluded :: nat
  fu_focusExcluded :: nat
  fu_protectedReachable :: nat
  fu_conflictsReachable :: nat
  fu_testOrGateReachable :: bool
  fu_exactSeedReachable :: bool

definition fusion_start :: "KernelPlanContext \<Rightarrow> CandidateTable \<Rightarrow> FusionState" where
  "fusion_start context table =
    (let config = kx_config context in
     \<lparr>fs_fused = replicate (ct_size table) 0,
      fs_pool = new_topk (min (ct_size table) (nat (max 1 (kx_maxSelected context) * 4))),
      fs_staleExcluded = 0, fs_invalidatedExcluded = 0, fs_ungroundableExcluded = 0, fs_focusExcluded = 0,
      fs_protectedReachable = 0, fs_conflictsReachable = 0, fs_testOrGateReachable = False,
      fs_exactSeedReachable = False,
      fs_protectedGates = new_reserve (protectedGateReserveSlots config),
      fs_conflicts = new_reserve (protectedGateReserveSlots config),
      fs_exactSeeds = new_reserve (exactSeedReserveSlots (kx_kernelConfig context)),
      fs_testOrGates = new_reserve (testOrGateReserveSlots config),
      fs_laneLeaders = map (\<lambda>_. new_reserve 1) RETRIEVAL_LANES\<rparr>)"

definition offer_if :: "bool \<Rightarrow> nat \<Rightarrow> int \<Rightarrow> int \<Rightarrow> Reserve \<Rightarrow> Reserve" where
  "offer_if b slot score node r = (if b then reserve_offer slot score node r else r)"

text \<open>An admissible candidate: counted, scored and offered to the pool and the reserves.\<close>

definition fuse_admissible ::
  "KernelPlanContext \<Rightarrow> CandidateTable \<Rightarrow> nat \<Rightarrow> CompactNodeScoreFields \<Rightarrow> FusionState \<Rightarrow> FusionState" where
  "fuse_admissible context table slot attrs s =
    (let score = fused_score context table slot attrs; node = cr_node (row_of table slot);
         gate = has table slot FLAG_PROTECTED; conflict = has table slot FLAG_CONFLICT;
         test = has table slot FLAG_TEST_OR_GATE; exact = has table slot FLAG_EXACT_SEED in
     s\<lparr>fs_fused := (fs_fused s)[slot := to_int32 score],
       fs_pool := topk_offer slot score node (fs_pool s),
       fs_protectedReachable := fs_protectedReachable s + (if gate then 1 else 0),
       fs_conflictsReachable := fs_conflictsReachable s + (if conflict then 1 else 0),
       fs_testOrGateReachable := fs_testOrGateReachable s \<or> test,
       fs_exactSeedReachable := fs_exactSeedReachable s \<or> exact,
       fs_protectedGates := offer_if gate slot score node (fs_protectedGates s),
       fs_conflicts := offer_if conflict slot score node (fs_conflicts s),
       fs_exactSeeds := offer_if exact slot score node (fs_exactSeeds s),
       fs_testOrGates := offer_if test slot score node (fs_testOrGates s),
       fs_laneLeaders := map (\<lambda>lane. offer_if (rankIn table slot lane \<ge> 0) slot score node
         (fs_laneLeaders s ! LANE_SLOT lane)) RETRIEVAL_LANES\<rparr>)"

definition fuse_slot ::
  "ContextIndexReader \<Rightarrow> KernelPlanContext \<Rightarrow> CandidateTable \<Rightarrow> nat \<Rightarrow> FusionState \<Rightarrow> FusionState res" where
  "fuse_slot reader context table slot s =
    (if node_has table slot INVALIDATED
     then Inr (s\<lparr>fs_invalidatedExcluded := fs_invalidatedExcluded s + 1\<rparr>)
     else rbind (rd_nodeScoreFields reader (cr_node (row_of table slot))) (\<lambda>attrs.
     if \<not> node_has table slot GROUNDABLE
     then Inr (if sf_freshness attrs < length FRESHNESS_CODES \<and> FRESHNESS_CODES ! sf_freshness attrs = Stale
               then s\<lparr>fs_staleExcluded := fs_staleExcluded s + 1\<rparr>
               else s\<lparr>fs_ungroundableExcluded := fs_ungroundableExcluded s + 1\<rparr>)
     else if kx_focusPaths context \<noteq> [] \<and> \<not> has table slot FLAG_FOCUS
     then Inr (s\<lparr>fs_focusExcluded := fs_focusExcluded s + 1\<rparr>)
     else Inr (fuse_admissible context table slot attrs s)))"

definition fuseKernelCandidates ::
  "ContextIndexReader \<Rightarrow> KernelPlanContext \<Rightarrow> CandidateTable \<Rightarrow> kernel_notes \<Rightarrow> (FusionResult \<times> kernel_notes) res" where
  "fuseKernelCandidates reader context table notes =
     rbind (fold_res (fuse_slot reader context table) [0..<ct_size table] (fusion_start context table)) (\<lambda>s.
     let notes = omit Stale_node (int (fs_staleExcluded s)) notes;
         notes = omit Invalidated_proof (int (fs_invalidatedExcluded s)) notes;
         notes = omit No_provenance (int (fs_ungroundableExcluded s)) notes;
         notes = omit Focus_filtered (int (fs_focusExcluded s)) notes;
         notes = (if fs_focusExcluded s > 0
           then warn (decimal (fs_focusExcluded s) @ js '' candidate(s) were outside the requested focus paths'') notes
           else notes)
     in Inr (\<lparr>fu_order = topk_drain (bk_size (fs_pool s)) (bk_cells (fs_pool s)),
          fu_protectedGates = reserve_slots (fs_protectedGates s),
          fu_conflicts = reserve_slots (fs_conflicts s),
          fu_exactSeeds = reserve_slots (fs_exactSeeds s),
          fu_testOrGates = reserve_slots (fs_testOrGates s),
          fu_laneLeaders = map (\<lambda>lane. case reserve_slots (fs_laneLeaders s ! LANE_SLOT lane) of
             [] \<Rightarrow> - 1 | best # _ \<Rightarrow> int best) RETRIEVAL_LANES,
          fu_fused = fs_fused s,
          fu_staleExcluded = fs_staleExcluded s, fu_invalidatedExcluded = fs_invalidatedExcluded s,
          fu_ungroundableExcluded = fs_ungroundableExcluded s, fu_focusExcluded = fs_focusExcluded s,
          fu_protectedReachable = fs_protectedReachable s, fu_conflictsReachable = fs_conflictsReachable s,
          fu_testOrGateReachable = fs_testOrGateReachable s, fu_exactSeedReachable = fs_exactSeedReachable s\<rparr>, notes))"

end
