(* ===== verification/Kernel_Select.thy ===== *)
theory Kernel_Select
  imports Kernel_Fuse
begin

text \<open>query/kernel-select.ts: the bounded selector and the selected candidates.\<close>

unbundle bit_operations_syntax

section \<open>The selector\<close>

record Selector =
  sl_chosen :: "nat list"
  sl_taken :: "nat set"
  sl_perGroup :: "int \<rightharpoonup> nat"
  sl_spent :: int
  sl_notes :: kernel_notes

definition new_selector :: "kernel_notes \<Rightarrow> Selector" where
  "new_selector notes = \<lparr>sl_chosen = [], sl_taken = {}, sl_perGroup = Map.empty, sl_spent = 0, sl_notes = notes\<rparr>"

definition costOf :: "KernelPlanContext \<Rightarrow> CandidateTable \<Rightarrow> nat \<Rightarrow> int" where
  "costOf context table slot = max (minTokenCost (kx_config context)) (cr_tokenCost (row_of table slot))"

definition groupCount :: "CandidateTable \<Rightarrow> Selector \<Rightarrow> nat \<Rightarrow> nat" where
  "groupCount table s slot =
    (case sl_perGroup s (cr_group (row_of table slot)) of None \<Rightarrow> 0 | Some n \<Rightarrow> n)"

definition selector_take ::
  "KernelPlanContext \<Rightarrow> CandidateTable \<Rightarrow> int \<Rightarrow> nat \<Rightarrow> Selector \<Rightarrow> bool \<times> Selector" where
  "selector_take context table limit slot s =
    (if slot \<in> sl_taken s then (True, s)
     else if int (length (sl_chosen s)) \<ge> limit
     then (False, s\<lparr>sl_notes := omit Max_selected 1 (sl_notes s)\<rparr>)
     else let cost = costOf context table slot in
     if sl_spent s + cost > q_tokenBudget (kx_plan context)
     then (False, s\<lparr>sl_notes := omit Token_budget 1 (sl_notes s)\<rparr>)
     else (True, s\<lparr>sl_chosen := sl_chosen s @ [slot],
                   sl_taken := insert slot (sl_taken s),
                   sl_perGroup := (sl_perGroup s)(cr_group (row_of table slot) \<mapsto> groupCount table s slot + 1),
                   sl_spent := sl_spent s + cost\<rparr>))"

text \<open>Taking each of a list, as the reserve loops do, ignoring what \<open>take\<close> returns.\<close>

definition take_each ::
  "KernelPlanContext \<Rightarrow> CandidateTable \<Rightarrow> nat list \<Rightarrow> Selector \<Rightarrow> Selector" where
  "take_each context table slots s =
     fold (\<lambda>slot s. snd (selector_take context table (kx_maxSelected context) slot s)) slots s"

section \<open>Contributions\<close>

definition contribution :: "KernelPlanContext \<Rightarrow> CandidateTable \<Rightarrow> nat \<Rightarrow> RetrievalLane \<Rightarrow> LaneContribution" where
  "contribution context table slot lane =
    (let anchorTerm = cr_anchorTerm (row_of table slot) in
     \<lparr>lc_lane = lane, lc_rank = rankIn table slot lane, lc_score = scoreIn table slot lane,
      lc_termIds = (if lane = Anchor then if anchorTerm \<ge> 0 then [anchorTerm] else []
        else if lane = Local_graph then [] else q_termIds (kx_plan context))\<rparr>)"

definition contributionsFor :: "KernelPlanContext \<Rightarrow> CandidateTable \<Rightarrow> nat \<Rightarrow> LaneContribution list" where
  "contributionsFor context table slot =
     map (contribution context table slot) (filter (\<lambda>lane. \<not> rankIn table slot lane < 0) RETRIEVAL_LANES)"

section \<open>Selection\<close>

record SelectionResult =
  sr_selected :: "SelectedCandidate list"
  sr_tokenCost :: int
  sr_truncated :: bool
  sr_guarantees :: KernelGuarantees

definition fill_step ::
  "KernelPlanContext \<Rightarrow> CandidateTable \<Rightarrow> bool \<Rightarrow> int \<Rightarrow> nat \<Rightarrow> Selector \<Rightarrow> Selector" where
  "fill_step context table diversityApplies allowance slot s =
    (if slot \<in> sl_taken s then s
     else if diversityApplies \<and> (int (groupCount table s slot) \<ge> allowance
               \<or> int (groupCount table s slot) \<ge> maxRedundancyGroupMembers (kx_config context))
     then s\<lparr>sl_notes := omit Redundant_sibling 1 (sl_notes s)\<rparr>
     else snd (selector_take context table (kx_maxSelected context) slot s))"

text \<open>Steps 2 to 5: the reserves and the lane leaders.\<close>

definition take_reserves ::
  "KernelPlanContext \<Rightarrow> CandidateTable \<Rightarrow> FusionResult \<Rightarrow> kernel_notes \<Rightarrow> Selector" where
  "take_reserves context table fusion notes =
    (let plan = kx_plan context;
         safetyProfile = kx_highRisk context \<or> q_profile plan = Review;
         s = new_selector notes;
         s = (if safetyProfile then take_each context table (fu_protectedGates fusion) s else s);
         s = (if safetyProfile then take_each context table (fu_conflicts fusion) s else s);
         s = take_each context table (fu_exactSeeds fusion) s;
         s = (if q_profile plan = Implementation then take_each context table (fu_testOrGates fusion) s else s)
     in take_each context table
          (concat (map (\<lambda>lane. let leader = fu_laneLeaders fusion ! LANE_SLOT lane in
             if leader \<ge> 0 then [nat leader] else []) RETRIEVAL_LANES)) s)"

text \<open>Steps 6 and 7: the share of a group, whether it applies, and the fill.\<close>

definition group_allowance :: "KernelPlanContext \<Rightarrow> int" where
  "group_allowance context = max (minGroupSlots (kx_config context))
     \<lceil>of_int (kx_maxSelected context) * moduleShareCap (kx_config context)\<rceil>"

definition diversity_applies :: "CandidateTable \<Rightarrow> FusionResult \<Rightarrow> bool" where
  "diversity_applies table fusion \<longleftrightarrow>
     length (remdups (map (\<lambda>slot. cr_group (row_of table slot)) (fu_order fusion))) > 1"

definition choose_slots ::
  "KernelPlanContext \<Rightarrow> CandidateTable \<Rightarrow> FusionResult \<Rightarrow> kernel_notes \<Rightarrow> Selector" where
  "choose_slots context table fusion notes =
     fold (fill_step context table (diversity_applies table fusion) (group_allowance context))
       (fu_order fusion) (take_reserves context table fusion notes)"

definition selection_guarantees :: "CandidateTable \<Rightarrow> FusionResult \<Rightarrow> Selector \<Rightarrow> KernelGuarantees" where
  "selection_guarantees table fusion s =
    (let selectedSet = set (sl_chosen s) in
     \<lparr>gu_exactSeedAvailable = fu_exactSeedReachable fusion,
      gu_exactSeedSelected = list_ex (\<lambda>slot. has table slot FLAG_EXACT_SEED) (sl_chosen s),
      gu_protectedGatesReachable = fu_protectedReachable fusion,
      gu_protectedGatesSelected = length (filter (\<lambda>slot. slot \<in> selectedSet) (fu_protectedGates fusion)),
      gu_conflictsReachable = fu_conflictsReachable fusion,
      gu_conflictsSelected = length (filter (\<lambda>slot. slot \<in> selectedSet) (fu_conflicts fusion)),
      gu_testOrGateReachable = fu_testOrGateReachable fusion,
      gu_testOrGateSelected = list_ex (\<lambda>slot. has table slot FLAG_TEST_OR_GATE) (sl_chosen s)\<rparr>)"

definition guarantee_warnings :: "KernelPlanContext \<Rightarrow> KernelGuarantees \<Rightarrow> kernel_notes \<Rightarrow> kernel_notes" where
  "guarantee_warnings context g notes =
    (let safetyProfile = kx_highRisk context \<or> q_profile (kx_plan context) = Review;
         notes = warn_if (gu_exactSeedAvailable g \<and> \<not> gu_exactSeedSelected g)
           ''an exact seed did not fit the token budget; widen tokenBudget or narrow the query'' notes;
         notes = warn_if (safetyProfile \<and> gu_protectedGatesReachable g > gu_protectedGatesSelected g)
           ''a reachable protected gate did not fit the token budget on a safety-relevant query'' notes;
         notes = warn_if (safetyProfile \<and> gu_conflictsReachable g > gu_conflictsSelected g)
           ''a reachable conflict did not fit the token budget on a safety-relevant query'' notes
     in warn_if (q_profile (kx_plan context) = Implementation \<and> gu_testOrGateReachable g \<and> \<not> gu_testOrGateSelected g)
          ''no reachable test or gate fit the token budget on an implementation query'' notes)"

definition selected_candidate ::
  "KernelPlanContext \<Rightarrow> CandidateTable \<Rightarrow> FusionResult \<Rightarrow> nat \<Rightarrow> SelectedCandidate" where
  "selected_candidate context table fusion slot =
    (let r = row_of table slot in
     \<lparr>sc_candidate = \<lparr>cc_node = cr_node r, cc_score = fu_fused fusion ! slot, cc_seed = cr_seed r,
        cc_parentNode = cr_parentNode r, cc_parentEdge = cr_parentEdge r, cc_depth = cr_depth r,
        cc_flags = cr_flags r\<rparr>,
      sc_lane = laneOf_slot table slot,
      sc_confidence = confidenceOf table slot,
      sc_contributions = contributionsFor context table slot,
      sc_tokenCost = costOf context table slot,
      sc_group = cr_group r,
      sc_parentEdges = parentChain table slot (q_maxDepth (kx_plan context))\<rparr>)"

text \<open>The presentation order: score descending, then node ascending.\<close>

definition presentation_key :: "SelectedCandidate \<Rightarrow> int \<times> int" where
  "presentation_key c = (- cc_score (sc_candidate c), cc_node (sc_candidate c))"

definition omitted :: "kernel_notes \<Rightarrow> KernelOmissionReason \<Rightarrow> bool" where
  "omitted notes reason \<longleftrightarrow> (case kn_omissions notes reason of None \<Rightarrow> 0 | Some n \<Rightarrow> n) > 0"

definition selectKernelCandidates ::
  "KernelPlanContext \<Rightarrow> CandidateTable \<Rightarrow> FusionResult \<Rightarrow> kernel_notes \<Rightarrow> SelectionResult \<times> kernel_notes" where
  "selectKernelCandidates context table fusion notes =
    (let s = choose_slots context table fusion notes;
         guarantees = selection_guarantees table fusion s;
         notes = guarantee_warnings context guarantees (sl_notes s);
         selected = sort_key presentation_key (map (selected_candidate context table fusion) (sl_chosen s))
     in (\<lparr>sr_selected = selected, sr_tokenCost = sl_spent s,
          sr_truncated = omitted notes Token_budget \<or> omitted notes Max_selected,
          sr_guarantees = guarantees\<rparr>, notes))"

end
