(* ===== verification/Kernel.thy ===== *)
theory Kernel
  imports Kernel_Traverse Kernel_Select
begin

text \<open>query/kernel.ts: the whole query path over an open index.\<close>

record ContextKernelOptions =
  kn_plan :: KernelPlanOptions
  kn_safetyClosure :: "bool option"

definition graph_telemetry :: "TraversalOutcome \<Rightarrow> LaneTelemetry" where
  "graph_telemetry traversal = \<lparr>lt_lane = Local_graph, lt_matchedTerms = 0,
     lt_postingsExamined = to_visitedEdges traversal, lt_candidates = to_visitedNodes traversal,
     lt_truncated = to_nodeCapHit traversal \<or> to_edgeCapHit traversal \<or> to_frontierCapHit traversal\<rparr>"

definition runContextKernel ::
  "(js_string \<Rightarrow> js_string) \<Rightarrow> (js_string \<Rightarrow> js_string) \<Rightarrow> ContextIndexReader \<Rightarrow> KernelRequest
     \<Rightarrow> ContextKernelOptions \<Rightarrow> ContextKernelResult res" where
  "runContextKernel nfkc lower reader request options =
     rbind (resolveQueryPlan nfkc lower reader request (kn_plan options)) (\<lambda>(context, notes).
     rbind (runSeedLanes reader context request (new_table (q_candidateBudget (kx_plan context))) notes)
       (\<lambda>(lanes, table, notes).
     rbind (markNameAnchors reader context table) (\<lambda>(named, table).
     let seedingOverflow = ct_overflow table;
         safetyWanted = (case kn_safetyClosure options of None \<Rightarrow> True | Some b \<Rightarrow> b);
         safetyRequired = kx_highRisk context \<or> q_profile (kx_plan context) = Review in
     rbind (if safetyWanted \<or> safetyRequired then runSafetyClosure reader context table notes
            else Inr (\<lparr>so_visitedNodes = 0, so_visitedEdges = 0, so_capHit = False, so_timedOut = False\<rparr>, table, notes))
       (\<lambda>(safety, table, notes).
     rbind (traverseKernelGraph reader context table (\<not> so_capHit safety \<and> \<not> so_timedOut safety) notes)
       (\<lambda>(traversal, table, notes).
     let lanes = lanes @ [graph_telemetry traversal];
         notes = omit Candidate_budget (int (ct_overflow table) - int seedingOverflow) notes in
     rbind (fuseKernelCandidates reader context table notes) (\<lambda>(fusion, notes).
     let (selection, notes) = selectKernelCandidates context table fusion notes;
         timedOut = to_timedOut traversal \<or> so_timedOut safety;
         (finished, notes) = read_clock (kx_clock context) notes
     in Inr \<lparr>res_plan = kx_plan context,
             res_selected = sr_selected selection,
             res_lanes = lanes,
             res_omissions = kn_omissions notes,
             res_warnings = kn_warnings notes,
             res_candidateCount = ct_size table,
             res_visitedNodes = to_visitedNodes traversal + so_visitedNodes safety,
             res_visitedEdges = to_visitedEdges traversal + so_visitedEdges safety,
             res_tokenCost = sr_tokenCost selection,
             res_truncated = sr_truncated selection \<or> to_nodeCapHit traversal \<or> to_edgeCapHit traversal
               \<or> to_frontierCapHit traversal \<or> timedOut \<or> ct_overflow table > 0,
             res_timedOut = timedOut,
             res_guarantees = sr_guarantees selection,
             res_durationMs = max 0 (finished - kx_startedAt context)\<rparr>))))))"

text \<open>A clock that never advances.\<close>

definition fixedKernelClock :: "rat \<Rightarrow> KernelClock" where
  "fixedKernelClock now = (\<lambda>_. now)"


section \<open>The interface of an index\<close>

text \<open>
  What the query kernel relies on of the index behind the reader interface, as a locale, and the
  binary reader as its instance. Everything the interface names is a node of the index: postings,
  scored postings and the ends of edges.
\<close>

section \<open>The interface\<close>

definition live :: "ContextIndexReader \<Rightarrow> int \<Rightarrow> bool" where
  "live reader node \<longleftrightarrow> 0 \<le> node \<and> node < rd_nodeCount reader"

definition live_postings :: "ContextIndexReader \<Rightarrow> PostingSlice \<Rightarrow> bool" where
  "live_postings reader p \<longleftrightarrow> (\<forall>i n. posting_node p i = Inr n \<longrightarrow> live reader (int n))"

definition live_scored :: "ContextIndexReader \<Rightarrow> ScoredPostingSlice \<Rightarrow> bool" where
  "live_scored reader p \<longleftrightarrow> (\<forall>i n. scored_node p i = Inr n \<longrightarrow> live reader (int n))"

definition live_edge :: "ContextIndexReader \<Rightarrow> edge_step \<Rightarrow> bool" where
  "live_edge reader e \<longleftrightarrow> live reader (int (es_target e))"

text \<open>\<open>valid\<close> says that the index is one the reader opened.\<close>

locale index_interface =
  fixes reader :: ContextIndexReader and valid :: bool
  assumes node_limit: "valid \<Longrightarrow> rd_nodeCount reader \<le> 2 ^ 24"
    and exact_live: "valid \<Longrightarrow> rd_exact reader t m = Inr p \<Longrightarrow> live_postings reader p"
    and basename_live: "valid \<Longrightarrow> rd_basename reader t = Inr p \<Longrightarrow> live_postings reader p"
    and lexical_live: "valid \<Longrightarrow> rd_lexical reader ids bounds = Inr sp \<Longrightarrow> live_scored reader sp"
    and coarse_live: "valid \<Longrightarrow> rd_coarse reader ids bounds = Inr sp \<Longrightarrow> live_scored reader sp"
    and outgoing_live: "valid \<Longrightarrow> rd_outgoing reader n pm = Inr es \<Longrightarrow> list_all (live_edge reader) es"
    and incoming_live: "valid \<Longrightarrow> rd_incoming reader n pm = Inr es \<Longrightarrow> list_all (live_edge reader) es"

section \<open>The binary reader\<close>

lemma postings_live:
  assumes "geometry_ok g" "lane \<in> {g_exact g, g_basename g}" "postingsFor g lane t = Inr p" "posting_node p i = Inr n"
  shows "n < g_nodeCount g"
proof -
  have "geometry_lane_ok g lane" using assms(1,2) by (auto simp: geometry_ok_def)
  from postings_lookup [OF this, of t] assms(3) have
    all: "\<forall>i < posting_length p. \<exists>m. posting_node p (int i) = Inr m \<and> m < g_nodeCount g" by auto
  have "0 \<le> i" "nat i < posting_length p" using assms(4) by (cases p; auto split: if_splits)+
  with all assms(4) show ?thesis by (metis Inr_inject int_nat_eq)
qed

lemma scored_live:
  assumes "geometry_ok g" "lane \<in> {g_lexicon g, g_coarse g}" "mergePostings g lane ids bounds = Inr sp"
    "scored_node sp i = Inr n"
  shows "n < g_nodeCount g"
proof (cases sp)
  case (ArrayScoredPostingSlice nodes scores matched truncated)
  have lane: "geometry_lane_ok g lane" using assms(1,2) by (auto simp: geometry_ok_def)
  have "length nodes = length scores"
    using assms(3) ArrayScoredPostingSlice by (auto simp: mergePostings_def Let_def rbind_Inr_iff split: if_splits)
  then have "nodes = map fst (zip nodes scores)" by simp
  also have "zip nodes scores = merge_ranking g lane ids bounds"
    using merge_postings_ranking [OF lane, of ids bounds] assms(3) ArrayScoredPostingSlice by auto
  finally have "nodes = map fst (merge_ranking g lane ids bounds)" .
  moreover have "n \<in> set nodes" using assms(4) ArrayScoredPostingSlice by (auto split: if_splits)
  ultimately show ?thesis by (auto simp: merge_ranking_def Let_def dest!: in_set_takeD)
qed (use assms(4) in simp)

lemma outgoing_edges_live:
  assumes "geometry_ok g" "node < g_nodeCount g" "rbind (openOutgoingCursor g node m) (cursor_drain g) = Inr es" "e \<in> set es"
  shows "es_target e < g_nodeCount g"
proof -
  obtain c where c: "openOutgoingCursor g node m = Inr c" "cursor_ok g c" "c_edgeSource c = None"
    "remaining g c = filter (passes g m) (out_edges g node)" using open_outgoing [OF assms(1,2)] by metis
  have csr: "csr_base_ok g (g_outOffsetBase g) (g_outEdgeBase g)" "edges_ok g" using assms(1) by (simp_all add: geometry_ok_def)
  have "es = map (edge_row g None) (filter (passes g m) (out_edges g node))"
    using assms(3) c cursor_drain_remaining [OF c(2)] by simp
  then obtain i where "i \<in> set (out_edges g node)" "e = edge_row g None i" using assms(4) by auto
  with bucket_slots(2) [OF csr(1) assms(2)] csr(2) show ?thesis
    by (auto simp: out_edges_def edge_row_def edges_ok_def)
qed

lemma incoming_edges_live:
  assumes "geometry_ok g" "node < g_nodeCount g" "buildEdgeSourceIndex g = Inr sources"
    "rbind (openIncomingCursor g sources node m) (cursor_drain g) = Inr es" "e \<in> set es"
  shows "es_target e < g_nodeCount g"
proof -
  have len: "length sources = g_edgeCount g" using edge_source_index [OF assms(1)] assms(3) by (metis Inr_inject)
  obtain c where c: "openIncomingCursor g sources node m = Inr c" "cursor_ok g c" "c_edgeSource c = Some sources"
    "remaining g c = filter (passes g m) (in_edges g node)" using open_incoming [OF assms(1,2) len] by metis
  have csr: "csr_base_ok g (g_inOffsetBase g) (g_inEdgeBase g)" using assms(1) by (simp add: geometry_ok_def)
  have "es = map (edge_row g (Some sources)) (filter (passes g m) (in_edges g node))"
    using assms(4) c cursor_drain_remaining [OF c(2)] by simp
  then obtain i where "i \<in> set (in_edges g node)" "e = edge_row g (Some sources) i" using assms(5) by auto
  with bucket_slots(2) [OF csr assms(2)] edge_sources_live [OF assms(3)] assms(2) len show ?thesis
    by (auto simp: in_edges_def edge_row_def)
qed

lemma reader_geometry: "reader_ok r \<Longrightarrow> geometry_ok (r_geometry r)"
  by (simp add: reader_ok_def)

interpretation idx: index_interface "index_reader r" "reader_ok r" for r
proof unfold_locales
  assume ok: "reader_ok r"
  note g = reader_geometry [OF ok]
  show "rd_nodeCount (index_reader r) \<le> 2 ^ 24"
    using g by (simp add: index_reader_def geometry_ok_def limits)
  show "rd_exact (index_reader r) t m = Inr p \<Longrightarrow> live_postings (index_reader r) p" for t m p
    using postings_live [OF g, of "g_exact (r_geometry r)"]
    by (auto simp: index_reader_def live_postings_def live_def reader_exact_def exactPostings_def rbind_Inr_iff split: if_splits)
  show "rd_basename (index_reader r) t = Inr p \<Longrightarrow> live_postings (index_reader r) p" for t p
    using postings_live [OF g, of "g_basename (r_geometry r)"]
    by (auto simp: index_reader_def live_postings_def live_def reader_basename_def basenamePostings_def rbind_Inr_iff)
  show "rd_lexical (index_reader r) ids bounds = Inr sp \<Longrightarrow> live_scored (index_reader r) sp" for ids bounds sp
    using scored_live [OF g, of "g_lexicon (r_geometry r)"] by (auto simp: index_reader_def live_scored_def live_def reader_lexical_def)
  show "rd_coarse (index_reader r) ids bounds = Inr sp \<Longrightarrow> live_scored (index_reader r) sp" for ids bounds sp
    using scored_live [OF g, of "g_coarse (r_geometry r)"] by (auto simp: index_reader_def live_scored_def live_def reader_coarse_def)
  show "list_all (live_edge (index_reader r)) es" if run: "rd_outgoing (index_reader r) n pm = Inr es" for n pm es
  proof -
    from run have n: "0 \<le> n" "n < int (r_nodeCount r)"
      and es: "rbind (openOutgoingCursor (r_geometry r) (nat n) pm) (cursor_drain (r_geometry r)) = Inr es"
      by (auto simp: index_reader_def reader_outgoing_def requireNode_def rbind_Inr_iff split: if_splits)
    from n have "nat n < r_nodeCount r" by linarith
    from outgoing_edges_live [OF g this es] show ?thesis by (simp add: list_all_iff live_edge_def live_def index_reader_def)
  qed
  show "list_all (live_edge (index_reader r)) es" if run: "rd_incoming (index_reader r) n pm = Inr es" for n pm es
  proof -
    from run have n: "0 \<le> n" "n < int (r_nodeCount r)"
      by (auto simp: index_reader_def reader_incoming_def requireNode_def rbind_Inr_iff split: if_splits)
    from incoming_ok [OF ok n] obtain sources r' c where src: "buildEdgeSourceIndex (r_geometry r) = Inr sources"
      and c: "reader_incoming r n pm = Inr (c, r')" "openIncomingCursor (r_geometry r) sources (nat n) pm = Inr c" by blast
    from run c have es: "rbind (openIncomingCursor (r_geometry r) sources (nat n) pm) (cursor_drain (r_geometry r)) = Inr es"
      by (simp add: index_reader_def)
    from n have "nat n < r_nodeCount r" by linarith
    from incoming_edges_live [OF g this src es] show ?thesis by (simp add: list_all_iff live_edge_def live_def index_reader_def)
  qed
qed

end
