(* ===== verification/Kernel_Relation.thy ===== *)
theory Kernel_Relation
  imports Kernel
begin

text \<open>
  One induction over the whole query path: a relation between candidate tables that every
  operation of the table respects holds between the empty table and the one fusion reads. The
  locale is the contract of such a relation; the lemmas follow the stages of kernel.ts.
\<close>

unbundle bit_operations_syntax

section \<open>The stages of a run\<close>

definition no_safety :: SafetyClosureOutcome where
  "no_safety = \<lparr>so_visitedNodes = 0, so_visitedEdges = 0, so_capHit = False, so_timedOut = False\<rparr>"

lemma kernel_stages:
  assumes "runContextKernel nfkc lower reader request options = Inr res"
  obtains cx n0 lanes t1 n1 k t2 safety t3 n2 exhaustive walk t4 n3 fusion n5 sel n6 where
    "resolveQueryPlan nfkc lower reader request (kn_plan options) = Inr (cx, n0)"
    "runSeedLanes reader cx request (new_table (q_candidateBudget (kx_plan cx))) n0 = Inr (lanes, t1, n1)"
    "markNameAnchors reader cx t1 = Inr (k, t2)"
    "safety = no_safety \<and> t3 = t2 \<and> n2 = n1 \<or> runSafetyClosure reader cx t2 n1 = Inr (safety, t3, n2)"
    "traverseKernelGraph reader cx t3 exhaustive n2 = Inr (walk, t4, n3)"
    "fuseKernelCandidates reader cx t4
       (omit Candidate_budget (int (ct_overflow t4) - int (ct_overflow t2)) n3) = Inr (fusion, n5)"
    "selectKernelCandidates cx t4 fusion n5 = (sel, n6)"
    "res_plan res = kx_plan cx" "res_selected res = sr_selected sel" "res_tokenCost res = sr_tokenCost sel"
    "res_candidateCount res = ct_size t4"
    "res_visitedNodes res = to_visitedNodes walk + so_visitedNodes safety"
    "res_visitedEdges res = to_visitedEdges walk + so_visitedEdges safety"
    "res_guarantees res = sr_guarantees sel" "res_omissions res = kn_omissions n6" "res_warnings res = kn_warnings n6"
proof -
  from assms obtain cx n0 lanes t1 n1 k t2 where
      a: "resolveQueryPlan nfkc lower reader request (kn_plan options) = Inr (cx, n0)"
        "runSeedLanes reader cx request (new_table (q_candidateBudget (kx_plan cx))) n0 = Inr (lanes, t1, n1)"
        "markNameAnchors reader cx t1 = Inr (k, t2)"
    by (auto simp: runContextKernel_def rbind_Inr_iff)
  note run = assms [unfolded runContextKernel_def a rbind_simps prod.case Let_def]
  from run obtain safety t3 n2 walk t4 n3 where
      b: "safety = no_safety \<and> t3 = t2 \<and> n2 = n1 \<or> runSafetyClosure reader cx t2 n1 = Inr (safety, t3, n2)"
        "traverseKernelGraph reader cx t3 (\<not> so_capHit safety \<and> \<not> so_timedOut safety) n2 = Inr (walk, t4, n3)"
    and rest: "rbind (fuseKernelCandidates reader cx t4
        (omit Candidate_budget (int (ct_overflow t4) - int (ct_overflow t2)) n3)) (\<lambda>(fusion, notes).
      case selectKernelCandidates cx t4 fusion notes of (selection, notes) \<Rightarrow>
      case read_clock (kx_clock cx) notes of (finished, notes) \<Rightarrow>
      Inr \<lparr>res_plan = kx_plan cx, res_selected = sr_selected selection, res_lanes = lanes @ [graph_telemetry walk],
        res_omissions = kn_omissions notes, res_warnings = kn_warnings notes, res_candidateCount = ct_size t4,
        res_visitedNodes = to_visitedNodes walk + so_visitedNodes safety,
        res_visitedEdges = to_visitedEdges walk + so_visitedEdges safety,
        res_tokenCost = sr_tokenCost selection,
        res_truncated = sr_truncated selection \<or> to_nodeCapHit walk \<or> to_edgeCapHit walk
          \<or> to_frontierCapHit walk \<or> (to_timedOut walk \<or> so_timedOut safety) \<or> ct_overflow t4 > 0,
        res_timedOut = to_timedOut walk \<or> so_timedOut safety, res_guarantees = sr_guarantees selection,
        res_durationMs = max 0 (finished - kx_startedAt cx)\<rparr>) = Inr res"
    unfolding rbind_Inr_iff [where f = "if _ then _ else _"]
    by (fastforce simp: rbind_Inr_iff no_safety_def split: if_splits)
  from rest obtain fusion n5 where
      c: "fuseKernelCandidates reader cx t4
        (omit Candidate_budget (int (ct_overflow t4) - int (ct_overflow t2)) n3) = Inr (fusion, n5)"
    by (auto simp: rbind_Inr_iff)
  obtain sel n6 where d: "selectKernelCandidates cx t4 fusion n5 = (sel, n6)" by (metis surj_pair)
  from rest [unfolded c rbind_simps prod.case d] have
    res: "res_plan res = kx_plan cx" "res_selected res = sr_selected sel" "res_tokenCost res = sr_tokenCost sel"
      "res_candidateCount res = ct_size t4" "res_visitedNodes res = to_visitedNodes walk + so_visitedNodes safety"
      "res_visitedEdges res = to_visitedEdges walk + so_visitedEdges safety" "res_guarantees res = sr_guarantees sel"
      "res_omissions res = kn_omissions n6" "res_warnings res = kn_warnings n6"
    by (auto simp: read_clock_def)
  show thesis by (rule that [OF a b c d res])
qed

section \<open>The contract\<close>

text \<open>
  What the seed lanes and the name anchors respect. They link a row only to cut it from its parent.
  \<open>member\<close> holds of the nodes the reader may name.
\<close>

locale lane_relation =
  fixes reader :: ContextIndexReader and member :: "int \<Rightarrow> bool"
    and R :: "CandidateTable \<Rightarrow> CandidateTable \<Rightarrow> bool"
  assumes exact_member: "rd_exact reader term m = Inr p \<Longrightarrow> posting_node p i = Inr n \<Longrightarrow> member (int n)"
    and basename_member: "rd_basename reader term = Inr p \<Longrightarrow> posting_node p i = Inr n \<Longrightarrow> member (int n)"
    and lexical_member: "rd_lexical reader ids bounds = Inr sp \<Longrightarrow> scored_node sp i = Inr n \<Longrightarrow> member (int n)"
    and coarse_member: "rd_coarse reader ids bounds = Inr sp \<Longrightarrow> scored_node sp i = Inr n \<Longrightarrow> member (int n)"
    and outgoing_member: "rd_outgoing reader node pm = Inr es \<Longrightarrow> e \<in> set es \<Longrightarrow> member (int (es_target e))"
    and incoming_member: "rd_incoming reader node pm = Inr es \<Longrightarrow> e \<in> set es \<Longrightarrow> member (int (es_target e))"
    and same: "R t t"
    and chained: "R t u \<Longrightarrow> R u v \<Longrightarrow> R t v"
    and admitted: "member node \<Longrightarrow> admit reader node t = Inr (r, u) \<Longrightarrow> R t u"
    and claimed: "\<not> isExactKernelConfidence c \<Longrightarrow> R t (claim slot lane c t)"
    and marked: "bits AND FLAG_EXACT_SEED = 0 \<Longrightarrow> R t (mark slot bits t)"
    and unlinked: "R t (link slot a (- 1) (- 1) 0 t)"
    and graph_scored: "R t (setGraphScore slot x t)"
    and contributed: "R t (contribute slot lane rank x termId t)"
    and resolved: "R t (mark slot (FLAG_SEED OR FLAG_EXACT_SEED OR others)
        (contribute slot Anchor rank x termId (claim slot Anchor c t)))"
begin

lemma then_unlinked: "R t u \<Longrightarrow> R t (link slot a (- 1) (- 1) 0 u)"
  by (rule chained [OF _ unlinked])

lemma then_marked: "R t u \<Longrightarrow> bits AND FLAG_EXACT_SEED = 0 \<Longrightarrow> R t (mark slot bits u)"
  by (rule chained [OF _ marked])

lemma then_mark_if: "R t u \<Longrightarrow> bits AND FLAG_EXACT_SEED = 0 \<Longrightarrow> R t (mark_if b slot bits u)"
  by (simp add: mark_if_def then_marked)

lemma then_claimed: "R t u \<Longrightarrow> \<not> isExactKernelConfidence c \<Longrightarrow> R t (claim slot lane c u)"
  by (rule chained [OF _ claimed])

lemma then_contributed: "R t u \<Longrightarrow> R t (contribute slot lane rank x termId u)"
  by (rule chained [OF _ contributed])

lemma then_graph_scored: "R t u \<Longrightarrow> R t (setGraphScore slot x u)"
  by (rule chained [OF _ graph_scored])

lemmas steps = same then_unlinked then_marked then_mark_if then_claimed then_contributed then_graph_scored

section \<open>The seed lanes\<close>

lemma self_linked: "R t u \<Longrightarrow> R t (self_link slot u)"
  by (simp add: self_link_def then_unlinked)

lemma claimExact: "R t (claimExact cx termId c focus slot position t)"
  unfolding claimExact_def Let_def by (rule self_linked) (simp add: resolved or.assoc)

lemma claim_provided: "R t (claim_provided cx seed slot position t)"
proof (cases "seed_verified seed")
  case True
  have "FLAG_SEED OR FLAG_PROVIDED OR FLAG_EXACT_SEED = FLAG_SEED OR FLAG_EXACT_SEED OR FLAG_PROVIDED"
    by (simp add: or.commute)
  with True show ?thesis unfolding claim_provided_def Let_def by (intro self_linked) (simp add: resolved)
next
  case False
  have "(FLAG_SEED OR FLAG_PROVIDED) AND FLAG_EXACT_SEED = 0" "\<not> isExactKernelConfidence Text_candidate"
    by (simp_all add: candidate_flags isExactKernelConfidence_def)
  with False show ?thesis
    unfolding claim_provided_def Let_def by (intro self_linked) (simp add: steps)
qed

lemma admit_loop:
  assumes "\<And>i n. posting_node p i = Inr n \<Longrightarrow> member (int n)" "\<And>slot rank t. R t (on_admit slot rank t)"
  shows "admit_loop reader p on_admit limit ixs rank cnt t = Inr (rank', cnt', u) \<Longrightarrow> R t u"
proof (induction ixs arbitrary: rank cnt t)
  case (Cons i ixs)
  show ?case
  proof (cases "rank \<ge> limit")
    case True
    with Cons.prems show ?thesis by (simp add: same)
  next
    case False
    with Cons.prems obtain n slot v where n: "posting_node p (int i) = Inr n" and v: "admit reader (int n) t = Inr (slot, v)"
      by (auto simp: Let_def rbind_Inr_iff)
    have "R t v" using admitted [OF assms(1) [OF n] v] .
    with False n v Cons.prems show ?thesis
      by (cases slot) (auto simp: Let_def dest!: Cons.IH intro: chained [OF chained [OF _ assms(2)]])
  qed
qed (simp add: same)

lemma admitPostings:
  "\<lbrakk>\<And>i n. posting_node p i = Inr n \<Longrightarrow> member (int n); \<And>slot rank t. R t (on_admit slot rank t);
    admitPostings reader p on_admit limit rank cnt t = Inr (rank', cnt', u)\<rbrakk> \<Longrightarrow> R t u"
  unfolding admitPostings_def by (rule admit_loop)

lemma folded:
  assumes "\<And>x s s'. f x s = Inr s' \<Longrightarrow> R (g s) (g s')" "fold_res f xs s = Inr s'"
  shows "R (g s) (g s')"
  using assms(2)
proof (induction xs arbitrary: s)
  case (Cons x xs)
  then obtain s1 where "f x s = Inr s1" "fold_res f xs s1 = Inr s'" by (auto simp: rbind_Inr_iff)
  with assms(1) Cons.IH show ?case by (metis chained)
qed (simp add: same)

lemma postings_admitted:
  "rd_exact reader term m = Inr p \<Longrightarrow>
     admitPostings reader p (claimExact cx k c focus) limit rank cnt t = Inr (rank', cnt', u) \<Longrightarrow> R t u"
  "rd_exact reader term m = Inr p \<Longrightarrow>
     admitPostings reader p (claim_provided cx seed) limit rank cnt t = Inr (rank', cnt', u) \<Longrightarrow> R t u"
  "rd_basename reader term = Inr p \<Longrightarrow>
     admitPostings reader p (claimExact cx k c focus) limit rank cnt t = Inr (rank', cnt', u) \<Longrightarrow> R t u"
proof -
  show "rd_exact reader term m = Inr p \<Longrightarrow>
     admitPostings reader p (claimExact cx k c focus) limit rank cnt t = Inr (rank', cnt', u) \<Longrightarrow> R t u"
    by (erule admitPostings [rotated 2]) (auto intro: exact_member claimExact)
  show "rd_exact reader term m = Inr p \<Longrightarrow>
     admitPostings reader p (claim_provided cx seed) limit rank cnt t = Inr (rank', cnt', u) \<Longrightarrow> R t u"
    by (erule admitPostings [rotated 2]) (auto intro: exact_member claim_provided)
  show "rd_basename reader term = Inr p \<Longrightarrow>
     admitPostings reader p (claimExact cx k c focus) limit rank cnt t = Inr (rank', cnt', u) \<Longrightarrow> R t u"
    by (erule admitPostings [rotated 2]) (auto intro: basename_member claimExact)
qed

lemma anchor_term: "anchor_term reader cx term s = Inr s' \<Longrightarrow> R (snd (snd s)) (snd (snd s'))"
  by (cases s; cases s') (auto simp: anchor_term_def Let_def rbind_Inr_iff, blast intro: postings_admitted chained)

lemma anchor_focus: "anchor_focus reader cx focus s = Inr s' \<Longrightarrow> R (snd (snd (fst s))) (snd (snd (fst s')))"
  by (cases s; cases "fst s"; cases s'; cases "fst s'")
    (auto simp: anchor_focus_def Let_def rbind_Inr_iff same split: if_splits, blast intro: postings_admitted)

lemma provided_seed: "provided_seed reader cx seed s = Inr s' \<Longrightarrow> R (snd (snd (fst s))) (snd (snd (fst s')))"
  by (cases s; cases "fst s"; cases s'; cases "fst s'")
    (auto simp: provided_seed_def Let_def rbind_Inr_iff same split: if_splits, blast intro: postings_admitted)

lemma anchor_lane:
  assumes "runAnchorLane reader cx request t ns = Inr (tel, u, ns')"
  shows "R t u"
proof -
  from assms obtain s1 s2 s3 n where
      a: "fold_res (anchor_term reader cx) (kx_anchorTerms cx) (0, counters, t) = Inr s1"
    and b: "fold_res (anchor_focus reader cx) (kx_focusPaths cx) (s1, ns) = Inr s2"
    and c: "fold_res (provided_seed reader cx) (case kr_seeds request of None \<Rightarrow> [] | Some seeds \<Rightarrow> seeds) (fst s2, 0) = Inr s3"
    and u: "u = snd (snd (fst s3))"
    by (auto simp: runAnchorLane_def admitProvidedSeeds_def rbind_Inr_iff split: prod.splits)
  have "R t (snd (snd s1))" using folded [where g = "\<lambda>s. snd (snd s)", OF anchor_term a] by simp
  moreover have "R (snd (snd s1)) (snd (snd (fst s2)))"
    using folded [where g = "\<lambda>s. snd (snd (fst s))", OF anchor_focus b] by simp
  moreover have "R (snd (snd (fst s2))) u"
    using folded [where g = "\<lambda>s. snd (snd (fst s))", OF provided_seed c] by (simp add: u)
  ultimately show ?thesis by (metis chained)
qed

section \<open>The text lanes and the name anchors\<close>

lemma text_claim: "\<not> isExactKernelConfidence Text_candidate"
  by (simp add: isExactKernelConfidence_def)

lemma posting_lane_loop:
  assumes "\<And>i n. scored_node merged i = Inr n \<Longrightarrow> member (int n)"
  shows "posting_lane_loop reader lane merged ixs cnt t = Inr (cnt', u) \<Longrightarrow> R t u"
proof (induction ixs arbitrary: cnt t)
  case (Cons i ixs)
  then obtain n slot v where n: "scored_node merged (int i) = Inr n" and v: "admit reader (int n) t = Inr (slot, v)"
    by (auto simp: Let_def rbind_Inr_iff)
  have tv: "R t v" using admitted [OF assms [OF n] v] .
  show ?case
  proof (cases slot)
    case None
    with n v Cons.prems tv show ?thesis by (simp add: Let_def)
  next
    case (Some slot')
    let ?v = "if ct_size t < ct_size v then link slot' (int n) (- 1) (- 1) 0 (mark slot' FLAG_SEED v) else v"
    have seeded: "FLAG_SEED AND FLAG_EXACT_SEED = 0" by (simp add: candidate_flags)
    from Some n v Cons.prems obtain x where
        "posting_lane_loop reader lane merged ixs (count_candidate (ct_size t < ct_size v) (examined cnt))
           (contribute slot' lane (int i) x (- 1) (claim slot' lane Text_candidate ?v)) = Inr (cnt', u)"
      by (auto simp: Let_def rbind_Inr_iff)
    from Cons.IH [OF this] show ?thesis
      by (rule chained [rotated]) (auto intro!: then_contributed then_claimed then_unlinked then_marked tv text_claim seeded)
  qed
qed (simp add: same)

lemma posting_lane: "runPostingLane reader cx lane t ns = Inr (tel, u, ns') \<Longrightarrow> R t u"
  by (auto simp: runPostingLane_def Let_def rbind_Inr_iff same split: if_splits
      dest!: posting_lane_loop [rotated] intro: lexical_member coarse_member)

lemma seed_lanes: "runSeedLanes reader cx request t ns = Inr (tels, u, ns') \<Longrightarrow> R t u"
  by (auto simp: runSeedLanes_def Let_def rbind_Inr_iff runLexicalLane_def runCoarseLane_def
      dest!: anchor_lane posting_lane intro: chained)

lemma mark_names: "mark_names reader name slots k t = Inr (k', u) \<Longrightarrow> R t u"
proof (induction slots arbitrary: k t)
  case (Cons slot slots)
  have "FLAG_NAME_MATCH AND FLAG_EXACT_SEED = 0" by (simp add: candidate_flags)
  from marked [OF this] Cons.prems show ?case
    by (auto simp: rbind_Inr_iff split: if_splits dest!: Cons.IH intro: chained)
qed (simp add: same)

lemma name_anchors: "markNameAnchors reader cx t = Inr (k, u) \<Longrightarrow> R t u"
  by (auto simp: markNameAnchors_def same split: option.splits dest: mark_names)

end

section \<open>The closure and the walk\<close>

text \<open>The closure and the walk link a row to the node they reached it from.\<close>

locale candidate_relation = lane_relation +
  assumes linked: "R t (link slot a b d k t)"
begin

lemma then_linked: "R t u \<Longrightarrow> R t (link slot a b d k u)"
  by (rule chained [OF _ linked])

lemma other_flags: "FLAG_SAFETY AND FLAG_EXACT_SEED = 0" "FLAG_CONFLICT AND FLAG_EXACT_SEED = 0"
  "FLAG_PROTECTED AND FLAG_EXACT_SEED = 0" "FLAG_TEST_OR_GATE AND FLAG_EXACT_SEED = 0"
  "FLAG_EVIDENCE AND FLAG_EXACT_SEED = 0" "FLAG_FOCUS AND FLAG_EXACT_SEED = 0"
  by (simp_all add: candidate_flags)

lemma record_safety: "R t (record_safety cx node depth e slot t)"
  by (simp add: record_safety_def Let_def steps then_linked other_flags)

lemma settle:
  assumes "0 < fr_depth (wk_frontier w)"
  shows "R (wk_table w) (wk_table (settle slot w))"
  using demote_never_exact [OF assms]
  by (simp add: settle_def Let_def steps then_linked other_flags split: option.split)

lemma score_node: "R (wk_table w) (wk_table (score_node slot w))"
  using settle by (simp add: score_node_def Let_def same)

end

sublocale candidate_relation \<subseteq> closure: safety_invariant reader cx maxNodes
  "\<lambda>_ e. member (int (es_target e))" "\<lambda>_ s. R t (sf_table s)" "\<lambda>s. R t (sf_table s)" for cx maxNodes t
proof unfold_locales
  show "list_all (\<lambda>e. member (int (es_target e))) es" if "rd_outgoing reader n m = Inr es" for n m es
    using outgoing_member [OF that] by (simp add: list_all_iff)
  show "list_all (\<lambda>e. member (int (es_target e))) es" if "rd_incoming reader n m = Inr es" for n m es
    using incoming_member [OF that] by (simp add: list_all_iff)
qed (auto simp: enqueue_def split: if_splits intro: chained [OF chained [OF _ admitted] record_safety] chained [OF _ admitted])

sublocale candidate_relation \<subseteq> walk: walk_invariant reader cx
  "\<lambda>_ e. member (int (es_target e))" "\<lambda>_ w. R t (wk_table w)" "\<lambda>_ w. R t (wk_table w)"
  "\<lambda>w. R t (wk_table w)" for cx t
proof unfold_locales
  show "list_all (\<lambda>e. member (int (es_target e))) es" if "rd_outgoing reader n m = Inr es" for n m es
    using outgoing_member [OF that] by (simp add: list_all_iff)
  show "list_all (\<lambda>e. member (int (es_target e))) es" if "rd_incoming reader n m = Inr es" for n m es
    using incoming_member [OF that] by (simp add: list_all_iff)
qed (auto simp: enter_node_def intro: chained [OF _ admitted] chained [OF _ score_node])

context candidate_relation begin

lemma safety_closure:
  assumes "runSafetyClosure reader cx t ns = Inr (out, u, ns')"
  shows "R t u"
proof -
  let ?n = "nat (max 0 (safetyMaxVisitedNodes (kx_kernelConfig cx)))"
  have seeds: "sf_table (enqueue_seeds n slots s) = sf_table s" for n slots s
    by (induction n slots s rule: enqueue_seeds.induct) (auto simp: enqueue_def split: if_splits prod.splits bool.splits)
  from assms obtain s where s: "safety_loop reader cx ?n (enqueue_seeds ?n [0..<ct_size t] (safety_start t ns)) = Inr s" "u = sf_table s"
    by (auto simp: runSafetyClosure_def Let_def rbind_Inr_iff)
  have "R t (sf_table (enqueue_seeds ?n [0..<ct_size t] (safety_start t ns)))"
    by (simp add: seeds safety_start_def same)
  from closure.loop [OF this s(1)] show ?thesis by (simp add: s(2))
qed

lemma traversal:
  assumes "traverseKernelGraph reader cx t safe ns = Inr (out, u, ns')"
  shows "R t u"
proof -
  let ?start = "fold (walk_seed cx) [0..<ct_size t] (walk_start cx t ns)"
  from assms obtain w where w: "walk_loop reader cx safe ?start = Inr w" "u = wk_table w"
    by (auto simp: traverseKernelGraph_def Let_def rbind_Inr_iff)
  have "R t (wk_table ?start)"
  proof (rule fold_invariant [where Q = "\<lambda>_. True" and P = "\<lambda>w. R t (wk_table w)"])
    show "R t (wk_table (walk_start cx t ns))" by (simp add: walk_start_def same)
    show "R t (wk_table (walk_seed cx slot w))" if "R t (wk_table w)" for slot w
      using that by (simp add: walk_seed_def Let_def then_graph_scored split: prod.split)
  qed simp
  from walk.loop [OF this w(1)] show ?thesis by (simp add: w(2))
qed

lemma kernel_tables:
  assumes "runSeedLanes reader cx request t ns = Inr (lanes, t1, n1)" "markNameAnchors reader cx t1 = Inr (k, t2)"
    "safety = no_safety \<and> t3 = t2 \<and> n2 = n1 \<or> runSafetyClosure reader cx t2 n1 = Inr (safety, t3, n2)"
    "traverseKernelGraph reader cx t3 exhaustive n2 = Inr (walk, t4, n3)"
  shows "R t t2" "R t t3" "R t t4"
proof -
  have "R t t2" using seed_lanes [OF assms(1)] name_anchors [OF assms(2)] by (rule chained)
  moreover have "R t2 t3" using assms(3) safety_closure same by blast
  moreover have "R t3 t4" using traversal [OF assms(4)] .
  ultimately show "R t t2" "R t t3" "R t t4" by (blast intro: chained)+
qed

end

end
