(* ===== verification/Kernel_Ranking.thy ===== *)
theory Kernel_Ranking
  imports Kernel_Traverse Kernel_Fuse
begin

text \<open>
  The three bounded rankings of the kernel against what they stand for: the best scores of the
  walk, the reserves, and the pool of the best candidates each hold the best of all that was
  ever offered, in order.
\<close>

section \<open>The best scores of the walk\<close>

lemma sorted_mset_unique: "sorted xs \<Longrightarrow> sorted ys \<Longrightarrow> mset xs = mset ys \<Longrightarrow> xs = ys"
  by (metis properties_for_sort)

lemma shift_up_ok:
  assumes fits: "to_int32 score = score" and "n < length vs" "sorted (take n vs)"
  shows "length (shift_up vs n score) = length vs \<and> sorted (take (Suc n) (shift_up vs n score))
     \<and> mset (take (Suc n) (shift_up vs n score)) = add_mset score (mset (take n vs))
     \<and> drop (Suc n) (shift_up vs n score) = drop (Suc n) vs"
  using assms(2,3)
proof (induction n arbitrary: vs)
  case 0
  then show ?case using fits by (cases vs) auto
next
  case (Suc pos)
  have t: "take (Suc pos) vs = take pos vs @ [vs ! pos]" using Suc.prems by (simp add: take_Suc_conv_app_nth)
  then have le: "sorted (take pos vs)" "\<forall>x \<in> set (take pos vs). x \<le> vs ! pos"
    using Suc.prems(2) by (simp_all add: sorted_append)
  show ?case
  proof (cases "vs ! pos > score")
    case False
    then have "\<forall>x \<in> set (take (Suc pos) vs). x \<le> score" using t le by auto
    moreover have "take (Suc (Suc pos)) (vs[Suc pos := score]) = take (Suc pos) vs @ [score]"
      using Suc.prems by (simp add: take_Suc_conv_app_nth [of "Suc pos"])
    ultimately show ?thesis using False Suc.prems fits by (simp add: sorted_append)
  next
    case True
    let ?vs = "vs[Suc pos := vs ! pos]" and ?r = "shift_up (vs[Suc pos := vs ! pos]) pos score"
    have ih: "length ?r = length vs" "sorted (take (Suc pos) ?r)"
      "mset (take (Suc pos) ?r) = add_mset score (mset (take pos vs))"
      "drop (Suc pos) ?r = vs ! pos # drop (Suc (Suc pos)) vs"
      using Suc.IH [of ?vs] Suc.prems le(1) by (simp_all add: drop_update_swap Cons_nth_drop_Suc [symmetric])
    have r: "take (Suc (Suc pos)) ?r = take (Suc pos) ?r @ [vs ! pos]" "drop (Suc (Suc pos)) ?r = drop (Suc (Suc pos)) vs"
      using ih(4) by (metis append_take_drop_id drop_Suc_Cons take_Suc_Cons take_add take0 add_Suc_right
          add_0_right Suc_eq_plus1, metis drop_Suc tl_drop list.sel(3))
    have "set (take (Suc pos) ?r) = insert score (set (take pos vs))"
      using ih(3) by (metis set_mset_mset set_mset_add_mset_insert)
    then have "\<forall>x \<in> set (take (Suc pos) ?r). x \<le> vs ! pos" using le(2) True by auto
    then show ?thesis using ih r t True by (simp add: sorted_append)
  qed
qed

lemma shift_down_ok:
  assumes fits: "to_int32 score = score" and "pos < length vs" "sorted (drop (Suc pos) vs)"
  shows "length (shift_down vs pos score) = length vs \<and> take pos (shift_down vs pos score) = take pos vs
     \<and> sorted (drop pos (shift_down vs pos score))
     \<and> mset (drop pos (shift_down vs pos score)) = add_mset score (mset (drop (Suc pos) vs))"
  using assms
proof (induction vs pos score rule: shift_down.induct)
  case (1 vs pos score)
  show ?case
  proof (cases "pos + 1 < length vs \<and> vs ! (pos + 1) < score")
    case False
    have "\<forall>x \<in> set (drop (Suc pos) vs). score \<le> x"
    proof (cases "pos + 1 < length vs")
      case True
      then have "drop (Suc pos) vs = vs ! (pos + 1) # drop (Suc (Suc pos)) vs" by (simp add: Cons_nth_drop_Suc)
      with "1.prems"(3) False True show ?thesis by auto
    qed simp
    moreover have "shift_down vs pos score = vs[pos := score]"
      by (subst shift_down.simps) (simp only: if_not_P [OF False] "1.prems"(1))
    moreover have "drop pos (vs[pos := score]) = score # drop (Suc pos) vs"
      using "1.prems"(2) Cons_nth_drop_Suc [of pos "vs[pos := score]"] by simp
    ultimately show ?thesis using "1.prems" by simp
  next
    case True
    let ?vs = "vs[pos := vs ! (pos + 1)]" and ?r = "shift_down (vs[pos := vs ! (pos + 1)]) (pos + 1) score"
    have d: "drop (Suc pos) vs = vs ! (pos + 1) # drop (Suc (Suc pos)) vs" using True by (simp add: Cons_nth_drop_Suc)
    have ih: "length ?r = length vs" "take (pos + 1) ?r = take pos vs @ [vs ! (pos + 1)]"
      "sorted (drop (pos + 1) ?r)" "mset (drop (pos + 1) ?r) = add_mset score (mset (drop (Suc (Suc pos)) vs))"
      using "1.IH" [OF True] "1.prems" True d by (simp_all add: take_Suc_conv_app_nth)
    have split: "take pos ?r = take pos vs" "drop pos ?r = vs ! (pos + 1) # drop (pos + 1) ?r"
    proof -
      have "take pos (take (pos + 1) ?r) = take pos vs" unfolding ih(2) using "1.prems" by simp
      then show "take pos ?r = take pos vs" by (simp add: min_def)
      have "?r ! pos = take (pos + 1) ?r ! pos" by simp
      also have "\<dots> = vs ! (pos + 1)" unfolding ih(2) using "1.prems" by (simp add: nth_append)
      finally show "drop pos ?r = vs ! (pos + 1) # drop (pos + 1) ?r"
        using ih(1) "1.prems"(2) by (metis Cons_nth_drop_Suc Suc_eq_plus1)
    qed
    have "set (drop (pos + 1) ?r) = insert score (set (drop (Suc (Suc pos)) vs))"
      using ih(4) by (metis set_mset_mset set_mset_add_mset_insert)
    then have "\<forall>x \<in> set (drop (pos + 1) ?r). vs ! (pos + 1) \<le> x" using d "1.prems"(3) True by auto
    moreover have "shift_down vs pos score = ?r" using True by (subst shift_down.simps) simp
    ultimately show ?thesis using ih split d by simp
  qed
qed

text \<open>The scores held, worst first.\<close>

definition top_held :: "TopScores \<Rightarrow> int list" where
  "top_held t = take (tp_count t) (tp_values t)"

definition top_ok :: "TopScores \<Rightarrow> bool" where
  "top_ok t \<longleftrightarrow> 0 < length (tp_values t) \<and> tp_count t \<le> length (tp_values t) \<and> sorted (top_held t)"

lemma top_count: "top_ok t \<Longrightarrow> tp_count t = length (top_held t)"
  by (auto simp: top_ok_def top_held_def)

lemma top_offer_held:
  assumes "top_ok t" and fits: "to_int32 score = score"
  shows "top_ok (top_offer score t) \<and> length (tp_values (top_offer score t)) = length (tp_values t)
     \<and> top_held (top_offer score t)
       = (if tp_count t < length (tp_values t) then insort score (top_held t) else tl (insort score (top_held t)))"
proof (cases "tp_count t < length (tp_values t)")
  case True
  let ?r = "shift_up (tp_values t) (tp_count t) score"
  have r: "length ?r = length (tp_values t)" "sorted (take (Suc (tp_count t)) ?r)"
    "mset (take (Suc (tp_count t)) ?r) = add_mset score (mset (top_held t))"
    using shift_up_ok [OF fits True] assms by (simp_all add: top_ok_def top_held_def)
  have "insort score (top_held t) = take (Suc (tp_count t)) ?r"
    using r assms by (intro sorted_mset_unique) (simp_all add: top_ok_def sorted_insort)
  then show ?thesis using r True assms by (simp add: top_offer_def top_full_def top_ok_def top_held_def)
next
  case False
  then have full: "top_full t" "top_held t = tp_values t" "tp_count t = length (tp_values t)"
    using assms by (auto simp: top_ok_def top_full_def top_held_def)
  obtain v vs where v: "tp_values t = v # vs" using assms by (cases "tp_values t") (auto simp: top_ok_def)
  have sorted: "sorted (v # vs)" using assms full v by (simp add: top_ok_def)
  show ?thesis
  proof (cases "score \<le> v")
    case True
    then have "insort score (v # vs) = score # v # vs" by simp
    then show ?thesis using True False full v assms by (simp add: top_offer_def)
  next
    case above: False
    let ?r = "shift_down (v # vs) 0 score"
    have r: "length ?r = Suc (length vs)" "sorted ?r" "mset ?r = add_mset score (mset vs)"
      using shift_down_ok [OF fits, of 0 "v # vs"] sorted by simp_all
    have "insort score vs = ?r"
      using r sorted by (intro sorted_mset_unique) (simp_all add: sorted_insort)
    then show ?thesis using above False full v r by (simp add: top_offer_def top_ok_def top_held_def)
  qed
qed


lemma drop_insort:
  "sorted s \<Longrightarrow> drop (Suc j) (insort x s) = tl (insort x (drop j s))"
proof (induction s arbitrary: j)
  case (Cons y s)
  show ?case
  proof (cases j)
    case 0
    then show ?thesis by (simp add: drop_Suc)
  next
    case (Suc i)
    show ?thesis
    proof (cases "x \<le> y")
      case True
      then have "\<forall>z \<in> set s. x \<le> z" using Cons.prems by auto
      then have "\<forall>z \<in> set (drop i s). x \<le> z" using set_drop_subset by fast
      then have "insort x (drop i s) = x # drop i s" by (cases "drop i s") auto
      with Suc True show ?thesis by simp
    next
      case False
      with Suc Cons show ?thesis by simp
    qed
  qed
qed simp

lemma new_top_ok: "top_ok (new_top capacity)" "top_held (new_top capacity) = []"
  by (simp_all add: top_ok_def new_top_def top_held_def)

lemma offers_held:
  "list_all (\<lambda>x. to_int32 x = x) xs \<Longrightarrow> top_ok (fold top_offer xs (new_top capacity))
     \<and> length (tp_values (fold top_offer xs (new_top capacity))) = nat (max 1 capacity)
     \<and> top_held (fold top_offer xs (new_top capacity)) = drop (length xs - nat (max 1 capacity)) (sort xs)"
proof (induction xs rule: rev_induct)
  case Nil
  then show ?case by (simp add: new_top_ok) (simp add: new_top_def)
next
  case (snoc x xs)
  let ?t = "fold top_offer xs (new_top capacity)" and ?k = "nat (max 1 capacity)"
  have count: "tp_count ?t = min (length xs) ?k" using snoc top_count [of ?t] by (auto simp: min_def)
  have sorted: "sort (xs @ [x]) = insort x (sort xs)"
    by (rule sorted_mset_unique) (simp_all add: sorted_insort)
  have "drop (length (xs @ [x]) - ?k) (sort (xs @ [x]))
      = (if length xs < ?k then insort x (drop (length xs - ?k) (sort xs))
         else tl (insort x (drop (length xs - ?k) (sort xs))))"
    unfolding sorted by (simp add: Suc_diff_le drop_insort)
  then show ?case using snoc top_offer_held [of ?t x] count by (auto simp: not_less)
qed

text \<open>
  The best scores of the walk are exactly the best scores offered: after any offers it holds
  the largest ones, as many as its capacity, in ascending order, so its floor is the worst of them.
  The scores fit 32 bits; those the walk offers are read from a column that keeps no others.
\<close>

theorem best_scores_kept:
  assumes "list_all (\<lambda>x. to_int32 x = x) xs"
  shows "top_held (fold top_offer xs (new_top capacity)) = drop (length xs - nat (max 1 capacity)) (sort xs)
   \<and> top_full (fold top_offer xs (new_top capacity)) = (nat (max 1 capacity) \<le> length xs)"
proof -
  let ?t = "fold top_offer xs (new_top capacity)"
  note o = offers_held [OF assms, of capacity]
  then have "tp_count ?t = min (length xs) (nat (max 1 capacity))" using top_count [of ?t] by (auto simp: min_def)
  then show ?thesis using o by (auto simp: top_full_def)
qed


section \<open>Inserting behind equals\<close>

text \<open>Where a reserve puts a new entry: behind everything that does not rank after it.\<close>

definition insert_behind :: "('a \<Rightarrow> 'k::linorder) \<Rightarrow> 'a \<Rightarrow> 'a list \<Rightarrow> 'a list" where
  "insert_behind key x ys = takeWhile (\<lambda>y. key y \<le> key x) ys @ x # dropWhile (\<lambda>y. key y \<le> key x) ys"

lemma sort_snoc: "sort_key key (xs @ [x]) = insert_behind key x (sort_key key xs)"
proof (rule properties_for_sort_key)
  let ?s = "sort_key key xs" and ?P = "\<lambda>y. key y \<le> key x"
  have parts: "takeWhile ?P ?s @ dropWhile ?P ?s = ?s" by simp
  have above: "key x < key y" if "y \<in> set (dropWhile ?P ?s)" for y
  proof -
    from that obtain z zs where z: "dropWhile ?P ?s = z # zs" by (cases "dropWhile ?P ?s") auto
    then have "\<not> ?P z" by (metis hd_dropWhile list.distinct(1) list.sel(1))
    moreover have "sorted (map key (z # zs))"
      using sorted_sort_key [of key xs] parts z by (metis map_append sorted_append)
    ultimately show ?thesis using that z by auto
  qed
  have below: "key y \<le> key x" if "y \<in> set (takeWhile ?P ?s)" for y
    using set_takeWhileD [OF that] by simp
  show "mset (insert_behind key x ?s) = mset (xs @ [x])"
    by (simp add: insert_behind_def) (metis parts mset_append mset_sort)
  have "sorted (map key (takeWhile ?P ?s))" "sorted (map key (dropWhile ?P ?s))"
    using sorted_sort_key [of key xs] parts by (metis map_append sorted_append)+
  then show "sorted (map key (insert_behind key x ?s))"
    using above below by (fastforce simp: insert_behind_def sorted_append)
  show "filter (\<lambda>y. key k = key y) (insert_behind key x ?s) = filter (\<lambda>y. key k = key y) (xs @ [x])"
    if "k \<in> set (insert_behind key x ?s)" for k
  proof -
    have same: "filter (\<lambda>y. key k = key y) (takeWhile ?P ?s) @ filter (\<lambda>y. key k = key y) (dropWhile ?P ?s)
        = filter (\<lambda>y. key k = key y) xs"
      using sort_key_stable [of key "key k" xs] by (metis (mono_tags, lifting) parts filter_append filter_cong)
    show ?thesis
    proof (cases "key k = key x")
      case True
      then have "filter (\<lambda>y. key k = key y) (dropWhile ?P ?s) = []"
        using above by (force simp: filter_empty_conv)
      with same True show ?thesis by (simp add: insert_behind_def)
    next
      case False
      with same show ?thesis by (simp add: insert_behind_def)
    qed
  qed
qed

lemma insert_behind_simps [simp]:
  "insert_behind key x [] = [x]"
  "insert_behind key x (y # ys) = (if key y \<le> key x then y # insert_behind key x ys else x # y # ys)"
  by (simp_all add: insert_behind_def)

lemma take_insert_behind: "take n (insert_behind key x (take n ys)) = take n (insert_behind key x ys)"
proof (induction ys arbitrary: n)
  case (Cons y ys)
  show ?case
  proof (cases n)
    case (Suc m)
    then show ?thesis using Cons.IH [of m] by (cases m) simp_all
  qed simp
qed simp


section \<open>The reserves\<close>

text \<open>Best first: score descending, then node ascending.\<close>

definition best_key :: "ScoredSlot \<Rightarrow> int \<times> int" where
  "best_key c = (- ss_score c, ss_node c)"

lemma not_outranked: "(\<lambda>other. \<not> outranks score node other)
    = (\<lambda>other. best_key other \<le> best_key \<lparr>ss_slot = slot, ss_score = score, ss_node = node\<rparr>)"
  by (auto simp: fun_eq_iff outranks_def best_key_def less_eq_prod_def)

lemma reserve_offer_cells:
  assumes "int (length (rv_cells r)) \<le> max 0 (rv_capacity r)"
  shows "rv_cells (reserve_offer slot score node r)
      = take (nat (rv_capacity r)) (insert_behind best_key \<lparr>ss_slot = slot, ss_score = score, ss_node = node\<rparr> (rv_cells r))
    \<and> rv_capacity (reserve_offer slot score node r) = rv_capacity r"
proof (cases "rv_capacity r \<le> 0")
  case True
  with assms show ?thesis by (simp add: reserve_offer_def)
next
  case False
  let ?x = "\<lparr>ss_slot = slot, ss_score = score, ss_node = node\<rparr>"
  let ?P = "\<lambda>other. best_key other \<le> best_key ?x"
  let ?pos = "length (takeWhile ?P (rv_cells r))"
  have ins: "take ?pos (rv_cells r) @ ?x # drop ?pos (rv_cells r) = insert_behind best_key ?x (rv_cells r)"
    by (simp add: insert_behind_def flip: takeWhile_eq_take dropWhile_eq_drop)
  have pos: "?pos \<le> length (rv_cells r)" by (rule length_takeWhile_le)
  show ?thesis
  proof (cases "int ?pos \<ge> rv_capacity r")
    case True
    then have "?pos = length (rv_cells r)" "length (rv_cells r) = nat (rv_capacity r)" using pos assms False by linarith+
    then have "takeWhile ?P (rv_cells r) = rv_cells r"
      by (metis append_eq_conv_conj take_all_iff takeWhile_dropWhile_id order.refl takeWhile_eq_take)
    then have "insert_behind best_key ?x (rv_cells r) = rv_cells r @ [?x]"
      by (metis insert_behind_def takeWhile_dropWhile_id append_self_conv)
    then show ?thesis
      using True False \<open>length (rv_cells r) = _\<close>
      by (simp add: reserve_offer_def Let_def not_outranked [of score node slot])
  next
    case below: False
    then show ?thesis
      using False ins by (auto simp: reserve_offer_def Let_def not_outranked [of score node slot])
  qed
qed

definition offer_cell :: "ScoredSlot \<Rightarrow> Reserve \<Rightarrow> Reserve" where
  "offer_cell c r = reserve_offer (ss_slot c) (ss_score c) (ss_node c) r"

lemma cell_eta: "\<lparr>ss_slot = ss_slot c, ss_score = ss_score c, ss_node = ss_node c\<rparr> = c"
  by simp

lemma reserve_holds: "rv_cells (fold offer_cell cells (new_reserve capacity))
      = take (nat capacity) (sort_key best_key cells)
    \<and> rv_capacity (fold offer_cell cells (new_reserve capacity)) = capacity"
proof (induction cells rule: rev_induct)
  case Nil
  then show ?case by (simp add: new_reserve_def)
next
  case (snoc c cells)
  let ?r = "fold offer_cell cells (new_reserve capacity)"
  have "int (length (rv_cells ?r)) \<le> max 0 (rv_capacity ?r)" using snoc by (auto simp: min_def)
  note o = reserve_offer_cells [OF this, of "ss_slot c" "ss_score c" "ss_node c"]
  moreover have "offer_cell c ?r = reserve_offer (ss_slot c) (ss_score c) (ss_node c) ?r" by (rule offer_cell_def)
  ultimately show ?case
    using snoc by (simp add: sort_snoc take_insert_behind cell_eta del: insert_behind_simps)
qed

text \<open>
  A reserve holds the best of its kind: whatever is offered, in whatever order, it holds the
  best entries by score descending, then node ascending, as many as it has room for, in that order;
  a reserve without room holds nothing.
\<close>

lemma reserve_keeps_best:
  "reserve_slots (fold offer_cell cells (new_reserve capacity))
     = map ss_slot (take (nat capacity) (sort_key best_key cells))"
  by (simp add: reserve_slots_def reserve_holds)

section \<open>The pool\<close>

text \<open>The root of the pool's heap is its worst entry.\<close>

definition worst_key :: "ScoredSlot \<Rightarrow> int \<times> int" where
  "worst_key c = (ss_score c, - ss_node c)"

lemma worse_cell_key: "worse_cell a b \<longleftrightarrow> worst_key a < worst_key b"
  by (auto simp: worse_cell_def worse_def worst_key_def less_prod_def)

lemma worst_best: "worst_key a \<le> worst_key b \<longleftrightarrow> best_key b \<le> best_key a"
  by (auto simp: worst_key_def best_key_def less_eq_prod_def)

lemmas sift_cells = sift_up_ok [where better = worse_cell and key = worst_key, OF _ _ _ worse_cell_key]
  sift_down_ok [where better = worse_cell and key = worst_key, OF _ _ _ worse_cell_key]

definition pool_held :: "BoundedTopK \<Rightarrow> ScoredSlot list" where
  "pool_held k = take (bk_size k) (bk_cells k)"

definition pool_ok :: "BoundedTopK \<Rightarrow> bool" where
  "pool_ok k \<longleftrightarrow> length (bk_cells k) = max 1 (bk_capacity k) \<and> bk_size k \<le> bk_capacity k
     \<and> heap_ok worst_key (bk_size k) (bk_cells k)"

definition offer_pool :: "ScoredSlot \<Rightarrow> BoundedTopK \<Rightarrow> BoundedTopK" where
  "offer_pool c k = topk_offer (ss_slot c) (ss_score c) (ss_node c) k"

text \<open>A cell the columns can hold.\<close>

definition cell_fits :: "ScoredSlot \<Rightarrow> bool" where
  "cell_fits c \<longleftrightarrow> to_int32 (ss_score c) = ss_score c \<and> to_int32 (ss_node c) = ss_node c"

lemma stored_fits: "cell_fits c \<Longrightarrow> stored_cell (ss_slot c) (ss_score c) (ss_node c) = c"
  by (simp add: cell_fits_def stored_cell_def)

lemma pool_insert:
  assumes "pool_ok k" "cell_fits c" "bk_size k < bk_capacity k"
  shows "pool_ok (offer_pool c k) \<and> bk_capacity (offer_pool c k) = bk_capacity k
     \<and> bk_size (offer_pool c k) = Suc (bk_size k) \<and> mset (pool_held (offer_pool c k)) = add_mset c (mset (pool_held k))"
proof -
  let ?n = "bk_size k" and ?cells = "(bk_cells k)[bk_size k := c]"
  have n: "?n < length (bk_cells k)" using assms by (simp add: pool_ok_def)
  have "heap_above worst_key (Suc ?n) ?n ?cells"
    using assms n by (intro heap_above_push) (simp_all add: pool_ok_def)
  with n have up: "heap_ok worst_key (Suc ?n) (sift_up worse_cell ?cells ?n)" "shuffled (Suc ?n) ?cells (sift_up worse_cell ?cells ?n)"
    using sift_cells(1) [of "Suc ?n" ?n ?cells] by simp_all
  have offer: "offer_pool c k = k\<lparr>bk_cells := sift_up worse_cell ?cells ?n, bk_size := ?n + 1\<rparr>"
    using assms by (simp add: offer_pool_def topk_offer_def stored_fits Let_def)
  have "mset (take (Suc ?n) ?cells) = add_mset c (mset (take ?n (bk_cells k)))"
    using n by (simp add: take_Suc_conv_app_nth)
  then show ?thesis
    using up offer assms by (simp add: pool_ok_def pool_held_def shuffled_def)
qed


text \<open>Replacing the worst entry, which is at the root.\<close>

lemma pool_replace:
  assumes "pool_ok k" "cell_fits c" "bk_size k = bk_capacity k" "0 < bk_capacity k"
  shows "pool_ok (offer_pool c k) \<and> bk_capacity (offer_pool c k) = bk_capacity k \<and> bk_size (offer_pool c k) = bk_size k
     \<and> bk_cells k ! 0 \<in># mset (pool_held k)
     \<and> (\<forall>y \<in># mset (pool_held k). worst_key (bk_cells k ! 0) \<le> worst_key y)
     \<and> mset (pool_held (offer_pool c k))
       = (if worst_key (bk_cells k ! 0) < worst_key c then add_mset c (mset (pool_held k) - {#bk_cells k ! 0#})
          else mset (pool_held k))"
proof -
  let ?n = "bk_size k" and ?root = "bk_cells k ! 0"
  have n: "0 < ?n" "?n = length (bk_cells k)" using assms by (simp_all add: pool_ok_def)
  then obtain rest where cells: "bk_cells k = ?root # rest" by (cases "bk_cells k") auto
  have held: "pool_held k = ?root # rest" using n cells by (simp add: pool_held_def)
  have root: "\<forall>y \<in># mset (pool_held k). worst_key ?root \<le> worst_key y"
    using heap_root [of worst_key ?n "bk_cells k"] assms(1) n
    by (auto simp: pool_held_def pool_ok_def in_set_conv_nth)
  have worse: "worse (ss_score ?root) (ss_node ?root) (ss_score c) (ss_node c) \<longleftrightarrow> worst_key ?root < worst_key c"
    using worse_cell_key [of ?root c] by (simp add: worse_cell_def)
  show ?thesis
  proof (cases "worst_key ?root < worst_key c")
    case False
    then have "offer_pool c k = k" using assms worse by (simp add: offer_pool_def topk_offer_def)
    then show ?thesis using False assms root held by simp
  next
    case True
    let ?cells = "(bk_cells k)[0 := c]" and ?down = "sift_down worse_cell ?n ((bk_cells k)[0 := c]) 0"
    have "heap_below worst_key ?n 0 ?cells"
      using heap_below_pop [of worst_key "?n" "bk_cells k" c] assms(1) n
      by (auto simp: heap_below_def heap_ok_def pool_ok_def)
    with n have down: "heap_ok worst_key ?n ?down" "shuffled ?n ?cells ?down"
      using sift_cells(2) [of ?n 0 ?cells] by simp_all
    have offer: "offer_pool c k = k\<lparr>bk_cells := ?down\<rparr>"
      using assms True worse by (simp add: offer_pool_def topk_offer_def stored_fits)
    have "mset (take ?n ?cells) = add_mset c (mset rest)" using n cells by (metis length_list_update list_update_code(2) mset.simps(2) take_all order.refl)
    moreover have "length ?down = ?n" using down(2) n by (simp add: shuffled_def)
    then have "take ?n ?down = ?down" by simp
    ultimately have "mset ?down = add_mset c (mset rest)" "length ?down = ?n"
      using down(2) n by (simp_all add: shuffled_def)
    moreover have "mset (pool_held k) - {#?root#} = mset rest" by (simp add: held)
    moreover have "?root \<in># mset (pool_held k)" by (simp add: held)
    ultimately show ?thesis
      using down(1) offer True assms root n by (simp add: pool_ok_def) (simp add: pool_held_def)
  qed
qed

text \<open>Against the ranked list: dropping the last of the best \<open>n\<close> is removing its worst entry.\<close>

lemma sorted_last: "sorted (map f xs) \<Longrightarrow> y \<in> set xs \<Longrightarrow> f y \<le> f (last xs)"
  by (induction xs) auto

lemma last_of_best:
  assumes "sorted (map best_key xs)" "xs \<noteq> []" "distinct (map best_key xs)" "y \<in> set xs"
    and "\<forall>z \<in> set xs. worst_key y \<le> worst_key z"
  shows "y = last xs"
proof -
  have "best_key (last xs) \<le> best_key y" using assms(2,5) by (simp add: worst_best)
  moreover have "best_key y \<le> best_key (last xs)" using sorted_last [OF assms(1,4)] .
  ultimately have "best_key y = best_key (last xs)" by simp
  then show ?thesis using assms(2,3,4) by (auto simp: distinct_map inj_on_def)
qed

text \<open>One more candidate below a full ranking: it is left out, or it replaces the last.\<close>

lemma take_insert_full:
  assumes "sorted (map best_key t)" "t \<noteq> []"
  shows "mset (take (length t) (insert_behind best_key c t))
    = (if best_key c < best_key (last t) then add_mset c (mset t - {#last t#}) else mset t)"
proof (cases "best_key c < best_key (last t)")
  case False
  then have "\<forall>y \<in> set t. best_key y \<le> best_key c"
    using sorted_last [OF assms(1)] by (metis linorder_not_less order.trans)
  then have "insert_behind best_key c t = t @ [c]" by (simp add: insert_behind_def takeWhile_eq_all_conv dropWhile_eq_Nil_conv)
  with False show ?thesis by simp
next
  case True
  let ?P = "\<lambda>y. best_key y \<le> best_key c"
  have parts: "takeWhile ?P t @ dropWhile ?P t = t" by simp
  have "dropWhile ?P t \<noteq> []" 
    using True last_in_set [OF assms(2)] by (metis dropWhile_eq_Nil_conv linorder_not_less)
  then obtain ys where d: "dropWhile ?P t = ys @ [last t]"
    using parts by (metis append_butlast_last_id last_append)
  then have t: "t = takeWhile ?P t @ ys @ [last t]" using parts by simp
  then have "length t = length (takeWhile ?P t @ c # ys)" by (metis length_append length_append_singleton length_Cons add_Suc_right)
  then have "take (length t) (insert_behind best_key c t) = takeWhile ?P t @ c # ys"
    by (simp add: insert_behind_def d)
  moreover have "mset t = add_mset (last t) (mset (takeWhile ?P t) + mset ys)"
    by (subst t) simp
  ultimately show ?thesis using True by simp
qed


lemma pool_without_room:
  "pool_ok k \<Longrightarrow> bk_capacity k = 0 \<Longrightarrow> pool_ok (offer_pool c k) \<and> bk_capacity (offer_pool c k) = 0
     \<and> bk_size (offer_pool c k) = 0 \<and> pool_held (offer_pool c k) = []"
  by (simp add: offer_pool_def topk_offer_def sift_down_step pool_ok_def heap_ok_def pool_held_def)

lemma new_pool_ok: "pool_ok (new_topk capacity)" "pool_held (new_topk capacity) = []"
  by (simp_all add: pool_ok_def new_topk_def heap_ok_def pool_held_def)

lemma pool_offers:
  assumes "list_all cell_fits cells" "distinct (map best_key cells)"
  shows "pool_ok (fold offer_pool cells (new_topk capacity))
     \<and> bk_capacity (fold offer_pool cells (new_topk capacity)) = capacity
     \<and> mset (pool_held (fold offer_pool cells (new_topk capacity))) = mset (take capacity (sort_key best_key cells))"
  using assms
proof (induction cells rule: rev_induct)
  case Nil
  then show ?case by (simp add: new_pool_ok) (simp add: new_topk_def)
next
  case (snoc c cells)
  let ?k = "fold offer_pool cells (new_topk capacity)" and ?s = "sort_key best_key cells"
  let ?t = "take capacity ?s"
  from snoc have k: "pool_ok ?k" "bk_capacity ?k = capacity" "mset (pool_held ?k) = mset ?t" and c: "cell_fits c"
    and fresh: "distinct (map best_key cells)" by simp_all
  have size: "bk_size ?k = length ?t"
    using k by (metis length_take mset_eq_length pool_held_def pool_ok_def min.absorb2 max.cobounded2 order.trans)
  have next_t: "take capacity (sort_key best_key (cells @ [c])) = take capacity (insert_behind best_key c ?t)"
    by (simp add: sort_snoc take_insert_behind del: insert_behind_simps)
  consider (none) "capacity = 0" | (room) "length ?s < capacity" | (full) "0 < capacity" "length ?t = capacity"
    by (cases "capacity = 0"; cases "length ?s < capacity") auto
  then show ?case
  proof cases
    case none
    with pool_without_room [OF k(1), of c] k(2) show ?thesis by simp
  next
    case room
    then have t: "?t = ?s" by simp
    have "length (insert_behind best_key c ?s) = Suc (length ?s)" by (metis length_append_singleton length_sort sort_snoc)
    then have "take capacity (insert_behind best_key c ?s) = insert_behind best_key c ?s" using room by simp
    moreover have "mset (insert_behind best_key c ?s) = add_mset c (mset ?s)" by (metis mset_sort sort_snoc mset_append union_mset_add_mset_right mset_single_iff add.right_neutral mset.simps)
    ultimately show ?thesis
      using pool_insert [OF k(1) c] k next_t t size room by simp
  next
    case full
    have sorted: "sorted (map best_key ?t)" by (metis sorted_sort_key sorted_wrt_take take_map)
    have "distinct (map best_key ?s)" using fresh by (simp add: distinct_map)
    then have distinct: "distinct (map best_key ?t)" by (metis distinct_take take_map)
    have ne: "?t \<noteq> []" using full by (metis list.size(3) less_irrefl)
    note r = pool_replace [OF k(1) c, unfolded k(2,3) size]
    have "bk_cells ?k ! 0 = last ?t"
      using r full by (intro last_of_best [OF sorted ne distinct]) auto
    moreover have "worst_key (last ?t) < worst_key c \<longleftrightarrow> best_key c < best_key (last ?t)"
      using worst_best [of c "last ?t"] by (metis linorder_not_less)
    ultimately have "mset (pool_held (offer_pool c ?k)) = mset (take capacity (insert_behind best_key c ?t))"
      using r full take_insert_full [OF sorted ne, of c] by metis
    moreover have "fold offer_pool (cells @ [c]) (new_topk capacity) = offer_pool c ?k" by simp
    ultimately show ?thesis using r full k(2) size next_t by metis
  qed
qed

lemma drain_sorted:
  "heap_ok worst_key n cells \<Longrightarrow> n \<le> length cells \<Longrightarrow>
     \<exists>ranked. topk_drain n cells = map ss_slot ranked \<and> mset ranked = mset (take n cells) \<and> sorted (map best_key ranked)"
proof (induction n arbitrary: cells)
  case (Suc n)
  let ?root = "cells ! 0" and ?next = "if n > 0 then sift_down worse_cell n (cells[0 := cells ! n]) 0 else cells"
  have "heap_ok worst_key n ?next \<and> length ?next = length cells \<and> mset (take (Suc n) cells) = add_mset ?root (mset (take n ?next))"
  proof (cases "n > 0")
    case True
    let ?cells = "cells[0 := cells ! n]"
    have down: "heap_ok worst_key n (sift_down worse_cell n ?cells 0)" "shuffled n ?cells (sift_down worse_cell n ?cells 0)"
      using sift_cells(2) [OF heap_below_pop [OF Suc.prems]] True Suc.prems by simp_all
    obtain rest where rest: "take n cells = ?root # rest"
      using True Suc.prems by (cases cells; cases n) auto
    have "take n ?cells = cells ! n # rest" using rest by (simp add: take_update_swap)
    moreover have "take (Suc n) cells = ?root # rest @ [cells ! n]"
      using rest Suc.prems by (simp add: take_Suc_conv_app_nth)
    ultimately show ?thesis using down True by (simp add: shuffled_def)
  next
    case False
    with Suc.prems show ?thesis by (cases cells) (simp_all add: heap_ok_def)
  qed
  then obtain ranked where ranked: "topk_drain n ?next = map ss_slot ranked" "mset ranked = mset (take n ?next)"
      "sorted (map best_key ranked)" and all: "mset (take (Suc n) cells) = add_mset ?root (mset (take n ?next))"
    using Suc.IH [of ?next] Suc.prems by auto
  have "best_key y \<le> best_key ?root" if "y \<in> set ranked" for y
  proof -
    have "y \<in># mset (take (Suc n) cells)" using that ranked(2) all by (metis set_mset_mset union_iff add_mset_add_single)
    then obtain i where "i < Suc n" "y = cells ! i" by (auto simp: in_set_conv_nth)
    with heap_root [OF Suc.prems(1)] show ?thesis by (simp add: worst_best)
  qed
  with ranked all show ?case
    by (intro exI [of _ "ranked @ [?root]"]) (auto simp: Let_def sorted_append)
qed simp


text \<open>
  The pool ranks the best candidates: whatever distinct candidates are offered, in whatever
  order, draining it gives the slots of the best of them, as many as it has room for, by score
  descending, then node ascending.
\<close>

lemma pool_keeps_best:
  assumes "list_all cell_fits cells" "distinct (map best_key cells)"
  shows "topk_drain (bk_size (fold offer_pool cells (new_topk capacity))) (bk_cells (fold offer_pool cells (new_topk capacity)))
     = map ss_slot (take capacity (sort_key best_key cells))"
proof -
  let ?k = "fold offer_pool cells (new_topk capacity)" and ?t = "take capacity (sort_key best_key cells)"
  note k = pool_offers [OF assms, of capacity]
  then have "bk_size ?k \<le> length (bk_cells ?k)" by (auto simp: pool_ok_def)
  with k obtain ranked where r: "topk_drain (bk_size ?k) (bk_cells ?k) = map ss_slot ranked"
      "mset ranked = mset ?t" "sorted (map best_key ranked)"
    using drain_sorted [of "bk_size ?k" "bk_cells ?k"] by (auto simp: pool_ok_def pool_held_def)
  have "sorted (map best_key ?t)" by (metis sorted_sort_key sorted_wrt_take take_map)
  moreover have "mset (map best_key ranked) = mset (map best_key ?t)" using r(2) by simp
  ultimately have "map best_key ranked = map best_key ?t" using r(3) by (intro sorted_mset_unique)
  moreover have "set ranked = set ?t" using r(2) by (metis set_mset_mset)
  moreover have "inj_on best_key (set ?t)"
    using assms(2) set_take_subset [of capacity "sort_key best_key cells"]
    by (auto simp: distinct_map intro: inj_on_subset)
  ultimately have "ranked = ?t" using map_inj_on [of best_key ranked ?t] by (metis sup.idem)
  with r(1) show ?thesis by simp
qed

end
