(* ===== verification/Kernel_Fuse_Correct.thy ===== *)
theory Kernel_Fuse_Correct
  imports Kernel_Ranking
begin

text \<open>
  What fusion promises of its result: the order and the reserves are the rankings of the
  admissible candidates by their fused score, and every candidate is either scored or counted
  under the reason that excluded it.
\<close>

section \<open>The admissible candidates\<close>

definition admissible :: "KernelPlanContext \<Rightarrow> CandidateTable \<Rightarrow> nat \<Rightarrow> bool" where
  "admissible cx table slot \<longleftrightarrow> \<not> node_has table slot INVALIDATED \<and> node_has table slot GROUNDABLE
     \<and> (kx_focusPaths cx = [] \<or> has table slot FLAG_FOCUS)"

definition attributes :: "ContextIndexReader \<Rightarrow> CandidateTable \<Rightarrow> nat \<Rightarrow> CompactNodeScoreFields" where
  "attributes reader table slot = projr (rd_nodeScoreFields reader (cr_node (row_of table slot)))"

definition scored_cell :: "ContextIndexReader \<Rightarrow> KernelPlanContext \<Rightarrow> CandidateTable \<Rightarrow> nat \<Rightarrow> ScoredSlot" where
  "scored_cell reader cx table slot = \<lparr>ss_slot = slot,
     ss_score = fused_score cx table slot (attributes reader table slot), ss_node = cr_node (row_of table slot)\<rparr>"

definition scored_cells :: "ContextIndexReader \<Rightarrow> KernelPlanContext \<Rightarrow> CandidateTable \<Rightarrow> nat list \<Rightarrow> ScoredSlot list" where
  "scored_cells reader cx table slots = map (scored_cell reader cx table) (filter (admissible cx table) slots)"

definition excluded :: "FusionState \<Rightarrow> nat" where
  "excluded s = fs_staleExcluded s + fs_invalidatedExcluded s + fs_ungroundableExcluded s + fs_focusExcluded s"

text \<open>The rankings a state keeps, and what offering a cell does to them.\<close>

type_synonym rankings = "BoundedTopK \<times> Reserve \<times> Reserve \<times> Reserve \<times> Reserve"

definition rankings :: "FusionState \<Rightarrow> rankings" where
  "rankings s = (fs_pool s, fs_protectedGates s, fs_conflicts s, fs_exactSeeds s, fs_testOrGates s)"

definition offer_flagged :: "CandidateTable \<Rightarrow> int \<Rightarrow> ScoredSlot \<Rightarrow> Reserve \<Rightarrow> Reserve" where
  "offer_flagged table flag c r = (if has table (ss_slot c) flag then offer_cell c r else r)"

fun rank_cell :: "CandidateTable \<Rightarrow> ScoredSlot \<Rightarrow> rankings \<Rightarrow> rankings" where
  "rank_cell table c (pool, gates, conflicts, seeds, tests) =
     (offer_pool c pool, offer_flagged table FLAG_PROTECTED c gates, offer_flagged table FLAG_CONFLICT c conflicts,
      offer_flagged table FLAG_EXACT_SEED c seeds, offer_flagged table FLAG_TEST_OR_GATE c tests)"

lemma rank_cells:
  "fold (rank_cell table) cells (pool, gates, conflicts, seeds, tests) =
     (fold offer_pool cells pool,
      fold offer_cell (filter (\<lambda>c. has table (ss_slot c) FLAG_PROTECTED) cells) gates,
      fold offer_cell (filter (\<lambda>c. has table (ss_slot c) FLAG_CONFLICT) cells) conflicts,
      fold offer_cell (filter (\<lambda>c. has table (ss_slot c) FLAG_EXACT_SEED) cells) seeds,
      fold offer_cell (filter (\<lambda>c. has table (ss_slot c) FLAG_TEST_OR_GATE) cells) tests)"
  by (induction cells arbitrary: pool gates conflicts seeds tests) (simp_all add: offer_flagged_def)

text \<open>What a state has counted of the candidates it was given.\<close>

definition reached :: "FusionState \<Rightarrow> nat \<times> nat \<times> bool \<times> bool" where
  "reached s = (fs_protectedReachable s, fs_conflictsReachable s, fs_exactSeedReachable s, fs_testOrGateReachable s)"

section \<open>One candidate\<close>

lemma fuse_admitted:
  assumes "fuse_slot reader cx table slot s = Inr s'" "admissible cx table slot"
  shows "s' = fuse_admissible cx table slot (attributes reader table slot) s"
  using assms by (auto simp: fuse_slot_def admissible_def attributes_def rbind_Inr_iff)

lemma fuse_excluded:
  assumes "fuse_slot reader cx table slot s = Inr s'" "\<not> admissible cx table slot"
  shows "excluded s' = Suc (excluded s) \<and> rankings s' = rankings s \<and> reached s' = reached s \<and> fs_fused s' = fs_fused s"
proof -
  consider (invalidated) "s' = s\<lparr>fs_invalidatedExcluded := fs_invalidatedExcluded s + 1\<rparr>"
    | (stale) "s' = s\<lparr>fs_staleExcluded := fs_staleExcluded s + 1\<rparr>"
    | (ungroundable) "s' = s\<lparr>fs_ungroundableExcluded := fs_ungroundableExcluded s + 1\<rparr>"
    | (unfocused) "s' = s\<lparr>fs_focusExcluded := fs_focusExcluded s + 1\<rparr>"
    using assms by (auto simp: fuse_slot_def admissible_def rbind_Inr_iff split: if_splits)
  then show ?thesis by cases (simp_all add: excluded_def rankings_def reached_def)
qed

lemma fuse_admissible_facts:
  "rankings (fuse_admissible cx table slot (attributes reader table slot) s)
     = rank_cell table (scored_cell reader cx table slot) (rankings s)"
  "excluded (fuse_admissible cx table slot attrs s) = excluded s"
  "fs_fused (fuse_admissible cx table slot attrs s) = (fs_fused s)[slot := to_int32 (fused_score cx table slot attrs)]"
  by (simp_all add: fuse_admissible_def rankings_def excluded_def scored_cell_def offer_flagged_def offer_if_def
      offer_cell_def offer_pool_def Let_def)

section \<open>All candidates\<close>

lemma fuse_fold:
  assumes "fold_res (fuse_slot reader cx table) slots s = Inr s'"
  shows "rankings s' = fold (rank_cell table) (scored_cells reader cx table slots) (rankings s)
    \<and> excluded s' + length (filter (admissible cx table) slots) = excluded s + length slots
    \<and> length (fs_fused s') = length (fs_fused s)"
  using assms
proof (induction slots arbitrary: s)
  case (Cons slot slots)
  from Cons.prems obtain t where t: "fuse_slot reader cx table slot s = Inr t"
      "fold_res (fuse_slot reader cx table) slots t = Inr s'"
    by (auto simp: rbind_Inr_iff)
  show ?case
  proof (cases "admissible cx table slot")
    case True
    with fuse_admitted [OF t(1)] Cons.IH [OF t(2)] show ?thesis
      by (simp add: scored_cells_def fuse_admissible_facts)
  next
    case False
    with fuse_excluded [OF t(1)] Cons.IH [OF t(2)] show ?thesis by (simp add: scored_cells_def)
  qed
qed (simp add: scored_cells_def)

lemma fuse_fold_reached:
  assumes "fold_res (fuse_slot reader cx table) slots s = Inr s'"
  shows "fs_protectedReachable s' = fs_protectedReachable s
       + length (filter (\<lambda>c. has table (ss_slot c) FLAG_PROTECTED) (scored_cells reader cx table slots))
    \<and> fs_conflictsReachable s' = fs_conflictsReachable s
       + length (filter (\<lambda>c. has table (ss_slot c) FLAG_CONFLICT) (scored_cells reader cx table slots))"
  using assms
proof (induction slots arbitrary: s)
  case (Cons slot slots)
  from Cons.prems obtain t where t: "fuse_slot reader cx table slot s = Inr t"
      "fold_res (fuse_slot reader cx table) slots t = Inr s'"
    by (auto simp: rbind_Inr_iff)
  show ?case
  proof (cases "admissible cx table slot")
    case True
    with fuse_admitted [OF t(1)] Cons.IH [OF t(2)] show ?thesis
      by (simp add: scored_cells_def scored_cell_def fuse_admissible_def Let_def)
  next
    case False
    with fuse_excluded [OF t(1)] Cons.IH [OF t(2)] show ?thesis by (simp add: scored_cells_def reached_def)
  qed
qed (simp add: scored_cells_def)

text \<open>Each lane keeps its own best candidate.\<close>

definition in_lane :: "CandidateTable \<Rightarrow> RetrievalLane \<Rightarrow> ScoredSlot \<Rightarrow> bool" where
  "in_lane table lane c \<longleftrightarrow> rankIn table (ss_slot c) lane \<ge> 0"

lemma at_lane [simp]: "map f RETRIEVAL_LANES ! LANE_SLOT lane = f lane"
  by (cases lane) (simp_all add: RETRIEVAL_LANES_def)

lemma fuse_fold_leaders:
  assumes "fold_res (fuse_slot reader cx table) slots s = Inr s'"
  shows "fs_laneLeaders s' ! LANE_SLOT lane
    = fold offer_cell (filter (in_lane table lane) (scored_cells reader cx table slots)) (fs_laneLeaders s ! LANE_SLOT lane)"
  using assms
proof (induction slots arbitrary: s)
  case (Cons slot slots)
  from Cons.prems obtain t where t: "fuse_slot reader cx table slot s = Inr t"
      "fold_res (fuse_slot reader cx table) slots t = Inr s'"
    by (auto simp: rbind_Inr_iff)
  show ?case
  proof (cases "admissible cx table slot")
    case True
    with fuse_admitted [OF t(1)] Cons.IH [OF t(2)] show ?thesis
      by (simp add: scored_cells_def scored_cell_def fuse_admissible_def in_lane_def offer_if_def offer_cell_def Let_def)
  next
    case False
    then have "fs_laneLeaders t = fs_laneLeaders s"
      using t(1) by (auto simp: fuse_slot_def admissible_def rbind_Inr_iff split: if_splits)
    with False Cons.IH [OF t(2)] show ?thesis by (simp add: scored_cells_def)
  qed
qed (simp add: scored_cells_def)

lemma fuse_fold_scores:
  assumes "fold_res (fuse_slot reader cx table) slots s = Inr s'" "slot \<in> set slots" "admissible cx table slot"
    "distinct slots" "slot < length (fs_fused s)"
  shows "fs_fused s' ! slot = to_int32 (fused_score cx table slot (attributes reader table slot))"
proof -
  have keep: "fs_fused s' ! i = fs_fused s ! i"
    if "fold_res (fuse_slot reader cx table) slots s = Inr s'" "i \<notin> set slots" for i slots s
    using that
  proof (induction slots arbitrary: s)
    case (Cons j slots)
    from Cons.prems obtain t where t: "fuse_slot reader cx table j s = Inr t"
      "fold_res (fuse_slot reader cx table) slots t = Inr s'" by (auto simp: rbind_Inr_iff)
    have "fs_fused t ! i = fs_fused s ! i"
      using fuse_admitted [OF t(1)] fuse_excluded [OF t(1)] Cons.prems(2)
      by (cases "admissible cx table j") (simp_all add: fuse_admissible_facts)
    with Cons.IH [OF t(2)] Cons.prems(2) show ?case by simp
  qed simp
  show ?thesis
    using assms
  proof (induction slots arbitrary: s)
    case (Cons j slots)
    from Cons.prems obtain t where t: "fuse_slot reader cx table j s = Inr t"
      "fold_res (fuse_slot reader cx table) slots t = Inr s'" by (auto simp: rbind_Inr_iff)
    have "length (fs_fused t) = length (fs_fused s)"
      using fuse_admitted [OF t(1)] fuse_excluded [OF t(1)]
      by (cases "admissible cx table j") (simp_all add: fuse_admissible_facts)
    then show ?case
      using Cons.IH [OF t(2)] Cons.prems(2-5) fuse_admitted [OF t(1)] keep [OF t(2), of slot]
      by (cases "slot = j") (auto simp: fuse_admissible_facts)
  qed simp
qed

lemma fusion_parts:
  assumes "fuseKernelCandidates reader cx table ns = Inr (fu, ns')"
  obtains s where "fold_res (fuse_slot reader cx table) [0..<ct_size table] (fusion_start cx table) = Inr s"
    "fu_order fu = topk_drain (bk_size (fs_pool s)) (bk_cells (fs_pool s))"
    "fu_protectedGates fu = reserve_slots (fs_protectedGates s)" "fu_conflicts fu = reserve_slots (fs_conflicts s)"
    "fu_exactSeeds fu = reserve_slots (fs_exactSeeds s)" "fu_testOrGates fu = reserve_slots (fs_testOrGates s)"
    "fu_fused fu = fs_fused s" "fu_protectedReachable fu = fs_protectedReachable s"
    "fu_conflictsReachable fu = fs_conflictsReachable s"
    "fu_laneLeaders fu = map (\<lambda>lane. case reserve_slots (fs_laneLeaders s ! LANE_SLOT lane) of
       [] \<Rightarrow> - 1 | best # _ \<Rightarrow> int best) RETRIEVAL_LANES"
    "excluded s = fu_staleExcluded fu + fu_invalidatedExcluded fu + fu_ungroundableExcluded fu + fu_focusExcluded fu"
  using assms by (auto simp: fuseKernelCandidates_def Let_def rbind_Inr_iff excluded_def)

lemma distinct_cells:
  assumes "table_ok table"
  shows "distinct (map best_key (scored_cells reader cx table [0..<ct_size table]))"
proof -
  have "inj_on (\<lambda>slot. cr_node (row_of table slot)) {0..<ct_size table}"
    using assms by (auto simp: table_ok_def intro!: inj_onI) (metis option.inject)
  then have "inj_on (\<lambda>slot. best_key (scored_cell reader cx table slot)) {0..<ct_size table}"
    by (auto simp: inj_on_def best_key_def scored_cell_def)
  then show ?thesis
    by (auto simp: scored_cells_def distinct_map comp_def intro: inj_on_subset)
qed

section \<open>Properties\<close>

text \<open>
  C19. Fusion is the ranking it stands for: the order is the best of the admissible candidates by
  fused score, ties towards the smaller node, as many as the pool has room for; each of the four
  reserves is the best of those with its flag, as many as the configuration reserves; and the leader
  of a lane is the best of those the lane ranked, or -1 where there is none. None of it depends on the
  order the table was filled in. The scores have to fit the columns.
\<close>

theorem fusion_ranks_admissible:
  fixes reader cx table
  defines "cells \<equiv> scored_cells reader cx table [0..<ct_size table]"
    and "best \<equiv> \<lambda>n flag. map ss_slot (take (nat n) (sort_key best_key
      (filter (\<lambda>c. has table (ss_slot c) flag) (scored_cells reader cx table [0..<ct_size table]))))"
  assumes run: "fuseKernelCandidates reader cx table ns = Inr (fu, ns')" and ok: "table_ok table"
    and fits: "list_all cell_fits cells"
  shows "fu_order fu = map ss_slot (take (min (ct_size table) (nat (max 1 (kx_maxSelected cx) * 4))) (sort_key best_key cells))
    \<and> fu_protectedGates fu = best (protectedGateReserveSlots (kx_config cx)) FLAG_PROTECTED
    \<and> fu_conflicts fu = best (protectedGateReserveSlots (kx_config cx)) FLAG_CONFLICT
    \<and> fu_exactSeeds fu = best (exactSeedReserveSlots (kx_kernelConfig cx)) FLAG_EXACT_SEED
    \<and> fu_testOrGates fu = best (testOrGateReserveSlots (kx_config cx)) FLAG_TEST_OR_GATE
    \<and> fu_laneLeaders fu = map (\<lambda>lane. case sort_key best_key (filter (\<lambda>c. rankIn table (ss_slot c) lane \<ge> 0) cells) of
        [] \<Rightarrow> - 1 | c # _ \<Rightarrow> int (ss_slot c)) RETRIEVAL_LANES"
  using run
proof (rule fusion_parts)
  fix s
  assume fold: "fold_res (fuse_slot reader cx table) [0..<ct_size table] (fusion_start cx table) = Inr s"
  note r = fuse_fold [OF fold, THEN conjunct1, unfolded rankings_def fusion_start_def Let_def, simplified, unfolded rank_cells]
  note pool = pool_keeps_best [OF fits [unfolded cells_def] distinct_cells [OF ok]]
  have leader: "reserve_slots (fs_laneLeaders s ! LANE_SLOT lane)
      = map ss_slot (take 1 (sort_key best_key (filter (\<lambda>c. rankIn table (ss_slot c) lane \<ge> 0) cells)))" for lane
    unfolding fuse_fold_leaders [OF fold]
    by (simp add: fusion_start_def Let_def reserve_keeps_best cells_def in_lane_def [abs_def])
  show ?thesis if "fu_order fu = topk_drain (bk_size (fs_pool s)) (bk_cells (fs_pool s))"
    "fu_protectedGates fu = reserve_slots (fs_protectedGates s)" "fu_conflicts fu = reserve_slots (fs_conflicts s)"
    "fu_exactSeeds fu = reserve_slots (fs_exactSeeds s)" "fu_testOrGates fu = reserve_slots (fs_testOrGates s)"
    "fu_laneLeaders fu = map (\<lambda>lane. case reserve_slots (fs_laneLeaders s ! LANE_SLOT lane) of
       [] \<Rightarrow> - 1 | best # _ \<Rightarrow> int best) RETRIEVAL_LANES"
    using r that by (simp add: pool reserve_keeps_best leader cells_def best_def split: list.split)
qed

text \<open>
  C36. Every candidate is accounted for: it is admissible, and then its fused score is recorded at
  its slot, or it is counted under exactly one of the four reasons for leaving it out; and the
  reachable gates and conflicts are those of the admissible candidates.
\<close>

theorem fusion_accounts_for_all:
  assumes "fuseKernelCandidates reader cx table ns = Inr (fu, ns')"
  shows "fu_staleExcluded fu + fu_invalidatedExcluded fu + fu_ungroundableExcluded fu + fu_focusExcluded fu
       + length (filter (admissible cx table) [0..<ct_size table]) = ct_size table
    \<and> (\<forall>slot < ct_size table. admissible cx table slot \<longrightarrow>
         fu_fused fu ! slot = to_int32 (fused_score cx table slot (attributes reader table slot)))
    \<and> fu_protectedReachable fu = length (filter (\<lambda>slot. admissible cx table slot \<and> has table slot FLAG_PROTECTED) [0..<ct_size table])
    \<and> fu_conflictsReachable fu = length (filter (\<lambda>slot. admissible cx table slot \<and> has table slot FLAG_CONFLICT) [0..<ct_size table])"
  using assms
proof (rule fusion_parts)
  fix s
  assume fold: "fold_res (fuse_slot reader cx table) [0..<ct_size table] (fusion_start cx table) = Inr s"
    and fu: "fu_fused fu = fs_fused s" "fu_protectedReachable fu = fs_protectedReachable s"
      "fu_conflictsReachable fu = fs_conflictsReachable s"
      "excluded s = fu_staleExcluded fu + fu_invalidatedExcluded fu + fu_ungroundableExcluded fu + fu_focusExcluded fu"
  have start: "excluded (fusion_start cx table) = 0" "length (fs_fused (fusion_start cx table)) = ct_size table"
    "fs_protectedReachable (fusion_start cx table) = 0" "fs_conflictsReachable (fusion_start cx table) = 0"
    by (simp_all add: fusion_start_def Let_def excluded_def)
  have count: "length (filter (\<lambda>c. P (ss_slot c)) (scored_cells reader cx table slots))
      = length (filter (\<lambda>slot. admissible cx table slot \<and> P slot) slots)" for P slots
    by (induction slots) (simp_all add: scored_cells_def scored_cell_def)
  show ?thesis
    using fuse_fold [OF fold] fuse_fold_scores [OF fold] fuse_fold_reached [OF fold] start fu
    by (simp add: count [of "\<lambda>slot. has table slot FLAG_PROTECTED"] count [of "\<lambda>slot. has table slot FLAG_CONFLICT"])
qed

end
