(* ===== verification/Kernel_Select_Correct.thy ===== *)
theory Kernel_Select_Correct
  imports Kernel_Select
begin

text \<open>
  What the selector promises: it never spends more than the budget nor takes more than the cap,
  takes a slot once, charges exactly what it takes, respects the share of a group in the fill,
  and counts every ranked candidate it leaves out.
\<close>

section \<open>The invariant of the selector\<close>

definition group_members :: "CandidateTable \<Rightarrow> int \<Rightarrow> nat list \<Rightarrow> nat" where
  "group_members table g slots = length (filter (\<lambda>slot. cr_group (row_of table slot) = g) slots)"

definition selector_ok :: "KernelPlanContext \<Rightarrow> CandidateTable \<Rightarrow> Selector \<Rightarrow> bool" where
  "selector_ok cx table s \<longleftrightarrow> distinct (sl_chosen s) \<and> sl_taken s = set (sl_chosen s)
     \<and> sl_spent s = (\<Sum>slot\<leftarrow>sl_chosen s. costOf cx table slot)
     \<and> sl_spent s \<le> max 0 (q_tokenBudget (kx_plan cx))
     \<and> int (length (sl_chosen s)) \<le> max 0 (kx_maxSelected cx)
     \<and> (\<forall>g. (case sl_perGroup s g of None \<Rightarrow> 0 | Some n \<Rightarrow> n) = group_members table g (sl_chosen s))"

lemma new_selector_ok: "selector_ok cx table (new_selector notes)"
  by (simp add: selector_ok_def new_selector_def group_members_def)

lemma group_count: "selector_ok cx table s \<Longrightarrow>
    groupCount table s slot = group_members table (cr_group (row_of table slot)) (sl_chosen s)"
  by (simp add: selector_ok_def groupCount_def)

text \<open>What taking a slot can do: nothing, a counted refusal, or the slot at the end.\<close>

lemma selector_take_cases:
  assumes "selector_take cx table limit slot s = (b, s')"
  obtains (already) "slot \<in> sl_taken s" "b" "s' = s"
  | (refused) reason where "slot \<notin> sl_taken s" "\<not> b" "reason \<in> {Max_selected, Token_budget}"
      "s' = s\<lparr>sl_notes := omit reason 1 (sl_notes s)\<rparr>"
  | (taken) "slot \<notin> sl_taken s" "b" "int (length (sl_chosen s)) < limit"
      "sl_spent s + costOf cx table slot \<le> q_tokenBudget (kx_plan cx)"
      "s' = s\<lparr>sl_chosen := sl_chosen s @ [slot], sl_taken := insert slot (sl_taken s),
         sl_perGroup := (sl_perGroup s)(cr_group (row_of table slot) \<mapsto> groupCount table s slot + 1),
         sl_spent := sl_spent s + costOf cx table slot\<rparr>"
  using assms unfolding selector_take_def Let_def
  by (cases "slot \<in> sl_taken s"; cases "int (length (sl_chosen s)) \<ge> limit";
      cases "sl_spent s + costOf cx table slot > q_tokenBudget (kx_plan cx)") auto

lemma selector_take_ok:
  assumes "selector_ok cx table s"
  shows "selector_ok cx table (snd (selector_take cx table (kx_maxSelected cx) slot s))"
proof -
  obtain b s' where run: "selector_take cx table (kx_maxSelected cx) slot s = (b, s')" by (metis surj_pair)
  have "selector_ok cx table s'"
    using run
  proof (cases rule: selector_take_cases)
    case taken
    then show ?thesis
      using assms group_count [OF assms, of slot] by (auto simp: selector_ok_def group_members_def)
  qed (use assms in \<open>simp_all add: selector_ok_def\<close>)
  then show ?thesis by (simp add: run)
qed

lemma take_each_ok:
  assumes "selector_ok cx table s"
  shows "selector_ok cx table (take_each cx table slots s)"
  unfolding take_each_def
  by (rule fold_invariant [where Q = "\<lambda>_. True"]) (use assms in \<open>auto intro: selector_take_ok\<close>)

lemma fill_step_ok:
  assumes "selector_ok cx table s"
  shows "selector_ok cx table (fill_step cx table d allowance slot s)"
  using assms selector_take_ok [OF assms, of slot] by (simp add: fill_step_def selector_ok_def)

lemma take_reserves_ok: "selector_ok cx table (take_reserves cx table fusion notes)"
  by (auto simp: take_reserves_def Let_def intro!: take_each_ok new_selector_ok)

lemma choose_slots_ok: "selector_ok cx table (choose_slots cx table fusion notes)"
  unfolding choose_slots_def
  by (rule fold_invariant [where Q = "\<lambda>_. True"]) (auto intro: take_reserves_ok fill_step_ok)

section \<open>What is already chosen stays chosen\<close>

lemma take_keeps: "sl_taken s \<subseteq> sl_taken (snd (selector_take cx table limit slot s))"
  by (auto simp: selector_take_def Let_def)

lemma take_each_keeps: "sl_taken s \<subseteq> sl_taken (take_each cx table slots s)"
  unfolding take_each_def
  by (rule fold_invariant [where Q = "\<lambda>_. True"]) (use take_keeps in blast)+

lemma fill_keeps: "sl_taken s \<subseteq> sl_taken (fold (fill_step cx table d allowance) slots s)"
  by (rule fold_invariant [where Q = "\<lambda>_. True"])
    (auto simp: fill_step_def dest: subsetD [OF take_keeps])

section \<open>Counting what is left out\<close>

definition omission_count :: "kernel_notes \<Rightarrow> KernelOmissionReason \<Rightarrow> int" where
  "omission_count notes reason = (case kn_omissions notes reason of None \<Rightarrow> 0 | Some n \<Rightarrow> n)"

lemma omission_count_omit [simp]:
  "omission_count (omit reason n notes) r = omission_count notes r + (if r = reason then max 0 n else 0)"
  by (auto simp: omission_count_def omit_def addOmission_def)

text \<open>The reasons the selector gives.\<close>

definition left_out :: "kernel_notes \<Rightarrow> int" where
  "left_out notes = omission_count notes Redundant_sibling + omission_count notes Max_selected
     + omission_count notes Token_budget"

lemma take_counts: "left_out (sl_notes s) + (if slot \<in> sl_taken (snd (selector_take cx table limit slot s)) then 0 else 1)
    \<le> left_out (sl_notes (snd (selector_take cx table limit slot s)))"
  by (auto simp: selector_take_def Let_def left_out_def)

lemma fill_step_counts:
  "left_out (sl_notes s) + (if slot \<in> sl_taken (fill_step cx table d allowance slot s) then 0 else 1)
    \<le> left_out (sl_notes (fill_step cx table d allowance slot s))"
  using take_counts [of s slot cx table "kx_maxSelected cx"]
  by (auto simp: fill_step_def left_out_def)

lemma fill_counts:
  "left_out (sl_notes s)
     + int (length (filter (\<lambda>slot. slot \<notin> sl_taken (fold (fill_step cx table d allowance) slots s)) slots))
    \<le> left_out (sl_notes (fold (fill_step cx table d allowance) slots s))"
proof (induction slots arbitrary: s)
  case (Cons slot slots)
  let ?s = "fill_step cx table d allowance slot s"
  have "slot \<in> sl_taken ?s \<Longrightarrow> slot \<in> sl_taken (fold (fill_step cx table d allowance) slots ?s)"
    using fill_keeps by blast
  then show ?case using Cons.IH [of ?s] fill_step_counts [of s slot cx table d allowance]
    by (auto split: if_splits)
qed simp

lemma take_each_counts: "left_out (sl_notes s) \<le> left_out (sl_notes (take_each cx table slots s))"
  unfolding take_each_def
proof (induction slots arbitrary: s)
  case (Cons slot slots)
  show ?case using Cons.IH [of "snd (selector_take cx table (kx_maxSelected cx) slot s)"]
      take_counts [of s slot cx table "kx_maxSelected cx"] by (auto split: if_splits)
qed simp

lemma take_reserves_counts: "left_out notes \<le> left_out (sl_notes (take_reserves cx table fusion notes))"
proof -
  have "left_out (sl_notes (new_selector notes)) = left_out notes" by (simp add: new_selector_def)
  then show ?thesis
    unfolding take_reserves_def Let_def
    by (auto intro!: order.trans [OF _ take_each_counts])
qed

section \<open>The share of a group\<close>

lemma fill_share:
  assumes "selector_ok cx table s"
  shows "int (group_members table g (sl_chosen (fold (fill_step cx table True allowance) slots s)))
     \<le> max (int (group_members table g (sl_chosen s))) (min allowance (maxRedundancyGroupMembers (kx_config cx)))"
  using assms
proof (induction slots arbitrary: s)
  case (Cons slot slots)
  let ?s = "fill_step cx table True allowance slot s"
  have "int (group_members table g (sl_chosen ?s))
      \<le> max (int (group_members table g (sl_chosen s))) (min allowance (maxRedundancyGroupMembers (kx_config cx)))"
  proof (cases "selector_take cx table (kx_maxSelected cx) slot s" rule: prod.exhaust)
    case (Pair b s')
    then show ?thesis
    proof (cases rule: selector_take_cases)
      case taken
      then show ?thesis
        using Pair group_count [OF Cons.prems, of slot] by (auto simp: fill_step_def group_members_def)
    qed (use Pair in \<open>auto simp: fill_step_def\<close>)
  qed
  then show ?case using Cons.IH [OF fill_step_ok [OF Cons.prems, where d = True and allowance = allowance and slot = slot]] by simp
qed simp

section \<open>The first of a reserve\<close>

lemma take_each_first:
  assumes "int (length (sl_chosen s)) < kx_maxSelected cx"
    "sl_spent s + costOf cx table slot \<le> q_tokenBudget (kx_plan cx)"
  shows "slot \<in> sl_taken (take_each cx table (slot # slots) s)"
proof -
  have "slot \<in> sl_taken (snd (selector_take cx table (kx_maxSelected cx) slot s))"
    using assms by (auto simp: selector_take_def Let_def)
  with take_each_keeps [of "snd (selector_take cx table (kx_maxSelected cx) slot s)" cx table slots]
  show ?thesis by (auto simp: take_each_def)
qed

lemma chosen_after_reserves:
  assumes "slot \<in> sl_taken (take_reserves cx table fusion ns)"
  shows "slot \<in> set (sl_chosen (choose_slots cx table fusion ns))"
proof -
  have "slot \<in> sl_taken (choose_slots cx table fusion ns)"
    using assms fill_keeps unfolding choose_slots_def by blast
  then show ?thesis using choose_slots_ok [of cx table fusion ns] by (simp add: selector_ok_def)
qed

section \<open>The result\<close>

lemma selection_limits:
  fixes cx :: KernelPlanContext and table :: CandidateTable and fusion :: FusionResult
    and ns :: kernel_notes
  defines "sel \<equiv> fst (selectKernelCandidates cx table fusion ns)"
    and "chosen \<equiv> sl_chosen (choose_slots cx table fusion ns)"
  shows "sr_tokenCost sel \<le> max 0 (q_tokenBudget (kx_plan cx))
     \<and> int (length (sr_selected sel)) \<le> max 0 (kx_maxSelected cx)
     \<and> sr_tokenCost sel = (\<Sum>c\<leftarrow>sr_selected sel. sc_tokenCost c)
     \<and> distinct chosen \<and> mset (sr_selected sel) = image_mset (selected_candidate cx table fusion) (mset chosen)
     \<and> sorted (map presentation_key (sr_selected sel))"
proof -
  have sel: "sr_selected sel = sort_key presentation_key (map (selected_candidate cx table fusion) chosen)"
    and spent: "sr_tokenCost sel = sl_spent (choose_slots cx table fusion ns)"
    by (simp_all add: sel_def chosen_def selectKernelCandidates_def Let_def)
  have "(\<Sum>c\<leftarrow>sr_selected sel. sc_tokenCost c) = sum_mset (image_mset sc_tokenCost (mset (sr_selected sel)))"
    by (metis mset_map sum_mset_sum_list)
  also have "\<dots> = (\<Sum>slot\<leftarrow>chosen. costOf cx table slot)"
    by (simp add: sel selected_candidate_def Let_def comp_def multiset.map_comp flip: sum_mset_sum_list)
  finally have "(\<Sum>c\<leftarrow>sr_selected sel. sc_tokenCost c) = (\<Sum>slot\<leftarrow>chosen. costOf cx table slot)" .
  with choose_slots_ok [of cx table fusion ns] sel spent show ?thesis
    by (simp add: selector_ok_def chosen_def)
qed

section \<open>Properties\<close>

text \<open>
  The selector keeps its bounds, whatever the candidates and their costs: it never charges
  more than the token budget, never selects more than the cap, never selects a slot twice, charges
  exactly the costs of what it selects, and presents that by score descending, then node ascending.
\<close>

theorem selection_within_budget:
  fixes cx :: KernelPlanContext and table :: CandidateTable and fusion :: FusionResult
    and ns :: kernel_notes
  defines "sel \<equiv> fst (selectKernelCandidates cx table fusion ns)"
    and "chosen \<equiv> sl_chosen (choose_slots cx table fusion ns)"
  shows "sr_tokenCost sel \<le> max 0 (q_tokenBudget (kx_plan cx))
     \<and> int (length (sr_selected sel)) \<le> max 0 (kx_maxSelected cx)
     \<and> sr_tokenCost sel = (\<Sum>c\<leftarrow>sr_selected sel. sc_tokenCost c)
     \<and> distinct chosen \<and> mset (sr_selected sel) = image_mset (selected_candidate cx table fusion) (mset chosen)
     \<and> sorted (map presentation_key (sr_selected sel))"
  unfolding sel_def chosen_def by (rule selection_limits)

text \<open>
  Nothing the ranking offered is dropped silently: each ranked candidate that is not selected
  has been counted under one of the reasons redundant sibling, selection cap or token budget.
\<close>

theorem unselected_is_counted:
  "int (length (filter (\<lambda>slot. slot \<notin> set (sl_chosen (choose_slots cx table fusion ns))) (fu_order fusion)))
     \<le> left_out (sl_notes (choose_slots cx table fusion ns)) - left_out ns"
proof -
  have "sl_taken (choose_slots cx table fusion ns) = set (sl_chosen (choose_slots cx table fusion ns))"
    using choose_slots_ok by (simp add: selector_ok_def)
  then show ?thesis
    using fill_counts [of "take_reserves cx table fusion ns" cx table "diversity_applies table fusion"
        "group_allowance cx" "fu_order fusion"] take_reserves_counts [of ns cx table fusion]
    unfolding choose_slots_def by simp
qed

text \<open>
  Diversity: when the ranked candidates come from more than one group, the fill gives no group
  more than its allowance or the redundancy limit; only the reserves can put a group above them.
\<close>

theorem group_share_respected:
  assumes "diversity_applies table fusion"
  shows "int (group_members table g (sl_chosen (choose_slots cx table fusion ns)))
     \<le> max (int (group_members table g (sl_chosen (take_reserves cx table fusion ns))))
           (min (group_allowance cx) (maxRedundancyGroupMembers (kx_config cx)))"
  using fill_share [OF take_reserves_ok] assms by (simp add: choose_slots_def)

text \<open>
  C37. The best resolved identifier is never crowded out: on a query that reserves nothing for
  safety first, it is selected whenever it fits the budget on its own and anything may be selected.
\<close>

theorem best_exact_seed_selected:
  assumes "\<not> kx_highRisk cx" "q_profile (kx_plan cx) \<noteq> Review"
    and "fu_exactSeeds fusion = best # others"
    and "0 < kx_maxSelected cx" "costOf cx table best \<le> q_tokenBudget (kx_plan cx)"
  shows "best \<in> set (sl_chosen (choose_slots cx table fusion ns))"
proof (rule chosen_after_reserves)
  have "best \<in> sl_taken (take_each cx table (fu_exactSeeds fusion) (new_selector ns))"
    unfolding assms(3) using assms(4,5) by (intro take_each_first) (simp_all add: new_selector_def)
  then show "best \<in> sl_taken (take_reserves cx table fusion ns)"
    using assms(1,2) by (auto simp: take_reserves_def Let_def intro!: subsetD [OF take_each_keeps])
qed

text \<open>
  On a safety-relevant query the best reachable protected gate comes before everything else:
  it is selected whenever it fits the budget on its own.
\<close>

theorem best_gate_selected:
  assumes "kx_highRisk cx \<or> q_profile (kx_plan cx) = Review"
    and "fu_protectedGates fusion = best # others"
    and "0 < kx_maxSelected cx" "costOf cx table best \<le> q_tokenBudget (kx_plan cx)"
  shows "best \<in> set (sl_chosen (choose_slots cx table fusion ns))"
proof (rule chosen_after_reserves)
  have "best \<in> sl_taken (take_each cx table (fu_protectedGates fusion) (new_selector ns))"
    unfolding assms(2) using assms(3,4) by (intro take_each_first) (simp_all add: new_selector_def)
  then show "best \<in> sl_taken (take_reserves cx table fusion ns)"
    using assms(1) by (auto simp: take_reserves_def Let_def intro!: subsetD [OF take_each_keeps])
qed

text \<open>
  The gate warning can be false: the gates counted as selected are only those of the reserve,
  so when more gates are reachable than the reserve holds, a safety-relevant query warns that a
  reachable gate did not fit, also when every one of them was selected.
\<close>

theorem gate_warning_false_alarm:
  assumes "kx_highRisk cx \<or> q_profile (kx_plan cx) = Review"
    and "length (fu_protectedGates fusion) < fu_protectedReachable fusion"
  shows "js ''a reachable protected gate did not fit the token budget on a safety-relevant query''
     \<in> set (kn_warnings (snd (selectKernelCandidates cx table fusion ns)))"
proof -
  have "length (filter P xs) < n" if "length xs < n" for P and xs :: "nat list" and n
    using that length_filter_le [of P xs] by linarith
  then show ?thesis
    using assms by (simp add: selectKernelCandidates_def guarantee_warnings_def selection_guarantees_def
        Let_def warn_if_def warn_def)
qed

end
