(* ===== verification/Kernel_Slots.thy ===== *)
theory Kernel_Slots
  imports Kernel_Ranking Kernel_Select_Correct
begin

text \<open>
  Whatever the scores: the pool and the reserves of fusion hold slots they were offered, so
  that every slot fusion reports is a slot of the candidate table, and so is every slot selected.
\<close>

section \<open>Only slots of the table\<close>

definition pool_slots :: "nat \<Rightarrow> BoundedTopK \<Rightarrow> bool" where
  "pool_slots n k \<longleftrightarrow> bk_size k \<le> length (bk_cells k) \<and> bk_capacity k \<le> length (bk_cells k)
     \<and> (\<forall>c \<in> set (take (bk_size k) (bk_cells k)). ss_slot c < n)"

definition reserve_below :: "nat \<Rightarrow> Reserve \<Rightarrow> bool" where
  "reserve_below n r \<longleftrightarrow> (\<forall>c \<in> set (rv_cells r). ss_slot c < n)"

lemma shuffled_set: "shuffled n h h' \<Longrightarrow> set (take n h') = set (take n h) \<and> length h' = length h"
  by (auto simp: shuffled_def dest: mset_eq_setD)

lemma offer_pool_slots:
  assumes "pool_slots n k" "slot < n"
  shows "pool_slots n (topk_offer slot score node k)"
proof -
  let ?c = "stored_cell slot score node" and ?n = "bk_size k"
  have c: "ss_slot ?c < n" using assms(2) by (simp add: stored_cell_def)
  consider (room) "?n < bk_capacity k" | (kept) "\<not> ?n < bk_capacity k" "topk_offer slot score node k = k"
    | (replaced) "\<not> ?n < bk_capacity k"
        "topk_offer slot score node k = k\<lparr>bk_cells := sift_down worse_cell ?n ((bk_cells k)[0 := ?c]) 0\<rparr>"
    by (cases "worse (ss_score (bk_cells k ! 0)) (ss_node (bk_cells k ! 0)) score node")
      (simp_all add: topk_offer_def, argo+)
  then show ?thesis
  proof cases
    case room
    let ?cells = "(bk_cells k)[?n := ?c]"
    have "set (take (Suc ?n) (sift_up worse_cell ?cells ?n)) = set (take (Suc ?n) ?cells)
        \<and> length (sift_up worse_cell ?cells ?n) = length ?cells"
      using room assms(1) by (intro shuffled_set sift_up_shuffled) (simp_all add: pool_slots_def)
    moreover have "take (Suc ?n) ?cells = take ?n (bk_cells k) @ [?c]"
      using room assms(1) by (simp add: pool_slots_def take_Suc_conv_app_nth)
    ultimately show ?thesis using room assms(1) c by (auto simp: topk_offer_def Let_def pool_slots_def)
  next
    case replaced
    let ?cells = "(bk_cells k)[0 := ?c]"
    have "set (take ?n ?cells) \<subseteq> insert ?c (set (take ?n (bk_cells k)))"
      by (simp add: take_update_swap set_update_subset_insert)
    moreover have "set (take ?n (sift_down worse_cell ?n ?cells 0)) = set (take ?n ?cells)
        \<and> length (sift_down worse_cell ?n ?cells 0) = length ?cells"
    proof (cases "?n = 0")
      case True
      then show ?thesis by (simp add: sift_down_step)
    next
      case False
      then show ?thesis using assms(1) by (intro shuffled_set sift_down_shuffled) (simp_all add: pool_slots_def)
    qed
    ultimately show ?thesis using replaced(2) assms(1) c by (auto simp: pool_slots_def)
  qed (use assms in simp)
qed

lemma drain_slots:
  "n \<le> length cells \<Longrightarrow> \<forall>c \<in> set (take n cells). ss_slot c < m \<Longrightarrow> set (topk_drain n cells) \<subseteq> {..<m}"
proof (induction n arbitrary: cells)
  case (Suc n)
  let ?next = "if n > 0 then sift_down worse_cell n (cells[0 := cells ! n]) 0 else cells"
  have last: "cells ! n \<in> set (take (Suc n) cells)" "cells ! 0 \<in> set (take (Suc n) cells)"
    using Suc.prems(1) nth_mem [of n "take (Suc n) cells"] nth_mem [of 0 "take (Suc n) cells"] by simp_all
  have "set (take n ?next) \<subseteq> insert (cells ! n) (set (take n cells)) \<and> length ?next = length cells"
  proof (cases "n > 0")
    case True
    have "set (take n (cells[0 := cells ! n])) \<subseteq> insert (cells ! n) (set (take n cells))"
      by (simp add: take_update_swap set_update_subset_insert)
    with shuffled_set [OF sift_down_shuffled [of 0 n "cells[0 := cells ! n]" worse_cell]] True Suc.prems(1)
    show ?thesis by simp
  qed simp
  moreover have "set (take n cells) \<subseteq> set (take (Suc n) cells)" by (simp add: set_take_subset_set_take)
  ultimately have "set (take n ?next) \<subseteq> set (take (Suc n) cells)" "n \<le> length ?next"
    using Suc.prems(1) last(1) by (blast, simp)
  with Suc.prems(2) have "\<forall>c \<in> set (take n ?next). ss_slot c < m" "n \<le> length ?next" by (blast, simp)
  from Suc.IH [OF this(2,1)] Suc.prems(2) last show ?case by (auto simp: Let_def)
qed simp

lemma reserve_offer_within:
  "set (rv_cells (reserve_offer slot score node r))
    \<subseteq> insert \<lparr>ss_slot = slot, ss_score = score, ss_node = node\<rparr> (set (rv_cells r))"
proof -
  let ?pos = "length (takeWhile (\<lambda>other. \<not> outranks score node other) (rv_cells r))"
  let ?cells = "take ?pos (rv_cells r) @ \<lparr>ss_slot = slot, ss_score = score, ss_node = node\<rparr> # drop ?pos (rv_cells r)"
  consider "reserve_offer slot score node r = r" | m where "rv_cells (reserve_offer slot score node r) = take m ?cells"
    | "rv_cells (reserve_offer slot score node r) = ?cells"
    by (fastforce simp: reserve_offer_def Let_def simp del: take_append)
  moreover have "set ?cells \<subseteq> insert \<lparr>ss_slot = slot, ss_score = score, ss_node = node\<rparr> (set (rv_cells r))"
    using set_take_subset [of ?pos "rv_cells r"] set_drop_subset [of ?pos "rv_cells r"] by auto
  ultimately show ?thesis using set_take_subset [of _ ?cells] by cases (auto simp del: take_append)
qed

lemma offer_below:
  assumes "reserve_below n r" "slot < n"
  shows "reserve_below n (offer_if b slot score node r)"
  using assms reserve_offer_within [of slot score node r] by (auto simp: offer_if_def reserve_below_def)

definition state_slots :: "nat \<Rightarrow> FusionState \<Rightarrow> bool" where
  "state_slots n s \<longleftrightarrow> pool_slots n (fs_pool s) \<and> length (fs_laneLeaders s) = LANE_COUNT
     \<and> list_all (reserve_below n)
         ([fs_protectedGates s, fs_conflicts s, fs_exactSeeds s, fs_testOrGates s] @ fs_laneLeaders s)"

lemma start_slots: "state_slots n (fusion_start cx table)"
  by (simp add: state_slots_def fusion_start_def Let_def pool_slots_def new_topk_def reserve_below_def new_reserve_def
      LANE_COUNT_def RETRIEVAL_LANES_def)

lemma admissible_slots:
  assumes "state_slots n s" "slot < n"
  shows "state_slots n (fuse_admissible cx table slot attrs s)"
proof -
  have lead: "reserve_below n (fs_laneLeaders s ! LANE_SLOT lane)" for lane
    using assms(1) lane_slot_lanes(2) [of lane] by (simp add: state_slots_def list_all_iff)
  have "list_all (reserve_below n) (fs_laneLeaders (fuse_admissible cx table slot attrs s))"
    using offer_below [OF lead assms(2)] by (simp add: fuse_admissible_def Let_def list_all_iff)
  moreover have "length (fs_laneLeaders (fuse_admissible cx table slot attrs s)) = LANE_COUNT"
    by (simp add: fuse_admissible_def Let_def RETRIEVAL_LANES_def LANE_COUNT_def)
  ultimately show ?thesis
    using assms by (simp add: state_slots_def fuse_admissible_def Let_def offer_pool_slots offer_below)
qed

lemma fuse_slots:
  assumes "fold_res (fuse_slot reader cx table) slots s = Inr s'" "state_slots n s" "set slots \<subseteq> {..<n}"
  shows "state_slots n s'"
  using assms
proof (induction slots arbitrary: s)
  case (Cons slot slots)
  from Cons.prems(1) obtain t where t: "fuse_slot reader cx table slot s = Inr t"
      "fold_res (fuse_slot reader cx table) slots t = Inr s'" by (auto simp: rbind_Inr_iff)
  have "state_slots n t"
    using t(1) Cons.prems admissible_slots [of n s slot]
    by (auto simp: fuse_slot_def rbind_Inr_iff state_slots_def split: if_splits)
  from Cons.IH [OF t(2) this] Cons.prems(3) show ?case by simp
qed simp

definition fusion_slots :: "FusionResult \<Rightarrow> nat set" where
  "fusion_slots fu = set (fu_order fu) \<union> set (fu_protectedGates fu) \<union> set (fu_conflicts fu) \<union> set (fu_exactSeeds fu)
     \<union> set (fu_testOrGates fu) \<union> nat ` {l \<in> set (fu_laneLeaders fu). 0 \<le> l}"

lemma fusion_slots_below:
  assumes "fuseKernelCandidates reader cx table ns = Inr (fu, ns')"
  shows "fusion_slots fu \<subseteq> {..<ct_size table}" "length (fu_laneLeaders fu) = LANE_COUNT"
proof -
  from assms obtain s where s: "fold_res (fuse_slot reader cx table) [0..<ct_size table] (fusion_start cx table) = Inr s"
    and fu: "fu_order fu = topk_drain (bk_size (fs_pool s)) (bk_cells (fs_pool s))"
      "fu_protectedGates fu = reserve_slots (fs_protectedGates s)" "fu_conflicts fu = reserve_slots (fs_conflicts s)"
      "fu_exactSeeds fu = reserve_slots (fs_exactSeeds s)" "fu_testOrGates fu = reserve_slots (fs_testOrGates s)"
      "fu_laneLeaders fu = map (\<lambda>lane. case reserve_slots (fs_laneLeaders s ! LANE_SLOT lane) of
             [] \<Rightarrow> - 1 | best # _ \<Rightarrow> int best) RETRIEVAL_LANES"
    by (auto simp: fuseKernelCandidates_def Let_def rbind_Inr_iff)
  have ok: "state_slots (ct_size table) s" by (rule fuse_slots [OF s start_slots]) auto
  have lead: "reserve_below (ct_size table) (fs_laneLeaders s ! LANE_SLOT lane)" for lane
    using ok lane_slot_lanes(2) [of lane] by (simp add: state_slots_def list_all_iff)
  have "nat l < ct_size table" if "l \<in> set (fu_laneLeaders fu)" "0 \<le> l" for l
  proof -
    from that obtain lane c cs where "rv_cells (fs_laneLeaders s ! LANE_SLOT lane) = c # cs" "l = int (ss_slot c)"
      by (auto simp: fu reserve_slots_def split: list.splits)
    with lead [of lane] show ?thesis by (simp add: reserve_below_def)
  qed
  then show "fusion_slots fu \<subseteq> {..<ct_size table}"
    using ok drain_slots [of "bk_size (fs_pool s)" "bk_cells (fs_pool s)" "ct_size table"]
    by (auto simp: fusion_slots_def fu(1-5) state_slots_def pool_slots_def reserve_below_def reserve_slots_def)
  show "length (fu_laneLeaders fu) = LANE_COUNT" by (simp add: fu RETRIEVAL_LANES_def LANE_COUNT_def)
qed

section \<open>What is selected\<close>

lemma take_within:
  "set (sl_chosen (snd (selector_take cx table limit slot s))) \<subseteq> insert slot (set (sl_chosen s))"
  by (auto simp: selector_take_def Let_def)

lemma take_each_within: "set (sl_chosen (take_each cx table slots s)) \<subseteq> set (sl_chosen s) \<union> set slots"
  unfolding take_each_def
proof (induction slots arbitrary: s)
  case (Cons slot slots)
  from Cons.IH [of "snd (selector_take cx table (kx_maxSelected cx) slot s)"]
    take_within [of cx table "kx_maxSelected cx" slot s] show ?case by auto
qed simp

lemma fill_within: "set (sl_chosen (fold (fill_step cx table d a) slots s)) \<subseteq> set (sl_chosen s) \<union> set slots"
proof (induction slots arbitrary: s)
  case (Cons slot slots)
  have "set (sl_chosen (fill_step cx table d a slot s)) \<subseteq> insert slot (set (sl_chosen s))"
    using take_within [of cx table "kx_maxSelected cx" slot s] by (auto simp: fill_step_def)
  with Cons.IH [of "fill_step cx table d a slot s"] show ?case by auto
qed simp

lemma leaders_within:
  assumes "length (fu_laneLeaders fu) = LANE_COUNT"
  shows "set (concat (map (\<lambda>lane. let leader = fu_laneLeaders fu ! LANE_SLOT lane in
             if leader \<ge> 0 then [nat leader] else []) RETRIEVAL_LANES)) \<subseteq> fusion_slots fu"
  using assms lane_slot_lanes(2) by (auto simp: fusion_slots_def Let_def split: if_splits)

lemma choose_within:
  assumes "length (fu_laneLeaders fu) = LANE_COUNT"
  shows "set (sl_chosen (choose_slots cx table fu ns)) \<subseteq> fusion_slots fu"
proof -
  let ?P = "\<lambda>s. set (sl_chosen s) \<subseteq> fusion_slots fu"
  have each: "?P s \<Longrightarrow> set slots \<subseteq> fusion_slots fu \<Longrightarrow> ?P (take_each cx table slots s)" for s slots
    using take_each_within [of cx table slots s] by blast
  have sub: "set (fu_order fu) \<subseteq> fusion_slots fu" "set (fu_protectedGates fu) \<subseteq> fusion_slots fu"
    "set (fu_conflicts fu) \<subseteq> fusion_slots fu" "set (fu_exactSeeds fu) \<subseteq> fusion_slots fu"
    "set (fu_testOrGates fu) \<subseteq> fusion_slots fu" by (auto simp: fusion_slots_def)
  have "?P (take_reserves cx table fu ns)"
    unfolding take_reserves_def Let_def
    using each sub leaders_within [OF assms, unfolded Let_def] by (auto simp: new_selector_def intro!: each)
  with fill_within sub(1) show ?thesis unfolding choose_slots_def by blast
qed

lemma selected_slots:
  assumes "fuseKernelCandidates reader cx t ns = Inr (fu, ns')" "selectKernelCandidates cx t fu ns' = (sel, n6)"
  obtains chosen where "distinct chosen" "set chosen \<subseteq> {..<ct_size t}"
    "mset (sr_selected sel) = image_mset (selected_candidate cx t fu) (mset chosen)"
    "sr_tokenCost sel \<le> max 0 (q_tokenBudget (kx_plan cx))"
    "int (length (sr_selected sel)) \<le> max 0 (kx_maxSelected cx)"
    "sr_tokenCost sel = (\<Sum>c\<leftarrow>sr_selected sel. sc_tokenCost c)"
    "sorted (map presentation_key (sr_selected sel))"
proof -
  from choose_within [OF fusion_slots_below(2) [OF assms(1)]] fusion_slots_below(1) [OF assms(1)]
  have "set (sl_chosen (choose_slots cx t fu ns')) \<subseteq> {..<ct_size t}" by blast
  with selection_limits [of cx t fu ns', unfolded assms(2) fst_conv] that show thesis by blast
qed

end
