(* ===== verification/Kernel_Correct.thy ===== *)
theory Kernel_Correct
  imports Kernel Kernel_Relation Kernel_Fuse_Correct Kernel_Slots Kernel_Select_Correct
begin

text \<open>
  What a whole run of the query kernel promises over an opened index: its bounds, the identity of
  what it selects, and where an exact claim can come from.
\<close>

unbundle bit_operations_syntax

section \<open>The table holds live nodes, once each\<close>

definition live_table :: "ContextIndexReader \<Rightarrow> CandidateTable \<Rightarrow> bool" where
  "live_table reader t \<longleftrightarrow> table_ok t \<and> (\<forall>s < ct_size t. live reader (cr_node (row_of t s)))"

lemma live_update:
  assumes "live_table reader t" "table_ok u" "extends_table t u" "ct_size u = ct_size t"
  shows "live_table reader u"
  using assms by (simp add: live_table_def extends_table_def)

lemma table_op_sizes:
  "ct_size (claim s lane c t) = ct_size t" "ct_size (mark s bits t) = ct_size t"
  "ct_size (contribute s lane rank x k t) = ct_size t" "ct_size (link s a b e d t) = ct_size t"
  "ct_size (setGraphScore s n t) = ct_size t"
  by (simp_all add: claim_def mark_def contribute_def link_def setGraphScore_def Let_def)

lemma live_ops:
  assumes "live_table reader t"
  shows "live_table reader (claim s lane c t)" "live_table reader (mark s bits t)"
    "live_table reader (contribute s lane rank x k t)" "live_table reader (link s a b e d t)"
    "live_table reader (setGraphScore s n t)"
  by (rule live_update [OF assms]; use assms in \<open>simp add: live_table_def table_ops_ok table_op_sizes\<close>)+

lemma extends_resolved: "extends_table t (mark s bits (contribute s lane rank x k (claim s lane c t)))"
  by (meson extends_trans table_ops_ok)

lemma live_small: "live reader n \<Longrightarrow> rd_nodeCount reader \<le> 2 ^ 24 \<Longrightarrow> to_int32 n = n"
  by (intro to_int32_id) (auto simp: live_def)

sublocale index_interface \<subseteq> table: candidate_relation reader "\<lambda>n. valid \<longrightarrow> live reader n"
  "\<lambda>t u. valid \<longrightarrow> live_table reader t \<longrightarrow> live_table reader u \<and> extends_table t u"
proof unfold_locales
  show "valid \<longrightarrow> live_table reader t \<longrightarrow> live_table reader u \<and> extends_table t u"
    if "valid \<longrightarrow> live reader node" "admit reader node t = Inr (r, u)" for node t r u
  proof (intro impI)
    assume v: "valid" and t: "live_table reader t"
    have n: "to_int32 node = node" using live_small node_limit [OF v] that(1) v by blast
    note a = admit_ok [OF _ n that(2)]
    have "ct_size u = ct_size t \<or> ct_size u = Suc (ct_size t) \<and> cr_node (row_of u (ct_size t)) = to_int32 node"
      using that(2) by (auto simp: admit_def Let_def rbind_Inr_iff new_row_def nth_append split: option.splits if_splits)
    then show "live_table reader u \<and> extends_table t u"
      using a t that(1) v n by (auto simp: live_table_def extends_table_def less_Suc_eq)
  qed
qed (use exact_live basename_live lexical_live coarse_live outgoing_live incoming_live in
    \<open>auto simp: live_postings_def live_scored_def live_edge_def list_all_iff table_ops_ok live_ops extends_resolved
      intro: extends_trans\<close>)

section \<open>Exact claims come from resolved identifiers\<close>

definition row_sound :: "CandidateRow \<Rightarrow> bool" where
  "row_sound r \<longleftrightarrow> (cr_confidence r \<le> 3 \<longrightarrow> cr_originLane r = 0 \<and> bit (cr_flags r) 1)"

definition rows_sound :: "CandidateTable \<Rightarrow> bool" where
  "rows_sound t \<longleftrightarrow> (\<forall>s < ct_size t. row_sound (row_of t s))"

lemma bit_to_int32: "n < 32 \<Longrightarrow> bit (to_int32 k) n \<longleftrightarrow> bit k n"
  by (simp add: to_int32_def bit_sint_iff bit_word_of_int_iff min_def)

lemma exact_seed_bit: "bits AND FLAG_EXACT_SEED = 0 \<longleftrightarrow> \<not> bit bits 1"
  by (simp add: FLAG_EXACT_SEED_def bit_eq_iff bit_and_iff bit_push_bit_iff) (auto simp: bit_simps)

lemma sound_update:
  assumes "rows_sound t" "row_sound (row_of t s) \<Longrightarrow> row_sound (f (row_of t s))"
  shows "rows_sound (update_row s f t)"
  using assms by (simp add: rows_sound_def row_update)

lemma claim_sound:
  assumes "\<not> isExactKernelConfidence c" "rows_sound t"
  shows "rows_sound (claim s lane c t)"
  unfolding claim_def Let_def
  using assms exact_confidence_code [of c]
  by (auto intro!: sound_update simp: row_sound_def)

lemma mark_sound: "rows_sound t \<Longrightarrow> rows_sound (mark s bits t)"
  unfolding mark_def by (rule sound_update) (auto simp: row_sound_def bit_to_int32 bit_or_iff)

lemma other_ops_sound:
  assumes "rows_sound t"
  shows "rows_sound (contribute s lane rank x k t)" "rows_sound (link s a b e d t)" "rows_sound (setGraphScore s n t)"
  using assms unfolding contribute_def link_def setGraphScore_def
  by (auto intro!: sound_update simp: row_sound_def)

lemma resolved_sound:
  assumes "rows_sound t"
  shows "rows_sound (mark s (FLAG_SEED OR FLAG_EXACT_SEED OR others) (contribute s Anchor rank x k (claim s Anchor c t)))"
proof -
  let ?u = "contribute s Anchor rank x k (claim s Anchor c t)"
  have lane: "cr_confidence (row_of ?u s) \<le> 3 \<longrightarrow> cr_originLane (row_of ?u s) = 0" if "s < ct_size t"
    using assms that
    by (auto simp: contribute_def claim_def Let_def row_update rows_sound_def row_sound_def)
  have others: "row_sound (row_of ?u i)" if "i \<noteq> s" "i < ct_size t" for i
    using assms that by (auto simp: contribute_def claim_def Let_def row_update rows_sound_def)
  have "bit (to_int32 (f OR (FLAG_SEED OR FLAG_EXACT_SEED OR others))) 1" for f
    by (simp add: bit_to_int32 bit_or_iff FLAG_EXACT_SEED_def bit_push_bit_iff)
  then show ?thesis
    using lane others table_op_sizes(1) [of s Anchor c t] table_op_sizes(3) [of s Anchor rank x k "claim s Anchor c t"]
    by (auto simp: mark_def rows_sound_def row_update row_sound_def)
qed

lemma admit_sound: "admit reader node t = Inr (r, u) \<Longrightarrow> rows_sound t \<Longrightarrow> rows_sound u"
  using exact_confidence_code [of Text_candidate]
  by (auto simp: admit_def Let_def rbind_Inr_iff new_row_def nth_append rows_sound_def row_sound_def less_Suc_eq
      WEAKEST_CONFIDENCE_CODE_def isExactKernelConfidence_def split: option.splits if_splits)

interpretation anchored: candidate_relation reader "\<lambda>_. True" "\<lambda>t u. rows_sound t \<longrightarrow> rows_sound u" for reader
  by unfold_locales (simp_all add: claim_sound mark_sound other_ops_sound resolved_sound admit_sound)

section \<open>Exact claims of a result\<close>

definition claim_anchored :: "SelectedCandidate \<Rightarrow> bool" where
  "claim_anchored c \<longleftrightarrow>
     (isExactKernelConfidence (sc_confidence c) \<longrightarrow> sc_lane c = Anchor \<and> bit (cc_flags (sc_candidate c)) 1)"

lemma exact_code: "isExactKernelConfidence (kernelConfidenceAt code) \<Longrightarrow> code \<le> 3"
proof (rule ccontr)
  assume "isExactKernelConfidence (kernelConfidenceAt code)" "\<not> code \<le> 3"
  moreover from this(2) have "code = 4 \<or> code = 5 \<or> code \<ge> 6" by linarith
  ultimately show False
    by (auto simp: isExactKernelConfidence_def kernelConfidenceAt_def KERNEL_CONFIDENCE_CODES_def)
qed

lemma sound_row_claims:
  assumes "rows_sound t" "slot < ct_size t"
  shows "claim_anchored (selected_candidate cx t fu slot)"
proof -
  let ?r = "row_of t slot"
  have "cr_originLane ?r = 0 \<and> bit (cr_flags ?r) 1" if "isExactKernelConfidence (confidenceOf t slot)"
    using assms exact_code that by (simp add: rows_sound_def row_sound_def confidenceOf_def)
  then show ?thesis
    by (auto simp: claim_anchored_def selected_candidate_def Let_def laneOf_slot_def RETRIEVAL_LANES_def)
qed

lemma selected_members:
  "mset xs = image_mset f (mset ys) \<Longrightarrow> x \<in> set xs \<Longrightarrow> \<exists>y \<in> set ys. x = f y"
  by (metis (no_types, lifting) image_iff set_image_mset set_mset_mset)

text \<open>
  C8. An exact claim is never invented: every selected candidate presented with an exact
  confidence was resolved from an identifier. It is claimed by the anchor lane and carries the
  exact-seed flag, however many lanes, closures and walks reached it.
\<close>

theorem exact_claims_are_anchored:
  assumes "runContextKernel nfkc lower reader request options = Inr res"
  shows "list_all claim_anchored (res_selected res)"
  using assms
proof (rule kernel_stages)
  fix cx n0 lanes t1 n1 k t2 safety t3 n2 exhaustive walk t4 n3 fusion n5 sel n6
  assume stages: "runSeedLanes reader cx request (new_table (q_candidateBudget (kx_plan cx))) n0 = Inr (lanes, t1, n1)"
      "markNameAnchors reader cx t1 = Inr (k, t2)"
      "safety = no_safety \<and> t3 = t2 \<and> n2 = n1 \<or> runSafetyClosure reader cx t2 n1 = Inr (safety, t3, n2)"
      "traverseKernelGraph reader cx t3 exhaustive n2 = Inr (walk, t4, n3)"
    and fuse: "fuseKernelCandidates reader cx t4
       (omit Candidate_budget (int (ct_overflow t4) - int (ct_overflow t2)) n3) = Inr (fusion, n5)"
    and select: "selectKernelCandidates cx t4 fusion n5 = (sel, n6)" and res: "res_selected res = sr_selected sel"
  have sound: "rows_sound t4"
    using anchored.kernel_tables(3) [OF stages] by (simp add: rows_sound_def new_table_def)
  show ?thesis
    using fuse select
  proof (rule selected_slots)
    fix chosen assume "set chosen \<subseteq> {..<ct_size t4}"
      "mset (sr_selected sel) = image_mset (selected_candidate cx t4 fusion) (mset chosen)"
    then show ?thesis
      using sound_row_claims [OF sound] by (auto simp: res list_all_iff dest!: selected_members)
  qed
qed

end
