(* ===== verification/Kernel_Answers.thy ===== *)
theory Kernel_Answers
  imports Kernel_Correct
begin

text \<open>
  A query over an opened index answers: when the reader's operations return on what they may be
  asked, every stage of the kernel returns, to the end of the run.
\<close>

unbundle bit_operations_syntax

section \<open>Results that return\<close>

definition answers :: "'a res \<Rightarrow> bool" where
  "answers r \<longleftrightarrow> (\<exists>x. r = Inr x)"

lemma answers_simps [simp]: "answers (Inr x)" "\<not> answers (Inl e)"
  by (simp_all add: answers_def)

lemma answers_bind: "answers m \<Longrightarrow> (\<And>x. m = Inr x \<Longrightarrow> answers (f x)) \<Longrightarrow> answers (rbind m f)"
  by (auto simp: answers_def)

lemma answers_fold:
  assumes "P s" "\<And>x s. x \<in> set xs \<Longrightarrow> P s \<Longrightarrow> answers (f x s)"
    and "\<And>x s t. x \<in> set xs \<Longrightarrow> P s \<Longrightarrow> f x s = Inr t \<Longrightarrow> P t"
  shows "answers (fold_res f xs s)"
  using assms
proof (induction xs arbitrary: s)
  case (Cons x xs)
  show ?case
    unfolding fold_res.simps
  proof (rule answers_bind)
    show "answers (f x s)" using Cons.prems by simp
    show "answers (fold_res f xs t)" if t: "f x s = Inr t" for t
    proof (rule Cons.IH)
      show "P t" using Cons.prems(1) t by (rule Cons.prems(3) [rotated]) simp
    qed (simp_all add: Cons.prems(2), rule Cons.prems(3), simp_all)
  qed
qed simp

lemmas answers_each = answers_fold [where P = "\<lambda>_. True", simplified]

lemma answers_map: "(\<And>x. x \<in> set xs \<Longrightarrow> answers (f x)) \<Longrightarrow> answers (map_res f xs)"
  by (induction xs) (auto intro!: answers_bind)

section \<open>An index that answers\<close>

definition slice_answers :: "PostingSlice \<Rightarrow> bool" where
  "slice_answers p \<longleftrightarrow> (\<forall>i < posting_length p. answers (posting_node p (int i)))"

definition scored_answers :: "ScoredPostingSlice \<Rightarrow> bool" where
  "scored_answers p \<longleftrightarrow>
     (\<forall>i < scored_length p. answers (scored_node p (int i)) \<and> answers (scored_score p (int i)))"

definition queue_live :: "ContextIndexReader \<Rightarrow> SafetyState \<Rightarrow> bool" where
  "queue_live reader s \<longleftrightarrow> list_all (\<lambda>(node, depth). live reader node) (sf_queue s)"

locale answering_index = index_interface +
  assumes term_answers: "valid \<Longrightarrow> answers (rd_termId reader t)"
    and exact_answers: "valid \<Longrightarrow> answers (rd_exact reader t m)"
    and exact_slice: "valid \<Longrightarrow> rd_exact reader t m = Inr p \<Longrightarrow> slice_answers p"
    and basename_answers: "valid \<Longrightarrow> answers (rd_basename reader t)"
    and basename_slice: "valid \<Longrightarrow> rd_basename reader t = Inr p \<Longrightarrow> slice_answers p"
    and lexical_answers: "valid \<Longrightarrow> answers (rd_lexical reader ids bounds)"
    and lexical_slice: "valid \<Longrightarrow> rd_lexical reader ids bounds = Inr sp \<Longrightarrow> scored_answers sp"
    and coarse_answers: "valid \<Longrightarrow> answers (rd_coarse reader ids bounds)"
    and coarse_slice: "valid \<Longrightarrow> rd_coarse reader ids bounds = Inr sp \<Longrightarrow> scored_answers sp"
    and name_answers: "valid \<Longrightarrow> live reader n \<Longrightarrow> answers (rd_nodeHasName reader n name)"
    and outgoing_answers: "valid \<Longrightarrow> live reader n \<Longrightarrow> answers (rd_outgoing reader n pm)"
    and incoming_answers: "valid \<Longrightarrow> live reader n \<Longrightarrow> answers (rd_incoming reader n pm)"
    and fields_answer: "valid \<Longrightarrow> live reader n \<Longrightarrow> answers (rd_nodeFlags reader n)"
      "valid \<Longrightarrow> live reader n \<Longrightarrow> answers (rd_nodeGroup reader n)"
      "valid \<Longrightarrow> live reader n \<Longrightarrow> answers (rd_nodeTokenCost reader n)"
      "valid \<Longrightarrow> live reader n \<Longrightarrow> answers (rd_nodeScoreFields reader n)"
begin

section \<open>The plan and the seed lanes\<close>

lemma plan_answers: "valid \<Longrightarrow> answers (resolveQueryPlan nfkc lower reader request options)"
  unfolding resolveQueryPlan_def Let_def
  by (auto intro!: answers_bind answers_map term_answers split: prod.split)

lemma admit_answers: "valid \<Longrightarrow> live reader n \<Longrightarrow> answers (admit reader n t)"
  unfolding admit_def Let_def
  by (auto intro!: answers_bind fields_answer split: option.split)

lemma admit_loop_answers:
  "valid \<Longrightarrow> live_postings reader p \<Longrightarrow> (\<And>i. i \<in> set ixs \<Longrightarrow> answers (posting_node p (int i))) \<Longrightarrow>
     answers (admit_loop reader p on_admit limit ixs rank cnt t)"
proof (induction ixs arbitrary: rank cnt t)
  case (Cons i ixs)
  from Cons.prems show ?case
    unfolding admit_loop.simps Let_def
    by (auto simp: live_postings_def intro!: answers_bind admit_answers Cons.IH split: option.split)
qed simp

lemma admitPostings_answers:
  "valid \<Longrightarrow> live_postings reader p \<Longrightarrow> slice_answers p \<Longrightarrow> answers (admitPostings reader p on_admit limit rank cnt t)"
  unfolding admitPostings_def by (rule admit_loop_answers) (auto simp: slice_answers_def)

lemma anchor_lane_answers: "valid \<Longrightarrow> answers (runAnchorLane reader cx request t ns)"
proof -
  assume v: valid
  have usable: "rd_exact reader x m = Inr p \<Longrightarrow> live_postings reader p \<and> slice_answers p"
    "rd_basename reader x = Inr p \<Longrightarrow> live_postings reader p \<and> slice_answers p" for x m p
    using v exact_live exact_slice basename_live basename_slice by blast+
  note admits = admitPostings_answers [OF v]
  have "answers (anchor_term reader cx x s)" for x s
    unfolding anchor_term_def Let_def
    by (cases s) (auto intro!: answers_bind term_answers exact_answers basename_answers v admits dest: usable)
  moreover have "answers (anchor_focus reader cx focus s)" for focus s
    unfolding anchor_focus_def
    by (cases s; cases "fst s") (auto intro!: answers_bind basename_answers v admits dest: usable)
  moreover have "answers (provided_seed reader cx seed s)" for seed s
    unfolding provided_seed_def
    by (cases s; cases "fst s") (auto intro!: answers_bind exact_answers v admits dest: usable)
  ultimately show ?thesis
    unfolding runAnchorLane_def admitProvidedSeeds_def
    by (auto intro!: answers_bind answers_each split: prod.split)
qed

lemma posting_lane_loop_answers:
  "valid \<Longrightarrow> live_scored reader p \<Longrightarrow>
     (\<And>i. i \<in> set ixs \<Longrightarrow> answers (scored_node p (int i)) \<and> answers (scored_score p (int i))) \<Longrightarrow>
     answers (posting_lane_loop reader lane p ixs cnt t)"
proof (induction ixs arbitrary: cnt t)
  case (Cons i ixs)
  from Cons.prems show ?case
    unfolding posting_lane_loop.simps Let_def
    by (auto simp: live_scored_def intro!: answers_bind admit_answers Cons.IH split: option.split)
qed simp

lemma posting_lane_answers: "valid \<Longrightarrow> answers (runPostingLane reader cx lane t ns)"
proof -
  assume v: valid
  have loop: "answers (posting_lane_loop reader a p [0..<nat (min (int (scored_length p)) k)] cnt t)"
    if "live_scored reader p" "scored_answers p" for a p k cnt t
    using v that by (intro posting_lane_loop_answers) (auto simp: scored_answers_def)
  have usable: "rd_lexical reader ids bounds = Inr p \<Longrightarrow> live_scored reader p \<and> scored_answers p"
    "rd_coarse reader ids bounds = Inr p \<Longrightarrow> live_scored reader p \<and> scored_answers p" for ids bounds p
    using v lexical_live lexical_slice coarse_live coarse_slice by blast+
  show ?thesis
    unfolding runPostingLane_def Let_def
    by (auto intro!: answers_bind lexical_answers coarse_answers v loop dest: usable)
qed

lemma seed_lanes_answer: "valid \<Longrightarrow> answers (runSeedLanes reader cx request t ns)"
  unfolding runSeedLanes_def runLexicalLane_def runCoarseLane_def Let_def
  by (auto intro!: answers_bind anchor_lane_answers posting_lane_answers split: prod.split)

lemma mark_names_answer:
  "valid \<Longrightarrow> live_table reader t \<Longrightarrow> set slots \<subseteq> {..<ct_size t} \<Longrightarrow> answers (mark_names reader name slots k t)"
proof (induction slots arbitrary: k t)
  case (Cons slot slots)
  have "live reader (cr_node (row_of t slot))" using Cons.prems by (simp add: live_table_def)
  moreover have "answers (mark_names reader name slots (k + 1) (mark slot FLAG_NAME_MATCH t))"
    using Cons.prems by (intro Cons.IH live_ops(2)) (simp_all add: table_op_sizes)
  moreover have "answers (mark_names reader name slots k t)" using Cons.prems by (intro Cons.IH) simp_all
  ultimately show ?case using Cons.prems(1) by (auto intro!: answers_bind name_answers)
qed simp

lemma name_anchors_answer: "valid \<Longrightarrow> live_table reader t \<Longrightarrow> answers (markNameAnchors reader cx t)"
  unfolding markNameAnchors_def by (auto intro!: mark_names_answer split: option.split)


section \<open>The closure\<close>

lemma safety_edges_answer:
  "valid \<Longrightarrow> list_all (live_edge reader) es \<Longrightarrow> answers (safety_edges reader cx maxNodes node depth es s)"
proof (induction es arbitrary: s)
  case (Cons e es)
  obtain late since ns where clock: "check_clock cx (sf_sinceClockCheck s) (sf_notes s) = (late, since, ns)"
    by (metis prod_cases3)
  show ?case
    unfolding safety_edges.simps Let_def clock prod.case
    using Cons.prems
    by (auto simp: live_edge_def intro!: answers_bind admit_answers Cons.IH split: option.split prod.split bool.split)
qed simp

lemma safety_node_answers:
  "valid \<Longrightarrow> live reader node \<Longrightarrow> answers (safety_node reader cx maxNodes node depth s)"
  unfolding safety_node_def Let_def
  by (auto intro!: answers_bind outgoing_answers incoming_answers safety_edges_answer intro: outgoing_live incoming_live)

lemma enqueue_live:
  "valid \<Longrightarrow> live reader node \<Longrightarrow> queue_live reader s \<Longrightarrow> enqueue maxNodes node depth s = (b, s') \<Longrightarrow> queue_live reader s'"
  using live_small node_limit by (auto simp: enqueue_def queue_live_def split: if_splits)

end

text \<open>The queue of the closure holds nodes of the index.\<close>

sublocale answering_index \<subseteq> queued: safety_invariant reader cx maxNodes
  "\<lambda>_ e. valid \<longrightarrow> live_edge reader e" "\<lambda>_ s. valid \<longrightarrow> queue_live reader s"
  "\<lambda>s. valid \<longrightarrow> queue_live reader s" for cx maxNodes
proof unfold_locales
  show "list_all (\<lambda>e. valid \<longrightarrow> live_edge reader e) es" if "rd_outgoing reader n m = Inr es" for n m es
    using outgoing_live [OF _ that] by (auto simp: list_all_iff)
  show "list_all (\<lambda>e. valid \<longrightarrow> live_edge reader e) es" if "rd_incoming reader n m = Inr es" for n m es
    using incoming_live [OF _ that] by (auto simp: list_all_iff)
  show "valid \<longrightarrow> queue_live reader s'" if "valid \<longrightarrow> queue_live reader s" "valid \<longrightarrow> live_edge reader e"
    "enqueue maxNodes (int (es_target e)) (depth + 1) (s\<lparr>sf_table := record_safety cx node depth e slot t\<rparr>) = (b, s')"
    for s e slot t depth node b s'
    using that(1,2) enqueue_live [OF _ _ _ that(3)] by (simp add: live_edge_def queue_live_def)
qed (auto simp: queue_live_def)

context answering_index begin

lemma safety_loop_answers:
  "valid \<Longrightarrow> queue_live reader s \<Longrightarrow> answers (safety_loop reader cx maxNodes s)"
proof (induction "length (sf_queue s) + (maxNodes - sf_tail s)" arbitrary: s rule: less_induct)
  case less
  show ?case
  proof (cases "sf_timedOut s \<or> sf_queue s = []")
    case True
    then show ?thesis by (subst safety_loop.simps) auto
  next
    case False
    then obtain n d q where q: "sf_queue s = (n, d) # q" by (cases "sf_queue s") auto
    let ?s = "s\<lparr>sf_queue := q\<rparr>"
    have popped: "queue_live reader ?s" "live reader n" using less.prems(2) q by (simp_all add: queue_live_def)
    have again: "answers (safety_loop reader cx maxNodes u)"
      if "queue_live reader u" "length (sf_queue u) + (maxNodes - sf_tail u) \<le> length q + (maxNodes - sf_tail s)" for u
      using that less.hyps [of u] less.prems(1) q by simp
    have "answers (safety_loop reader cx maxNodes t)" if t: "safety_node reader cx maxNodes n d ?s = Inr t" for t
    proof (rule again)
      show "queue_live reader t" using queued.node [OF _ t] popped(1) less.prems(1) by simp
      show "length (sf_queue t) + (maxNodes - sf_tail t) \<le> length q + (maxNodes - sf_tail s)"
        using room.node [OF order.refl t] by simp
    qed
    with again [OF popped(1)] popped(2) less.prems(1) q False show ?thesis
      by (subst safety_loop.simps) (auto simp: Let_def intro!: answers_bind safety_node_answers)
  qed
qed

lemma enqueue_seeds_live:
  "valid \<Longrightarrow> live_table reader (sf_table s) \<Longrightarrow> queue_live reader s \<Longrightarrow> set slots \<subseteq> {..<ct_size (sf_table s)} \<Longrightarrow>
     queue_live reader (enqueue_seeds maxNodes slots s)"
proof (induction maxNodes slots s rule: enqueue_seeds.induct)
  case (2 maxNodes slot slots s)
  obtain b s' where e: "enqueue maxNodes (cr_node (row_of (sf_table s) slot)) 0 s = (b, s')" by (metis surj_pair)
  have "sf_table s' = sf_table s" using e by (auto simp: enqueue_def split: if_splits)
  moreover have "queue_live reader s'"
    using enqueue_live [OF "2.prems"(1) _ "2.prems"(3) e] "2.prems"(2,4) by (simp add: live_table_def)
  ultimately show ?case using "2.prems" e "2.IH" by (cases b) simp_all
qed simp

lemma closure_answers: "valid \<Longrightarrow> live_table reader t \<Longrightarrow> answers (runSafetyClosure reader cx t ns)"
  unfolding runSafetyClosure_def Let_def
  by (intro answers_bind safety_loop_answers enqueue_seeds_live)
    (auto simp: safety_start_def queue_live_def)

section \<open>The walk\<close>

lemma walk_edges_answer:
  "valid \<Longrightarrow> list_all (live_edge reader) es \<Longrightarrow> answers (walk_edges reader cx node d decay dir es w)"
proof (induction es arbitrary: w)
  case (Cons e es)
  obtain late since ns where clock: "check_clock cx (wk_since w) (wk_notes w) = (late, since, ns)"
    by (metis prod_cases3)
  show ?case
    unfolding walk_edges.simps Let_def clock prod.case
    using Cons.prems
    by (auto simp: live_edge_def intro!: answers_bind admit_answers Cons.IH split: option.split prod.split)
qed simp

lemma expand_answers: "valid \<Longrightarrow> live reader node \<Longrightarrow> answers (expand_node reader cx node depth w)"
  unfolding expand_node_def Let_def
  by (auto intro!: answers_bind outgoing_answers incoming_answers walk_edges_answer intro: outgoing_live incoming_live)

lemma visit_answers: "valid \<Longrightarrow> live_table reader (wk_table w) \<Longrightarrow> answers (walk_visit reader cx safe w)"
proof -
  assume v: valid and t: "live_table reader (wk_table w)"
  have "live reader (fr_node (wk_frontier w))" if "slotOf (wk_table w) (fr_node (wk_frontier w)) = Some slot" for slot
    using t that by (auto simp: live_table_def table_ok_def slotOf_def)
  then show ?thesis
    unfolding walk_visit_def Let_def
    by (auto simp: enter_node_def intro!: answers_bind expand_answers v split: option.split)
qed

lemma walk_loop_answers: "valid \<Longrightarrow> live_table reader (wk_table w) \<Longrightarrow> answers (walk_loop reader cx safe w)"
proof (induction "walk_room w" arbitrary: w rule: less_induct)
  case less
  obtain b f where pop: "frontier_pop (wk_frontier w) = (b, f)" by (metis surj_pair)
  let ?w = "w\<lparr>wk_frontier := f\<rparr>"
  have "answers (if go then walk_loop reader cx safe u else Inr u)"
    if "b" and run: "walk_visit reader cx safe ?w = Inr (go, u)" for go u
  proof (cases go)
    case True
    have "walk_room u \<le> walk_room ?w" using pays.visit [OF order.refl run] .
    also have "\<dots> < walk_room w" using pop_size [of "wk_frontier w" f] pop that(1) by (simp add: walk_room_def)
    finally have "walk_room u < walk_room w" .
    moreover have "live_table reader (wk_table u)"
      using table.walk.visit [of "wk_table w", OF _ run] less.prems by simp
    ultimately show ?thesis using less.hyps less.prems(1) True by simp
  qed simp
  with visit_answers [OF less.prems(1), of ?w] less.prems(2) pop show ?case
    by (subst walk_loop.simps) (auto intro!: answers_bind split: bool.split)
qed

lemma traversal_answers: "valid \<Longrightarrow> live_table reader t \<Longrightarrow> answers (traverseKernelGraph reader cx t safe ns)"
proof -
  assume v: valid and t: "live_table reader t"
  have "live_table reader (wk_table (fold (walk_seed cx) [0..<ct_size t] (walk_start cx t ns)))"
  proof (rule fold_invariant [where Q = "\<lambda>_. True" and P = "\<lambda>w. live_table reader (wk_table w)"])
    show "live_table reader (wk_table (walk_start cx t ns))" using t by (simp add: walk_start_def)
    show "live_table reader (wk_table (walk_seed cx slot w))" if "live_table reader (wk_table w)" for slot w
      using that by (simp add: walk_seed_def Let_def live_ops split: prod.split)
  qed simp
  from walk_loop_answers [OF v this] show ?thesis
    unfolding traverseKernelGraph_def Let_def by (auto intro!: answers_bind)
qed

section \<open>Fusion and the run\<close>

lemma fusion_answers: "valid \<Longrightarrow> live_table reader t \<Longrightarrow> answers (fuseKernelCandidates reader cx t ns)"
  unfolding fuseKernelCandidates_def fuse_slot_def Let_def
  by (auto simp: live_table_def intro!: answers_bind answers_each fields_answer)

lemma kernel_answers: "valid \<Longrightarrow> answers (runContextKernel nfkc lower reader request options)"
proof -
  assume v: valid
  obtain cx n0 where plan: "resolveQueryPlan nfkc lower reader request (kn_plan options) = Inr (cx, n0)"
    using plan_answers [OF v] by (metis answers_def surj_pair)
  let ?table = "new_table (q_candidateBudget (kx_plan cx))"
  have start: "live_table reader ?table" by (simp add: live_table_def table_ok_def new_table_def)
  obtain lanes t1 n1 where seeds: "runSeedLanes reader cx request ?table n0 = Inr (lanes, t1, n1)"
    using seed_lanes_answer [OF v] by (metis answers_def prod_cases3)
  have t1: "live_table reader t1" using table.seed_lanes [OF seeds] v start by simp
  obtain k t2 where names: "markNameAnchors reader cx t1 = Inr (k, t2)"
    using name_anchors_answer [OF v t1] by (metis answers_def surj_pair)
  have t2: "live_table reader t2" using table.name_anchors [OF names] v t1 by simp
  let ?wanted = "(case kn_safetyClosure options of None \<Rightarrow> True | Some b \<Rightarrow> b)
    \<or> (kx_highRisk cx \<or> q_profile (kx_plan cx) = Review)"
  obtain safety t3 n2 where closure: "(if ?wanted then runSafetyClosure reader cx t2 n1
      else Inr (\<lparr>so_visitedNodes = 0, so_visitedEdges = 0, so_capHit = False, so_timedOut = False\<rparr>, t2, n1))
      = Inr (safety, t3, n2)"
    using closure_answers [OF v t2] by (metis answers_def prod_cases3)
  have t3: "live_table reader t3"
    using closure table.safety_closure [of cx t2 n1 safety t3 n2] v t2 by (auto split: if_splits)
  let ?exhaustive = "\<not> so_capHit safety \<and> \<not> so_timedOut safety"
  obtain walk t4 n3 where walk: "traverseKernelGraph reader cx t3 ?exhaustive n2 = Inr (walk, t4, n3)"
    using traversal_answers [OF v t3] by (metis answers_def prod_cases3)
  have t4: "live_table reader t4" using table.traversal [OF walk] v t3 by simp
  obtain fusion n5 where "fuseKernelCandidates reader cx t4
       (omit Candidate_budget (int (ct_overflow t4) - int (ct_overflow t2)) n3) = Inr (fusion, n5)"
    using fusion_answers [OF v t4] by (metis answers_def surj_pair)
  then show ?thesis
    unfolding runContextKernel_def plan seeds names rbind_simps prod.case Let_def closure walk
    by (simp split: prod.split)
qed

end

section \<open>The binary reader answers\<close>

definition strings_decode :: "ContextIndexGeometry \<Rightarrow> bool" where
  "strings_decode g \<longleftrightarrow> (\<forall>i < g_stringCount g. answers (stringAt g i))"

lemma string_search_answers:
  "strings_decode g \<Longrightarrow> 0 \<le> low \<Longrightarrow> high < int (g_stringCount g) \<Longrightarrow> answers (string_search g v low high)"
proof (induction g v low high rule: string_search.induct)
  case (1 g v low high)
  show ?case
  proof (cases "low \<le> high")
    case True
    define mid where "mid = (low + high) div 2"
    have mid: "low \<le> mid" "mid \<le> high" using bisect_mid [OF True] by (simp_all add: mid_def)
    then have "nat mid < g_stringCount g" using "1.prems" by linarith
    then obtain probe where probe: "stringAt g (nat mid) = Inr probe"
      using "1.prems"(1) by (auto simp: strings_decode_def answers_def)
    have "probe \<noteq> v \<Longrightarrow> probe < v \<Longrightarrow> answers (string_search g v (mid + 1) high)"
      "probe \<noteq> v \<Longrightarrow> \<not> probe < v \<Longrightarrow> answers (string_search g v low (mid - 1))"
      using "1.IH" [OF True mid_def probe] "1.prems" mid by simp_all
    then show ?thesis
      using True probe by (subst string_search.simps) (auto simp: mid_def [symmetric] Let_def)
  qed (subst string_search.simps, simp)
qed

lemma string_id_answers: "strings_decode g \<Longrightarrow> answers (stringIdOf g v)"
  unfolding stringIdOf_def by (rule string_search_answers) simp_all

lemma lane_answers:
  assumes "geometry_ok g" "lane \<in> {g_exact g, g_basename g}"
  shows "answers (postingsFor g lane t)" "postingsFor g lane t = Inr p \<Longrightarrow> slice_answers p"
proof -
  have "geometry_lane_ok g lane" using assms by (auto simp: geometry_ok_def)
  from postings_lookup [OF this, of t] show "answers (postingsFor g lane t)"
    "postingsFor g lane t = Inr p \<Longrightarrow> slice_answers p"
    by (auto simp: answers_def slice_answers_def)
qed

lemma merge_answers:
  assumes "geometry_ok g" "lane \<in> {g_lexicon g, g_coarse g}"
  shows "answers (mergePostings g lane ids bounds)" "mergePostings g lane ids bounds = Inr p \<Longrightarrow> scored_answers p"
proof -
  have "geometry_lane_ok g lane" using assms by (auto simp: geometry_ok_def)
  from merge_postings_ranking [OF this, of ids bounds] show "answers (mergePostings g lane ids bounds)"
    by (auto simp: answers_def)
  show "scored_answers p" if "mergePostings g lane ids bounds = Inr p"
    using that by (auto simp: mergePostings_def Let_def rbind_Inr_iff scored_answers_def split: if_splits)
qed

lemma interface_weaken: "index_interface i v \<Longrightarrow> (w \<Longrightarrow> v) \<Longrightarrow> index_interface i w"
  unfolding index_interface_def by blast

interpretation ans: answering_index "index_reader r" "reader_ok r \<and> strings_decode (r_geometry r)" for r
proof (intro answering_index.intro answering_index_axioms.intro)
  show "index_interface (index_reader r) (reader_ok r \<and> strings_decode (r_geometry r))"
    by (rule interface_weaken [OF idx.index_interface_axioms]) simp
next
  assume ok: "reader_ok r \<and> strings_decode (r_geometry r)"
  then have g: "geometry_ok (r_geometry r)" and r: "reader_ok r" and s: "strings_decode (r_geometry r)"
    by (simp_all add: reader_geometry)
  let ?i = "index_reader r"
  show "answers (rd_termId ?i t)" for t
    using string_id_answers [OF s] by (simp add: index_reader_def reader_termId_def termIdOf_def)
  show "answers (rd_exact ?i t m)" for t m
    using string_id_answers [OF s] lane_answers(1) [OF g]
    by (auto simp: index_reader_def reader_exact_def exactPostings_def intro!: answers_bind)
  show "slice_answers p" if "rd_exact ?i t m = Inr p" for t m p
    using that lane_answers(2) [OF g, of "g_exact (r_geometry r)"]
    by (auto simp: index_reader_def reader_exact_def exactPostings_def rbind_Inr_iff slice_answers_def split: if_splits)
  show "answers (rd_basename ?i t)" for t
    using string_id_answers [OF s] lane_answers(1) [OF g]
    by (auto simp: index_reader_def reader_basename_def basenamePostings_def intro!: answers_bind)
  show "slice_answers p" if "rd_basename ?i t = Inr p" for t p
    using that lane_answers(2) [OF g, of "g_basename (r_geometry r)"]
    by (auto simp: index_reader_def reader_basename_def basenamePostings_def rbind_Inr_iff)
  show "answers (rd_lexical ?i ids bounds)" for ids bounds
    using merge_answers(1) [OF g] by (simp add: index_reader_def reader_lexical_def)
  show "scored_answers sp" if "rd_lexical ?i ids bounds = Inr sp" for ids bounds sp
    using that merge_answers(2) [OF g, of "g_lexicon (r_geometry r)"] by (simp add: index_reader_def reader_lexical_def)
  show "answers (rd_coarse ?i ids bounds)" for ids bounds
    using merge_answers(1) [OF g] by (simp add: index_reader_def reader_coarse_def)
  show "scored_answers sp" if "rd_coarse ?i ids bounds = Inr sp" for ids bounds sp
    using that merge_answers(2) [OF g, of "g_coarse (r_geometry r)"] by (simp add: index_reader_def reader_coarse_def)
  fix n assume "live ?i n"
  then have n: "0 \<le> n" "n < int (r_nodeCount r)" by (simp_all add: live_def index_reader_def)
  show "answers (rd_nodeHasName ?i n name)" for name
    using nodeHasName_ok [OF r n, of name] by (auto simp: index_reader_def)
  show "answers (rd_nodeFlags ?i n)" "answers (rd_nodeGroup ?i n)" "answers (rd_nodeTokenCost ?i n)"
    using node_field_ok [OF r n] by (simp_all add: index_reader_def reader_nodeFlags_def reader_nodeGroup_def reader_nodeTokenCost_def rows)
  show "answers (rd_nodeScoreFields ?i n)"
    using score_fields_ok [OF r n] by (simp add: index_reader_def)
  have small: "nat n < r_nodeCount r" using n by linarith
  show "answers (rd_outgoing ?i n pm)" for pm
    using open_outgoing [OF g small, of pm] n cursor_drain_remaining
    by (fastforce simp: index_reader_def reader_outgoing_def requireNode_def)
  show "answers (rd_incoming ?i n pm)" for pm
  proof -
    from incoming_ok [OF r n] obtain sources r' c where src: "buildEdgeSourceIndex (r_geometry r) = Inr sources"
      and c: "reader_incoming r n pm = Inr (c, r')" "openIncomingCursor (r_geometry r) sources (nat n) pm = Inr c" by blast
    have "length sources = g_edgeCount (r_geometry r)" using edge_source_index [OF g] src by (metis Inr_inject)
    from open_incoming [OF g small this, of pm] c have "cursor_ok (r_geometry r) c" by auto
    with c cursor_drain_remaining show ?thesis by (auto simp: index_reader_def)
  qed
qed

end
