(* ===== verification/Kernel_Bounds.thy ===== *)
theory Kernel_Bounds
  imports Kernel_Correct
begin

text \<open>
  The bounds of a whole run: of the walk, of the closure, of the candidate table and of what is
  returned.
\<close>

unbundle bit_operations_syntax

section \<open>The walk\<close>

definition walk_within :: "WalkState \<Rightarrow> bool" where
  "walk_within w \<longleftrightarrow> wk_visitedEdges w \<le> maxVisitedEdges CONTEXT_GRAPH_TRAVERSAL_CAPS
     \<and> wk_visitedNodes w \<le> maxVisitedNodes CONTEXT_GRAPH_TRAVERSAL_CAPS
     \<and> finite (wk_visited w) \<and> card (wk_visited w) = wk_visitedNodes w"

lemma settle_visits [simp]: "wk_visited (settle slot w) = wk_visited w"
    "wk_visitedNodes (settle slot w) = wk_visitedNodes w"
  by (simp_all add: settle_def Let_def)

interpretation limits: walk_invariant reader cx "\<lambda>_ _. True" "\<lambda>_. walk_within" "\<lambda>_. walk_within" walk_within for reader cx
  by unfold_locales (auto simp: walk_within_def list_all_iff enter_node_def score_node_def Let_def)

lemma walk_start_within: "walk_within (fold (walk_seed cx) slots (walk_start cx t ns))"
proof (rule fold_invariant [where Q = "\<lambda>_. True" and P = walk_within])
  show "walk_within (walk_start cx t ns)" by (simp add: walk_within_def walk_start_def)
  show "walk_within (walk_seed cx slot w)" if "walk_within w" for slot w
    using that by (simp add: walk_within_def walk_seed_def Let_def split: prod.split)
qed simp

lemma traversal_limits:
  assumes "traverseKernelGraph reader cx t safe ns = Inr (out, u, ns')"
  shows "to_visitedNodes out \<le> maxVisitedNodes CONTEXT_GRAPH_TRAVERSAL_CAPS"
    "to_visitedEdges out \<le> maxVisitedEdges CONTEXT_GRAPH_TRAVERSAL_CAPS"
proof -
  from assms obtain w where "walk_loop reader cx safe (fold (walk_seed cx) [0..<ct_size t] (walk_start cx t ns)) = Inr w"
    and out: "to_visitedNodes out = wk_visitedNodes w" "to_visitedEdges out = wk_visitedEdges w"
    by (auto simp: traverseKernelGraph_def Let_def rbind_Inr_iff)
  from limits.loop [OF walk_start_within this(1)] show
    "to_visitedNodes out \<le> maxVisitedNodes CONTEXT_GRAPH_TRAVERSAL_CAPS"
    "to_visitedEdges out \<le> maxVisitedEdges CONTEXT_GRAPH_TRAVERSAL_CAPS"
    by (simp_all add: out walk_within_def)
qed

section \<open>The closure\<close>

definition closure_within :: "nat \<Rightarrow> SafetyState \<Rightarrow> bool" where
  "closure_within maxNodes s \<longleftrightarrow> sf_tail s \<le> maxNodes \<and> length (sf_queue s) \<le> sf_tail s
     \<and> finite (sf_seen s) \<and> card (sf_seen s) = sf_tail s"

interpretation reach: safety_invariant reader cx maxNodes "\<lambda>_ _. True" "\<lambda>_. closure_within maxNodes"
  "closure_within maxNodes" for reader cx maxNodes
  by unfold_locales (auto simp: closure_within_def list_all_iff enqueue_def split: if_splits)

text \<open>How many nodes have left the queue.\<close>

definition expanded :: "SafetyState \<Rightarrow> int" where
  "expanded s = int (sf_tail s) - int (length (sf_queue s))"

interpretation still: safety_step reader cx maxNodes "\<lambda>_ _. True" "\<lambda>_ s. expanded s = k" for reader cx maxNodes k
  by unfold_locales (auto simp: expanded_def list_all_iff enqueue_def split: if_splits)

text \<open>The edge cap ends the cursor it is hit in, so that a cursor opened at the cap still costs an edge.\<close>

lemma edges_over:
  "safety_edges reader cx maxNodes node depth es s = Inr s' \<Longrightarrow>
     sf_visitedEdges s' \<le> max (sf_visitedEdges s + 1) (safetyMaxVisitedEdges (kx_kernelConfig cx))"
proof (induction es arbitrary: s)
  case (Cons e es)
  let ?cap = "safetyMaxVisitedEdges (kx_kernelConfig cx)"
  obtain late since ns where clock: "check_clock cx (sf_sinceClockCheck s) (sf_notes s) = (late, since, ns)"
    by (metis prod_cases3)
  define s1 where "s1 = s\<lparr>sf_visitedEdges := sf_visitedEdges s + 1, sf_sinceClockCheck := since, sf_notes := ns\<rparr>"
  note run = Cons.prems [unfolded safety_edges.simps clock Let_def prod.case, folded s1_def]
  have s1: "sf_visitedEdges s1 = sf_visitedEdges s + 1" by (simp add: s1_def)
  show ?case
  proof (cases "late \<or> sf_visitedEdges s1 \<ge> ?cap")
    case True
    with run s1 show ?thesis by (auto split: if_splits)
  next
    case False
    have kept: "sf_visitedEdges s2 = sf_visitedEdges s1 \<Longrightarrow>
        safety_edges reader cx maxNodes node depth es s2 = Inr s' \<or> s' = s2 \<Longrightarrow> ?thesis" for s2
      using Cons.IH [of s2] False s1 by auto
    show ?thesis
    proof (cases "mask_has (kx_safetyEdgeMask cx) (es_type e)")
      case True
      with run False obtain r t where a: "admit reader (int (es_target e)) (sf_table s1) = Inr (r, t)"
        by (auto simp: rbind_Inr_iff)
      show ?thesis
      proof (cases r)
        case None
        with run False True a kept [of "s1\<lparr>sf_capHit := True, sf_table := t\<rparr>"] show ?thesis by simp
      next
        case (Some slot)
        obtain b s2 where q: "enqueue maxNodes (int (es_target e)) (depth + 1)
          (s1\<lparr>sf_table := record_safety cx node depth e slot t\<rparr>) = (b, s2)" by (metis surj_pair)
        then have "sf_visitedEdges s2 = sf_visitedEdges s1" by (auto simp: enqueue_def split: if_splits)
        with run False True a Some q kept [of s2] show ?thesis by (cases b) auto
      qed
    qed (use run False kept [of s1] in simp)
  qed
qed simp

lemma node_over:
  assumes "safety_node reader cx maxNodes node depth s = Inr s'"
  shows "sf_visitedEdges s' \<le> max (sf_visitedEdges s + 2) (safetyMaxVisitedEdges (kx_kernelConfig cx) + 1)"
  using assms by (auto simp: safety_node_def Let_def rbind_Inr_iff split: if_splits dest!: edges_over)

definition edges_paid :: "KernelPlanContext \<Rightarrow> SafetyState \<Rightarrow> bool" where
  "edges_paid cx s \<longleftrightarrow>
     int (sf_visitedEdges s) \<le> int (safetyMaxVisitedEdges (kx_kernelConfig cx)) + 2 * expanded s \<and> 0 \<le> expanded s"

lemma loop_paid: "edges_paid cx s \<Longrightarrow> safety_loop reader cx maxNodes s = Inr s' \<Longrightarrow> edges_paid cx s'"
proof (induction reader cx maxNodes s rule: safety_loop.induct)
  case (1 reader cx maxNodes s)
  note run = "1.prems"(2) [unfolded safety_loop.simps [of reader cx maxNodes s]]
  show ?case
  proof (cases "sf_timedOut s \<or> sf_queue s = []")
    case True
    with run "1.prems"(1) show ?thesis by (auto split: if_splits)
  next
    case False
    then obtain n d q where q: "sf_queue s = (n, d) # q" by (cases "sf_queue s") auto
    let ?s = "s\<lparr>sf_queue := q\<rparr>"
    have popped: "expanded ?s = expanded s + 1" by (simp add: expanded_def q)
    then have paid: "edges_paid cx ?s" using "1.prems"(1) by (simp add: edges_paid_def)
    show ?thesis
    proof (cases "d \<ge> int (safetyMaxDepth (kx_kernelConfig cx))")
      case True
      with run False q "1.IH"(1) [OF _ q refl refl True paid] show ?thesis by simp
    next
      case deep: False
      with run False q obtain t where t: "safety_node reader cx maxNodes n d ?s = Inr t"
          "safety_loop reader cx maxNodes t = Inr s'" by (auto simp: rbind_Inr_iff)
      have "expanded t = expanded ?s" by (rule still.node [OF refl t(1)])
      with node_over [OF t(1)] popped "1.prems"(1) have "edges_paid cx t" by (auto simp: edges_paid_def)
      with "1.IH"(2) [OF _ q refl refl deep t(1)] t(2) False show ?thesis by simp
    qed
  qed
qed

lemma seeds_keep: "sf_visitedEdges (enqueue_seeds n slots s) = sf_visitedEdges s"
    "closure_within n s \<Longrightarrow> closure_within n (enqueue_seeds n slots s)"
  by (induction n slots s rule: enqueue_seeds.induct)
    (auto simp: enqueue_def closure_within_def split: if_splits prod.splits bool.splits)

lemma closure_limits:
  assumes "runSafetyClosure reader cx t ns = Inr (out, u, ns')"
  shows "int (so_visitedNodes out) \<le> max 0 (safetyMaxVisitedNodes (kx_kernelConfig cx))"
    "so_visitedEdges out \<le> safetyMaxVisitedEdges (kx_kernelConfig cx) + 2 * so_visitedNodes out"
proof -
  let ?n = "nat (max 0 (safetyMaxVisitedNodes (kx_kernelConfig cx)))"
  let ?s = "enqueue_seeds ?n [0..<ct_size t] (safety_start t ns)"
  from assms obtain s where s: "safety_loop reader cx ?n ?s = Inr s"
    and out: "so_visitedNodes out = sf_tail s" "so_visitedEdges out = sf_visitedEdges s"
    by (auto simp: runSafetyClosure_def Let_def rbind_Inr_iff)
  have start: "closure_within ?n ?s" by (rule seeds_keep(2)) (simp add: closure_within_def safety_start_def)
  then have "edges_paid cx ?s"
    by (simp add: edges_paid_def seeds_keep(1) expanded_def closure_within_def safety_start_def)
  note paid = loop_paid [OF this s]
  note reached = reach.loop [OF start s]
  show "int (so_visitedNodes out) \<le> max 0 (safetyMaxVisitedNodes (kx_kernelConfig cx))"
    using reached unfolding out closure_within_def by linarith
  show "so_visitedEdges out \<le> safetyMaxVisitedEdges (kx_kernelConfig cx) + 2 * so_visitedNodes out"
    using paid by (simp add: out edges_paid_def expanded_def)
qed

section \<open>The table\<close>

definition keeps_size :: "CandidateTable \<Rightarrow> CandidateTable \<Rightarrow> bool" where
  "keeps_size t u \<longleftrightarrow> ct_capacity u = ct_capacity t \<and> (ct_size t \<le> ct_capacity t \<longrightarrow> ct_size u \<le> ct_capacity u)"

lemma table_op_capacities:
  "ct_capacity (claim s lane c t) = ct_capacity t" "ct_capacity (mark s bits t) = ct_capacity t"
  "ct_capacity (contribute s lane rank x k t) = ct_capacity t" "ct_capacity (link s a b e d t) = ct_capacity t"
  "ct_capacity (setGraphScore s n t) = ct_capacity t"
  by (simp_all add: claim_def mark_def contribute_def link_def setGraphScore_def Let_def update_row_def)

interpretation sized: candidate_relation reader "\<lambda>_. True" keeps_size for reader
  by unfold_locales (auto simp: keeps_size_def table_op_sizes table_op_capacities admit_def Let_def rbind_Inr_iff
      split: option.splits if_splits)

section \<open>The limits of a plan\<close>

lemma plan_limits:
  assumes "resolveQueryPlan nfkc lower reader request options = Inr (cx, notes)"
  defines "caps \<equiv> CONTEXT_GRAPH_TRAVERSAL_CAPS"
  shows "kx_kernelConfig cx = plan_kernelConfig options"
    "q_candidateBudget (kx_plan cx) = kc_candidateBudget (plan_kernelConfig options)"
    "q_tokenBudget (kx_plan cx) = max 0 (case kr_tokenBudget request of None \<Rightarrow> defaultTokenBudget caps | Some b \<Rightarrow> b)"
    "kx_maxSelected cx
      = max 0 (min (case kr_maxSelected request of None \<Rightarrow> maxSelectedNodes caps | Some m \<Rightarrow> m) (maxSelectedNodes caps))"
proof -
  obtain normalization ids anchors shaped t focus
    where x: "cx = plan_context request options normalization anchors shaped ids t focus"
    using assms(1) by (rule resolve_parts)
  show "kx_kernelConfig cx = plan_kernelConfig options"
    "q_candidateBudget (kx_plan cx) = kc_candidateBudget (plan_kernelConfig options)"
    "q_tokenBudget (kx_plan cx) = max 0 (case kr_tokenBudget request of None \<Rightarrow> defaultTokenBudget caps | Some b \<Rightarrow> b)"
    "kx_maxSelected cx
      = max 0 (min (case kr_maxSelected request of None \<Rightarrow> maxSelectedNodes caps | Some m \<Rightarrow> m) (maxSelectedNodes caps))"
    unfolding x caps_def by (simp_all add: plan_context_def query_plan_def Let_def)
qed

section \<open>Properties\<close>

text \<open>
  C34. The work of a query is bounded, whatever the index: the walk visits at most 4,000 nodes and
  20,000 edges, the closure at most its own node cap, and its edge cap with at most two edges more
  for each node it visits; the candidate table stays within the candidate budget.
\<close>

theorem kernel_work_bounded:
  assumes "runContextKernel nfkc lower reader request options = Inr res"
  defines "caps \<equiv> CONTEXT_GRAPH_TRAVERSAL_CAPS" and "config \<equiv> plan_kernelConfig (kn_plan options)"
  shows "int (res_visitedNodes res) \<le> int (maxVisitedNodes caps) + max 0 (safetyMaxVisitedNodes config)
     \<and> int (res_visitedEdges res) \<le> int (maxVisitedEdges caps) + int (safetyMaxVisitedEdges config)
         + 2 * max 0 (safetyMaxVisitedNodes config)
     \<and> int (res_candidateCount res) \<le> max 0 (kc_candidateBudget config)"
  using assms(1)
proof (rule kernel_stages)
  fix cx :: KernelPlanContext and n0 lanes t1 n1 k t2 safety t3 n2 exhaustive walk t4 n3
  let ?table = "new_table (q_candidateBudget (kx_plan cx))"
  assume plan: "resolveQueryPlan nfkc lower reader request (kn_plan options) = Inr (cx, n0)"
    and stages: "runSeedLanes reader cx request ?table n0 = Inr (lanes, t1, n1)"
      "markNameAnchors reader cx t1 = Inr (k, t2)"
      "safety = no_safety \<and> t3 = t2 \<and> n2 = n1 \<or> runSafetyClosure reader cx t2 n1 = Inr (safety, t3, n2)"
      "traverseKernelGraph reader cx t3 exhaustive n2 = Inr (walk, t4, n3)"
    and res: "res_candidateCount res = ct_size t4" "res_visitedNodes res = to_visitedNodes walk + so_visitedNodes safety"
      "res_visitedEdges res = to_visitedEdges walk + so_visitedEdges safety"
  note config = plan_limits(1,2) [OF plan, folded config_def]
  have "int (so_visitedNodes safety) \<le> max 0 (safetyMaxVisitedNodes config)"
      "so_visitedEdges safety \<le> safetyMaxVisitedEdges config + 2 * so_visitedNodes safety"
    using stages(3) closure_limits [of reader cx t2 n1 safety t3 n2] config(1) by (auto simp: no_safety_def)
  moreover have "keeps_size ?table t4" by (rule sized.kernel_tables(3) [OF stages])
  ultimately show ?thesis
    using traversal_limits [OF stages(4)] config(2)
    by (auto simp: res keeps_size_def new_table_def caps_def)
qed

text \<open>
  C12. What a query returns is bounded by what was asked: it never charges more than the token
  budget, returns at most the nodes asked for and never more than 64, charges exactly the sum of
  what it returns, and presents that best score first, ties by node.
\<close>

theorem kernel_result_bounded:
  assumes "runContextKernel nfkc lower reader request options = Inr res"
  defines "caps \<equiv> CONTEXT_GRAPH_TRAVERSAL_CAPS"
  shows "res_tokenCost res \<le> max 0 (case kr_tokenBudget request of None \<Rightarrow> defaultTokenBudget caps | Some b \<Rightarrow> b)
     \<and> int (length (res_selected res))
         \<le> max 0 (min (case kr_maxSelected request of None \<Rightarrow> maxSelectedNodes caps | Some m \<Rightarrow> m) (maxSelectedNodes caps))
     \<and> res_tokenCost res = (\<Sum>c\<leftarrow>res_selected res. sc_tokenCost c)
     \<and> sorted (map presentation_key (res_selected res))"
  using assms(1)
proof (rule kernel_stages)
  fix cx :: KernelPlanContext and n0 t2 t4 n3 fusion n5 sel n6
  assume plan: "resolveQueryPlan nfkc lower reader request (kn_plan options) = Inr (cx, n0)"
    and fuse: "fuseKernelCandidates reader cx t4
       (omit Candidate_budget (int (ct_overflow t4) - int (ct_overflow t2)) n3) = Inr (fusion, n5)"
    and select: "selectKernelCandidates cx t4 fusion n5 = (sel, n6)"
    and res: "res_selected res = sr_selected sel" "res_tokenCost res = sr_tokenCost sel"
  from selected_slots [OF fuse select] obtain chosen where
      "sr_tokenCost sel \<le> max 0 (q_tokenBudget (kx_plan cx))" "int (length (sr_selected sel)) \<le> max 0 (kx_maxSelected cx)"
      "sr_tokenCost sel = (\<Sum>c\<leftarrow>sr_selected sel. sc_tokenCost c)" "sorted (map presentation_key (sr_selected sel))"
    by metis
  then show ?thesis unfolding caps_def by (simp add: res plan_limits(3,4) [OF plan])
qed

text \<open>
  C11. Over an index the reader opened, every selected candidate is a node of that index, and no
  node is selected twice.
\<close>

theorem kernel_selects_live_nodes:
  assumes "openContextIndex file snapshot config = Inr r"
    and "runContextKernel nfkc lower (index_reader r) request options = Inr res"
  shows "distinct (map (cc_node \<circ> sc_candidate) (res_selected res))
     \<and> list_all (\<lambda>c. 0 \<le> cc_node (sc_candidate c) \<and> cc_node (sc_candidate c) < int (r_nodeCount r)) (res_selected res)"
  using assms(2)
proof (rule kernel_stages)
  fix cx :: KernelPlanContext and n0 lanes t1 n1 k t2 safety t3 n2 exhaustive walk t4 n3 fusion n5 sel n6
  let ?reader = "index_reader r" and ?table = "new_table (q_candidateBudget (kx_plan cx))"
  assume stages: "runSeedLanes ?reader cx request ?table n0 = Inr (lanes, t1, n1)"
      "markNameAnchors ?reader cx t1 = Inr (k, t2)"
      "safety = no_safety \<and> t3 = t2 \<and> n2 = n1 \<or> runSafetyClosure ?reader cx t2 n1 = Inr (safety, t3, n2)"
      "traverseKernelGraph ?reader cx t3 exhaustive n2 = Inr (walk, t4, n3)"
    and fuse: "fuseKernelCandidates ?reader cx t4
       (omit Candidate_budget (int (ct_overflow t4) - int (ct_overflow t2)) n3) = Inr (fusion, n5)"
    and select: "selectKernelCandidates cx t4 fusion n5 = (sel, n6)" and res: "res_selected res = sr_selected sel"
  have "live_table ?reader ?table" by (simp add: live_table_def table_ok_def new_table_def)
  with idx.table.kernel_tables(3) [OF stages] open_reader_ok [OF assms(1)] have live: "live_table ?reader t4" by simp
  then have found: "slot < ct_size t4 \<Longrightarrow> ct_slots t4 (cr_node (row_of t4 slot)) = Some slot" for slot
    by (simp add: live_table_def table_ok_def)
  have ok: "inj_on (\<lambda>slot. cr_node (row_of t4 slot)) {..<ct_size t4}"
    by (rule inj_onI) (metis found lessThan_iff option.inject)
  from selected_slots [OF fuse select] obtain chosen where chosen: "distinct chosen" "set chosen \<subseteq> {..<ct_size t4}"
    and sel: "mset (sr_selected sel) = image_mset (selected_candidate cx t4 fusion) (mset chosen)" by metis
  let ?node = "cc_node \<circ> sc_candidate"
  have node: "?node (selected_candidate cx t4 fusion slot) = cr_node (row_of t4 slot)" for slot
    by (simp add: selected_candidate_def Let_def)
  have "mset (map ?node (sr_selected sel)) = mset (map (\<lambda>slot. cr_node (row_of t4 slot)) chosen)"
    by (simp add: sel multiset.map_comp node [unfolded comp_def] comp_def)
  moreover have "distinct (map (\<lambda>slot. cr_node (row_of t4 slot)) chosen)"
    using chosen ok by (simp add: distinct_map inj_on_subset)
  ultimately have "distinct (map ?node (sr_selected sel))" by (metis mset_eq_imp_distinct_iff)
  moreover have "list_all (\<lambda>c. live ?reader (?node c)) (sr_selected sel)"
    using live chosen(2) node by (auto simp: list_all_iff live_table_def dest!: selected_members [OF sel])
  ultimately show ?thesis by (simp add: res live_def comp_def index_reader_def)
qed

end
