(* ===== verification/Writer_Tables_Correct.thy ===== *)
theory Writer_Tables_Correct
  imports Writer
begin

text \<open>
  What the table builders produce: ids of the sealed interner, decodable string blobs,
  prefix sums of CSR rows, sorted term tables, and the order of metadata rows.
\<close>

section \<open>The sealed interner\<close>

definition sealed_ok :: "StringInterner \<Rightarrow> bool" where
  "sealed_ok s \<longleftrightarrow> si_sealed s \<and> sorted_wrt (<) (si_table s)
     \<and> si_index s = map_of (zip (si_table s) [0..<length (si_table s)])"

lemma seal_ok:
  "distinct (si_values s) \<Longrightarrow> \<not> si_sealed s \<Longrightarrow>
     sealed_ok (interner_seal s) \<and> set (si_table (interner_seal s)) = set (si_values s)"
  by (simp add: sealed_ok_def interner_seal_def Let_def strict_sorted_iff)

lemma idOf_iff:
  assumes "sealed_ok s"
  shows "interner_idOf s v = Inr i \<longleftrightarrow> i < length (si_table s) \<and> si_table s ! i = v"
proof -
  have "distinct (si_table s)" using assms by (simp add: sealed_ok_def strict_sorted_iff)
  then have "map_of (zip (si_table s) [0..<length (si_table s)]) v = Some i
      \<longleftrightarrow> i < length (si_table s) \<and> si_table s ! i = v"
    by (auto simp: in_set_zip dest: map_of_SomeD intro!: map_of_is_SomeI)
  with assms show ?thesis
    by (auto simp: interner_idOf_def sealed_ok_def split: option.splits)
qed

lemma idOf_total: "sealed_ok s \<Longrightarrow> v \<in> set (si_table s) \<Longrightarrow> \<exists>i. interner_idOf s v = Inr i"
  by (auto simp: idOf_iff in_set_conv_nth)

lemma idOf_inj: "sealed_ok s \<Longrightarrow> interner_idOf s v = Inr i \<Longrightarrow> interner_idOf s v' = Inr i \<Longrightarrow> v = v'"
  by (simp add: idOf_iff)

lemma idOf_less: "sealed_ok s \<Longrightarrow> interner_idOf s v = Inr i \<Longrightarrow> interner_idOf s v' = Inr j \<Longrightarrow>
    v < v' \<longleftrightarrow> i < j"
proof -
  assume s: "sealed_ok s" and i: "interner_idOf s v = Inr i" and j: "interner_idOf s v' = Inr j"
  have mono: "a < b \<Longrightarrow> b < length (si_table s) \<Longrightarrow> si_table s ! a < si_table s ! b" for a b
    using s by (simp add: sealed_ok_def sorted_wrt_nth_less)
  from i j s have *: "i < length (si_table s)" "si_table s ! i = v" "j < length (si_table s)" "si_table s ! j = v'"
    by (simp_all add: idOf_iff)
  show "v < v' \<longleftrightarrow> i < j"
    using mono [of i j] mono [of j i] * by (metis less_asym linorder_neqE_nat order_less_irrefl)
qed

lemma idOrSentinel_cases:
  "sealed_ok s \<Longrightarrow> interner_idOrSentinel s v = Inr i \<Longrightarrow>
     i = CONTEXT_INDEX_NO_VALUE \<or> i < length (si_table s)"
  by (auto simp: interner_idOrSentinel_def idOf_iff split: if_splits)

section \<open>Interning keeps the interner open and its values distinct\<close>

definition open_ok :: "StringInterner \<Rightarrow> bool" where
  "open_ok s \<longleftrightarrow> \<not> si_sealed s \<and> distinct (si_values s)"

lemma open_new [simp]: "open_ok new_interner"
  by (simp add: open_ok_def new_interner_def)

lemma add_Inr_iff:
  "interner_add v s = Inr s' \<longleftrightarrow> \<not> si_sealed s \<and> s' = s\<lparr>si_values := set_add v (si_values s)\<rparr>"
  by (auto simp: interner_add_def)

lemma open_add: "open_ok s \<Longrightarrow> ensures open_ok (interner_add v s)"
  by (simp add: ensures_def open_ok_def add_Inr_iff)

lemma open_fold_add: "open_ok s \<Longrightarrow> ensures open_ok (fold_res interner_add vs s)"
  by (rule ensures_fold) (simp_all add: open_add)

lemma open_entry: "open_ok s \<Longrightarrow> ensures open_ok (intern_entry toString entry s)"
  unfolding intern_entry_def
  by (rule ensures_bind [where Q = open_ok], rule open_add, assumption)
    (rule ensures_any, rule ensures_fold, assumption, rule open_add)

lemma open_node:
  assumes "open_ok s"
  shows "ensures open_ok (intern_node toString nix node s)"
  unfolding intern_node_def Let_def
proof (intro ensures_if ensures_simps(2))
  have *: "ensures open_ok (case v of None \<Rightarrow> Inr s | Some p \<Rightarrow> if c p then Inl (e p) else interner_add p s)"
    if "open_ok s" for s v c and e :: "js_string \<Rightarrow> js_error"
    using that by (auto split: option.splits intro: open_add)
  have **: "ensures open_ok (case v of None \<Rightarrow> Inr s | Some p \<Rightarrow> interner_add p s)" if "open_ok s" for s v
    using that by (auto split: option.splits intro: open_add)
  show "ensures open_ok (rbind (interner_add (n_id node) s) (\<lambda>s.
     rbind (interner_add (n_label node) s) (\<lambda>s.
     rbind (case n_path node of None \<Rightarrow> Inr s
       | Some path \<Rightarrow>
           (if \<not> isWorkspaceRelativePosixPath path
            then refuse Absolute_path [(''node'', int (the (nix (n_id node))))]
            else interner_add path s)) (\<lambda>s.
     rbind (case n_contentHash node of None \<Rightarrow> Inr s | Some h \<Rightarrow> interner_add h s) (\<lambda>s.
     fold_res (intern_entry toString) (n_metadata node) s)))))"
    by (intro ensures_bind [where Q = open_ok] ensures_fold * ** open_add open_entry assms)
qed

lemma open_edge:
  "open_ok s \<Longrightarrow> ensures open_ok (intern_edge nix edge s)"
  unfolding intern_edge_def
  by (intro ensures_if ensures_simps(2) ensures_bind [where Q = open_ok] open_add)

lemma open_graph: "ensures open_ok (intern_graph toString nix nodes edges)"
  unfolding intern_graph_def
  by (intro ensures_bind [where Q = open_ok] ensures_fold open_new open_node open_edge)

section \<open>The string section\<close>

lemma utf8_blobs: "\<exists>cs. utf8_points (concat (map text_encode ss)) = Some cs"
proof (induction ss)
  case (Cons s ss)
  then show ?case by (auto simp: utf8_points_text_encode)
qed simp

lemma utf8_points_drop_bom:
  assumes "utf8_points bs = Some cs" and "take 3 bs = [239, 187, 191]"
  shows "\<exists>cs. utf8_points (drop 3 bs) = Some cs"
proof -
  obtain q where q: "bs = 239 # 187 # 191 # q"
    using append_take_drop_id [of 3 bs] assms(2) by (metis append_Cons append_Nil)
  have "utf8_next (239 # 187 # 191 # q) = Some (65279, 3)"
    by (simp add: utf8_next_def cont_def)
  with assms(1) q show ?thesis
    by (auto simp: utf8_points.simps [of "239 # 187 # 191 # q"])
qed

lemma decode_blobs: "isl (text_decode (concat (map text_encode ss))) = False"
proof -
  obtain cs where cs: "utf8_points (concat (map text_encode ss)) = Some cs"
    using utf8_blobs by blast
  then show ?thesis
    using utf8_points_drop_bom [OF cs] by (auto simp: text_decode_def split: option.splits)
qed

section \<open>CSR rows\<close>

lemma running_offsets_length [simp]: "length (running_offsets r cs) = length cs + 1"
  by (induction cs arbitrary: r) auto

lemma running_offsets_nth: "i \<le> length cs \<Longrightarrow> running_offsets r cs ! i = r + sum_list (take i cs)"
  by (induction cs arbitrary: r i) (auto simp: nth_Cons take_Cons split: nat.splits)

lemma sum_list_update_Suc:
  "b < length cs \<Longrightarrow> sum_list (cs[b := Suc (cs ! b)]) = Suc (sum_list cs)" for cs :: "nat list"
  by (induction cs arbitrary: b) (auto simp: nth_Cons split: nat.splits)

lemma fold_counts:
  "\<forall>b \<in> set bs. b < length cs \<Longrightarrow>
     length (fold (\<lambda>b counts. counts[b := counts ! b + 1]) bs cs) = length cs
     \<and> sum_list (fold (\<lambda>b counts. counts[b := counts ! b + 1]) bs cs) = sum_list cs + length bs"
  for cs :: "nat list"
proof (induction bs arbitrary: cs)
  case (Cons b bs)
  have "\<forall>x \<in> set bs. x < length (cs[b := cs ! b + 1])" using Cons.prems by simp
  from Cons.IH [OF this] Cons.prems show ?case by (simp add: sum_list_update_Suc)
qed simp

lemma csr_counts:
  "\<forall>b \<in> set bs. b < n \<Longrightarrow> length (csrOffsets_counts bs n) = n \<and> sum_list (csrOffsets_counts bs n) = length bs"
  using fold_counts [of bs "replicate n 0"] by (simp add: csrOffsets_counts_def)

lemma csr_offsets_shape:
  assumes "\<forall>b \<in> set bs. b < n"
  shows "length (csrOffsets bs n) = n + 1" "csrOffsets bs n ! n = length bs"
    "i < n \<Longrightarrow> csrOffsets bs n ! i \<le> csrOffsets bs n ! (i + 1)"
    "i \<le> n \<Longrightarrow> csrOffsets bs n ! i \<le> length bs"
proof -
  note c = csr_counts [OF assms]
  have mono: "sum_list (take i cs) \<le> sum_list (take j cs)" if "i \<le> j" for i j :: nat and cs :: "nat list"
  proof -
    have "take j cs = take i cs @ drop i (take j cs)"
      using append_take_drop_id [of i "take j cs"] that by (simp add: min_absorb1)
    then show ?thesis by (metis le_add1 sum_list_append)
  qed
  show "length (csrOffsets bs n) = n + 1" "csrOffsets bs n ! n = length bs"
    using c by (simp_all add: csrOffsets_def running_offsets_nth)
  show "i < n \<Longrightarrow> csrOffsets bs n ! i \<le> csrOffsets bs n ! (i + 1)"
    using c mono [of i "i + 1" "csrOffsets_counts bs n"] by (simp add: csrOffsets_def running_offsets_nth)
  show "i \<le> n \<Longrightarrow> csrOffsets bs n ! i \<le> length bs"
    using c mono [of i n "csrOffsets_counts bs n"] by (simp add: csrOffsets_def running_offsets_nth)
qed

section \<open>Term tables\<close>

text \<open>What makes rows and postings a term table: ascending ids, runs inside the postings.\<close>

definition term_table_ok :: "(nat \<times> nat \<times> nat) list \<Rightarrow> nat list \<Rightarrow> nat \<Rightarrow> bool" where
  "term_table_ok rs out start \<longleftrightarrow> sorted_wrt (<) (map fst rs)
     \<and> (\<forall>(t, s, c) \<in> set rs. start \<le> s \<and> s + c \<le> start + length out)"

lemma emit_terms_map: "map fst (fst (emit_terms f start ts)) = ts"
  by (induction ts arbitrary: start) (auto simp: Let_def)

lemma emit_terms_runs:
  "\<forall>(t, s, c) \<in> set (fst (emit_terms f start ts)). start \<le> s \<and> s + c \<le> start + length (snd (emit_terms f start ts))"
proof (induction ts arbitrary: start)
  case (Cons t ts)
  from Cons.IH [of "start + length (f t)"] show ?case by (fastforce simp: Let_def)
qed simp

lemma emit_terms_postings: "set (snd (emit_terms f start ts)) = (\<Union>t \<in> set ts. set (f t))"
  by (induction ts arbitrary: start) (auto simp: Let_def)

lemma group_push_set:
  "fst ` set (group_push t n g) = insert t (fst ` set g)"
  "\<Union> (set ` snd ` set (group_push t n g)) = insert n (\<Union> (set ` snd ` set g))"
  by (induction t n g rule: group_push.induct) auto

lemma group_push_distinct: "distinct (map fst g) \<Longrightarrow> distinct (map fst (group_push t n g))"
proof (induction t n g rule: group_push.induct)
  case (2 termId node t bucket grouped)
  then show ?case using group_push_set(1) [of termId node grouped] by auto
qed simp

lemma group_entries_facts:
  "distinct (map fst g) \<Longrightarrow> distinct (map fst (group_entries g es))
     \<and> fst ` set (group_entries g es) = fst ` set g \<union> fst ` set es
     \<and> \<Union> (set ` snd ` set (group_entries g es)) = \<Union> (set ` snd ` set g) \<union> snd ` set es"
proof (induction g es rule: group_entries.induct)
  case (2 g t n es)
  then have "distinct (map fst (group_push t n g))" by (simp add: group_push_distinct)
  from "2.IH" [OF this] show ?case
    unfolding group_entries.simps group_push_set by auto
qed simp

lemma term_table_correct:
  fixes es :: "(nat \<times> nat) list"
  obtains rs out where "termTable es = \<lparr>ls_table = concat (map term_row_bytes rs),
      ls_postings = u32Section out, ls_termCount = length rs, ls_postingCount = length out\<rparr>"
    "term_table_ok rs out 0" "set (map fst rs) = fst ` set es" "set out \<subseteq> snd ` set es"
proof -
  let ?g = "group_entries [] es"
  let ?ts = "sort (map fst ?g)"
  let ?f = "\<lambda>t. the (map_of ?g t)"
  let ?o = "emit_terms ?f 0 ?ts"
  have g: "distinct (map fst ?g)" "fst ` set ?g = fst ` set es" "\<Union> (set ` snd ` set ?g) = snd ` set es"
    using group_entries_facts [of "[]" es] by simp_all
  have m: "map fst (fst ?o) = ?ts" by (rule emit_terms_map)
  have "set (?f t) \<subseteq> snd ` set es" if t: "t \<in> set ?ts" for t
  proof -
    from t g(1) obtain ns where ns: "(t, ns) \<in> set ?g" "map_of ?g t = Some ns" by auto
    then have "set ns \<subseteq> \<Union> (set ` snd ` set ?g)" by force
    with ns(2) g(3) show ?thesis by simp
  qed
  then have "set (snd ?o) \<subseteq> snd ` set es" unfolding emit_terms_postings by blast
  moreover have "term_table_ok (fst ?o) (snd ?o) 0"
    using emit_terms_runs [of ?f 0 ?ts] g(1) m by (auto simp: term_table_ok_def strict_sorted_iff)
  moreover have "length ?ts = length (fst ?o)" using m by (metis length_map)
  ultimately show thesis
    using g(2) m by (intro that [of "fst ?o" "snd ?o"]) (simp_all add: termTable_def Let_def)
qed

lemma lane_run_correct:
  assumes "lane_run ps n pos row = Inr run"
  shows "length run = tr_postingCount row \<and> (\<forall>node \<in> set run. node < n)"
proof -
  from assms have l: "length run = tr_postingCount row"
    and r: "\<forall>i < tr_postingCount row. tr_postingOffset row + i < length ps
      \<and> ps ! (tr_postingOffset row + i) < n \<and> run ! i = ps ! (tr_postingOffset row + i)"
    unfolding lane_run_def map_res_Inr_iff Let_def by (auto simp: not_le split: if_splits)
  then show ?thesis by (auto simp: in_set_conv_nth)
qed

lemma lane_rows_correct:
  assumes "lane_rows idOf ps n prev pos start rows = Inr (rs, out)"
  shows "length rs = length rows
     \<and> (\<forall>p t. prev = Some p \<longrightarrow> t \<in> set (map fst rs) \<longrightarrow> p < t)
     \<and> sorted_wrt (<) (map fst rs) \<and> (\<forall>(t, s, c) \<in> set rs. start \<le> s \<and> s + c \<le> start + length out)
     \<and> (\<forall>t \<in> set (map fst rs). \<exists>v. idOf v = Inr t) \<and> (\<forall>node \<in> set out. node < n)"
  using assms
proof (induction idOf ps n prev pos start rows arbitrary: rs out rule: lane_rows.induct)
  case (2 idOf ps n prev pos start row rows)
  from "2.prems" obtain t run rs' out' where t: "idOf (tr_term row) = Inr t"
    and c: "\<not> (case prev of None \<Rightarrow> False | Some p \<Rightarrow> t \<le> p)"
    and run: "lane_run ps n pos row = Inr run"
    and rest: "lane_rows idOf ps n (Some t) (pos + 1) (start + length run) rows = Inr (rs', out')"
    and eq: "rs = (t, start, tr_postingCount row) # rs'" "out = run @ out'"
    unfolding lane_rows.simps by (auto simp del: lane_rows.simps split: if_splits)
  have p: "\<forall>p. prev = Some p \<longrightarrow> p < t" using c by (cases prev) simp_all
  note r = lane_run_correct [OF run]
  note ih = "2.IH" [OF t c run rest]
  have first: "\<forall>u \<in> set (map fst rs'). t < u" and asc: "sorted_wrt (<) (map fst rs')"
    and runs: "\<forall>(t, s, c) \<in> set rs'. start + length run \<le> s \<and> s + c \<le> start + length run + length out'"
    and ids: "\<forall>t \<in> set (map fst rs'). \<exists>v. idOf v = Inr t" and out: "\<forall>node \<in> set out'. node < n"
    and len: "length rs' = length rows"
    using ih by simp_all
  show ?case
  proof (intro conjI)
    show "length rs = length (row # rows)" using len eq by simp
    show "\<forall>q u. prev = Some q \<longrightarrow> u \<in> set (map fst rs) \<longrightarrow> q < u"
      using p first eq by (auto intro: less_trans)
    show "sorted_wrt (<) (map fst rs)" using first asc eq by simp
    show "\<forall>(t, s, c) \<in> set rs. start \<le> s \<and> s + c \<le> start + length out"
      using runs r eq by fastforce
    show "\<forall>t \<in> set (map fst rs). \<exists>v. idOf v = Inr t" using ids t eq by auto
    show "\<forall>node \<in> set out. node < n" using out r eq by auto
  qed
qed simp

end
