(* ===== verification/Writer_Sections.thy ===== *)
theory Writer_Sections
  imports Writer_Tables_Correct
begin

text \<open>
  Each section the encoder emits satisfies the reader's contract for it. \<open>holds bs d pl n\<close>
  says that the file \<open>bs\<close> has the payload \<open>pl\<close> with \<open>n\<close> rows at descriptor \<open>d\<close>; the
  contracts are then statements about the payload alone.
\<close>

section \<open>A payload at its place\<close>

definition holds :: "bytes \<Rightarrow> SectionDescriptor \<Rightarrow> bytes \<Rightarrow> nat \<Rightarrow> bool" where
  "holds bs d pl n \<longleftrightarrow> bslice bs (sd_offset d) (sd_end d) = pl \<and> sd_end d \<le> length bs
     \<and> sd_length d = length pl \<and> sd_count d = n"

lemma holds_le_at:
  "holds bs d pl n \<Longrightarrow> pos + w \<le> length pl \<Longrightarrow> le_at w bs (sd_offset d + pos) = le_at w pl pos"
  using le_at_bslice [of "sd_offset d" pos w "sd_end d" bs] by (auto simp: holds_def sd_end_def)

lemma rows_fit: "\<forall>r \<in> set rs. length r = stride \<Longrightarrow> i < length rs \<Longrightarrow> fld + w \<le> stride \<Longrightarrow>
    i * stride + fld + w \<le> length (concat rs)"
  using row_in_range [of i "length rs" fld w stride] length_concat_stride [of rs stride] by simp

lemma holds_row:
  assumes "holds bs d (concat rs) (length rs)" "\<forall>r \<in> set rs. length r = stride" "i < length rs" "fld + w \<le> stride"
  shows "row_at w bs d stride i fld = le_at w (rs ! i) fld"
  unfolding row_at_def using holds_le_at [OF assms(1) rows_fit [OF assms(2-4)]]
    le_at_concat_stride [OF assms(2-4)] by simp

lemma holds_refs:
  assumes "holds bs d (concat rs) (length rs)" "\<forall>r \<in> set rs. length r = stride" "fld + 4 \<le> stride"
    and "\<forall>r \<in> set rs. le_at 4 r fld < limit"
  shows "references_ok bs d stride fld limit"
proof -
  have "i * stride + fld + 4 \<le> sd_length d \<and> u32_at bs (sd_offset d + i * stride + fld) < limit"
    if i: "i < length rs" for i
    using holds_row [OF assms(1,2) i assms(3)] rows_fit [OF assms(2) i assms(3)] assms i
    by (simp add: row_at_def holds_def add.assoc)
  then show ?thesis
    using assms(1) length_concat_stride [OF assms(2)] by (simp add: references_ok_def holds_def)
qed

lemma holds_exact_rows:
  "holds bs d (concat rs) (length rs) \<Longrightarrow> \<forall>r \<in> set rs. length r = stride \<Longrightarrow> exact_rows d stride"
  using length_concat_stride [of rs stride] by (simp add: exact_rows_def holds_def)

text \<open>Sections of plain 32-bit numbers.\<close>

lemma holds_u32:
  "holds bs d (u32Section vs) (length vs) \<Longrightarrow> i < length vs \<Longrightarrow> u32_row bs d i = vs ! i mod 2 ^ 32"
  using holds_le_at [of bs d "u32Section vs" "length vs" "i * 4" 4] by (simp add: u32_row_def u32Section_nth)

lemma holds_u32_refs:
  assumes "holds bs d (u32Section vs) (length vs)" "\<forall>v \<in> set vs. v < limit" "limit \<le> 2 ^ 32"
  shows "references_ok bs d 4 0 limit"
proof (rule holds_refs [of bs d "map (put_le 4) vs"])
  show "\<forall>r \<in> set (map (put_le 4) vs). u32_at r 0 < limit"
    using assms(2,3) by (auto simp: le_at_put_le intro: order.strict_trans1 [OF mod_less_eq_dividend])
qed (use assms(1) in \<open>simp_all add: u32Section_def\<close>)

lemma holds_u32_exact: "holds bs d (u32Section vs) (length vs) \<Longrightarrow> exact_rows d 4"
  by (simp add: exact_rows_def holds_def)

section \<open>Strings\<close>

lemma length_concat_take: "length (concat (take k xs)) \<le> length (concat xs)"
  by (metis append_take_drop_id concat_append le_add1 length_append)

text \<open>The ends of the strings in a written table, and the size of its section.\<close>

lemma string_section_ends:
  assumes h: "holds bs d (concat (map (put_le 4) (running_ends 0 bl)) @ concat bl) (length bl)"
    and small: "sd_length d \<le> 2 ^ 32"
  shows "i < length bl \<Longrightarrow> u32_row bs d i = length (concat (take (Suc i) bl))"
    "i \<le> length bl \<Longrightarrow> string_start bs d i = length (concat (take i bl))"
    "sd_length d = 4 * length bl + length (concat bl)"
proof -
  let ?idx = "concat (map (put_le 4) (running_ends 0 bl))"
  have idx: "?idx = u32Section (running_ends 0 bl)" by (simp add: u32Section_def)
  show len: "sd_length d = 4 * length bl + length (concat bl)" using h by (simp add: holds_def idx)
  have "length (concat (take (Suc i) bl)) < 2 ^ 32" if "i < length bl" for i
    using length_concat_take [of "Suc i" bl] len small that by linarith
  then have ends: "u32_row bs d i = length (concat (take (Suc i) bl))" if "i < length bl" for i
    using holds_le_at [OF h, of "i * 4" 4] that
    by (simp add: u32_row_def idx byte_simps u32Section_nth running_ends_nth)
  then show "i < length bl \<Longrightarrow> u32_row bs d i = length (concat (take (Suc i) bl))" .
  show "string_start bs d i = length (concat (take i bl))" if "i \<le> length bl"
    using that ends by (cases i) (auto simp: string_start_def)
qed

lemma string_section_ok:
  assumes h: "holds bs d (concat (map (put_le 4) (running_ends 0 bl)) @ concat bl) (length bl)"
    and bl: "bl = map text_encode ss" and small: "sd_length d \<le> 2 ^ 32"
  shows "string_table_ok bs d"
proof -
  let ?n = "length bl"
  note rows = string_section_ends [OF h small]
  have mono: "length (concat (take i bl)) \<le> length (concat (take (Suc i) bl))" if "i < ?n" for i
    using that by (simp add: take_Suc_conv_app_nth)
  have cnt: "sd_count d = ?n" "sd_end d \<le> length bs" using h by (simp_all add: holds_def)
  have "string_blob bs d = concat bl"
  proof -
    have "sd_offset d + sd_count d * 4 + string_start bs d (sd_count d) = sd_end d"
      using rows(3) cnt rows(2) [of ?n] by (simp add: sd_end_def)
    then have "string_blob bs d = drop (4 * ?n) (bslice bs (sd_offset d) (sd_end d))"
      unfolding string_blob_def using cnt by (simp add: bslice_def drop_take ac_simps)
    also have "\<dots> = concat bl" using h length_u32Section [of "running_ends 0 bl"] by (simp add: holds_def u32Section_def)
    finally show ?thesis .
  qed
  then have "isl (text_decode (string_blob bs d)) = False" using bl decode_blobs by simp
  then show ?thesis
    using rows cnt mono length_concat_take [of _ bl] by (simp add: string_table_ok_def)
qed

text \<open>Each string is the bytes between two ends.\<close>

lemma string_section_blob:
  assumes h: "holds bs d (concat (map (put_le 4) (running_ends 0 bl)) @ concat bl) (length bl)"
    and i: "i < length bl"
  shows "bslice bs (sd_offset d + length bl * 4 + length (concat (take i bl)))
      (sd_offset d + length bl * 4 + length (concat (take (Suc i) bl))) = bl ! i"
proof -
  let ?idx = "concat (map (put_le 4) (running_ends 0 bl))"
  have idx: "length ?idx = length bl * 4" using length_u32Section [of "running_ends 0 bl"] by (simp add: u32Section_def)
  have split: "concat bl = concat (take i bl) @ bl ! i @ concat (drop (Suc i) bl)"
    by (subst (1) id_take_nth_drop [OF i]) simp
  have next_end: "length (concat (take (Suc i) bl)) = length (concat (take i bl)) + length (bl ! i)"
    using i by (simp add: take_Suc_conv_app_nth)
  have "bslice bs (sd_offset d + a) (sd_offset d + b) = bslice (?idx @ concat bl) a b"
    if "b \<le> length (?idx @ concat bl)" for a b
  proof -
    have "take (sd_length d) (drop (sd_offset d) bs) = ?idx @ concat bl"
      using h unfolding holds_def bslice_def sd_end_def add_diff_cancel_left' by blast
    moreover have "b - a \<le> sd_length d - a" using that h by (simp add: holds_def diff_le_mono)
    ultimately show ?thesis
      by (simp only: bslice_def flip: \<open>take (sd_length d) (drop (sd_offset d) bs) = ?idx @ concat bl\<close>)
        (simp add: drop_take min_def ac_simps)
  qed
  from this [of "length ?idx + length (concat (take (Suc i) bl))" "length ?idx + length (concat (take i bl))"]
  have "bslice bs (sd_offset d + (length bl * 4 + length (concat (take i bl))))
      (sd_offset d + (length bl * 4 + length (concat (take (Suc i) bl))))
    = bslice (?idx @ concat bl) (length bl * 4 + length (concat (take i bl))) (length bl * 4 + length (concat (take (Suc i) bl)))"
    using length_concat_take [of "Suc i" bl] by (simp add: idx)
  also have "\<dots> = bl ! i" by (simp add: bslice_def idx next_end split)
  finally show ?thesis by (simp add: add.assoc)
qed

section \<open>CSR\<close>

lemma csr_section_ok:
  assumes off: "holds bs o' (u32Section (csrOffsets bks n)) (length (csrOffsets bks n))"
    and edges: "sd_count e = length bks" and range: "\<forall>b \<in> set bks. b < n" and small: "length bks < 2 ^ 32"
  shows "csr_ok bs o' e n"
proof -
  note shape = csr_offsets_shape [OF range]
  have row: "u32_row bs o' i = csrOffsets bks n ! i" if "i \<le> n" for i
    using holds_u32 [OF off, of i] shape(1) shape(4) [OF that] small that by simp
  show ?thesis
    using off edges shape row by (simp add: csr_ok_def holds_def)
qed

section \<open>Term tables\<close>

lemma lane_section_ok:
  assumes t: "holds bs t (concat (map term_row_bytes rs)) (length rs)"
    and p: "holds bs p (u32Section out) (length out)" and ok: "term_table_ok rs out 0"
    and ids: "\<forall>i \<in> set (map fst rs). i < ss" and nodes: "\<forall>v \<in> set out. v < ns"
    and small: "ss \<le> 2 ^ 32" "ns \<le> 2 ^ 32" "length out < 2 ^ 32"
  shows "lane_ok bs t p ss ns" "exact_rows t 12" "exact_rows p 4"
proof -
  have len: "\<forall>r \<in> set (map term_row_bytes rs). length r = 12"
    by (auto simp: term_row_bytes_def)
  have t': "holds bs t (concat (map term_row_bytes rs)) (length (map term_row_bytes rs))" using t by simp
  have f: "le_at 4 (term_row_bytes (i, s, c)) 0 = i mod 2 ^ 32"
    "le_at 4 (term_row_bytes (i, s, c)) 4 = s mod 2 ^ 32" "le_at 4 (term_row_bytes (i, s, c)) 8 = c mod 2 ^ 32"
    for i s c by (simp_all add: term_row_bytes_def byte_simps)
  have row: "row_at 4 bs t 12 i 0 = fst (rs ! i) \<and> row_at 4 bs t 12 i 4 = fst (snd (rs ! i))
      \<and> row_at 4 bs t 12 i 8 = snd (snd (rs ! i))" if i: "i < length rs" for i
  proof -
    obtain a s c where r: "rs ! i = (a, s, c)" by (cases "rs ! i")
    then have "(a, s, c) \<in> set rs" using i nth_mem [OF i] by simp
    moreover from this have "a < 2 ^ 32" using ids small by force
    moreover from \<open>(a, s, c) \<in> set rs\<close> have "s + c \<le> length out" using ok by (auto simp: term_table_ok_def)
    ultimately show ?thesis
      using holds_row [OF t' len, of i _ 4] i r f [of a s c] small(3) by simp
  qed
  have "references_ok bs t 12 0 ss"
  proof (rule holds_refs [OF t' len])
    show "\<forall>r \<in> set (map term_row_bytes rs). u32_at r 0 < ss"
      using ids f(1) by (fastforce intro: order.strict_trans1 [OF mod_less_eq_dividend])
  qed simp
  moreover have "references_ok bs p 4 0 ns" by (rule holds_u32_refs [OF p nodes small(2)])
  moreover have "term_rows_ok bs t p"
  proof -
    have "fst (rs ! i) < fst (rs ! Suc i)" if "Suc i < length rs" for i
      using ok that sorted_wrt_nth_less [of "(<)" "map fst rs" i "Suc i"] by (simp add: term_table_ok_def)
    moreover have "fst (snd (rs ! i)) + snd (snd (rs ! i)) \<le> length out" if "i < length rs" for i
      using ok nth_mem [OF that] by (fastforce simp: term_table_ok_def)
    ultimately show ?thesis
      using row t p by (simp add: term_rows_ok_def holds_def)
  qed
  ultimately show "lane_ok bs t p ss ns" by (simp add: lane_ok_def)
  show "exact_rows t 12" by (rule holds_exact_rows [OF t' len])
  show "exact_rows p 4" by (rule holds_u32_exact [OF p])
qed

end
