(* ===== verification/Writer_Rows.thy ===== *)
theory Writer_Rows
  imports Writer_Sections
begin

text \<open>
  The rows the encoder computes from a snapshot: indexes of nodes, edge rows with their
  provenance, node rows, and metadata rows in the order the reader demands.
\<close>

section \<open>Node indexes\<close>

lemma index_nodes_facts:
  assumes "index_nodes k m ids = Inr m'" and "\<forall>i j. m i = Some j \<longrightarrow> j < k"
  shows "distinct ids \<and> set ids \<inter> dom m = {} \<and> (\<forall>i j. m' i = Some j \<longrightarrow> j < k + length ids)
     \<and> (\<forall>p < length ids. m' (ids ! p) = Some (k + p)) \<and> (\<forall>i. i \<notin> set ids \<longrightarrow> m' i = m i)"
  using assms
proof (induction k m ids rule: index_nodes.induct)
  case (2 k m nid ids)
  then have new: "m nid = None" and rest: "index_nodes (k + 1) (m(nid \<mapsto> k)) ids = Inr m'"
    by (auto split: if_splits)
  have "\<forall>i j. (m(nid \<mapsto> k)) i = Some j \<longrightarrow> j < k + 1" using "2.prems"(2) by (auto simp: less_Suc_eq)
  from "2.IH" [OF _ rest this] new
  have ih: "distinct ids" "set ids \<inter> dom (m(nid \<mapsto> k)) = {}" "\<forall>i j. m' i = Some j \<longrightarrow> j < k + 1 + length ids"
    "\<forall>p < length ids. m' (ids ! p) = Some (k + 1 + p)" "\<forall>i. i \<notin> set ids \<longrightarrow> m' i = (m(nid \<mapsto> k)) i"
    by (simp_all del: fun_upd_apply)
  from ih(2) have "nid \<notin> set ids" "set ids \<inter> dom m = {}" by auto
  with ih new show ?case by (auto simp: all_less_Suc)
qed auto

section \<open>Edges\<close>

definition graph_ok :: "(js_string \<rightharpoonup> nat) \<Rightarrow> ContextGraphEdge list \<Rightarrow> nat \<Rightarrow> bool" where
  "graph_ok nix edges n \<longleftrightarrow> (\<forall>i j. nix i = Some j \<longrightarrow> j < n)
     \<and> (\<forall>e \<in> set edges. nix (e_from e) \<noteq> None \<and> nix (e_to e) \<noteq> None)"

lemma intern_graph_edges:
  assumes "intern_graph toString nix nodes edges = Inr s" "e \<in> set edges"
  shows "nix (e_from e) \<noteq> None \<and> nix (e_to e) \<noteq> None
     \<and> isWorkspaceRelativePosixPath (p_path (e_provenance e))"
proof -
  from assms(1) obtain s1 where "fold_res (intern_edge nix) edges s1 = Inr s"
    by (auto simp: intern_graph_def)
  from fold_res_each [OF this assms(2)] show ?thesis
    by (auto simp: intern_edge_def split: if_splits)
qed

lemma intern_graph_nodes:
  assumes "intern_graph toString nix nodes edges = Inr s" "node \<in> set nodes" "n_path node = Some p"
  shows "isWorkspaceRelativePosixPath p"
proof -
  from assms(1) obtain s1 where "fold_res (intern_node toString nix) nodes new_interner = Inr s1"
    by (auto simp: intern_graph_def)
  from fold_res_each [OF this assms(2)] assms(3) show ?thesis
    by (auto simp: intern_node_def Let_def split: if_splits)
qed

lemma order_edges_facts:
  assumes "graph_ok nix edges n"
  shows "length (order_edges nix edges) = length edges"
    "\<forall>e \<in> set (order_edges nix edges). oe_from e < n \<and> oe_to e < n"
  using assms by (auto simp: order_edges_def graph_ok_def)

definition provenance_row_ok :: "nat \<Rightarrow> ProvenanceRow \<Rightarrow> bool" where
  "provenance_row_ok ss r \<longleftrightarrow> pr_pathId r < ss \<and> pr_hashId r < ss \<and> pr_extractorId r < ss"

definition pix_ok :: "nat \<Rightarrow> provenance_index \<Rightarrow> bool" where
  "pix_ok ss pix \<longleftrightarrow> (\<forall>r j. pi_index pix r = Some j \<longrightarrow> j < length (pi_rows pix))
     \<and> list_all (provenance_row_ok ss) (pi_rows pix)"

lemma provenanceIdFor_ok:
  assumes "pix_ok ss pix" "provenance_row_ok ss row" "provenanceIdFor row pix = (i, pix')"
  shows "pix_ok ss pix' \<and> i < length (pi_rows pix')
     \<and> length (pi_rows pix) \<le> length (pi_rows pix') \<and> length (pi_rows pix') \<le> length (pi_rows pix) + 1"
  using assms by (auto simp: provenanceIdFor_def pix_ok_def Let_def less_Suc_eq split: option.splits if_splits)

lemma provenance_row_of_ok:
  "sealed_ok s \<Longrightarrow> provenance_row_of s p = Inr row \<Longrightarrow> provenance_row_ok (length (si_table s)) row"
  by (auto simp: provenance_row_of_def provenance_row_ok_def idOf_iff)

definition edge_row_ok :: "nat \<Rightarrow> nat \<Rightarrow> bytes \<Rightarrow> bool" where
  "edge_row_ok n ps r \<longleftrightarrow> length r = 16 \<and> le_at 4 r 0 < n \<and> le_at 4 r 8 < ps \<and> le_at 1 r 4 < 21 \<and> le_at 1 r 5 < 5"

lemma edge_codes:
  "the (EDGE_TYPE_CODE t) < 21" "the (CONFIDENCE_CODE c) < 5"
  using code_map_bound [OF edge_types_cover, of t] code_map_bound [OF confidence_cover, of c]
  by (simp_all add: EDGE_TYPE_CODE_def CONFIDENCE_CODE_def code_table_lengths)

lemma edge_row_fields:
  "to < n \<Longrightarrow> t < 21 \<Longrightarrow> c < 5 \<Longrightarrow> p < ps \<Longrightarrow> n \<le> 2 ^ 32 \<Longrightarrow> ps \<le> 2 ^ 32 \<Longrightarrow>
     edge_row_ok n ps (edge_row_bytes to t c p)"
  by (simp add: edge_row_ok_def edge_row_bytes_def byte_simps del: One_nat_def put_le.simps)

lemma edge_row_mono: "edge_row_ok n ps r \<Longrightarrow> ps \<le> ps' \<Longrightarrow> edge_row_ok n ps' r"
  by (auto simp: edge_row_ok_def)

lemma write_edges_ok:
  assumes "write_edges s es pix = Inr (rs, pix')" "sealed_ok s" "pix_ok (length (si_table s)) pix"
    and "\<forall>e \<in> set es. oe_to e < n" "n \<le> 2 ^ 32" "length (pi_rows pix) + length es \<le> 2 ^ 32"
  shows "length rs = length es \<and> pix_ok (length (si_table s)) pix'
     \<and> length (pi_rows pix) \<le> length (pi_rows pix')
     \<and> length (pi_rows pix') \<le> length (pi_rows pix) + length es
     \<and> list_all (edge_row_ok n (length (pi_rows pix'))) rs"
  using assms
proof (induction es arbitrary: pix rs pix')
  case (Cons e es)
  from Cons.prems(1) obtain row where row: "provenance_row_of s (e_provenance (oe_edge e)) = Inr row"
    by (cases "provenance_row_of s (e_provenance (oe_edge e))") auto
  obtain prov pix1 where prov: "provenanceIdFor row pix = (prov, pix1)" by fastforce
  from Cons.prems(1) row prov obtain rs' where rest: "write_edges s es pix1 = Inr (rs', pix')"
    and rs: "rs = edge_row_bytes (oe_to e) (the (EDGE_TYPE_CODE (e_type (oe_edge e))))
           (the (CONFIDENCE_CODE (e_confidence (oe_edge e)))) prov # rs'"
    by auto
  note p = provenanceIdFor_ok [OF Cons.prems(3) provenance_row_of_ok [OF Cons.prems(2) row] prov]
  from Cons.IH [OF rest Cons.prems(2)] p Cons.prems(4-6)
  have ih: "length rs' = length es" "pix_ok (length (si_table s)) pix'"
     "length (pi_rows pix1) \<le> length (pi_rows pix')"
     "length (pi_rows pix') \<le> length (pi_rows pix1) + length es"
     "list_all (edge_row_ok n (length (pi_rows pix'))) rs'" by simp_all
  have "edge_row_ok n (length (pi_rows pix')) (edge_row_bytes (oe_to e) (the (EDGE_TYPE_CODE (e_type (oe_edge e))))
           (the (CONFIDENCE_CODE (e_confidence (oe_edge e)))) prov)"
    using p ih Cons.prems by (intro edge_row_fields edge_codes) auto
  with ih p rs show ?case by simp
qed simp

section \<open>Nodes\<close>

definition node_row_ok :: "nat \<Rightarrow> nat \<Rightarrow> bytes \<Rightarrow> bool" where
  "node_row_ok ss i r \<longleftrightarrow> length r = 40 \<and> le_at 4 r 12 < ss \<and> le_at 4 r 36 < ss \<and> le_at 4 r 32 = i
     \<and> le_at 1 r 0 < 14 \<and> le_at 1 r 1 < 3 \<and> le_at 1 r 2 < 4
     \<and> optional_reference (le_at 4 r 16) ss \<and> optional_reference (le_at 4 r 28) ss"

lemma node_codes:
  "the (NODE_KIND_CODE k) < 14" "the (FRESHNESS_CODE f) < 3" "the (RISK_CODE r) < 4"
  using code_map_bound [OF node_kinds_cover, of k] code_map_bound [OF freshness_cover, of f]
    code_map_bound [OF risk_cover, of r]
  by (simp_all add: NODE_KIND_CODE_def FRESHNESS_CODE_def RISK_CODE_def code_table_lengths)

lemma optional_mod:
  "i = CONTEXT_INDEX_NO_VALUE \<or> i < ss \<Longrightarrow> ss \<le> 2 ^ 32 \<Longrightarrow> optional_reference (i mod 2 ^ 32) ss"
  by (auto simp: optional_reference_def CONTEXT_INDEX_NO_VALUE_def)

lemma node_row_fields:
  fixes head mid :: bytes
  assumes "label < ss" "nid < ss" "i < 2 ^ 32" "k < 14" "f < 3" "r < 4" "ss \<le> 2 ^ 32"
    "path = CONTEXT_INDEX_NO_VALUE \<or> path < ss" "hash = CONTEXT_INDEX_NO_VALUE \<or> hash < ss"
  shows "node_row_ok ss i (put_le 1 k @ put_le 1 f @ put_le 1 r @ put_le 1 fl @ put_le 2 t @ put_le 2 0
     @ put_le 4 c @ put_le 4 label @ put_le 4 path @ put_le 4 l1 @ put_le 4 l2
     @ put_le 4 hash @ put_le 4 i @ put_le 4 nid)"
  using assms optional_mod [OF assms(8,7)] optional_mod [OF assms(9,7)]
  by (simp add: node_row_ok_def byte_simps del: One_nat_def put_le.simps)

lemma node_row_correct:
  assumes "node_row s prot inval node i = Inr r" "sealed_ok s" "i < 2 ^ 32" "length (si_table s) \<le> 2 ^ 32"
  shows "node_row_ok (length (si_table s)) i r"
proof -
  from assms(1) obtain label path hash nid where ids: "interner_idOf s (n_label node) = Inr label"
    "interner_idOrSentinel s (n_path node) = Inr path"
    "interner_idOrSentinel s (n_contentHash node) = Inr hash" "interner_idOf s (n_id node) = Inr nid"
    and r: "r = put_le 1 (the (NODE_KIND_CODE (n_kind node)))
       @ put_le 1 (the (FRESHNESS_CODE (n_freshness node)))
       @ put_le 1 (the (RISK_CODE (n_risk node)))
       @ put_le 1 (nodeFlags node prot inval) @ put_le 2 (nat (quantizeTrust (finite_number (n_trust node)))) @ put_le 2 0
       @ put_le 4 (token_cost_u32 (n_tokenCost node))
       @ put_le 4 label @ put_le 4 path
       @ put_le 4 (locator_u32 (Option.bind (n_locator node) loc_line))
       @ put_le 4 (locator_u32 (Option.bind (n_locator node) loc_column))
       @ put_le 4 hash @ put_le 4 i @ put_le 4 nid"
    unfolding node_row_def by auto
  show ?thesis
    unfolding r using assms(2-4) ids
    by (intro node_row_fields node_codes idOrSentinel_cases) (simp_all add: idOf_iff)
qed

section \<open>Metadata rows\<close>

type_synonym meta_place = "nat \<times> nat \<times> nat"

definition place :: "MetadataRow \<Rightarrow> meta_place" where
  "place r = (mr_node r, mr_key r, mr_ordinal r)"

text \<open>
  A set of metadata rows is dense when places are unique and every later row of an entry is
  an array element preceded by one.
\<close>

definition dense :: "MetadataRow set \<Rightarrow> bool" where
  "dense R \<longleftrightarrow> inj_on place R \<and> (\<forall>r \<in> R. \<forall>m. mr_ordinal r = Suc m \<longrightarrow> mr_type r = TYPE_ARRAY_ELEMENT
     \<and> (\<exists>q \<in> R. place q = (mr_node r, mr_key r, m) \<and> mr_type q = TYPE_ARRAY_ELEMENT))"

definition row_key :: "MetadataRow \<Rightarrow> metadata_key" where
  "row_key r = \<lparr>mk_node = mr_node r, mk_key = mr_key r, mk_type = mr_type r, mk_ordinal = mr_ordinal r\<rparr>"

definition sort_tuple :: "MetadataRow \<Rightarrow> nat \<times> nat \<times> nat \<times> nat \<times> nat" where
  "sort_tuple r = (mr_node r, mr_key r, mr_ordinal r, mr_type r, mr_value r)"

lemma place_less: "place q < place r \<Longrightarrow> sort_tuple q < sort_tuple r"
  by (auto simp: place_def sort_tuple_def less_prod_def)

lemma metadata_sort_facts:
  "set (metadata_sort rs) = set rs" "length (metadata_sort rs) = length rs"
  "sorted (map sort_tuple (metadata_sort rs))"
  by (simp_all add: metadata_sort_def sort_tuple_def [abs_def])

lemma sorted_dense:
  assumes "dense (set rs)" "distinct (map place rs)"
  defines "ts \<equiv> metadata_sort rs"
  shows "(ts \<noteq> [] \<longrightarrow> mr_ordinal (ts ! 0) = 0)
     \<and> (\<forall>i. Suc i < length ts \<longrightarrow> metadata_follows (row_key (ts ! i)) (row_key (ts ! Suc i)))"
proof -
  have set: "set ts = set rs" and srt: "sorted (map sort_tuple ts)"
    by (simp_all add: ts_def metadata_sort_facts)
  have "mset (map place ts) = mset (map place rs)" by (simp add: ts_def metadata_sort_def)
  with assms(2) have dist: "distinct (map place ts)" by (metis mset_eq_imp_distinct_iff)
  have less: "place (ts ! i) < place (ts ! j)" if "i < j" "j < length ts" for i j
  proof -
    have ne: "place (ts ! i) \<noteq> place (ts ! j)"
      using dist that by (simp add: distinct_conv_nth)
    moreover have "\<not> place (ts ! j) < place (ts ! i)"
    proof
      assume "place (ts ! j) < place (ts ! i)"
      then have "sort_tuple (ts ! j) < sort_tuple (ts ! i)" by (rule place_less)
      moreover have "sort_tuple (ts ! i) \<le> sort_tuple (ts ! j)"
        using srt that by (simp add: sorted_iff_nth_mono_less)
      ultimately show False by simp
    qed
    ultimately show ?thesis by (metis linorder_neqE)
  qed
  have pred: "\<exists>h < j. place (ts ! h) = (mr_node (ts ! j), mr_key (ts ! j), m)
      \<and> mr_type (ts ! h) = TYPE_ARRAY_ELEMENT \<and> mr_type (ts ! j) = TYPE_ARRAY_ELEMENT"
    if j: "j < length ts" and m: "mr_ordinal (ts ! j) = Suc m" for j m
  proof -
    from assms(1) nth_mem [OF j] m set obtain q where q: "q \<in> set ts"
      "place q = (mr_node (ts ! j), mr_key (ts ! j), m)" "mr_type q = TYPE_ARRAY_ELEMENT"
      "mr_type (ts ! j) = TYPE_ARRAY_ELEMENT"
      unfolding dense_def by metis
    then obtain h where h: "h < length ts" "ts ! h = q" by (auto simp: in_set_conv_nth)
    have "place q < place (ts ! j)" using q(2) m by (simp add: place_def less_prod_def)
    then have "h < j" using less [of j h] h j by (metis less_asym linorder_neqE_nat order_less_irrefl)
    with q h show ?thesis by blast
  qed
  have "mr_ordinal (ts ! 0) = 0" if "ts \<noteq> []"
    using pred [of 0] that by (cases "mr_ordinal (ts ! 0)") auto
  moreover have "metadata_follows (row_key (ts ! i)) (row_key (ts ! Suc i))" if i: "Suc i < length ts" for i
  proof (cases "mr_ordinal (ts ! Suc i)")
    case 0
    have "place (ts ! i) < place (ts ! Suc i)" using less i by simp
    with 0 show ?thesis by (auto simp: metadata_follows_def row_key_def place_def less_prod_def)
  next
    case (Suc m)
    from pred [OF i Suc] obtain h where h: "h \<le> i" "place (ts ! h) = (mr_node (ts ! Suc i), mr_key (ts ! Suc i), m)"
      and t: "mr_type (ts ! h) = TYPE_ARRAY_ELEMENT" "mr_type (ts ! Suc i) = TYPE_ARRAY_ELEMENT"
      by (auto simp: less_Suc_eq_le)
    have "\<not> h < i"
    proof
      assume "h < i"
      then have "place (ts ! h) < place (ts ! i)" "place (ts ! i) < place (ts ! Suc i)" using less i by simp_all
      then show False using h(2) Suc by (auto simp: place_def less_prod_def)
    qed
    with h have "h = i" by simp
    with h(2) t Suc show ?thesis by (simp add: metadata_follows_def row_key_def place_def)
  qed
  ultimately show ?thesis by blast
qed

lemma metadata_row_fields:
  assumes "mr_node r < n" "mr_key r < ss" "mr_value r < ss" "mr_type r < 6" "mr_ordinal r < 65536"
    "n \<le> 2 ^ 32" "ss \<le> 2 ^ 32"
  shows "length (metadata_row_bytes r) = 16" "le_at 4 (metadata_row_bytes r) 0 = mr_node r"
    "le_at 4 (metadata_row_bytes r) 4 = mr_key r" "le_at 4 (metadata_row_bytes r) 8 = mr_value r"
    "le_at 2 (metadata_row_bytes r) 12 = mr_type r" "le_at 2 (metadata_row_bytes r) 14 = mr_ordinal r"
proof -
  have r: "metadata_row_bytes r = put_le 4 (mr_node r) @ put_le 4 (mr_key r) @ put_le 4 (mr_value r)
      @ put_le 2 (mr_type r) @ put_le 2 (mr_ordinal r)"
    by (simp add: metadata_row_bytes_def rows overlay_def)
  show "length (metadata_row_bytes r) = 16" by (simp add: r)
  show "le_at 4 (metadata_row_bytes r) 0 = mr_node r"
    "le_at 4 (metadata_row_bytes r) 4 = mr_key r" "le_at 4 (metadata_row_bytes r) 8 = mr_value r"
    "le_at 2 (metadata_row_bytes r) 12 = mr_type r" "le_at 2 (metadata_row_bytes r) 14 = mr_ordinal r"
    using assms by (simp_all add: r byte_simps del: put_le.simps)
qed

section \<open>The metadata of a snapshot is dense\<close>

definition dense_rows :: "MetadataRow list \<Rightarrow> bool" where
  "dense_rows g \<longleftrightarrow> distinct (map place g) \<and> dense (set g)"

definition metadata_row_ok :: "nat \<Rightarrow> nat \<Rightarrow> MetadataRow \<Rightarrow> bool" where
  "metadata_row_ok n ss r \<longleftrightarrow> mr_node r < n \<and> mr_key r < ss \<and> mr_value r < ss \<and> mr_type r < 6
     \<and> mr_ordinal r < 65536"

lemma dense_rows_Nil [simp]: "dense_rows []"
  by (simp add: dense_rows_def dense_def)

lemma dense_rows_append:
  assumes "dense_rows g" "dense_rows h"
    and apart: "\<And>a b. a \<in> set g \<Longrightarrow> b \<in> set h \<Longrightarrow> (mr_node a, mr_key a) \<noteq> (mr_node b, mr_key b)"
  shows "dense_rows (g @ h)"
proof -
  have "place a \<noteq> place b" if "a \<in> set g" "b \<in> set h" for a b
    using apart [OF that] by (auto simp: place_def)
  then have "place ` set g \<inter> place ` set h = {}" by blast
  with assms(1,2) have d: "distinct (map place (g @ h))" by (simp add: dense_rows_def)
  moreover have "inj_on place (set (g @ h))" using d by (simp only: distinct_map)
  moreover have "mr_type r = TYPE_ARRAY_ELEMENT \<and> (\<exists>q \<in> set (g @ h). place q = (mr_node r, mr_key r, m)
      \<and> mr_type q = TYPE_ARRAY_ELEMENT)" if r: "r \<in> set (g @ h)" "mr_ordinal r = Suc m" for r m
  proof -
    from r(1) consider "r \<in> set g" | "r \<in> set h" by auto
    then show ?thesis
    proof cases
      case 1
      with assms(1) r(2) show ?thesis by (fastforce simp: dense_rows_def dense_def)
    next
      case 2
      with assms(2) r(2) show ?thesis by (fastforce simp: dense_rows_def dense_def)
    qed
  qed
  ultimately show ?thesis unfolding dense_rows_def dense_def by blast
qed

lemma cells_facts:
  assumes "contextIndexMetadataCells toString v = Inr cells"
  shows "(\<forall>j < length cells. cell_ordinal (cells ! j) = j \<and> cell_type (cells ! j) < 6
       \<and> (1 < length cells \<longrightarrow> cell_type (cells ! j) = TYPE_ARRAY_ELEMENT)) \<and> length cells \<le> 65536"
  using assms unfolding contextIndexMetadataCells_def
  by (auto simp: metadata_types CONTEXT_INDEX_METADATA_MAX_ARRAY_LENGTH_def
      split: ContextGraphMetadataValue.splits if_splits)

lemma entry_rows_facts:
  assumes "entry_rows toString s pos e = Inr g" "sealed_ok s"
  shows "dense_rows g \<and> (\<forall>r \<in> set g. mr_node r = pos \<and> interner_idOf s (fst e) = Inr (mr_key r)
     \<and> (pos < n \<longrightarrow> metadata_row_ok n (length (si_table s)) r))"
proof -
  from assms(1) obtain k cells where k: "interner_idOf s (fst e) = Inr k"
    and c: "contextIndexMetadataCells toString (snd e) = Inr cells"
    and g: "map_res (\<lambda>cell. rbind (interner_idOf s (cell_text cell)) (\<lambda>value.
      Inr \<lparr>mr_node = pos, mr_key = k, mr_value = value, mr_type = cell_type cell,
           mr_ordinal = cell_ordinal cell\<rparr>)) cells = Inr g"
    unfolding entry_rows_def by auto
  note cf = cells_facts [OF c]
  have len: "length g = length cells" using map_res_length [OF g] .
  have row: "mr_node (g ! j) = pos \<and> mr_key (g ! j) = k \<and> mr_value (g ! j) < length (si_table s)
      \<and> mr_type (g ! j) < 6 \<and> mr_ordinal (g ! j) = j
      \<and> (1 < length g \<longrightarrow> mr_type (g ! j) = TYPE_ARRAY_ELEMENT)" if j: "j < length g" for j
  proof -
    from g j len have "rbind (interner_idOf s (cell_text (cells ! j))) (\<lambda>value.
      Inr \<lparr>mr_node = pos, mr_key = k, mr_value = value, mr_type = cell_type (cells ! j),
           mr_ordinal = cell_ordinal (cells ! j)\<rparr>) = Inr (g ! j)"
      by (simp add: map_res_Inr_iff)
    then obtain vid where v: "interner_idOf s (cell_text (cells ! j)) = Inr vid"
      and gj: "g ! j = \<lparr>mr_node = pos, mr_key = k, mr_value = vid, mr_type = cell_type (cells ! j),
           mr_ordinal = cell_ordinal (cells ! j)\<rparr>" by auto
    from v assms(2) have "vid < length (si_table s)" by (simp add: idOf_iff)
    with cf j len gj show ?thesis by simp
  qed
  have pl: "place (g ! j) = (pos, k, j)" if "j < length g" for j
    using row [OF that] by (simp add: place_def)
  have d: "distinct (map place g)" using pl by (simp add: distinct_conv_nth)
  have "dense (set g)"
    unfolding dense_def
  proof (intro conjI ballI allI impI)
    show "inj_on place (set g)" using d by (simp add: distinct_map)
    fix r m assume "r \<in> set g" and m: "mr_ordinal r = Suc m"
    then obtain j where j: "j < length g" "g ! j = r" by (auto simp: in_set_conv_nth)
    with row m have "j = Suc m" by auto
    with j have "m < length g" "1 < length g" by auto
    with row j show "mr_type r = TYPE_ARRAY_ELEMENT" by blast
    from row [of j] row [of m] pl [of m] j \<open>m < length g\<close> \<open>1 < length g\<close>
    show "\<exists>q \<in> set g. place q = (mr_node r, mr_key r, m) \<and> mr_type q = TYPE_ARRAY_ELEMENT"
      by (intro bexI [of _ "g ! m"]) auto
  qed
  moreover have "k < length (si_table s)" using k assms(2) by (simp add: idOf_iff)
  ultimately show ?thesis
    using d row cf len k by (auto simp: dense_rows_def metadata_row_ok_def in_set_conv_nth)
qed

lemma node_metadata_facts:
  assumes "map_res (entry_rows toString s pos) md = Inr gs" "sealed_ok s" "distinct (map fst md)"
  shows "dense_rows (concat gs) \<and> (\<forall>r \<in> set (concat gs). mr_node r = pos
     \<and> (\<exists>key \<in> fst ` set md. interner_idOf s key = Inr (mr_key r))
     \<and> (pos < n \<longrightarrow> metadata_row_ok n (length (si_table s)) r))"
  using assms
proof (induction md arbitrary: gs)
  case (Cons e md)
  from Cons.prems(1) obtain g gs' where g: "entry_rows toString s pos e = Inr g"
    and gs': "map_res (entry_rows toString s pos) md = Inr gs'" and gs: "gs = g # gs'" by auto
  note f = entry_rows_facts [OF g Cons.prems(2), of n]
  have ih: "dense_rows (concat gs')" "\<forall>r \<in> set (concat gs'). mr_node r = pos
     \<and> (\<exists>key \<in> fst ` set md. interner_idOf s key = Inr (mr_key r))
     \<and> (pos < n \<longrightarrow> metadata_row_ok n (length (si_table s)) r)"
    using Cons.IH [OF gs' Cons.prems(2)] Cons.prems(3) by auto
  have "dense_rows (g @ concat gs')"
  proof (rule dense_rows_append)
    fix a b assume "a \<in> set g" "b \<in> set (concat gs')"
    with f ih(2) obtain key where "interner_idOf s (fst e) = Inr (mr_key a)" "key \<in> fst ` set md"
      "interner_idOf s key = Inr (mr_key b)" by blast
    moreover have "key \<noteq> fst e" using Cons.prems(3) \<open>key \<in> fst ` set md\<close> by (metis distinct.simps(2) list.map(2) list.set_map)
    ultimately show "(mr_node a, mr_key a) \<noteq> (mr_node b, mr_key b)"
      using idOf_inj [OF Cons.prems(2)] by auto
  qed (use f ih in auto)
  with f ih(2) show ?case unfolding gs by auto
qed simp

lemma write_nodes_facts:
  assumes "map_res (write_node toString s prot inval) (zip nodes [k..<k + length nodes]) = Inr nrs"
    "sealed_ok s" "length (si_table s) \<le> 2 ^ 32" "k + length nodes \<le> n" "n \<le> 2 ^ 32"
    "\<forall>node \<in> set nodes. distinct (map fst (n_metadata node))"
  shows "length nrs = length nodes
     \<and> (\<forall>i < length nrs. node_row_ok (length (si_table s)) (k + i) (fst (nrs ! i)))
     \<and> dense_rows (concat (map snd nrs))
     \<and> (\<forall>r \<in> set (concat (map snd nrs)). k \<le> mr_node r \<and> metadata_row_ok n (length (si_table s)) r)"
  using assms
proof (induction nodes arbitrary: k nrs)
  case (Cons node nodes)
  have z: "zip (node # nodes) [k..<k + length (node # nodes)] = (node, k) # zip nodes [Suc k..<Suc k + length nodes]"
    by (simp add: upt_rec)
  from Cons.prems(1) obtain row gs nrs' where row: "node_row s prot inval node k = Inr row"
    and gs: "map_res (entry_rows toString s k) (n_metadata node) = Inr gs"
    and rest: "map_res (write_node toString s prot inval) (zip nodes [Suc k..<Suc k + length nodes]) = Inr nrs'"
    and nrs: "nrs = (row, concat gs) # nrs'"
    unfolding z by (auto simp: write_node_def)
  have ih: "length nrs' = length nodes"
     "\<forall>i < length nrs'. node_row_ok (length (si_table s)) (Suc k + i) (fst (nrs' ! i))"
     "dense_rows (concat (map snd nrs'))"
     "\<forall>r \<in> set (concat (map snd nrs')). Suc k \<le> mr_node r \<and> metadata_row_ok n (length (si_table s)) r"
    using Cons.IH [OF rest Cons.prems(2,3) _ Cons.prems(5)] Cons.prems(4,6) by simp_all
  have "distinct (map fst (n_metadata node))" using Cons.prems(6) by simp
  note f = node_metadata_facts [OF gs Cons.prems(2) this, of n]
  have "dense_rows (concat gs @ concat (map snd nrs'))"
  proof (rule dense_rows_append)
    fix a b assume "a \<in> set (concat gs)" "b \<in> set (concat (map snd nrs'))"
    with f ih(4) have "mr_node a = k" "Suc k \<le> mr_node b" by blast+
    then show "(mr_node a, mr_key a) \<noteq> (mr_node b, mr_key b)" by auto
  qed (use f ih in auto)
  moreover have "node_row_ok (length (si_table s)) k row"
    using Cons.prems(4,5) by (intro node_row_correct [OF row Cons.prems(2) _ Cons.prems(3)]) simp
  moreover have "k < n" using Cons.prems(4) by simp
  moreover have "\<forall>r \<in> set (concat (map snd nrs')). k \<le> mr_node r \<and> metadata_row_ok n (length (si_table s)) r"
    using ih(4) Suc_leD by blast
  ultimately show ?case using f ih(1,2) unfolding nrs by (simp add: all_less_Suc ball_Un)
qed simp

end
