(* ===== verification/Writer_Correct.thy ===== *)
theory Writer_Correct
  imports Writer_Rows Reader
begin

text \<open>
  The encoder and the reader agree: an index that \<open>encodeContextIndex\<close> emits is opened by
  \<open>openContextIndex\<close>, against the snapshot hash and the configuration hash it was built
  from. The size conditions are the limits of the format's fields.
\<close>

lemma map_res_each: "map_res f xs = Inr ys \<Longrightarrow> y \<in> set ys \<Longrightarrow> \<exists>x \<in> set xs. f x = Inr y"
  by (metis in_set_conv_nth map_res_Inr_iff)

section \<open>Where the payloads end up\<close>

lemma assembled_holds:
  assumes "assemblable p h" "assemble p h = Inr w"
  shows "readContextIndexHeader (ai_bytes w) = Inr (header_of h)"
    "readSectionTable (ai_bytes w) (header_of h) = Inr (file_descs p)"
    "validateSectionLayout (ai_bytes w) (header_of h) (file_descs p) = Inr (section_map (file_descs p))"
    "k \<in> SECTION_KINDS \<Longrightarrow> \<exists>d. section_map (file_descs p) k = Some d
       \<and> holds (ai_bytes w) d (payload_at p k) (sp_count (the (p k)))"
proof -
  obtain w' where w': "assemble p h = Inr w'" "readContextIndexHeader (ai_bytes w') = Inr (header_of h)"
    "readSectionTable (ai_bytes w') (header_of h) = Inr (file_descs p)"
    "validateSectionLayout (ai_bytes w') (header_of h) (file_descs p) = Inr (section_map (file_descs p))"
    "\<And>k. k \<in> SECTION_KINDS \<Longrightarrow> \<exists>d. section_map (file_descs p) k = Some d \<and> sd_kind d = k
       \<and> bslice (ai_bytes w') (sd_offset d) (sd_end d) = payload_at p k \<and> sd_end d \<le> length (ai_bytes w')
       \<and> sd_count d = sp_count (the (p k)) \<and> sd_length d = length (payload_at p k)"
    by (rule assemble_accepted [OF assms(1)]) (rule that)
  from w'(1) assms(2) have "w' = w" by simp
  with w' show "readContextIndexHeader (ai_bytes w) = Inr (header_of h)"
    "readSectionTable (ai_bytes w) (header_of h) = Inr (file_descs p)"
    "validateSectionLayout (ai_bytes w) (header_of h) (file_descs p) = Inr (section_map (file_descs p))"
    "k \<in> SECTION_KINDS \<Longrightarrow> \<exists>d. section_map (file_descs p) k = Some d
       \<and> holds (ai_bytes w) d (payload_at p k) (sp_count (the (p k)))"
    by (auto simp: holds_def)
qed

section \<open>The payload map\<close>

text \<open>A lane as the reader wants it, whichever builder made it.\<close>

definition lane_built :: "nat \<Rightarrow> nat \<Rightarrow> ContextIndexLaneSection \<Rightarrow> bool" where
  "lane_built ss ns l \<longleftrightarrow> (\<exists>rs out. ls_table l = concat (map term_row_bytes rs) \<and> ls_termCount l = length rs
     \<and> ls_postings l = u32Section out \<and> ls_postingCount l = length out \<and> term_table_ok rs out 0
     \<and> (\<forall>i \<in> set (map fst rs). i < ss) \<and> (\<forall>v \<in> set out. v < ns))"

lemma lane_built_encode:
  assumes "encode_lane s n b = Inr l" "sealed_ok s"
  shows "lane_built (length (si_table s)) n l"
proof (cases b)
  case None
  then have "ls_table l = concat (map term_row_bytes [])" "ls_termCount l = length ([] :: (nat \<times> nat \<times> nat) list)"
    "ls_postings l = u32Section []" "ls_postingCount l = length ([] :: nat list)"
    using assms(1) by (auto simp: encode_lane_def EMPTY_CONTEXT_INDEX_LANE_def u32Section_def)
  then show ?thesis unfolding lane_built_def
    by (intro exI [of _ "[]"]) (simp add: term_table_ok_def)
next
  case (Some built)
  with assms(1) obtain rs out where r: "lane_rows (interner_idOf s) (lb_postings built) n None 0 0 (lb_terms built) = Inr (rs, out)"
    and l: "l = \<lparr>ls_table = concat (map term_row_bytes rs), ls_postings = u32Section out,
         ls_termCount = length (lb_terms built), ls_postingCount = length out\<rparr>"
    by (auto simp: encode_lane_def encodeContextIndexLane_def)
  note f = lane_rows_correct [OF r]
  have "\<forall>i \<in> set (map fst rs). i < length (si_table s)"
    using f assms(2) by (auto simp: idOf_iff)
  with f l show ?thesis unfolding lane_built_def
    by (intro exI [of _ rs] exI [of _ out]) (simp add: term_table_ok_def)
qed

lemma lane_built_table:
  assumes "fst ` set es \<subseteq> {..<ss}" "snd ` set es \<subseteq> {..<ns}"
  shows "lane_built ss ns (termTable es) \<and> ls_termCount (termTable es) \<le> length es"
proof -
  obtain rs out where t: "termTable es = \<lparr>ls_table = concat (map term_row_bytes rs),
      ls_postings = u32Section out, ls_termCount = length rs, ls_postingCount = length out\<rparr>"
    "term_table_ok rs out 0" "set (map fst rs) = fst ` set es" "set out \<subseteq> snd ` set es"
    by (rule term_table_correct)
  have "length rs = card (set (map fst rs))"
    using t(2) by (metis distinct_card length_map strict_sorted_iff term_table_ok_def)
  also have "\<dots> \<le> length es" unfolding t(3) by (metis card_image_le card_length finite_set le_trans)
  finally have "length rs \<le> length es" .
  moreover have "\<forall>v \<in> set out. v < ns" "\<forall>i \<in> set (map fst rs). i < ss"
    using t(3,4) assms by blast+
  ultimately show ?thesis using t(1,2) unfolding lane_built_def
    by (intro conjI exI [of _ rs] exI [of _ out]) simp_all
qed

text \<open>What the sections of a snapshot are made of.\<close>

definition payload_facts ::
  "nat \<Rightarrow> nat \<Rightarrow> nat \<Rightarrow> (nat \<rightharpoonup> section_payload) \<Rightarrow> nat \<Rightarrow> nat \<Rightarrow> bool" where
  "payload_facts ss n e p terms provs \<longleftrightarrow>
    (\<exists>str nrs mrs ers outs ins inE prs cyc srcs exact base lex coarse table.
       p = [STRING_TABLE \<mapsto> \<lparr>sp_bytes = str, sp_count = ss\<rparr>,
          NODE_TABLE \<mapsto> \<lparr>sp_bytes = concat nrs, sp_count = n\<rparr>,
          NODE_METADATA \<mapsto> \<lparr>sp_bytes = metadataTable (metadata_sort mrs), sp_count = length (metadata_sort mrs)\<rparr>,
          EDGE_TABLE \<mapsto> \<lparr>sp_bytes = concat ers, sp_count = e\<rparr>,
          OUT_CSR_OFFSETS \<mapsto> \<lparr>sp_bytes = u32Section (csrOffsets outs n), sp_count = length (csrOffsets outs n)\<rparr>,
          OUT_CSR_EDGES \<mapsto> \<lparr>sp_bytes = u32Section [0..<e], sp_count = e\<rparr>,
          IN_CSR_OFFSETS \<mapsto> \<lparr>sp_bytes = u32Section (csrOffsets ins n), sp_count = length (csrOffsets ins n)\<rparr>,
          IN_CSR_EDGES \<mapsto> \<lparr>sp_bytes = u32Section inE, sp_count = e\<rparr>,
          EXACT_TERM_TABLE \<mapsto> \<lparr>sp_bytes = ls_table exact, sp_count = ls_termCount exact\<rparr>,
          EXACT_POSTINGS \<mapsto> \<lparr>sp_bytes = ls_postings exact, sp_count = ls_postingCount exact\<rparr>,
          BASENAME_TABLE \<mapsto> \<lparr>sp_bytes = ls_table base, sp_count = ls_termCount base\<rparr>,
          BASENAME_POSTINGS \<mapsto> \<lparr>sp_bytes = ls_postings base, sp_count = ls_postingCount base\<rparr>,
          LEXICON_TABLE \<mapsto> \<lparr>sp_bytes = ls_table lex, sp_count = ls_termCount lex\<rparr>,
          LEXICON_POSTINGS \<mapsto> \<lparr>sp_bytes = ls_postings lex, sp_count = ls_postingCount lex\<rparr>,
          COARSE_TERM_TABLE \<mapsto> \<lparr>sp_bytes = ls_table coarse, sp_count = ls_termCount coarse\<rparr>,
          COARSE_POSTINGS \<mapsto> \<lparr>sp_bytes = ls_postings coarse, sp_count = ls_postingCount coarse\<rparr>,
          PROVENANCE_TABLE \<mapsto> \<lparr>sp_bytes = provenanceTable prs, sp_count = length prs\<rparr>,
          GROUP_TABLE \<mapsto> \<lparr>sp_bytes = u32Section [0..<n], sp_count = n\<rparr>,
          CYCLE_TABLE \<mapsto> \<lparr>sp_bytes = u32Section cyc, sp_count = length cyc\<rparr>,
          SOURCE_HASH_TABLE \<mapsto> \<lparr>sp_bytes = pairTable srcs, sp_count = length srcs\<rparr>]
       \<and> str = concat (map (put_le 4) (running_ends 0 (map text_encode table))) @ concat (map text_encode table)
       \<and> length table = ss
       \<and> length nrs = n \<and> (\<forall>i < n. node_row_ok ss i (nrs ! i))
       \<and> dense_rows mrs \<and> list_all (metadata_row_ok n ss) mrs
       \<and> length ers = e \<and> list_all (edge_row_ok n provs) ers
       \<and> length outs = e \<and> length ins = e \<and> length inE = e
       \<and> (\<forall>b \<in> set outs. b < n) \<and> (\<forall>b \<in> set ins. b < n) \<and> (\<forall>v \<in> set inE. v < e)
       \<and> lane_built ss n exact \<and> lane_built ss n base \<and> lane_built ss n lex \<and> lane_built ss n coarse
       \<and> length prs = provs \<and> list_all (provenance_row_ok ss) prs
       \<and> (\<forall>v \<in> set cyc. v < n) \<and> (\<forall>r \<in> set srcs. fst r < ss \<and> snd r < ss)
       \<and> ls_termCount exact = terms)"

lemma section_payloads_facts:
  assumes run: "section_payloads toString s nix nodes edges cycles prot inval lexical
      = Inr (p, terms, provs, lx, cs)"
    and s: "sealed_ok s" "length (si_table s) \<le> 2 ^ 32"
    and g: "graph_ok nix edges (length nodes)" "length nodes \<le> maxNodeCount" "length edges \<le> maxEdgeCount"
    and ids: "\<forall>node \<in> set nodes. nix (n_id node) \<noteq> None"
    and md: "\<forall>node \<in> set nodes. distinct (map fst (n_metadata node))"
  shows "payload_facts (length (si_table s)) (length nodes) (length edges) p terms provs
     \<and> terms \<le> maxTermCount \<and> provs \<le> maxProvenanceCount"
proof -
  let ?n = "length nodes" and ?ss = "length (si_table s)"
  let ?ord = "order_edges nix edges"
  let ?pix0 = "\<lparr>pi_rows = [], pi_index = Map.empty\<rparr> :: provenance_index"
  let ?inO = "sort (zip (map oe_to ?ord) [0..<length ?ord])"
  from run obtain ers pix nrs es bes srcs l c str where
      e: "write_edges s ?ord ?pix0 = Inr (ers, pix)"
    and nr: "map_res (write_node toString s prot inval) (zip nodes [0..<?n]) = Inr nrs"
    and es: "exact_entries s nodes = Inr es" and bes: "basename_entries s nix nodes = Inr bes"
    and srcs: "source_hash_rows s nodes = Inr srcs"
    and l: "encode_lane s ?n (map_option lx_lexical lexical) = Inr l"
    and c: "encode_lane s ?n (map_option lx_coarse lexical) = Inr c"
    and str: "interner_encode s = Inr str"
    and out: "p = [STRING_TABLE \<mapsto> \<lparr>sp_bytes = str, sp_count = interner_size s\<rparr>,
          NODE_TABLE \<mapsto> \<lparr>sp_bytes = concat (map fst nrs), sp_count = ?n\<rparr>,
          NODE_METADATA \<mapsto> \<lparr>sp_bytes = metadataTable (metadata_sort (concat (map snd nrs))),
             sp_count = length (metadata_sort (concat (map snd nrs)))\<rparr>,
          EDGE_TABLE \<mapsto> \<lparr>sp_bytes = concat ers, sp_count = length ?ord\<rparr>,
          OUT_CSR_OFFSETS \<mapsto> \<lparr>sp_bytes = u32Section (csrOffsets (map oe_from ?ord) ?n),
             sp_count = length (csrOffsets (map oe_from ?ord) ?n)\<rparr>,
          OUT_CSR_EDGES \<mapsto> \<lparr>sp_bytes = u32Section [0..<length ?ord], sp_count = length ?ord\<rparr>,
          IN_CSR_OFFSETS \<mapsto> \<lparr>sp_bytes = u32Section (csrOffsets (map fst ?inO) ?n),
             sp_count = length (csrOffsets (map fst ?inO) ?n)\<rparr>,
          IN_CSR_EDGES \<mapsto> \<lparr>sp_bytes = u32Section (map snd ?inO), sp_count = length ?inO\<rparr>,
          EXACT_TERM_TABLE \<mapsto> \<lparr>sp_bytes = ls_table (termTable es), sp_count = ls_termCount (termTable es)\<rparr>,
          EXACT_POSTINGS \<mapsto> \<lparr>sp_bytes = ls_postings (termTable es), sp_count = ls_postingCount (termTable es)\<rparr>,
          BASENAME_TABLE \<mapsto> \<lparr>sp_bytes = ls_table (termTable bes), sp_count = ls_termCount (termTable bes)\<rparr>,
          BASENAME_POSTINGS \<mapsto> \<lparr>sp_bytes = ls_postings (termTable bes), sp_count = ls_postingCount (termTable bes)\<rparr>,
          LEXICON_TABLE \<mapsto> \<lparr>sp_bytes = ls_table l, sp_count = ls_termCount l\<rparr>,
          LEXICON_POSTINGS \<mapsto> \<lparr>sp_bytes = ls_postings l, sp_count = ls_postingCount l\<rparr>,
          COARSE_TERM_TABLE \<mapsto> \<lparr>sp_bytes = ls_table c, sp_count = ls_termCount c\<rparr>,
          COARSE_POSTINGS \<mapsto> \<lparr>sp_bytes = ls_postings c, sp_count = ls_postingCount c\<rparr>,
          PROVENANCE_TABLE \<mapsto> \<lparr>sp_bytes = provenanceTable (pi_rows pix), sp_count = length (pi_rows pix)\<rparr>,
          GROUP_TABLE \<mapsto> \<lparr>sp_bytes = u32Section [0..<?n], sp_count = ?n\<rparr>,
          CYCLE_TABLE \<mapsto> \<lparr>sp_bytes = u32Section (cycle_rows nix cycles), sp_count = length (cycle_rows nix cycles)\<rparr>,
          SOURCE_HASH_TABLE \<mapsto> \<lparr>sp_bytes = pairTable srcs, sp_count = length srcs\<rparr>]"
    and out': "terms = ls_termCount (termTable es)" "provs = length (pi_rows pix)"
    unfolding section_payloads_def Let_def by (auto simp del: fun_upd_apply)
  note oe = order_edges_facts [OF g(1)]
  have "pix_ok ?ss ?pix0" by (simp add: pix_ok_def)
  from write_edges_ok [OF e s(1) this, of ?n] oe g(2,3)
  have we: "length ers = length edges" "pix_ok ?ss pix" "length (pi_rows pix) \<le> length edges"
    "list_all (edge_row_ok ?n (length (pi_rows pix))) ers" by (simp_all add: limits)
  have wn: "length nrs = ?n" "\<forall>i < ?n. node_row_ok ?ss i (fst (nrs ! i))"
    "dense_rows (concat (map snd nrs))" "list_all (metadata_row_ok ?n ?ss) (concat (map snd nrs))"
    using write_nodes_facts [of toString s prot inval nodes 0 nrs ?n] nr s g(2) md
    by (simp_all add: limits list_all_iff)
  have ex: "fst ` set es \<subseteq> {..<?ss}" "snd ` set es \<subseteq> {..<?n}" "length es = ?n"
  proof -
    from es have len: "length es = ?n" and each: "\<forall>i < ?n. rbind (interner_idOf s (n_id (nodes ! i))) (\<lambda>j. Inr (j, i)) = Inr (es ! i)"
      by (auto simp: exact_entries_def map_res_Inr_iff)
    have "fst (es ! i) < ?ss \<and> snd (es ! i) = i" if i: "i < ?n" for i
    proof -
      from each i obtain j where "interner_idOf s (n_id (nodes ! i)) = Inr j" "es ! i = (j, i)"
        by (auto simp: rbind_Inr_iff)
      with s(1) show ?thesis by (simp add: idOf_iff)
    qed
    then have "\<forall>x \<in> set es. fst x < ?ss \<and> snd x < ?n"
      using len by (metis in_set_conv_nth)
    with len show "fst ` set es \<subseteq> {..<?ss}" "snd ` set es \<subseteq> {..<?n}" "length es = ?n"
      by fastforce+
  qed
  have ba: "fst ` set bes \<subseteq> {..<?ss}" "snd ` set bes \<subseteq> {..<?n}"
  proof -
    let ?f = "filter (\<lambda>node. n_path node \<noteq> None) nodes"
    have "fst b < ?ss \<and> snd b < ?n" if b: "b \<in> set bes" for b
    proof -
      obtain node where node: "node \<in> set ?f"
        "rbind (interner_idOf s (the (n_path node))) (\<lambda>i. Inr (i, the (nix (n_id node)))) = Inr b"
        by (rule map_res_each [OF bes [unfolded basename_entries_def] b, THEN bexE]) (rule that)
      then have "node \<in> set nodes" by simp
      with ids obtain j where "nix (n_id node) = Some j" by blast
      with g(1) node s(1) show ?thesis by (auto simp: graph_ok_def idOf_iff)
    qed
    then show "fst ` set bes \<subseteq> {..<?ss}" "snd ` set bes \<subseteq> {..<?n}" by auto
  qed
  have sr: "\<forall>r \<in> set srcs. fst r < ?ss \<and> snd r < ?ss"
  proof -
    have fold: "set (fold set_add rs xs) = set rs \<union> set xs" for rs xs :: "(nat \<times> nat) list"
      by (induction rs arbitrary: xs) auto
    from srcs obtain rs where rs: "map_res (\<lambda>node.
        rbind (interner_idOf s (the (n_path node))) (\<lambda>path.
        rbind (interner_idOf s (the (n_contentHash node))) (\<lambda>hash. Inr (path, hash))))
      (filter (\<lambda>node. n_path node \<noteq> None \<and> n_contentHash node \<noteq> None) nodes) = Inr rs"
      "srcs = sort_key pair_key (fold set_add rs [])"
      by (auto simp: source_hash_rows_def)
    have "fst r < ?ss \<and> snd r < ?ss" if "r \<in> set rs" for r
      using map_res_each [OF rs(1) that] s(1) by (auto simp: idOf_iff)
    with rs(2) show ?thesis by (simp add: fold)
  qed
  have cy: "\<forall>v \<in> set (cycle_rows nix cycles). v < ?n"
    using g(1) by (auto simp: cycle_rows_def graph_ok_def map_filter_def)
  have inO: "length ?inO = length edges" "\<forall>b \<in> set (map fst ?inO). b < ?n" "\<forall>v \<in> set (map snd ?inO). v < length edges"
    using oe by (auto simp: set_zip)
  note lanes = lane_built_encode [OF l s(1)] lane_built_encode [OF c s(1)] lane_built_table [OF ex(1,2)]
    lane_built_table [OF ba]
  have str': "str = concat (map (put_le 4) (running_ends 0 (map text_encode (si_table s))))
      @ concat (map text_encode (si_table s))" "interner_size s = ?ss"
    using str s(1) by (simp_all add: interner_encode_def interner_size_def sealed_ok_def Let_def)
  have lens: "length (map oe_from ?ord) = length edges" "length (map fst ?inO) = length edges"
    "length (map snd ?inO) = length edges" "\<forall>b \<in> set (map oe_from ?ord). b < ?n"
    using oe inO by auto
  have p: "list_all (provenance_row_ok ?ss) (pi_rows pix)" using we(2) by (simp add: pix_ok_def)
  have "payload_facts ?ss ?n (length edges) p terms provs"
    unfolding payload_facts_def out'
    by (rule exI [of _ str], rule exI [of _ "map fst nrs"], rule exI [of _ "concat (map snd nrs)"],
        rule exI [of _ ers], rule exI [of _ "map oe_from ?ord"], rule exI [of _ "map fst ?inO"],
        rule exI [of _ "map snd ?inO"], rule exI [of _ "pi_rows pix"],
        rule exI [of _ "cycle_rows nix cycles"], rule exI [of _ srcs], rule exI [of _ "termTable es"],
        rule exI [of _ "termTable bes"], rule exI [of _ l], rule exI [of _ c], rule exI [of _ "si_table s"],
        rule conjI, simp add: out str'(2) oe(1) del: fun_upd_apply)
      (use str'(1) wn we lens inO lanes p cy sr in simp)
  moreover have "terms \<le> maxTermCount" "provs \<le> maxProvenanceCount"
    using out' lanes(3) ex(3) g(2,3) we(3) by (simp_all add: limits)
  ultimately show ?thesis by blast
qed

end
