(* ===== verification/Writer_Opens.thy ===== *)
theory Writer_Opens
  imports Writer_Correct
begin

text \<open>
  The reader opens what the encoder wrote: every payload the encoder emits satisfies the
  payload contract of the validator, so the file passes all four stages of opening.
\<close>

section \<open>The written payloads satisfy the contract\<close>

definition file_holds :: "bytes \<Rightarrow> section_index \<Rightarrow> (nat \<rightharpoonup> section_payload) \<Rightarrow> bool" where
  "file_holds bs m p \<longleftrightarrow> (\<forall>k \<in> SECTION_KINDS. m k \<noteq> None
     \<and> holds bs (sec m k) (payload_at p k) (sp_count (the (p k))))"

lemma file_holds_sec: "file_holds bs m p \<Longrightarrow> k \<in> SECTION_KINDS \<Longrightarrow> p k = Some \<lparr>sp_bytes = b, sp_count = c\<rparr> \<Longrightarrow>
    holds bs (sec m k) b c"
  by (force simp: file_holds_def payload_at_def)

lemma mod_below: "x < s \<Longrightarrow> x mod k < s" for x s k :: nat
  by (rule order.strict_trans1 [OF mod_less_eq_dividend])

lemma metadata_section_ok:
  assumes h: "holds bs d (metadataTable (metadata_sort mrs)) (length (metadata_sort mrs))"
    and ok: "dense_rows mrs" "list_all (metadata_row_ok n ss) mrs" and small: "n \<le> 2 ^ 32" "ss \<le> 2 ^ 32"
  shows "metadata_rows_ok bs d" "references_ok bs d 16 0 n" "references_ok bs d 16 4 ss"
    "references_ok bs d 16 8 ss" "exact_rows d 16"
proof -
  let ?ts = "metadata_sort mrs" and ?rs = "map metadata_row_bytes (metadata_sort mrs)"
  have h': "holds bs d (concat ?rs) (length ?rs)" using h by (simp add: metadataTable_def)
  have each: "\<forall>r \<in> set ?ts. metadata_row_ok n ss r"
    using ok(2) by (simp add: metadata_sort_facts list_all_iff)
  note fields = metadata_row_fields [of _ n ss, OF _ _ _ _ _ small]
  have len: "\<forall>r \<in> set ?rs. length r = 16" using each fields(1) by (auto simp: metadata_row_ok_def)
  show "references_ok bs d 16 0 n" "references_ok bs d 16 4 ss" "references_ok bs d 16 8 ss"
    using each fields(2-4) by (auto intro!: holds_refs [OF h' len] simp: metadata_row_ok_def)
  show "exact_rows d 16" by (rule holds_exact_rows [OF h' len])
  have key: "metadata_at bs d i = row_key (?ts ! i) \<and> mr_type (?ts ! i) < 6" if i: "i < length ?ts" for i
  proof -
    have "metadata_row_ok n ss (?ts ! i)" using each i by simp
    then show ?thesis
      using i fields(2,3,5,6) [of "?ts ! i"]
      by (simp add: metadata_at_def row_key_def metadata_row_ok_def holds_row [OF h' len])
  qed
  from sorted_dense [of mrs] ok(1)
  have "?ts \<noteq> [] \<longrightarrow> mr_ordinal (?ts ! 0) = 0"
    "\<forall>i. Suc i < length ?ts \<longrightarrow> metadata_follows (row_key (?ts ! i)) (row_key (?ts ! Suc i))"
    by (simp_all add: dense_rows_def)
  then show "metadata_rows_ok bs d"
    using h key by (auto simp: metadata_rows_ok_def holds_def row_key_def)
qed

lemma provenance_section_ok:
  assumes h: "holds bs d (provenanceTable prs) (length prs)" and ok: "list_all (provenance_row_ok ss) prs"
  shows "references_ok bs d 16 0 ss" "references_ok bs d 16 8 ss" "references_ok bs d 16 12 ss" "exact_rows d 16"
proof -
  let ?rs = "map provenance_row_bytes prs"
  have h': "holds bs d (concat ?rs) (length ?rs)" using h by (simp add: provenanceTable_def)
  have len: "\<forall>r \<in> set ?rs. length r = 16" by (auto simp: provenance_row_bytes_def)
  have f: "le_at 4 (provenance_row_bytes r) 0 = pr_pathId r mod 2 ^ 32"
    "le_at 4 (provenance_row_bytes r) 8 = pr_hashId r mod 2 ^ 32"
    "le_at 4 (provenance_row_bytes r) 12 = pr_extractorId r mod 2 ^ 32" for r
    by (simp_all add: provenance_row_bytes_def byte_simps)
  show "references_ok bs d 16 0 ss" "references_ok bs d 16 8 ss" "references_ok bs d 16 12 ss"
    using ok f by (auto intro!: holds_refs [OF h' len] mod_below simp: list_all_iff provenance_row_ok_def)
  show "exact_rows d 16" by (rule holds_exact_rows [OF h' len])
qed

lemma pair_section_ok:
  assumes h: "holds bs d (pairTable srcs) (length srcs)" and ok: "\<forall>r \<in> set srcs. fst r < ss \<and> snd r < ss"
  shows "references_ok bs d 8 0 ss" "references_ok bs d 8 4 ss" "exact_rows d 8"
proof -
  let ?rs = "map pair_row_bytes srcs"
  have h': "holds bs d (concat ?rs) (length ?rs)" using h by (simp add: pairTable_def)
  have len: "\<forall>r \<in> set ?rs. length r = 8" by (auto simp: pair_row_bytes_def)
  have f: "le_at 4 (pair_row_bytes r) 0 = fst r mod 2 ^ 32" "le_at 4 (pair_row_bytes r) 4 = snd r mod 2 ^ 32" for r
    by (simp_all add: pair_row_bytes_def byte_simps)
  show "references_ok bs d 8 0 ss" "references_ok bs d 8 4 ss"
    using ok f by (fastforce intro!: holds_refs [OF h' len] mod_below)+
  show "exact_rows d 8" by (rule holds_exact_rows [OF h' len])
qed

lemma edge_section_ok:
  assumes h: "holds bs d (concat ers) (length ers)" and ok: "list_all (edge_row_ok n ps) ers"
  shows "references_ok bs d 16 0 n" "references_ok bs d 16 8 ps" "exact_rows d 16"
    "\<forall>i < length ers. edge_enums_ok bs d i"
proof -
  have len: "\<forall>r \<in> set ers. length r = 16" using ok by (simp add: edge_row_ok_def list_all_iff)
  show "references_ok bs d 16 0 n" "references_ok bs d 16 8 ps"
    using ok by (auto intro!: holds_refs [OF h len] simp: edge_row_ok_def list_all_iff)
  show "exact_rows d 16" by (rule holds_exact_rows [OF h len])
  show "\<forall>i < length ers. edge_enums_ok bs d i"
    using ok by (simp add: edge_enums_ok_def holds_row [OF h len] edge_row_ok_def list_all_length)
qed

lemma node_section_ok:
  assumes h: "holds bs d (concat nrs) (length nrs)" and ok: "\<forall>i < length nrs. node_row_ok ss i (nrs ! i)"
    and g: "holds bs g (u32Section [0..<length nrs]) (length nrs)" and small: "length nrs < 2 ^ 32"
  shows "references_ok bs d 40 12 ss" "references_ok bs d 40 36 ss" "references_ok bs d 40 32 (max (length nrs) 1)"
    "exact_rows d 40" "\<forall>i < length nrs. node_enums_ok bs d g ss i"
proof -
  have len: "\<forall>r \<in> set nrs. length r = 40" using ok by (auto simp: node_row_ok_def in_set_conv_nth)
  have each: "\<forall>r \<in> set nrs. le_at 4 r 12 < ss \<and> le_at 4 r 36 < ss \<and> le_at 4 r 32 < max (length nrs) 1"
    using ok by (fastforce simp: node_row_ok_def in_set_conv_nth)
  show "references_ok bs d 40 12 ss" "references_ok bs d 40 36 ss" "references_ok bs d 40 32 (max (length nrs) 1)"
    using each by (auto intro!: holds_refs [OF h len])
  show "exact_rows d 40" by (rule holds_exact_rows [OF h len])
  have "row_at 4 bs g 4 i 0 = i" if "i < length nrs" for i
    using holds_u32 [of bs g "[0..<length nrs]" i] g that small by (simp add: row_at_def u32_row_def)
  then show "\<forall>i < length nrs. node_enums_ok bs d g ss i"
    using ok by (simp add: node_enums_ok_def holds_row [OF h len] node_row_ok_def)
qed

lemma lane_built_section:
  assumes l: "lane_built ss ns l" and t: "holds bs t (ls_table l) (ls_termCount l)"
    and p: "holds bs p (ls_postings l) (ls_postingCount l)"
    and small: "ss \<le> 2 ^ 32" "ns \<le> 2 ^ 32" "sd_count p < 2 ^ 32"
  shows "lane_ok bs t p ss ns" "exact_rows t 12" "exact_rows p 4"
proof -
  from l obtain rs out where r: "ls_table l = concat (map term_row_bytes rs)" "ls_termCount l = length rs"
     "ls_postings l = u32Section out" "ls_postingCount l = length out" "term_table_ok rs out 0"
     "\<forall>i \<in> set (map fst rs). i < ss" "\<forall>v \<in> set out. v < ns"
    unfolding lane_built_def by blast
  from r(4) p have "length out = sd_count p" by (simp add: holds_def)
  with lane_section_ok [of bs t rs p out ss ns] r t p small
  show "lane_ok bs t p ss ns" "exact_rows t 12" "exact_rows p 4" by simp_all
qed


lemma written_payloads_ok:
  assumes pf: "payload_facts ss n e p terms provs" and fh: "file_holds bs m p" and dom: "SECTION_KINDS \<subseteq> dom p"
    and h: "nodeCount h = n" "edgeCount h = e" "termCount h = terms" "provenanceCount h = provs"
    and small: "n \<le> maxNodeCount" "e \<le> maxEdgeCount" "ss \<le> maxSectionCountValue"
      "\<forall>k \<in> SECTION_KINDS. sp_count (the (p k)) \<le> maxSectionCountValue \<and> length (payload_at p k) \<le> maxSectionBytes"
  shows "payloads_ok bs h m"
proof -
  obtain str nrs mrs ers outs ins inE prs cyc srcs exact base lex coarse table where
    p: "p = [STRING_TABLE \<mapsto> \<lparr>sp_bytes = str, sp_count = ss\<rparr>,
          NODE_TABLE \<mapsto> \<lparr>sp_bytes = concat nrs, sp_count = n\<rparr>,
          NODE_METADATA \<mapsto> \<lparr>sp_bytes = metadataTable (metadata_sort mrs), sp_count = length (metadata_sort mrs)\<rparr>,
          EDGE_TABLE \<mapsto> \<lparr>sp_bytes = concat ers, sp_count = e\<rparr>,
          OUT_CSR_OFFSETS \<mapsto> \<lparr>sp_bytes = u32Section (csrOffsets outs n), sp_count = length (csrOffsets outs n)\<rparr>,
          OUT_CSR_EDGES \<mapsto> \<lparr>sp_bytes = u32Section [0..<e], sp_count = e\<rparr>,
          IN_CSR_OFFSETS \<mapsto> \<lparr>sp_bytes = u32Section (csrOffsets ins n), sp_count = length (csrOffsets ins n)\<rparr>,
          IN_CSR_EDGES \<mapsto> \<lparr>sp_bytes = u32Section inE, sp_count = e\<rparr>,
          EXACT_TERM_TABLE \<mapsto> \<lparr>sp_bytes = ls_table exact, sp_count = ls_termCount exact\<rparr>,
          EXACT_POSTINGS \<mapsto> \<lparr>sp_bytes = ls_postings exact, sp_count = ls_postingCount exact\<rparr>,
          BASENAME_TABLE \<mapsto> \<lparr>sp_bytes = ls_table base, sp_count = ls_termCount base\<rparr>,
          BASENAME_POSTINGS \<mapsto> \<lparr>sp_bytes = ls_postings base, sp_count = ls_postingCount base\<rparr>,
          LEXICON_TABLE \<mapsto> \<lparr>sp_bytes = ls_table lex, sp_count = ls_termCount lex\<rparr>,
          LEXICON_POSTINGS \<mapsto> \<lparr>sp_bytes = ls_postings lex, sp_count = ls_postingCount lex\<rparr>,
          COARSE_TERM_TABLE \<mapsto> \<lparr>sp_bytes = ls_table coarse, sp_count = ls_termCount coarse\<rparr>,
          COARSE_POSTINGS \<mapsto> \<lparr>sp_bytes = ls_postings coarse, sp_count = ls_postingCount coarse\<rparr>,
          PROVENANCE_TABLE \<mapsto> \<lparr>sp_bytes = provenanceTable prs, sp_count = length prs\<rparr>,
          GROUP_TABLE \<mapsto> \<lparr>sp_bytes = u32Section [0..<n], sp_count = n\<rparr>,
          CYCLE_TABLE \<mapsto> \<lparr>sp_bytes = u32Section cyc, sp_count = length cyc\<rparr>,
          SOURCE_HASH_TABLE \<mapsto> \<lparr>sp_bytes = pairTable srcs, sp_count = length srcs\<rparr>]"
    and f: "str = concat (map (put_le 4) (running_ends 0 (map text_encode table))) @ concat (map text_encode table)"
      "length table = ss" "length nrs = n" "\<forall>i < n. node_row_ok ss i (nrs ! i)"
      "dense_rows mrs" "list_all (metadata_row_ok n ss) mrs"
      "length ers = e" "list_all (edge_row_ok n provs) ers"
      "length outs = e" "length ins = e" "length inE = e"
      "\<forall>b \<in> set outs. b < n" "\<forall>b \<in> set ins. b < n" "\<forall>v \<in> set inE. v < e"
      "lane_built ss n exact" "lane_built ss n base" "lane_built ss n lex" "lane_built ss n coarse"
      "length prs = provs" "list_all (provenance_row_ok ss) prs"
      "\<forall>v \<in> set cyc. v < n" "\<forall>r \<in> set srcs. fst r < ss \<and> snd r < ss" "ls_termCount exact = terms"
    using pf unfolding payload_facts_def by (elim exE conjE) (rule that)
  have H: "holds bs (sec m STRING_TABLE) str ss" "holds bs (sec m NODE_TABLE) (concat nrs) n"
    "holds bs (sec m NODE_METADATA) (metadataTable (metadata_sort mrs)) (length (metadata_sort mrs))"
    "holds bs (sec m EDGE_TABLE) (concat ers) e"
    "holds bs (sec m OUT_CSR_OFFSETS) (u32Section (csrOffsets outs n)) (length (csrOffsets outs n))"
    "holds bs (sec m OUT_CSR_EDGES) (u32Section [0..<e]) e"
    "holds bs (sec m IN_CSR_OFFSETS) (u32Section (csrOffsets ins n)) (length (csrOffsets ins n))"
    "holds bs (sec m IN_CSR_EDGES) (u32Section inE) e"
    "holds bs (sec m EXACT_TERM_TABLE) (ls_table exact) (ls_termCount exact)"
    "holds bs (sec m EXACT_POSTINGS) (ls_postings exact) (ls_postingCount exact)"
    "holds bs (sec m BASENAME_TABLE) (ls_table base) (ls_termCount base)"
    "holds bs (sec m BASENAME_POSTINGS) (ls_postings base) (ls_postingCount base)"
    "holds bs (sec m LEXICON_TABLE) (ls_table lex) (ls_termCount lex)"
    "holds bs (sec m LEXICON_POSTINGS) (ls_postings lex) (ls_postingCount lex)"
    "holds bs (sec m COARSE_TERM_TABLE) (ls_table coarse) (ls_termCount coarse)"
    "holds bs (sec m COARSE_POSTINGS) (ls_postings coarse) (ls_postingCount coarse)"
    "holds bs (sec m PROVENANCE_TABLE) (provenanceTable prs) (length prs)"
    "holds bs (sec m GROUP_TABLE) (u32Section [0..<n]) n"
    "holds bs (sec m CYCLE_TABLE) (u32Section cyc) (length cyc)"
    "holds bs (sec m SOURCE_HASH_TABLE) (pairTable srcs) (length srcs)"
    by (rule file_holds_sec [OF fh kinds_all], simp only: insert_iff simp_thms, simp only: p kinds fun_upd_apply num.simps numeral_eq_iff refl if_True if_False eq_numeral_simps one_eq_numeral_iff numeral_eq_one_iff)+
  have m: "SECTION_KINDS \<subseteq> dom m" using fh by (auto simp: file_holds_def)
  have cap: "sd_count (sec m k) < 2 ^ 32" "sd_length (sec m k) \<le> 2 ^ 32" if "k \<in> SECTION_KINDS" for k
    using fh small(4) that by (auto simp: file_holds_def holds_def limits)
  have ss: "ss \<le> 2 ^ 32" "n \<le> 2 ^ 32" "n < 2 ^ 32" "e < 2 ^ 32" using small(1-3) by (simp_all add: limits)
  have str: "string_table_ok bs (sec m STRING_TABLE)"
    using H(1) f(1,2) cap(2) [OF kinds_all, of STRING_TABLE]
    by (intro string_section_ok [of bs _ "map text_encode table" table]) simp_all
  note nodes = node_section_ok [of bs "sec m NODE_TABLE" nrs ss "sec m GROUP_TABLE", unfolded f(3), OF H(2) f(4) H(18) ss(3)]
  note meta = metadata_section_ok [OF H(3) f(5,6) ss(2,1)]
  note edges = edge_section_ok [of bs "sec m EDGE_TABLE" ers n provs, unfolded f(7), OF H(4) f(8)]
  note prov = provenance_section_ok [OF H(17) f(20)]
  note pair = pair_section_ok [OF H(20) f(22)]
  note outc = csr_section_ok [OF H(5) _ f(12), of "sec m OUT_CSR_EDGES"]
  note inc = csr_section_ok [OF H(7) _ f(13), of "sec m IN_CSR_EDGES"]
  note l1 = lane_built_section [OF f(15) H(9,10) ss(1,2) cap(1) [OF kinds_all]]
  note l2 = lane_built_section [OF f(16) H(11,12) ss(1,2) cap(1) [OF kinds_all]]
  note l3 = lane_built_section [OF f(17) H(13,14) ss(1,2) cap(1) [OF kinds_all]]
  note l4 = lane_built_section [OF f(18) H(15,16) ss(1,2) cap(1) [OF kinds_all]]
  have hu: "holds bs (sec m OUT_CSR_EDGES) (u32Section [0..<e]) (length [0..<e])"
    "holds bs (sec m IN_CSR_EDGES) (u32Section inE) (length inE)"
    "holds bs (sec m GROUP_TABLE) (u32Section [0..<n]) (length [0..<n])"
    using H(6,8,18) f(11) by simp_all
  note u32 = holds_u32_exact [OF H(5)] holds_u32_exact [OF hu(1)] holds_u32_exact [OF H(7)]
    holds_u32_exact [OF hu(2)] holds_u32_exact [OF hu(3)] holds_u32_exact [OF H(19)]
    holds_u32_refs [OF hu(1), of e] holds_u32_refs [OF hu(2) f(14)]
    holds_u32_refs [OF hu(3), of "max n 1"] holds_u32_refs [OF H(19) f(21)]
  have counts: "sd_count (sec m STRING_TABLE) = ss" "sd_count (sec m NODE_TABLE) = n"
    "sd_count (sec m EDGE_TABLE) = e" "sd_count (sec m PROVENANCE_TABLE) = provs"
    "sd_count (sec m GROUP_TABLE) = n" "sd_count (sec m OUT_CSR_EDGES) = e"
    "sd_count (sec m IN_CSR_EDGES) = e" "sd_count (sec m EXACT_TERM_TABLE) = terms"
    using H(1,2,4,6,8,9,17,18) f(19,23) by (simp_all add: holds_def)
  have c: "counts_ok h m"
    unfolding counts_ok_def CONTEXT_INDEX_FIXED_STRIDE_SECTIONS_def rows
    using m counts h u32 meta nodes edges prov pair l1 l2 l3 l4
    by simp
  have r: "references_all_ok bs h m"
    unfolding references_all_ok_def Let_def
    using counts h u32 meta nodes edges prov pair str f(9,10) outc inc ss
    by simp
  show ?thesis
    unfolding payloads_ok_def
    using c r meta(1) l1(1) l2(1) l3(1) l4(1) counts h nodes edges
    by simp
qed

section \<open>Sizes\<close>

lemma lane_built_size: "lane_built ss n l \<Longrightarrow> length (ls_table l) = 12 * ls_termCount l
    \<and> length (ls_postings l) = 4 * ls_postingCount l"
proof -
  have "length (concat (map term_row_bytes rs)) = 12 * length rs" for rs
    by (induction rs) (auto simp: term_row_bytes_def)
  then show "lane_built ss n l \<Longrightarrow> ?thesis" by (auto simp: lane_built_def)
qed

lemma rows_size: "\<forall>r \<in> set rs. length r = w \<Longrightarrow> 4 \<le> w \<Longrightarrow> 4 * length rs \<le> length (concat rs)"
  using length_concat_stride [of rs w] by simp

text \<open>Every section but the string table has rows of four bytes at least, and so has its offset table.\<close>

definition wide_rows :: "(nat \<rightharpoonup> section_payload) \<Rightarrow> bool" where
  "wide_rows p \<longleftrightarrow> (\<forall>k pl. p k = Some pl \<longrightarrow> 4 * sp_count pl \<le> length (sp_bytes pl))"

lemma wide_rows_empty: "wide_rows Map.empty"
  by (simp add: wide_rows_def)

lemma wide_rows_upd:
  "wide_rows p \<Longrightarrow> 4 * c \<le> length b \<Longrightarrow> wide_rows (p(k \<mapsto> \<lparr>sp_bytes = b, sp_count = c\<rparr>))"
  by (auto simp: wide_rows_def)

lemma payload_sizes:
  shows "4 * length ms \<le> length (metadataTable ms)" "4 * length ps \<le> length (provenanceTable ps)"
    "4 * length qs \<le> length (pairTable qs)"
    "list_all (edge_row_ok n prs) ers \<Longrightarrow> 4 * length ers \<le> length (concat ers)"
    "\<forall>i < length nrs. node_row_ok ss i (nrs ! i) \<Longrightarrow> 4 * length nrs \<le> length (concat nrs)"
    "4 * length bl \<le> length (concat (map (put_le 4) (running_ends 0 bl)) @ concat bl)"
    "lane_built ss n l \<Longrightarrow> 4 * ls_termCount l \<le> length (ls_table l)"
    "lane_built ss n l \<Longrightarrow> 4 * ls_postingCount l \<le> length (ls_postings l)"
proof -
  show "4 * length ms \<le> length (metadataTable ms)" "4 * length ps \<le> length (provenanceTable ps)"
    "4 * length qs \<le> length (pairTable qs)"
    using rows_size [of "map metadata_row_bytes ms" 16] rows_size [of "map provenance_row_bytes ps" 16]
      rows_size [of "map pair_row_bytes qs" 8]
    by (simp_all add: metadataTable_def provenanceTable_def pairTable_def metadata_row_bytes_def
        provenance_row_bytes_def pair_row_bytes_def rows overlay_def)
  show "4 * length ers \<le> length (concat ers)" if "list_all (edge_row_ok n prs) ers"
    using that by (intro rows_size [of _ 16]) (auto simp: edge_row_ok_def list_all_iff)
  show "4 * length nrs \<le> length (concat nrs)" if "\<forall>i < length nrs. node_row_ok ss i (nrs ! i)"
    using that by (intro rows_size [of _ 40]) (auto simp: node_row_ok_def in_set_conv_nth)
  show "4 * length bl \<le> length (concat (map (put_le 4) (running_ends 0 bl)) @ concat bl)"
    using length_u32Section [of "running_ends 0 bl"] by (simp add: u32Section_def)
  show "4 * ls_termCount l \<le> length (ls_table l)" "4 * ls_postingCount l \<le> length (ls_postings l)"
    if "lane_built ss n l"
    using lane_built_size [OF that] by simp_all
qed

lemma dom_upd: "dom (p(k \<mapsto> v)) = insert k (dom p)"
  by simp

lemma payload_counts:
  assumes "payload_facts ss n e p terms provs"
  shows "SECTION_KINDS \<subseteq> dom p" "wide_rows p"
proof -
  show "SECTION_KINDS \<subseteq> dom p"
    using assms unfolding payload_facts_def
  proof (elim exE conjE, goal_cases)
    case 1
    show ?case
      unfolding 1(1) SECTION_KINDS_def CONTEXT_INDEX_REQUIRED_SECTIONS_def list.set insert_subset
        dom_upd
      by (intro conjI empty_subsetI) (rule insertI1 | rule insertI2)+
  qed
  show "wide_rows p"
    using assms unfolding payload_facts_def
  proof (elim exE conjE, goal_cases)
    case (1 str nrs mrs ers outs ins inE prs cyc srcs exact base lex coarse table)
    have z: "4 * ss \<le> length (concat (map (put_le 4) (running_ends 0 (map text_encode table)))
        @ concat (map text_encode table))" "4 * n \<le> length (concat nrs)" "4 * e \<le> length (concat ers)"
      "4 * terms \<le> length (ls_table exact)" "4 * provs \<le> length (provenanceTable prs)"
      using payload_sizes(6) [of "map text_encode table"] payload_sizes(5) [of nrs ss]
        payload_sizes(4) [of n provs ers] payload_sizes(7) [of ss n exact] payload_sizes(2) [of prs] 1(2-)
      by (simp_all del: length_append)
    show ?case
      unfolding 1(1) by (intro wide_rows_upd wide_rows_empty) (simp_all only: z payload_sizes(1-3) payload_sizes(7,8) [of ss n] 1 length_u32Section length_map order_refl length_upt minus_nat.diff_0)
  qed
qed

section \<open>The encoder as a whole\<close>

lemma length_hex_pairs: "length (hex_pairs s) = length s div 2"
  by (induction s rule: hex_pairs.induct) auto

lemma length_hexToBytes [simp]: "length (hexToBytes s n) = n"
  by (auto simp: hexToBytes_def length_hex_pairs Let_def min_def)

lemma section_payloads_strings:
  assumes "section_payloads toString s nix nodes edges cycles prot inval lexical = Inr (p, terms, provs, lx, cs)"
    and "sealed_ok s"
  shows "4 * length (si_table s) \<le> length (payload_at p STRING_TABLE)" "SECTION_KINDS \<subseteq> dom p"
proof -
  note lookup = kinds fun_upd_apply num.simps numeral_eq_iff refl if_True if_False eq_numeral_simps
    one_eq_numeral_iff numeral_eq_one_iff
  from assms(1) obtain str where str: "interner_encode s = Inr str"
    and p: "payload_at p STRING_TABLE = str" and dom: "SECTION_KINDS \<subseteq> dom p"
    unfolding section_payloads_def Let_def payload_at_def SECTION_KINDS_def
      CONTEXT_INDEX_REQUIRED_SECTIONS_def list.set insert_subset
    by (auto simp: kinds split: prod.splits)
  show "4 * length (si_table s) \<le> length (payload_at p STRING_TABLE)"
    using p str assms(2) payload_sizes(6) [of "map text_encode (si_table s)"]
    by (auto simp: interner_encode_def sealed_ok_def Let_def simp del: length_append)
  show "SECTION_KINDS \<subseteq> dom p" by (rule dom)
qed

text \<open>
  What a successful run establishes, read off its guards: the ids are distinct, no edge
  dangles, and the sections are those of \<open>section_payloads\<close> on a sealed interner.
\<close>

lemma encode_run:
  assumes run: "encodeContextIndex toString buildContextLexicon input = Inr w"
  obtains nix s lexical p terms provs lx cs h where
    "wi_lintErrors input = None \<or> wi_lintErrors input = Some []"
    "length (s_nodes (wi_snapshot input)) \<le> maxNodeCount"
    "length (s_edges (wi_snapshot input)) \<le> maxEdgeCount"
    "distinct (map n_id (s_nodes (wi_snapshot input)))"
    "graph_ok nix (s_edges (wi_snapshot input)) (length (s_nodes (wi_snapshot input)))"
    "dom nix = n_id ` set (s_nodes (wi_snapshot input))"
    "\<forall>q < length (s_nodes (wi_snapshot input)). nix (n_id (sort_key n_id (s_nodes (wi_snapshot input)) ! q)) = Some q"
    "\<exists>s0. intern_graph toString nix (sort_key n_id (s_nodes (wi_snapshot input))) (s_edges (wi_snapshot input)) = Inr s0"
    "sealed_ok s"
    "section_payloads toString s nix (sort_key n_id (s_nodes (wi_snapshot input))) (s_edges (wi_snapshot input))
       (s_cycles (wi_snapshot input)) (set (case wi_protectedNodeIds input of None \<Rightarrow> [] | Some ids \<Rightarrow> ids))
       (set (case wi_invalidatedNodeIds input of None \<Rightarrow> [] | Some ids \<Rightarrow> ids)) lexical = Inr (p, terms, provs, lx, cs)"
    "h = \<lparr>ah_schemaRevision = wi_schemaRevision input,
         ah_snapshotHash = hexToBytes (s_snapshotHash (wi_snapshot input)) 32,
         ah_configHash = wi_configHash input,
         ah_nodeCount = length (s_nodes (wi_snapshot input)), ah_edgeCount = length (s_edges (wi_snapshot input)),
         ah_termCount = terms, ah_provenanceCount = provs, ah_stringCount = interner_size s\<rparr>"
    "assemble p h = Inr (wr_assembled w)"
proof -
  let ?nodes = "sort_key n_id (s_nodes (wi_snapshot input))" and ?edges = "s_edges (wi_snapshot input)"
  have lint: "wi_lintErrors input = None \<or> wi_lintErrors input = Some []"
    using run by (auto simp: encodeContextIndex_def Let_def split: if_splits option.splits)
  from run obtain nix s0 lexical s1 p terms provs lx cs where
      caps: "length (s_nodes (wi_snapshot input)) \<le> maxNodeCount" "length ?edges \<le> maxEdgeCount"
    and nix: "index_nodes 0 Map.empty (map n_id ?nodes) = Inr nix"
    and s0: "intern_graph toString nix ?nodes ?edges = Inr s0"
    and s1: "fold_res interner_add (case lexical of None \<Rightarrow> [] | Some b \<Rightarrow> lx_terms b) s0 = Inr s1"
    and pay: "section_payloads toString (interner_seal s1) nix ?nodes ?edges (s_cycles (wi_snapshot input))
        (set (case wi_protectedNodeIds input of None \<Rightarrow> [] | Some ids \<Rightarrow> ids))
        (set (case wi_invalidatedNodeIds input of None \<Rightarrow> [] | Some ids \<Rightarrow> ids)) lexical
      = Inr (p, terms, provs, lx, cs)"
    and out: "assemble p \<lparr>ah_schemaRevision = wi_schemaRevision input,
         ah_snapshotHash = hexToBytes (s_snapshotHash (wi_snapshot input)) 32,
         ah_configHash = wi_configHash input,
         ah_nodeCount = length ?nodes, ah_edgeCount = length ?edges,
         ah_termCount = terms, ah_provenanceCount = provs,
         ah_stringCount = interner_size (interner_seal s1)\<rparr> = Inr (wr_assembled w)"
    unfolding encodeContextIndex_def Let_def
    by (auto simp: rbind_Inr_iff split: if_splits prod.splits)
  note ix = index_nodes_facts [OF nix]
  have "open_ok s0" by (rule ensuresD [OF open_graph s0])
  then have "open_ok s1" by (rule ensuresD [OF open_fold_add s1])
  then have seal: "sealed_ok (interner_seal s1)" using seal_ok by (simp add: open_ok_def)
  have dist: "distinct (map n_id (s_nodes (wi_snapshot input)))"
    using ix by (simp add: distinct_map)
  have dom: "dom nix = n_id ` set (s_nodes (wi_snapshot input))"
  proof -
    have ids: "\<forall>q < length (map n_id ?nodes). nix (map n_id ?nodes ! q) = Some q"
      "\<forall>i. i \<notin> set (map n_id ?nodes) \<longrightarrow> nix i = None" using ix by simp_all
    have "i \<in> dom nix \<longleftrightarrow> i \<in> set (map n_id ?nodes)" for i
      using ids by (metis domIff in_set_conv_nth option.distinct(1))
    then show ?thesis by auto
  qed
  have good: "graph_ok nix ?edges (length (s_nodes (wi_snapshot input)))"
    using ix intern_graph_edges [OF s0] by (auto simp: graph_ok_def)
  have places: "\<forall>q < length (s_nodes (wi_snapshot input)). nix (n_id (?nodes ! q)) = Some q" using ix by simp
  from that [OF lint caps dist good dom places _ seal pay refl] s0 out show thesis by simp
qed

lemma assembled_shape:
  assumes "SECTION_KINDS \<subseteq> dom p" "assemble p h = Inr out"
  obtains head where "ai_bytes out = head @ concat (map encodeSectionDescriptor (file_descs p))
      @ payloads_of p CONTEXT_INDEX_REQUIRED_SECTIONS"
    "ai_sectionBytes out = sizes_of p CONTEXT_INDEX_REQUIRED_SECTIONS" "length head = 104"
proof (rule assemble_bytes [OF assms(1), of h])
  fix head assume "encodeContextIndexHeader (header_of h) = Inr head" "assemble p h = Inr
      \<lparr>ai_bytes = head @ concat (map encodeSectionDescriptor (file_descs p))
        @ payloads_of p CONTEXT_INDEX_REQUIRED_SECTIONS,
       ai_nodeCount = ah_nodeCount h, ai_edgeCount = ah_edgeCount h,
       ai_provenanceCount = ah_provenanceCount h, ai_stringCount = ah_stringCount h,
       ai_sectionBytes = sizes_of p CONTEXT_INDEX_REQUIRED_SECTIONS\<rparr>"
  with assms(2) show thesis
    by (intro that [of head]) (simp_all add: length_encode_header, (drule sym, simp)+)
qed

text \<open>A file assembled from payloads of the right shape, within the limits, opens.\<close>

lemma assembled_payloads_open:
  assumes facts: "payload_facts strings (ah_nodeCount h) (ah_edgeCount h) p (ah_termCount h) (ah_provenanceCount h)"
    and fits: "header_ok (header_of h)" "\<forall>k \<in> SECTION_KINDS. length (payload_at p k) \<le> 2 ^ 29" "strings \<le> 2 ^ 27"
      "length (ai_bytes out) \<le> 2 ^ 33"
    and caps: "ah_nodeCount h \<le> maxNodeCount" "ah_edgeCount h \<le> maxEdgeCount"
      "ah_termCount h \<le> maxTermCount" "ah_provenanceCount h \<le> maxProvenanceCount"
    and out: "assemble p h = Inr out"
  shows "\<exists>r m. openContextIndex (ai_bytes out) (Some (toHex (ah_snapshotHash h))) (Some (toHex (ah_configHash h))) = Inr r
    \<and> file_holds (ai_bytes out) m p \<and> readContextIndexGeometry (ai_bytes out) (header_of h) m = Inr (r_geometry r)"
proof -
  note counts = payload_counts [OF facts]
  have dom: "SECTION_KINDS \<subseteq> dom p" using counts(1) by auto
  obtain head where asm: "ai_bytes out = head @ concat (map encodeSectionDescriptor (file_descs p))
      @ payloads_of p CONTEXT_INDEX_REQUIRED_SECTIONS" "length head = 104"
    using assembled_shape [OF dom out] by metis
  have bound: "sp_count (the (p k)) \<le> maxSectionCountValue \<and> length (payload_at p k) \<le> maxSectionBytes"
    if "k \<in> SECTION_KINDS" for k
  proof -
    from that counts(1) obtain pl where "p k = Some pl" by blast
    with counts(2) that fits(2) show ?thesis
      by (fastforce simp: wide_rows_def payload_at_def limits)
  qed
  have "744 + length (payloads_of p CONTEXT_INDEX_REQUIRED_SECTIONS) \<le> maxFileBytes"
    using fits(4) asm(2)
    by (simp add: asm(1) limits length_concat comp_def sum_list_triv length_required_sections)
  then have ok: "assemblable p h"
    using counts(1) bound caps fits(1) by (simp add: assemblable_def)
  note held = assembled_holds [OF ok out]
  have fh: "file_holds (ai_bytes out) (section_map (file_descs p)) p"
    using held(4) by (fastforce simp: file_holds_def)
  then have mdom: "SECTION_KINDS \<subseteq> dom (section_map (file_descs p))"
    by (auto simp: file_holds_def)
  from written_payloads_ok [OF facts fh counts(1), of "header_of h"] bound caps fits(3)
  have valid: "validateContextIndexPayloads (ai_bytes out) (header_of h) (section_map (file_descs p)) = Inr ()"
    by (simp add: validate_payloads_iff header_of_def limits)
  moreover obtain geo where geo: "readContextIndexGeometry (ai_bytes out) (header_of h)
      (section_map (file_descs p)) = Inr geo"
    by (rule geometry_total [OF mdom])
  moreover have "snapshotHash (header_of h) = ah_snapshotHash h" "configHash (header_of h) = ah_configHash h"
    by (simp_all add: header_of_def)
  ultimately show ?thesis
    using held(1-3) fh by (auto simp: openContextIndex_def)
qed

text \<open>What the encoder emits opens, and its sections hold the payloads they were built from.\<close>

lemma encoder_file_opens:
  assumes run: "encodeContextIndex toString buildContextLexicon input = Inr w"
    and schema: "wi_schemaRevision input < 2 ^ 16" and config: "length (wi_configHash input) = 32"
    and md: "\<forall>node \<in> set (s_nodes (wi_snapshot input)). distinct (map fst (n_metadata node))"
    and sizes: "\<forall>(k, size) \<in> set (ai_sectionBytes (wr_assembled w)). size \<le> 2 ^ 29"
      "length (ai_bytes (wr_assembled w)) \<le> 2 ^ 33"
  obtains r m s nix lexical p terms provs lx cs where
    "openContextIndex (ai_bytes (wr_assembled w))
      (Some (toHex (hexToBytes (s_snapshotHash (wi_snapshot input)) 32))) (Some (toHex (wi_configHash input))) = Inr r"
    "g_nodeCount (r_geometry r) = length (s_nodes (wi_snapshot input))"
    "g_edgeCount (r_geometry r) = length (s_edges (wi_snapshot input))"
    "file_holds (ai_bytes (wr_assembled w)) m p" "g_bytes (r_geometry r) = ai_bytes (wr_assembled w)"
    "\<exists>h. readContextIndexGeometry (ai_bytes (wr_assembled w)) h m = Inr (r_geometry r)"
    "sealed_ok s" "section_payloads toString s nix (sort_key n_id (s_nodes (wi_snapshot input))) (s_edges (wi_snapshot input))
       (s_cycles (wi_snapshot input)) (set (case wi_protectedNodeIds input of None \<Rightarrow> [] | Some ids \<Rightarrow> ids))
       (set (case wi_invalidatedNodeIds input of None \<Rightarrow> [] | Some ids \<Rightarrow> ids)) lexical = Inr (p, terms, provs, lx, cs)"
    "\<And>k. k \<in> SECTION_KINDS \<Longrightarrow> length (payload_at p k) \<le> 2 ^ 29"
    "graph_ok nix (s_edges (wi_snapshot input)) (length (s_nodes (wi_snapshot input)))"
    "\<forall>q < length (s_nodes (wi_snapshot input)). nix (n_id (sort_key n_id (s_nodes (wi_snapshot input)) ! q)) = Some q"
    "dom nix = n_id ` set (s_nodes (wi_snapshot input))"
proof -
  let ?n = "length (s_nodes (wi_snapshot input))" and ?e = "length (s_edges (wi_snapshot input))"
  from run obtain nix s lexical p terms provs lx cs h where
      caps: "?n \<le> maxNodeCount" "?e \<le> maxEdgeCount"
    and g: "graph_ok nix (s_edges (wi_snapshot input)) ?n" "dom nix = n_id ` set (s_nodes (wi_snapshot input))"
    and places: "\<forall>q < ?n. nix (n_id (sort_key n_id (s_nodes (wi_snapshot input)) ! q)) = Some q"
    and s: "sealed_ok s"
    and pay: "section_payloads toString s nix (sort_key n_id (s_nodes (wi_snapshot input))) (s_edges (wi_snapshot input))
       (s_cycles (wi_snapshot input)) (set (case wi_protectedNodeIds input of None \<Rightarrow> [] | Some ids \<Rightarrow> ids))
       (set (case wi_invalidatedNodeIds input of None \<Rightarrow> [] | Some ids \<Rightarrow> ids)) lexical = Inr (p, terms, provs, lx, cs)"
    and h: "h = \<lparr>ah_schemaRevision = wi_schemaRevision input,
         ah_snapshotHash = hexToBytes (s_snapshotHash (wi_snapshot input)) 32,
         ah_configHash = wi_configHash input, ah_nodeCount = ?n, ah_edgeCount = ?e,
         ah_termCount = terms, ah_provenanceCount = provs, ah_stringCount = interner_size s\<rparr>"
    and out: "assemble p h = Inr (wr_assembled w)"
    by (rule encode_run)
  note strs = section_payloads_strings [OF pay s]
  have "ai_sectionBytes (wr_assembled w) = sizes_of p CONTEXT_INDEX_REQUIRED_SECTIONS"
    by (rule assembled_shape [OF strs(2) out])
  then have small: "length (payload_at p k) \<le> 2 ^ 29" if "k \<in> SECTION_KINDS" for k
    using sizes(1) that by (auto simp: sizes_of_def SECTION_KINDS_def)
  have ss: "length (si_table s) \<le> 2 ^ 27"
    using strs(1) small [OF kinds_all, of STRING_TABLE] by simp
  have facts: "payload_facts (length (si_table s)) ?n ?e p terms provs" "terms \<le> maxTermCount"
    "provs \<le> maxProvenanceCount"
    using section_payloads_facts [OF pay s] ss g caps md by (auto simp: dom_def)
  have "header_ok (header_of h)"
    using caps schema config facts(2,3) ss by (simp add: header_ok_def header_of_def h limits)
  then obtain r m where r: "openContextIndex (ai_bytes (wr_assembled w)) (Some (toHex (ah_snapshotHash h)))
        (Some (toHex (ah_configHash h))) = Inr r" "file_holds (ai_bytes (wr_assembled w)) m p"
      "readContextIndexGeometry (ai_bytes (wr_assembled w)) (header_of h) m = Inr (r_geometry r)"
    using assembled_payloads_open [of "length (si_table s)" h p "wr_assembled w"] facts small ss caps sizes(2) out
    by (auto simp: h)
  have fields: "g_nodeCount (r_geometry r) = ?n" "g_edgeCount (r_geometry r) = ?e"
    "g_bytes (r_geometry r) = ai_bytes (wr_assembled w)"
    using geometry_fields [OF r(3)] by (simp_all add: header_of_def h)
  show thesis
    using that [OF _ fields(1,2) r(2) fields(3) _ s pay small g(1) places g(2)] r(1,3) by (auto simp: h)
qed

text \<open>
  C1. An index that \<open>encodeContextIndex\<close> emits is opened by \<open>openContextIndex\<close>, against the
  snapshot hash and the configuration hash it was built from, with the node and edge counts
  of the snapshot. The conditions are those of the format's fields: a 16-bit schema
  revision, a configuration hash of 32 bytes, sections of at most 2^29 bytes and a file of
  at most 2^33 bytes; and the metadata of a node is a dictionary (its keys are distinct).
\<close>

theorem encoded_index_opens:
  assumes run: "encodeContextIndex toString buildContextLexicon input = Inr w"
    and schema: "wi_schemaRevision input < 2 ^ 16" and config: "length (wi_configHash input) = 32"
    and md: "\<forall>node \<in> set (s_nodes (wi_snapshot input)). distinct (map fst (n_metadata node))"
    and sizes: "\<forall>(k, size) \<in> set (ai_sectionBytes (wr_assembled w)). size \<le> 2 ^ 29"
      "length (ai_bytes (wr_assembled w)) \<le> 2 ^ 33"
  shows "\<exists>r. openContextIndex (ai_bytes (wr_assembled w))
      (Some (toHex (hexToBytes (s_snapshotHash (wi_snapshot input)) 32))) (Some (toHex (wi_configHash input))) = Inr r
    \<and> g_nodeCount (r_geometry r) = length (s_nodes (wi_snapshot input))
    \<and> g_edgeCount (r_geometry r) = length (s_edges (wi_snapshot input))"
  by (rule encoder_file_opens [OF assms]) blast

end
