(* ===== verification/Writer_Example.thy ===== *)
theory Writer_Example
  imports Writer_Opens
begin

text \<open>
  A snapshot of one node and one edge, encoded: every stage of the encoder is evaluated but
  the checksums, which are left to the assembler's own lemma.
\<close>

definition tiny_node :: "unit ContextGraphNode" where
  "tiny_node = \<lparr>n_id = [97], n_kind = Kind_command, n_label = [98], n_path = Some [99], n_locator = None,
     n_contentHash = None, n_trust = Finite 1, n_freshness = Fresh, n_risk = Low,
     n_tokenCost = Finite 3, n_metadata = [([107], Meta_string [118])]\<rparr>"

definition tiny_edge :: ContextGraphEdge where
  "tiny_edge = \<lparr>e_id = [101], e_from = [97], e_to = [97], e_type = Imports, e_confidence = Exact,
     e_provenance = \<lparr>p_path = [99], p_line = None, p_hash = [104], p_extractor = [120]\<rparr>,
     e_observedAt = []\<rparr>"

definition tiny_cycle :: ContextGraphCycle where
  "tiny_cycle = \<lparr>cy_id = js ''cycle:'', cy_nodes = [[97]]\<rparr>"

definition tiny_input :: "(unit, unit) ContextIndexWriteInput" where
  "tiny_input = \<lparr>wi_snapshot = \<lparr>s_schema = js ''sks.context-graph.v1'', s_schemaRevision = js ''1.0.0'',
       s_snapshotHash = [], s_nodes = [tiny_node], s_edges = [tiny_edge], s_cycles = [tiny_cycle], s_extractors = [],
       s_nodeCount = 1, s_edgeCount = 1\<rparr>,
     wi_configHash = replicate 32 0, wi_schemaRevision = 1, wi_lintErrors = None,
     wi_protectedNodeIds = None, wi_invalidatedNodeIds = None, wi_lexicon = None\<rparr>"

text \<open>No number occurs in the metadata, and no lexicon is built.\<close>

definition no_number :: "unit \<Rightarrow> js_string" where
  "no_number x = []"

definition no_lexicon :: "ContextLexiconDocument list \<Rightarrow> unit \<Rightarrow> ContextLexiconBuildResult res" where
  "no_lexicon documents config = Inl Type_error"

section \<open>The interner\<close>

definition tiny_interner :: StringInterner where
  "tiny_interner = \<lparr>si_values = [[97], [98], [99], [107], [118], [104], [120]], si_table = [],
     si_index = Map.empty, si_sealed = False\<rparr>"

definition tiny_sealed :: StringInterner where
  "tiny_sealed = \<lparr>si_values = [[97], [98], [99], [107], [118], [104], [120]],
     si_table = [[97], [98], [99], [104], [107], [118], [120]],
     si_index = map_of (zip [[97], [98], [99], [104], [107], [118], [120]] [0..<7]), si_sealed = True\<rparr>"

lemmas code_tables = NODE_KIND_CODE_def FRESHNESS_CODE_def RISK_CODE_def EDGE_TYPE_CODE_def
  CONFIDENCE_CODE_def code_map_def CONTEXT_GRAPH_NODE_KINDS_def FRESHNESS_CODES_def RISK_CODES_def
  CONTEXT_GRAPH_EDGE_TYPES_def CONFIDENCE_CODES_def

lemma tiny_path: "isWorkspaceRelativePosixPath [99]"
  by (simp add: isWorkspaceRelativePosixPath_def drive_prefix_def js_def)

lemma tiny_intern: "intern_graph no_number [[97] \<mapsto> 0] [tiny_node] [tiny_edge] = Inr tiny_interner"
  by (simp add: tiny_node_def tiny_edge_def intern_graph_def tiny_interner_def intern_node_def intern_edge_def
      code_tables tiny_path interner_add_def new_interner_def intern_entry_def contextIndexMetadataCells_def set_add_def)

lemma tiny_seal: "interner_seal tiny_interner = tiny_sealed"
  by (simp add: tiny_interner_def tiny_sealed_def interner_seal_def upt_rec)

lemma tiny_ids: "interner_idOf tiny_sealed [97] = Inr 0" "interner_idOf tiny_sealed [98] = Inr 1"
  "interner_idOf tiny_sealed [99] = Inr 2" "interner_idOf tiny_sealed [104] = Inr 3"
  "interner_idOf tiny_sealed [107] = Inr 4" "interner_idOf tiny_sealed [118] = Inr 5"
  "interner_idOf tiny_sealed [120] = Inr 6"
  by (simp_all add: tiny_sealed_def interner_idOf_def upt_rec)

lemma tiny_encoded: "length (text_encode [97]) = 1" "length (text_encode [98]) = 1"
  "length (text_encode [99]) = 1" "length (text_encode [104]) = 1" "length (text_encode [107]) = 1"
  "length (text_encode [118]) = 1" "length (text_encode [120]) = 1"
  by (simp_all add: text_encode_def utf8_point_def high_surrogate_def low_surrogate_def utf8_point_nat_def)

lemma tiny_strings: "\<exists>st. interner_encode tiny_sealed = Inr st \<and> length st \<le> 100"
  by (simp add: interner_encode_def tiny_sealed_def Let_def tiny_encoded)

section \<open>The rows\<close>

lemma tiny_order:
  "order_edges [[97] \<mapsto> 0] [tiny_edge] = [\<lparr>oe_edge = tiny_edge, oe_from = 0, oe_to = 0\<rparr>]"
  by (simp add: order_edges_def tiny_edge_def)

lemma tiny_node_row:
  "\<exists>r m. write_node no_number tiny_sealed {} {} (tiny_node, 0) = Inr (r, [m]) \<and> length r = 40"
  by (simp add: tiny_node_def write_node_def node_row_def tiny_ids interner_idOrSentinel_def
      entry_rows_def contextIndexMetadataCells_def Let_def)

lemma tiny_edge_row:
  "\<exists>er px. write_edges tiny_sealed [\<lparr>oe_edge = tiny_edge, oe_from = 0, oe_to = 0\<rparr>]
       \<lparr>pi_rows = [], pi_index = Map.empty\<rparr> = Inr ([er], px)
     \<and> length er = 16 \<and> length (provenanceTable (pi_rows px)) = 16"
  by (simp add: provenance_row_of_def tiny_ids tiny_edge_def provenanceIdFor_def edge_row_bytes_def
      provenanceTable_def provenance_row_bytes_def)

lemma tiny_entries:
  "exact_entries tiny_sealed [tiny_node] = Inr [(0, 0)]"
  "basename_entries tiny_sealed [[97] \<mapsto> 0] [tiny_node] = Inr [(2, 0)]"
  "source_hash_rows tiny_sealed [tiny_node] = Inr []"
  by (simp_all add: exact_entries_def basename_entries_def source_hash_rows_def tiny_node_def tiny_ids)

lemma tiny_terms: "termTable [(a, b)] = \<lparr>ls_table = term_row_bytes (a, 0, 1),
    ls_postings = u32Section [b], ls_termCount = 1, ls_postingCount = 1\<rparr>"
  by (simp add: termTable_def Let_def)

lemma tiny_payloads:
  "\<exists>p t pv. section_payloads no_number tiny_sealed [[97] \<mapsto> 0] [tiny_node] [tiny_edge] [tiny_cycle] {} {} None
      = Inr (p, t, pv, EMPTY_CONTEXT_INDEX_LANE, EMPTY_CONTEXT_INDEX_LANE)
    \<and> list_all (\<lambda>k. length (payload_at p k) \<le> 100) [1..<21]"
proof -
  obtain r m where node: "write_node no_number tiny_sealed {} {} (tiny_node, 0) = Inr (r, [m])" "length r = 40"
    using tiny_node_row by blast
  obtain er px where edge: "write_edges tiny_sealed [\<lparr>oe_edge = tiny_edge, oe_from = 0, oe_to = 0\<rparr>]
      \<lparr>pi_rows = [], pi_index = Map.empty\<rparr> = Inr ([er], px)"
    "length er = 16" "length (provenanceTable (pi_rows px)) = 16" using tiny_edge_row by blast
  obtain st where st: "interner_encode tiny_sealed = Inr st" "length st \<le> 100" using tiny_strings by blast
  have nodes: "map_res (write_node no_number tiny_sealed {} {}) (zip [tiny_node] [0..<length [tiny_node]]) = Inr [(r, [m])]"
    using node(1) by simp
  have cycles: "cycle_rows [[97] \<mapsto> 0] [tiny_cycle] = [0]" by (simp add: cycle_rows_def tiny_cycle_def)
  have csr: "length (csrOffsets [0] 1) = 2" using csr_offsets_shape [of "[0]" 1] by simp
  have meta: "length (metadataTable (metadata_sort [m])) = 16"
    by (simp add: metadata_sort_def metadataTable_def metadata_row_bytes_def rows overlay_def)
  show ?thesis
    unfolding section_payloads_def tiny_order Let_def
    apply (simp only: nodes edge(1) tiny_entries rbind_def sum.case list.map prod.case encode_lane_def
        option.map option.case cycles st(1) ordered_edge.simps sum.inject prod.inject simp_thms)
    apply (intro exI conjI, rule refl, rule refl, rule refl)
    using node(2) edge(2,3) st(2) csr meta
    apply (simp add: kinds payload_at_def upt_rec tiny_terms term_row_bytes_def
        EMPTY_CONTEXT_INDEX_LANE_def pairTable_def)
    done
qed

section \<open>The file\<close>

lemma tiny_encodes:
  "\<exists>w. encodeContextIndex no_number no_lexicon tiny_input = Inr w
     \<and> (\<forall>(k, size) \<in> set (ai_sectionBytes (wr_assembled w)). size \<le> 2 ^ 29)
     \<and> length (ai_bytes (wr_assembled w)) \<le> 2 ^ 33"
proof -
  obtain p t pv where pay: "section_payloads no_number tiny_sealed [[97] \<mapsto> 0] [tiny_node] [tiny_edge] [tiny_cycle] {} {} None
      = Inr (p, t, pv, EMPTY_CONTEXT_INDEX_LANE, EMPTY_CONTEXT_INDEX_LANE)"
    and small: "list_all (\<lambda>k. length (payload_at p k) \<le> 100) [1..<21]"
    using tiny_payloads by blast
  have "sealed_ok tiny_sealed" by (simp add: sealed_ok_def tiny_sealed_def upt_rec)
  note dom = section_payloads_strings(2) [OF pay this]
  let ?h = "\<lparr>ah_schemaRevision = 1, ah_snapshotHash = hexToBytes [] 32, ah_configHash = replicate 32 0,
    ah_nodeCount = 1, ah_edgeCount = 1, ah_termCount = t, ah_provenanceCount = pv,
    ah_stringCount = interner_size tiny_sealed\<rparr>"
  obtain head where head: "encodeContextIndexHeader (header_of ?h) = Inr head"
    and asm: "assemble p ?h = Inr \<lparr>ai_bytes = head @ concat (map encodeSectionDescriptor (file_descs p))
        @ payloads_of p CONTEXT_INDEX_REQUIRED_SECTIONS,
      ai_nodeCount = ah_nodeCount ?h, ai_edgeCount = ah_edgeCount ?h,
      ai_provenanceCount = ah_provenanceCount ?h, ai_stringCount = ah_stringCount ?h,
      ai_sectionBytes = sizes_of p CONTEXT_INDEX_REQUIRED_SECTIONS\<rparr>" (is "_ = Inr ?a")
    by (rule assemble_bytes [OF dom])
  have ix: "index_nodes 0 Map.empty (map n_id [tiny_node]) = Inr [[97] \<mapsto> 0]"
    by (simp add: tiny_node_def)
  have enc: "encodeContextIndex no_number no_lexicon tiny_input = Inr \<lparr>wr_assembled = ?a, wr_lexicon = None\<rparr>"
    using ix tiny_intern tiny_seal pay asm
    by (simp add: encodeContextIndex_def tiny_input_def limits Let_def)
  have "\<forall>(k, size) \<in> set (sizes_of p CONTEXT_INDEX_REQUIRED_SECTIONS). size \<le> 100"
    using small by (auto simp: sizes_of_def list_all_iff required_sections_upt)
  moreover have "length (payloads_of p CONTEXT_INDEX_REQUIRED_SECTIONS) \<le> 2000"
    using small by (simp add: payloads_of_def required_sections_upt upt_rec)
  ultimately show ?thesis
    using enc head length_encode_header [OF head]
    by (fastforce simp: length_concat comp_def sum_list_triv length_required_sections)
qed

theorem encoded_index_opens_witness:
  "\<exists>w r. encodeContextIndex no_number no_lexicon tiny_input = Inr w
     \<and> openContextIndex (ai_bytes (wr_assembled w)) (Some (toHex (hexToBytes [] 32)))
         (Some (toHex (replicate 32 0))) = Inr r
     \<and> g_nodeCount (r_geometry r) = 1 \<and> g_edgeCount (r_geometry r) = 1"
proof -
  obtain w where w: "encodeContextIndex no_number no_lexicon tiny_input = Inr w"
    "\<forall>(k, size) \<in> set (ai_sectionBytes (wr_assembled w)). size \<le> 2 ^ 29"
    "length (ai_bytes (wr_assembled w)) \<le> 2 ^ 33" using tiny_encodes by blast
  from encoded_index_opens [OF w(1) _ _ _ w(2,3)] w(1) show ?thesis
    by (auto simp: tiny_input_def tiny_node_def)
qed

end
