(* ===== verification/Writer_Topology.thy ===== *)
theory Writer_Topology
  imports Writer_Opens Reader
begin

text \<open>
  The string table of an encoded index, read back: every id decodes, to the interned string
  itself when that string is one the codecs carry unchanged.
\<close>

section \<open>Decoding what was encoded\<close>

text \<open>What decoding makes of the encoding of any string: lone surrogates are replaced, a byte order mark goes.\<close>

lemma decode_encoded: "\<exists>t. text_decode (text_encode s) = Inr t"
proof (cases "take 3 (text_encode s) = [239, 187, 191]")
  case True
  then obtain c cs where cs: "code_points s = c # cs" by (cases "code_points s") (auto simp: text_encode_def)
  with True have "take 3 (utf8_point c @ concat (map utf8_point cs)) = [239, 187, 191]"
    by (simp add: text_encode_def)
  moreover have "\<forall>d \<in> set (c # cs). scalar d" using cs scalar_code_points [of _ s] by auto
  ultimately have c: "c = 65279" and scalars: "\<forall>d \<in> set cs. scalar d" using utf8_point_bom by auto
  have "length (utf8_point c) = 3" by (simp add: c utf8_point_def utf8_point_nat_def)
  then have "drop 3 (text_encode s) = concat (map utf8_point cs)" by (simp add: text_encode_def cs)
  then show ?thesis using utf8_points_encode [OF scalars, of "[]"] True by (simp add: text_decode_def)
next
  case False
  then show ?thesis using utf8_points_text_encode [of s "[]"] by (simp add: text_decode_def)
qed

section \<open>The string table\<close>

lemma written_string:
  assumes geo: "readContextIndexGeometry bs h m = Inr g"
    and table: "holds bs (sec m STRING_TABLE) (concat (map (put_le 4) (running_ends 0 bl)) @ concat bl) (length bl)"
    and small: "sd_length (sec m STRING_TABLE) \<le> 2 ^ 32" and i: "i < length bl"
  shows "stringAt g i = text_decode (bl ! i)"
proof -
  let ?d = "sec m STRING_TABLE"
  note g = geometry_fields [OF geo]
  note rows = string_section_ends [OF table small]
  have len: "sd_offset ?d + sd_length ?d \<le> length bs" "sd_count ?d = length bl"
    using table by (simp_all add: holds_def sd_end_def)
  have "get_u32 bs (sd_offset ?d + k * 4) = Inr (u32_row bs ?d k)" if "k < length bl" for k
    using that rows(3) len(1) by (simp add: u32_row_def get_le_ok)
  then have read: "k < length bl \<Longrightarrow> get_u32 (g_bytes g) (g_stringIndexBase g + k * 4) = Inr (u32_row bs ?d k)" for k
    by (simp add: g)
  have start: "(if i = 0 then Inr 0 else get_u32 (g_bytes g) (g_stringIndexBase g + (i - 1) * 4)) = Inr (string_start bs ?d i)"
    using read [of "i - 1"] i by (simp add: string_start_def)
  have "stringAt g i = text_decode (bslice bs (sd_offset ?d + length bl * 4 + length (concat (take i bl)))
      (sd_offset ?d + length bl * 4 + length (concat (take (Suc i) bl))))"
    unfolding stringAt_def start read [OF i] rbind_simps using i len(2) by (simp add: g rows(1,2))
  then show ?thesis using string_section_blob [OF table i] by simp
qed

section \<open>The strings of an encoded index\<close>

lemma string_payload:
  assumes "section_payloads toString s nix nodes edges cycles prot inval lexical = Inr (p, terms, provs, lx, cs)"
    and "sealed_ok s"
  shows "p STRING_TABLE = Some \<lparr>sp_bytes = concat (map (put_le 4) (running_ends 0 (map text_encode (si_table s))))
      @ concat (map text_encode (si_table s)), sp_count = length (si_table s)\<rparr>"
  using assms unfolding section_payloads_def Let_def
  by (auto simp: kinds interner_encode_def interner_size_def sealed_ok_def Let_def split: prod.splits)

lemma encoder_strings:
  assumes run: "encodeContextIndex toString buildContextLexicon input = Inr w"
    and schema: "wi_schemaRevision input < 2 ^ 16" and config: "length (wi_configHash input) = 32"
    and md: "\<forall>node \<in> set (s_nodes (wi_snapshot input)). distinct (map fst (n_metadata node))"
    and sizes: "\<forall>(k, size) \<in> set (ai_sectionBytes (wr_assembled w)). size \<le> 2 ^ 29"
      "length (ai_bytes (wr_assembled w)) \<le> 2 ^ 33"
  obtains r s where "openContextIndex (ai_bytes (wr_assembled w))
      (Some (toHex (hexToBytes (s_snapshotHash (wi_snapshot input)) 32))) (Some (toHex (wi_configHash input))) = Inr r"
    "g_nodeCount (r_geometry r) = length (s_nodes (wi_snapshot input))"
    "sealed_ok s" "g_stringCount (r_geometry r) = length (si_table s)"
    "\<And>i. i < length (si_table s) \<Longrightarrow> stringAt (r_geometry r) i = text_decode (text_encode (si_table s ! i))"
proof (rule encoder_file_opens [OF assms])
  fix r m nix lexical p terms provs lx cs and s :: StringInterner
  let ?bs = "ai_bytes (wr_assembled w)" and ?bl = "map text_encode (si_table s)"
  assume r: "openContextIndex ?bs (Some (toHex (hexToBytes (s_snapshotHash (wi_snapshot input)) 32)))
      (Some (toHex (wi_configHash input))) = Inr r" "g_nodeCount (r_geometry r) = length (s_nodes (wi_snapshot input))"
    and fh: "file_holds ?bs m p" and geo: "\<exists>h. readContextIndexGeometry ?bs h m = Inr (r_geometry r)" and s: "sealed_ok s"
    and pay: "section_payloads toString s nix (sort_key n_id (s_nodes (wi_snapshot input))) (s_edges (wi_snapshot input))
       (s_cycles (wi_snapshot input)) (set (case wi_protectedNodeIds input of None \<Rightarrow> [] | Some ids \<Rightarrow> ids))
       (set (case wi_invalidatedNodeIds input of None \<Rightarrow> [] | Some ids \<Rightarrow> ids)) lexical = Inr (p, terms, provs, lx, cs)"
    and small: "\<And>k. k \<in> SECTION_KINDS \<Longrightarrow> length (payload_at p k) \<le> 2 ^ 29"
  from geo obtain h where geo: "readContextIndexGeometry ?bs h m = Inr (r_geometry r)" by blast
  have table: "holds ?bs (sec m STRING_TABLE) (concat (map (put_le 4) (running_ends 0 ?bl)) @ concat ?bl) (length ?bl)"
    using file_holds_sec [OF fh kinds_all string_payload [OF pay s]] by simp
  have "sd_length (sec m STRING_TABLE) = length (payload_at p STRING_TABLE)"
    using table string_payload [OF pay s] by (simp add: holds_def payload_at_def)
  then have "sd_length (sec m STRING_TABLE) \<le> 2 ^ 32" using small [OF kinds_all, of STRING_TABLE] by simp
  from written_string [OF geo table this] have
    "stringAt (r_geometry r) i = text_decode (text_encode (si_table s ! i))" if "i < length (si_table s)" for i
    using that by simp
  moreover have "g_stringCount (r_geometry r) = length (si_table s)"
    using geometry_fields [OF geo] table by (simp add: holds_def)
  ultimately show thesis using that r s by blast
qed


section \<open>Adjacency\<close>

text \<open>
  The graph of a snapshot, read back through the reader: the two adjacency tables the encoder
  writes hold, for every node, exactly the edges that leave it and the edges that reach it.
\<close>

section \<open>Buckets of a sorted list\<close>

lemma count_fold:
  "\<forall>b \<in> set bs. b < length cs \<Longrightarrow> i < length cs \<Longrightarrow>
     fold (\<lambda>b counts. counts[b := counts ! b + 1]) bs cs ! i = cs ! i + length (filter (\<lambda>b. b = i) bs)"
  for cs :: "nat list"
proof (induction bs arbitrary: cs)
  case (Cons b bs)
  have "\<forall>x \<in> set bs. x < length (cs[b := cs ! b + 1])" using Cons.prems by simp
  from Cons.IH [OF this] Cons.prems show ?case by (auto simp: nth_list_update)
qed simp

lemma csr_offset_counts:
  assumes "\<forall>b \<in> set bs. b < n" "i \<le> n"
  shows "csrOffsets bs n ! i = length (filter (\<lambda>b. b < i) bs)"
proof -
  note c = csr_counts [OF assms(1)]
  have "sum_list (take i (csrOffsets_counts bs n)) = length (filter (\<lambda>b. b < i) bs)"
    using assms(2)
  proof (induction i)
    case (Suc i)
    have "csrOffsets_counts bs n ! i = length (filter (\<lambda>b. b = i) bs)"
      using count_fold [of bs "replicate n 0" i] assms(1) Suc.prems by (simp add: csrOffsets_counts_def)
    moreover have "length (filter (\<lambda>b. b < Suc i) bs) = length (filter (\<lambda>b. b < i) bs) + length (filter (\<lambda>b. b = i) bs)"
      by (induction bs) auto
    ultimately show ?case using Suc c by (simp add: take_Suc_conv_app_nth)
  qed simp
  then show ?thesis using assms(2) c by (simp add: csrOffsets_def running_offsets_nth)
qed

lemma sorted_below:
  assumes "sorted bs" "s < length bs"
  shows "bs ! s < i \<longleftrightarrow> s < length (filter (\<lambda>b. b < i) bs)"
  using assms
proof (induction bs arbitrary: s)
  case (Cons b bs)
  show ?case
  proof (cases "b < i")
    case True
    with Cons show ?thesis by (cases s) auto
  next
    case False
    with Cons.prems have "\<forall>x \<in> set (b # bs). \<not> x < i" by auto
    then have "filter (\<lambda>b. b < i) (b # bs) = []" by (simp add: filter_empty_conv)
    with \<open>\<forall>x \<in> set (b # bs). \<not> x < i\<close> Cons.prems(2) show ?thesis by (metis gr_implies_not_zero list.size(3) nth_mem)
  qed
qed simp

lemma sorted_bucket:
  assumes "sorted bs" "\<forall>b \<in> set bs. b < n" "i < n"
  shows "[csrOffsets bs n ! i ..< csrOffsets bs n ! (i + 1)] = filter (\<lambda>s. bs ! s = i) [0..<length bs]"
proof (rule sorted_distinct_set_unique)
  have ends: "csrOffsets bs n ! (i + 1) \<le> length bs" "csrOffsets bs n ! i = length (filter (\<lambda>b. b < i) bs)"
    "csrOffsets bs n ! (i + 1) = length (filter (\<lambda>b. b < Suc i) bs)"
    using csr_offsets_shape(4) [OF assms(2), of "i + 1"] csr_offset_counts [OF assms(2)] assms(3) by simp_all
  have "s \<in> set [csrOffsets bs n ! i ..< csrOffsets bs n ! (i + 1)] \<longleftrightarrow> s < length bs \<and> bs ! s = i" for s
  proof (cases "s < length bs")
    case True
    then show ?thesis
      using sorted_below [OF assms(1) True, of i] sorted_below [OF assms(1) True, of "Suc i"] True
      unfolding ends(2,3) by (simp only: set_upt atLeastLessThan_iff) linarith
  qed (use ends(1) in auto)
  then show "set [csrOffsets bs n ! i ..< csrOffsets bs n ! (i + 1)] = set (filter (\<lambda>s. bs ! s = i) [0..<length bs])"
    unfolding set_eq_iff by (simp only: set_filter set_upt mem_Collect_eq atLeastLessThan_iff) simp
qed (simp_all add: sorted_wrt_filter)

text \<open>The incoming order: by target, then by edge.\<close>

lemma filter_nth_map: "map (\<lambda>s. xs ! s) (filter (\<lambda>s. P (xs ! s)) [0..<length xs]) = filter P xs"
proof -
  have "filter P xs = filter P (map (\<lambda>s. xs ! s) [0..<length xs])" by (simp only: map_nth)
  then show ?thesis by (simp add: filter_map comp_def)
qed

lemma incoming_bucket:
  fixes ts :: "nat list"
  defines "order \<equiv> sort (zip ts [0..<length ts])"
  shows "map (\<lambda>s. snd (order ! s)) (filter (\<lambda>s. fst (order ! s) = t) [0..<length order])
    = filter (\<lambda>e. ts ! e = t) [0..<length ts]"
proof -
  let ?P = "\<lambda>p. fst p = t"
  have zip: "zip ts [0..<length ts] = map (\<lambda>e. (ts ! e, e)) [0..<length ts]"
    by (intro nth_equalityI) simp_all
  have f: "filter ?P (zip ts [0..<length ts]) = map (\<lambda>e. (t, e)) (filter (\<lambda>e. ts ! e = t) [0..<length ts])"
    unfolding zip filter_map comp_def by simp
  have "sorted (map (\<lambda>e. (t, e)) (filter (\<lambda>e. ts ! e = t) [0..<length ts]))"
    by (simp add: sorted_map sorted_wrt_filter less_eq_prod_def sorted_wrt_filter [OF sorted_upt])
  then have "filter ?P order = map (\<lambda>e. (t, e)) (filter (\<lambda>e. ts ! e = t) [0..<length ts])"
    unfolding order_def filter_sort f by (simp add: sorted_sort_id)
  moreover have "map (\<lambda>s. snd (order ! s)) (filter (\<lambda>s. fst (order ! s) = t) [0..<length order])
      = map snd (filter ?P order)"
    using filter_nth_map [of order ?P] by (metis (no_types, lifting) comp_def list.map_comp map_cong)
  ultimately show ?thesis by (simp add: comp_def)
qed

section \<open>The written edges\<close>

lemma write_edges_rows:
  "write_edges s es pix = Inr (rs, pix') \<Longrightarrow> length rs = length es \<and> (\<forall>r \<in> set rs. length r = 16)
     \<and> (\<forall>i < length es. le_at 4 (rs ! i) 0 = oe_to (es ! i) mod 2 ^ 32 \<and> le_at 2 (rs ! i) 12 = 0xffff)"
proof (induction es arbitrary: pix rs)
  case (Cons e es)
  from Cons.prems obtain row where row: "provenance_row_of s (e_provenance (oe_edge e)) = Inr row"
    by (cases "provenance_row_of s (e_provenance (oe_edge e))") auto
  obtain prov pix1 where prov: "provenanceIdFor row pix = (prov, pix1)" by fastforce
  define r where "r = edge_row_bytes (oe_to e) (the (EDGE_TYPE_CODE (e_type (oe_edge e))))
           (the (CONFIDENCE_CODE (e_confidence (oe_edge e)))) prov"
  from Cons.prems row prov obtain rs' where rest: "write_edges s es pix1 = Inr (rs', pix')" and rs: "rs = r # rs'"
    by (auto simp: r_def)
  have "length r = 16" "le_at 4 r 0 = oe_to e mod 2 ^ 32" "le_at 2 r 12 = 0xffff"
    by (simp_all add: r_def edge_row_bytes_def CONTEXT_INDEX_PROFILE_MASK_RESERVED_def byte_simps
        del: One_nat_def put_le.simps)
  with Cons.IH [OF rest] show ?case by (auto simp: rs nth_Cons split: nat.split)
qed simp

lemma edge_payloads:
  assumes "section_payloads toString s nix nodes edges cycles prot inval lexical = Inr (p, terms, provs, lx, cs)"
  obtains rs pix where
    "write_edges s (order_edges nix edges) \<lparr>pi_rows = [], pi_index = Map.empty\<rparr> = Inr (rs, pix)"
    "p EDGE_TABLE = Some \<lparr>sp_bytes = concat rs, sp_count = length (order_edges nix edges)\<rparr>"
    "p OUT_CSR_OFFSETS = Some \<lparr>sp_bytes = u32Section (csrOffsets (map oe_from (order_edges nix edges)) (length nodes)),
       sp_count = length (csrOffsets (map oe_from (order_edges nix edges)) (length nodes))\<rparr>"
    "p OUT_CSR_EDGES = Some \<lparr>sp_bytes = u32Section [0..<length (order_edges nix edges)], sp_count = length (order_edges nix edges)\<rparr>"
    "p IN_CSR_OFFSETS = Some \<lparr>sp_bytes = u32Section (csrOffsets (map fst (sort (zip (map oe_to (order_edges nix edges))
         [0..<length (order_edges nix edges)]))) (length nodes)),
       sp_count = length (csrOffsets (map fst (sort (zip (map oe_to (order_edges nix edges))
         [0..<length (order_edges nix edges)]))) (length nodes))\<rparr>"
    "p IN_CSR_EDGES = Some \<lparr>sp_bytes = u32Section (map snd (sort (zip (map oe_to (order_edges nix edges))
         [0..<length (order_edges nix edges)]))), sp_count = length (order_edges nix edges)\<rparr>"
  using assms unfolding section_payloads_def Let_def
  by (auto simp: kinds split: prod.splits)

section \<open>The topology of an encoded index\<close>

definition topology :: "ContextIndexGeometry \<Rightarrow> ordered_edge list \<Rightarrow> bool" where
  "topology g es \<longleftrightarrow> g_edgeCount g = length es
     \<and> (\<forall>n < g_nodeCount g. out_edges g n = filter (\<lambda>i. oe_from (es ! i) = n) [0..<length es]
          \<and> in_edges g n = filter (\<lambda>i. oe_to (es ! i) = n) [0..<length es])
     \<and> (\<forall>i < length es. cell 4 g (g_edgeBase g) 16 i 0 = oe_to (es ! i) \<and> cell 2 g (g_edgeBase g) 16 i 12 = 0xffff
          \<and> oe_from (es ! i) < g_nodeCount g \<and> oe_to (es ! i) < g_nodeCount g)"

lemma u32_cells:
  assumes "holds (g_bytes g) d (u32Section vs) (length vs)" "i < length vs" "\<forall>v \<in> set vs. v < 2 ^ 32" "sd_offset d = base"
  shows "cell 4 g base 4 i 0 = vs ! i"
proof -
  have "cell 4 g base 4 i 0 = u32_row (g_bytes g) d i" by (simp add: cell_def u32_row_def flip: assms(4))
  also have "\<dots> = vs ! i" using holds_u32 [OF assms(1,2)] assms(2,3) by simp
  finally show ?thesis .
qed

lemma csr_bucket_cells:
  assumes off: "holds (g_bytes g) d (u32Section (csrOffsets bs n)) (length (csrOffsets bs n))" "sd_offset d = ob"
    and tab: "holds (g_bytes g) d' (u32Section es) (length es)" "sd_offset d' = eb"
    and sizes: "length es = length bs" "length bs < 2 ^ 32" "\<forall>e \<in> set es. e < 2 ^ 32"
    and ok: "sorted bs" "\<forall>b \<in> set bs. b < n" "i < n"
  shows "map (slot_edge g eb) (bucket g ob i) = map (\<lambda>s. es ! s) (filter (\<lambda>s. bs ! s = i) [0..<length bs])"
proof -
  note shape = csr_offsets_shape [OF ok(2)]
  have small: "\<forall>v \<in> set (csrOffsets bs n). v < 2 ^ 32"
  proof
    fix v assume "v \<in> set (csrOffsets bs n)"
    then obtain k where "k \<le> n" "v = csrOffsets bs n ! k" using shape(1) by (metis in_set_conv_nth less_Suc_eq_le Suc_eq_plus1)
    with shape(4) sizes(2) show "v < 2 ^ 32" by (metis le_less_trans)
  qed
  have ends: "cell 4 g ob 4 k 0 = csrOffsets bs n ! k" if "k \<le> n" for k
    using that shape(1) by (intro u32_cells [OF off(1) _ small off(2)]) simp
  have "bucket g ob i = filter (\<lambda>s. bs ! s = i) [0..<length bs]"
    unfolding bucket_def using ends [of i] ends [of "i + 1"] ok(3) sorted_bucket [OF ok] by simp
  moreover have "slot_edge g eb s = es ! s" if "s < length bs" for s
    unfolding slot_edge_def using that sizes by (intro u32_cells [OF tab(1) _ _ tab(2)]) simp_all
  ultimately show ?thesis by (auto intro: map_cong)
qed

lemma written_topology:
  assumes geo: "readContextIndexGeometry bs h m = Inr g" and fh: "file_holds bs m p"
    and counts: "g_nodeCount g = length nodes" "g_edgeCount g = length edges"
    and pay: "section_payloads toString s nix nodes edges cycles prot inval lexical = Inr (p, terms, provs, lx, cs)"
    and ok: "graph_ok nix edges (length nodes)" "length nodes \<le> maxNodeCount" "length edges \<le> maxEdgeCount"
  shows "topology g (order_edges nix edges)"
proof (rule edge_payloads [OF pay])
  let ?es = "order_edges nix edges" and ?n = "length nodes"
  let ?in = "sort (zip (map oe_to ?es) [0..<length ?es])"
  fix rs pix
  assume rs: "write_edges s ?es \<lparr>pi_rows = [], pi_index = Map.empty\<rparr> = Inr (rs, pix)"
    and p: "p EDGE_TABLE = Some \<lparr>sp_bytes = concat rs, sp_count = length ?es\<rparr>"
      "p OUT_CSR_OFFSETS = Some \<lparr>sp_bytes = u32Section (csrOffsets (map oe_from ?es) ?n), sp_count = length (csrOffsets (map oe_from ?es) ?n)\<rparr>"
      "p OUT_CSR_EDGES = Some \<lparr>sp_bytes = u32Section [0..<length ?es], sp_count = length ?es\<rparr>"
      "p IN_CSR_OFFSETS = Some \<lparr>sp_bytes = u32Section (csrOffsets (map fst ?in) ?n), sp_count = length (csrOffsets (map fst ?in) ?n)\<rparr>"
      "p IN_CSR_EDGES = Some \<lparr>sp_bytes = u32Section (map snd ?in), sp_count = length ?es\<rparr>"
  note g = geometry_fields [OF geo]
  note sec = file_holds_sec [OF fh kinds_all p(1)] file_holds_sec [OF fh kinds_all p(2)] file_holds_sec [OF fh kinds_all p(3)]
    file_holds_sec [OF fh kinds_all p(4)] file_holds_sec [OF fh kinds_all p(5)]
  note facts = order_edges_facts [OF ok(1)] and rows = write_edges_rows [OF rs]
  have bytes: "g_bytes g = bs" by (simp add: g)
  have small: "length ?es < 2 ^ 32" "?n \<le> 2 ^ 32" using facts(1) ok(2,3) by (simp_all add: limits)
  have from_sorted: "sorted (map oe_from ?es)"
    unfolding order_edges_def sorted_map by (rule sorted_wrt_mono_rel [OF _ sorted_sort_key [unfolded sorted_map]]) (auto simp: less_eq_prod_def)
  have "out_edges g i = filter (\<lambda>e. oe_from (?es ! e) = i) [0..<length ?es]" if "i < ?n" for i
  proof -
    have "out_edges g i = map (\<lambda>s. [0..<length ?es] ! s) (filter (\<lambda>s. map oe_from ?es ! s = i) [0..<length (map oe_from ?es)])"
      unfolding out_edges_def
    proof (rule csr_bucket_cells [of g _ "map oe_from ?es" ?n])
      show "holds (g_bytes g) (sec m OUT_CSR_OFFSETS) (u32Section (csrOffsets (map oe_from ?es) ?n)) (length (csrOffsets (map oe_from ?es) ?n))"
        using sec(2) by (simp add: bytes)
      show "holds (g_bytes g) (sec m OUT_CSR_EDGES) (u32Section [0..<length ?es]) (length [0..<length ?es])"
        using sec(3) by (simp add: bytes)
    qed (use facts small from_sorted that in \<open>auto simp: g\<close>)
    also have "\<dots> = map (\<lambda>s. s) (filter (\<lambda>e. oe_from (?es ! e) = i) [0..<length ?es])"
      by (rule map_cong) (auto intro: filter_cong)
    finally show ?thesis by simp
  qed
  moreover have "in_edges g i = filter (\<lambda>e. oe_to (?es ! e) = i) [0..<length ?es]" if "i < ?n" for i
  proof -
    have "in_edges g i = map (\<lambda>s. map snd ?in ! s) (filter (\<lambda>s. map fst ?in ! s = i) [0..<length (map fst ?in)])"
      unfolding in_edges_def
    proof (rule csr_bucket_cells [of g _ "map fst ?in" ?n])
      show "holds (g_bytes g) (sec m IN_CSR_OFFSETS) (u32Section (csrOffsets (map fst ?in) ?n)) (length (csrOffsets (map fst ?in) ?n))"
        using sec(4) by (simp add: bytes)
      show "holds (g_bytes g) (sec m IN_CSR_EDGES) (u32Section (map snd ?in)) (length (map snd ?in))"
        using sec(5) by (simp add: bytes)
      show "sorted (map fst ?in)"
        unfolding sorted_map by (rule sorted_wrt_mono_rel [OF _ sorted_sort]) (auto simp: less_eq_prod_def)
      show "\<forall>b \<in> set (map fst ?in). b < ?n" using facts(2) by (auto simp: set_zip)
      show "\<forall>e \<in> set (map snd ?in). e < 2 ^ 32" using small by (auto simp: set_zip)
    qed (use small that in \<open>auto simp: g\<close>)
    also have "\<dots> = map (\<lambda>s. snd (?in ! s)) (filter (\<lambda>s. fst (?in ! s) = i) [0..<length ?in])"
      by (auto intro!: map_cong filter_cong)
    also have "\<dots> = filter (\<lambda>e. map oe_to ?es ! e = i) [0..<length ?es]"
      using incoming_bucket [of "map oe_to ?es" i] by simp
    also have "\<dots> = filter (\<lambda>e. oe_to (?es ! e) = i) [0..<length ?es]" by (auto intro: filter_cong)
    finally show ?thesis .
  qed
  moreover have "cell w g (g_edgeBase g) 16 i fld = le_at w (rs ! i) fld" if "i < length ?es" "fld + w \<le> 16" for w i fld
  proof -
    have "holds bs (sec m EDGE_TABLE) (concat rs) (length rs)" using sec(1) rows by simp
    from holds_row [OF this _ _ that(2)] rows that(1) show ?thesis by (simp add: cell_def row_at_def g add.assoc)
  qed
  moreover have "oe_to (?es ! i) mod 2 ^ 32 = oe_to (?es ! i)" "oe_from (?es ! i) < ?n" "oe_to (?es ! i) < ?n"
    if "i < length ?es" for i
    using facts(2) nth_mem [OF that] small(2) by (auto intro: mod_less order.strict_trans2)
  ultimately show "topology g ?es"
    using rows counts facts(1) by (simp add: topology_def)
qed

end
