(* ===== verification/Kernel_Encoded.thy ===== *)
theory Kernel_Encoded
  imports Kernel_Answers Kernel_Bounds Writer_Example Writer_Topology
begin

text \<open>
  From a snapshot to an answer: what the encoder emits, the reader opens and the kernel queries
  to the end. The snapshot of Writer_Example is queried as an instance of what holds of a run.
\<close>

section \<open>An encoded index answers\<close>

lemma opened_index_answers:
  assumes "openContextIndex file snapshot config = Inr r" "strings_decode (r_geometry r)"
  shows "\<exists>res. runContextKernel nfkc lower (index_reader r) request options = Inr res"
  using ans.kernel_answers open_reader_ok [OF assms(1)] assms(2) by (auto simp: answers_def)

lemma encoder_answers:
  assumes run: "encodeContextIndex toString buildContextLexicon input = Inr w"
    and schema: "wi_schemaRevision input < 2 ^ 16" and config: "length (wi_configHash input) = 32"
    and md: "\<forall>node \<in> set (s_nodes (wi_snapshot input)). distinct (map fst (n_metadata node))"
    and sizes: "\<forall>(k, size) \<in> set (ai_sectionBytes (wr_assembled w)). size \<le> 2 ^ 29"
      "length (ai_bytes (wr_assembled w)) \<le> 2 ^ 33"
  shows "\<exists>r. openContextIndex (ai_bytes (wr_assembled w))
      (Some (toHex (hexToBytes (s_snapshotHash (wi_snapshot input)) 32))) (Some (toHex (wi_configHash input))) = Inr r
    \<and> r_nodeCount r = length (s_nodes (wi_snapshot input))
    \<and> (\<exists>res. runContextKernel nfkc lower (index_reader r) request options = Inr res)"
proof (rule encoder_strings [OF assms])
  fix r and s :: StringInterner
  assume r: "openContextIndex (ai_bytes (wr_assembled w))
      (Some (toHex (hexToBytes (s_snapshotHash (wi_snapshot input)) 32))) (Some (toHex (wi_configHash input))) = Inr r"
      "r_nodeCount r = length (s_nodes (wi_snapshot input))"
    and strings: "g_stringCount (r_geometry r) = length (si_table s)"
      "\<And>i. i < length (si_table s) \<Longrightarrow> stringAt (r_geometry r) i = text_decode (text_encode (si_table s ! i))"
  have "strings_decode (r_geometry r)"
    using strings decode_encoded by (simp add: strings_decode_def answers_def)
  with r opened_index_answers [OF r(1)] show ?thesis by blast
qed

section \<open>Properties\<close>

text \<open>
  C2. Any query over an index the encoder emitted is answered: the file opens, and the kernel
  returns a result for every request, whatever the configuration, the clock and the host's text
  functions. No lookup, cursor or admission on the way can throw, and every loop ends. The
  conditions are those under which the file opens: the field widths and section sizes of the format,
  and metadata whose keys are distinct.
\<close>

theorem encoded_index_answers:
  assumes run: "encodeContextIndex toString buildContextLexicon input = Inr w"
    and schema: "wi_schemaRevision input < 2 ^ 16" and config: "length (wi_configHash input) = 32"
    and md: "\<forall>node \<in> set (s_nodes (wi_snapshot input)). distinct (map fst (n_metadata node))"
    and sizes: "\<forall>(k, size) \<in> set (ai_sectionBytes (wr_assembled w)). size \<le> 2 ^ 29"
      "length (ai_bytes (wr_assembled w)) \<le> 2 ^ 33"
  shows "\<exists>r. openContextIndex (ai_bytes (wr_assembled w))
      (Some (toHex (hexToBytes (s_snapshotHash (wi_snapshot input)) 32))) (Some (toHex (wi_configHash input))) = Inr r
    \<and> r_nodeCount r = length (s_nodes (wi_snapshot input))
    \<and> (\<exists>res. runContextKernel nfkc lower (index_reader r) request options = Inr res)"
  by (rule encoder_answers [OF assms])

section \<open>A query over the example\<close>

definition tiny_request :: KernelRequest where
  "tiny_request = \<lparr>kr_query = js ''run'', kr_profile = Some Review, kr_highRisk = True,
     kr_seeds = Some [\<lparr>ps_nodeId = [97], ps_confidence = Exact_definition, ps_verified = None\<rparr>],
     kr_focusPaths = None, kr_tokenBudget = Some 100, kr_maxSelected = Some 5, kr_timeoutMs = None\<rparr>"

definition tiny_options :: ContextKernelOptions where
  "tiny_options = \<lparr>kn_plan = \<lparr>ko_config = None, ko_kernelConfig = None, ko_clock = fixedKernelClock 0\<rparr>,
     kn_safetyClosure = None\<rparr>"

lemma tiny_conditions:
  "wi_schemaRevision tiny_input < 2 ^ 16" "length (wi_configHash tiny_input) = 32"
  "\<forall>node \<in> set (s_nodes (wi_snapshot tiny_input)). distinct (map fst (n_metadata node))"
  by (simp_all add: tiny_input_def tiny_node_def)

lemma tiny_run:
  obtains w r res where "encodeContextIndex no_number no_lexicon tiny_input = Inr w"
    "openContextIndex (ai_bytes (wr_assembled w)) (Some (toHex (hexToBytes [] 32))) (Some (toHex (replicate 32 0))) = Inr r"
    "r_nodeCount r = 1" "runContextKernel id id (index_reader r) tiny_request tiny_options = Inr res"
proof -
  obtain w where w: "encodeContextIndex no_number no_lexicon tiny_input = Inr w"
    "\<forall>(k, size) \<in> set (ai_sectionBytes (wr_assembled w)). size \<le> 2 ^ 29"
    "length (ai_bytes (wr_assembled w)) \<le> 2 ^ 33" using tiny_encodes by blast
  from encoder_answers [OF w(1) tiny_conditions w(2,3), of id id tiny_request tiny_options] that [OF w(1)]
  show thesis by (auto simp: tiny_input_def)
qed

theorem encoded_index_answers_witness:
  "\<exists>w r res. encodeContextIndex no_number no_lexicon tiny_input = Inr w
     \<and> openContextIndex (ai_bytes (wr_assembled w)) (Some (toHex (hexToBytes [] 32))) (Some (toHex (replicate 32 0))) = Inr r
     \<and> runContextKernel id id (index_reader r) tiny_request tiny_options = Inr res"
proof -
  obtain w where w: "encodeContextIndex no_number no_lexicon tiny_input = Inr w"
    "\<forall>(k, size) \<in> set (ai_sectionBytes (wr_assembled w)). size \<le> 2 ^ 29"
    "length (ai_bytes (wr_assembled w)) \<le> 2 ^ 33" using tiny_encodes by blast
  from encoded_index_answers [OF w(1) tiny_conditions w(2,3), of id id tiny_request tiny_options] w(1)
  show ?thesis by (auto simp: tiny_input_def)
qed

theorem exact_claims_are_anchored_witness:
  "\<exists>r res. runContextKernel id id (index_reader r) tiny_request tiny_options = Inr res
     \<and> list_all claim_anchored (res_selected res)"
  by (rule tiny_run) (use exact_claims_are_anchored in blast)

theorem kernel_work_bounded_witness:
  "\<exists>r res. runContextKernel id id (index_reader r) tiny_request tiny_options = Inr res
     \<and> res_visitedNodes res \<le> 6000 \<and> res_visitedEdges res \<le> 34000"
proof (rule tiny_run)
  fix w r res assume run: "runContextKernel id id (index_reader r) tiny_request tiny_options = Inr res"
  from kernel_work_bounded [OF run] run show ?thesis
    by (auto simp: tiny_options_def plan_kernelConfig_def CONTEXT_GRAPH_KERNEL_CONFIG_def CONTEXT_GRAPH_TRAVERSAL_CAPS_def)
qed

theorem kernel_result_bounded_witness:
  "\<exists>r res. runContextKernel id id (index_reader r) tiny_request tiny_options = Inr res
     \<and> res_tokenCost res \<le> 100 \<and> length (res_selected res) \<le> 5"
proof (rule tiny_run)
  fix w r res assume run: "runContextKernel id id (index_reader r) tiny_request tiny_options = Inr res"
  from kernel_result_bounded [OF run] run show ?thesis
    by (auto simp: tiny_request_def CONTEXT_GRAPH_TRAVERSAL_CAPS_def)
qed

theorem kernel_selects_live_nodes_witness:
  "\<exists>file snapshot config r res. openContextIndex file snapshot config = Inr r
     \<and> runContextKernel id id (index_reader r) tiny_request tiny_options = Inr res
     \<and> list_all (\<lambda>c. 0 \<le> cc_node (sc_candidate c) \<and> cc_node (sc_candidate c) < int (r_nodeCount r)) (res_selected res)"
  by (rule tiny_run) (use kernel_selects_live_nodes in blast)

theorem resolved_plan_ok_witness:
  "\<exists>r cx ns. resolveQueryPlan id id (index_reader r) tiny_request (kn_plan tiny_options) = Inr (cx, ns) \<and> plan_ok cx"
proof (rule tiny_run)
  fix w r res assume "runContextKernel id id (index_reader r) tiny_request tiny_options = Inr res"
  then show ?thesis by (rule kernel_stages) (use resolved_plan_ok in blast)
qed


section \<open>Worked examples\<close>

text \<open>
  A concrete table, context and fusion result: the instances at which the facts of the table,
  the frontier, fusion and selection are applied.
\<close>

section \<open>A table of two candidates\<close>

definition no_notes :: kernel_notes where
  "no_notes = \<lparr>kn_warnings = [], kn_omissions = Map.empty, kn_readings = 0\<rparr>"

definition sample_row :: "int \<Rightarrow> nat \<Rightarrow> CandidateRow" where
  "sample_row node g = (new_row node 3 g 5)\<lparr>cr_confidence := 5, cr_originLane := 1, cr_flags := 3\<rparr>"

definition sample_table :: CandidateTable where
  "sample_table = \<lparr>ct_capacity = 4, ct_overflow = 0, ct_rows = [sample_row 0 7, sample_row 2 8],
     ct_slots = [0 \<mapsto> 0, 2 \<mapsto> 1]\<rparr>"

definition sample_context :: KernelPlanContext where
  "sample_context = plan_context tiny_request (kn_plan tiny_options)
     (normalizeLexiconQuery id id [] CONTEXT_GRAPH_LEXICON_CONFIG) [] 0 [] 0 []"

lemma sample_limits: "kx_highRisk sample_context" "kx_maxSelected sample_context = 5"
  "q_tokenBudget (kx_plan sample_context) = 100" "kx_config sample_context = CONTEXT_GRAPH_RANKING_CONFIG"
  "kx_kernelConfig sample_context = CONTEXT_GRAPH_KERNEL_CONFIG"
  unfolding sample_context_def plan_context_def query_plan_def Let_def
  by (simp_all add: tiny_request_def tiny_options_def plan_config_def plan_kernelConfig_def CONTEXT_GRAPH_TRAVERSAL_CAPS_def)

lemma sample_table_ok: "table_ok sample_table"
  by (auto simp: table_ok_def sample_table_def sample_row_def new_row_def row_ok_def to_int32_def less_Suc_eq
      LANE_COUNT_def nth_Cons split: nat.splits)

theorem claim_only_strengthens_witness:
  "kernelConfidenceCode Exact_definition < cr_confidence (row_of sample_table 0)
     \<and> confidenceOf (claim 0 Anchor Exact_definition sample_table) 0 = Exact_definition"
  using claim_only_strengthens [OF sample_table_ok, of 0 Exact_definition Anchor]
  by (simp add: sample_table_def sample_row_def NO_SLOT_def kernelConfidenceCode_def KERNEL_CONFIDENCE_CODES_def)

theorem admit_bounded_dedup_witness:
  "\<exists>r s t. admit (index_reader r) 0 (new_table 4) = Inr (s, t) \<and> table_ok t \<and> ct_size t \<le> 4"
proof (rule tiny_run)
  fix w r res
  assume "openContextIndex (ai_bytes (wr_assembled w)) (Some (toHex (hexToBytes [] 32))) (Some (toHex (replicate 32 0))) = Inr r"
    "r_nodeCount r = 1"
  then have ok: "reader_ok r" and live: "0 < r_nodeCount r" by (simp_all add: open_reader_ok)
  obtain s t where t: "admit (index_reader r) 0 (new_table 4) = Inr (s, t)"
    using node_field_ok [OF ok, of 0] live
    by (auto simp: admit_def new_table_def index_reader_def reader_nodeFlags_def reader_nodeGroup_def
        reader_nodeTokenCost_def rows)
  have "table_ok (new_table 4)" "to_int32 0 = 0" by (simp_all add: table_ok_def new_table_def to_int32_def)
  from admit_bounded_dedup [OF this t] t show ?thesis by (auto simp: new_table_def)
qed

theorem frontier_push_bounded_witness:
  "\<exists>b f. frontier_push \<lparr>st_node = 4, st_score = 7, st_depth = 0, st_priority = 0, st_seed = 4,
       st_parentNode = -1, st_parentEdge = -1, st_flags = 0\<rparr> (new_frontier 2) = (b, f)
     \<and> frontier_ok f \<and> size (queued f) \<le> fr_capacity (new_frontier 2)"
  using frontier_push_bounded [of "new_frontier 2"] new_frontier_ok [of 2] by (metis surj_pair)

section \<open>Fusion\<close>

definition sample_reader :: ContextIndexReader where
  "sample_reader = \<lparr>rd_nodeCount = 3, rd_termId = (\<lambda>_. Inr (- 1)), rd_exact = (\<lambda>_ _. Inr EMPTY_POSTINGS),
     rd_basename = (\<lambda>_. Inr EMPTY_POSTINGS), rd_lexical = (\<lambda>_ _. Inr EMPTY_SCORED_POSTINGS),
     rd_coarse = (\<lambda>_ _. Inr EMPTY_SCORED_POSTINGS), rd_nodeHasName = (\<lambda>_ _. Inr False),
     rd_outgoing = (\<lambda>_ _. Inr []), rd_incoming = (\<lambda>_ _. Inr []), rd_nodeFlags = (\<lambda>_. Inr 3),
     rd_nodeGroup = (\<lambda>_. Inr 0), rd_nodeTokenCost = (\<lambda>_. Inr 5),
     rd_nodeScoreFields = (\<lambda>_. Inr \<lparr>sf_kind = 0, sf_freshness = 0, sf_risk = 0, sf_flags = 3, sf_trust = 0,
        sf_tokenCost = 5, sf_group = 0, sf_outDegree = 0, sf_inDegree = 0\<rparr>)\<rparr>"

lemma sample_fusion: "\<exists>fu ns'. fuseKernelCandidates sample_reader sample_context sample_table no_notes = Inr (fu, ns')"
proof -
  have "answers (fuse_slot sample_reader sample_context sample_table slot s)" for slot s
    unfolding fuse_slot_def by (auto simp: sample_reader_def intro!: answers_bind)
  then show ?thesis
    unfolding fuseKernelCandidates_def answers_def [symmetric, where 'a = "FusionResult \<times> kernel_notes", simplified split_paired_Ex]
    by (auto simp: Let_def intro!: answers_bind answers_each)
qed

theorem fusion_accounts_for_all_witness:
  "\<exists>fu ns'. fuseKernelCandidates sample_reader sample_context sample_table no_notes
       = Inr (fu, ns')
     \<and> fu_staleExcluded fu + fu_invalidatedExcluded fu + fu_ungroundableExcluded fu + fu_focusExcluded fu
       + length (filter (admissible sample_context sample_table) [0..<ct_size sample_table]) = 2"
  using sample_fusion fusion_accounts_for_all by (fastforce simp: sample_table_def)


lemma sample_lanes: "slot < 2 \<Longrightarrow> fold (add_lane cx sample_table slot) RETRIEVAL_LANES x = x"
  by (auto simp: less_2_cases_iff RETRIEVAL_LANES_def add_lane_def rankIn_def sample_table_def sample_row_def new_row_def
      LANE_COUNT_def Let_def)

lemma floor_numeral: "\<lfloor>numeral a / numeral b :: rat\<rfloor> = numeral a div numeral b"
  "\<lfloor>1 / numeral b :: rat\<rfloor> = 1 div numeral b"
  using floor_divide_of_int_eq [of "numeral a" "numeral b", where 'a = rat]
    floor_divide_of_int_eq [of 1 "numeral b", where 'a = rat] by simp_all

lemma small_columns: "to_int32 3 = 3" "to_int32 5 = 5" "to_int32 0 = 0" "to_int32 2 = 2"
  by (simp_all add: to_int32_def)

lemma sample_score:
  assumes "slot < 2"
  shows "fused_score sample_context sample_table slot
   \<lparr>sf_kind = 0, sf_freshness = 0, sf_risk = 0, sf_flags = 3, sf_trust = 0,
        sf_tokenCost = 5, sf_group = 0, sf_outDegree = 0, sf_inDegree = 0\<rparr> = 1000742"
  unfolding fused_score_def Let_def sample_lanes [OF assms]
  using assms
  apply (simp add: less_2_cases_iff sample_limits sample_table_def sample_row_def new_row_def has_def candidate_flags
     CONTEXT_GRAPH_KERNEL_CONFIG_def CONTEXT_GRAPH_RANKING_CONFIG_def small_columns)
  by (auto simp: sample_limits CONTEXT_GRAPH_RANKING_CONFIG_def HAS_PATH_def HAS_CONTENT_HASH_def toFixedPoint_def math_round_def mulFixed_def fixed_point_def evidence_count_def freshness_of_def risk_of_def
    FRESHNESS_CODES_def RISK_CODES_def node_has_def floor_numeral CONTEXT_INDEX_FIXED_POINT_SCALE_def small_columns)


lemma sample_cells: "list_all cell_fits (scored_cells sample_reader sample_context sample_table [0..<ct_size sample_table])"
proof -
  have "cell_fits (scored_cell sample_reader sample_context sample_table slot)" if "slot < 2" for slot
  proof -
    have "attributes sample_reader sample_table slot = \<lparr>sf_kind = 0, sf_freshness = 0, sf_risk = 0, sf_flags = 3, sf_trust = 0,
        sf_tokenCost = 5, sf_group = 0, sf_outDegree = 0, sf_inDegree = 0\<rparr>"
      by (simp add: attributes_def sample_reader_def)
    then have "ss_score (scored_cell sample_reader sample_context sample_table slot) = 1000742"
      using sample_score [OF that] by (simp add: scored_cell_def)
    moreover have "to_int32 (cr_node (row_of sample_table slot)) = cr_node (row_of sample_table slot)"
      using that by (auto simp: less_2_cases_iff sample_table_def sample_row_def new_row_def small_columns)
    ultimately show ?thesis by (simp add: cell_fits_def scored_cell_def to_int32_def)
  qed
  then show ?thesis by (auto simp: scored_cells_def list_all_iff sample_table_def)
qed

theorem fusion_ranks_admissible_witness:
  "\<exists>fu ns'. fuseKernelCandidates sample_reader sample_context sample_table no_notes
       = Inr (fu, ns')
     \<and> fu_order fu = map ss_slot (take (min (ct_size sample_table) (nat (max 1 (kx_maxSelected sample_context) * 4)))
      (sort_key best_key (scored_cells sample_reader sample_context sample_table [0..<ct_size sample_table])))"
  using sample_fusion fusion_ranks_admissible [OF _ sample_table_ok sample_cells] by blast

section \<open>Selection\<close>

definition sample_fusion_result :: FusionResult where
  "sample_fusion_result = \<lparr>fu_order = [0, 1], fu_protectedGates = [1], fu_conflicts = [], fu_exactSeeds = [0],
     fu_testOrGates = [], fu_laneLeaders = [0, - 1, - 1, - 1], fu_fused = [9, 8], fu_staleExcluded = 0,
     fu_invalidatedExcluded = 0, fu_ungroundableExcluded = 0, fu_focusExcluded = 0, fu_protectedReachable = 2,
     fu_conflictsReachable = 0, fu_testOrGateReachable = False, fu_exactSeedReachable = True\<rparr>"

lemma sample_cost: "slot < 2 \<Longrightarrow> costOf sample_context sample_table slot \<le> 100"
  by (auto simp: less_2_cases_iff costOf_def sample_table_def sample_row_def new_row_def small_columns sample_limits
      CONTEXT_GRAPH_RANKING_CONFIG_def)

theorem group_share_respected_witness:
  "diversity_applies sample_table sample_fusion_result
     \<and> int (group_members sample_table 7 (sl_chosen (choose_slots sample_context sample_table sample_fusion_result no_notes)))
       \<le> max (int (group_members sample_table 7 (sl_chosen (take_reserves sample_context sample_table sample_fusion_result no_notes))))
           (min (group_allowance sample_context) (maxRedundancyGroupMembers (kx_config sample_context)))"
proof -
  have "diversity_applies sample_table sample_fusion_result"
    by (simp add: diversity_applies_def sample_fusion_result_def sample_table_def sample_row_def new_row_def to_int32_def)
  from group_share_respected [OF this] this show ?thesis by blast
qed

theorem best_gate_selected_witness:
  "1 \<in> set (sl_chosen (choose_slots sample_context sample_table sample_fusion_result no_notes))"
  by (rule best_gate_selected [of _ _ 1 "[]"]) (simp_all add: sample_limits sample_cost, simp add: sample_fusion_result_def)

theorem best_exact_seed_selected_witness:
  "0 \<in> set (sl_chosen (choose_slots
      (sample_context\<lparr>kx_highRisk := False, kx_plan := (kx_plan sample_context)\<lparr>q_profile := Answer\<rparr>\<rparr>)
      sample_table sample_fusion_result no_notes))"
  by (rule best_exact_seed_selected [of _ _ 0 "[]"])
    (use sample_cost [of 0] in \<open>simp_all add: sample_limits costOf_def\<close>, simp add: sample_fusion_result_def)

theorem gate_warning_false_alarm_witness:
  "js ''a reachable protected gate did not fit the token budget on a safety-relevant query''
     \<in> set (kn_warnings (snd (selectKernelCandidates sample_context sample_table sample_fusion_result no_notes)))"
  by (rule gate_warning_false_alarm) (simp_all add: sample_limits sample_fusion_result_def)

end
