(* ===== verification/Ids.thy ===== *)
theory Ids
  imports Contracts Writer
begin

text \<open>
  ids.ts: the identity of an edge. An edge is named by a digest of its type and the identifiers
  of its ends; the digest function of the host is a parameter, from a string to the hexadecimal
  text of its SHA-256.
\<close>

fun edge_type_name :: "ContextGraphEdgeType \<Rightarrow> js_string" where
  "edge_type_name Contains = js ''contains''"
| "edge_type_name Defines = js ''defines''"
| "edge_type_name Imports = js ''imports''"
| "edge_type_name Reexports = js ''reexports''"
| "edge_type_name References = js ''references''"
| "edge_type_name Calls = js ''calls''"
| "edge_type_name Depends_on = js ''depends_on''"
| "edge_type_name Routes_to = js ''routes_to''"
| "edge_type_name Owns = js ''owns''"
| "edge_type_name Tests = js ''tests''"
| "edge_type_name Verified_by = js ''verified_by''"
| "edge_type_name Gated_by = js ''gated_by''"
| "edge_type_name Affected_by = js ''affected_by''"
| "edge_type_name Cites = js ''cites''"
| "edge_type_name Derived_from = js ''derived_from''"
| "edge_type_name Supports = js ''supports''"
| "edge_type_name Contradicts = js ''contradicts''"
| "edge_type_name Supersedes = js ''supersedes''"
| "edge_type_name Invalidates = js ''invalidates''"
| "edge_type_name Cochanged_with = js ''cochanged_with''"
| "edge_type_name Conflicts_with = js ''conflicts_with''"

definition shortDigest :: "(js_string \<Rightarrow> js_string) \<Rightarrow> js_string \<Rightarrow> nat \<Rightarrow> js_string" where
  "shortDigest sha256 value len = take len (sha256 value)"

definition contextGraphEdgeId ::
  "(js_string \<Rightarrow> js_string) \<Rightarrow> ContextGraphEdgeType \<Rightarrow> js_string \<Rightarrow> js_string \<Rightarrow> js_string" where
  "contextGraphEdgeId sha256 type from' to =
     js ''edge:'' @ edge_type_name type @ js '':''
       @ shortDigest sha256 (edge_type_name type @ 0 # from' @ 0 # to) 16"

end
