(* ===== verification/Hydrate_Chain.thy ===== *)
theory Hydrate_Chain
  imports Kernel_Types Kernel_Candidates Ids
begin

text \<open>
  query/hydrate-chain.ts: the path from the root of a chain to a selected node, rebuilt from the
  index. The reader is the interface of the kernel with the members that hydrate; the cursor
  keeps the views it has read, the sources of the edges it has looked up, and two counters.

  The cursor's two view memos are instances of one contract, \<open>memo\<close>: asking through the memo
  gives what the reader gives, and reads each index at most once. A chain that is returned is
  shown to be a path of the index.
\<close>

section \<open>The reader\<close>

definition CONTEXT_INDEX_PROFILE_MASK_ALL :: nat where "CONTEXT_INDEX_PROFILE_MASK_ALL = 0xffff"

record 'n HydrationReader = ContextIndexReader +
  rd_edgeCount :: int
  rd_hydrateNode :: "int \<Rightarrow> 'n ContextGraphNodeView res"
  rd_hydrateEdge :: "int \<Rightarrow> ContextGraphEdgeView res"
  rd_provenance :: "int \<Rightarrow> int list \<Rightarrow> ProvenanceView list res"

definition hydration_reader :: "(js_string \<Rightarrow> 'n) \<Rightarrow> BinaryContextIndexReader \<Rightarrow> 'n HydrationReader" where
  "hydration_reader toNumber r = ContextIndexReader.extend (index_reader r)
     \<lparr>rd_edgeCount = int (r_edgeCount r), rd_hydrateNode = reader_hydrateNode toNumber r,
      rd_hydrateEdge = reader_hydrateEdge r, rd_provenance = reader_provenance r\<rparr>"

section \<open>The cursor\<close>

record 'n HydrationCursor =
  hc_hydratedNodes :: nat
  hc_hydratedEdges :: nat
  hc_nodeViews :: "int \<rightharpoonup> 'n ContextGraphNodeView"
  hc_edgeViews :: "int \<rightharpoonup> ContextGraphEdgeView"
  hc_sources :: "int \<rightharpoonup> int"
  hc_scanned :: "int set"

definition new_hydration_cursor :: "'n HydrationCursor" where
  "new_hydration_cursor = \<lparr>hc_hydratedNodes = 0, hc_hydratedEdges = 0, hc_nodeViews = Map.empty,
     hc_edgeViews = Map.empty, hc_sources = Map.empty, hc_scanned = {}\<rparr>"

definition hydration_node ::
  "'n HydrationReader \<Rightarrow> int \<Rightarrow> 'n HydrationCursor
     \<Rightarrow> ('n ContextGraphNodeView option \<times> 'n HydrationCursor) res" where
  "hydration_node reader index hc =
    (if index < 0 \<or> index \<ge> rd_nodeCount reader then Inr (None, hc) else
     case hc_nodeViews hc index of
       Some cached \<Rightarrow> Inr (Some cached, hc)
     | None \<Rightarrow> rbind (rd_hydrateNode reader index) (\<lambda>view.
         Inr (Some view, hc\<lparr>hc_hydratedNodes := hc_hydratedNodes hc + 1,
                            hc_nodeViews := (hc_nodeViews hc)(index \<mapsto> view)\<rparr>)))"

definition hydration_edge ::
  "'n HydrationReader \<Rightarrow> int \<Rightarrow> 'n HydrationCursor
     \<Rightarrow> (ContextGraphEdgeView option \<times> 'n HydrationCursor) res" where
  "hydration_edge reader index hc =
    (if index < 0 \<or> index \<ge> rd_edgeCount reader then Inr (None, hc) else
     case hc_edgeViews hc index of
       Some cached \<Rightarrow> Inr (Some cached, hc)
     | None \<Rightarrow> rbind (rd_hydrateEdge reader index) (\<lambda>view.
         Inr (Some view, hc\<lparr>hc_hydratedEdges := hc_hydratedEdges hc + 1,
                            hc_edgeViews := (hc_edgeViews hc)(index \<mapsto> view)\<rparr>)))"

text \<open>\<open>if (!this.sources.has(edge)) this.sources.set(edge, target)\<close> for each step of a bucket.\<close>

fun note_sources :: "edge_step list \<Rightarrow> (int \<rightharpoonup> int) \<Rightarrow> (int \<rightharpoonup> int)" where
  "note_sources [] sources = sources"
| "note_sources (e # es) sources =
    note_sources es (if sources (int (es_edge e)) = None
      then sources(int (es_edge e) \<mapsto> int (es_target e)) else sources)"

definition sourceOf ::
  "'n HydrationReader \<Rightarrow> int \<Rightarrow> int \<Rightarrow> 'n HydrationCursor \<Rightarrow> (int \<times> 'n HydrationCursor) res" where
  "sourceOf reader edge target hc =
    (case hc_sources hc edge of
       Some known \<Rightarrow> Inr (known, hc)
     | None \<Rightarrow>
        (if target \<in> hc_scanned hc then Inr (NO_NODE, hc) else
         rbind (rd_incoming reader target CONTEXT_INDEX_PROFILE_MASK_ALL) (\<lambda>es.
         let sources = note_sources es (hc_sources hc) in
         Inr (case sources edge of None \<Rightarrow> NO_NODE | Some s \<Rightarrow> s,
              hc\<lparr>hc_scanned := insert target (hc_scanned hc), hc_sources := sources\<rparr>))))"

section \<open>Chains\<close>

record HydrationHop =
  hop_edge :: int
  hop_source :: int
  hop_target :: int
  hop_reverse :: bool
  hop_view :: ContextGraphEdgeView

record HydrationChain =
  chain_nodes :: "int list"
  chain_hops :: "HydrationHop list"

text \<open>
  The loop of \<open>resolveHydrationChain\<close>, over the edges from the last to the first: what it pushes
  on \<open>hops\<close> and on \<open>nodes\<close>, or \<open>None\<close> when it returns \<open>null\<close>.
\<close>

fun resolve_hops ::
  "'n HydrationReader \<Rightarrow> int \<Rightarrow> int list \<Rightarrow> 'n HydrationCursor
     \<Rightarrow> ((HydrationHop list \<times> int list) option \<times> 'n HydrationCursor) res" where
  "resolve_hops reader child [] hc = Inr (Some ([], []), hc)"
| "resolve_hops reader child (edge # edges) hc =
    rbind (hydration_edge reader edge hc) (\<lambda>(view, hc).
    case view of None \<Rightarrow> Inr (None, hc) | Some view \<Rightarrow>
    let target = int (ev_target view) in
    rbind (sourceOf reader edge target hc) (\<lambda>(source, hc).
    if source = NO_NODE then Inr (None, hc) else
    let parent = (if target = child then source else if source = child then target else NO_NODE) in
    if parent = NO_NODE \<or> parent = child then Inr (None, hc) else
    rbind (resolve_hops reader parent edges hc) (\<lambda>(rest, hc).
    Inr (map_option (\<lambda>(hops, nodes).
      (\<lparr>hop_edge = edge, hop_source = source, hop_target = target, hop_reverse = (target \<noteq> child),
        hop_view = view\<rparr> # hops, parent # nodes)) rest, hc))))"

definition resolveHydrationChain ::
  "'n HydrationReader \<Rightarrow> SelectedCandidate \<Rightarrow> 'n HydrationCursor
     \<Rightarrow> (HydrationChain option \<times> 'n HydrationCursor) res" where
  "resolveHydrationChain reader entry hc =
    (let node = cc_node (sc_candidate entry) in
     rbind (resolve_hops reader node (rev (sc_parentEdges entry)) hc) (\<lambda>(r, hc).
     case r of None \<Rightarrow> Inr (None, hc) | Some (hops, parents) \<Rightarrow>
     let nodes = node # parents in
     if hops \<noteq> [] \<and> nodes ! 1 \<noteq> cc_parentNode (sc_candidate entry) then Inr (None, hc)
     else Inr (Some \<lparr>chain_nodes = rev nodes, chain_hops = rev hops\<rparr>, hc)))"

section \<open>Explanations\<close>

record ContextGraphExplanationStep =
  xs_edgeId :: js_string
  xs_type :: ContextGraphEdgeType
  xs_from :: js_string
  xs_to :: js_string
  xs_confidence :: ContextGraphEdgeConfidence
  xs_path :: js_string

record HydrationExplanation =
  hx_reasonPath :: "js_string list"
  hx_steps :: "ContextGraphExplanationStep list"

fun chain_ids ::
  "'n HydrationReader \<Rightarrow> int list \<Rightarrow> 'n HydrationCursor
     \<Rightarrow> (js_string list option \<times> 'n HydrationCursor) res" where
  "chain_ids reader [] hc = Inr (Some [], hc)"
| "chain_ids reader (node # nodes) hc =
    rbind (hydration_node reader node hc) (\<lambda>(view, hc).
    case view of None \<Rightarrow> Inr (None, hc) | Some view \<Rightarrow>
    rbind (chain_ids reader nodes hc) (\<lambda>(rest, hc).
    Inr (map_option (\<lambda>ids. nv_id view # ids) rest, hc)))"

definition hop_relation :: "HydrationHop \<Rightarrow> js_string" where
  "hop_relation hop = (if hop_reverse hop then edge_type_name (ev_type (hop_view hop)) @ js '':reverse''
     else edge_type_name (ev_type (hop_view hop)))"

definition hop_step ::
  "(js_string \<Rightarrow> js_string) \<Rightarrow> HydrationHop \<Rightarrow> js_string \<Rightarrow> js_string \<Rightarrow> ContextGraphExplanationStep" where
  "hop_step sha256 hop from' to =
    (let view = hop_view hop in
     \<lparr>xs_edgeId = contextGraphEdgeId sha256 (ev_type view) from' to, xs_type = ev_type view,
      xs_from = from', xs_to = to, xs_confidence = ev_confidence view,
      xs_path = pv_path (ev_provenance view)\<rparr>)"

text \<open>
  The loop over the hops. \<open>ids\<close> are the identifiers after the root's, so hop \<open>at\<close> pushes
  \<open>ids[at + 1]\<close>; a missing one would push \<open>undefined\<close> and is an error of the model.
\<close>

fun explain_hops ::
  "(js_string \<Rightarrow> js_string) \<Rightarrow> 'n HydrationReader \<Rightarrow> HydrationHop list \<Rightarrow> js_string list \<Rightarrow> 'n HydrationCursor
     \<Rightarrow> ((ContextGraphExplanationStep list \<times> js_string list) option \<times> 'n HydrationCursor) res" where
  "explain_hops sha256 reader [] ids hc = Inr (Some ([], []), hc)"
| "explain_hops sha256 reader (hop # hops) ids hc =
    rbind (hydration_node reader (hop_source hop) hc) (\<lambda>(from', hc).
    rbind (hydration_node reader (hop_target hop) hc) (\<lambda>(to, hc).
    case (from', to) of
      (Some from', Some to) \<Rightarrow>
       (case ids of
          [] \<Rightarrow> Inl (Plain_error ''undefined'')
        | next' # ids \<Rightarrow>
           rbind (explain_hops sha256 reader hops ids hc) (\<lambda>(rest, hc).
           Inr (map_option (\<lambda>(steps, path). (hop_step sha256 hop (nv_id from') (nv_id to) # steps,
             hop_relation hop # next' # path)) rest, hc)))
    | _ \<Rightarrow> Inr (None, hc)))"

definition explainHydrationChain ::
  "(js_string \<Rightarrow> js_string) \<Rightarrow> 'n HydrationReader \<Rightarrow> HydrationChain \<Rightarrow> 'n HydrationCursor
     \<Rightarrow> (HydrationExplanation option \<times> 'n HydrationCursor) res" where
  "explainHydrationChain sha256 reader chain hc =
    rbind (chain_ids reader (chain_nodes chain) hc) (\<lambda>(ids, hc).
    case ids of None \<Rightarrow> Inr (None, hc) | Some ids \<Rightarrow>
    (case ids of [] \<Rightarrow> Inl (Plain_error ''undefined'') | first' # ids \<Rightarrow>
    rbind (explain_hops sha256 reader (chain_hops chain) ids hc) (\<lambda>(r, hc).
    Inr (map_option (\<lambda>(steps, path). \<lparr>hx_reasonPath = first' # path, hx_steps = steps\<rparr>) r, hc))))"

section \<open>The memos\<close>

text \<open>
  What a memo promises: an index out of range is refused, a known one is answered from the memo,
  and any other is fetched, recorded and counted.
\<close>

locale memo =
  fixes fetch :: "int \<Rightarrow> 'v res" and limit :: int and views :: "'c \<Rightarrow> int \<rightharpoonup> 'v" and reads :: "'c \<Rightarrow> nat"
    and store :: "int \<Rightarrow> 'v \<Rightarrow> 'c \<Rightarrow> 'c" and ask :: "int \<Rightarrow> 'c \<Rightarrow> ('v option \<times> 'c) res"
  assumes refused: "i < 0 \<or> limit \<le> i \<Longrightarrow> ask i c = Inr (None, c)"
    and known: "0 \<le> i \<Longrightarrow> i < limit \<Longrightarrow> views c i = Some v \<Longrightarrow> ask i c = Inr (Some v, c)"
    and fetched: "0 \<le> i \<Longrightarrow> i < limit \<Longrightarrow> views c i = None \<Longrightarrow>
      ask i c = rbind (fetch i) (\<lambda>v. Inr (Some v, store i v c))"
    and stored: "views (store i v c) = (views c)(i \<mapsto> v)" "reads (store i v c) = reads c + 1"
begin

definition valid :: "'c \<Rightarrow> bool" where
  "valid c \<longleftrightarrow> (\<forall>i v. views c i = Some v \<longrightarrow> 0 \<le> i \<and> i < limit \<and> fetch i = Inr v)
     \<and> reads c = card (dom (views c))"

lemma range: "valid c \<Longrightarrow> dom (views c) \<subseteq> {0..<limit}"
  by (auto simp: valid_def)

lemma bounded: "valid c \<Longrightarrow> reads c \<le> nat limit"
  using card_mono [OF _ range, of c] by (simp add: valid_def)

lemma transparent:
  assumes "valid c" "ask i c = Inr (r, c')"
  shows "valid c' \<and> (r = None \<longleftrightarrow> i < 0 \<or> limit \<le> i) \<and> (\<forall>v. r = Some v \<longrightarrow> fetch i = Inr v)"
proof (cases "i < 0 \<or> limit \<le> i")
  case True
  with assms refused show ?thesis by auto
next
  case False
  show ?thesis
  proof (cases "views c i")
    case None
    with False assms(2) fetched [of i c] obtain v where v: "fetch i = Inr v" "r = Some v" "c' = store i v c"
      by (auto simp: rbind_Inr_iff)
    have "finite (dom (views c))" "i \<notin> dom (views c)"
      using finite_subset [OF range [OF assms(1)]] None by auto
    with v False assms(1) show ?thesis by (auto simp: valid_def stored)
  next
    case (Some v)
    with False assms known [of i c v] have "r = Some v" "c' = c" by auto
    with Some False assms(1) show ?thesis by (auto simp: valid_def)
  qed
qed

lemma answers: "0 \<le> i \<Longrightarrow> i < limit \<Longrightarrow> valid c \<Longrightarrow> fetch i = Inr v \<Longrightarrow> \<exists>c'. ask i c = Inr (Some v, c')"
  using known [of i c] fetched [of i c] by (cases "views c i") (auto simp: valid_def)

end

interpretation node_memo: memo "rd_hydrateNode reader" "rd_nodeCount reader" hc_nodeViews hc_hydratedNodes
  "\<lambda>i v hc. hc\<lparr>hc_hydratedNodes := hc_hydratedNodes hc + 1, hc_nodeViews := (hc_nodeViews hc)(i \<mapsto> v)\<rparr>"
  "hydration_node reader" for reader :: "'n HydrationReader"
  by unfold_locales (auto simp: hydration_node_def)

interpretation edge_memo: memo "rd_hydrateEdge reader" "rd_edgeCount reader" hc_edgeViews hc_hydratedEdges
  "\<lambda>i v hc. hc\<lparr>hc_hydratedEdges := hc_hydratedEdges hc + 1, hc_edgeViews := (hc_edgeViews hc)(i \<mapsto> v)\<rparr>"
  "hydration_edge reader" for reader :: "'n HydrationReader"
  by unfold_locales (auto simp: hydration_edge_def)

section \<open>The cursor's invariant\<close>

text \<open>An edge of the index with its source, as the incoming bucket of a node lists it.\<close>

definition sourced :: "'n HydrationReader \<Rightarrow> int \<Rightarrow> int \<Rightarrow> bool" where
  "sourced reader edge source \<longleftrightarrow> (\<exists>t es e. rd_incoming reader t CONTEXT_INDEX_PROFILE_MASK_ALL = Inr es
     \<and> e \<in> set es \<and> int (es_edge e) = edge \<and> int (es_target e) = source)"

definition cursor_valid :: "'n HydrationReader \<Rightarrow> 'n HydrationCursor \<Rightarrow> bool" where
  "cursor_valid reader hc \<longleftrightarrow> node_memo.valid reader hc \<and> edge_memo.valid reader hc
     \<and> (\<forall>e s. hc_sources hc e = Some s \<longrightarrow> sourced reader e s)
     \<and> (\<forall>t \<in> hc_scanned hc. \<exists>es. rd_incoming reader t CONTEXT_INDEX_PROFILE_MASK_ALL = Inr es
          \<and> (\<forall>e \<in> set es. hc_sources hc (int (es_edge e)) \<noteq> None))"

lemma new_cursor_valid: "cursor_valid reader new_hydration_cursor"
  by (simp add: cursor_valid_def node_memo.valid_def edge_memo.valid_def new_hydration_cursor_def)

lemma hydration_node_keeps:
  assumes "hydration_node reader i hc = Inr (r, hc')"
  shows "hc_edgeViews hc' = hc_edgeViews hc" "hc_hydratedEdges hc' = hc_hydratedEdges hc"
    "hc_sources hc' = hc_sources hc" "hc_scanned hc' = hc_scanned hc"
  using assms by (auto simp: hydration_node_def rbind_Inr_iff split: if_splits option.splits)

lemma hydration_edge_keeps:
  assumes "hydration_edge reader i hc = Inr (r, hc')"
  shows "hc_nodeViews hc' = hc_nodeViews hc" "hc_hydratedNodes hc' = hc_hydratedNodes hc"
    "hc_sources hc' = hc_sources hc" "hc_scanned hc' = hc_scanned hc"
  using assms by (auto simp: hydration_edge_def rbind_Inr_iff split: if_splits option.splits)

lemma hydration_node_valid:
  assumes "cursor_valid reader hc" "hydration_node reader i hc = Inr (r, hc')"
  shows "cursor_valid reader hc' \<and> (r = None \<longleftrightarrow> i < 0 \<or> rd_nodeCount reader \<le> i)
     \<and> (\<forall>v. r = Some v \<longrightarrow> rd_hydrateNode reader i = Inr v)"
  using assms node_memo.transparent [of reader hc i r hc'] hydration_node_keeps [OF assms(2)]
  by (auto simp: cursor_valid_def edge_memo.valid_def)

lemma hydration_edge_valid:
  assumes "cursor_valid reader hc" "hydration_edge reader i hc = Inr (r, hc')"
  shows "cursor_valid reader hc' \<and> (r = None \<longleftrightarrow> i < 0 \<or> rd_edgeCount reader \<le> i)
     \<and> (\<forall>v. r = Some v \<longrightarrow> rd_hydrateEdge reader i = Inr v)"
  using assms edge_memo.transparent [of reader hc i r hc'] hydration_edge_keeps [OF assms(2)]
  by (auto simp: cursor_valid_def node_memo.valid_def)

lemma note_sources_known: "sources e = Some s \<Longrightarrow> note_sources es sources e = Some s"
proof (induction es arbitrary: sources)
  case (Cons x es)
  then show ?case by (cases "e = int (es_edge x)") auto
qed simp

lemma note_sources_new:
  "note_sources es sources e = Some s \<Longrightarrow>
     sources e = Some s \<or> (\<exists>x \<in> set es. int (es_edge x) = e \<and> int (es_target x) = s)"
  by (induction es arbitrary: sources) (fastforce split: if_splits)+

lemma note_sources_total: "x \<in> set es \<Longrightarrow> note_sources es sources (int (es_edge x)) \<noteq> None"
proof (induction es arbitrary: sources)
  case (Cons y es)
  show ?case
  proof (cases "x = y")
    case True
    define sources' where "sources' = (if sources (int (es_edge y)) = None
      then sources(int (es_edge y) \<mapsto> int (es_target y)) else sources)"
    have "sources' (int (es_edge y)) \<noteq> None" by (auto simp: sources'_def)
    then show ?thesis using True note_sources_known [of sources'] by (auto simp: sources'_def)
  qed (use Cons in auto)
qed simp

lemma sourceOf_valid:
  assumes "cursor_valid reader hc" "sourceOf reader edge target hc = Inr (s, hc')"
  shows "cursor_valid reader hc' \<and> (s \<noteq> NO_NODE \<longrightarrow> sourced reader edge s)"
proof (cases "hc_sources hc edge")
  case (Some known)
  with assms show ?thesis by (auto simp: sourceOf_def cursor_valid_def)
next
  case None
  show ?thesis
  proof (cases "target \<in> hc_scanned hc")
    case True
    with None assms show ?thesis by (auto simp: sourceOf_def)
  next
    case False
    with None assms(2) obtain es where
      es: "rd_incoming reader target CONTEXT_INDEX_PROFILE_MASK_ALL = Inr es"
      and s: "s = (case note_sources es (hc_sources hc) edge of None \<Rightarrow> NO_NODE | Some s \<Rightarrow> s)"
      and hc': "hc' = hc\<lparr>hc_scanned := insert target (hc_scanned hc), hc_sources := note_sources es (hc_sources hc)\<rparr>"
      by (auto simp: sourceOf_def Let_def rbind_Inr_iff)
    have src: "sourced reader e s" if "note_sources es (hc_sources hc) e = Some s" for e s
      using note_sources_new [OF that] assms(1) es by (auto simp: cursor_valid_def sourced_def)
    have "hc_sources hc e \<noteq> None \<Longrightarrow> note_sources es (hc_sources hc) e \<noteq> None" for e
      using note_sources_known [of "hc_sources hc"] by auto
    then have "cursor_valid reader hc'"
      using assms(1) es src note_sources_total [of _ es "hc_sources hc"]
      unfolding hc' by (auto simp: cursor_valid_def node_memo.valid_def edge_memo.valid_def)
    then show ?thesis using s src by (auto split: option.splits)
  qed
qed

section \<open>A chain is a path of the index\<close>

definition hop_in_index :: "'n HydrationReader \<Rightarrow> HydrationHop \<Rightarrow> bool" where
  "hop_in_index reader hop \<longleftrightarrow> rd_hydrateEdge reader (hop_edge hop) = Inr (hop_view hop)
     \<and> hop_target hop = int (ev_target (hop_view hop)) \<and> sourced reader (hop_edge hop) (hop_source hop)"

text \<open>The walk crosses a hop from \<open>parent\<close> to \<open>child\<close>, against its direction when it is reverse.\<close>

definition crosses :: "HydrationHop \<Rightarrow> int \<Rightarrow> int \<Rightarrow> bool" where
  "crosses hop parent child \<longleftrightarrow> parent \<noteq> child
     \<and> (if hop_reverse hop then hop_source hop = child \<and> hop_target hop = parent
        else hop_source hop = parent \<and> hop_target hop = child)"

fun is_path :: "int list \<Rightarrow> HydrationHop list \<Rightarrow> bool" where
  "is_path [n] [] \<longleftrightarrow> True"
| "is_path (a # b # ns) (h # hs) \<longleftrightarrow> crosses h a b \<and> is_path (b # ns) hs"
| "is_path ns hs \<longleftrightarrow> False"

lemma is_path_snoc: "is_path (ns @ [n]) hs \<Longrightarrow> crosses h n m \<Longrightarrow> is_path (ns @ [n, m]) (hs @ [h])"
proof (induction ns arbitrary: hs)
  case Nil
  then show ?case by (cases hs) auto
next
  case (Cons a ns)
  then show ?case by (cases hs; cases ns) auto
qed

lemma resolve_hops_path:
  "cursor_valid reader hc \<Longrightarrow> resolve_hops reader child edges hc = Inr (r, hc') \<Longrightarrow>
     cursor_valid reader hc'
     \<and> (\<forall>hops parents. r = Some (hops, parents) \<longrightarrow> is_path (rev (child # parents)) (rev hops)
          \<and> map hop_edge hops = edges \<and> list_all (hop_in_index reader) hops)"
proof (induction edges arbitrary: child hc r hc')
  case (Cons edge edges)
  from Cons.prems(2) obtain view hc1 where v: "hydration_edge reader edge hc = Inr (view, hc1)"
    by (auto simp: rbind_Inr_iff)
  note hc1 = hydration_edge_valid [OF Cons.prems(1) v]
  show ?case
  proof (cases view)
    case None
    with Cons.prems(2) v hc1 show ?thesis by auto
  next
    case (Some w)
    let ?t = "int (ev_target w)"
    from Some v Cons.prems(2) obtain source hc2 where s: "sourceOf reader edge ?t hc1 = Inr (source, hc2)"
      by (auto simp: rbind_Inr_iff Let_def)
    have hc2: "cursor_valid reader hc2" "source \<noteq> NO_NODE \<longrightarrow> sourced reader edge source"
      using sourceOf_valid [OF _ s] hc1 by auto
    define parent where "parent = (if ?t = child then source else if source = child then ?t else NO_NODE)"
    note run = Cons.prems(2) [unfolded resolve_hops.simps v rbind_simps prod.case Some option.case Let_def s,
        folded parent_def]
    show ?thesis
    proof (cases "source = NO_NODE \<or> parent = NO_NODE \<or> parent = child")
      case True
      with run hc2 show ?thesis by (auto split: if_splits)
    next
      case False
      with run obtain rest where rest: "resolve_hops reader parent edges hc2 = Inr (rest, hc')"
        and r: "r = map_option (\<lambda>(hops, nodes). (\<lparr>hop_edge = edge, hop_source = source, hop_target = ?t,
            hop_reverse = (?t \<noteq> child), hop_view = w\<rparr> # hops, parent # nodes)) rest"
        by (auto simp: rbind_Inr_iff)
      note ih = Cons.IH [OF hc2(1) rest]
      let ?h = "\<lparr>hop_edge = edge, hop_source = source, hop_target = ?t, hop_reverse = (?t \<noteq> child), hop_view = w\<rparr>"
      have "crosses ?h parent child" using False by (auto simp: crosses_def parent_def split: if_splits)
      moreover have "hop_in_index reader ?h" using hc1 Some hc2(2) False by (auto simp: hop_in_index_def)
      ultimately show ?thesis using ih r by (auto simp: is_path_snoc)
    qed
  qed
qed auto

lemma resolved_chain:
  assumes "cursor_valid reader hc" "resolveHydrationChain reader entry hc = Inr (r, hc')"
  shows "cursor_valid reader hc'"
    and "r = Some chain \<Longrightarrow> is_path (chain_nodes chain) (chain_hops chain)
      \<and> last (chain_nodes chain) = cc_node (sc_candidate entry)
      \<and> map hop_edge (chain_hops chain) = sc_parentEdges entry
      \<and> list_all (hop_in_index reader) (chain_hops chain)
      \<and> (sc_parentEdges entry \<noteq> [] \<longrightarrow> last (butlast (chain_nodes chain)) = cc_parentNode (sc_candidate entry))"
proof -
  let ?node = "cc_node (sc_candidate entry)"
  from assms(2) obtain q hc1 where q: "resolve_hops reader ?node (rev (sc_parentEdges entry)) hc = Inr (q, hc1)"
    by (auto simp: resolveHydrationChain_def Let_def rbind_Inr_iff)
  note hops = resolve_hops_path [OF assms(1) q]
  note run = assms(2) [unfolded resolveHydrationChain_def Let_def q rbind_simps prod.case]
  show "cursor_valid reader hc'" using run hops by (auto split: option.splits if_splits)
  assume r: "r = Some chain"
  with run obtain hs ps where h: "q = Some (hs, ps)" and c: "chain = \<lparr>chain_nodes = rev (?node # ps), chain_hops = rev hs\<rparr>"
    and parent: "hs = [] \<or> (?node # ps) ! 1 = cc_parentNode (sc_candidate entry)"
    by (auto split: option.splits if_splits)
  have path: "is_path (rev (?node # ps)) (rev hs)" "map hop_edge hs = rev (sc_parentEdges entry)"
    "list_all (hop_in_index reader) hs" using hops h by auto
  have "sc_parentEdges entry \<noteq> [] \<Longrightarrow> last (butlast (chain_nodes chain)) = cc_parentNode (sc_candidate entry)"
  proof -
    assume "sc_parentEdges entry \<noteq> []"
    then have "hs \<noteq> []" using path(2) by auto
    moreover from this have "ps \<noteq> []" using path(1) by (cases hs rule: rev_cases; cases ps) auto
    ultimately show ?thesis using parent c by (cases ps) (simp_all add: butlast_append)
  qed
  then show "is_path (chain_nodes chain) (chain_hops chain) \<and> last (chain_nodes chain) = ?node
      \<and> map hop_edge (chain_hops chain) = sc_parentEdges entry \<and> list_all (hop_in_index reader) (chain_hops chain)
      \<and> (sc_parentEdges entry \<noteq> [] \<longrightarrow> last (butlast (chain_nodes chain)) = cc_parentNode (sc_candidate entry))"
    using path by (simp add: c rev_map [symmetric])
qed

section \<open>An explanation names the chain\<close>

definition node_id :: "'n HydrationReader \<Rightarrow> int \<Rightarrow> js_string \<Rightarrow> bool" where
  "node_id reader node i \<longleftrightarrow> (\<exists>v. rd_hydrateNode reader node = Inr v \<and> nv_id v = i)"

text \<open>The step of a hop names the two ends of its edge, whichever way the walk crossed it.\<close>

definition step_of :: "(js_string \<Rightarrow> js_string) \<Rightarrow> 'n HydrationReader \<Rightarrow> HydrationHop \<Rightarrow> ContextGraphExplanationStep \<Rightarrow> bool" where
  "step_of sha256 reader hop step \<longleftrightarrow> (\<exists>a b. node_id reader (hop_source hop) a \<and> node_id reader (hop_target hop) b
     \<and> step = hop_step sha256 hop a b)"

text \<open>The text of a path: its first identifier, then for each hop the relation and the next one.\<close>

fun rendered :: "js_string list \<Rightarrow> HydrationHop list \<Rightarrow> js_string list" where
  "rendered (i # ids) (hop # hops) = i # hop_relation hop # rendered ids hops"
| "rendered ids hops = take 1 ids"

lemma chain_ids_valid:
  "cursor_valid reader hc \<Longrightarrow> chain_ids reader nodes hc = Inr (r, hc') \<Longrightarrow>
     cursor_valid reader hc' \<and> (\<forall>ids. r = Some ids \<longrightarrow> list_all2 (node_id reader) nodes ids)"
proof (induction nodes arbitrary: hc r hc')
  case (Cons n nodes)
  from Cons.prems(2) obtain v hc1 where v: "hydration_node reader n hc = Inr (v, hc1)" by (auto simp: rbind_Inr_iff)
  note hc1 = hydration_node_valid [OF Cons.prems(1) v]
  show ?case
  proof (cases v)
    case None
    with Cons.prems(2) v hc1 show ?thesis by auto
  next
    case (Some w)
    with Cons.prems(2) v obtain rest where rest: "chain_ids reader nodes hc1 = Inr (rest, hc')"
      and r: "r = map_option (\<lambda>ids. nv_id w # ids) rest" by (auto simp: rbind_Inr_iff)
    from Cons.IH [OF _ rest] hc1 Some r show ?thesis by (auto simp: node_id_def)
  qed
qed auto

lemma explain_hops_valid:
  "cursor_valid reader hc \<Longrightarrow> explain_hops sha256 reader hops ids hc = Inr (r, hc') \<Longrightarrow>
     cursor_valid reader hc'
     \<and> (\<forall>steps path. r = Some (steps, path) \<longrightarrow> list_all2 (step_of sha256 reader) hops steps
          \<and> (length ids = length hops \<longrightarrow> (\<forall>i. i # path = rendered (i # ids) hops)))"
proof (induction hops arbitrary: ids hc r hc')
  case (Cons hop hops)
  from Cons.prems(2) obtain a hc1 b hc2 where a: "hydration_node reader (hop_source hop) hc = Inr (a, hc1)"
    and b: "hydration_node reader (hop_target hop) hc1 = Inr (b, hc2)" by (auto simp: rbind_Inr_iff)
  note hc1 = hydration_node_valid [OF Cons.prems(1) a]
  note hc2 = hydration_node_valid [OF conjunct1 [OF hc1] b]
  note run = Cons.prems(2) [unfolded explain_hops.simps a b rbind_simps prod.case]
  show ?case
  proof (cases "a = None \<or> b = None")
    case True
    with run hc2 show ?thesis by (auto split: option.splits)
  next
    case False
    then obtain v w where vw: "a = Some v" "b = Some w" by auto
    with run obtain i ids' rest where ids: "ids = i # ids'"
      and rest: "explain_hops sha256 reader hops ids' hc2 = Inr (rest, hc')"
      and r: "r = map_option (\<lambda>(steps, path). (hop_step sha256 hop (nv_id v) (nv_id w) # steps,
             hop_relation hop # i # path)) rest"
      by (auto simp: rbind_Inr_iff split: list.splits)
    from Cons.IH [OF conjunct1 [OF hc2] rest] hc1 hc2 r ids vw show ?thesis
      by (auto simp: step_of_def node_id_def)
  qed
qed auto

lemma is_path_length: "is_path ns hs \<Longrightarrow> length ns = length hs + 1"
  by (induction ns hs rule: is_path.induct) auto

definition explains ::
  "(js_string \<Rightarrow> js_string) \<Rightarrow> 'n HydrationReader \<Rightarrow> HydrationChain \<Rightarrow> HydrationExplanation \<Rightarrow> bool" where
  "explains sha256 reader chain x \<longleftrightarrow> list_all2 (step_of sha256 reader) (chain_hops chain) (hx_steps x)
     \<and> (\<exists>ids. list_all2 (node_id reader) (chain_nodes chain) ids \<and> hx_reasonPath x = rendered ids (chain_hops chain))"

lemma explained_chain:
  assumes "cursor_valid reader hc" "explainHydrationChain sha256 reader chain hc = Inr (r, hc')"
    and "is_path (chain_nodes chain) (chain_hops chain)"
  shows "cursor_valid reader hc' \<and> (\<forall>x. r = Some x \<longrightarrow> explains sha256 reader chain x)"
proof -
  from assms(2) obtain ids hc1 where ids: "chain_ids reader (chain_nodes chain) hc = Inr (ids, hc1)"
    by (auto simp: explainHydrationChain_def rbind_Inr_iff)
  note hc1 = chain_ids_valid [OF assms(1) ids]
  note run = assms(2) [unfolded explainHydrationChain_def ids rbind_simps prod.case]
  show ?thesis
  proof (cases ids)
    case None
    with run hc1 show ?thesis by auto
  next
    case (Some l)
    then have l: "list_all2 (node_id reader) (chain_nodes chain) l" using hc1 by simp
    with is_path_length [OF assms(3)] obtain i l' where i: "l = i # l'" "length l' = length (chain_hops chain)"
      by (cases l) (auto dest!: list_all2_lengthD)
    with run Some obtain q where q: "explain_hops sha256 reader (chain_hops chain) l' hc1 = Inr (q, hc')"
      and r: "r = map_option (\<lambda>(steps, path). \<lparr>hx_reasonPath = i # path, hx_steps = steps\<rparr>) q"
      by (auto simp: rbind_Inr_iff)
    from explain_hops_valid [OF conjunct1 [OF hc1] q] i l r show ?thesis by (auto simp: explains_def)
  qed
qed

end
