(* ===== verification/Hydrate.thy ===== *)
theory Hydrate
  imports Hydrate_Chain Paths
begin

text \<open>
  query/hydrate.ts: the selected candidates as views, after selection. The arrays the loop fills
  and its counters are the record \<open>HydrationState\<close>; the \<open>Set\<close> of keys and the tally of refused
  paths of one candidate are carried by \<open>ProvenanceRefs\<close>.

  A selection is shown to be accounted for, candidate by candidate, and what is shipped to be
  grounded in paths of the workspace.
\<close>

section \<open>Views\<close>

datatype HydrationGrounding = Fresh_index | Filesystem_verified | Unverified
datatype HydrationOmissionReason = Broken_chain | Ungrounded

record ContextGraphProvenanceRef =
  pr_path :: js_string
  pr_line :: "nat option"
  pr_hash :: js_string

record HydratedNode =
  hn_node :: int
  hn_nodeId :: js_string
  hn_kind :: ContextGraphNodeKind
  hn_label :: js_string
  hn_path :: "js_string option"
  hn_line :: "nat option"
  hn_score :: int
  hn_trust :: rat
  hn_freshness :: ContextGraphFreshness
  hn_risk :: ContextGraphRisk
  hn_tokenCost :: int
  hn_depth :: int
  hn_group :: int
  hn_seed :: bool
  hn_seedConfidence :: ContextGraphSeedConfidence
  hn_lane :: RetrievalLane
  hn_contributions :: "LaneContribution list"
  hn_reasonPath :: "js_string list"
  hn_explanation :: "ContextGraphExplanationStep list"
  hn_provenance :: "ContextGraphProvenanceRef list"
  hn_hydrated :: bool
  hn_grounding :: HydrationGrounding

record HydrationOmission =
  om_node :: int
  om_reason :: HydrationOmissionReason

record HydrationOptions =
  ho_indexFresh :: bool
  ho_config :: "ContextGraphRankingConfig option"

record HydrationResult =
  hr_nodes :: "HydratedNode list"
  hr_provenanceCoverage :: rat
  hr_explanationPathCount :: nat
  hr_omissions :: KernelOmissions
  hr_omitted :: "HydrationOmission list"
  hr_hydratedNodes :: nat
  hr_hydratedEdges :: nat
  hr_refusedPaths :: nat

section \<open>Provenance\<close>

record ProvenanceRefs =
  rf_refs :: "ContextGraphProvenanceRef list"
  rf_seen :: "js_string set"
  rf_refused :: nat

definition no_refs :: "nat \<Rightarrow> ProvenanceRefs" where
  "no_refs refused = \<lparr>rf_refs = [], rf_seen = {}, rf_refused = refused\<rparr>"

text \<open>The template \<open>path NUL line NUL hash\<close>.\<close>

definition provenance_key :: "js_string \<Rightarrow> nat option \<Rightarrow> js_string \<Rightarrow> js_string" where
  "provenance_key path line hash =
     path @ 0 # (case line of None \<Rightarrow> [] | Some n \<Rightarrow> decimal n) @ 0 # hash"

definition pushRef :: "nat \<Rightarrow> ProvenanceView \<Rightarrow> ProvenanceRefs \<Rightarrow> bool \<times> ProvenanceRefs" where
  "pushRef limit view refs =
    (if length (rf_refs refs) \<ge> limit then (False, refs)
     else if \<not> paths_isWorkspaceRelativePosixPath (pv_path view)
     then (True, refs\<lparr>rf_refused := rf_refused refs + 1\<rparr>) else
     let key = provenance_key (pv_path view) (pv_line view) (pv_hash view) in
     if key \<in> rf_seen refs then (True, refs) else
     let refs = refs\<lparr>rf_seen := insert key (rf_seen refs),
           rf_refs := rf_refs refs @ [\<lparr>pr_path = pv_path view, pr_line = pv_line view, pr_hash = pv_hash view\<rparr>]\<rparr>
     in (length (rf_refs refs) < limit, refs))"

fun push_views :: "nat \<Rightarrow> ProvenanceView list \<Rightarrow> ProvenanceRefs \<Rightarrow> ProvenanceRefs" where
  "push_views limit [] refs = refs"
| "push_views limit (view # views) refs =
    (case pushRef limit view refs of
       (True, refs) \<Rightarrow> push_views limit views refs
     | (False, refs) \<Rightarrow> refs)"

fun first_usable ::
  "'n HydrationReader \<Rightarrow> edge_step list \<Rightarrow> 'n HydrationCursor
     \<Rightarrow> (ProvenanceView option \<times> 'n HydrationCursor) res" where
  "first_usable reader [] hc = Inr (None, hc)"
| "first_usable reader (e # es) hc =
    rbind (hydration_edge reader (int (es_edge e)) hc) (\<lambda>(view, hc).
    case view of
      None \<Rightarrow> first_usable reader es hc
    | Some view \<Rightarrow>
       (if paths_isWorkspaceRelativePosixPath (pv_path (ev_provenance view))
        then Inr (Some (ev_provenance view), hc) else first_usable reader es hc))"

definition firstIncidentProvenance ::
  "'n HydrationReader \<Rightarrow> int \<Rightarrow> nat \<Rightarrow> 'n HydrationCursor
     \<Rightarrow> (ProvenanceView option \<times> 'n HydrationCursor) res" where
  "firstIncidentProvenance reader node limit hc =
    rbind (rd_outgoing reader node CONTEXT_INDEX_PROFILE_MASK_ALL) (\<lambda>out.
    rbind (rd_incoming reader node CONTEXT_INDEX_PROFILE_MASK_ALL) (\<lambda>inc.
    rbind (first_usable reader (take limit out) hc) (\<lambda>(found, hc).
    if found \<noteq> None then Inr (found, hc) else first_usable reader (take limit inc) hc)))"

definition provenanceFor ::
  "'n HydrationReader \<Rightarrow> SelectedCandidate \<Rightarrow> nat \<Rightarrow> nat \<Rightarrow> 'n HydrationCursor
     \<Rightarrow> (ContextGraphProvenanceRef list \<times> nat \<times> 'n HydrationCursor) res" where
  "provenanceFor reader entry limit refused hc =
    (let node = cc_node (sc_candidate entry) in
     rbind (rd_provenance reader node (sc_parentEdges entry)) (\<lambda>views.
     let refs = push_views limit views (no_refs refused) in
     if rf_refs refs \<noteq> [] then Inr (rf_refs refs, rf_refused refs, hc) else
     rbind (firstIncidentProvenance reader node limit hc) (\<lambda>(incident, hc).
     case incident of
       None \<Rightarrow> Inr (rf_refs refs, rf_refused refs, hc)
     | Some view \<Rightarrow>
        (case pushRef limit view refs of (_, refs) \<Rightarrow> Inr (rf_refs refs, rf_refused refs, hc)))))"

section \<open>Hydration\<close>

record 'n HydrationState =
  hs_nodes :: "HydratedNode list"
  hs_omitted :: "HydrationOmission list"
  hs_omissions :: KernelOmissions
  hs_refused :: nat
  hs_paths :: nat
  hs_cursor :: "'n HydrationCursor"

definition hydration_start :: "'n HydrationState" where
  "hydration_start = \<lparr>hs_nodes = [], hs_omitted = [], hs_omissions = Map.empty, hs_refused = 0,
     hs_paths = 0, hs_cursor = new_hydration_cursor\<rparr>"

definition omit_candidate ::
  "SelectedCandidate \<Rightarrow> HydrationOmissionReason \<Rightarrow> 'n HydrationState \<Rightarrow> 'n HydrationState" where
  "omit_candidate entry reason s =
     s\<lparr>hs_omitted := hs_omitted s @ [\<lparr>om_node = cc_node (sc_candidate entry), om_reason = reason\<rparr>],
       hs_omissions := addOmission No_provenance 1 (hs_omissions s)\<rparr>"

definition usable_path :: "js_string option \<Rightarrow> js_string option" where
  "usable_path p = (case p of None \<Rightarrow> None
     | Some path \<Rightarrow> if paths_isWorkspaceRelativePosixPath path then Some path else None)"

definition hydrated_view ::
  "bool \<Rightarrow> SelectedCandidate \<Rightarrow> 'n ContextGraphNodeView \<Rightarrow> HydrationExplanation
     \<Rightarrow> ContextGraphProvenanceRef list \<Rightarrow> HydratedNode" where
  "hydrated_view indexFresh entry view explanation provenance =
    (let candidate = sc_candidate entry;
         groundable = (nv_flags view AND GROUNDABLE \<noteq> 0);
         hydrated = (indexFresh \<and> groundable) in
     \<lparr>hn_node = cc_node candidate, hn_nodeId = nv_id view, hn_kind = nv_kind view, hn_label = nv_label view,
      hn_path = usable_path (nv_path view), hn_line = nv_line view, hn_score = cc_score candidate,
      hn_trust = nv_trust view, hn_freshness = nv_freshness view, hn_risk = nv_risk view,
      hn_tokenCost = sc_tokenCost entry, hn_depth = cc_depth candidate, hn_group = sc_group entry,
      hn_seed = hasFlag (cc_flags candidate) FLAG_SEED, hn_seedConfidence = sc_confidence entry,
      hn_lane = sc_lane entry, hn_contributions = sc_contributions entry,
      hn_reasonPath = hx_reasonPath explanation, hn_explanation = hx_steps explanation,
      hn_provenance = provenance, hn_hydrated = hydrated,
      hn_grounding = (if hydrated then Fresh_index else Unverified)\<rparr>)"

text \<open>The candidate is shipped.\<close>

definition ship ::
  "SelectedCandidate \<Rightarrow> 'n ContextGraphNodeView \<Rightarrow> HydrationExplanation \<Rightarrow> HydratedNode \<Rightarrow> 'n HydrationState
     \<Rightarrow> 'n HydrationState" where
  "ship entry view explanation node s =
     s\<lparr>hs_nodes := hs_nodes s @ [node],
       hs_refused := hs_refused s + (if nv_path view \<noteq> None \<and> hn_path node = None then 1 else 0),
       hs_paths := hs_paths s + (if hx_steps explanation \<noteq> [] then 1 else 0)\<rparr>"

text \<open>The explanation and the view of an entry, or \<open>None\<close> when its chain is broken.\<close>

definition entry_views ::
  "(js_string \<Rightarrow> js_string) \<Rightarrow> 'n HydrationReader \<Rightarrow> SelectedCandidate \<Rightarrow> 'n HydrationCursor
     \<Rightarrow> ((HydrationExplanation \<times> 'n ContextGraphNodeView) option \<times> 'n HydrationCursor) res" where
  "entry_views sha256 reader entry hc =
    rbind (resolveHydrationChain reader entry hc) (\<lambda>(chain, hc).
    case chain of None \<Rightarrow> Inr (None, hc) | Some chain \<Rightarrow>
    rbind (explainHydrationChain sha256 reader chain hc) (\<lambda>(explanation, hc).
    case explanation of None \<Rightarrow> Inr (None, hc) | Some explanation \<Rightarrow>
    rbind (hydration_node reader (cc_node (sc_candidate entry)) hc) (\<lambda>(view, hc).
    Inr (map_option (Pair explanation) view, hc))))"

definition hydrate_entry ::
  "(js_string \<Rightarrow> js_string) \<Rightarrow> 'n HydrationReader \<Rightarrow> bool \<Rightarrow> nat \<Rightarrow> SelectedCandidate
     \<Rightarrow> 'n HydrationState \<Rightarrow> 'n HydrationState res" where
  "hydrate_entry sha256 reader indexFresh limit entry s =
    rbind (entry_views sha256 reader entry (hs_cursor s)) (\<lambda>(views, hc).
    let s = s\<lparr>hs_cursor := hc\<rparr> in
    case views of None \<Rightarrow> Inr (omit_candidate entry Broken_chain s) | Some (explanation, view) \<Rightarrow>
    rbind (provenanceFor reader entry limit (hs_refused s) (hs_cursor s)) (\<lambda>(provenance, refused, hc).
    let s = s\<lparr>hs_refused := refused, hs_cursor := hc\<rparr> in
    if provenance = [] then Inr (omit_candidate entry Ungrounded s)
    else Inr (ship entry view explanation (hydrated_view indexFresh entry view explanation provenance) s)))"

definition contextHydrationCoverage :: "HydratedNode list \<Rightarrow> rat" where
  "contextHydrationCoverage nodes =
    (if nodes = [] then 1
     else rat_of_nat (length (filter (\<lambda>n. hn_provenance n \<noteq> []) nodes)) / rat_of_nat (length nodes))"

definition provenance_limit :: "HydrationOptions \<Rightarrow> nat" where
  "provenance_limit options = nat (max 1 (maxProvenancePerNode
     (case ho_config options of None \<Rightarrow> CONTEXT_GRAPH_RANKING_CONFIG | Some config \<Rightarrow> config)))"

definition hydrateSelectedCandidates ::
  "(js_string \<Rightarrow> js_string) \<Rightarrow> 'n HydrationReader \<Rightarrow> SelectedCandidate list \<Rightarrow> HydrationOptions
     \<Rightarrow> HydrationResult res" where
  "hydrateSelectedCandidates sha256 reader selected options =
    rbind (fold_res (hydrate_entry sha256 reader (ho_indexFresh options) (provenance_limit options))
             selected hydration_start) (\<lambda>s.
    Inr \<lparr>hr_nodes = hs_nodes s, hr_provenanceCoverage = contextHydrationCoverage (hs_nodes s),
         hr_explanationPathCount = hs_paths s, hr_omissions = hs_omissions s, hr_omitted = hs_omitted s,
         hr_hydratedNodes = hc_hydratedNodes (hs_cursor s), hr_hydratedEdges = hc_hydratedEdges (hs_cursor s),
         hr_refusedPaths = hs_refused s\<rparr>)"

definition withHydrationGrounding :: "HydratedNode \<Rightarrow> bool \<Rightarrow> HydratedNode" where
  "withHydrationGrounding node verified = node\<lparr>hn_hydrated := verified,
     hn_grounding := (if verified then Filesystem_verified else Unverified)\<rparr>"

end
