(* ===== verification/Hydrate_Correct.thy ===== *)
theory Hydrate_Correct
  imports Hydrate
begin

text \<open>
  What a hydration ships: every selected candidate is shipped or counted as omitted, a shipped one
  is grounded and its explanation is a path of the index, and each view is read at most once.
\<close>

unbundle bit_operations_syntax

section \<open>Provenance references\<close>

definition ref_key :: "ContextGraphProvenanceRef \<Rightarrow> js_string" where
  "ref_key r = provenance_key (pr_path r) (pr_line r) (pr_hash r)"

definition refs_sound :: "nat \<Rightarrow> ContextGraphProvenanceRef list \<Rightarrow> bool" where
  "refs_sound limit refs \<longleftrightarrow> length refs \<le> limit \<and> distinct (map ref_key refs)
     \<and> list_all (\<lambda>r. paths_isWorkspaceRelativePosixPath (pr_path r)) refs"

definition refs_valid :: "nat \<Rightarrow> ProvenanceRefs \<Rightarrow> bool" where
  "refs_valid limit s \<longleftrightarrow> refs_sound limit (rf_refs s) \<and> rf_seen s = set (map ref_key (rf_refs s))"

lemma pushRef_valid: "refs_valid limit s \<Longrightarrow> pushRef limit view s = (b, t) \<Longrightarrow> refs_valid limit t"
  by (auto simp: pushRef_def refs_valid_def refs_sound_def Let_def ref_key_def split: if_splits)

lemma push_views_valid: "refs_valid limit s \<Longrightarrow> refs_valid limit (push_views limit views s)"
  by (induction limit views s rule: push_views.induct)
    (auto split: prod.splits bool.splits dest: pushRef_valid)

lemma first_usable_valid:
  "cursor_valid reader hc \<Longrightarrow> first_usable reader es hc = Inr (r, hc') \<Longrightarrow> cursor_valid reader hc'"
proof (induction es arbitrary: hc r hc')
  case (Cons e es)
  then obtain view hc1 where v: "hydration_edge reader (int (es_edge e)) hc = Inr (view, hc1)"
    by (auto simp: rbind_Inr_iff)
  from hydration_edge_valid [OF Cons.prems(1) v] have "cursor_valid reader hc1" by simp
  with Cons v show ?case by (auto split: option.splits if_splits)
qed simp

lemma firstIncident_valid:
  assumes "cursor_valid reader hc" "firstIncidentProvenance reader node limit hc = Inr (r, hc')"
  shows "cursor_valid reader hc'"
proof -
  from assms(2) obtain out inc found hc1 where
      first: "first_usable reader (take limit out) hc = Inr (found, hc1)"
    and rest: "(if found \<noteq> None then Inr (found, hc1) else first_usable reader (take limit inc) hc1) = Inr (r, hc')"
    by (auto simp: firstIncidentProvenance_def rbind_Inr_iff)
  from first_usable_valid [OF assms(1) first] rest show ?thesis
    by (cases "found = None") (auto dest: first_usable_valid)
qed

lemma provenanceFor_valid:
  assumes "cursor_valid reader hc" "provenanceFor reader entry limit refused hc = Inr (refs, refused', hc')"
  shows "cursor_valid reader hc' \<and> refs_sound limit refs"
proof -
  have start: "refs_valid limit (push_views limit views (no_refs refused))" for views
    by (rule push_views_valid) (simp add: no_refs_def refs_valid_def refs_sound_def)
  from assms obtain views where "rd_provenance reader (cc_node (sc_candidate entry)) (sc_parentEdges entry) = Inr views"
    by (auto simp: provenanceFor_def Let_def rbind_Inr_iff)
  note run = assms(2) [unfolded provenanceFor_def Let_def this rbind_simps]
  let ?refs = "push_views limit views (no_refs refused)"
  show ?thesis
  proof (cases "rf_refs ?refs = []")
    case False
    with run assms(1) start [of views] show ?thesis by (auto simp: refs_valid_def)
  next
    case True
    from run True obtain p where p: "firstIncidentProvenance reader (cc_node (sc_candidate entry)) limit hc = Inr p"
      by (cases "firstIncidentProvenance reader (cc_node (sc_candidate entry)) limit hc") simp_all
    obtain incident hc1 where "p = (incident, hc1)" by (cases p)
    note i = p [unfolded this]
    have "cursor_valid reader hc1" using firstIncident_valid [OF assms(1) i] .
    moreover have "pushRef limit view ?refs = (b, t) \<Longrightarrow> refs_sound limit (rf_refs t)" for view b t
      using pushRef_valid [OF start] by (auto simp: refs_valid_def)
    ultimately show ?thesis
      using run i True start [of views] by (auto simp: refs_valid_def split: option.splits prod.splits)
  qed
qed

section \<open>One candidate\<close>

definition grounded :: "nat \<Rightarrow> HydratedNode \<Rightarrow> bool" where
  "grounded limit n \<longleftrightarrow> hn_provenance n \<noteq> [] \<and> refs_sound limit (hn_provenance n)
     \<and> (case hn_path n of None \<Rightarrow> True | Some p \<Rightarrow> paths_isWorkspaceRelativePosixPath p)
     \<and> (hn_grounding n = (if hn_hydrated n then Fresh_index else Unverified))"

text \<open>The chain a shipped node is explained by.\<close>

definition chained ::
  "(js_string \<Rightarrow> js_string) \<Rightarrow> 'n HydrationReader \<Rightarrow> SelectedCandidate \<Rightarrow> HydrationChain \<Rightarrow> HydratedNode \<Rightarrow> bool" where
  "chained sha256 reader entry chain n \<longleftrightarrow>
     is_path (chain_nodes chain) (chain_hops chain) \<and> last (chain_nodes chain) = hn_node n
     \<and> map hop_edge (chain_hops chain) = sc_parentEdges entry \<and> list_all (hop_in_index reader) (chain_hops chain)
     \<and> explains sha256 reader chain \<lparr>hx_reasonPath = hn_reasonPath n, hx_steps = hn_explanation n\<rparr>"

definition shipped ::
  "(js_string \<Rightarrow> js_string) \<Rightarrow> 'n HydrationReader \<Rightarrow> nat \<Rightarrow> SelectedCandidate \<Rightarrow> HydratedNode \<Rightarrow> bool" where
  "shipped sha256 reader limit entry n \<longleftrightarrow> hn_node n = cc_node (sc_candidate entry) \<and> grounded limit n
     \<and> node_id reader (hn_node n) (hn_nodeId n) \<and> (\<exists>chain. chained sha256 reader entry chain n)"

lemma entry_views_valid:
  assumes "cursor_valid reader hc" "entry_views sha256 reader entry hc = Inr (r, hc')"
  shows "cursor_valid reader hc' \<and> (\<forall>x view. r = Some (x, view) \<longrightarrow>
      rd_hydrateNode reader (cc_node (sc_candidate entry)) = Inr view
      \<and> (\<exists>chain. is_path (chain_nodes chain) (chain_hops chain)
          \<and> last (chain_nodes chain) = cc_node (sc_candidate entry)
          \<and> map hop_edge (chain_hops chain) = sc_parentEdges entry
          \<and> list_all (hop_in_index reader) (chain_hops chain) \<and> explains sha256 reader chain x))"
proof -
  from assms(2) obtain c hc1 where c: "resolveHydrationChain reader entry hc = Inr (c, hc1)"
    by (auto simp: entry_views_def rbind_Inr_iff)
  note hc1 = resolved_chain(1) [OF assms(1) c]
  note run = assms(2) [unfolded entry_views_def c rbind_simps prod.case]
  show ?thesis
  proof (cases c)
    case None
    with run hc1 show ?thesis by simp
  next
    case (Some chain)
    note chain = resolved_chain(2) [OF assms(1) c Some]
    from run Some obtain x hc2 where x: "explainHydrationChain sha256 reader chain hc1 = Inr (x, hc2)"
      by (auto simp: rbind_Inr_iff)
    note hc2 = explained_chain [OF hc1 x conjunct1 [OF chain]]
    show ?thesis
    proof (cases x)
      case None
      with run Some x hc2 show ?thesis by simp
    next
      case (Some y)
      with run \<open>c = Some chain\<close> x obtain v where
        v: "hydration_node reader (cc_node (sc_candidate entry)) hc2 = Inr (v, hc')" "r = map_option (Pair y) v"
        by (auto simp: rbind_Inr_iff)
      from hydration_node_valid [OF conjunct1 [OF hc2] v(1)] v(2) chain hc2 Some show ?thesis by auto
    qed
  qed
qed

lemma view_shipped:
  assumes "rd_hydrateNode reader (cc_node (sc_candidate entry)) = Inr view"
    and "is_path (chain_nodes chain) (chain_hops chain)" "last (chain_nodes chain) = cc_node (sc_candidate entry)"
      "map hop_edge (chain_hops chain) = sc_parentEdges entry" "list_all (hop_in_index reader) (chain_hops chain)"
      "explains sha256 reader chain x" "provenance \<noteq> []" "refs_sound limit provenance"
  shows "shipped sha256 reader limit entry (hydrated_view fresh entry view x provenance)"
  using assms
  by (auto simp: shipped_def grounded_def chained_def hydrated_view_def Let_def usable_path_def node_id_def
      explains_def split: option.splits)

section \<open>The selection\<close>

definition omission_count :: "KernelOmissions \<Rightarrow> KernelOmissionReason \<Rightarrow> int" where
  "omission_count o' reason = (case o' reason of None \<Rightarrow> 0 | Some n \<Rightarrow> n)"

definition hydration_ok ::
  "(js_string \<Rightarrow> js_string) \<Rightarrow> 'n HydrationReader \<Rightarrow> nat \<Rightarrow> SelectedCandidate list \<Rightarrow> 'n HydrationState \<Rightarrow> bool" where
  "hydration_ok sha256 reader limit selected s \<longleftrightarrow>
     mset (map hn_node (hs_nodes s)) + mset (map om_node (hs_omitted s)) = mset (map (cc_node \<circ> sc_candidate) selected)
     \<and> subseq (map hn_node (hs_nodes s)) (map (cc_node \<circ> sc_candidate) selected)
     \<and> omission_count (hs_omissions s) No_provenance = int (length (hs_omitted s))
     \<and> list_all (\<lambda>n. list_ex (\<lambda>entry. shipped sha256 reader limit entry n) selected) (hs_nodes s)
     \<and> cursor_valid reader (hs_cursor s)"

lemma shipped_more:
  "list_all (\<lambda>n. list_ex (\<lambda>entry. shipped sha256 reader limit entry n) xs) ns \<Longrightarrow>
     list_all (\<lambda>n. list_ex (\<lambda>entry. shipped sha256 reader limit entry n) xs
       \<or> shipped sha256 reader limit x n) ns"
  by (auto simp: list_all_iff)

lemma subseq_more: "subseq xs ys \<Longrightarrow> subseq xs (ys @ [y])"
  by (rule list_emb_prefix)

lemma hydrate_entry_ok:
  assumes "hydration_ok sha256 reader limit before s" "hydrate_entry sha256 reader fresh limit entry s = Inr t"
  shows "hydration_ok sha256 reader limit (before @ [entry]) t"
proof -
  let ?node = "cc_node (sc_candidate entry)"
  have s: "cursor_valid reader (hs_cursor s)" using assms(1) by (simp add: hydration_ok_def)
  from assms(2) obtain r hc where r: "entry_views sha256 reader entry (hs_cursor s) = Inr (r, hc)"
    by (auto simp: hydrate_entry_def rbind_Inr_iff)
  note hc = entry_views_valid [OF s r]
  note run = assms(2) [unfolded hydrate_entry_def Let_def r rbind_simps prod.case]
  have omitted: "hydration_ok sha256 reader limit (before @ [entry])
      (omit_candidate entry reason (s\<lparr>hs_refused := n, hs_cursor := hc'\<rparr>))" if "cursor_valid reader hc'" for reason n hc'
  proof -
    have "omission_count (addOmission No_provenance 1 o') No_provenance = omission_count o' No_provenance + 1" for o'
      by (simp add: omission_count_def addOmission_def)
    with assms(1) that show ?thesis
      unfolding hydration_ok_def omit_candidate_def
      by (intro conjI) (simp_all add: subseq_more shipped_more)
  qed
  show ?thesis
  proof (cases r)
    case None
    with run have "t = omit_candidate entry Broken_chain (s\<lparr>hs_cursor := hc\<rparr>)" by simp
    with omitted [of hc Broken_chain "hs_refused s"] hc show ?thesis by simp
  next
    case (Some xv)
    then obtain x view where xv: "r = Some (x, view)" by (cases xv) auto
    with run obtain refs n hc2 where p: "provenanceFor reader entry limit (hs_refused s) hc = Inr (refs, n, hc2)"
      by (auto simp: rbind_Inr_iff)
    note pv = provenanceFor_valid [OF conjunct1 [OF hc] p]
    show ?thesis
    proof (cases "refs = []")
      case True
      with run xv p omitted [of hc2 Ungrounded n] pv show ?thesis by simp
    next
      case False
      let ?n = "hydrated_view fresh entry view x refs"
      from run xv p False have t: "t = ship entry view x ?n (s\<lparr>hs_refused := n, hs_cursor := hc2\<rparr>)" by simp
      have "shipped sha256 reader limit entry ?n" using hc xv pv False view_shipped by blast
      moreover have "hn_node ?n = ?node" by (simp add: hydrated_view_def Let_def)
      ultimately show ?thesis
        using assms(1) pv unfolding t
        by (auto simp: hydration_ok_def ship_def intro: list_emb_append_mono shipped_more)
    qed
  qed
qed

lemma fold_res_history:
  assumes "P [] s" "\<And>before x s t. P before s \<Longrightarrow> f x s = Inr t \<Longrightarrow> P (before @ [x]) t" "fold_res f xs s = Inr t"
  shows "P xs t"
proof -
  have "P before s \<Longrightarrow> fold_res f xs s = Inr t \<Longrightarrow> P (before @ xs) t" for before
  proof (induction xs arbitrary: before s)
    case (Cons x xs)
    then obtain u where "f x s = Inr u" "fold_res f xs u = Inr t" by (auto simp: rbind_Inr_iff)
    with Cons.IH [of "before @ [x]" u] assms(2) [OF Cons.prems(1)] show ?case by simp
  qed simp
  with assms(1,3) show ?thesis by fastforce
qed

lemma hydrated_ok:
  assumes "hydrateSelectedCandidates sha256 reader selected options = Inr res"
  obtains s :: "'n HydrationState" where "hydration_ok sha256 reader (provenance_limit options) selected s"
    "hr_nodes res = hs_nodes s" "hr_omitted res = hs_omitted s" "hr_omissions res = hs_omissions s"
    "hr_provenanceCoverage res = contextHydrationCoverage (hs_nodes s)"
    "hr_hydratedNodes res = hc_hydratedNodes (hs_cursor s)" "hr_hydratedEdges res = hc_hydratedEdges (hs_cursor s)"
proof -
  from assms obtain s :: "'n HydrationState" where
      s: "fold_res (hydrate_entry sha256 reader (ho_indexFresh options) (provenance_limit options)) selected hydration_start = Inr s"
    and res: "res = \<lparr>hr_nodes = hs_nodes s, hr_provenanceCoverage = contextHydrationCoverage (hs_nodes s),
         hr_explanationPathCount = hs_paths s, hr_omissions = hs_omissions s, hr_omitted = hs_omitted s,
         hr_hydratedNodes = hc_hydratedNodes (hs_cursor s), hr_hydratedEdges = hc_hydratedEdges (hs_cursor s),
         hr_refusedPaths = hs_refused s\<rparr>"
    by (auto simp: hydrateSelectedCandidates_def rbind_Inr_iff)
  have "hydration_ok sha256 reader (provenance_limit options) [] hydration_start"
    by (simp add: hydration_ok_def hydration_start_def omission_count_def new_cursor_valid)
  from fold_res_history [of "hydration_ok sha256 reader (provenance_limit options)", OF this _ s] hydrate_entry_ok
  have "hydration_ok sha256 reader (provenance_limit options) selected s" by blast
  with that res show thesis by simp
qed

lemma coverage_full: "list_all (\<lambda>n. hn_provenance n \<noteq> []) nodes \<Longrightarrow> contextHydrationCoverage nodes = 1"
  by (auto simp: contextHydrationCoverage_def list_all_iff filter_id_conv [THEN iffD2])

lemma shipped_grounded:
  "list_all (\<lambda>n. list_ex (\<lambda>entry. shipped sha256 reader limit entry n) xs) ns \<Longrightarrow> list_all (grounded limit) ns"
  by (auto simp: list_all_iff list_ex_iff shipped_def)

section \<open>Properties\<close>

text \<open>
  C13. A hydration accounts for the whole selection: the nodes shipped, in the order of the
  selection, and the nodes omitted are together the nodes selected; the omissions are counted;
  and the cost is bounded by the index, each node and each edge being read at most once.
\<close>

theorem hydration_accounts_for_all:
  assumes "hydrateSelectedCandidates sha256 reader selected options = Inr res"
  shows "mset (map hn_node (hr_nodes res)) + mset (map om_node (hr_omitted res))
       = mset (map (cc_node \<circ> sc_candidate) selected)
     \<and> subseq (map hn_node (hr_nodes res)) (map (cc_node \<circ> sc_candidate) selected)
     \<and> omission_count (hr_omissions res) No_provenance = int (length (hr_omitted res))
     \<and> hr_hydratedNodes res \<le> nat (rd_nodeCount reader) \<and> hr_hydratedEdges res \<le> nat (rd_edgeCount reader)"
  by (rule hydrated_ok [OF assms])
    (simp add: hydration_ok_def cursor_valid_def node_memo.bounded edge_memo.bounded)

text \<open>
  C14. What is shipped is grounded: the coverage is exactly one; every shipped node carries at
  least one provenance record and at most the limit, no two alike; every path it carries is a
  workspace-relative one; and its grounding is never a claim about the file system.
\<close>

theorem hydration_grounded:
  assumes "hydrateSelectedCandidates sha256 reader selected options = Inr res"
  shows "hr_provenanceCoverage res = 1 \<and> list_all (grounded (provenance_limit options)) (hr_nodes res)"
proof (rule hydrated_ok [OF assms])
  fix s :: "'a HydrationState"
  assume ok: "hydration_ok sha256 reader (provenance_limit options) selected s"
    and res: "hr_nodes res = hs_nodes s" "hr_provenanceCoverage res = contextHydrationCoverage (hs_nodes s)"
  have g: "list_all (grounded (provenance_limit options)) (hs_nodes s)"
    using ok shipped_grounded by (auto simp: hydration_ok_def)
  then have "list_all (\<lambda>n. hn_provenance n \<noteq> []) (hs_nodes s)" by (auto simp: list_all_iff grounded_def)
  with g res show ?thesis by (simp add: coverage_full)
qed

text \<open>
  C7. An explanation is a path of the index: every shipped node comes from a selected candidate
  whose parent edges, read back from the index, join consecutive nodes up to it; each step names
  the two ends of its edge in the edge's own direction, and the reason path names the nodes.
\<close>

theorem explanations_are_paths:
  assumes "hydrateSelectedCandidates sha256 reader selected options = Inr res"
  shows "list_all (\<lambda>n. list_ex (\<lambda>entry. hn_node n = cc_node (sc_candidate entry)
       \<and> (\<exists>chain. chained sha256 reader entry chain n)) selected) (hr_nodes res)"
proof (rule hydrated_ok [OF assms])
  fix s :: "'a HydrationState"
  assume "hydration_ok sha256 reader (provenance_limit options) selected s" and res: "hr_nodes res = hs_nodes s"
  then have "\<forall>n \<in> set (hs_nodes s). \<exists>entry \<in> set selected. shipped sha256 reader (provenance_limit options) entry n"
    by (simp add: hydration_ok_def list_all_iff list_ex_iff)
  then show ?thesis unfolding res shipped_def list_all_iff list_ex_iff by blast
qed

end
