(* ===== verification/Kernel_Links.thy ===== *)
theory Kernel_Links
  imports Kernel_Answers Kernel_Bounds
begin

text \<open>
  The parent pointers of the candidate table through a whole query. \<open>joins a e b\<close> says that the
  edge \<open>e\<close> of the index has the ends \<open>a\<close> and \<open>b\<close>. Every row that has a parent edge is joined to its
  parent by it, the closure and the walk never link a node to itself, and so the parent edges of a
  selected candidate, read backwards, are a path of the index that starts at the candidate.
\<close>

unbundle bit_operations_syntax

section \<open>The interface\<close>

locale graph_interface = index_interface +
  fixes joins :: "int \<Rightarrow> int \<Rightarrow> int \<Rightarrow> bool"
  assumes outgoing_joins: "valid \<Longrightarrow> rd_outgoing reader n pm = Inr es \<Longrightarrow> e \<in> set es \<Longrightarrow>
      joins n (int (es_edge e)) (int (es_target e))"
    and incoming_joins: "valid \<Longrightarrow> rd_incoming reader n pm = Inr es \<Longrightarrow> e \<in> set es \<Longrightarrow>
      joins n (int (es_edge e)) (int (es_target e))"
    and joins_live: "valid \<Longrightarrow> joins a k b \<Longrightarrow> live reader a \<and> live reader b \<and> 0 \<le> k \<and> k < 2 ^ 31"

section \<open>Linked rows\<close>

definition row_linked :: "(int \<Rightarrow> int \<Rightarrow> int \<Rightarrow> bool) \<Rightarrow> CandidateRow \<Rightarrow> bool" where
  "row_linked joins r \<longleftrightarrow> cr_parentEdge r = NO_EDGE
     \<or> joins (cr_parentNode r) (cr_parentEdge r) (cr_node r) \<and> cr_parentNode r \<noteq> cr_node r"

definition table_linked :: "ContextIndexReader \<Rightarrow> (int \<Rightarrow> int \<Rightarrow> int \<Rightarrow> bool) \<Rightarrow> CandidateTable \<Rightarrow> bool" where
  "table_linked reader joins t \<longleftrightarrow> live_table reader t \<and> (\<forall>s < ct_size t. row_linked joins (row_of t s))"

lemma linked_update:
  assumes "table_linked reader joins t" "live_table reader (update_row s f t)"
    "s < ct_size t \<Longrightarrow> row_linked joins (row_of t s) \<Longrightarrow> row_linked joins (f (row_of t s))"
  shows "table_linked reader joins (update_row s f t)"
  using assms by (simp add: table_linked_def row_update)

lemma linked_ops:
  assumes "table_linked reader joins t"
  shows "table_linked reader joins (claim s lane c t)" "table_linked reader joins (mark s bits t)"
    "table_linked reader joins (contribute s lane rank x k t)" "table_linked reader joins (setGraphScore s n t)"
    "table_linked reader joins (link s a (- 1) (- 1) 0 t)"
proof -
  note live = live_ops [OF assms [unfolded table_linked_def, THEN conjunct1]]
  show "table_linked reader joins (claim s lane c t)"
    using live(1) [of s lane c] assms unfolding claim_def Let_def
    by (auto intro!: linked_update simp: row_linked_def)
  show "table_linked reader joins (mark s bits t)"
    using live(2) [of s bits] unfolding mark_def by (intro linked_update [OF assms]) (simp_all add: row_linked_def)
  show "table_linked reader joins (contribute s lane rank x k t)"
    using live(3) [of s lane rank x k] assms unfolding contribute_def
    by (auto intro!: linked_update simp: row_linked_def)
  show "table_linked reader joins (setGraphScore s n t)"
    using live(5) [of s n] unfolding setGraphScore_def by (intro linked_update [OF assms]) (simp_all add: row_linked_def)
  show "table_linked reader joins (link s a (- 1) (- 1) 0 t)"
    using live(4) [of s a "- 1" "- 1" 0] unfolding link_def
    by (intro linked_update [OF assms]) (simp_all add: row_linked_def NO_EDGE_def to_int32_def)
qed

lemma linked_mark_if: "table_linked reader joins t \<Longrightarrow> table_linked reader joins (mark_if b s bits t)"
  by (simp add: mark_if_def linked_ops)

text \<open>The row of a node, and a node whose row the closure leaves alone.\<close>

definition rooted :: "CandidateTable \<Rightarrow> int \<Rightarrow> bool" where
  "rooted t n \<longleftrightarrow> (\<exists>s. slotOf t n = Some s \<and> (has t s FLAG_SEED \<or> 0 \<le> cr_parentEdge (row_of t s)))"

lemma has_seed: "has t s FLAG_SEED \<longleftrightarrow> bit (cr_flags (row_of t s)) 0"
  by (simp add: has_def FLAG_SEED_def bit_eq_iff bit_and_iff bit_push_bit_iff) (auto simp: bit_simps)

lemma rooted_update:
  assumes "rooted t n" "\<And>r. bit (cr_flags r) 0 \<Longrightarrow> bit (cr_flags (f r)) 0" "\<And>r. 0 \<le> cr_parentEdge r \<Longrightarrow> 0 \<le> cr_parentEdge (f r)"
  shows "rooted (update_row s f t) n"
  using assms by (auto simp: rooted_def has_seed slotOf_def row_update)

lemma rooted_mark: "rooted t n \<Longrightarrow> rooted (mark s bits t) n"
  unfolding mark_def by (rule rooted_update) (auto simp: bit_to_int32 bit_or_iff)

lemma rooted_mark_if: "rooted t n \<Longrightarrow> rooted (mark_if b s bits t) n"
  by (simp add: mark_if_def rooted_mark)

lemma rooted_link: "rooted t n \<Longrightarrow> 0 \<le> to_int32 e \<Longrightarrow> rooted (link s a b e d t) n"
  unfolding link_def by (rule rooted_update) auto

lemma rooted_admit:
  assumes "rooted t n" "table_ok t" "admit reader m t = Inr (r, u)"
  shows "rooted u n"
proof -
  from assms(1) obtain s where s: "ct_slots t n = Some s" "has t s FLAG_SEED \<or> 0 \<le> cr_parentEdge (row_of t s)"
    by (auto simp: rooted_def slotOf_def)
  then have "s < ct_size t" using assms(2) by (simp add: table_ok_def)
  with s assms(3) show ?thesis
    by (auto simp: rooted_def slotOf_def has_def admit_def Let_def rbind_Inr_iff nth_append split: option.splits if_splits)
qed

section \<open>The lanes\<close>

context graph_interface begin

lemma live_int: "valid \<Longrightarrow> live reader n \<Longrightarrow> to_int32 n = n"
  using live_small node_limit by blast

lemma joins_int: "valid \<Longrightarrow> joins a k b \<Longrightarrow> to_int32 a = a \<and> to_int32 k = k \<and> to_int32 b = b"
  using joins_live [of a k b] live_int to_int32_id [of k] by auto

lemma admit_linked:
  assumes "valid" "live reader n" "table_linked reader joins t" "admit reader n t = Inr (r, u)"
  shows "table_linked reader joins u"
    and "r = Some s \<Longrightarrow> s < ct_size u \<and> slotOf u n = Some s \<and> cr_node (row_of u s) = n"
proof -
  have t: "live_table reader t" "table_ok t" using assms(3) by (simp_all add: table_linked_def live_table_def)
  note a = admit_ok [OF t(2) live_int [OF assms(1,2)] assms(4)]
  have "live_table reader u" using table.admitted assms(1,2,4) t(1) by blast
  moreover have "row_linked joins (row_of u k)" if "k < ct_size u" for k
    using assms(3,4) that
    by (auto simp: table_linked_def row_linked_def admit_def Let_def rbind_Inr_iff new_row_def nth_append less_Suc_eq
        split: option.splits if_splits)
  ultimately show "table_linked reader joins u" by (simp add: table_linked_def)
  show "r = Some s \<Longrightarrow> s < ct_size u \<and> slotOf u n = Some s \<and> cr_node (row_of u s) = n"
    using a by (simp add: slotOf_def)
qed

text \<open>Linking a row to a node its edge joins it to, other than itself.\<close>

lemma link_linked:
  assumes "valid" "table_linked reader joins t" "slot < ct_size t \<Longrightarrow> joins a k (cr_node (row_of t slot)) \<and> a \<noteq> cr_node (row_of t slot)"
  shows "table_linked reader joins (link slot b a k d t)"
  unfolding link_def
proof (rule linked_update [OF assms(2)])
  show "live_table reader (update_row slot (\<lambda>r. r\<lparr>cr_seed := to_int32 b, cr_parentNode := to_int32 a,
      cr_parentEdge := to_int32 k, cr_depth := to_int32 d\<rparr>) t)"
    using live_ops(4) [of reader t slot b a k d] assms(2) by (simp add: link_def table_linked_def)
  assume "slot < ct_size t"
  with assms(3) joins_int [OF assms(1), of a k "cr_node (row_of t slot)"] show "row_linked joins ((row_of t slot)\<lparr>cr_seed := to_int32 b, cr_parentNode := to_int32 a,
      cr_parentEdge := to_int32 k, cr_depth := to_int32 d\<rparr>)"
    by (simp add: row_linked_def)
qed

end

sublocale graph_interface \<subseteq> lanes: lane_relation reader "\<lambda>n. valid \<longrightarrow> live reader n"
  "\<lambda>t u. valid \<longrightarrow> table_linked reader joins t \<longrightarrow> table_linked reader joins u"
  by unfold_locales (use table.exact_member table.basename_member table.lexical_member table.coarse_member
    table.outgoing_member table.incoming_member in \<open>auto simp: linked_ops intro: admit_linked(1)\<close>)

section \<open>The closure\<close>

text \<open>The nodes of the queue, and the node being expanded, have rows the closure leaves linked as they are.\<close>

definition closure_linked :: "ContextIndexReader \<Rightarrow> (int \<Rightarrow> int \<Rightarrow> int \<Rightarrow> bool) \<Rightarrow> SafetyState \<Rightarrow> bool" where
  "closure_linked reader joins s \<longleftrightarrow> table_linked reader joins (sf_table s)
     \<and> list_all (\<lambda>(n, d). live reader n \<and> rooted (sf_table s) n) (sf_queue s)"

text \<open>The flags the closure sets on a row, before it links it.\<close>

definition safety_marks :: "KernelPlanContext \<Rightarrow> edge_step \<Rightarrow> nat \<Rightarrow> CandidateTable \<Rightarrow> CandidateTable" where
  "safety_marks cx e slot t =
    (let t = mark slot FLAG_SAFETY t;
         t = mark_if (mask_has (kx_conflictEdgeMask cx) (es_type e)) slot FLAG_CONFLICT t;
         t = mark_if (node_has t slot PROTECTED) slot FLAG_PROTECTED t
     in mark_if (node_has t slot IS_TEST_OR_GATE) slot FLAG_TEST_OR_GATE t)"

context graph_interface begin

lemma record_linked:
  assumes v: "valid" and t: "table_linked reader joins t" and n: "rooted t n"
    and e: "joins n (int (es_edge e)) m" and slot: "slot < ct_size t" "slotOf t m = Some slot" "cr_node (row_of t slot) = m"
  shows "table_linked reader joins (record_safety cx n d e slot t)"
    "rooted t k \<Longrightarrow> rooted (record_safety cx n d e slot t) k" "rooted (record_safety cx n d e slot t) m"
proof -
  define u where "u = safety_marks cx e slot t"
  have u: "table_linked reader joins u" unfolding u_def safety_marks_def Let_def by (intro linked_mark_if linked_ops t)
  have keeps: "rooted t k \<Longrightarrow> rooted u k" for k
    unfolding u_def safety_marks_def Let_def by (intro rooted_mark_if rooted_mark)
  have same: "slotOf u m = Some slot" "cr_node (row_of u slot) = m" "ct_size u = ct_size t"
    using slot by (simp_all add: u_def safety_marks_def Let_def mark_if_def mark_def slotOf_def row_update)
  have run: "record_safety cx n d e slot t = (if cr_parentEdge (row_of u slot) < 0 \<and> \<not> has u slot FLAG_SEED
      then link slot n n (int (es_edge e)) (d + 1) u else u)"
    by (simp add: record_safety_def Let_def u_def safety_marks_def)
  have k: "to_int32 (int (es_edge e)) = int (es_edge e)" using joins_int [OF v e] by simp
  show "rooted t k \<Longrightarrow> rooted (record_safety cx n d e slot t) k"
    unfolding run using keeps rooted_link k by simp
  show "table_linked reader joins (record_safety cx n d e slot t)"
  proof (cases "cr_parentEdge (row_of u slot) < 0 \<and> \<not> has u slot FLAG_SEED")
    case True
    then have "n \<noteq> m" using keeps [OF n] same(1) by (auto simp: rooted_def)
    with True run link_linked [OF v u] e same(2) show ?thesis by simp
  next
    case False
    with run u show ?thesis by auto
  qed
  show "rooted (record_safety cx n d e slot t) m"
    unfolding run using same slot(1) k by (auto simp: rooted_def slotOf_def link_def row_update)
qed

lemma enqueue_linked:
  assumes "valid" "closure_linked reader joins s" "live reader m" "rooted (sf_table s) m" "enqueue maxNodes m d s = (b, s')"
  shows "closure_linked reader joins s'" "sf_table s' = sf_table s"
  using assms live_int [OF assms(1,3)]
  by (auto simp: enqueue_def closure_linked_def split: if_splits)

end

sublocale graph_interface \<subseteq> closure: safety_invariant reader cx maxNodes
  "\<lambda>n e. valid \<longrightarrow> joins n (int (es_edge e)) (int (es_target e))"
  "\<lambda>n s. valid \<longrightarrow> closure_linked reader joins s \<and> rooted (sf_table s) n"
  "\<lambda>s. valid \<longrightarrow> closure_linked reader joins s" for cx maxNodes
proof unfold_locales
  show "list_all (\<lambda>e. valid \<longrightarrow> joins n (int (es_edge e)) (int (es_target e))) es" if "rd_outgoing reader n m = Inr es" for n m es
    using outgoing_joins [OF _ that] by (simp add: list_all_iff)
  show "list_all (\<lambda>e. valid \<longrightarrow> joins n (int (es_edge e)) (int (es_target e))) es" if "rd_incoming reader n m = Inr es" for n m es
    using incoming_joins [OF _ that] by (simp add: list_all_iff)
  show "valid \<longrightarrow> closure_linked reader joins (s\<lparr>sf_capHit := True, sf_table := t\<rparr>)
      \<and> rooted (sf_table (s\<lparr>sf_capHit := True, sf_table := t\<rparr>)) n"
    if s: "valid \<longrightarrow> closure_linked reader joins s \<and> rooted (sf_table s) n" "valid \<longrightarrow> joins n (int (es_edge e)) (int (es_target e))"
      "admit reader (int (es_target e)) (sf_table s) = Inr (None, t)" for n s e t
  proof
    assume v: valid
    with s joins_live have l: "live reader (int (es_target e))" by blast
    have t: "table_ok (sf_table s)" using s(1) v by (simp add: closure_linked_def table_linked_def live_table_def)
    from admit_linked(1) [OF v l _ s(3)] rooted_admit [OF _ t s(3)] s(1) v
    show "closure_linked reader joins (s\<lparr>sf_capHit := True, sf_table := t\<rparr>)
        \<and> rooted (sf_table (s\<lparr>sf_capHit := True, sf_table := t\<rparr>)) n"
      by (auto simp: closure_linked_def list_all_iff)
  qed
  show "valid \<longrightarrow> closure_linked reader joins s' \<and> rooted (sf_table s') n"
    if s: "valid \<longrightarrow> closure_linked reader joins s \<and> rooted (sf_table s) n" "valid \<longrightarrow> joins n (int (es_edge e)) (int (es_target e))"
      "admit reader (int (es_target e)) (sf_table s) = Inr (Some slot, t)"
      "enqueue maxNodes (int (es_target e)) (depth + 1) (s\<lparr>sf_table := record_safety cx n depth e slot t\<rparr>) = (b, s')"
    for n s e slot t depth b s'
  proof
    assume v: valid
    with s joins_live have l: "live reader (int (es_target e))" and j: "joins n (int (es_edge e)) (int (es_target e))" by blast+
    have ok: "table_ok (sf_table s)" and c: "closure_linked reader joins s" "rooted (sf_table s) n"
      using s(1) v by (simp_all add: closure_linked_def table_linked_def live_table_def)
    have t: "table_linked reader joins t" using admit_linked(1) [OF v l _ s(3)] c(1) by (simp add: closure_linked_def)
    have slot: "slot < ct_size t" "slotOf t (int (es_target e)) = Some slot" "cr_node (row_of t slot) = int (es_target e)"
      using admit_linked(2) [OF v l _ s(3) refl] c(1) by (simp_all add: closure_linked_def)
    have keeps: "rooted (sf_table s) k \<Longrightarrow> rooted t k" for k using rooted_admit [OF _ ok s(3)] .
    note r = record_linked [OF v t keeps [OF c(2)] j slot]
    have "closure_linked reader joins (s\<lparr>sf_table := record_safety cx n depth e slot t\<rparr>)"
      using c(1) r(1,2) keeps by (auto simp: closure_linked_def list_all_iff)
    from enqueue_linked [OF v this l _ s(4)] r(2,3) keeps [OF c(2)]
    show "closure_linked reader joins s' \<and> rooted (sf_table s') n" by simp
  qed
qed (auto simp: closure_linked_def)

context graph_interface begin

lemma seeds_linked:
  assumes "valid"
  shows "closure_linked reader joins s \<Longrightarrow> set slots \<subseteq> {..<ct_size (sf_table s)} \<Longrightarrow>
     closure_linked reader joins (enqueue_seeds maxNodes slots s)"
proof (induction maxNodes slots s rule: enqueue_seeds.induct)
  case (2 maxNodes slot slots s)
  show ?case
  proof (cases "has (sf_table s) slot FLAG_SEED")
    case True
    let ?n = "cr_node (row_of (sf_table s) slot)"
    obtain b s' where e: "enqueue maxNodes ?n 0 s = (b, s')" by (metis surj_pair)
    have slot: "slot < ct_size (sf_table s)" and t: "live_table reader (sf_table s)"
      using "2.prems" by (simp_all add: closure_linked_def table_linked_def)
    then have "slotOf (sf_table s) ?n = Some slot" "live reader ?n" by (simp_all add: live_table_def slot_node)
    with True have "live reader ?n" "rooted (sf_table s) ?n" by (auto simp: rooted_def)
    from enqueue_linked [OF assms "2.prems"(1) this e] "2.IH" "2.prems" True e show ?thesis by (cases b) simp_all
  qed (use 2 in simp)
qed simp

lemma closure_table_linked:
  assumes "valid" "table_linked reader joins t" "runSafetyClosure reader cx t ns = Inr (out, u, ns')"
  shows "table_linked reader joins u"
proof -
  let ?n = "nat (max 0 (safetyMaxVisitedNodes (kx_kernelConfig cx)))"
  let ?start = "enqueue_seeds ?n [0..<ct_size t] (safety_start t ns)"
  from assms(3) obtain s where s: "safety_loop reader cx ?n ?start = Inr s" "u = sf_table s"
    by (auto simp: runSafetyClosure_def Let_def rbind_Inr_iff)
  have "closure_linked reader joins ?start"
    by (rule seeds_linked [OF assms(1)]) (use assms(2) in \<open>auto simp: closure_linked_def safety_start_def\<close>)
  with closure.loop [OF _ s(1)] assms(1) s(2) show ?thesis by (simp add: closure_linked_def)
qed

end

section \<open>The walk\<close>

text \<open>What a state of the frontier says of its node, unless it is a seed: the edge it was reached over.\<close>

definition state_linked :: "(int \<Rightarrow> int \<Rightarrow> int \<Rightarrow> bool) \<Rightarrow> FrontierState \<Rightarrow> bool" where
  "state_linked joins x \<longleftrightarrow> st_depth x \<le> 0 \<or> joins (st_parentNode x) (st_parentEdge x) (st_node x) \<and> st_parentNode x \<noteq> st_node x"

definition popped_linked :: "(int \<Rightarrow> int \<Rightarrow> int \<Rightarrow> bool) \<Rightarrow> TraversalFrontier \<Rightarrow> bool" where
  "popped_linked joins f \<longleftrightarrow> fr_depth f \<le> 0 \<or> joins (fr_parentNode f) (fr_parentEdge f) (fr_node f) \<and> fr_parentNode f \<noteq> fr_node f"

definition frontier_linked :: "(int \<Rightarrow> int \<Rightarrow> int \<Rightarrow> bool) \<Rightarrow> TraversalFrontier \<Rightarrow> bool" where
  "frontier_linked joins f \<longleftrightarrow> frontier_ok f \<and> (\<forall>x \<in># queued f. state_linked joins x) \<and> popped_linked joins f"

definition walk_linked :: "ContextIndexReader \<Rightarrow> (int \<Rightarrow> int \<Rightarrow> int \<Rightarrow> bool) \<Rightarrow> WalkState \<Rightarrow> bool" where
  "walk_linked reader joins w \<longleftrightarrow> table_linked reader joins (wk_table w) \<and> frontier_linked joins (wk_frontier w)"

lemma push_keeps_popped: "frontier_push x f = (b, f') \<Longrightarrow> popped_linked joins f' = popped_linked joins f"
  by (auto simp: frontier_push_def allocate_def write_key_def frontier_siftUp_def Let_def popped_linked_def split: if_splits)

lemma push_linked:
  assumes "frontier_linked joins f" "state_linked joins (stored x)" "frontier_push x f = (b, f')"
  shows "frontier_linked joins f'"
  using assms push_spec [OF _ assms(3)] push_keeps_popped [OF assms(3)] by (auto simp: frontier_linked_def)

lemma pop_linked:
  assumes "frontier_linked joins f" "frontier_pop f = (b, f')"
  shows "frontier_linked joins f'"
proof (cases b)
  case True
  with pop_spec [of f f'] assms have p: "entry f (fr_heap f ! 0) \<in># queued f" "queued f' = queued f - {#entry f (fr_heap f ! 0)#}"
    "popped f' (entry f (fr_heap f ! 0))" "frontier_ok f'" by (auto simp: frontier_linked_def)
  then have "state_linked joins (entry f (fr_heap f ! 0))" "popped_linked joins f' = state_linked joins (entry f (fr_heap f ! 0))"
    using assms(1) by (auto simp: frontier_linked_def popped_linked_def state_linked_def popped_def published_def shown_state_def)
  with p assms(1) show ?thesis by (auto simp: frontier_linked_def dest: in_diffD)
next
  case False
  with assms have "f' = f" by (auto simp: frontier_pop_def Let_def split: if_splits)
  with assms(1) show ?thesis by simp
qed

context graph_interface begin

lemma settle_linked:
  assumes v: "valid" and w: "walk_linked reader joins w" and slot: "slotOf (wk_table w) (fr_node (wk_frontier w)) = Some slot"
    and deep: "fr_depth (wk_frontier w) > 0"
  shows "table_linked reader joins (wk_table (settle slot w))"
proof -
  let ?f = "wk_frontier w"
  let ?t = "setGraphScore slot (fr_score ?f) (wk_table w)"
  have t: "table_linked reader joins ?t" using w by (simp add: walk_linked_def linked_ops)
  have ok: "table_ok (wk_table w)" using w by (simp add: walk_linked_def table_linked_def live_table_def)
  have node: "cr_node (row_of ?t slot) = fr_node ?f"
    using slot_node [OF ok] slot by (simp add: setGraphScore_def row_update)
  have "joins (fr_parentNode ?f) (fr_parentEdge ?f) (fr_node ?f) \<and> fr_parentNode ?f \<noteq> fr_node ?f"
    using w deep by (simp add: walk_linked_def frontier_linked_def popped_linked_def)
  then have "table_linked reader joins (link slot (fr_seed ?f) (fr_parentNode ?f) (fr_parentEdge ?f) (fr_depth ?f) ?t)"
    by (intro link_linked [OF v t]) (simp add: node)
  then show ?thesis
    unfolding settle_def Let_def by (auto intro!: linked_mark_if linked_ops split: option.split)
qed

lemma score_linked:
  assumes "valid" "walk_linked reader joins w" "slotOf (wk_table w) (fr_node (wk_frontier w)) = Some slot"
  shows "walk_linked reader joins (score_node slot w)"
  using settle_linked [OF assms] assms(2) by (simp add: score_node_def Let_def walk_linked_def)

end

sublocale graph_interface \<subseteq> walk: walk_invariant reader cx
  "\<lambda>n e. valid \<longrightarrow> joins n (int (es_edge e)) (int (es_target e))"
  "\<lambda>n w. valid \<longrightarrow> walk_linked reader joins w \<and> n \<in> wk_visited w"
  "\<lambda>n w. valid \<longrightarrow> walk_linked reader joins w \<and> n \<in> wk_visited w"
  "\<lambda>w. valid \<longrightarrow> walk_linked reader joins w" for cx
proof unfold_locales
  show "list_all (\<lambda>e. valid \<longrightarrow> joins n (int (es_edge e)) (int (es_target e))) es" if "rd_outgoing reader n m = Inr es" for n m es
    using outgoing_joins [OF _ that] by (simp add: list_all_iff)
  show "list_all (\<lambda>e. valid \<longrightarrow> joins n (int (es_edge e)) (int (es_target e))) es" if "rd_incoming reader n m = Inr es" for n m es
    using incoming_joins [OF _ that] by (simp add: list_all_iff)
  show "valid \<longrightarrow> walk_linked reader joins (w\<lparr>wk_nodeCapHit := True, wk_table := t\<rparr>)
      \<and> n \<in> wk_visited (w\<lparr>wk_nodeCapHit := True, wk_table := t\<rparr>)"
    if w: "valid \<longrightarrow> walk_linked reader joins w \<and> n \<in> wk_visited w" "valid \<longrightarrow> joins n (int (es_edge e)) (int (es_target e))"
      "admit reader (int (es_target e)) (wk_table w) = Inr (None, t)" for n w e t
    using w admit_linked(1) [OF _ _ _ w(3)] joins_live by (auto simp: walk_linked_def)
  show "valid \<longrightarrow> walk_linked reader joins (w\<lparr>wk_frontier := f, wk_table := t\<rparr>)
      \<and> n \<in> wk_visited (w\<lparr>wk_frontier := f, wk_table := t\<rparr>)"
    if w: "valid \<longrightarrow> walk_linked reader joins w \<and> n \<in> wk_visited w" "valid \<longrightarrow> joins n (int (es_edge e)) (int (es_target e))"
      "admit reader (int (es_target e)) (wk_table w) = Inr (Some slot, t)" "int (es_target e) \<notin> wk_visited w"
      "st_node x = int (es_target e)" "st_parentNode x = n" "st_parentEdge x = int (es_edge e)"
      "frontier_push x (wk_frontier w) = (b, f)" for n w e slot t x b f
  proof
    assume v: valid
    with w have j: "joins n (int (es_edge e)) (int (es_target e))" "n \<noteq> int (es_target e)" "walk_linked reader joins w" by auto
    have "state_linked joins (stored x)"
      using j(1,2) w(5-7) joins_int [OF v j(1)] by (simp add: state_linked_def stored_def)
    with j w(1) v push_linked [OF _ _ w(8)] admit_linked(1) [OF v _ _ w(3)] joins_live [OF v j(1)]
    show "walk_linked reader joins (w\<lparr>wk_frontier := f, wk_table := t\<rparr>) \<and> n \<in> wk_visited (w\<lparr>wk_frontier := f, wk_table := t\<rparr>)"
      by (simp add: walk_linked_def)
  qed
  show "valid \<longrightarrow> walk_linked reader joins (score_node slot w) \<and> fr_node (wk_frontier w) \<in> wk_visited (score_node slot w)"
    if "valid \<longrightarrow> walk_linked reader joins w" "fr_node (wk_frontier w) \<in> wk_visited w"
      "slotOf (wk_table w) (fr_node (wk_frontier w)) = Some slot" for w slot
    using that score_linked by (auto simp: score_node_def Let_def settle_visits)
qed (auto simp: walk_linked_def enter_node_def intro: pop_linked)

context graph_interface begin

lemma walk_start_linked: "table_linked reader joins t \<Longrightarrow> walk_linked reader joins (walk_start cx t ns)"
  using new_frontier_ok by (simp add: walk_linked_def walk_start_def frontier_linked_def popped_linked_def)
    (simp add: new_frontier_def Let_def)

lemma walk_seed_linked:
  assumes "walk_linked reader joins w"
  shows "walk_linked reader joins (walk_seed cx slot w)"
proof (cases "has (wk_table w) slot FLAG_SEED")
  case True
  let ?x = "\<lparr>st_node = cr_node (row_of (wk_table w) slot), st_score = seed_base cx (wk_table w) slot, st_depth = 0, st_priority = 0,
           st_seed = cr_node (row_of (wk_table w) slot), st_parentNode = - 1, st_parentEdge = - 1,
           st_flags = cr_flags (row_of (wk_table w) slot) AND FLAG_FOCUS\<rparr>"
  obtain b f where p: "frontier_push ?x (wk_frontier w) = (b, f)" by (metis surj_pair)
  have "state_linked joins (stored ?x)" by (simp add: state_linked_def stored_def to_int32_def)
  from push_linked [OF _ this p] assms True p show ?thesis
    by (simp add: walk_seed_def Let_def walk_linked_def linked_ops)
qed (use assms in \<open>simp add: walk_seed_def Let_def\<close>)

lemma traversal_table_linked:
  assumes "valid" "table_linked reader joins t" "traverseKernelGraph reader cx t safe ns = Inr (out, u, ns')"
  shows "table_linked reader joins u"
proof -
  let ?start = "fold (walk_seed cx) [0..<ct_size t] (walk_start cx t ns)"
  from assms(3) obtain w where w: "walk_loop reader cx safe ?start = Inr w" "u = wk_table w"
    by (auto simp: traverseKernelGraph_def Let_def rbind_Inr_iff)
  have "walk_linked reader joins ?start"
    by (rule fold_invariant [where Q = "\<lambda>_. True" and P = "walk_linked reader joins"])
      (use walk_start_linked [OF assms(2)] walk_seed_linked in simp_all)
  with walk.loop [OF _ w(1)] assms(1) w(2) show ?thesis by (simp add: walk_linked_def)
qed

text \<open>From the empty table to the one selection reads.\<close>

lemma kernel_tables_linked:
  assumes "valid" "runSeedLanes reader cx request (new_table c) ns = Inr (lanes, t1, n1)" "markNameAnchors reader cx t1 = Inr (k, t2)"
    "safety = no_safety \<and> t3 = t2 \<and> n2 = n1 \<or> runSafetyClosure reader cx t2 n1 = Inr (safety, t3, n2)"
    "traverseKernelGraph reader cx t3 exhaustive n2 = Inr (walk, t4, n3)"
  shows "table_linked reader joins t4"
proof -
  have "table_linked reader joins (new_table c)" by (simp add: table_linked_def live_table_def new_table_ok) (simp add: new_table_def)
  then have "table_linked reader joins t2" using lanes.seed_lanes [OF assms(2)] lanes.name_anchors [OF assms(3)] assms(1) by blast
  then have "table_linked reader joins t3" using assms(4) closure_table_linked [OF assms(1)] by blast
  then show ?thesis using traversal_table_linked [OF assms(1) _ assms(5)] by blast
qed

end

section \<open>The chain of a selected candidate\<close>

text \<open>From \<open>b\<close> backwards over the edges \<open>ks\<close>, through the nodes \<open>ps\<close>.\<close>

fun joined_back :: "(int \<Rightarrow> int \<Rightarrow> int \<Rightarrow> bool) \<Rightarrow> int \<Rightarrow> int list \<Rightarrow> int list \<Rightarrow> bool" where
  "joined_back joins b [] [] \<longleftrightarrow> True"
| "joined_back joins b (k # ks) (a # ps) \<longleftrightarrow> joins a k b \<and> a \<noteq> b \<and> joined_back joins a ks ps"
| "joined_back joins b ks ps \<longleftrightarrow> False"

lemma chain_joined:
  assumes "table_linked reader joins t"
  shows "slot < ct_size t \<Longrightarrow> \<exists>ps. joined_back joins (cr_node (row_of t slot)) (chain_walk t steps slot) ps
     \<and> (ps \<noteq> [] \<longrightarrow> hd ps = cr_parentNode (row_of t slot))"
proof (induction steps arbitrary: slot)
  case 0
  have "joined_back joins (cr_node (row_of t slot)) (chain_walk t 0 slot) []" by simp
  then show ?case by fastforce
next
  case (Suc steps)
  let ?r = "row_of t slot"
  have ok: "table_ok t" using assms by (simp add: table_linked_def live_table_def)
  show ?case
  proof (cases "cr_parentEdge ?r = NO_EDGE")
    case True
    then have "joined_back joins (cr_node ?r) (chain_walk t (Suc steps) slot) []" by simp
    then show ?thesis by fastforce
  next
    case False
    with assms Suc.prems have j: "joins (cr_parentNode ?r) (cr_parentEdge ?r) (cr_node ?r)" "cr_parentNode ?r \<noteq> cr_node ?r"
      by (auto simp: table_linked_def row_linked_def)
    define ks where "ks = (case slotOf t (cr_parentNode ?r) of None \<Rightarrow> []
      | Some parent \<Rightarrow> (if parent = slot then [] else chain_walk t steps parent))"
    have "\<exists>ps. joined_back joins (cr_parentNode ?r) ks ps"
    proof (cases "ks = []")
      case True
      then have "joined_back joins (cr_parentNode ?r) ks []" by simp
      then show ?thesis ..
    next
      case more: False
      then obtain p where p: "slotOf t (cr_parentNode ?r) = Some p" "ks = chain_walk t steps p"
        by (auto simp: ks_def split: option.splits if_splits)
      then have "p < ct_size t" "cr_node (row_of t p) = cr_parentNode ?r" using slot_node [OF ok] by auto
      with Suc.IH [of p] p(2) show ?thesis by auto
    qed
    then obtain ps where "joined_back joins (cr_parentNode ?r) ks ps" ..
    with j have "joined_back joins (cr_node ?r) (cr_parentEdge ?r # ks) (cr_parentNode ?r # ps)" by simp
    moreover have "chain_walk t (Suc steps) slot = cr_parentEdge ?r # ks" using False by (simp add: ks_def)
    ultimately show ?thesis by (metis list.sel(1))
  qed
qed

definition chain_linked :: "(int \<Rightarrow> int \<Rightarrow> int \<Rightarrow> bool) \<Rightarrow> SelectedCandidate \<Rightarrow> bool" where
  "chain_linked joins c \<longleftrightarrow> (\<exists>ps. joined_back joins (cc_node (sc_candidate c)) (rev (sc_parentEdges c)) ps
     \<and> (ps \<noteq> [] \<longrightarrow> hd ps = cc_parentNode (sc_candidate c)))"

context graph_interface begin

lemma selected_chains:
  assumes "valid" "runContextKernel nfkc lower reader request options = Inr res"
  shows "list_all (\<lambda>c. live reader (cc_node (sc_candidate c)) \<and> chain_linked joins c) (res_selected res)"
  using assms(2)
proof (rule kernel_stages)
  fix cx n0 lanes t1 n1 k t2 safety t3 n2 exhaustive walk t4 n3 fusion n5 sel n6
  assume stages: "runSeedLanes reader cx request (new_table (q_candidateBudget (kx_plan cx))) n0 = Inr (lanes, t1, n1)"
      "markNameAnchors reader cx t1 = Inr (k, t2)"
      "safety = no_safety \<and> t3 = t2 \<and> n2 = n1 \<or> runSafetyClosure reader cx t2 n1 = Inr (safety, t3, n2)"
      "traverseKernelGraph reader cx t3 exhaustive n2 = Inr (walk, t4, n3)"
    and fuse: "fuseKernelCandidates reader cx t4
       (omit Candidate_budget (int (ct_overflow t4) - int (ct_overflow t2)) n3) = Inr (fusion, n5)"
    and select: "selectKernelCandidates cx t4 fusion n5 = (sel, n6)" and res: "res_selected res = sr_selected sel"
  note t4 = kernel_tables_linked [OF assms(1) stages]
  have "chain_linked joins (selected_candidate cx t4 fusion slot)"
    "live reader (cc_node (sc_candidate (selected_candidate cx t4 fusion slot)))" if "slot < ct_size t4" for slot
    using chain_joined [OF t4 that, of "q_maxDepth (kx_plan cx) + 1"] t4 that
    by (simp_all add: chain_linked_def selected_candidate_def Let_def parentChain_def table_linked_def live_table_def
        del: chain_walk.simps)
  with fuse select show ?thesis
    by (rule_tac selected_slots [OF fuse select]) (auto simp: res list_all_iff dest!: selected_members)
qed

end

end
