(* ===== verification/Hydrate_Total.thy ===== *)
theory Hydrate_Total
  imports Hydrate_Correct Kernel_Links
begin

text \<open>
  Hydration over an index that answers. The locale states what the pass relies on of the reader;
  under it every candidate whose parent edges are a path of the index is explained, so that the
  pass returns and drops a candidate only for want of provenance.
\<close>

section \<open>The interface\<close>

definition node_in :: "'n HydrationReader \<Rightarrow> int \<Rightarrow> bool" where
  "node_in reader n \<longleftrightarrow> 0 \<le> n \<and> n < rd_nodeCount reader"

definition edge_in :: "'n HydrationReader \<Rightarrow> int \<Rightarrow> bool" where
  "edge_in reader k \<longleftrightarrow> 0 \<le> k \<and> k < rd_edgeCount reader"

text \<open>An edge of the index joins its two ends, in either direction.\<close>

definition ends_join :: "'n HydrationReader \<Rightarrow> (int \<Rightarrow> int) \<Rightarrow> (int \<Rightarrow> int) \<Rightarrow> int \<Rightarrow> int \<Rightarrow> int \<Rightarrow> bool" where
  "ends_join reader from_of to_of a k b \<longleftrightarrow>
     edge_in reader k \<and> (a = from_of k \<and> b = to_of k \<or> b = from_of k \<and> a = to_of k)"

locale hydration_interface =
  fixes reader :: "'n HydrationReader" and valid :: bool and from_of to_of :: "int \<Rightarrow> int"
  assumes ends_in: "valid \<Longrightarrow> edge_in reader k \<Longrightarrow> node_in reader (from_of k) \<and> node_in reader (to_of k)"
    and node_answers: "valid \<Longrightarrow> node_in reader n \<Longrightarrow> answers (rd_hydrateNode reader n)"
    and edge_answers: "valid \<Longrightarrow> edge_in reader k \<Longrightarrow>
      \<exists>v. rd_hydrateEdge reader k = Inr v \<and> int (ev_target v) = to_of k"
    and incoming_answers: "valid \<Longrightarrow> node_in reader n \<Longrightarrow> answers (rd_incoming reader n m)"
    and outgoing_answers: "valid \<Longrightarrow> node_in reader n \<Longrightarrow> answers (rd_outgoing reader n m)"
    and bucket_sources: "valid \<Longrightarrow> rd_incoming reader n m = Inr es \<Longrightarrow> x \<in> set es \<Longrightarrow>
      int (es_target x) = from_of (int (es_edge x))"
    and bucket_full: "valid \<Longrightarrow> edge_in reader k \<Longrightarrow> rd_incoming reader (to_of k) CONTEXT_INDEX_PROFILE_MASK_ALL = Inr es \<Longrightarrow>
      \<exists>x \<in> set es. int (es_edge x) = k"
    and provenance_answers: "valid \<Longrightarrow> node_in reader n \<Longrightarrow> \<forall>k \<in> set ks. edge_in reader k \<Longrightarrow>
      answers (rd_provenance reader n ks)"
begin

abbreviation joins :: "int \<Rightarrow> int \<Rightarrow> int \<Rightarrow> bool" where "joins \<equiv> ends_join reader from_of to_of"

section \<open>The cursor\<close>

lemma node_view:
  assumes "valid" "cursor_valid reader hc" "node_in reader n"
  shows "\<exists>v hc'. hydration_node reader n hc = Inr (Some v, hc') \<and> cursor_valid reader hc'"
proof -
  obtain v where "rd_hydrateNode reader n = Inr v" using node_answers [OF assms(1,3)] by (auto simp: answers_def)
  with node_memo.answers [of n reader hc v] assms(2,3) obtain hc' where
    "hydration_node reader n hc = Inr (Some v, hc')" by (auto simp: cursor_valid_def node_in_def)
  with hydration_node_valid [OF assms(2) this] show ?thesis by blast
qed

lemma edge_view:
  assumes "valid" "cursor_valid reader hc" "edge_in reader k"
  shows "\<exists>v hc'. hydration_edge reader k hc = Inr (Some v, hc') \<and> int (ev_target v) = to_of k \<and> cursor_valid reader hc'"
proof -
  obtain v where v: "rd_hydrateEdge reader k = Inr v" "int (ev_target v) = to_of k" using edge_answers [OF assms(1,3)] by blast
  with edge_memo.answers [of k reader hc v] assms(2,3) obtain hc' where
    "hydration_edge reader k hc = Inr (Some v, hc')" by (auto simp: cursor_valid_def edge_in_def)
  with v hydration_edge_valid [OF assms(2) this] show ?thesis by blast
qed

lemma sourced_from: "valid \<Longrightarrow> sourced reader k s \<Longrightarrow> s = from_of k"
  using bucket_sources by (fastforce simp: sourced_def)

lemma source_found:
  assumes v: "valid" and hc: "cursor_valid reader hc" and k: "edge_in reader k"
  shows "\<exists>hc'. sourceOf reader k (to_of k) hc = Inr (from_of k, hc') \<and> cursor_valid reader hc'"
proof -
  obtain es where es: "rd_incoming reader (to_of k) CONTEXT_INDEX_PROFILE_MASK_ALL = Inr es"
    using incoming_answers [OF v] ends_in [OF v k] by (auto simp: answers_def)
  obtain x where x: "x \<in> set es" "int (es_edge x) = k" using bucket_full [OF v k es] by blast
  have "\<exists>s hc'. sourceOf reader k (to_of k) hc = Inr (s, hc') \<and> s \<noteq> NO_NODE"
  proof (cases "hc_sources hc k")
    case (Some s)
    with hc have "sourced reader k s" by (simp add: cursor_valid_def)
    then have "s \<noteq> NO_NODE" using ends_in [OF v k] sourced_from [OF v] by (auto simp: node_in_def NO_NODE_def)
    with Some show ?thesis by (simp add: sourceOf_def)
  next
    case None
    have "to_of k \<notin> hc_scanned hc"
      using hc None es x unfolding cursor_valid_def by (metis Inr_inject)
    moreover obtain s where s: "note_sources es (hc_sources hc) k = Some s"
      using note_sources_total [OF x(1), of "hc_sources hc"] x(2) by auto
    moreover have "s \<noteq> NO_NODE"
      using note_sources_new [OF s] None by (auto simp: NO_NODE_def)
    ultimately show ?thesis using None es by (simp add: sourceOf_def Let_def)
  qed
  then obtain s hc' where s: "sourceOf reader k (to_of k) hc = Inr (s, hc')" "s \<noteq> NO_NODE" by blast
  with sourceOf_valid [OF hc s(1)] sourced_from [OF v] show ?thesis by auto
qed

section \<open>A chain is resolved\<close>

lemma hops_resolved:
  assumes v: "valid"
  shows "cursor_valid reader hc \<Longrightarrow> joined_back joins child edges ps \<Longrightarrow>
    \<exists>hops hc'. resolve_hops reader child edges hc = Inr (Some (hops, ps), hc')"
proof (induction edges arbitrary: child ps hc)
  case Nil
  then show ?case by (cases ps) auto
next
  case (Cons k edges)
  then obtain a as where ps: "ps = a # as" and j: "joins a k child" "a \<noteq> child" "joined_back joins a edges as"
    by (cases ps) auto
  from j have k: "edge_in reader k" by (simp add: ends_join_def)
  obtain w hc1 where w: "hydration_edge reader k hc = Inr (Some w, hc1)" "int (ev_target w) = to_of k" "cursor_valid reader hc1"
    using edge_view [OF v Cons.prems(1) k] by blast
  obtain hc2 where s: "sourceOf reader k (to_of k) hc1 = Inr (from_of k, hc2)" "cursor_valid reader hc2"
    using source_found [OF v w(3) k] by blast
  have "from_of k \<noteq> NO_NODE" "a \<noteq> NO_NODE"
    using ends_in [OF v k] j(1) by (auto simp: node_in_def NO_NODE_def ends_join_def)
  moreover have "(if to_of k = child then from_of k else if from_of k = child then to_of k else NO_NODE) = a"
    using j(1,2) by (auto simp: ends_join_def)
  moreover obtain hops hc' where "resolve_hops reader a edges hc2 = Inr (Some (hops, as), hc')"
    using Cons.IH [OF s(2) j(3)] by blast
  ultimately show ?case using w s j(2) by (simp add: Let_def ps)
qed

lemma joined_nodes: "valid \<Longrightarrow> joined_back joins b ks ps \<Longrightarrow> (\<forall>p \<in> set ps. node_in reader p) \<and> (\<forall>k \<in> set ks. edge_in reader k)"
  by (induction joins b ks ps rule: joined_back.induct) (use ends_in in \<open>auto simp: ends_join_def\<close>)

section \<open>A chain is explained\<close>

lemma ids_found:
  assumes v: "valid"
  shows "cursor_valid reader hc \<Longrightarrow> \<forall>n \<in> set nodes. node_in reader n \<Longrightarrow>
    \<exists>ids hc'. chain_ids reader nodes hc = Inr (Some ids, hc') \<and> cursor_valid reader hc' \<and> length ids = length nodes"
proof (induction nodes arbitrary: hc)
  case (Cons n nodes)
  obtain w hc1 where w: "hydration_node reader n hc = Inr (Some w, hc1)" "cursor_valid reader hc1"
    using node_view [OF v Cons.prems(1), of n] Cons.prems(2) by auto
  with Cons.IH [OF w(2)] Cons.prems(2) obtain ids hc' where
    "chain_ids reader nodes hc1 = Inr (Some ids, hc')" "cursor_valid reader hc'" "length ids = length nodes" by auto
  with w(1) show ?case by simp
qed simp

lemma hops_explained:
  assumes v: "valid"
  shows "cursor_valid reader hc \<Longrightarrow> \<forall>h \<in> set hops. node_in reader (hop_source h) \<and> node_in reader (hop_target h) \<Longrightarrow>
    length ids = length hops \<Longrightarrow> \<exists>r hc'. explain_hops sha256 reader hops ids hc = Inr (Some r, hc')"
proof (induction hops arbitrary: ids hc)
  case (Cons h hops)
  then obtain i js where ids: "ids = i # js" "length js = length hops" by (cases ids) auto
  obtain a hc1 where a: "hydration_node reader (hop_source h) hc = Inr (Some a, hc1)" "cursor_valid reader hc1"
    using node_view [OF v Cons.prems(1), of "hop_source h"] Cons.prems(2) by auto
  obtain b hc2 where b: "hydration_node reader (hop_target h) hc1 = Inr (Some b, hc2)" "cursor_valid reader hc2"
    using node_view [OF v a(2), of "hop_target h"] Cons.prems(2) by auto
  from Cons.IH [OF b(2) _ ids(2)] Cons.prems(2) obtain r hc' where
    "explain_hops sha256 reader hops js hc2 = Inr (Some r, hc')" by auto
  with a b ids show ?case by (cases r) simp
qed simp

lemma path_ends: "is_path ns hs \<Longrightarrow> h \<in> set hs \<Longrightarrow> hop_source h \<in> set ns \<and> hop_target h \<in> set ns"
  by (induction ns hs rule: is_path.induct) (auto simp: crosses_def split: if_splits)

definition explainable :: "SelectedCandidate \<Rightarrow> bool" where
  "explainable c \<longleftrightarrow> node_in reader (cc_node (sc_candidate c)) \<and> chain_linked joins c"

lemma views_found:
  assumes v: "valid" and hc: "cursor_valid reader hc" and c: "explainable cand"
  shows "\<exists>x view hc'. entry_views sha256 reader cand hc = Inr (Some (x, view), hc') \<and> cursor_valid reader hc'"
proof -
  let ?node = "cc_node (sc_candidate cand)"
  from c obtain ps where ps: "joined_back joins ?node (rev (sc_parentEdges cand)) ps"
    "ps \<noteq> [] \<longrightarrow> hd ps = cc_parentNode (sc_candidate cand)" and node: "node_in reader ?node"
    by (auto simp: explainable_def chain_linked_def)
  obtain hops hc1 where r: "resolve_hops reader ?node (rev (sc_parentEdges cand)) hc = Inr (Some (hops, ps), hc1)"
    using hops_resolved [OF v hc ps(1)] by blast
  have path: "cursor_valid reader hc1" "is_path (rev (?node # ps)) (rev hops)"
    using resolve_hops_path [OF hc r] by simp_all
  define chain where "chain = \<lparr>chain_nodes = rev (?node # ps), chain_hops = rev hops\<rparr>"
  have "hops \<noteq> [] \<Longrightarrow> ps \<noteq> []" using is_path_length [OF path(2)] by auto
  then have c: "resolveHydrationChain reader cand hc = Inr (Some chain, hc1)"
    using r ps(2) by (cases ps) (auto simp: resolveHydrationChain_def Let_def chain_def)
  have live: "\<forall>n \<in> set (chain_nodes chain). node_in reader n" using joined_nodes [OF v ps(1)] node by (simp add: chain_def)
  obtain ids hc2 where ids: "chain_ids reader (chain_nodes chain) hc1 = Inr (Some ids, hc2)" "cursor_valid reader hc2"
      "length ids = length (chain_nodes chain)" using ids_found [OF v path(1) live] by blast
  then obtain i js where i: "ids = i # js" "length js = length (chain_hops chain)"
    using is_path_length [OF path(2)] by (cases ids) (auto simp: chain_def)
  have "\<forall>h \<in> set (chain_hops chain). node_in reader (hop_source h) \<and> node_in reader (hop_target h)"
    using path_ends [OF path(2)] live by (fastforce simp: chain_def)
  from hops_explained [OF v ids(2) this i(2)] obtain q hc3 where
    q: "explain_hops sha256 reader (chain_hops chain) js hc2 = Inr (Some q, hc3)" by blast
  then obtain x where x: "explainHydrationChain sha256 reader chain hc1 = Inr (Some x, hc3)"
    using ids(1) i(1) by (cases q) (simp add: explainHydrationChain_def)
  have hc3: "cursor_valid reader hc3"
    using explained_chain [OF path(1) x] path(2) by (simp add: chain_def)
  from node_view [OF v this node] obtain view hc4 where "hydration_node reader ?node hc3 = Inr (Some view, hc4)" "cursor_valid reader hc4"
    by blast
  with c x show ?thesis by (simp add: entry_views_def)
qed

section \<open>The pass returns\<close>

lemma usable_answers:
  assumes v: "valid"
  shows "cursor_valid reader hc \<Longrightarrow> answers (first_usable reader es hc)"
proof (induction es arbitrary: hc)
  case (Cons e es)
  have "answers (hydration_edge reader (int (es_edge e)) hc)"
  proof (cases "edge_in reader (int (es_edge e))")
    case True
    from edge_view [OF v Cons.prems True] show ?thesis by (auto simp: answers_def)
  qed (auto simp: hydration_edge_def edge_in_def)
  then obtain w hc1 where w: "hydration_edge reader (int (es_edge e)) hc = Inr (w, hc1)" by (auto simp: answers_def)
  from hydration_edge_valid [OF Cons.prems w] Cons.IH w show ?case by (auto split: option.split)
qed simp

lemma incident_answers:
  assumes "valid" "cursor_valid reader hc" "node_in reader n"
  shows "answers (firstIncidentProvenance reader n limit hc)"
proof -
  obtain out inc where "rd_outgoing reader n CONTEXT_INDEX_PROFILE_MASK_ALL = Inr out"
    "rd_incoming reader n CONTEXT_INDEX_PROFILE_MASK_ALL = Inr inc"
    using outgoing_answers [OF assms(1,3), of CONTEXT_INDEX_PROFILE_MASK_ALL]
      incoming_answers [OF assms(1,3), of CONTEXT_INDEX_PROFILE_MASK_ALL] by (auto simp: answers_def)
  moreover obtain f hc1 where f: "first_usable reader (take limit out) hc = Inr (f, hc1)"
    using usable_answers [OF assms(1,2)] by (fastforce simp: answers_def)
  ultimately show ?thesis
    using usable_answers [OF assms(1) first_usable_valid [OF assms(2) f]] by (simp add: firstIncidentProvenance_def)
qed

lemma provenanceFor_answers:
  assumes "valid" "cursor_valid reader hc" "explainable cand"
  shows "answers (provenanceFor reader cand limit refused hc)"
proof -
  let ?node = "cc_node (sc_candidate cand)"
  from assms(3) obtain ps where node: "node_in reader ?node" and ps: "joined_back joins ?node (rev (sc_parentEdges cand)) ps"
    by (auto simp: explainable_def chain_linked_def)
  then obtain views where "rd_provenance reader ?node (sc_parentEdges cand) = Inr views"
    using provenance_answers [OF assms(1) node, of "sc_parentEdges cand"] joined_nodes [OF assms(1) ps] by (auto simp: answers_def)
  moreover obtain i hc1 where "firstIncidentProvenance reader ?node limit hc = Inr (i, hc1)"
    using incident_answers [OF assms(1,2) node, of limit] by (auto simp: answers_def)
  ultimately show ?thesis by (simp add: provenanceFor_def Let_def split: option.split prod.split)
qed

lemma entry_answers:
  assumes "valid" "cursor_valid reader (hs_cursor s)" "explainable cand"
    "list_all (\<lambda>o'. om_reason o' = Ungrounded) (hs_omitted s)"
  shows "\<exists>t. hydrate_entry sha256 reader fresh limit cand s = Inr t \<and> cursor_valid reader (hs_cursor t)
    \<and> list_all (\<lambda>o'. om_reason o' = Ungrounded) (hs_omitted t)"
proof -
  obtain x view hc where v: "entry_views sha256 reader cand (hs_cursor s) = Inr (Some (x, view), hc)" "cursor_valid reader hc"
    using views_found [OF assms(1-3)] by blast
  obtain refs refused hc1 where p: "provenanceFor reader cand limit (hs_refused s) hc = Inr (refs, refused, hc1)"
    using provenanceFor_answers [OF assms(1) v(2) assms(3), of limit "hs_refused s"] by (auto simp: answers_def)
  from provenanceFor_valid [OF v(2) p] v p assms(4) show ?thesis
    by (simp add: hydrate_entry_def Let_def omit_candidate_def ship_def)
qed

lemma hydration_answers:
  assumes v: "valid" and c: "list_all explainable selected"
  shows "\<exists>res. hydrateSelectedCandidates sha256 reader selected options = Inr res
    \<and> list_all (\<lambda>o'. om_reason o' = Ungrounded) (hr_omitted res)"
proof -
  have run: "list_all explainable xs \<Longrightarrow> cursor_valid reader (hs_cursor s) \<Longrightarrow> list_all (\<lambda>o'. om_reason o' = Ungrounded) (hs_omitted s) \<Longrightarrow>
      \<exists>t. fold_res (hydrate_entry sha256 reader fresh limit) xs s = Inr t \<and> list_all (\<lambda>o'. om_reason o' = Ungrounded) (hs_omitted t)"
    for xs s fresh limit
  proof (induction xs arbitrary: s)
    case (Cons cand xs)
    from entry_answers [OF v Cons.prems(2) _ Cons.prems(3), of cand sha256 fresh limit] Cons.prems(1) obtain t where
      "hydrate_entry sha256 reader fresh limit cand s = Inr t" "cursor_valid reader (hs_cursor t)"
      "list_all (\<lambda>o'. om_reason o' = Ungrounded) (hs_omitted t)" by auto
    with Cons.IH [of t] Cons.prems(1) show ?case by simp
  qed simp
  from run [OF c, of hydration_start] obtain t where
    "fold_res (hydrate_entry sha256 reader (ho_indexFresh options) (provenance_limit options)) selected hydration_start = Inr t"
    "list_all (\<lambda>o'. om_reason o' = Ungrounded) (hs_omitted t)"
    by (auto simp: hydration_start_def new_cursor_valid)
  then show ?thesis by (simp add: hydrateSelectedCandidates_def)
qed

end

end
