(* ===== verification/Hydrate_Verify.thy ===== *)
theory Hydrate_Verify
  imports Hydrate_Correct Kernel_Lanes "HOL-Library.AList"
begin

text \<open>
  query/hydrate-verify.ts: re-grounding a hydration against the file system. The probe is a
  parameter that answers for a workspace-relative path; \<open>None\<close> stands for neither a probe nor a
  root being given. The \<open>Map\<close> of verdicts is an association list in insertion order.

  The batched run is shown to be equivalent to asking about each distinct path once.
\<close>

definition HYDRATION_PROBE_CONCURRENCY :: rat where "HYDRATION_PROBE_CONCURRENCY = 32"

record HydrationVerification =
  hv_nodes :: "HydratedNode list"
  hv_uniquePaths :: nat
  hv_probes :: nat
  hv_verifiedPaths :: nat
  hv_missingPaths :: int
  hv_refusedPaths :: nat
  hv_verifiedNodes :: nat
  hv_concurrency :: nat
  hv_provenanceCoverage :: rat

record VerifyState =
  vs_verdict :: "(js_string \<times> bool) list"
  vs_refused :: nat
  vs_probes :: nat

definition verify_start :: VerifyState where
  "verify_start = \<lparr>vs_verdict = [], vs_refused = 0, vs_probes = 0\<rparr>"

section \<open>Batches\<close>

text \<open>The filter of a batch, which records the refused paths, and the answers of what it leaves.\<close>

fun refuse_paths :: "js_string list \<Rightarrow> VerifyState \<Rightarrow> VerifyState" where
  "refuse_paths [] s = s"
| "refuse_paths (p # ps) s =
    refuse_paths ps (if paths_isWorkspaceRelativePosixPath p then s
      else s\<lparr>vs_refused := vs_refused s + 1, vs_verdict := AList.update p False (vs_verdict s)\<rparr>)"

definition record_answers :: "(js_string \<Rightarrow> bool) \<Rightarrow> js_string list \<Rightarrow> VerifyState \<Rightarrow> VerifyState" where
  "record_answers probe batch s =
     s\<lparr>vs_verdict := fold (\<lambda>p. AList.update p (probe p)) batch (vs_verdict s),
       vs_probes := vs_probes s + length batch\<rparr>"

definition verify_batch :: "(js_string \<Rightarrow> bool) \<Rightarrow> js_string list \<Rightarrow> VerifyState \<Rightarrow> VerifyState" where
  "verify_batch probe paths s =
     record_answers probe (filter paths_isWorkspaceRelativePosixPath paths) (refuse_paths paths s)"

function verify_batches ::
  "(js_string \<Rightarrow> bool) \<Rightarrow> nat \<Rightarrow> js_string list \<Rightarrow> VerifyState \<Rightarrow> VerifyState" where
  "verify_batches probe concurrency paths s =
    (if paths = [] \<or> concurrency = 0 then s
     else verify_batches probe concurrency (drop concurrency paths) (verify_batch probe (take concurrency paths) s))"
  by pat_completeness auto
termination by (relation "measure (\<lambda>(_, c, paths, _). length paths)") auto

declare verify_batches.simps [simp del]

section \<open>Verification\<close>

definition provenance_paths :: "HydratedNode list \<Rightarrow> js_string list" where
  "provenance_paths nodes = sort (remdups (concat (map (\<lambda>n. map pr_path (hn_provenance n)) nodes)))"

definition on_disk :: "(js_string \<times> bool) list \<Rightarrow> HydratedNode \<Rightarrow> bool" where
  "on_disk verdict node \<longleftrightarrow> list_ex (\<lambda>ref. map_of verdict (pr_path ref) = Some True) (hn_provenance node)"

definition verifyHydrationOnDisk ::
  "HydrationResult \<Rightarrow> (js_string \<Rightarrow> bool) option \<Rightarrow> rat option \<Rightarrow> HydrationVerification res" where
  "verifyHydrationOnDisk result probe concurrency =
    (case probe of
       None \<Rightarrow> Inl (Plain_error ''hydration_verify_target_missing'')
     | Some probe \<Rightarrow>
        (let concurrency = nat (max 1 (whole (case concurrency of None \<Rightarrow> HYDRATION_PROBE_CONCURRENCY | Some c \<Rightarrow> c)));
             paths = provenance_paths (hr_nodes result);
             s = verify_batches probe concurrency paths verify_start;
             verifiedPaths = length (filter snd (vs_verdict s));
             nodes = map (\<lambda>node. withHydrationGrounding node (on_disk (vs_verdict s) node)) (hr_nodes result)
         in Inr \<lparr>hv_nodes = nodes, hv_uniquePaths = length paths, hv_probes = vs_probes s,
              hv_verifiedPaths = verifiedPaths,
              hv_missingPaths = int (length paths) - int (vs_refused s) - int verifiedPaths,
              hv_refusedPaths = vs_refused s,
              hv_verifiedNodes = length (filter (on_disk (vs_verdict s)) (hr_nodes result)),
              hv_concurrency = concurrency, hv_provenanceCoverage = contextHydrationCoverage nodes\<rparr>))"

section \<open>Batching does not matter\<close>

definition found :: "(js_string \<Rightarrow> bool) \<Rightarrow> js_string \<Rightarrow> bool" where
  "found probe p \<longleftrightarrow> paths_isWorkspaceRelativePosixPath p \<and> probe p"

text \<open>After the paths of \<open>xs\<close>: one verdict for each, the right one.\<close>

definition verified :: "(js_string \<Rightarrow> bool) \<Rightarrow> js_string list \<Rightarrow> VerifyState \<Rightarrow> bool" where
  "verified probe xs s \<longleftrightarrow> mset (vs_verdict s) = mset (map (\<lambda>p. (p, found probe p)) xs)
     \<and> vs_probes s = length (filter paths_isWorkspaceRelativePosixPath xs)
     \<and> vs_refused s = length (filter (\<lambda>p. \<not> paths_isWorkspaceRelativePosixPath p) xs)"

lemma update_fresh: "p \<notin> fst ` set al \<Longrightarrow> AList.update p v al = al @ [(p, v)]"
  by (induction al) auto

lemma verified_keys: "verified probe xs s \<Longrightarrow> fst ` set (vs_verdict s) = set xs"
proof -
  assume "verified probe xs s"
  then have "set (vs_verdict s) = set (map (\<lambda>p. (p, found probe p)) xs)"
    unfolding verified_def by (blast dest: mset_eq_setD)
  then show ?thesis by (simp add: image_image)
qed

lemma refuse_paths_effect:
  "distinct ps \<Longrightarrow> set ps \<inter> fst ` set (vs_verdict s) = {} \<Longrightarrow>
     refuse_paths ps s = s\<lparr>vs_refused := vs_refused s + length (filter (\<lambda>p. \<not> paths_isWorkspaceRelativePosixPath p) ps),
       vs_verdict := vs_verdict s @ map (\<lambda>p. (p, False)) (filter (\<lambda>p. \<not> paths_isWorkspaceRelativePosixPath p) ps)\<rparr>"
proof (induction ps arbitrary: s)
  case (Cons p ps)
  show ?case
  proof (cases "paths_isWorkspaceRelativePosixPath p")
    case True
    with Cons show ?thesis by simp
  next
    case False
    let ?s = "s\<lparr>vs_refused := vs_refused s + 1, vs_verdict := vs_verdict s @ [(p, False)]\<rparr>"
    have "refuse_paths (p # ps) s = refuse_paths ps ?s" using False Cons.prems by (simp add: update_fresh)
    also have "\<dots> = ?s\<lparr>vs_refused := vs_refused ?s + length (filter (\<lambda>p. \<not> paths_isWorkspaceRelativePosixPath p) ps),
       vs_verdict := vs_verdict ?s @ map (\<lambda>p. (p, False)) (filter (\<lambda>p. \<not> paths_isWorkspaceRelativePosixPath p) ps)\<rparr>"
      by (rule Cons.IH) (use Cons.prems in auto)
    finally show ?thesis using False by simp
  qed
qed simp

lemma answers_effect:
  "distinct ps \<Longrightarrow> set ps \<inter> fst ` set al = {} \<Longrightarrow>
     fold (\<lambda>p. AList.update p (f p)) ps al = al @ map (\<lambda>p. (p, f p)) ps"
proof (induction ps arbitrary: al)
  case (Cons p ps)
  have "set ps \<inter> fst ` set (al @ [(p, f p)]) = {}" using Cons.prems by auto
  with Cons show ?case by (simp add: update_fresh)
qed simp

lemma verify_batch_verified:
  assumes "verified probe xs s" "distinct (xs @ ys)"
  shows "verified probe (xs @ ys) (verify_batch probe ys s)"
proof -
  let ?good = "filter paths_isWorkspaceRelativePosixPath ys"
  let ?bad = "filter (\<lambda>p. \<not> paths_isWorkspaceRelativePosixPath p) ys"
  have fresh: "set ys \<inter> fst ` set (vs_verdict s) = {}" "distinct ys"
    using assms verified_keys [OF assms(1)] by auto
  have r: "refuse_paths ys s = s\<lparr>vs_refused := vs_refused s + length ?bad,
      vs_verdict := vs_verdict s @ map (\<lambda>p. (p, False)) ?bad\<rparr>"
    using refuse_paths_effect [OF fresh(2,1)] .
  have "fold (\<lambda>p. AList.update p (probe p)) ?good (vs_verdict s @ map (\<lambda>p. (p, False)) ?bad)
      = (vs_verdict s @ map (\<lambda>p. (p, False)) ?bad) @ map (\<lambda>p. (p, probe p)) ?good"
    by (rule answers_effect) (use fresh in auto)
  then have v: "vs_verdict (verify_batch probe ys s)
      = vs_verdict s @ map (\<lambda>p. (p, False)) ?bad @ map (\<lambda>p. (p, probe p)) ?good"
    by (simp add: verify_batch_def record_answers_def r)
  let ?f = "\<lambda>p. (p, found probe p)"
  have parts: "map ?f ?bad = map (\<lambda>p. (p, False)) ?bad" "map ?f ?good = map (\<lambda>p. (p, probe p)) ?good"
    by (simp_all add: found_def)
  have "mset (map ?f ys) = mset (map ?f ?good) + mset (map ?f ?bad)"
    unfolding mset_map image_mset_union [symmetric] mset_filter multiset_partition [symmetric] ..
  then have "mset (vs_verdict (verify_batch probe ys s)) = mset (vs_verdict s) + mset (map ?f ys)"
    unfolding v parts by (simp only: mset_append union_assoc union_commute)
  then have "mset (vs_verdict (verify_batch probe ys s)) = mset (map ?f (xs @ ys))"
    using assms(1) by (simp add: verified_def)
  then show ?thesis
    using assms(1) by (simp add: verified_def verify_batch_def record_answers_def r)
qed

lemma verify_batches_verified:
  "0 < c \<Longrightarrow> verified probe xs s \<Longrightarrow> distinct (xs @ ys) \<Longrightarrow> verified probe (xs @ ys) (verify_batches probe c ys s)"
proof (induction probe c ys s arbitrary: xs rule: verify_batches.induct)
  case (1 probe c ys s)
  show ?case
  proof (cases "ys = []")
    case True
    with 1 show ?thesis by (simp add: verify_batches.simps)
  next
    case False
    have split: "xs @ ys = (xs @ take c ys) @ drop c ys" by simp
    have "verified probe (xs @ take c ys) (verify_batch probe (take c ys) s)"
      by (rule verify_batch_verified) (use "1.prems" in \<open>auto dest: in_set_takeD\<close>)
    moreover have "verify_batches probe c ys s
        = verify_batches probe c (drop c ys) (verify_batch probe (take c ys) s)"
      using False "1.prems"(1) by (subst verify_batches.simps) simp
    ultimately show ?thesis
      using "1.IH" [of "xs @ take c ys"] False "1.prems"(1,3) unfolding split by simp
  qed
qed

section \<open>Properties\<close>

text \<open>
  C18. Verifying a hydration asks about each distinct provenance path once, whatever the
  concurrency: a node is verified exactly when one of its paths is workspace-relative and the
  probe finds it; refused paths are not probed; and every distinct path is counted as verified,
  missing or refused.
\<close>

theorem verification_exact:
  assumes "verifyHydrationOnDisk result (Some probe) concurrency = Inr v"
  defines "paths \<equiv> provenance_paths (hr_nodes result)"
  defines "relative \<equiv> filter paths_isWorkspaceRelativePosixPath paths"
  shows "hv_nodes v = map (\<lambda>n. withHydrationGrounding n (list_ex (\<lambda>r. found probe (pr_path r)) (hn_provenance n)))
       (hr_nodes result)
     \<and> hv_uniquePaths v = length paths \<and> distinct paths \<and> hv_probes v = length relative
     \<and> hv_refusedPaths v = length paths - length relative
     \<and> hv_verifiedPaths v = length (filter probe relative)
     \<and> hv_missingPaths v = int (length (filter (\<lambda>p. \<not> probe p) relative))"
proof -
  define c where "c = nat (max 1 (whole (case concurrency of None \<Rightarrow> HYDRATION_PROBE_CONCURRENCY | Some c \<Rightarrow> c)))"
  define s where "s = verify_batches probe c paths verify_start"
  have d: "distinct paths" by (simp add: paths_def provenance_paths_def)
  have "verified probe ([] @ paths) s"
    unfolding s_def by (rule verify_batches_verified) (simp_all add: d c_def verified_def verify_start_def)
  then have ok: "mset (vs_verdict s) = mset (map (\<lambda>p. (p, found probe p)) paths)" "vs_probes s = length relative"
      "vs_refused s = length paths - length relative"
    using sum_length_filter_compl [of paths_isWorkspaceRelativePosixPath paths] by (simp_all add: verified_def relative_def)
  have "distinct (map fst (vs_verdict s))"
    using d ok(1) by (metis (no_types, lifting) comp_apply fst_conv list.map_comp map_idI mset_eq_imp_distinct_iff mset_map)
  then have verdict: "map_of (vs_verdict s) p = Some True \<longleftrightarrow> p \<in> set paths \<and> found probe p" for p
    using mset_eq_setD [OF ok(1)] by (auto simp: map_of_eq_Some_iff)
  have disk: "on_disk (vs_verdict s) n = list_ex (\<lambda>r. found probe (pr_path r)) (hn_provenance n)"
    if "n \<in> set (hr_nodes result)" for n
    using that by (auto simp: on_disk_def verdict list_ex_iff paths_def provenance_paths_def)
  have count: "length (filter snd (vs_verdict s)) = length (filter probe relative)"
  proof -
    have "length (filter snd (vs_verdict s)) = length (filter snd (map (\<lambda>p. (p, found probe p)) paths))"
      using ok(1) by (metis mset_filter size_mset)
    also have "\<dots> = length (filter (found probe) paths)" by (simp add: filter_map comp_def)
    also have "filter (found probe) paths = filter probe relative"
      unfolding relative_def filter_filter by (rule filter_cong) (auto simp: found_def)
    finally show ?thesis .
  qed
  have v: "hv_nodes v = map (\<lambda>n. withHydrationGrounding n (on_disk (vs_verdict s) n)) (hr_nodes result)"
      "hv_uniquePaths v = length paths" "hv_probes v = vs_probes s" "hv_refusedPaths v = vs_refused s"
      "hv_verifiedPaths v = length (filter snd (vs_verdict s))"
      "hv_missingPaths v = int (length paths) - int (vs_refused s) - int (length (filter snd (vs_verdict s)))"
    using assms(1) by (auto simp: verifyHydrationOnDisk_def Let_def s_def c_def paths_def)
  have "length relative \<le> length paths" by (simp add: relative_def)
  then show ?thesis
    using v ok d disk count sum_length_filter_compl [of probe relative] by simp
qed

end
