(* ===== verification/Hydrate_Example.thy ===== *)
theory Hydrate_Example
  imports Hydrate_Verify
begin

text \<open>
  Two nodes and one edge between them, hydrated: the second node was reached over the edge from
  the first, and a third candidate names an edge the index does not have.
\<close>

section \<open>The index\<close>

definition pair_view :: "int \<Rightarrow> unit ContextGraphNodeView" where
  "pair_view i = \<lparr>nv_node = nat i, nv_id = (if i = 0 then js ''a'' else js ''b''), nv_kind = Kind_command, nv_label = [], nv_path = None,
     nv_line = None, nv_column = None, nv_contentHash = None, nv_trust = 1, nv_freshness = Fresh, nv_risk = Low,
     nv_tokenCost = 1, nv_flags = 8, nv_group = 0, nv_metadata = Map.empty\<rparr>"

definition pair_provenance :: ProvenanceView where
  "pair_provenance = \<lparr>pv_path = js ''a.ts'', pv_line = Some 4, pv_hash = [], pv_extractor = None\<rparr>"

definition pair_edge :: ContextGraphEdgeView where
  "pair_edge = \<lparr>ev_edge = 0, ev_target = 1, ev_type = Imports, ev_confidence = Exact, ev_flags = 0,
     ev_profileMask = 0xffff, ev_provenance = pair_provenance\<rparr>"

definition pair_step :: "nat \<Rightarrow> edge_step" where
  "pair_step end = \<lparr>es_edge = 0, es_target = end, es_type = 2, es_confidence = 0, es_flags = 0, es_provenance = 0\<rparr>"

definition pair_reader :: "unit HydrationReader" where
  "pair_reader = \<lparr>rd_nodeCount = 2, rd_termId = (\<lambda>t. Inr 0), rd_exact = (\<lambda>t m. Inl Type_error),
     rd_basename = (\<lambda>t. Inl Type_error), rd_lexical = (\<lambda>ids b. Inl Type_error), rd_coarse = (\<lambda>ids b. Inl Type_error),
     rd_nodeHasName = (\<lambda>n t. Inr False), rd_outgoing = (\<lambda>n m. Inr (if n = 0 then [pair_step 1] else [])),
     rd_incoming = (\<lambda>n m. Inr (if n = 1 then [pair_step 0] else [])), rd_nodeFlags = (\<lambda>n. Inr 8),
     rd_nodeGroup = (\<lambda>n. Inr 0), rd_nodeTokenCost = (\<lambda>n. Inr 1), rd_nodeScoreFields = (\<lambda>n. Inl Type_error),
     rd_edgeCount = 1, rd_hydrateNode = (\<lambda>n. Inr (pair_view n)), rd_hydrateEdge = (\<lambda>e. Inr pair_edge),
     rd_provenance = (\<lambda>n es. Inr (map (\<lambda>e. pair_provenance) es))\<rparr>"

definition reached :: "int \<Rightarrow> int \<Rightarrow> int list \<Rightarrow> SelectedCandidate" where
  "reached node parent edges = \<lparr>sc_candidate = \<lparr>cc_node = node, cc_score = 9, cc_seed = 0, cc_parentNode = parent,
       cc_parentEdge = (if edges = [] then -1 else last edges), cc_depth = int (length edges), cc_flags = 0\<rparr>,
     sc_lane = Local_graph, sc_confidence = Text_candidate, sc_contributions = [], sc_tokenCost = 1, sc_group = 0,
     sc_parentEdges = edges\<rparr>"

definition pair_selection :: "SelectedCandidate list" where
  "pair_selection = [reached 0 (-1) [], reached 1 0 [0], reached 1 0 [5]]"

definition pair_options :: HydrationOptions where
  "pair_options = \<lparr>ho_indexFresh = True, ho_config = None\<rparr>"

section \<open>Its hydration\<close>

lemmas pair_simps = pair_reader_def pair_view_def pair_edge_def pair_step_def pair_provenance_def

lemma pair_limit: "provenance_limit pair_options = 6"
  by (simp add: provenance_limit_def pair_options_def CONTEXT_GRAPH_RANKING_CONFIG_def)


lemma pair_paths: "paths_isWorkspaceRelativePosixPath (js ''a.ts'')"
  by code_simp

lemmas cursor_simps = hydration_node_def hydration_edge_def sourceOf_def new_hydration_cursor_def NO_NODE_def

lemmas chain_simps = resolveHydrationChain_def explainHydrationChain_def entry_views_def Let_def

lemmas provenance_simps = provenanceFor_def firstIncidentProvenance_def pushRef_def no_refs_def

lemma pair_run:
  obtains res where "hydrateSelectedCandidates sha256 pair_reader pair_selection pair_options = Inr res"
    "map hn_node (hr_nodes res) = [0, 1]" "map om_node (hr_omitted res) = [1]"
proof -
  have "\<exists>res. hydrateSelectedCandidates sha256 pair_reader pair_selection pair_options = Inr res
     \<and> map hn_node (hr_nodes res) = [0, 1] \<and> map om_node (hr_omitted res) = [1]"
  unfolding hydrateSelectedCandidates_def pair_limit
  by (simp add: pair_selection_def hydration_start_def hydrate_entry_def chain_simps cursor_simps reached_def
     pair_simps provenance_simps pair_paths ship_def hydrated_view_def omit_candidate_def)
  then show thesis using that by (elim exE conjE)
qed

section \<open>The properties on it\<close>

theorem hydration_accounts_for_all_witness:
  "\<exists>res. hydrateSelectedCandidates id pair_reader pair_selection pair_options = Inr res
     \<and> map hn_node (hr_nodes res) = [0, 1] \<and> omission_count (hr_omissions res) No_provenance = 1
     \<and> hr_hydratedNodes res \<le> 2 \<and> hr_hydratedEdges res \<le> 1"
proof -
  obtain res where r: "hydrateSelectedCandidates id pair_reader pair_selection pair_options = Inr res"
    "map hn_node (hr_nodes res) = [0, 1]" "map om_node (hr_omitted res) = [1]" by (rule pair_run)
  have limits: "rd_nodeCount pair_reader = 2" "rd_edgeCount pair_reader = 1" by (simp_all add: pair_reader_def)
  have "length (hr_omitted res) = 1" using arg_cong [OF r(3), of length] by simp
  with r hydration_accounts_for_all [OF r(1)] show ?thesis by (intro exI [of _ res]) (simp add: limits)
qed

theorem hydration_grounded_witness:
  "\<exists>res. hydrateSelectedCandidates id pair_reader pair_selection pair_options = Inr res
     \<and> map hn_node (hr_nodes res) = [0, 1] \<and> hr_provenanceCoverage res = 1 \<and> list_all (grounded 6) (hr_nodes res)"
proof (rule pair_run)
  fix res assume r: "hydrateSelectedCandidates id pair_reader pair_selection pair_options = Inr res"
    "map hn_node (hr_nodes res) = [0, 1]"
  from hydration_grounded [OF r(1)] r show ?thesis unfolding pair_limit by (intro exI [of _ res]) simp
qed

theorem explanations_are_paths_witness:
  "\<exists>res n. hydrateSelectedCandidates id pair_reader pair_selection pair_options = Inr res \<and> n \<in> set (hr_nodes res)
     \<and> hn_node n = 1 \<and> (\<exists>entry chain. chained id pair_reader entry chain n)"
proof -
  obtain res where r: "hydrateSelectedCandidates id pair_reader pair_selection pair_options = Inr res"
    "map hn_node (hr_nodes res) = [0, 1]" by (rule pair_run)
  from r(2) have "1 \<in> hn_node ` set (hr_nodes res)" by (metis list.set_intros(1,2) list.set_map)
  then obtain n where n: "n \<in> set (hr_nodes res)" "hn_node n = 1" by (metis imageE)
  with r explanations_are_paths [OF r(1)] show ?thesis unfolding list_all_iff list_ex_iff by blast
qed

theorem verification_exact_witness:
  "\<exists>res v. hydrateSelectedCandidates id pair_reader pair_selection pair_options = Inr res
     \<and> verifyHydrationOnDisk res (Some (\<lambda>p. p = js ''a.ts'')) (Some 2) = Inr v
     \<and> hv_probes v = length (filter paths_isWorkspaceRelativePosixPath (provenance_paths (hr_nodes res)))"
proof -
  obtain res where r: "hydrateSelectedCandidates id pair_reader pair_selection pair_options = Inr res" by (rule pair_run)
  obtain v where v: "verifyHydrationOnDisk res (Some (\<lambda>p. p = js ''a.ts'')) (Some 2) = Inr v"
    by (simp add: verifyHydrationOnDisk_def Let_def)
  from r v verification_exact [OF v] show ?thesis by blast
qed

end
