(* ===== verification/Encoded_Topology.thy ===== *)
theory Encoded_Topology
  imports Writer_Topology Writer_Example Kernel
begin

text \<open>
  The graph of a snapshot through the cursors of the reader: outgoing and incoming cursors over an
  encoded index yield the edges of the snapshot, with the ends the snapshot gives them.
\<close>

unbundle bit_operations_syntax

section \<open>What a cursor yields over a topology\<close>

lemma outgoing_edge:
  assumes ok: "reader_ok r" and top: "topology (r_geometry r) es" and run: "rd_outgoing (index_reader r) n pm = Inr xs"
  shows "0 \<le> n" "nat n < r_nodeCount r"
    "xs = map (edge_row (r_geometry r) None) (filter (passes (r_geometry r) pm) (filter (\<lambda>i. oe_from (es ! i) = nat n) [0..<length es]))"
proof -
  from run have n: "0 \<le> n" "n < int (r_nodeCount r)"
    and es: "rbind (openOutgoingCursor (r_geometry r) (nat n) pm) (cursor_drain (r_geometry r)) = Inr xs"
    by (auto simp: index_reader_def reader_outgoing_def requireNode_def rbind_Inr_iff split: if_splits)
  show small: "0 \<le> n" "nat n < r_nodeCount r" using n by linarith+
  from open_outgoing [OF reader_geometry [OF ok] small(2)] obtain c where
      c: "openOutgoingCursor (r_geometry r) (nat n) pm = Inr c" "cursor_ok (r_geometry r) c" "c_edgeSource c = None"
      "remaining (r_geometry r) c = filter (passes (r_geometry r) pm) (out_edges (r_geometry r) (nat n))" by metis
  show "xs = map (edge_row (r_geometry r) None) (filter (passes (r_geometry r) pm) (filter (\<lambda>i. oe_from (es ! i) = nat n) [0..<length es]))"
    using es c cursor_drain_remaining [OF c(2)] top small(2) by (simp add: topology_def)
qed

text \<open>The source index of a topology: every edge has one owner.\<close>

lemma topology_sources:
  assumes ok: "reader_ok r" and top: "topology (r_geometry r) es"
    and src: "buildEdgeSourceIndex (r_geometry r) = Inr sources" and i: "i < length es"
  shows "sources ! i = oe_from (es ! i)"
proof -
  let ?g = "r_geometry r"
  have n: "oe_from (es ! i) < g_nodeCount ?g" "i \<in> set (out_edges ?g (oe_from (es ! i)))"
    using top i by (simp_all add: topology_def)
  moreover have "\<not> owner_above ?g i (oe_from (es ! i))" using top by (auto simp: owner_above_def topology_def)
  ultimately show ?thesis using edge_source_index [OF reader_geometry [OF ok]] src by (metis Inr_inject)
qed

lemma incoming_edge:
  assumes ok: "reader_ok r" and top: "topology (r_geometry r) es" and run: "rd_incoming (index_reader r) n pm = Inr xs"
  obtains sources where "0 \<le> n" "nat n < r_nodeCount r" "buildEdgeSourceIndex (r_geometry r) = Inr sources"
    "xs = map (edge_row (r_geometry r) (Some sources)) (filter (passes (r_geometry r) pm) (filter (\<lambda>i. oe_to (es ! i) = nat n) [0..<length es]))"
proof -
  let ?g = "r_geometry r"
  from run have n: "0 \<le> n" "n < int (r_nodeCount r)"
    by (auto simp: index_reader_def reader_incoming_def requireNode_def rbind_Inr_iff split: if_splits)
  from incoming_ok [OF ok n] obtain sources r' c where src: "buildEdgeSourceIndex ?g = Inr sources"
    and c: "reader_incoming r n pm = Inr (c, r')" "openIncomingCursor ?g sources (nat n) pm = Inr c" by blast
  have small: "nat n < g_nodeCount ?g" using n by linarith
  have "length sources = g_edgeCount ?g" using edge_source_index [OF reader_geometry [OF ok]] src by (metis Inr_inject)
  from open_incoming [OF reader_geometry [OF ok] small this, of pm] c obtain c' where
      c': "c = c'" "cursor_ok ?g c'" "c_edgeSource c' = Some sources"
      "remaining ?g c' = filter (passes ?g pm) (in_edges ?g (nat n))" by auto
  have "xs = map (edge_row ?g (Some sources)) (filter (passes ?g pm) (filter (\<lambda>i. oe_to (es ! i) = nat n) [0..<length es]))"
    using run c c' cursor_drain_remaining [OF c'(2)] top small by (simp add: index_reader_def topology_def)
  with that n(1) small src show thesis by blast
qed

text \<open>An edge a cursor yields, with its two ends.\<close>

lemma topology_steps:
  assumes ok: "reader_ok r" and top: "topology (r_geometry r) es"
  shows "rd_outgoing (index_reader r) n pm = Inr xs \<Longrightarrow> e \<in> set xs \<Longrightarrow> es_edge e < length es
      \<and> int (oe_from (es ! es_edge e)) = n \<and> es_target e = oe_to (es ! es_edge e)"
    and "rd_incoming (index_reader r) n pm = Inr xs \<Longrightarrow> e \<in> set xs \<Longrightarrow> es_edge e < length es
      \<and> int (oe_to (es ! es_edge e)) = n \<and> es_target e = oe_from (es ! es_edge e)"
proof -
  show "es_edge e < length es \<and> int (oe_from (es ! es_edge e)) = n \<and> es_target e = oe_to (es ! es_edge e)"
    if "rd_outgoing (index_reader r) n pm = Inr xs" "e \<in> set xs"
    using outgoing_edge [OF ok top that(1)] that(2) top by (auto simp: edge_row_def topology_def)
  show "es_edge e < length es \<and> int (oe_to (es ! es_edge e)) = n \<and> es_target e = oe_from (es ! es_edge e)"
    if "rd_incoming (index_reader r) n pm = Inr xs" "e \<in> set xs"
    by (rule incoming_edge [OF ok top that(1)]) (use that(2) topology_sources [OF ok top] in \<open>auto simp: edge_row_def\<close>)
qed

lemma topology_passes: "topology g es \<Longrightarrow> i < length es \<Longrightarrow> passes g 0xffff i"
  by (simp add: topology_def passes_def)

section \<open>The snapshot's edges\<close>

definition node_at :: "('n, 'c) ContextIndexWriteInput \<Rightarrow> nat \<Rightarrow> js_string" where
  "node_at input i = n_id (sort_key n_id (s_nodes (wi_snapshot input)) ! i)"

text \<open>The ends of the snapshot's edges that leave a node, or that reach it.\<close>

definition ends_from :: "('n, 'c) ContextIndexWriteInput \<Rightarrow> js_string \<Rightarrow> js_string multiset" where
  "ends_from input i = image_mset e_to (filter_mset (\<lambda>e. e_from e = i) (mset (s_edges (wi_snapshot input))))"

definition ends_to :: "('n, 'c) ContextIndexWriteInput \<Rightarrow> js_string \<Rightarrow> js_string multiset" where
  "ends_to input i = image_mset e_from (filter_mset (\<lambda>e. e_to e = i) (mset (s_edges (wi_snapshot input))))"

text \<open>Selecting among images is selecting among the originals, where the two tests and the two readings agree.\<close>

lemma image_filter_image:
  assumes "\<And>e. e \<in># M \<Longrightarrow> P (mk e) = Q e \<and> f (mk e) = h e"
  shows "image_mset f (filter_mset P (image_mset mk M)) = image_mset h (filter_mset Q M)"
  using assms by (induction M) auto

lemma ordered_ends:
  fixes input :: "('n, 'c) ContextIndexWriteInput"
  assumes ok: "graph_ok nix (s_edges (wi_snapshot input)) N"
    and places: "\<forall>q < N. nix (node_at input q) = Some q" "\<forall>i q. nix i = Some q \<longrightarrow> node_at input q = i"
    and n: "n < N"
  defines "es \<equiv> order_edges nix (s_edges (wi_snapshot input))"
  shows "mset (map (\<lambda>e. node_at input (oe_to e)) (filter (\<lambda>e. oe_from e = n) es)) = ends_from input (node_at input n)"
    "mset (map (\<lambda>e. node_at input (oe_from e)) (filter (\<lambda>e. oe_to e = n) es)) = ends_to input (node_at input n)"
proof -
  let ?edges = "s_edges (wi_snapshot input)"
  let ?mk = "\<lambda>edge. \<lparr>oe_edge = edge, oe_from = the (nix (e_from edge)), oe_to = the (nix (e_to edge))\<rparr>"
  have es: "mset es = image_mset ?mk (mset ?edges)" by (simp add: es_def order_edges_def)
  have ends: "node_at input (the (nix (e_from e))) = e_from e" "node_at input (the (nix (e_to e))) = e_to e"
    "the (nix (e_from e)) = n \<longleftrightarrow> e_from e = node_at input n" "the (nix (e_to e)) = n \<longleftrightarrow> e_to e = node_at input n"
    if "e \<in># mset ?edges" for e
    using ok places n that by (fastforce simp: graph_ok_def)+
  have "image_mset (\<lambda>e. node_at input (oe_to e)) (filter_mset (\<lambda>e. oe_from e = n) (mset es)) = ends_from input (node_at input n)"
    unfolding es ends_from_def by (rule image_filter_image) (simp add: ends)
  then show "mset (map (\<lambda>e. node_at input (oe_to e)) (filter (\<lambda>e. oe_from e = n) es)) = ends_from input (node_at input n)"
    by simp
  have "image_mset (\<lambda>e. node_at input (oe_from e)) (filter_mset (\<lambda>e. oe_to e = n) (mset es)) = ends_to input (node_at input n)"
    unfolding es ends_to_def by (rule image_filter_image) (simp add: ends)
  then show "mset (map (\<lambda>e. node_at input (oe_from e)) (filter (\<lambda>e. oe_to e = n) es)) = ends_to input (node_at input n)"
    by simp
qed

section \<open>The snapshot's edges through the reader\<close>

text \<open>A full drain over every profile bit drops nothing.\<close>

lemma topology_filter:
  assumes "topology g es"
  shows "filter (\<lambda>i. P i \<and> passes g 0xffff i) [0..<length es] = filter P [0..<length es]"
  by (rule filter_cong) (use topology_passes [OF assms] in auto)

lemma topology_drains:
  assumes ok: "reader_ok r" and top: "topology (r_geometry r) es" and n: "n < r_nodeCount r"
  shows "\<exists>xs. rd_outgoing (index_reader r) (int n) 0xffff = Inr xs
      \<and> map es_target xs = map oe_to (filter (\<lambda>e. oe_from e = n) es)"
    "\<exists>xs. rd_incoming (index_reader r) (int n) 0xffff = Inr xs
      \<and> map es_target xs = map oe_from (filter (\<lambda>e. oe_to e = n) es)"
proof -
  let ?g = "r_geometry r"
  note g = reader_geometry [OF ok] and all = topology_filter [OF top]
  have n': "n < g_nodeCount ?g" using n by simp
  from open_outgoing [OF g n', of "0xffff"] obtain c where
    c: "openOutgoingCursor ?g n 0xffff = Inr c" "cursor_ok ?g c" by metis
  obtain xs where xs: "rd_outgoing (index_reader r) (int n) 0xffff = Inr xs"
    using c cursor_drain_remaining [OF c(2)] n by (auto simp: index_reader_def reader_outgoing_def requireNode_def)
  have "xs = map (edge_row ?g None) (filter (\<lambda>i. oe_from (es ! i) = n) [0..<length es])"
    using outgoing_edge(3) [OF ok top xs] by (simp add: all)
  then have "map es_target xs = map oe_to (map (\<lambda>i. es ! i) (filter (\<lambda>i. oe_from (es ! i) = n) [0..<length es]))"
    using top by (auto simp: edge_row_def topology_def)
  with xs show "\<exists>xs. rd_outgoing (index_reader r) (int n) 0xffff = Inr xs
      \<and> map es_target xs = map oe_to (filter (\<lambda>e. oe_from e = n) es)"
    using filter_nth_map [of es "\<lambda>e. oe_from e = n"] by simp
  from incoming_ok [OF ok, of "int n" "0xffff"] n obtain sources r' c where
      src: "buildEdgeSourceIndex ?g = Inr sources"
    and c: "reader_incoming r (int n) 0xffff = Inr (c, r')" "openIncomingCursor ?g sources n 0xffff = Inr c" by auto
  have len: "length sources = g_edgeCount ?g" using edge_source_index [OF g] src by (metis Inr_inject)
  have "cursor_ok ?g c" using open_incoming [OF g n' len, of "0xffff"] c(2) by (metis Inr_inject)
  then obtain ys where ys: "rd_incoming (index_reader r) (int n) 0xffff = Inr ys"
    using c(1) cursor_drain_remaining by (auto simp: index_reader_def)
  have "ys = map (edge_row ?g (Some sources)) (filter (\<lambda>i. oe_to (es ! i) = n) [0..<length es])"
    by (rule incoming_edge [OF ok top ys]) (use src in \<open>simp add: all\<close>)
  then have "map es_target ys = map oe_from (map (\<lambda>i. es ! i) (filter (\<lambda>i. oe_to (es ! i) = n) [0..<length es]))"
    using topology_sources [OF ok top src] by (auto simp: edge_row_def)
  with ys show "\<exists>xs. rd_incoming (index_reader r) (int n) 0xffff = Inr xs
      \<and> map es_target xs = map oe_from (filter (\<lambda>e. oe_to e = n) es)"
    using filter_nth_map [of es "\<lambda>e. oe_to e = n"] by simp
qed

text \<open>An encoded index, opened: its adjacency is the topology of the snapshot's ordered edges.\<close>

lemma encoder_topology:
  assumes run: "encodeContextIndex toString buildContextLexicon input = Inr w"
    and schema: "wi_schemaRevision input < 2 ^ 16" and config: "length (wi_configHash input) = 32"
    and md: "\<forall>node \<in> set (s_nodes (wi_snapshot input)). distinct (map fst (n_metadata node))"
    and sizes: "\<forall>(k, size) \<in> set (ai_sectionBytes (wr_assembled w)). size \<le> 2 ^ 29"
      "length (ai_bytes (wr_assembled w)) \<le> 2 ^ 33"
  obtains r nix where "openContextIndex (ai_bytes (wr_assembled w))
      (Some (toHex (hexToBytes (s_snapshotHash (wi_snapshot input)) 32))) (Some (toHex (wi_configHash input))) = Inr r"
    "r_nodeCount r = length (s_nodes (wi_snapshot input))"
    "topology (r_geometry r) (order_edges nix (s_edges (wi_snapshot input)))"
    "graph_ok nix (s_edges (wi_snapshot input)) (length (s_nodes (wi_snapshot input)))"
    "\<forall>q < length (s_nodes (wi_snapshot input)). nix (node_at input q) = Some q"
    "\<forall>i q. nix i = Some q \<longrightarrow> node_at input q = i"
proof (rule encoder_file_opens [OF assms])
  let ?N = "length (s_nodes (wi_snapshot input))" and ?nodes = "sort_key n_id (s_nodes (wi_snapshot input))"
  fix r m nix lexical p terms provs lx cs and s :: StringInterner
  assume r: "openContextIndex (ai_bytes (wr_assembled w))
      (Some (toHex (hexToBytes (s_snapshotHash (wi_snapshot input)) 32))) (Some (toHex (wi_configHash input))) = Inr r"
    and counts: "g_nodeCount (r_geometry r) = ?N" "g_edgeCount (r_geometry r) = length (s_edges (wi_snapshot input))"
    and fh: "file_holds (ai_bytes (wr_assembled w)) m p"
    and geo: "\<exists>h. readContextIndexGeometry (ai_bytes (wr_assembled w)) h m = Inr (r_geometry r)"
    and pay: "section_payloads toString s nix ?nodes (s_edges (wi_snapshot input))
       (s_cycles (wi_snapshot input)) (set (case wi_protectedNodeIds input of None \<Rightarrow> [] | Some ids \<Rightarrow> ids))
       (set (case wi_invalidatedNodeIds input of None \<Rightarrow> [] | Some ids \<Rightarrow> ids)) lexical = Inr (p, terms, provs, lx, cs)"
    and ok: "graph_ok nix (s_edges (wi_snapshot input)) ?N"
    and places: "\<forall>q < ?N. nix (n_id (?nodes ! q)) = Some q" and dom: "dom nix = n_id ` set (s_nodes (wi_snapshot input))"
  have caps: "?N \<le> maxNodeCount" "length (s_edges (wi_snapshot input)) \<le> maxEdgeCount"
    by (rule encode_run [OF run]; assumption)+
  have "topology (r_geometry r) (order_edges nix (s_edges (wi_snapshot input)))"
    using geo written_topology [OF _ fh _ _ pay] counts ok caps by auto
  moreover have at: "\<forall>q < ?N. nix (node_at input q) = Some q" using places by (simp add: node_at_def)
  moreover have "node_at input q = i" if "nix i = Some q" for i q
  proof -
    from that dom have "i \<in> set (map n_id ?nodes)" by auto
    then obtain k where "k < ?N" "i = node_at input k" unfolding in_set_conv_nth by (auto simp: node_at_def)
    with at that show ?thesis by auto
  qed
  ultimately show thesis using that [OF r] counts ok by simp
qed

text \<open>
  C6. The adjacency the reader serves over an encoded index is the snapshot's graph: for every
  node (numbered by the order of the ids), an outgoing cursor over all profiles yields exactly
  the snapshot's edges that leave the node's id, and an incoming cursor exactly those that reach
  it, each with the id at its other end and as often as the snapshot has it, whatever the order
  in which the snapshot lists nodes and edges. The
  conditions are those under which the file opens: the field widths and section sizes of the format,
  and metadata whose keys are distinct.
\<close>

theorem encoded_adjacency:
  assumes run: "encodeContextIndex toString buildContextLexicon input = Inr w"
    and schema: "wi_schemaRevision input < 2 ^ 16" and config: "length (wi_configHash input) = 32"
    and md: "\<forall>node \<in> set (s_nodes (wi_snapshot input)). distinct (map fst (n_metadata node))"
    and sizes: "\<forall>(k, size) \<in> set (ai_sectionBytes (wr_assembled w)). size \<le> 2 ^ 29"
      "length (ai_bytes (wr_assembled w)) \<le> 2 ^ 33"
  shows "\<exists>r. openContextIndex (ai_bytes (wr_assembled w))
      (Some (toHex (hexToBytes (s_snapshotHash (wi_snapshot input)) 32))) (Some (toHex (wi_configHash input))) = Inr r
    \<and> (\<forall>n < length (s_nodes (wi_snapshot input)). \<exists>out inc.
        rd_outgoing (index_reader r) (int n) 0xffff = Inr out \<and> rd_incoming (index_reader r) (int n) 0xffff = Inr inc
      \<and> mset (map (node_at input \<circ> es_target) out) = ends_from input (node_at input n)
      \<and> mset (map (node_at input \<circ> es_target) inc) = ends_to input (node_at input n))"
proof (rule encoder_topology [OF assms])
  fix r nix
  assume r: "openContextIndex (ai_bytes (wr_assembled w))
      (Some (toHex (hexToBytes (s_snapshotHash (wi_snapshot input)) 32))) (Some (toHex (wi_configHash input))) = Inr r"
    and count: "r_nodeCount r = length (s_nodes (wi_snapshot input))"
    and top: "topology (r_geometry r) (order_edges nix (s_edges (wi_snapshot input)))"
    and ids: "graph_ok nix (s_edges (wi_snapshot input)) (length (s_nodes (wi_snapshot input)))"
      "\<forall>q < length (s_nodes (wi_snapshot input)). nix (node_at input q) = Some q"
      "\<forall>i q. nix i = Some q \<longrightarrow> node_at input q = i"
  have "\<exists>out inc. rd_outgoing (index_reader r) (int n) 0xffff = Inr out \<and> rd_incoming (index_reader r) (int n) 0xffff = Inr inc
      \<and> mset (map (node_at input \<circ> es_target) out) = ends_from input (node_at input n)
      \<and> mset (map (node_at input \<circ> es_target) inc) = ends_to input (node_at input n)"
    if n: "n < length (s_nodes (wi_snapshot input))" for n
  proof -
    have "n < r_nodeCount r" using n count by simp
    note d = topology_drains [OF open_reader_ok [OF r] top this] and o = ordered_ends [OF ids n]
    from d obtain out inc where
      runs: "rd_outgoing (index_reader r) (int n) 0xffff = Inr out" "rd_incoming (index_reader r) (int n) 0xffff = Inr inc"
    and ends: "map es_target out = map oe_to (filter (\<lambda>e. oe_from e = n) (order_edges nix (s_edges (wi_snapshot input))))"
      "map es_target inc = map oe_from (filter (\<lambda>e. oe_to e = n) (order_edges nix (s_edges (wi_snapshot input))))" by blast
    have names: "map (node_at input \<circ> es_target) xs = map (node_at input) (map es_target xs)" for xs by simp
    have "mset (map (node_at input \<circ> es_target) out) = ends_from input (node_at input n)"
      unfolding names ends using o(1) by (simp add: comp_def)
    moreover have "mset (map (node_at input \<circ> es_target) inc) = ends_to input (node_at input n)"
      unfolding names ends using o(2) by (simp add: comp_def)
    ultimately show ?thesis using runs by blast
  qed
  with r show ?thesis by blast
qed

text \<open>The example's one edge, from its one node to itself.\<close>

theorem encoded_adjacency_witness:
  "\<exists>w r out. encodeContextIndex no_number no_lexicon tiny_input = Inr w
     \<and> openContextIndex (ai_bytes (wr_assembled w)) (Some (toHex (hexToBytes [] 32))) (Some (toHex (replicate 32 0))) = Inr r
     \<and> rd_outgoing (index_reader r) 0 0xffff = Inr out \<and> map (node_at tiny_input \<circ> es_target) out = [[97]]"
proof -
  obtain w where w: "encodeContextIndex no_number no_lexicon tiny_input = Inr w"
    "\<forall>(k, size) \<in> set (ai_sectionBytes (wr_assembled w)). size \<le> 2 ^ 29"
    "length (ai_bytes (wr_assembled w)) \<le> 2 ^ 33" using tiny_encodes by blast
  have ends: "ends_from tiny_input (node_at tiny_input 0) = {#[97]#}"
    by (simp add: ends_from_def node_at_def tiny_input_def tiny_edge_def tiny_node_def)
  have conds: "wi_schemaRevision tiny_input < 2 ^ 16" "length (wi_configHash tiny_input) = 32"
    "\<forall>node \<in> set (s_nodes (wi_snapshot tiny_input)). distinct (map fst (n_metadata node))"
    "length (s_nodes (wi_snapshot tiny_input)) = 1" "s_snapshotHash (wi_snapshot tiny_input) = []"
    "wi_configHash tiny_input = replicate 32 0"
    by (simp_all add: tiny_input_def tiny_node_def)
  from encoded_adjacency [OF w(1) conds(1-3) w(2,3)] conds(4-6) obtain r out where
    r: "openContextIndex (ai_bytes (wr_assembled w)) (Some (toHex (hexToBytes [] 32))) (Some (toHex (replicate 32 0))) = Inr r"
      "rd_outgoing (index_reader r) 0 0xffff = Inr out"
      "mset (map (node_at tiny_input \<circ> es_target) out) = ends_from tiny_input (node_at tiny_input 0)" by auto
  have "map (node_at tiny_input \<circ> es_target) out = [[97]]" using r(3) unfolding ends mset_single_iff .
  with w(1) r(1,2) show ?thesis by (intro exI conjI)
qed

end
