(* ===== verification/Hydrate_Kernel.thy ===== *)
theory Hydrate_Kernel
  imports Hydrate_Total Hydrate_Example Encoded_Topology Kernel_Encoded
begin

text \<open>
  The composition of the engine's parts: a snapshot is encoded, the file opened, a query run over
  it, and what the query selected hydrated from the same file. The binary reader interprets the
  interface of hydration and, with its topology, the one of the linked table.
\<close>

section \<open>The binary reader\<close>

definition edge_from :: "ordered_edge list \<Rightarrow> int \<Rightarrow> int" where
  "edge_from es k = int (oe_from (es ! nat k))"

definition edge_to :: "ordered_edge list \<Rightarrow> int \<Rightarrow> int" where
  "edge_to es k = int (oe_to (es ! nat k))"

lemma hydration_reader_fields [simp]:
  "rd_nodeCount (hydration_reader toNumber r) = int (r_nodeCount r)"
  "rd_edgeCount (hydration_reader toNumber r) = int (r_edgeCount r)"
  "rd_incoming (hydration_reader toNumber r) = rd_incoming (index_reader r)"
  "rd_outgoing (hydration_reader toNumber r) = rd_outgoing (index_reader r)"
  "rd_hydrateNode (hydration_reader toNumber r) = reader_hydrateNode toNumber r"
  "rd_hydrateEdge (hydration_reader toNumber r) = reader_hydrateEdge r"
  "rd_provenance (hydration_reader toNumber r) = reader_provenance r"
  by (simp_all add: hydration_reader_def ContextIndexReader.defs index_reader_def)

lemma node_in_reader: "node_in (hydration_reader toNumber r) n \<longleftrightarrow> live (index_reader r) n"
  by (simp add: node_in_def live_def index_reader_def)

lemma topology_ends:
  assumes "topology (r_geometry r) es" "edge_in (hydration_reader toNumber r) k"
  shows "live (index_reader r) (edge_from es k)" "live (index_reader r) (edge_to es k)"
    "nat k < length es" "int (nat k) = k" "nat k < g_edgeCount (r_geometry r)"
  using assms by (auto simp: topology_def edge_in_def live_def index_reader_def edge_from_def edge_to_def)

interpretation topo: graph_interface "index_reader r" "reader_ok r \<and> topology (r_geometry r) es"
  "ends_join (hydration_reader toNumber r) (edge_from es) (edge_to es)" for r es toNumber
proof (intro graph_interface.intro graph_interface_axioms.intro)
  show "index_interface (index_reader r) (reader_ok r \<and> topology (r_geometry r) es)"
    by (rule interface_weaken [OF idx.index_interface_axioms]) simp
next
  assume ok: "reader_ok r \<and> topology (r_geometry r) es"
  then have r: "reader_ok r" and top: "topology (r_geometry r) es" by simp_all
  have count: "r_edgeCount r = length es" using top by (simp add: topology_def)
  show "ends_join (hydration_reader toNumber r) (edge_from es) (edge_to es) n (int (es_edge e)) (int (es_target e))"
    if "rd_outgoing (index_reader r) n pm = Inr xs" "e \<in> set xs" for n pm xs e
    using topology_steps(1) [OF r top that] count by (simp add: ends_join_def edge_in_def edge_from_def edge_to_def)
  show "ends_join (hydration_reader toNumber r) (edge_from es) (edge_to es) n (int (es_edge e)) (int (es_target e))"
    if "rd_incoming (index_reader r) n pm = Inr xs" "e \<in> set xs" for n pm xs e
    using topology_steps(2) [OF r top that] count by (simp add: ends_join_def edge_in_def edge_from_def edge_to_def)
  show "live (index_reader r) a \<and> live (index_reader r) b \<and> 0 \<le> k \<and> k < 2 ^ 31"
    if "ends_join (hydration_reader toNumber r) (edge_from es) (edge_to es) a k b" for a k b
  proof -
    have k: "edge_in (hydration_reader toNumber r) k" using that by (simp add: ends_join_def)
    have "r_edgeCount r \<le> maxEdgeCount" using reader_geometry [OF r] by (simp add: geometry_ok_def)
    then have "k < 2 ^ 31" using k by (simp add: edge_in_def limits)
    with that topology_ends [OF top k] k show ?thesis by (auto simp: ends_join_def edge_in_def)
  qed
qed

text \<open>Where every string decodes, what can only fail on a string does not fail.\<close>

lemma safe_answers: "strings_decode g \<Longrightarrow> string_safe g m \<Longrightarrow> answers m"
  by (cases m) (auto simp: string_safe_def strings_decode_def answers_def)

lemma own_source_safe:
  assumes ok: "geometry_ok g" and node: "node < g_nodeCount g"
  shows "string_safe g (own_source g (g_nodeBase g + node * 40))"
proof -
  have str: "strings_ok g" and nodes: "nodes_ok g" using ok by (simp_all add: geometry_ok_def)
  from nodes have fits: "table_fits g (g_nodeBase g) (g_nodeCount g) 40" by (simp add: nodes_ok_def)
  let ?c = "\<lambda>w fld. cell w g (g_nodeBase g) 40 node fld"
  have rd: "get_u32 (g_bytes g) (g_nodeBase g + node * 40 + 16) = Inr (?c 4 16)"
    "get_u32 (g_bytes g) (g_nodeBase g + node * 40 + 20) = Inr (?c 4 20)"
    "get_u32 (g_bytes g) (g_nodeBase g + node * 40 + 28) = Inr (?c 4 28)"
    by (rule cell_read [OF fits node]; simp)+
  have "optional_reference (?c 4 16) (g_stringCount g)" "optional_reference (?c 4 28) (g_stringCount g)"
    using nodes node by (simp_all add: nodes_ok_def)
  then show ?thesis
    unfolding own_source_def rows rd rbind_simps
    using string_safe_stringAt [OF str] by (auto simp: optional_reference_def CONTEXT_INDEX_NO_VALUE_def intro!: string_safe_bind)
qed

lemma edge_provenances_safe:
  assumes ok: "geometry_ok g"
  shows "\<forall>k \<in> set ks. req k = Inr () \<and> nat k < g_edgeCount g \<Longrightarrow> string_safe g (edge_provenances g req seen ks)"
proof (induction ks arbitrary: seen)
  case (Cons k ks)
  have str: "strings_ok g" and edges: "edges_ok g" and prov: "provenance_ok g" using ok by (simp_all add: geometry_ok_def)
  have k: "req k = Inr ()" "nat k < g_edgeCount g" using Cons.prems by simp_all
  let ?row = "cell 4 g (g_edgeBase g) 16 (nat k) 8"
  have fits: "table_fits g (g_edgeBase g) (g_edgeCount g) 16" and row: "?row < g_provenanceCount g"
    using edges k(2) by (simp_all add: edges_ok_def)
  have rd: "get_u32 (g_bytes g) (g_edgeBase g + nat k * 16 + 8) = Inr ?row"
    by (rule cell_read [OF fits k(2)]) simp_all
  have rest: "string_safe g (edge_provenances g req seen' ks)" for seen' using Cons by simp
  show ?case
    unfolding edge_provenances.simps rows k(1) rd rbind_simps
    using rest provenance_at_safe [OF str prov row] by (auto intro!: string_safe_bind)
qed simp

lemma reader_answers:
  assumes ok: "reader_ok r" and str: "strings_decode (r_geometry r)"
  shows "live (index_reader r) n \<Longrightarrow> answers (reader_hydrateNode toNumber r n)"
    "live (index_reader r) n \<Longrightarrow> \<forall>k \<in> set ks. 0 \<le> k \<and> k < int (r_edgeCount r) \<Longrightarrow> answers (reader_provenance r n ks)"
    "0 \<le> k \<Longrightarrow> k < int (r_edgeCount r) \<Longrightarrow> answers (reader_hydrateEdge r k)"
proof -
  let ?g = "r_geometry r"
  note g = reader_geometry [OF ok]
  have row: "nodeRow r n = Inr (g_nodeBase ?g + nat n * 40)" "nat n < g_nodeCount ?g" if "live (index_reader r) n"
    using that by (auto simp: nodeRow_iff live_def index_reader_def)
  show "answers (reader_hydrateNode toNumber r n)" if "live (index_reader r) n"
    using safe_answers [OF str hydrate_node_safe [OF g row(2) [OF that]]] row(1) [OF that] by (simp add: reader_hydrateNode_def)
  show "answers (reader_provenance r n ks)" if n: "live (index_reader r) n" and ks: "\<forall>k \<in> set ks. 0 \<le> k \<and> k < int (r_edgeCount r)"
  proof -
    have "\<forall>k \<in> set ks. requireEdge r k = Inr () \<and> nat k < g_edgeCount ?g" using ks by (auto simp: requireEdge_def)
    with own_source_safe [OF g row(2) [OF n]] edge_provenances_safe [OF g]
    have "string_safe ?g (provenanceOf ?g (g_nodeBase ?g + nat n * 40) ks (requireEdge r))"
      unfolding provenanceOf_def by (intro string_safe_bind) simp_all
    with safe_answers [OF str] row(1) [OF n] show ?thesis by (simp add: reader_provenance_def)
  qed
  show "answers (reader_hydrateEdge r k)" if "0 \<le> k" "k < int (r_edgeCount r)"
  proof -
    have "nat k < g_edgeCount ?g" using that by auto
    from safe_answers [OF str hydrate_edge_safe [OF g this]] that show ?thesis
      by (simp add: reader_hydrateEdge_def requireEdge_def)
  qed
qed

lemma hydrated_target:
  assumes "reader_ok r" "topology (r_geometry r) es" "edge_in (hydration_reader toNumber r) k" "reader_hydrateEdge r k = Inr v"
  shows "int (ev_target v) = edge_to es k"
proof -
  let ?g = "r_geometry r"
  have k: "nat k < g_edgeCount ?g" "nat k < length es" using topology_ends [OF assms(2,3)] by simp_all
  have "table_fits ?g (g_edgeBase ?g) (g_edgeCount ?g) 16"
    using reader_geometry [OF assms(1)] by (simp add: geometry_ok_def edges_ok_def)
  from cell_read(1) [OF this k(1), of 0] have
    "get_u32 (g_bytes ?g) (g_edgeBase ?g + nat k * 16 + 0) = Inr (cell 4 ?g (g_edgeBase ?g) 16 (nat k) 0)" by simp
  then have "ev_target v = cell 4 ?g (g_edgeBase ?g) 16 (nat k) 0"
    using assms(4) by (auto simp: reader_hydrateEdge_def hydrateEdgeAt_def Let_def rows rbind_Inr_iff)
  with assms(2) k(2) show ?thesis by (simp add: topology_def edge_to_def)
qed

text \<open>An edge of the index is in the incoming bucket of its target.\<close>

lemma bucket_holds:
  assumes ok: "reader_ok r" and top: "topology (r_geometry r) es" and k: "edge_in (hydration_reader toNumber r) k"
    and run: "rd_incoming (index_reader r) (edge_to es k) CONTEXT_INDEX_PROFILE_MASK_ALL = Inr xs"
  shows "\<exists>x \<in> set xs. int (es_edge x) = k"
proof (rule incoming_edge [OF ok top run])
  fix sources
  let ?g = "r_geometry r"
  assume xs: "xs = map (edge_row ?g (Some sources))
      (filter (passes ?g CONTEXT_INDEX_PROFILE_MASK_ALL) (filter (\<lambda>i. oe_to (es ! i) = nat (edge_to es k)) [0..<length es]))"
  note n = topology_ends [OF top k]
  have "nat k \<in> set (filter (passes ?g CONTEXT_INDEX_PROFILE_MASK_ALL) (filter (\<lambda>i. oe_to (es ! i) = nat (edge_to es k)) [0..<length es]))"
    using n(3) topology_passes [OF top n(3)] by (simp add: edge_to_def CONTEXT_INDEX_PROFILE_MASK_ALL_def)
  then have "edge_row ?g (Some sources) (nat k) \<in> set xs" unfolding xs by simp
  moreover have "int (es_edge (edge_row ?g (Some sources) (nat k))) = k" using n(4) by (simp add: edge_row_def)
  ultimately show ?thesis by blast
qed

interpretation hyd: hydration_interface "hydration_reader toNumber r"
  "reader_ok r \<and> strings_decode (r_geometry r) \<and> topology (r_geometry r) es" "edge_from es" "edge_to es" for toNumber r es
proof unfold_locales
  let ?h = "hydration_reader toNumber r"
  assume v: "reader_ok r \<and> strings_decode (r_geometry r) \<and> topology (r_geometry r) es"
  then have r: "reader_ok r" and s: "strings_decode (r_geometry r)" and top: "topology (r_geometry r) es" by simp_all
  note given = reader_answers [OF r s]
  show "node_in ?h (edge_from es k) \<and> node_in ?h (edge_to es k)" if "edge_in ?h k" for k
    using topology_ends(1,2) [OF top that] by (simp add: node_in_reader)
  show "answers (rd_hydrateNode ?h n)" if "node_in ?h n" for n
    using given(1) that by (simp add: node_in_reader)
  show "\<exists>v. rd_hydrateEdge ?h k = Inr v \<and> int (ev_target v) = edge_to es k" if k: "edge_in ?h k" for k
    using given(3) [of k] k hydrated_target [OF r top k] by (auto simp: edge_in_def answers_def)
  show "answers (rd_incoming ?h n m)" if "node_in ?h n" for n m
    using ans.incoming_answers r s that by (simp add: node_in_reader)
  show "answers (rd_outgoing ?h n m)" if "node_in ?h n" for n m
    using ans.outgoing_answers r s that by (simp add: node_in_reader)
  show "int (es_target x) = edge_from es (int (es_edge x))" if "rd_incoming ?h n m = Inr xs" "x \<in> set xs" for n m xs x
    using topology_steps(2) [OF r top] that by (simp add: edge_from_def)
  show "\<exists>x \<in> set xs. int (es_edge x) = k"
    if "edge_in ?h k" "rd_incoming ?h (edge_to es k) CONTEXT_INDEX_PROFILE_MASK_ALL = Inr xs" for k xs
    using bucket_holds [OF r top that(1)] that(2) by simp
  show "answers (rd_provenance ?h n ks)" if "node_in ?h n" "\<forall>k \<in> set ks. edge_in ?h k" for n ks
    using given(2) [of n ks] that by (simp add: node_in_reader edge_in_def)
qed

section \<open>An encoded index hydrates\<close>

lemma selected_hydrate:
  assumes ok: "reader_ok r" and str: "strings_decode (r_geometry r)" and top: "topology (r_geometry r) es"
    and run: "runContextKernel nfkc lower (index_reader r) request options = Inr res"
  shows "\<exists>h. hydrateSelectedCandidates sha256 (hydration_reader toNumber r) (res_selected res) opts = Inr h
     \<and> list_all (\<lambda>o'. om_reason o' = Ungrounded) (hr_omitted h)"
proof (rule hyd.hydration_answers)
  show "reader_ok r \<and> strings_decode (r_geometry r) \<and> topology (r_geometry r) es" using ok str top by simp
  show "list_all (hydration_interface.explainable (hydration_reader toNumber r) (edge_from es) (edge_to es)) (res_selected res)"
    using topo.selected_chains [OF _ run, of es toNumber] ok top by (simp add: list_all_iff hyd.explainable_def node_in_reader)
qed

section \<open>Properties\<close>

text \<open>
  C4. Whatever a query selects over an index the encoder emitted is explained: the pass of
  \<open>hydrateSelectedCandidates\<close> over the selection of \<open>runContextKernel\<close> returns, for every request,
  digest and option, and the only candidates it leaves out are those no provenance of the index
  vouches for. None is dropped because its parent edges do not lead back to it: the edges the
  kernel recorded for a candidate are always a path of the index. The
  conditions are those under which the file opens: the field widths and section sizes of the format,
  and metadata whose keys are distinct.
\<close>

theorem encoded_query_hydrates:
  assumes run: "encodeContextIndex toString buildContextLexicon input = Inr w"
    and schema: "wi_schemaRevision input < 2 ^ 16" and config: "length (wi_configHash input) = 32"
    and md: "\<forall>node \<in> set (s_nodes (wi_snapshot input)). distinct (map fst (n_metadata node))"
    and sizes: "\<forall>(k, size) \<in> set (ai_sectionBytes (wr_assembled w)). size \<le> 2 ^ 29"
      "length (ai_bytes (wr_assembled w)) \<le> 2 ^ 33"
  shows "\<exists>r res h. openContextIndex (ai_bytes (wr_assembled w))
      (Some (toHex (hexToBytes (s_snapshotHash (wi_snapshot input)) 32))) (Some (toHex (wi_configHash input))) = Inr r
    \<and> runContextKernel nfkc lower (index_reader r) request options = Inr res
    \<and> hydrateSelectedCandidates sha256 (hydration_reader toNumber r) (res_selected res) hydration = Inr h
    \<and> list_all (\<lambda>o'. om_reason o' = Ungrounded) (hr_omitted h)"
proof (rule encoder_strings [OF assms])
  fix r and s :: StringInterner
  assume r: "openContextIndex (ai_bytes (wr_assembled w))
      (Some (toHex (hexToBytes (s_snapshotHash (wi_snapshot input)) 32))) (Some (toHex (wi_configHash input))) = Inr r"
    and strings: "g_stringCount (r_geometry r) = length (si_table s)"
      "\<And>i. i < length (si_table s) \<Longrightarrow> stringAt (r_geometry r) i = text_decode (text_encode (si_table s ! i))"
  have decode: "strings_decode (r_geometry r)"
    using strings decode_encoded by (simp add: strings_decode_def answers_def)
  obtain es where top: "topology (r_geometry r) es"
    by (rule encoder_topology [OF assms]) (use r in simp)
  obtain res where res: "runContextKernel nfkc lower (index_reader r) request options = Inr res"
    using opened_index_answers [OF r decode] by blast
  from selected_hydrate [OF open_reader_ok [OF r] decode top res] r res show ?thesis by blast
qed

theorem encoded_query_hydrates_witness:
  "\<exists>w r res h. encodeContextIndex no_number no_lexicon tiny_input = Inr w
     \<and> openContextIndex (ai_bytes (wr_assembled w)) (Some (toHex (hexToBytes [] 32))) (Some (toHex (replicate 32 0))) = Inr r
     \<and> runContextKernel id id (index_reader r) tiny_request tiny_options = Inr res
     \<and> hydrateSelectedCandidates id (hydration_reader (\<lambda>_. 0 :: nat) r) (res_selected res) pair_options = Inr h
     \<and> list_all (\<lambda>o'. om_reason o' = Ungrounded) (hr_omitted h)"
proof -
  obtain w where w: "encodeContextIndex no_number no_lexicon tiny_input = Inr w"
    "\<forall>(k, size) \<in> set (ai_sectionBytes (wr_assembled w)). size \<le> 2 ^ 29"
    "length (ai_bytes (wr_assembled w)) \<le> 2 ^ 33" using tiny_encodes by blast
  from encoded_query_hydrates [OF w(1) tiny_conditions w(2,3), of id id tiny_request tiny_options id "\<lambda>_. 0 :: nat" pair_options] w(1)
  show ?thesis by (auto simp: tiny_input_def)
qed

end
