(* ===== verification/Compiler_Types.thy ===== *)
theory Compiler_Types
  imports Ids "HOL-Library.AList"
begin

text \<open>
  What the compiler of the graph passes around, from context-graph/contracts.ts: lint issues,
  skipped inputs, the fragments extractors produce. A \<open>Map\<close> that is iterated is the list of its
  entries in insertion order, updated in place; a plain object used as a dictionary is a map with
  the names it inherits.
\<close>

section \<open>Issues\<close>

datatype ContextGraphLintCode =
    Duplicate_node_conflict | Dangling_edge_issue | Edge_without_provenance | Absolute_or_escaping_path
  | Symlink_escape | Secret_like_value | Unsupported_node_kind | Unsupported_edge_type
  | Non_deterministic_serialization | Protected_gate_without_source_relation | Manifest_dag_cycle
  | Hash_mismatch | Snapshot_meta_mismatch | Freshness_claim_mismatch | Invalid_node_field | Invalid_edge_field
  | Orphan_wiki_claim | Single_source_low_trust_synthesis | Unknown_freshness | High_fan_in_without_verification
  | Unreachable_in_profile | Extractor_skipped_input

datatype ContextGraphLintSeverity = Issue_error | Issue_warning

text \<open>\<open>Partial<ContextGraphLintIssue>\<close>: the place an issue is about.\<close>

record IssuePlace =
  li_nodeId :: "js_string option"
  li_edgeId :: "js_string option"
  li_path :: "js_string option"
  li_extractor :: "js_string option"

record ContextGraphLintIssue = IssuePlace +
  li_code :: ContextGraphLintCode
  li_severity :: ContextGraphLintSeverity
  li_message :: js_string

definition nowhere :: IssuePlace where
  "nowhere = \<lparr>li_nodeId = None, li_edgeId = None, li_path = None, li_extractor = None\<rparr>"

definition lintError :: "ContextGraphLintCode \<Rightarrow> js_string \<Rightarrow> IssuePlace \<Rightarrow> ContextGraphLintIssue" where
  "lintError code message extra =
     IssuePlace.extend extra \<lparr>li_code = code, li_severity = Issue_error, li_message = message\<rparr>"

definition lintWarning :: "ContextGraphLintCode \<Rightarrow> js_string \<Rightarrow> IssuePlace \<Rightarrow> ContextGraphLintIssue" where
  "lintWarning code message extra =
     IssuePlace.extend extra \<lparr>li_code = code, li_severity = Issue_warning, li_message = message\<rparr>"

lemma issue_fields [simp]:
  "li_code (lintError c m e) = c" "li_severity (lintError c m e) = Issue_error" "li_message (lintError c m e) = m"
  "li_nodeId (lintError c m e) = li_nodeId e" "li_edgeId (lintError c m e) = li_edgeId e"
  "li_path (lintError c m e) = li_path e" "li_extractor (lintError c m e) = li_extractor e"
  "li_code (lintWarning c m e) = c" "li_severity (lintWarning c m e) = Issue_warning"
  by (simp_all add: lintError_def lintWarning_def IssuePlace.defs)

definition is_error :: "ContextGraphLintIssue \<Rightarrow> bool" where
  "is_error issue \<longleftrightarrow> li_severity issue = Issue_error"

text \<open>The text of a kind.\<close>

fun kind_name :: "ContextGraphNodeKind \<Rightarrow> js_string" where
  "kind_name Kind_file = js ''file''"
| "kind_name Kind_symbol = js ''symbol''"
| "kind_name Kind_module = js ''module''"
| "kind_name Kind_command = js ''command''"
| "kind_name Kind_route = js ''route''"
| "kind_name Kind_pipeline = js ''pipeline''"
| "kind_name Kind_test = js ''test''"
| "kind_name Kind_gate = js ''gate''"
| "kind_name Kind_schema = js ''schema''"
| "kind_name Kind_config = js ''config''"
| "kind_name Kind_wiki_claim = js ''wiki_claim''"
| "kind_name Kind_source = js ''source''"
| "kind_name Kind_proof = js ''proof''"
| "kind_name Kind_risk_domain = js ''risk_domain''"

section \<open>Fragments\<close>

datatype ContextGraphSkipReason =
    Skip_binary | Skip_oversized | Skip_unsupported_language | Skip_symlink_escape | Skip_unreadable
  | Skip_generated | Skip_cap_reached | Skip_excluded

record ContextGraphSkip =
  sk_path :: js_string
  sk_reason :: ContextGraphSkipReason
  sk_detail :: "js_string option"

record 'n ContextGraphFragment =
  fg_schema :: js_string
  fg_extractor :: js_string
  fg_extractorRevision :: js_string
  fg_nodes :: "'n ContextGraphNode list"
  fg_edges :: "ContextGraphEdge list"
  fg_issues :: "ContextGraphLintIssue list"
  fg_skipped :: "ContextGraphSkip list"
  fg_inputHashes :: "(js_string \<times> js_string) list"

definition CONTEXT_GRAPH_SCHEMA :: js_string where "CONTEXT_GRAPH_SCHEMA = js ''sks.context-graph.v1''"
definition CONTEXT_GRAPH_FRAGMENT_SCHEMA :: js_string where "CONTEXT_GRAPH_FRAGMENT_SCHEMA = js ''sks.context-graph-fragment.v1''"
definition CONTEXT_GRAPH_SCHEMA_REVISION :: js_string where "CONTEXT_GRAPH_SCHEMA_REVISION = js ''1.0.0''"

definition emptyContextGraphFragment :: "js_string \<Rightarrow> js_string \<Rightarrow> 'n ContextGraphFragment" where
  "emptyContextGraphFragment extractor revision =
     \<lparr>fg_schema = CONTEXT_GRAPH_FRAGMENT_SCHEMA, fg_extractor = extractor, fg_extractorRevision = revision,
      fg_nodes = [], fg_edges = [], fg_issues = [], fg_skipped = [], fg_inputHashes = []\<rparr>"

section \<open>Dictionaries that are plain objects\<close>

text \<open>The names every object literal inherits: reading one that is not a key yields a value too.\<close>

definition OBJECT_PROTOTYPE_NAMES :: "js_string list" where
  "OBJECT_PROTOTYPE_NAMES = map js [''constructor'', ''hasOwnProperty'', ''isPrototypeOf'', ''propertyIsEnumerable'',
     ''toLocaleString'', ''toString'', ''valueOf'', ''__proto__'', ''__defineGetter__'', ''__defineSetter__'',
     ''__lookupGetter__'', ''__lookupSetter__'']"

datatype 'v property = Own 'v | Inherited | Absent

definition object_get :: "(js_string \<rightharpoonup> 'v) \<Rightarrow> js_string \<Rightarrow> 'v property" where
  "object_get m key = (case m key of Some v \<Rightarrow> Own v
     | None \<Rightarrow> if key \<in> set OBJECT_PROTOTYPE_NAMES then Inherited else Absent)"

text \<open>Assigning to \<open>__proto__\<close> what is not an object does nothing.\<close>

definition object_put :: "js_string \<Rightarrow> 'v \<Rightarrow> (js_string \<rightharpoonup> 'v) \<Rightarrow> (js_string \<rightharpoonup> 'v)" where
  "object_put key v m = (if key = js ''__proto__'' then m else m(key \<mapsto> v))"

lemma object_get_simps:
  "object_get m key = Own v \<longleftrightarrow> m key = Some v"
  "object_get m key = Inherited \<longleftrightarrow> m key = None \<and> key \<in> set OBJECT_PROTOTYPE_NAMES"
  "object_get m key = Absent \<longleftrightarrow> m key = None \<and> key \<notin> set OBJECT_PROTOTYPE_NAMES"
  by (auto simp: object_get_def split: option.splits)

section \<open>Maps in insertion order\<close>

lemma map_of_put: "map_of (AList.update k v al) = (map_of al)(k \<mapsto> v)"
  by (rule update_conv')

lemma put_keys: "fst ` set (AList.update k v al) = insert k (fst ` set al)"
  by (induction al) auto

lemma put_distinct: "distinct (map fst al) \<Longrightarrow> distinct (map fst (AList.update k v al))"
  by (rule distinct_update)

section \<open>Truth\<close>

definition first_defined :: "'a option \<Rightarrow> 'a option \<Rightarrow> 'a option" where
  "first_defined a b = (case a of None \<Rightarrow> b | Some x \<Rightarrow> Some x)"

definition truthy :: "js_string option \<Rightarrow> bool" where
  "truthy v \<longleftrightarrow> v \<noteq> None \<and> v \<noteq> Some []"

end
