(* ===== verification/Components_Core.thy ===== *)
theory Components_Core
  imports Main
begin

text \<open>
  What depth-first search with low links keeps of a graph, apart from how its loop is written: the
  discovery numbers, the low links, the stack of discovered nodes not yet assigned to a component
  and the path of nodes still being explored. Each step of the search is a lemma.
\<close>

section \<open>Strongly connected components\<close>

definition scc :: "('a \<times> 'a) set \<Rightarrow> 'a \<Rightarrow> 'a set" where
  "scc E v = {w. (v, w) \<in> E\<^sup>* \<and> (w, v) \<in> E\<^sup>*}"

lemma scc_self [simp]: "v \<in> scc E v"
  by (simp add: scc_def)

lemma scc_eq: "w \<in> scc E v \<Longrightarrow> scc E w = scc E v"
  by (auto simp: scc_def intro: rtrancl_trans)

lemma closed_reach:
  assumes "\<And>u w. u \<in> D \<Longrightarrow> (u, w) \<in> E \<Longrightarrow> w \<in> D" "(u, w) \<in> E\<^sup>*" "u \<in> D"
  shows "w \<in> D"
  using assms(2,3) by (induction rule: rtrancl_induct) (use assms(1) in blast)+

section \<open>The invariant\<close>

text \<open>\<open>got m v\<close> is \<open>m.get(v) ?? 0\<close>.\<close>

definition got :: "('a \<rightharpoonup> nat) \<Rightarrow> 'a \<Rightarrow> nat" where
  "got m v = (case m v of None \<Rightarrow> 0 | Some n \<Rightarrow> n)"

lemma got_upd [simp]: "got (m(v \<mapsto> n)) w = (if w = v then n else got m w)"
  by (simp add: got_def)

text \<open>The gray node that a finished node on the stack is charged to: the latest one found before it.\<close>

definition charged :: "('a \<rightharpoonup> nat) \<Rightarrow> 'a list \<Rightarrow> 'a \<Rightarrow> 'a \<Rightarrow> bool" where
  "charged idx path p u \<longleftrightarrow> got idx p < got idx u \<and> (\<forall>q \<in> set path. got idx q < got idx u \<longrightarrow> got idx q \<le> got idx p)"

locale search_state =
  fixes E :: "('a \<times> 'a) set" and idx low :: "'a \<rightharpoonup> nat" and counter :: nat and stack path :: "'a list"
  assumes low_dom: "dom low = dom idx"
    and numbers: "v \<in> dom idx \<Longrightarrow> got idx v < counter"
    and injective: "v \<in> dom idx \<Longrightarrow> w \<in> dom idx \<Longrightarrow> got idx v = got idx w \<Longrightarrow> v = w"
    and stack_order: "sorted_wrt (\<lambda>v w. got idx v > got idx w) stack"
    and path_order: "sorted_wrt (\<lambda>v w. got idx v > got idx w) path"
    and stack_found: "set stack \<subseteq> dom idx"
    and path_stack: "set path \<subseteq> set stack"
    and bottom: "y \<in> set stack \<Longrightarrow> path \<noteq> [] \<and> got idx (last path) \<le> got idx y"
    and closed: "u \<in> dom idx - set stack \<Longrightarrow> (u, w) \<in> E \<Longrightarrow> w \<in> dom idx - set stack"
    and explored: "u \<in> set stack - set path \<Longrightarrow> (u, w) \<in> E \<Longrightarrow> w \<in> dom idx"
    and above: "p \<in> set path \<Longrightarrow> y \<in> set stack \<Longrightarrow> got idx p \<le> got idx y \<Longrightarrow> (p, y) \<in> E\<^sup>*"
    and below: "x \<in> set stack - set path \<Longrightarrow> \<exists>y \<in> set stack. got idx y < got idx x \<and> (x, y) \<in> E\<^sup>*"
    and low_le: "v \<in> set stack \<Longrightarrow> got low v \<le> got idx v"
    and low_reached: "v \<in> set stack \<Longrightarrow> \<exists>y \<in> set stack. got idx y = got low v \<and> (v, y) \<in> E\<^sup>*"
    and low_covers: "p \<in> set path \<Longrightarrow> u \<in> set stack - set path \<Longrightarrow> charged idx path p u \<Longrightarrow>
      (u, w) \<in> E \<Longrightarrow> w \<in> set stack \<Longrightarrow> got low p \<le> got idx w"

lemma search_start: "search_state E Map.empty Map.empty 0 [] []"
  by unfold_locales auto

context search_state begin

lemma top_first: "path = v # ps \<Longrightarrow> q \<in> set ps \<Longrightarrow> got idx q < got idx v"
  using path_order by simp

lemma path_found: "p \<in> set path \<Longrightarrow> p \<in> dom idx"
  using path_stack stack_found by blast

section \<open>Discovering a node\<close>

lemma discover:
  assumes n: "n \<notin> dom idx" and from_top: "path = [] \<and> stack = [] \<or> (\<exists>v ps. path = v # ps \<and> (v, n) \<in> E)"
  shows "search_state E (idx(n \<mapsto> counter)) (low(n \<mapsto> counter)) (counter + 1) (n # stack) (n # path)"
proof -
  let ?idx = "idx(n \<mapsto> counter)"
  have old: "v \<noteq> n" if "v \<in> dom idx" for v using that n by blast
  have olds: "v \<noteq> n" if "v \<in> set stack" for v using that stack_found old by blast
  have oldp: "v \<noteq> n" if "v \<in> set path" for v using that path_stack olds by blast
  have num: "got idx v < counter" if "v \<in> set stack" for v using that stack_found numbers by blast
  have nump: "got idx v < counter" if "v \<in> set path" for v using that path_stack num by blast
  show ?thesis
  proof
    show "dom (low(n \<mapsto> counter)) = dom ?idx" using low_dom by simp
    show "got ?idx v < counter + 1" if "v \<in> dom ?idx" for v
      using that numbers [of v] by (cases "v = n") auto
    show "v = w" if "v \<in> dom ?idx" "w \<in> dom ?idx" "got ?idx v = got ?idx w" for v w
      using that(3) numbers [of v] numbers [of w] injective [of v w] that(1,2) by (cases "v = n"; cases "w = n") auto
    show "sorted_wrt (\<lambda>v w. got ?idx v > got ?idx w) (n # stack)"
      using sorted_wrt_mono_rel [OF _ stack_order, of "\<lambda>v w. got ?idx v > got ?idx w"] olds num by auto
    show "sorted_wrt (\<lambda>v w. got ?idx v > got ?idx w) (n # path)"
      using sorted_wrt_mono_rel [OF _ path_order, of "\<lambda>v w. got ?idx v > got ?idx w"] oldp nump by auto
    show "set (n # stack) \<subseteq> dom ?idx" using stack_found by auto
    show "set (n # path) \<subseteq> set (n # stack)" using path_stack by auto
    show "n # path \<noteq> [] \<and> got ?idx (last (n # path)) \<le> got ?idx y" if "y \<in> set (n # stack)" for y
    proof (cases "path = []")
      case True
      with from_top that show ?thesis by auto
    next
      case False
      then have l: "last path \<in> set path" by simp
      with that bottom [of y] oldp [OF l] nump [OF l] olds [of y] False show ?thesis by auto
    qed
    show "w \<in> dom ?idx - set (n # stack)" if "u \<in> dom ?idx - set (n # stack)" "(u, w) \<in> E" for u w
      using closed [of u w] that old by auto
    show "w \<in> dom ?idx" if "u \<in> set (n # stack) - set (n # path)" "(u, w) \<in> E" for u w
      using explored [of u w] that by auto
    show "(p, y) \<in> E\<^sup>*" if "p \<in> set (n # path)" "y \<in> set (n # stack)" "got ?idx p \<le> got ?idx y" for p y
    proof (cases "p = n")
      case True
      with that num [of y] show ?thesis by (auto split: if_splits)
    next
      case False
      then have p: "p \<in> set path" using that by simp
      show ?thesis
      proof (cases "y = n")
        case True
        from p from_top obtain v ps where v: "path = v # ps" "(v, n) \<in> E" by auto
        then have "got idx p \<le> got idx v" using p top_first by fastforce
        with above [OF p, of v] path_stack v have "(p, v) \<in> E\<^sup>*" by simp
        with v(2) True show ?thesis by simp
      next
        case False
        with that p \<open>p \<noteq> n\<close> above [OF p, of y] show ?thesis by simp
      qed
    qed
    show "\<exists>y \<in> set (n # stack). got ?idx y < got ?idx x \<and> (x, y) \<in> E\<^sup>*" if "x \<in> set (n # stack) - set (n # path)" for x
      using below [of x] that olds by fastforce
    show "got (low(n \<mapsto> counter)) v \<le> got ?idx v" if "v \<in> set (n # stack)" for v
      using low_le [of v] that by auto
    show "\<exists>y \<in> set (n # stack). got ?idx y = got (low(n \<mapsto> counter)) v \<and> (v, y) \<in> E\<^sup>*" if "v \<in> set (n # stack)" for v
      using low_reached [of v] that olds by fastforce
    show "got (low(n \<mapsto> counter)) p \<le> got ?idx w"
      if p: "p \<in> set (n # path)" and u: "u \<in> set (n # stack) - set (n # path)" and c: "charged ?idx (n # path) p u"
        and w: "(u, w) \<in> E" "w \<in> set (n # stack)" for p u w
    proof -
      have u': "u \<in> set stack - set path" "u \<noteq> n" using u by auto
      then have "p \<noteq> n" using c num [of u] by (auto simp: charged_def)
      moreover have "w \<noteq> n" using explored [OF u'(1) w(1)] n by blast
      moreover have "charged idx path p u" using c u'(2) \<open>p \<noteq> n\<close> oldp unfolding charged_def by auto
      ultimately show ?thesis using low_covers [of p u w] p u' w by simp
    qed
  qed
qed

section \<open>Lowering a link\<close>

lemma lower:
  assumes p: "path = v # ps" and w: "w \<in> set stack" "(v, w) \<in> E"
  shows "search_state E idx (low(v \<mapsto> min (got low v) (got idx w))) counter stack path"
proof -
  let ?low = "low(v \<mapsto> min (got low v) (got idx w))"
  have v: "v \<in> set path" "v \<in> set stack" "v \<in> dom idx" using p path_stack stack_found by auto
  have le: "got ?low x \<le> got low x" for x by simp
  show ?thesis
  proof
    show "dom ?low = dom idx" using v low_dom by auto
    show "got ?low x \<le> got idx x" if "x \<in> set stack" for x
      using low_le [OF that] le [of x] by linarith
    show "\<exists>y \<in> set stack. got idx y = got ?low x \<and> (x, y) \<in> E\<^sup>*" if "x \<in> set stack" for x
    proof (cases "x = v \<and> got idx w \<le> got low v")
      case True
      with w have "got idx w = got ?low x \<and> (x, w) \<in> E\<^sup>*" by auto
      with w(1) show ?thesis by blast
    next
      case False
      then have "got ?low x = got low x" by auto
      with low_reached [OF that] show ?thesis by simp
    qed
    show "got ?low q \<le> got idx y" if "q \<in> set path" "u \<in> set stack - set path" "charged idx path q u" "(u, y) \<in> E" "y \<in> set stack"
      for q u y using low_covers [OF that] le [of q] by linarith
  qed (fact numbers injective stack_order path_order stack_found path_stack bottom closed explored above below)+
qed

section \<open>The edges of the top are done\<close>

text \<open>No edge from the top or from what is charged to it goes below its low link.\<close>

lemma segment:
  assumes p: "path = v # ps" and done_edges: "\<And>w. (v, w) \<in> E \<Longrightarrow> w \<in> set stack \<Longrightarrow> got low v \<le> got idx w"
    and u: "u \<in> set stack" "got idx v \<le> got idx u" and w: "(u, w) \<in> E" "w \<in> set stack"
  shows "got low v \<le> got idx w"
proof (cases "u = v")
  case True
  with done_edges w show ?thesis by blast
next
  case False
  have v: "v \<in> set stack" "v \<in> dom idx" "u \<in> dom idx" using p path_stack stack_found u by auto
  then have gt: "got idx v < got idx u" using injective [of v u] False u(2) by fastforce
  have "u \<notin> set path" using top_first [OF p] gt False p by fastforce
  moreover have "charged idx path v u" using gt top_first [OF p] p by (fastforce simp: charged_def)
  ultimately show ?thesis using low_covers [of v u w] p u(1) w by simp
qed

section \<open>Retiring the top\<close>

lemma retire:
  assumes p: "path = v # q # ps" and found: "\<And>w. (v, w) \<in> E \<Longrightarrow> w \<in> dom idx"
    and done_edges: "\<And>w. (v, w) \<in> E \<Longrightarrow> w \<in> set stack \<Longrightarrow> got low v \<le> got idx w"
    and link: "got low v < got idx v"
  shows "search_state E idx (low(q \<mapsto> min (got low q) (got low v))) counter stack (q # ps)"
proof -
  let ?low = "low(q \<mapsto> min (got low q) (got low v))"
  have v: "v \<in> set path" "v \<in> set stack" "q \<in> set path" "q \<in> set stack" "q \<in> dom idx" "v \<in> dom idx"
    using p path_stack stack_found by auto
  have qv: "got idx q < got idx v" using top_first [OF p] by simp
  have le: "got ?low x \<le> got low x" for x by simp
  have grays: "set path = insert v (set (q # ps))" "v \<notin> set (q # ps)" using p top_first [OF p] by fastforce+
  show ?thesis
  proof
    show "dom ?low = dom idx" using v low_dom by auto
    show "sorted_wrt (\<lambda>v w. got idx v > got idx w) (q # ps)" using path_order p by simp
    show "set (q # ps) \<subseteq> set stack" using path_stack p by auto
    show "q # ps \<noteq> [] \<and> got idx (last (q # ps)) \<le> got idx y" if "y \<in> set stack" for y using bottom [OF that] p by simp
    show "w \<in> dom idx" if "u \<in> set stack - set (q # ps)" "(u, w) \<in> E" for u w
      using explored [of u w] that found grays by (cases "u = v") auto
    show "(p, y) \<in> E\<^sup>*" if "p \<in> set (q # ps)" "y \<in> set stack" "got idx p \<le> got idx y" for p y
      using above [of p y] that grays by auto
    show "\<exists>y \<in> set stack. got idx y < got idx x \<and> (x, y) \<in> E\<^sup>*" if "x \<in> set stack - set (q # ps)" for x
    proof (cases "x = v")
      case True
      with low_reached [OF v(2)] link show ?thesis by metis
    next
      case False
      with below [of x] that grays show ?thesis by auto
    qed
    show "got ?low x \<le> got idx x" if "x \<in> set stack" for x
      using low_le [OF that] le [of x] by linarith
    show "\<exists>y \<in> set stack. got idx y = got ?low x \<and> (x, y) \<in> E\<^sup>*" if "x \<in> set stack" for x
    proof (cases "x = q \<and> got low v \<le> got low q")
      case True
      from low_reached [OF v(2)] obtain y where y: "y \<in> set stack" "got idx y = got low v" "(v, y) \<in> E\<^sup>*" by blast
      moreover have "(q, v) \<in> E\<^sup>*" using above [of q v] v qv by simp
      ultimately show ?thesis using True by (intro bexI [of _ y]) auto
    next
      case False
      then have "got ?low x = got low x" by auto
      with low_reached [OF that] show ?thesis by simp
    qed
    show "got ?low r \<le> got idx w" if r: "r \<in> set (q # ps)" and u: "u \<in> set stack - set (q # ps)" and c: "charged idx (q # ps) r u"
      and w: "(u, w) \<in> E" "w \<in> set stack" for r u w
    proof (cases "got idx v \<le> got idx u")
      case True
      then have "got idx q \<le> got idx r" using c qv by (auto simp: charged_def)
      then have "r = q" using r path_order p by fastforce
      moreover have "got low v \<le> got idx w" by (rule segment [OF p done_edges]) (use True u w in auto)
      ultimately show ?thesis by auto
    next
      case False
      then have "charged idx path r u" "u \<noteq> v" using c grays by (auto simp: charged_def)
      then have "got low r \<le> got idx w" using low_covers [of r u w] r u w grays by auto
      with le [of r] show ?thesis by linarith
    qed
  qed (fact numbers injective stack_order stack_found closed)+
qed

section \<open>Closing a component\<close>

lemma close:
  assumes p: "path = v # ps" and found: "\<And>w. (v, w) \<in> E \<Longrightarrow> w \<in> dom idx"
    and done_edges: "\<And>w. (v, w) \<in> E \<Longrightarrow> w \<in> set stack \<Longrightarrow> got low v \<le> got idx w"
    and link: "got low v = got idx v" and stack: "stack = seg @ v # rest"
  shows "search_state E idx low counter rest ps" "set (seg @ [v]) = scc E v"
proof -
  have order: "\<And>x. x \<in> set seg \<Longrightarrow> got idx v < got idx x" "\<And>x. x \<in> set rest \<Longrightarrow> got idx x < got idx v"
    "\<And>x y. x \<in> set seg \<Longrightarrow> y \<in> set rest \<Longrightarrow> got idx y < got idx x"
    using stack_order stack by (auto simp: sorted_wrt_append)
  define S where "S = set (seg @ [v])"
  have seg: "x \<in> S \<longleftrightarrow> x \<in> set stack \<and> got idx v \<le> got idx x" for x
    using stack order(1,2) unfolding S_def by (fastforce simp: less_imp_le)
  have rest: "x \<in> set rest \<longleftrightarrow> x \<in> set stack \<and> got idx x < got idx v" for x
    using stack order(1,2) by fastforce
  have grays: "set ps \<subseteq> set rest" "v \<notin> set ps"
    using top_first [OF p] path_stack p by (auto simp: rest)
  have out: "w \<in> S \<union> (dom idx - set stack)" if u: "u \<in> S" and w: "(u, w) \<in> E" for u w
  proof -
    have us: "u \<in> set stack" "got idx v \<le> got idx u" using u by (simp_all add: seg)
    have "u \<in> set stack - set path \<or> u = v"
      using us top_first [OF p] p by fastforce
    then have "w \<in> dom idx" using explored [of u w] found w by blast
    moreover have "w \<in> S" if "w \<in> set stack"
      using segment [OF p done_edges us w that] link that by (simp add: seg)
    ultimately show ?thesis by blast
  qed
  have closed': "w \<in> S \<union> (dom idx - set stack)" if "u \<in> S \<union> (dom idx - set stack)" "(u, w) \<in> E" for u w
    using out closed that by blast
  have home: "x \<in> S \<Longrightarrow> (x, v) \<in> E\<^sup>*" for x
  proof (induction "got idx x" arbitrary: x rule: less_induct)
    case less
    show ?case
    proof (cases "x = v")
      case False
      have xs: "x \<in> set stack" "got idx v \<le> got idx x" using less.prems by (simp_all add: seg)
      then have "x \<in> set stack - set path" using top_first [OF p] p False by fastforce
      from below [OF this] obtain y where y: "y \<in> set stack" "got idx y < got idx x" "(x, y) \<in> E\<^sup>*" by blast
      have "y \<in> S \<union> (dom idx - set stack)" by (rule closed_reach [OF closed' y(3)]) (use less.prems in auto)
      with y less.hyps [OF y(2)] show ?thesis by (meson DiffD2 UnE rtrancl_trans)
    qed simp
  qed
  have forth: "x \<in> S \<Longrightarrow> (v, x) \<in> E\<^sup>*" for x using above [of v x] p by (simp add: seg)
  show "set (seg @ [v]) = scc E v"
  proof
    show "set (seg @ [v]) \<subseteq> scc E v" using home forth by (auto simp: scc_def S_def)
    have "x \<in> S" if x: "(v, x) \<in> E\<^sup>*" "(x, v) \<in> E\<^sup>*" for x
    proof (rule ccontr)
      assume no: "x \<notin> S"
      have "x \<in> S \<union> (dom idx - set stack)" by (rule closed_reach [OF closed' x(1)]) (simp_all add: S_def)
      with no have "x \<in> dom idx - set stack" by blast
      then have "v \<in> dom idx - set stack" using closed_reach [of "dom idx - set stack" E x v] closed x(2) by blast
      then show False using stack by simp
    qed
    then show "scc E v \<subseteq> set (seg @ [v])" by (auto simp: scc_def S_def)
  qed
  show "search_state E idx low counter rest ps"
  proof
    show "sorted_wrt (\<lambda>v w. got idx v > got idx w) rest" using stack_order stack by (simp add: sorted_wrt_append)
    show "sorted_wrt (\<lambda>v w. got idx v > got idx w) ps" using path_order p by simp
    show "set rest \<subseteq> dom idx" using stack_found stack by auto
    show "set ps \<subseteq> set rest" by (fact grays)
    show "ps \<noteq> [] \<and> got idx (last ps) \<le> got idx y" if "y \<in> set rest" for y
      using bottom [of y] that p order(2) [OF that] stack by (cases "ps = []") auto
    show "w \<in> dom idx - set rest" if "u \<in> dom idx - set rest" "(u, w) \<in> E" for u w
    proof -
      have "u \<in> S \<union> (dom idx - set stack)" using that(1) stack S_def by auto
      from closed' [OF this that(2)] show ?thesis using stack_found by (auto simp: seg rest)
    qed
    show "w \<in> dom idx" if "u \<in> set rest - set ps" "(u, w) \<in> E" for u w
      using explored [of u w] that p by (auto simp: rest)
    show "(q, y) \<in> E\<^sup>*" if "q \<in> set ps" "y \<in> set rest" "got idx q \<le> got idx y" for q y
      using above [of q y] that p by (auto simp: rest)
    show "\<exists>y \<in> set rest. got idx y < got idx x \<and> (x, y) \<in> E\<^sup>*" if "x \<in> set rest - set ps" for x
      using below [of x] that p by (fastforce simp: rest)
    show "got low x \<le> got idx x" if "x \<in> set rest" for x using low_le [of x] that by (simp add: rest)
    show "\<exists>y \<in> set rest. got idx y = got low x \<and> (x, y) \<in> E\<^sup>*" if "x \<in> set rest" for x
      using low_reached [of x] low_le [of x] that by (fastforce simp: rest)
    show "got low q \<le> got idx w" if "q \<in> set ps" "u \<in> set rest - set ps" "charged idx ps q u" "(u, w) \<in> E" "w \<in> set rest" for q u w
    proof -
      have "charged idx path q u" using that p by (auto simp: charged_def rest)
      with low_covers [of q u w] that p show ?thesis by (auto simp: rest)
    qed
  qed (fact low_dom numbers injective)+
qed

end

end
