(* ===== verification/Graph_Components.thy ===== *)
theory Graph_Components
  imports Components_Core Utf8 "HOL-Library.While_Combinator"
begin

text \<open>
  \<open>computeStronglyConnectedComponents\<close> of graph-index.ts: Tarjan's search with an explicit stack of
  frames. The loop over the frames is a \<open>while\<close> that need not end on an infinite graph, so its result
  is an option; on a graph with finitely many edge targets it returns exactly the components with
  more than one node.
\<close>

section \<open>The search\<close>

record TarjanFrame =
  tf_node :: js_string
  tf_edgeIndex :: nat
  tf_edges :: "js_string list"

record TarjanState =
  tj_indexOf :: "js_string \<rightharpoonup> nat"
  tj_lowLink :: "js_string \<rightharpoonup> nat"
  tj_onStack :: "js_string set"
  tj_stack :: "js_string list"
  tj_components :: "js_string list list"
  tj_counter :: nat
  tj_work :: "TarjanFrame list"

definition tarjan_start :: TarjanState where
  "tarjan_start = \<lparr>tj_indexOf = Map.empty, tj_lowLink = Map.empty, tj_onStack = {}, tj_stack = [],
     tj_components = [], tj_counter = 0, tj_work = []\<rparr>"

text \<open>The stacks have their top first. A node is numbered, put on both stacks and its edges are read.\<close>

definition tarjan_push :: "(js_string \<Rightarrow> js_string list) \<Rightarrow> js_string \<Rightarrow> TarjanState \<Rightarrow> TarjanState" where
  "tarjan_push outgoingOf next s = s\<lparr>
     tj_indexOf := (tj_indexOf s)(next \<mapsto> tj_counter s),
     tj_lowLink := (tj_lowLink s)(next \<mapsto> tj_counter s),
     tj_counter := tj_counter s + 1,
     tj_stack := next # tj_stack s,
     tj_onStack := insert next (tj_onStack s),
     tj_work := \<lparr>tf_node = next, tf_edgeIndex = 0, tf_edges = outgoingOf next\<rparr> # tj_work s\<rparr>"

fun pop_component :: "js_string \<Rightarrow> js_string list \<Rightarrow> js_string set \<Rightarrow> js_string list
    \<Rightarrow> js_string list \<times> js_string set \<times> js_string list" where
  "pop_component node [] onStack component = ([], onStack, component)"
| "pop_component node (popped # stack) onStack component =
     (if popped = node then (stack, onStack - {popped}, component @ [popped])
      else pop_component node stack (onStack - {popped}) (component @ [popped]))"

definition lower_link :: "js_string \<Rightarrow> nat \<Rightarrow> TarjanState \<Rightarrow> TarjanState" where
  "lower_link node value s = s\<lparr>tj_lowLink := (tj_lowLink s)(node \<mapsto> min (got (tj_lowLink s) node) value)\<rparr>"

text \<open>The body of the loop for a frame with an edge left. An empty target is skipped.\<close>

definition tarjan_edge :: "(js_string \<Rightarrow> js_string list) \<Rightarrow> TarjanFrame \<Rightarrow> TarjanFrame list \<Rightarrow> TarjanState \<Rightarrow> TarjanState" where
  "tarjan_edge outgoingOf frame rest s =
    (let next = tf_edges frame ! tf_edgeIndex frame;
         s = s\<lparr>tj_work := frame\<lparr>tf_edgeIndex := tf_edgeIndex frame + 1\<rparr> # rest\<rparr> in
     if next = [] then s
     else if tj_indexOf s next = None then tarjan_push outgoingOf next s
     else if next \<in> tj_onStack s then lower_link (tf_node frame) (got (tj_indexOf s) next) s
     else s)"

text \<open>The body for a frame whose edges are done.\<close>

definition tarjan_retire :: "TarjanFrame \<Rightarrow> TarjanFrame list \<Rightarrow> TarjanState \<Rightarrow> TarjanState" where
  "tarjan_retire frame rest s =
    (let s = s\<lparr>tj_work := rest\<rparr>;
         s = (case rest of [] \<Rightarrow> s | parent # _ \<Rightarrow> lower_link (tf_node parent) (got (tj_lowLink s) (tf_node frame)) s) in
     if tj_lowLink s (tf_node frame) = tj_indexOf s (tf_node frame) then
       let (stack, onStack, component) = pop_component (tf_node frame) (tj_stack s) (tj_onStack s) [] in
       s\<lparr>tj_stack := stack, tj_onStack := onStack,
         tj_components := tj_components s @ (if length component > 1 then [sort component] else [])\<rparr>
     else s)"

definition tarjan_step :: "(js_string \<Rightarrow> js_string list) \<Rightarrow> TarjanState \<Rightarrow> TarjanState" where
  "tarjan_step outgoingOf s = (case tj_work s of [] \<Rightarrow> s
     | frame # rest \<Rightarrow> if tf_edgeIndex frame < length (tf_edges frame) then tarjan_edge outgoingOf frame rest s
         else tarjan_retire frame rest s)"

fun tarjan_search :: "(js_string \<Rightarrow> js_string list) \<Rightarrow> js_string list \<Rightarrow> TarjanState \<Rightarrow> TarjanState option" where
  "tarjan_search outgoingOf [] s = Some s"
| "tarjan_search outgoingOf (start # starts) s =
    (if tj_indexOf s start \<noteq> None then tarjan_search outgoingOf starts s
     else Option.bind (while_option (\<lambda>s. tj_work s \<noteq> []) (tarjan_step outgoingOf) (tarjan_push outgoingOf start s))
       (tarjan_search outgoingOf starts))"

text \<open>
  \<open>localeCompare\<close> compares by the collation of the host, given here as the key \<open>collate\<close> by which it
  orders.
\<close>

definition computeStronglyConnectedComponents ::
  "(js_string \<Rightarrow> 'k::linorder) \<Rightarrow> js_string list \<Rightarrow> (js_string \<Rightarrow> js_string list) \<Rightarrow> js_string list list option" where
  "computeStronglyConnectedComponents collate nodeIds outgoingOf =
     map_option (\<lambda>s. sort_key (\<lambda>c. collate (c ! 0)) (tj_components s)) (tarjan_search outgoingOf nodeIds tarjan_start)"

section \<open>The invariant of the loop\<close>

definition graph_edges :: "(js_string \<Rightarrow> js_string list) \<Rightarrow> (js_string \<times> js_string) set" where
  "graph_edges outgoingOf = {(u, w). w \<in> set (outgoingOf u) \<and> w \<noteq> []}"

definition read_targets :: "TarjanFrame \<Rightarrow> js_string set" where
  "read_targets f = set (take (tf_edgeIndex f) (tf_edges f)) - {[]}"

definition frame_ok :: "(js_string \<Rightarrow> js_string list) \<Rightarrow> TarjanState \<Rightarrow> TarjanFrame \<Rightarrow> bool" where
  "frame_ok outgoingOf s f \<longleftrightarrow> tf_edges f = outgoingOf (tf_node f) \<and> tf_edgeIndex f \<le> length (tf_edges f)
     \<and> (\<forall>w \<in> read_targets f. w \<in> dom (tj_indexOf s)
         \<and> (w \<in> set (tj_stack s) \<longrightarrow> got (tj_lowLink s) (tf_node f) \<le> got (tj_indexOf s) w))"

definition closed_under :: "('a \<times> 'a) set \<Rightarrow> 'a set \<Rightarrow> bool" where
  "closed_under E R \<longleftrightarrow> (\<forall>u w. u \<in> R \<longrightarrow> (u, w) \<in> E \<longrightarrow> w \<in> R)"

text \<open>The components of the nodes that have left the stack.\<close>

definition components_ok :: "(js_string \<Rightarrow> js_string list) \<Rightarrow> js_string set \<Rightarrow> js_string list list \<Rightarrow> bool" where
  "components_ok outgoingOf nodes cs \<longleftrightarrow> distinct cs \<and>
     set cs = {sorted_list_of_set (scc (graph_edges outgoingOf) u) | u. u \<in> nodes \<and> 1 < card (scc (graph_edges outgoingOf) u)}"

definition tarjan_ok :: "(js_string \<Rightarrow> js_string list) \<Rightarrow> js_string set \<Rightarrow> TarjanState \<Rightarrow> bool" where
  "tarjan_ok outgoingOf R s \<longleftrightarrow>
     search_state (graph_edges outgoingOf) (tj_indexOf s) (tj_lowLink s) (tj_counter s) (tj_stack s) (map tf_node (tj_work s))
   \<and> tj_onStack s = set (tj_stack s) \<and> list_all (frame_ok outgoingOf s) (tj_work s)
   \<and> components_ok outgoingOf (dom (tj_indexOf s) - set (tj_stack s)) (tj_components s)
   \<and> dom (tj_indexOf s) \<subseteq> R"

lemma tarjan_state: "tarjan_ok out R s \<Longrightarrow>
    search_state (graph_edges out) (tj_indexOf s) (tj_lowLink s) (tj_counter s) (tj_stack s) (map tf_node (tj_work s))"
  by (simp add: tarjan_ok_def)

interpretation unsearched: search_state "graph_edges out" "tj_indexOf tarjan_start" "tj_lowLink tarjan_start"
    "tj_counter tarjan_start" "tj_stack tarjan_start" "map tf_node (tj_work tarjan_start)" for out
  using search_start by (simp add: tarjan_start_def)

section \<open>Every step keeps the invariant\<close>

lemma component_swap: "dom (m(n \<mapsto> c)) - set (n # stack) = dom m - set stack" if "n \<notin> dom m" "set stack \<subseteq> dom m"
  using that by auto

lemma push_ok:
  assumes ok: "search_state (graph_edges out) (tj_indexOf s) (tj_lowLink s) (tj_counter s) (tj_stack s) (map tf_node (tj_work s))"
    and stack: "tj_onStack s = set (tj_stack s)" and comps: "components_ok out (dom (tj_indexOf s) - set (tj_stack s)) (tj_components s)"
    and R: "dom (tj_indexOf s) \<subseteq> R" "n \<in> R" and new: "n \<notin> dom (tj_indexOf s)"
    and top: "tj_work s = [] \<and> tj_stack s = [] \<or> (\<exists>f fs. tj_work s = f # fs \<and> (tf_node f, n) \<in> graph_edges out)"
    and frames: "\<And>f w. f \<in> set (tj_work s) \<Longrightarrow> w \<in> read_targets f \<Longrightarrow> w = n \<or> w \<in> dom (tj_indexOf s)
         \<and> (w \<in> set (tj_stack s) \<longrightarrow> got (tj_lowLink s) (tf_node f) \<le> got (tj_indexOf s) w)"
      "\<And>f. f \<in> set (tj_work s) \<Longrightarrow> tf_edges f = out (tf_node f) \<and> tf_edgeIndex f \<le> length (tf_edges f)"
  shows "tarjan_ok out R (tarjan_push out n s)"
proof -
  note st = ok
  let ?s = "tarjan_push out n s"
  have "search_state (graph_edges out) (tj_indexOf ?s) (tj_lowLink ?s) (tj_counter ?s) (tj_stack ?s) (map tf_node (tj_work ?s))"
    using search_state.discover [OF st new] top by (auto simp: tarjan_push_def)
  moreover have "frame_ok out ?s f" if f: "f \<in> set (tj_work s)" for f
  proof -
    have node: "tf_node f \<in> dom (tj_indexOf s)" "tf_node f \<in> set (tj_stack s)" using search_state.path_found [OF st] search_state.path_stack [OF st] f by auto
    then have "tf_node f \<noteq> n" "got (tj_lowLink s) (tf_node f) \<le> tj_counter s"
      using new search_state.low_le [OF st node(2)] search_state.numbers [OF st node(1)] by auto
    then have "w \<in> dom (tj_indexOf ?s) \<and> (w \<in> set (tj_stack ?s) \<longrightarrow> got (tj_lowLink ?s) (tf_node f) \<le> got (tj_indexOf ?s) w)"
      if "w \<in> read_targets f" for w
      using frames(1) [OF f that] by (cases "w = n") (auto simp: tarjan_push_def)
    then show ?thesis using frames(2) [OF f] unfolding frame_ok_def by auto
  qed
  moreover have "components_ok out (dom (tj_indexOf ?s) - set (tj_stack ?s)) (tj_components ?s)"
    using comps component_swap [OF new search_state.stack_found [OF st]] by (simp add: tarjan_push_def)
  moreover have "dom (tj_indexOf ?s) \<subseteq> R" using R by (simp add: tarjan_push_def)
  moreover have "frame_ok out ?s \<lparr>tf_node = n, tf_edgeIndex = 0, tf_edges = out n\<rparr>" by (simp add: frame_ok_def read_targets_def)
  moreover have "tj_work ?s = \<lparr>tf_node = n, tf_edgeIndex = 0, tf_edges = out n\<rparr> # tj_work s" "tj_onStack ?s = set (tj_stack ?s)"
    using stack by (simp_all add: tarjan_push_def)
  ultimately show ?thesis unfolding tarjan_ok_def by (simp add: list_all_iff)
qed

lemma next_target:
  assumes "frame_ok out s f" "tf_edgeIndex f < length (tf_edges f)"
  shows "read_targets (f\<lparr>tf_edgeIndex := tf_edgeIndex f + 1\<rparr>) = insert (tf_edges f ! tf_edgeIndex f) (read_targets f) - {[]}"
    "tf_edges f ! tf_edgeIndex f \<noteq> [] \<Longrightarrow> (tf_node f, tf_edges f ! tf_edgeIndex f) \<in> graph_edges out"
  using assms by (auto simp: frame_ok_def read_targets_def graph_edges_def take_Suc_conv_app_nth)

lemma edge_ok:
  assumes ok: "tarjan_ok out R s" and work: "tj_work s = f # fs" and more: "tf_edgeIndex f < length (tf_edges f)"
    and R: "closed_under (graph_edges out) R"
  shows "tarjan_ok out R (tarjan_edge out f fs s)"
proof -
  note st = tarjan_state [OF ok]
  let ?n = "tf_edges f ! tf_edgeIndex f" and ?f = "f\<lparr>tf_edgeIndex := tf_edgeIndex f + 1\<rparr>"
  let ?s = "s\<lparr>tj_work := ?f # fs\<rparr>"
  have fok: "frame_ok out s f" and fsok: "\<forall>g \<in> set fs. frame_ok out s g" and stack: "tj_onStack s = set (tj_stack s)"
    using ok work by (simp_all add: tarjan_ok_def list_all_iff)
  have node: "tf_node f \<in> set (tj_stack s)" "tf_node f \<in> dom (tj_indexOf s)" using search_state.path_stack [OF st] search_state.path_found [OF st] work by auto
  note target = next_target [OF fok more]
  have path: "map tf_node (tj_work ?s) = map tf_node (tj_work s)" using work by simp
  have same: "tarjan_ok out R ?s" if "?n = [] \<or> ?n \<in> dom (tj_indexOf s) \<and> ?n \<notin> set (tj_stack s)"
  proof -
    have "frame_ok out s ?f" using fok more that target(1) unfolding frame_ok_def by auto
    with ok work fsok path show ?thesis by (auto simp: tarjan_ok_def list_all_iff frame_ok_def)
  qed
  show ?thesis
  proof (cases "?n = []")
    case True
    then show ?thesis using same by (simp add: tarjan_edge_def Let_def)
  next
    case named: False
    note edge = target(2) [OF named]
    show ?thesis
    proof (cases "tj_indexOf s ?n")
      case None
      have "tarjan_ok out R (tarjan_push out ?n ?s)"
      proof (rule push_ok)
        show "search_state (graph_edges out) (tj_indexOf ?s) (tj_lowLink ?s) (tj_counter ?s) (tj_stack ?s) (map tf_node (tj_work ?s))"
          using path st by simp
        show "?n \<in> R" using R edge node(2) ok by (auto simp: tarjan_ok_def closed_under_def)
        show "w = ?n \<or> w \<in> dom (tj_indexOf ?s) \<and> (w \<in> set (tj_stack ?s) \<longrightarrow> got (tj_lowLink ?s) (tf_node g) \<le> got (tj_indexOf ?s) w)"
          if "g \<in> set (tj_work ?s)" "w \<in> read_targets g" for g w
          using that fok fsok target(1) by (fastforce simp: frame_ok_def)
        show "tf_edges g = out (tf_node g) \<and> tf_edgeIndex g \<le> length (tf_edges g)" if "g \<in> set (tj_work ?s)" for g
          using that fok fsok more by (auto simp: frame_ok_def)
      qed (use ok None edge in \<open>auto simp: tarjan_ok_def\<close>)
      with None named show ?thesis by (simp add: tarjan_edge_def Let_def)
    next
      case found: (Some i)
      show ?thesis
      proof (cases "?n \<in> set (tj_stack s)")
        case False
        then show ?thesis using same found stack named by (auto simp: tarjan_edge_def Let_def)
      next
        case True
        let ?t = "lower_link (tf_node f) (got (tj_indexOf s) ?n) ?s"
        have "search_state (graph_edges out) (tj_indexOf ?t) (tj_lowLink ?t) (tj_counter ?t) (tj_stack ?t) (map tf_node (tj_work ?t))"
          using search_state.lower [OF st _ True edge] work by (simp add: lower_link_def)
        moreover have "frame_ok out ?t ?f" using fok more target(1) found True by (auto simp: frame_ok_def lower_link_def)
        moreover have "frame_ok out ?t g" if "g \<in> set fs" for g
        proof -
          have "tf_node g \<noteq> tf_node f" using search_state.path_order [OF st] that work by fastforce
          with fsok that show ?thesis by (auto simp: frame_ok_def lower_link_def)
        qed
        ultimately have "tarjan_ok out R ?t" using ok by (auto simp: tarjan_ok_def list_all_iff lower_link_def)
        then show ?thesis using True found stack named by (simp add: tarjan_edge_def Let_def)
      qed
    qed
  qed
qed

section \<open>Retiring a frame\<close>

lemma pop_component_segment:
  "v \<notin> set seg \<Longrightarrow> pop_component v (seg @ v # rest) onStack cs = (rest, onStack - set (seg @ [v]), cs @ seg @ [v])"
  by (induction seg arbitrary: onStack cs) auto

lemma ordered_distinct: "sorted_wrt P xs \<Longrightarrow> (\<And>x. \<not> P x x) \<Longrightarrow> distinct xs"
  by (induction xs) auto

lemma components_close:
  assumes cs: "components_ok out D cs" and closed: "\<And>u w. u \<in> D \<Longrightarrow> (u, w) \<in> graph_edges out \<Longrightarrow> w \<in> D"
    and comp: "set component = scc (graph_edges out) v" "distinct component" "v \<notin> D"
  shows "components_ok out (D \<union> set component) (cs @ (if length component > 1 then [sort component] else []))"
proof -
  let ?E = "graph_edges out"
  have size: "card (scc ?E v) = length component" using comp(1,2) distinct_card by metis
  have list: "sort component = sorted_list_of_set (scc ?E v)"
    using comp(1,2) sorted_list_of_set_sort_remdups [of component] by (simp add: distinct_remdups_id)
  have same: "scc ?E u = scc ?E v" if "u \<in> set component" for u using that comp(1) scc_eq by metis
  have other: "sorted_list_of_set (scc ?E u) \<noteq> sorted_list_of_set (scc ?E v)" if u: "u \<in> D" "1 < card (scc ?E u)" for u
  proof
    assume eq: "sorted_list_of_set (scc ?E u) = sorted_list_of_set (scc ?E v)"
    have fin: "finite (scc ?E u)" "finite (scc ?E v)" using u(2) card_gt_0_iff [of "scc ?E u"] comp(1) by (auto, metis List.finite_set)
    then have "scc ?E u = scc ?E v" using eq sorted_list_of_set_inject by blast
    then have "(u, v) \<in> ?E\<^sup>*" by (metis (mono_tags, lifting) mem_Collect_eq scc_def scc_self)
    then have "v \<in> D" using closed_reach [of D ?E u v] closed u(1) by blast
    with comp(3) show False by simp
  qed
  have v: "v \<in> set component" using comp(1) by simp
  let ?f = "\<lambda>u. sorted_list_of_set (scc ?E u)" and ?P = "\<lambda>u. 1 < card (scc ?E u)"
  have "{?f u | u. u \<in> set component \<and> ?P u} = {?f v | u. u \<in> set component \<and> ?P v}"
    by (rule Collect_cong) (metis same)
  also have "\<dots> = (if length component > 1 then {sort component} else {})"
    using v size list by (auto simp del: sorted_list_of_set_sort_remdups)
  finally have "{?f u | u. u \<in> D \<union> set component \<and> ?P u}
    = {?f u | u. u \<in> D \<and> ?P u} \<union> (if length component > 1 then {sort component} else {})" by blast
  moreover have "sort component \<notin> set cs"
  proof
    assume "sort component \<in> set cs"
    then obtain u where u: "u \<in> D" "1 < card (scc ?E u)" "?f u = sort component"
      using cs unfolding components_ok_def by force
    from other [OF u(1,2)] u(3) list show False by simp
  qed
  ultimately show ?thesis using cs by (auto simp: components_ok_def)
qed

lemma close_ok:
  assumes ok: "tarjan_ok out R s" and work: "tj_work s = f # fs"
    and found: "\<And>w. (tf_node f, w) \<in> graph_edges out \<Longrightarrow> w \<in> dom (tj_indexOf s)"
    and done_edges: "\<And>w. (tf_node f, w) \<in> graph_edges out \<Longrightarrow> w \<in> set (tj_stack s) \<Longrightarrow> got (tj_lowLink s) (tf_node f) \<le> got (tj_indexOf s) w"
    and link: "got (tj_lowLink s) (tf_node f) = got (tj_indexOf s) (tf_node f)"
    and pop: "pop_component (tf_node f) (tj_stack s) (tj_onStack s) [] = (stack, onStack, component)"
  shows "tarjan_ok out R (s\<lparr>tj_work := fs, tj_stack := stack, tj_onStack := onStack,
    tj_components := tj_components s @ (if length component > 1 then [sort component] else [])\<rparr>)"
proof -
  note st = tarjan_state [OF ok]
  let ?v = "tf_node f"
  have distinct: "distinct (tj_stack s)"
    using search_state.stack_order [OF st] by (rule ordered_distinct) simp
  have "?v \<in> set (tj_stack s)" using search_state.path_stack [OF st] work by simp
  then obtain seg rest where split: "tj_stack s = seg @ ?v # rest" by (auto dest: split_list)
  then have "?v \<notin> set seg" using distinct by simp
  then have "pop_component ?v (tj_stack s) (tj_onStack s) [] = (rest, tj_onStack s - set (seg @ [?v]), seg @ [?v])"
    unfolding split by (simp add: pop_component_segment)
  with pop have p: "stack = rest" "onStack = set (tj_stack s) - set (seg @ [?v])" "component = seg @ [?v]"
    using ok unfolding tarjan_ok_def by auto
  note closed = search_state.close [OF st _ found done_edges link split, of "map tf_node fs"]
  have "search_state (graph_edges out) (tj_indexOf s) (tj_lowLink s) (tj_counter s) rest (map tf_node fs)"
    and comp: "set component = scc (graph_edges out) ?v" using closed work p(3) by simp_all
  moreover have "onStack = set rest" unfolding p split using distinct split by auto
  moreover have "dom (tj_indexOf s) - set rest = (dom (tj_indexOf s) - set (tj_stack s)) \<union> set component"
    using search_state.stack_found [OF st] distinct split p(3) by auto
  moreover have "components_ok out ((dom (tj_indexOf s) - set (tj_stack s)) \<union> set component)
      (tj_components s @ (if length component > 1 then [sort component] else []))"
  proof (rule components_close [OF _ _ comp])
    show "components_ok out (dom (tj_indexOf s) - set (tj_stack s)) (tj_components s)" using ok by (simp add: tarjan_ok_def)
    show "distinct component" "?v \<notin> dom (tj_indexOf s) - set (tj_stack s)" using distinct split p(3) by simp_all
  qed (fact search_state.closed [OF st])
  moreover have "frame_ok out (s\<lparr>tj_work := fs, tj_stack := rest, tj_onStack := os, tj_components := cs\<rparr>) g" if "g \<in> set fs" for os cs g
    using ok work split that by (auto simp: tarjan_ok_def list_all_iff frame_ok_def)
  ultimately show ?thesis using ok p(1) by (simp add: tarjan_ok_def list_all_iff)
qed

lemma retire_ok:
  assumes ok: "tarjan_ok out R s" and work: "tj_work s = f # fs" and no_more: "\<not> tf_edgeIndex f < length (tf_edges f)"
  shows "tarjan_ok out R (tarjan_retire f fs s)"
proof -
  note st = tarjan_state [OF ok]
  let ?v = "tf_node f"
  have fok: "frame_ok out s f" and fsok: "\<forall>g \<in> set fs. frame_ok out s g" using ok work by (simp_all add: tarjan_ok_def list_all_iff)
  then have "w \<in> read_targets f" if "(?v, w) \<in> graph_edges out" for w
    using that no_more by (simp add: frame_ok_def read_targets_def graph_edges_def)
  with fok have found: "\<And>w. (?v, w) \<in> graph_edges out \<Longrightarrow> w \<in> dom (tj_indexOf s)"
    and done_edges: "\<And>w. (?v, w) \<in> graph_edges out \<Longrightarrow> w \<in> set (tj_stack s) \<Longrightarrow> got (tj_lowLink s) ?v \<le> got (tj_indexOf s) w"
    by (simp_all add: frame_ok_def)
  have v: "?v \<in> set (tj_stack s)" "?v \<in> dom (tj_indexOf s)" "?v \<in> dom (tj_lowLink s)"
    using search_state.path_stack [OF st] search_state.path_found [OF st, of ?v] search_state.low_dom [OF st] work by auto
  have same: "tj_lowLink s ?v = tj_indexOf s ?v \<longleftrightarrow> got (tj_lowLink s) ?v = got (tj_indexOf s) ?v"
    using v by (auto simp: got_def)
  obtain stack onStack component where pop: "pop_component ?v (tj_stack s) (tj_onStack s) [] = (stack, onStack, component)"
    using prod_cases3 by blast
  note closing = close_ok [OF ok work found done_edges _ pop]
  show ?thesis
  proof (cases fs)
    case Nil
    obtain y where y: "y \<in> set (tj_stack s)" "got (tj_indexOf s) y = got (tj_lowLink s) ?v" using search_state.low_reached [OF st v(1)] by blast
    with search_state.bottom [OF st y(1)] work Nil search_state.low_le [OF st v(1)] have "got (tj_lowLink s) ?v = got (tj_indexOf s) ?v" by simp
    with closing same pop Nil show ?thesis by (simp add: tarjan_retire_def Let_def)
  next
    case (Cons g gs)
    let ?u = "tf_node g"
    have u: "?u \<noteq> ?v" "?u \<in> set (tj_stack s)" "?u \<in> dom (tj_lowLink s)" "got (tj_indexOf s) ?u < got (tj_indexOf s) ?v"
      using search_state.path_order [OF st] search_state.path_stack [OF st] search_state.path_found [OF st, of ?u] search_state.low_dom [OF st] work Cons by auto
    show ?thesis
    proof (cases "got (tj_lowLink s) ?v = got (tj_indexOf s) ?v")
      case True
      have "got (tj_lowLink s) ?u \<le> got (tj_lowLink s) ?v" using search_state.low_le [OF st u(2)] u(4) True by simp
      then have "(tj_lowLink s)(?u \<mapsto> min (got (tj_lowLink s) ?u) (got (tj_lowLink s) ?v)) = tj_lowLink s"
        using u(3) by (auto simp: got_def fun_eq_iff)
      then have "lower_link ?u (got (tj_lowLink s) ?v) (s\<lparr>tj_work := fs\<rparr>) = s\<lparr>tj_work := fs\<rparr>"
        by (simp add: lower_link_def)
      with closing True same pop Cons show ?thesis by (simp add: tarjan_retire_def Let_def)
    next
      case False
      then have link: "got (tj_lowLink s) ?v < got (tj_indexOf s) ?v" using search_state.low_le [OF st v(1)] by simp
      let ?s = "lower_link ?u (got (tj_lowLink s) ?v) (s\<lparr>tj_work := fs\<rparr>)"
      have "search_state (graph_edges out) (tj_indexOf ?s) (tj_lowLink ?s) (tj_counter ?s) (tj_stack ?s) (map tf_node (tj_work ?s))"
        using search_state.retire [OF st _ found done_edges link] work Cons by (simp add: lower_link_def)
      moreover have "list_all (frame_ok out ?s) fs"
        using fsok by (auto simp: list_all_iff frame_ok_def lower_link_def) (metis min.coboundedI1)
      ultimately have "tarjan_ok out R ?s" using ok by (simp add: tarjan_ok_def lower_link_def)
      moreover have "tj_lowLink ?s ?v \<noteq> tj_indexOf ?s ?v" using u(1) same False by (simp add: lower_link_def)
      ultimately show ?thesis using Cons by (simp add: tarjan_retire_def Let_def)
    qed
  qed
qed

lemma step_ok:
  assumes "tarjan_ok out R s" "closed_under (graph_edges out) R"
  shows "tarjan_ok out R (tarjan_step out s)"
  using assms edge_ok [OF assms(1)] retire_ok [OF assms(1)] by (auto simp: tarjan_step_def split: list.split)

section \<open>The loop ends\<close>

text \<open>A step discovers a node, reads an edge or retires a frame.\<close>

definition tarjan_measure :: "js_string set \<Rightarrow> TarjanState \<Rightarrow> nat \<times> nat" where
  "tarjan_measure R s = (card (R - dom (tj_indexOf s)),
     (\<Sum>f \<leftarrow> tj_work s. length (tf_edges f) - tf_edgeIndex f + 1))"

lemma retire_work: "tj_work (tarjan_retire f fs s) = fs" "tj_indexOf (tarjan_retire f fs s) = tj_indexOf s"
  by (auto simp: tarjan_retire_def lower_link_def Let_def split: list.splits prod.splits)

lemma step_measure:
  assumes ok: "tarjan_ok out R s" and R: "closed_under (graph_edges out) R" "finite R"
    and busy: "tj_work s \<noteq> []"
  shows "(tarjan_measure R (tarjan_step out s), tarjan_measure R s) \<in> less_than <*lex*> less_than"
proof -
  obtain f fs where work: "tj_work s = f # fs" using busy by (cases "tj_work s") auto
  show ?thesis
  proof (cases "tf_edgeIndex f < length (tf_edges f)")
    case False
    then show ?thesis using work by (simp add: tarjan_step_def tarjan_measure_def retire_work)
  next
    case more: True
    let ?n = "tf_edges f ! tf_edgeIndex f"
    have fok: "frame_ok out s f" using ok work by (simp add: tarjan_ok_def)
    have node: "tf_node f \<in> R"
    proof -
      note st = tarjan_state [OF ok]
      show ?thesis using ok work search_state.path_found [OF st, of "tf_node f"] by (auto simp: tarjan_ok_def)
    qed
    show ?thesis
    proof (cases "?n \<noteq> [] \<and> tj_indexOf s ?n = None")
      case True
      then have "?n \<in> R - dom (tj_indexOf s)" using R(1) node next_target(2) [OF fok more] by (auto simp: closed_under_def)
      then have "card (R - dom ((tj_indexOf s)(?n \<mapsto> tj_counter s))) < card (R - dom (tj_indexOf s))"
        using R(2) by (intro psubset_card_mono) auto
      with True work more show ?thesis
        by (simp add: tarjan_step_def tarjan_edge_def Let_def tarjan_measure_def tarjan_push_def)
    next
      case False
      then have "tj_indexOf (tarjan_step out s) = tj_indexOf s \<and> tj_work (tarjan_step out s) = f\<lparr>tf_edgeIndex := tf_edgeIndex f + 1\<rparr> # fs"
        using work more by (auto simp: tarjan_step_def tarjan_edge_def Let_def lower_link_def)
      with work more show ?thesis by (simp add: tarjan_measure_def)
    qed
  qed
qed

lemma step_numbers: "dom (tj_indexOf s) \<subseteq> dom (tj_indexOf (tarjan_step out s))"
  by (cases "tj_work s") (auto simp: tarjan_step_def tarjan_edge_def tarjan_push_def lower_link_def Let_def retire_work)

lemma loop_returns:
  assumes ok: "tarjan_ok out R s" and R: "closed_under (graph_edges out) R" "finite R"
  shows "\<exists>t. while_option (\<lambda>s. tj_work s \<noteq> []) (tarjan_step out) s = Some t \<and> tarjan_ok out R t \<and> tj_work t = []
    \<and> dom (tj_indexOf s) \<subseteq> dom (tj_indexOf t)"
proof -
  have "\<exists>t. while_option (\<lambda>s. tj_work s \<noteq> []) (tarjan_step out) s = Some t"
    by (rule wf_rel_while_option_Some [where R = "inv_image (less_than <*lex*> less_than) (tarjan_measure R)" and P = "tarjan_ok out R"])
      (use ok step_ok [OF _ R(1)] step_measure [OF _ R] in \<open>auto simp: wf_lex_prod\<close>)
  then obtain t where t: "while_option (\<lambda>s. tj_work s \<noteq> []) (tarjan_step out) s = Some t" ..
  moreover have "tarjan_ok out R t \<and> dom (tj_indexOf s) \<subseteq> dom (tj_indexOf t)"
    by (rule while_option_rule [OF _ t, of "\<lambda>t. tarjan_ok out R t \<and> dom (tj_indexOf s) \<subseteq> dom (tj_indexOf t)"])
      (use ok step_ok [OF _ R(1)] step_numbers in fast)+
  ultimately show ?thesis using while_option_stop [OF t] by auto
qed

lemma search_returns:
  assumes "tarjan_ok out R s" "tj_work s = []" "set starts \<subseteq> R"
    and R: "closed_under (graph_edges out) R" "finite R"
  shows "\<exists>t. tarjan_search out starts s = Some t \<and> tarjan_ok out R t \<and> tj_work t = []
    \<and> dom (tj_indexOf s) \<union> set starts \<subseteq> dom (tj_indexOf t)"
  using assms(1-3)
proof (induction starts arbitrary: s)
  case (Cons start starts)
  note st = tarjan_state [OF Cons.prems(1)]
  show ?case
  proof (cases "tj_indexOf s start")
    case None
    have "tj_stack s = []" using search_state.bottom [OF st] Cons.prems(2) by (cases "tj_stack s") auto
    with Cons.prems None have "tarjan_ok out R (tarjan_push out start s)"
      by (intro push_ok) (auto simp: tarjan_ok_def)
    from loop_returns [OF this R] obtain t where
      t: "while_option (\<lambda>s. tj_work s \<noteq> []) (tarjan_step out) (tarjan_push out start s) = Some t" "tarjan_ok out R t" "tj_work t = []"
        "dom (tj_indexOf (tarjan_push out start s)) \<subseteq> dom (tj_indexOf t)" by blast
    from Cons.IH [OF t(2,3)] Cons.prems(3) obtain r where
      r: "tarjan_search out starts t = Some r" "tarjan_ok out R r" "tj_work r = []" "dom (tj_indexOf t) \<union> set starts \<subseteq> dom (tj_indexOf r)"
      by auto
    have "dom (tj_indexOf s) \<union> set (start # starts) \<subseteq> dom (tj_indexOf r)" using t(4) r(4) by (auto simp: tarjan_push_def)
    with r(1-3) None t(1) show ?thesis by simp
  next
    case (Some i)
    with Cons.IH [OF Cons.prems(1,2)] Cons.prems(3) show ?thesis by fastforce
  qed
qed simp

section \<open>What the search returns\<close>

lemma start_ok: "tarjan_ok out R tarjan_start"
  using unsearched.search_state_axioms by (simp add: tarjan_ok_def) (simp add: tarjan_start_def components_ok_def)

locale finite_graph =
  fixes out :: "js_string \<Rightarrow> js_string list"
  assumes targets: "finite {w. \<exists>v. w \<in> set (out v)}"
begin

abbreviation E :: "(js_string \<times> js_string) set" where "E \<equiv> graph_edges out"

lemma finite_reach: "finite {w. \<exists>v \<in> set ids. (v, w) \<in> E\<^sup>*}"
proof (rule finite_subset)
  have "w \<in> set ids \<union> {w. \<exists>v. w \<in> set (out v)}" if "(v, w) \<in> E\<^sup>*" "v \<in> set ids" for v w
    using that by (induction rule: rtrancl_induct) (auto simp: graph_edges_def)
  then show "{w. \<exists>v \<in> set ids. (v, w) \<in> E\<^sup>*} \<subseteq> set ids \<union> {w. \<exists>v. w \<in> set (out v)}" by blast
qed (simp add: targets)

lemma components:
  "\<exists>cs. computeStronglyConnectedComponents collate ids out = Some cs \<and> distinct cs \<and> sorted (map (\<lambda>c. collate (c ! 0)) cs)
     \<and> set cs = {sorted_list_of_set (scc E u) | u. (\<exists>v \<in> set ids. (v, u) \<in> E\<^sup>*) \<and> 1 < card (scc E u)}"
proof -
  let ?R = "{w. \<exists>v \<in> set ids. (v, w) \<in> E\<^sup>*}"
  have R: "closed_under E ?R" by (auto simp: closed_under_def intro: rtrancl_into_rtrancl)
  have ids: "set ids \<subseteq> ?R" by auto
  from search_returns [OF start_ok _ ids R finite_reach] obtain t where
    t: "tarjan_search out ids tarjan_start = Some t" "tarjan_ok out ?R t" "tj_work t = []" "set ids \<subseteq> dom (tj_indexOf t)"
    by (auto simp: tarjan_start_def)
  note st = tarjan_state [OF t(2)]
  have stack: "tj_stack t = []" using search_state.bottom [OF st] t(3) by (cases "tj_stack t") auto
  have "w \<in> dom (tj_indexOf t)" if "(v, w) \<in> E\<^sup>*" "v \<in> set ids" for v w
  proof (rule closed_reach [OF _ that(1)])
    show "w \<in> dom (tj_indexOf t)" if "u \<in> dom (tj_indexOf t)" "(u, w) \<in> E" for u w using search_state.closed [OF st, of u w] that stack by simp
    show "v \<in> dom (tj_indexOf t)" using that(2) t(4) by blast
  qed
  then have "dom (tj_indexOf t) = ?R" using t(2) by (auto simp: tarjan_ok_def)
  then have "components_ok out ?R (tj_components t)" using t(2) stack by (simp add: tarjan_ok_def)
  then show ?thesis
    using t(1) by (simp add: computeStronglyConnectedComponents_def components_ok_def)
qed

end

end
