(* ===== verification/Graph_Index.thy ===== *)
theory Graph_Index
  imports Ids Lexicon_Text Compiler_Types Graph_Components
begin

text \<open>
  The node identifiers of ids.ts: a prefix that names the kind, then a normalized path or name. What
  an identifier was made from can be read back: its kind always, its path where the path holds no
  number sign.
\<close>

section \<open>Names and paths\<close>

text \<open>\<open>replace(/[...]+/g, ...)\<close>: every run of characters of a class becomes one character.\<close>

function replace_runs :: "(16 word \<Rightarrow> bool) \<Rightarrow> 16 word \<Rightarrow> js_string \<Rightarrow> js_string" where
  "replace_runs p r [] = []"
| "replace_runs p r (x # xs) = (if p x then r # replace_runs p r (dropWhile p xs) else x # replace_runs p r xs)"
  by pat_completeness auto
termination
  by (relation "measure (\<lambda>(p, r, s). length s)") (auto simp: le_imp_less_Suc length_dropWhile_le)

definition ascii_digit :: "16 word \<Rightarrow> bool" where
  "ascii_digit u \<longleftrightarrow> 48 \<le> u \<and> u \<le> 57"

text \<open>\<open>[A-Za-z0-9._@/#:$-]\<close>.\<close>

definition slug_char :: "16 word \<Rightarrow> bool" where
  "slug_char u \<longleftrightarrow> ascii_letter u \<or> ascii_digit u \<or> u \<in> set (js ''._@/#:$-'')"

definition strip_dashes :: "js_string \<Rightarrow> js_string" where
  "strip_dashes s =
    (let s = (case s of [] \<Rightarrow> [] | c # cs \<Rightarrow> if c = 45 then cs else s) in
     if s \<noteq> [] \<and> last s = 45 then butlast s else s)"

definition slug :: "(js_string \<Rightarrow> js_string) \<Rightarrow> js_string \<Rightarrow> js_string" where
  "slug nfkc value = strip_dashes (replace_runs (\<lambda>u. u = 45) 45 (replace_runs (\<lambda>u. \<not> slug_char u) 45
     (replace_runs js_space 45 (js_trim (nfkc value)))))"

text \<open>\<open>posix\<close>: slashes, one leading \<open>./\<close> and all trailing slashes.\<close>

definition posix :: "js_string \<Rightarrow> js_string" where
  "posix value =
    (let s = map (\<lambda>u. if u = 92 then 47 else u) value;
         s = (case s of a # b # cs \<Rightarrow> if a = 46 \<and> b = 47 then cs else s | _ \<Rightarrow> s) in
     rev (dropWhile (\<lambda>u. u = 47) (rev s)))"

section \<open>Identifiers\<close>

fun contextGraphIdPrefix :: "ContextGraphNodeKind \<Rightarrow> js_string" where
  "contextGraphIdPrefix Kind_file = js ''file''"
| "contextGraphIdPrefix Kind_symbol = js ''symbol''"
| "contextGraphIdPrefix Kind_module = js ''module''"
| "contextGraphIdPrefix Kind_command = js ''command''"
| "contextGraphIdPrefix Kind_route = js ''route''"
| "contextGraphIdPrefix Kind_pipeline = js ''pipeline''"
| "contextGraphIdPrefix Kind_test = js ''test''"
| "contextGraphIdPrefix Kind_gate = js ''gate''"
| "contextGraphIdPrefix Kind_schema = js ''schema''"
| "contextGraphIdPrefix Kind_config = js ''config''"
| "contextGraphIdPrefix Kind_wiki_claim = js ''claim''"
| "contextGraphIdPrefix Kind_source = js ''source''"
| "contextGraphIdPrefix Kind_proof = js ''proof''"
| "contextGraphIdPrefix Kind_risk_domain = js ''risk''"

datatype NodeIdentityInput =
    Id_file js_string | Id_module js_string | Id_symbol js_string js_string js_string int | Id_command js_string
  | Id_route js_string | Id_pipeline js_string | Id_test js_string "js_string option" | Id_gate js_string
  | Id_schema js_string | Id_config js_string js_string | Id_wiki_claim js_string | Id_source js_string
  | Id_proof js_string | Id_risk_domain js_string

fun identity_kind :: "NodeIdentityInput \<Rightarrow> ContextGraphNodeKind" where
  "identity_kind (Id_file _) = Kind_file"
| "identity_kind (Id_module _) = Kind_module"
| "identity_kind (Id_symbol _ _ _ _) = Kind_symbol"
| "identity_kind (Id_command _) = Kind_command"
| "identity_kind (Id_route _) = Kind_route"
| "identity_kind (Id_pipeline _) = Kind_pipeline"
| "identity_kind (Id_test _ _) = Kind_test"
| "identity_kind (Id_gate _) = Kind_gate"
| "identity_kind (Id_schema _) = Kind_schema"
| "identity_kind (Id_config _ _) = Kind_config"
| "identity_kind (Id_wiki_claim _) = Kind_wiki_claim"
| "identity_kind (Id_source _) = Kind_source"
| "identity_kind (Id_proof _) = Kind_proof"
| "identity_kind (Id_risk_domain _) = Kind_risk_domain"

fun contextGraphNodeId :: "(js_string \<Rightarrow> js_string) \<Rightarrow> NodeIdentityInput \<Rightarrow> js_string" where
  "contextGraphNodeId nfkc (Id_file path) = js ''file:'' @ posix path"
| "contextGraphNodeId nfkc (Id_module moduleId) = js ''module:'' @ slug nfkc moduleId"
| "contextGraphNodeId nfkc (Id_symbol path symbolKind name startOffset) =
     js ''symbol:'' @ posix path @ js ''#'' @ slug nfkc symbolKind @ js '':'' @ slug nfkc name @ js ''@''
       @ decimal (nat (max 0 startOffset))"
| "contextGraphNodeId nfkc (Id_command name) = js ''command:'' @ slug nfkc name"
| "contextGraphNodeId nfkc (Id_route name) = js ''route:'' @ slug nfkc name"
| "contextGraphNodeId nfkc (Id_pipeline pipelineId) = js ''pipeline:'' @ slug nfkc pipelineId"
| "contextGraphNodeId nfkc (Id_test path testName) =
     js ''test:'' @ posix path @ js ''#'' @ slug nfkc (if truthy testName then the testName else posix path)"
| "contextGraphNodeId nfkc (Id_gate gateId) = js ''gate:'' @ slug nfkc gateId"
| "contextGraphNodeId nfkc (Id_schema schemaId) = js ''schema:'' @ slug nfkc schemaId"
| "contextGraphNodeId nfkc (Id_config path keyPath) = js ''config:'' @ posix path @ js ''#'' @ slug nfkc keyPath"
| "contextGraphNodeId nfkc (Id_wiki_claim claimHash) = js ''claim:'' @ slug nfkc claimHash"
| "contextGraphNodeId nfkc (Id_source sourceHash) = js ''source:'' @ slug nfkc sourceHash"
| "contextGraphNodeId nfkc (Id_proof proofId) = js ''proof:'' @ slug nfkc proofId"
| "contextGraphNodeId nfkc (Id_risk_domain domain) = js ''risk:'' @ slug nfkc domain"

section \<open>Reading an identifier\<close>

text \<open>\<open>indexOf\<close> of one character.\<close>

definition unit_index :: "16 word \<Rightarrow> js_string \<Rightarrow> nat option" where
  "unit_index c s = (if c \<in> set s then Some (length (takeWhile (\<lambda>u. u \<noteq> c) s)) else None)"

definition parseContextGraphNodeIdPrefix :: "js_string \<Rightarrow> js_string option" where
  "parseContextGraphNodeIdPrefix i = (case unit_index 58 i of None \<Rightarrow> None
     | Some index \<Rightarrow> if index > 0 then Some (take index i) else None)"

definition contextGraphNodeKindFromId :: "js_string \<Rightarrow> ContextGraphNodeKind option" where
  "contextGraphNodeKindFromId i = (case parseContextGraphNodeIdPrefix i of None \<Rightarrow> None
     | Some name \<Rightarrow> find (\<lambda>kind. contextGraphIdPrefix kind = name) CONTEXT_GRAPH_NODE_KINDS)"

definition or_null :: "js_string \<Rightarrow> js_string option" where
  "or_null s = (if s = [] then None else Some s)"

definition contextGraphPathFromId :: "js_string \<Rightarrow> js_string option" where
  "contextGraphPathFromId i = (case contextGraphNodeKindFromId i of None \<Rightarrow> None
     | Some kind \<Rightarrow>
        (let rest = drop (the (unit_index 58 i) + 1) i in
         if kind = Kind_file then or_null rest
         else if kind \<in> {Kind_symbol, Kind_test, Kind_config} then
           (case unit_index 35 rest of Some hash \<Rightarrow> if hash > 0 then Some (take hash rest) else or_null rest
             | None \<Rightarrow> or_null rest)
         else None))"

section \<open>Round trips\<close>

lemma unit_index_prefix: "c \<notin> set xs \<Longrightarrow> unit_index c (xs @ c # ys) = Some (length xs)"
proof -
  assume "c \<notin> set xs"
  then have "takeWhile (\<lambda>u. u \<noteq> c) xs = xs" by (auto simp: takeWhile_eq_all_conv)
  then show ?thesis by (simp add: unit_index_def takeWhile_tail)
qed

lemma prefix_plain: "58 \<notin> set (contextGraphIdPrefix k)" "contextGraphIdPrefix k \<noteq> []"
  by (cases k; simp add: js_def)+

lemma identifier_shape: "\<exists>rest. contextGraphNodeId nfkc input = contextGraphIdPrefix (identity_kind input) @ 58 # rest"
  by (cases input) (simp_all add: js_def)

lemma prefix_found: "find (\<lambda>kind. contextGraphIdPrefix kind = contextGraphIdPrefix k) CONTEXT_GRAPH_NODE_KINDS = Some k"
  by (cases k) (simp_all add: CONTEXT_GRAPH_NODE_KINDS_def js_def)

lemma kind_read: "contextGraphNodeKindFromId (contextGraphIdPrefix k @ 58 # rest) = Some k"
  using prefix_plain(2) [of k]
  by (simp add: contextGraphNodeKindFromId_def parseContextGraphNodeIdPrefix_def unit_index_prefix [OF prefix_plain(1)] prefix_found)

lemma path_read:
  "contextGraphPathFromId (contextGraphIdPrefix k @ 58 # rest) =
    (if k = Kind_file then or_null rest
     else if k \<in> {Kind_symbol, Kind_test, Kind_config} then
       (case unit_index 35 rest of Some hash \<Rightarrow> if hash > 0 then Some (take hash rest) else or_null rest | None \<Rightarrow> or_null rest)
     else None)"
  by (simp add: contextGraphPathFromId_def kind_read unit_index_prefix [OF prefix_plain(1)])

lemma path_part:
  assumes "(case unit_index 35 (xs @ 35 # ys) of None \<Rightarrow> n | Some hash \<Rightarrow> if 0 < hash then Some (take hash (xs @ 35 # ys)) else m) \<noteq> Some xs"
    "xs \<noteq> []"
  shows "35 \<in> set xs"
proof (rule ccontr)
  assume "35 \<notin> set xs"
  with assms show False by (simp add: unit_index_prefix)
qed

text \<open>The path an identity is made of, if it has one.\<close>

fun identity_path :: "NodeIdentityInput \<Rightarrow> js_string option" where
  "identity_path (Id_file path) = Some path"
| "identity_path (Id_symbol path _ _ _) = Some path"
| "identity_path (Id_test path _) = Some path"
| "identity_path (Id_config path _) = Some path"
| "identity_path _ = None"

text \<open>
  C39. A node identifier tells what it identifies: the kind is read back from every identifier, and
  so is the path, in its normal form, of a node that has one, provided that it is not empty and
  holds no number sign; an identifier made of a name yields no path.
\<close>

theorem node_id_roundtrip:
  "contextGraphNodeKindFromId (contextGraphNodeId nfkc input) = Some (identity_kind input)
   \<and> (case identity_path input of
        None \<Rightarrow> contextGraphPathFromId (contextGraphNodeId nfkc input) = None
      | Some path \<Rightarrow> posix path = [] \<or> 35 \<in> set (posix path)
          \<or> contextGraphPathFromId (contextGraphNodeId nfkc input) = Some (posix path))"
proof -
  obtain rest where rest: "contextGraphNodeId nfkc input = contextGraphIdPrefix (identity_kind input) @ 58 # rest"
    using identifier_shape by blast
  have "\<forall>rest. contextGraphPathFromId (contextGraphIdPrefix (identity_kind input) @ 58 # rest) =
    (if identity_kind input = Kind_file then or_null rest
     else if identity_kind input \<in> {Kind_symbol, Kind_test, Kind_config} then
       (case unit_index 35 rest of Some hash \<Rightarrow> if hash > 0 then Some (take hash rest) else or_null rest | None \<Rightarrow> or_null rest)
     else None)" using path_read by blast
  then have "case identity_path input of
        None \<Rightarrow> contextGraphPathFromId (contextGraphNodeId nfkc input) = None
      | Some path \<Rightarrow> posix path = [] \<or> 35 \<in> set (posix path)
          \<or> contextGraphPathFromId (contextGraphNodeId nfkc input) = Some (posix path)"
    by (cases input) (auto simp: js_def or_null_def dest: path_part)
  with kind_read rest show ?thesis by simp
qed


section \<open>The index over a snapshot\<close>

text \<open>
  The in-memory index of graph-index.ts: nodes by identifier, path and label, and the edges in and
  out of a node. The host's \<open>toLowerCase\<close> is the argument \<open>lower\<close>.
\<close>

section \<open>Building\<close>

record 'n ContextGraphIndex =
  gi_snapshot :: "'n ContextGraphSnapshot"
  gi_nodesById :: "js_string \<rightharpoonup> 'n ContextGraphNode"
  gi_edgesById :: "js_string \<rightharpoonup> ContextGraphEdge"
  gi_outgoing :: "js_string \<rightharpoonup> js_string list"
  gi_incoming :: "js_string \<rightharpoonup> js_string list"
  gi_nodesByPath :: "js_string \<rightharpoonup> js_string list"
  gi_nodesByLabel :: "js_string \<rightharpoonup> js_string list"
  gi_cycleByNode :: "js_string \<rightharpoonup> js_string"

definition push_key :: "js_string \<Rightarrow> js_string \<Rightarrow> (js_string \<rightharpoonup> js_string list) \<Rightarrow> (js_string \<rightharpoonup> js_string list)" where
  "push_key key value m = m(key \<mapsto> (case m key of None \<Rightarrow> [value] | Some bucket \<Rightarrow> bucket @ [value]))"

definition freeze_keys :: "(js_string \<rightharpoonup> js_string list) \<Rightarrow> (js_string \<rightharpoonup> js_string list)" where
  "freeze_keys m = (\<lambda>key. map_option sort (m key))"

text \<open>The path and the label keys a node is filed under.\<close>

definition path_key :: "'n ContextGraphNode \<Rightarrow> js_string option" where
  "path_key node = (case first_defined (n_path node) (contextGraphPathFromId (n_id node)) of
     None \<Rightarrow> None | Some path \<Rightarrow> or_null path)"

definition purpose_of :: "'n ContextGraphNode \<Rightarrow> js_string" where
  "purpose_of node = (case map_of (n_metadata node) (js ''purpose'') of Some (Meta_string s) \<Rightarrow> js_trim s | _ \<Rightarrow> [])"

definition label_keys :: "(js_string \<Rightarrow> js_string) \<Rightarrow> 'n ContextGraphNode \<Rightarrow> js_string list" where
  "label_keys lower node =
    (let purpose = purpose_of node in
     (if n_label node = [] then [] else [lower (n_label node)])
       @ (if purpose \<noteq> [] \<and> lower purpose \<noteq> lower (n_label node) then [lower purpose] else []))"

definition file_path :: "'n ContextGraphNode \<Rightarrow> (js_string \<rightharpoonup> js_string list) \<Rightarrow> (js_string \<rightharpoonup> js_string list)" where
  "file_path node m = (case path_key node of None \<Rightarrow> m | Some path \<Rightarrow> push_key path (n_id node) m)"

definition file_labels ::
  "(js_string \<Rightarrow> js_string) \<Rightarrow> 'n ContextGraphNode \<Rightarrow> (js_string \<rightharpoonup> js_string list) \<Rightarrow> (js_string \<rightharpoonup> js_string list)" where
  "file_labels lower node m = fold (\<lambda>key. push_key key (n_id node)) (label_keys lower node) m"

definition buildContextGraphIndex :: "(js_string \<Rightarrow> js_string) \<Rightarrow> 'n ContextGraphSnapshot \<Rightarrow> 'n ContextGraphIndex" where
  "buildContextGraphIndex lower snapshot =
     \<lparr>gi_snapshot = snapshot,
      gi_nodesById = fold (\<lambda>node m. m(n_id node \<mapsto> node)) (s_nodes snapshot) Map.empty,
      gi_edgesById = fold (\<lambda>edge m. m(e_id edge \<mapsto> edge)) (s_edges snapshot) Map.empty,
      gi_outgoing = freeze_keys (fold (\<lambda>edge. push_key (e_from edge) (e_id edge)) (s_edges snapshot) Map.empty),
      gi_incoming = freeze_keys (fold (\<lambda>edge. push_key (e_to edge) (e_id edge)) (s_edges snapshot) Map.empty),
      gi_nodesByPath = freeze_keys (fold file_path (s_nodes snapshot) Map.empty),
      gi_nodesByLabel = freeze_keys (fold (file_labels lower) (s_nodes snapshot) Map.empty),
      gi_cycleByNode = fold (\<lambda>cycle m. fold (\<lambda>nodeId m. m(nodeId \<mapsto> cy_id cycle)) (cy_nodes cycle) m) (s_cycles snapshot) Map.empty\<rparr>"

definition edges_of_ids :: "'n ContextGraphIndex \<Rightarrow> js_string list option \<Rightarrow> ContextGraphEdge list" where
  "edges_of_ids index ids = List.map_filter (gi_edgesById index) (case ids of None \<Rightarrow> [] | Some xs \<Rightarrow> xs)"

definition outgoingEdges :: "'n ContextGraphIndex \<Rightarrow> js_string \<Rightarrow> ContextGraphEdge list" where
  "outgoingEdges index nodeId = edges_of_ids index (gi_outgoing index nodeId)"

definition incomingEdges :: "'n ContextGraphIndex \<Rightarrow> js_string \<Rightarrow> ContextGraphEdge list" where
  "incomingEdges index nodeId = edges_of_ids index (gi_incoming index nodeId)"

section \<open>The adjacency\<close>

lemma push_all:
  "fold (\<lambda>e. push_key (key e) (val e)) es m k =
     (if \<exists>e \<in> set es. key e = k then Some ((case m k of None \<Rightarrow> [] | Some b \<Rightarrow> b) @ map val (filter (\<lambda>e. key e = k) es)) else m k)"
proof (induction es arbitrary: m)
  case (Cons e es)
  show ?case unfolding fold_Cons comp_apply Cons.IH by (auto simp: push_key_def split: option.split)
qed simp

lemma last_wins: "distinct (map key es) \<Longrightarrow> e \<in> set es \<Longrightarrow> fold (\<lambda>e m. m(key e \<mapsto> e)) es m (key e) = Some e"
proof (induction es rule: rev_induct)
  case (snoc x xs)
  then show ?case by (cases "e = x") (auto simp: image_iff)
qed simp

lemma map_filter_total: "(\<And>x. x \<in> set xs \<Longrightarrow> f x = Some (g x)) \<Longrightarrow> List.map_filter f xs = map g xs"
  by (induction xs) (simp_all add: map_filter_simps)

lemma last_written: "fold (\<lambda>e m. m(key e \<mapsto> e)) es m i = Some e \<Longrightarrow> m i = None \<Longrightarrow> e \<in> set es"
  by (induction es arbitrary: m rule: rev_induct) (auto split: if_splits)

lemma edges_by_key:
  assumes "set es \<subseteq> set edges" and byId: "\<And>e. e \<in> set edges \<Longrightarrow> m (e_id e) = Some e"
  shows "List.map_filter m (sort (map e_id es)) = sort_key e_id es"
proof -
  have "sort (map e_id es) = map e_id (sort_key e_id es)"
    by (rule properties_for_sort) simp_all
  moreover have "List.map_filter m (map e_id xs) = xs" if "set xs \<subseteq> set edges" for xs
    using that byId by (induction xs) (auto simp: map_filter_simps)
  ultimately show ?thesis using assms(1) by simp
qed

lemma index_bucket:
  assumes "distinct (map e_id edges)"
  shows "List.map_filter (fold (\<lambda>edge m. m(e_id edge \<mapsto> edge)) edges Map.empty)
      (case freeze_keys (fold (\<lambda>edge. push_key (key edge) (e_id edge)) edges Map.empty) v of None \<Rightarrow> [] | Some xs \<Rightarrow> xs)
    = sort_key e_id (filter (\<lambda>e. key e = v) edges)"
proof -
  have "(case freeze_keys (fold (\<lambda>edge. push_key (key edge) (e_id edge)) edges Map.empty) v of None \<Rightarrow> [] | Some xs \<Rightarrow> xs)
      = sort (map e_id (filter (\<lambda>e. key e = v) edges))"
    by (auto simp: freeze_keys_def push_all filter_empty_conv)
  moreover have "List.map_filter (fold (\<lambda>edge m. m(e_id edge \<mapsto> edge)) edges Map.empty) (sort (map e_id (filter (\<lambda>e. key e = v) edges)))
      = sort_key e_id (filter (\<lambda>e. key e = v) edges)"
    by (rule edges_by_key [of _ edges]) (simp_all add: last_wins [OF assms])
  ultimately show ?thesis by simp
qed

lemmas index_edges = outgoingEdges_def incomingEdges_def edges_of_ids_def buildContextGraphIndex_def

text \<open>The edges out of a node are those that start at it, the edges into it those that end at it, in order.\<close>

lemma index_adjacency:
  assumes "distinct (map e_id (s_edges snapshot))"
  shows "outgoingEdges (buildContextGraphIndex lower snapshot) v = sort_key e_id (filter (\<lambda>e. e_from e = v) (s_edges snapshot))
    \<and> incomingEdges (buildContextGraphIndex lower snapshot) v = sort_key e_id (filter (\<lambda>e. e_to e = v) (s_edges snapshot))"
  using assms by (simp add: index_edges index_bucket)

section \<open>The components of the graph\<close>

text \<open>The nodes an edge out of \<open>v\<close> leads to, as the search reads them.\<close>

definition index_targets :: "'n ContextGraphIndex \<Rightarrow> js_string \<Rightarrow> js_string list" where
  "index_targets index nodeId = map e_to (outgoingEdges index nodeId)"

lemma index_edges_found: "e \<in> set (outgoingEdges (buildContextGraphIndex lower snapshot) v) \<Longrightarrow> e \<in> set (s_edges snapshot)"
  unfolding outgoingEdges_def edges_of_ids_def
  by (auto simp: buildContextGraphIndex_def map_filter_def split: option.splits dest: last_written)

interpretation indexed: finite_graph "index_targets (buildContextGraphIndex lower snapshot)" for lower snapshot
proof
  have "{w. \<exists>v. w \<in> set (index_targets (buildContextGraphIndex lower snapshot) v)} \<subseteq> e_to ` set (s_edges snapshot)"
    by (auto simp: index_targets_def dest: index_edges_found)
  then show "finite {w. \<exists>v. w \<in> set (index_targets (buildContextGraphIndex lower snapshot) v)}"
    by (rule finite_subset) simp
qed

end
