(* ===== verification/Json.thy ===== *)
theory Json
  imports Utf8 "HOL-Library.Sublist"
begin

text \<open>
  The text \<open>JSON.stringify\<close> gives a value, as ECMAScript defines it: an object is the list of its own
  entries in their order, a string is quoted with lone surrogates escaped. The text of a number is the
  argument \<open>num\<close>. Where the texts of numbers differ and hold no delimiter, the text of a value
  determines the value.
\<close>

section \<open>Values and their text\<close>

datatype 'a json =
    J_null | J_bool bool | J_string js_string | J_number 'a | J_array "'a json list"
  | J_object "(js_string \<times> 'a json) list"

definition json_hex_digit :: "nat \<Rightarrow> 16 word" where
  "json_hex_digit n = of_nat (if n < 10 then 48 + n else 87 + n)"

definition unicode_escape :: "16 word \<Rightarrow> js_string" where
  "unicode_escape u = 92 # 117 # map (\<lambda>k. json_hex_digit (unat u div 16 ^ k mod 16)) [3, 2, 1, 0]"

definition quote_unit :: "16 word \<Rightarrow> js_string" where
  "quote_unit u =
    (if u = 8 then [92, 98] else if u = 9 then [92, 116] else if u = 10 then [92, 110]
     else if u = 12 then [92, 102] else if u = 13 then [92, 114] else if u = 34 then [92, 34]
     else if u = 92 then [92, 92] else if u < 32 \<or> high_surrogate u \<or> low_surrogate u then unicode_escape u
     else [u])"

text \<open>The flag says that the unit before was the first of a surrogate pair.\<close>

definition pair_follows :: "16 word \<Rightarrow> js_string \<Rightarrow> bool" where
  "pair_follows u s \<longleftrightarrow> high_surrogate u \<and> (case s of [] \<Rightarrow> False | v # _ \<Rightarrow> low_surrogate v)"

fun quote_rest :: "bool \<Rightarrow> js_string \<Rightarrow> js_string" where
  "quote_rest paired [] = [34]"
| "quote_rest paired (u # s) =
    (if paired then u # quote_rest False s
     else if pair_follows u s then u # quote_rest True s
     else quote_unit u @ quote_rest False s)"

definition quote_text :: "js_string \<Rightarrow> js_string" where
  "quote_text s = 34 # quote_rest False s"

fun commas :: "js_string list \<Rightarrow> js_string" where
  "commas [] = []"
| "commas [t] = t"
| "commas (t # u # ts) = t @ 44 # commas (u # ts)"

fun stringify :: "('a \<Rightarrow> js_string) \<Rightarrow> 'a json \<Rightarrow> js_string" where
  "stringify num J_null = js ''null''"
| "stringify num (J_bool b) = (if b then js ''true'' else js ''false'')"
| "stringify num (J_string s) = quote_text s"
| "stringify num (J_number x) = num x"
| "stringify num (J_array xs) = 91 # commas (map (stringify num) xs) @ [93]"
| "stringify num (J_object es) = 123 # commas (map (\<lambda>(k, v). quote_text k @ 58 # stringify num v) es) @ [125]"

section \<open>A string is determined by its text\<close>

lemma json_hex_digit_code: "n < 16 \<Longrightarrow> unat (json_hex_digit n) = (if n < 10 then 48 + n else 87 + n)"
  unfolding json_hex_digit_def unat_of_nat by auto

lemma json_hex_digit_inj:
  assumes "a < 16" "b < 16" "json_hex_digit a = json_hex_digit b"
  shows "a = b"
proof -
  have "(if a < 10 then 48 + a else 87 + a) = (if b < 10 then 48 + b else 87 + b)"
    using arg_cong [OF assms(3), of unat] unfolding json_hex_digit_code [OF assms(1)] json_hex_digit_code [OF assms(2)] .
  then show ?thesis by (simp split: if_splits)
qed

lemma four_digits:
  fixes n m :: nat
  assumes "n < 65536" "m < 65536" "n div 4096 mod 16 = m div 4096 mod 16" "n div 256 mod 16 = m div 256 mod 16"
    "n div 16 mod 16 = m div 16 mod 16" "n mod 16 = m mod 16"
  shows "n = m"
proof -
  have split: "k = 16 * (k div 16) + k mod 16" for k :: nat by simp
  have quotients: "k div 16 div 16 = k div 256" "k div 256 div 16 = k div 4096" for k :: nat by (simp_all add: div_mult2_eq [symmetric])
  have "k = 4096 * (k div 4096) + 256 * (k div 256 mod 16) + 16 * (k div 16 mod 16) + k mod 16" for k :: nat
    using split [of k] split [of "k div 16", unfolded quotients] split [of "k div 256", unfolded quotients] by linarith
  moreover have "k div 4096 mod 16 = k div 4096" if "k < 65536" for k :: nat using that by simp
  ultimately show ?thesis using assms by metis
qed

lemma unicode_escape_inj: "unicode_escape u = unicode_escape v \<Longrightarrow> u = v"
proof -
  assume a: "unicode_escape u = unicode_escape v"
  have "unat u < 65536" "unat v < 65536" using unsigned_less [of u, where 'a = nat] unsigned_less [of v, where 'a = nat] by simp_all
  then have "unat u = unat v"
    by (rule four_digits) (use a in \<open>auto simp: unicode_escape_def intro!: json_hex_digit_inj\<close>)
  then show ?thesis by (simp add: word_unat_eq_iff)
qed

lemma quote_unit_cases:
  "(\<exists>c. quote_unit u = [92, c] \<and> c \<noteq> 117) \<or> quote_unit u = unicode_escape u \<or> quote_unit u = [u] \<and> u \<noteq> 92 \<and> u \<noteq> 34 \<and> \<not> high_surrogate u"
  by (auto simp: quote_unit_def)

lemma quote_unit_shape: "\<exists>c cs. quote_unit u = c # cs \<and> c \<noteq> 34 \<and> \<not> high_surrogate c"
  using quote_unit_cases [of u] by (auto simp: unicode_escape_def high_surrogate_def)

lemma quote_unit_same: "quote_unit u = quote_unit v \<Longrightarrow> u = v"
  using unicode_escape_inj [of u v] by (auto simp: quote_unit_def unicode_escape_def split: if_splits)

lemma quote_unit_inj: "quote_unit u @ r = quote_unit v @ r' \<Longrightarrow> u = v \<and> r = r'"
proof -
  assume a: "quote_unit u @ r = quote_unit v @ r'"
  have "length (quote_unit u) = length (quote_unit v)"
    using a quote_unit_cases [of u] quote_unit_cases [of v] by (auto simp: unicode_escape_def)
  with a show ?thesis using quote_unit_same [of u v] by simp
qed

lemma quote_rest_inj:
  "quote_rest p s @ r = quote_rest p t @ r' \<Longrightarrow> (p \<longrightarrow> s \<noteq> [] \<and> t \<noteq> []) \<Longrightarrow> s = t \<and> r = r'"
proof (induction s arbitrary: p t)
  case Nil
  show ?case
  proof (cases t)
    case (Cons v t')
    with Nil quote_unit_shape [of v] show ?thesis by (auto simp: pair_follows_def high_surrogate_def split: if_splits)
  qed (use Nil in simp)
next
  case (Cons u s)
  show ?case
  proof (cases t)
    case Nil
    with Cons.prems quote_unit_shape [of u] show ?thesis by (auto simp: pair_follows_def high_surrogate_def split: if_splits)
  next
    case (Cons v t')
    have next_pair: "pair_follows x y \<Longrightarrow> y \<noteq> []" for x y by (auto simp: pair_follows_def)
    consider "p" | "\<not> p" "pair_follows u s" "pair_follows v t'" | "\<not> p" "\<not> pair_follows u s" "\<not> pair_follows v t'"
      | "\<not> p" "pair_follows u s \<noteq> pair_follows v t'" by blast
    then show ?thesis
    proof cases
      case 1
      with Cons.prems Cons.IH [of False t'] Cons show ?thesis by simp
    next
      case 2
      with Cons.prems Cons.IH [of True t'] Cons next_pair show ?thesis by auto
    next
      case 3
      with Cons.prems Cons have "quote_unit u @ (quote_rest False s @ r) = quote_unit v @ (quote_rest False t' @ r')" by simp
      from quote_unit_inj [OF this] Cons.IH [of False t'] Cons show ?thesis by simp
    next
      case 4
      with Cons.prems Cons quote_unit_shape [of u] quote_unit_shape [of v] show ?thesis
        by (auto simp: pair_follows_def split: if_splits)
    qed
  qed
qed

lemma quote_text_inj: "quote_text s @ r = quote_text t @ r' \<Longrightarrow> s = t \<and> r = r'"
  using quote_rest_inj [of False s r t r'] by (simp add: quote_text_def)

section \<open>A value is determined by its text\<close>

text \<open>Number texts start like a number, hold no delimiter and differ for different numbers.\<close>

definition number_texts :: "('a \<Rightarrow> js_string) \<Rightarrow> 'a set \<Rightarrow> bool" where
  "number_texts num S \<longleftrightarrow> inj_on num S
     \<and> (\<forall>x \<in> S. num x \<noteq> [] \<and> hd (num x) \<in> set (js ''-0123456789'') \<and> set (num x) \<inter> {44, 93, 125} = {})"

definition delimited :: "js_string \<Rightarrow> bool" where
  "delimited r \<longleftrightarrow> r = [] \<or> hd r \<in> {44, 93, 125}"

lemma delimited_simps [simp]: "delimited []" "delimited (c # r) \<longleftrightarrow> c \<in> {44, 93, 125}"
  by (auto simp: delimited_def)

lemma commas_Cons: "commas (t # ts) = t @ concat (map (\<lambda>u. 44 # u) ts)"
  by (induction ts arbitrary: t) simp_all

lemma commas_inj:
  assumes inj: "\<And>x y r r'. x \<in> set xs \<Longrightarrow> y \<in> set ys \<Longrightarrow> delimited r \<Longrightarrow> delimited r' \<Longrightarrow> f x @ r = f y @ r' \<Longrightarrow> x = y \<and> r = r'"
    and starts: "\<And>x. x \<in> set xs \<union> set ys \<Longrightarrow> f x \<noteq> [] \<and> hd (f x) \<noteq> c"
    and c: "c \<in> {93, 125}" and same: "commas (map f xs) @ c # r = commas (map f ys) @ c # r'"
  shows "xs = ys \<and> r = r'"
proof -
  let ?rest = "\<lambda>xs. concat (map (\<lambda>x. 44 # f x) xs)"
  have stops: "delimited (?rest zs @ c # q)" for zs q using c by (cases zs) auto
  have rest: "us = vs \<and> r = r'"
    if "?rest us @ c # r = ?rest vs @ c # r'" "set us \<subseteq> set xs" "set vs \<subseteq> set ys" for us vs
    using that
  proof (induction us arbitrary: vs)
    case Nil
    then show ?case using c by (cases vs) auto
  next
    case (Cons u us)
    show ?case
    proof (cases vs)
      case Nil
      with Cons.prems c show ?thesis by auto
    next
      case vs: (Cons v vs')
      from Cons.prems vs inj [of u v "?rest us @ c # r" "?rest vs' @ c # r'"] stops
      have "u = v \<and> ?rest us @ c # r = ?rest vs' @ c # r'" by simp
      with Cons.IH [of vs'] Cons.prems vs show ?thesis by simp
    qed
  qed
  have open_rest: "commas (map f (z # zs)) @ q = f z @ ?rest zs @ q" for z zs q
    by (simp add: commas_Cons o_def)
  show ?thesis
  proof (cases xs; cases ys)
    fix x xs' y ys' assume e: "xs = x # xs'" "ys = y # ys'"
    with same have "f x @ ?rest xs' @ c # r = f y @ ?rest ys' @ c # r'" by (simp only: open_rest)
    with inj [of x y, OF _ _ stops stops] e have "x = y \<and> ?rest xs' @ c # r = ?rest ys' @ c # r'" by simp
    with rest [of xs' ys'] e show ?thesis by auto
  next
    fix y ys' assume e: "xs = []" "ys = y # ys'"
    with same starts [of y] show ?thesis by (cases "f y") (auto simp: commas_Cons)
  next
    fix x xs' assume e: "xs = x # xs'" "ys = []"
    with same starts [of x] show ?thesis by (cases "f x") (auto simp: commas_Cons)
  qed (use same in simp)
qed

text \<open>The first unit of a text tells what kind of value it is of.\<close>

fun kind_mark :: "'a json \<Rightarrow> 16 word set" where
  "kind_mark J_null = {110}"
| "kind_mark (J_bool b) = (if b then {116} else {102})"
| "kind_mark (J_string s) = {34}"
| "kind_mark (J_number x) = set (js ''-0123456789'')"
| "kind_mark (J_array xs) = {91}"
| "kind_mark (J_object es) = {123}"

lemma text_mark:
  assumes "number_texts num S" "set_json j \<subseteq> S"
  shows "stringify num j \<noteq> [] \<and> hd (stringify num j) \<in> kind_mark j"
  using assms by (cases j) (auto simp: number_texts_def quote_text_def js_def)

lemma number_text_inj:
  assumes n: "number_texts num S" "x \<in> S" "y \<in> S" and r: "delimited r" "delimited r'" and same: "num x @ r = num y @ r'"
  shows "x = y \<and> r = r'"
proof -
  let ?p = "\<lambda>u. u \<notin> {44, 93, 125::16 word}"
  have "takeWhile ?p (num z @ q) = num z" if "z \<in> S" "delimited q" for z q
    using n(1) that by (cases q) (auto simp: number_texts_def takeWhile_append)
  with n r same have "num x = num y" by metis
  with n same show ?thesis by (auto simp: number_texts_def dest: inj_onD)
qed

lemma same_kind:
  assumes "number_texts num S" "set_json j \<subseteq> S" "set_json j' \<subseteq> S" "stringify num j @ r = stringify num j' @ r'"
  shows "kind_mark j \<inter> kind_mark j' \<noteq> {}"
proof -
  have "hd (stringify num j) = hd (stringify num j')"
    using assms(4) text_mark [OF assms(1,2)] text_mark [OF assms(1,3)] by (metis hd_append2)
  then show ?thesis using text_mark [OF assms(1,2)] text_mark [OF assms(1,3)] by auto
qed

lemma member_numbers: "(k, v) \<in> set es \<Longrightarrow> set_json v \<subseteq> set_json (J_object es)"
  by (force intro: bexI [of _ "(k, v)"])

lemma member_inj:
  assumes v: "\<And>r r'. delimited r \<Longrightarrow> delimited r' \<Longrightarrow> stringify num v @ r = stringify num w @ r' \<Longrightarrow> v = w \<and> r = r'"
    and r: "delimited r" "delimited r'"
    and same: "(case (k, v) of (k, v) \<Rightarrow> quote_text k @ 58 # stringify num v) @ r = (case (l, w) of (k, v) \<Rightarrow> quote_text k @ 58 # stringify num v) @ r'"
  shows "(k, v) = (l, w) \<and> r = r'"
proof -
  from same have "quote_text k @ 58 # stringify num v @ r = quote_text l @ 58 # stringify num w @ r'" by simp
  from quote_text_inj [OF this] v [OF r] show ?thesis by simp
qed

lemma stringify_inj:
  assumes num: "number_texts num S"
  shows "set_json j \<subseteq> S \<Longrightarrow> set_json j' \<subseteq> S \<Longrightarrow> delimited r \<Longrightarrow> delimited r' \<Longrightarrow>
    stringify num j @ r = stringify num j' @ r' \<Longrightarrow> j = j' \<and> r = r'"
proof (induction j arbitrary: j' r r')
  case J_null
  from same_kind [OF num J_null(1,2,5)] J_null(5) show ?case by (cases j') (auto simp: js_def split: if_splits)
next
  case (J_bool b)
  from same_kind [OF num J_bool(1,2,5)] J_bool(5) show ?case by (cases j') (auto simp: js_def split: if_splits)
next
  case (J_string s)
  from same_kind [OF num J_string(1,2,5)] obtain t where t: "j' = J_string t" by (cases j') (auto simp: js_def split: if_splits)
  with J_string(5) quote_text_inj [of s r t r'] show ?case by simp
next
  case (J_number x)
  from same_kind [OF num J_number(1,2,5)] obtain y where y: "j' = J_number y" by (cases j') (auto simp: js_def split: if_splits)
  with number_text_inj [OF num _ _ J_number(3,4), of x y] J_number show ?case by simp
next
  case (J_array xs)
  from same_kind [OF num J_array(2,3,6)] obtain ys where ys: "j' = J_array ys" by (cases j') (auto simp: js_def split: if_splits)
  have "xs = ys \<and> r = r'"
  proof (rule commas_inj [where f = "stringify num" and c = 93])
    show "x = y \<and> q = q'" if "x \<in> set xs" "y \<in> set ys" "delimited q" "delimited q'" "stringify num x @ q = stringify num y @ q'" for x y q q'
      using J_array.IH [OF that(1) _ _ that(3-5)] J_array.prems(1,2) ys that(1,2) by auto
    show "stringify num x \<noteq> [] \<and> hd (stringify num x) \<noteq> 93" if "x \<in> set xs \<union> set ys" for x
    proof -
      have "set_json x \<subseteq> S" using that J_array.prems(1,2) ys by auto
      from text_mark [OF num this] show ?thesis by (cases x) (auto simp: js_def split: if_splits)
    qed
  qed (use J_array.prems(5) ys in auto)
  with ys show ?case by simp
next
  case (J_object es)
  from same_kind [OF num J_object(2,3,6)] obtain fs where fs: "j' = J_object fs" by (cases j') (auto simp: js_def split: if_splits)
  have "es = fs \<and> r = r'"
  proof (rule commas_inj [where f = "\<lambda>(k, v). quote_text k @ 58 # stringify num v" and c = 125])
    show "x = y \<and> q = q'" if m: "x \<in> set es" "y \<in> set fs" and q: "delimited q" "delimited q'"
      and same: "(case x of (k, v) \<Rightarrow> quote_text k @ 58 # stringify num v) @ q = (case y of (k, v) \<Rightarrow> quote_text k @ 58 # stringify num v) @ q'" for x y q q'
    proof (cases x; cases y)
      fix k v l w assume e: "x = (k, v)" "y = (l, w)"
      have "set_json v \<subseteq> S" "set_json w \<subseteq> S"
        by (rule subset_trans [OF member_numbers J_object.prems(1)], use m e in simp)
          (rule subset_trans [OF member_numbers J_object.prems(2) [unfolded fs]], use m e in simp)
      then have sub: "v = w \<and> p = p'" if "delimited p" "delimited p'" "stringify num v @ p = stringify num w @ p'" for p p'
        using that by (intro J_object.IH [OF m(1), of v]) (auto simp: e)
      show "x = y \<and> q = q'" unfolding e by (rule member_inj [OF sub q same [unfolded e]])
    qed
  qed (use J_object.prems(5) fs in \<open>auto simp: quote_text_def\<close>)
  with fs show ?case by simp
qed

end
