(* ===== verification/Compiler_Snapshot.thy ===== *)
theory Compiler_Snapshot
  imports Graph_Index Json
begin

text \<open>
  compiler/serialize.ts and \<open>cyclesOf\<close> of compiler/index.ts: the canonical form of a snapshot and its
  hash. \<open>sha256\<close> is the digest of the host, from a text to its hexadecimal form; \<open>ratText\<close> and
  \<open>numText\<close> are the texts of the numbers of a node and of its metadata. A sort by a comparator of
  identifiers is \<open>sort_key\<close>, which is stable as \<open>Array.sort\<close> is.
\<close>

section \<open>Canonical objects\<close>

definition orderedLocator :: "ContextGraphLocator \<Rightarrow> ContextGraphLocator" where
  "orderedLocator locator = \<lparr>loc_line = loc_line locator, loc_column = loc_column locator,
     loc_endLine = loc_endLine locator, loc_endColumn = loc_endColumn locator\<rparr>"

text \<open>
  The own keys of an object come in the order in which they were put, except that keys that are array
  indices come first and in numeric order. Putting \<open>__proto__\<close> makes no key.
\<close>

definition array_index :: "js_string \<Rightarrow> nat option" where
  "array_index key =
    (if key \<noteq> [] \<and> length key \<le> 10 \<and> list_all ascii_digit key \<and> (hd key \<noteq> 48 \<or> length key = 1) then
       (let n = foldl (\<lambda>n u. 10 * n + (unat u - 48)) 0 key in if n < 4294967295 then Some n else None)
     else None)"

definition own_order :: "(js_string \<times> 'v) list \<Rightarrow> (js_string \<times> 'v) list" where
  "own_order entries =
     sort_key (\<lambda>e. the (array_index (fst e))) (filter (\<lambda>e. array_index (fst e) \<noteq> None) entries)
       @ filter (\<lambda>e. array_index (fst e) = None) entries"

definition orderedMetadata :: "(js_string \<times> 'n ContextGraphMetadataValue) list \<Rightarrow> (js_string \<times> 'n ContextGraphMetadataValue) list" where
  "orderedMetadata metadata = own_order (filter (\<lambda>e. fst e \<noteq> js ''__proto__'') (sort_key fst metadata))"

definition orderedNode :: "'n ContextGraphNode \<Rightarrow> 'n ContextGraphNode" where
  "orderedNode node =
     \<lparr>n_id = n_id node, n_kind = n_kind node, n_label = n_label node, n_path = n_path node,
      n_locator = map_option orderedLocator (n_locator node), n_contentHash = n_contentHash node, n_trust = n_trust node,
      n_freshness = n_freshness node, n_risk = n_risk node, n_tokenCost = n_tokenCost node,
      n_metadata = orderedMetadata (n_metadata node)\<rparr>"

definition orderedEdge :: "bool \<Rightarrow> ContextGraphEdge \<Rightarrow> ContextGraphEdge" where
  "orderedEdge includeObservedAt edge =
     \<lparr>e_id = e_id edge, e_from = e_from edge, e_to = e_to edge, e_type = e_type edge,
      e_confidence = e_confidence edge,
      e_provenance = \<lparr>p_path = p_path (e_provenance edge), p_line = p_line (e_provenance edge),
        p_hash = p_hash (e_provenance edge), p_extractor = p_extractor (e_provenance edge)\<rparr>,
      e_observedAt = (if includeObservedAt then e_observedAt edge else [])\<rparr>"

definition sortContextGraphNodes :: "'n ContextGraphNode list \<Rightarrow> 'n ContextGraphNode list" where
  "sortContextGraphNodes nodes = sort_key n_id nodes"

definition sortContextGraphEdges :: "ContextGraphEdge list \<Rightarrow> ContextGraphEdge list" where
  "sortContextGraphEdges edges = sort_key e_id edges"

fun join_with :: "js_string \<Rightarrow> js_string list \<Rightarrow> js_string" where
  "join_with sep [] = []"
| "join_with sep [t] = t"
| "join_with sep (t # u # ts) = t @ sep @ join_with sep (u # ts)"

definition contextGraphCycleId :: "(js_string \<Rightarrow> js_string) \<Rightarrow> js_string list \<Rightarrow> js_string" where
  "contextGraphCycleId sha256 nodes = js ''cycle:'' @ shortDigest sha256 (join_with [10] (sort nodes)) 16"

definition sortContextGraphCycles :: "ContextGraphCycle list \<Rightarrow> ContextGraphCycle list" where
  "sortContextGraphCycles cycles = sort_key cy_id (map (\<lambda>cycle. \<lparr>cy_id = cy_id cycle, cy_nodes = sort (cy_nodes cycle)\<rparr>) cycles)"

definition sortExtractorStats :: "ContextGraphExtractorStat list \<Rightarrow> ContextGraphExtractorStat list" where
  "sortExtractorStats stats = sort_key xs_id (map (\<lambda>stat.
     \<lparr>xs_id = xs_id stat, xs_revision = xs_revision stat, xs_nodeCount = xs_nodeCount stat,
      xs_edgeCount = xs_edgeCount stat, xs_issueCount = xs_issueCount stat, xs_skippedCount = xs_skippedCount stat\<rparr>) stats)"

section \<open>The text that is hashed\<close>

record 'n ContextGraphSnapshotDraft =
  df_nodes :: "'n ContextGraphNode list"
  df_edges :: "ContextGraphEdge list"
  df_cycles :: "ContextGraphCycle list"
  df_extractors :: "ContextGraphExtractorStat list"

text \<open>A number is written by its text, \<open>null\<close> where it is not finite.\<close>

type_synonym json_text = "js_string json"

fun number_json :: "(rat \<Rightarrow> js_string) \<Rightarrow> js_number \<Rightarrow> json_text" where
  "number_json ratText (Finite r) = J_number (ratText r)"
| "number_json ratText _ = J_null"

definition int_json :: "(rat \<Rightarrow> js_string) \<Rightarrow> int \<Rightarrow> json_text" where
  "int_json ratText i = J_number (ratText (of_int i))"

fun confidence_name :: "ContextGraphEdgeConfidence \<Rightarrow> js_string" where
  "confidence_name Exact = js ''exact''"
| "confidence_name Syntactic = js ''syntactic''"
| "confidence_name Manifest = js ''manifest''"
| "confidence_name Observed = js ''observed''"
| "confidence_name Derived = js ''derived''"

fun freshness_name :: "ContextGraphFreshness \<Rightarrow> js_string" where
  "freshness_name Fresh = js ''fresh''"
| "freshness_name Stale = js ''stale''"
| "freshness_name Unknown = js ''unknown''"

fun risk_name :: "ContextGraphRisk \<Rightarrow> js_string" where
  "risk_name Low = js ''low''"
| "risk_name Medium = js ''medium''"
| "risk_name High = js ''high''"
| "risk_name Protected = js ''protected''"

definition member_of :: "string \<Rightarrow> 'a json \<Rightarrow> (js_string \<times> 'a json) list" where
  "member_of key value = [(js key, value)]"

definition optional_member :: "string \<Rightarrow> ('v \<Rightarrow> 'a json) \<Rightarrow> 'v option \<Rightarrow> (js_string \<times> 'a json) list" where
  "optional_member key f v = (case v of None \<Rightarrow> [] | Some x \<Rightarrow> [(js key, f x)])"

fun metadata_json :: "('n \<Rightarrow> js_string) \<Rightarrow> 'n ContextGraphMetadataValue \<Rightarrow> json_text" where
  "metadata_json numText (Meta_string s) = J_string s"
| "metadata_json numText (Meta_number n) = J_number (numText n)"
| "metadata_json numText (Meta_boolean b) = J_bool b"
| "metadata_json numText Meta_null = J_null"
| "metadata_json numText (Meta_array ss) = J_array (map J_string ss)"

definition locator_json :: "(rat \<Rightarrow> js_string) \<Rightarrow> ContextGraphLocator \<Rightarrow> json_text" where
  "locator_json ratText l = J_object (optional_member ''line'' (int_json ratText) (loc_line l) @ optional_member ''column'' (int_json ratText) (loc_column l)
     @ optional_member ''endLine'' (int_json ratText) (loc_endLine l) @ optional_member ''endColumn'' (int_json ratText) (loc_endColumn l))"

definition node_json :: "(rat \<Rightarrow> js_string) \<Rightarrow> ('n \<Rightarrow> js_string) \<Rightarrow> 'n ContextGraphNode \<Rightarrow> json_text" where
  "node_json ratText numText node = J_object (
     member_of ''id'' (J_string (n_id node)) @ member_of ''kind'' (J_string (kind_name (n_kind node)))
   @ member_of ''label'' (J_string (n_label node)) @ optional_member ''path'' J_string (n_path node)
   @ optional_member ''locator'' (locator_json ratText) (n_locator node) @ optional_member ''contentHash'' J_string (n_contentHash node)
   @ member_of ''trust'' (number_json ratText (n_trust node)) @ member_of ''freshness'' (J_string (freshness_name (n_freshness node)))
   @ member_of ''risk'' (J_string (risk_name (n_risk node))) @ member_of ''tokenCost'' (number_json ratText (n_tokenCost node))
   @ member_of ''metadata'' (J_object (map (\<lambda>(k, v). (k, metadata_json numText v)) (n_metadata node))))"

definition provenance_json :: "(rat \<Rightarrow> js_string) \<Rightarrow> ContextGraphProvenance \<Rightarrow> json_text" where
  "provenance_json ratText p = J_object (member_of ''path'' (J_string (p_path p)) @ optional_member ''line'' (int_json ratText) (p_line p)
     @ member_of ''hash'' (J_string (p_hash p)) @ member_of ''extractor'' (J_string (p_extractor p)))"

definition edge_json :: "(rat \<Rightarrow> js_string) \<Rightarrow> ContextGraphEdge \<Rightarrow> json_text" where
  "edge_json ratText edge = J_object (
     member_of ''id'' (J_string (e_id edge)) @ member_of ''from'' (J_string (e_from edge)) @ member_of ''to'' (J_string (e_to edge))
   @ member_of ''type'' (J_string (edge_type_name (e_type edge)))
   @ member_of ''confidence'' (J_string (confidence_name (e_confidence edge)))
   @ member_of ''provenance'' (provenance_json ratText (e_provenance edge)) @ member_of ''observedAt'' (J_string (e_observedAt edge)))"

definition cycle_json :: "ContextGraphCycle \<Rightarrow> json_text" where
  "cycle_json cycle = J_object (member_of ''id'' (J_string (cy_id cycle)) @ member_of ''nodes'' (J_array (map J_string (cy_nodes cycle))))"

definition stat_json :: "(rat \<Rightarrow> js_string) \<Rightarrow> ContextGraphExtractorStat \<Rightarrow> json_text" where
  "stat_json ratText stat = J_object (member_of ''id'' (J_string (xs_id stat)) @ member_of ''revision'' (J_string (xs_revision stat))
   @ member_of ''nodeCount'' (int_json ratText (int (xs_nodeCount stat))) @ member_of ''edgeCount'' (int_json ratText (int (xs_edgeCount stat)))
   @ member_of ''issueCount'' (int_json ratText (int (xs_issueCount stat))) @ member_of ''skippedCount'' (int_json ratText (int (xs_skippedCount stat))))"

definition hash_input_json :: "(rat \<Rightarrow> js_string) \<Rightarrow> ('n \<Rightarrow> js_string) \<Rightarrow> 'n ContextGraphSnapshotDraft \<Rightarrow> json_text" where
  "hash_input_json ratText numText draft = J_object (
     member_of ''schema'' (J_string CONTEXT_GRAPH_SCHEMA) @ member_of ''schemaRevision'' (J_string CONTEXT_GRAPH_SCHEMA_REVISION)
   @ member_of ''nodes'' (J_array (map (node_json ratText numText \<circ> orderedNode) (sortContextGraphNodes (df_nodes draft))))
   @ member_of ''edges'' (J_array (map (edge_json ratText \<circ> orderedEdge False) (sortContextGraphEdges (df_edges draft))))
   @ member_of ''cycles'' (J_array (map cycle_json (sortContextGraphCycles (df_cycles draft))))
   @ member_of ''extractors'' (J_array (map (stat_json ratText) (sortExtractorStats (df_extractors draft)))))"

definition canonicalContextGraphHashInput ::
  "(rat \<Rightarrow> js_string) \<Rightarrow> ('n \<Rightarrow> js_string) \<Rightarrow> 'n ContextGraphSnapshotDraft \<Rightarrow> js_string" where
  "canonicalContextGraphHashInput ratText numText draft = stringify (\<lambda>t. t) (hash_input_json ratText numText draft)"

definition computeContextGraphSnapshotHash ::
  "(rat \<Rightarrow> js_string) \<Rightarrow> ('n \<Rightarrow> js_string) \<Rightarrow> (js_string \<Rightarrow> js_string) \<Rightarrow> 'n ContextGraphSnapshotDraft \<Rightarrow> js_string" where
  "computeContextGraphSnapshotHash ratText numText sha256 draft = sha256 (canonicalContextGraphHashInput ratText numText draft)"

definition buildContextGraphSnapshot ::
  "(rat \<Rightarrow> js_string) \<Rightarrow> ('n \<Rightarrow> js_string) \<Rightarrow> (js_string \<Rightarrow> js_string) \<Rightarrow> 'n ContextGraphSnapshotDraft \<Rightarrow> 'n ContextGraphSnapshot" where
  "buildContextGraphSnapshot ratText numText sha256 draft =
    (let nodes = map orderedNode (sortContextGraphNodes (df_nodes draft));
         edges = map (orderedEdge True) (sortContextGraphEdges (df_edges draft));
         cycles = sortContextGraphCycles (df_cycles draft);
         extractors = sortExtractorStats (df_extractors draft);
         snapshotHash = computeContextGraphSnapshotHash ratText numText sha256
           \<lparr>df_nodes = nodes, df_edges = edges, df_cycles = cycles, df_extractors = extractors\<rparr> in
     \<lparr>s_schema = CONTEXT_GRAPH_SCHEMA, s_schemaRevision = CONTEXT_GRAPH_SCHEMA_REVISION, s_snapshotHash = snapshotHash,
      s_nodes = nodes, s_edges = edges, s_cycles = cycles, s_extractors = extractors,
      s_nodeCount = length nodes, s_edgeCount = length edges\<rparr>)"

definition cyclesOf ::
  "(js_string \<Rightarrow> js_string) \<Rightarrow> (js_string \<Rightarrow> 'k::linorder) \<Rightarrow> (js_string \<Rightarrow> js_string) \<Rightarrow> 'n ContextGraphSnapshot \<Rightarrow> ContextGraphCycle list option" where
  "cyclesOf lower collate sha256 snapshot =
     map_option (map (\<lambda>nodes. \<lparr>cy_id = contextGraphCycleId sha256 nodes, cy_nodes = nodes\<rparr>))
       (computeStronglyConnectedComponents collate (map n_id (s_nodes snapshot)) (index_targets (buildContextGraphIndex lower snapshot)))"

end
