(* ===== verification/Compiler_Merge.thy ===== *)
theory Compiler_Merge
  imports Compiler_Types
begin

text \<open>
  compiler/merge.ts: the fragments of all extractors become one set of nodes and one set of edges,
  on top of what an incremental compile carries over; the caps cut a graph that is too large; and
  the slice of the previous generation that is carried over.
\<close>

section \<open>Ranks\<close>

definition CONFIDENCE_RANK :: "ContextGraphEdgeConfidence \<Rightarrow> int" where
  "CONFIDENCE_RANK c = (case c of Exact \<Rightarrow> 4 | Manifest \<Rightarrow> 3 | Syntactic \<Rightarrow> 2 | Observed \<Rightarrow> 1 | Derived \<Rightarrow> 0)"

definition FRESHNESS_RANK :: "ContextGraphFreshness \<Rightarrow> int" where
  "FRESHNESS_RANK f = (case f of Stale \<Rightarrow> 0 | Unknown \<Rightarrow> 1 | Fresh \<Rightarrow> 2)"

definition RISK_RANK :: "ContextGraphRisk \<Rightarrow> int" where
  "RISK_RANK r = (case r of Low \<Rightarrow> 0 | Medium \<Rightarrow> 1 | High \<Rightarrow> 2 | Protected \<Rightarrow> 3)"

text \<open>\<open>Math.max\<close>: not a number if either argument is not.\<close>

definition math_max :: "js_number \<Rightarrow> js_number \<Rightarrow> js_number" where
  "math_max a b = (case (a, b) of
       (Not_a_number, _) \<Rightarrow> Not_a_number | (_, Not_a_number) \<Rightarrow> Not_a_number
     | (Infinite, _) \<Rightarrow> Infinite | (_, Infinite) \<Rightarrow> Infinite
     | (Negative_infinite, y) \<Rightarrow> y | (x, Negative_infinite) \<Rightarrow> x
     | (Finite x, Finite y) \<Rightarrow> Finite (max x y))"

section \<open>Merging a node\<close>

datatype DroppedEdgeReason = Derived_without_exact_or_manifest_support | Carried_edge_endpoint_removed

record DroppedContextGraphEdge =
  dr_edgeId :: js_string
  dr_from :: js_string
  dr_to :: js_string
  dr_reason :: DroppedEdgeReason

record 'n ContextGraphCarryForward =
  cf_nodes :: "'n ContextGraphNode list"
  cf_edges :: "ContextGraphEdge list"

record 'n NodeSlot =
  ns_node :: "'n ContextGraphNode"
  ns_carried :: bool

record EdgeSlot =
  es_slot_edge :: ContextGraphEdge
  es_carried :: bool

text \<open>Entries of \<open>incoming\<close> fill what \<open>base\<close> lacks or has as null or the empty string.\<close>

definition merge_entry ::
  "js_string \<times> 'n ContextGraphMetadataValue \<Rightarrow> (js_string \<times> 'n ContextGraphMetadataValue) list
     \<Rightarrow> (js_string \<times> 'n ContextGraphMetadataValue) list" where
  "merge_entry entry out = (case object_get (map_of out) (fst entry) of
       Absent \<Rightarrow> AList.update (fst entry) (snd entry) out
     | Inherited \<Rightarrow> out
     | Own existing \<Rightarrow> if existing = Meta_null \<or> existing = Meta_string [] then AList.update (fst entry) (snd entry) out else out)"

definition mergeMetadata ::
  "(js_string \<times> 'n ContextGraphMetadataValue) list \<Rightarrow> (js_string \<times> 'n ContextGraphMetadataValue) list
     \<Rightarrow> (js_string \<times> 'n ContextGraphMetadataValue) list" where
  "mergeMetadata base incoming = fold merge_entry incoming base"

definition mergeNode :: "'n ContextGraphNode \<Rightarrow> 'n ContextGraphNode \<Rightarrow> 'n ContextGraphNode" where
  "mergeNode existing incoming =
     \<lparr>n_id = n_id existing, n_kind = n_kind existing,
      n_label = (if n_label existing = [] then n_label incoming else n_label existing),
      n_path = first_defined (n_path existing) (n_path incoming),
      n_locator = first_defined (n_locator existing) (n_locator incoming),
      n_contentHash = first_defined (n_contentHash existing) (n_contentHash incoming),
      n_trust = math_max (n_trust existing) (n_trust incoming),
      n_freshness = (if FRESHNESS_RANK (n_freshness existing) \<le> FRESHNESS_RANK (n_freshness incoming)
        then n_freshness existing else n_freshness incoming),
      n_risk = (if RISK_RANK (n_risk existing) \<ge> RISK_RANK (n_risk incoming) then n_risk existing else n_risk incoming),
      n_tokenCost = math_max (n_tokenCost existing) (n_tokenCost incoming),
      n_metadata = mergeMetadata (n_metadata existing) (n_metadata incoming)\<rparr>"

definition conflictIssue :: "'n ContextGraphNode \<Rightarrow> 'n ContextGraphNode \<Rightarrow> js_string \<Rightarrow> ContextGraphLintIssue option" where
  "conflictIssue existing incoming extractor =
    (let place = nowhere\<lparr>li_nodeId := Some (n_id existing), li_extractor := Some extractor\<rparr> in
     if n_kind existing \<noteq> n_kind incoming then
       Some (lintError Duplicate_node_conflict (js ''node '' @ n_id existing @ js '' is declared as both ''
         @ kind_name (n_kind existing) @ js '' and '' @ kind_name (n_kind incoming)) place)
     else if truthy (n_contentHash existing) \<and> truthy (n_contentHash incoming) \<and> n_contentHash existing \<noteq> n_contentHash incoming then
       Some (lintError Duplicate_node_conflict
         (js ''node '' @ n_id existing @ js '' has two different content hashes for the same path'') place)
     else None)"

section \<open>Merging fragments\<close>

record 'n MergeState =
  mg_issues :: "ContextGraphLintIssue list"
  mg_nodes :: "(js_string \<times> 'n NodeSlot) list"
  mg_edges :: "(js_string \<times> EdgeSlot) list"
  mg_inputHashes :: "js_string \<rightharpoonup> js_string"
  mg_skipped :: "ContextGraphSkip list"
  mg_stats :: "(js_string \<times> ContextGraphExtractorStat) list"

definition put_node :: "'n ContextGraphNode \<Rightarrow> 'n MergeState \<Rightarrow> 'n MergeState" where
  "put_node node s = s\<lparr>mg_nodes := AList.update (n_id node) \<lparr>ns_node = node, ns_carried = False\<rparr> (mg_nodes s)\<rparr>"

definition put_edge :: "ContextGraphEdge \<Rightarrow> 'n MergeState \<Rightarrow> 'n MergeState" where
  "put_edge edge s = s\<lparr>mg_edges := AList.update (e_id edge) \<lparr>es_slot_edge = edge, es_carried = False\<rparr> (mg_edges s)\<rparr>"

definition merge_node_in :: "js_string \<Rightarrow> 'n ContextGraphNode \<Rightarrow> 'n MergeState \<Rightarrow> 'n MergeState" where
  "merge_node_in extractor node s = (case map_of (mg_nodes s) (n_id node) of
       None \<Rightarrow> put_node node s
     | Some slot \<Rightarrow> if ns_carried slot then put_node node s
         else (case conflictIssue (ns_node slot) node extractor of
             Some conflict \<Rightarrow> s\<lparr>mg_issues := mg_issues s @ [conflict]\<rparr>
           | None \<Rightarrow> s\<lparr>mg_nodes := AList.update (n_id node) \<lparr>ns_node = mergeNode (ns_node slot) node, ns_carried = False\<rparr> (mg_nodes s)\<rparr>))"

definition merge_edge_in :: "ContextGraphEdge \<Rightarrow> 'n MergeState \<Rightarrow> 'n MergeState" where
  "merge_edge_in edge s = (case map_of (mg_edges s) (e_id edge) of
       None \<Rightarrow> put_edge edge s
     | Some slot \<Rightarrow> if es_carried slot then put_edge edge s
         else let keepExisting = CONFIDENCE_RANK (e_confidence (es_slot_edge slot)) \<ge> CONFIDENCE_RANK (e_confidence edge) in
           s\<lparr>mg_edges := AList.update (e_id edge)
             \<lparr>es_slot_edge = (if keepExisting then es_slot_edge slot else edge), es_carried = False\<rparr> (mg_edges s)\<rparr>)"

definition merge_hash_in :: "js_string \<Rightarrow> js_string \<times> js_string \<Rightarrow> 'n MergeState \<Rightarrow> 'n MergeState" where
  "merge_hash_in extractor entry s =
    (let (file, hash) = entry in
     case object_get (mg_inputHashes s) file of
       Absent \<Rightarrow> s\<lparr>mg_inputHashes := (mg_inputHashes s)(file \<mapsto> hash)\<rparr>
     | existing \<Rightarrow> if existing = Own hash then s
         else s\<lparr>mg_issues := mg_issues s @ [lintError Hash_mismatch
           (js ''extractors disagree on the content hash of '' @ file)
           (nowhere\<lparr>li_path := Some file, li_extractor := Some extractor\<rparr>)]\<rparr>)"

definition stat_of :: "'n ContextGraphFragment \<Rightarrow> ContextGraphExtractorStat option \<Rightarrow> ContextGraphExtractorStat" where
  "stat_of fragment stat =
    (let so_far = (\<lambda>f. case stat of None \<Rightarrow> 0 | Some x \<Rightarrow> f x) in
     \<lparr>xs_id = fg_extractor fragment, xs_revision = fg_extractorRevision fragment,
      xs_nodeCount = so_far xs_nodeCount + length (fg_nodes fragment),
      xs_edgeCount = so_far xs_edgeCount + length (fg_edges fragment),
      xs_issueCount = so_far xs_issueCount + length (fg_issues fragment),
      xs_skippedCount = so_far xs_skippedCount + length (fg_skipped fragment)\<rparr>)"

definition merge_fragment :: "'n ContextGraphFragment \<Rightarrow> 'n MergeState \<Rightarrow> 'n MergeState" where
  "merge_fragment fragment s =
    (let extractor = fg_extractor fragment in
     if fg_schema fragment \<noteq> CONTEXT_GRAPH_FRAGMENT_SCHEMA then
       s\<lparr>mg_issues := mg_issues s @ [lintError Snapshot_meta_mismatch
         (js ''fragment from '' @ extractor @ js '' has an unsupported schema'') (nowhere\<lparr>li_extractor := Some extractor\<rparr>)]\<rparr>
     else
       let s = fold (merge_node_in extractor) (fg_nodes fragment) s;
           s = fold merge_edge_in (fg_edges fragment) s;
           s = fold (merge_hash_in extractor) (fg_inputHashes fragment) s;
           s = s\<lparr>mg_skipped := mg_skipped s @ fg_skipped fragment\<rparr>;
           s = s\<lparr>mg_issues := mg_issues s @ map (\<lambda>issue.
             issue\<lparr>li_extractor := first_defined (li_extractor issue) (Some extractor)\<rparr>) (fg_issues fragment)\<rparr> in
       s\<lparr>mg_stats := AList.update extractor (stat_of fragment (map_of (mg_stats s) extractor)) (mg_stats s)\<rparr>)"

definition sortFragments :: "'n ContextGraphFragment list \<Rightarrow> 'n ContextGraphFragment list" where
  "sortFragments fragments = sort_key fg_extractor (sort_key fg_extractorRevision fragments)"

text \<open>The two ends joined by a NUL.\<close>

definition pairKey :: "ContextGraphEdge \<Rightarrow> js_string" where
  "pairKey edge = e_from edge @ 0 # e_to edge"

definition drop_edge :: "ContextGraphEdge \<Rightarrow> DroppedEdgeReason \<Rightarrow> DroppedContextGraphEdge" where
  "drop_edge edge reason = \<lparr>dr_edgeId = e_id edge, dr_from = e_from edge, dr_to = e_to edge, dr_reason = reason\<rparr>"

definition drop_reason :: "js_string set \<Rightarrow> js_string set \<Rightarrow> EdgeSlot \<Rightarrow> DroppedEdgeReason option" where
  "drop_reason nodeIds justified slot =
    (let edge = es_slot_edge slot in
     if es_carried slot \<and> (e_from edge \<notin> nodeIds \<or> e_to edge \<notin> nodeIds) then Some Carried_edge_endpoint_removed
     else if e_confidence edge = Derived \<and> pairKey edge \<notin> justified then Some Derived_without_exact_or_manifest_support
     else None)"

fun keep_edges :: "js_string set \<Rightarrow> js_string set \<Rightarrow> EdgeSlot list \<Rightarrow> ContextGraphEdge list \<times> DroppedContextGraphEdge list" where
  "keep_edges nodeIds justified [] = ([], [])"
| "keep_edges nodeIds justified (slot # slots) =
    (let (kept, dropped) = keep_edges nodeIds justified slots in
     case drop_reason nodeIds justified slot of
       Some reason \<Rightarrow> (kept, drop_edge (es_slot_edge slot) reason # dropped)
     | None \<Rightarrow> (es_slot_edge slot # kept, dropped))"

record 'n MergeContextGraphResult =
  mr_nodes :: "'n ContextGraphNode list"
  mr_edges :: "ContextGraphEdge list"
  mr_issues :: "ContextGraphLintIssue list"
  mr_dropped :: "DroppedContextGraphEdge list"
  mr_skipped :: "ContextGraphSkip list"
  mr_inputHashes :: "js_string \<rightharpoonup> js_string"
  mr_extractors :: "ContextGraphExtractorStat list"
  mr_carriedNodeCount :: nat
  mr_carriedEdgeCount :: nat

definition merge_start :: "'n ContextGraphCarryForward option \<Rightarrow> 'n MergeState" where
  "merge_start carry =
    \<lparr>mg_issues = [],
     mg_nodes = fold (\<lambda>node. AList.update (n_id node) \<lparr>ns_node = node, ns_carried = True\<rparr>)
       (case carry of None \<Rightarrow> [] | Some c \<Rightarrow> cf_nodes c) [],
     mg_edges = fold (\<lambda>edge. AList.update (e_id edge) \<lparr>es_slot_edge = edge, es_carried = True\<rparr>)
       (case carry of None \<Rightarrow> [] | Some c \<Rightarrow> cf_edges c) [],
     mg_inputHashes = Map.empty, mg_skipped = [], mg_stats = []\<rparr>"

definition mergeContextGraphFragments ::
  "'n ContextGraphFragment list \<Rightarrow> 'n ContextGraphCarryForward option \<Rightarrow> 'n MergeContextGraphResult" where
  "mergeContextGraphFragments fragments carry =
    (let start = merge_start carry;
         s = fold merge_fragment (sortFragments fragments) start;
         slots = map snd (mg_edges s);
         nodeIds = set (map fst (mg_nodes s));
         justified = set (map (\<lambda>slot. pairKey (es_slot_edge slot))
           (filter (\<lambda>slot. e_confidence (es_slot_edge slot) \<in> {Exact, Manifest}) slots));
         (keptEdges, dropped) = keep_edges nodeIds justified slots in
     \<lparr>mr_nodes = map (\<lambda>e. ns_node (snd e)) (mg_nodes s), mr_edges = keptEdges, mr_issues = mg_issues s,
      mr_dropped = sort_key dr_edgeId dropped, mr_skipped = mg_skipped s, mr_inputHashes = mg_inputHashes s,
      mr_extractors = map snd (mg_stats s),
      mr_carriedNodeCount = length (mg_nodes start), mr_carriedEdgeCount = length (mg_edges start)\<rparr>)"

section \<open>Caps\<close>

text \<open>\<open>Array.prototype.sort\<close> with a comparator, stable: \<open>before a b\<close> is \<open>compare(a, b) <= 0\<close>.\<close>

fun insert_by :: "('a \<Rightarrow> 'a \<Rightarrow> bool) \<Rightarrow> 'a \<Rightarrow> 'a list \<Rightarrow> 'a list" where
  "insert_by before x [] = [x]"
| "insert_by before x (y # ys) = (if before x y then x # y # ys else y # insert_by before x ys)"

definition sort_by :: "('a \<Rightarrow> 'a \<Rightarrow> bool) \<Rightarrow> 'a list \<Rightarrow> 'a list" where
  "sort_by before xs = foldr (insert_by before) xs []"

text \<open>
  The sign of \<open>right - left\<close> on numbers, 0 where the difference is not a number: such a difference
  is falsy and the next criterion decides.
\<close>

definition difference_sign :: "js_number \<Rightarrow> js_number \<Rightarrow> int" where
  "difference_sign right left = (case (right, left) of
       (Finite x, Finite y) \<Rightarrow> (if x < y then -1 else if y < x then 1 else 0)
     | (Not_a_number, _) \<Rightarrow> 0 | (_, Not_a_number) \<Rightarrow> 0
     | (Infinite, Infinite) \<Rightarrow> 0 | (Negative_infinite, Negative_infinite) \<Rightarrow> 0
     | (Infinite, _) \<Rightarrow> 1 | (_, Negative_infinite) \<Rightarrow> 1 | (_, Infinite) \<Rightarrow> -1 | (Negative_infinite, _) \<Rightarrow> -1)"

definition ranked_before :: "'n ContextGraphNode \<Rightarrow> 'n ContextGraphNode \<Rightarrow> bool" where
  "ranked_before left right =
    (let byRisk = RISK_RANK (n_risk right) - RISK_RANK (n_risk left);
         byTrust = difference_sign (n_trust right) (n_trust left) in
     if byRisk \<noteq> 0 then byRisk < 0 else if byTrust \<noteq> 0 then byTrust < 0 else n_id left \<le> n_id right)"

definition edge_before :: "ContextGraphEdge \<Rightarrow> ContextGraphEdge \<Rightarrow> bool" where
  "edge_before left right =
    (let byConfidence = CONFIDENCE_RANK (e_confidence right) - CONFIDENCE_RANK (e_confidence left) in
     if byConfidence \<noteq> 0 then byConfidence < 0 else e_id left \<le> e_id right)"

definition cap_reached :: "js_string \<Rightarrow> ContextGraphSkip" where
  "cap_reached detail = \<lparr>sk_path = js ''.'', sk_reason = Skip_cap_reached, sk_detail = Some detail\<rparr>"

definition applyContextGraphCaps ::
  "'n ContextGraphNode list \<Rightarrow> ContextGraphEdge list \<Rightarrow> nat \<Rightarrow> nat
     \<Rightarrow> 'n ContextGraphNode list \<times> ContextGraphEdge list \<times> ContextGraphSkip list" where
  "applyContextGraphCaps nodes edges maxNodes maxEdges =
    (let over = maxNodes > 0 \<and> length nodes > maxNodes;
         ranked = sort_by ranked_before nodes;
         droppedNodeIds = (if over then set (map n_id (drop maxNodes ranked)) else {});
         keptNodes = (if over then take maxNodes ranked else nodes);
         skipped = (if over then [cap_reached (js ''node cap reached; '' @ decimal (card droppedNodeIds) @ js '' node(s) dropped'')]
           else []);
         keptEdges = (if droppedNodeIds = {} then edges
           else filter (\<lambda>edge. e_from edge \<notin> droppedNodeIds \<and> e_to edge \<notin> droppedNodeIds) edges) in
     if maxEdges > 0 \<and> length keptEdges > maxEdges then
       (keptNodes, take maxEdges (sort_by edge_before keptEdges),
        skipped @ [cap_reached (js ''edge cap reached; '' @ decimal (length keptEdges - maxEdges) @ js '' edge(s) dropped'')])
     else (keptNodes, keptEdges, skipped))"

section \<open>Carry forward\<close>

definition carryForwardFromSnapshot ::
  "'n ContextGraphNode list \<Rightarrow> ContextGraphEdge list \<Rightarrow> js_string list \<Rightarrow> 'n ContextGraphCarryForward" where
  "carryForwardFromSnapshot nodes edges changedPaths =
    (let changed = set changedPaths in
     \<lparr>cf_nodes = filter (\<lambda>node. \<not> (n_path node \<noteq> None \<and> the (n_path node) \<in> changed)) nodes,
      cf_edges = filter (\<lambda>edge. p_path (e_provenance edge) \<notin> changed) edges\<rparr>)"

end
