(* ===== verification/Compiler_Merge_Correct.thy ===== *)
theory Compiler_Merge_Correct
  imports Compiler_Merge
begin

text \<open>
  What a merge guarantees: one node and one edge per identifier, nothing carried over that dangles,
  no derived edge without support, every dropped edge accounted for, and a result that does not
  depend on the order in which the fragments arrive.
\<close>

section \<open>The state of a merge\<close>

definition keyed :: "('a \<Rightarrow> js_string) \<Rightarrow> (js_string \<times> 'a) list \<Rightarrow> bool" where
  "keyed key al \<longleftrightarrow> distinct (map fst al) \<and> (\<forall>(k, v) \<in> set al. key v = k)"

lemma keyed_nil [simp]: "keyed key []"
  by (simp add: keyed_def)

lemma put_members: "set (AList.update k v al) \<subseteq> insert (k, v) (set al)"
  by (induction al) auto

lemma keyed_put: "keyed key al \<Longrightarrow> key v = k \<Longrightarrow> keyed key (AList.update k v al)"
  using put_members [of k v al] by (fastforce simp: keyed_def put_distinct)

lemma keyed_values: "keyed key al \<Longrightarrow> map key (map snd al) = map fst al"
  by (auto simp: keyed_def)

lemma keyed_lookup: "keyed key al \<Longrightarrow> map_of al k = Some v \<Longrightarrow> key v = k"
  by (auto simp: keyed_def dest: map_of_SomeD)

definition slot_id :: "'n NodeSlot \<Rightarrow> js_string" where "slot_id slot = n_id (ns_node slot)"
definition edge_slot_id :: "EdgeSlot \<Rightarrow> js_string" where "edge_slot_id slot = e_id (es_slot_edge slot)"

definition merge_ok :: "'n MergeState \<Rightarrow> bool" where
  "merge_ok s \<longleftrightarrow> keyed slot_id (mg_nodes s) \<and> keyed edge_slot_id (mg_edges s)"

lemma merged_id [simp]: "n_id (mergeNode a b) = n_id a"
  by (simp add: mergeNode_def)

lemma node_in_ok:
  assumes "merge_ok s" shows "merge_ok (merge_node_in x node s)"
proof -
  have "slot_id slot = n_id node" if "map_of (mg_nodes s) (n_id node) = Some slot" for slot
    using keyed_lookup [OF _ that] assms by (simp add: merge_ok_def)
  with assms show ?thesis
    by (auto simp: merge_node_in_def put_node_def merge_ok_def slot_id_def intro!: keyed_put split: option.split)
qed

lemma edge_in_ok:
  assumes "merge_ok s" shows "merge_ok (merge_edge_in edge s)"
proof -
  have "edge_slot_id slot = e_id edge" if "map_of (mg_edges s) (e_id edge) = Some slot" for slot
    using keyed_lookup [OF _ that] assms by (simp add: merge_ok_def)
  with assms show ?thesis
    by (auto simp: merge_edge_in_def put_edge_def merge_ok_def edge_slot_id_def Let_def intro!: keyed_put split: option.split)
qed

lemma hash_in_fields:
  "mg_nodes (merge_hash_in x h s) = mg_nodes s" "mg_edges (merge_hash_in x h s) = mg_edges s"
  by (auto simp: merge_hash_in_def Let_def split: prod.split property.split)

lemma hashes_in_fields:
  "mg_nodes (fold (merge_hash_in x) hs s) = mg_nodes s" "mg_edges (fold (merge_hash_in x) hs s) = mg_edges s"
  by (induction hs arbitrary: s) (simp_all add: hash_in_fields)

lemma fold_keeps: "P s \<Longrightarrow> (\<And>x s. x \<in> set xs \<Longrightarrow> P s \<Longrightarrow> P (f x s)) \<Longrightarrow> P (fold f xs s)"
  by (induction xs arbitrary: s) auto

lemma fragment_ok:
  assumes "merge_ok s" shows "merge_ok (merge_fragment fragment s)"
proof -
  have "merge_ok (fold merge_edge_in (fg_edges fragment) (fold (merge_node_in (fg_extractor fragment)) (fg_nodes fragment) s))"
    by (intro fold_keeps [of merge_ok] edge_in_ok node_in_ok assms)
  with assms show ?thesis by (simp add: merge_fragment_def Let_def merge_ok_def hashes_in_fields)
qed

lemma start_merge_ok: "merge_ok (merge_start carry)"
proof -
  have "keyed slot_id (fold (\<lambda>node. AList.update (n_id node) \<lparr>ns_node = node, ns_carried = True\<rparr>) ns [])" for ns :: "'n ContextGraphNode list"
    by (rule fold_keeps [of "keyed slot_id"]) (auto intro!: keyed_put simp: slot_id_def)
  moreover have "keyed edge_slot_id (fold (\<lambda>edge. AList.update (e_id edge) \<lparr>es_slot_edge = edge, es_carried = True\<rparr>) es [])" for es
    by (rule fold_keeps [of "keyed edge_slot_id"]) (auto intro!: keyed_put simp: edge_slot_id_def)
  ultimately show ?thesis by (simp add: merge_ok_def merge_start_def)
qed

lemma fragments_ok: "merge_ok (fold merge_fragment fragments (merge_start carry))"
  by (intro fold_keeps [of merge_ok] fragment_ok start_merge_ok)

section \<open>What is kept and what is dropped\<close>

lemma keep_edges_kept:
  "keep_edges ids just slots = (kept, dropped) \<Longrightarrow> kept = map es_slot_edge (filter (\<lambda>slot. drop_reason ids just slot = None) slots)"
  by (induction slots arbitrary: kept dropped) (auto simp: Let_def split: prod.splits option.splits)

lemma keep_edges_dropped:
  "keep_edges ids just slots = (kept, dropped) \<Longrightarrow>
     dropped = map (\<lambda>slot. drop_edge (es_slot_edge slot) (the (drop_reason ids just slot))) (filter (\<lambda>slot. drop_reason ids just slot \<noteq> None) slots)"
  by (induction slots arbitrary: kept dropped) (auto simp: Let_def split: prod.splits option.splits)

text \<open>The result of a merge, from its final state.\<close>

definition supported :: "EdgeSlot list \<Rightarrow> js_string set" where
  "supported slots = {pairKey (es_slot_edge slot) | slot. slot \<in> set slots \<and> e_confidence (es_slot_edge slot) \<in> {Exact, Manifest}}"


lemma merge_result:
  obtains s where "s = fold merge_fragment (sortFragments fragments) (merge_start carry)" "merge_ok s"
    "mr_nodes (mergeContextGraphFragments fragments carry) = map ns_node (map snd (mg_nodes s))"
    "mr_edges (mergeContextGraphFragments fragments carry) = map es_slot_edge (filter (\<lambda>slot. drop_reason
       (set (map fst (mg_nodes s))) (supported (map snd (mg_edges s))) slot = None) (map snd (mg_edges s)))"
    "mr_dropped (mergeContextGraphFragments fragments carry) = sort_key dr_edgeId (map (\<lambda>slot. drop_edge (es_slot_edge slot)
       (the (drop_reason (set (map fst (mg_nodes s))) (supported (map snd (mg_edges s))) slot)))
       (filter (\<lambda>slot. drop_reason (set (map fst (mg_nodes s))) (supported (map snd (mg_edges s))) slot \<noteq> None) (map snd (mg_edges s))))"
    "mr_issues (mergeContextGraphFragments fragments carry) = mg_issues s"
    "mr_inputHashes (mergeContextGraphFragments fragments carry) = mg_inputHashes s"
proof -
  define s where "s = fold merge_fragment (sortFragments fragments) (merge_start carry)"
  have just: "set (map (\<lambda>slot. pairKey (es_slot_edge slot))
      (filter (\<lambda>slot. e_confidence (es_slot_edge slot) \<in> {Exact, Manifest}) (map snd (mg_edges s)))) = supported (map snd (mg_edges s))"
    by (auto simp: supported_def)
  obtain kept dropped where k: "keep_edges (set (map fst (mg_nodes s))) (supported (map snd (mg_edges s))) (map snd (mg_edges s)) = (kept, dropped)"
    by fastforce
  note merged = mergeContextGraphFragments_def [of fragments carry, unfolded Let_def, folded s_def, unfolded just k prod.case]
  show thesis
    by (rule that [OF s_def]) (simp_all add: merged s_def fragments_ok keep_edges_kept [OF k] keep_edges_dropped [OF k])
qed

section \<open>One entry at a time\<close>

text \<open>The edges and the nodes of the state change independently of everything else.\<close>

definition edge_choice :: "ContextGraphEdge \<Rightarrow> EdgeSlot option \<Rightarrow> ContextGraphEdge" where
  "edge_choice edge slot = (case slot of None \<Rightarrow> edge
     | Some x \<Rightarrow> if \<not> es_carried x \<and> CONFIDENCE_RANK (e_confidence (es_slot_edge x)) \<ge> CONFIDENCE_RANK (e_confidence edge)
         then es_slot_edge x else edge)"

definition merged_edge :: "ContextGraphEdge \<Rightarrow> (js_string \<times> EdgeSlot) list \<Rightarrow> (js_string \<times> EdgeSlot) list" where
  "merged_edge edge al = AList.update (e_id edge) \<lparr>es_slot_edge = edge_choice edge (map_of al (e_id edge)), es_carried = False\<rparr> al"

lemma edge_in_step: "merge_edge_in edge s = s\<lparr>mg_edges := merged_edge edge (mg_edges s)\<rparr>"
  by (auto simp: merge_edge_in_def put_edge_def merged_edge_def edge_choice_def Let_def split: option.split)

definition node_choice :: "'n ContextGraphNode \<Rightarrow> 'n NodeSlot option \<Rightarrow> 'n ContextGraphNode" where
  "node_choice node slot = (case slot of None \<Rightarrow> node
     | Some x \<Rightarrow> if ns_carried x then node
         else if conflictIssue (ns_node x) node [] = None then mergeNode (ns_node x) node else ns_node x)"

definition node_step :: "'n ContextGraphNode \<Rightarrow> (js_string \<times> 'n NodeSlot) list \<Rightarrow> (js_string \<times> 'n NodeSlot) list" where
  "node_step node al = AList.update (n_id node) \<lparr>ns_node = node_choice node (map_of al (n_id node)), ns_carried = False\<rparr> al"

lemma put_same: "map_of al k = Some v \<Longrightarrow> AList.update k v al = al"
  by (induction al) auto

lemma conflict_anywhere: "conflictIssue a b x = None \<longleftrightarrow> conflictIssue a b y = None"
  by (simp add: conflictIssue_def Let_def)

lemma node_in_step: "mg_nodes (merge_node_in x node s) = node_step node (mg_nodes s)"
proof (cases "map_of (mg_nodes s) (n_id node)")
  case None
  then show ?thesis by (simp add: merge_node_in_def put_node_def node_step_def node_choice_def)
next
  case (Some slot)
  show ?thesis
  proof (cases "ns_carried slot")
    case True
    then show ?thesis using Some by (simp add: merge_node_in_def put_node_def node_step_def node_choice_def)
  next
    case False
    show ?thesis
    proof (cases "conflictIssue (ns_node slot) node x")
      case None
      then have "conflictIssue (ns_node slot) node [] = None" using conflict_anywhere by metis
      with None False Some show ?thesis by (simp add: merge_node_in_def node_step_def node_choice_def)
    next
      case conflict: (Some issue)
      then have "conflictIssue (ns_node slot) node [] \<noteq> None" using conflict_anywhere by (metis option.distinct(1))
      then have "node_step node (mg_nodes s) = mg_nodes s"
        using False Some put_same [OF Some] by (cases slot) (auto simp: node_step_def node_choice_def)
      with conflict False Some show ?thesis by (simp add: merge_node_in_def)
    qed
  qed
qed

lemma node_in_edges: "mg_edges (merge_node_in x node s) = mg_edges s"
  by (auto simp: merge_node_in_def put_node_def split: option.split)

lemma nodes_in: "mg_nodes (fold (merge_node_in x) ns s) = fold node_step ns (mg_nodes s)"
  "mg_edges (fold (merge_node_in x) ns s) = mg_edges s"
  by (induction ns arbitrary: s) (simp_all add: node_in_step node_in_edges)

lemma edges_in: "mg_edges (fold merge_edge_in es s) = fold merged_edge es (mg_edges s)"
  "mg_nodes (fold merge_edge_in es s) = mg_nodes s"
  by (induction es arbitrary: s) (simp_all add: edge_in_step)

definition usable :: "'n ContextGraphFragment list \<Rightarrow> 'n ContextGraphFragment list" where
  "usable fragments = filter (\<lambda>f. fg_schema f = CONTEXT_GRAPH_FRAGMENT_SCHEMA) fragments"

lemma fragment_in:
  "mg_nodes (merge_fragment f s) = fold node_step (concat (map fg_nodes (usable [f]))) (mg_nodes s)"
  "mg_edges (merge_fragment f s) = fold merged_edge (concat (map fg_edges (usable [f]))) (mg_edges s)"
  by (simp_all add: merge_fragment_def Let_def usable_def hashes_in_fields nodes_in edges_in)

lemma fragments_in:
  "mg_nodes (fold merge_fragment fs s) = fold node_step (concat (map fg_nodes (usable fs))) (mg_nodes s)"
  "mg_edges (fold merge_fragment fs s) = fold merged_edge (concat (map fg_edges (usable fs))) (mg_edges s)"
  by (induction fs arbitrary: s) (simp_all add: fragment_in usable_def)

section \<open>The edges of a merge\<close>

lemma edges_final:
  assumes "\<forall>(k, v) \<in> set al. es_carried v"
  shows "map_of (fold merged_edge es al) i = (if i \<in> e_id ` set es then map_of (fold merged_edge es al) i else map_of al i)"
    "i \<in> e_id ` set es \<Longrightarrow> \<exists>e \<in> set es. e_id e = i \<and> map_of (fold merged_edge es al) i = Some \<lparr>es_slot_edge = e, es_carried = False\<rparr>
       \<and> (\<forall>d \<in> set es. e_id d = i \<longrightarrow> CONFIDENCE_RANK (e_confidence d) \<le> CONFIDENCE_RANK (e_confidence e))"
proof (induction es rule: rev_induct)
  case (snoc e es)
  let ?al = "fold merged_edge es al"
  have step: "map_of (fold merged_edge (es @ [e]) al) j = (if j = e_id e
      then Some \<lparr>es_slot_edge = edge_choice e (map_of ?al j), es_carried = False\<rparr> else map_of ?al j)" for j
    by (simp add: merged_edge_def map_of_put)
  { case 1
    show ?case using snoc.IH(1) step by auto
  next
    case 2
    show ?case
    proof (cases "i = e_id e")
      case False
      then have "i \<in> e_id ` set es" using 2 by auto
      with snoc.IH(2) False show ?thesis unfolding step by auto
    next
      case new: True
      show ?thesis
      proof (cases "i \<in> e_id ` set es")
        case False
        then have "map_of ?al i = map_of al i" using snoc.IH(1) by simp
        then have "edge_choice e (map_of ?al i) = e"
          using assms by (auto simp: edge_choice_def split: option.split dest!: map_of_SomeD)
        with new False show ?thesis unfolding step by (intro bexI [of _ e]) (auto simp: image_iff)
      next
        case True
        from snoc.IH(2) [OF this] obtain c where c: "c \<in> set es" "e_id c = i" "map_of ?al i = Some \<lparr>es_slot_edge = c, es_carried = False\<rparr>"
          "\<forall>d \<in> set es. e_id d = i \<longrightarrow> CONFIDENCE_RANK (e_confidence d) \<le> CONFIDENCE_RANK (e_confidence c)" by blast
        show ?thesis
        proof (cases "CONFIDENCE_RANK (e_confidence c) \<ge> CONFIDENCE_RANK (e_confidence e)")
          case True
          with c new show ?thesis unfolding step by (intro bexI [of _ c]) (auto simp: edge_choice_def)
        next
          case False
          with c new show ?thesis unfolding step by (intro bexI [of _ e]) (auto simp: edge_choice_def)
        qed
      qed
    qed }
qed simp_all

lemma step_keys: "fst ` set (fold merged_edge es al) = fst ` set al \<union> e_id ` set es"
  by (induction es arbitrary: al) (auto simp: merged_edge_def put_keys)

lemma node_step_keys: "fst ` set (fold node_step ns al) = fst ` set al \<union> n_id ` set ns"
  by (induction ns arbitrary: al) (auto simp: node_step_def put_keys)

section \<open>Properties\<close>

lemma start_carried: "\<forall>(k, v) \<in> set (mg_edges (merge_start carry)). es_carried v"
proof -
  have "\<forall>(k, v) \<in> set (fold (\<lambda>edge. AList.update (e_id edge) \<lparr>es_slot_edge = edge, es_carried = True\<rparr>) es []). es_carried v" for es
    by (rule fold_keeps [of "\<lambda>al. \<forall>(k, v) \<in> set al. es_carried v"]) (use put_members in fastforce)+
  then show ?thesis by (simp add: merge_start_def)
qed

definition carried_ids :: "'n ContextGraphCarryForward option \<Rightarrow> js_string set" where
  "carried_ids carry = (case carry of None \<Rightarrow> {} | Some c \<Rightarrow> n_id ` set (cf_nodes c))"

definition carried_edge_ids :: "'n ContextGraphCarryForward option \<Rightarrow> js_string set" where
  "carried_edge_ids carry = (case carry of None \<Rightarrow> {} | Some c \<Rightarrow> e_id ` set (cf_edges c))"

lemma start_keys:
  fixes carry :: "'n ContextGraphCarryForward option"
  shows
  "fst ` set (mg_nodes (merge_start carry)) = carried_ids carry"
  "fst ` set (mg_edges (merge_start carry)) = carried_edge_ids carry"
proof -
  have "fst ` set (fold (\<lambda>node. AList.update (n_id node) \<lparr>ns_node = node, ns_carried = True\<rparr>) ns al) = fst ` set al \<union> n_id ` set ns"
    for ns :: "'n ContextGraphNode list" and al by (induction ns arbitrary: al) (auto simp: put_keys)
  then show "fst ` set (mg_nodes (merge_start carry)) = carried_ids carry"
    by (simp add: merge_start_def carried_ids_def split: option.split)
  have "fst ` set (fold (\<lambda>edge. AList.update (e_id edge) \<lparr>es_slot_edge = edge, es_carried = True\<rparr>) es al) = fst ` set al \<union> e_id ` set es"
    for es al by (induction es arbitrary: al) (auto simp: put_keys)
  then show "fst ` set (mg_edges (merge_start carry)) = carried_edge_ids carry"
    by (simp add: merge_start_def carried_edge_ids_def split: option.split)
qed

definition fresh_nodes :: "'n ContextGraphFragment list \<Rightarrow> 'n ContextGraphNode set" where
  "fresh_nodes fragments = (\<Union>f \<in> set (usable fragments). set (fg_nodes f))"

definition fresh_edges :: "'n ContextGraphFragment list \<Rightarrow> ContextGraphEdge set" where
  "fresh_edges fragments = (\<Union>f \<in> set (usable fragments). set (fg_edges f))"

lemma fresh_sorted: "set (concat (map fg_edges (usable (sortFragments fs)))) = fresh_edges fs"
  "set (concat (map fg_nodes (usable (sortFragments fs)))) = fresh_nodes fs"
  by (auto simp: fresh_edges_def fresh_nodes_def usable_def sortFragments_def)

text \<open>The strongest observation of an edge among those of its identifier.\<close>

definition strongest :: "ContextGraphEdge \<Rightarrow> ContextGraphEdge set \<Rightarrow> bool" where
  "strongest e es \<longleftrightarrow> e \<in> es \<and> (\<forall>d \<in> es. e_id d = e_id e \<longrightarrow> CONFIDENCE_RANK (e_confidence d) \<le> CONFIDENCE_RANK (e_confidence e))"

lemma merge_state_edges:
  fixes fragments :: "'n ContextGraphFragment list" and carry :: "'n ContextGraphCarryForward option"
  defines "s \<equiv> fold merge_fragment (sortFragments fragments) (merge_start carry)"
  shows "set (map fst (mg_nodes s)) = carried_ids carry \<union> n_id ` fresh_nodes fragments"
    "set (map fst (mg_edges s)) = carried_edge_ids carry \<union> e_id ` fresh_edges fragments"
    "slot \<in> set (map snd (mg_edges s)) \<Longrightarrow> if e_id (es_slot_edge slot) \<in> e_id ` fresh_edges fragments
       then strongest (es_slot_edge slot) (fresh_edges fragments) \<and> \<not> es_carried slot
       else e_id (es_slot_edge slot) \<in> carried_edge_ids carry \<and> es_carried slot"
proof -
  let ?es = "concat (map fg_edges (usable (sortFragments fragments)))" and ?al = "mg_edges (merge_start carry)"
  have ok: "merge_ok s" unfolding s_def by (rule fragments_ok)
  have edges: "mg_edges s = fold merged_edge ?es ?al" by (simp add: s_def fragments_in)
  show keys: "set (map fst (mg_nodes s)) = carried_ids carry \<union> n_id ` fresh_nodes fragments"
    "set (map fst (mg_edges s)) = carried_edge_ids carry \<union> e_id ` fresh_edges fragments"
    unfolding s_def set_map fragments_in step_keys node_step_keys start_keys fresh_sorted by (rule refl)+
  show "if e_id (es_slot_edge slot) \<in> e_id ` fresh_edges fragments
       then strongest (es_slot_edge slot) (fresh_edges fragments) \<and> \<not> es_carried slot
       else e_id (es_slot_edge slot) \<in> carried_edge_ids carry \<and> es_carried slot"
    if slot: "slot \<in> set (map snd (mg_edges s))"
  proof -
    have kd: "keyed edge_slot_id (mg_edges s)" using ok by (simp add: merge_ok_def)
    from slot obtain i where "(i, slot) \<in> set (mg_edges s)" by auto
    with kd have i: "e_id (es_slot_edge slot) = i" "map_of (mg_edges s) i = Some slot"
      by (auto simp: keyed_def edge_slot_id_def)
    show ?thesis
    proof (cases "i \<in> e_id ` fresh_edges fragments")
      case True
      then have "i \<in> e_id ` set ?es" unfolding fresh_sorted .
      from edges_final(2) [OF start_carried this, of carry] obtain e where
        e: "e \<in> fresh_edges fragments" "map_of (mg_edges s) i = Some \<lparr>es_slot_edge = e, es_carried = False\<rparr>"
          "\<forall>d \<in> fresh_edges fragments. e_id d = i \<longrightarrow> CONFIDENCE_RANK (e_confidence d) \<le> CONFIDENCE_RANK (e_confidence e)"
        unfolding fresh_sorted edges by blast
      then have "es_slot_edge slot = e" "\<not> es_carried slot" using i(2) by auto
      with e True i(1) show ?thesis by (simp add: strongest_def)
    next
      case False
      then have "map_of ?al i = Some slot"
        using edges_final(1) [OF start_carried, of ?es carry i] i(2) unfolding edges fresh_sorted by simp
      then have "(i, slot) \<in> set ?al" by (rule map_of_SomeD)
      then have "es_carried slot" "i \<in> carried_edge_ids carry"
        using start_carried [of carry] unfolding start_keys(2) [symmetric] by force+
      with False i(1) show ?thesis by simp
    qed
  qed
qed

lemma filter_split_mset: "mset (map f (filter P xs)) + mset (map f (filter (\<lambda>x. \<not> P x) xs)) = mset (map f xs)"
  by (induction xs) auto

lemma merge_ids:
  fixes fragments :: "'n ContextGraphFragment list" and carry :: "'n ContextGraphCarryForward option"
  defines "s \<equiv> fold merge_fragment (sortFragments fragments) (merge_start carry)"
  shows "map n_id (mr_nodes (mergeContextGraphFragments fragments carry)) = map fst (mg_nodes s)"
    "mset (map e_id (mr_edges (mergeContextGraphFragments fragments carry))
       @ map dr_edgeId (mr_dropped (mergeContextGraphFragments fragments carry))) = mset (map fst (mg_edges s))"
proof -
  obtain s' where s': "s' = s" "merge_ok s'"
    "mr_nodes (mergeContextGraphFragments fragments carry) = map ns_node (map snd (mg_nodes s'))"
    "mr_edges (mergeContextGraphFragments fragments carry) = map es_slot_edge (filter (\<lambda>slot. drop_reason
       (set (map fst (mg_nodes s'))) (supported (map snd (mg_edges s'))) slot = None) (map snd (mg_edges s')))"
    "mr_dropped (mergeContextGraphFragments fragments carry) = sort_key dr_edgeId (map (\<lambda>slot. drop_edge (es_slot_edge slot)
       (the (drop_reason (set (map fst (mg_nodes s'))) (supported (map snd (mg_edges s'))) slot)))
       (filter (\<lambda>slot. drop_reason (set (map fst (mg_nodes s'))) (supported (map snd (mg_edges s'))) slot \<noteq> None) (map snd (mg_edges s'))))"
    unfolding s_def by (rule merge_result [of fragments carry])
  have slot_ids: "edge_slot_id = (\<lambda>slot. e_id (es_slot_edge slot))" by (simp add: fun_eq_iff edge_slot_id_def)
  have k: "map slot_id (map snd (mg_nodes s)) = map fst (mg_nodes s)" "map edge_slot_id (map snd (mg_edges s)) = map fst (mg_edges s)"
    using s'(1,2) keyed_values by (auto simp: merge_ok_def)
  show "map n_id (mr_nodes (mergeContextGraphFragments fragments carry)) = map fst (mg_nodes s)"
    unfolding s'(3) s'(1) k(1) [symmetric] by (simp add: slot_id_def)
  show "mset (map e_id (mr_edges (mergeContextGraphFragments fragments carry))
       @ map dr_edgeId (mr_dropped (mergeContextGraphFragments fragments carry))) = mset (map fst (mg_edges s))"
    unfolding s'(4,5) s'(1) k(2) [symmetric]
    using filter_split_mset [of edge_slot_id "\<lambda>slot. drop_reason (set (map fst (mg_nodes s))) (supported (map snd (mg_edges s))) slot = None"
        "map snd (mg_edges s)"]
    by (simp add: slot_ids drop_edge_def image_mset.compositionality comp_def)
qed

lemma merged_ids:
  "distinct (map n_id (mr_nodes (mergeContextGraphFragments fragments carry)))
   \<and> set (map n_id (mr_nodes (mergeContextGraphFragments fragments carry))) = carried_ids carry \<union> n_id ` fresh_nodes fragments
   \<and> distinct (map e_id (mr_edges (mergeContextGraphFragments fragments carry))
        @ map dr_edgeId (mr_dropped (mergeContextGraphFragments fragments carry)))
   \<and> set (map e_id (mr_edges (mergeContextGraphFragments fragments carry))
        @ map dr_edgeId (mr_dropped (mergeContextGraphFragments fragments carry)))
     = carried_edge_ids carry \<union> e_id ` fresh_edges fragments"
proof -
  have ok: "merge_ok (fold merge_fragment (sortFragments fragments) (merge_start carry))" by (rule fragments_ok)
  show ?thesis
    using merge_ids [of fragments carry] merge_state_edges(1,2) [of fragments carry] ok
    by (metis keyed_def merge_ok_def mset_eq_imp_distinct_iff mset_eq_setD)
qed

text \<open>
  C16. What a merge returns is one graph: identifiers of nodes and of edges are distinct; the nodes
  are those carried over and those of the fragments with a known schema, by identifier; and every
  edge identifier seen is either kept or recorded among the dropped ones, once.
\<close>

theorem merge_accounts_for_all:
  "distinct (map n_id (mr_nodes (mergeContextGraphFragments fragments carry)))
   \<and> set (map n_id (mr_nodes (mergeContextGraphFragments fragments carry))) = carried_ids carry \<union> n_id ` fresh_nodes fragments
   \<and> distinct (map e_id (mr_edges (mergeContextGraphFragments fragments carry))
        @ map dr_edgeId (mr_dropped (mergeContextGraphFragments fragments carry)))
   \<and> set (map e_id (mr_edges (mergeContextGraphFragments fragments carry))
        @ map dr_edgeId (mr_dropped (mergeContextGraphFragments fragments carry)))
     = carried_edge_ids carry \<union> e_id ` fresh_edges fragments"
  by (rule merged_ids)




text \<open>Fragments are told apart by extractor and revision.\<close>

lemma sorted_twice:
  fixes f :: "'a \<Rightarrow> 'b::linorder" and g :: "'a \<Rightarrow> 'c::linorder"
  assumes "mset xs = mset ys" "distinct (map (\<lambda>x. (f x, g x)) xs)"
  shows "sort_key f (sort_key g xs) = sort_key f (sort_key g ys)"
proof (rule properties_for_sort_key)
  show "mset (sort_key f (sort_key g ys)) = mset (sort_key g xs)" using assms(1) by simp
  show "sorted (map f (sort_key f (sort_key g ys)))" by simp
  show "filter (\<lambda>x. f k = f x) (sort_key f (sort_key g ys)) = filter (\<lambda>x. f k = f x) (sort_key g xs)"
    if "k \<in> set (sort_key f (sort_key g ys))" for k
  proof -
    have sub: "filter (\<lambda>x. f k = f x) (sort_key f zs) = filter (\<lambda>x. f k = f x) zs" for zs :: "'a list"
      using sort_key_stable [of f "f k" zs] by (simp add: eq_commute)
    let ?F = "filter (\<lambda>x. f k = f x)"
    have "sort_key g (?F xs) = sort_key g (?F ys)"
    proof (rule sort_key_inj_key_eq)
      show "mset (?F xs) = mset (sort_key g (?F ys))" using assms(1) by simp
      show "inj_on g (set (?F xs))" using assms(2) by (auto simp: distinct_map inj_on_def)
    qed simp
    then show ?thesis unfolding sub by (simp add: filter_sort)
  qed
qed

text \<open>
  A merge does not depend on the order in which the fragments arrive, as long as no two of
  them have the same extractor and revision: the whole result is the same, its lists in the same
  order, whatever was carried over.
\<close>

theorem merge_order_free:
  assumes "mset fragments = mset others" "distinct (map (\<lambda>f. (fg_extractor f, fg_extractorRevision f)) fragments)"
  shows "mergeContextGraphFragments fragments carry = mergeContextGraphFragments others carry"
  using sorted_twice [OF assms] by (simp add: mergeContextGraphFragments_def sortFragments_def)

section \<open>Merged nodes are pessimistic\<close>

text \<open>At least as risky and at most as fresh as an observation of the same node and kind.\<close>

definition dominates :: "'n ContextGraphNode \<Rightarrow> 'n ContextGraphNode \<Rightarrow> bool" where
  "dominates y x \<longleftrightarrow> n_id y = n_id x \<and> n_kind y = n_kind x \<and> RISK_RANK (n_risk x) \<le> RISK_RANK (n_risk y)
     \<and> FRESHNESS_RANK (n_freshness y) \<le> FRESHNESS_RANK (n_freshness x)"

definition conflict_reported :: "ContextGraphLintIssue list \<Rightarrow> js_string \<Rightarrow> bool" where
  "conflict_reported issues i \<longleftrightarrow> (\<exists>x \<in> set issues. li_code x = Duplicate_node_conflict \<and> li_nodeId x = Some i)"

definition node_seen :: "'n MergeState \<Rightarrow> 'n ContextGraphNode \<Rightarrow> bool" where
  "node_seen s x \<longleftrightarrow> conflict_reported (mg_issues s) (n_id x)
     \<or> (\<exists>slot. map_of (mg_nodes s) (n_id x) = Some slot \<and> \<not> ns_carried slot \<and> dominates (ns_node slot) x)"

lemma merge_dominates:
  "dominates a x \<Longrightarrow> dominates (mergeNode a b) x"
  "n_id a = n_id b \<Longrightarrow> n_kind a = n_kind b \<Longrightarrow> dominates (mergeNode a b) b"
  by (auto simp: dominates_def mergeNode_def)

lemma no_conflict: "conflictIssue a b x = None \<Longrightarrow> n_kind a = n_kind b"
  by (simp add: conflictIssue_def Let_def split: if_splits)

lemma conflict_issue: "conflictIssue a b x = Some issue \<Longrightarrow> li_code issue = Duplicate_node_conflict \<and> li_nodeId issue = Some (n_id a)"
  by (auto simp: conflictIssue_def Let_def split: if_splits)

lemma node_in_seen:
  assumes ok: "merge_ok s" and x: "node_seen s x \<or> x = node"
  shows "node_seen (merge_node_in e node s) x"
proof (cases "map_of (mg_nodes s) (n_id node)")
  case None
  with x show ?thesis by (auto simp: merge_node_in_def put_node_def node_seen_def map_of_put dominates_def)
next
  case (Some slot)
  then have id: "n_id (ns_node slot) = n_id node" using ok keyed_lookup [of slot_id "mg_nodes s"] by (auto simp: merge_ok_def slot_id_def)
  show ?thesis
  proof (cases "ns_carried slot")
    case True
    with Some x show ?thesis by (auto simp: merge_node_in_def put_node_def node_seen_def map_of_put dominates_def)
  next
    case False
    show ?thesis
    proof (cases "conflictIssue (ns_node slot) node e")
      case None
      note kind = no_conflict [OF None]
      show ?thesis
      proof (cases "conflict_reported (mg_issues s) (n_id x)")
        case True
        with Some False None show ?thesis by (simp add: merge_node_in_def node_seen_def)
      next
        case unreported: False
        have "n_id x = n_id node \<Longrightarrow> dominates (mergeNode (ns_node slot) node) x"
          using x unreported Some id kind merge_dominates by (fastforce simp: node_seen_def)
        with x unreported Some False None show ?thesis
          by (auto simp: merge_node_in_def node_seen_def map_of_put)
      qed
    next
      case conflict: (Some issue)
      with conflict_issue [OF conflict] id x Some False show ?thesis
        by (auto simp: merge_node_in_def node_seen_def conflict_reported_def)
    qed
  qed
qed

lemma nodes_in_seen: "merge_ok s \<Longrightarrow> node_seen s x \<or> x \<in> set ns \<Longrightarrow> node_seen (fold (merge_node_in e) ns s) x"
proof (induction ns arbitrary: s)
  case (Cons n ns)
  then show ?case using Cons.IH [OF node_in_ok [OF Cons.prems(1)]] node_in_seen [OF Cons.prems(1), of x n e] by auto
qed simp

lemma seen_mono:
  assumes "node_seen s x" "mg_nodes t = mg_nodes s" "set (mg_issues s) \<subseteq> set (mg_issues t)"
  shows "node_seen t x"
  using assms by (auto simp: node_seen_def conflict_reported_def)

lemma edges_in_issues: "mg_issues (fold merge_edge_in es s) = mg_issues s"
  by (induction es arbitrary: s) (simp_all add: edge_in_step)

lemma hashes_in_issues: "set (mg_issues s) \<subseteq> set (mg_issues (fold (merge_hash_in e) hs s))"
proof (induction hs arbitrary: s)
  case (Cons h hs)
  have "set (mg_issues s) \<subseteq> set (mg_issues (merge_hash_in e h s))"
    by (auto simp: merge_hash_in_def Let_def split: prod.split property.split)
  with Cons.IH [of "merge_hash_in e h s"] show ?case by (auto simp del: fun_upd_apply)
qed simp

lemma fragment_seen:
  assumes "merge_ok s" "node_seen s x \<or> x \<in> fresh_nodes [f]"
  shows "node_seen (merge_fragment f s) x"
proof (cases "fg_schema f = CONTEXT_GRAPH_FRAGMENT_SCHEMA")
  case True
  let ?n = "fold (merge_node_in (fg_extractor f)) (fg_nodes f) s"
  have "node_seen ?n x" by (rule nodes_in_seen) (use assms True in \<open>auto simp: fresh_nodes_def usable_def\<close>)
  then have "node_seen (fold (merge_hash_in (fg_extractor f)) (fg_inputHashes f) (fold merge_edge_in (fg_edges f) ?n)) x"
    by (rule seen_mono) (use hashes_in_issues [of "fold merge_edge_in (fg_edges f) ?n"] in
      \<open>simp_all add: hashes_in_fields edges_in edges_in_issues\<close>)
  with True show ?thesis by (auto simp: merge_fragment_def Let_def intro: seen_mono)
next
  case False
  with assms have "node_seen s x" by (simp add: fresh_nodes_def usable_def)
  with False show ?thesis by (auto simp: merge_fragment_def Let_def intro: seen_mono)
qed

lemma fragments_seen: "merge_ok s \<Longrightarrow> node_seen s x \<or> x \<in> fresh_nodes fs \<Longrightarrow> node_seen (fold merge_fragment fs s) x"
proof (induction fs arbitrary: s)
  case (Cons f fs)
  have "node_seen (merge_fragment f s) x \<or> x \<in> fresh_nodes fs"
    using fragment_seen [OF Cons.prems(1), of x f] Cons.prems(2) by (auto simp: fresh_nodes_def usable_def split: if_splits)
  with Cons.IH [OF fragment_ok [OF Cons.prems(1)]] show ?case by simp
qed (simp add: fresh_nodes_def usable_def)

text \<open>
  C30. A merge never makes a node look safer than one of its observations: of everything the
  fragments say of a node, either a conflict is reported under its identifier, or the merged node
  has the same kind, is at least as risky and at most as fresh.
\<close>

theorem merge_is_pessimistic:
  assumes "x \<in> fresh_nodes fragments"
    and "\<not> conflict_reported (mr_issues (mergeContextGraphFragments fragments carry)) (n_id x)"
  shows "\<exists>y \<in> set (mr_nodes (mergeContextGraphFragments fragments carry)). dominates y x"
proof -
  let ?s = "fold merge_fragment (sortFragments fragments) (merge_start carry)"
  have "x \<in> fresh_nodes (sortFragments fragments)" using assms(1) by (auto simp: fresh_nodes_def usable_def sortFragments_def)
  then have "node_seen ?s x" by (intro fragments_seen start_merge_ok) simp
  then show ?thesis
    using assms(2) by (rule_tac merge_result [of fragments carry])
      (force simp: node_seen_def image_iff dest!: map_of_SomeD)
qed


section \<open>The caps\<close>

text \<open>
  The caps of a compile: what is kept is bounded, is the best by risk, trust and identifier, leaves
  no edge without its ends, and is recorded whenever it is not everything.
\<close>

section \<open>Sorting by a comparator\<close>

lemma insert_by_mset [simp]: "mset (insert_by before x xs) = add_mset x (mset xs)"
  by (induction xs) auto

lemma sort_by_mset [simp]: "mset (sort_by before xs) = mset xs"
  unfolding sort_by_def by (induction xs) auto

lemma sort_by_set [simp]: "set (sort_by before xs) = set xs" "length (sort_by before xs) = length xs"
  by (metis sort_by_mset set_mset_mset, metis sort_by_mset size_mset)

lemma mset_take_subseteq: "mset (take n xs) \<subseteq># mset xs"
  by (metis append_take_drop_id mset_append mset_subset_eq_add_left)

section \<open>Properties\<close>

definition ends_in :: "ContextGraphEdge list \<Rightarrow> 'n ContextGraphNode list \<Rightarrow> bool" where
  "ends_in edges nodes \<longleftrightarrow> (\<forall>e \<in> set edges. e_from e \<in> n_id ` set nodes \<and> e_to e \<in> n_id ` set nodes)"

definition under_cap :: "nat \<Rightarrow> nat \<Rightarrow> bool" where
  "under_cap limit n \<longleftrightarrow> limit = 0 \<or> n \<le> limit"

lemma caps_edges:
  "applyContextGraphCaps nodes edges maxNodes maxEdges = (keptNodes, keptEdges, skipped) \<Longrightarrow> mset keptEdges \<subseteq># mset edges"
  by (auto simp: applyContextGraphCaps_def Let_def mset_filter split: if_splits
      intro: subset_mset.order_trans [OF mset_take_subseteq])

lemma caps_kept:
  assumes caps: "applyContextGraphCaps nodes edges maxNodes maxEdges = (keptNodes, keptEdges, skipped)"
    and ids: "distinct (map n_id nodes)" and ends: "ends_in edges nodes"
  shows "under_cap maxNodes (length keptNodes) \<and> under_cap maxEdges (length keptEdges)
    \<and> mset keptNodes \<subseteq># mset nodes \<and> mset keptEdges \<subseteq># mset edges \<and> ends_in keptEdges keptNodes
    \<and> (skipped = [] \<longleftrightarrow> keptNodes = nodes \<and> keptEdges = edges)"
proof -
  define over where "over \<longleftrightarrow> maxNodes > 0 \<and> length nodes > maxNodes"
  define ranked where "ranked = sort_by ranked_before nodes"
  define gone where "gone = (if over then set (map n_id (drop maxNodes ranked)) else {})"
  define kept where "kept = (if over then take maxNodes ranked else nodes)"
  define left where "left = (if gone = {} then edges else filter (\<lambda>e. e_from e \<notin> gone \<and> e_to e \<notin> gone) edges)"
  have ranked: "mset ranked = mset nodes" "length ranked = length nodes" by (simp_all add: ranked_def)
  have nodes: "keptNodes = kept" and edges: "keptEdges = (if maxEdges > 0 \<and> length left > maxEdges then take maxEdges (sort_by edge_before left) else left)"
    and skips: "skipped = [] \<longleftrightarrow> \<not> over \<and> \<not> (maxEdges > 0 \<and> length left > maxEdges)"
    using caps unfolding applyContextGraphCaps_def Let_def over_def [symmetric] ranked_def [symmetric] gone_def [symmetric]
      kept_def [symmetric] left_def [symmetric] by (auto split: if_splits)
  have sub: "mset kept \<subseteq># mset nodes" using ranked mset_take_subseteq [of maxNodes ranked] by (simp add: kept_def)
  have left_sub: "mset left \<subseteq># mset edges" by (simp add: left_def mset_filter)
  have kept_sub: "mset keptEdges \<subseteq># mset left" using mset_take_subseteq [of maxEdges "sort_by edge_before left"] by (simp add: edges)
  have cover: "n_id ` set nodes \<subseteq> n_id ` set kept \<union> gone"
  proof (cases over)
    case True
    have "set nodes = set (take maxNodes ranked) \<union> set (drop maxNodes ranked)"
      using ranked(1) by (metis append_take_drop_id set_append set_mset_mset)
    with True show ?thesis by (auto simp: kept_def gone_def)
  qed (simp add: kept_def)
  have "e \<in> set edges \<and> e_from e \<notin> gone \<and> e_to e \<notin> gone" if "e \<in> set left" for e
    using that by (auto simp: left_def split: if_splits)
  then have "ends_in left kept"
    using ends cover unfolding ends_in_def by blast
  then have "ends_in keptEdges kept" using kept_sub set_mset_mono [OF kept_sub] by (auto simp: ends_in_def)
  moreover have "under_cap maxNodes (length kept)" using ranked(2) by (auto simp: under_cap_def kept_def over_def)
  moreover have "under_cap maxEdges (length keptEdges)" by (auto simp: under_cap_def edges)
  moreover have "mset keptEdges \<subseteq># mset edges" using kept_sub left_sub subset_mset.order_trans by blast
  moreover have "skipped = [] \<longleftrightarrow> kept = nodes \<and> keptEdges = edges"
  proof
    assume none: "skipped = []"
    then have "gone = {}" "kept = nodes" using skips by (simp_all add: gone_def kept_def)
    then show "kept = nodes \<and> keptEdges = edges" using none skips by (auto simp: edges left_def)
  next
    assume same: "kept = nodes \<and> keptEdges = edges"
    then have "\<not> over" using ranked(2) by (auto simp: kept_def over_def dest: arg_cong [where f = length])
    moreover have "\<not> (maxEdges > 0 \<and> length left > maxEdges)"
      using same \<open>\<not> over\<close> by (auto simp: edges gone_def left_def dest: arg_cong [where f = length])
    ultimately show "skipped = []" using skips by blast
  qed
  ultimately show ?thesis using sub nodes by simp
qed

text \<open>
  C20. The caps keep a graph: at most as many nodes and edges as the limits allow, where a limit of 0
  is none; nothing but nodes and edges of the input, each as often as before at most; every edge with both
  ends kept, if the input had that; and a skip is recorded exactly if something was left out.
\<close>

theorem caps_keep_a_graph:
  assumes caps: "applyContextGraphCaps nodes edges maxNodes maxEdges = (keptNodes, keptEdges, skipped)"
    and ids: "distinct (map n_id nodes)" and ends: "ends_in edges nodes"
  shows "under_cap maxNodes (length keptNodes) \<and> under_cap maxEdges (length keptEdges)
    \<and> mset keptNodes \<subseteq># mset nodes \<and> mset keptEdges \<subseteq># mset edges \<and> ends_in keptEdges keptNodes
    \<and> (skipped = [] \<longleftrightarrow> keptNodes = nodes \<and> keptEdges = edges)"
  using assms by (rule caps_kept)

end
