(* ===== verification/Compiler_Freshness.thy ===== *)
theory Compiler_Freshness
  imports Compiler_Merge_Correct
begin

text \<open>
  compiler/freshness.ts: a node is fresh when the bytes it was derived from still have the digest it
  claims, and what is derived from a stale node is stale too. \<open>digest\<close> stands for the file system:
  the SHA-256 of the bytes under a path, or nothing where the path leaves the workspace or cannot
  be read.
\<close>

section \<open>The algorithm\<close>

definition CONTEXT_GRAPH_MISSING_SOURCE_HASH :: js_string where
  "CONTEXT_GRAPH_MISSING_SOURCE_HASH = js ''missing''"

definition DERIVATION_EDGE_TYPES :: "ContextGraphEdgeType set" where
  "DERIVATION_EDGE_TYPES = {Cites, Derived_from, Supports, Verified_by}"

definition DERIVED_KINDS :: "ContextGraphNodeKind set" where
  "DERIVED_KINDS = {Kind_wiki_claim, Kind_proof, Kind_source, Kind_risk_domain}"

definition readSourceHashes :: "(js_string \<Rightarrow> js_string option) \<Rightarrow> js_string list \<Rightarrow> (js_string \<rightharpoonup> js_string)" where
  "readSourceHashes digest paths =
     fold (\<lambda>relative. object_put relative (case digest relative of None \<Rightarrow> CONTEXT_GRAPH_MISSING_SOURCE_HASH | Some h \<Rightarrow> h))
       (sort (remdups paths)) Map.empty"

definition withFreshness :: "'n ContextGraphNode \<Rightarrow> ContextGraphFreshness \<Rightarrow> 'n ContextGraphNode" where
  "withFreshness node freshness = (if n_freshness node = freshness then node else node\<lparr>n_freshness := freshness\<rparr>)"

text \<open>The hash of a node's path, and whether its source counts as missing.\<close>

definition wanted_path :: "'n ContextGraphNode \<Rightarrow> js_string option" where
  "wanted_path node = (if n_path node = Some [] then None else n_path node)"

definition source_missing :: "js_string property \<Rightarrow> bool" where
  "source_missing current \<longleftrightarrow> current = Absent \<or> current = Own CONTEXT_GRAPH_MISSING_SOURCE_HASH"

definition resolve_node :: "(js_string \<rightharpoonup> js_string) \<Rightarrow> 'n ContextGraphNode \<Rightarrow> 'n ContextGraphNode" where
  "resolve_node sourceHashes node = (case wanted_path node of
       None \<Rightarrow> node
     | Some path \<Rightarrow>
        (let current = object_get sourceHashes path in
         if source_missing current then withFreshness node Stale
         else if truthy (n_contentHash node)
           then withFreshness node (if current = Own (the (n_contentHash node)) then Fresh else Stale)
         else node))"

record 'n FreshnessState =
  fs_byId :: "(js_string \<times> 'n ContextGraphNode) list"
  fs_stale :: "js_string list"
  fs_queue :: "js_string list"

text \<open>The edges to \<open>current\<close> along which staleness travels, in order.\<close>

definition incoming_derivations :: "ContextGraphEdge list \<Rightarrow> js_string \<Rightarrow> ContextGraphEdge list" where
  "incoming_derivations edges current = filter (\<lambda>edge. e_type edge \<in> DERIVATION_EDGE_TYPES \<and> e_to edge = current) edges"

definition propagate_edge :: "ContextGraphEdge \<Rightarrow> 'n FreshnessState \<Rightarrow> 'n FreshnessState" where
  "propagate_edge edge s =
    (if e_from edge \<in> set (fs_stale s) then s
     else (case map_of (fs_byId s) (e_from edge) of
         None \<Rightarrow> s
       | Some source \<Rightarrow> if n_kind source \<notin> DERIVED_KINDS then s
           else s\<lparr>fs_stale := fs_stale s @ [e_from edge],
                  fs_byId := AList.update (e_from edge) (withFreshness source Stale) (fs_byId s),
                  fs_queue := e_from edge # fs_queue s\<rparr>))"

definition open_ids :: "'n FreshnessState \<Rightarrow> js_string set" where
  "open_ids s = fst ` set (fs_byId s) - set (fs_stale s)"

lemma propagate_edge_measure:
  "2 * card (open_ids (propagate_edge e s)) + length (fs_queue (propagate_edge e s)) \<le> 2 * card (open_ids s) + length (fs_queue s)"
proof (cases "e_from e \<notin> set (fs_stale s) \<and> (\<exists>x. map_of (fs_byId s) (e_from e) = Some x \<and> n_kind x \<in> DERIVED_KINDS)")
  case True
  then obtain x where x: "map_of (fs_byId s) (e_from e) = Some x" "n_kind x \<in> DERIVED_KINDS" "e_from e \<notin> set (fs_stale s)" by blast
  have "(e_from e, x) \<in> set (fs_byId s)" using x(1) by (rule map_of_SomeD)
  then have mem: "e_from e \<in> open_ids s" using x(3) by (force simp: open_ids_def)
  have "open_ids (propagate_edge e s) = open_ids s - {e_from e}"
    using x mem by (auto simp: propagate_edge_def open_ids_def put_keys)
  moreover have "finite (open_ids s)" by (simp add: open_ids_def)
  then have "0 < card (open_ids s)" using mem card_gt_0_iff by blast
  ultimately show ?thesis using x mem by (simp add: propagate_edge_def card_Diff_singleton)
qed (auto simp: propagate_edge_def split: option.split)

lemma propagate_edges_measure:
  "2 * card (open_ids (fold propagate_edge es s)) + length (fs_queue (fold propagate_edge es s)) \<le> 2 * card (open_ids s) + length (fs_queue s)"
proof (induction es arbitrary: s)
  case (Cons e es)
  from Cons.IH [of "propagate_edge e s"] propagate_edge_measure [of e s] show ?case by simp
qed simp

text \<open>The queue is a stack, its top first.\<close>

function propagate_stale :: "ContextGraphEdge list \<Rightarrow> 'n FreshnessState \<Rightarrow> 'n FreshnessState" where
  "propagate_stale edges s = (case fs_queue s of [] \<Rightarrow> s
     | current # rest \<Rightarrow> propagate_stale edges (fold propagate_edge (incoming_derivations edges current) (s\<lparr>fs_queue := rest\<rparr>)))"
  by pat_completeness auto
termination
proof (relation "measure (\<lambda>(edges, s). 2 * card (open_ids s) + length (fs_queue s))")
  show "((edges, fold propagate_edge (incoming_derivations edges current) (s\<lparr>fs_queue := rest\<rparr>)), edges, s)
      \<in> measure (\<lambda>(edges, s). 2 * card (open_ids s) + length (fs_queue s))" if "fs_queue s = current # rest"
    for edges current rest and s :: "'n FreshnessState"
  proof -
    have "open_ids (s\<lparr>fs_queue := rest\<rparr>) = open_ids s" by (simp add: open_ids_def)
    with that propagate_edges_measure [of "incoming_derivations edges current" "s\<lparr>fs_queue := rest\<rparr>"] show ?thesis by simp
  qed
qed simp

declare propagate_stale.simps [simp del]

record 'n ContextGraphFreshnessResult =
  fz_nodes :: "'n ContextGraphNode list"
  fz_sourceHashes :: "js_string \<rightharpoonup> js_string"
  fz_staleNodeIds :: "js_string list"
  fz_missingPaths :: "js_string list"

definition applyContextGraphFreshness ::
  "(js_string \<Rightarrow> js_string option) \<Rightarrow> 'n ContextGraphNode list \<Rightarrow> ContextGraphEdge list \<Rightarrow> (js_string \<rightharpoonup> js_string) option
     \<Rightarrow> 'n ContextGraphFreshnessResult" where
  "applyContextGraphFreshness digest nodes edges sourceHashes =
    (let wanted = List.map_filter wanted_path nodes;
         provided = (case sourceHashes of None \<Rightarrow> Map.empty | Some m \<Rightarrow> m);
         missingFromCache = filter (\<lambda>relative. object_get provided relative = Absent) wanted;
         hashes = provided ++ readSourceHashes digest missingFromCache;
         resolved = map (resolve_node hashes) nodes;
         stale = fold set_add (map n_id (filter (\<lambda>node. n_freshness node = Stale) resolved)) [];
         byId = fold (\<lambda>node. AList.update (n_id node) node) resolved [];
         missing = fold set_add (filter (\<lambda>path. source_missing (object_get hashes path)) wanted) [];
         s = propagate_stale edges \<lparr>fs_byId = byId, fs_stale = stale, fs_queue = rev stale\<rparr> in
     \<lparr>fz_nodes = map snd (fs_byId s), fz_sourceHashes = hashes,
      fz_staleNodeIds = sort (fs_stale s), fz_missingPaths = sort missing\<rparr>)"


section \<open>What the pass computes\<close>

text \<open>
  Staleness travels exactly along the edges it should: after the pass a node is stale if and only
  if it was found stale against its source or derives, over one or more derivation edges, from a
  node that was.
\<close>

section \<open>What staleness reaches\<close>

text \<open>\<open>(j, i)\<close>: a derivation edge leads from the derived node \<open>i\<close> to \<open>j\<close>.\<close>

definition derivations :: "'n ContextGraphNode list \<Rightarrow> ContextGraphEdge list \<Rightarrow> (js_string \<times> js_string) set" where
  "derivations nodes edges = {(e_to e, e_from e) | e. e \<in> set edges \<and> e_type e \<in> DERIVATION_EDGE_TYPES
     \<and> (\<exists>n \<in> set nodes. n_id n = e_from e \<and> n_kind n \<in> DERIVED_KINDS)}"

definition stale_ids :: "'n ContextGraphNode list \<Rightarrow> js_string set" where
  "stale_ids nodes = n_id ` {n \<in> set nodes. n_freshness n = Stale}"

definition stale_closure :: "'n ContextGraphNode list \<Rightarrow> ContextGraphEdge list \<Rightarrow> js_string set" where
  "stale_closure nodes edges = (derivations nodes edges)\<^sup>* `` stale_ids nodes"

definition mark_stale :: "js_string set \<Rightarrow> 'n ContextGraphNode \<Rightarrow> 'n ContextGraphNode" where
  "mark_stale ids node = (if n_id node \<in> ids then withFreshness node Stale else node)"

section \<open>The invariant\<close>

lemma put_in_place:
  "distinct (map fst al) \<Longrightarrow> k \<in> fst ` set al \<Longrightarrow> AList.update k v al = map (\<lambda>(j, w). (j, if j = k then v else w)) al"
proof (induction al)
  case (Cons p al)
  show ?case
  proof (cases "fst p = k")
    case True
    with Cons.prems have "k \<notin> fst ` set al" by auto
    then have "map (\<lambda>(j, w). (j, if j = k then v else w)) al = al" by (intro map_idI) force
    with True show ?thesis by (cases p) simp
  qed (use Cons in \<open>cases p; auto\<close>)
qed simp

definition fresh_inv :: "'n ContextGraphNode list \<Rightarrow> ContextGraphEdge list \<Rightarrow> 'n FreshnessState \<Rightarrow> bool" where
  "fresh_inv nodes edges s \<longleftrightarrow> fs_byId s = map (\<lambda>n. (n_id n, mark_stale (set (fs_stale s)) n)) nodes
   \<and> distinct (fs_stale s) \<and> stale_ids nodes \<subseteq> set (fs_stale s) \<and> set (fs_stale s) \<subseteq> stale_closure nodes edges
   \<and> set (fs_queue s) \<subseteq> set (fs_stale s)"

definition settled :: "'n ContextGraphNode list \<Rightarrow> ContextGraphEdge list \<Rightarrow> 'n FreshnessState \<Rightarrow> js_string \<Rightarrow> bool" where
  "settled nodes edges s j \<longleftrightarrow> derivations nodes edges `` {j} \<subseteq> set (fs_stale s)"

lemma marked_id [simp]: "n_id (mark_stale X n) = n_id n" "n_kind (mark_stale X n) = n_kind n"
  by (simp_all add: mark_stale_def withFreshness_def)

lemma withFreshness_again [simp]: "withFreshness (withFreshness n f) f = withFreshness n f"
  by (simp add: withFreshness_def)

lemma mark_again: "mark_stale (insert (n_id n) X) n = withFreshness (mark_stale X n) Stale"
  by (simp add: mark_stale_def withFreshness_def)

lemma closure_step: "j \<in> stale_closure nodes edges \<Longrightarrow> (j, i) \<in> derivations nodes edges \<Longrightarrow> i \<in> stale_closure nodes edges"
  by (auto simp: stale_closure_def intro: rtrancl_into_rtrancl)

lemma inv_lookup:
  assumes "distinct (map n_id nodes)" "fresh_inv nodes edges s"
  shows "map_of (fs_byId s) i = (case find (\<lambda>n. n_id n = i) nodes of None \<Rightarrow> None | Some n \<Rightarrow> Some (mark_stale (set (fs_stale s)) n))"
proof -
  have "map_of (map (\<lambda>n. (n_id n, f n)) ns) i = (case find (\<lambda>n. n_id n = i) ns of None \<Rightarrow> None | Some n \<Rightarrow> Some (f n))"
    for f :: "'a ContextGraphNode \<Rightarrow> 'a ContextGraphNode" and ns by (induction ns) auto
  with assms(2) show ?thesis by (simp add: fresh_inv_def)
qed

lemma found_node: "find P xs = Some x \<Longrightarrow> x \<in> set xs \<and> P x"
  by (induction xs) (auto split: if_splits)

lemma missing_node: "find P xs = None \<Longrightarrow> x \<in> set xs \<Longrightarrow> \<not> P x"
  by (induction xs) (auto split: if_splits)

text \<open>One edge: its source joins the stale nodes exactly if it derives.\<close>

lemma propagate_edge_inv:
  assumes d: "distinct (map n_id nodes)" and inv: "fresh_inv nodes edges s"
    and e: "e \<in> set edges" "e_type e \<in> DERIVATION_EDGE_TYPES" "e_to e \<in> stale_closure nodes edges"
  shows "fresh_inv nodes edges (propagate_edge e s) \<and> set (fs_stale s) \<subseteq> set (fs_stale (propagate_edge e s))
    \<and> set (fs_queue (propagate_edge e s)) = set (fs_queue s) \<union> (set (fs_stale (propagate_edge e s)) - set (fs_stale s))
    \<and> ((e_to e, e_from e) \<in> derivations nodes edges \<longrightarrow> e_from e \<in> set (fs_stale (propagate_edge e s)))"
proof (cases "e_from e \<in> set (fs_stale s)")
  case True
  with inv show ?thesis by (simp add: propagate_edge_def)
next
  case new: False
  show ?thesis
  proof (cases "find (\<lambda>n. n_id n = e_from e) nodes")
    case None
    then have "(e_to e, e_from e) \<notin> derivations nodes edges" using missing_node [OF None] by (auto simp: derivations_def)
    with new inv None show ?thesis by (simp add: propagate_edge_def inv_lookup [OF d inv])
  next
    case (Some n)
    then have n: "n \<in> set nodes" "n_id n = e_from e" using found_node by fastforce+
    have only: "m = n" if "m \<in> set nodes" "n_id m = e_from e" for m
      using d n that by (auto simp: distinct_map inj_on_def)
    show ?thesis
    proof (cases "n_kind n \<in> DERIVED_KINDS")
      case False
      then have "(e_to e, e_from e) \<notin> derivations nodes edges" using only by (auto simp: derivations_def)
      with new inv Some False show ?thesis by (simp add: propagate_edge_def inv_lookup [OF d inv])
    next
      case True
      then have rel: "(e_to e, e_from e) \<in> derivations nodes edges" using e(1,2) n by (auto simp: derivations_def)
      let ?X = "set (fs_stale s)"
      let ?t = "s\<lparr>fs_stale := fs_stale s @ [e_from e],
         fs_byId := AList.update (e_from e) (withFreshness (mark_stale ?X n) Stale) (fs_byId s), fs_queue := e_from e # fs_queue s\<rparr>"
      have t: "propagate_edge e s = ?t"
        using new Some True by (simp add: propagate_edge_def inv_lookup [OF d inv])
      have byId: "fs_byId s = map (\<lambda>n. (n_id n, mark_stale ?X n)) nodes" using inv by (simp add: fresh_inv_def)
      have "AList.update (e_from e) (withFreshness (mark_stale ?X n) Stale) (fs_byId s)
          = map (\<lambda>(j, w). (j, if j = e_from e then withFreshness (mark_stale ?X n) Stale else w)) (fs_byId s)"
      proof (rule put_in_place)
        show "distinct (map fst (fs_byId s))" using d byId by (simp add: comp_def)
        show "e_from e \<in> fst ` set (fs_byId s)" using n byId by force
      qed
      also have "\<dots> = map (\<lambda>m. (n_id m, mark_stale (insert (e_from e) ?X) m)) nodes"
        unfolding byId using only mark_again by (auto simp: mark_stale_def)
      finally have "fresh_inv nodes edges ?t"
        using inv new closure_step [OF e(3) rel] by (auto simp: fresh_inv_def)
      then show ?thesis unfolding t using new by auto
    qed
  qed
qed

lemma propagate_edges_inv:
  assumes d: "distinct (map n_id nodes)"
  shows "fresh_inv nodes edges s \<Longrightarrow> \<forall>e \<in> set es. e \<in> set edges \<and> e_type e \<in> DERIVATION_EDGE_TYPES \<and> e_to e \<in> stale_closure nodes edges \<Longrightarrow>
    fresh_inv nodes edges (fold propagate_edge es s) \<and> set (fs_stale s) \<subseteq> set (fs_stale (fold propagate_edge es s))
    \<and> set (fs_queue (fold propagate_edge es s)) = set (fs_queue s) \<union> (set (fs_stale (fold propagate_edge es s)) - set (fs_stale s))
    \<and> (\<forall>e \<in> set es. (e_to e, e_from e) \<in> derivations nodes edges \<longrightarrow> e_from e \<in> set (fs_stale (fold propagate_edge es s)))"
proof (induction es arbitrary: s)
  case (Cons e es)
  note step = propagate_edge_inv [OF d Cons.prems(1), of e]
  have e: "e \<in> set edges" "e_type e \<in> DERIVATION_EDGE_TYPES" "e_to e \<in> stale_closure nodes edges" using Cons.prems(2) by simp_all
  from step [OF e] Cons.IH [of "propagate_edge e s"] Cons.prems(2) show ?case by auto
qed simp

lemma propagate_closure:
  assumes d: "distinct (map n_id nodes)"
  shows "fresh_inv nodes edges s \<Longrightarrow> \<forall>j \<in> set (fs_stale s) - set (fs_queue s). settled nodes edges s j \<Longrightarrow>
    fresh_inv nodes edges (propagate_stale edges s) \<and> set (fs_stale (propagate_stale edges s)) = stale_closure nodes edges"
proof (induction edges s rule: propagate_stale.induct)
  case (1 edges s)
  show ?case
  proof (cases "fs_queue s")
    case Nil
    have "i \<in> set (fs_stale s)" if "(k, i) \<in> (derivations nodes edges)\<^sup>*" "k \<in> stale_ids nodes" for k i
      using that by (induction rule: rtrancl_induct) (use "1.prems" Nil in \<open>auto simp: settled_def fresh_inv_def\<close>)
    then have "stale_closure nodes edges \<subseteq> set (fs_stale s)" by (auto simp: stale_closure_def)
    with "1.prems"(1) Nil show ?thesis by (subst (1 2) propagate_stale.simps) (auto simp: fresh_inv_def)
  next
    case (Cons current rest)
    let ?s = "s\<lparr>fs_queue := rest\<rparr>" and ?es = "incoming_derivations edges current"
    let ?t = "fold propagate_edge ?es ?s"
    have inv: "fresh_inv nodes edges ?s" using "1.prems"(1) Cons by (simp add: fresh_inv_def)
    have cur: "current \<in> stale_closure nodes edges" using "1.prems"(1) Cons by (auto simp: fresh_inv_def)
    have "\<forall>e \<in> set ?es. e \<in> set edges \<and> e_type e \<in> DERIVATION_EDGE_TYPES \<and> e_to e \<in> stale_closure nodes edges"
      using cur by (auto simp: incoming_derivations_def)
    note t = propagate_edges_inv [OF d inv this]
    have reached: "settled nodes edges ?t current"
    proof -
      have "i \<in> set (fs_stale ?t)" if rel: "(current, i) \<in> derivations nodes edges" for i
      proof -
        from rel obtain e where "e \<in> set ?es" "e_from e = i" "e_to e = current"
          by (auto simp: derivations_def incoming_derivations_def)
        with rel t show ?thesis by auto
      qed
      then show ?thesis by (auto simp: settled_def)
    qed
    have "settled nodes edges ?t j" if j: "j \<in> set (fs_stale ?t) - set (fs_queue ?t)" for j
    proof (cases "j = current")
      case False
      with j t have "j \<in> set (fs_stale s) - set (fs_queue s)" using Cons by auto
      with "1.prems"(2) t show ?thesis by (auto simp: settled_def)
    qed (use reached in simp)
    with "1.IH" [OF Cons] t have "fresh_inv nodes edges (propagate_stale edges ?t) \<and> set (fs_stale (propagate_stale edges ?t)) = stale_closure nodes edges"
      by blast
    with Cons show ?thesis by (subst (1 2) propagate_stale.simps) simp
  qed
qed

section \<open>The whole pass\<close>

lemma fold_set_add: "set (fold set_add xs ys) = set ys \<union> set xs" "distinct ys \<Longrightarrow> distinct (fold set_add xs ys)"
  by (induction xs arbitrary: ys) (auto simp: set_add_def)

lemma fold_put_fresh:
  "distinct (map fst al @ map n_id ns) \<Longrightarrow> fold (\<lambda>node. AList.update (n_id node) node) ns al = al @ map (\<lambda>n. (n_id n, n)) ns"
proof (induction ns arbitrary: al)
  case (Cons n ns)
  then have "AList.update (n_id n) n al = al @ [(n_id n, n)]" by (induction al) auto
  with Cons show ?case by simp
qed simp

lemma resolved_id [simp]: "n_id (resolve_node h n) = n_id n" "n_kind (resolve_node h n) = n_kind n"
  by (auto simp: resolve_node_def withFreshness_def Let_def split: option.split)

lemma sort_distinct: "distinct xs \<Longrightarrow> sort xs = sorted_list_of_set (set xs)"
  by (simp add: sorted_list_of_set_sort_remdups distinct_remdups_id)

lemma freshness_pass:
  fixes nodes :: "'n ContextGraphNode list" and edges :: "ContextGraphEdge list"
    and digest :: "js_string \<Rightarrow> js_string option" and sourceHashes :: "(js_string \<rightharpoonup> js_string) option"
  assumes d: "distinct (map n_id nodes)"
  defines "r \<equiv> applyContextGraphFreshness digest nodes edges sourceHashes"
  defines "resolved \<equiv> map (resolve_node (fz_sourceHashes r)) nodes"
  shows "fz_nodes r = map (mark_stale (stale_closure resolved edges)) resolved"
    "fz_staleNodeIds r = sorted_list_of_set (stale_closure resolved edges)"
proof -
  let ?stale = "fold set_add (map n_id (filter (\<lambda>node. n_freshness node = Stale) resolved)) []"
  let ?s = "\<lparr>fs_byId = map (\<lambda>n. (n_id n, n)) resolved, fs_stale = ?stale, fs_queue = rev ?stale\<rparr>"
  have d': "distinct (map n_id resolved)" using d by (simp add: resolved_def comp_def)
  have stale: "set ?stale = stale_ids resolved" by (auto simp: fold_set_add stale_ids_def)
  have same: "mark_stale (stale_ids resolved) n = n" if "n \<in> set resolved" for n
    using that d' by (auto simp: mark_stale_def stale_ids_def withFreshness_def distinct_map inj_on_def)
  have init: "fresh_inv resolved edges ?s"
    using same fold_set_add(2) [of "[]"] by (auto simp: fresh_inv_def stale stale_closure_def)
  have end_state: "fresh_inv resolved edges (propagate_stale edges ?s) \<and> set (fs_stale (propagate_stale edges ?s)) = stale_closure resolved edges"
    by (rule propagate_closure [OF d' init]) simp
  define hashes where "hashes = fz_sourceHashes r"
  have byId: "fold (\<lambda>node. AList.update (n_id node) node) resolved [] = map (\<lambda>n. (n_id n, n)) resolved"
    using fold_put_fresh [of "[]" resolved] d' by simp
  have r: "fz_nodes r = map snd (fs_byId (propagate_stale edges ?s))" "fz_staleNodeIds r = sort (fs_stale (propagate_stale edges ?s))"
    using byId by (simp_all add: r_def resolved_def applyContextGraphFreshness_def Let_def)
  show "fz_nodes r = map (mark_stale (stale_closure resolved edges)) resolved"
    unfolding r(1) using end_state by (simp add: fresh_inv_def comp_def)
  have dd: "distinct (fs_stale (propagate_stale edges ?s))" using end_state by (simp add: fresh_inv_def)
  show "fz_staleNodeIds r = sorted_list_of_set (stale_closure resolved edges)"
    unfolding r(2) sort_distinct [OF dd] using end_state by simp
qed


lemma closure_finite: "finite (stale_closure nodes edges)"
proof (rule finite_subset)
  have "i \<in> stale_ids nodes \<union> e_from ` set edges" if "(k, i) \<in> (derivations nodes edges)\<^sup>*" "k \<in> stale_ids nodes" for k i
    using that by (induction rule: rtrancl_induct) (auto simp: derivations_def)
  then show "stale_closure nodes edges \<subseteq> stale_ids nodes \<union> e_from ` set edges" by (auto simp: stale_closure_def)
qed (simp add: stale_ids_def)

text \<open>
  C26. What is called fresh rests on nothing that has changed: a fresh node that names a file and a
  content hash has the hash the file was found to have, and no derivation edge leads from a fresh
  claim, proof, source or risk domain to a node reported as stale.
\<close>

theorem fresh_is_current:
  assumes d: "distinct (map n_id nodes)"
    and y: "y \<in> set (fz_nodes (applyContextGraphFreshness digest nodes edges sourceHashes))" "n_freshness y = Fresh"
  shows "(\<forall>p h. n_path y = Some p \<and> p \<noteq> [] \<and> n_contentHash y = Some h \<and> h \<noteq> []
       \<longrightarrow> fz_sourceHashes (applyContextGraphFreshness digest nodes edges sourceHashes) p = Some h)
    \<and> (\<forall>e \<in> set edges. e_type e \<in> DERIVATION_EDGE_TYPES \<and> e_from e = n_id y \<and> n_kind y \<in> DERIVED_KINDS
       \<longrightarrow> e_to e \<notin> set (fz_staleNodeIds (applyContextGraphFreshness digest nodes edges sourceHashes)))"
proof -
  let ?r = "applyContextGraphFreshness digest nodes edges sourceHashes"
  let ?resolved = "map (resolve_node (fz_sourceHashes ?r)) nodes"
  note pass = freshness_pass [OF d, of digest edges sourceHashes]
  from y pass(1) obtain n where n: "n \<in> set nodes" "y = mark_stale (stale_closure ?resolved edges) (resolve_node (fz_sourceHashes ?r) n)"
    by auto
  have out: "n_id y \<notin> stale_closure ?resolved edges"
    using y(2) unfolding n(2) by (auto simp: mark_stale_def withFreshness_def split: if_splits)
  then have "n_id (resolve_node (fz_sourceHashes ?r) n) \<notin> stale_closure ?resolved edges" unfolding n(2) marked_id .
  then have y': "y = resolve_node (fz_sourceHashes ?r) n" unfolding n(2) mark_stale_def by (rule if_not_P)
  have "fz_sourceHashes ?r p = Some h" if "n_path y = Some p" "p \<noteq> []" "n_contentHash y = Some h" "h \<noteq> []" for p h
    using that y(2) unfolding y'
    by (auto simp: resolve_node_def wanted_path_def withFreshness_def truthy_def Let_def object_get_simps
        split: option.splits if_splits)
  moreover have "e_to e \<notin> set (fz_staleNodeIds ?r)"
    if e: "e \<in> set edges" "e_type e \<in> DERIVATION_EDGE_TYPES" "e_from e = n_id y" "n_kind y \<in> DERIVED_KINDS" for e
  proof
    assume "e_to e \<in> set (fz_staleNodeIds ?r)"
    then have "e_to e \<in> stale_closure ?resolved edges" unfolding pass(2) set_sorted_list_of_set [OF closure_finite] .
    moreover have ym: "y \<in> set ?resolved" using n(1) y' by simp
    then have "(e_to e, n_id y) \<in> derivations ?resolved edges"
      unfolding derivations_def mem_Collect_eq using e by (intro exI [of _ e] conjI bexI [of _ y]) simp_all
    ultimately show False using closure_step out by blast
  qed
  ultimately show ?thesis by blast
qed

end
