(* ===== verification/Compiler_Lint.thy ===== *)
theory Compiler_Lint
  imports Compiler_Snapshot Compiler_Freshness Kernel_Config Paths
begin

text \<open>
  The lint of a compiled snapshot: \<open>validateContextGraphSnapshot\<close> of context-graph/contracts.ts, the
  blocking rules of lint/rules.ts, the warnings of lint/warnings.ts and their order in lint/index.ts.
  A snapshot of the model is typed, so the checks of the types of its fields never fail and only those
  of their values are left. Arguments stand for what is outside: \<open>symlink_escape\<close> for the file
  system, \<open>containsPlaintextSecret\<close> for the patterns of secret-redaction.ts, \<open>env\<close> for the
  environment, \<open>lower\<close>, \<open>collate\<close>, \<open>sha256\<close> and the texts of numbers for the host.
\<close>

section \<open>The structure of a snapshot\<close>

definition below :: "js_number \<Rightarrow> rat \<Rightarrow> bool" where
  "below x r \<longleftrightarrow> (case x of Finite q \<Rightarrow> q < r | Negative_infinite \<Rightarrow> True | _ \<Rightarrow> False)"

definition over :: "js_number \<Rightarrow> rat \<Rightarrow> bool" where
  "over x r \<longleftrightarrow> (case x of Finite q \<Rightarrow> r < q | Infinite \<Rightarrow> True | _ \<Rightarrow> False)"

abbreviation at_node :: "js_string \<Rightarrow> IssuePlace" where
  "at_node i \<equiv> nowhere\<lparr>li_nodeId := Some i\<rparr>"

abbreviation at_edge :: "js_string \<Rightarrow> IssuePlace" where
  "at_edge i \<equiv> nowhere\<lparr>li_edgeId := Some i\<rparr>"

definition issue_if :: "bool \<Rightarrow> ContextGraphLintIssue \<Rightarrow> ContextGraphLintIssue list" where
  "issue_if b issue = (if b then [issue] else [])"

text \<open>The identifier of a node that has one, and its issues.\<close>

definition validateNode :: "'n ContextGraphNode \<Rightarrow> nat \<Rightarrow> js_string option \<times> ContextGraphLintIssue list" where
  "validateNode node index =
    (let i = n_id node in
     if i = [] then (None, [lintError Invalid_node_field (js ''node['' @ decimal index @ js ''] has no id'') nowhere])
     else (Some i,
       issue_if (n_label node = []) (lintError Invalid_node_field (js ''node '' @ i @ js '' has no label'') (at_node i))
     @ issue_if (below (n_trust node) 0 \<or> over (n_trust node) 1)
         (lintError Invalid_node_field (js ''node '' @ i @ js '' trust must be 0..1'') (at_node i))
     @ issue_if (below (n_tokenCost node) 0)
         (lintError Invalid_node_field (js ''node '' @ i @ js '' tokenCost must be >= 0'') (at_node i))))"

definition validateEdge :: "ContextGraphEdge \<Rightarrow> nat \<Rightarrow> js_string set \<Rightarrow> ContextGraphLintIssue list" where
  "validateEdge edge index nodeIds =
    (let i = e_id edge in
     if i = [] then [lintError Invalid_edge_field (js ''edge['' @ decimal index @ js ''] has no id'') nowhere]
     else issue_if (e_from edge = [] \<or> e_from edge \<notin> nodeIds)
            (lintError Dangling_edge_issue (js ''edge '' @ i @ js '' has no resolvable from node'') (at_edge i))
        @ issue_if (e_to edge = [] \<or> e_to edge \<notin> nodeIds)
            (lintError Dangling_edge_issue (js ''edge '' @ i @ js '' has no resolvable to node'') (at_edge i))
        @ issue_if (p_path (e_provenance edge) = [] \<or> p_hash (e_provenance edge) = [])
            (lintError Edge_without_provenance (js ''edge '' @ i @ js '' has no usable provenance'') (at_edge i))
        @ issue_if (e_observedAt edge = [])
            (lintError Invalid_edge_field (js ''edge '' @ i @ js '' has no observedAt'') (at_edge i)))"

record NodeScan =
  sc_ids :: "js_string set"
  sc_previous :: "js_string option"
  sc_issues :: "ContextGraphLintIssue list"

definition scan_node :: "'n ContextGraphNode \<times> nat \<Rightarrow> NodeScan \<Rightarrow> NodeScan" where
  "scan_node entry s =
    (case validateNode (fst entry) (snd entry) of
       (None, issues) \<Rightarrow> s\<lparr>sc_issues := sc_issues s @ issues\<rparr>
     | (Some i, issues) \<Rightarrow>
         \<lparr>sc_ids = insert i (sc_ids s), sc_previous = Some i,
          sc_issues = sc_issues s @ issues
            @ issue_if (i \<in> sc_ids s) (lintError Duplicate_node_conflict (js ''duplicate node id '' @ i) (at_node i))
            @ issue_if (case sc_previous s of None \<Rightarrow> False | Some p \<Rightarrow> i < p)
                (lintError Non_deterministic_serialization (js ''nodes are not sorted by id at '' @ i) (at_node i))\<rparr>)"

fun scan_edges :: "js_string set \<Rightarrow> js_string option \<Rightarrow> (ContextGraphEdge \<times> nat) list \<Rightarrow> ContextGraphLintIssue list" where
  "scan_edges nodeIds previous [] = []"
| "scan_edges nodeIds previous ((edge, index) # rest) =
     validateEdge edge index nodeIds
       @ issue_if (case previous of None \<Rightarrow> False | Some p \<Rightarrow> e_id edge < p)
           (lintError Non_deterministic_serialization (js ''edges are not sorted by id at '' @ e_id edge) (at_edge (e_id edge)))
       @ scan_edges nodeIds (Some (e_id edge)) rest"

definition validateContextGraphSnapshot :: "'n ContextGraphSnapshot \<Rightarrow> ContextGraphLintIssue list" where
  "validateContextGraphSnapshot snapshot =
    (let scan = fold scan_node (zip (s_nodes snapshot) [0..<length (s_nodes snapshot)])
           \<lparr>sc_ids = {}, sc_previous = None, sc_issues = []\<rparr> in
     issue_if (s_schema snapshot \<noteq> CONTEXT_GRAPH_SCHEMA)
       (lintError Snapshot_meta_mismatch (js ''snapshot schema must be '' @ CONTEXT_GRAPH_SCHEMA) nowhere)
   @ issue_if (s_snapshotHash snapshot = []) (lintError Hash_mismatch (js ''snapshot has no snapshotHash'') nowhere)
   @ sc_issues scan
   @ scan_edges (sc_ids scan) None (zip (s_edges snapshot) [0..<length (s_edges snapshot)])
   @ issue_if (s_nodeCount snapshot \<noteq> length (s_nodes snapshot) \<or> s_edgeCount snapshot \<noteq> length (s_edges snapshot))
       (lintError Snapshot_meta_mismatch (js ''snapshot counts do not match the serialized arrays'') nowhere))"

definition structuralIssues :: "'n ContextGraphSnapshot \<Rightarrow> ContextGraphLintIssue list" where
  "structuralIssues snapshot = validateContextGraphSnapshot snapshot"

section \<open>Paths\<close>

definition check_path ::
  "(js_string \<Rightarrow> bool) \<Rightarrow> js_string \<Rightarrow> js_string \<Rightarrow> IssuePlace
     \<Rightarrow> js_string set \<times> ContextGraphLintIssue list \<Rightarrow> js_string set \<times> ContextGraphLintIssue list" where
  "check_path symlink_escape path label extra = (\<lambda>(checked, issues).
    if \<not> paths_isWorkspaceRelativePosixPath path then
      (checked, issues @ [lintError Absolute_or_escaping_path (label @ js '' is not a workspace-relative POSIX path'')
         (extra\<lparr>li_path := Some path\<rparr>)])
    else if path \<in> checked then (checked, issues)
    else (insert path checked, issues @ issue_if (symlink_escape path)
      (lintError Symlink_escape (label @ js '' resolves outside the workspace through a symlink'') (extra\<lparr>li_path := Some path\<rparr>))))"

definition check_node_path ::
  "(js_string \<Rightarrow> bool) \<Rightarrow> 'n ContextGraphNode \<Rightarrow> js_string set \<times> ContextGraphLintIssue list \<Rightarrow> js_string set \<times> ContextGraphLintIssue list" where
  "check_node_path symlink_escape node acc = (case n_path node of None \<Rightarrow> acc
     | Some path \<Rightarrow> check_path symlink_escape path (js ''node '' @ n_id node @ js '' path'') (at_node (n_id node)) acc)"

definition check_edge_path ::
  "(js_string \<Rightarrow> bool) \<Rightarrow> ContextGraphEdge \<Rightarrow> js_string set \<times> ContextGraphLintIssue list \<Rightarrow> js_string set \<times> ContextGraphLintIssue list" where
  "check_edge_path symlink_escape edge acc =
    (let path = p_path (e_provenance edge) in
     if path = [] then acc
     else check_path symlink_escape path (js ''edge '' @ e_id edge @ js '' provenance path'')
       (nowhere\<lparr>li_edgeId := Some (e_id edge), li_extractor := Some (p_extractor (e_provenance edge))\<rparr>) acc)"

definition pathSafetyIssues :: "(js_string \<Rightarrow> bool) \<Rightarrow> 'n ContextGraphSnapshot \<Rightarrow> ContextGraphLintIssue list" where
  "pathSafetyIssues symlink_escape snapshot =
     snd (fold (check_edge_path symlink_escape) (s_edges snapshot)
       (fold (check_node_path symlink_escape) (s_nodes snapshot) ({}, [])))"

section \<open>Secrets\<close>

definition nodeValues :: "'n ContextGraphNode \<Rightarrow> js_string list" where
  "nodeValues node = filter (\<lambda>s. s \<noteq> [])
     ([n_label node, case n_path node of None \<Rightarrow> [] | Some path \<Rightarrow> path]
      @ concat (map (\<lambda>(key, value). case value of
            Meta_string s \<Rightarrow> [key @ 61 # s] | Meta_array ss \<Rightarrow> map (\<lambda>s. key @ 61 # s) ss | _ \<Rightarrow> []) (n_metadata node)))"

definition edgeValues :: "ContextGraphEdge \<Rightarrow> js_string list" where
  "edgeValues edge = filter (\<lambda>s. s \<noteq> [])
     [p_path (e_provenance edge), p_extractor (e_provenance edge), p_hash (e_provenance edge)]"

text \<open>The longest runs of \<open>[A-Za-z0-9_+/=~-]\<close>.\<close>

definition entropy_char :: "16 word \<Rightarrow> bool" where
  "entropy_char u \<longleftrightarrow> ascii_letter u \<or> ascii_digit u \<or> u \<in> set (js ''_+/=~-'')"

function char_runs :: "(16 word \<Rightarrow> bool) \<Rightarrow> js_string \<Rightarrow> js_string list" where
  "char_runs p [] = []"
| "char_runs p (u # s) = (if p u then (u # takeWhile p s) # char_runs p (dropWhile p s) else char_runs p s)"
  by pat_completeness auto
termination
  by (relation "measure (\<lambda>(p, s). length s)") (auto simp: le_imp_less_Suc length_dropWhile_le)

definition lower_hex :: "16 word \<Rightarrow> bool" where
  "lower_hex u \<longleftrightarrow> 97 \<le> u \<and> u \<le> 102 \<or> ascii_digit u"

definition looksHighEntropy :: "js_string \<Rightarrow> bool" where
  "looksHighEntropy token =
    (if list_all lower_hex token \<and> 8 \<le> length token \<and> length token \<le> 64 then False
     else if length token \<ge> 32 then True
     else list_ex (\<lambda>u. 65 \<le> u \<and> u \<le> 90) token \<and> list_ex (\<lambda>u. 97 \<le> u \<and> u \<le> 122) token \<and> list_ex ascii_digit token)"

definition isStructuralValue :: "js_string \<Rightarrow> bool" where
  "isStructuralValue value =
    (if length value > 512 then False
     else \<not> list_ex looksHighEntropy (filter (\<lambda>run. length run \<ge> 20) (char_runs entropy_char value)))"

definition isPublicRuntimeLabel :: "js_string \<Rightarrow> js_string \<Rightarrow> bool" where
  "isPublicRuntimeLabel key value \<longleftrightarrow> key = js ''CODEX_INTERNAL_ORIGINATOR_OVERRIDE'' \<and> value = js ''Codex Desktop''"

definition environmentValues :: "(js_string \<times> js_string) list \<Rightarrow> js_string list" where
  "environmentValues env = map snd (filter (\<lambda>(key, value). length value \<ge> 12 \<and> \<not> isPublicRuntimeLabel key value) env)"

fun scan_values ::
  "(js_string \<Rightarrow> bool) \<Rightarrow> js_string list \<Rightarrow> IssuePlace \<Rightarrow> js_string \<Rightarrow> js_string list \<Rightarrow> ContextGraphLintIssue list" where
  "scan_values containsPlaintextSecret envValues where' label [] = []"
| "scan_values containsPlaintextSecret envValues where' label (text' # values) =
    (if \<not> isStructuralValue text' \<and> containsPlaintextSecret text'
     then [lintError Secret_like_value (label @ js '' carries a secret-like value'') where']
     else if list_ex (js_includes text') envValues
     then [lintError Secret_like_value (label @ js '' carries a raw environment value'') where']
     else scan_values containsPlaintextSecret envValues where' label values)"

definition secretIssues ::
  "(js_string \<Rightarrow> bool) \<Rightarrow> (js_string \<times> js_string) list \<Rightarrow> 'n ContextGraphSnapshot \<Rightarrow> ContextGraphLintIssue list" where
  "secretIssues containsPlaintextSecret env snapshot =
    (let envValues = environmentValues env in
     concat (map (\<lambda>node. scan_values containsPlaintextSecret envValues (at_node (n_id node)) (js ''node '' @ n_id node) (nodeValues node))
       (s_nodes snapshot))
   @ concat (map (\<lambda>edge. scan_values containsPlaintextSecret envValues
         (nowhere\<lparr>li_edgeId := Some (e_id edge), li_extractor := Some (p_extractor (e_provenance edge))\<rparr>)
         (js ''edge '' @ e_id edge) (edgeValues edge)) (s_edges snapshot)))"

section \<open>Determinism and hashes\<close>

text \<open>
  The texts of the arrays as they are and as they should be. An object of the model has its keys in the
  canonical order, so only the metadata can be out of order.
\<close>

definition array_text :: "json_text list \<Rightarrow> js_string" where
  "array_text vs = stringify (\<lambda>t. t) (J_array vs)"

definition determinismIssues ::
  "(rat \<Rightarrow> js_string) \<Rightarrow> ('n \<Rightarrow> js_string) \<Rightarrow> 'n ContextGraphSnapshot \<Rightarrow> ContextGraphLintIssue list" where
  "determinismIssues ratText numText snapshot =
    (let issue = (\<lambda>message. lintError Non_deterministic_serialization message nowhere);
         nodes = s_nodes snapshot; edges = s_edges snapshot;
         canonicalNodes = array_text (map (node_json ratText numText \<circ> orderedNode) (sortContextGraphNodes nodes));
         canonicalEdges = array_text (map (edge_json ratText \<circ> orderedEdge True) (sortContextGraphEdges edges)) in
     issue_if (array_text (map (node_json ratText numText \<circ> orderedNode) nodes) \<noteq> canonicalNodes)
       (issue (js ''nodes are not in canonical order''))
   @ issue_if (array_text (map (node_json ratText numText) nodes) \<noteq> canonicalNodes)
       (issue (js ''node objects do not use the canonical key order''))
   @ issue_if (array_text (map (edge_json ratText \<circ> orderedEdge True) edges) \<noteq> canonicalEdges)
       (issue (js ''edges are not in canonical order''))
   @ issue_if (array_text (map (edge_json ratText) edges) \<noteq> canonicalEdges)
       (issue (js ''edge objects do not use the canonical key order'')))"

definition sha256_text :: "js_string \<Rightarrow> bool" where
  "sha256_text s \<longleftrightarrow> length s = 64 \<and> list_all lower_hex s"

text \<open>What is recorded beside a snapshot.\<close>

datatype ContextGraphGitState = Git_clean | Git_dirty | Git_unknown

datatype ContextGraphSourcePolicy = Policy_workspace | Policy_repository_code_only

record ContextGraphCacheKeyParts =
  pk_sourcePolicy :: "ContextGraphSourcePolicy option"
  pk_sourceInventoryHash :: "js_string option"
  pk_workspaceIdentity :: js_string
  pk_head :: "js_string option"
  pk_gitState :: ContextGraphGitState
  pk_trackedDirtyFingerprint :: js_string
  pk_untrackedFingerprint :: js_string
  pk_schemaRevision :: js_string
  pk_tsconfigHash :: js_string
  pk_commandManifestHash :: js_string
  pk_gateManifestHash :: js_string
  pk_proofIndexHash :: js_string
  pk_wikiContextHash :: js_string

record ContextGraphMetaLint =
  ml_ok :: bool
  ml_errors :: nat
  ml_warnings :: nat

record ContextGraphMeta =
  mt_schema :: js_string
  mt_schemaRevision :: js_string
  mt_snapshotHash :: js_string
  mt_previousSnapshotHash :: "js_string option"
  mt_generatedAt :: js_string
  mt_cacheKey :: js_string
  mt_cacheKeyParts :: ContextGraphCacheKeyParts
  mt_inputHashes :: "js_string \<rightharpoonup> js_string"
  mt_nodeCount :: nat
  mt_edgeCount :: nat
  mt_lint :: ContextGraphMetaLint
  mt_skipped :: "ContextGraphSkip list"
  mt_durationMs :: int

definition draft_of :: "'n ContextGraphSnapshot \<Rightarrow> 'n ContextGraphSnapshotDraft" where
  "draft_of snapshot = \<lparr>df_nodes = s_nodes snapshot, df_edges = s_edges snapshot, df_cycles = s_cycles snapshot,
     df_extractors = s_extractors snapshot\<rparr>"

definition hashIssues ::
  "(rat \<Rightarrow> js_string) \<Rightarrow> ('n \<Rightarrow> js_string) \<Rightarrow> (js_string \<Rightarrow> js_string) \<Rightarrow> 'n ContextGraphSnapshot
     \<Rightarrow> ContextGraphMeta option \<Rightarrow> ContextGraphLintIssue list" where
  "hashIssues ratText numText sha256 snapshot meta =
     issue_if (computeContextGraphSnapshotHash ratText numText sha256 (draft_of snapshot) \<noteq> s_snapshotHash snapshot)
       (lintError Hash_mismatch (js ''snapshotHash does not match the canonical serialization'') nowhere)
   @ concat (map (\<lambda>node. issue_if (case n_contentHash node of None \<Rightarrow> False | Some h \<Rightarrow> \<not> sha256_text h)
         (lintError Hash_mismatch (js ''node '' @ n_id node @ js '' contentHash is not a sha256 digest'') (at_node (n_id node))))
       (s_nodes snapshot))
   @ concat (map (\<lambda>edge.
         issue_if (\<not> sha256_text (p_hash (e_provenance edge)))
           (lintError Hash_mismatch (js ''edge '' @ e_id edge @ js '' provenance hash is not a sha256 digest'') (at_edge (e_id edge)))
       @ issue_if (p_extractor (e_provenance edge) = [])
           (lintError Edge_without_provenance (js ''edge '' @ e_id edge @ js '' provenance names no extractor'') (at_edge (e_id edge))))
       (s_edges snapshot))
   @ (case meta of None \<Rightarrow> []
      | Some m \<Rightarrow>
          issue_if (mt_snapshotHash m \<noteq> s_snapshotHash snapshot)
            (lintError Snapshot_meta_mismatch (js ''meta snapshotHash does not match the snapshot'') nowhere)
        @ issue_if (mt_nodeCount m \<noteq> s_nodeCount snapshot \<or> mt_edgeCount m \<noteq> s_edgeCount snapshot)
            (lintError Snapshot_meta_mismatch (js ''meta counts do not match the snapshot'') nowhere))"

section \<open>Relations\<close>

definition SOURCE_RELATION_KINDS :: "ContextGraphNodeKind set" where
  "SOURCE_RELATION_KINDS = {Kind_file, Kind_config, Kind_schema, Kind_test, Kind_proof, Kind_source, Kind_module,
     Kind_symbol, Kind_pipeline, Kind_command, Kind_route}"

definition ids_at :: "(js_string \<rightharpoonup> js_string list) \<Rightarrow> js_string \<Rightarrow> js_string list" where
  "ids_at m key = (case m key of None \<Rightarrow> [] | Some ids \<Rightarrow> ids)"

definition grounds :: "'n ContextGraphIndex \<Rightarrow> js_string \<Rightarrow> js_string \<Rightarrow> bool" where
  "grounds index nodeId edgeId = (case gi_edgesById index edgeId of None \<Rightarrow> False
     | Some edge \<Rightarrow>
        (case gi_nodesById index (if e_from edge = nodeId then e_to edge else e_from edge) of None \<Rightarrow> False
         | Some other \<Rightarrow> n_kind other \<in> SOURCE_RELATION_KINDS))"

definition protectedGateIssues :: "'n ContextGraphIndex \<Rightarrow> ContextGraphLintIssue list" where
  "protectedGateIssues index =
     concat (map (\<lambda>node.
       issue_if (n_kind node = Kind_gate \<and> n_risk node = Protected
           \<and> \<not> list_ex (grounds index (n_id node)) (ids_at (gi_outgoing index) (n_id node) @ ids_at (gi_incoming index) (n_id node)))
         (lintError Protected_gate_without_source_relation
           (js ''protected gate '' @ n_id node @ js '' has no relation to a repository source'') (at_node (n_id node))))
       (s_nodes (gi_snapshot index)))"

definition manifest_edges :: "'n ContextGraphSnapshot \<Rightarrow> ContextGraphEdge list" where
  "manifest_edges snapshot = filter (\<lambda>edge. e_confidence edge = Manifest) (s_edges snapshot)"

definition manifest_targets :: "'n ContextGraphSnapshot \<Rightarrow> js_string \<Rightarrow> js_string list" where
  "manifest_targets snapshot nodeId =
     ids_at (fold (\<lambda>edge. push_key (e_from edge) (e_to edge)) (manifest_edges snapshot) Map.empty) nodeId"

definition manifestCycleIssues :: "(js_string \<Rightarrow> 'k::linorder) \<Rightarrow> 'n ContextGraphSnapshot \<Rightarrow> ContextGraphLintIssue list option" where
  "manifestCycleIssues collate snapshot =
    (if manifest_edges snapshot = [] then Some []
     else map_option (map (\<lambda>component. lintError Manifest_dag_cycle
           (js ''manifest relations form a cycle across '' @ decimal (length component) @ js '' nodes'') (at_node (component ! 0))))
       (computeStronglyConnectedComponents collate (map n_id (s_nodes snapshot)) (manifest_targets snapshot)))"

text \<open>\<open>sourceHashes[node.path]\<close> on a plain object: an inherited name is a value that differs from every hash.\<close>

definition freshnessClaimIssues :: "'n ContextGraphSnapshot \<Rightarrow> (js_string \<rightharpoonup> js_string) option \<Rightarrow> ContextGraphLintIssue list" where
  "freshnessClaimIssues snapshot sourceHashes = (case sourceHashes of None \<Rightarrow> []
     | Some hashes \<Rightarrow> concat (map (\<lambda>node.
         (case n_path node of None \<Rightarrow> []
          | Some path \<Rightarrow>
             (let current = object_get hashes path in
              issue_if (n_freshness node = Fresh \<and> current \<noteq> Absent \<and> truthy (n_contentHash node)
                  \<and> current \<noteq> Own (the (n_contentHash node)))
                (lintError Freshness_claim_mismatch (js ''node '' @ n_id node @ js '' claims fresh but its source hash changed'')
                  (nowhere\<lparr>li_nodeId := Some (n_id node), li_path := Some path\<rparr>)))))
         (s_nodes snapshot)))"

section \<open>Warnings\<close>

definition CITATION_EDGE_TYPES :: "ContextGraphEdgeType set" where
  "CITATION_EDGE_TYPES = {Cites, Derived_from, Supports}"

definition VERIFICATION_EDGE_TYPES :: "ContextGraphEdgeType set" where
  "VERIFICATION_EDGE_TYPES = {Tests, Verified_by, Gated_by}"

definition HIGH_FAN_IN :: nat where "HIGH_FAN_IN = 8"
definition PER_RULE_LIMIT :: nat where "PER_RULE_LIMIT = 50"

definition traversableEdgeTypes :: "ContextGraphEdgeType set" where
  "traversableEdgeTypes = (\<Union>name \<in> set [Implementation, Review, Planning, Answer]. set (pf_edges (CONTEXT_GRAPH_QUERY_PROFILES name)))"

fun lint_code_name :: "ContextGraphLintCode \<Rightarrow> js_string" where
  "lint_code_name Duplicate_node_conflict = js ''duplicate_node_conflict''"
| "lint_code_name Dangling_edge_issue = js ''dangling_edge''"
| "lint_code_name Edge_without_provenance = js ''edge_without_provenance''"
| "lint_code_name Absolute_or_escaping_path = js ''absolute_or_escaping_path''"
| "lint_code_name Symlink_escape = js ''symlink_escape''"
| "lint_code_name Secret_like_value = js ''secret_like_value''"
| "lint_code_name Unsupported_node_kind = js ''unsupported_node_kind''"
| "lint_code_name Unsupported_edge_type = js ''unsupported_edge_type''"
| "lint_code_name Non_deterministic_serialization = js ''non_deterministic_serialization''"
| "lint_code_name Protected_gate_without_source_relation = js ''protected_gate_without_source_relation''"
| "lint_code_name Manifest_dag_cycle = js ''manifest_dag_cycle''"
| "lint_code_name Hash_mismatch = js ''hash_mismatch''"
| "lint_code_name Snapshot_meta_mismatch = js ''snapshot_meta_mismatch''"
| "lint_code_name Freshness_claim_mismatch = js ''freshness_claim_mismatch''"
| "lint_code_name Invalid_node_field = js ''invalid_node_field''"
| "lint_code_name Invalid_edge_field = js ''invalid_edge_field''"
| "lint_code_name Orphan_wiki_claim = js ''orphan_wiki_claim''"
| "lint_code_name Single_source_low_trust_synthesis = js ''single_source_low_trust_synthesis''"
| "lint_code_name Unknown_freshness = js ''unknown_freshness''"
| "lint_code_name High_fan_in_without_verification = js ''high_fan_in_without_verification''"
| "lint_code_name Unreachable_in_profile = js ''unreachable_in_profile''"
| "lint_code_name Extractor_skipped_input = js ''extractor_skipped_input''"

fun skip_reason_name :: "ContextGraphSkipReason \<Rightarrow> js_string" where
  "skip_reason_name Skip_binary = js ''binary''"
| "skip_reason_name Skip_oversized = js ''oversized''"
| "skip_reason_name Skip_unsupported_language = js ''unsupported_language''"
| "skip_reason_name Skip_symlink_escape = js ''symlink_escape''"
| "skip_reason_name Skip_unreadable = js ''unreadable''"
| "skip_reason_name Skip_generated = js ''generated''"
| "skip_reason_name Skip_cap_reached = js ''cap_reached''"
| "skip_reason_name Skip_excluded = js ''excluded''"

definition capped :: "ContextGraphLintIssue list \<Rightarrow> nat \<Rightarrow> ContextGraphLintIssue list" where
  "capped issues limit =
    (if length issues \<le> limit then issues
     else take limit issues @ (case issues of [] \<Rightarrow> []
       | first # _ \<Rightarrow> [lintWarning (li_code first) (decimal (length issues - limit) @ js '' further ''
            @ lint_code_name (li_code first) @ js '' warnings were omitted from this snapshot'') nowhere]))"

definition summarizeSkips :: "ContextGraphSkip list \<Rightarrow> ContextGraphLintIssue list" where
  "summarizeSkips skipped =
     map (\<lambda>reason. lintWarning Extractor_skipped_input
         (decimal (count_list (map sk_reason skipped) reason) @ js '' input(s) were skipped: '' @ skip_reason_name reason) nowhere)
       (sort_key skip_reason_name (remdups (map sk_reason skipped)))"

definition claim_citations :: "'n ContextGraphIndex \<Rightarrow> 'n ContextGraphNode \<Rightarrow> nat" where
  "claim_citations index node = length (filter (\<lambda>edge. e_type edge \<in> CITATION_EDGE_TYPES) (outgoingEdges index (n_id node)))"

definition incident_type :: "'n ContextGraphIndex \<Rightarrow> ContextGraphEdgeType set \<Rightarrow> 'n ContextGraphNode \<Rightarrow> bool" where
  "incident_type index types node \<longleftrightarrow>
     list_ex (\<lambda>edge. e_type edge \<in> types) (incomingEdges index (n_id node) @ outgoingEdges index (n_id node))"

definition warningIssues :: "'n ContextGraphIndex \<Rightarrow> ContextGraphSkip list \<Rightarrow> ContextGraphLintIssue list" where
  "warningIssues index skipped =
    (let each = (\<lambda>rule. concat (map rule (s_nodes (gi_snapshot index))));
         warn = (\<lambda>code node message. lintWarning code message (at_node (n_id node))) in
     capped (each (\<lambda>node. issue_if (n_kind node = Kind_wiki_claim \<and> claim_citations index node = 0)
       (warn Orphan_wiki_claim node (js ''wiki claim '' @ n_id node @ js '' cites no source'')))) PER_RULE_LIMIT
   @ capped (each (\<lambda>node. issue_if (n_kind node = Kind_wiki_claim \<and> claim_citations index node = 1 \<and> below (n_trust node) (1 / 2))
       (warn Single_source_low_trust_synthesis node (js ''wiki claim '' @ n_id node @ js '' rests on one low-trust source'')))) PER_RULE_LIMIT
   @ capped (each (\<lambda>node. issue_if (n_freshness node = Unknown)
       (warn Unknown_freshness node (js ''node '' @ n_id node @ js '' has unknown freshness'')))) PER_RULE_LIMIT
   @ capped (each (\<lambda>node. issue_if (length (incomingEdges index (n_id node)) \<ge> HIGH_FAN_IN
           \<and> \<not> incident_type index VERIFICATION_EDGE_TYPES node)
       (warn High_fan_in_without_verification node (js ''node '' @ n_id node @ js '' has ''
          @ decimal (length (incomingEdges index (n_id node))) @ js '' dependents and no test or gate relation'')))) PER_RULE_LIMIT
   @ capped (each (\<lambda>node. issue_if (\<not> incident_type index traversableEdgeTypes node)
       (warn Unreachable_in_profile node (js ''node '' @ n_id node @ js '' is not reachable by any query profile'')))) PER_RULE_LIMIT
   @ summarizeSkips skipped)"

section \<open>The lint\<close>

definition issueSortKey :: "ContextGraphLintIssue \<Rightarrow> js_string" where
  "issueSortKey issue =
    (let text_or_empty = (\<lambda>v. case v of None \<Rightarrow> [] | Some s \<Rightarrow> s) in
     join_with [0] [if li_severity issue = Issue_error then js ''0'' else js ''1'', lint_code_name (li_code issue),
       text_or_empty (li_nodeId issue), text_or_empty (li_edgeId issue), text_or_empty (li_path issue),
       text_or_empty (li_extractor issue), li_message issue])"

fun first_of_key :: "js_string set \<Rightarrow> ContextGraphLintIssue list \<Rightarrow> ContextGraphLintIssue list" where
  "first_of_key seen [] = []"
| "first_of_key seen (issue # issues) =
    (let key = issueSortKey issue in
     if key \<in> seen then first_of_key seen issues else issue # first_of_key (insert key seen) issues)"

definition dedupe_issues :: "ContextGraphLintIssue list \<Rightarrow> ContextGraphLintIssue list" where
  "dedupe_issues issues = sort_key issueSortKey (first_of_key {} issues)"

record 'n LintHost =
  lh_lower :: "js_string \<Rightarrow> js_string"
  lh_sha256 :: "js_string \<Rightarrow> js_string"
  lh_ratText :: "rat \<Rightarrow> js_string"
  lh_numText :: "'n \<Rightarrow> js_string"
  lh_symlink_escape :: "js_string \<Rightarrow> bool"
  lh_secret :: "js_string \<Rightarrow> bool"
  lh_env :: "(js_string \<times> js_string) list"

text \<open>The issues in the order of their keys; the lint passes when none of them is an error.\<close>

definition runContextGraphLint ::
  "'n LintHost \<Rightarrow> (js_string \<Rightarrow> 'k::linorder) \<Rightarrow> 'n ContextGraphSnapshot \<Rightarrow> ContextGraphMeta option
     \<Rightarrow> (js_string \<rightharpoonup> js_string) option \<Rightarrow> ContextGraphSkip list \<Rightarrow> ContextGraphLintIssue list option" where
  "runContextGraphLint host collate snapshot meta sourceHashes skipped =
    (let index = buildContextGraphIndex (lh_lower host) snapshot in
     map_option (\<lambda>cycles. dedupe_issues
       (structuralIssues snapshot
        @ pathSafetyIssues (lh_symlink_escape host) snapshot
        @ secretIssues (lh_secret host) (lh_env host) snapshot
        @ determinismIssues (lh_ratText host) (lh_numText host) snapshot
        @ hashIssues (lh_ratText host) (lh_numText host) (lh_sha256 host) snapshot meta
        @ protectedGateIssues index
        @ cycles
        @ freshnessClaimIssues snapshot sourceHashes
        @ warningIssues index skipped))
       (manifestCycleIssues collate snapshot))"

definition lint_ok :: "ContextGraphLintIssue list \<Rightarrow> bool" where
  "lint_ok issues \<longleftrightarrow> filter is_error issues = []"

end
