(* ===== verification/Compiler_Snapshot_Correct.thy ===== *)
theory Compiler_Snapshot_Correct
  imports Compiler_Snapshot "HOL-Library.Multiset"
begin

text \<open>
  What the canonical form of a snapshot promises: it does not depend on the order its parts came in,
  its hash does not depend on the clock, drafts with the same hashed text have the same content, and
  its cycles are the strongly connected components of its edges.
\<close>

section \<open>The order of the parts does not matter\<close>

lemma sort_key_mset: "mset xs = mset ys \<Longrightarrow> distinct (map f xs) \<Longrightarrow> sort_key f xs = sort_key f ys"
  by (rule sort_key_inj_key_eq) (simp_all add: distinct_map)

lemma sort_key_map: "sort_key f (map g xs) = map g (sort_key (f \<circ> g) xs)"
proof (induction xs)
  case (Cons x xs)
  have "insort_key f (g x) (map g zs) = map g (insort_key (f \<circ> g) x zs)" for zs by (induction zs) simp_all
  with Cons show ?case by (simp add: o_def)
qed simp

definition same_content :: "'n ContextGraphSnapshotDraft \<Rightarrow> 'n ContextGraphSnapshotDraft \<Rightarrow> bool" where
  "same_content d d' \<longleftrightarrow> mset (df_nodes d) = mset (df_nodes d')
     \<and> mset (map (orderedEdge False) (df_edges d)) = mset (map (orderedEdge False) (df_edges d'))
     \<and> mset (df_cycles d) = mset (df_cycles d') \<and> mset (df_extractors d) = mset (df_extractors d')"

definition distinct_ids :: "'n ContextGraphSnapshotDraft \<Rightarrow> bool" where
  "distinct_ids d \<longleftrightarrow> distinct (map n_id (df_nodes d)) \<and> distinct (map e_id (df_edges d))
     \<and> distinct (map cy_id (df_cycles d)) \<and> distinct (map xs_id (df_extractors d))"

lemma ordered_id [simp]: "e_id (orderedEdge b e) = e_id e" "n_id (orderedNode n) = n_id n"
  "e_id \<circ> orderedEdge b = e_id" "n_id \<circ> orderedNode = n_id"
  by (auto simp: orderedEdge_def orderedNode_def)

lemma ordered_again [simp]: "orderedEdge False (orderedEdge b e) = orderedEdge False e"
  by (simp add: orderedEdge_def)

lemma hashed_edges: "map (orderedEdge False) (sortContextGraphEdges edges) = sort_key e_id (map (orderedEdge False) edges)"
  by (simp add: sortContextGraphEdges_def sort_key_map)

lemma same_hash_input:
  assumes same: "same_content d d'" and ids: "distinct_ids d"
  shows "hash_input_json ratText numText d = hash_input_json ratText numText d'"
proof -
  have "sortContextGraphNodes (df_nodes d) = sortContextGraphNodes (df_nodes d')"
    unfolding sortContextGraphNodes_def using same ids by (intro sort_key_mset) (auto simp: same_content_def distinct_ids_def)
  moreover have "map (orderedEdge False) (sortContextGraphEdges (df_edges d)) = map (orderedEdge False) (sortContextGraphEdges (df_edges d'))"
    unfolding hashed_edges using same ids by (intro sort_key_mset) (auto simp: same_content_def distinct_ids_def)
  moreover have "sortContextGraphCycles (df_cycles d) = sortContextGraphCycles (df_cycles d')"
    unfolding sortContextGraphCycles_def using same ids by (intro sort_key_mset) (auto simp: same_content_def distinct_ids_def o_def)
  moreover have "sortExtractorStats (df_extractors d) = sortExtractorStats (df_extractors d')"
    unfolding sortExtractorStats_def using same ids by (intro sort_key_mset) (auto simp: same_content_def distinct_ids_def o_def)
  ultimately show ?thesis unfolding hash_input_json_def by (simp flip: map_map)
qed

text \<open>
  C27. The hash of a snapshot depends neither on the order of its parts nor on the times at which its
  edges were observed, and the whole snapshot does not depend on that order, as long as the
  identifiers of each kind are distinct.
\<close>

theorem snapshot_order_free:
  assumes "same_content d d'" "distinct_ids d"
  shows "computeContextGraphSnapshotHash ratText numText sha256 d = computeContextGraphSnapshotHash ratText numText sha256 d'
    \<and> (mset (df_edges d) = mset (df_edges d') \<longrightarrow>
         buildContextGraphSnapshot ratText numText sha256 d = buildContextGraphSnapshot ratText numText sha256 d')"
proof -
  note sorted_same = sort_key_mset [of "df_nodes d" "df_nodes d'" n_id] sort_key_mset [of "df_edges d" "df_edges d'" e_id]
  have "sortContextGraphCycles (df_cycles d) = sortContextGraphCycles (df_cycles d')"
    "sortExtractorStats (df_extractors d) = sortExtractorStats (df_extractors d')"
    unfolding sortContextGraphCycles_def sortExtractorStats_def using assms
    by (auto intro!: sort_key_mset simp: same_content_def distinct_ids_def o_def)
  moreover have "sortContextGraphNodes (df_nodes d) = sortContextGraphNodes (df_nodes d')"
    using assms sorted_same(1) by (simp add: sortContextGraphNodes_def same_content_def distinct_ids_def)
  moreover have "sortContextGraphEdges (df_edges d) = sortContextGraphEdges (df_edges d')" if "mset (df_edges d) = mset (df_edges d')"
    using that assms sorted_same(2) by (simp add: sortContextGraphEdges_def distinct_ids_def)
  ultimately show ?thesis
    using same_hash_input [OF assms, of ratText numText]
    by (simp add: computeContextGraphSnapshotHash_def canonicalContextGraphHashInput_def buildContextGraphSnapshot_def)
qed

section \<open>The hashed text determines the content\<close>

text \<open>The numbers of a draft, and that those of its nodes are finite.\<close>

definition opt_ints :: "int option list \<Rightarrow> rat set" where
  "opt_ints os = {of_int i | i. Some i \<in> set os}"

definition locator_ints :: "ContextGraphLocator \<Rightarrow> rat set" where
  "locator_ints l = opt_ints [loc_line l, loc_column l, loc_endLine l, loc_endColumn l]"

definition node_numbers :: "'n ContextGraphNode \<Rightarrow> rat set" where
  "node_numbers n = {r. n_trust n = Finite r \<or> n_tokenCost n = Finite r} \<union> (case n_locator n of None \<Rightarrow> {} | Some l \<Rightarrow> locator_ints l)"

definition draft_numbers :: "'n ContextGraphSnapshotDraft \<Rightarrow> rat set" where
  "draft_numbers d = (\<Union>n \<in> set (df_nodes d). node_numbers n) \<union> (\<Union>e \<in> set (df_edges d). opt_ints [p_line (e_provenance e)])
     \<union> (\<Union>x \<in> set (df_extractors d). of_nat ` {xs_nodeCount x, xs_edgeCount x, xs_issueCount x, xs_skippedCount x})"

definition finite_numbers :: "'n ContextGraphNode \<Rightarrow> bool" where
  "finite_numbers n \<longleftrightarrow> finite_number (n_trust n) \<noteq> None \<and> finite_number (n_tokenCost n) \<noteq> None"

lemma kind_name_inj: "kind_name k = kind_name k' \<longleftrightarrow> k = k'"
  by (cases k; cases k'; simp add: js_def)

lemma confidence_name_inj: "confidence_name c = confidence_name c' \<longleftrightarrow> c = c'"
  by (cases c; cases c'; simp add: js_def)

lemma freshness_name_inj: "freshness_name f = freshness_name f' \<longleftrightarrow> f = f'"
  by (cases f; cases f'; simp add: js_def)

lemma risk_name_inj: "risk_name r = risk_name r' \<longleftrightarrow> r = r'"
  by (cases r; cases r'; simp add: js_def)

lemma edge_type_name_inj: "edge_type_name t = edge_type_name t' \<longleftrightarrow> t = t'"
  by (cases t; cases t'; simp add: js_def)

lemmas names_inj = kind_name_inj confidence_name_inj freshness_name_inj risk_name_inj edge_type_name_inj

text \<open>A member is found again by its name.\<close>

definition member_named :: "string \<Rightarrow> 'a json \<Rightarrow> 'a json option" where
  "member_named key j = (case j of J_object es \<Rightarrow> map_of es (js key) | _ \<Rightarrow> None)"

lemma member_named_object:
  "member_named key (J_object []) = None"
  "member_named key (J_object (member_of key' v @ es)) = (if js key = js key' then Some v else member_named key (J_object es))"
  "member_named key (J_object (optional_member key' f o' @ es)) = (if js key = js key' \<and> o' \<noteq> None then Some (f (the o')) else member_named key (J_object es))"
  "member_named key (J_object (member_of key' v)) = (if js key = js key' then Some v else None)"
  "member_named key (J_object (optional_member key' f o')) = (if js key = js key' then map_option f o' else None)"
  by (auto simp: member_named_def member_of_def optional_member_def split: option.splits)

lemma string_list_inj: "map J_string xs = map J_string ys \<Longrightarrow> xs = ys"
  by (induction xs arbitrary: ys) auto

lemma string_option_inj: "map_option J_string a = map_option J_string b \<longleftrightarrow> a = b"
  by (cases a; cases b) auto

lemma metadata_json_inj: "inj numText \<Longrightarrow> metadata_json numText a = metadata_json numText b \<Longrightarrow> a = b"
  by (cases a; cases b) (auto simp: inj_eq dest: string_list_inj)

lemma int_json_inj: "inj_on ratText R \<Longrightarrow> (\<And>i. a = Some i \<or> b = Some i \<Longrightarrow> of_int i \<in> R) \<Longrightarrow>
    map_option (int_json ratText) a = map_option (int_json ratText) b \<Longrightarrow> a = b"
  by (cases a; cases b) (auto simp: int_json_def dest: inj_onD)

lemma number_json_inj: "inj_on ratText R \<Longrightarrow> (\<And>r. a = Finite r \<or> b = Finite r \<Longrightarrow> r \<in> R) \<Longrightarrow>
    finite_number a \<noteq> None \<Longrightarrow> finite_number b \<noteq> None \<Longrightarrow> number_json ratText a = number_json ratText b \<Longrightarrow> a = b"
  by (cases a; cases b) (auto simp: finite_number_def dest: inj_onD)

lemma locator_members:
  "member_named ''line'' (locator_json ratText l) = map_option (int_json ratText) (loc_line l)"
  "member_named ''column'' (locator_json ratText l) = map_option (int_json ratText) (loc_column l)"
  "member_named ''endLine'' (locator_json ratText l) = map_option (int_json ratText) (loc_endLine l)"
  "member_named ''endColumn'' (locator_json ratText l) = map_option (int_json ratText) (loc_endColumn l)"
  by (auto simp: locator_json_def member_named_object js_def)

lemma locator_json_inj:
  assumes R: "inj_on ratText R" "locator_ints a \<union> locator_ints b \<subseteq> R" and same: "locator_json ratText a = locator_json ratText b"
  shows "a = b"
proof -
  have member: "x a = x b" if "\<And>l. member_named key (locator_json ratText l) = map_option (int_json ratText) (x l)"
    "x \<in> {loc_line, loc_column, loc_endLine, loc_endColumn}" for x key
  proof (rule int_json_inj [OF R(1)])
    show "map_option (int_json ratText) (x a) = map_option (int_json ratText) (x b)"
      using arg_cong [OF same, of "member_named key"] that(1) by simp
    show "of_int i \<in> R" if "x a = Some i \<or> x b = Some i" for i
      using R(2) that \<open>x \<in> _\<close> by (auto simp: locator_ints_def opt_ints_def)
  qed
  show ?thesis using locator_members [THEN member] by simp
qed

lemma node_members:
  "member_named ''id'' (node_json ratText numText n) = Some (J_string (n_id n))"
  "member_named ''kind'' (node_json ratText numText n) = Some (J_string (kind_name (n_kind n)))"
  "member_named ''label'' (node_json ratText numText n) = Some (J_string (n_label n))"
  "member_named ''path'' (node_json ratText numText n) = map_option J_string (n_path n)"
  "member_named ''locator'' (node_json ratText numText n) = map_option (locator_json ratText) (n_locator n)"
  "member_named ''contentHash'' (node_json ratText numText n) = map_option J_string (n_contentHash n)"
  "member_named ''trust'' (node_json ratText numText n) = Some (number_json ratText (n_trust n))"
  "member_named ''freshness'' (node_json ratText numText n) = Some (J_string (freshness_name (n_freshness n)))"
  "member_named ''risk'' (node_json ratText numText n) = Some (J_string (risk_name (n_risk n)))"
  "member_named ''tokenCost'' (node_json ratText numText n) = Some (number_json ratText (n_tokenCost n))"
  "member_named ''metadata'' (node_json ratText numText n) = Some (J_object (map (\<lambda>(k, v). (k, metadata_json numText v)) (n_metadata n)))"
  by (auto simp: node_json_def member_named_object js_def)

lemma edge_members:
  "member_named ''id'' (edge_json ratText e) = Some (J_string (e_id e))"
  "member_named ''from'' (edge_json ratText e) = Some (J_string (e_from e))"
  "member_named ''to'' (edge_json ratText e) = Some (J_string (e_to e))"
  "member_named ''type'' (edge_json ratText e) = Some (J_string (edge_type_name (e_type e)))"
  "member_named ''confidence'' (edge_json ratText e) = Some (J_string (confidence_name (e_confidence e)))"
  "member_named ''provenance'' (edge_json ratText e) = Some (provenance_json ratText (e_provenance e))"
  "member_named ''observedAt'' (edge_json ratText e) = Some (J_string (e_observedAt e))"
  by (auto simp: edge_json_def member_named_object js_def)

lemma provenance_members:
  "member_named ''path'' (provenance_json ratText p) = Some (J_string (p_path p))"
  "member_named ''line'' (provenance_json ratText p) = map_option (int_json ratText) (p_line p)"
  "member_named ''hash'' (provenance_json ratText p) = Some (J_string (p_hash p))"
  "member_named ''extractor'' (provenance_json ratText p) = Some (J_string (p_extractor p))"
  by (auto simp: provenance_json_def member_named_object js_def)

lemma node_json_inj:
  assumes R: "inj_on ratText R" "inj numText" "node_numbers a \<union> node_numbers b \<subseteq> R" and fin: "finite_numbers a" "finite_numbers b"
    and same: "node_json ratText numText a = node_json ratText numText b"
  shows "a = b"
proof -
  note field = arg_cong [OF same, of "member_named key" for key]
  have "map (\<lambda>(k, v). (k, metadata_json numText v)) (n_metadata a) = map (\<lambda>(k, v). (k, metadata_json numText v)) (n_metadata b)"
    using field [of "''metadata''"] by (simp add: node_members)
  then have "n_metadata a = n_metadata b"
    using metadata_json_inj [OF R(2)] by (intro map_inj_on [where f = "\<lambda>(k, v). (k, metadata_json numText v)"]) (auto simp: inj_on_def)
  moreover have "n_trust a = n_trust b" "n_tokenCost a = n_tokenCost b"
    using field [of "''trust''"] field [of "''tokenCost''"] R(3) fin
    by (auto intro!: number_json_inj [OF R(1)] simp: node_members node_numbers_def finite_numbers_def)
  moreover have "n_locator a = n_locator b"
    using field [of "''locator''"] R(3) locator_json_inj [OF R(1)]
    by (auto simp: node_members node_numbers_def split: option.splits)
  moreover have "n_path a = n_path b" "n_contentHash a = n_contentHash b"
    using field [of "''path''"] field [of "''contentHash''"] by (simp_all add: node_members string_option_inj)
  moreover have "n_id a = n_id b" "n_kind a = n_kind b" "n_label a = n_label b" "n_freshness a = n_freshness b" "n_risk a = n_risk b"
    using field [of "''id''"] field [of "''kind''"] field [of "''label''"] field [of "''freshness''"] field [of "''risk''"]
    by (simp_all add: node_members names_inj)
  ultimately show ?thesis by simp
qed

lemma edge_json_inj:
  assumes R: "inj_on ratText R" "opt_ints [p_line (e_provenance a), p_line (e_provenance b)] \<subseteq> R"
    and same: "edge_json ratText a = edge_json ratText b"
  shows "a = b"
proof -
  note field = arg_cong [OF same, of "member_named key" for key]
  have p: "provenance_json ratText (e_provenance a) = provenance_json ratText (e_provenance b)"
    using field [of "''provenance''"] by (simp add: edge_members)
  have "p_line (e_provenance a) = p_line (e_provenance b)"
    using arg_cong [OF p, of "member_named ''line''"] R by (intro int_json_inj [OF R(1)]) (auto simp: provenance_members opt_ints_def)
  moreover have "p_path (e_provenance a) = p_path (e_provenance b)" "p_hash (e_provenance a) = p_hash (e_provenance b)"
    "p_extractor (e_provenance a) = p_extractor (e_provenance b)"
    using arg_cong [OF p, of "member_named ''path''"] arg_cong [OF p, of "member_named ''hash''"] arg_cong [OF p, of "member_named ''extractor''"]
    by (simp_all add: provenance_members)
  ultimately have "e_provenance a = e_provenance b" by simp
  moreover have "e_id a = e_id b" "e_from a = e_from b" "e_to a = e_to b" "e_observedAt a = e_observedAt b"
    using field [of "''id''"] field [of "''from''"] field [of "''to''"] field [of "''observedAt''"] by (simp_all add: edge_members)
  moreover have "e_type a = e_type b" "e_confidence a = e_confidence b"
    using field [of "''type''"] field [of "''confidence''"] by (simp_all add: edge_members names_inj)
  ultimately show ?thesis by simp
qed

lemma cycle_json_inj: "cycle_json a = cycle_json b \<Longrightarrow> a = b"
  by (auto simp: cycle_json_def member_of_def dest: string_list_inj intro: ContextGraphCycle.equality)

lemma stat_json_inj:
  assumes "inj_on ratText R" "of_nat ` {xs_nodeCount a, xs_edgeCount a, xs_issueCount a, xs_skippedCount a} \<subseteq> R"
    "of_nat ` {xs_nodeCount b, xs_edgeCount b, xs_issueCount b, xs_skippedCount b} \<subseteq> R" "stat_json ratText a = stat_json ratText b"
  shows "a = b"
proof -
  have "m = n" if "ratText (of_nat m) = ratText (of_nat n)" "(of_nat m :: rat) \<in> R" "of_nat n \<in> R" for m n
    using inj_onD [OF assms(1) that] by simp
  then show ?thesis using assms(2-4) by (intro ContextGraphExtractorStat.equality) (auto simp: stat_json_def member_of_def int_json_def)
qed

text \<open>The content of a draft: sorted, its objects in canonical form, without the times of observation.\<close>

definition canonical :: "'n ContextGraphSnapshotDraft \<Rightarrow> 'n ContextGraphSnapshotDraft" where
  "canonical d = \<lparr>df_nodes = map orderedNode (sortContextGraphNodes (df_nodes d)),
     df_edges = map (orderedEdge False) (sortContextGraphEdges (df_edges d)),
     df_cycles = sortContextGraphCycles (df_cycles d), df_extractors = sortExtractorStats (df_extractors d)\<rparr>"

lemma map_inj_lists:
  assumes "map f xs = map f ys" "\<And>x y. x \<in> set xs \<Longrightarrow> y \<in> set ys \<Longrightarrow> f x = f y \<Longrightarrow> x = y"
  shows "xs = ys"
  using assms by (induction xs arbitrary: ys) (auto simp: Cons_eq_map_conv)

lemma canonical_numbers:
  "n \<in> set (df_nodes (canonical d)) \<Longrightarrow> node_numbers n \<subseteq> draft_numbers d"
  "e \<in> set (df_edges (canonical d)) \<Longrightarrow> opt_ints [p_line (e_provenance e)] \<subseteq> draft_numbers d"
  "x \<in> set (df_extractors (canonical d)) \<Longrightarrow>
     of_nat ` {xs_nodeCount x, xs_edgeCount x, xs_issueCount x, xs_skippedCount x} \<subseteq> draft_numbers d"
  by (fastforce simp: canonical_def draft_numbers_def sortContextGraphNodes_def orderedNode_def node_numbers_def
      orderedLocator_def locator_ints_def split: option.splits)
    (fastforce simp: canonical_def draft_numbers_def sortContextGraphEdges_def orderedEdge_def,
     fastforce simp: canonical_def draft_numbers_def sortExtractorStats_def)

lemma number_set_json: "set_json (number_json ratText x) \<subseteq> range ratText" "set_json (int_json ratText i) \<subseteq> range ratText"
  by (cases x; auto) (auto simp: int_json_def)

text \<open>Every number of the hashed text is the text of a number.\<close>

definition number_in :: "js_string set \<Rightarrow> json_text \<Rightarrow> bool" where
  "number_in T j \<longleftrightarrow> set_json j \<subseteq> T"

definition numbers_in :: "js_string set \<Rightarrow> (js_string \<times> json_text) list \<Rightarrow> bool" where
  "numbers_in T es \<longleftrightarrow> (\<forall>m \<in> set es. number_in T (snd m))"

lemma snds_snd: "Basic_BNFs.snds m = {snd m}"
  by (cases m) (simp add: prod_set_simps)

lemma numbers_in_simps:
  "number_in T (J_object es) \<longleftrightarrow> numbers_in T es" "numbers_in T (es @ fs) \<longleftrightarrow> numbers_in T es \<and> numbers_in T fs"
  "numbers_in T (member_of k v) \<longleftrightarrow> number_in T v"
  "numbers_in T (optional_member k f o') \<longleftrightarrow> (\<forall>x. o' = Some x \<longrightarrow> number_in T (f x))"
  "number_in T (J_array vs) \<longleftrightarrow> (\<forall>j \<in> set vs. number_in T j)" "number_in T (J_string s)" "number_in T (J_bool b)"
  "number_in T J_null" "number_in T (J_number t) \<longleftrightarrow> t \<in> T"
  by (auto simp: numbers_in_def number_in_def member_of_def optional_member_def snds_snd)

lemma hash_input_texts:
  "set_json (hash_input_json ratText numText d) \<subseteq> range ratText \<union> range numText"
proof -
  let ?T = "range ratText \<union> range numText"
  have numbers: "number_in ?T (number_json ratText x)" "number_in ?T (int_json ratText i)" for x i
    by (cases x) (simp_all add: int_json_def numbers_in_simps)
  have metadata: "number_in ?T (metadata_json numText v)" for v by (cases v) (auto simp: numbers_in_simps)
  have "number_in ?T (node_json ratText numText n)" for n
    unfolding node_json_def locator_json_def by (auto simp: numbers_in_simps numbers) (auto simp: numbers_in_def metadata)
  moreover have "number_in ?T (edge_json ratText e)" for e
    unfolding edge_json_def provenance_json_def by (simp add: numbers_in_simps numbers)
  moreover have "number_in ?T (cycle_json c)" "number_in ?T (stat_json ratText x)" for c x
    unfolding cycle_json_def stat_json_def by (auto simp: numbers_in_simps numbers)
  ultimately have "number_in ?T (hash_input_json ratText numText d)" unfolding hash_input_json_def by (simp add: numbers_in_simps)
  then show ?thesis by (simp add: number_in_def)
qed

text \<open>
  C17. Drafts whose hashed texts are the same have the same content: the same nodes with the same
  fields and metadata, the same edges up to the times of observation, the same cycles and
  extractors. So two different contents have the same hash only where the digest collides. The
  numbers of the nodes are finite, and number texts are as the language defines them: they look like
  numbers, and different numbers of the drafts have different texts.
\<close>

theorem hash_input_exact:
  assumes "inj_on ratText (draft_numbers d \<union> draft_numbers d')" "inj numText"
    and "number_texts (\<lambda>t. t) (range ratText \<union> range numText)"
    and "list_all finite_numbers (df_nodes d)" "list_all finite_numbers (df_nodes d')"
    and "canonicalContextGraphHashInput ratText numText d = canonicalContextGraphHashInput ratText numText d'"
  shows "canonical d = canonical d'"
proof -
  let ?R = "draft_numbers d \<union> draft_numbers d'"
  have "hash_input_json ratText numText d = hash_input_json ratText numText d'"
    using stringify_inj [OF assms(3) hash_input_texts hash_input_texts, of "[]" "[]"] assms(6)
    by (simp add: canonicalContextGraphHashInput_def)
  then have same:
    "map (node_json ratText numText) (df_nodes (canonical d)) = map (node_json ratText numText) (df_nodes (canonical d'))"
    "map (edge_json ratText) (df_edges (canonical d)) = map (edge_json ratText) (df_edges (canonical d'))"
    "map cycle_json (df_cycles (canonical d)) = map cycle_json (df_cycles (canonical d'))"
    "map (stat_json ratText) (df_extractors (canonical d)) = map (stat_json ratText) (df_extractors (canonical d'))"
    by (simp_all add: hash_input_json_def canonical_def member_of_def)
  have fin: "finite_numbers n" if "n \<in> set (df_nodes (canonical d)) \<union> set (df_nodes (canonical d'))" for n
    using that assms(4,5)
    by (auto simp: canonical_def list_all_iff finite_numbers_def orderedNode_def sortContextGraphNodes_def)
  have "df_nodes (canonical d) = df_nodes (canonical d')"
  proof (rule map_inj_lists [OF same(1)])
    fix a b assume e: "a \<in> set (df_nodes (canonical d))" "b \<in> set (df_nodes (canonical d'))"
      "node_json ratText numText a = node_json ratText numText b"
    show "a = b"
      by (rule node_json_inj [OF assms(1,2) _ _ _ e(3)])
        (use canonical_numbers(1) [OF e(1)] canonical_numbers(1) [OF e(2)] fin e in blast)+
  qed
  moreover have "df_edges (canonical d) = df_edges (canonical d')"
  proof (rule map_inj_lists [OF same(2)])
    fix a b assume e: "a \<in> set (df_edges (canonical d))" "b \<in> set (df_edges (canonical d'))" "edge_json ratText a = edge_json ratText b"
    show "a = b"
      by (rule edge_json_inj [OF assms(1) _ e(3)])
        (use canonical_numbers(2) [OF e(1)] canonical_numbers(2) [OF e(2)] in \<open>auto simp: opt_ints_def\<close>)
  qed
  moreover have "df_cycles (canonical d) = df_cycles (canonical d')"
    by (rule map_inj_lists [OF same(3)]) (rule cycle_json_inj)
  moreover have "df_extractors (canonical d) = df_extractors (canonical d')"
  proof (rule map_inj_lists [OF same(4)])
    fix a b assume e: "a \<in> set (df_extractors (canonical d))" "b \<in> set (df_extractors (canonical d'))" "stat_json ratText a = stat_json ratText b"
    show "a = b"
      by (rule stat_json_inj [OF assms(1) _ _ e(3)])
        (rule subset_trans [OF canonical_numbers(3) [OF e(1)]], simp, rule subset_trans [OF canonical_numbers(3) [OF e(2)]], simp)
  qed
  ultimately show ?thesis by (intro ContextGraphSnapshotDraft.equality) simp_all
qed

section \<open>The cycles\<close>

definition snapshot_links :: "'n ContextGraphSnapshot \<Rightarrow> (js_string \<times> js_string) set" where
  "snapshot_links snapshot = {(e_from e, e_to e) | e. e \<in> set (s_edges snapshot) \<and> e_to e \<noteq> []}"

lemma index_links:
  assumes "distinct (map e_id (s_edges snapshot))"
  shows "graph_edges (index_targets (buildContextGraphIndex lower snapshot)) = snapshot_links snapshot"
  using index_bucket [OF assms, of e_from]
  by (auto simp: graph_edges_def index_targets_def index_edges snapshot_links_def)

lemma cycles_found:
  assumes "distinct (map e_id (s_edges snapshot))"
  shows "\<exists>cs. cyclesOf lower collate sha256 snapshot = Some cs \<and> distinct (map cy_nodes cs)
    \<and> sorted (map (\<lambda>c. collate (cy_nodes c ! 0)) cs) \<and> map cy_id cs = map (contextGraphCycleId sha256 \<circ> cy_nodes) cs
    \<and> set (map cy_nodes cs) = {sorted_list_of_set (scc (snapshot_links snapshot) u) | u.
        (\<exists>v \<in> set (map n_id (s_nodes snapshot)). (v, u) \<in> (snapshot_links snapshot)\<^sup>*) \<and> 1 < card (scc (snapshot_links snapshot) u)}"
proof -
  note indexed.components [of collate "map n_id (s_nodes snapshot)" lower snapshot, unfolded index_links [OF assms]]
  then obtain cs where
    "computeStronglyConnectedComponents collate (map n_id (s_nodes snapshot)) (index_targets (buildContextGraphIndex lower snapshot)) = Some cs"
    "distinct cs" "sorted (map (\<lambda>c. collate (c ! 0)) cs)"
    "set cs = {sorted_list_of_set (scc (snapshot_links snapshot) u) | u.
        (\<exists>v \<in> set (map n_id (s_nodes snapshot)). (v, u) \<in> (snapshot_links snapshot)\<^sup>*) \<and> 1 < card (scc (snapshot_links snapshot) u)}"
    by blast
  then show ?thesis
    by (intro exI [of _ "map (\<lambda>nodes. \<lparr>cy_id = contextGraphCycleId sha256 nodes, cy_nodes = nodes\<rparr>) cs"])
      (simp add: cyclesOf_def o_def)
qed

text \<open>
  C9. The compiler returns the cycles of a snapshot, and they are exactly the strongly connected
  components with more than one node that the edges out of its nodes lead to: each once, its nodes
  sorted, in the order in which the host collates their first nodes, and each named by the digest of
  its nodes. An edge to the empty identifier is not followed.
\<close>

theorem cycles_exact:
  assumes "distinct (map e_id (s_edges snapshot))"
  shows "\<exists>cs. cyclesOf lower collate sha256 snapshot = Some cs \<and> distinct (map cy_nodes cs)
    \<and> sorted (map (\<lambda>c. collate (cy_nodes c ! 0)) cs) \<and> map cy_id cs = map (contextGraphCycleId sha256 \<circ> cy_nodes) cs
    \<and> set (map cy_nodes cs) = {sorted_list_of_set (scc (snapshot_links snapshot) u) | u.
        (\<exists>v \<in> set (map n_id (s_nodes snapshot)). (v, u) \<in> (snapshot_links snapshot)\<^sup>*) \<and> 1 < card (scc (snapshot_links snapshot) u)}"
  by (rule cycles_found [OF assms])

end
