(* ===== verification/Compiler_Lint_Correct.thy ===== *)
theory Compiler_Lint_Correct
  imports Compiler_Lint Compiler_Snapshot_Correct Writer_Rows
begin

text \<open>
  What a lint without errors promises: the encoder of the index accepts the graph, manifest relations
  have no cycle, every protected gate is tied to a source of the repository, and what claims to be
  fresh is what is on disk. And a snapshot the compiler built is never refused for its own order or
  hash.
\<close>

section \<open>No error is lost\<close>

lemma key_severity: "issueSortKey x = issueSortKey y \<Longrightarrow> is_error x = is_error y"
  by (auto simp: issueSortKey_def is_error_def Let_def js_def split: if_splits)

lemma first_of_key_covers: "x \<in> set issues \<Longrightarrow> issueSortKey x \<notin> seen \<Longrightarrow>
    \<exists>y \<in> set (first_of_key seen issues). issueSortKey y = issueSortKey x"
proof (induction issues arbitrary: seen)
  case (Cons a issues)
  then show ?case
    by (cases "issueSortKey a = issueSortKey x") (force simp: Let_def)+
qed simp

lemma lint_keeps_errors:
  assumes "lint_ok (dedupe_issues issues)" "x \<in> set issues"
  shows "\<not> is_error x"
proof -
  obtain y where "y \<in> set (dedupe_issues issues)" "issueSortKey y = issueSortKey x"
    using first_of_key_covers [OF assms(2), of "{}"] by (auto simp: dedupe_issues_def)
  with assms(1) key_severity [of y x] show ?thesis by (simp add: lint_ok_def filter_empty_conv)
qed

definition all_errors :: "ContextGraphLintIssue list \<Rightarrow> bool" where
  "all_errors issues \<longleftrightarrow> list_all is_error issues"

lemma all_errors_simps [simp]:
  "all_errors []" "all_errors (x # xs) \<longleftrightarrow> is_error x \<and> all_errors xs" "all_errors (xs @ ys) \<longleftrightarrow> all_errors xs \<and> all_errors ys"
  "all_errors (concat xss) \<longleftrightarrow> (\<forall>xs \<in> set xss. all_errors xs)"
  by (auto simp: all_errors_def list_all_iff)

lemma rule_error [simp]: "is_error (lintError c m e)"
  by (simp add: is_error_def)

lemma rule_errors [simp]: "all_errors (issue_if b x) \<longleftrightarrow> (b \<longrightarrow> is_error x)"
  by (simp add: issue_if_def)

lemma issue_if_Nil [simp]: "issue_if b x = [] \<longleftrightarrow> \<not> b"
  by (simp add: issue_if_def)

lemma scan_node_issues: "all_errors (sc_issues (scan_node e s)) \<longleftrightarrow> all_errors (sc_issues s)"
  by (auto simp: scan_node_def validateNode_def Let_def)

lemma scan_nodes_issues: "all_errors (sc_issues (fold scan_node es s)) \<longleftrightarrow> all_errors (sc_issues s)"
  by (induction es arbitrary: s) (simp_all add: scan_node_issues)

lemma scan_edges_issues: "all_errors (scan_edges ids p es)"
  by (induction ids p es rule: scan_edges.induct) (auto simp: validateEdge_def Let_def)

lemma structural_errors: "all_errors (structuralIssues snapshot)"
  by (simp add: structuralIssues_def validateContextGraphSnapshot_def Let_def scan_nodes_issues scan_edges_issues)

lemma check_path_errors: "all_errors (snd (check_path symlink p l e acc)) \<longleftrightarrow> all_errors (snd acc)"
  by (cases acc) (simp add: check_path_def)

lemma path_errors: "all_errors (pathSafetyIssues symlink snapshot)"
proof -
  have "all_errors (snd (fold (check_node_path symlink) ns acc)) \<longleftrightarrow> all_errors (snd acc)"
    "all_errors (snd (fold (check_edge_path symlink) es acc)) \<longleftrightarrow> all_errors (snd acc)" for ns :: "'a ContextGraphNode list" and es acc
    by (induction ns arbitrary: acc, simp_all add: check_node_path_def check_path_errors split: option.split)
      (induction es arbitrary: acc, simp_all add: check_edge_path_def check_path_errors Let_def)
  then show ?thesis by (simp add: pathSafetyIssues_def)
qed

lemma errors_gone: "all_errors issues \<Longrightarrow> (\<And>x. x \<in> set issues \<Longrightarrow> \<not> is_error x) \<Longrightarrow> issues = []"
  by (cases issues) (auto simp: all_errors_def)

text \<open>The lists of the blocking rules are empty when the lint passes.\<close>

lemma clean_lint:
  assumes "runContextGraphLint host collate snapshot meta hashes skipped = Some issues" "lint_ok issues"
  shows "structuralIssues snapshot = []" "pathSafetyIssues (lh_symlink_escape host) snapshot = []"
    "protectedGateIssues (buildContextGraphIndex (lh_lower host) snapshot) = []"
    "manifestCycleIssues collate snapshot = Some []" "freshnessClaimIssues snapshot hashes = []"
proof -
  obtain cycles where c: "manifestCycleIssues collate snapshot = Some cycles"
    and i: "\<And>x. x \<in> set cycles \<or> x \<in> set (structuralIssues snapshot) \<or> x \<in> set (pathSafetyIssues (lh_symlink_escape host) snapshot)
        \<or> x \<in> set (protectedGateIssues (buildContextGraphIndex (lh_lower host) snapshot)) \<or> x \<in> set (freshnessClaimIssues snapshot hashes)
      \<Longrightarrow> \<not> is_error x"
    using assms lint_keeps_errors by (fastforce simp: runContextGraphLint_def Let_def)
  have "all_errors cycles"
    using c by (auto simp: manifestCycleIssues_def all_errors_def list_all_iff is_error_def split: if_splits)
  with errors_gone [of cycles] i c show "manifestCycleIssues collate snapshot = Some []" by auto
  show "structuralIssues snapshot = []" using errors_gone [OF structural_errors] i by blast
  show "pathSafetyIssues (lh_symlink_escape host) snapshot = []" using errors_gone [OF path_errors] i by blast
  have "all_errors (protectedGateIssues (buildContextGraphIndex (lh_lower host) snapshot))"
    by (auto simp: protectedGateIssues_def)
  then show "protectedGateIssues (buildContextGraphIndex (lh_lower host) snapshot) = []" using errors_gone i by blast
  have "all_errors (freshnessClaimIssues snapshot hashes)"
    by (auto simp: freshnessClaimIssues_def Let_def split: option.split)
  then show "freshnessClaimIssues snapshot hashes = []" using errors_gone i by blast
qed

section \<open>The encoder accepts the graph\<close>

lemma validateNode_id:
  "fst (validateNode node k) = (if n_id node = [] then None else Some (n_id node))"
  "n_id node = [] \<Longrightarrow> snd (validateNode node k) \<noteq> []"
  by (simp_all add: validateNode_def Let_def)

lemma scan_node_clean:
  assumes "sc_issues (scan_node e s) = []"
  shows "sc_issues s = []" "n_id (fst e) \<notin> sc_ids s" "sc_ids (scan_node e s) = insert (n_id (fst e)) (sc_ids s)"
proof -
  obtain i iss where v: "validateNode (fst e) (snd e) = (i, iss)" by (cases "validateNode (fst e) (snd e)")
  then have "i = (if n_id (fst e) = [] then None else Some (n_id (fst e)))" "n_id (fst e) = [] \<Longrightarrow> iss \<noteq> []"
    using validateNode_id [of "fst e" "snd e"] by simp_all
  with v assms show "sc_issues s = []" "n_id (fst e) \<notin> sc_ids s" "sc_ids (scan_node e s) = insert (n_id (fst e)) (sc_ids s)"
    by (simp_all add: scan_node_def split: if_splits)
qed

lemma scan_nodes_start: "sc_issues (fold scan_node es s) = [] \<Longrightarrow> sc_issues s = []"
proof (induction es arbitrary: s)
  case (Cons e es)
  from Cons.prems have "sc_issues (fold scan_node es (scan_node e s)) = []" by simp
  from Cons.IH [OF this] show ?case by (rule scan_node_clean(1))
qed simp

lemma scan_nodes_clean:
  assumes "sc_issues (fold scan_node es s) = []"
  shows "distinct (map (n_id \<circ> fst) es) \<and> set (map (n_id \<circ> fst) es) \<inter> sc_ids s = {}
    \<and> sc_ids (fold scan_node es s) = sc_ids s \<union> set (map (n_id \<circ> fst) es)"
  using assms
proof (induction es arbitrary: s)
  case (Cons e es)
  from Cons.prems have rest: "sc_issues (fold scan_node es (scan_node e s)) = []" by simp
  with scan_nodes_start have "sc_issues (scan_node e s) = []" by blast
  from scan_node_clean(2,3) [OF this] Cons.IH [OF rest] show ?case by auto
qed simp

lemma scan_edges_clean: "scan_edges ids p es = [] \<Longrightarrow> (e, k) \<in> set es \<Longrightarrow>
    e_from e \<in> ids \<and> e_to e \<in> ids \<and> e_to e \<noteq> [] \<and> p_path (e_provenance e) \<noteq> []"
  by (induction ids p es rule: scan_edges.induct) (auto simp: validateEdge_def Let_def split: if_splits)

lemma clean_structure:
  assumes "structuralIssues snapshot = []"
  shows "distinct (map n_id (s_nodes snapshot))"
    "e \<in> set (s_edges snapshot) \<Longrightarrow> e_from e \<in> n_id ` set (s_nodes snapshot) \<and> e_to e \<in> n_id ` set (s_nodes snapshot)
       \<and> e_to e \<noteq> [] \<and> p_path (e_provenance e) \<noteq> []"
proof -
  let ?ns = "zip (s_nodes snapshot) [0..<length (s_nodes snapshot)]" and ?es = "zip (s_edges snapshot) [0..<length (s_edges snapshot)]"
  let ?scan = "fold scan_node ?ns \<lparr>sc_ids = {}, sc_previous = None, sc_issues = []\<rparr>"
  have clean: "sc_issues ?scan = []" "scan_edges (sc_ids ?scan) None ?es = []"
    using assms by (simp_all add: structuralIssues_def validateContextGraphSnapshot_def Let_def)
  have ids: "map (n_id \<circ> fst) ?ns = map n_id (s_nodes snapshot)" by (simp flip: map_map)
  from scan_nodes_clean [OF clean(1)] show "distinct (map n_id (s_nodes snapshot))" unfolding ids by blast
  assume "e \<in> set (s_edges snapshot)"
  then obtain k where "(e, k) \<in> set ?es" by (metis in_set_impl_in_set_zip1 length_map map_nth)
  from scan_edges_clean [OF clean(2) this] scan_nodes_clean [OF clean(1)]
  show "e_from e \<in> n_id ` set (s_nodes snapshot) \<and> e_to e \<in> n_id ` set (s_nodes snapshot) \<and> e_to e \<noteq> [] \<and> p_path (e_provenance e) \<noteq> []"
    unfolding ids by simp
qed

lemma check_path_clean: "snd (check_path symlink p l x acc) = [] \<Longrightarrow> snd acc = [] \<and> paths_isWorkspaceRelativePosixPath p"
  by (cases acc) (auto simp: check_path_def split: if_splits)

lemma node_paths_clean:
  assumes "snd (fold (check_node_path symlink) ns acc) = []"
  shows "snd acc = []" "n \<in> set ns \<Longrightarrow> n_path n = Some p \<Longrightarrow> paths_isWorkspaceRelativePosixPath p"
proof -
  have "snd acc = [] \<and> (\<forall>n \<in> set ns. \<forall>p. n_path n = Some p \<longrightarrow> paths_isWorkspaceRelativePosixPath p)"
    using assms
  proof (induction ns arbitrary: acc)
    case (Cons m ns)
    from Cons.IH [of "check_node_path symlink m acc"] Cons.prems have "snd (check_node_path symlink m acc) = []"
      "\<forall>n \<in> set ns. \<forall>p. n_path n = Some p \<longrightarrow> paths_isWorkspaceRelativePosixPath p" by simp_all
    moreover from this(1) have "snd acc = [] \<and> (\<forall>p. n_path m = Some p \<longrightarrow> paths_isWorkspaceRelativePosixPath p)"
      by (cases "n_path m") (simp add: check_node_path_def, simp only: check_node_path_def option.case, drule check_path_clean, simp)
    ultimately show ?case by simp
  qed simp
  then show "snd acc = []" "n \<in> set ns \<Longrightarrow> n_path n = Some p \<Longrightarrow> paths_isWorkspaceRelativePosixPath p" by blast+
qed

lemma edge_paths_clean:
  assumes "snd (fold (check_edge_path symlink) es acc) = []"
  shows "snd acc = []" "e \<in> set es \<Longrightarrow> p_path (e_provenance e) \<noteq> [] \<Longrightarrow> paths_isWorkspaceRelativePosixPath (p_path (e_provenance e))"
proof -
  have "snd acc = [] \<and> (\<forall>e \<in> set es. p_path (e_provenance e) \<noteq> [] \<longrightarrow> paths_isWorkspaceRelativePosixPath (p_path (e_provenance e)))"
    using assms
  proof (induction es arbitrary: acc)
    case (Cons m es)
    from Cons.IH [of "check_edge_path symlink m acc"] Cons.prems have "snd (check_edge_path symlink m acc) = []"
      "\<forall>e \<in> set es. p_path (e_provenance e) \<noteq> [] \<longrightarrow> paths_isWorkspaceRelativePosixPath (p_path (e_provenance e))" by simp_all
    moreover from this(1) have "snd acc = [] \<and> (p_path (e_provenance m) \<noteq> [] \<longrightarrow> paths_isWorkspaceRelativePosixPath (p_path (e_provenance m)))"
      by (cases "p_path (e_provenance m) = []")
        (simp add: check_edge_path_def Let_def, simp only: check_edge_path_def Let_def if_False, drule check_path_clean, simp)
    ultimately show ?case by simp
  qed simp
  then show "snd acc = []" "e \<in> set es \<Longrightarrow> p_path (e_provenance e) \<noteq> [] \<Longrightarrow> paths_isWorkspaceRelativePosixPath (p_path (e_provenance e))"
    by blast+
qed

lemma clean_paths:
  assumes "pathSafetyIssues symlink snapshot = []"
  shows "n \<in> set (s_nodes snapshot) \<Longrightarrow> n_path n = Some p \<Longrightarrow> isWorkspaceRelativePosixPath p"
    "e \<in> set (s_edges snapshot) \<Longrightarrow> p_path (e_provenance e) \<noteq> [] \<Longrightarrow> isWorkspaceRelativePosixPath (p_path (e_provenance e))"
proof -
  note edges = edge_paths_clean [OF assms [unfolded pathSafetyIssues_def]]
  show "n \<in> set (s_nodes snapshot) \<Longrightarrow> n_path n = Some p \<Longrightarrow> isWorkspaceRelativePosixPath p"
    using node_paths_clean(2) [OF edges(1)] by (simp add: paths_test_writer)
  show "e \<in> set (s_edges snapshot) \<Longrightarrow> p_path (e_provenance e) \<noteq> [] \<Longrightarrow> isWorkspaceRelativePosixPath (p_path (e_provenance e))"
    using edges(2) by (simp add: paths_test_writer)
qed

text \<open>The steps of the encoder.\<close>

lemma index_nodes_total: "distinct ids \<Longrightarrow> set ids \<inter> dom m = {} \<Longrightarrow> \<exists>m'. index_nodes k m ids = Inr m' \<and> dom m' = dom m \<union> set ids"
proof (induction ids arbitrary: k m)
  case (Cons i ids)
  have "distinct ids" "set ids \<inter> dom (m(i \<mapsto> k)) = {}" "m i = None" using Cons.prems by auto
  from Cons.IH [OF this(1,2), of "k + 1"] this(3) show ?case by (simp del: fun_upd_apply)
qed simp

definition unsealed :: "StringInterner \<Rightarrow> bool" where
  "unsealed s \<longleftrightarrow> \<not> si_sealed s"

lemma fold_res_total:
  "(\<And>x s. x \<in> set xs \<Longrightarrow> P s \<Longrightarrow> \<exists>t. f x s = Inr t \<and> P t) \<Longrightarrow> P s \<Longrightarrow> \<exists>t. fold_res f xs s = Inr t \<and> P t"
proof (induction xs arbitrary: s)
  case (Cons x xs)
  from Cons.prems(1) [of x s] Cons.prems(2) obtain t where "f x s = Inr t" "P t" by auto
  with Cons.IH [of t] Cons.prems(1) show ?case by auto
qed simp

lemma add_total: "unsealed s \<Longrightarrow> \<exists>t. interner_add v s = Inr t \<and> unsealed t"
  by (simp add: unsealed_def interner_add_def)

definition arrays_fit :: "'n ContextGraphNode \<Rightarrow> bool" where
  "arrays_fit node \<longleftrightarrow> list_all (\<lambda>m. case snd m of Meta_array es \<Rightarrow> length es \<le> CONTEXT_INDEX_METADATA_MAX_ARRAY_LENGTH | _ \<Rightarrow> True) (n_metadata node)"

lemma total_bind: "\<exists>t. f = Inr t \<and> P t \<Longrightarrow> (\<And>t. P t \<Longrightarrow> \<exists>u. g t = Inr u \<and> Q u) \<Longrightarrow> \<exists>u. rbind f g = Inr u \<and> Q u"
  by auto

lemma entry_total:
  assumes "case v of Meta_array es \<Rightarrow> length es \<le> CONTEXT_INDEX_METADATA_MAX_ARRAY_LENGTH | _ \<Rightarrow> True" "unsealed s"
  shows "\<exists>t. intern_entry toString (k, v) s = Inr t \<and> unsealed t"
proof -
  have "\<exists>cells. contextIndexMetadataCells toString v = Inr cells"
    using assms(1) by (cases v) (auto simp: contextIndexMetadataCells_def linorder_not_less [symmetric])
  then obtain cells where "contextIndexMetadataCells toString v = Inr cells" ..
  then show ?thesis
    unfolding intern_entry_def using add_total [OF assms(2), of k]
    by (auto intro!: fold_res_total [where P = unsealed] add_total)
qed

lemma node_total:
  assumes "arrays_fit node" "\<And>p. n_path node = Some p \<Longrightarrow> isWorkspaceRelativePosixPath p" "unsealed s"
  shows "\<exists>t. intern_node toString idx node s = Inr t \<and> unsealed t"
proof -
  have codes: "NODE_KIND_CODE (n_kind node) \<noteq> None" "FRESHNESS_CODE (n_freshness node) \<noteq> None" "RISK_CODE (n_risk node) \<noteq> None"
    unfolding NODE_KIND_CODE_def FRESHNESS_CODE_def RISK_CODE_def
    using code_map_total [OF node_kinds_cover, of "n_kind node"] code_map_total [OF freshness_cover, of "n_freshness node"]
      code_map_total [OF risk_cover, of "n_risk node"] by auto
  have metadata: "\<exists>t. fold_res (intern_entry toString) (n_metadata node) u = Inr t \<and> unsealed t" if "unsealed u" for u
    using that assms(1) by (intro fold_res_total) (auto simp: arrays_fit_def list_all_iff intro!: entry_total)
  show ?thesis
    unfolding intern_node_def Let_def using codes
    by (simp, intro total_bind [where P = unsealed] add_total metadata)
      (use assms(2,3) add_total in \<open>auto split: option.split\<close>)
qed

lemma edge_total:
  assumes "idx (e_from e) \<noteq> None" "idx (e_to e) \<noteq> None" "isWorkspaceRelativePosixPath (p_path (e_provenance e))" "unsealed s"
  shows "\<exists>t. intern_edge idx e s = Inr t \<and> unsealed t"
proof -
  have "EDGE_TYPE_CODE (e_type e) \<noteq> None" "CONFIDENCE_CODE (e_confidence e) \<noteq> None"
    unfolding EDGE_TYPE_CODE_def CONFIDENCE_CODE_def
    using code_map_total [OF edge_types_cover, of "e_type e"] code_map_total [OF confidence_cover, of "e_confidence e"] by auto
  with assms(1-3) show ?thesis
    unfolding intern_edge_def by (simp, intro total_bind [where P = unsealed] add_total assms(4))
qed

text \<open>
  C5. The encoder of the index accepts the graph of a snapshot that the lint passed: its nodes are
  numbered and every string of its nodes and edges is interned, with no duplicate node, unknown
  literal, dangling edge or absolute path on the way. The lint does not bound the arrays in the
  metadata; they have to fit the format.
\<close>

theorem linted_graph_encodes:
  assumes "runContextGraphLint host collate snapshot meta hashes skipped = Some issues" "lint_ok issues"
    and "list_all arrays_fit (s_nodes snapshot)"
  shows "\<exists>idx interner. index_nodes 0 Map.empty (map n_id (sort_key n_id (s_nodes snapshot))) = Inr idx
    \<and> intern_graph toString idx (sort_key n_id (s_nodes snapshot)) (s_edges snapshot) = Inr interner"
proof -
  let ?nodes = "sort_key n_id (s_nodes snapshot)"
  note clean = clean_lint [OF assms(1,2)]
  have "distinct (map n_id ?nodes)" using clean_structure(1) [OF clean(1)] by (simp add: distinct_map)
  then obtain idx where idx: "index_nodes 0 Map.empty (map n_id ?nodes) = Inr idx" "dom idx = n_id ` set (s_nodes snapshot)"
    using index_nodes_total [of "map n_id ?nodes" Map.empty 0] by auto
  have nodes: "\<exists>t. fold_res (intern_node toString idx) ?nodes new_interner = Inr t \<and> unsealed t"
    using assms(3) clean_paths(1) [OF clean(2)]
    by (intro fold_res_total node_total) (auto simp: list_all_iff unsealed_def new_interner_def)
  have edges: "\<exists>t. fold_res (intern_edge idx) (s_edges snapshot) u = Inr t \<and> unsealed t" if "unsealed u" for u
  proof (rule fold_res_total)
    show "\<exists>t. intern_edge idx e s = Inr t \<and> unsealed t" if e: "e \<in> set (s_edges snapshot)" and "unsealed s" for e s
    proof (rule edge_total)
      show "idx (e_from e) \<noteq> None" "idx (e_to e) \<noteq> None" using clean_structure(2) [OF clean(1) e] idx(2) by auto
      show "isWorkspaceRelativePosixPath (p_path (e_provenance e))"
        using clean_structure(2) [OF clean(1) e] clean_paths(2) [OF clean(2) e] by blast
    qed fact
  qed fact
  from nodes obtain t where t: "fold_res (intern_node toString idx) ?nodes new_interner = Inr t" "unsealed t" by blast
  from edges [OF t(2)] obtain u where "fold_res (intern_edge idx) (s_edges snapshot) t = Inr u" by blast
  with t(1) have "intern_graph toString idx ?nodes (s_edges snapshot) = Inr u" by (simp add: intern_graph_def)
  with idx(1) show ?thesis by blast
qed

section \<open>Manifest relations have no cycle\<close>

definition manifest_links :: "'n ContextGraphSnapshot \<Rightarrow> (js_string \<times> js_string) set" where
  "manifest_links snapshot = {(e_from e, e_to e) | e. e \<in> set (s_edges snapshot) \<and> e_confidence e = Manifest}"

lemma manifest_targets_set: "set (manifest_targets snapshot v) = {w. (v, w) \<in> manifest_links snapshot}"
proof -
  have "set (manifest_targets snapshot v) = e_to ` set (filter (\<lambda>e. e_from e = v) (manifest_edges snapshot))"
    by (auto simp: manifest_targets_def ids_at_def push_all)
  also have "\<dots> = {w. (v, w) \<in> manifest_links snapshot}" by (force simp: manifest_edges_def manifest_links_def)
  finally show ?thesis .
qed

lemma finite_manifest: "finite (manifest_links snapshot)"
proof (rule finite_subset)
  show "manifest_links snapshot \<subseteq> (\<lambda>e. (e_from e, e_to e)) ` set (s_edges snapshot)" by (auto simp: manifest_links_def)
qed simp

interpretation manifest: finite_graph "manifest_targets snapshot" for snapshot
proof
  have "{w. \<exists>v. w \<in> set (manifest_targets snapshot v)} \<subseteq> snd ` manifest_links snapshot" unfolding manifest_targets_set by force
  then show "finite {w. \<exists>v. w \<in> set (manifest_targets snapshot v)}" by (rule finite_subset) (simp add: finite_manifest)
qed

lemma scc_card:
  assumes "finite E" "(u, v) \<in> E\<^sup>*" "(v, u) \<in> E\<^sup>*" "u \<noteq> v"
  shows "1 < card (scc E u)"
proof -
  have "scc E u \<subseteq> insert u (snd ` E)"
  proof
    fix w assume "w \<in> scc E u"
    then have "(u, w) \<in> E\<^sup>*" by (simp add: scc_def)
    then show "w \<in> insert u (snd ` E)" by (cases rule: rtranclE) force+
  qed
  then have "finite (scc E u)" using assms(1) by (auto intro: finite_subset)
  moreover have "{u, v} \<subseteq> scc E u" using assms(2,3) by (auto simp: scc_def)
  ultimately have "card {u, v} \<le> card (scc E u)" by (rule card_mono)
  with assms(4) show ?thesis by simp
qed

lemma manifest_antisym:
  assumes "runContextGraphLint host collate snapshot meta hashes skipped = Some issues" "lint_ok issues"
  shows "antisym ((manifest_links snapshot)\<^sup>*)"
proof (rule antisymI, rule ccontr)
  let ?E = "manifest_links snapshot"
  fix u v assume uv: "(u, v) \<in> ?E\<^sup>*" "(v, u) \<in> ?E\<^sup>*" "u \<noteq> v"
  note clean = clean_lint [OF assms]
  have named: "w \<noteq> []" if "(u, w) \<in> ?E" for u w
    using that clean_structure(2) [OF clean(1)] by (auto simp: manifest_links_def)
  then have same: "graph_edges (manifest_targets snapshot) = ?E"
    by (auto simp: graph_edges_def manifest_targets_set)
  obtain w where w: "(u, w) \<in> ?E" using uv(1,3) by (meson converse_rtranclE)
  then have "u \<in> set (map n_id (s_nodes snapshot))" and busy: "manifest_edges snapshot \<noteq> []"
    using clean_structure(2) [OF clean(1)] by (auto simp: manifest_links_def manifest_edges_def filter_empty_conv)
  with scc_card [OF finite_manifest uv] have "sorted_list_of_set (scc ?E u) \<in>
      {sorted_list_of_set (scc ?E u) | u. (\<exists>v \<in> set (map n_id (s_nodes snapshot)). (v, u) \<in> ?E\<^sup>*) \<and> 1 < card (scc ?E u)}" by blast
  with manifest.components [of collate "map n_id (s_nodes snapshot)" snapshot, unfolded same] busy
  obtain cs where "manifestCycleIssues collate snapshot = Some cs" "cs \<noteq> []"
    by (fastforce simp: manifestCycleIssues_def)
  with clean(4) show False by simp
qed

section \<open>Protected gates are grounded\<close>

lemma last_key: "fold (\<lambda>e m. m(key e \<mapsto> e)) es m i = Some e \<Longrightarrow> m i = None \<Longrightarrow> key e = i"
  by (induction es arbitrary: m rule: rev_induct) (auto split: if_splits)

text \<open>
  When the lint passes, every protected gate is an end of an edge whose other end is a node of a
  kind that stands for the repository, where the identifiers of edges are distinct.
\<close>

theorem linted_gates_grounded:
  assumes "runContextGraphLint host collate snapshot meta hashes skipped = Some issues" "lint_ok issues"
    and "distinct (map e_id (s_edges snapshot))"
    and gate: "gate \<in> set (s_nodes snapshot)" "n_kind gate = Kind_gate" "n_risk gate = Protected"
  shows "\<exists>e \<in> set (s_edges snapshot). \<exists>other \<in> set (s_nodes snapshot). n_kind other \<in> SOURCE_RELATION_KINDS
    \<and> (e_from e = n_id gate \<and> e_to e = n_id other \<or> e_to e = n_id gate \<and> e_from e = n_id other)"
proof -
  let ?index = "buildContextGraphIndex (lh_lower host) snapshot"
  obtain i where i: "i \<in> set (ids_at (gi_outgoing ?index) (n_id gate) @ ids_at (gi_incoming ?index) (n_id gate))" "grounds ?index (n_id gate) i"
    using clean_lint(3) [OF assms(1,2)] gate
    by (fastforce simp: protectedGateIssues_def list_ex_iff buildContextGraphIndex_def)
  then obtain e other where e: "gi_edgesById ?index i = Some e"
    and other: "gi_nodesById ?index (if e_from e = n_id gate then e_to e else e_from e) = Some other" "n_kind other \<in> SOURCE_RELATION_KINDS"
    by (auto simp: grounds_def split: option.splits)
  have found: "e \<in> set (s_edges snapshot)" "other \<in> set (s_nodes snapshot)"
    using e other(1) by (auto simp: buildContextGraphIndex_def intro: last_written)
  have at_gate: "e_from e = n_id gate \<or> e_to e = n_id gate"
  proof -
    obtain f where f: "f \<in> set (s_edges snapshot)" "e_id f = i" "e_from f = n_id gate \<or> e_to f = n_id gate"
      using i(1) by (auto simp: ids_at_def buildContextGraphIndex_def freeze_keys_def push_all split: if_splits)
    with e last_wins [OF assms(3), of f Map.empty] have "e = f" by (simp add: buildContextGraphIndex_def)
    with f show ?thesis by simp
  qed
  have "n_id other = (if e_from e = n_id gate then e_to e else e_from e)"
    using other(1) by (auto simp: buildContextGraphIndex_def dest: last_key)
  with at_gate other(2) show ?thesis by (intro bexI [OF _ found(1)] bexI [OF _ found(2)]) (auto split: if_splits)
qed


section \<open>The snapshot the compiler builds\<close>

text \<open>A snapshot that was built is in canonical form: building it again changes nothing.\<close>

lemma own_order_keys:
  fixes xs :: "(js_string \<times> 'v) list"
  shows "filter (\<lambda>e. fst e = k) (own_order xs) = filter (\<lambda>e. fst e = k) xs"
proof (cases "array_index k")
  case None
  have "filter (\<lambda>e. fst e = k) (sort_key f (filter (\<lambda>e. array_index (fst e) \<noteq> None) xs)) = []" for f :: "_ \<Rightarrow> nat"
    using None by (auto simp: filter_empty_conv)
  moreover have "filter (\<lambda>e. fst e = k) (filter (\<lambda>e. array_index (fst e) = None) xs) = filter (\<lambda>e. fst e = k) xs"
    using None by (auto simp: conj_commute intro: filter_cong)
  ultimately show ?thesis by (simp add: own_order_def)
next
  case (Some n)
  let ?P = "\<lambda>e. array_index (fst e) \<noteq> None" and ?f = "\<lambda>e. the (array_index (fst e))"
  have "filter (\<lambda>e. fst e = k) (sort_key ?f zs) = filter (\<lambda>e. fst e = k) zs" for zs :: "(js_string \<times> 'v) list"
  proof -
    have "filter (\<lambda>e. fst e = k) ys = filter (\<lambda>e. fst e = k) (filter (\<lambda>e. ?f e = ?f (k, undefined)) ys)" for ys :: "(js_string \<times> 'v) list"
      by (auto simp: conj_commute intro: filter_cong)
    then show ?thesis using sort_key_stable [of ?f "?f (k, undefined)" zs] by (metis (no_types, lifting))
  qed
  moreover have "filter (\<lambda>e. fst e = k) (filter ?P xs) = filter (\<lambda>e. fst e = k) xs" "filter (\<lambda>e. fst e = k) (filter (\<lambda>e. \<not> ?P e) xs) = []"
    using Some by (auto simp: conj_commute filter_empty_conv intro: filter_cong)
  ultimately show ?thesis by (simp only: own_order_def filter_append not_not append_Nil2)
qed

lemma mset_own_order: "mset (own_order xs) = mset xs"
  unfolding own_order_def by simp

lemma sort_own_order:
  assumes "sorted (map fst xs)"
  shows "sort_key fst (own_order xs) = xs"
  by (rule properties_for_sort_key) (use assms own_order_keys mset_own_order in \<open>auto simp: eq_commute\<close>)

lemma orderedMetadata_again: "orderedMetadata (orderedMetadata md) = orderedMetadata md"
proof -
  let ?xs = "filter (\<lambda>e. fst e \<noteq> js ''__proto__'') (sort_key fst md)"
  have "sorted (map fst ?xs)" by (rule sorted_filter) simp
  then have "sort_key fst (own_order ?xs) = ?xs" by (rule sort_own_order)
  then show ?thesis unfolding orderedMetadata_def by simp
qed

lemma orderedNode_again: "orderedNode (orderedNode n) = orderedNode n"
  by (cases "n_locator n") (simp_all add: orderedNode_def orderedMetadata_again orderedLocator_def)

lemma orderedEdge_again: "orderedEdge True = (\<lambda>e. e)"
  by (rule ext) (simp add: orderedEdge_def)

lemmas sorted_id = sort_key_id_if_sorted [OF sorted_sort_key]

lemma sorted_again:
  assumes "f \<circ> g = f"
  shows "sort_key f (map g (sort_key f xs)) = map g (sort_key f xs)"
proof (rule sort_key_id_if_sorted)
  have "map f (map g (sort_key f xs)) = map f (sort_key f xs)" unfolding map_map assms ..
  then show "sorted (map f (map g (sort_key f xs)))" by (simp only: sorted_sort_key)
qed

lemma cycles_again: "sortContextGraphCycles (sortContextGraphCycles cs) = sortContextGraphCycles cs"
  unfolding sortContextGraphCycles_def by (simp add: sort_key_map o_def sorted_id sort_key_id_if_sorted)

lemma stats_again: "sortExtractorStats (sortExtractorStats xs) = sortExtractorStats xs"
  unfolding sortExtractorStats_def by (simp add: sort_key_map o_def sorted_id)

lemma built_fields:
  "s_nodes (buildContextGraphSnapshot rt nt sha d) = map orderedNode (sort_key n_id (df_nodes d))"
  "s_edges (buildContextGraphSnapshot rt nt sha d) = sort_key e_id (df_edges d)"
  "s_cycles (buildContextGraphSnapshot rt nt sha d) = sortContextGraphCycles (df_cycles d)"
  "s_extractors (buildContextGraphSnapshot rt nt sha d) = sortExtractorStats (df_extractors d)"
  by (simp_all add: buildContextGraphSnapshot_def Let_def sortContextGraphNodes_def sortContextGraphEdges_def orderedEdge_again)

lemma built_rest:
  "s_schema (buildContextGraphSnapshot rt nt sha d) = CONTEXT_GRAPH_SCHEMA"
  "s_schemaRevision (buildContextGraphSnapshot rt nt sha d) = CONTEXT_GRAPH_SCHEMA_REVISION"
  "s_nodeCount (buildContextGraphSnapshot rt nt sha d) = length (s_nodes (buildContextGraphSnapshot rt nt sha d))"
  "s_edgeCount (buildContextGraphSnapshot rt nt sha d) = length (s_edges (buildContextGraphSnapshot rt nt sha d))"
  by (simp_all add: buildContextGraphSnapshot_def Let_def)

lemma built_canonical:
  "sortContextGraphNodes (s_nodes (buildContextGraphSnapshot rt nt sha d)) = s_nodes (buildContextGraphSnapshot rt nt sha d)"
  "map orderedNode (s_nodes (buildContextGraphSnapshot rt nt sha d)) = s_nodes (buildContextGraphSnapshot rt nt sha d)"
  "sortContextGraphEdges (s_edges (buildContextGraphSnapshot rt nt sha d)) = s_edges (buildContextGraphSnapshot rt nt sha d)"
  by (simp_all add: built_fields sortContextGraphNodes_def sortContextGraphEdges_def sorted_again sorted_id orderedNode_again)

lemma built_stable:
  "determinismIssues ratText numText (buildContextGraphSnapshot ratText numText sha256 d) = []
   \<and> computeContextGraphSnapshotHash ratText numText sha256 (draft_of (buildContextGraphSnapshot ratText numText sha256 d))
       = s_snapshotHash (buildContextGraphSnapshot ratText numText sha256 d)
   \<and> buildContextGraphSnapshot ratText numText sha256 (draft_of (buildContextGraphSnapshot ratText numText sha256 d))
       = buildContextGraphSnapshot ratText numText sha256 d"
proof -
  let ?s = "buildContextGraphSnapshot ratText numText sha256 d"
  have nodes: "map (node_json ratText numText \<circ> orderedNode) (s_nodes ?s) = map (node_json ratText numText) (s_nodes ?s)"
    using built_canonical(2) [of ratText numText sha256 d] by (simp flip: map_map)
  have edges: "map (edge_json ratText \<circ> orderedEdge True) es = map (edge_json ratText) es" for es
    by (simp add: orderedEdge_again)
  have hash: "s_snapshotHash ?s = computeContextGraphSnapshotHash ratText numText sha256 (draft_of ?s)"
    by (simp add: buildContextGraphSnapshot_def Let_def draft_of_def)
  have "determinismIssues ratText numText ?s = []"
    unfolding determinismIssues_def Let_def built_canonical edges nodes by simp
  moreover have "buildContextGraphSnapshot ratText numText sha256 (draft_of ?s) = ?s"
  proof -
    have "map orderedNode (sortContextGraphNodes (s_nodes ?s)) = s_nodes ?s" "map (orderedEdge True) (sortContextGraphEdges (s_edges ?s)) = s_edges ?s"
      "sortContextGraphCycles (s_cycles ?s) = s_cycles ?s" "sortExtractorStats (s_extractors ?s) = s_extractors ?s"
      unfolding built_canonical by (simp_all add: orderedEdge_again built_fields cycles_again stats_again)
    then show ?thesis
      unfolding buildContextGraphSnapshot_def [of ratText numText sha256 "draft_of ?s"] Let_def
      by (intro ContextGraphSnapshot.equality) (simp_all add: draft_of_def hash [symmetric, unfolded draft_of_def] built_rest)
  qed
  ultimately show ?thesis using hash by simp
qed

lemmas built_snapshot_again = built_stable [THEN conjunct2, THEN conjunct2]

text \<open>
  C29. A snapshot the compiler builds is in canonical form: the lint never reports it as out of order,
  its hash is the hash of its own content, and building it again from its own parts gives it back.
\<close>

theorem built_snapshot_stable:
  "determinismIssues ratText numText (buildContextGraphSnapshot ratText numText sha256 d) = []
   \<and> computeContextGraphSnapshotHash ratText numText sha256 (draft_of (buildContextGraphSnapshot ratText numText sha256 d))
       = s_snapshotHash (buildContextGraphSnapshot ratText numText sha256 d)
   \<and> buildContextGraphSnapshot ratText numText sha256 (draft_of (buildContextGraphSnapshot ratText numText sha256 d))
       = buildContextGraphSnapshot ratText numText sha256 d"
  by (rule built_stable)

end
