(* ===== verification/Compiler_Core.thy ===== *)
theory Compiler_Core
  imports Compiler_Lint_Correct Compiler_Merge_Correct Compiler_Freshness
begin

text \<open>
  compiler/index.ts: a compile from the fragments of the extractors to the snapshot, its verdict and
  what is appended to the event log and written, and \<open>previousGeneration\<close>, the part of the last snapshot
  an incremental compile reuses. The extractors, the files of the last generation, the locks and the
  clock are outside: what they yield is an argument. Effects are returned as a list, in their order.
\<close>

section \<open>What a compile is given\<close>

datatype ContextGraphStaleReason =
    Head_changed | Dirty_fingerprint_changed | Schema_revision_changed | Tsconfig_changed | Command_manifest_changed
  | Gate_manifest_changed | Proof_index_changed | Wiki_context_changed | Git_state_unknown | Source_inventory_incomplete
  | Source_hash_mismatch | Meta_mismatch | Cache_key_changed

record ContextGraphCacheKeyResult =
  ck_key :: js_string
  ck_parts :: ContextGraphCacheKeyParts
  ck_reusable :: bool
  ck_reasons :: "ContextGraphStaleReason list"
  ck_dirtyPaths :: "js_string list"

text \<open>The input after its defaults are filled in, with the two limits the compiler itself applies; the root and
  the extractors are the workspace below, the environment is part of the lint's host.\<close>

record CompileContextGraphInput =
  ci_changedPaths :: "js_string list option"
  ci_maxNodes :: nat
  ci_maxEdges :: nat
  ci_observedAt :: js_string
  ci_cacheKey :: ContextGraphCacheKeyResult
  ci_useFragmentCache :: bool
  ci_persistArtifacts :: bool
  ci_useCompileLock :: bool

record 'n ExtractionOutcome =
  xo_fragments :: "'n ContextGraphFragment list"
  xo_issues :: "ContextGraphLintIssue list"
  xo_cacheHits :: "js_string list"
  xo_blockers :: "js_string list"

text \<open>
  What the workspace yields: the normal form of a path, the outcome of the extractors for the paths
  asked for, with or without the fragment cache, the digest of a file, the artifacts of the last
  generation where they load, and how long the compile took.
\<close>

record 'n CompileWorkspace =
  cw_normalize :: "js_string \<Rightarrow> js_string option"
  cw_extract :: "js_string list option \<Rightarrow> bool \<Rightarrow> 'n ExtractionOutcome"
  cw_digest :: "js_string \<Rightarrow> js_string option"
  cw_snapshotLoad :: "'n ContextGraphSnapshot option"
  cw_metaLoad :: "ContextGraphMeta option"
  cw_previousSnapshotHash :: "js_string option"
  cw_durationMs :: int

section \<open>The previous generation\<close>

definition previousGeneration ::
  "ContextGraphCacheKeyResult \<Rightarrow> 'n ContextGraphSnapshot option \<Rightarrow> ContextGraphMeta option \<Rightarrow> js_string list
     \<Rightarrow> 'n ContextGraphCarryForward option" where
  "previousGeneration cacheKey snapshotLoad metaLoad changedPaths =
    (if \<not> ck_reusable cacheKey then None
     else case snapshotLoad of None \<Rightarrow> None | Some snapshot \<Rightarrow>
       (case metaLoad of None \<Rightarrow> None | Some meta \<Rightarrow>
          if mt_snapshotHash meta \<noteq> s_snapshotHash snapshot then None
          else if mt_schemaRevision meta \<noteq> CONTEXT_GRAPH_SCHEMA_REVISION then None
          else if pk_schemaRevision (mt_cacheKeyParts meta) \<noteq> pk_schemaRevision (ck_parts cacheKey) then None
          else Some (carryForwardFromSnapshot (s_nodes snapshot) (s_edges snapshot) changedPaths)))"

definition normalizeChangedPaths ::
  "(js_string \<Rightarrow> js_string option) \<Rightarrow> js_string list option \<Rightarrow> js_string list option" where
  "normalizeChangedPaths tryNormalize changedPaths =
     map_option (\<lambda>candidates. sort (remdups (filter (\<lambda>path. path \<noteq> []) (List.map_filter tryNormalize candidates)))) changedPaths"

section \<open>Results and effects\<close>

datatype CompileContextGraphBlockReason = Lock_held | Extractor_failed | Lint_failed

record 'n CompileContextGraphResult =
  cr_ok :: bool
  cr_snapshot :: "'n ContextGraphSnapshot option"
  cr_meta :: "ContextGraphMeta option"
  cr_issues :: "ContextGraphLintIssue list"
  cr_wrote :: bool
  cr_snapshotHash :: "js_string option"
  cr_previousSnapshotHash :: "js_string option"
  cr_durationMs :: int
  cr_skipped :: "ContextGraphSkip list"
  cr_blockers :: "js_string list"
  cr_reason :: "CompileContextGraphBlockReason option"
  cr_cacheKey :: "js_string option"
  cr_cacheReusable :: bool
  cr_incremental :: bool
  cr_droppedEdges :: "DroppedContextGraphEdge list"

definition failure :: "CompileContextGraphBlockReason \<Rightarrow> js_string list \<Rightarrow> int \<Rightarrow> 'n CompileContextGraphResult" where
  "failure reason blockers durationMs =
     \<lparr>cr_ok = False, cr_snapshot = None, cr_meta = None, cr_issues = [], cr_wrote = False, cr_snapshotHash = None,
      cr_previousSnapshotHash = None, cr_durationMs = durationMs, cr_skipped = [], cr_blockers = blockers, cr_reason = Some reason,
      cr_cacheKey = None, cr_cacheReusable = False, cr_incremental = False, cr_droppedEdges = []\<rparr>"

datatype ContextGraphEventType = Compile_started | Compile_committed | Compile_blocked | Compile_lock_contended
  | Compile_unchanged | Snapshot_corrupt | Snapshot_missing

text \<open>A previous hash may be left out, null or present.\<close>

record ContextGraphEventInput =
  ev_type :: ContextGraphEventType
  ev_at :: js_string
  ev_cacheKey :: "js_string option"
  ev_snapshotHash :: "js_string option"
  ev_previousSnapshotHash :: "js_string option option"
  ev_nodeCount :: "nat option"
  ev_edgeCount :: "nat option"
  ev_errorCount :: "nat option"
  ev_warningCount :: "nat option"
  ev_durationMs :: "int option"
  ev_reason :: "js_string option"
  ev_incremental :: "bool option"

definition event :: "ContextGraphEventType \<Rightarrow> js_string \<Rightarrow> ContextGraphEventInput" where
  "event type time = \<lparr>ev_type = type, ev_at = time, ev_cacheKey = None, ev_snapshotHash = None, ev_previousSnapshotHash = None,
     ev_nodeCount = None, ev_edgeCount = None, ev_errorCount = None, ev_warningCount = None, ev_durationMs = None,
     ev_reason = None, ev_incremental = None\<rparr>"

datatype 'n CompileEffect =
    Append_event ContextGraphEventInput | Write_snapshot "'n ContextGraphSnapshot" ContextGraphMeta

section \<open>The compile\<close>

definition MAX_META_SKIPPED :: nat where "MAX_META_SKIPPED = 200"

text \<open>\<open>inputHashes[file] === undefined\<close> on a plain object.\<close>

definition add_source_hashes :: "(js_string \<rightharpoonup> js_string) \<Rightarrow> (js_string \<rightharpoonup> js_string) \<Rightarrow> (js_string \<rightharpoonup> js_string)" where
  "add_source_hashes inputHashes sourceHashes = (\<lambda>file. case object_get inputHashes file of
     Own hash \<Rightarrow> Some hash | Inherited \<Rightarrow> None | Absent \<Rightarrow> sourceHashes file)"

definition build_with_cycles ::
  "'n LintHost \<Rightarrow> (js_string \<Rightarrow> 'k::linorder) \<Rightarrow> 'n ContextGraphNode list \<Rightarrow> ContextGraphEdge list \<Rightarrow> ContextGraphExtractorStat list
     \<Rightarrow> 'n ContextGraphSnapshot option" where
  "build_with_cycles host collate nodes edges extractors =
    (let build = buildContextGraphSnapshot (lh_ratText host) (lh_numText host) (lh_sha256 host);
         provisional = build \<lparr>df_nodes = nodes, df_edges = edges, df_cycles = [], df_extractors = extractors\<rparr> in
     map_option (\<lambda>cycles. build \<lparr>df_nodes = s_nodes provisional, df_edges = s_edges provisional, df_cycles = cycles,
         df_extractors = s_extractors provisional\<rparr>)
       (cyclesOf (lh_lower host) collate (lh_sha256 host) provisional))"

text \<open>The end of a compile whose extraction failed, whose issues hold an error, and of a successful one.\<close>

definition extraction_failed ::
  "'n CompileWorkspace \<Rightarrow> CompileContextGraphInput \<Rightarrow> 'n ExtractionOutcome \<Rightarrow> 'n CompileContextGraphResult \<times> 'n CompileEffect list" where
  "extraction_failed workspace input extraction =
    (let cacheKey = ci_cacheKey input in
     ((failure Extractor_failed (xo_blockers extraction) (cw_durationMs workspace))
        \<lparr>cr_cacheKey := Some (ck_key cacheKey), cr_cacheReusable := ck_reusable cacheKey, cr_issues := xo_issues extraction\<rparr>,
      if ci_persistArtifacts input
        then [Append_event ((event Compile_blocked (ci_observedAt input))
          \<lparr>ev_cacheKey := Some (ck_key cacheKey), ev_reason := Some (xo_blockers extraction ! 0)\<rparr>)]
        else []))"

definition compile_blocked ::
  "'n CompileWorkspace \<Rightarrow> CompileContextGraphInput \<Rightarrow> 'n MergeContextGraphResult \<Rightarrow> bool \<Rightarrow> ContextGraphSkip list
     \<Rightarrow> 'n ContextGraphSnapshot \<Rightarrow> ContextGraphLintIssue list \<Rightarrow> 'n CompileContextGraphResult \<times> 'n CompileEffect list" where
  "compile_blocked workspace input merged incremental skipped snapshot issues =
    (let cacheKey = ci_cacheKey input; errors = filter is_error issues in
     (\<lparr>cr_ok = False, cr_snapshot = Some snapshot, cr_meta = None, cr_issues = issues, cr_wrote = False,
       cr_snapshotHash = Some (s_snapshotHash snapshot), cr_previousSnapshotHash = None, cr_durationMs = cw_durationMs workspace,
       cr_skipped = skipped, cr_blockers = map (\<lambda>issue. js ''lint:'' @ lint_code_name (li_code issue)) errors,
       cr_reason = Some Lint_failed, cr_cacheKey = Some (ck_key cacheKey), cr_cacheReusable = ck_reusable cacheKey,
       cr_incremental = incremental, cr_droppedEdges = mr_dropped merged\<rparr>,
      if ci_persistArtifacts input
        then [Append_event ((event Compile_blocked (ci_observedAt input))
          \<lparr>ev_cacheKey := Some (ck_key cacheKey), ev_snapshotHash := Some (s_snapshotHash snapshot),
            ev_errorCount := Some (length errors), ev_warningCount := Some (length issues - length errors),
            ev_reason := Some (lint_code_name (li_code (errors ! 0)))\<rparr>)]
        else []))"

definition compile_committed ::
  "'n CompileWorkspace \<Rightarrow> CompileContextGraphInput \<Rightarrow> 'n MergeContextGraphResult \<Rightarrow> (js_string \<rightharpoonup> js_string) \<Rightarrow> bool \<Rightarrow> ContextGraphSkip list
     \<Rightarrow> 'n ContextGraphSnapshot \<Rightarrow> ContextGraphLintIssue list \<Rightarrow> 'n CompileContextGraphResult \<times> 'n CompileEffect list" where
  "compile_committed workspace input merged inputHashes incremental skipped snapshot issues =
    (let cacheKey = ci_cacheKey input;
         previousSnapshotHash = cw_previousSnapshotHash workspace;
         meta = \<lparr>mt_schema = js ''sks.context-graph-meta.v1'', mt_schemaRevision = CONTEXT_GRAPH_SCHEMA_REVISION,
           mt_snapshotHash = s_snapshotHash snapshot, mt_previousSnapshotHash = previousSnapshotHash,
           mt_generatedAt = ci_observedAt input, mt_cacheKey = ck_key cacheKey, mt_cacheKeyParts = ck_parts cacheKey,
           mt_inputHashes = inputHashes, mt_nodeCount = s_nodeCount snapshot, mt_edgeCount = s_edgeCount snapshot,
           mt_lint = \<lparr>ml_ok = True, ml_errors = 0, ml_warnings = length issues\<rparr>,
           mt_skipped = take MAX_META_SKIPPED skipped, mt_durationMs = cw_durationMs workspace\<rparr> in
     (\<lparr>cr_ok = True, cr_snapshot = Some snapshot, cr_meta = Some meta, cr_issues = issues, cr_wrote = ci_persistArtifacts input,
       cr_snapshotHash = Some (s_snapshotHash snapshot), cr_previousSnapshotHash = previousSnapshotHash,
       cr_durationMs = cw_durationMs workspace, cr_skipped = skipped, cr_blockers = [], cr_reason = None,
       cr_cacheKey = Some (ck_key cacheKey), cr_cacheReusable = ck_reusable cacheKey, cr_incremental = incremental,
       cr_droppedEdges = mr_dropped merged\<rparr>,
      if ci_persistArtifacts input
        then [Write_snapshot snapshot meta,
          Append_event ((event Compile_committed (ci_observedAt input))
            \<lparr>ev_cacheKey := Some (ck_key cacheKey), ev_snapshotHash := Some (s_snapshotHash snapshot),
              ev_previousSnapshotHash := Some previousSnapshotHash, ev_nodeCount := Some (s_nodeCount snapshot),
              ev_edgeCount := Some (s_edgeCount snapshot), ev_errorCount := Some 0, ev_warningCount := Some (length issues),
              ev_durationMs := Some (cw_durationMs workspace), ev_incremental := Some incremental\<rparr>)]
        else []))"

definition compile_verdict ::
  "'n CompileWorkspace \<Rightarrow> CompileContextGraphInput \<Rightarrow> 'n MergeContextGraphResult \<Rightarrow> (js_string \<rightharpoonup> js_string) \<Rightarrow> bool \<Rightarrow> ContextGraphSkip list
     \<Rightarrow> 'n ContextGraphSnapshot \<Rightarrow> ContextGraphLintIssue list \<Rightarrow> 'n CompileContextGraphResult \<times> 'n CompileEffect list" where
  "compile_verdict workspace input merged inputHashes incremental skipped snapshot issues =
    (if filter is_error issues \<noteq> [] then compile_blocked workspace input merged incremental skipped snapshot issues
     else compile_committed workspace input merged inputHashes incremental skipped snapshot issues)"

text \<open>The pipeline from the fragments on.\<close>

definition compile_fragments ::
  "'n LintHost \<Rightarrow> (js_string \<Rightarrow> 'k::linorder) \<Rightarrow> 'n CompileWorkspace \<Rightarrow> CompileContextGraphInput
     \<Rightarrow> 'n ExtractionOutcome \<Rightarrow> 'n ContextGraphCarryForward option \<Rightarrow> ('n CompileContextGraphResult \<times> 'n CompileEffect list) option" where
  "compile_fragments host collate workspace input extraction carryForward =
    (let merged = mergeContextGraphFragments (xo_fragments extraction) carryForward;
         freshness = applyContextGraphFreshness (cw_digest workspace) (mr_nodes merged) (mr_edges merged) None;
         (cappedNodes, cappedEdges, capSkipped) =
           applyContextGraphCaps (fz_nodes freshness) (mr_edges merged) (ci_maxNodes input) (ci_maxEdges input);
         skipped = mr_skipped merged @ capSkipped;
         inputHashes = add_source_hashes (mr_inputHashes merged) (fz_sourceHashes freshness) in
     Option.bind (build_with_cycles host collate cappedNodes cappedEdges (mr_extractors merged)) (\<lambda>snapshot.
     map_option (\<lambda>lint. compile_verdict workspace input merged inputHashes (carryForward \<noteq> None) skipped snapshot
           (xo_issues extraction @ mr_issues merged @ lint))
       (runContextGraphLint host collate snapshot None (Some (fz_sourceHashes freshness)) skipped)))"

definition compileLocked ::
  "'n LintHost \<Rightarrow> (js_string \<Rightarrow> 'k::linorder) \<Rightarrow> 'n CompileWorkspace \<Rightarrow> CompileContextGraphInput
     \<Rightarrow> ('n CompileContextGraphResult \<times> 'n CompileEffect list) option" where
  "compileLocked host collate workspace input =
    (let changedPaths = normalizeChangedPaths (cw_normalize workspace) (ci_changedPaths input);
         cacheKey = ci_cacheKey input;
         started = (if ci_persistArtifacts input
           then [Append_event ((event Compile_started (ci_observedAt input))
             \<lparr>ev_cacheKey := Some (ck_key cacheKey), ev_incremental := Some (changedPaths \<noteq> None)\<rparr>)]
           else []);
         extraction = cw_extract workspace changedPaths (ci_useFragmentCache input \<and> ck_reusable cacheKey);
         carryForward = (case changedPaths of None \<Rightarrow> None
           | Some paths \<Rightarrow> previousGeneration cacheKey (cw_snapshotLoad workspace) (cw_metaLoad workspace) paths) in
     map_option (\<lambda>(result, effects). (result, started @ effects))
       (if xo_blockers extraction \<noteq> [] then Some (extraction_failed workspace input extraction)
        else compile_fragments host collate workspace input extraction carryForward))"

text \<open>What came of the locks: both were taken, the compile lock is held, or the wait for the state lock timed out.\<close>

datatype CompileLocks = Locks_taken | Compile_lock_held | State_lock_held

definition compileContextGraph ::
  "'n LintHost \<Rightarrow> (js_string \<Rightarrow> 'k::linorder) \<Rightarrow> 'n CompileWorkspace \<Rightarrow> CompileLocks \<Rightarrow> CompileContextGraphInput
     \<Rightarrow> ('n CompileContextGraphResult \<times> 'n CompileEffect list) option" where
  "compileContextGraph host collate workspace locks input =
    (if \<not> ci_useCompileLock input then compileLocked host collate workspace input
     else case locks of
         Locks_taken \<Rightarrow> compileLocked host collate workspace input
       | State_lock_held \<Rightarrow> Some (failure Lock_held [js ''triwiki_state_lock_held''] (cw_durationMs workspace), [])
       | Compile_lock_held \<Rightarrow> Some (failure Lock_held [js ''lock_held''] (cw_durationMs workspace),
           [Append_event ((event Compile_lock_contended (ci_observedAt input))\<lparr>ev_reason := Some (js ''lock_held'')\<rparr>)]))"

section \<open>The compile returns\<close>

lemma cycles_return: "\<exists>cs. cyclesOf lower collate sha256 snapshot = Some cs"
  using indexed.components [of collate "map n_id (s_nodes snapshot)" lower snapshot] by (auto simp: cyclesOf_def)

lemma build_returns: "\<exists>snapshot. build_with_cycles host collate nodes edges extractors = Some snapshot"
proof -
  obtain cs where "cyclesOf (lh_lower host) collate (lh_sha256 host) (buildContextGraphSnapshot (lh_ratText host) (lh_numText host)
      (lh_sha256 host) \<lparr>df_nodes = nodes, df_edges = edges, df_cycles = [], df_extractors = extractors\<rparr>) = Some cs"
    using cycles_return by blast
  then show ?thesis by (simp add: build_with_cycles_def Let_def)
qed

lemma manifest_returns: "\<exists>issues. manifestCycleIssues collate snapshot = Some issues"
  using manifest.components [of collate "map n_id (s_nodes snapshot)" snapshot] by (auto simp: manifestCycleIssues_def)

lemma lint_returns: "\<exists>issues. runContextGraphLint host collate snapshot meta hashes skipped = Some issues"
  using manifest_returns [of collate snapshot] by (auto simp: runContextGraphLint_def Let_def)

text \<open>The stages a result may come from.\<close>

lemma fragments_return: "\<exists>p. compile_fragments host collate workspace input extraction carryForward = Some p"
proof -
  let ?merged = "mergeContextGraphFragments (xo_fragments extraction) carryForward"
  let ?freshness = "applyContextGraphFreshness (cw_digest workspace) (mr_nodes ?merged) (mr_edges ?merged) None"
  obtain nodes edges skips where caps: "applyContextGraphCaps (fz_nodes ?freshness) (mr_edges ?merged) (ci_maxNodes input) (ci_maxEdges input)
      = (nodes, edges, skips)"
    by (rule prod_cases3)
  obtain snapshot where snapshot: "build_with_cycles host collate nodes edges (mr_extractors ?merged) = Some snapshot"
    using build_returns by blast
  obtain lint where "runContextGraphLint host collate snapshot None (Some (fz_sourceHashes ?freshness)) (mr_skipped ?merged @ skips) = Some lint"
    using lint_returns by blast
  with caps snapshot show ?thesis by (simp add: compile_fragments_def Let_def)
qed

lemma fragments_verdict:
  assumes "compile_fragments host collate workspace input extraction carryForward = Some p"
  shows "\<exists>merged inputHashes skipped snapshot issues. p = compile_verdict workspace input merged inputHashes (carryForward \<noteq> None) skipped snapshot issues"
  using assms by (force simp: compile_fragments_def Let_def bind_eq_Some_conv split: prod.splits)

abbreviation started_event :: "CompileContextGraphInput \<Rightarrow> 'n CompileEffect list" where
  "started_event input \<equiv> (if ci_persistArtifacts input
     then [Append_event ((event Compile_started (ci_observedAt input))
       \<lparr>ev_cacheKey := Some (ck_key (ci_cacheKey input)), ev_incremental := Some (ci_changedPaths input \<noteq> None)\<rparr>)]
     else [])"

definition extraction_of :: "'n CompileWorkspace \<Rightarrow> CompileContextGraphInput \<Rightarrow> 'n ExtractionOutcome" where
  "extraction_of workspace input = cw_extract workspace (normalizeChangedPaths (cw_normalize workspace) (ci_changedPaths input))
     (ci_useFragmentCache input \<and> ck_reusable (ci_cacheKey input))"

text \<open>A compile was refused a lock, stopped at the extractors, or came to a verdict.\<close>

lemma compile_stages:
  assumes "compileContextGraph host collate workspace locks input = Some (r, effects)"
  obtains (locked) "locks = Compile_lock_held \<or> locks = State_lock_held" "ci_useCompileLock input"
      "r = failure Lock_held (cr_blockers r) (cw_durationMs workspace)" "cr_blockers r \<noteq> []"
      "effects = (if locks = Compile_lock_held
         then [Append_event ((event Compile_lock_contended (ci_observedAt input))\<lparr>ev_reason := Some (js ''lock_held'')\<rparr>)] else [])"
    | (extraction) rest where "\<not> ci_useCompileLock input \<or> locks = Locks_taken" "xo_blockers (extraction_of workspace input) \<noteq> []"
      "extraction_failed workspace input (extraction_of workspace input) = (r, rest)" "effects = started_event input @ rest"
    | (verdict) carryForward rest where "\<not> ci_useCompileLock input \<or> locks = Locks_taken" "xo_blockers (extraction_of workspace input) = []"
      "compile_fragments host collate workspace input (extraction_of workspace input) carryForward = Some (r, rest)"
      "effects = started_event input @ rest"
proof (cases "ci_useCompileLock input \<and> locks \<noteq> Locks_taken")
  case True
  then show ?thesis
    using assms locked by (cases locks) (auto simp: compileContextGraph_def failure_def js_def)
next
  case False
  then have run: "compileLocked host collate workspace input = Some (r, effects)"
    using assms by (cases locks) (auto simp: compileContextGraph_def split: if_splits)
  have paths: "normalizeChangedPaths tryNormalize changed \<noteq> None \<longleftrightarrow> changed \<noteq> None" for tryNormalize changed
    by (simp add: normalizeChangedPaths_def)
  from run show ?thesis
    unfolding compileLocked_def Let_def extraction_of_def [symmetric] paths
    using False extraction verdict by (auto split: if_splits prod.splits)
qed

text \<open>
  C25. A compile returns, whatever the workspace yields: neither the search for the cycles of the graph
  nor that for cycles of its manifest relations runs forever. It is successful exactly when it has no
  blocker and no reason, and then no issue is an error; the blockers are those of the extractors when
  extraction failed, and one for each error among the issues when an error stopped it; and it fails
  for a lock only where one was asked for and not taken.
\<close>

theorem compile_returns:
  "\<exists>r effects. compileContextGraph host collate workspace locks input = Some (r, effects)
     \<and> cr_ok r = (cr_blockers r = []) \<and> cr_ok r = (cr_reason r = None)
     \<and> (case cr_reason r of
           None \<Rightarrow> filter is_error (cr_issues r) = []
         | Some Lint_failed \<Rightarrow>
             cr_blockers r = map (\<lambda>issue. js ''lint:'' @ lint_code_name (li_code issue)) (filter is_error (cr_issues r))
         | Some Extractor_failed \<Rightarrow> cr_blockers r = xo_blockers (cw_extract workspace
             (normalizeChangedPaths (cw_normalize workspace) (ci_changedPaths input)) (ci_useFragmentCache input \<and> ck_reusable (ci_cacheKey input)))
         | Some Lock_held \<Rightarrow> ci_useCompileLock input \<and> locks \<noteq> Locks_taken)"
proof -
  have "\<exists>p. compileLocked host collate workspace input = Some p"
    using fragments_return by (fastforce simp: compileLocked_def Let_def)
  then obtain p where p: "compileLocked host collate workspace input = Some p" by blast
  have "\<exists>p. compileContextGraph host collate workspace locks input = Some p"
    by (cases locks) (simp_all add: compileContextGraph_def p)
  then obtain r effects where run: "compileContextGraph host collate workspace locks input = Some (r, effects)" by auto
  from run show ?thesis
  proof (cases rule: compile_stages)
    case locked
    then have "cr_ok r = False" "cr_reason r = Some Lock_held" by (metis (no_types) failure_def CompileContextGraphResult.select_convs(1,11))+
    with run locked(1,2,4) show ?thesis by auto
  next
    case (extraction rest)
    with run show ?thesis
      by (auto simp: extraction_failed_def Let_def failure_def extraction_of_def)
  next
    case (verdict carryForward rest)
    from fragments_verdict [OF verdict(3)] run show ?thesis
      by (auto simp: compile_verdict_def compile_blocked_def compile_committed_def Let_def split: if_splits)
  qed
qed

section \<open>What a compile publishes\<close>

fun event_type :: "'n CompileEffect \<Rightarrow> ContextGraphEventType option" where
  "event_type (Append_event e) = Some (ev_type e)"
| "event_type (Write_snapshot snapshot meta) = None"

text \<open>
  C28. A compile writes exactly when it is successful and asked to persist. What it writes is the
  snapshot and the metadata it returns; the metadata names the hash and the counts of that snapshot
  and the hash of the one it replaces. It logs that it started, then, after the write, that it
  committed, or that it was blocked; without \<open>persistArtifacts\<close> it logs nothing. A compile that finds
  the compile lock held logs only that, and one that finds the state lock held logs nothing.
\<close>

theorem compile_publishes:
  assumes "compileContextGraph host collate workspace locks input = Some (r, effects)"
  shows "cr_wrote r = (cr_ok r \<and> ci_persistArtifacts input)
    \<and> (\<forall>snapshot meta. Write_snapshot snapshot meta \<in> set effects \<longleftrightarrow>
         cr_wrote r \<and> cr_snapshot r = Some snapshot \<and> cr_meta r = Some meta)
    \<and> (cr_ok r \<longrightarrow> (\<exists>snapshot meta. cr_snapshot r = Some snapshot \<and> cr_meta r = Some meta
         \<and> mt_snapshotHash meta = s_snapshotHash snapshot \<and> mt_nodeCount meta = s_nodeCount snapshot
         \<and> mt_edgeCount meta = s_edgeCount snapshot \<and> mt_previousSnapshotHash meta = cw_previousSnapshotHash workspace))
    \<and> map event_type effects =
        (if ci_useCompileLock input \<and> locks = Compile_lock_held then [Some Compile_lock_contended]
         else if ci_useCompileLock input \<and> locks = State_lock_held \<or> \<not> ci_persistArtifacts input then []
         else if cr_ok r then [Some Compile_started, None, Some Compile_committed]
         else [Some Compile_started, Some Compile_blocked])"
  using assms
proof (cases rule: compile_stages)
  case locked
  then have "cr_ok r = False" "cr_wrote r = False"
    by (metis (no_types) failure_def CompileContextGraphResult.select_convs(1,5))+
  with locked(1,2,5) show ?thesis by (auto simp: event_def)
next
  case (extraction rest)
  then show ?thesis
    by (auto simp: extraction_failed_def Let_def failure_def event_def)
next
  case (verdict carryForward rest)
  from fragments_verdict [OF verdict(3)] verdict(1,4) show ?thesis
    by (auto simp: compile_verdict_def compile_blocked_def compile_committed_def Let_def event_def split: if_splits)
qed

section \<open>What a successful compile returns\<close>






end
