(* ===== verification/Compiler_Example.thy ===== *)
theory Compiler_Example
  imports Compiler_Core
begin

text \<open>
  A graph of a file and a protected gate that a manifest edge ties to it, taken through the compiler:
  where the hypotheses of its properties hold.
\<close>

section \<open>The graph\<close>

definition demo_hash :: js_string where "demo_hash = replicate 64 97"

lemma demo_hash_facts [simp]: "demo_hash \<noteq> []" "sha256_text demo_hash" "demo_hash \<noteq> js ''missing''"
proof -
  have "length demo_hash \<noteq> length (js ''missing'')" by (simp add: demo_hash_def js_def)
  then show "demo_hash \<noteq> js ''missing''" by metis
qed (simp_all add: demo_hash_def sha256_text_def list_all_iff lower_hex_def)

definition demo_file :: "unit ContextGraphNode" where
  "demo_file = \<lparr>n_id = [97], n_kind = Kind_file, n_label = [97], n_path = Some [97], n_locator = None,
     n_contentHash = Some demo_hash, n_trust = Finite 1, n_freshness = Fresh, n_risk = Low, n_tokenCost = Finite 0, n_metadata = []\<rparr>"

definition demo_gate :: "unit ContextGraphNode" where
  "demo_gate = \<lparr>n_id = [98], n_kind = Kind_gate, n_label = [98], n_path = None, n_locator = None,
     n_contentHash = None, n_trust = Finite 1, n_freshness = Fresh, n_risk = Protected, n_tokenCost = Finite 0, n_metadata = []\<rparr>"

definition demo_edge :: ContextGraphEdge where
  "demo_edge = \<lparr>e_id = [101], e_from = [98], e_to = [97], e_type = Depends_on, e_confidence = Manifest,
     e_provenance = \<lparr>p_path = [97], p_line = None, p_hash = demo_hash, p_extractor = [120]\<rparr>, e_observedAt = [48]\<rparr>"

definition demo_fragment :: "js_string \<Rightarrow> unit ContextGraphFragment" where
  "demo_fragment extractor = \<lparr>fg_schema = CONTEXT_GRAPH_FRAGMENT_SCHEMA, fg_extractor = extractor, fg_extractorRevision = [49],
     fg_nodes = [demo_gate, demo_file], fg_edges = [demo_edge], fg_issues = [], fg_skipped = [], fg_inputHashes = []\<rparr>"

definition demo_host :: "unit LintHost" where
  "demo_host = \<lparr>lh_lower = (\<lambda>s. s), lh_sha256 = (\<lambda>_. demo_hash), lh_ratText = (\<lambda>r. if r = 0 then [48] else [49]),
     lh_numText = (\<lambda>_. [48]), lh_symlink_escape = (\<lambda>_. False), lh_secret = (\<lambda>_. False), lh_env = []\<rparr>"

definition demo_digest :: "js_string \<Rightarrow> js_string option" where
  "demo_digest path = (if path = [97] then Some demo_hash else None)"

lemma demo_fields [simp]:
  "n_id demo_file = [97]" "n_kind demo_file = Kind_file" "n_label demo_file = [97]" "n_path demo_file = Some [97]"
  "n_locator demo_file = None" "n_contentHash demo_file = Some demo_hash" "n_trust demo_file = Finite 1"
  "n_freshness demo_file = Fresh" "n_risk demo_file = Low" "n_tokenCost demo_file = Finite 0" "n_metadata demo_file = []"
  "n_id demo_gate = [98]" "n_kind demo_gate = Kind_gate" "n_label demo_gate = [98]" "n_path demo_gate = None"
  "n_locator demo_gate = None" "n_contentHash demo_gate = None" "n_trust demo_gate = Finite 1"
  "n_freshness demo_gate = Fresh" "n_risk demo_gate = Protected" "n_tokenCost demo_gate = Finite 0" "n_metadata demo_gate = []"
  "e_id demo_edge = [101]" "e_from demo_edge = [98]" "e_to demo_edge = [97]" "e_type demo_edge = Depends_on"
  "e_confidence demo_edge = Manifest" "p_path (e_provenance demo_edge) = [97]" "p_line (e_provenance demo_edge) = None"
  "p_hash (e_provenance demo_edge) = demo_hash" "p_extractor (e_provenance demo_edge) = [120]" "e_observedAt demo_edge = [48]"
  by (simp_all add: demo_file_def demo_gate_def demo_edge_def)

definition demo_stat :: ContextGraphExtractorStat where
  "demo_stat = \<lparr>xs_id = [120], xs_revision = [49], xs_nodeCount = 2, xs_edgeCount = 1, xs_issueCount = 0, xs_skippedCount = 0\<rparr>"

section \<open>Merging, freshness and caps\<close>

lemma demo_merge:
  "mr_nodes (mergeContextGraphFragments [demo_fragment [120]] None) = [demo_gate, demo_file]"
  "mr_edges (mergeContextGraphFragments [demo_fragment [120]] None) = [demo_edge]"
  "mr_issues (mergeContextGraphFragments [demo_fragment [120]] None) = []"
  "mr_skipped (mergeContextGraphFragments [demo_fragment [120]] None) = []"
  "mr_extractors (mergeContextGraphFragments [demo_fragment [120]] None) = [demo_stat]"
  by (simp_all add: mergeContextGraphFragments_def Let_def merge_start_def sortFragments_def merge_fragment_def demo_fragment_def
      merge_node_in_def merge_edge_in_def put_node_def put_edge_def drop_reason_def stat_of_def demo_stat_def)

theorem merge_order_free_witness:
  "mset [demo_fragment [120], demo_fragment [121]] = mset [demo_fragment [121], demo_fragment [120]]
   \<and> mergeContextGraphFragments [demo_fragment [120], demo_fragment [121]] None
     = mergeContextGraphFragments [demo_fragment [121], demo_fragment [120]] None"
  using merge_order_free [of "[demo_fragment [120], demo_fragment [121]]" "[demo_fragment [121], demo_fragment [120]]" None]
  by (simp add: demo_fragment_def)

theorem merge_is_pessimistic_witness:
  "demo_file \<in> fresh_nodes [demo_fragment [120]]
   \<and> (\<exists>y \<in> set (mr_nodes (mergeContextGraphFragments [demo_fragment [120]] None)). dominates y demo_file)"
proof -
  have fresh: "demo_file \<in> fresh_nodes [demo_fragment [120]]" by (simp add: fresh_nodes_def usable_def demo_fragment_def)
  with merge_is_pessimistic [OF fresh, of None] show ?thesis by (simp add: demo_merge conflict_reported_def)
qed

lemma demo_paths:
  "wanted_path demo_gate = None" "wanted_path demo_file = Some [97]" "object_get Map.empty [97] = Absent"
  by (simp_all add: wanted_path_def object_get_def OBJECT_PROTOTYPE_NAMES_def js_def)

lemma demo_read: "readSourceHashes demo_digest [[97]] = [[97] \<mapsto> demo_hash]"
  by (simp add: readSourceHashes_def demo_digest_def object_put_def js_def)

lemma demo_resolved:
  "resolve_node [[97] \<mapsto> demo_hash] demo_gate = demo_gate" "resolve_node [[97] \<mapsto> demo_hash] demo_file = demo_file"
  by (simp_all add: resolve_node_def demo_paths object_get_def source_missing_def CONTEXT_GRAPH_MISSING_SOURCE_HASH_def
      withFreshness_def truthy_def)

lemma demo_freshness:
  "fz_nodes (applyContextGraphFreshness demo_digest [demo_gate, demo_file] [demo_edge] None) = [demo_gate, demo_file]"
  "fz_staleNodeIds (applyContextGraphFreshness demo_digest [demo_gate, demo_file] [demo_edge] None) = []"
  "fz_sourceHashes (applyContextGraphFreshness demo_digest [demo_gate, demo_file] [demo_edge] None) = [[97] \<mapsto> demo_hash]"
  by (simp_all add: applyContextGraphFreshness_def Let_def List.map_filter_simps demo_paths demo_read demo_resolved
      propagate_stale.simps)


theorem fresh_is_current_witness:
  "demo_file \<in> set (fz_nodes (applyContextGraphFreshness demo_digest [demo_gate, demo_file] [demo_edge] None))
   \<and> fz_sourceHashes (applyContextGraphFreshness demo_digest [demo_gate, demo_file] [demo_edge] None) [97] = Some demo_hash"
  using fresh_is_current [of "[demo_gate, demo_file]" demo_file demo_digest "[demo_edge]" None]
  by (simp add: demo_freshness)

lemma demo_caps:
  "applyContextGraphCaps [demo_gate, demo_file] [demo_edge] 1 0
     = ([demo_gate], [], [cap_reached (js ''node cap reached; '' @ decimal 1 @ js '' node(s) dropped'')])"
  "applyContextGraphCaps [demo_gate, demo_file] [demo_edge] 0 0 = ([demo_gate, demo_file], [demo_edge], [])"
  by (simp_all add: applyContextGraphCaps_def Let_def sort_by_def ranked_before_def RISK_RANK_def)

theorem caps_keep_a_graph_witness:
  "ends_in [demo_edge] [demo_gate, demo_file] \<and> under_cap 1 (length [demo_gate]) \<and> mset [demo_gate] \<subseteq># mset [demo_gate, demo_file]"
  using caps_keep_a_graph [OF demo_caps(1)] by (simp add: ends_in_def)

section \<open>The snapshot\<close>

definition demo_snapshot :: "unit ContextGraphSnapshot" where
  "demo_snapshot = \<lparr>s_schema = CONTEXT_GRAPH_SCHEMA, s_schemaRevision = CONTEXT_GRAPH_SCHEMA_REVISION, s_snapshotHash = demo_hash,
     s_nodes = [demo_file, demo_gate], s_edges = [demo_edge], s_cycles = [], s_extractors = [demo_stat], s_nodeCount = 2, s_edgeCount = 1\<rparr>"

lemma demo_snapshot_fields [simp]:
  "s_nodes demo_snapshot = [demo_file, demo_gate]" "s_edges demo_snapshot = [demo_edge]" "s_cycles demo_snapshot = []"
  "s_extractors demo_snapshot = [demo_stat]" "s_snapshotHash demo_snapshot = demo_hash" "s_schema demo_snapshot = CONTEXT_GRAPH_SCHEMA"
  "s_nodeCount demo_snapshot = 2" "s_edgeCount demo_snapshot = 1"
  by (simp_all add: demo_snapshot_def)

lemma demo_ordered [simp]: "orderedNode demo_file = demo_file" "orderedNode demo_gate = demo_gate"
  by (simp_all add: orderedNode_def orderedMetadata_def own_order_def)

lemma one_edge_scc:
  assumes "(b::'a) \<noteq> a"
  shows "scc {(b, a)} u = {u}"
proof -
  have "x = y \<or> x = b \<and> y = a" if "(x, y) \<in> {(b, a)}\<^sup>*" for x y
    using that by (induction rule: rtrancl_induct) auto
  then have "w = u" if "w \<in> scc {(b, a)} u" for w using that assms unfolding scc_def by blast
  then show ?thesis by (auto intro: scc_self)
qed

lemma demo_components:
  assumes "finite_graph out" "graph_edges out = {([98], [97])}"
  shows "computeStronglyConnectedComponents collate ids out = Some []"
proof -
  obtain cs where "computeStronglyConnectedComponents collate ids out = Some cs" "set cs = {}"
    using finite_graph.components [OF assms(1), of collate ids] unfolding assms(2) by (auto simp: one_edge_scc)
  then show ?thesis by simp
qed

lemma demo_build:
  "build_with_cycles demo_host collate [demo_gate, demo_file] [demo_edge] [demo_stat] = Some demo_snapshot"
proof -
  let ?build = "buildContextGraphSnapshot (lh_ratText demo_host) (lh_numText demo_host) (lh_sha256 demo_host)"
  let ?d = "\<lparr>df_nodes = [demo_gate, demo_file], df_edges = [demo_edge], df_cycles = [], df_extractors = [demo_stat]\<rparr>"
  have stat: "sortExtractorStats [demo_stat] = [demo_stat]" by (simp add: sortExtractorStats_def demo_stat_def)
  have p: "?build ?d = demo_snapshot"
    by (rule ContextGraphSnapshot.equality)
      (simp_all add: built_fields built_rest stat sortContextGraphCycles_def demo_snapshot_def buildContextGraphSnapshot_def
        computeContextGraphSnapshotHash_def demo_host_def sortContextGraphNodes_def sortContextGraphEdges_def Let_def orderedEdge_again)
  have "graph_edges (index_targets (buildContextGraphIndex (lh_lower demo_host) demo_snapshot)) = {([98], [97])}"
    by (subst index_links) (auto simp: snapshot_links_def)
  then have "cyclesOf (lh_lower demo_host) collate (lh_sha256 demo_host) demo_snapshot = Some []"
    using demo_components [OF indexed.finite_graph_axioms] by (simp add: cyclesOf_def)
  moreover have "?build \<lparr>df_nodes = s_nodes demo_snapshot, df_edges = s_edges demo_snapshot, df_cycles = [], df_extractors = s_extractors demo_snapshot\<rparr>
      = demo_snapshot"
    using p built_snapshot_again [of "lh_ratText demo_host" "lh_numText demo_host" "lh_sha256 demo_host" ?d]
    by (simp add: draft_of_def)
  ultimately show ?thesis unfolding build_with_cycles_def Let_def p by simp
qed

section \<open>The lint\<close>

lemma quiet_lint:
  assumes "structuralIssues snapshot = []" "pathSafetyIssues (lh_symlink_escape host) snapshot = []"
    "secretIssues (lh_secret host) (lh_env host) snapshot = []"
    "determinismIssues (lh_ratText host) (lh_numText host) snapshot = []"
    "hashIssues (lh_ratText host) (lh_numText host) (lh_sha256 host) snapshot meta = []"
    "protectedGateIssues (buildContextGraphIndex (lh_lower host) snapshot) = []" "manifestCycleIssues collate snapshot = Some []"
    "freshnessClaimIssues snapshot hashes = []"
  shows "\<exists>issues. runContextGraphLint host collate snapshot meta hashes skipped = Some issues \<and> lint_ok issues"
proof -
  let ?warnings = "warningIssues (buildContextGraphIndex (lh_lower host) snapshot) skipped"
  have "set (first_of_key seen issues) \<subseteq> set issues" for seen issues
    by (induction seen issues rule: first_of_key.induct) (auto simp: Let_def)
  then have kept: "set (dedupe_issues ?warnings) \<subseteq> set ?warnings" by (simp add: dedupe_issues_def)
  have "\<not> is_error x" if "x \<in> set ?warnings" for x
  proof -
    have caps: "\<not> is_error x" if "x \<in> set (capped issues n)" "\<forall>y \<in> set issues. \<not> is_error y" for issues n
      using that by (auto simp: capped_def is_error_def split: if_splits list.splits dest: in_set_takeD)
    have rules: "\<not> is_error y" if "y \<in> set (concat (map (\<lambda>node. issue_if (b node) (lintWarning c (m node) (place node))) ns))"
      for y b c m place and ns :: "'a ContextGraphNode list"
      using that by (auto simp: issue_if_def is_error_def split: if_splits)
    have ruled: "\<not> is_error x"
      if "x \<in> set (capped (concat (map (\<lambda>node. issue_if (b node) (lintWarning c (m node) (place node))) ns)) n)"
      for b c m place n and ns :: "'a ContextGraphNode list"
      by (rule caps [OF that]) (use rules in blast)
    have skips: "\<not> is_error x" if "x \<in> set (summarizeSkips skipped)" using that by (auto simp: summarizeSkips_def is_error_def)
    show ?thesis using that unfolding warningIssues_def Let_def set_append by (elim UnE) (erule ruled skips)+
  qed
  with kept show ?thesis using assms by (auto simp: runContextGraphLint_def Let_def lint_ok_def filter_empty_conv)
qed

lemma demo_lint:
  "\<exists>issues. runContextGraphLint demo_host collate demo_snapshot None (Some [[97] \<mapsto> demo_hash]) [] = Some issues \<and> lint_ok issues"
proof (rule quiet_lint)
  let ?index = "buildContextGraphIndex (lh_lower demo_host) demo_snapshot"
  show "structuralIssues demo_snapshot = []"
    by (simp add: structuralIssues_def validateContextGraphSnapshot_def Let_def scan_node_def validateNode_def validateEdge_def
        below_def over_def issue_if_def)
  show "pathSafetyIssues (lh_symlink_escape demo_host) demo_snapshot = []"
    by (simp add: pathSafetyIssues_def check_node_path_def check_edge_path_def check_path_def Let_def demo_host_def
        paths_test_writer isWorkspaceRelativePosixPath_def drive_prefix_def js_def)
  show "secretIssues (lh_secret demo_host) (lh_env demo_host) demo_snapshot = []"
    by (simp add: secretIssues_def demo_host_def environmentValues_def nodeValues_def edgeValues_def)
  show "determinismIssues (lh_ratText demo_host) (lh_numText demo_host) demo_snapshot = []"
    by (simp add: determinismIssues_def Let_def sortContextGraphNodes_def sortContextGraphEdges_def orderedEdge_again)
  show "hashIssues (lh_ratText demo_host) (lh_numText demo_host) (lh_sha256 demo_host) demo_snapshot None = []"
    by (simp add: hashIssues_def computeContextGraphSnapshotHash_def demo_host_def)
  show "protectedGateIssues ?index = []"
    by (simp add: protectedGateIssues_def buildContextGraphIndex_def issue_if_def grounds_def ids_at_def freeze_keys_def push_key_def
        SOURCE_RELATION_KINDS_def)
  have "graph_edges (manifest_targets demo_snapshot) = {([98], [97])}"
    by (auto simp: graph_edges_def manifest_targets_set manifest_links_def)
  then show "manifestCycleIssues collate demo_snapshot = Some []"
    using demo_components [OF manifest.finite_graph_axioms] by (simp add: manifestCycleIssues_def manifest_edges_def)
  show "freshnessClaimIssues demo_snapshot (Some [[97] \<mapsto> demo_hash]) = []"
    by (simp add: freshnessClaimIssues_def Let_def issue_if_def object_get_def)
qed

theorem linted_graph_encodes_witness:
  "\<exists>idx interner. index_nodes 0 Map.empty (map n_id (sort_key n_id (s_nodes demo_snapshot))) = Inr idx
    \<and> intern_graph (\<lambda>_. [48]) idx (sort_key n_id (s_nodes demo_snapshot)) (s_edges demo_snapshot) = Inr interner"
proof -
  obtain issues where "runContextGraphLint demo_host (\<lambda>s. s) demo_snapshot None (Some [[97] \<mapsto> demo_hash]) [] = Some issues" "lint_ok issues"
    using demo_lint by blast
  then show ?thesis by (rule linted_graph_encodes) (simp add: arrays_fit_def)
qed

theorem linted_gates_grounded_witness:
  "\<exists>e \<in> set (s_edges demo_snapshot). \<exists>other \<in> set (s_nodes demo_snapshot). n_kind other \<in> SOURCE_RELATION_KINDS
    \<and> (e_from e = n_id demo_gate \<and> e_to e = n_id other \<or> e_to e = n_id demo_gate \<and> e_from e = n_id other)"
proof -
  obtain issues where "runContextGraphLint demo_host (\<lambda>s. s) demo_snapshot None (Some [[97] \<mapsto> demo_hash]) [] = Some issues" "lint_ok issues"
    using demo_lint by blast
  then show ?thesis by (rule linted_gates_grounded) simp_all
qed

section \<open>The hash\<close>

definition demo_draft :: "unit ContextGraphSnapshotDraft" where
  "demo_draft = \<lparr>df_nodes = [demo_gate, demo_file], df_edges = [demo_edge], df_cycles = [], df_extractors = []\<rparr>"

definition late_draft :: "unit ContextGraphSnapshotDraft" where
  "late_draft = \<lparr>df_nodes = [demo_file, demo_gate], df_edges = [demo_edge\<lparr>e_observedAt := [49]\<rparr>], df_cycles = [], df_extractors = []\<rparr>"

lemma demo_same: "same_content demo_draft late_draft" "distinct_ids demo_draft"
  by (simp_all add: same_content_def distinct_ids_def demo_draft_def late_draft_def orderedEdge_def)

theorem snapshot_order_free_witness:
  "demo_draft \<noteq> late_draft
   \<and> computeContextGraphSnapshotHash (lh_ratText demo_host) (lh_numText demo_host) (\<lambda>s. s) demo_draft
     = computeContextGraphSnapshotHash (lh_ratText demo_host) (lh_numText demo_host) (\<lambda>s. s) late_draft"
  using snapshot_order_free [OF demo_same, of "lh_ratText demo_host" "lh_numText demo_host" "\<lambda>s. s"]
  by (auto simp: demo_draft_def late_draft_def dest: arg_cong [of _ _ n_id])

theorem hash_input_exact_witness: "demo_draft \<noteq> late_draft \<and> canonical demo_draft = canonical late_draft"
proof -
  let ?rat = "lh_ratText demo_host" and ?num = "lh_numText demo_host"
  have numbers: "draft_numbers demo_draft \<union> draft_numbers late_draft \<subseteq> {0, 1}"
    by (auto simp: draft_numbers_def node_numbers_def opt_ints_def demo_draft_def late_draft_def)
  have "canonical demo_draft = canonical late_draft"
  proof (rule hash_input_exact)
    show "inj_on ?rat (draft_numbers demo_draft \<union> draft_numbers late_draft)"
      by (rule inj_on_subset [OF _ numbers]) (simp add: demo_host_def)
    show "inj ?num" by (simp add: inj_def)
    show "number_texts (\<lambda>t. t) (range ?rat \<union> range ?num)" by (auto simp: number_texts_def demo_host_def js_def)
    show "list_all finite_numbers (df_nodes demo_draft)" "list_all finite_numbers (df_nodes late_draft)"
      by (simp_all add: demo_draft_def late_draft_def finite_numbers_def finite_number_def)
    show "canonicalContextGraphHashInput ?rat ?num demo_draft = canonicalContextGraphHashInput ?rat ?num late_draft"
      by (simp add: canonicalContextGraphHashInput_def same_hash_input [OF demo_same])
  qed
  then show ?thesis by (auto simp: demo_draft_def late_draft_def dest: arg_cong [of _ _ n_id])
qed

section \<open>The cycles and the compile\<close>

definition loop_snapshot :: "unit ContextGraphSnapshot" where
  "loop_snapshot = demo_snapshot\<lparr>s_edges := [demo_edge, demo_edge\<lparr>e_id := [102], e_from := [97], e_to := [98]\<rparr>]\<rparr>"

theorem cycles_exact_witness:
  "\<exists>cs. cyclesOf (\<lambda>s. s) (\<lambda>s. s) (\<lambda>_. demo_hash) loop_snapshot = Some cs \<and> [[97], [98]] \<in> set (map cy_nodes cs)"
proof -
  have "snapshot_links loop_snapshot = (\<lambda>e. (e_from e, e_to e)) ` set (filter (\<lambda>e. e_to e \<noteq> []) (s_edges loop_snapshot))"
    by (auto simp: snapshot_links_def)
  then have links: "snapshot_links loop_snapshot = {([98], [97]), ([97], [98])}" by (simp add: loop_snapshot_def)
  have reach: "x \<in> {[97], [98]}" if "([97], x) \<in> (snapshot_links loop_snapshot)\<^sup>*" for x
    using that by (induction rule: rtrancl_induct) (auto simp: links)
  have "([97], [98]) \<in> snapshot_links loop_snapshot" "([98], [97]) \<in> snapshot_links loop_snapshot" by (simp_all add: links)
  then have both: "scc (snapshot_links loop_snapshot) [97] = {[97], [98]}"
    using reach by (auto simp: scc_def)
  have "distinct (map e_id (s_edges loop_snapshot))" by (simp add: loop_snapshot_def)
  from cycles_exact [OF this, of "\<lambda>s. s" "\<lambda>s. s" "\<lambda>_. demo_hash"] obtain cs where
    cs: "cyclesOf (\<lambda>s. s) (\<lambda>s. s) (\<lambda>_. demo_hash) loop_snapshot = Some cs"
    and set_cs: "set (map cy_nodes cs) = {sorted_list_of_set (scc (snapshot_links loop_snapshot) u) | u.
        (\<exists>v \<in> set (map n_id (s_nodes loop_snapshot)). (v, u) \<in> (snapshot_links loop_snapshot)\<^sup>*)
          \<and> 1 < card (scc (snapshot_links loop_snapshot) u)}" by blast
  have "sorted_list_of_set (scc (snapshot_links loop_snapshot) [97]) \<in> set (map cy_nodes cs)"
    unfolding set_cs using both by (intro CollectI exI [of _ "[97]"]) (auto simp: loop_snapshot_def)
  moreover have "sorted_list_of_set {[97], [98::16 word]} = [[97], [98]]" by simp
  ultimately show ?thesis using cs both by auto
qed

definition demo_input :: CompileContextGraphInput where
  "demo_input = \<lparr>ci_changedPaths = None, ci_maxNodes = 0, ci_maxEdges = 0, ci_observedAt = [48],
     ci_cacheKey = \<lparr>ck_key = [107], ck_parts = \<lparr>pk_sourcePolicy = None, pk_sourceInventoryHash = None, pk_workspaceIdentity = [119],
       pk_head = None, pk_gitState = Git_unknown, pk_trackedDirtyFingerprint = [], pk_untrackedFingerprint = [],
       pk_schemaRevision = CONTEXT_GRAPH_SCHEMA_REVISION, pk_tsconfigHash = [], pk_commandManifestHash = [], pk_gateManifestHash = [],
       pk_proofIndexHash = [], pk_wikiContextHash = []\<rparr>, ck_reusable = False, ck_reasons = [Git_state_unknown], ck_dirtyPaths = []\<rparr>,
     ci_useFragmentCache = True, ci_persistArtifacts = True, ci_useCompileLock = True\<rparr>"

definition demo_workspace :: "unit CompileWorkspace" where
  "demo_workspace = \<lparr>cw_normalize = Some, cw_extract = (\<lambda>_ _. \<lparr>xo_fragments = [demo_fragment [120]], xo_issues = [], xo_cacheHits = [], xo_blockers = []\<rparr>),
     cw_digest = demo_digest, cw_snapshotLoad = None, cw_metaLoad = None, cw_previousSnapshotHash = Some [104], cw_durationMs = 5\<rparr>"

lemma demo_compile:
  "\<exists>r effects. compileContextGraph demo_host (\<lambda>s. s) demo_workspace Locks_taken demo_input = Some (r, effects)
     \<and> cr_ok r \<and> cr_snapshot r = Some demo_snapshot"
proof -
  obtain lint where lint: "runContextGraphLint demo_host (\<lambda>s. s) demo_snapshot None (Some [[97] \<mapsto> demo_hash]) [] = Some lint" "lint_ok lint"
    using demo_lint by blast
  then show ?thesis
    by (simp add: compileContextGraph_def compileLocked_def compile_fragments_def Let_def demo_merge demo_freshness demo_caps(2) demo_build
        compile_verdict_def compile_committed_def lint_ok_def normalizeChangedPaths_def demo_workspace_def demo_input_def)
qed


theorem compile_publishes_witness:
  "\<exists>r effects meta. compileContextGraph demo_host (\<lambda>s. s) demo_workspace Locks_taken demo_input = Some (r, effects)
     \<and> Write_snapshot demo_snapshot meta \<in> set effects \<and> mt_snapshotHash meta = demo_hash \<and> mt_previousSnapshotHash meta = Some [104]
     \<and> map event_type effects = [Some Compile_started, None, Some Compile_committed]"
proof -
  obtain r effects where r: "compileContextGraph demo_host (\<lambda>s. s) demo_workspace Locks_taken demo_input = Some (r, effects)" "cr_ok r"
      "cr_snapshot r = Some demo_snapshot"
    using demo_compile by blast
  have fields: "ci_persistArtifacts demo_input" "cw_previousSnapshotHash demo_workspace = Some [104]"
    by (simp_all add: demo_input_def demo_workspace_def)
  from compile_publishes [OF r(1)] r(2,3) fields obtain meta where "cr_meta r = Some meta" "mt_snapshotHash meta = demo_hash"
      "mt_previousSnapshotHash meta = Some [104]" "Write_snapshot demo_snapshot meta \<in> set effects"
      "map event_type effects = [Some Compile_started, None, Some Compile_committed]"
    by auto
  with r(1) show ?thesis by (intro exI [of _ r] exI [of _ effects] exI [of _ meta]) simp
qed

end
