(* ===== verification/Spec2Isabelle.thy ===== *)
theory Spec2Isabelle
  imports Reader_Errors Kernel_Encoded Kernel_Traverse Hydrate_Kernel Compiler_Example
begin

text \<open>
  Sneakoscope (\<open>sks\<close>) keeps a graph of a workspace, the TriWiki context graph: files, commands,
  gates, tests and decisions as nodes, typed relations between them as edges. Extractors yield
  fragments of the graph, a compiler makes one linted snapshot of them, the snapshot is
  written to one binary file, the context index, and every question an agent asks of the
  workspace is a bounded query over that file. This development models that engine,
  which lives under \<open>src/src/core/triwiki/context-graph/\<close>: the compiler from the fragments to the
  snapshot, the file format, the encoder, the reader, the tokenizer of queries and fields, the query
  kernel from a request to the selected candidates, and the hydration of what was selected. All file
  names below are relative to that directory.

  Parts and how they interact. \<open>compiler/index.ts\<close> merges the fragments over what it reuses of the
  last generation, marks what is stale, applies the caps, builds the canonical snapshot with its
  cycles and its hash, and lints it; a snapshot without an error is published. \<open>runtime-index/writer.ts\<close> turns a snapshot into bytes;
  \<open>runtime-index/reader.ts\<close> opens bytes, validates them once and then answers lookups by offset
  arithmetic; \<open>query/kernel.ts\<close> takes an open reader and a request, resolves a plan, seeds a
  candidate table through three lanes, closes it over the safety relations, walks the graph best
  first, fuses the scores and selects within a token budget; \<open>query/hydrate.ts\<close> turns the selection
  into nodes with their provenance and an explanation each. The encoder and the reader share the
  layout contract of \<open>runtime-index/format-contract.ts\<close>; the kernel sees the reader through the
  interface of \<open>reader-types.ts\<close>; the plan uses the tokenizer the index was built with.

  Conventions. A JavaScript string is the list of its 16-bit code units (\<open>js_string\<close>, Utf8), a
  \<open>Uint8Array\<close> a list of 8-bit words (\<open>bytes\<close>, Bytes). What throws in the code is \<open>Inl\<close> of a
  \<open>js_error\<close>, what returns is \<open>Inr\<close> (\<open>res\<close>, Prelude), sequenced with \<open>rbind\<close>. A class is a record and
  each method a function that takes and returns it, under the name of the method; memo fields
  of the reader are threaded too. Writes to an \<open>Int32Array\<close> go through \<open>to_int32\<close>; masks are
  integers with the bit operations of the library; counters the code keeps as safe integers are
  \<open>nat\<close> or \<open>int\<close>. The decimals of the ranking configuration and the scale of fixed point are
  rationals, so that a rounding to an integer is exact where the code's is correctly rounded. The
  injected clock is a function of how often it has been read.

  Theories, the code they model and what is shown there.

  \<^item> Prelude, Bytes, Utf8: results, byte access of \<open>DataView\<close>, \<open>TextEncoder\<close> and \<open>TextDecoder\<close>; that
    decoding inverts encoding on the strings the codecs carry.
  \<^item> Contracts: the vocabulary of \<open>contracts.ts\<close>.
  \<^item> Format_Contract, Format_Primitives, Format_Header, Format_Sections: \<open>format-contract.ts\<close>,
    \<open>format-primitives.ts\<close>, \<open>format-header.ts\<close>, \<open>format-sections.ts\<close>. Reading a header or a section table
    inverts encoding it; the layout, string, CSR and reference validators accept exactly what
    satisfies a declarative contract, and accepted sections are disjoint and in bounds.
  \<^item> Reader_Layout, Reader_Validate, Reader_Geometry, Reader_Cursor, Reader_Lookup, Reader_Names,
    Reader_Hydrate, Reader, Reader_Errors: \<open>reader-layout.ts\<close> to \<open>reader.ts\<close> and \<open>reader-errors.ts\<close>. Payload
    validation gives the geometry contract \<open>geometry_ok\<close>, under which no accessor reads out of bounds;
    cursors yield exactly the edges of a node, binary search finds exactly the postings of a term,
    the merge is the declarative ranking, the byte-level name test is the string-level one, and
    metadata survive the round trip through cells, under every key but \<open>__proto__\<close>. \<open>reader_ok\<close> is the invariant of an open reader.
  \<^item> Writer_Contract, Writer_Tables, Writer_Lexical, Writer_Assemble, Writer: \<open>writer-contract.ts\<close>,
    \<open>writer-tables.ts\<close>, \<open>writer-types.ts\<close>, \<open>writer-lexical.ts\<close>, \<open>writer-assemble.ts\<close>, \<open>writer.ts\<close>. The theories
    Writer_Tables_Correct, Writer_Sections, Writer_Rows, Writer_Correct and Writer_Opens show that
    every payload the encoder builds satisfies the reader's contract, so that the file opens, and
    Writer_Topology that its string table and its adjacency read back;
    Writer_Example evaluates a small snapshot. Encoded_Topology concludes that the cursors of the
    reader serve the graph of the snapshot, edge for edge.
  \<^item> Components_Core, Graph_Components, Graph_Index: \<open>graph-index.ts\<close> and the node identifiers of
    \<open>ids.ts\<close>. The iterative search for strongly connected components is a while loop of the library;
    the locale \<open>finite_graph\<close> proves that it returns exactly the components with more than one node, and is
    interpreted with the graph of a snapshot and with that of its manifest relations.
  \<^item> Compiler_Types, Compiler_Merge, Compiler_Freshness, Json, Compiler_Snapshot, Compiler_Lint,
    Compiler_Core: \<open>contracts.ts\<close> and, under \<open>compiler/\<close> and \<open>lint/\<close>, \<open>merge.ts\<close>, \<open>freshness.ts\<close>, \<open>serialize.ts\<close>,
    \<open>rules.ts\<close>, \<open>warnings.ts\<close> and the two \<open>index.ts\<close>, with the event types of \<open>store/event-log.ts\<close>. A compile
    returns its result and the list of its effects, events logged and snapshot written, in order.
    Compiler_Merge_Correct, Compiler_Freshness, Compiler_Snapshot_Correct, Compiler_Lint_Correct and
    Compiler_Core show that a merge keeps or records everything
    and the strongest evidence, that the caps keep a graph, that staleness is a closure, that the hashed text
    determines the content, that a linted graph is one the encoder takes, and that a compile returns,
    publishes exactly its successes and returns a sound snapshot. Compiler_Example takes a graph of
    two nodes through all of it.
  \<^item> Paths, Lexicon_Contract, Lexicon_Text, Lexicon_Tokenizer, Lexicon_Correct: \<open>paths.ts\<close> and the
    \<open>lexicon-contract.ts\<close>, \<open>lexicon-text.ts\<close> and \<open>lexicon-tokenizer.ts\<close> of the index. \<open>String.normalize\<close> and
    \<open>toLowerCase\<close> are the arguments \<open>nfkc\<close> and \<open>lower\<close>. Redaction leaves none of
    the prefixes of six of its seven patterns (\<open>/tmp/\<close> may be left), queries and fields give boundedly many bounded terms, and the same text gives the
    same terms on both sides.
  \<^item> Kernel_Types, Kernel_Config, Kernel_Candidates, Kernel_Plan, Kernel_Lanes, Kernel_Safety,
    Array_Heap, Kernel_Frontier, Kernel_Traverse, Kernel_Fuse, Kernel_Select, Kernel: \<open>profiles.ts\<close> and
    \<open>query-types.ts\<close> and, under \<open>query/\<close>, \<open>ranking-config.ts\<close>, \<open>kernel-types.ts\<close>, \<open>kernel-candidates.ts\<close>,
    \<open>kernel-plan.ts\<close>, \<open>kernel-lanes.ts\<close> with \<open>name-anchors.ts\<close>, \<open>kernel-safety.ts\<close>, \<open>kernel-frontier.ts\<close>,
    \<open>kernel-traverse.ts\<close>, \<open>kernel-fuse.ts\<close>, \<open>kernel-select.ts\<close> and \<open>kernel.ts\<close>. The parallel columns of the
    candidate table are a list of rows, the heap of the frontier is its array with its free list. The
    locale \<open>bounded_queue\<close> is the contract of a priority queue under any interleaving of calls; the
    frontier interprets it with the fields it publishes.
  \<^item> Kernel_Ranking, Kernel_Fuse_Correct, Kernel_Select_Correct, Kernel_Slots: the bounded rankings hold
    the best of what they were offered, fusion is the ranking of the admissible candidates and
    accounts for every other one, the selector keeps its budget and counts what it leaves out.
    Kernel_Traverse ends with the walk as an inductive step relation and a bound on its iterations.
  \<^item> Kernel, Kernel_Relation, Kernel_Correct, Kernel_Bounds, Kernel_Answers, Kernel_Encoded: whole runs,
    with worked examples at the end. The locale \<open>index_interface\<close> is what the kernel relies on of an index,
    \<open>answering_index\<close> adds that its lookups return; the binary reader interprets both. The locale
    \<open>candidate_relation\<close> carries a relation between candidate tables through every stage of the
    kernel; it is interpreted with the sizes of the table, with the soundness of exact claims and,
    over every index interface, with the table holding live nodes once each. The locales \<open>safety_step\<close>,
    \<open>safety_invariant\<close>, \<open>walk_step\<close>, \<open>walk_visits\<close> and \<open>walk_invariant\<close> do the same for the loops of the closure
    and of the walk; their termination rests on interpretations of them too. \<open>lane_relation\<close> is the
    part of \<open>candidate_relation\<close> the seed lanes need.
  \<^item> Kernel_Links: the locale \<open>graph_interface\<close> adds to an index which edges join which nodes; under it
    the parent edges of every selected candidate are a path of the index that ends at it.
  \<^item> Ids, Hydrate_Chain, Hydrate, Hydrate_Verify: the edge identity of \<open>ids.ts\<close> (the digest is the argument
    \<open>sha256\<close>) and, under \<open>query/\<close>, \<open>hydrate-chain.ts\<close>, \<open>hydrate.ts\<close> and \<open>hydrate-verify.ts\<close>. The two memos of the
    cursor are interpretations of the locale \<open>memo\<close>. Hydrate_Correct shows that every selected candidate
    is shipped or counted, that what is shipped is grounded and that explanations are paths;
    Hydrate_Verify that verification in batches is the verification of each distinct path;
    Hydrate_Example evaluates a pair of nodes.
  \<^item> Hydrate_Total, Hydrate_Kernel: the locale \<open>hydration_interface\<close> is what hydration relies on of an index
    that answers. The binary reader over an encoded file interprets it, so that whatever a query
    selects is explained.

  Bounds and termination. No fuel is used. Searches and loops over lists recurse structurally or on
  the length of an interval. The closure ends because a node enters its queue once and below
  the node cap, the walk because every iteration pops a state and every push has paid for an edge
  below the edge cap of 20,000. The search for components ends because every step takes an edge of a
  finite graph, opens a node or retires one. A node enters the queue of staleness once.

  Not modelled. The BM25 weights and the lexicon builder compute with IEEE-754 logarithms and are
  an argument of the encoder, whose validation of their result is modelled. Of the compiler, what the
  extractors, the last generation, the digest of a file, the locks and the clock yield is an argument
  (\<open>CompileWorkspace\<close>, \<open>CompileLocks\<close>), as are the patterns of secrets, the environment and the test for
  escaping symbolic links; the cache key, the fragment manifest and the formatting of log rows are
  left out. The model is typed, so the checks of the types of decoded fields vanish. The store that
  publishes generations of index files, the loading and caching facade and the v1 engine over
  in-memory graphs (\<open>query/traverse.ts\<close>, \<open>pack.ts\<close>, \<open>explain.ts\<close>) are outside. The probe that looks a path up
  on disk is an argument of verification. Numbers in metadata are opaque and rendered by an argument;
  the digest \<open>sha256\<close> is a function of which nothing is assumed.
  Where the code relies on the host for text (\<open>normalize\<close>, \<open>toLowerCase\<close>, the sort of a comparator
  that is a total order) the model takes an argument or the library's sort.
\<close>

end
